(* ===== verification/Prelude.thy ===== *)
theory Prelude
  imports Complex_Main
begin

text \<open>
  Shared vocabulary of the development: JavaScript numbers, string and list helpers the
  TypeScript sources rely on, the collections of automation rules, and two interfaces that
  several components provide (a state machine with an invariant, and a ranked scale).
\<close>

named_theorems config_simps \<open>definitions of configuration constants\<close>
named_theorems op_defs \<open>definitions of component operations\<close>

section \<open>Numbers\<close>

text \<open>
  A finite JavaScript number is a real; \<open>None\<close> stands for \<open>NaN\<close> and the infinities, so
  \<open>Number.isFinite x\<close> is \<open>x \<noteq> None\<close>. Only inputs that the code tests with
  \<open>Number.isFinite\<close> have this type. Rounding inside double arithmetic is not modelled.
\<close>

type_synonym jsnum = "real option"

definition math_round :: "real \<Rightarrow> int" where
  "math_round x = \<lfloor>x + 1/2\<rfloor>"

lemma math_round_mono: "x \<le> y \<Longrightarrow> math_round x \<le> math_round y"
  by (simp add: math_round_def floor_mono)

lemma math_round_of_int [simp]: "math_round (of_int n) = n"
  unfolding math_round_def by linarith

lemma math_round_nonneg: "0 \<le> x \<Longrightarrow> 0 \<le> math_round x"
  by (simp add: math_round_def)

lemma math_round_le: "x \<le> of_int n \<Longrightarrow> math_round x \<le> n"
  using math_round_mono [of x "of_int n"] by simp

lemma math_round_ge: "of_int n \<le> x \<Longrightarrow> n \<le> math_round x"
  using math_round_mono [of "of_int n" x] by simp

section \<open>Strings\<close>

text \<open>
  A \<open>string\<close> is the list of its UTF-16 code units; the model covers code units below 256.
  \<open>trim\<close> removes the JavaScript white space in that range.
\<close>

definition is_ws :: "char \<Rightarrow> bool" where
  "is_ws c = (of_char c \<in> {9, 10, 11, 12, 13, 32, 160 :: nat})"

definition js_trim :: "string \<Rightarrow> string" where
  "js_trim s = rev (dropWhile is_ws (rev (dropWhile is_ws s)))"

definition is_digit :: "char \<Rightarrow> bool" where
  "is_digit c = (48 \<le> (of_char c :: nat) \<and> of_char c \<le> (57 :: nat))"

definition all_digits :: "string \<Rightarrow> bool" where
  "all_digits s = (s \<noteq> [] \<and> list_all is_digit s)"

definition digits_value :: "string \<Rightarrow> int" where
  "digits_value s = foldl (\<lambda>n c. 10 * n + (int (of_char c) - 48)) 0 s"

definition to_lower_char :: "char \<Rightarrow> char" where
  "to_lower_char c =
     (if 65 \<le> (of_char c :: nat) \<and> of_char c \<le> (90 :: nat) then char_of (of_char c + 32 :: nat) else c)"

definition to_lower :: "string \<Rightarrow> string" where
  "to_lower s = map to_lower_char s"

text \<open>\<open>s.split(sep)\<close> for a one-character separator: always at least one piece.\<close>

fun split_on :: "char \<Rightarrow> string \<Rightarrow> string list" where
  "split_on sep [] = [[]]"
| "split_on sep (c # cs) =
     (if c = sep then [] # split_on sep cs
      else (case split_on sep cs of [] \<Rightarrow> [[c]] | p # ps \<Rightarrow> (c # p) # ps))"

lemma split_on_not_Nil [simp]: "split_on sep s \<noteq> []"
  by (induction s) (auto split: list.splits)

text \<open>The part before and after the first occurrence of a character (\<open>indexOf\<close> and \<open>slice\<close>).\<close>

fun split_first :: "char \<Rightarrow> string \<Rightarrow> (string \<times> string) option" where
  "split_first sep [] = None"
| "split_first sep (c # cs) =
     (if c = sep then Some ([], cs)
      else (case split_first sep cs of None \<Rightarrow> None | Some (a, b) \<Rightarrow> Some (c # a, b)))"

lemma split_first_Some: "split_first sep s = Some (a, b) \<Longrightarrow> s = a @ sep # b \<and> sep \<notin> set a"
  by (induction s arbitrary: a b) (auto split: if_splits option.splits)

lemma split_first_None: "split_first sep s = None \<longleftrightarrow> sep \<notin> set s"
  by (induction s) (auto split: option.splits)

lemma digits_value_step: "is_digit c \<Longrightarrow> 0 \<le> n \<Longrightarrow> 0 \<le> 10 * n + (int (of_char c) - 48)"
  by (simp add: is_digit_def)

lemma digits_value_nonneg:
  assumes "list_all is_digit s"
  shows "0 \<le> digits_value s"
proof -
  have "0 \<le> n \<Longrightarrow> list_all is_digit s \<Longrightarrow> 0 \<le> foldl (\<lambda>n c. 10 * n + (int (of_char c) - 48)) n s" for n :: int
    by (induction s arbitrary: n) (auto intro: digits_value_step)
  with assms show ?thesis by (simp add: digits_value_def)
qed

definition MAX_SAFE_INTEGER :: int where "MAX_SAFE_INTEGER = 9007199254740991"

text \<open>Numerals in a base, \<open>String(n)\<close> and \<open>n.toString(16)\<close> for non-negative integers.\<close>

definition digit_char :: "nat \<Rightarrow> char" where
  "digit_char d = (if d < 10 then char_of (48 + d) else char_of (87 + d))"

fun show_base :: "nat \<Rightarrow> nat \<Rightarrow> string" where
  "show_base b n = (if n < b \<or> b < 2 then [digit_char n] else show_base b (n div b) @ [digit_char (n mod b)])"

declare show_base.simps [simp del]

definition show_int :: "int \<Rightarrow> string" where
  "show_int n = (if n < 0 then CHR ''-'' # show_base 10 (nat (- n)) else show_base 10 (nat n))"

text \<open>Reading a printed number back.\<close>

lemma is_digit_char: "d < 10 \<Longrightarrow> is_digit (digit_char d)"
  by (simp add: is_digit_def digit_char_def)

lemma digits_value_snoc: "digits_value (s @ [c]) = 10 * digits_value s + (int (of_char c) - 48)"
  by (simp add: digits_value_def)

lemma show_base_digits: "all_digits (show_base 10 n)"
proof (induction n rule: less_induct)
  case (less n)
  then show ?case
    by (subst show_base.simps) (auto simp: all_digits_def is_digit_char)
qed

lemma digits_value_show: "digits_value (show_base 10 n) = int n"
proof (induction n rule: less_induct)
  case (less n)
  show ?case
  proof (cases "n < 10")
    case True
    then show ?thesis by (subst show_base.simps) (simp add: digits_value_def digit_char_def)
  next
    case False
    then have "digits_value (show_base 10 n) = 10 * int (n div 10) + int (n mod 10)"
      using less [of "n div 10"] by (subst show_base.simps) (simp add: digits_value_snoc digit_char_def)
    then show ?thesis by presburger
  qed
qed

lemma show_int_nonempty [simp]: "show_int n \<noteq> []"
  using show_base_digits [of "nat n"] by (auto simp: show_int_def all_digits_def)

definition starts_with :: "string \<Rightarrow> string \<Rightarrow> bool" where
  "starts_with p s = (take (length p) s = p)"

fun str_includes :: "string \<Rightarrow> string \<Rightarrow> bool" where
  "str_includes p [] = (p = [])"
| "str_includes p (c # cs) = (starts_with p (c # cs) \<or> str_includes p cs)"

text \<open>\<open>xs.join(sep)\<close>.\<close>

fun join :: "string \<Rightarrow> string list \<Rightarrow> string" where
  "join sep [] = []"
| "join sep [x] = x"
| "join sep (x # xs) = x @ sep @ join sep xs"

section \<open>Insertion-ordered maps\<close>

text \<open>
  A JavaScript \<open>Map\<close> as an association list in insertion order: \<open>set\<close> on a present key keeps
  its place, on a new key appends; \<open>get\<close> is \<open>map_of\<close>; \<open>keys().next()\<close> is the head.
\<close>

fun jsmap_set :: "'k \<Rightarrow> 'v \<Rightarrow> ('k \<times> 'v) list \<Rightarrow> ('k \<times> 'v) list" where
  "jsmap_set k v [] = [(k, v)]"
| "jsmap_set k v ((k', v') # m) = (if k' = k then (k, v) # m else (k', v') # jsmap_set k v m)"

definition jsmap_delete :: "'k \<Rightarrow> ('k \<times> 'v) list \<Rightarrow> ('k \<times> 'v) list" where
  "jsmap_delete k m = filter (\<lambda>e. fst e \<noteq> k) m"

lemma map_of_jsmap_set: "map_of (jsmap_set k v m) = (map_of m)(k \<mapsto> v)"
  by (induction m) (auto simp: fun_eq_iff)

lemma map_of_jsmap_delete: "map_of (jsmap_delete k m) = (map_of m)(k := None)"
  by (induction m) (auto simp: jsmap_delete_def fun_eq_iff)

lemma keys_jsmap_set: "fst ` set (jsmap_set k v m) = insert k (fst ` set m)"
  by (induction k v m rule: jsmap_set.induct) (simp_all add: insert_commute)

lemma distinct_jsmap_set: "distinct (map fst m) \<Longrightarrow> distinct (map fst (jsmap_set k v m))"
proof (induction m)
  case (Cons e m)
  obtain k' v' where "e = (k', v')" by (cases e)
  with Cons show ?case using keys_jsmap_set [of k v m] by auto
qed simp

lemma distinct_jsmap_delete: "distinct (map fst m) \<Longrightarrow> distinct (map fst (jsmap_delete k m))"
  by (simp add: jsmap_delete_def distinct_map_filter)

lemmas jsmap_laws = map_of_jsmap_set map_of_jsmap_delete keys_jsmap_set
  distinct_jsmap_set distinct_jsmap_delete

section \<open>Lists\<close>

text \<open>\<open>[...new Set(xs)]\<close>: duplicates removed, first occurrences kept in order.\<close>

definition dedup_first :: "'a list \<Rightarrow> 'a list" where
  "dedup_first xs = rev (remdups (rev xs))"

lemma set_dedup_first [simp]: "set (dedup_first xs) = set xs"
  by (simp add: dedup_first_def)

lemma distinct_dedup_first [simp]: "distinct (dedup_first xs)"
  by (simp add: dedup_first_def)

text \<open>The first key of a list that a table holds, with its value.\<close>

primrec lookup_first :: "('k \<rightharpoonup> 'v) \<Rightarrow> 'k list \<Rightarrow> ('k \<times> 'v) option" where
  "lookup_first m [] = None"
| "lookup_first m (k # ks) = (case m k of Some v \<Rightarrow> Some (k, v) | None \<Rightarrow> lookup_first m ks)"

lemma lookup_first_Some: "lookup_first m ks = Some (k, v) \<Longrightarrow> k \<in> set ks \<and> m k = Some v"
  by (induction ks) (auto split: option.splits)

lemma lookup_first_None: "lookup_first m ks = None \<longleftrightarrow> (\<forall>k\<in>set ks. m k = None)"
  by (induction ks) (auto split: option.splits)

text \<open>\<open>[...xs].sort((l, r) => r - l)\<close> on numbers: newest (largest) first.\<close>

definition sort_desc :: "int list \<Rightarrow> int list" where
  "sort_desc xs = rev (sort xs)"

lemma set_sort_desc [simp]: "set (sort_desc xs) = set xs"
  by (simp add: sort_desc_def)

lemma length_sort_desc [simp]: "length (sort_desc xs) = length xs"
  by (simp add: sort_desc_def)

lemma sorted_sort_desc: "sorted_wrt (\<ge>) (sort_desc xs)"
  by (simp add: sort_desc_def sorted_wrt_rev)

lemma distinct_sort_desc [simp]: "distinct (sort_desc xs) = distinct xs"
  by (simp add: sort_desc_def)

text \<open>The newest \<open>n\<close> of a list of numbers: what is left out is never newer than what is kept.\<close>

lemma sorted_wrt_take_drop:
  assumes "sorted_wrt P xs" "x \<in> set (take n xs)" "y \<in> set (drop n xs)"
  shows "P x y"
  using assms by (metis append_take_drop_id sorted_wrt_append)

lemma take_sort_desc_newest:
  assumes "x \<in> set (take n (sort_desc xs))" "y \<in> set xs" "y \<notin> set (take n (sort_desc xs))"
  shows "y \<le> x"
proof -
  have "y \<in> set (drop n (sort_desc xs))"
    using assms(2,3) by (metis Un_iff append_take_drop_id set_append set_sort_desc)
  with assms(1) sorted_sort_desc [of xs] show ?thesis
    by (auto dest: sorted_wrt_take_drop)
qed

section \<open>State machines with an invariant\<close>

text \<open>
  A component whose operations all keep an invariant: the run over any list of events keeps it.
  Interpreted by every component below that keeps state.
\<close>

locale machine =
  fixes step :: "'s \<Rightarrow> 'e \<Rightarrow> 's"
    and inv :: "'s \<Rightarrow> bool"
  assumes step_inv: "inv s \<Longrightarrow> inv (step s e)"
begin

lemma run_inv: "inv s \<Longrightarrow> inv (foldl step s es)"
  by (induction es arbitrary: s) (auto intro: step_inv)

lemma run_all_inv: "inv s \<Longrightarrow> inv (foldl step s (take n es))"
  by (rule run_inv)

end

text \<open>A machine with a quantity no step lowers (a generation, a version, a watermark).\<close>

locale monotone_machine = machine step inv
  for step :: "'s \<Rightarrow> 'e \<Rightarrow> 's" and inv :: "'s \<Rightarrow> bool" +
  fixes level :: "'s \<Rightarrow> int"
  assumes step_level: "inv s \<Longrightarrow> level s \<le> level (step s e)"
begin

lemma run_level: "inv s \<Longrightarrow> level s \<le> level (foldl step s es)"
proof (induction es arbitrary: s)
  case (Cons e es)
  from Cons.prems have "level s \<le> level (step s e)" by (rule step_level)
  also have "\<dots> \<le> level (foldl step (step s e) es)"
    by (rule Cons.IH) (rule step_inv [OF Cons.prems])
  finally show ?case by simp
qed simp

end

section \<open>Loops that settle\<close>

text \<open>
  The bounded repair loops of the code: repeat a pass until it changes nothing, at most \<open>n\<close> times.
  When every changing pass lands on one of finitely many points and strictly descends in a rank,
  one pass more than there are points is enough to reach a fixed point.
\<close>

fun settle :: "nat \<Rightarrow> ('a \<Rightarrow> 'a) \<Rightarrow> 'a \<Rightarrow> 'a" where
  "settle 0 f x = x"
| "settle (Suc n) f x = (if f x = x then x else settle n f (f x))"

locale settling =
  fixes f :: "'a \<Rightarrow> 'a"
    and points :: "'a set"
    and rank :: "'a \<Rightarrow> int"
  assumes finite_points: "finite points"
    and pass: "f x = x \<or> (f x \<in> points \<and> rank (f x) < rank x)"
begin

lemma settle_fixed_below:
  "card {p \<in> points. rank p < rank x} < n \<Longrightarrow> f (settle n f x) = settle n f x"
proof (induction n arbitrary: x)
  case (Suc n)
  show ?case
  proof (cases "f x = x")
    case False
    with pass [of x] have fx: "f x \<in> points" "rank (f x) < rank x" by auto
    have "{p \<in> points. rank p < rank (f x)} \<subset> {p \<in> points. rank p < rank x}"
      using fx by auto
    then have "card {p \<in> points. rank p < rank (f x)} < card {p \<in> points. rank p < rank x}"
      using finite_points by (intro psubset_card_mono) auto
    with Suc.prems have "f (settle n f (f x)) = settle n f (f x)" by (intro Suc.IH) simp
    with False show ?thesis by simp
  qed simp
qed simp

lemma settle_fixed: "card points < n \<Longrightarrow> f (settle n f x) = settle n f x"
  by (rule settle_fixed_below, rule le_less_trans [OF card_mono [OF finite_points]]) auto

lemma settle_rank: "rank (settle n f x) \<le> rank x"
proof (induction n arbitrary: x)
  case (Suc n)
  show ?case using Suc.IH [of "f x"] pass [of x] by auto
qed simp

lemma settle_cases: "settle n f x = x \<or> settle n f x \<in> points"
proof (induction n arbitrary: x)
  case (Suc n)
  show ?case using Suc.IH [of "f x"] pass [of x] by auto
qed simp

end

end
