(* ===== verification/Execution_Policy.thy ===== *)
theory Execution_Policy
  imports Prelude
begin

text \<open>
  When a pass may rebuild the rendered context: the execute threshold
  (\<open>hooks/magic-context/event-resolvers.ts\<close>, with the provider names of
  \<open>shared/harness-provider-map.ts\<close>), the escalation bands (\<open>shared/escalation-bands.ts\<close>),
  the scheduler (\<open>features/magic-context/scheduler.ts\<close>), the mid-turn deferral
  (\<open>hooks/magic-context/boundary-execution.ts\<close>) and the derived token budgets
  (\<open>hooks/magic-context/derive-budgets.ts\<close>). Warnings written to the log are not modelled.
\<close>

section \<open>Escalation bands\<close>

definition MAX_EXECUTE_THRESHOLD :: real where [config_simps]: "MAX_EXECUTE_THRESHOLD = 90"
definition ABSOLUTE_EMERGENCY_PERCENTAGE :: real where [config_simps]: "ABSOLUTE_EMERGENCY_PERCENTAGE = 95"

record escalation_bands =
  forceMaterializationPercentage :: real
  emergencyPercentage :: real

definition escalationBands :: "jsnum \<Rightarrow> escalation_bands" where
  "escalationBands effectiveThresholdPercentage =
     (let threshold = (case effectiveThresholdPercentage of
            Some x \<Rightarrow> min x MAX_EXECUTE_THRESHOLD | None \<Rightarrow> 65)
      in \<lparr>forceMaterializationPercentage = max 85 (threshold + 2),
          emergencyPercentage = ABSOLUTE_EMERGENCY_PERCENTAGE\<rparr>)"

lemma force_band_bounds:
  "85 \<le> forceMaterializationPercentage (escalationBands t)"
  "forceMaterializationPercentage (escalationBands t) \<le> 92"
  by (auto simp: escalationBands_def config_simps split: option.splits)

lemma force_band_above:
  "x \<le> 90 \<Longrightarrow> x < forceMaterializationPercentage (escalationBands (Some x))"
  by (auto simp: escalationBands_def config_simps)

lemma emergency_band [simp]: "emergencyPercentage (escalationBands t) = 95"
  by (simp add: escalationBands_def config_simps Let_def)

section \<open>Provider names and model keys\<close>

definition CANONICAL_TO_PI_PROVIDER :: "string \<rightharpoonup> string" where
  "CANONICAL_TO_PI_PROVIDER = [''openai'' \<mapsto> ''openai-codex'', ''google'' \<mapsto> ''google-antigravity'']"

definition PI_TO_CANONICAL_PROVIDER :: "string \<rightharpoonup> string" where
  "PI_TO_CANONICAL_PROVIDER = [''openai-codex'' \<mapsto> ''openai'', ''google-antigravity'' \<mapsto> ''google'']"

definition CANONICAL_TO_OMP_PROVIDER :: "string \<rightharpoonup> string" where
  "CANONICAL_TO_OMP_PROVIDER = [''openai'' \<mapsto> ''openai-codex'', ''google'' \<mapsto> ''google-antigravity'']"

definition OMP_TO_CANONICAL_PROVIDER :: "string \<rightharpoonup> string" where
  "OMP_TO_CANONICAL_PROVIDER = [''openai-codex'' \<mapsto> ''openai'', ''google-antigravity'' \<mapsto> ''google'']"

lemmas provider_tables = CANONICAL_TO_PI_PROVIDER_def PI_TO_CANONICAL_PROVIDER_def
  CANONICAL_TO_OMP_PROVIDER_def OMP_TO_CANONICAL_PROVIDER_def

definition remapProviderPrefix :: "string \<Rightarrow> (string \<rightharpoonup> string) \<Rightarrow> string" where
  "remapProviderPrefix ref m =
     (case split_first (CHR ''/'') ref of
        None \<Rightarrow> ref
      | Some (provider, rest) \<Rightarrow>
          if provider = [] then ref
          else (case m provider of None \<Rightarrow> ref | Some p \<Rightarrow> p @ CHR ''/'' # rest))"

definition piModelRefToCanonical :: "string \<Rightarrow> string" where
  "piModelRefToCanonical ref = remapProviderPrefix ref PI_TO_CANONICAL_PROVIDER"

definition resolveModelRefForPi :: "string \<Rightarrow> string" where
  "resolveModelRefForPi ref = remapProviderPrefix (piModelRefToCanonical ref) CANONICAL_TO_PI_PROVIDER"

definition ompModelRefToCanonical :: "string \<Rightarrow> string" where
  "ompModelRefToCanonical ref = remapProviderPrefix ref OMP_TO_CANONICAL_PROVIDER"

definition resolveModelRefForOmp :: "string \<Rightarrow> string" where
  "resolveModelRefForOmp ref = remapProviderPrefix (ompModelRefToCanonical ref) CANONICAL_TO_OMP_PROVIDER"

definition modelRefLookupOrder :: "string \<Rightarrow> string list" where
  "modelRefLookupOrder ref =
     (let canonical = piModelRefToCanonical (ompModelRefToCanonical ref)
      in dedup_first [canonical, ref, resolveModelRefForPi canonical, resolveModelRefForOmp canonical])"

text \<open>The model id and its prefixes before each last dash, from most to least specific.\<close>

function model_id_chain :: "string \<Rightarrow> string list" where
  "model_id_chain m =
     (if m = [] then []
      else m # (case split_first (CHR ''-'') (rev m) of
                  None \<Rightarrow> []
                | Some (a, b) \<Rightarrow> if b = [] then [] else model_id_chain (rev b)))"
  by pat_completeness auto
termination
proof (relation "measure length", simp)
  fix m :: string and x a b
  assume "m \<noteq> []" "split_first (CHR ''-'') (rev m) = Some x" "(a, b) = x" "b \<noteq> []"
  then have "rev m = a @ CHR ''-'' # b" by (auto dest: split_first_Some)
  then have "length m = length a + Suc (length b)" by (metis length_rev length_append length_Cons)
  then show "(rev b, m) \<in> measure length" by simp
qed

declare model_id_chain.simps [simp del]

definition modelKeyLookupOrder :: "string \<Rightarrow> string list" where
  "modelKeyLookupOrder modelKey =
     (case split_first (CHR ''/'') modelKey of
        None \<Rightarrow> model_id_chain modelKey
      | Some (_, modelId) \<Rightarrow>
          concat (map (\<lambda>m. map (\<lambda>ref. (case split_first (CHR ''/'') ref of
                                         Some (p, _) \<Rightarrow> p | None \<Rightarrow> butlast ref) @ CHR ''/'' # m)
                             (modelRefLookupOrder modelKey) @ [m])
                 (model_id_chain modelId)))"

section \<open>Execute threshold\<close>

datatype threshold_config = ThresholdNumber jsnum | ThresholdTable "string \<rightharpoonup> jsnum"
datatype threshold_mode = PercentageMode | TokensMode

record threshold_detail =
  td_percentage :: real
  td_mode :: threshold_mode
  td_absoluteTokens :: "int option"
  td_matchedKey :: "string option"
  td_clamped :: bool
  td_configuredValue :: "real option"

record threshold_options =
  to_tokensConfig :: "(string \<rightharpoonup> jsnum) option"
  to_contextLimit :: "jsnum option"

definition truthy_key :: "string option \<Rightarrow> string option" where
  "truthy_key k = (case k of Some [] \<Rightarrow> None | _ \<Rightarrow> k)"

definition resolveTokensMatchWithKey :: "(string \<rightharpoonup> jsnum) \<Rightarrow> string option \<Rightarrow> (string \<times> jsnum) option" where
  "resolveTokensMatchWithKey tokensConfig modelKey =
     (case (case truthy_key modelKey of
              Some k \<Rightarrow> lookup_first tokensConfig (modelKeyLookupOrder k)
            | None \<Rightarrow> None) of
        Some m \<Rightarrow> Some m
      | None \<Rightarrow> map_option (\<lambda>v. (''default'', v)) (tokensConfig ''default''))"

definition tokens_threshold_detail :: "real \<Rightarrow> real \<Rightarrow> string \<Rightarrow> threshold_detail" where
  "tokens_threshold_detail contextLimit value matched =
     (let cap = contextLimit * (MAX_EXECUTE_THRESHOLD / 100);
          effectiveTokens = min value cap;
          percentage = (effectiveTokens / contextLimit) * 100
      in \<lparr>td_percentage = min percentage MAX_EXECUTE_THRESHOLD, td_mode = TokensMode,
          td_absoluteTokens = Some \<lfloor>effectiveTokens\<rfloor>, td_matchedKey = Some matched,
          td_clamped = (effectiveTokens < value),
          td_configuredValue = (if effectiveTokens < value then Some value else None)\<rparr>)"

definition resolve_percentage_config ::
  "threshold_config \<Rightarrow> string option \<Rightarrow> real \<Rightarrow> jsnum \<times> string option" where
  "resolve_percentage_config config modelKey fallback =
     (case config of
        ThresholdNumber x \<Rightarrow> (x, None)
      | ThresholdTable t \<Rightarrow>
          (case (case truthy_key modelKey of
                   Some k \<Rightarrow> lookup_first t (modelKeyLookupOrder k) | None \<Rightarrow> None) of
             Some (k, v) \<Rightarrow> (v, Some k)
           | None \<Rightarrow> (case t ''default'' of
                        Some v \<Rightarrow> (v, Some ''default'')
                      | None \<Rightarrow> (Some fallback, None))))"

definition percentage_threshold_detail ::
  "threshold_config \<Rightarrow> string option \<Rightarrow> real \<Rightarrow> threshold_detail" where
  "percentage_threshold_detail config modelKey fallback =
     (let (raw, matchedKey) = resolve_percentage_config config modelKey fallback;
          resolved = (case raw of Some x \<Rightarrow> if x < 0 then fallback else x | None \<Rightarrow> fallback);
          cappedPercentage = min resolved MAX_EXECUTE_THRESHOLD
      in \<lparr>td_percentage = cappedPercentage, td_mode = PercentageMode, td_absoluteTokens = None,
          td_matchedKey = matchedKey, td_clamped = (cappedPercentage < resolved),
          td_configuredValue = (if cappedPercentage < resolved then Some resolved else None)\<rparr>)"

definition resolveExecuteThresholdDetail ::
  "threshold_config \<Rightarrow> string option \<Rightarrow> real \<Rightarrow> threshold_options \<Rightarrow> threshold_detail" where
  "resolveExecuteThresholdDetail config modelKey fallback options =
     (case (to_tokensConfig options, to_contextLimit options) of
        (Some tokensConfig, Some (Some contextLimit)) \<Rightarrow>
          if 0 < contextLimit then
            (case resolveTokensMatchWithKey tokensConfig modelKey of
               Some (matched, Some value) \<Rightarrow>
                 if 0 < value then tokens_threshold_detail contextLimit value matched
                 else percentage_threshold_detail config modelKey fallback
             | _ \<Rightarrow> percentage_threshold_detail config modelKey fallback)
          else percentage_threshold_detail config modelKey fallback
      | _ \<Rightarrow> percentage_threshold_detail config modelKey fallback)"

definition resolveExecuteThreshold ::
  "threshold_config \<Rightarrow> string option \<Rightarrow> real \<Rightarrow> threshold_options \<Rightarrow> real" where
  "resolveExecuteThreshold config modelKey fallback options =
     td_percentage (resolveExecuteThresholdDetail config modelKey fallback options)"


lemma tokens_detail_bounds:
  assumes "0 < c" "0 < v"
  shows "0 \<le> td_percentage (tokens_threshold_detail c v k)"
    and "td_percentage (tokens_threshold_detail c v k) \<le> 90"
proof -
  have "0 \<le> min v (c * (90 / 100)) / c * 100" using assms by simp
  then show "0 \<le> td_percentage (tokens_threshold_detail c v k)"
    by (simp add: tokens_threshold_detail_def Let_def config_simps)
  show "td_percentage (tokens_threshold_detail c v k) \<le> 90"
    by (simp add: tokens_threshold_detail_def Let_def config_simps)
qed

lemma percentage_detail_bounds:
  "td_percentage (percentage_threshold_detail config k f) \<le> 90"
  "0 \<le> f \<Longrightarrow> 0 \<le> td_percentage (percentage_threshold_detail config k f)"
  by (auto simp: percentage_threshold_detail_def Let_def config_simps split: prod.splits option.splits)

lemma threshold_le: "resolveExecuteThreshold config k f opts \<le> 90"
  by (auto simp: resolveExecuteThreshold_def resolveExecuteThresholdDetail_def
      intro: tokens_detail_bounds percentage_detail_bounds split: option.splits prod.splits)

lemma threshold_nonneg: "0 \<le> f \<Longrightarrow> 0 \<le> resolveExecuteThreshold config k f opts"
  by (auto simp: resolveExecuteThreshold_def resolveExecuteThresholdDetail_def
      intro: tokens_detail_bounds percentage_detail_bounds split: option.splits prod.splits)

section \<open>Scheduler\<close>

datatype decision = Execute | Defer

datatype ttl = TtlNever | TtlMs int

record session_meta =
  sm_lastResponseTime :: int
  sm_cacheTtl :: string
  sm_isSubagent :: bool

record context_usage =
  cu_percentage :: real
  cu_inputTokens :: real

definition UNIT_TO_MS :: "char \<rightharpoonup> int" where
  "UNIT_TO_MS = [CHR ''s'' \<mapsto> 1000, CHR ''m'' \<mapsto> 60 * 1000, CHR ''h'' \<mapsto> 60 * 60 * 1000]"

text \<open>\<open>Inl\<close> carries the rejected string of the thrown error.\<close>

definition parseCacheTtl :: "string \<Rightarrow> string + ttl" where
  "parseCacheTtl s =
     (let t = js_trim s
      in if to_lower t = ''never'' then Inr TtlNever
         else if all_digits t then Inr (TtlMs (digits_value t))
         else if t \<noteq> [] \<and> all_digits (butlast t) then
           (case UNIT_TO_MS (last t) of
              Some u \<Rightarrow> Inr (TtlMs (digits_value (butlast t) * u))
            | None \<Rightarrow> Inl s)
         else Inl s)"

record scheduler_config =
  sc_executeThresholdPercentage :: threshold_config
  sc_executeThresholdTokens :: "(string \<rightharpoonup> jsnum) option"

definition effective_context_limit :: "context_usage \<Rightarrow> jsnum option \<Rightarrow> jsnum option" where
  "effective_context_limit usage contextLimit =
     (case contextLimit of
        Some l \<Rightarrow> Some l
      | None \<Rightarrow> if 0 < cu_percentage usage \<and> 0 < cu_inputTokens usage
                then Some (Some (cu_inputTokens usage / (cu_percentage usage / 100)))
                else None)"

definition ttl_elapsed :: "int \<Rightarrow> ttl \<Rightarrow> bool" where
  "ttl_elapsed elapsed t = (case t of TtlNever \<Rightarrow> False | TtlMs ms \<Rightarrow> ms < elapsed)"

definition shouldExecute ::
  "scheduler_config \<Rightarrow> session_meta \<Rightarrow> context_usage \<Rightarrow> int \<Rightarrow> string option \<Rightarrow> jsnum option \<Rightarrow> decision" where
  "shouldExecute config meta usage currentTime modelKey contextLimit =
     (if cu_percentage usage = 0 \<and> sm_lastResponseTime meta = 0 then Defer
      else
        let threshold = resolveExecuteThreshold (sc_executeThresholdPercentage config) modelKey 65
              \<lparr>to_tokensConfig = sc_executeThresholdTokens config,
               to_contextLimit = effective_context_limit usage contextLimit\<rparr>
        in if threshold \<le> cu_percentage usage then Execute
           else
             let ttlMs = (case parseCacheTtl (sm_cacheTtl meta) of
                    Inr t \<Rightarrow> t
                  | Inl _ \<Rightarrow> (case parseCacheTtl ''5m'' of Inr t \<Rightarrow> t | Inl _ \<Rightarrow> TtlNever))
             in if ttl_elapsed (currentTime - sm_lastResponseTime meta) ttlMs then Execute else Defer)"

section \<open>Mid-turn deferral\<close>

datatype bypass_reason = ForceMaterialize | ExplicitBust | Subagent | NoBypass

record bypass_input =
  bi_percentage :: real
  bi_isSubagent :: bool
  bi_historyRefreshSessions :: "string set"
  bi_sessionId :: string
  bi_effectiveExecuteThresholdPercentage :: jsnum

definition detectMidTurnBypassReason :: "bypass_input \<Rightarrow> bypass_reason" where
  "detectMidTurnBypassReason i =
     (if forceMaterializationPercentage (escalationBands (bi_effectiveExecuteThresholdPercentage i))
           \<le> bi_percentage i then ForceMaterialize
      else if bi_sessionId i \<in> bi_historyRefreshSessions i then ExplicitBust
      else if bi_isSubagent i then Subagent
      else NoBypass)"

datatype side_effect = SetFlag | NoEffect

definition applyMidTurnDeferral :: "decision \<Rightarrow> bypass_reason \<Rightarrow> bool \<Rightarrow> decision \<times> side_effect" where
  "applyMidTurnDeferral base bypassReason midTurn =
     (if base = Defer then (Defer, NoEffect)
      else if bypassReason \<noteq> NoBypass then (Execute, NoEffect)
      else if midTurn then (Defer, SetFlag)
      else (Execute, NoEffect))"

section \<open>Derived token budgets\<close>

definition TRIGGER_BUDGET_MIN :: int where [config_simps]: "TRIGGER_BUDGET_MIN = 5000"
definition TRIGGER_BUDGET_MAX :: int where [config_simps]: "TRIGGER_BUDGET_MAX = 50000"
definition HISTORIAN_CHUNK_MIN :: int where [config_simps]: "HISTORIAN_CHUNK_MIN = 8000"
definition HISTORIAN_CHUNK_MAX :: int where [config_simps]: "HISTORIAN_CHUNK_MAX = 50000"

definition deriveTriggerBudget :: "jsnum \<Rightarrow> real \<Rightarrow> int" where
  "deriveTriggerBudget mainContextLimit executeThresholdPercentage =
     (case mainContextLimit of
        None \<Rightarrow> TRIGGER_BUDGET_MIN
      | Some limit \<Rightarrow>
          if limit \<le> 0 then TRIGGER_BUDGET_MIN
          else let usable = limit * (max 0 executeThresholdPercentage / 100);
                   derived = math_round (usable * (5/100))
               in max TRIGGER_BUDGET_MIN (min TRIGGER_BUDGET_MAX derived))"

definition deriveHistorianChunkTokens :: "jsnum \<Rightarrow> int" where
  "deriveHistorianChunkTokens historianContextLimit =
     (case historianContextLimit of
        None \<Rightarrow> HISTORIAN_CHUNK_MIN
      | Some limit \<Rightarrow>
          if limit \<le> 0 then HISTORIAN_CHUNK_MIN
          else max HISTORIAN_CHUNK_MIN (min HISTORIAN_CHUNK_MAX (math_round (limit * (25/100)))))"

definition MAX_MEMORY_INJECTION_BUDGET_TOKENS :: int where
  [config_simps]: "MAX_MEMORY_INJECTION_BUDGET_TOKENS = 20000"

definition deriveHistorianMemoryTokens :: "jsnum \<Rightarrow> int" where
  "deriveHistorianMemoryTokens historianChunkTokens =
     (case historianChunkTokens of
        None \<Rightarrow> 0
      | Some t \<Rightarrow> if t \<le> 0 then 0 else min MAX_MEMORY_INJECTION_BUDGET_TOKENS \<lfloor>t / 2\<rfloor>)"

lemma trigger_budget_bounds:
  "5000 \<le> deriveTriggerBudget l t" "deriveTriggerBudget l t \<le> 50000"
  by (auto simp: deriveTriggerBudget_def config_simps Let_def split: option.splits)

lemma historian_chunk_bounds:
  "8000 \<le> deriveHistorianChunkTokens l" "deriveHistorianChunkTokens l \<le> 50000"
  by (auto simp: deriveHistorianChunkTokens_def config_simps split: option.splits)

section \<open>Properties\<close>

text \<open>
  For every configuration and model, the resolved execute threshold lies strictly below the
  force-materialize band derived from it, which lies strictly below the emergency wall of 95.
\<close>

theorem thresholds_strictly_ordered:
  "let t = resolveExecuteThreshold config modelKey 65 opts; b = escalationBands (Some t)
   in 0 \<le> t \<and> t < forceMaterializationPercentage b
      \<and> forceMaterializationPercentage b < emergencyPercentage b"
  using threshold_nonneg [of 65 config modelKey opts] force_band_above [OF threshold_le]
  by (auto simp: Let_def intro: le_less_trans [OF force_band_bounds(2)])

lemma pressure_schedules:
  assumes "90 \<le> cu_percentage usage"
  shows "shouldExecute cfg meta usage now key ctx = Execute"
proof -
  have "resolveExecuteThreshold c key 65 opts \<le> cu_percentage usage" for c opts
    using threshold_le [of c key 65 opts] assms by simp
  with assms show ?thesis by (simp add: shouldExecute_def Let_def)
qed

text \<open>
  Whatever the configured thresholds, cache lifetime and session state, a pass at 92 percent of
  the context window executes at once: neither the scheduler nor the mid-turn deferral holds it back.
\<close>

theorem pressure_forces_execution:
  assumes "92 \<le> cu_percentage usage" "bi_percentage i = cu_percentage usage"
  shows "applyMidTurnDeferral (shouldExecute cfg meta usage now key ctx)
           (detectMidTurnBypassReason i) midTurn = (Execute, NoEffect)"
proof -
  have "detectMidTurnBypassReason i = ForceMaterialize"
    using assms order_trans [OF force_band_bounds(2)] by (simp add: detectMidTurnBypassReason_def)
  moreover have "shouldExecute cfg meta usage now key ctx = Execute"
    using assms(1) by (intro pressure_schedules) simp
  ultimately show ?thesis by (simp add: applyMidTurnDeferral_def)
qed

theorem pressure_forces_execution_witness:
  "applyMidTurnDeferral
     (shouldExecute \<lparr>sc_executeThresholdPercentage = ThresholdNumber (Some 400), sc_executeThresholdTokens = None\<rparr>
        \<lparr>sm_lastResponseTime = 0, sm_cacheTtl = ''never'', sm_isSubagent = False\<rparr>
        \<lparr>cu_percentage = 93, cu_inputTokens = 93000\<rparr> 10 None None)
     (detectMidTurnBypassReason \<lparr>bi_percentage = 93, bi_isSubagent = False, bi_historyRefreshSessions = {},
        bi_sessionId = ''s'', bi_effectiveExecuteThresholdPercentage = Some 90\<rparr>) True = (Execute, NoEffect)"
  by (rule pressure_forces_execution) simp_all

text \<open>
  The scheduler defers exactly for a session with no usage and no response yet, or when usage is
  below the resolved threshold and the cache lifetime (five minutes when it does not parse) has not passed.
\<close>

theorem scheduler_defers_iff:
  "shouldExecute cfg meta usage now key ctx = Defer \<longleftrightarrow>
     (cu_percentage usage = 0 \<and> sm_lastResponseTime meta = 0) \<or>
     (cu_percentage usage < resolveExecuteThreshold (sc_executeThresholdPercentage cfg) key 65
          \<lparr>to_tokensConfig = sc_executeThresholdTokens cfg,
           to_contextLimit = effective_context_limit usage ctx\<rparr> \<and>
      (case parseCacheTtl (sm_cacheTtl meta) of
         Inr TtlNever \<Rightarrow> True
       | Inr (TtlMs ms) \<Rightarrow> now \<le> sm_lastResponseTime meta + ms
       | Inl _ \<Rightarrow> now \<le> sm_lastResponseTime meta + 300000))"
proof -
  have "parseCacheTtl ''5m'' = Inr (TtlMs 300000)" by code_simp
  then show ?thesis
    by (auto simp: shouldExecute_def Let_def ttl_elapsed_def not_le split: sum.splits ttl.splits if_splits)
qed

text \<open>
  A rebuild is postponed to the next turn, with the flag that remembers it, exactly when the
  scheduler asked for it in the middle of a turn below the force band, outside an explicit refresh
  and outside a subagent session; and no other outcome raises the flag.
\<close>

theorem mid_turn_flag_iff:
  "snd (applyMidTurnDeferral base (detectMidTurnBypassReason i) midTurn) = SetFlag \<longleftrightarrow>
     base = Execute \<and> midTurn
     \<and> bi_percentage i < forceMaterializationPercentage (escalationBands (bi_effectiveExecuteThresholdPercentage i))
     \<and> bi_sessionId i \<notin> bi_historyRefreshSessions i \<and> \<not> bi_isSubagent i"
  by (cases base) (auto simp: applyMidTurnDeferral_def detectMidTurnBypassReason_def)

end
