(* ===== verification/Raw_Messages.thy ===== *)
theory Raw_Messages
  imports Prelude "HOL-Library.Word" "HOL-Library.Char_ord" "HOL-Library.List_Lexorder"
begin

unbundle bit_operations_syntax

text \<open>
  Raw session messages and what the token index reads of their parts
  (\<open>hooks/magic-context/read-session-true-raw-tokens.ts\<close>,
  \<open>hooks/magic-context/read-session-formatting.ts\<close>, \<open>shared/stable-json.ts\<close>,
  \<open>shared/system-directive.ts\<close>). Parts are parsed JSON. The record \<open>runtime\<close> holds the two
  functions that are not program code: the vendored tokenizer and the formatting of numbers.
\<close>

section \<open>JSON values\<close>

datatype json =
    JNull
  | JBool bool
  | JNum real
  | JStr string
  | JArr "json list"
  | JObj "(string \<times> json) list"

record runtime =
  estimateTokens :: "string \<Rightarrow> int"
  number_text :: "real \<Rightarrow> string"

definition isRecord :: "json \<Rightarrow> bool" where
  "isRecord v = (case v of JObj _ \<Rightarrow> True | _ \<Rightarrow> False)"

definition get_field :: "json \<Rightarrow> string \<Rightarrow> json option" where
  "get_field v k = (case v of JObj es \<Rightarrow> map_of es k | _ \<Rightarrow> None)"

definition string_field :: "json \<Rightarrow> string \<Rightarrow> string" where
  "string_field v k = (case get_field v k of Some (JStr s) \<Rightarrow> s | _ \<Rightarrow> [])"

text \<open>\<open>a ?? b\<close> on fields: null and a missing field both fall through.\<close>

definition nullish_or :: "json option \<Rightarrow> json option \<Rightarrow> json option" where
  "nullish_or a b = (case a of None \<Rightarrow> b | Some JNull \<Rightarrow> b | Some v \<Rightarrow> Some v)"

fun firstStringField :: "json \<Rightarrow> string list \<Rightarrow> string option" where
  "firstStringField r [] = None"
| "firstStringField r (f # fs) =
     (case get_field r f of
        Some (JStr s) \<Rightarrow> if s \<noteq> [] then Some s else firstStringField r fs
      | _ \<Rightarrow> firstStringField r fs)"

definition escape_char :: "char \<Rightarrow> string" where
  "escape_char c =
     (let n = of_char c :: nat
      in if n = 34 then [CHR 0x5C, CHR 0x22] else if n = 92 then [CHR 0x5C, CHR 0x5C]
         else if n = 8 then [CHR 0x5C, CHR ''b''] else if n = 9 then [CHR 0x5C, CHR ''t'']
         else if n = 10 then [CHR 0x5C, CHR ''n''] else if n = 12 then [CHR 0x5C, CHR ''f'']
         else if n = 13 then [CHR 0x5C, CHR ''r'']
         else if n < 16 then CHR 0x5C # ''u000'' @ show_base 16 n
         else if n < 32 then CHR 0x5C # ''u00'' @ show_base 16 n
         else [c])"

definition quote_string :: "string \<Rightarrow> string" where
  "quote_string s = CHR 0x22 # concat (map escape_char s) @ [CHR 0x22]"

fun stableStringify :: "runtime \<Rightarrow> json \<Rightarrow> string" where
  "stableStringify rt JNull = ''null''"
| "stableStringify rt (JBool b) = (if b then ''true'' else ''false'')"
| "stableStringify rt (JNum x) = number_text rt x"
| "stableStringify rt (JStr s) = quote_string s"
| "stableStringify rt (JArr xs) = ''['' @ join '','' (map (stableStringify rt) xs) @ '']''"
| "stableStringify rt (JObj es) =
     ''{'' @ join '','' (map (\<lambda>(k, t). quote_string k @ '':'' @ t)
               (sort_key fst (map (\<lambda>(k, v). (k, stableStringify rt v)) es))) @ ''}''"

definition stringValue :: "runtime \<Rightarrow> json option \<Rightarrow> string" where
  "stringValue rt v =
     (case v of None \<Rightarrow> [] | Some JNull \<Rightarrow> [] | Some (JStr s) \<Rightarrow> s | Some x \<Rightarrow> stableStringify rt x)"

text \<open>\<open>String(v)\<close>: arrays join their elements, null elements are empty, records are opaque.\<close>

fun js_String :: "runtime \<Rightarrow> json \<Rightarrow> string" where
  "js_String rt JNull = ''null''"
| "js_String rt (JBool b) = (if b then ''true'' else ''false'')"
| "js_String rt (JNum x) = number_text rt x"
| "js_String rt (JStr s) = s"
| "js_String rt (JObj es) = ''[object Object]''"
| "js_String rt (JArr xs) = join '','' (map (\<lambda>x. if x = JNull then [] else js_String rt x) xs)"

definition content_piece :: "runtime \<Rightarrow> json \<Rightarrow> string list" where
  "content_piece rt e =
     (case e of
        JStr s \<Rightarrow> [s]
      | JObj _ \<Rightarrow> [case firstStringField e [''text'', ''content'', ''value''] of
                     Some t \<Rightarrow> t | None \<Rightarrow> stableStringify rt e]
      | JNull \<Rightarrow> []
      | _ \<Rightarrow> [js_String rt e])"

definition textFromToolResultContent :: "runtime \<Rightarrow> json \<Rightarrow> string" where
  "textFromToolResultContent rt content =
     (case content of
        JStr s \<Rightarrow> s
      | JArr es \<Rightarrow> join [CHR 0x0A] (concat (map (content_piece rt) es))
      | v \<Rightarrow> stringValue rt (Some v))"

fun recursiveByteLength :: "runtime \<Rightarrow> json \<Rightarrow> int" where
  "recursiveByteLength rt JNull = 0"
| "recursiveByteLength rt (JStr s) = int (length s)"
| "recursiveByteLength rt (JNum x) = int (length (number_text rt x))"
| "recursiveByteLength rt (JBool b) = (if b then 4 else 5)"
| "recursiveByteLength rt (JArr xs) = int (length xs) + sum_list (map (recursiveByteLength rt) xs)"
| "recursiveByteLength rt (JObj es) =
     int (length es) + sum_list (map (\<lambda>(k, v). int (length k) + recursiveByteLength rt v) es)"

section \<open>Content hash (FNV-1a, 32 bit)\<close>

definition FNV1A_32_OFFSET :: "32 word" where "FNV1A_32_OFFSET = 0x811c9dc5"
definition FNV1A_32_PRIME :: "32 word" where "FNV1A_32_PRIME = 0x01000193"

definition updateFnv1a32 :: "32 word \<Rightarrow> string \<Rightarrow> 32 word" where
  "updateFnv1a32 hash text = foldl (\<lambda>next c. (next XOR of_char c) * FNV1A_32_PRIME) hash text"

definition pad_start :: "nat \<Rightarrow> char \<Rightarrow> string \<Rightarrow> string" where
  "pad_start n c s = replicate (n - length s) c @ s"

definition contentStringsHash :: "string list \<Rightarrow> string" where
  "contentStringsHash parts =
     pad_start 8 (CHR ''0'') (show_base 16 (unat (foldl (\<lambda>hash field.
        updateFnv1a32 (updateFnv1a32 (updateFnv1a32 hash (show_int (int (length field)) @ '':'')) field) [CHR 0x00])
        FNV1A_32_OFFSET parts)))"

section \<open>Meaningful user text\<close>

definition starts_with_ci :: "string \<Rightarrow> string \<Rightarrow> bool" where
  "starts_with_ci p s = (to_lower (take (length p) s) = p)"

fun skip_past_ci :: "string \<Rightarrow> string \<Rightarrow> string option" where
  "skip_past_ci p [] = (if p = [] then Some [] else None)"
| "skip_past_ci p (c # cs) =
     (if starts_with_ci p (c # cs) then Some (drop (length p) (c # cs)) else skip_past_ci p cs)"

lemma skip_past_ci_length: "skip_past_ci p s = Some r \<Longrightarrow> length r \<le> length s"
  by (induction p s rule: skip_past_ci.induct) (auto split: if_splits)

definition REMINDER_OPEN :: string where "REMINDER_OPEN = ''<system-reminder>''"
definition REMINDER_CLOSE :: string where "REMINDER_CLOSE = ''</system-reminder>''"

function strip_reminders :: "string \<Rightarrow> string" where
  "strip_reminders [] = []"
| "strip_reminders (c # cs) =
     (if starts_with_ci REMINDER_OPEN (c # cs) then
        (case skip_past_ci REMINDER_CLOSE (drop (length REMINDER_OPEN) (c # cs)) of
           Some rest \<Rightarrow> strip_reminders rest
         | None \<Rightarrow> c # strip_reminders cs)
      else c # strip_reminders cs)"
  by pat_completeness auto
termination
  by (relation "measure length") (auto dest!: skip_past_ci_length simp: REMINDER_OPEN_def)

definition removeSystemReminders :: "string \<Rightarrow> string" where
  "removeSystemReminders text = js_trim (strip_reminders text)"

definition OMO_INTERNAL_INITIATOR_MARKER :: string where
  "OMO_INTERNAL_INITIATOR_MARKER = ''<!-- OMO_INTERNAL_INITIATOR -->''"

text \<open>\<open>s.replace(p, "")\<close> with a string pattern: the first occurrence only.\<close>

fun remove_first :: "string \<Rightarrow> string \<Rightarrow> string" where
  "remove_first p [] = []"
| "remove_first p (c # cs) =
     (if starts_with p (c # cs) then drop (length p) (c # cs) else c # remove_first p cs)"

definition isSystemDirective :: "string \<Rightarrow> bool" where
  "isSystemDirective text = starts_with ''[SYSTEM DIRECTIVE: MAGIC-CONTEXT'' (dropWhile is_ws text)"

definition meaningful_part :: "json \<Rightarrow> bool" where
  "meaningful_part part =
     (case (get_field part ''type'', get_field part ''text'') of
        (Some (JStr t), Some (JStr text)) \<Rightarrow>
          t = ''text'' \<and> get_field part ''ignored'' \<noteq> Some (JBool True) \<and>
          (let cleaned = js_trim (remove_first OMO_INTERNAL_INITIATOR_MARKER (removeSystemReminders text))
           in cleaned \<noteq> [] \<and> \<not> isSystemDirective cleaned)
      | _ \<Rightarrow> False)"

definition hasMeaningfulUserText :: "json list \<Rightarrow> bool" where
  "hasMeaningfulUserText parts = list_ex meaningful_part parts"

section \<open>Messages and tool signals\<close>

record raw_message =
  rm_ordinal :: int
  rm_id :: string
  rm_role :: string
  rm_parts :: "json list"

record tool_signal =
  ts_callId :: string
  ts_hasInput :: bool
  ts_hasOutput :: bool
  ts_inputText :: string
  ts_outputText :: string

definition partType :: "json \<Rightarrow> string" where
  "partType part = string_field part ''type''"

definition CALL_ID_FIELDS :: "string list" where
  "CALL_ID_FIELDS = [''callID'', ''callId'', ''toolCallId'', ''tool_call_id'', ''id'']"

definition part_state :: "json \<Rightarrow> json option" where
  "part_state part = (case get_field part ''state'' of Some (JObj es) \<Rightarrow> Some (JObj es) | _ \<Rightarrow> None)"

definition callIdFromPart :: "json \<Rightarrow> string" where
  "callIdFromPart part =
     (case firstStringField part CALL_ID_FIELDS of
        Some s \<Rightarrow> s
      | None \<Rightarrow> (case part_state part of
                   Some state \<Rightarrow> (case firstStringField state CALL_ID_FIELDS of Some s \<Rightarrow> s | None \<Rightarrow> [])
                 | None \<Rightarrow> []))"

definition tool_output_value :: "json option \<Rightarrow> json option" where
  "tool_output_value state =
     (case state of
        None \<Rightarrow> None
      | Some st \<Rightarrow> (case get_field st ''output'' of Some v \<Rightarrow> Some v
                  | None \<Rightarrow> (case get_field st ''error'' of Some v \<Rightarrow> Some v
                             | None \<Rightarrow> get_field st ''result'')))"

definition invocation_signal :: "runtime \<Rightarrow> string \<Rightarrow> json option \<Rightarrow> tool_signal" where
  "invocation_signal rt callId args =
     \<lparr>ts_callId = callId, ts_hasInput = (args \<noteq> None), ts_hasOutput = False,
      ts_inputText = (if args \<noteq> None then stringValue rt args else []), ts_outputText = []\<rparr>"

definition toolSignalFromPart :: "runtime \<Rightarrow> json \<Rightarrow> tool_signal option" where
  "toolSignalFromPart rt part =
     (if \<not> isRecord part then None
      else let type = partType part; state = part_state part; callId = callIdFromPart part
        in if callId = [] \<and> type \<noteq> ''tool'' then None
           else if type = ''tool'' then
             (let input = (case state of Some st \<Rightarrow> get_field st ''input'' | None \<Rightarrow> None);
                  hasInput = (input \<noteq> None);
                  outputValue = tool_output_value state;
                  hasOutput = (outputValue \<noteq> None);
                  providerExecuted = (get_field part ''providerExecuted'' = Some (JBool True));
                  openInvocation = (\<not> providerExecuted \<and> \<not> hasOutput)
              in Some \<lparr>ts_callId = callId, ts_hasInput = (hasInput \<or> openInvocation),
                       ts_hasOutput = hasOutput, ts_inputText = stringValue rt input,
                       ts_outputText = stringValue rt outputValue\<rparr>)
           else if type = ''tool-invocation'' then
             Some (invocation_signal rt callId (nullish_or (get_field part ''args'') (get_field part ''input'')))
           else if type = ''tool_use'' then
             Some (invocation_signal rt callId (get_field part ''input''))
           else if type = ''tool_result'' then
             (let content = nullish_or (nullish_or (get_field part ''content'') (get_field part ''output''))
                              (get_field part ''result'')
              in Some \<lparr>ts_callId = callId, ts_hasInput = False, ts_hasOutput = (content \<noteq> None),
                       ts_inputText = [],
                       ts_outputText = (case content of Some c \<Rightarrow> textFromToolResultContent rt c | None \<Rightarrow> [])\<rparr>)
           else None)"

section \<open>Token estimate of a message\<close>

record token_breakdown =
  tb_text :: int
  tb_reasoning :: int
  tb_toolInput :: int
  tb_toolOutput :: int
  tb_image :: int
  tb_other :: int
  tb_total :: int

datatype token_kind = KText | KReasoning | KToolInput | KToolOutput | KImage | KOther

definition EMPTY_BREAKDOWN :: token_breakdown where
  "EMPTY_BREAKDOWN = \<lparr>tb_text = 0, tb_reasoning = 0, tb_toolInput = 0, tb_toolOutput = 0,
     tb_image = 0, tb_other = 0, tb_total = 0\<rparr>"

definition addBreakdown :: "token_breakdown \<Rightarrow> token_kind \<Rightarrow> int \<Rightarrow> token_breakdown" where
  "addBreakdown b kind value =
     (let safeValue = (if 0 < value then value else 0);
          b' = (case kind of
             KText \<Rightarrow> b\<lparr>tb_text := tb_text b + safeValue\<rparr>
           | KReasoning \<Rightarrow> b\<lparr>tb_reasoning := tb_reasoning b + safeValue\<rparr>
           | KToolInput \<Rightarrow> b\<lparr>tb_toolInput := tb_toolInput b + safeValue\<rparr>
           | KToolOutput \<Rightarrow> b\<lparr>tb_toolOutput := tb_toolOutput b + safeValue\<rparr>
           | KImage \<Rightarrow> b\<lparr>tb_image := tb_image b + safeValue\<rparr>
           | KOther \<Rightarrow> b\<lparr>tb_other := tb_other b + safeValue\<rparr>)
      in b'\<lparr>tb_total := tb_total b + safeValue\<rparr>)"

definition estimateStructured :: "runtime \<Rightarrow> json \<Rightarrow> int" where
  "estimateStructured rt v =
     (case v of JStr s \<Rightarrow> estimateTokens rt s | JNull \<Rightarrow> 0
      | _ \<Rightarrow> estimateTokens rt (stableStringify rt v))"

definition looksImageLike :: "json \<Rightarrow> bool" where
  "looksImageLike part =
     (str_includes ''image'' (to_lower (string_field part ''type''))
      \<or> starts_with ''image/'' (to_lower (string_field part ''mime''))
      \<or> starts_with ''image/'' (to_lower (string_field part ''mediaType''))
      \<or> get_field part ''image_url'' \<noteq> None \<or> get_field part ''imageUrl'' \<noteq> None
      \<or> get_field part ''image'' \<noteq> None)"

definition defaultImageTokenHeuristic :: "json \<Rightarrow> int" where
  "defaultImageTokenHeuristic part =
     (case (get_field part ''width'', get_field part ''height'') of
        (Some (JNum width), Some (JNum height)) \<Rightarrow>
          if 0 < width \<and> 0 < height then max 256 (min 4096 \<lceil>(width * height) / 750\<rceil>) else 1024
      | _ \<Rightarrow> 1024)"

text \<open>\<open>None\<close> when the part is left to the caller (the source returns false).\<close>

definition estimateNonToolPart :: "runtime \<Rightarrow> json \<Rightarrow> token_breakdown \<Rightarrow> token_breakdown option" where
  "estimateNonToolPart rt part b =
     (if \<not> isRecord part then
        Some (if part \<noteq> JNull then addBreakdown b KOther (estimateStructured rt part) else b)
      else
        let type = partType part
        in if type = ''step-start'' \<or> type = ''step-finish''
              \<or> (type = ''meta'' \<and> (case part of JObj es \<Rightarrow> length es \<le> 1 | _ \<Rightarrow> False)) then Some b
           else if type = ''text'' then
             Some (case firstStringField part [''text'', ''content''] of
                     Some text \<Rightarrow> addBreakdown b KText (estimateTokens rt text) | None \<Rightarrow> b)
           else if type = ''reasoning'' \<or> type = ''thinking'' \<or> type = ''redacted_thinking'' then
             Some (case firstStringField part [''thinking'', ''text'', ''content'', ''reasoning''] of
                     Some text \<Rightarrow> addBreakdown b KReasoning (estimateTokens rt text)
                   | None \<Rightarrow> addBreakdown b KOther (estimateStructured rt part))
           else
             (case (firstStringField part [''thinking'', ''reasoning''], type = []) of
                (Some text, True) \<Rightarrow> Some (addBreakdown b KReasoning (estimateTokens rt text))
              | _ \<Rightarrow>
                  if looksImageLike part then
                    (let b' = addBreakdown b KImage (defaultImageTokenHeuristic part)
                     in Some (case firstStringField part [''alt'', ''text'', ''description''] of
                                Some t \<Rightarrow> addBreakdown b' KText (estimateTokens rt t) | None \<Rightarrow> b'))
                  else if str_includes ''file'' type \<or> type = ''source'' then
                    Some (case firstStringField part [''content'', ''text'', ''source''] of
                            Some c \<Rightarrow> addBreakdown b KText (estimateTokens rt c)
                          | None \<Rightarrow> addBreakdown b KOther (estimateStructured rt part))
                  else None))"

text \<open>The loop over the parts: breakdown, call ids whose input is counted, tool index.\<close>

definition estimate_step ::
  "runtime \<Rightarrow> token_breakdown \<times> string list \<Rightarrow> json \<Rightarrow> token_breakdown \<times> string list" where
  "estimate_step rt st part =
     (let (b, countedInput) = st
      in case toolSignalFromPart rt part of
           Some signal \<Rightarrow>
             (let fresh = (ts_hasInput signal \<and> ts_callId signal \<notin> set countedInput);
                  b1 = (if fresh then addBreakdown b KToolInput (estimateTokens rt (ts_inputText signal)) else b);
                  b2 = (if ts_hasOutput signal
                        then addBreakdown b1 KToolOutput (estimateTokens rt (ts_outputText signal)) else b1)
              in (b2, if fresh then ts_callId signal # countedInput else countedInput))
         | None \<Rightarrow>
             (case estimateNonToolPart rt part b of
                Some b' \<Rightarrow> (b', countedInput)
              | None \<Rightarrow> (addBreakdown b KOther (estimateStructured rt part), countedInput)))"

definition estimateTrueRawMessageTokens :: "runtime \<Rightarrow> raw_message \<Rightarrow> token_breakdown" where
  "estimateTrueRawMessageTokens rt message =
     fst (foldl (estimate_step rt) (EMPTY_BREAKDOWN, []) (rm_parts message))"

section \<open>The breakdown accounts for the total\<close>

definition breakdown_inv :: "token_breakdown \<Rightarrow> bool" where
  "breakdown_inv b \<longleftrightarrow>
     tb_total b = tb_text b + tb_reasoning b + tb_toolInput b + tb_toolOutput b + tb_image b + tb_other b
     \<and> 0 \<le> tb_text b \<and> 0 \<le> tb_reasoning b \<and> 0 \<le> tb_toolInput b \<and> 0 \<le> tb_toolOutput b
     \<and> 0 \<le> tb_image b \<and> 0 \<le> tb_other b"

lemma addBreakdown_inv [intro!]: "breakdown_inv b \<Longrightarrow> breakdown_inv (addBreakdown b k v)"
  by (cases k) (auto simp: breakdown_inv_def addBreakdown_def Let_def)

lemma breakdown_inv_empty [simp]: "breakdown_inv EMPTY_BREAKDOWN"
  by (simp add: breakdown_inv_def EMPTY_BREAKDOWN_def)

lemma estimateNonToolPart_inv:
  "breakdown_inv b \<Longrightarrow> estimateNonToolPart rt part b = Some b' \<Longrightarrow> breakdown_inv b'"
  by (auto simp: estimateNonToolPart_def Let_def split: if_splits option.splits bool.splits)

interpretation estimate_machine: machine "estimate_step rt" "\<lambda>st. breakdown_inv (fst st)" for rt
proof
  fix st :: "token_breakdown \<times> string list" and part
  assume "breakdown_inv (fst st)"
  then show "breakdown_inv (fst (estimate_step rt st part))"
    by (auto simp: estimate_step_def Let_def split: prod.splits option.splits
        dest: estimateNonToolPart_inv)
qed

lemma estimate_nonneg: "0 \<le> tb_total (estimateTrueRawMessageTokens rt m)"
proof -
  have "breakdown_inv (estimateTrueRawMessageTokens rt m)"
    unfolding estimateTrueRawMessageTokens_def by (rule estimate_machine.run_inv) simp
  then show ?thesis by (simp add: breakdown_inv_def)
qed

text \<open>
  For every message and every tokenizer, the estimate of a raw message is the sum of its six
  categories and no category is negative: nothing is counted twice or outside the categories.
\<close>

theorem estimate_accounts_for_total:
  "let b = estimateTrueRawMessageTokens rt m
   in tb_total b = tb_text b + tb_reasoning b + tb_toolInput b + tb_toolOutput b + tb_image b + tb_other b
      \<and> 0 \<le> tb_total b"
proof -
  have "breakdown_inv (estimateTrueRawMessageTokens rt m)"
    unfolding estimateTrueRawMessageTokens_def by (rule estimate_machine.run_inv) simp
  then show ?thesis by (simp add: breakdown_inv_def Let_def)
qed

text \<open>A runtime for the witnesses of this development: one token per character.\<close>

definition example_runtime :: runtime where
  "example_runtime = \<lparr>estimateTokens = (\<lambda>s. int (length s)), number_text = (\<lambda>_. ''0'')\<rparr>"

end
