(* ===== verification/Tool_Arcs.thy ===== *)
theory Tool_Arcs
  imports Raw_Messages
begin

text \<open>
  Tool arcs, the pairs of a tool invocation and its result, and the fences that keep a history
  boundary from separating them (\<open>hooks/magic-context/read-session-true-raw-tokens.ts\<close>, and
  \<open>fenceWrapupBoundaryForToolArcs\<close> of \<open>hooks/magic-context/protected-tail-boundary.ts\<close>).
\<close>

record tool_arc =
  ta_callId :: string
  ta_inv :: int
  ta_res :: "int option"

definition completedToolArcCrossesBoundary :: "int \<Rightarrow> int \<Rightarrow> int \<Rightarrow> bool" where
  "completedToolArcCrossesBoundary invOrdinal resOrdinal boundary =
     (invOrdinal < boundary \<and> boundary \<le> resOrdinal)"

definition splits_arc :: "tool_arc \<Rightarrow> int \<Rightarrow> bool" where
  "splits_arc arc boundary =
     (case ta_res arc of Some r \<Rightarrow> completedToolArcCrossesBoundary (ta_inv arc) r boundary | None \<Rightarrow> False)"

section \<open>Pairing invocations with results\<close>

type_synonym arc_state = "(string \<times> int list) list \<times> tool_arc list"

definition arc_signal_step :: "int \<Rightarrow> tool_signal \<Rightarrow> arc_state \<Rightarrow> arc_state" where
  "arc_signal_step ordinal signal st =
     (let (openQueues, arcs) = st; callId = ts_callId signal;
          queue = (case map_of openQueues callId of Some q \<Rightarrow> q | None \<Rightarrow> [])
      in if callId = [] then st
         else if ts_hasInput signal \<and> ts_hasOutput signal then
           (openQueues, arcs @ [\<lparr>ta_callId = callId, ta_inv = ordinal, ta_res = Some ordinal\<rparr>])
         else if ts_hasInput signal then
           (jsmap_set callId (queue @ [ordinal]) openQueues, arcs)
         else if ts_hasOutput signal then
           (case queue of
              [] \<Rightarrow> (jsmap_delete callId openQueues, arcs)
            | i # rest \<Rightarrow>
                (if rest = [] then jsmap_delete callId openQueues else jsmap_set callId rest openQueues,
                 arcs @ [\<lparr>ta_callId = callId, ta_inv = i, ta_res = Some ordinal\<rparr>]))
         else st)"

definition arc_part_step :: "runtime \<Rightarrow> int \<Rightarrow> arc_state \<Rightarrow> json \<Rightarrow> arc_state" where
  "arc_part_step rt ordinal st part =
     (case toolSignalFromPart rt part of
        None \<Rightarrow> st | Some signal \<Rightarrow> arc_signal_step ordinal signal st)"

definition arc_message_step :: "runtime \<Rightarrow> arc_state \<Rightarrow> raw_message \<Rightarrow> arc_state" where
  "arc_message_step rt st m = foldl (arc_part_step rt (rm_ordinal m)) st (rm_parts m)"

definition res_key :: "tool_arc \<Rightarrow> int" where
  "res_key a = (case ta_res a of Some r \<Rightarrow> r | None \<Rightarrow> MAX_SAFE_INTEGER)"

definition open_arcs :: "(string \<times> int list) list \<Rightarrow> tool_arc list" where
  "open_arcs openQueues = concat (map (\<lambda>(callId, queue).
     map (\<lambda>i. \<lparr>ta_callId = callId, ta_inv = i, ta_res = None\<rparr>) queue) openQueues)"

text \<open>The comparator orders by invocation, then by result; the sort is stable.\<close>

definition buildToolArcs :: "runtime \<Rightarrow> raw_message list \<Rightarrow> tool_arc list" where
  "buildToolArcs rt messages =
     (let (openQueues, arcs) = foldl (arc_message_step rt) ([], []) messages
      in sort_key ta_inv (sort_key res_key (arcs @ open_arcs openQueues)))"

lemma buildToolArcs_sorted: "sorted (map ta_inv (buildToolArcs rt messages))"
  by (simp add: buildToolArcs_def split: prod.splits)

section \<open>The forward fence\<close>

fun fenceBoundaryForToolArcs :: "int \<Rightarrow> tool_arc list \<Rightarrow> int \<Rightarrow> int \<Rightarrow> int" where
  "fenceBoundaryForToolArcs boundary [] lastEnd recentOpenArcCutoff = boundary"
| "fenceBoundaryForToolArcs boundary (arc # arcs) lastEnd recentOpenArcCutoff =
     (case ta_res arc of
        Some r \<Rightarrow>
          fenceBoundaryForToolArcs
            (if completedToolArcCrossesBoundary (ta_inv arc) r boundary then r + 1 else boundary)
            arcs lastEnd recentOpenArcCutoff
      | None \<Rightarrow>
          if ta_inv arc < recentOpenArcCutoff then
            fenceBoundaryForToolArcs boundary arcs lastEnd recentOpenArcCutoff
          else if lastEnd + 1 \<le> ta_inv arc \<and> ta_inv arc < boundary then ta_inv arc
          else if boundary \<le> ta_inv arc then ta_inv arc
          else fenceBoundaryForToolArcs boundary arcs lastEnd recentOpenArcCutoff)"

definition recent_open :: "int \<Rightarrow> tool_arc \<Rightarrow> bool" where
  "recent_open cutoff arc \<longleftrightarrow> ta_res arc = None \<and> cutoff \<le> ta_inv arc"

lemma fence_ge:
  "\<forall>a\<in>set arcs. \<not> recent_open cutoff a \<Longrightarrow> b \<le> fenceBoundaryForToolArcs b arcs lastEnd cutoff"
  by (induction b arcs lastEnd cutoff rule: fenceBoundaryForToolArcs.induct)
    (force simp: recent_open_def completedToolArcCrossesBoundary_def split: option.splits if_splits)+

text \<open>Arcs already passed (\<open>done\<close>) stay unsplit while the boundary moves over later arcs.\<close>

lemma fence_no_split_aux:
  assumes "sorted (map ta_inv arcs)"
    and "\<forall>a\<in>P. \<forall>c\<in>set arcs. ta_inv a \<le> ta_inv c" and "\<forall>a\<in>P. \<not> splits_arc a b"
    and "\<forall>a\<in>set arcs. \<not> recent_open cutoff a"
  shows "\<forall>a\<in>P \<union> set arcs. \<not> splits_arc a (fenceBoundaryForToolArcs b arcs lastEnd cutoff)"
  using assms
proof (induction arcs arbitrary: P b)
  case (Cons c arcs)
  let ?b = "case ta_res c of Some r \<Rightarrow> if completedToolArcCrossesBoundary (ta_inv c) r b then r + 1 else b
                             | None \<Rightarrow> b"
  have step: "fenceBoundaryForToolArcs b (c # arcs) lastEnd cutoff
      = fenceBoundaryForToolArcs ?b arcs lastEnd cutoff"
    using Cons.prems(4) by (auto simp: recent_open_def split: option.splits)
  have "\<not> splits_arc a ?b" if "a \<in> P" for a
  proof -
    have "ta_inv a \<le> ta_inv c" "\<not> splits_arc a b" using Cons.prems(2,3) that by auto
    then show ?thesis
      by (auto simp: splits_arc_def completedToolArcCrossesBoundary_def split: option.splits)
  qed
  moreover have "\<not> splits_arc c ?b"
    by (auto simp: splits_arc_def completedToolArcCrossesBoundary_def split: option.splits)
  ultimately have "\<forall>a\<in>insert c P. \<not> splits_arc a ?b" by simp
  moreover have "\<forall>a\<in>insert c P. \<forall>d\<in>set arcs. ta_inv a \<le> ta_inv d"
    using Cons.prems(1,2) by auto
  ultimately have "\<forall>a\<in>insert c P \<union> set arcs. \<not> splits_arc a (fenceBoundaryForToolArcs ?b arcs lastEnd cutoff)"
    using Cons.prems(1,4) by (intro Cons.IH) auto
  then show ?case unfolding step by auto
qed simp

lemma fence_no_split:
  assumes "sorted (map ta_inv arcs)" and "\<forall>a\<in>set arcs. \<not> recent_open cutoff a" and "a \<in> set arcs"
  shows "\<not> splits_arc a (fenceBoundaryForToolArcs b arcs lastEnd cutoff)"
  using fence_no_split_aux [of arcs "{}" b cutoff lastEnd] assms by simp

section \<open>The backward fence of a manual wrap-up\<close>

text \<open>One pass over the arcs; completed arcs that start after the last compartment pull the boundary back.\<close>

fun wrapup_pass :: "int \<Rightarrow> tool_arc list \<Rightarrow> int \<Rightarrow> int" where
  "wrapup_pass lastEnd [] next_b = next_b"
| "wrapup_pass lastEnd (arc # arcs) next_b =
     (case ta_res arc of
        None \<Rightarrow> wrapup_pass lastEnd arcs next_b
      | Some r \<Rightarrow>
          wrapup_pass lastEnd arcs
            (if lastEnd + 1 \<le> ta_inv arc \<and> completedToolArcCrossesBoundary (ta_inv arc) r next_b
             then ta_inv arc else next_b))"

definition fenceWrapupBoundaryForToolArcs :: "int \<Rightarrow> tool_arc list \<Rightarrow> int \<Rightarrow> int" where
  "fenceWrapupBoundaryForToolArcs candidate arcs lastEnd =
     settle (length arcs + 1) (wrapup_pass lastEnd arcs) candidate"

lemma wrapup_pass_le: "wrapup_pass lastEnd arcs b \<le> b"
  by (induction lastEnd arcs b rule: wrapup_pass.induct)
    (force simp: completedToolArcCrossesBoundary_def split: option.splits if_splits)+

lemma wrapup_pass_in: "wrapup_pass lastEnd arcs b = b \<or> wrapup_pass lastEnd arcs b \<in> ta_inv ` set arcs"
  by (induction lastEnd arcs b rule: wrapup_pass.induct) (auto split: option.splits if_splits)

lemma wrapup_pass_ge: "lastEnd + 1 \<le> b \<Longrightarrow> lastEnd + 1 \<le> wrapup_pass lastEnd arcs b"
  by (induction lastEnd arcs b rule: wrapup_pass.induct) (auto split: option.splits if_splits)

text \<open>A pass that leaves the boundary alone crossed no completed arc of the region.\<close>

lemma wrapup_pass_fixed:
  assumes "wrapup_pass lastEnd arcs b = b" "a \<in> set arcs" "lastEnd + 1 \<le> ta_inv a"
  shows "\<not> splits_arc a b"
  using assms
proof (induction arcs)
  case (Cons c arcs)
  have "wrapup_pass lastEnd arcs b = b \<and> (lastEnd + 1 \<le> ta_inv c \<longrightarrow> \<not> splits_arc c b)"
  proof (cases "ta_res c")
    case (Some r)
    show ?thesis
    proof (cases "lastEnd + 1 \<le> ta_inv c \<and> completedToolArcCrossesBoundary (ta_inv c) r b")
      case True
      then have "wrapup_pass lastEnd (c # arcs) b \<le> ta_inv c" "ta_inv c < b"
        using wrapup_pass_le [of lastEnd arcs "ta_inv c"] Some
        by (auto simp: completedToolArcCrossesBoundary_def)
      with Cons.prems(1) show ?thesis by simp
    qed (use Cons.prems(1) Some in \<open>auto simp: splits_arc_def\<close>)
  qed (use Cons.prems(1) in \<open>auto simp: splits_arc_def\<close>)
  with Cons show ?case by auto
qed simp

interpretation wrapup: settling "wrapup_pass lastEnd arcs" "ta_inv ` set arcs" "\<lambda>b. b"
  for lastEnd arcs
proof
  fix b show "wrapup_pass lastEnd arcs b = b \<or>
     (wrapup_pass lastEnd arcs b \<in> ta_inv ` set arcs \<and> wrapup_pass lastEnd arcs b < b)"
    using wrapup_pass_le [of lastEnd arcs b] wrapup_pass_in [of lastEnd arcs b] by auto
qed simp

lemma wrapup_points: "card (ta_inv ` set arcs) < length arcs + 1"
  using card_image_le [of "set arcs" ta_inv] card_length [of arcs] by simp

lemma wrapup_fence_fixed:
  "wrapup_pass lastEnd arcs (fenceWrapupBoundaryForToolArcs c arcs lastEnd)
     = fenceWrapupBoundaryForToolArcs c arcs lastEnd"
  unfolding fenceWrapupBoundaryForToolArcs_def by (rule wrapup.settle_fixed [OF wrapup_points])

lemma wrapup_fence_le: "fenceWrapupBoundaryForToolArcs c arcs lastEnd \<le> c"
  unfolding fenceWrapupBoundaryForToolArcs_def by (rule wrapup.settle_rank)

section \<open>What a fence gives its client\<close>

text \<open>A fence moves a candidate boundary so that none of the given arcs is split by it.\<close>

locale boundary_fence =
  fixes fence :: "int \<Rightarrow> int"
    and guarded :: "tool_arc set"
  assumes unsplit: "a \<in> guarded \<Longrightarrow> \<not> splits_arc a (fence c)"
begin

lemma same_side:
  "a \<in> guarded \<Longrightarrow> ta_res a = Some r \<Longrightarrow> fence c \<le> ta_inv a \<or> r < fence c"
  using unsplit [of a c] by (auto simp: splits_arc_def completedToolArcCrossesBoundary_def)

end

interpretation forward: boundary_fence
  "\<lambda>c. fenceBoundaryForToolArcs c (buildToolArcs rt messages) lastEnd cutoff"
  "{a \<in> set (buildToolArcs rt messages). \<forall>d\<in>set (buildToolArcs rt messages). \<not> recent_open cutoff d}"
  for rt messages lastEnd cutoff
  by unfold_locales (use fence_no_split [OF buildToolArcs_sorted] in blast)

interpretation backward: boundary_fence
  "\<lambda>c. fenceWrapupBoundaryForToolArcs c arcs lastEnd"
  "{a \<in> set arcs. lastEnd + 1 \<le> ta_inv a}"
  for arcs lastEnd
  by unfold_locales (auto dest: wrapup_pass_fixed [OF wrapup_fence_fixed])

section \<open>Pairing is well formed\<close>

definition arc_state_inv :: "int \<Rightarrow> arc_state \<Rightarrow> bool" where
  "arc_state_inv n st \<longleftrightarrow>
     (\<forall>(k, q)\<in>set (fst st). \<forall>i\<in>set q. i \<le> n) \<and>
     (\<forall>a\<in>set (snd st). \<exists>r. ta_res a = Some r \<and> ta_inv a \<le> r \<and> r \<le> n)"

lemma arc_state_inv_mono: "arc_state_inv m st \<Longrightarrow> m \<le> n \<Longrightarrow> arc_state_inv n st"
  unfolding arc_state_inv_def by fastforce

lemma set_jsmap_set: "set (jsmap_set k v m) \<subseteq> insert (k, v) (set m)"
  by (induction k v m rule: jsmap_set.induct) auto

lemma queue_set: "(k', q) \<in> set (jsmap_set k v m) \<Longrightarrow> (k', q) = (k, v) \<or> (k', q) \<in> set m"
  using set_jsmap_set [of k v m] by auto

lemma arc_state_inv_queue:
  "arc_state_inv n (qs, arcs) \<Longrightarrow> map_of qs k = Some q \<Longrightarrow> i \<in> set q \<Longrightarrow> i \<le> n"
  by (auto simp: arc_state_inv_def dest!: map_of_SomeD)

lemma arc_signal_step_inv: "arc_state_inv n st \<Longrightarrow> arc_state_inv n (arc_signal_step n s st)"
proof -
  assume inv: "arc_state_inv n st"
  obtain qs arcs where st: "st = (qs, arcs)" by (cases st)
  let ?k = "ts_callId s"
  let ?q = "case map_of qs ?k of Some q \<Rightarrow> q | None \<Rightarrow> []"
  have q: "i \<le> n" if "i \<in> set ?q" for i
    using inv that by (cases "map_of qs ?k") (auto simp: st dest: arc_state_inv_queue)
  have push: "arc_state_inv n (jsmap_set ?k v qs, arcs)" if "\<forall>i\<in>set v. i \<le> n" for v
    using inv that by (fastforce simp: st arc_state_inv_def dest: queue_set)
  have del: "arc_state_inv n (jsmap_delete ?k qs, arcs)"
    using inv by (auto simp: st arc_state_inv_def jsmap_delete_def)
  have add: "arc_state_inv n (qs', arcs @ [\<lparr>ta_callId = ?k, ta_inv = i, ta_res = Some n\<rparr>])"
    if "arc_state_inv n (qs', arcs)" "i \<le> n" for qs' i
    using that by (auto simp: arc_state_inv_def)
  show ?thesis
  proof (cases ?q)
    case Nil
    then show ?thesis
      using inv del add [of qs n] push [of "[n]"] by (auto simp: arc_signal_step_def st Let_def)
  next
    case (Cons i rest)
    then have "i \<le> n" "\<forall>j\<in>set rest. j \<le> n" "\<forall>j\<in>set (?q @ [n]). j \<le> n" using q by auto
    then show ?thesis
      using inv del push [of rest] push [of "?q @ [n]"] Cons
      by (auto simp: arc_signal_step_def st Let_def intro!: add)
  qed
qed

lemma arc_message_step_inv:
  "arc_state_inv n st \<Longrightarrow> n \<le> rm_ordinal m \<Longrightarrow> arc_state_inv (rm_ordinal m) (arc_message_step rt st m)"
proof -
  assume "arc_state_inv n st" "n \<le> rm_ordinal m"
  then have "arc_state_inv (rm_ordinal m) st" by (rule arc_state_inv_mono)
  moreover have "arc_state_inv k (arc_part_step rt k st p)" if "arc_state_inv k st" for k st p
    using that by (simp add: arc_part_step_def arc_signal_step_inv split: option.splits)
  then have "arc_state_inv k (foldl (arc_part_step rt k) st ps)" if "arc_state_inv k st" for k st ps
    using that by (induction ps arbitrary: st) simp_all
  ultimately show ?thesis by (simp add: arc_message_step_def)
qed

lemma arc_run_inv:
  "arc_state_inv n st \<Longrightarrow> sorted (n # map rm_ordinal ms) \<Longrightarrow>
   arc_state_inv (last (n # map rm_ordinal ms)) (foldl (arc_message_step rt) st ms)"
proof (induction ms arbitrary: n st)
  case (Cons m ms)
  then have "arc_state_inv (rm_ordinal m) (arc_message_step rt st m)"
    by (intro arc_message_step_inv) auto
  then have "arc_state_inv (last (rm_ordinal m # map rm_ordinal ms)) (foldl (arc_message_step rt) (arc_message_step rt st m) ms)"
    using Cons.prems(2) by (intro Cons.IH) auto
  then show ?case by simp
qed simp

section \<open>Properties\<close>

text \<open>A two-message session used by the witnesses below: a call and its result.\<close>

definition example_session :: "raw_message list" where
  "example_session =
     [\<lparr>rm_ordinal = 1, rm_id = ''m1'', rm_role = ''assistant'', rm_parts =
         [JObj [(''type'', JStr ''tool_use''), (''id'', JStr ''c1''), (''input'', JStr ''ls'')]]\<rparr>,
      \<lparr>rm_ordinal = 2, rm_id = ''m2'', rm_role = ''user'', rm_parts =
         [JObj [(''type'', JStr ''tool_result''), (''id'', JStr ''c1''), (''content'', JStr ''ok'')]]\<rparr>]"

lemma example_arcs:
  "buildToolArcs example_runtime example_session = [\<lparr>ta_callId = ''c1'', ta_inv = 1, ta_res = Some 2\<rparr>]"
  by code_simp

text \<open>
  In a session whose ordinals ascend, every completed arc that pairing finds runs forward: the
  result stands at or after its invocation, and inside the session.
\<close>

theorem completed_arcs_run_forward:
  assumes "sorted (map rm_ordinal ms)" "ms \<noteq> []"
    and "a \<in> set (buildToolArcs rt ms)" "ta_res a = Some r"
  shows "ta_inv a \<le> r \<and> r \<le> rm_ordinal (last ms)"
proof -
  obtain m ms' where ms: "ms = m # ms'" using assms(2) by (cases ms) auto
  have "arc_state_inv (rm_ordinal m) ([], [])" by (simp add: arc_state_inv_def)
  then have "arc_state_inv (last (rm_ordinal m # map rm_ordinal ms)) (foldl (arc_message_step rt) ([], []) ms)"
    using assms(1) by (intro arc_run_inv) (auto simp: ms)
  then have "arc_state_inv (rm_ordinal (last ms)) (foldl (arc_message_step rt) ([], []) ms)"
    using assms(2) by (simp add: last_map)
  moreover have "a \<in> set (snd (foldl (arc_message_step rt) ([], []) ms))"
    using assms(3,4) by (cases "foldl (arc_message_step rt) ([], []) ms") (auto simp: buildToolArcs_def open_arcs_def)
  ultimately show ?thesis using assms(4) by (auto simp: arc_state_inv_def)
qed

theorem completed_arcs_run_forward_witness:
  "(1 :: int) \<le> 2 \<and> (2 :: int) \<le> rm_ordinal (last example_session)"
  using completed_arcs_run_forward [of example_session "\<lparr>ta_callId = ''c1'', ta_inv = 1, ta_res = Some 2\<rparr>"
      example_runtime 2]
  by (simp add: example_arcs) (simp add: example_session_def)

text \<open>
  C16: With no open call in the live tail, the forward fence only advances the candidate boundary and
  leaves every call with its result: both are in the tail or both before it.
\<close>

theorem forward_fence_keeps_pairs:
  assumes "\<forall>d\<in>set (buildToolArcs rt ms). \<not> recent_open cutoff d"
    and "a \<in> set (buildToolArcs rt ms)" "ta_res a = Some r"
  shows "c \<le> fenceBoundaryForToolArcs c (buildToolArcs rt ms) lastEnd cutoff \<and>
    (fenceBoundaryForToolArcs c (buildToolArcs rt ms) lastEnd cutoff \<le> ta_inv a \<or>
     r < fenceBoundaryForToolArcs c (buildToolArcs rt ms) lastEnd cutoff)"
  using fence_ge [OF assms(1)] forward.same_side [of a rt ms cutoff r c lastEnd] assms by auto

theorem forward_fence_keeps_pairs_witness:
  "let arcs = buildToolArcs example_runtime example_session
   in 2 \<le> fenceBoundaryForToolArcs 2 arcs 0 1 \<and>
      (fenceBoundaryForToolArcs 2 arcs 0 1 \<le> 1 \<or> 2 < fenceBoundaryForToolArcs 2 arcs 0 1)"
  using forward_fence_keeps_pairs [of example_runtime example_session 1
      "\<lparr>ta_callId = ''c1'', ta_inv = 1, ta_res = Some 2\<rparr>" 2 2 0]
  by (simp add: example_arcs recent_open_def completedToolArcCrossesBoundary_def)

text \<open>
  The wrap-up fence settles within its pass limit: it only moves the watermark back, and no
  completed arc that starts after the last compartment is split by the boundary it returns.
\<close>

theorem wrapup_fence_keeps_pairs:
  assumes "a \<in> set arcs" "ta_res a = Some r" "lastEnd + 1 \<le> ta_inv a"
  shows "fenceWrapupBoundaryForToolArcs c arcs lastEnd \<le> c \<and>
    (fenceWrapupBoundaryForToolArcs c arcs lastEnd \<le> ta_inv a \<or>
     r < fenceWrapupBoundaryForToolArcs c arcs lastEnd)"
  using wrapup_fence_le backward.same_side [of a arcs lastEnd r c] assms by simp

theorem wrapup_fence_keeps_pairs_witness:
  "let b = \<lparr>ta_callId = ''b'', ta_inv = 5, ta_res = Some 9\<rparr>;
       arcs = [\<lparr>ta_callId = ''a'', ta_inv = 3, ta_res = Some 6\<rparr>, b]
   in fenceWrapupBoundaryForToolArcs 8 arcs 1 \<le> 8 \<and>
      (fenceWrapupBoundaryForToolArcs 8 arcs 1 \<le> ta_inv b \<or> 9 < fenceWrapupBoundaryForToolArcs 8 arcs 1)"
  unfolding Let_def by (rule wrapup_fence_keeps_pairs) simp_all

text \<open>
  An open call in the live tail makes the forward fence return its own ordinal, even when that
  boundary falls between another call and its result: pairs are not kept in this case.
\<close>

theorem forward_fence_open_call_splits:
  "\<exists>arcs a. sorted (map ta_inv arcs) \<and> a \<in> set arcs \<and>
     splits_arc a (fenceBoundaryForToolArcs 5 arcs 0 5)"
  by (intro exI [of _ "[\<lparr>ta_callId = ''a'', ta_inv = 5, ta_res = Some 7\<rparr>,
                        \<lparr>ta_callId = ''b'', ta_inv = 6, ta_res = None\<rparr>]"]
            exI [of _ "\<lparr>ta_callId = ''a'', ta_inv = 5, ta_res = Some 7\<rparr>"])
    (simp add: splits_arc_def completedToolArcCrossesBoundary_def)

end
