(* ===== verification/Token_Index.thy ===== *)
theory Token_Index
  imports Raw_Messages "HOL-Library.Multiset"
begin

text \<open>
  The per-session token index (\<open>buildTrueRawTokenIndex\<close> of
  \<open>hooks/magic-context/read-session-true-raw-tokens.ts\<close>): prefix sums over the ordinal span of
  the messages, with two binary searches. The interface \<open>TrueRawTokenIndex\<close> is a record of
  functions, and the laws its clients rely on are the locale \<open>lawful_index\<close>. A read of the prefix
  array out of range is \<open>None\<close> (the code gets \<open>undefined\<close> and then \<open>NaN\<close>). The process-wide
  estimate cache is transparent and not modelled.
\<close>

record token_index =
  ti_rawMessageCount :: int
  ti_tokenForOrdinal :: "int \<Rightarrow> int"
  ti_messageIdAtOrdinal :: "int \<Rightarrow> string option"
  ti_suffixTokensFromOrdinal :: "int \<Rightarrow> int"
  ti_rangeTokens :: "int \<Rightarrow> int \<Rightarrow> int option"
  ti_findSuffixStartForTokens :: "int \<Rightarrow> int"
  ti_findHeadEndForCap :: "int \<Rightarrow> int \<Rightarrow> int \<Rightarrow> int"

record index_options =
  io_storedTotal :: "raw_message \<Rightarrow> nat option"
  io_absoluteMessageCount :: "int option"

section \<open>Prefix sums and the search over them\<close>

fun partial_sums :: "int \<Rightarrow> int list \<Rightarrow> int list" where
  "partial_sums acc [] = []"
| "partial_sums acc (x # xs) = (acc + x) # partial_sums (acc + x) xs"

lemma length_partial_sums [simp]: "length (partial_sums acc xs) = length xs"
  by (induction xs arbitrary: acc) auto

lemma nth_partial_sums: "k < length xs \<Longrightarrow> partial_sums acc xs ! k = acc + sum_list (take (Suc k) xs)"
  by (induction xs arbitrary: acc k) (auto simp: nth_Cons take_Cons split: nat.splits)

lemma partial_sums_mono:
  assumes "\<forall>x\<in>set xs. 0 \<le> x" "i \<le> j" "j < length xs"
  shows "partial_sums acc xs ! i \<le> partial_sums acc xs ! j"
proof -
  have "take (Suc j) xs = take (Suc i) xs @ take (j - i) (drop (Suc i) xs)"
    using assms(2) by (simp flip: take_add)
  moreover have "0 \<le> sum_list (take (j - i) (drop (Suc i) xs))"
    using assms(1) by (intro sum_list_nonneg) (meson in_set_dropD in_set_takeD)
  ultimately show ?thesis using assms(2,3) by (simp add: nth_partial_sums)
qed

definition prefix_at :: "int list \<Rightarrow> int \<Rightarrow> int option" where
  "prefix_at prefix i = (if 0 \<le> i \<and> i < int (length prefix) then Some (prefix ! nat i) else None)"

definition prefix_diff :: "int list \<Rightarrow> int \<Rightarrow> int \<Rightarrow> int option" where
  "prefix_diff prefix i j =
     (case (prefix_at prefix i, prefix_at prefix j) of (Some x, Some y) \<Rightarrow> Some (x - y) | _ \<Rightarrow> None)"

definition at_most :: "int list \<Rightarrow> int \<Rightarrow> int \<Rightarrow> bool" where
  "at_most prefix bound i = (case prefix_at prefix i of Some p \<Rightarrow> p \<le> bound | None \<Rightarrow> False)"

function prefix_search :: "int list \<Rightarrow> int \<Rightarrow> int \<Rightarrow> int \<Rightarrow> int \<Rightarrow> int" where
  "prefix_search prefix bound lo hi best =
     (if lo \<le> hi then
        (let mid = (lo + hi) div 2
         in if at_most prefix bound mid then prefix_search prefix bound (mid + 1) hi mid
            else prefix_search prefix bound lo (mid - 1) best)
      else best)"
  by pat_completeness auto
termination
  by (relation "measure (\<lambda>(prefix, bound, lo, hi, best). nat (hi - lo + 1))") auto

declare prefix_search.simps [simp del]

definition ascending :: "int list \<Rightarrow> bool" where
  "ascending prefix \<longleftrightarrow> (\<forall>i j. i \<le> j \<longrightarrow> j < length prefix \<longrightarrow> prefix ! i \<le> prefix ! j)"

lemma at_most_down: "ascending prefix \<Longrightarrow> at_most prefix bound j \<Longrightarrow> 0 \<le> i \<Longrightarrow> i \<le> j \<Longrightarrow> at_most prefix bound i"
proof -
  assume asc: "ascending prefix" and j: "at_most prefix bound j" and i: "0 \<le> i" "i \<le> j"
  from j have "0 \<le> j" "j < int (length prefix)" "prefix ! nat j \<le> bound"
    by (auto simp: at_most_def prefix_at_def split: if_splits)
  moreover from this i asc have "prefix ! nat i \<le> prefix ! nat j"
    by (simp add: ascending_def nat_less_iff nat_mono)
  ultimately show ?thesis using i by (simp add: at_most_def prefix_at_def)
qed

text \<open>
  The search returns the last index of the window at or below the bound, or the initial answer when
  there is none.
\<close>

lemma prefix_search_bounds:
  "prefix_search prefix bound lo hi best = best
   \<or> (lo \<le> prefix_search prefix bound lo hi best \<and> prefix_search prefix bound lo hi best \<le> hi
      \<and> at_most prefix bound (prefix_search prefix bound lo hi best))"
proof (induction prefix bound lo hi best rule: prefix_search.induct)
  case (1 prefix bound lo hi best)
  let ?m = "(lo + hi) div 2"
  show ?case
  proof (cases "lo \<le> hi")
    case True
    then have m: "lo \<le> ?m" "?m \<le> hi" by auto
    show ?thesis
    proof (cases "at_most prefix bound ?m")
      case mid: True
      have "prefix_search prefix bound lo hi best = prefix_search prefix bound (?m + 1) hi ?m"
        using True mid by (subst prefix_search.simps) (simp add: Let_def)
      then show ?thesis using "1.IH"(1) [OF True refl mid] m mid by auto
    next
      case mid: False
      have "prefix_search prefix bound lo hi best = prefix_search prefix bound lo (?m - 1) best"
        using True mid by (subst prefix_search.simps) (simp add: Let_def)
      then show ?thesis using "1.IH"(2) [OF True refl mid] m by auto
    qed
  next
    case False
    then show ?thesis by (subst (1) prefix_search.simps) simp
  qed
qed

lemma prefix_search_last:
  "\<lbrakk>ascending prefix; 0 \<le> lo; lo \<le> k; k \<le> hi; at_most prefix bound k\<rbrakk> \<Longrightarrow>
   k \<le> prefix_search prefix bound lo hi best"
proof (induction prefix bound lo hi best rule: prefix_search.induct)
  case (1 prefix bound lo hi best)
  let ?m = "(lo + hi) div 2"
  have le: "lo \<le> hi" using "1.prems" by simp
  then have m: "lo \<le> ?m" "?m \<le> hi" by auto
  show ?case
  proof (cases "at_most prefix bound ?m")
    case True
    have eq: "prefix_search prefix bound lo hi best = prefix_search prefix bound (?m + 1) hi ?m"
      using le True by (subst prefix_search.simps) (simp add: Let_def)
    show ?thesis
    proof (cases "k \<le> ?m")
      case True
      then show ?thesis using prefix_search_bounds [of prefix bound "?m + 1" hi ?m] by (auto simp: eq)
    next
      case False
      then show ?thesis using "1.IH"(1) [OF le refl True] "1.prems" m by (simp add: eq)
    qed
  next
    case False
    have eq: "prefix_search prefix bound lo hi best = prefix_search prefix bound lo (?m - 1) best"
      using le False by (subst prefix_search.simps) (simp add: Let_def)
    have "k \<le> ?m - 1"
    proof (rule ccontr)
      assume "\<not> k \<le> ?m - 1"
      then have "at_most prefix bound ?m"
        using "1.prems" m by (intro at_most_down [of prefix bound k ?m]) auto
      with False show False by simp
    qed
    then show ?thesis using "1.IH"(2) [OF le refl False] "1.prems" by (simp add: eq)
  qed
qed

section \<open>The methods of the index\<close>

text \<open>Each method closes over the first and terminal ordinal and the prefix array.\<close>

definition ordinal_to_index :: "int \<Rightarrow> int \<Rightarrow> int \<Rightarrow> int" where
  "ordinal_to_index first width ordinal = max 0 (min width (ordinal - first))"

definition suffix_tokens :: "int \<Rightarrow> int \<Rightarrow> int list \<Rightarrow> int \<Rightarrow> int" where
  "suffix_tokens first terminal prefix ordinal =
     (let width = int (length prefix) - 1
      in if ordinal \<le> first then prefix ! nat width
         else if terminal < ordinal then 0
         else prefix ! nat width - prefix ! nat (ordinal_to_index first width ordinal))"

definition range_tokens :: "int \<Rightarrow> int \<Rightarrow> int list \<Rightarrow> int \<Rightarrow> int \<Rightarrow> int option" where
  "range_tokens first terminal prefix startInclusive endExclusive =
     (let start = max first startInclusive;
          e = max start (min (terminal + 1) endExclusive)
      in prefix_diff prefix (e - first) (start - first))"

definition suffix_start :: "int \<Rightarrow> int \<Rightarrow> int list \<Rightarrow> int \<Rightarrow> int" where
  "suffix_start first terminal prefix tokens =
     (if tokens \<le> 0 then terminal + 1
      else let width = int (length prefix) - 1; total = prefix ! nat width
        in if total < tokens then first
           else first + prefix_search prefix (total - tokens) 0 width 0)"

definition head_end :: "int \<Rightarrow> int \<Rightarrow> int list \<Rightarrow> int \<Rightarrow> int \<Rightarrow> int \<Rightarrow> int" where
  "head_end first terminal prefix startInclusive endExclusive capTokens =
     (let start = max first (min (terminal + 1) startInclusive);
          e = max start (min (terminal + 1) endExclusive)
      in if capTokens \<le> 0 then start
         else let startIndex = start - first; endIndex = e - first;
                  bound = prefix ! nat startIndex + capTokens;
                  bestEnd = first + prefix_search prefix bound (startIndex + 1) endIndex startIndex
              in min (if bestEnd = start \<and> start < e then start + 1 else bestEnd) e)"

section \<open>Building the index\<close>

definition index_ordered :: "raw_message list \<Rightarrow> raw_message list" where
  "index_ordered messages = sort_key rm_ordinal messages"

definition first_ordinal :: "raw_message list \<Rightarrow> int" where
  "first_ordinal messages = (case index_ordered messages of [] \<Rightarrow> 1 | m # _ \<Rightarrow> rm_ordinal m)"

definition terminal_ordinal :: "raw_message list \<Rightarrow> int" where
  "terminal_ordinal messages =
     (if index_ordered messages = [] then 0 else rm_ordinal (last (index_ordered messages)))"

definition message_total :: "runtime \<Rightarrow> index_options \<Rightarrow> raw_message \<Rightarrow> int" where
  "message_total rt opts m =
     (case io_storedTotal opts m of
        Some stored \<Rightarrow> int stored | None \<Rightarrow> tb_total (estimateTrueRawMessageTokens rt m))"

definition place_total :: "runtime \<Rightarrow> index_options \<Rightarrow> int \<Rightarrow> int \<Rightarrow> int list \<Rightarrow> raw_message \<Rightarrow> int list" where
  "place_total rt opts first width acc m =
     (let relative = rm_ordinal m - first + 1
      in if 1 \<le> relative \<and> relative \<le> width then acc[nat relative := message_total rt opts m] else acc)"

definition index_prefix :: "runtime \<Rightarrow> index_options \<Rightarrow> raw_message list \<Rightarrow> int list" where
  "index_prefix rt opts messages =
     (let first = first_ordinal messages; terminal = terminal_ordinal messages;
          width = (if first \<le> terminal then terminal - first + 1 else 0)
      in partial_sums 0 (foldl (place_total rt opts first width) (replicate (nat (width + 1)) 0)
           (index_ordered messages)))"

definition index_count :: "raw_message list \<Rightarrow> index_options \<Rightarrow> int" where
  "index_count messages opts =
     (let sliceCount = int (length messages)
      in max (max sliceCount (terminal_ordinal messages))
           (case io_absoluteMessageCount opts of Some n \<Rightarrow> n | None \<Rightarrow> sliceCount))"

definition buildTrueRawTokenIndex :: "runtime \<Rightarrow> raw_message list \<Rightarrow> index_options \<Rightarrow> token_index" where
  "buildTrueRawTokenIndex rt messages opts =
     (let ordered = index_ordered messages; first = first_ordinal messages;
          terminal = terminal_ordinal messages; prefix = index_prefix rt opts messages
      in \<lparr>ti_rawMessageCount = index_count messages opts,
          ti_tokenForOrdinal = (\<lambda>n. case map_of (rev (map (\<lambda>m. (rm_ordinal m, message_total rt opts m)) ordered)) n of
              Some t \<Rightarrow> t | None \<Rightarrow> 0),
          ti_messageIdAtOrdinal = map_of (rev (map (\<lambda>m. (rm_ordinal m, rm_id m)) ordered)),
          ti_suffixTokensFromOrdinal = suffix_tokens first terminal prefix,
          ti_rangeTokens = range_tokens first terminal prefix,
          ti_findSuffixStartForTokens = suffix_start first terminal prefix,
          ti_findHeadEndForCap = head_end first terminal prefix\<rparr>)"

section \<open>The laws clients rely on\<close>

locale lawful_index =
  fixes ix :: token_index
    and first terminal :: int
  assumes width: "first \<le> terminal + 1"
    and count: "terminal \<le> ti_rawMessageCount ix" "0 \<le> ti_rawMessageCount ix"
    and range_defined: "s \<le> terminal + 1 \<Longrightarrow> \<exists>n\<ge>0. ti_rangeTokens ix s e = Some n"
    and head_bounds: "\<lbrakk>first \<le> s; s \<le> e; e \<le> terminal + 1\<rbrakk> \<Longrightarrow>
          s \<le> ti_findHeadEndForCap ix s e cap \<and> ti_findHeadEndForCap ix s e cap \<le> e"
    and head_progress: "\<lbrakk>first \<le> s; s < e; e \<le> terminal + 1; 0 < cap\<rbrakk> \<Longrightarrow>
          s < ti_findHeadEndForCap ix s e cap"
    and head_cap: "\<lbrakk>first \<le> s; s \<le> e; e \<le> terminal + 1; 0 < cap;
           ti_rangeTokens ix s (ti_findHeadEndForCap ix s e cap) = Some n\<rbrakk> \<Longrightarrow>
          n \<le> cap \<or> ti_findHeadEndForCap ix s e cap = s + 1"
    and head_maximal: "\<lbrakk>first \<le> s; e \<le> terminal + 1; 0 < cap;
           ti_findHeadEndForCap ix s e cap < k; k \<le> e; ti_rangeTokens ix s k = Some n; s \<le> k\<rbrakk> \<Longrightarrow> cap < n"
    and suffix_start_bounds: "first \<le> ti_findSuffixStartForTokens ix n"
          "ti_findSuffixStartForTokens ix n \<le> terminal + 1"
    and suffix_start_covers: "0 < n \<Longrightarrow> ti_findSuffixStartForTokens ix n = first
          \<or> n \<le> ti_suffixTokensFromOrdinal ix (ti_findSuffixStartForTokens ix n)"
    and suffix_start_tight: "0 < n \<Longrightarrow> ti_findSuffixStartForTokens ix n \<le> terminal \<Longrightarrow>
          ti_suffixTokensFromOrdinal ix (ti_findSuffixStartForTokens ix n + 1) < n"
    and id_range: "ti_messageIdAtOrdinal ix i = Some m \<Longrightarrow> first \<le> i \<and> i \<le> terminal"

definition good_prefix :: "int \<Rightarrow> int \<Rightarrow> int list \<Rightarrow> bool" where
  "good_prefix first terminal prefix \<longleftrightarrow>
     int (length prefix) = terminal - first + 2 \<and> ascending prefix \<and> first \<le> terminal + 1 \<and> prefix ! 0 = 0"

lemma good_prefix_mono:
  "good_prefix f t p \<Longrightarrow> 0 \<le> i \<Longrightarrow> i \<le> j \<Longrightarrow> j \<le> t - f + 1 \<Longrightarrow> p ! nat i \<le> p ! nat j"
  by (auto simp: good_prefix_def ascending_def)

lemma good_prefix_at:
  "good_prefix f t p \<Longrightarrow> 0 \<le> i \<Longrightarrow> i \<le> t - f + 1 \<Longrightarrow> prefix_at p i = Some (p ! nat i)"
  by (auto simp: good_prefix_def prefix_at_def)

lemma range_tokens_defined:
  assumes g: "good_prefix f t p" and s: "s \<le> t + 1"
  shows "\<exists>n\<ge>0. range_tokens f t p s e = Some n"
proof -
  let ?s = "max f s" let ?e = "max ?s (min (t + 1) e)"
  have b: "0 \<le> ?s - f" "?s - f \<le> ?e - f" "?e - f \<le> t - f + 1"
    using s g by (auto simp: good_prefix_def)
  then have "range_tokens f t p s e = Some (p ! nat (?e - f) - p ! nat (?s - f))"
    using g by (simp add: range_tokens_def prefix_diff_def good_prefix_at Let_def)
  then show ?thesis using good_prefix_mono [OF g b] by auto
qed

lemma head_end_window:
  assumes g: "good_prefix f t p" and w: "f \<le> s" "s \<le> e" "e \<le> t + 1" and cap: "0 < c"
  defines "r \<equiv> prefix_search p (p ! nat (s - f) + c) (s - f + 1) (e - f) (s - f)"
  shows "head_end f t p s e c = min (if f + r = s \<and> s < e then s + 1 else f + r) e"
    and "r = s - f \<or> (s - f + 1 \<le> r \<and> r \<le> e - f \<and> p ! nat r \<le> p ! nat (s - f) + c)"
proof -
  show "head_end f t p s e c = min (if f + r = s \<and> s < e then s + 1 else f + r) e"
    using w cap by (simp add: head_end_def Let_def r_def)
  show "r = s - f \<or> (s - f + 1 \<le> r \<and> r \<le> e - f \<and> p ! nat r \<le> p ! nat (s - f) + c)"
    using prefix_search_bounds [of p "p ! nat (s - f) + c" "s - f + 1" "e - f" "s - f"] w
    by (auto simp: r_def at_most_def prefix_at_def split: if_splits)
qed

lemma head_end_bounds:
  assumes g: "good_prefix f t p" and w: "f \<le> s" "s \<le> e" "e \<le> t + 1"
  shows "s \<le> head_end f t p s e c \<and> head_end f t p s e c \<le> e"
proof (cases "0 < c")
  case True
  show ?thesis using head_end_window [OF g w True] w by auto
qed (use w in \<open>auto simp: head_end_def Let_def\<close>)

lemma head_end_cap:
  assumes g: "good_prefix f t p" and w: "f \<le> s" "s \<le> e" "e \<le> t + 1" and cap: "0 < c"
    and n: "range_tokens f t p s (head_end f t p s e c) = Some n"
  shows "n \<le> c \<or> head_end f t p s e c = s + 1"
proof -
  let ?h = "head_end f t p s e c"
  have h: "s \<le> ?h" "?h \<le> e" using head_end_bounds [OF g w] by auto
  then have "n = p ! nat (?h - f) - p ! nat (s - f)"
    using n w g by (simp add: range_tokens_def prefix_diff_def good_prefix_at)
  with head_end_window [OF g w cap] w cap show ?thesis
    by (auto split: if_splits)
qed

lemma head_end_maximal:
  assumes g: "good_prefix f t p" and w: "f \<le> s" "e \<le> t + 1" and cap: "0 < c"
    and k: "head_end f t p s e c < k" "k \<le> e" "s \<le> k" and n: "range_tokens f t p s k = Some n"
  shows "c < n"
proof (rule ccontr)
  assume le: "\<not> c < n"
  have se: "s \<le> e" using k by simp
  have sk: "s < k" using head_end_bounds [OF g w(1) se w(2), of c] k by simp
  have "n = p ! nat (k - f) - p ! nat (s - f)"
    using n w k g by (simp add: range_tokens_def prefix_diff_def good_prefix_at)
  with le have "at_most p (p ! nat (s - f) + c) (k - f)"
    using g w k by (simp add: at_most_def good_prefix_at)
  then have "k - f \<le> prefix_search p (p ! nat (s - f) + c) (s - f + 1) (e - f) (s - f)"
    using g w k sk by (intro prefix_search_last) (auto simp: good_prefix_def)
  with head_end_window [OF g w(1) se w(2) cap] k show False by (auto split: if_splits)
qed

lemma suffix_start_cases:
  assumes g: "good_prefix f t p" and n: "0 < n" and le: "n \<le> p ! nat (t - f + 1)"
  defines "r \<equiv> prefix_search p (p ! nat (t - f + 1) - n) 0 (t - f + 1) 0"
  shows "suffix_start f t p n = f + r" and "0 \<le> r" "r \<le> t - f"
    and "p ! nat r \<le> p ! nat (t - f + 1) - n"
    and "p ! nat (t - f + 1) - n < p ! nat (r + 1)"
proof -
  have len: "int (length p) - 1 = t - f + 1" using g by (simp add: good_prefix_def)
  show "suffix_start f t p n = f + r"
    using n le by (simp add: suffix_start_def len r_def Let_def)
  have zero: "at_most p (p ! nat (t - f + 1) - n) 0"
    using g le by (auto simp: at_most_def prefix_at_def good_prefix_def)
  have r: "r = 0 \<or> (0 \<le> r \<and> r \<le> t - f + 1 \<and> at_most p (p ! nat (t - f + 1) - n) r)"
    unfolding r_def by (rule prefix_search_bounds)
  then show r0: "0 \<le> r" by auto
  show pr: "p ! nat r \<le> p ! nat (t - f + 1) - n"
    using r zero by (auto simp: at_most_def prefix_at_def split: if_splits)
  have "r \<noteq> t - f + 1" using pr n by auto
  moreover have "f \<le> t + 1" using g by (simp add: good_prefix_def)
  ultimately show rt: "r \<le> t - f" using r by auto
  show "p ! nat (t - f + 1) - n < p ! nat (r + 1)"
  proof (rule ccontr)
    assume "\<not> ?thesis"
    then have "at_most p (p ! nat (t - f + 1) - n) (r + 1)"
      using g r0 rt by (simp add: at_most_def good_prefix_at)
    then have "r + 1 \<le> r"
      unfolding r_def using g r0 rt
      by (intro prefix_search_last) (auto simp: good_prefix_def r_def)
    then show False by simp
  qed
qed

lemma suffix_tokens_inside:
  assumes "good_prefix f t p" "f \<le> i" "i \<le> t + 1"
  shows "suffix_tokens f t p i = p ! nat (t - f + 1) - p ! nat (i - f)"
proof -
  have len: "int (length p) - 1 = t - f + 1" using assms by (simp add: good_prefix_def)
  consider "i = f" | "f < i" "i \<le> t" | "f < i" "i = t + 1" using assms by linarith
  then show ?thesis
  proof cases
    case 1
    then have "suffix_tokens f t p i = p ! nat (t - f + 1)" by (simp only: suffix_tokens_def len Let_def if_True order_refl)
    with 1 show ?thesis using assms by (simp add: good_prefix_def)
  next
    case 2
    then have "ordinal_to_index f (t - f + 1) i = i - f" by (simp add: ordinal_to_index_def)
    moreover have "\<not> i \<le> f" "\<not> t < i" using 2 by auto
    ultimately show ?thesis by (simp only: suffix_tokens_def len Let_def if_False)
  next
    case 3
    then have "i - f = t - f + 1" "\<not> i \<le> f" "t < i" by auto
    then show ?thesis by (simp only: suffix_tokens_def len Let_def if_False if_True)
  qed
qed

lemma suffix_start_laws:
  assumes g: "good_prefix f t p"
  shows "f \<le> suffix_start f t p n \<and> suffix_start f t p n \<le> t + 1"
    and "0 < n \<Longrightarrow> suffix_start f t p n = f \<or> n \<le> suffix_tokens f t p (suffix_start f t p n)"
    and "0 < n \<Longrightarrow> suffix_start f t p n \<le> t \<Longrightarrow> suffix_tokens f t p (suffix_start f t p n + 1) < n"
proof -
  have ft: "f \<le> t + 1" and len: "int (length p) - 1 = t - f + 1"
    using g by (auto simp: good_prefix_def)
  have big: "suffix_start f t p n = f" if "0 < n" "p ! nat (t - f + 1) < n"
    using that by (simp add: suffix_start_def len Let_def)
  note cs = suffix_start_cases [OF g]
  show "f \<le> suffix_start f t p n \<and> suffix_start f t p n \<le> t + 1"
    using ft big cs(1-3) [of n] by (cases "0 < n"; cases "p ! nat (t - f + 1) < n") (auto simp: suffix_start_def)
  show "suffix_start f t p n = f \<or> n \<le> suffix_tokens f t p (suffix_start f t p n)" if "0 < n"
    using big cs [of n] that by (cases "p ! nat (t - f + 1) < n") (auto simp: suffix_tokens_inside [OF g])
  show "suffix_tokens f t p (suffix_start f t p n + 1) < n" if n: "0 < n" and le: "suffix_start f t p n \<le> t"
  proof (cases "p ! nat (t - f + 1) < n")
    case True
    then have "p ! 0 \<le> p ! nat (f + 1 - f)"
      using good_prefix_mono [OF g, of 0 1] le n big by auto
    with True le n big g show ?thesis
      by (auto simp: suffix_tokens_inside [OF g] good_prefix_def)
  next
    case False
    with cs [of n] n le show ?thesis by (auto simp: suffix_tokens_inside [OF g] algebra_simps)
  qed
qed

section \<open>The built index obeys the laws\<close>

lemma message_total_nonneg: "0 \<le> message_total rt opts m"
  by (auto simp: message_total_def estimate_nonneg split: option.splits)

lemma length_place [simp]:
  "length (foldl (place_total rt opts f w) acc ms) = length acc"
  by (induction ms arbitrary: acc) (auto simp: place_total_def Let_def)

lemma place_nonneg:
  "\<forall>x\<in>set acc. 0 \<le> x \<Longrightarrow> \<forall>x\<in>set (foldl (place_total rt opts f w) acc ms). 0 \<le> x"
proof (induction ms arbitrary: acc)
  case (Cons m ms)
  have "\<forall>x\<in>set (place_total rt opts f w acc m). 0 \<le> x"
    using Cons.prems message_total_nonneg [of rt opts m]
    by (auto simp: place_total_def Let_def dest!: subsetD [OF set_update_subset_insert])
  then show ?case using Cons.IH by simp
qed simp

lemma place_zero: "0 < length acc \<Longrightarrow> foldl (place_total rt opts f w) acc ms ! 0 = acc ! 0"
proof (induction ms arbitrary: acc)
  case (Cons m ms)
  have "place_total rt opts f w acc m ! 0 = acc ! 0"
    by (auto simp: place_total_def Let_def nth_list_update)
  moreover have "0 < length (place_total rt opts f w acc m)"
    using Cons.prems by (simp add: place_total_def Let_def)
  ultimately show ?case using Cons.IH [of "place_total rt opts f w acc m"] by simp
qed simp

lemma first_le_terminal: "first_ordinal ms \<le> terminal_ordinal ms + 1"
proof (cases "index_ordered ms")
  case (Cons m ms')
  have "sorted (map rm_ordinal (index_ordered ms))" by (simp add: index_ordered_def)
  then have "rm_ordinal m \<le> rm_ordinal (last (index_ordered ms))"
    by (auto simp: Cons)
  with Cons show ?thesis by (simp add: first_ordinal_def terminal_ordinal_def)
qed (simp add: first_ordinal_def terminal_ordinal_def)

lemma index_prefix_good:
  "good_prefix (first_ordinal ms) (terminal_ordinal ms) (index_prefix rt opts ms)"
proof -
  let ?f = "first_ordinal ms" and ?t = "terminal_ordinal ms"
  let ?w = "if ?f \<le> ?t then ?t - ?f + 1 else 0"
  let ?raw = "foldl (place_total rt opts ?f ?w) (replicate (nat (?w + 1)) 0) (index_ordered ms)"
  have w: "?w = ?t - ?f + 1" using first_le_terminal [of ms] by auto
  have len: "length ?raw = nat (?w + 1)" by simp
  have nonneg: "\<forall>x\<in>set ?raw. 0 \<le> x" by (rule place_nonneg) simp
  have pos: "0 < nat (?w + 1)" by simp
  have p: "index_prefix rt opts ms = partial_sums 0 ?raw" by (simp add: index_prefix_def Let_def)
  have zero: "?raw ! 0 = 0" using pos by (subst place_zero) (simp_all del: replicate.simps)
  have "partial_sums 0 ?raw ! 0 = 0"
    using pos zero len by (subst nth_partial_sums) (simp_all add: take_Suc_conv_app_nth del: foldl_Cons)
  moreover have "ascending (partial_sums 0 ?raw)"
    unfolding ascending_def using partial_sums_mono [OF nonneg] by simp
  ultimately show ?thesis
    using first_le_terminal [of ms] w len p by (simp add: good_prefix_def)
qed

lemma index_id_range:
  assumes "map_of (rev (map (\<lambda>m. (rm_ordinal m, rm_id m)) (index_ordered ms))) i = Some x"
  shows "first_ordinal ms \<le> i \<and> i \<le> terminal_ordinal ms"
proof -
  from assms obtain m where m: "m \<in> set (index_ordered ms)" "rm_ordinal m = i"
    by (auto dest!: map_of_SomeD)
  have sorted: "sorted (map rm_ordinal (index_ordered ms))" by (simp add: index_ordered_def)
  from m obtain k where k: "k < length (index_ordered ms)" "index_ordered ms ! k = m"
    by (auto simp: in_set_conv_nth)
  have "rm_ordinal (index_ordered ms ! 0) \<le> i" "i \<le> rm_ordinal (index_ordered ms ! (length (index_ordered ms) - 1))"
    using sorted_nth_mono [OF sorted, of 0 k] sorted_nth_mono [OF sorted, of k "length (index_ordered ms) - 1"] k m
      nth_map [of 0 "index_ordered ms" rm_ordinal] le_less_trans [OF le0 k(1)]
    by auto
  moreover have "index_ordered ms \<noteq> []" using m by auto
  ultimately show ?thesis
    by (cases "index_ordered ms") (auto simp: first_ordinal_def terminal_ordinal_def last_conv_nth)
qed

interpretation built: lawful_index "buildTrueRawTokenIndex rt ms opts" "first_ordinal ms" "terminal_ordinal ms"
  for rt ms opts
proof (unfold_locales, goal_cases)
  case 1 show ?case by (rule first_le_terminal)
next
  case 2 show ?case by (simp add: buildTrueRawTokenIndex_def index_count_def Let_def)
next
  case 3 show ?case by (simp add: buildTrueRawTokenIndex_def index_count_def Let_def)
next
  case (4 s e) then show ?case
    using range_tokens_defined [OF index_prefix_good] by (simp add: buildTrueRawTokenIndex_def Let_def)
next
  case (5 s e c) then show ?case
    using head_end_bounds [OF index_prefix_good] by (simp add: buildTrueRawTokenIndex_def Let_def)
next
  case (6 s e c) then show ?case
    using head_end_window [OF index_prefix_good, of ms s e c rt opts]
    by (auto simp: buildTrueRawTokenIndex_def Let_def)
next
  case (7 s e c n) then show ?case
    using head_end_cap [OF index_prefix_good, of ms s e c rt opts n]
    by (simp add: buildTrueRawTokenIndex_def Let_def)
next
  case (8 s e c k n) then show ?case
    using head_end_maximal [OF index_prefix_good, of ms s e c rt opts k n]
    by (simp add: buildTrueRawTokenIndex_def Let_def)
next
  case (9 n) show ?case
    using suffix_start_laws(1) [OF index_prefix_good] by (simp add: buildTrueRawTokenIndex_def Let_def)
next
  case (10 n) show ?case
    using suffix_start_laws(1) [OF index_prefix_good] by (simp add: buildTrueRawTokenIndex_def Let_def)
next
  case (11 n) then show ?case
    using suffix_start_laws(2) [OF index_prefix_good] by (simp add: buildTrueRawTokenIndex_def Let_def)
next
  case (12 n) then show ?case
    using suffix_start_laws(3) [OF index_prefix_good] by (simp add: buildTrueRawTokenIndex_def Let_def)
next
  case (13 i m) then show ?case
    by (auto simp: buildTrueRawTokenIndex_def Let_def dest: index_id_range)
qed

section \<open>The index counts every message once\<close>

definition tokens_at :: "runtime \<Rightarrow> index_options \<Rightarrow> raw_message list \<Rightarrow> int \<Rightarrow> int" where
  "tokens_at rt opts ms n = sum_list (map (message_total rt opts) (filter (\<lambda>m. rm_ordinal m = n) ms))"

lemma tokens_at_missing: "n \<notin> rm_ordinal ` set ms \<Longrightarrow> tokens_at rt opts ms n = 0"
  by (induction ms) (auto simp: tokens_at_def)

lemma sum_tokens_at:
  "(\<Sum>n\<in>{a..<b}. tokens_at rt opts ms n)
     = sum_list (map (message_total rt opts) (filter (\<lambda>m. a \<le> rm_ordinal m \<and> rm_ordinal m < b) ms))"
proof (induction ms)
  case (Cons m ms)
  have "tokens_at rt opts (m # ms) n = (if n = rm_ordinal m then message_total rt opts m else 0) + tokens_at rt opts ms n"
    for n by (simp add: tokens_at_def)
  then have "(\<Sum>n\<in>{a..<b}. tokens_at rt opts (m # ms) n)
     = (\<Sum>n\<in>{a..<b}. if n = rm_ordinal m then message_total rt opts m else 0)
       + (\<Sum>n\<in>{a..<b}. tokens_at rt opts ms n)"
    by (simp add: sum.distrib)
  then show ?case using Cons.IH by (simp add: sum.delta)
qed (simp add: tokens_at_def)

lemma place_values:
  assumes "distinct (map rm_ordinal ms)" "\<forall>m\<in>set ms. f \<le> rm_ordinal m \<and> rm_ordinal m < f + w" "0 \<le> w"
    "k \<le> nat w"
  shows "foldl (place_total rt opts f w) (replicate (nat (w + 1)) 0) ms ! k
           = (if k = 0 then 0 else tokens_at rt opts ms (f + int k - 1))"
  using assms(1,2)
proof (induction ms rule: rev_induct)
  case (snoc m ms)
  let ?acc = "foldl (place_total rt opts f w) (replicate (nat (w + 1)) 0) ms"
  let ?r = "nat (rm_ordinal m - f + 1)"
  have IH: "?acc ! k = (if k = 0 then 0 else tokens_at rt opts ms (f + int k - 1))"
    using snoc by simp
  have r: "f \<le> rm_ordinal m" "rm_ordinal m < f + w" using snoc.prems by auto
  have step: "place_total rt opts f w ?acc m = ?acc[?r := message_total rt opts m]"
    using r by (simp add: place_total_def Let_def)
  have fresh: "tokens_at rt opts ms (rm_ordinal m) = 0"
    using snoc.prems by (intro tokens_at_missing) auto
  show ?case
  proof (cases "k = ?r")
    case True
    have len: "?r < length ?acc" using r by simp
    have ord: "f + int k - 1 = rm_ordinal m" "k \<noteq> 0" using True r by auto
    have "foldl (place_total rt opts f w) (replicate (nat (w + 1)) 0) (ms @ [m]) ! k = message_total rt opts m"
      using len by (simp only: foldl_append foldl.simps step True nth_list_update_eq)
    with ord fresh show ?thesis by (simp add: tokens_at_def)
  next
    case False
    have "k = 0 \<or> rm_ordinal m \<noteq> f + int k - 1" using False by auto
    moreover have "foldl (place_total rt opts f w) (replicate (nat (w + 1)) 0) (ms @ [m]) ! k = ?acc ! k"
      using False by (simp only: foldl_append foldl.simps step nth_list_update_neq)
    ultimately show ?thesis using IH by (auto simp: tokens_at_def)
  qed
qed (use assms(3,4) in \<open>auto simp: tokens_at_def nth_replicate simp del: replicate.simps\<close>)

lemma take_sum: "i \<le> j \<Longrightarrow> j < length xs \<Longrightarrow>
    sum_list (take (Suc j) xs) - sum_list (take (Suc i) xs) = (\<Sum>k\<in>{Suc i..<Suc j}. xs ! k :: int)"
proof (induction j)
  case (Suc j)
  then show ?case
    by (cases "i = Suc j") (auto simp: take_Suc_conv_app_nth [of "Suc j"])
qed simp

lemma index_ordered_props:
  assumes "m \<in> set ms"
  shows "first_ordinal ms \<le> rm_ordinal m" "rm_ordinal m \<le> terminal_ordinal ms"
proof -
  have "(rm_ordinal m, rm_id m) \<in> set (map (\<lambda>m. (rm_ordinal m, rm_id m)) (index_ordered ms))"
    using assms by (simp add: index_ordered_def)
  then have "map_of (rev (map (\<lambda>m. (rm_ordinal m, rm_id m)) (index_ordered ms))) (rm_ordinal m) \<noteq> None"
    using assms by (simp add: map_of_eq_None_iff image_image index_ordered_def)
  then obtain x where "map_of (rev (map (\<lambda>m. (rm_ordinal m, rm_id m)) (index_ordered ms))) (rm_ordinal m) = Some x"
    by auto
  then show "first_ordinal ms \<le> rm_ordinal m" "rm_ordinal m \<le> terminal_ordinal ms"
    using index_id_range by auto
qed

lemma tokens_at_mset:
  "tokens_at rt opts ms n = (\<Sum>m\<in>#filter_mset (\<lambda>m. rm_ordinal m = n) (mset ms). message_total rt opts m)"
  by (induction ms) (auto simp: tokens_at_def)

lemma tokens_at_perm: "mset xs = mset ys \<Longrightarrow> tokens_at rt opts xs n = tokens_at rt opts ys n"
  by (simp add: tokens_at_mset)

lemma index_prefix_diff:
  assumes d: "distinct (map rm_ordinal ms)"
    and w: "0 \<le> i" "i \<le> j" "j \<le> terminal_ordinal ms - first_ordinal ms + 1"
  shows "index_prefix rt opts ms ! nat j - index_prefix rt opts ms ! nat i
           = (\<Sum>n\<in>{first_ordinal ms + i..<first_ordinal ms + j}. tokens_at rt opts ms n)"
proof -
  let ?f = "first_ordinal ms" and ?t = "terminal_ordinal ms"
  let ?w = "if ?f \<le> ?t then ?t - ?f + 1 else 0"
  let ?raw = "foldl (place_total rt opts ?f ?w) (replicate (nat (?w + 1)) 0) (index_ordered ms)"
  have w': "?w = ?t - ?f + 1" using first_le_terminal [of ms] by auto
  have p: "index_prefix rt opts ms = partial_sums 0 ?raw" by (simp add: index_prefix_def Let_def)
  have len: "length ?raw = nat (?w + 1)" by simp
  have perm: "mset (index_ordered ms) = mset ms" by (simp add: index_ordered_def)
  have dist: "distinct (map rm_ordinal (index_ordered ms))"
    using d perm by (metis mset_eq_imp_distinct_iff mset_map)
  have inside: "\<forall>m\<in>set (index_ordered ms). ?f \<le> rm_ordinal m \<and> rm_ordinal m < ?f + ?w"
    using index_ordered_props [of _ ms] w' perm by (fastforce dest: mset_eq_setD)
  have val: "?raw ! k = tokens_at rt opts ms (?f + int k - 1)" if "k \<in> {Suc (nat i)..<Suc (nat j)}" for k
  proof -
    have "0 \<le> ?w" "k \<le> nat ?w" "k \<noteq> 0" using that w w' nat_mono [OF w(3)] by auto
    with place_values [OF dist inside] show ?thesis using tokens_at_perm [OF perm, of rt opts] by simp
  qed
  have "index_prefix rt opts ms ! nat j - index_prefix rt opts ms ! nat i
          = sum_list (take (Suc (nat j)) ?raw) - sum_list (take (Suc (nat i)) ?raw)"
    unfolding p using w w' len by (simp add: nth_partial_sums)
  also have "\<dots> = (\<Sum>k\<in>{Suc (nat i)..<Suc (nat j)}. ?raw ! k)"
    using w w' len by (intro take_sum) auto
  also have "\<dots> = (\<Sum>k\<in>{Suc (nat i)..<Suc (nat j)}. tokens_at rt opts ms (?f + int k - 1))"
    using val by (intro sum.cong) auto
  also have "\<dots> = (\<Sum>n\<in>{?f + i..<?f + j}. tokens_at rt opts ms n)"
    using w by (intro sum.reindex_bij_witness [of _ "\<lambda>n. nat (n - ?f + 1)" "\<lambda>k. ?f + int k - 1"]) auto
  finally show ?thesis .
qed

section \<open>Properties\<close>

text \<open>
  Over messages with distinct ordinals, the tokens the index reports for a range inside the
  session are the sum of the totals of exactly the messages in that range.
\<close>

theorem range_tokens_sum_messages:
  assumes "distinct (map rm_ordinal ms)"
    and "first_ordinal ms \<le> s" "s \<le> e" "e \<le> terminal_ordinal ms + 1"
  shows "ti_rangeTokens (buildTrueRawTokenIndex rt ms opts) s e
     = Some (sum_list (map (message_total rt opts) (filter (\<lambda>m. s \<le> rm_ordinal m \<and> rm_ordinal m < e) ms)))"
proof -
  let ?f = "first_ordinal ms"
  have "range_tokens ?f (terminal_ordinal ms) (index_prefix rt opts ms) s e
      = Some (index_prefix rt opts ms ! nat (e - ?f) - index_prefix rt opts ms ! nat (s - ?f))"
    using assms(2-4) good_prefix_at [OF index_prefix_good, of _ ms rt opts]
    by (simp add: range_tokens_def prefix_diff_def)
  then show ?thesis
    using index_prefix_diff [OF assms(1), of "s - ?f" "e - ?f" rt opts] assms(2-4)
    by (simp add: buildTrueRawTokenIndex_def Let_def sum_tokens_at)
qed

definition counted :: "nat \<Rightarrow> index_options" where
  "counted n = \<lparr>io_storedTotal = (\<lambda>_. Some n), io_absoluteMessageCount = None\<rparr>"

definition plain_message :: "int \<Rightarrow> raw_message" where
  "plain_message n = \<lparr>rm_ordinal = n, rm_id = ''m'', rm_role = ''user'', rm_parts = []\<rparr>"

theorem range_tokens_sum_messages_witness:
  "ti_rangeTokens (buildTrueRawTokenIndex example_runtime [plain_message 6, plain_message 4, plain_message 5] (counted 7)) 5 7
     = Some 14"
  using range_tokens_sum_messages [of "[plain_message 6, plain_message 4, plain_message 5]" 5 7 example_runtime "counted 7"]
  by (simp add: plain_message_def counted_def message_total_def first_ordinal_def terminal_ordinal_def
      index_ordered_def)

text \<open>
  The walk back from the end of the session for a positive token budget stays inside the session
  and brackets the budget: the suffix it returns holds at least the budget (or is the whole session),
  and one message less would hold less.
\<close>

theorem suffix_walk_brackets_budget:
  assumes "0 < n"
  shows "let ix = buildTrueRawTokenIndex rt ms opts; s = ti_findSuffixStartForTokens ix n
     in first_ordinal ms \<le> s \<and> s \<le> terminal_ordinal ms + 1
      \<and> (s = first_ordinal ms \<or> n \<le> ti_suffixTokensFromOrdinal ix s)
      \<and> (s \<le> terminal_ordinal ms \<longrightarrow> ti_suffixTokensFromOrdinal ix (s + 1) < n)"
  using built.suffix_start_bounds [where rt = rt and ms = ms and opts = opts and n = n]
    built.suffix_start_covers [OF assms, where rt = rt and ms = ms and opts = opts]
    built.suffix_start_tight [OF assms, where rt = rt and ms = ms and opts = opts]
  by (simp add: Let_def)

theorem suffix_walk_brackets_budget_witness:
  "let ix = buildTrueRawTokenIndex example_runtime [plain_message 4, plain_message 5, plain_message 6] (counted 7);
       s = ti_findSuffixStartForTokens ix 10
   in 4 \<le> s \<and> (s = 4 \<or> 10 \<le> ti_suffixTokensFromOrdinal ix s)"
  using suffix_walk_brackets_budget [of 10 example_runtime "[plain_message 4, plain_message 5, plain_message 6]" "counted 7"]
  by (simp add: Let_def first_ordinal_def index_ordered_def plain_message_def)

text \<open>
  A head cut at a positive cap inside the session always advances, stays in the window, is
  within the cap or a single message, and is maximal: any longer head of the window exceeds the cap.
\<close>

theorem head_cut_is_greedy:
  assumes "first_ordinal ms \<le> s" "s < e" "e \<le> terminal_ordinal ms + 1" "0 < cap"
  shows "let ix = buildTrueRawTokenIndex rt ms opts; h = ti_findHeadEndForCap ix s e cap
     in s < h \<and> h \<le> e \<and> (h = s + 1 \<or> (\<exists>n. ti_rangeTokens ix s h = Some n \<and> n \<le> cap))
      \<and> (\<forall>k n. h < k \<and> k \<le> e \<and> ti_rangeTokens ix s k = Some n \<longrightarrow> cap < n)"
proof -
  let ?ix = "buildTrueRawTokenIndex rt ms opts"
  let ?h = "ti_findHeadEndForCap ?ix s e cap"
  have se: "s \<le> e" using assms(2) by simp
  have prog: "s < ?h" using built.head_progress assms by blast
  have bnd: "?h \<le> e" using built.head_bounds assms(1,3) se by blast
  obtain n where n: "ti_rangeTokens ?ix s ?h = Some n"
    using built.range_defined [of s ms rt opts ?h] assms by auto
  have capped: "n \<le> cap \<or> ?h = s + 1"
    using built.head_cap [OF assms(1) se assms(3,4) n] by auto
  have "cap < n'" if "?h < k" "k \<le> e" "ti_rangeTokens ?ix s k = Some n'" for k n'
    using built.head_maximal [OF assms(1,3,4) that] prog that by simp
  with prog bnd n capped show ?thesis by (auto simp: Let_def)
qed

theorem head_cut_is_greedy_witness:
  "let ix = buildTrueRawTokenIndex example_runtime [plain_message 4, plain_message 5, plain_message 6] (counted 7);
       h = ti_findHeadEndForCap ix 4 7 15
   in 4 < h \<and> h \<le> 7"
  using head_cut_is_greedy [of "[plain_message 4, plain_message 5, plain_message 6]" 4 7 15 example_runtime "counted 7"]
  by (simp add: Let_def first_ordinal_def terminal_ordinal_def index_ordered_def plain_message_def)

end
