(* ===== verification/Protected_Tail.thy ===== *)
theory Protected_Tail
  imports Execution_Policy Tool_Arcs Token_Index
begin

text \<open>
  The protected-tail boundary (\<open>hooks/magic-context/protected-tail-boundary.ts\<close>): the token target of
  the tail, the per-run cap, the semantic snap, the head cap and the resolver that produces a snapshot.
  The messages of the session, the
  cached absolute message count, the clock and the end of the last compartment are read from the host
  and the database and are arguments here. Numbers of a context are finite.
\<close>

section \<open>Token target\<close>

record token_target =
  tt_usable :: int
  tt_rawN :: int
  tt_floorN :: int
  tt_ceilingN :: int
  tt_effectiveFloor :: int
  tt_N :: int
  tt_headroom :: int
  tt_triggerBudget :: int
  tt_reserve :: int

definition ALPHA :: real where [config_simps]: "ALPHA = 3/10"
definition FLOOR_RATIO :: real where [config_simps]: "FLOOR_RATIO = 8/100"
definition FLOOR_MIN :: int where [config_simps]: "FLOOR_MIN = 2000"
definition FLOOR_MAX :: int where [config_simps]: "FLOOR_MAX = 12000"
definition ABS_CAP :: int where [config_simps]: "ABS_CAP = 96000"
definition MAX_USABLE_RATIO :: real where [config_simps]: "MAX_USABLE_RATIO = 4/10"
definition RESERVED_HEADROOM_MIN :: int where [config_simps]: "RESERVED_HEADROOM_MIN = 1000"
definition RESERVED_HEADROOM_RATIO :: real where [config_simps]: "RESERVED_HEADROOM_RATIO = 2/100"
definition NON_EMERGENCY_MAX_CAP :: int where [config_simps]: "NON_EMERGENCY_MAX_CAP = 250000"
definition FORCE80_MAX_CAP :: int where [config_simps]: "FORCE80_MAX_CAP = 500000"
definition FORCE95_MAX_CAP :: int where [config_simps]: "FORCE95_MAX_CAP = 750000"
definition NORMAL_HYSTERESIS_TOKENS :: int where [config_simps]: "NORMAL_HYSTERESIS_TOKENS = 256"
definition MIN_FORCE_ELIGIBLE_TOKENS_CAP :: int where [config_simps]: "MIN_FORCE_ELIGIBLE_TOKENS_CAP = 1000"

definition deriveMinForceEligibleTokens :: "int \<Rightarrow> int" where
  "deriveMinForceEligibleTokens scaledN = min MIN_FORCE_ELIGIBLE_TOKENS_CAP (max 1 (scaledN div 8))"

definition clampPercentage :: "jsnum \<Rightarrow> real" where
  "clampPercentage v = (case v of None \<Rightarrow> 0 | Some x \<Rightarrow> max 0 (min 100 x))"

definition clampOrdinal :: "int \<Rightarrow> int \<Rightarrow> int" where
  "clampOrdinal v rawMessageCount = max 1 (min (rawMessageCount + 1) v)"

definition deriveProtectedTailTokenTarget :: "jsnum \<Rightarrow> jsnum \<Rightarrow> jsnum \<Rightarrow> int option \<Rightarrow> token_target" where
  "deriveProtectedTailTokenTarget contextLimit threshold usagePercentage budget =
     (let safeContextLimit = (case contextLimit of Some l \<Rightarrow> if 0 < l then l else 128000 | None \<Rightarrow> 128000);
          safeThreshold = (case threshold of Some t \<Rightarrow> max 0 t | None \<Rightarrow> 65);
          usable = max 1 (math_round (safeContextLimit * safeThreshold / 100));
          usage = clampPercentage usagePercentage;
          triggerBudget = (case budget of Some b \<Rightarrow> b | None \<Rightarrow> deriveTriggerBudget (Some safeContextLimit) safeThreshold);
          reserve = max RESERVED_HEADROOM_MIN (math_round (usable * RESERVED_HEADROOM_RATIO));
          rawN = math_round (usable * ALPHA * (1 - usage / 100));
          floorN = min FLOOR_MAX (max FLOOR_MIN (math_round (usable * FLOOR_RATIO)));
          headroom = min (triggerBudget + reserve) \<lfloor>usable * (5/10 :: real)\<rfloor>;
          ceilingN = max 1 (min (min ABS_CAP \<lfloor>usable * MAX_USABLE_RATIO\<rfloor>) (usable - headroom));
          effectiveFloor = min floorN ceilingN
      in \<lparr>tt_usable = usable, tt_rawN = rawN, tt_floorN = floorN, tt_ceilingN = ceilingN,
          tt_effectiveFloor = effectiveFloor, tt_N = min ceilingN (max effectiveFloor rawN),
          tt_headroom = headroom, tt_triggerBudget = triggerBudget, tt_reserve = reserve\<rparr>)"

lemma target_shape:
  shows "\<exists>m h. tt_ceilingN (deriveProtectedTailTokenTarget l t u b) = max 1 (min (min ABS_CAP m) h)"
    and "tt_effectiveFloor (deriveProtectedTailTokenTarget l t u b) =
      min (tt_floorN (deriveProtectedTailTokenTarget l t u b)) (tt_ceilingN (deriveProtectedTailTokenTarget l t u b))"
    and "\<exists>m. tt_floorN (deriveProtectedTailTokenTarget l t u b) = min FLOOR_MAX (max FLOOR_MIN m)"
    and "tt_N (deriveProtectedTailTokenTarget l t u b) =
      min (tt_ceilingN (deriveProtectedTailTokenTarget l t u b))
        (max (tt_effectiveFloor (deriveProtectedTailTokenTarget l t u b)) (tt_rawN (deriveProtectedTailTokenTarget l t u b)))"
  unfolding deriveProtectedTailTokenTarget_def Let_def token_target.select_convs
     apply (rule exI, rule exI, rule refl)
    apply (rule refl)
   apply (rule exI, rule refl)
  apply (rule refl)
  done

lemma target_ceiling: "1 \<le> tt_ceilingN (deriveProtectedTailTokenTarget l t u b)"
  "tt_ceilingN (deriveProtectedTailTokenTarget l t u b) \<le> 96000"
  using target_shape(1) [of l t u b] by (auto simp: config_simps)

lemma target_N:
  "tt_effectiveFloor (deriveProtectedTailTokenTarget l t u b) \<le> tt_N (deriveProtectedTailTokenTarget l t u b)"
  "tt_N (deriveProtectedTailTokenTarget l t u b) \<le> tt_ceilingN (deriveProtectedTailTokenTarget l t u b)"
  using target_shape(2,4) [of l t u b] by simp_all

lemma target_N_pos: "1 \<le> tt_N (deriveProtectedTailTokenTarget l t u b)"
proof -
  have "1 \<le> tt_effectiveFloor (deriveProtectedTailTokenTarget l t u b)"
    using target_shape(2,3) [of l t u b] target_ceiling(1) [of l t u b] by (auto simp: config_simps)
  with target_N(1) show ?thesis by (rule order_trans [rotated])
qed

lemma target_room:
  "tt_N (deriveProtectedTailTokenTarget l t u b) + tt_headroom (deriveProtectedTailTokenTarget l t u b)
     \<le> tt_usable (deriveProtectedTailTokenTarget l t u b)"
proof -
  let ?T = "deriveProtectedTailTokenTarget l t u b"
  have "1 \<le> tt_usable ?T"
    unfolding deriveProtectedTailTokenTarget_def Let_def token_target.select_convs by (rule max.cobounded1)
  moreover have "\<exists>m. tt_headroom ?T = min m \<lfloor>tt_usable ?T * (5/10 :: real)\<rfloor>"
    unfolding deriveProtectedTailTokenTarget_def Let_def token_target.select_convs by (rule exI, rule refl)
  moreover have "\<exists>m. tt_ceilingN ?T = max 1 (min m (tt_usable ?T - tt_headroom ?T))"
    unfolding deriveProtectedTailTokenTarget_def Let_def token_target.select_convs by (rule exI, rule refl)
  moreover have "1 \<le> v - \<lfloor>v * (5/10 :: real)\<rfloor>" if "1 \<le> v" for v :: int
    using that by linarith
  ultimately have "tt_ceilingN ?T \<le> tt_usable ?T - tt_headroom ?T" by fastforce
  with target_N(2) [of l t u b] show ?thesis by linarith
qed

lemma target_raw_antitone:
  assumes "u1 \<le> u2"
  shows "tt_rawN (deriveProtectedTailTokenTarget l t (Some u2) b)
     \<le> tt_rawN (deriveProtectedTailTokenTarget l t (Some u1) b)"
proof -
  have "clampPercentage (Some u1) \<le> clampPercentage (Some u2)"
    using assms by (auto simp: clampPercentage_def)
  then have "math_round (real_of_int v * ALPHA * (1 - clampPercentage (Some u2) / 100))
      \<le> math_round (real_of_int v * ALPHA * (1 - clampPercentage (Some u1) / 100))" if "1 \<le> v" for v
    using that by (intro math_round_mono mult_left_mono) (auto simp: ALPHA_def divide_right_mono)
  then show ?thesis
    unfolding deriveProtectedTailTokenTarget_def Let_def token_target.select_convs
    by (meson max.cobounded1)
qed

section \<open>Per-run cap\<close>

record cap_tier =
  ct_minUsagePercentage :: real
  ct_maxCap :: int
  ct_nMultiplier :: int
  ct_usableFraction :: real
  ct_absoluteCap :: int

definition PER_RUN_CAP_TIERS :: "cap_tier list" where
  "PER_RUN_CAP_TIERS =
     [\<lparr>ct_minUsagePercentage = 95, ct_maxCap = FORCE95_MAX_CAP, ct_nMultiplier = 4,
       ct_usableFraction = 5/10, ct_absoluteCap = 250000\<rparr>,
      \<lparr>ct_minUsagePercentage = 80, ct_maxCap = FORCE80_MAX_CAP, ct_nMultiplier = 3,
       ct_usableFraction = 35/100, ct_absoluteCap = 150000\<rparr>,
      \<lparr>ct_minUsagePercentage = 0, ct_maxCap = NON_EMERGENCY_MAX_CAP, ct_nMultiplier = 2,
       ct_usableFraction = 25/100, ct_absoluteCap = 100000\<rparr>]"

definition perRunCapForTier :: "cap_tier \<Rightarrow> int \<Rightarrow> int \<Rightarrow> int" where
  "perRunCapForTier tier usable N =
     min (ct_maxCap tier)
       (max (ct_nMultiplier tier * N) (min (math_round (ct_usableFraction tier * usable)) (ct_absoluteCap tier)))"

definition selectPerRunCap :: "real \<Rightarrow> int \<Rightarrow> real \<Rightarrow> real \<Rightarrow> int" where
  "selectPerRunCap usagePercentage N contextLimit executeThresholdPercentage =
     (let usable = max 1 (math_round (contextLimit * executeThresholdPercentage / 100));
          tier = (case find (\<lambda>t. ct_minUsagePercentage t \<le> usagePercentage) PER_RUN_CAP_TIERS of
                    Some t \<Rightarrow> t | None \<Rightarrow> last PER_RUN_CAP_TIERS)
      in perRunCapForTier tier usable N)"

lemma select_cap_cases:
  "selectPerRunCap u N l t = perRunCapForTier (PER_RUN_CAP_TIERS ! (if 95 \<le> u then 0 else if 80 \<le> u then 1 else 2))
     (max 1 (math_round (l * t / 100))) N"
  by (simp add: selectPerRunCap_def PER_RUN_CAP_TIERS_def Let_def)

lemma tier_cap_mono:
  assumes "0 \<le> N" "1 \<le> (usable :: int)" "i \<le> j" "j < 3"
  shows "perRunCapForTier (PER_RUN_CAP_TIERS ! j) usable N \<le> perRunCapForTier (PER_RUN_CAP_TIERS ! i) usable N"
proof -
  have f: "math_round (35/100 * real_of_int usable) \<le> math_round (5/10 * real_of_int usable)"
    "math_round (25/100 * real_of_int usable) \<le> math_round (35/100 * real_of_int usable)"
    using assms(2) by (auto intro!: math_round_mono)
  have "i = 0 \<and> j = 0 \<or> i = 0 \<and> j = 1 \<or> i = 0 \<and> j = 2 \<or> i = 1 \<and> j = 1 \<or> i = 1 \<and> j = 2 \<or> i = 2 \<and> j = 2"
    using assms(3,4) by linarith
  with f assms(1) show ?thesis
    by (elim disjE conjE)
      (simp_all add: perRunCapForTier_def PER_RUN_CAP_TIERS_def config_simps min_def max_def)
qed

section \<open>Snapping a boundary to a semantic unit\<close>

definition boundaryMessageId :: "token_index \<Rightarrow> int \<Rightarrow> string option" where
  "boundaryMessageId index ordinal =
     (if ordinal < 1 \<or> ti_rawMessageCount index < ordinal then None else ti_messageIdAtOrdinal index ordinal)"

definition isSemanticBoundaryCandidate :: "runtime \<Rightarrow> json list \<Rightarrow> string \<Rightarrow> bool" where
  "isSemanticBoundaryCandidate rt messageParts role =
     (role = ''user'' \<and> hasMeaningfulUserText messageParts \<or>
      list_ex (\<lambda>part. (case get_field part ''type'' of Some t \<Rightarrow> js_String rt t | None \<Rightarrow> []) = ''tool'') messageParts)"

fun semantic_scan :: "runtime \<Rightarrow> int \<Rightarrow> int \<Rightarrow> int \<Rightarrow> raw_message list \<Rightarrow> int" where
  "semantic_scan rt candidate lastEnd snapped [] = snapped"
| "semantic_scan rt candidate lastEnd snapped (m # ms) =
     (if candidate < rm_ordinal m then snapped
      else if rm_ordinal m < lastEnd + 1 then semantic_scan rt candidate lastEnd snapped ms
      else if \<not> isSemanticBoundaryCandidate rt (rm_parts m) (rm_role m) then semantic_scan rt candidate lastEnd snapped ms
      else semantic_scan rt candidate lastEnd (rm_ordinal m) ms)"

definition semanticSnapBoundary :: "runtime \<Rightarrow> raw_message list \<Rightarrow> token_index \<Rightarrow> int \<Rightarrow> int \<Rightarrow> int \<Rightarrow> int" where
  "semanticSnapBoundary rt messages index candidate scaledN lastEnd =
     (let snapped = semantic_scan rt candidate lastEnd candidate messages
      in if snapped = candidate then candidate
         else if min (math_round (15/10 * real_of_int scaledN)) 48000
                   < ti_suffixTokensFromOrdinal index snapped - ti_suffixTokensFromOrdinal index candidate then candidate
         else if (case find (\<lambda>m. rm_ordinal m = snapped) messages of Some m \<Rightarrow> rm_role m = ''user'' | None \<Rightarrow> False)
                 \<and> max (2 * scaledN) 64000 < ti_tokenForOrdinal index snapped then candidate
         else snapped)"

function user_scan :: "raw_message list \<Rightarrow> token_index \<Rightarrow> int \<Rightarrow> int \<Rightarrow> int \<Rightarrow> int \<Rightarrow> int" where
  "user_scan messages index candidate offset limit ordinal =
     (if ordinal < offset then candidate
      else (case find (\<lambda>m. rm_ordinal m = ordinal) messages of
              None \<Rightarrow> user_scan messages index candidate offset limit (ordinal - 1)
            | Some m \<Rightarrow>
                if rm_role m \<noteq> ''user'' \<or> \<not> hasMeaningfulUserText (rm_parts m)
                then user_scan messages index candidate offset limit (ordinal - 1)
                else (case ti_rangeTokens index ordinal candidate of
                        Some n \<Rightarrow> if n \<le> limit then ordinal else candidate
                      | None \<Rightarrow> candidate)))"
  by pat_completeness auto
termination
  by (relation "measure (\<lambda>(ms, ix, c, offset, l, ordinal). nat (ordinal - offset + 1))") auto

declare user_scan.simps [simp del]

definition snapWrapupBoundaryToUser :: "raw_message list \<Rightarrow> token_index \<Rightarrow> int \<Rightarrow> int \<Rightarrow> int \<Rightarrow> int" where
  "snapWrapupBoundaryToUser messages index candidate offset triggerBudget =
     (if candidate \<le> offset then candidate
      else user_scan messages index candidate offset (min (max triggerBudget 2000) 48000) candidate)"

lemma semantic_scan_cases:
  "semantic_scan rt c lastEnd s ms = s \<or> (lastEnd < semantic_scan rt c lastEnd s ms \<and> semantic_scan rt c lastEnd s ms \<le> c)"
  by (induction rt c lastEnd s ms rule: semantic_scan.induct) auto

lemma semantic_snap_le: "semanticSnapBoundary rt ms ix c n lastEnd \<le> c"
  using semantic_scan_cases [of rt c lastEnd c ms] by (auto simp: semanticSnapBoundary_def Let_def)

lemma user_scan_le: "k \<le> c \<Longrightarrow> user_scan ms ix c offset l k \<le> c"
proof (induction ms ix c offset l k rule: user_scan.induct)
  case (1 ms ix c offset l k)
  then show ?case by (subst user_scan.simps) (auto split: option.splits)
qed

lemma wrapup_snap_le: "snapWrapupBoundaryToUser ms ix c offset b \<le> c"
  by (simp add: snapWrapupBoundaryToUser_def user_scan_le)

section \<open>The eligible head under the per-run cap\<close>

definition head_arc_step :: "token_index \<Rightarrow> int \<Rightarrow> int \<Rightarrow> int \<Rightarrow> int \<Rightarrow> int \<times> bool \<Rightarrow> tool_arc \<Rightarrow> int \<times> bool" where
  "head_arc_step index protectedTailStart offset capTokens recentOpenArcCutoff st arc =
     (let (e, oversize) = st
      in case ta_res arc of
           None \<Rightarrow>
             (if recentOpenArcCutoff \<le> ta_inv arc \<and> offset \<le> ta_inv arc \<and> ta_inv arc < e
              then min e (ta_inv arc) else e, oversize)
         | Some res \<Rightarrow>
             if ta_inv arc < e \<and> e \<le> res then
               let e' = min protectedTailStart (res + 1)
               in (e', oversize \<or> (case ti_rangeTokens index (max offset (ta_inv arc)) e' of
                                     Some n \<Rightarrow> capTokens < n | None \<Rightarrow> False))
             else (e, oversize))"

definition applyHeadCap :: "token_index \<Rightarrow> int \<Rightarrow> int \<Rightarrow> tool_arc list \<Rightarrow> int \<Rightarrow> int \<Rightarrow> int \<times> bool" where
  "applyHeadCap index protectedTailStart offset arcs capTokens recentOpenArcCutoff =
     (if protectedTailStart \<le> offset then (offset, False)
      else
        let end0 = ti_findHeadEndForCap index offset protectedTailStart capTokens;
            oversize0 = (end0 = offset + 1 \<and> capTokens < ti_tokenForOrdinal index offset);
            (e, oversize) = foldl (head_arc_step index protectedTailStart offset capTokens recentOpenArcCutoff)
                              (end0, oversize0) arcs
        in if e \<le> offset \<and> offset < protectedTailStart then (offset, oversize)
           else (min e protectedTailStart, oversize))"

lemma head_cap_bounds:
  "offset \<le> fst (applyHeadCap ix pts offset arcs cap recent) \<and> fst (applyHeadCap ix pts offset arcs cap recent) \<le> max offset pts"
  by (auto simp: applyHeadCap_def Let_def split: prod.splits)

section \<open>The boundary snapshot\<close>

datatype boundary_mode = Trigger | IncrementalRunner | TransformForce | ManualFullRecomp
  | ManualPartialRecomp | ManualWrapup | PiTrigger | PiRunner
datatype usage_source = Live | Persisted | ProvisionalZero | ManualNone

record boundary_usage =
  bu_percentage :: jsnum
  bu_inputTokens :: real

record boundary_context =
  bc_sessionId :: string
  bc_mode :: boundary_mode
  bc_contextLimit :: real
  bc_executeThresholdPercentage :: real
  bc_triggerBudget :: int
  bc_usage :: "boundary_usage option"
  bc_usageSource :: usage_source
  bc_lastCompartmentEndOrdinal :: int
  bc_priorBoundaryOrdinal :: int
  bc_migrationFloorActive :: bool
  bc_emergencyTailScale :: "real option"
  bc_providerShapeVersion :: string
  bc_cacheNamespace :: string
  bc_createdAt :: "int option"
  bc_storedTokenTotals :: "(string \<rightharpoonup> nat) option"

record boundary_snapshot =
  bs_sessionId :: string
  bs_mode :: boundary_mode
  bs_offset :: int
  bs_offsetMessageId :: "string option"
  bs_protectedTailStart :: int
  bs_protectedTailStartMessageId :: "string option"
  bs_eligibleEndOrdinal :: int
  bs_eligibleEndMessageId :: "string option"
  bs_rawMessageCountAtTrigger :: int
  bs_rawLastMessageIdAtTrigger :: "string option"
  bs_N :: int
  bs_usagePercentage :: real
  bs_usageInputTokens :: int
  bs_usageSource :: usage_source
  bs_contextLimit :: real
  bs_executeThresholdPercentage :: real
  bs_triggerBudget :: int
  bs_priorBoundaryOrdinal :: int
  bs_migrationFloorActive :: bool
  bs_emergencyTailScale :: "real option"
  bs_providerShapeVersion :: string
  bs_cacheNamespace :: string
  bs_createdAt :: int
  bs_rawRangeFingerprint :: string
  bs_trueRawEligibleTokens :: "int option"
  bs_oversizeAtomicUnit :: bool
  bs_boundaryReason :: string

text \<open>What the resolvers read of the host: the messages, the cached absolute count, the clock.\<close>

record session_read =
  sr_messages :: "raw_message list"
  sr_absoluteMessageCount :: "int option"
  sr_now :: int

definition partContentFingerprint :: "runtime \<Rightarrow> json \<Rightarrow> string" where
  "partContentFingerprint rt part =
     (if \<not> isRecord part then
        (case part of JNull \<Rightarrow> ''object'' | JArr _ \<Rightarrow> ''object'' | JBool _ \<Rightarrow> ''boolean''
           | JNum _ \<Rightarrow> ''number'' | JStr _ \<Rightarrow> ''string'' | JObj _ \<Rightarrow> ''object'')
          @ '':'' @ show_int (recursiveByteLength rt part)
      else (case toolSignalFromPart rt part of
              Some tool \<Rightarrow> contentStringsHash [ts_inputText tool, ts_outputText tool]
            | None \<Rightarrow> contentStringsHash
                [case firstStringField part [''text'', ''thinking'', ''reasoning'', ''content'', ''url''] of
                   Some s \<Rightarrow> s | None \<Rightarrow> []]))"

definition computeRawRangeFingerprint :: "runtime \<Rightarrow> raw_message list \<Rightarrow> int \<Rightarrow> int \<Rightarrow> string" where
  "computeRawRangeFingerprint rt messages startInclusive endExclusive =
     join ''|'' (map (\<lambda>m. show_int (rm_ordinal m) @ '':'' @ rm_id m @ '':'' @ show_int (int (length (rm_parts m)))
                         @ '':'' @ join '','' (map (partContentFingerprint rt) (rm_parts m)))
       (filter (\<lambda>m. \<not> (rm_ordinal m < startInclusive \<or> endExclusive \<le> rm_ordinal m)) messages))"

definition context_index :: "runtime \<Rightarrow> boundary_context \<Rightarrow> session_read \<Rightarrow> token_index" where
  "context_index rt ctx env = buildTrueRawTokenIndex rt (sr_messages env)
     \<lparr>io_storedTotal = (\<lambda>m. case bc_storedTokenTotals ctx of Some totals \<Rightarrow> totals (rm_id m) | None \<Rightarrow> None),
      io_absoluteMessageCount = sr_absoluteMessageCount env\<rparr>"

definition context_offset :: "boundary_context \<Rightarrow> int" where
  "context_offset ctx = max 1 (bc_lastCompartmentEndOrdinal ctx + 1)"

definition context_percentage :: "boundary_context \<Rightarrow> real" where
  "context_percentage ctx =
     clampPercentage (case bc_usage ctx of Some u \<Rightarrow> bu_percentage u | None \<Rightarrow> Some 0)"

definition context_input_tokens :: "boundary_context \<Rightarrow> int" where
  "context_input_tokens ctx =
     max 0 (math_round (case bc_usage ctx of Some u \<Rightarrow> bu_inputTokens u | None \<Rightarrow> 0))"

text \<open>The snapshot with the fields copied from the context and those every resolver computes alike.\<close>

definition boundaryCtxFields :: "boundary_context \<Rightarrow> session_read \<Rightarrow> boundary_snapshot" where
  "boundaryCtxFields ctx env =
     \<lparr>bs_sessionId = bc_sessionId ctx, bs_mode = bc_mode ctx, bs_offset = context_offset ctx,
      bs_offsetMessageId = None, bs_protectedTailStart = 1, bs_protectedTailStartMessageId = None,
      bs_eligibleEndOrdinal = 1, bs_eligibleEndMessageId = None, bs_rawMessageCountAtTrigger = 0,
      bs_rawLastMessageIdAtTrigger = None, bs_N = 0, bs_usagePercentage = context_percentage ctx,
      bs_usageInputTokens = context_input_tokens ctx, bs_usageSource = bc_usageSource ctx,
      bs_contextLimit = bc_contextLimit ctx,
      bs_executeThresholdPercentage = bc_executeThresholdPercentage ctx,
      bs_triggerBudget = bc_triggerBudget ctx, bs_priorBoundaryOrdinal = bc_priorBoundaryOrdinal ctx,
      bs_migrationFloorActive = bc_migrationFloorActive ctx,
      bs_emergencyTailScale = bc_emergencyTailScale ctx,
      bs_providerShapeVersion = bc_providerShapeVersion ctx, bs_cacheNamespace = bc_cacheNamespace ctx,
      bs_createdAt = (case bc_createdAt ctx of Some c \<Rightarrow> c | None \<Rightarrow> sr_now env),
      bs_rawRangeFingerprint = [], bs_trueRawEligibleTokens = Some 0, bs_oversizeAtomicUnit = False,
      bs_boundaryReason = ''empty-session''\<rparr>"

section \<open>Resolving the boundary\<close>

definition context_target :: "boundary_context \<Rightarrow> real \<Rightarrow> token_target" where
  "context_target ctx usagePercentage = deriveProtectedTailTokenTarget (Some (bc_contextLimit ctx))
     (Some (bc_executeThresholdPercentage ctx)) (Some usagePercentage) (Some (bc_triggerBudget ctx))"

definition resolve_full_recomp :: "runtime \<Rightarrow> boundary_context \<Rightarrow> session_read \<Rightarrow> boundary_snapshot" where
  "resolve_full_recomp rt ctx env =
     (let index = context_index rt ctx env; messages = sr_messages env; offset = context_offset ctx;
          rawMessageCount = ti_rawMessageCount index;
          recentOpenArcCutoff = ti_findSuffixStartForTokens index (tt_N (context_target ctx 0));
          firstOpenArc = find (\<lambda>arc. ta_res arc = None \<and> offset \<le> ta_inv arc \<and> recentOpenArcCutoff \<le> ta_inv arc)
                           (buildToolArcs rt messages);
          protectedTailStart = (case firstOpenArc of Some arc \<Rightarrow> ta_inv arc | None \<Rightarrow> rawMessageCount + 1)
      in (boundaryCtxFields ctx env)
           \<lparr>bs_offsetMessageId := boundaryMessageId index offset,
            bs_protectedTailStart := protectedTailStart,
            bs_eligibleEndOrdinal := protectedTailStart,
            bs_eligibleEndMessageId := boundaryMessageId index (protectedTailStart - 1),
            bs_rawMessageCountAtTrigger := rawMessageCount,
            bs_rawLastMessageIdAtTrigger := boundaryMessageId index rawMessageCount,
            bs_usagePercentage := 0, bs_usageInputTokens := 0, bs_usageSource := ManualNone,
            bs_migrationFloorActive := False,
            bs_rawRangeFingerprint := computeRawRangeFingerprint rt messages offset protectedTailStart,
            bs_trueRawEligibleTokens := ti_rangeTokens index offset protectedTailStart,
            bs_boundaryReason := (if firstOpenArc \<noteq> None then ''open-tool-arc'' else ''manual-full-recomp'')\<rparr>)"

definition scaled_N :: "boundary_context \<Rightarrow> int" where
  "scaled_N ctx =
     (case bc_emergencyTailScale ctx of
        Some s \<Rightarrow> if s \<noteq> 0 then max 1 \<lfloor>tt_N (context_target ctx (context_percentage ctx)) * s\<rfloor>
                 else tt_N (context_target ctx (context_percentage ctx))
      | None \<Rightarrow> tt_N (context_target ctx (context_percentage ctx)))"

definition scale_set :: "real option \<Rightarrow> bool" where
  "scale_set s = (case s of Some x \<Rightarrow> x \<noteq> 0 | None \<Rightarrow> False)"

text \<open>The size walk with the huge-message exception, the two fences and the semantic snap between them.\<close>

definition walked_boundary :: "runtime \<Rightarrow> boundary_context \<Rightarrow> session_read \<Rightarrow> int \<times> string" where
  "walked_boundary rt ctx env =
     (let index = context_index rt ctx env; N = scaled_N ctx; rawMessageCount = ti_rawMessageCount index;
          b0 = ti_findSuffixStartForTokens index N;
          huge = (b0 \<le> rawMessageCount \<and> max (2 * N) 64000 < ti_tokenForOrdinal index b0 \<and> b0 < rawMessageCount);
          reason = (if huge then ''huge-message-exception''
                    else if b0 = 1 then ''whole-session-smaller-than-tail'' else ''size-walk'');
          arcs = buildToolArcs rt (sr_messages env);
          lastEnd = bc_lastCompartmentEndOrdinal ctx;
          b1 = fenceBoundaryForToolArcs (if huge then b0 + 1 else b0) arcs lastEnd b0;
          snapped = semanticSnapBoundary rt (sr_messages env) index b1 N lastEnd
      in (fenceBoundaryForToolArcs snapped arcs lastEnd b0,
          if snapped \<noteq> b1 then ''semantic-snap'' else reason))"

definition last_meaningful_user :: "raw_message list \<Rightarrow> int" where
  "last_meaningful_user messages =
     (case find (\<lambda>m. rm_role m = ''user'' \<and> hasMeaningfulUserText (rm_parts m)) (rev messages) of
        Some m \<Rightarrow> rm_ordinal m | None \<Rightarrow> 0)"

definition live_prompt_floor :: "boundary_context \<Rightarrow> session_read \<Rightarrow> int \<Rightarrow> int" where
  "live_prompt_floor ctx env tail_start =
     (if \<not> scale_set (bc_emergencyTailScale ctx) \<and>
         context_percentage ctx < forceMaterializationPercentage (escalationBands (Some (bc_executeThresholdPercentage ctx)))
      then let u = last_meaningful_user (sr_messages env)
           in if context_offset ctx \<le> u then min tail_start u else tail_start
      else tail_start)"

definition resolved_tail_start :: "runtime \<Rightarrow> boundary_context \<Rightarrow> session_read \<Rightarrow> int" where
  "resolved_tail_start rt ctx env =
     (let index = context_index rt ctx env; offset = context_offset ctx;
          runtimeFloor = (if bc_migrationFloorActive ctx then max offset (bc_priorBoundaryOrdinal ctx) else offset);
          p = live_prompt_floor ctx env (max (fst (walked_boundary rt ctx env)) runtimeFloor);
          small = (case ti_rangeTokens index offset p of Some n \<Rightarrow> n \<le> NORMAL_HYSTERESIS_TOKENS | None \<Rightarrow> False)
      in clampOrdinal (if offset < p \<and> small then offset else p) (ti_rawMessageCount index))"

definition resolveProtectedTailBoundary :: "runtime \<Rightarrow> boundary_context \<Rightarrow> session_read \<Rightarrow> boundary_snapshot" where
  "resolveProtectedTailBoundary rt ctx env =
     (let index = context_index rt ctx env; messages = sr_messages env; offset = context_offset ctx;
          rawMessageCount = ti_rawMessageCount index; usage = context_percentage ctx
      in if rawMessageCount = 0 then boundaryCtxFields ctx env
         else if bc_mode ctx = ManualFullRecomp then resolve_full_recomp rt ctx env
         else
           let N = scaled_N ctx;
               protectedTailStart = resolved_tail_start rt ctx env;
               perRunCap = selectPerRunCap usage N (bc_contextLimit ctx) (bc_executeThresholdPercentage ctx);
               (eligibleEnd, oversize) = applyHeadCap index protectedTailStart offset (buildToolArcs rt messages)
                   perRunCap (ti_findSuffixStartForTokens index N)
           in (boundaryCtxFields ctx env)
                \<lparr>bs_offsetMessageId := boundaryMessageId index offset,
                 bs_protectedTailStart := protectedTailStart,
                 bs_protectedTailStartMessageId := boundaryMessageId index protectedTailStart,
                 bs_eligibleEndOrdinal := eligibleEnd,
                 bs_eligibleEndMessageId := boundaryMessageId index (eligibleEnd - 1),
                 bs_rawMessageCountAtTrigger := rawMessageCount,
                 bs_rawLastMessageIdAtTrigger := boundaryMessageId index rawMessageCount,
                 bs_N := N,
                 bs_rawRangeFingerprint := computeRawRangeFingerprint rt messages offset eligibleEnd,
                 bs_trueRawEligibleTokens := ti_rangeTokens index offset protectedTailStart,
                 bs_oversizeAtomicUnit := oversize,
                 bs_boundaryReason := snd (walked_boundary rt ctx env)\<rparr>)"

section \<open>Using a snapshot\<close>

definition hasProtectedEligibleHead :: "boundary_snapshot \<Rightarrow> bool" where
  "hasProtectedEligibleHead s = (bs_offset s < bs_protectedTailStart s)"

definition hasRunnableCompartmentWindow :: "boundary_snapshot \<Rightarrow> bool" where
  "hasRunnableCompartmentWindow s =
     (if bs_protectedTailStart s \<le> bs_offset s then False
      else if forceMaterializationPercentage (escalationBands (Some (bs_executeThresholdPercentage s))) \<le> bs_usagePercentage s
              \<or> scale_set (bs_emergencyTailScale s) then
        (case bs_trueRawEligibleTokens s of
           Some n \<Rightarrow> deriveMinForceEligibleTokens (bs_N s) \<le> n | None \<Rightarrow> False)
        \<or> bs_offset s < bs_eligibleEndOrdinal s
      else bs_offset s < bs_eligibleEndOrdinal s)"

section \<open>Facts about the pieces\<close>

lemma per_run_cap_pos: "1 \<le> N \<Longrightarrow> 0 < selectPerRunCap u N l t"
  unfolding select_cap_cases perRunCapForTier_def PER_RUN_CAP_TIERS_def config_simps
  by (cases "95 \<le> u"; cases "80 \<le> u") simp_all

lemma scaled_N_pos: "1 \<le> scaled_N ctx"
  using target_N_pos by (auto simp: scaled_N_def context_target_def split: option.splits)

lemma context_offset_pos: "1 \<le> context_offset ctx"
  by (simp add: context_offset_def)

lemma clampOrdinal_bounds: "0 \<le> n \<Longrightarrow> 1 \<le> clampOrdinal v n \<and> clampOrdinal v n \<le> n + 1"
  by (simp add: clampOrdinal_def)

lemma context_index_count: "0 \<le> ti_rawMessageCount (context_index rt ctx env)"
  unfolding context_index_def by (rule built.count)

lemma resolved_tail_bounds:
  "1 \<le> resolved_tail_start rt ctx env"
  "resolved_tail_start rt ctx env \<le> ti_rawMessageCount (context_index rt ctx env) + 1"
  using clampOrdinal_bounds [OF context_index_count] by (simp_all add: resolved_tail_start_def Let_def)

text \<open>The scan over the reversed session finds the newest meaningful user message.\<close>

lemma find_last:
  assumes "sorted (map f xs)" "x \<in> set xs" "P x" "\<forall>y\<in>set xs. P y \<longrightarrow> f y \<le> f x"
  shows "\<exists>y. find P (rev xs) = Some y \<and> f y = f x"
proof -
  obtain y where y: "find P (rev xs) = Some y"
    using assms(2,3) by (cases "find P (rev xs)") (auto simp: find_None_iff)
  obtain i where i: "i < length xs" "y = rev xs ! i" "P y" "\<forall>j<i. \<not> P (rev xs ! j)"
    using y by (auto simp: find_Some_iff)
  obtain k where k: "k < length xs" "x = xs ! k" using assms(2) by (auto simp: in_set_conv_nth)
  have kk: "rev xs ! (length xs - 1 - k) = x" using k by (simp add: rev_nth)
  have "i \<le> length xs - 1 - k"
    using i(4) kk assms(3) by (metis not_le_imp_less)
  then have "k \<le> length xs - 1 - i" using k i by simp
  then have "f x \<le> f y" using assms(1) k i by (auto simp: sorted_iff_nth_mono rev_nth)
  moreover have "y \<in> set xs" using i by (auto simp: rev_nth)
  ultimately show ?thesis using y i(3) assms(4) by (auto intro: antisym)
qed

lemma newest_prompt:
  assumes "sorted (map rm_ordinal ms)" "m \<in> set ms" "rm_role m = ''user''" "hasMeaningfulUserText (rm_parts m)"
    and "\<forall>x\<in>set ms. rm_role x = ''user'' \<and> hasMeaningfulUserText (rm_parts x) \<longrightarrow> rm_ordinal x \<le> rm_ordinal m"
  shows "last_meaningful_user ms = rm_ordinal m"
  using find_last [OF assms(1,2), of "\<lambda>m. rm_role m = ''user'' \<and> hasMeaningfulUserText (rm_parts m)"] assms(3-5)
  by (auto simp: last_meaningful_user_def)

text \<open>Resolving with messages outside a full recomputation, as one record update.\<close>

lemma resolve_incremental:
  assumes "ti_rawMessageCount (context_index rt ctx env) \<noteq> 0" "bc_mode ctx \<noteq> ManualFullRecomp"
  defines "ix \<equiv> context_index rt ctx env"
    and "head \<equiv> applyHeadCap (context_index rt ctx env) (resolved_tail_start rt ctx env) (context_offset ctx)
          (buildToolArcs rt (sr_messages env))
          (selectPerRunCap (context_percentage ctx) (scaled_N ctx) (bc_contextLimit ctx) (bc_executeThresholdPercentage ctx))
          (ti_findSuffixStartForTokens (context_index rt ctx env) (scaled_N ctx))"
    and "s \<equiv> resolveProtectedTailBoundary rt ctx env"
  shows "bs_offset s = context_offset ctx" "bs_protectedTailStart s = resolved_tail_start rt ctx env"
    "bs_eligibleEndOrdinal s = fst head" "bs_rawMessageCountAtTrigger s = ti_rawMessageCount ix"
    "bs_offsetMessageId s = boundaryMessageId ix (context_offset ctx)"
    "bs_protectedTailStartMessageId s = boundaryMessageId ix (resolved_tail_start rt ctx env)"
    "bs_eligibleEndMessageId s = boundaryMessageId ix (fst head - 1)"
    "bs_rawLastMessageIdAtTrigger s = boundaryMessageId ix (ti_rawMessageCount ix)"
    "bs_rawRangeFingerprint s = computeRawRangeFingerprint rt (sr_messages env) (context_offset ctx) (fst head)"
    "bs_contextLimit s = bc_contextLimit ctx"
    "bs_N s = scaled_N ctx"
  using assms(1,2)
  by (simp_all add: s_def head_def ix_def resolveProtectedTailBoundary_def Let_def boundaryCtxFields_def split: prod.splits)

text \<open>The head-cap pass over sorted arcs: once passed, an arc stays unsplit up to the tail start.\<close>

lemma head_step_unsplit:
  assumes "\<not> recent_open rec a"
  shows "\<not> splits_arc a pts \<Longrightarrow> \<not> splits_arc a (min (fst (head_arc_step ix pts off cap rec st a)) pts)"
    and "fst st \<le> fst (head_arc_step ix pts off cap rec st a) \<or> pts \<le> fst (head_arc_step ix pts off cap rec st a)"
proof -
  obtain e b where st: "st = (e, b)" by (cases st)
  show "\<not> splits_arc a (min (fst (head_arc_step ix pts off cap rec st a)) pts)" if "\<not> splits_arc a pts"
    using assms that by (auto simp: st head_arc_step_def splits_arc_def completedToolArcCrossesBoundary_def
        recent_open_def Let_def min_def split: option.splits)
  show "fst st \<le> fst (head_arc_step ix pts off cap rec st a) \<or> pts \<le> fst (head_arc_step ix pts off cap rec st a)"
    using assms by (auto simp: st head_arc_step_def recent_open_def Let_def split: option.splits)
qed

lemma head_step_keeps:
  assumes "\<not> recent_open rec a" "\<not> splits_arc c (min (fst st) pts)" "ta_inv c \<le> ta_inv a"
    "\<not> splits_arc c pts"
  shows "\<not> splits_arc c (min (fst (head_arc_step ix pts off cap rec st a)) pts)"
proof -
  obtain e b where st: "st = (e, b)" by (cases st)
  show ?thesis
    using assms by (auto simp: st head_arc_step_def splits_arc_def completedToolArcCrossesBoundary_def
        recent_open_def Let_def min_def split: option.splits if_splits)
qed

lemma head_fold_unsplit:
  assumes "sorted (map ta_inv arcs)" "\<forall>a\<in>set arcs. \<not> recent_open rec a \<and> \<not> splits_arc a pts"
    "\<forall>c\<in>P. \<not> splits_arc c (min (fst st) pts) \<and> \<not> splits_arc c pts \<and> (\<forall>a\<in>set arcs. ta_inv c \<le> ta_inv a)"
  shows "\<forall>c\<in>P \<union> set arcs. \<not> splits_arc c (min (fst (foldl (head_arc_step ix pts off cap rec) st arcs)) pts)"
  using assms
proof (induction arcs arbitrary: P st)
  case (Cons a arcs)
  let ?st = "head_arc_step ix pts off cap rec st a"
  have "\<forall>c\<in>insert a P. \<not> splits_arc c (min (fst ?st) pts) \<and> \<not> splits_arc c pts \<and> (\<forall>d\<in>set arcs. ta_inv c \<le> ta_inv d)"
    using Cons.prems head_step_unsplit(1) [of rec a pts ix off cap st]
      head_step_keeps [of rec a _ st pts ix off cap] by auto
  from Cons.IH [OF _ _ this] Cons.prems show ?case by auto
qed simp

lemma head_fold_ge:
  assumes "\<forall>a\<in>set arcs. \<not> recent_open rec a"
  shows "min (fst st) pts \<le> fst (foldl (head_arc_step ix pts off cap rec) st arcs)"
  using assms
proof (induction arcs arbitrary: st)
  case (Cons a arcs)
  then have "min (fst st) pts \<le> fst (head_arc_step ix pts off cap rec st a)"
    using head_step_unsplit(2) [of rec a, where st = st and pts = pts and ix = ix and off = off and cap = cap] by (auto simp: min_def)
  moreover have "min (fst (head_arc_step ix pts off cap rec st a)) pts
      \<le> fst (foldl (head_arc_step ix pts off cap rec) (head_arc_step ix pts off cap rec st a) arcs)"
    using Cons by simp
  ultimately show ?case by simp
qed simp

context lawful_index
begin

lemma head_cap_advances:
  assumes "\<forall>a\<in>set arcs. \<not> recent_open rec a"
    and "first \<le> off" "off < pts" "pts \<le> terminal + 1" "0 < cap"
  defines "st \<equiv> (ti_findHeadEndForCap ix off pts cap,
      ti_findHeadEndForCap ix off pts cap = off + 1 \<and> cap < ti_tokenForOrdinal ix off)"
  shows "fst (applyHeadCap ix pts off arcs cap rec) = min (fst (foldl (head_arc_step ix pts off cap rec) st arcs)) pts"
    and "off < fst (applyHeadCap ix pts off arcs cap rec)"
proof -
  let ?f = "foldl (head_arc_step ix pts off cap rec) st arcs"
  have "off < fst st" using head_progress assms(2-5) by (simp add: st_def)
  then have gt: "off < fst ?f"
    using head_fold_ge [OF assms(1), where st = st and pts = pts and ix = ix and off = off and cap = cap] assms(3) by auto
  show app: "fst (applyHeadCap ix pts off arcs cap rec) = min (fst ?f) pts"
    using gt assms(3) by (cases ?f) (auto simp: applyHeadCap_def Let_def st_def)
  show "off < fst (applyHeadCap ix pts off arcs cap rec)"
    unfolding app using gt assms(3) by simp
qed

lemma head_cap_splits_nothing:
  assumes "sorted (map ta_inv arcs)" "\<forall>a\<in>set arcs. \<not> recent_open rec a \<and> \<not> splits_arc a pts"
    and "first \<le> off" "off < pts" "pts \<le> terminal + 1" "0 < cap" "a \<in> set arcs"
  shows "\<not> splits_arc a (fst (applyHeadCap ix pts off arcs cap rec))"
proof -
  have "\<forall>a\<in>set arcs. \<not> recent_open rec a" using assms(2) by simp
  from head_cap_advances(1) [OF this assms(3-6)] show ?thesis
    using head_fold_unsplit [OF assms(1,2), of "{}"] assms(7) by simp
qed

end

section \<open>Properties\<close>

text \<open>
  For every model, threshold, usage and budget the token target of the protected tail is
  positive, at most 96000, and leaves the headroom free below the execute threshold.
\<close>

theorem tail_target_leaves_headroom:
  "1 \<le> tt_N (deriveProtectedTailTokenTarget l t u b) \<and>
   tt_N (deriveProtectedTailTokenTarget l t u b) \<le> 96000 \<and>
   tt_N (deriveProtectedTailTokenTarget l t u b) + tt_headroom (deriveProtectedTailTokenTarget l t u b)
     \<le> tt_usable (deriveProtectedTailTokenTarget l t u b)"
  using target_N_pos [of l t u b] target_N(2) [of l t u b] target_ceiling(2) [of l t u b]
    target_room [of l t u b] by linarith

text \<open>
  More pressure never widens the protected tail: with the same model, threshold and budget, the
  token target falls (or stays) as the usage percentage rises.
\<close>

theorem tail_target_shrinks_with_usage:
  assumes "u1 \<le> u2"
  shows "tt_N (deriveProtectedTailTokenTarget l t (Some u2) b) \<le> tt_N (deriveProtectedTailTokenTarget l t (Some u1) b)"
proof -
  let ?T = "\<lambda>u. deriveProtectedTailTokenTarget l t (Some u) b"
  have "tt_rawN (?T u2) \<le> tt_rawN (?T u1)" by (rule target_raw_antitone [OF assms])
  moreover have "tt_ceilingN (?T u2) = tt_ceilingN (?T u1)" "tt_floorN (?T u2) = tt_floorN (?T u1)"
    by (simp_all only: deriveProtectedTailTokenTarget_def Let_def token_target.select_convs)
  ultimately show ?thesis by (simp add: target_shape(2,4))
qed

theorem tail_target_shrinks_with_usage_witness:
  "tt_N (deriveProtectedTailTokenTarget (Some 200000) (Some 65) (Some 90) None)
     \<le> tt_N (deriveProtectedTailTokenTarget (Some 200000) (Some 65) (Some 40) None)"
  by (rule tail_target_shrinks_with_usage) simp

text \<open>
  The drain cap never shrinks when pressure rises: for one tail size and model, a higher usage
  percentage selects a cap at least as large, across the tier boundaries too.
\<close>

theorem drain_cap_grows_with_pressure:
  assumes "u1 \<le> u2" "0 \<le> N"
  shows "selectPerRunCap u1 N l t \<le> selectPerRunCap u2 N l t"
  using assms tier_cap_mono [of N "max 1 (math_round (l * t / 100))"] by (auto simp: select_cap_cases)

theorem drain_cap_grows_with_pressure_witness:
  "selectPerRunCap 79 12000 200000 65 \<le> selectPerRunCap 96 12000 200000 65"
  by (rule drain_cap_grows_with_pressure) simp_all

text \<open>
  Every snapshot resolved over a non-empty session, outside a full recomputation, is ordered: the
  protected tail starts inside the session (or just after it), and the eligible range starts at the
  offset and ends at or before the protected tail.
\<close>

theorem snapshot_is_ordered:
  assumes "bs_rawMessageCountAtTrigger (resolveProtectedTailBoundary rt ctx env) \<noteq> 0"
    and "bc_mode ctx \<noteq> ManualFullRecomp"
  shows "let s = resolveProtectedTailBoundary rt ctx env
     in 1 \<le> bs_offset s \<and> 1 \<le> bs_protectedTailStart s
      \<and> bs_protectedTailStart s \<le> bs_rawMessageCountAtTrigger s + 1
      \<and> bs_offset s \<le> bs_eligibleEndOrdinal s
      \<and> bs_eligibleEndOrdinal s \<le> max (bs_offset s) (bs_protectedTailStart s)"
proof -
  have n: "ti_rawMessageCount (context_index rt ctx env) \<noteq> 0"
    using assms(1) by (auto simp: resolveProtectedTailBoundary_def boundaryCtxFields_def Let_def split: if_splits)
  show ?thesis
    using resolve_incremental(1-4) [OF n assms(2)] resolved_tail_bounds [of rt ctx env] context_offset_pos [of ctx]
      head_cap_bounds by (simp add: Let_def)
qed

definition example_context :: boundary_context where
  "example_context =
     \<lparr>bc_sessionId = ''s'', bc_mode = Trigger, bc_contextLimit = 200000,
      bc_executeThresholdPercentage = 65, bc_triggerBudget = 6500, bc_usage = None,
      bc_usageSource = ProvisionalZero, bc_lastCompartmentEndOrdinal = -1, bc_priorBoundaryOrdinal = 1,
      bc_migrationFloorActive = False, bc_emergencyTailScale = None,
      bc_providerShapeVersion = ''opencode-v1'', bc_cacheNamespace = ''n'', bc_createdAt = None,
      bc_storedTokenTotals = Some (\<lambda>_. Some 40000)\<rparr>"

definition example_prompt :: raw_message where
  "example_prompt = \<lparr>rm_ordinal = 3, rm_id = ''m3'', rm_role = ''user'', rm_parts =
     [JObj [(''type'', JStr ''text''), (''text'', JStr ''next'')]]\<rparr>"

definition example_read :: session_read where
  "example_read = \<lparr>sr_messages = example_session @ [example_prompt], sr_absoluteMessageCount = None, sr_now = 0\<rparr>"

lemma example_context_simps:
  "bc_mode example_context \<noteq> ManualFullRecomp" "bc_emergencyTailScale example_context = None"
  "context_offset example_context = 1" "context_percentage example_context = 0"
  "bc_executeThresholdPercentage example_context = 65"
  by (simp_all add: example_context_def context_offset_def context_percentage_def clampPercentage_def)

lemma example_messages:
  "sr_messages example_read = example_session @ [example_prompt]"
  "map rm_ordinal (example_session @ [example_prompt]) = [1, 2, 3]"
  by (simp_all add: example_read_def example_session_def example_prompt_def)

lemma example_prompt_meaningful: "hasMeaningfulUserText (rm_parts example_prompt)"
  by code_simp

lemma example_bounds:
  "first_ordinal (sr_messages example_read) = 1" "terminal_ordinal (sr_messages example_read) = 3"
  by (simp_all add: example_read_def example_session_def example_prompt_def first_ordinal_def
      terminal_ordinal_def index_ordered_def)

lemma example_count: "ti_rawMessageCount (context_index example_runtime example_context example_read) = 3"
  using example_bounds(2)
  by (simp add: context_index_def buildTrueRawTokenIndex_def index_count_def Let_def)
    (simp add: example_read_def example_session_def)

lemma example_resolved_count:
  "bs_rawMessageCountAtTrigger (resolveProtectedTailBoundary example_runtime example_context example_read) = 3"
  using resolve_incremental(4) [of example_runtime example_context example_read]
  by (simp add: example_count example_context_simps)

theorem snapshot_is_ordered_witness:
  "let s = resolveProtectedTailBoundary example_runtime example_context example_read
   in bs_offset s \<le> bs_eligibleEndOrdinal s \<and> bs_protectedTailStart s \<le> 4"
  using snapshot_is_ordered [of example_runtime example_context example_read]
  by (simp add: example_resolved_count example_context_simps Let_def)

text \<open>
  C1: Below the force band and without an emergency retry, the newest meaningful user message that
  is not yet compacted stays in the protected tail: neither the tail start nor the eligible end
  passes it.
\<close>

theorem newest_prompt_stays_protected:
  assumes "sorted (map rm_ordinal (sr_messages env))" "m \<in> set (sr_messages env)"
    and "rm_role m = ''user''" "hasMeaningfulUserText (rm_parts m)"
    and "\<forall>x\<in>set (sr_messages env). rm_role x = ''user'' \<and> hasMeaningfulUserText (rm_parts x) \<longrightarrow> rm_ordinal x \<le> rm_ordinal m"
    and "context_offset ctx \<le> rm_ordinal m"
    and "bc_emergencyTailScale ctx = None" "bc_mode ctx \<noteq> ManualFullRecomp"
    and "context_percentage ctx < forceMaterializationPercentage (escalationBands (Some (bc_executeThresholdPercentage ctx)))"
    and "bs_rawMessageCountAtTrigger (resolveProtectedTailBoundary rt ctx env) \<noteq> 0"
  shows "bs_protectedTailStart (resolveProtectedTailBoundary rt ctx env) \<le> rm_ordinal m
     \<and> bs_eligibleEndOrdinal (resolveProtectedTailBoundary rt ctx env) \<le> rm_ordinal m"
proof -
  have n: "ti_rawMessageCount (context_index rt ctx env) \<noteq> 0"
    using assms(10) by (auto simp: resolveProtectedTailBoundary_def boundaryCtxFields_def Let_def split: if_splits)
  have floor: "live_prompt_floor ctx env p \<le> rm_ordinal m" for p
    using newest_prompt [OF assms(1-5)] assms(6-9) by (simp add: live_prompt_floor_def scale_set_def Let_def)
  have clamp: "clampOrdinal v k \<le> rm_ordinal m" if "v \<le> rm_ordinal m" for v k
    using that assms(6) context_offset_pos [of ctx] by (simp add: clampOrdinal_def)
  have "resolved_tail_start rt ctx env \<le> rm_ordinal m"
    unfolding resolved_tail_start_def Let_def using floor assms(6) by (intro clamp) auto
  with resolve_incremental(2,3) [OF n assms(8)] assms(6) head_cap_bounds show ?thesis
    by (simp add: order_trans [OF conjunct2 [OF head_cap_bounds]])
qed

theorem newest_prompt_stays_protected_witness:
  "bs_protectedTailStart (resolveProtectedTailBoundary example_runtime example_context example_read) \<le> 3"
proof -
  have "bs_protectedTailStart (resolveProtectedTailBoundary example_runtime example_context example_read)
      \<le> rm_ordinal example_prompt"
  proof (rule conjunct1, rule newest_prompt_stays_protected [of example_read example_prompt])
    show "\<forall>x\<in>set (sr_messages example_read). rm_role x = ''user'' \<and> hasMeaningfulUserText (rm_parts x)
        \<longrightarrow> rm_ordinal x \<le> rm_ordinal example_prompt"
      by (auto simp: example_messages example_session_def example_prompt_def)
    show "sorted (map rm_ordinal (sr_messages example_read))"
      by (simp only: example_messages) simp
  qed (simp_all add: example_messages example_context_simps example_resolved_count example_prompt_meaningful
      example_prompt_def [THEN arg_cong [where f = rm_role]] example_prompt_def [THEN arg_cong [where f = rm_ordinal]]
      escalationBands_def config_simps)
  then show ?thesis by (simp add: example_prompt_def)
qed

text \<open>The example session resolved: three messages of 40000 tokens each, the tail starting at the prompt.\<close>

lemma example_N: "scaled_N example_context = 39000" by code_simp
lemma example_prompt_arcs: "buildToolArcs example_runtime (example_session @ [example_prompt]) = [\<lparr>ta_callId = ''c1'', ta_inv = 1, ta_res = Some 2\<rparr>]"
  by code_simp
lemma replicate4: "replicate 4 x = [x, x, x, x]" by (simp add: numeral_eq_Suc)
lemma example_prefix: "index_prefix rt \<lparr>io_storedTotal = \<lambda>m. case bc_storedTokenTotals example_context of Some totals \<Rightarrow> totals (rm_id m) | None \<Rightarrow> None, io_absoluteMessageCount = c\<rparr> (example_session @ [example_prompt]) = [0, 40000, 80000, 120000]"
  by (simp add: index_prefix_def replicate4 first_ordinal_def terminal_ordinal_def index_ordered_def
   example_session_def example_prompt_def example_context_def place_total_def message_total_def Let_def)
lemma example_walk: "ti_findSuffixStartForTokens (context_index example_runtime example_context example_read) 39000 = 3"
  using example_prefix example_bounds
  by (simp add: context_index_def buildTrueRawTokenIndex_def Let_def example_messages suffix_start_def 
  prefix_search.simps at_most_def prefix_at_def)
lemma example_range: "ti_rangeTokens (context_index example_runtime example_context example_read) 1 3 = Some 80000"
  using example_prefix example_bounds
  by (simp add: context_index_def buildTrueRawTokenIndex_def Let_def example_messages range_tokens_def
   prefix_diff_def prefix_at_def)
lemma example_scan: "semantic_scan example_runtime 3 (-1) 3 (example_session @ [example_prompt]) = 3"
 by code_simp
lemma example_walked: "fst (walked_boundary example_runtime example_context example_read) = 3"
 using example_walk example_count example_scan by (simp add: walked_boundary_def example_N Let_def example_prompt_arcs example_messages
 fenceBoundaryForToolArcs.simps completedToolArcCrossesBoundary_def  semanticSnapBoundary_def example_context_def[THEN arg_cong [where f = bc_lastCompartmentEndOrdinal]])

lemma example_user: "last_meaningful_user (example_session @ [example_prompt]) = 3" by code_simp
lemma example_tail_start: "resolved_tail_start example_runtime example_context example_read = 3"
 using example_walked example_range example_user by (simp add: resolved_tail_start_def Let_def live_prompt_floor_def example_count
  example_context_simps scale_set_def example_messages clampOrdinal_def config_simps
  example_context_def[THEN arg_cong [where f = bc_migrationFloorActive]] escalationBands_def)

lemma example_snapshot:
  "bs_protectedTailStart (resolveProtectedTailBoundary example_runtime example_context example_read) = 3"
  "hasProtectedEligibleHead (resolveProtectedTailBoundary example_runtime example_context example_read)"
  using resolve_incremental(1,2) [of example_runtime example_context example_read]
  by (simp_all add: example_count example_context_simps example_tail_start hasProtectedEligibleHead_def)

text \<open>
  When a whole-session snapshot has a protected eligible head and no call is in flight in the
  live tail, the head is runnable and its eligible range is not empty: the historian is not starved.
\<close>

theorem eligible_head_is_runnable:
  assumes "bs_rawMessageCountAtTrigger (resolveProtectedTailBoundary rt ctx env) = terminal_ordinal (sr_messages env)"
    and "terminal_ordinal (sr_messages env) \<noteq> 0" "first_ordinal (sr_messages env) \<le> context_offset ctx"
    and "bc_mode ctx \<noteq> ManualFullRecomp"
    and "\<forall>a\<in>set (buildToolArcs rt (sr_messages env)).
       \<not> recent_open (ti_findSuffixStartForTokens (context_index rt ctx env) (scaled_N ctx)) a"
    and "hasProtectedEligibleHead (resolveProtectedTailBoundary rt ctx env)"
  shows "hasRunnableCompartmentWindow (resolveProtectedTailBoundary rt ctx env)
     \<and> bs_offset (resolveProtectedTailBoundary rt ctx env) < bs_eligibleEndOrdinal (resolveProtectedTailBoundary rt ctx env)"
proof -
  have n: "ti_rawMessageCount (context_index rt ctx env) \<noteq> 0"
    using assms(1,2) by (auto simp: resolveProtectedTailBoundary_def boundaryCtxFields_def Let_def split: if_splits)
  note r = resolve_incremental [OF n assms(4)]
  have "context_offset ctx < resolved_tail_start rt ctx env"
    using assms(6) r(1,2) by (simp add: hasProtectedEligibleHead_def)
  moreover have "resolved_tail_start rt ctx env \<le> terminal_ordinal (sr_messages env) + 1"
    using resolved_tail_bounds(2) [of rt ctx env] assms(1) r(4) by simp
  ultimately have "bs_offset (resolveProtectedTailBoundary rt ctx env)
      < bs_eligibleEndOrdinal (resolveProtectedTailBoundary rt ctx env)"
    unfolding r(1,3) unfolding context_index_def
    using built.head_cap_advances(2) [OF assms(5) assms(3) _ _ per_run_cap_pos [OF scaled_N_pos]]
    by (simp add: context_index_def)
  moreover have "bs_offset (resolveProtectedTailBoundary rt ctx env)
      < bs_protectedTailStart (resolveProtectedTailBoundary rt ctx env)"
    using assms(6) by (simp add: hasProtectedEligibleHead_def)
  ultimately show ?thesis by (simp add: hasRunnableCompartmentWindow_def)
qed

theorem eligible_head_is_runnable_witness:
  "hasRunnableCompartmentWindow (resolveProtectedTailBoundary example_runtime example_context example_read)"
  using eligible_head_is_runnable [of example_runtime example_context example_read] example_snapshot(2)
  by (simp add: example_resolved_count example_bounds example_context_simps)
    (simp add: example_prompt_arcs example_messages recent_open_def)

text \<open>
  When the tail starts on an arc boundary and no call is in flight in the live tail, the eligible
  range handed to the historian ends on an arc boundary too: no call in it is cut from its result.
\<close>

theorem eligible_range_keeps_pairs:
  assumes "bs_rawMessageCountAtTrigger (resolveProtectedTailBoundary rt ctx env) = terminal_ordinal (sr_messages env)"
    and "terminal_ordinal (sr_messages env) \<noteq> 0" "first_ordinal (sr_messages env) \<le> context_offset ctx"
    and "bc_mode ctx \<noteq> ManualFullRecomp"
    and "\<forall>a\<in>set (buildToolArcs rt (sr_messages env)).
       \<not> recent_open (ti_findSuffixStartForTokens (context_index rt ctx env) (scaled_N ctx)) a
       \<and> \<not> splits_arc a (bs_protectedTailStart (resolveProtectedTailBoundary rt ctx env))"
    and "hasProtectedEligibleHead (resolveProtectedTailBoundary rt ctx env)"
    and "a \<in> set (buildToolArcs rt (sr_messages env))" "ta_res a = Some r"
  shows "bs_eligibleEndOrdinal (resolveProtectedTailBoundary rt ctx env) \<le> ta_inv a
     \<or> r < bs_eligibleEndOrdinal (resolveProtectedTailBoundary rt ctx env)"
proof -
  have n: "ti_rawMessageCount (context_index rt ctx env) \<noteq> 0"
    using assms(1,2) by (auto simp: resolveProtectedTailBoundary_def boundaryCtxFields_def Let_def split: if_splits)
  note r = resolve_incremental [OF n assms(4)]
  have off: "context_offset ctx < resolved_tail_start rt ctx env"
    using assms(6) r(1,2) by (simp add: hasProtectedEligibleHead_def)
  have end_le: "resolved_tail_start rt ctx env \<le> terminal_ordinal (sr_messages env) + 1"
    using resolved_tail_bounds(2) [of rt ctx env] assms(1) r(4) by simp
  have "\<not> splits_arc a (bs_eligibleEndOrdinal (resolveProtectedTailBoundary rt ctx env))"
    unfolding r(3) unfolding context_index_def
    by (rule built.head_cap_splits_nothing [OF buildToolArcs_sorted assms(5)
        [unfolded r(2) context_index_def] assms(3) off end_le per_run_cap_pos [OF scaled_N_pos] assms(7)])
  with assms(8) show ?thesis
    by (auto simp: splits_arc_def completedToolArcCrossesBoundary_def)
qed

theorem eligible_range_keeps_pairs_witness:
  "bs_eligibleEndOrdinal (resolveProtectedTailBoundary example_runtime example_context example_read) \<le> 1
   \<or> 2 < bs_eligibleEndOrdinal (resolveProtectedTailBoundary example_runtime example_context example_read)"
  using eligible_range_keeps_pairs [of example_runtime example_context example_read
      "\<lparr>ta_callId = ''c1'', ta_inv = 1, ta_res = Some 2\<rparr>" 2] example_snapshot
    example_bounds [unfolded example_messages(1)]
  by (simp add: example_resolved_count example_bounds example_context_simps example_prompt_arcs example_messages
      recent_open_def splits_arc_def completedToolArcCrossesBoundary_def)

end
