(* ===== verification/Wrapup_Boundary.thy ===== *)
theory Wrapup_Boundary
  imports Protected_Tail
begin

text \<open>
  The manual wrap-up (\<open>resolveWrapupProtectedTailBoundary\<close> of
  \<open>hooks/magic-context/protected-tail-boundary.ts\<close>): a watermark that keeps the last messages, fenced
  and snapped backwards, and the plan built on it.
\<close>

section \<open>The wrap-up boundary\<close>

record wrapup_plan =
  wp_snapshot :: boundary_snapshot
  wp_rawMessagesAboveLastCompartment :: int
  wp_anchorRawMessageCount :: int
  wp_targetProtectedTailStart :: int
  wp_targetEligibleEndOrdinal :: int

text \<open>The keep watermark, fenced, snapped to a user message and fenced again, with the reason.\<close>

definition wrapup_target :: "runtime \<Rightarrow> boundary_context \<Rightarrow> session_read \<Rightarrow> token_index \<Rightarrow> int \<Rightarrow> int \<times> string" where
  "wrapup_target rt ctx env index watermark =
     (let messages = sr_messages env; arcs = buildToolArcs rt messages;
          lastEnd = bc_lastCompartmentEndOrdinal ctx;
          fenced = fenceWrapupBoundaryForToolArcs watermark arcs lastEnd;
          snapped = snapWrapupBoundaryToUser messages index fenced (context_offset ctx) (bc_triggerBudget ctx);
          refenced = fenceWrapupBoundaryForToolArcs snapped arcs lastEnd
      in (refenced,
          if refenced \<noteq> snapped then ''manual-wrapup-tool-arc''
          else if snapped \<noteq> fenced then ''manual-wrapup-user-snap''
          else if fenced \<noteq> watermark then ''manual-wrapup-tool-arc''
          else ''manual-wrapup-keep-watermark''))"

definition resolveWrapupProtectedTailBoundary ::
  "runtime \<Rightarrow> boundary_context \<Rightarrow> session_read \<Rightarrow> int \<Rightarrow> int option \<Rightarrow> wrapup_plan" where
  "resolveWrapupProtectedTailBoundary rt ctx0 env messagesToKeep anchorArg =
     (let ctx = ctx0\<lparr>bc_mode := ManualWrapup\<rparr>; index = context_index rt ctx env; messages = sr_messages env;
          rawMessageCount = ti_rawMessageCount index; offset = context_offset ctx;
          anchor = max 0 (min rawMessageCount (case anchorArg of Some a \<Rightarrow> a | None \<Rightarrow> rawMessageCount));
          above = max 0 (anchor - offset + 1);
          keep = max 1 messagesToKeep;
          (target0, reason) =
            (if rawMessageCount = 0 then (offset, ''manual-wrapup-empty'')
             else if above \<le> keep then (offset, ''manual-wrapup-within-keep'')
             else wrapup_target rt ctx env index (anchor - keep + 1));
          target = clampOrdinal target0 rawMessageCount;
          usage = context_percentage ctx;
          perRunCap = selectPerRunCap usage (tt_N (context_target ctx usage)) (bc_contextLimit ctx)
                        (bc_executeThresholdPercentage ctx);
          (headEnd, oversize) = applyHeadCap index target offset (buildToolArcs rt messages) perRunCap target;
          eligibleEnd = min headEnd target
      in \<lparr>wp_snapshot = (boundaryCtxFields ctx env)
             \<lparr>bs_offsetMessageId := boundaryMessageId index offset,
              bs_protectedTailStart := target,
              bs_protectedTailStartMessageId := boundaryMessageId index target,
              bs_eligibleEndOrdinal := eligibleEnd,
              bs_eligibleEndMessageId := boundaryMessageId index (eligibleEnd - 1),
              bs_rawMessageCountAtTrigger := rawMessageCount,
              bs_rawLastMessageIdAtTrigger := boundaryMessageId index rawMessageCount,
              bs_N := keep,
              bs_rawRangeFingerprint := computeRawRangeFingerprint rt messages offset eligibleEnd,
              bs_trueRawEligibleTokens := ti_rangeTokens index offset target,
              bs_oversizeAtomicUnit := oversize,
              bs_boundaryReason := reason\<rparr>,
          wp_rawMessagesAboveLastCompartment = above,
          wp_anchorRawMessageCount = anchor,
          wp_targetProtectedTailStart = target,
          wp_targetEligibleEndOrdinal = target\<rparr>)"

section \<open>The wrap-up plan keeps what it promises\<close>

lemma wrapup_target_le: "fst (wrapup_target rt ctx env ix w) \<le> w"
  by (simp add: wrapup_target_def Let_def)
    (meson order_trans wrapup_fence_le wrapup_snap_le)

lemma clamp_le: "v \<le> w \<Longrightarrow> clampOrdinal v n \<le> max 1 w"
  by (simp add: clampOrdinal_def)

lemma wrapup_counts:
  fixes rt ctx env k a
  defines "p \<equiv> resolveWrapupProtectedTailBoundary rt ctx env k a"
    and "raw \<equiv> ti_rawMessageCount (context_index rt (ctx\<lparr>bc_mode := ManualWrapup\<rparr>) env)"
  shows "wp_rawMessagesAboveLastCompartment p = max 0 (wp_anchorRawMessageCount p - context_offset ctx + 1)"
    and "bs_rawMessageCountAtTrigger (wp_snapshot p) = raw"
    and "wp_anchorRawMessageCount p = max 0 (min raw (case a of Some a \<Rightarrow> a | None \<Rightarrow> raw))"
    and "bs_protectedTailStart (wp_snapshot p) = wp_targetProtectedTailStart p"
  unfolding p_def raw_def resolveWrapupProtectedTailBoundary_def Let_def prod.case_eq_if
  by (simp_all add: context_offset_def)

lemma wrapup_eligible_le:
  "bs_eligibleEndOrdinal (wp_snapshot (resolveWrapupProtectedTailBoundary rt ctx env k a))
     \<le> wp_targetProtectedTailStart (resolveWrapupProtectedTailBoundary rt ctx env k a)"
  unfolding resolveWrapupProtectedTailBoundary_def Let_def prod.case_eq_if by simp

lemma wrapup_target_eq:
  fixes rt ctx env k a
  defines "p \<equiv> resolveWrapupProtectedTailBoundary rt ctx env k a"
    and "ctx' \<equiv> ctx\<lparr>bc_mode := ManualWrapup\<rparr>"
  shows "wp_targetProtectedTailStart p =
      clampOrdinal (if bs_rawMessageCountAtTrigger (wp_snapshot p) = 0 \<or> wp_rawMessagesAboveLastCompartment p \<le> max 1 k
        then context_offset ctx
        else fst (wrapup_target rt ctx' env (context_index rt ctx' env) (wp_anchorRawMessageCount p - max 1 k + 1)))
      (bs_rawMessageCountAtTrigger (wp_snapshot p))"
  unfolding p_def ctx'_def resolveWrapupProtectedTailBoundary_def Let_def prod.case_eq_if
  by (simp add: context_offset_def)

text \<open>
  A manual wrap-up that keeps k messages never hands the historian any of the last k messages
  counted at its anchor, and with no more than k messages above the last compartment it hands out
  nothing at all.
\<close>

theorem wrapup_keeps_the_watermark:
  "let plan = resolveWrapupProtectedTailBoundary rt ctx env k anchor; s = wp_snapshot plan
   in bs_eligibleEndOrdinal s \<le> bs_protectedTailStart s
    \<and> (if wp_rawMessagesAboveLastCompartment plan \<le> max 1 k then bs_eligibleEndOrdinal s \<le> context_offset ctx
       else bs_protectedTailStart s \<le> wp_anchorRawMessageCount plan - max 1 k + 1)"
proof -
  let ?p = "resolveWrapupProtectedTailBoundary rt ctx env k anchor"
  note c = wrapup_counts [of rt ctx env k anchor] and e = wrapup_eligible_le [of rt ctx env k anchor]
    and eq = wrapup_target_eq [of rt ctx env k anchor]
  show ?thesis
  proof (cases "wp_rawMessagesAboveLastCompartment ?p \<le> max 1 k")
    case True
    then have "wp_targetProtectedTailStart ?p \<le> context_offset ctx"
      using eq context_offset_pos [of ctx] by (simp add: clampOrdinal_def)
    with True e c(4) show ?thesis by (simp add: Let_def)
  next
    case False
    let ?w = "wp_anchorRawMessageCount ?p - max 1 k + 1"
    have w: "1 \<le> ?w" using False c(1) context_offset_pos [of ctx] by linarith
    have raw: "bs_rawMessageCountAtTrigger (wp_snapshot ?p) \<noteq> 0"
      using False c(1-3) context_offset_pos [of ctx] by (auto split: option.splits)
    have "wp_targetProtectedTailStart ?p \<le> max 1 ?w"
      unfolding eq using False raw
      by (simp only: if_False simp_thms) (rule clamp_le [OF wrapup_target_le])
    with w False e c(4) show ?thesis by (simp add: Let_def)
  qed
qed

text \<open>
  The tail of a manual wrap-up starts on an arc boundary: no call made after the last compartment
  is separated from its result, whatever the watermark and the user snap chose.
\<close>

theorem wrapup_boundary_keeps_pairs:
  assumes "a \<in> set (buildToolArcs rt (sr_messages env))" "ta_res a = Some r" "context_offset ctx \<le> ta_inv a"
  shows "let s = wp_snapshot (resolveWrapupProtectedTailBoundary rt ctx env k anchor)
     in bs_protectedTailStart s \<le> ta_inv a \<or> r < bs_protectedTailStart s"
proof -
  let ?p = "resolveWrapupProtectedTailBoundary rt ctx env k anchor"
  let ?w = "wp_anchorRawMessageCount ?p - max 1 k + 1"
  let ?raw = "bs_rawMessageCountAtTrigger (wp_snapshot ?p)"
  let ?ctx = "ctx\<lparr>bc_mode := ManualWrapup\<rparr>"
  let ?t = "fst (wrapup_target rt ?ctx env (context_index rt ?ctx env) ?w)"
  note c = wrapup_counts [of rt ctx env k anchor] and eq = wrapup_target_eq [of rt ctx env k anchor]
  have inv: "1 \<le> ta_inv a" "bc_lastCompartmentEndOrdinal ctx + 1 \<le> ta_inv a"
    using assms(3) by (auto simp: context_offset_def)
  show ?thesis
  proof (cases "?raw = 0 \<or> wp_rawMessagesAboveLastCompartment ?p \<le> max 1 k")
    case True
    then have "wp_targetProtectedTailStart ?p \<le> ta_inv a"
      using eq assms(3) inv by (simp add: clampOrdinal_def)
    then show ?thesis by (simp add: c(4) Let_def)
  next
    case False
    have "?t \<le> ?w" by (rule wrapup_target_le)
    moreover have "wp_anchorRawMessageCount ?p \<le> ?raw"
      using c(2,3) context_index_count [of rt ?ctx env] by simp
    then have "?w \<le> ?raw" by simp
    ultimately have tail: "wp_targetProtectedTailStart ?p = max 1 ?t"
      using eq False by (simp only: if_False) (simp add: clampOrdinal_def)
    have "?t \<le> ta_inv a \<or> r < ?t"
      using backward.same_side [of a "buildToolArcs rt (sr_messages env)" "bc_lastCompartmentEndOrdinal ctx" r]
        assms(1,2) inv(2) by (simp add: wrapup_target_def Let_def)
    with inv(1) show ?thesis by (auto simp: c(4) tail Let_def)
  qed
qed

theorem wrapup_boundary_keeps_pairs_witness:
  "let s = wp_snapshot (resolveWrapupProtectedTailBoundary example_runtime example_context example_read 1 None)
   in bs_protectedTailStart s \<le> 1 \<or> 2 < bs_protectedTailStart s"
  using wrapup_boundary_keeps_pairs [of "\<lparr>ta_callId = ''c1'', ta_inv = 1, ta_res = Some 2\<rparr>"
      example_runtime example_read 2 example_context 1 None]
  by (simp add: example_messages example_prompt_arcs example_context_simps)

end
