(* ===== verification/Snapshot_Validation.thy ===== *)
theory Snapshot_Validation
  imports Protected_Tail
begin

text \<open>
  The validation of a boundary snapshot against a later read of the session
  (\<open>validateBoundarySnapshot\<close> of \<open>hooks/magic-context/protected-tail-boundary.ts\<close>).
\<close>

datatype validation = Valid | ModelOrLimitChanged | CountShrank | IdChanged string | CompartmentMoved | FingerprintChanged

definition current_raw_count :: "raw_message list \<Rightarrow> int" where
  "current_raw_count messages = foldl (\<lambda>m x. max m (rm_ordinal x)) (int (length messages)) messages"

definition id_at :: "raw_message list \<Rightarrow> int \<Rightarrow> string option" where
  "id_at messages = map_of (rev (map (\<lambda>m. (rm_ordinal m, rm_id m)) messages))"

definition snapshot_checks :: "boundary_snapshot \<Rightarrow> (int \<times> string option \<times> string) list" where
  "snapshot_checks s =
     [(bs_offset s, bs_offsetMessageId s, ''offset''),
      (bs_rawMessageCountAtTrigger s, bs_rawLastMessageIdAtTrigger s, ''last'')] @
     (if bs_protectedTailStart s \<le> bs_rawMessageCountAtTrigger s
      then [(bs_protectedTailStart s, bs_protectedTailStartMessageId s, ''protectedTailStart'')] else []) @
     (if bs_offset s < bs_eligibleEndOrdinal s
      then [(bs_eligibleEndOrdinal s - 1, bs_eligibleEndMessageId s, ''eligibleEnd'')] else [])"

definition validateBoundarySnapshot ::
  "runtime \<Rightarrow> boundary_snapshot \<Rightarrow> raw_message list \<Rightarrow> int \<Rightarrow> real option \<Rightarrow> validation" where
  "validateBoundarySnapshot rt s messages lastCompartmentEnd currentContextLimit =
     (if (case currentContextLimit of Some l \<Rightarrow> l \<noteq> 0 \<and> l \<noteq> bs_contextLimit s | None \<Rightarrow> False)
      then ModelOrLimitChanged
      else if current_raw_count messages < bs_rawMessageCountAtTrigger s then CountShrank
      else (case find (\<lambda>(n, expected, label). expected \<noteq> id_at messages n) (snapshot_checks s) of
              Some (_, _, label) \<Rightarrow> IdChanged label
            | None \<Rightarrow>
                if max 1 (lastCompartmentEnd + 1) \<noteq> bs_offset s then CompartmentMoved
                else if computeRawRangeFingerprint rt messages (bs_offset s) (bs_eligibleEndOrdinal s)
                          \<noteq> bs_rawRangeFingerprint s then FingerprintChanged
                else Valid))"

section \<open>A snapshot validates against the session it was taken from\<close>

lemma map_of_rev_last:
  "map_of (rev (map (\<lambda>m. (key m, v m)) xs)) n =
     (if filter (\<lambda>m. key m = n) xs = [] then None else Some (v (last (filter (\<lambda>m. key m = n) xs))))"
  by (induction xs rule: rev_induct) auto

text \<open>Sorting by ordinal is stable, so the index and the plain list name the same message.\<close>

lemma id_at_index: "ti_messageIdAtOrdinal (context_index rt ctx env) = id_at (sr_messages env)"
  by (rule ext) (simp add: context_index_def buildTrueRawTokenIndex_def Let_def id_at_def index_ordered_def
      map_of_rev_last sort_key_stable)

lemma boundary_id_at: "1 \<le> n \<Longrightarrow> boundaryMessageId (context_index rt ctx env) n = id_at (sr_messages env) n"
proof -
  assume n: "1 \<le> n"
  have count: "terminal_ordinal (sr_messages env) \<le> ti_rawMessageCount (context_index rt ctx env)"
    unfolding context_index_def by (rule built.count)
  have "n \<le> terminal_ordinal (sr_messages env)" if "ti_messageIdAtOrdinal (context_index rt ctx env) n = Some x" for x
    using that unfolding context_index_def by (rule conjunct2 [OF built.id_range])
  with count have "ti_messageIdAtOrdinal (context_index rt ctx env) n = None"
    if "ti_rawMessageCount (context_index rt ctx env) < n"
    using that by (cases "ti_messageIdAtOrdinal (context_index rt ctx env) n") force+
  with n show ?thesis by (auto simp: boundaryMessageId_def id_at_index)
qed

lemma current_count_ge:
  "int (length ms) \<le> current_raw_count ms" "m \<in> set ms \<Longrightarrow> rm_ordinal m \<le> current_raw_count ms"
proof -
  have ge: "a \<le> foldl (\<lambda>m x. max m (rm_ordinal x)) a xs \<and>
      (\<forall>x\<in>set xs. rm_ordinal x \<le> foldl (\<lambda>m x. max m (rm_ordinal x)) a xs)" for a xs
  proof (induction xs arbitrary: a)
    case (Cons x xs)
    show ?case using Cons.IH [of "max a (rm_ordinal x)"] by auto
  qed simp
  show "int (length ms) \<le> current_raw_count ms" "m \<in> set ms \<Longrightarrow> rm_ordinal m \<le> current_raw_count ms"
    using ge [of "int (length ms)" ms] by (auto simp: current_raw_count_def)
qed

lemma count_le_current:
  assumes "case sr_absoluteMessageCount env of None \<Rightarrow> True | Some n \<Rightarrow> n \<le> current_raw_count (sr_messages env)"
  shows "ti_rawMessageCount (context_index rt ctx env) \<le> current_raw_count (sr_messages env)"
proof -
  have "terminal_ordinal (sr_messages env) \<le> current_raw_count (sr_messages env)"
  proof (cases "index_ordered (sr_messages env) = []")
    case True
    then show ?thesis using current_count_ge(1) [of "sr_messages env"] by (simp add: terminal_ordinal_def)
  next
    case False
    then have "last (index_ordered (sr_messages env)) \<in> set (sr_messages env)"
      using last_in_set [OF False] by (simp add: index_ordered_def)
    with False show ?thesis by (simp add: terminal_ordinal_def current_count_ge(2))
  qed
  with assms current_count_ge(1) [of "sr_messages env"] show ?thesis
    by (auto simp: context_index_def buildTrueRawTokenIndex_def index_count_def Let_def split: option.splits)
qed

section \<open>Properties\<close>

text \<open>
  A snapshot is not rejected without cause: validated against the messages it was resolved from,
  with the same last compartment and no changed model limit, it is valid.
\<close>

theorem unchanged_session_validates:
  assumes "bs_rawMessageCountAtTrigger (resolveProtectedTailBoundary rt ctx env) \<noteq> 0"
    and "bc_mode ctx \<noteq> ManualFullRecomp"
    and "case sr_absoluteMessageCount env of None \<Rightarrow> True | Some n \<Rightarrow> n \<le> current_raw_count (sr_messages env)"
    and "limit = None \<or> limit = Some (bc_contextLimit ctx)"
  shows "validateBoundarySnapshot rt (resolveProtectedTailBoundary rt ctx env) (sr_messages env)
     (bc_lastCompartmentEndOrdinal ctx) limit = Valid"
proof -
  let ?s = "resolveProtectedTailBoundary rt ctx env"
  have n: "ti_rawMessageCount (context_index rt ctx env) \<noteq> 0"
    using assms(1) by (auto simp: resolveProtectedTailBoundary_def boundaryCtxFields_def Let_def split: if_splits)
  note r = resolve_incremental [OF n assms(2)]
  have raw: "1 \<le> ti_rawMessageCount (context_index rt ctx env)"
    using n context_index_count [of rt ctx env] by simp
  have "snapshot_checks ?s \<noteq> [] \<and> (\<forall>(n, expected, label)\<in>set (snapshot_checks ?s). expected = id_at (sr_messages env) n)"
    using raw resolved_tail_bounds(1) [of rt ctx env] context_offset_pos [of ctx]
    by (auto simp: snapshot_checks_def r boundary_id_at split: if_splits)
  then have ids: "find (\<lambda>(n, expected, label). expected \<noteq> id_at (sr_messages env) n) (snapshot_checks ?s) = None"
    by (auto simp: find_None_iff)
  have "current_raw_count (sr_messages env) \<ge> bs_rawMessageCountAtTrigger ?s"
    using count_le_current [OF assms(3)] by (simp add: r(4))
  moreover have "bs_contextLimit ?s = bc_contextLimit ctx" "bs_offset ?s = max 1 (bc_lastCompartmentEndOrdinal ctx + 1)"
    using r(1,10) by (simp_all add: context_offset_def)
  moreover have "computeRawRangeFingerprint rt (sr_messages env) (bs_offset ?s) (bs_eligibleEndOrdinal ?s)
      = bs_rawRangeFingerprint ?s" by (simp only: r)
  ultimately show ?thesis
    using assms(4) ids by (auto simp: validateBoundarySnapshot_def)
qed

theorem unchanged_session_validates_witness:
  "validateBoundarySnapshot example_runtime (resolveProtectedTailBoundary example_runtime example_context example_read)
     (sr_messages example_read) (bc_lastCompartmentEndOrdinal example_context) None = Valid"
  by (rule unchanged_session_validates)
    (simp_all add: example_resolved_count example_context_simps, simp add: example_read_def)

text \<open>
  A compartment published after the snapshot invalidates it: when the last compartment has moved
  to a later message, no snapshot of the older offset is accepted.
\<close>

theorem published_compartment_invalidates:
  assumes "bc_lastCompartmentEndOrdinal ctx < lastEnd" "1 \<le> lastEnd"
    and "bs_rawMessageCountAtTrigger (resolveProtectedTailBoundary rt ctx env) \<noteq> 0"
    and "bc_mode ctx \<noteq> ManualFullRecomp"
  shows "validateBoundarySnapshot rt (resolveProtectedTailBoundary rt ctx env) messages lastEnd limit \<noteq> Valid"
proof -
  have n: "ti_rawMessageCount (context_index rt ctx env) \<noteq> 0"
    using assms(3) by (auto simp: resolveProtectedTailBoundary_def boundaryCtxFields_def Let_def split: if_splits)
  have "bs_offset (resolveProtectedTailBoundary rt ctx env) \<noteq> max 1 (lastEnd + 1)"
    using resolve_incremental(1) [OF n assms(4)] assms(1,2) by (simp add: context_offset_def)
  then show ?thesis by (auto simp: validateBoundarySnapshot_def split: option.splits)
qed

theorem published_compartment_invalidates_witness:
  "validateBoundarySnapshot example_runtime (resolveProtectedTailBoundary example_runtime example_context example_read)
     [] 2 None \<noteq> Valid"
  by (rule published_compartment_invalidates)
    (simp_all add: example_resolved_count example_context_simps, simp add: example_context_def)

end
