(* ===== verification/Drain_Quota.thy ===== *)
theory Drain_Quota
  imports Protected_Tail
begin

text \<open>
  The persisted protected-tail state of a session and its drain quota
  (\<open>features/magic-context/storage-meta-persisted.ts\<close>), and the boundary context built on it
  (\<open>resolveBoundaryContext\<close>, \<open>recordHighPressureNoEligibleHead\<close> of
  \<open>hooks/magic-context/protected-tail-boundary.ts\<close>). The table \<open>session_meta\<close> is a map from session
  ids to rows; a transaction is one function. The operations are also the steps of a machine whose
  invariant and monotone watermark are interpreted from the prelude.
\<close>

section \<open>Rows\<close>

record tail_meta =
  pm_priorBoundaryOrdinal :: int
  pm_protectedTailPolicyVersion :: int
  pm_protectedTailDrainWindowStartedAt :: int
  pm_protectedTailDrainTokens :: int
  pm_recoveryNoEligibleHeadCount :: int
  pm_forceEmergencyBypassWindowStart :: int
  pm_forceEmergencyBypassUsed :: int
  pm_emergencyDrainActive :: int
  pm_historianDrainFailureAt :: int

type_synonym meta_table = "string \<rightharpoonup> tail_meta"

definition DEFAULT_PROTECTED_TAIL_META :: tail_meta where
  "DEFAULT_PROTECTED_TAIL_META =
     \<lparr>pm_priorBoundaryOrdinal = 1, pm_protectedTailPolicyVersion = 0,
      pm_protectedTailDrainWindowStartedAt = 0, pm_protectedTailDrainTokens = 0,
      pm_recoveryNoEligibleHeadCount = 0, pm_forceEmergencyBypassWindowStart = 0,
      pm_forceEmergencyBypassUsed = 0, pm_emergencyDrainActive = 0, pm_historianDrainFailureAt = 0\<rparr>"

definition stored_row :: "meta_table \<Rightarrow> string \<Rightarrow> tail_meta" where
  "stored_row db sid = (case db sid of Some r \<Rightarrow> r | None \<Rightarrow> DEFAULT_PROTECTED_TAIL_META)"

text \<open>\<open>ensureSessionMetaRow\<close> and one UPDATE of the row.\<close>

definition update_row :: "string \<Rightarrow> (tail_meta \<Rightarrow> tail_meta) \<Rightarrow> meta_table \<Rightarrow> meta_table" where
  "update_row sid f db = db(sid \<mapsto> f (stored_row db sid))"

definition loadProtectedTailMeta :: "meta_table \<Rightarrow> string \<Rightarrow> tail_meta" where
  "loadProtectedTailMeta db sid =
     (stored_row db sid)\<lparr>pm_priorBoundaryOrdinal := max 1 (pm_priorBoundaryOrdinal (stored_row db sid))\<rparr>"

lemma stored_row_update [simp]:
  "stored_row (update_row sid f db) s = (if s = sid then f (stored_row db sid) else stored_row db s)"
  by (simp add: stored_row_def update_row_def)

section \<open>Operations\<close>

definition markProtectedTailPolicyV3Seeded :: "meta_table \<Rightarrow> string \<Rightarrow> int \<Rightarrow> meta_table \<times> bool" where
  "markProtectedTailPolicyV3Seeded db sid priorBoundaryOrdinal =
     (if pm_protectedTailPolicyVersion (loadProtectedTailMeta db sid) < 3
      then (update_row sid (\<lambda>r. r\<lparr>pm_priorBoundaryOrdinal := max 1 priorBoundaryOrdinal,
                                   pm_protectedTailPolicyVersion := 3\<rparr>) db, True)
      else (db, False))"

definition recordProtectedTailPublicationFloor :: "meta_table \<Rightarrow> string \<Rightarrow> int \<Rightarrow> meta_table" where
  "recordProtectedTailPublicationFloor db sid floorOrdinal =
     update_row sid (\<lambda>r. r\<lparr>pm_priorBoundaryOrdinal := max (pm_priorBoundaryOrdinal r) (max 1 floorOrdinal),
                           pm_recoveryNoEligibleHeadCount := 0\<rparr>) db"

definition recordProtectedTailNoEligibleHead :: "meta_table \<Rightarrow> string \<Rightarrow> meta_table \<times> int" where
  "recordProtectedTailNoEligibleHead db sid =
     (let db' = update_row sid (\<lambda>r. r\<lparr>pm_recoveryNoEligibleHeadCount := pm_recoveryNoEligibleHeadCount r + 1\<rparr>) db
      in (db', pm_recoveryNoEligibleHeadCount (loadProtectedTailMeta db' sid)))"

definition resetProtectedTailNoEligibleHead :: "meta_table \<Rightarrow> string \<Rightarrow> meta_table" where
  "resetProtectedTailNoEligibleHead db sid = update_row sid (\<lambda>r. r\<lparr>pm_recoveryNoEligibleHeadCount := 0\<rparr>) db"

definition clearEmergencyDrainLatch :: "meta_table \<Rightarrow> string \<Rightarrow> meta_table" where
  "clearEmergencyDrainLatch db sid = update_row sid (\<lambda>r. r\<lparr>pm_emergencyDrainActive := 0\<rparr>) db"

definition recordHistorianDrainFailure :: "meta_table \<Rightarrow> string \<Rightarrow> int \<Rightarrow> meta_table" where
  "recordHistorianDrainFailure db sid now = update_row sid (\<lambda>r. r\<lparr>pm_historianDrainFailureAt := now\<rparr>) db"

definition clearHistorianDrainFailure :: "meta_table \<Rightarrow> string \<Rightarrow> meta_table" where
  "clearHistorianDrainFailure db sid = update_row sid (\<lambda>r. r\<lparr>pm_historianDrainFailureAt := 0\<rparr>) db"

definition DRAIN_WINDOW_MS :: int where [config_simps]: "DRAIN_WINDOW_MS = 10 * 60 * 1000"
definition EMERGENCY_DRAIN_EXIT_MARGIN :: real where [config_simps]: "EMERGENCY_DRAIN_EXIT_MARGIN = 10"
definition EMERGENCY_DRAIN_FALLBACK_EXIT_PERCENTAGE :: real where
  [config_simps]: "EMERGENCY_DRAIN_FALLBACK_EXIT_PERCENTAGE = 55"
definition EMERGENCY_DRAIN_FAILURE_BACKOFF_MS :: int where [config_simps]: "EMERGENCY_DRAIN_FAILURE_BACKOFF_MS = 60000"
definition EMERGENCY_DRAIN_MAX_LATCH_MS :: int where [config_simps]: "EMERGENCY_DRAIN_MAX_LATCH_MS = 30 * 60 * 1000"

definition protectedTailWindowBudget :: "real \<Rightarrow> int \<Rightarrow> int \<Rightarrow> int" where
  "protectedTailWindowBudget usagePercentage usable perRunCap =
     (if 95 \<le> usagePercentage then min 1000000 (max (4 * perRunCap) (math_round (5/10 * real_of_int usable)))
      else if 80 \<le> usagePercentage then min 750000 (max (3 * perRunCap) (math_round (35/100 * real_of_int usable)))
      else min 500000 (max perRunCap (math_round (2/10 * real_of_int usable))))"

definition emergencyDrainExitThreshold :: "jsnum \<Rightarrow> real" where
  "emergencyDrainExitThreshold threshold =
     (case threshold of
        None \<Rightarrow> EMERGENCY_DRAIN_FALLBACK_EXIT_PERCENTAGE
      | Some t \<Rightarrow> if t \<le> 0 then EMERGENCY_DRAIN_FALLBACK_EXIT_PERCENTAGE
                  else max 0 (t - EMERGENCY_DRAIN_EXIT_MARGIN))"

record drain_request =
  dr_sessionId :: string
  dr_runId :: string
  dr_trueRawTokens :: int
  dr_usagePercentage :: real
  dr_usable :: int
  dr_perRunCap :: int
  dr_executeThresholdPercentage :: jsnum
  dr_now :: int

record drain_reservation =
  rv_sessionId :: string
  rv_runId :: string
  rv_tokens :: int

record drain_result =
  dz_ok :: bool
  dz_reservedTokens :: int
  dz_overQuotaBypass :: bool
  dz_reservation :: "drain_reservation option"
  dz_skippedReason :: "string option"

text \<open>The latch: on at the force band, off below the exit threshold or after its longest duration.\<close>

definition latch_after :: "tail_meta \<Rightarrow> drain_request \<Rightarrow> int" where
  "latch_after meta q =
     (let since = pm_emergencyDrainActive meta
      in if forceMaterializationPercentage (escalationBands (dr_executeThresholdPercentage q)) \<le> dr_usagePercentage q
         then (if since \<le> 0 then dr_now q else since)
         else if 0 < since then
           (if dr_usagePercentage q < emergencyDrainExitThreshold (dr_executeThresholdPercentage q)
               \<or> EMERGENCY_DRAIN_MAX_LATCH_MS < dr_now q - since then 0 else since)
         else since)"

text \<open>The row the transaction works on: a window older than ten minutes is restarted.\<close>

definition window_row :: "meta_table \<Rightarrow> drain_request \<Rightarrow> tail_meta" where
  "window_row db q =
     (let meta = loadProtectedTailMeta db (dr_sessionId q)
      in if DRAIN_WINDOW_MS < dr_now q - pm_protectedTailDrainWindowStartedAt meta
         then meta\<lparr>pm_protectedTailDrainWindowStartedAt := dr_now q, pm_protectedTailDrainTokens := 0\<rparr>
         else meta)"

definition in_failure_backoff :: "tail_meta \<Rightarrow> int \<Rightarrow> bool" where
  "in_failure_backoff meta now \<longleftrightarrow>
     0 < pm_historianDrainFailureAt meta \<and> now - pm_historianDrainFailureAt meta < EMERGENCY_DRAIN_FAILURE_BACKOFF_MS"

definition quota_exhausted :: drain_result where
  "quota_exhausted = \<lparr>dz_ok = False, dz_reservedTokens = 0, dz_overQuotaBypass = False,
     dz_reservation = None, dz_skippedReason = Some ''quota exhausted''\<rparr>"

definition reserveProtectedTailDrainTokens :: "meta_table \<Rightarrow> drain_request \<Rightarrow> meta_table \<times> drain_result" where
  "reserveProtectedTailDrainTokens db q =
     (let requested = max 0 (dr_trueRawTokens q)
      in if requested = 0 then
           (db, \<lparr>dz_ok = True, dz_reservedTokens = 0, dz_overQuotaBypass = False, dz_reservation = None,
                 dz_skippedReason = None\<rparr>)
         else
           let meta = window_row db q;
               latch = latch_after meta q;
               budget = protectedTailWindowBudget (dr_usagePercentage q) (dr_usable q) (dr_perRunCap q);
               remaining = max 0 (budget - pm_protectedTailDrainTokens meta);
               reserved0 = min (min requested (dr_perRunCap q)) remaining;
               bypass = (reserved0 \<le> 0 \<and> 0 < latch \<and> \<not> in_failure_backoff meta (dr_now q));
               reserved = (if bypass then min requested (dr_perRunCap q) else reserved0);
               db1 = update_row (dr_sessionId q) (\<lambda>r. r
                       \<lparr>pm_protectedTailDrainWindowStartedAt := pm_protectedTailDrainWindowStartedAt meta,
                        pm_protectedTailDrainTokens := pm_protectedTailDrainTokens meta,
                        pm_emergencyDrainActive := latch\<rparr>) db
           in if reserved \<le> 0 then (db1, quota_exhausted)
              else (update_row (dr_sessionId q) (\<lambda>r. r
                      \<lparr>pm_protectedTailDrainWindowStartedAt :=
                         (if pm_protectedTailDrainWindowStartedAt r = 0 then dr_now q
                          else pm_protectedTailDrainWindowStartedAt r),
                       pm_protectedTailDrainTokens := pm_protectedTailDrainTokens r + reserved\<rparr>) db1,
                    \<lparr>dz_ok = True, dz_reservedTokens = reserved, dz_overQuotaBypass = bypass,
                     dz_reservation = Some \<lparr>rv_sessionId = dr_sessionId q, rv_runId = dr_runId q, rv_tokens = reserved\<rparr>,
                     dz_skippedReason = None\<rparr>))"

definition rollbackProtectedTailDrainReservation :: "meta_table \<Rightarrow> drain_reservation option \<Rightarrow> meta_table" where
  "rollbackProtectedTailDrainReservation db reservation =
     (case reservation of
        None \<Rightarrow> db
      | Some v \<Rightarrow> if rv_tokens v \<le> 0 then db
          else update_row (rv_sessionId v)
                 (\<lambda>r. r\<lparr>pm_protectedTailDrainTokens := max 0 (pm_protectedTailDrainTokens r - rv_tokens v)\<rparr>) db)"

definition recordHighPressureNoEligibleHead :: "meta_table \<Rightarrow> boundary_snapshot \<Rightarrow> meta_table \<times> int" where
  "recordHighPressureNoEligibleHead db s =
     (if bs_usagePercentage s < forceMaterializationPercentage (escalationBands (Some (bs_executeThresholdPercentage s)))
         \<and> \<not> scale_set (bs_emergencyTailScale s)
      then (db, 0) else recordProtectedTailNoEligibleHead db (bs_sessionId s))"

section \<open>The boundary context\<close>

definition PROTECTED_TAIL_USER_TURNS :: nat where "PROTECTED_TAIL_USER_TURNS = 5"

definition getLegacyProtectedTailStartOrdinal :: "raw_message list \<Rightarrow> int" where
  "getLegacyProtectedTailStartOrdinal messages =
     (let userOrdinals = map rm_ordinal (filter (\<lambda>m. rm_role m = ''user'' \<and> hasMeaningfulUserText (rm_parts m)) messages)
      in if length userOrdinals < PROTECTED_TAIL_USER_TURNS then 1
         else userOrdinals ! (length userOrdinals - PROTECTED_TAIL_USER_TURNS))"

record context_request =
  cr_sessionId :: string
  cr_mode :: boundary_mode
  cr_contextLimit :: real
  cr_executeThresholdPercentage :: real
  cr_usage :: "boundary_usage option"
  cr_usageSource :: "usage_source option"
  cr_emergencyTailScale :: "real option"
  cr_providerShapeVersion :: "string option"
  cr_cacheNamespace :: "string option"

text \<open>
  The end of the last compartment and the stored token totals come from tables that are not part of
  this state; \<open>None\<close> totals is the fallback to live tokenization.
\<close>

definition resolveBoundaryContext ::
  "meta_table \<Rightarrow> context_request \<Rightarrow> raw_message list \<Rightarrow> int \<Rightarrow> (string \<rightharpoonup> nat) option \<Rightarrow> meta_table \<times> boundary_context" where
  "resolveBoundaryContext db q messages lastCompartmentEnd totals =
     (let sid = cr_sessionId q;
          (db', seeded) =
            (if pm_protectedTailPolicyVersion (loadProtectedTailMeta db sid) < 3
             then markProtectedTailPolicyV3Seeded db sid (max 1 (getLegacyProtectedTailStartOrdinal messages))
             else (db, False))
      in (db', \<lparr>bc_sessionId = sid, bc_mode = cr_mode q, bc_contextLimit = cr_contextLimit q,
          bc_executeThresholdPercentage = cr_executeThresholdPercentage q,
          bc_triggerBudget = deriveTriggerBudget (Some (cr_contextLimit q)) (cr_executeThresholdPercentage q),
          bc_usage = cr_usage q,
          bc_usageSource = (case cr_usageSource q of Some u \<Rightarrow> u
                            | None \<Rightarrow> if cr_usage q \<noteq> None then Live else ProvisionalZero),
          bc_lastCompartmentEndOrdinal = lastCompartmentEnd,
          bc_priorBoundaryOrdinal = pm_priorBoundaryOrdinal (loadProtectedTailMeta db' sid),
          bc_migrationFloorActive = seeded,
          bc_emergencyTailScale = cr_emergencyTailScale q,
          bc_providerShapeVersion = (case cr_providerShapeVersion q of Some v \<Rightarrow> v | None \<Rightarrow> ''opencode-v1''),
          bc_cacheNamespace = (case cr_cacheNamespace q of Some v \<Rightarrow> v | None \<Rightarrow> ''opencode:'' @ sid),
          bc_createdAt = None, bc_storedTokenTotals = totals\<rparr>))"

section \<open>The operations as a machine\<close>

datatype quota_event =
    EvReserve drain_request
  | EvRollback "drain_reservation option"
  | EvClearLatch string
  | EvFailure string int
  | EvClearFailure string
  | EvFloor string int
  | EvNoHead string
  | EvResetNoHead string
  | EvSeed string int

fun quota_step :: "meta_table \<Rightarrow> quota_event \<Rightarrow> meta_table" where
  "quota_step db (EvReserve q) = fst (reserveProtectedTailDrainTokens db q)"
| "quota_step db (EvRollback v) = rollbackProtectedTailDrainReservation db v"
| "quota_step db (EvClearLatch s) = clearEmergencyDrainLatch db s"
| "quota_step db (EvFailure s now) = recordHistorianDrainFailure db s now"
| "quota_step db (EvClearFailure s) = clearHistorianDrainFailure db s"
| "quota_step db (EvFloor s n) = recordProtectedTailPublicationFloor db s n"
| "quota_step db (EvNoHead s) = fst (recordProtectedTailNoEligibleHead db s)"
| "quota_step db (EvResetNoHead s) = resetProtectedTailNoEligibleHead db s"
| "quota_step db (EvSeed s n) = fst (markProtectedTailPolicyV3Seeded db s n)"

definition quota_inv :: "string \<Rightarrow> meta_table \<Rightarrow> bool" where
  "quota_inv sid db \<longleftrightarrow> 0 \<le> pm_protectedTailDrainTokens (stored_row db sid)
     \<and> 0 \<le> pm_recoveryNoEligibleHeadCount (stored_row db sid)"

definition floor_level :: "string \<Rightarrow> meta_table \<Rightarrow> int" where
  "floor_level sid db =
     (let r = loadProtectedTailMeta db sid
      in if pm_protectedTailPolicyVersion r < 3 then 0 else pm_priorBoundaryOrdinal r)"

lemmas quota_op_defs = markProtectedTailPolicyV3Seeded_def recordProtectedTailPublicationFloor_def
  recordProtectedTailNoEligibleHead_def resetProtectedTailNoEligibleHead_def clearEmergencyDrainLatch_def
  recordHistorianDrainFailure_def clearHistorianDrainFailure_def rollbackProtectedTailDrainReservation_def

lemma window_row_tokens:
  "0 \<le> pm_protectedTailDrainTokens (stored_row db (dr_sessionId q)) \<Longrightarrow> 0 \<le> pm_protectedTailDrainTokens (window_row db q)"
  by (simp add: window_row_def loadProtectedTailMeta_def Let_def)

text \<open>A reservation touches one row and only the window, the tokens and the latch of that row.\<close>

lemma reserve_row:
  fixes db q sid
  defines "r \<equiv> stored_row (fst (reserveProtectedTailDrainTokens db q)) sid"
  shows "sid \<noteq> dr_sessionId q \<Longrightarrow> r = stored_row db sid"
    and "pm_priorBoundaryOrdinal r = pm_priorBoundaryOrdinal (stored_row db sid)"
    and "pm_protectedTailPolicyVersion r = pm_protectedTailPolicyVersion (stored_row db sid)"
    and "pm_recoveryNoEligibleHeadCount r = pm_recoveryNoEligibleHeadCount (stored_row db sid)"
    and "pm_historianDrainFailureAt r = pm_historianDrainFailureAt (stored_row db sid)"
  by (simp_all add: r_def reserveProtectedTailDrainTokens_def Let_def)

lemma reserve_tokens:
  fixes db q
  defines "z \<equiv> snd (reserveProtectedTailDrainTokens db q)"
  assumes "0 < dr_trueRawTokens q"
  shows "pm_protectedTailDrainTokens (stored_row (fst (reserveProtectedTailDrainTokens db q)) (dr_sessionId q))
      = pm_protectedTailDrainTokens (window_row db q) + dz_reservedTokens z"
    and "dz_reservedTokens z = 0 \<or> 0 < dz_reservedTokens z"
    and "dz_ok z \<longleftrightarrow> 0 < dz_reservedTokens z"
    and "dz_reservation z = (if dz_ok z then Some \<lparr>rv_sessionId = dr_sessionId q, rv_runId = dr_runId q,
           rv_tokens = dz_reservedTokens z\<rparr> else None)"
    and "pm_emergencyDrainActive (stored_row (fst (reserveProtectedTailDrainTokens db q)) (dr_sessionId q))
      = latch_after (window_row db q) q"
  using assms(2)
  by (simp_all add: z_def reserveProtectedTailDrainTokens_def Let_def quota_exhausted_def)

interpretation quota: monotone_machine quota_step "quota_inv sid" "floor_level sid" for sid
proof
  fix db e assume inv: "quota_inv sid db"
  show "quota_inv sid (quota_step db e)"
  proof (cases e)
    case (EvReserve q)
    show ?thesis
    proof (cases "0 < dr_trueRawTokens q \<and> sid = dr_sessionId q")
      case True
      then show ?thesis
        using inv window_row_tokens [of db q] reserve_tokens(1,2) [of q db]
        by (auto simp: EvReserve quota_inv_def reserve_row)
    next
      case False
      then have "stored_row (quota_step db e) sid = stored_row db sid"
        using reserve_row(1) [of sid q db] by (auto simp: EvReserve reserveProtectedTailDrainTokens_def)
      with inv show ?thesis by (simp add: quota_inv_def)
    qed
  qed (use inv in \<open>auto simp: quota_inv_def quota_op_defs Let_def split: option.splits\<close>)
  show "floor_level sid db \<le> floor_level sid (quota_step db e)"
    by (cases e) (auto simp: floor_level_def quota_op_defs loadProtectedTailMeta_def reserve_row Let_def
        split: option.splits)
qed

section \<open>Properties\<close>

text \<open>
  A reservation takes no more than was asked for and no more than one run's cap; without the
  emergency bypass it keeps the window within its budget, at most a million tokens; and the bypass is
  used only with the latch on, outside the failure backoff, when the window has nothing left.
\<close>

theorem reservation_respects_quota:
  assumes "0 < dr_trueRawTokens q" "dz_ok (snd (reserveProtectedTailDrainTokens db q))"
  shows "let (db', z) = reserveProtectedTailDrainTokens db q; before = window_row db q;
         budget = protectedTailWindowBudget (dr_usagePercentage q) (dr_usable q) (dr_perRunCap q)
     in 0 < dz_reservedTokens z \<and> dz_reservedTokens z \<le> dr_trueRawTokens q
      \<and> dz_reservedTokens z \<le> dr_perRunCap q
      \<and> (\<not> dz_overQuotaBypass z \<longrightarrow>
           pm_protectedTailDrainTokens (stored_row db' (dr_sessionId q)) \<le> budget \<and> budget \<le> 1000000)
      \<and> (dz_overQuotaBypass z \<longrightarrow>
           0 < latch_after before q \<and> \<not> in_failure_backoff before (dr_now q)
           \<and> budget \<le> pm_protectedTailDrainTokens before)"
proof -
  have "protectedTailWindowBudget u v c \<le> 1000000" for u v c
    by (auto simp: protectedTailWindowBudget_def intro: min.coboundedI1)
  with assms show ?thesis
    by (auto simp: reserveProtectedTailDrainTokens_def Let_def quota_exhausted_def split: if_splits)
qed

definition example_drain :: "int \<Rightarrow> int \<Rightarrow> drain_request" where
  "example_drain tokens now = \<lparr>dr_sessionId = ''s'', dr_runId = ''r'', dr_trueRawTokens = tokens,
     dr_usagePercentage = 70, dr_usable = 130000, dr_perRunCap = 78000,
     dr_executeThresholdPercentage = Some 65, dr_now = now\<rparr>"

lemma example_drain_ok:
  "dz_ok (snd (reserveProtectedTailDrainTokens Map.empty (example_drain 5000 700000)))"
  by (simp add: reserve_tokens(3) example_drain_def)
    (simp add: reserveProtectedTailDrainTokens_def Let_def quota_exhausted_def window_row_def
      loadProtectedTailMeta_def stored_row_def DEFAULT_PROTECTED_TAIL_META_def config_simps protectedTailWindowBudget_def)

theorem reservation_respects_quota_witness:
  "dz_reservedTokens (snd (reserveProtectedTailDrainTokens Map.empty (example_drain 5000 700000))) \<le> 5000"
  using reservation_respects_quota [of "example_drain 5000 700000" Map.empty] example_drain_ok
  by (auto simp: Let_def split_beta example_drain_def)

text \<open>
  Rolling a reservation back leaves the session's window exactly as a run without it would have:
  the drained tokens are those of the current window before the reservation.
\<close>

theorem rollback_undoes_reservation:
  assumes "0 < dr_trueRawTokens q" "0 \<le> pm_protectedTailDrainTokens (stored_row db (dr_sessionId q))"
  shows "let (db', z) = reserveProtectedTailDrainTokens db q
     in pm_protectedTailDrainTokens (stored_row (rollbackProtectedTailDrainReservation db' (dz_reservation z)) (dr_sessionId q))
        = pm_protectedTailDrainTokens (window_row db q)"
  using reserve_tokens [OF assms(1), of db] window_row_tokens [OF assms(2)]
  by (auto simp: split_beta rollbackProtectedTailDrainReservation_def)

theorem rollback_undoes_reservation_witness:
  "let (db', z) = reserveProtectedTailDrainTokens Map.empty (example_drain 5000 700000)
   in pm_protectedTailDrainTokens (stored_row (rollbackProtectedTailDrainReservation db' (dz_reservation z)) ''s'')
      = pm_protectedTailDrainTokens (window_row Map.empty (example_drain 5000 700000))"
  using rollback_undoes_reservation [of "example_drain 5000 700000" Map.empty]
  by (simp add: example_drain_def stored_row_def DEFAULT_PROTECTED_TAIL_META_def)

text \<open>
  Whatever the order of reservations, rollbacks, failures, publications and seeds, the drained
  tokens of a session never go negative, and once its boundary policy is seeded it stays seeded and
  its publication floor never moves back.
\<close>

theorem publication_floor_never_moves_back:
  assumes "quota_inv sid db" "3 \<le> pm_protectedTailPolicyVersion (loadProtectedTailMeta db sid)"
  shows "let r = loadProtectedTailMeta (foldl quota_step db es) sid
     in 0 \<le> pm_protectedTailDrainTokens r \<and> 3 \<le> pm_protectedTailPolicyVersion r
      \<and> pm_priorBoundaryOrdinal (loadProtectedTailMeta db sid) \<le> pm_priorBoundaryOrdinal r"
proof -
  have "floor_level sid db \<le> floor_level sid (foldl quota_step db es)"
    by (rule quota.run_level [OF assms(1)])
  moreover have "1 \<le> pm_priorBoundaryOrdinal (loadProtectedTailMeta db sid)"
    by (simp add: loadProtectedTailMeta_def)
  ultimately show ?thesis
    using quota.run_inv [OF assms(1), of es] assms(2)
    by (auto simp: floor_level_def quota_inv_def loadProtectedTailMeta_def Let_def split: if_splits)
qed

theorem publication_floor_never_moves_back_witness:
  "let db = fst (markProtectedTailPolicyV3Seeded Map.empty ''s'' 4);
       r = loadProtectedTailMeta (foldl quota_step db [EvReserve (example_drain 5000 700000), EvSeed ''s'' 1]) ''s''
   in 4 \<le> pm_priorBoundaryOrdinal r"
  using publication_floor_never_moves_back [of "''s''" "fst (markProtectedTailPolicyV3Seeded Map.empty ''s'' 4)"
      "[EvReserve (example_drain 5000 700000), EvSeed ''s'' 1]"]
  by (simp add: Let_def markProtectedTailPolicyV3Seeded_def quota_inv_def loadProtectedTailMeta_def
      stored_row_def [of Map.empty] DEFAULT_PROTECTED_TAIL_META_def)

text \<open>
  The emergency is never starved by the quota: a pass at the force band with something to drain
  and no historian failure in the last minute gets its reservation, even in an exhausted window.
\<close>

theorem force_band_always_drains:
  assumes "0 < dr_trueRawTokens q" "0 < dr_perRunCap q" "0 < dr_now q"
    and "forceMaterializationPercentage (escalationBands (dr_executeThresholdPercentage q)) \<le> dr_usagePercentage q"
    and "\<not> in_failure_backoff (stored_row db (dr_sessionId q)) (dr_now q)"
  shows "dz_ok (snd (reserveProtectedTailDrainTokens db q))"
proof -
  have "0 < latch_after (window_row db q) q" using assms(3,4) by (auto simp: latch_after_def Let_def)
  moreover have "\<not> in_failure_backoff (window_row db q) (dr_now q)"
    using assms(5) by (simp add: in_failure_backoff_def window_row_def loadProtectedTailMeta_def Let_def)
  ultimately show ?thesis
    using assms(1,2) by (auto simp: reserveProtectedTailDrainTokens_def Let_def)
qed

theorem force_band_always_drains_witness:
  "dz_ok (snd (reserveProtectedTailDrainTokens
     [''s'' \<mapsto> DEFAULT_PROTECTED_TAIL_META\<lparr>pm_protectedTailDrainWindowStartedAt := 5, pm_protectedTailDrainTokens := 9000000\<rparr>]
     (example_drain 5000 700\<lparr>dr_usagePercentage := 92\<rparr>)))"
  by (rule force_band_always_drains)
    (simp_all add: example_drain_def escalationBands_def config_simps in_failure_backoff_def stored_row_def
      DEFAULT_PROTECTED_TAIL_META_def)

end
