(* ===== verification/Leases.thy ===== *)
theory Leases
  imports Prelude
begin

text \<open>
  The time-bounded leases that keep one writer per resource: the compartment lease
  (\<open>features/magic-context/compartment-lease.ts\<close>), the wrap-up marker
  (\<open>acquireWrapupInProgress\<close> and its siblings in \<open>features/magic-context/storage-meta-persisted.ts\<close>)
  and the dream lease (\<open>features/magic-context/dreamer/lease.ts\<close>, over the key-value rows of
  \<open>dreamer/storage-dream-state.ts\<close>). The locale \<open>lease\<close> states their common contract; every one of
  them is an interpretation. The clock is an argument. Each mutation runs as one immediate
  transaction, so it is one function.
\<close>

section \<open>The contract of a lease\<close>

datatype lease_event = Acquire string | Renew string | Release string

definition event_holder :: "lease_event \<Rightarrow> string" where
  "event_holder e = (case e of Acquire h \<Rightarrow> h | Renew h \<Rightarrow> h | Release h \<Rightarrow> h)"

definition lease_step ::
  "('db \<Rightarrow> string \<Rightarrow> int \<Rightarrow> 'db \<times> bool) \<Rightarrow> ('db \<Rightarrow> string \<Rightarrow> int \<Rightarrow> 'db \<times> bool) \<Rightarrow> ('db \<Rightarrow> string \<Rightarrow> 'db) \<Rightarrow>
   'db \<Rightarrow> int \<times> lease_event \<Rightarrow> 'db" where
  "lease_step acquire renew release db te = (case te of
     (t, Acquire h) \<Rightarrow> fst (acquire db h t) | (t, Renew h) \<Rightarrow> fst (renew db h t) | (t, Release h) \<Rightarrow> release db h)"

locale lease =
  fixes held :: "'db \<Rightarrow> string \<Rightarrow> int \<Rightarrow> bool"
    and acquire renew :: "'db \<Rightarrow> string \<Rightarrow> int \<Rightarrow> 'db \<times> bool"
    and release :: "'db \<Rightarrow> string \<Rightarrow> 'db"
    and ttl :: int
  assumes exclusive: "held db h t \<Longrightarrow> held db h' t \<Longrightarrow> h = h'"
    and expires_once: "held db h t \<Longrightarrow> s \<le> t \<Longrightarrow> held db h s"
    and acquire_blocked: "held db h t \<Longrightarrow> h' \<noteq> h \<Longrightarrow> acquire db h' t = (db, False)"
    and acquire_free: "h \<noteq> [] \<Longrightarrow> \<forall>h'. held db h' t \<longrightarrow> h' = h \<Longrightarrow> s < t + ttl \<Longrightarrow>
          snd (acquire db h t) \<and> held (fst (acquire db h t)) h s"
    and renew_other: "held db h t \<Longrightarrow> h' \<noteq> h \<Longrightarrow> renew db h' t = (db, False)"
    and renew_own: "held db h t \<Longrightarrow> s < t + ttl \<Longrightarrow> snd (renew db h t) \<and> held (fst (renew db h t)) h s"
    and release_other: "held db h t \<Longrightarrow> h' \<noteq> h \<Longrightarrow> held (release db h') h t"
    and release_own: "\<not> held (release db h) h t"
begin

lemma step_by_other:
  assumes "held db h e" "t \<le> e" "event_holder ev \<noteq> h"
  shows "held (lease_step acquire renew release db (t, ev)) h e"
proof -
  have t: "held db h t" using expires_once assms(1,2) by blast
  show ?thesis
    using assms acquire_blocked [OF t] renew_other [OF t] release_other [OF assms(1)]
    by (cases ev) (auto simp: lease_step_def event_holder_def)
qed

text \<open>Nobody else can end a lease before it expires, whatever they do and in whatever order.\<close>

lemma others_cannot_end:
  assumes "held db h e" "\<forall>(t, ev)\<in>set evs. t \<le> e \<and> event_holder ev \<noteq> h"
  shows "held (foldl (lease_step acquire renew release) db evs) h e"
  using assms
proof (induction evs arbitrary: db)
  case (Cons te evs)
  then have "held (lease_step acquire renew release db te) h e" by (cases te) (auto intro: step_by_other)
  with Cons show ?case by simp
qed simp

lemma others_cannot_acquire:
  assumes "held db h e" "\<forall>(t, ev)\<in>set evs. t \<le> e \<and> event_holder ev \<noteq> h" "h' \<noteq> h" "t \<le> e"
  shows "\<not> snd (acquire (foldl (lease_step acquire renew release) db evs) h' t)"
  using acquire_blocked [OF expires_once [OF others_cannot_end [OF assms(1,2)] assms(4)] assms(3)] by simp

end

section \<open>The compartment lease\<close>

definition COMPARTMENT_LEASE_TTL_MS :: int where "COMPARTMENT_LEASE_TTL_MS = 5 * 60 * 1000"

record compartment_lease =
  cl_holder_id :: string
  cl_acquired_at :: int
  cl_expires_at :: int

type_synonym lease_table = "string \<rightharpoonup> compartment_lease"

definition acquireCompartmentLease :: "string \<Rightarrow> lease_table \<Rightarrow> string \<Rightarrow> int \<Rightarrow> lease_table \<times> compartment_lease option" where
  "acquireCompartmentLease sid db holderId now =
     (let row = \<lparr>cl_holder_id = holderId, cl_acquired_at = now, cl_expires_at = now + COMPARTMENT_LEASE_TTL_MS\<rparr>
      in case db sid of
           None \<Rightarrow> (db(sid \<mapsto> row), Some row)
         | Some old \<Rightarrow> if cl_holder_id old = holderId \<or> cl_expires_at old \<le> now
                       then (db(sid \<mapsto> row), Some row) else (db, None))"

definition renewCompartmentLease :: "string \<Rightarrow> lease_table \<Rightarrow> string \<Rightarrow> int \<Rightarrow> lease_table \<times> bool" where
  "renewCompartmentLease sid db holderId now =
     (case db sid of
        Some old \<Rightarrow> if cl_holder_id old = holderId \<and> now < cl_expires_at old
          then (db(sid \<mapsto> old\<lparr>cl_expires_at := now + COMPARTMENT_LEASE_TTL_MS, cl_acquired_at := now\<rparr>), True)
          else (db, False)
      | None \<Rightarrow> (db, False))"

definition releaseCompartmentLease :: "string \<Rightarrow> lease_table \<Rightarrow> string \<Rightarrow> lease_table" where
  "releaseCompartmentLease sid db holderId =
     (case db sid of Some old \<Rightarrow> if cl_holder_id old = holderId then db(sid := None) else db | None \<Rightarrow> db)"

definition isCompartmentLeaseHeld :: "string \<Rightarrow> lease_table \<Rightarrow> string \<Rightarrow> int \<Rightarrow> bool" where
  "isCompartmentLeaseHeld sid db holderId now =
     (case db sid of Some old \<Rightarrow> cl_holder_id old = holderId \<and> now < cl_expires_at old | None \<Rightarrow> False)"

definition compartment_acquire :: "string \<Rightarrow> lease_table \<Rightarrow> string \<Rightarrow> int \<Rightarrow> lease_table \<times> bool" where
  "compartment_acquire sid db h now =
     (let (db', r) = acquireCompartmentLease sid db h now in (db', r \<noteq> None))"

abbreviation compartment_step :: "string \<Rightarrow> lease_table \<Rightarrow> int \<times> lease_event \<Rightarrow> lease_table" where
  "compartment_step sid \<equiv> lease_step (compartment_acquire sid) (renewCompartmentLease sid) (releaseCompartmentLease sid)"

interpretation compartment: lease "isCompartmentLeaseHeld sid" "compartment_acquire sid"
  "renewCompartmentLease sid" "releaseCompartmentLease sid" COMPARTMENT_LEASE_TTL_MS
  for sid
  by unfold_locales
    (auto simp: isCompartmentLeaseHeld_def compartment_acquire_def acquireCompartmentLease_def
      renewCompartmentLease_def releaseCompartmentLease_def Let_def split: option.splits if_splits)

section \<open>The wrap-up marker\<close>

definition WRAPUP_IN_PROGRESS_TTL_MS :: int where "WRAPUP_IN_PROGRESS_TTL_MS = 5 * 60 * 1000"

record wrapup_state =
  ws_holderId :: string
  ws_acquiredAt :: int
  ws_expiresAt :: int
  ws_messagesToKeep :: int
  ws_anchorRawMessageCount :: int
  ws_targetEligibleEndOrdinal :: int
  ws_lastCompartmentEnd :: int
  ws_chunkIndex :: int
  ws_expectedChunks :: int
  ws_updatedAt :: int

text \<open>The column \<open>wrapup_in_progress_state\<close>, parsed; a state without a holder does not parse.\<close>

type_synonym wrapup_table = "string \<rightharpoonup> wrapup_state"

definition readRawWrapupState :: "string \<Rightarrow> wrapup_table \<Rightarrow> wrapup_state option" where
  "readRawWrapupState sid db =
     (case db sid of Some st \<Rightarrow> if ws_holderId st = [] then None else Some st | None \<Rightarrow> None)"

text \<open>\<open>locked\<close> says that the cleaning transaction could begin.\<close>

definition getWrapupInProgressState :: "string \<Rightarrow> wrapup_table \<Rightarrow> int \<Rightarrow> bool \<Rightarrow> wrapup_table \<times> wrapup_state option" where
  "getWrapupInProgressState sid db now locked =
     (case readRawWrapupState sid db of
        None \<Rightarrow> (db, None)
      | Some st \<Rightarrow> if now < ws_expiresAt st then (db, Some st)
          else if locked then (db(sid := None), None) else (db, None))"

definition acquireWrapupInProgress :: "string \<Rightarrow> wrapup_table \<Rightarrow> wrapup_state \<Rightarrow> int \<Rightarrow> wrapup_table \<times> (wrapup_state + wrapup_state)" where
  "acquireWrapupInProgress sid db state now =
     (let next_state = state\<lparr>ws_acquiredAt := now, ws_expiresAt := now + WRAPUP_IN_PROGRESS_TTL_MS, ws_updatedAt := now\<rparr>
      in case readRawWrapupState sid db of
           Some current \<Rightarrow>
             if now < ws_expiresAt current \<and> ws_holderId current \<noteq> ws_holderId state then (db, Inl current)
             else (db(sid \<mapsto> next_state), Inr next_state)
         | None \<Rightarrow> (db(sid \<mapsto> next_state), Inr next_state))"

text \<open>The partial updates are a function on the state that leaves the holder and acquisition time alone.\<close>

definition updateWrapupInProgress ::
  "string \<Rightarrow> wrapup_table \<Rightarrow> string \<Rightarrow> (wrapup_state \<Rightarrow> wrapup_state) \<Rightarrow> int \<Rightarrow> wrapup_table \<times> wrapup_state option" where
  "updateWrapupInProgress sid db holderId updates now =
     (case readRawWrapupState sid db of
        None \<Rightarrow> (db, None)
      | Some current \<Rightarrow>
          if ws_holderId current \<noteq> holderId \<or> ws_expiresAt current \<le> now then (db, None)
          else let next_state = (updates current)\<lparr>ws_holderId := holderId, ws_acquiredAt := ws_acquiredAt current,
                                   ws_expiresAt := now + WRAPUP_IN_PROGRESS_TTL_MS, ws_updatedAt := now\<rparr>
               in (db(sid \<mapsto> next_state), Some next_state))"

definition releaseWrapupInProgress :: "string \<Rightarrow> wrapup_table \<Rightarrow> string \<Rightarrow> wrapup_table" where
  "releaseWrapupInProgress sid db holderId =
     (case readRawWrapupState sid db of
        Some current \<Rightarrow> if ws_holderId current = holderId then db(sid := None) else db
      | None \<Rightarrow> db)"

definition wrapup_held :: "string \<Rightarrow> wrapup_table \<Rightarrow> string \<Rightarrow> int \<Rightarrow> bool" where
  "wrapup_held sid db h now =
     (case readRawWrapupState sid db of Some st \<Rightarrow> ws_holderId st = h \<and> now < ws_expiresAt st | None \<Rightarrow> False)"

definition wrapup_acquire :: "string \<Rightarrow> wrapup_state \<Rightarrow> wrapup_table \<Rightarrow> string \<Rightarrow> int \<Rightarrow> wrapup_table \<times> bool" where
  "wrapup_acquire sid state db h now =
     (let (db', r) = acquireWrapupInProgress sid db (state\<lparr>ws_holderId := h\<rparr>) now in (db', \<not> isl r))"

definition wrapup_renew :: "string \<Rightarrow> (wrapup_state \<Rightarrow> wrapup_state) \<Rightarrow> wrapup_table \<Rightarrow> string \<Rightarrow> int \<Rightarrow> wrapup_table \<times> bool" where
  "wrapup_renew sid updates db h now =
     (let (db', r) = updateWrapupInProgress sid db h updates now in (db', r \<noteq> None))"

lemma wrapup_held_simps [simp]:
  "wrapup_held sid (db(sid \<mapsto> st)) h t \<longleftrightarrow> ws_holderId st \<noteq> [] \<and> ws_holderId st = h \<and> t < ws_expiresAt st"
  "\<not> wrapup_held sid (db(sid := None)) h t"
  by (auto simp: wrapup_held_def readRawWrapupState_def)

lemma wrapup_heldE:
  assumes "wrapup_held sid db h t"
  obtains st where "db sid = Some st" "ws_holderId st = h" "h \<noteq> []" "t < ws_expiresAt st"
  using assms by (auto simp: wrapup_held_def readRawWrapupState_def split: option.splits if_splits)

lemma wrapup_acquire_eq:
  "wrapup_acquire sid st db h now =
     (if \<exists>h'. h' \<noteq> h \<and> wrapup_held sid db h' now then (db, False)
      else (db(sid \<mapsto> st\<lparr>ws_holderId := h, ws_acquiredAt := now,
                ws_expiresAt := now + WRAPUP_IN_PROGRESS_TTL_MS, ws_updatedAt := now\<rparr>), True))"
  by (simp add: wrapup_acquire_def acquireWrapupInProgress_def wrapup_held_def Let_def
      split: option.splits)

lemma wrapup_renew_eq:
  "wrapup_renew sid updates db h now =
     (if wrapup_held sid db h now then
        (db(sid \<mapsto> (updates (the (db sid)))\<lparr>ws_holderId := h, ws_acquiredAt := ws_acquiredAt (the (db sid)),
              ws_expiresAt := now + WRAPUP_IN_PROGRESS_TTL_MS, ws_updatedAt := now\<rparr>), True)
      else (db, False))"
  by (simp add: wrapup_renew_def updateWrapupInProgress_def wrapup_held_def readRawWrapupState_def Let_def
      split: option.splits)

interpretation wrapup_marker: lease "wrapup_held sid" "wrapup_acquire sid state" "wrapup_renew sid updates"
  "releaseWrapupInProgress sid" WRAPUP_IN_PROGRESS_TTL_MS
  for sid state updates
proof (unfold_locales, goal_cases)
  case (1 db h t h') then show ?case by (auto elim!: wrapup_heldE)
next
  case (2 db h t s) then show ?case by (auto simp: wrapup_held_def split: option.splits)
next
  case (3 db h t h') then show ?case by (auto simp: wrapup_acquire_eq)
next
  case (4 h db t s) then show ?case by (auto simp: wrapup_acquire_eq)
next
  case (5 db h t h') then show ?case by (auto simp: wrapup_renew_eq elim!: wrapup_heldE)
next
  case (6 db h t s) then show ?case by (auto simp: wrapup_renew_eq elim!: wrapup_heldE)
next
  case (7 db h t h')
  then have "releaseWrapupInProgress sid db h' = db"
    by (auto simp: releaseWrapupInProgress_def readRawWrapupState_def elim!: wrapup_heldE)
  with 7 show ?case by simp
next
  case (8 db h t) then show ?case
    by (auto simp: releaseWrapupInProgress_def wrapup_held_def readRawWrapupState_def split: option.splits)
qed

section \<open>Numbers as stored text\<close>

text \<open>\<open>Number(text)\<close> on decimal integers, the only text this program stores; other text has no value here.\<close>

definition stored_number :: "string \<Rightarrow> int option" where
  "stored_number s = (if all_digits s then Some (digits_value s)
     else case s of [] \<Rightarrow> None | c # r \<Rightarrow> if c = CHR ''-'' \<and> all_digits r then Some (- digits_value r) else None)"

lemma stored_number_show [simp]: "stored_number (show_int n) = Some n"
proof (cases "n < 0")
  case True
  have "\<not> is_digit (CHR ''-'')" by (simp add: is_digit_def)
  with True show ?thesis
    by (simp add: stored_number_def show_int_def show_base_digits digits_value_show) (simp add: all_digits_def)
next
  case False
  then show ?thesis by (simp add: stored_number_def show_int_def show_base_digits digits_value_show)
qed

section \<open>The dream lease\<close>

type_synonym dream_state = "string \<rightharpoonup> string"

definition LEASE_DURATION_MS :: int where "LEASE_DURATION_MS = 2 * 60 * 1000"
definition DREAMING_LEASE_KEY :: string where "DREAMING_LEASE_KEY = ''dreaming''"

definition getDreamState :: "dream_state \<Rightarrow> string \<Rightarrow> string option" where
  "getDreamState db key = db key"

definition setDreamState :: "string \<Rightarrow> string \<Rightarrow> dream_state \<Rightarrow> dream_state" where
  "setDreamState key v db = db(key \<mapsto> v)"

definition deleteDreamState :: "string \<Rightarrow> dream_state \<Rightarrow> dream_state" where
  "deleteDreamState key db = db(key := None)"

record lease_row_keys =
  rk_holder :: string
  rk_heartbeat :: string
  rk_expiry :: string
  rk_generation :: string

definition rowKeys :: "string \<Rightarrow> lease_row_keys" where
  "rowKeys leaseKey =
     (if leaseKey = DREAMING_LEASE_KEY then
        \<lparr>rk_holder = ''dreaming_lease_holder'', rk_heartbeat = ''dreaming_lease_heartbeat'',
         rk_expiry = ''dreaming_lease_expiry'', rk_generation = ''dreaming_lease_generation''\<rparr>
      else
        \<lparr>rk_holder = ''lease:'' @ leaseKey @ '':holder'', rk_heartbeat = ''lease:'' @ leaseKey @ '':heartbeat'',
         rk_expiry = ''lease:'' @ leaseKey @ '':expiry'', rk_generation = ''lease:'' @ leaseKey @ '':generation''\<rparr>)"

definition getLeaseExpiry :: "dream_state \<Rightarrow> lease_row_keys \<Rightarrow> int option" where
  "getLeaseExpiry db keys =
     (case getDreamState db (rk_expiry keys) of Some v \<Rightarrow> stored_number v | None \<Rightarrow> None)"

definition isLeaseActive :: "dream_state \<Rightarrow> string \<Rightarrow> int \<Rightarrow> bool" where
  "isLeaseActive db leaseKey now =
     (case getLeaseExpiry db (rowKeys leaseKey) of Some expiry \<Rightarrow> now < expiry | None \<Rightarrow> False)"

definition getLeaseHolder :: "dream_state \<Rightarrow> string \<Rightarrow> string option" where
  "getLeaseHolder db leaseKey = getDreamState db (rk_holder (rowKeys leaseKey))"

definition getLeaseGeneration :: "dream_state \<Rightarrow> string \<Rightarrow> int option" where
  "getLeaseGeneration db leaseKey =
     (case getDreamState db (rk_generation (rowKeys leaseKey)) of
        None \<Rightarrow> None
      | Some v \<Rightarrow> (case stored_number v of
                     Some g \<Rightarrow> if g \<le> MAX_SAFE_INTEGER \<and> 0 < g then Some g else None
                   | None \<Rightarrow> None))"

definition peekLeaseHolderAndExpiry :: "dream_state \<Rightarrow> string \<Rightarrow> string \<Rightarrow> int \<Rightarrow> bool" where
  "peekLeaseHolderAndExpiry db expectedHolder leaseKey now =
     (getDreamState db (rk_holder (rowKeys leaseKey)) = Some expectedHolder \<and>
      (case getLeaseExpiry db (rowKeys leaseKey) of Some expiry \<Rightarrow> now \<le> expiry | None \<Rightarrow> False))"

definition leaseOwnershipMatches :: "dream_state \<Rightarrow> string \<Rightarrow> int \<Rightarrow> string \<Rightarrow> int \<Rightarrow> bool" where
  "leaseOwnershipMatches db expectedHolder expectedGeneration leaseKey now =
     (getLeaseGeneration db leaseKey = Some expectedGeneration \<and> peekLeaseHolderAndExpiry db expectedHolder leaseKey now)"

definition acquireLeaseWithAcquisition ::
  "string \<Rightarrow> dream_state \<Rightarrow> string \<Rightarrow> int \<Rightarrow> dream_state \<times> (int \<times> int) option" where
  "acquireLeaseWithAcquisition leaseKey db holderId now =
     (let keys = rowKeys leaseKey; existingHolder = getLeaseHolder db leaseKey
      in if isLeaseActive db leaseKey now \<and> (case existingHolder of Some h \<Rightarrow> h \<noteq> [] \<and> h \<noteq> holderId | None \<Rightarrow> False)
         then (db, None)
         else
           let priorGeneration = (case getLeaseGeneration db leaseKey of Some g \<Rightarrow> g | None \<Rightarrow> 0);
               generation = (if existingHolder = Some holderId then max 1 priorGeneration else priorGeneration + 1)
           in (setDreamState (rk_generation keys) (show_int generation)
                 (setDreamState (rk_expiry keys) (show_int (now + LEASE_DURATION_MS))
                   (setDreamState (rk_heartbeat keys) (show_int now)
                     (setDreamState (rk_holder keys) holderId db))),
               Some (now, generation)))"

definition acquireLease :: "string \<Rightarrow> dream_state \<Rightarrow> string \<Rightarrow> int \<Rightarrow> dream_state \<times> bool" where
  "acquireLease leaseKey db holderId now =
     (let (db', r) = acquireLeaseWithAcquisition leaseKey db holderId now in (db', r \<noteq> None))"

definition renewLease :: "string \<Rightarrow> int option \<Rightarrow> dream_state \<Rightarrow> string \<Rightarrow> int \<Rightarrow> dream_state \<times> bool" where
  "renewLease leaseKey expectedGeneration db holderId now =
     (if getLeaseHolder db leaseKey \<noteq> Some holderId \<or> \<not> isLeaseActive db leaseKey now
         \<or> (expectedGeneration \<noteq> None \<and> getLeaseGeneration db leaseKey \<noteq> expectedGeneration)
      then (db, False)
      else (setDreamState (rk_expiry (rowKeys leaseKey)) (show_int (now + LEASE_DURATION_MS))
              (setDreamState (rk_heartbeat (rowKeys leaseKey)) (show_int now) db), True))"

definition releaseLease :: "string \<Rightarrow> dream_state \<Rightarrow> string \<Rightarrow> dream_state" where
  "releaseLease leaseKey db holderId =
     (if getLeaseHolder db leaseKey \<noteq> Some holderId then db
      else deleteDreamState (rk_expiry (rowKeys leaseKey))
             (deleteDreamState (rk_heartbeat (rowKeys leaseKey))
               (deleteDreamState (rk_holder (rowKeys leaseKey)) db)))"

text \<open>A write guarded by the lease: \<open>Inl\<close> is the thrown error, and the state is untouched.\<close>

definition runLeaseGuardedWrite ::
  "dream_state \<Rightarrow> string \<Rightarrow> string \<Rightarrow> int option \<Rightarrow> int \<Rightarrow> (dream_state \<Rightarrow> dream_state \<times> 'a) \<Rightarrow> dream_state \<times> (string + 'a)" where
  "runLeaseGuardedWrite db holderId leaseKey expectedGeneration now write =
     (if \<not> peekLeaseHolderAndExpiry db holderId leaseKey now
         \<or> (expectedGeneration \<noteq> None \<and> getLeaseGeneration db leaseKey \<noteq> expectedGeneration)
      then (db, Inl ''Dream lease lost before guarded write'')
      else let (db', v) = write db in (db', Inr v))"

definition dream_held :: "string \<Rightarrow> dream_state \<Rightarrow> string \<Rightarrow> int \<Rightarrow> bool" where
  "dream_held leaseKey db h now \<longleftrightarrow> h \<noteq> [] \<and> getLeaseHolder db leaseKey = Some h \<and> isLeaseActive db leaseKey now"

text \<open>The four rows of a lease never coincide, nor do the rows of two leases.\<close>

lemma row_keys_distinct:
  "distinct [rk_holder (rowKeys k), rk_heartbeat (rowKeys k), rk_expiry (rowKeys k), rk_generation (rowKeys k)]"
  by (simp add: rowKeys_def)

lemma row_keys_distinct' [simp]:
  "rk_holder (rowKeys k) \<noteq> rk_heartbeat (rowKeys k)" "rk_holder (rowKeys k) \<noteq> rk_expiry (rowKeys k)"
  "rk_holder (rowKeys k) \<noteq> rk_generation (rowKeys k)" "rk_heartbeat (rowKeys k) \<noteq> rk_expiry (rowKeys k)"
  "rk_heartbeat (rowKeys k) \<noteq> rk_generation (rowKeys k)" "rk_expiry (rowKeys k) \<noteq> rk_generation (rowKeys k)"
  "rk_heartbeat (rowKeys k) \<noteq> rk_holder (rowKeys k)" "rk_expiry (rowKeys k) \<noteq> rk_holder (rowKeys k)"
  "rk_generation (rowKeys k) \<noteq> rk_holder (rowKeys k)" "rk_expiry (rowKeys k) \<noteq> rk_heartbeat (rowKeys k)"
  "rk_generation (rowKeys k) \<noteq> rk_heartbeat (rowKeys k)" "rk_generation (rowKeys k) \<noteq> rk_expiry (rowKeys k)"
  using row_keys_distinct [of k] by auto

lemmas dream_row_defs = getDreamState_def setDreamState_def deleteDreamState_def getLeaseHolder_def
  getLeaseExpiry_def isLeaseActive_def getLeaseGeneration_def

interpretation dream: lease "dream_held leaseKey" "acquireLease leaseKey" "renewLease leaseKey None"
  "releaseLease leaseKey" LEASE_DURATION_MS
  for leaseKey
proof (unfold_locales, goal_cases)
  case (1 db h t h') then show ?case by (auto simp: dream_held_def)
next
  case (2 db h t s) then show ?case by (auto simp: dream_held_def isLeaseActive_def split: option.splits)
next
  case (3 db h t h') then show ?case
    by (auto simp: dream_held_def acquireLease_def acquireLeaseWithAcquisition_def Let_def)
next
  case (4 h db t s)
  then have free: "\<not> (isLeaseActive db leaseKey t \<and> (case getLeaseHolder db leaseKey of Some h' \<Rightarrow> h' \<noteq> [] \<and> h' \<noteq> h | None \<Rightarrow> False))"
    by (auto simp: dream_held_def split: option.splits)
  show ?case
    unfolding acquireLease_def acquireLeaseWithAcquisition_def Let_def if_not_P [OF free]
    using 4(1,3) by (simp add: dream_held_def dream_row_defs)
next
  case (5 db h t h') then show ?case by (auto simp: dream_held_def renewLease_def)
next
  case (6 db h t s) then show ?case
    by (auto simp: dream_held_def renewLease_def dream_row_defs)
next
  case (7 db h t h') then show ?case by (auto simp: dream_held_def releaseLease_def)
next
  case (8 db h t) then show ?case
    by (auto simp: dream_held_def releaseLease_def dream_row_defs)
qed

section \<open>The generation of the dream lease\<close>

text \<open>Every change of holder raises the generation; no operation lowers it.\<close>

definition generation_of :: "string \<Rightarrow> dream_state \<Rightarrow> int" where
  "generation_of leaseKey db = (case getLeaseGeneration db leaseKey of Some g \<Rightarrow> g | None \<Rightarrow> 0)"

fun dream_step :: "string \<Rightarrow> dream_state \<Rightarrow> int \<times> lease_event \<Rightarrow> dream_state" where
  "dream_step leaseKey db (t, Acquire h) = fst (acquireLease leaseKey db h t)"
| "dream_step leaseKey db (t, Renew h) = fst (renewLease leaseKey None db h t)"
| "dream_step leaseKey db (t, Release h) = releaseLease leaseKey db h"

lemma generation_of_acquire:
  assumes "snd (acquireLease leaseKey db h t)" "generation_of leaseKey db < MAX_SAFE_INTEGER"
  shows "generation_of leaseKey (fst (acquireLease leaseKey db h t)) =
    (if getLeaseHolder db leaseKey = Some h then max 1 (generation_of leaseKey db) else generation_of leaseKey db + 1)"
proof -
  have "0 \<le> generation_of leaseKey db"
    by (auto simp: generation_of_def getLeaseGeneration_def split: option.splits)
  with assms show ?thesis
    by (auto simp: acquireLease_def acquireLeaseWithAcquisition_def Let_def generation_of_def [symmetric]
        split: if_splits)
      (auto simp: generation_of_def dream_row_defs MAX_SAFE_INTEGER_def)
qed

lemma generation_of_renew: "generation_of leaseKey (fst (renewLease leaseKey e db h t)) = generation_of leaseKey db"
  by (simp add: renewLease_def generation_of_def dream_row_defs)

lemma generation_of_release: "generation_of leaseKey (releaseLease leaseKey db h) = generation_of leaseKey db"
  by (simp add: releaseLease_def generation_of_def dream_row_defs)

lemma generation_step:
  assumes "generation_of k db < MAX_SAFE_INTEGER"
  shows "generation_of k db \<le> generation_of k (dream_step k db e)"
    and "generation_of k (dream_step k db e) \<le> generation_of k db + 1"
proof -
  have nn: "0 \<le> generation_of k db"
    by (auto simp: generation_of_def getLeaseGeneration_def split: option.splits)
  obtain t ev where e: "e = (t, ev)" by (cases e)
  have acq: "\<not> snd (acquireLease k db h t) \<Longrightarrow> fst (acquireLease k db h t) = db" for h
    by (auto simp: acquireLease_def acquireLeaseWithAcquisition_def Let_def split: if_splits)
  have "generation_of k db \<le> generation_of k (dream_step k db e) \<and>
      generation_of k (dream_step k db e) \<le> generation_of k db + 1"
  proof (cases ev)
    case (Acquire h)
    then show ?thesis
      using nn generation_of_acquire [OF _ assms, of h t] acq [of h] by (cases "snd (acquireLease k db h t)") (auto simp: e)
  qed (auto simp: e generation_of_renew generation_of_release)
  then show "generation_of k db \<le> generation_of k (dream_step k db e)"
    "generation_of k (dream_step k db e) \<le> generation_of k db + 1" by auto
qed

lemma generation_run:
  assumes "generation_of k db + int (length es) < MAX_SAFE_INTEGER"
  shows "generation_of k db \<le> generation_of k (foldl (dream_step k) db es)"
  using assms
proof (induction es arbitrary: db)
  case (Cons e es)
  then have "generation_of k db < MAX_SAFE_INTEGER" by simp
  note s = generation_step [OF this, of e]
  from s(2) Cons.prems have "generation_of k (dream_step k db e) + int (length es) < MAX_SAFE_INTEGER" by simp
  from Cons.IH [OF this] s(1) show ?case by simp
qed simp

section \<open>The heartbeat\<close>

record heartbeat =
  hb_lost :: bool
  hb_expectedGeneration :: "int option"
  hb_lastConfirmedAt :: int

text \<open>One beat; \<open>contended\<close> says that the renewal threw because the database was busy.\<close>

definition heartbeat_beat ::
  "string \<Rightarrow> string \<Rightarrow> int \<Rightarrow> bool \<Rightarrow> dream_state \<times> heartbeat \<Rightarrow> dream_state \<times> heartbeat" where
  "heartbeat_beat leaseKey holderId now contended st =
     (let (db, hb) = st
      in if hb_lost hb then st
         else if contended then
           (db, if LEASE_DURATION_MS < now - hb_lastConfirmedAt hb then hb\<lparr>hb_lost := True\<rparr> else hb)
         else
           let (db1, renewed) = renewLease leaseKey (hb_expectedGeneration hb) db holderId now
           in if renewed then (db1, hb\<lparr>hb_lastConfirmedAt := now\<rparr>)
              else if hb_expectedGeneration hb \<noteq> None \<and> getLeaseGeneration db leaseKey \<noteq> hb_expectedGeneration hb
                then (db, hb\<lparr>hb_lost := True\<rparr>)
              else if LEASE_DURATION_MS < now - hb_lastConfirmedAt hb then (db, hb\<lparr>hb_lost := True\<rparr>)
              else (case acquireLeaseWithAcquisition leaseKey db holderId now of
                      (db2, Some (_, g)) \<Rightarrow>
                        if hb_expectedGeneration hb \<noteq> None \<and> hb_expectedGeneration hb \<noteq> Some g
                        then (db2, hb\<lparr>hb_lost := True\<rparr>)
                        else (db2, hb\<lparr>hb_expectedGeneration := Some g, hb_lastConfirmedAt := now\<rparr>)
                    | (db2, None) \<Rightarrow> (db2, hb\<lparr>hb_lost := True\<rparr>)))"

lemma renew_success:
  assumes "snd (renewLease k e db h t)" "h \<noteq> []" "s < t + LEASE_DURATION_MS"
  shows "dream_held k (fst (renewLease k e db h t)) h s"
  using assms by (auto simp: renewLease_def dream_held_def dream_row_defs split: if_splits)

lemma acquire_success:
  assumes "acquireLeaseWithAcquisition k db h t = (db', Some r)" "h \<noteq> []" "s < t + LEASE_DURATION_MS"
  shows "dream_held k db' h s"
  using assms by (auto simp: acquireLeaseWithAcquisition_def Let_def dream_held_def dream_row_defs split: if_splits)

section \<open>Properties\<close>

text \<open>
  C13: A compartment lease is exclusive: while its holder has it, no sequence of acquisitions, renewals
  and releases by others before its expiry ends it, and every attempt of another to acquire it fails.
\<close>

theorem compartment_lease_is_exclusive:
  assumes "isCompartmentLeaseHeld sid db h e"
    and "\<forall>(t, ev)\<in>set evs. t \<le> e \<and> event_holder ev \<noteq> h" and "h' \<noteq> h" "t \<le> e"
  shows "isCompartmentLeaseHeld sid (foldl (compartment_step sid) db evs) h e
     \<and> snd (acquireCompartmentLease sid (foldl (compartment_step sid) db evs) h' t) = None"
  using compartment.others_cannot_end [OF assms(1,2)] compartment.others_cannot_acquire [OF assms]
  by (simp add: compartment_acquire_def split_beta)

theorem compartment_lease_is_exclusive_witness:
  "let db = fst (acquireCompartmentLease ''s'' Map.empty ''a'' 0);
       db' = foldl (compartment_step ''s'') db [(5, Acquire ''b''), (6, Release ''b'')]
   in isCompartmentLeaseHeld ''s'' db' ''a'' 299999 \<and> snd (acquireCompartmentLease ''s'' db' ''b'' 299999) = None"
  unfolding Let_def
  by (rule compartment_lease_is_exclusive)
    (simp_all add: isCompartmentLeaseHeld_def acquireCompartmentLease_def Let_def COMPARTMENT_LEASE_TTL_MS_def event_holder_def)

text \<open>
  C14: The generation fences a dream task that has lost its lease: once another holder has acquired
  it, no guarded write of the old holder with its generation is ever let through again, whatever
  happens to the lease afterwards.
\<close>

theorem superseded_holder_is_fenced:
  assumes "getLeaseHolder db k = Some h" "generation_of k db = g" "h' \<noteq> h"
    and "snd (acquireLease k db h' t)" "g + 1 + int (length es) < MAX_SAFE_INTEGER"
  shows "runLeaseGuardedWrite (foldl (dream_step k) (fst (acquireLease k db h' t)) es) h k (Some g) t' write
     = (foldl (dream_step k) (fst (acquireLease k db h' t)) es, Inl ''Dream lease lost before guarded write'')"
proof -
  have "generation_of k (fst (acquireLease k db h' t)) = g + 1"
    using generation_of_acquire [OF assms(4)] assms(1-3,5) by auto
  with assms(5) have "g + 1 \<le> generation_of k (foldl (dream_step k) (fst (acquireLease k db h' t)) es)"
    using generation_run [of k "fst (acquireLease k db h' t)" es] by simp
  then have "getLeaseGeneration (foldl (dream_step k) (fst (acquireLease k db h' t)) es) k \<noteq> Some g"
    by (auto simp: generation_of_def)
  then show ?thesis by (simp add: runLeaseGuardedWrite_def)
qed

theorem superseded_holder_is_fenced_witness:
  "let db = fst (acquireLease ''k'' Map.empty ''a'' 0); db' = fst (acquireLease ''k'' db ''b'' 500000)
   in runLeaseGuardedWrite db' ''a'' ''k'' (Some 1) 600000 (\<lambda>db. (db, ()))
      = (db', Inl ''Dream lease lost before guarded write'')"
proof -
  let ?db = "fst (acquireLease ''k'' Map.empty ''a'' 0)"
  have "getLeaseHolder ?db ''k'' = Some ''a''" "generation_of ''k'' ?db = 1"
    "snd (acquireLease ''k'' ?db ''b'' 500000)"
    by (simp_all add: acquireLease_def acquireLeaseWithAcquisition_def Let_def generation_of_def dream_row_defs
        MAX_SAFE_INTEGER_def LEASE_DURATION_MS_def)
  then show ?thesis
    using superseded_holder_is_fenced [of ?db "''k''" "''a''" 1 "''b''" 500000 "[]" 600000 "\<lambda>db. (db, ())"]
    by (simp add: MAX_SAFE_INTEGER_def)
qed

text \<open>
  A heartbeat that a beat leaves alive holds the lease: after a beat that reached the database
  without declaring the lease lost, the holder has it for the full duration from the time of the beat.
\<close>

theorem live_heartbeat_holds_lease:
  assumes "heartbeat_beat k h now False (db, hb) = (db', hb')" "\<not> hb_lost hb'" "h \<noteq> []" "s < now + LEASE_DURATION_MS"
  shows "dream_held k db' h s \<and> hb_lastConfirmedAt hb' = now"
proof (cases "snd (renewLease k (hb_expectedGeneration hb) db h now)")
  case True
  with assms renew_success [OF True assms(3,4)] show ?thesis
    by (auto simp: heartbeat_beat_def Let_def split_beta split: if_splits)
next
  case False
  obtain db2 r where acq: "acquireLeaseWithAcquisition k db h now = (db2, r)"
    by (cases "acquireLeaseWithAcquisition k db h now")
  with assms False show ?thesis
    using acquire_success [of k db h now db2 _ s]
    by (cases r) (auto simp: heartbeat_beat_def Let_def split_beta split: if_splits)
qed

theorem live_heartbeat_holds_lease_witness:
  "dream_held ''k'' (fst (heartbeat_beat ''k'' ''a'' 9 False
      (Map.empty, \<lparr>hb_lost = False, hb_expectedGeneration = None, hb_lastConfirmedAt = 0\<rparr>))) ''a'' 120008"
proof -
  let ?st = "(Map.empty, \<lparr>hb_lost = False, hb_expectedGeneration = None, hb_lastConfirmedAt = 0\<rparr>)"
  have "\<not> hb_lost (snd (heartbeat_beat ''k'' ''a'' 9 False ?st))"
    by (simp add: heartbeat_beat_def renewLease_def acquireLeaseWithAcquisition_def Let_def dream_row_defs LEASE_DURATION_MS_def)
  then show ?thesis
    using live_heartbeat_holds_lease [of "''k''" "''a''" 9 Map.empty "snd ?st" "fst (heartbeat_beat ''k'' ''a'' 9 False ?st)"
        "snd (heartbeat_beat ''k'' ''a'' 9 False ?st)" 120008]
    by (simp add: LEASE_DURATION_MS_def)
qed

end
