(* ===== verification/Historian_Validation.thy ===== *)
theory Historian_Validation
  imports Tool_Arcs
begin

text \<open>
  What a historian pass must satisfy before its compartments are stored
  (\<open>hooks/magic-context/compartment-runner-validation.ts\<close>, \<open>compartment-runner-mapping.ts\<close>): healing of
  gaps and of the terminal tool arc, the mapping to raw lines, the range checks, and the checks on
  stored compartments and on a chunk. The parsed output of the historian is the input. Error texts are
  constructors with the numbers they print.
\<close>

section \<open>Data\<close>

record parsed_compartment =
  pc_startMessage :: int
  pc_endMessage :: int
  pc_title :: string
  pc_content :: string
  pc_p1 :: "string option"
  pc_p2 :: "string option"
  pc_p3 :: "string option"
  pc_p4 :: "string option"
  pc_importance :: "int option"
  pc_episodeType :: "string option"

record chunk_line =
  ln_ordinal :: int
  ln_messageId :: string

record historian_chunk =
  hc_startIndex :: int
  hc_endIndex :: int
  hc_lines :: "chunk_line list"
  hc_toolOnlyRanges :: "(int \<times> int) list"
  hc_completedToolArcs :: "(int \<times> int) list"

record candidate_compartment =
  cc_sequence :: int
  cc_startMessage :: int
  cc_endMessage :: int
  cc_startMessageId :: string
  cc_endMessageId :: string
  cc_parsed :: parsed_compartment

datatype range_error =
    Overlap int int int
  | Gap int int
  | InvalidRange int int
  | OutsideChunk int int int int
  | MissingTiers nat
  | UnprocessedOutside int int int
  | UnprocessedMismatch int int
  | Uncovered int int
  | Unmapped int int int int
  | NoCompartments
  | SplitsToolArc

section \<open>Healing\<close>

text \<open>A gap that lies inside a range of tool calls is given to the compartment before it.\<close>

fun heal_gaps_from :: "(int \<times> int) list \<Rightarrow> parsed_compartment \<Rightarrow> parsed_compartment list \<Rightarrow> parsed_compartment list" where
  "heal_gaps_from toolOnly p [] = [p]"
| "heal_gaps_from toolOnly p (c # rest) =
     (let gapStart = pc_endMessage p + 1; gapEnd = pc_startMessage c - 1;
          heal = (0 < gapEnd - gapStart + 1 \<and> list_ex (\<lambda>(s, e). s \<le> gapStart \<and> gapEnd \<le> e) toolOnly)
      in (if heal then p\<lparr>pc_endMessage := gapEnd\<rparr> else p) # heal_gaps_from toolOnly c rest)"

definition healCompartmentGaps :: "parsed_compartment list \<Rightarrow> (int \<times> int) list \<Rightarrow> parsed_compartment list" where
  "healCompartmentGaps compartments toolOnly =
     (case compartments of [] \<Rightarrow> [] | c # cs \<Rightarrow> heal_gaps_from toolOnly c cs)"

definition boundarySplitsCompletedToolArc :: "int \<Rightarrow> (int \<times> int) list \<Rightarrow> bool" where
  "boundarySplitsCompletedToolArc boundary arcs =
     list_ex (\<lambda>(s, e). completedToolArcCrossesBoundary s e boundary) arcs"

definition heal_terminal_pass :: "(int \<times> int) list \<Rightarrow> int \<Rightarrow> int \<Rightarrow> int" where
  "heal_terminal_pass arcs chunkEnd end_message =
     foldl (\<lambda>nextEnd (s, e). if e \<le> chunkEnd \<and> completedToolArcCrossesBoundary s e (end_message + 1)
                             then max nextEnd e else nextEnd) end_message arcs"

definition healTerminalCompletedToolArc ::
  "parsed_compartment list \<Rightarrow> int option \<Rightarrow> (int \<times> int) list \<Rightarrow> int \<Rightarrow> parsed_compartment list \<times> int option" where
  "healTerminalCompletedToolArc compartments unprocessedFrom arcs chunkEnd =
     (if compartments = [] then (compartments, unprocessedFrom)
      else
        let original = last compartments;
            healed = settle (length arcs + 1) (heal_terminal_pass arcs chunkEnd) (pc_endMessage original)
        in (butlast compartments @ [original\<lparr>pc_endMessage := healed\<rparr>],
            if healed \<noteq> pc_endMessage original \<and> unprocessedFrom \<noteq> None then Some (healed + 1) else unprocessedFrom))"

definition HISTORIAN_BOUNDARY_HEALING_SLACK :: int where "HISTORIAN_BOUNDARY_HEALING_SLACK = 2"

definition shouldDiscardLastHistorianCompartment :: "candidate_compartment list \<Rightarrow> historian_chunk \<Rightarrow> bool" where
  "shouldDiscardLastHistorianCompartment compartments chunk =
     (if length compartments < 2 then False
      else hc_endIndex chunk - cc_endMessage (last compartments) \<le> HISTORIAN_BOUNDARY_HEALING_SLACK \<and>
           \<not> boundarySplitsCompletedToolArc
               (cc_endMessage (compartments ! (length compartments - 2)) + 1) (hc_completedToolArcs chunk))"

section \<open>Mapping and checks\<close>

fun map_from :: "historian_chunk \<Rightarrow> int \<Rightarrow> parsed_compartment list \<Rightarrow> range_error + candidate_compartment list" where
  "map_from chunk n [] = Inr []"
| "map_from chunk n (c # cs) =
     (case (find (\<lambda>l. ln_ordinal l = pc_startMessage c) (hc_lines chunk),
            find (\<lambda>l. ln_ordinal l = pc_endMessage c) (hc_lines chunk)) of
        (Some s, Some e) \<Rightarrow>
          (case map_from chunk (n + 1) cs of
             Inl err \<Rightarrow> Inl err
           | Inr mapped \<Rightarrow>
               Inr (\<lparr>cc_sequence = n, cc_startMessage = pc_startMessage c, cc_endMessage = pc_endMessage c,
                     cc_startMessageId = ln_messageId s, cc_endMessageId = ln_messageId e, cc_parsed = c\<rparr> # mapped))
      | _ \<Rightarrow> Inl (Unmapped (pc_startMessage c) (pc_endMessage c) (hc_startIndex chunk) (hc_endIndex chunk)))"

definition mapParsedCompartmentsToChunk ::
  "parsed_compartment list \<Rightarrow> historian_chunk \<Rightarrow> int \<Rightarrow> range_error + candidate_compartment list" where
  "mapParsedCompartmentsToChunk compartments chunk sequenceOffset = map_from chunk sequenceOffset compartments"

fun stored_from :: "int \<Rightarrow> (int \<times> int) list \<Rightarrow> range_error option" where
  "stored_from expectedStart [] = None"
| "stored_from expectedStart ((s, e) # rest) =
     (if s \<noteq> expectedStart then
        (if s < expectedStart then Some (Overlap expectedStart s e) else Some (Gap s expectedStart))
      else if e < s then Some (InvalidRange s e)
      else stored_from (e + 1) rest)"

definition validateStoredCompartments :: "(int \<times> int) list \<Rightarrow> range_error option" where
  "validateStoredCompartments compartments = stored_from 1 compartments"

text \<open>The loop returns the first error, or the next message that is not covered.\<close>

fun parsed_from :: "int \<Rightarrow> int \<Rightarrow> nat \<Rightarrow> int \<Rightarrow> parsed_compartment list \<Rightarrow> range_error + int" where
  "parsed_from chunkStart chunkEnd n expectedStart [] = Inr expectedStart"
| "parsed_from chunkStart chunkEnd n expectedStart (c # rest) =
     (let s = pc_startMessage c; e = pc_endMessage c
      in if (case pc_p1 c of None \<Rightarrow> True | Some p \<Rightarrow> js_trim p = []) then Inl (MissingTiers (n + 1))
         else if e < s then Inl (InvalidRange s e)
         else if s < chunkStart \<or> chunkEnd < e then Inl (OutsideChunk s e chunkStart chunkEnd)
         else if s \<noteq> expectedStart then
           (if s < expectedStart then Inl (Overlap expectedStart s e) else Inl (Gap s expectedStart))
         else parsed_from chunkStart chunkEnd (n + 1) (e + 1) rest)"

definition validateParsedCompartments ::
  "parsed_compartment list \<Rightarrow> int \<Rightarrow> int \<Rightarrow> int option \<Rightarrow> range_error option" where
  "validateParsedCompartments compartments chunkStart chunkEnd unprocessedFrom =
     (case parsed_from chunkStart chunkEnd 0 chunkStart compartments of
        Inl err \<Rightarrow> Some err
      | Inr expectedStart \<Rightarrow>
          (case unprocessedFrom of
             Some u \<Rightarrow>
               if u = chunkEnd + 1 then None
               else if u < chunkStart \<or> chunkEnd < u then Some (UnprocessedOutside u chunkStart chunkEnd)
               else if u \<noteq> expectedStart then Some (UnprocessedMismatch u expectedStart)
               else None
           | None \<Rightarrow> if expectedStart \<le> chunkEnd then Some (Uncovered expectedStart chunkEnd) else None))"

definition validateHistorianOutput ::
  "parsed_compartment list \<Rightarrow> int option \<Rightarrow> historian_chunk \<Rightarrow> int \<Rightarrow> range_error + candidate_compartment list" where
  "validateHistorianOutput parsed unprocessedFrom chunk sequenceOffset =
     (if parsed = [] then Inl NoCompartments
      else
        let (healed, u) = healTerminalCompletedToolArc (healCompartmentGaps parsed (hc_toolOnlyRanges chunk))
                            unprocessedFrom (hc_completedToolArcs chunk) (hc_endIndex chunk)
        in case mapParsedCompartmentsToChunk healed chunk sequenceOffset of
             Inl err \<Rightarrow> Inl err
           | Inr mapped \<Rightarrow>
               (case validateParsedCompartments healed (hc_startIndex chunk) (hc_endIndex chunk) u of
                  Some err \<Rightarrow> Inl err
                | None \<Rightarrow>
                    if boundarySplitsCompletedToolArc (pc_endMessage (last healed) + 1) (hc_completedToolArcs chunk)
                    then Inl SplitsToolArc else Inr mapped))"

fun coverage_from :: "int \<Rightarrow> int \<Rightarrow> chunk_line list \<Rightarrow> (int \<times> int) option" where
  "coverage_from chunkEnd expectedOrdinal [] =
     (if expectedOrdinal - 1 \<noteq> chunkEnd then Some (expectedOrdinal - 1, chunkEnd) else None)"
| "coverage_from chunkEnd expectedOrdinal (l # ls) =
     (if ln_ordinal l \<noteq> expectedOrdinal then Some (expectedOrdinal, chunkEnd)
      else coverage_from chunkEnd (expectedOrdinal + 1) ls)"

definition validateChunkCoverage :: "historian_chunk \<Rightarrow> (int \<times> int) option" where
  "validateChunkCoverage chunk =
     (if hc_lines chunk = [] then None else coverage_from (hc_endIndex chunk) (hc_startIndex chunk) (hc_lines chunk))"

definition MIN_RECOMP_CHUNK_TOKEN_BUDGET :: int where "MIN_RECOMP_CHUNK_TOKEN_BUDGET = 20"

definition getReducedRecompTokenBudget :: "int \<Rightarrow> int option" where
  "getReducedRecompTokenBudget currentBudget =
     (let reduced = max MIN_RECOMP_CHUNK_TOKEN_BUDGET (currentBudget div 2)
      in if reduced < currentBudget then Some reduced else None)"

definition HISTORIAN_PERSISTENT_FAILURE_THRESHOLD :: int where "HISTORIAN_PERSISTENT_FAILURE_THRESHOLD = 3"

section \<open>Tilings\<close>

text \<open>The ranges tile the messages from \<open>a\<close> up to, not including, \<open>b\<close>.\<close>

fun tiles :: "int \<Rightarrow> int \<Rightarrow> (int \<times> int) list \<Rightarrow> bool" where
  "tiles a b [] = (a = b)"
| "tiles a b ((s, e) # rest) = (s = a \<and> s \<le> e \<and> tiles (e + 1) b rest)"

lemma tiles_append: "tiles a b xs \<Longrightarrow> tiles b c ys \<Longrightarrow> tiles a c (xs @ ys)"
  by (induction a b xs rule: tiles.induct) auto

lemma tiles_butlast: "tiles a b xs \<Longrightarrow> \<exists>c. tiles a c (butlast xs)"
  by (induction a b xs rule: tiles.induct) auto

lemma tiles_end: "tiles a b xs \<Longrightarrow> b = (if xs = [] then a else snd (last xs) + 1)"
  by (induction a b xs rule: tiles.induct) auto

lemma stored_from_tiles: "stored_from a rs = None \<longleftrightarrow> (\<exists>b. tiles a b rs)"
  by (induction a rs rule: stored_from.induct) auto

definition candidate_range :: "candidate_compartment \<Rightarrow> int \<times> int" where
  "candidate_range c = (cc_startMessage c, cc_endMessage c)"

definition parsed_range :: "parsed_compartment \<Rightarrow> int \<times> int" where
  "parsed_range c = (pc_startMessage c, pc_endMessage c)"

lemma parsed_from_tiles:
  "parsed_from cs ce n a xs = Inr b \<Longrightarrow>
   tiles a b (map parsed_range xs) \<and> (\<forall>x\<in>set xs. cs \<le> pc_startMessage x \<and> pc_endMessage x \<le> ce)"
  by (induction cs ce n a xs rule: parsed_from.induct) (auto simp: parsed_range_def Let_def split: if_splits)

lemma map_from_ranges:
  "map_from chunk n cs = Inr out \<Longrightarrow>
   map candidate_range out = map parsed_range cs \<and> map cc_sequence out = map (\<lambda>i. n + int i) [0..<length cs]
   \<and> (\<forall>c\<in>set out. \<exists>l\<in>set (hc_lines chunk). ln_ordinal l = cc_startMessage c \<and> ln_messageId l = cc_startMessageId c)
   \<and> (\<forall>c\<in>set out. \<exists>l\<in>set (hc_lines chunk). ln_ordinal l = cc_endMessage c \<and> ln_messageId l = cc_endMessageId c)"
proof (induction chunk n cs arbitrary: out rule: map_from.induct)
  case (2 chunk n c cs)
  from "2.prems" obtain s e mapped where
    s: "find (\<lambda>l. ln_ordinal l = pc_startMessage c) (hc_lines chunk) = Some s" and
    e: "find (\<lambda>l. ln_ordinal l = pc_endMessage c) (hc_lines chunk) = Some e" and
    m: "map_from chunk (n + 1) cs = Inr mapped" and
    out: "out = \<lparr>cc_sequence = n, cc_startMessage = pc_startMessage c, cc_endMessage = pc_endMessage c,
        cc_startMessageId = ln_messageId s, cc_endMessageId = ln_messageId e, cc_parsed = c\<rparr> # mapped"
    by (auto split: option.splits sum.splits)
  have "s \<in> set (hc_lines chunk)" "ln_ordinal s = pc_startMessage c"
    "e \<in> set (hc_lines chunk)" "ln_ordinal e = pc_endMessage c"
    using s e by (auto simp: find_Some_iff)
  moreover have "map (\<lambda>i. n + int i) [0..<length (c # cs)] = n # map (\<lambda>i. n + 1 + int i) [0..<length cs]"
    by (simp add: upt_conv_Cons map_Suc_upt [symmetric] del: upt_Suc)
  ultimately show ?case
    using "2.IH" [OF _ s e m] by (auto simp: out candidate_range_def parsed_range_def)
qed simp

lemma accepted_output:
  assumes "validateHistorianOutput parsed u chunk off = Inr out"
  shows "\<exists>b. tiles (hc_startIndex chunk) b (map candidate_range out)"
    and "out \<noteq> []" "\<forall>c\<in>set out. cc_endMessage c \<le> hc_endIndex chunk"
    and "\<not> boundarySplitsCompletedToolArc (cc_endMessage (last out) + 1) (hc_completedToolArcs chunk)"
    and "map cc_sequence out = map (\<lambda>i. off + int i) [0..<length out]"
    and "\<forall>c\<in>set out. \<exists>l\<in>set (hc_lines chunk). ln_ordinal l = cc_startMessage c \<and> ln_messageId l = cc_startMessageId c"
    and "\<forall>c\<in>set out. \<exists>l\<in>set (hc_lines chunk). ln_ordinal l = cc_endMessage c \<and> ln_messageId l = cc_endMessageId c"
proof -
  obtain healed u' where h: "healTerminalCompletedToolArc (healCompartmentGaps parsed (hc_toolOnlyRanges chunk))
      u (hc_completedToolArcs chunk) (hc_endIndex chunk) = (healed, u')"
    by (cases "healTerminalCompletedToolArc (healCompartmentGaps parsed (hc_toolOnlyRanges chunk))
      u (hc_completedToolArcs chunk) (hc_endIndex chunk)")
  from assms h have ne: "parsed \<noteq> []" and m: "map_from chunk off healed = Inr out"
    and v: "validateParsedCompartments healed (hc_startIndex chunk) (hc_endIndex chunk) u' = None"
    and b: "\<not> boundarySplitsCompletedToolArc (pc_endMessage (last healed) + 1) (hc_completedToolArcs chunk)"
    by (auto simp: validateHistorianOutput_def mapParsedCompartmentsToChunk_def split: if_splits sum.splits option.splits)
  note mf = map_from_ranges [OF m]
  obtain x where x: "parsed_from (hc_startIndex chunk) (hc_endIndex chunk) 0 (hc_startIndex chunk) healed = Inr x"
    using v by (auto simp: validateParsedCompartments_def split: sum.splits)
  note pf = parsed_from_tiles [OF x]
  have hne: "healed \<noteq> []"
    using h ne by (auto simp: healTerminalCompletedToolArc_def Let_def healCompartmentGaps_def split: if_splits list.splits)
      (metis heal_gaps_from.elims list.distinct(1))
  have len: "length out = length healed" using mf by (metis length_map)
  show "out \<noteq> []" using hne len by auto
  then have lst: "candidate_range (last out) = parsed_range (last healed)"
    using mf hne by (metis last_map)
  show "\<exists>b. tiles (hc_startIndex chunk) b (map candidate_range out)" using mf pf by auto
  show "\<forall>c\<in>set out. cc_endMessage c \<le> hc_endIndex chunk"
  proof
    fix c assume "c \<in> set out"
    then have "candidate_range c \<in> set (map parsed_range healed)" using mf by (metis list.set_map imageI)
    with pf show "cc_endMessage c \<le> hc_endIndex chunk" by (auto simp: candidate_range_def parsed_range_def)
  qed
  show "\<not> boundarySplitsCompletedToolArc (cc_endMessage (last out) + 1) (hc_completedToolArcs chunk)"
    using b lst by (simp add: candidate_range_def parsed_range_def)
  show "map cc_sequence out = map (\<lambda>i. off + int i) [0..<length out]" using mf len by simp
qed (use assms in \<open>auto simp: validateHistorianOutput_def mapParsedCompartmentsToChunk_def
    split: if_splits sum.splits option.splits prod.splits dest!: map_from_ranges\<close>)

section \<open>Healing of the terminal arc settles\<close>

lemma max_fold:
  fixes acc :: int and P arcs
  defines "r \<equiv> foldl (\<lambda>n (s, e). if P s e then max n e else n) acc arcs"
  shows "acc \<le> r \<and> (r = acc \<or> r \<in> snd ` set arcs) \<and> (\<forall>(s, e)\<in>set arcs. P s e \<longrightarrow> e \<le> r)
    \<and> (\<forall>c. acc \<le> c \<longrightarrow> (\<forall>(s, e)\<in>set arcs. P s e \<longrightarrow> e \<le> c) \<longrightarrow> r \<le> c)"
  unfolding r_def
proof (induction arcs arbitrary: acc)
  case (Cons a arcs)
  obtain s e where a: "a = (s, e)" by (cases a)
  show ?case
    using Cons.IH [of "if P s e then max acc e else acc"] by (auto simp: a max_def split: if_splits)
qed simp

lemma heal_pass_cases:
  "heal_terminal_pass arcs ce x = x \<or> (heal_terminal_pass arcs ce x \<in> snd ` set arcs \<and> x < heal_terminal_pass arcs ce x)"
  using max_fold [of x "\<lambda>s e. e \<le> ce \<and> completedToolArcCrossesBoundary s e (x + 1)" arcs]
  by (auto simp: heal_terminal_pass_def)

lemma heal_pass_fixed:
  assumes "heal_terminal_pass arcs ce x = x" "(s, e) \<in> set arcs" "e \<le> ce"
  shows "\<not> completedToolArcCrossesBoundary s e (x + 1)"
proof
  assume c: "completedToolArcCrossesBoundary s e (x + 1)"
  then have "e \<le> heal_terminal_pass arcs ce x"
    using max_fold [of x "\<lambda>s e. e \<le> ce \<and> completedToolArcCrossesBoundary s e (x + 1)" arcs] assms(2,3)
    by (fastforce simp: heal_terminal_pass_def)
  with assms(1) c show False by (simp add: completedToolArcCrossesBoundary_def)
qed

interpretation heal: settling "heal_terminal_pass arcs ce" "snd ` set arcs" "\<lambda>x. - x" for arcs ce
  by unfold_locales (use heal_pass_cases in auto)

lemma heal_points: "card (snd ` set arcs) < length arcs + 1"
  using card_image_le [of "set arcs" snd] card_length [of arcs] by simp

lemma healed_end:
  fixes u arcs ce
  assumes "compartments \<noteq> []"
  defines "h \<equiv> fst (healTerminalCompletedToolArc compartments u arcs ce)"
  shows "pc_endMessage (last compartments) \<le> pc_endMessage (last h)"
    and "(s, e) \<in> set arcs \<Longrightarrow> e \<le> ce \<Longrightarrow> \<not> completedToolArcCrossesBoundary s e (pc_endMessage (last h) + 1)"
    and "length h = length compartments" "butlast h = butlast compartments"
proof -
  let ?x = "settle (length arcs + 1) (heal_terminal_pass arcs ce) (pc_endMessage (last compartments))"
  have h: "h = butlast compartments @ [(last compartments)\<lparr>pc_endMessage := ?x\<rparr>]"
    using assms by (simp add: healTerminalCompletedToolArc_def Let_def)
  show "pc_endMessage (last compartments) \<le> pc_endMessage (last h)"
    using heal.settle_rank [where arcs = arcs and ce = ce and n = "length arcs + 1"] by (simp add: h)
  show "\<not> completedToolArcCrossesBoundary s e (pc_endMessage (last h) + 1)" if "(s, e) \<in> set arcs" "e \<le> ce"
    using heal_pass_fixed [OF heal.settle_fixed [OF heal_points] that] by (simp add: h)
  show "length h = length compartments" "butlast h = butlast compartments"
    using assms(1) by (simp_all add: h)
qed

section \<open>Properties\<close>

definition next_start :: "(int \<times> int) list \<Rightarrow> int" where
  "next_start stored = (if stored = [] then 1 else snd (last stored) + 1)"

lemma stored_tiles: "validateStoredCompartments stored = None \<Longrightarrow> tiles 1 (next_start stored) stored"
proof -
  assume "validateStoredCompartments stored = None"
  then obtain b where b: "tiles 1 b stored" by (auto simp: validateStoredCompartments_def stored_from_tiles)
  then have "b = next_start stored" using tiles_end [OF b] by (simp add: next_start_def)
  with b show ?thesis by simp
qed

text \<open>
  C4: An accepted historian pass extends the stored history without gap or overlap: appended to valid
  stored compartments that end right before the chunk, its compartments are again valid, numbered
  consecutively, inside the chunk, and end on a boundary that splits no completed tool arc.
\<close>

theorem accepted_pass_extends_history:
  assumes "validateStoredCompartments stored = None" "hc_startIndex chunk = next_start stored"
    and "validateHistorianOutput parsed u chunk off = Inr out"
  shows "validateStoredCompartments (stored @ map candidate_range out) = None
     \<and> out \<noteq> [] \<and> (\<forall>c\<in>set out. cc_endMessage c \<le> hc_endIndex chunk)
     \<and> map cc_sequence out = map (\<lambda>i. off + int i) [0..<length out]
     \<and> \<not> boundarySplitsCompletedToolArc (cc_endMessage (last out) + 1) (hc_completedToolArcs chunk)"
proof -
  obtain b where "tiles (next_start stored) b (map candidate_range out)"
    using accepted_output(1) [OF assms(3)] assms(2) by auto
  from tiles_append [OF stored_tiles [OF assms(1)] this]
  have "validateStoredCompartments (stored @ map candidate_range out) = None"
    by (auto simp: validateStoredCompartments_def stored_from_tiles)
  with accepted_output [OF assms(3)] show ?thesis by auto
qed

definition example_parsed :: "int \<Rightarrow> int \<Rightarrow> parsed_compartment" where
  "example_parsed s e = \<lparr>pc_startMessage = s, pc_endMessage = e, pc_title = ''t'', pc_content = ''c'', pc_p1 = Some ''p'',
     pc_p2 = None, pc_p3 = None, pc_p4 = None, pc_importance = None, pc_episodeType = None\<rparr>"

definition example_chunk :: historian_chunk where
  "example_chunk = \<lparr>hc_startIndex = 3, hc_endIndex = 6, hc_lines = map (\<lambda>n. \<lparr>ln_ordinal = n, ln_messageId = ''m''\<rparr>) [3, 4, 5, 6],
     hc_toolOnlyRanges = [(4, 4)], hc_completedToolArcs = [(5, 6)]\<rparr>"

definition example_accepted :: "candidate_compartment list" where
  "example_accepted =
     [\<lparr>cc_sequence = 2, cc_startMessage = 3, cc_endMessage = 4, cc_startMessageId = ''m'', cc_endMessageId = ''m'',
       cc_parsed = example_parsed 3 4\<rparr>,
      \<lparr>cc_sequence = 3, cc_startMessage = 5, cc_endMessage = 6, cc_startMessageId = ''m'', cc_endMessageId = ''m'',
       cc_parsed = example_parsed 5 6\<rparr>]"

lemma example_output:
  "validateHistorianOutput [example_parsed 3 3, example_parsed 5 5] (Some 6) example_chunk 2 = Inr example_accepted"
  by code_simp

theorem accepted_pass_extends_history_witness:
  "validateStoredCompartments ([(1, 1), (2, 2)] @ map candidate_range example_accepted) = None"
  using accepted_pass_extends_history [OF _ _ example_output, of "[(1, 1), (2, 2)]"]
  by (simp add: validateStoredCompartments_def next_start_def example_chunk_def)

text \<open>
  Discarding the provisional last compartment is safe: what is kept of an accepted pass is not
  empty, still extends the stored history, and its new end splits no completed tool arc.
\<close>

theorem discarding_last_is_safe:
  assumes "validateStoredCompartments stored = None" "hc_startIndex chunk = next_start stored"
    and "validateHistorianOutput parsed u chunk off = Inr out"
    and "shouldDiscardLastHistorianCompartment out chunk"
  shows "butlast out \<noteq> [] \<and> validateStoredCompartments (stored @ map candidate_range (butlast out)) = None
     \<and> \<not> boundarySplitsCompletedToolArc (cc_endMessage (last (butlast out)) + 1) (hc_completedToolArcs chunk)"
proof -
  have two: "2 \<le> length out"
    and nb: "\<not> boundarySplitsCompletedToolArc (cc_endMessage (out ! (length out - 2)) + 1) (hc_completedToolArcs chunk)"
    using assms(4) by (auto simp: shouldDiscardLastHistorianCompartment_def split: if_splits)
  have ne: "butlast out \<noteq> []" using two by (cases out) auto
  have "last (butlast out) = out ! (length out - 2)"
    using ne two by (simp add: last_conv_nth nth_butlast numeral_2_eq_2)
  obtain b where "tiles (next_start stored) b (map candidate_range out)"
    using accepted_output(1) [OF assms(3)] assms(2) by auto
  from tiles_butlast [OF this] obtain c where "tiles (next_start stored) c (map candidate_range (butlast out))"
    by (auto simp: map_butlast)
  from tiles_append [OF stored_tiles [OF assms(1)] this]
  have "validateStoredCompartments (stored @ map candidate_range (butlast out)) = None"
    by (auto simp: validateStoredCompartments_def stored_from_tiles)
  with ne nb \<open>last (butlast out) = _\<close> show ?thesis by simp
qed

theorem discarding_last_is_safe_witness:
  "validateStoredCompartments ([(1, 1), (2, 2)] @ map candidate_range (butlast example_accepted)) = None"
  using discarding_last_is_safe [OF _ _ example_output, of "[(1, 1), (2, 2)]"]
  by (simp add: validateStoredCompartments_def next_start_def example_chunk_def shouldDiscardLastHistorianCompartment_def
      example_accepted_def HISTORIAN_BOUNDARY_HEALING_SLACK_def boundarySplitsCompletedToolArc_def
      completedToolArcCrossesBoundary_def)

text \<open>
  The healing of the terminal boundary reaches its fixed point within its pass limit: it only
  extends the last compartment, leaves the others alone, and afterwards no completed arc that ends
  inside the chunk is split by the terminal boundary.
\<close>

theorem terminal_healing_is_complete:
  assumes "compartments \<noteq> []" "(s, e) \<in> set arcs" "e \<le> chunkEnd"
  shows "let healed = fst (healTerminalCompletedToolArc compartments u arcs chunkEnd)
     in butlast healed = butlast compartments
      \<and> pc_endMessage (last compartments) \<le> pc_endMessage (last healed)
      \<and> \<not> completedToolArcCrossesBoundary s e (pc_endMessage (last healed) + 1)"
  using healed_end [OF assms(1)] assms(2,3) by (simp add: Let_def)

theorem terminal_healing_is_complete_witness:
  "let healed = fst (healTerminalCompletedToolArc [example_parsed 1 4] None [(4, 6), (6, 9)] 9)
   in \<not> completedToolArcCrossesBoundary 6 9 (pc_endMessage (last healed) + 1)"
  using terminal_healing_is_complete [of "[example_parsed 1 4]" 6 9 "[(4, 6), (6, 9)]" 9 None]
  by (simp add: Let_def)

text \<open>
  A chunk passes the coverage check exactly when it has no lines or its lines are the raw messages
  from its start to its end, each once and in order.
\<close>

theorem chunk_coverage_iff:
  "validateChunkCoverage chunk = None \<longleftrightarrow>
     hc_lines chunk = [] \<or> map ln_ordinal (hc_lines chunk) = [hc_startIndex chunk..hc_endIndex chunk]"
proof -
  have far: "coverage_from e n ls \<noteq> None" if "e + 1 < n" for e n ls
    using that by (induction e n ls rule: coverage_from.induct) auto
  have "coverage_from e n ls = None \<longleftrightarrow> map ln_ordinal ls = [n..e]" if "n \<le> e + 1" for e n ls
    using that
  proof (induction e n ls rule: coverage_from.induct)
    case (2 e n l ls)
    then show ?case using far [of e "n + 1" ls] by (cases "n \<le> e") (auto simp: upto_rec1)
  qed auto
  moreover have "coverage_from e n (l # ls) \<noteq> None" if "e + 1 < n" for e n l ls
    using far that by blast
  ultimately show ?thesis
    by (cases "hc_lines chunk"; cases "hc_startIndex chunk \<le> hc_endIndex chunk + 1")
      (auto simp: validateChunkCoverage_def simp del: coverage_from.simps)
qed

text \<open>
  An \<open>unprocessed_from\<close> just past the chunk switches the coverage check off: output that covers
  one message of four is accepted, although the same output without it is rejected as incomplete.
\<close>

theorem unprocessed_past_end_hides_gap:
  "validateParsedCompartments [example_parsed 3 3] 3 6 (Some 7) = None
   \<and> validateParsedCompartments [example_parsed 3 3] 3 6 None = Some (Uncovered 4 6)
   \<and> validateParsedCompartments [example_parsed 3 3] 3 6 (Some 6) = Some (UnprocessedMismatch 6 4)"
  by code_simp

end
