(* ===== verification/Tag_Ranges.thy ===== *)
theory Tag_Ranges
  imports Prelude
begin

text \<open>
  The range syntax of \<open>ctx_reduce\<close> (\<open>features/magic-context/range-parser.ts\<close>): comma-separated integers
  and inclusive ranges, with tag brackets removed. A thrown error is a constructor with what its
  message names. Integers are unbounded; numerals too long for a double are outside the model.
\<close>

datatype parse_error =
    EmptyRange
  | InvalidInteger string
  | ReversedRange string int int
  | RangeTooLarge string int
  | TotalTooLarge int

definition MAX_RANGE_ELEMENTS :: int where "MAX_RANGE_ELEMENTS = 1000"

definition parseInteger :: "string \<Rightarrow> parse_error + int" where
  "parseInteger s = (if all_digits s then Inr (digits_value s) else Inl (InvalidInteger s))"

definition parse_segment :: "string \<Rightarrow> parse_error + int list" where
  "parse_segment segment =
     (let part = js_trim segment
      in case split_first (CHR ''-'') part of
           None \<Rightarrow> (case parseInteger part of Inl e \<Rightarrow> Inl e | Inr n \<Rightarrow> Inr [n])
         | Some (a, b) \<Rightarrow>
             (case parseInteger (js_trim a) of
                Inl e \<Rightarrow> Inl e
              | Inr start \<Rightarrow>
                  (case parseInteger (js_trim b) of
                     Inl e \<Rightarrow> Inl e
                   | Inr end_n \<Rightarrow>
                       if end_n < start then Inl (ReversedRange part start end_n)
                       else if MAX_RANGE_ELEMENTS < end_n - start + 1 then Inl (RangeTooLarge part (end_n - start + 1))
                       else Inr [start..end_n])))"

fun parse_segments :: "string list \<Rightarrow> parse_error + int list" where
  "parse_segments [] = Inr []"
| "parse_segments (s # ss) =
     (case parse_segment s of
        Inl e \<Rightarrow> Inl e
      | Inr ns \<Rightarrow> (case parse_segments ss of Inl e \<Rightarrow> Inl e | Inr ms \<Rightarrow> Inr (ns @ ms)))"

definition parseRangeString :: "string \<Rightarrow> parse_error + int list" where
  "parseRangeString input =
     (let trimmed = js_trim (filter (\<lambda>c. c \<noteq> CHR 0xA7) input)
      in if trimmed = [] then Inl EmptyRange
         else (case parse_segments (split_on (CHR '','') trimmed) of
                 Inl e \<Rightarrow> Inl e
               | Inr numbers \<Rightarrow>
                   if MAX_RANGE_ELEMENTS < int (card (set numbers)) then Inl (TotalTooLarge (int (card (set numbers))))
                   else Inr (sort (remdups numbers))))"

section \<open>What a parsed range is\<close>

lemma parse_segment_nonneg: "parse_segment s = Inr ns \<Longrightarrow> ns \<noteq> [] \<and> (\<forall>n\<in>set ns. 0 \<le> n)"
proof -
  assume p: "parse_segment s = Inr ns"
  have pos: "parseInteger t = Inr n \<Longrightarrow> 0 \<le> n" for t n
    by (auto simp: parseInteger_def all_digits_def digits_value_nonneg split: if_splits)
  from p show ?thesis
    by (auto simp: parse_segment_def Let_def split: option.splits sum.splits if_splits dest!: pos)
qed

lemma parse_segments_nonneg: "parse_segments ss = Inr ns \<Longrightarrow> \<forall>n\<in>set ns. 0 \<le> n"
  by (induction ss arbitrary: ns) (auto split: sum.splits dest!: parse_segment_nonneg)

lemma parse_segments_nonempty: "ss \<noteq> [] \<Longrightarrow> parse_segments ss = Inr ns \<Longrightarrow> ns \<noteq> []"
  by (cases ss) (auto split: sum.splits dest: parse_segment_nonneg)

section \<open>Printed lists parse back\<close>

lemma show_base_no_space: "c \<in> set (show_base 10 n) \<Longrightarrow> is_digit c"
  using show_base_digits [of n] by (auto simp: all_digits_def list_all_iff)

lemma digit_not: "is_digit c \<Longrightarrow> \<not> is_ws c \<and> c \<noteq> CHR '','' \<and> c \<noteq> CHR ''-'' \<and> c \<noteq> CHR 0xA7"
  by (auto simp: is_digit_def is_ws_def)

lemma dropWhile_none: "\<forall>c\<in>set s. \<not> P c \<Longrightarrow> dropWhile P s = s"
  by (cases s) auto

lemma trim_digits: "\<forall>c\<in>set s. \<not> is_ws c \<Longrightarrow> js_trim s = s"
  by (simp add: js_trim_def dropWhile_none)

lemma split_on_plain: "sep \<notin> set s \<Longrightarrow> split_on sep s = [s]"
  by (induction s) auto

lemma split_on_append: "sep \<notin> set s \<Longrightarrow> split_on sep (s @ sep # t) = s # split_on sep t"
  by (induction s) auto

lemma split_join: "xs \<noteq> [] \<Longrightarrow> \<forall>x\<in>set xs. sep \<notin> set x \<Longrightarrow> split_on sep (join [sep] xs) = xs"
  by (induction "[sep]" xs rule: join.induct) (auto simp: split_on_plain split_on_append)

lemma show_nat_chars: "0 \<le> n \<Longrightarrow> c \<in> set (show_int n) \<Longrightarrow> is_digit c"
  by (simp add: show_int_def show_base_no_space)

lemma parse_show: "0 \<le> n \<Longrightarrow> parse_segment (show_int n) = Inr [n]"
proof -
  assume n: "0 \<le> n"
  have "js_trim (show_int n) = show_int n"
    using show_nat_chars [OF n] digit_not by (intro trim_digits) blast
  moreover have "split_first (CHR ''-'') (show_int n) = None"
    using show_nat_chars [OF n] digit_not by (auto simp: split_first_None)
  ultimately show ?thesis
    using n by (simp add: parse_segment_def parseInteger_def show_int_def show_base_digits digits_value_show)
qed

lemma parse_shows: "\<forall>n\<in>set ns. 0 \<le> n \<Longrightarrow> parse_segments (map show_int ns) = Inr ns"
  by (induction ns) (auto simp: parse_show)

lemma join_chars: "c \<in> set (join sep xs) \<Longrightarrow> c \<in> set sep \<or> (\<exists>x\<in>set xs. c \<in> set x)"
  by (induction sep xs rule: join.induct) auto

section \<open>Properties\<close>

text \<open>
  A range string that parses gives a non-empty, strictly ascending list of at most a thousand
  non-negative tag numbers.
\<close>

theorem parsed_range_is_canonical:
  assumes "parseRangeString s = Inr ns"
  shows "ns \<noteq> [] \<and> sorted ns \<and> distinct ns \<and> length ns \<le> 1000 \<and> (\<forall>n\<in>set ns. 0 \<le> n)"
proof -
  from assms obtain numbers where p: "parse_segments (split_on (CHR '','') (js_trim (filter (\<lambda>c. c \<noteq> CHR 0xA7) s))) = Inr numbers"
    and c: "int (card (set numbers)) \<le> 1000" and ns: "ns = sort (remdups numbers)"
    by (auto simp: parseRangeString_def MAX_RANGE_ELEMENTS_def Let_def split: if_splits sum.splits)
  have "numbers \<noteq> []" by (rule parse_segments_nonempty [OF split_on_not_Nil p])
  then have "ns \<noteq> []" using ns by (metis set_empty set_remdups set_sort)
  with c ns parse_segments_nonneg [OF p] show ?thesis by (auto simp: length_remdups_card_conv)
qed

theorem parsed_range_is_canonical_witness:
  "[3, 4, 5, 9 :: int] \<noteq> [] \<and> sorted [3, 4, 5, 9 :: int]"
proof -
  have "parseRangeString ''9, 3-5,4'' = Inr [3, 4, 5, 9]" by code_simp
  from parsed_range_is_canonical [OF this] show ?thesis by simp
qed

text \<open>
  The printed form of a list of tag numbers parses back to those numbers, sorted and without
  duplicates, whenever there are at most a thousand of them.
\<close>

theorem printed_range_parses_back:
  assumes "ns \<noteq> []" "\<forall>n\<in>set ns. 0 \<le> n" "card (set ns) \<le> 1000"
  shows "parseRangeString (join '','' (map show_int ns)) = Inr (sort (remdups ns))"
proof -
  let ?s = "join '','' (map show_int ns)"
  have ch: "is_digit c \<or> c = CHR '',''" if "c \<in> set ?s" for c
    using join_chars [OF that] assms(2) show_nat_chars by auto
  then have "filter (\<lambda>c. c \<noteq> CHR 0xA7) ?s = ?s" using digit_not by (intro filter_True) auto
  moreover have "\<not> is_ws (CHR '','')" by (simp add: is_ws_def)
  with ch digit_not have "js_trim ?s = ?s" by (intro trim_digits) auto
  moreover have "?s \<noteq> []" using assms(1) by (cases ns rule: list.exhaust; cases "tl ns") auto
  moreover have "split_on (CHR '','') ?s = map show_int ns"
  proof (rule split_join)
    show "\<forall>x\<in>set (map show_int ns). CHR '','' \<notin> set x"
      using assms(2) show_nat_chars digit_not by fastforce
  qed (use assms(1) in simp)
  ultimately show ?thesis
    using parse_shows [OF assms(2)] assms(3) by (simp add: parseRangeString_def MAX_RANGE_ELEMENTS_def)
qed

theorem printed_range_parses_back_witness:
  "parseRangeString (join '','' (map show_int [12, 3, 12])) = Inr [3, 12]"
  using printed_range_parses_back [of "[12, 3, 12]"] by (simp add: card_insert_if)

end
