(* ===== verification/Tag_Lifecycle.thy ===== *)
theory Tag_Lifecycle
  imports Tag_Ranges Raw_Messages
begin

text \<open>
  The life of a tag, from the \<open>ctx_reduce\<close> request to the dropped content: the queue
  (\<open>tools/ctx-reduce/tools.ts\<close>, \<open>features/magic-context/storage-ops.ts\<close>, \<open>storage-tags.ts\<close>), the pass that
  applies it to the messages (\<open>hooks/magic-context/apply-operations.ts\<close>) and the operations the plugin
  adds itself for superseded calls (\<open>hooks/magic-context/supersession-reclaim.ts\<close>). The rows of one
  session are the state. The targets of \<open>tag-messages.ts\<close> are methods over a message state of any
  type; a transaction is one function. The branch of \<open>ctx_reduce\<close> that calls the external backend is
  not modelled.
\<close>

section \<open>State\<close>

datatype tag_type = MessageTag | ToolTag | FileTag
datatype tag_status = Active | Dropped | Compacted
datatype drop_mode = FullDrop | TruncatedDrop | EditMarkerDrop

record tag_entry =
  tg_tagNumber :: int
  tg_type :: tag_type
  tg_status :: tag_status
  tg_dropMode :: drop_mode
  tg_toolName :: "string option"
  tg_byteSize :: int
  tg_inputByteSize :: int
  tg_reasoningByteSize :: int

record pending_op =
  op_id :: int
  op_tagId :: int
  op_queuedAt :: int

record tag_db =
  td_tags :: "tag_entry list"
  td_ops :: "pending_op list"
  td_nextOpId :: int
  td_lastNudgeTokens :: int

definition queuePendingOp :: "int \<Rightarrow> int \<Rightarrow> tag_db \<Rightarrow> tag_db" where
  "queuePendingOp queuedAt tagId db =
     db\<lparr>td_ops := td_ops db @ [\<lparr>op_id = td_nextOpId db, op_tagId = tagId, op_queuedAt = queuedAt\<rparr>],
        td_nextOpId := td_nextOpId db + 1\<rparr>"

definition getPendingOps :: "tag_db \<Rightarrow> pending_op list" where
  "getPendingOps db = sort_key op_queuedAt (sort_key op_id (td_ops db))"

definition removePendingOp :: "int \<Rightarrow> tag_db \<Rightarrow> tag_db" where
  "removePendingOp tagId db = db\<lparr>td_ops := filter (\<lambda>op. op_tagId op \<noteq> tagId) (td_ops db)\<rparr>"

definition clearPendingOps :: "tag_db \<Rightarrow> tag_db" where
  "clearPendingOps db = db\<lparr>td_ops := []\<rparr>"

definition updateTagStatus :: "int \<Rightarrow> tag_status \<Rightarrow> tag_db \<Rightarrow> tag_db" where
  "updateTagStatus tagId status db =
     db\<lparr>td_tags := map (\<lambda>t. if tg_tagNumber t = tagId then t\<lparr>tg_status := status\<rparr> else t) (td_tags db)\<rparr>"

definition updateTagDropMode :: "int \<Rightarrow> drop_mode \<Rightarrow> tag_db \<Rightarrow> tag_db" where
  "updateTagDropMode tagId mode db =
     db\<lparr>td_tags := map (\<lambda>t. if tg_tagNumber t = tagId then t\<lparr>tg_dropMode := mode\<rparr> else t) (td_tags db)\<rparr>"

text \<open>\<open>new Map(tags.map((tag) => [tag.tagNumber, f(tag)]))\<close>: the last entry of a number counts.\<close>

definition by_number :: "(tag_entry \<Rightarrow> 'a) \<Rightarrow> tag_entry list \<Rightarrow> int \<Rightarrow> 'a option" where
  "by_number f tags = map_of (rev (map (\<lambda>t. (tg_tagNumber t, f t)) tags))"

definition newest_numbers :: "nat \<Rightarrow> (tag_entry \<Rightarrow> bool) \<Rightarrow> tag_entry list \<Rightarrow> int list" where
  "newest_numbers n P tags = take n (sort_desc (map tg_tagNumber (filter P tags)))"

section \<open>The ctx_reduce tool\<close>

datatype reduce_reply =
    DropMissing
  | InvalidSyntax parse_error
  | UnknownTags "int list"
  | BeforeCompaction "int list"
  | NothingNew
  | QueueFailed
  | Queued "int list" "int list" nat

definition isActive :: "tag_entry \<Rightarrow> bool" where
  "isActive t = (tg_status t = Active)"

text \<open>
  \<open>commits\<close> says whether the queueing transaction commits; \<open>session_tokens\<close> is the token count the
  host reports, or the last persisted one.
\<close>

definition ctx_reduce_execute ::
  "nat \<Rightarrow> int \<Rightarrow> int \<Rightarrow> bool \<Rightarrow> string \<Rightarrow> tag_db \<Rightarrow> tag_db \<times> reduce_reply" where
  "ctx_reduce_execute protectedTags session_tokens now commits drop_arg db =
     (if drop_arg = [] then (db, DropMissing)
      else case parseRangeString drop_arg of
        Inl e \<Rightarrow> (db, InvalidSyntax e)
      | Inr dropIds \<Rightarrow>
          let allTags = td_tags db;
              unknownIds = filter (\<lambda>i. i \<notin> set (map tg_tagNumber allTags)) (dedup_first dropIds);
              protectedSet = set (newest_numbers protectedTags isActive allTags);
              status = by_number tg_status allTags;
              pending = set (map op_tagId (getPendingOps db));
              conflicts = filter (\<lambda>i. status i = Some Compacted) dropIds;
              fresh = filter (\<lambda>i. status i \<noteq> Some Dropped \<and> i \<notin> pending) dropIds
          in if unknownIds \<noteq> [] then (db, UnknownTags unknownIds)
             else if conflicts \<noteq> [] then (db, BeforeCompaction conflicts)
             else if fresh = [] then (db, NothingNew)
             else if \<not> commits then (db, QueueFailed)
             else ((foldl (\<lambda>d i. queuePendingOp now i d) db fresh)\<lparr>td_lastNudgeTokens := session_tokens\<rparr>,
                   Queued (filter (\<lambda>i. i \<notin> protectedSet) fresh)
                          (dedup_first (filter (\<lambda>i. i \<in> protectedSet) fresh))
                          (length dropIds - length fresh)))"

section \<open>Applying the queue to the messages\<close>

datatype drop_result = Removed | TruncatedResult | Incomplete | Absent

text \<open>The methods of a target over the message state (a missing input is null) \<open>'m\<close>; an optional method may be missing.\<close>

record 'm tag_target =
  tt_setContent :: "string \<Rightarrow> 'm \<Rightarrow> bool \<times> 'm"
  tt_drop :: "('m \<Rightarrow> drop_result \<times> 'm) option"
  tt_truncate :: "('m \<Rightarrow> drop_result \<times> 'm) option"
  tt_editMarker :: "('m \<Rightarrow> drop_result \<times> 'm) option"
  tt_canDrop :: "('m \<Rightarrow> bool) option"
  tt_readInput :: "('m \<Rightarrow> json) option"

definition call_method :: "('m tag_target \<Rightarrow> ('m \<Rightarrow> drop_result \<times> 'm) option) \<Rightarrow> 'm tag_target option \<Rightarrow> 'm \<Rightarrow> drop_result \<times> 'm" where
  "call_method f target m =
     (case target of None \<Rightarrow> (Absent, m)
      | Some t \<Rightarrow> (case f t of None \<Rightarrow> (Absent, m) | Some g \<Rightarrow> g m))"

definition can_drop :: "'m tag_target option \<Rightarrow> 'm \<Rightarrow> bool" where
  "can_drop target m =
     (case target of None \<Rightarrow> False | Some t \<Rightarrow> (case tt_canDrop t of None \<Rightarrow> False | Some g \<Rightarrow> g m))"

definition RECENT_TOOL_SKELETON_WINDOW :: nat where "RECENT_TOOL_SKELETON_WINDOW = 20"

definition buildReplacementContent :: "int \<Rightarrow> string" where
  "buildReplacementContent tagId = ''[dropped '' @ [CHR 0xA7] @ show_int tagId @ [CHR 0xA7] @ '']''"

record 'm apply_state =
  as_db :: tag_db
  as_messages :: 'm
  as_mutated :: bool

definition persist_drop :: "bool \<Rightarrow> int \<Rightarrow> tag_db \<Rightarrow> tag_db" where
  "persist_drop synthetic tagId db =
     (let db' = updateTagStatus tagId Dropped db in if synthetic then db' else removePendingOp tagId db')"

text \<open>
  One operation of the loop. \<open>status\<close> and \<open>kind\<close> are the maps built before the loop; \<open>protected_ids\<close>,
  \<open>skeleton\<close> and \<open>markers\<close> are the protected tags, the recent tool tags and the edit markers.
\<close>

definition apply_tool_drop ::
  "bool \<Rightarrow> int set \<Rightarrow> int set \<Rightarrow> 'm tag_target option \<Rightarrow> bool \<times> int \<Rightarrow> 'm apply_state \<Rightarrow> 'm apply_state" where
  "apply_tool_drop synthetic skeleton markers target op st =
     (let tagId = snd op; m = as_messages st
      in if tagId \<in> markers then
           (let (r, m') = call_method tt_editMarker target m
            in if r = Incomplete \<or> r = Absent then st\<lparr>as_messages := m'\<rparr>
               else \<lparr>as_db = persist_drop synthetic tagId (updateTagDropMode tagId EditMarkerDrop (as_db st)),
                     as_messages = m', as_mutated = True\<rparr>)
         else if tagId \<in> skeleton then
           (let (r, m') = call_method tt_truncate target m
            in if r = Incomplete \<or> (synthetic \<and> r \<noteq> TruncatedResult) then st\<lparr>as_messages := m'\<rparr>
               else \<lparr>as_db = persist_drop synthetic tagId (updateTagDropMode tagId TruncatedDrop (as_db st)),
                     as_messages = m', as_mutated = (as_mutated st \<or> r = TruncatedResult)\<rparr>)
         else
           (let (r, m') = call_method tt_drop target m
            in if r = Incomplete \<or> (synthetic \<and> r \<noteq> Removed) then st\<lparr>as_messages := m'\<rparr>
               else \<lparr>as_db = persist_drop synthetic tagId (updateTagDropMode tagId FullDrop (as_db st)),
                     as_messages = m', as_mutated = (as_mutated st \<or> r = Removed)\<rparr>))"

definition apply_pending_step ::
  "(int \<Rightarrow> 'm tag_target option) \<Rightarrow> (int \<Rightarrow> tag_status option) \<Rightarrow> (int \<Rightarrow> tag_type option) \<Rightarrow>
   int set \<Rightarrow> int set \<Rightarrow> int set \<Rightarrow> 'm apply_state \<Rightarrow> bool \<times> int \<Rightarrow> 'm apply_state" where
  "apply_pending_step targets status kind protected_ids skeleton markers st op =
     (let (synthetic, tagId) = op; target = targets tagId; isTool = (kind tagId = Some ToolTag)
      in if status tagId = Some Compacted \<or> status tagId = Some Dropped then
           (if synthetic then st else st\<lparr>as_db := removePendingOp tagId (as_db st)\<rparr>)
         else if tagId \<in> protected_ids then st
         else if synthetic \<and> (\<not> isTool \<or> \<not> can_drop target (as_messages st)) then st
         else if isTool then apply_tool_drop synthetic skeleton markers target op st
         else (case target of
                 Some t \<Rightarrow>
                   (let (changed, m') = tt_setContent t (buildReplacementContent tagId) (as_messages st)
                    in \<lparr>as_db = persist_drop synthetic tagId (as_db st), as_messages = m',
                        as_mutated = (as_mutated st \<or> changed)\<rparr>)
               | None \<Rightarrow> if synthetic then st else st\<lparr>as_db := persist_drop synthetic tagId (as_db st)\<rparr>))"

definition applyPendingOperations ::
  "(int \<Rightarrow> 'm tag_target option) \<Rightarrow> nat \<Rightarrow> tag_entry list option \<Rightarrow> pending_op list option \<Rightarrow> int list \<Rightarrow> int set \<Rightarrow>
   tag_db \<Rightarrow> 'm \<Rightarrow> 'm apply_state" where
  "applyPendingOperations targets protectedTags preloadedTags preloadedPendingOps synthetic markers db m =
     (let tags = (case preloadedTags of None \<Rightarrow> td_tags db | Some ts \<Rightarrow> ts);
          pendingOps = (case preloadedPendingOps of None \<Rightarrow> getPendingOps db | Some ops \<Rightarrow> ops);
          ops = map (Pair False) (map op_tagId pendingOps) @ map (Pair True) synthetic
      in foldl (apply_pending_step targets (by_number tg_status tags) (by_number tg_type tags)
                  (set (newest_numbers protectedTags isActive tags))
                  (set (newest_numbers RECENT_TOOL_SKELETON_WINDOW (\<lambda>t. tg_type t = ToolTag) tags)) markers)
           \<lparr>as_db = db, as_messages = m, as_mutated = False\<rparr> ops)"

text \<open>Replaying the drops of earlier passes on a fresh transcript; the database is not touched.\<close>

definition apply_flushed_step :: "(int \<Rightarrow> 'm tag_target option) \<Rightarrow> 'm \<times> bool \<Rightarrow> tag_entry \<Rightarrow> 'm \<times> bool" where
  "apply_flushed_step targets st t =
     (let (m, mutated) = st; target = targets (tg_tagNumber t)
      in if tg_status t \<noteq> Dropped then st
         else if tg_type t = ToolTag then
           (case tg_dropMode t of
              EditMarkerDrop \<Rightarrow> (let (r, m') = call_method tt_editMarker target m in (m', mutated \<or> r = TruncatedResult))
            | TruncatedDrop \<Rightarrow> (let (r, m') = call_method tt_truncate target m in (m', mutated \<or> r = TruncatedResult))
            | FullDrop \<Rightarrow> (let (r, m') = call_method tt_drop target m in (m', mutated \<or> r = Removed)))
         else (case target of
                 Some g \<Rightarrow> (let (changed, m') = tt_setContent g (buildReplacementContent (tg_tagNumber t)) m
                            in (m', mutated \<or> changed))
               | None \<Rightarrow> st))"

definition applyFlushedStatuses :: "(int \<Rightarrow> 'm tag_target option) \<Rightarrow> tag_db \<Rightarrow> 'm \<Rightarrow> 'm \<times> bool" where
  "applyFlushedStatuses targets db m = foldl (apply_flushed_step targets) (m, False) (td_tags db)"

section \<open>Superseded calls\<close>

definition CTX_REDUCE_KEEP :: nat where "CTX_REDUCE_KEEP = 3"
definition TODOWRITE_KEEP :: nat where "TODOWRITE_KEEP = 1"

definition newest_first :: "tag_entry list \<Rightarrow> tag_entry list" where
  "newest_first tags = sort_key (\<lambda>t. - tg_tagNumber t) tags"

definition note_action_droppable :: "'m tag_target option \<Rightarrow> 'm \<Rightarrow> bool" where
  "note_action_droppable target m =
     (case target of None \<Rightarrow> False
      | Some t \<Rightarrow> (case tt_readInput t of None \<Rightarrow> False
          | Some read \<Rightarrow> (case get_field (read m) ''action'' of
              Some (JStr a) \<Rightarrow> a = ''read'' \<or> a = ''dismiss'' | _ \<Rightarrow> False)))"

text \<open>The scan, newest first, counts the \<open>todowrite\<close> and \<open>ctx_reduce\<close> calls seen.\<close>

fun supersession_scan ::
  "(int \<Rightarrow> 'm tag_target option) \<Rightarrow> 'm \<Rightarrow> nat \<Rightarrow> nat \<Rightarrow> tag_entry list \<Rightarrow> int list" where
  "supersession_scan targets m todoSeen reduceSeen [] = []"
| "supersession_scan targets m todoSeen reduceSeen (t # ts) =
     (case tg_toolName t of
        None \<Rightarrow> supersession_scan targets m todoSeen reduceSeen ts
      | Some name \<Rightarrow>
          if name = [] then supersession_scan targets m todoSeen reduceSeen ts
          else if name = ''todowrite'' then
            (if TODOWRITE_KEEP < todoSeen + 1 then [tg_tagNumber t] else [])
              @ supersession_scan targets m (todoSeen + 1) reduceSeen ts
          else if name = ''ctx_reduce'' then
            (if CTX_REDUCE_KEEP < reduceSeen + 1 then [tg_tagNumber t] else [])
              @ supersession_scan targets m todoSeen (reduceSeen + 1) ts
          else if name = ''bash_status'' \<or> name = ''bash_kill'' then
            tg_tagNumber t # supersession_scan targets m todoSeen reduceSeen ts
          else if name = ''ctx_note'' \<and> note_action_droppable (targets (tg_tagNumber t)) m then
            tg_tagNumber t # supersession_scan targets m todoSeen reduceSeen ts
          else supersession_scan targets m todoSeen reduceSeen ts)"

definition isActiveTool :: "tag_entry \<Rightarrow> bool" where
  "isActiveTool t = (tg_type t = ToolTag \<and> tg_status t = Active)"

definition buildSupersessionReclaimOps ::
  "(int \<Rightarrow> 'm tag_target option) \<Rightarrow> 'm \<Rightarrow> int set \<Rightarrow> tag_db \<Rightarrow> int list" where
  "buildSupersessionReclaimOps targets m realPending db =
     filter (\<lambda>i. i \<notin> realPending \<and> can_drop (targets i) m)
       (supersession_scan targets m 0 0 (newest_first (filter isActiveTool (td_tags db))))"

definition isEditTool :: "string option \<Rightarrow> bool" where
  "isEditTool name = (name = Some ''edit'' \<or> name = Some ''write'')"

definition readFilePath :: "'m tag_target option \<Rightarrow> 'm \<Rightarrow> string option" where
  "readFilePath target m =
     (case target of None \<Rightarrow> None
      | Some t \<Rightarrow> (case tt_readInput t of None \<Rightarrow> None
          | Some read \<Rightarrow> firstStringField (read m) [''filePath'', ''file_path'', ''path'']))"

fun edit_scan :: "(int \<Rightarrow> 'm tag_target option) \<Rightarrow> 'm \<Rightarrow> int set \<Rightarrow> string set \<Rightarrow> tag_entry list \<Rightarrow> int list" where
  "edit_scan targets m realPending seen [] = []"
| "edit_scan targets m realPending seen (t # ts) =
     (case readFilePath (targets (tg_tagNumber t)) m of
        None \<Rightarrow> edit_scan targets m realPending seen ts
      | Some path \<Rightarrow>
          if path \<notin> seen then edit_scan targets m realPending (insert path seen) ts
          else if tg_tagNumber t \<in> realPending \<or> \<not> can_drop (targets (tg_tagNumber t)) m
            then edit_scan targets m realPending seen ts
          else tg_tagNumber t # edit_scan targets m realPending seen ts)"

definition buildEditSupersessionReclaim ::
  "(int \<Rightarrow> 'm tag_target option) \<Rightarrow> 'm \<Rightarrow> int set \<Rightarrow> tag_db \<Rightarrow> int list \<times> int set" where
  "buildEditSupersessionReclaim targets m realPending db =
     (let ids = edit_scan targets m realPending {}
            (newest_first (filter (\<lambda>t. isActiveTool t \<and> isEditTool (tg_toolName t)) (td_tags db)))
      in (ids, set ids))"

section \<open>What a step of the pass does to the rows\<close>

lemma by_number_unique:
  "distinct (map tg_tagNumber tags) \<Longrightarrow> t \<in> set tags \<Longrightarrow> by_number f tags (tg_tagNumber t) = Some (f t)"
  by (simp add: by_number_def rev_map [symmetric] map_of_eq_Some_iff distinct_map inj_on_def image_iff) blast

definition droppable :: "(int \<Rightarrow> tag_status option) \<Rightarrow> int set \<Rightarrow> int \<Rightarrow> bool" where
  "droppable status prot x \<longleftrightarrow> status x \<noteq> Some Compacted \<and> status x \<noteq> Some Dropped \<and> x \<notin> prot"

lemma tool_drop_cases:
  "as_db (apply_tool_drop s skeleton markers target (b, x) st) = as_db st
   \<or> (\<exists>mode. as_db (apply_tool_drop s skeleton markers target (b, x) st)
        = persist_drop s x (updateTagDropMode x mode (as_db st)))"
proof -
  obtain r1 m1 where m: "call_method tt_editMarker target (as_messages st) = (r1, m1)" by fastforce
  obtain r2 m2 where tr: "call_method tt_truncate target (as_messages st) = (r2, m2)" by fastforce
  obtain r3 m3 where d: "call_method tt_drop target (as_messages st) = (r3, m3)" by fastforce
  show ?thesis by (auto simp: apply_tool_drop_def Let_def m tr d)
qed

lemma apply_step_cases:
  fixes targets status kind prot skeleton markers st s x
  defines "db' \<equiv> as_db (apply_pending_step targets status kind prot skeleton markers st (s, x))"
  shows "db' = as_db st
    \<or> (\<not> s \<and> \<not> droppable status {} x \<and> db' = removePendingOp x (as_db st))
    \<or> (droppable status prot x \<and> ((\<exists>mode. db' = persist_drop s x (updateTagDropMode x mode (as_db st)))
         \<or> db' = persist_drop s x (as_db st)))"
    and "\<not> s \<Longrightarrow> \<not> droppable status {} x \<Longrightarrow> db' = removePendingOp x (as_db st)"
proof -
  show gone: "db' = removePendingOp x (as_db st)" if "\<not> s" "\<not> droppable status {} x"
    using that by (auto simp: db'_def apply_pending_step_def droppable_def Let_def)
  consider (gone) "\<not> droppable status {} x" | (kept) "x \<in> prot" | (free) "droppable status prot x"
    by (auto simp: droppable_def)
  then show "db' = as_db st \<or> (\<not> s \<and> \<not> droppable status {} x \<and> db' = removePendingOp x (as_db st))
    \<or> (droppable status prot x \<and> ((\<exists>mode. db' = persist_drop s x (updateTagDropMode x mode (as_db st)))
         \<or> db' = persist_drop s x (as_db st)))"
  proof cases
    case gone
    then show ?thesis using \<open>\<lbrakk>\<not> s; \<not> droppable status {} x\<rbrakk> \<Longrightarrow> db' = removePendingOp x (as_db st)\<close>
      by (cases s) (auto simp: db'_def apply_pending_step_def droppable_def Let_def)
  next
    case kept
    then show ?thesis by (auto simp: db'_def apply_pending_step_def droppable_def Let_def)
  next
    case free
    then have f: "\<not> (status x = Some Compacted \<or> status x = Some Dropped)" "x \<notin> prot" by (auto simp: droppable_def)
    show ?thesis
      using free tool_drop_cases [of s skeleton markers "targets x" s x st]
      unfolding db'_def apply_pending_step_def Let_def split_beta fst_conv snd_conv if_not_P [OF f(1)] if_not_P [OF f(2)]
      by (cases "targets x") auto
  qed
qed

definition row_step :: "int set \<Rightarrow> tag_entry \<Rightarrow> tag_entry \<Rightarrow> bool" where
  "row_step prot t t' \<longleftrightarrow> tg_tagNumber t' = tg_tagNumber t \<and> tg_type t' = tg_type t
     \<and> (t' = t \<or> (tg_status t = Active \<and> tg_tagNumber t \<notin> prot))
     \<and> (tg_status t' = tg_status t \<or> (tg_status t = Active \<and> tg_status t' = Dropped))"

definition rows_ok :: "int set \<Rightarrow> tag_entry list \<Rightarrow> tag_db \<Rightarrow> bool" where
  "rows_ok prot tags db \<longleftrightarrow> list_all2 (row_step prot) tags (td_tags db)"

lemma rows_ok_update:
  assumes d: "distinct (map tg_tagNumber tags)" and ok: "rows_ok prot tags db"
    and x: "droppable (by_number tg_status tags) prot x"
    and f: "\<And>t. tg_tagNumber (f t) = tg_tagNumber t \<and> tg_type (f t) = tg_type t \<and> (tg_status (f t) = tg_status t \<or> tg_status (f t) = Dropped)"
  shows "rows_ok prot tags (db\<lparr>td_tags := map (\<lambda>t. if tg_tagNumber t = x then f t else t) (td_tags db)\<rparr>)"
proof -
  have active: "tg_status t = Active" if "t \<in> set tags" "tg_tagNumber t = x" for t
    using x by_number_unique [OF d that(1), of tg_status] that(2) by (cases "tg_status t") (auto simp: droppable_def)
  have "row_step prot t (if tg_tagNumber t' = x then f t' else t')" if "row_step prot t t'" "t \<in> set tags" for t t'
    using that f [of t'] active [of t] x by (auto simp: row_step_def droppable_def)
  then show ?thesis
    using ok by (auto simp: rows_ok_def list_all2_conv_all_nth)
qed

lemma persist_rows:
  assumes "distinct (map tg_tagNumber tags)" "rows_ok prot tags db" "droppable (by_number tg_status tags) prot x"
  shows "rows_ok prot tags (persist_drop s x db)" "rows_ok prot tags (updateTagDropMode x mode db)"
proof -
  have "rows_ok prot tags (updateTagStatus x Dropped db)"
    unfolding updateTagStatus_def by (rule rows_ok_update [OF assms]) simp
  then show "rows_ok prot tags (persist_drop s x db)"
    by (simp add: persist_drop_def removePendingOp_def rows_ok_def Let_def)
  show "rows_ok prot tags (updateTagDropMode x mode db)"
    unfolding updateTagDropMode_def by (rule rows_ok_update [OF assms]) simp
qed

lemma removePending_rows [simp]: "rows_ok prot tags (removePendingOp x db) = rows_ok prot tags db"
  by (simp add: rows_ok_def removePendingOp_def)

text \<open>The queue after a step: ids only leave it, and a dropped row has no operation left.\<close>

definition queue_ids :: "tag_db \<Rightarrow> int set" where
  "queue_ids db = op_tagId ` set (td_ops db)"

definition queue_ok :: "tag_entry list \<Rightarrow> tag_db \<Rightarrow> bool" where
  "queue_ok tags db \<longleftrightarrow> (\<forall>t\<in>set tags. \<forall>t'\<in>set (td_tags db).
     tg_tagNumber t' = tg_tagNumber t \<longrightarrow> tg_tagNumber t \<in> queue_ids db \<longrightarrow> tg_status t' = tg_status t)"

lemma queue_ids_ops [simp]:
  "queue_ids (removePendingOp x db) = queue_ids db - {x}"
  "queue_ids (updateTagStatus x st db) = queue_ids db" "queue_ids (updateTagDropMode x mode db) = queue_ids db"
  by (auto simp: queue_ids_def removePendingOp_def updateTagStatus_def updateTagDropMode_def)

lemma queue_ids_persist: "queue_ids (persist_drop s x db) = (if s then queue_ids db else queue_ids db - {x})"
  by (simp add: persist_drop_def Let_def)

lemma queue_ok_mode: "queue_ok tags db \<Longrightarrow> queue_ok tags (updateTagDropMode x mode db)"
  by (auto simp: queue_ok_def) (auto simp: updateTagDropMode_def)

lemma queue_ok_persist:
  assumes "queue_ok tags db" "s \<Longrightarrow> x \<notin> queue_ids db"
  shows "queue_ok tags (persist_drop s x db)"
proof -
  have "tg_tagNumber t \<noteq> x" if "tg_tagNumber t \<in> queue_ids (persist_drop s x db)" for t
    using that assms(2) by (auto simp: queue_ids_persist split: if_splits)
  then show ?thesis
    using assms(1) unfolding queue_ok_def queue_ids_persist
    by (fastforce simp: persist_drop_def updateTagStatus_def removePendingOp_def Let_def split: if_splits)
qed

lemma pass_step:
  fixes targets kind skeleton markers
  assumes d: "distinct (map tg_tagNumber tags)"
    and ok: "rows_ok prot tags (as_db st)" "queue_ok tags (as_db st)" and s: "s \<Longrightarrow> x \<notin> queue_ids (as_db st)"
  defines "st' \<equiv> apply_pending_step targets (by_number tg_status tags) kind prot skeleton markers st (s, x)"
  shows "rows_ok prot tags (as_db st')" "queue_ok tags (as_db st')" "queue_ids (as_db st') \<subseteq> queue_ids (as_db st)"
    and "\<not> s \<Longrightarrow> \<not> droppable (by_number tg_status tags) {} x \<Longrightarrow> x \<notin> queue_ids (as_db st')"
proof -
  note c = apply_step_cases [where targets = targets and status = "by_number tg_status tags" and kind = kind and prot = prot
      and skeleton = skeleton and markers = markers and st = st and s = s and x = x, folded st'_def]
  have q: "queue_ok tags (removePendingOp x (as_db st))"
    using ok(2) unfolding queue_ok_def queue_ids_ops by (simp add: removePendingOp_def)
  show "rows_ok prot tags (as_db st')"
    using c(1) ok(1) persist_rows [OF d] by auto
  show "queue_ok tags (as_db st')"
    using c(1) ok(2) q s queue_ok_mode [OF ok(2)] by (auto intro!: queue_ok_persist)
  show "queue_ids (as_db st') \<subseteq> queue_ids (as_db st)"
    using c(1) by (auto simp: queue_ids_persist split: if_splits)
  show "\<not> s \<Longrightarrow> \<not> droppable (by_number tg_status tags) {} x \<Longrightarrow> x \<notin> queue_ids (as_db st')"
    using c(2) by auto
qed

lemma pass_fold:
  fixes targets kind skeleton markers
  assumes d: "distinct (map tg_tagNumber tags)"
    and ok: "rows_ok prot tags (as_db st)" "queue_ok tags (as_db st)"
    and syn: "\<forall>(s, x)\<in>set ops. s \<longrightarrow> x \<notin> queue_ids (as_db st)"
  defines "st' \<equiv> foldl (apply_pending_step targets (by_number tg_status tags) kind prot skeleton markers) st ops"
  shows "rows_ok prot tags (as_db st') \<and> queue_ok tags (as_db st') \<and> queue_ids (as_db st') \<subseteq> queue_ids (as_db st)
    \<and> (\<forall>x\<in>queue_ids (as_db st'). (False, x) \<in> set ops \<longrightarrow> droppable (by_number tg_status tags) {} x)"
  unfolding st'_def using ok syn
proof (induction ops arbitrary: st)
  case (Cons op ops)
  obtain s x where op: "op = (s, x)" by (cases op)
  let ?st = "apply_pending_step targets (by_number tg_status tags) kind prot skeleton markers st (s, x)"
  have sx: "s \<Longrightarrow> x \<notin> queue_ids (as_db st)" using Cons.prems(3) by (simp add: op)
  note p = pass_step [OF d Cons.prems(1,2), of s x, OF sx, where targets = targets and kind = kind and skeleton = skeleton
      and markers = markers]
  have syn: "\<forall>(s, x)\<in>set ops. s \<longrightarrow> x \<notin> queue_ids (as_db ?st)"
    using Cons.prems(3) p(3) by (auto simp: op)
  show ?case
    using Cons.IH [OF p(1,2) syn] p(3,4) unfolding op list.simps foldl.simps by blast
qed simp

lemma in_queue_ops: "x \<in> queue_ids db \<longleftrightarrow> x \<in> set (map op_tagId (getPendingOps db))"
  by (auto simp: queue_ids_def getPendingOps_def)

section \<open>What a superseded call leaves behind\<close>

definition named :: "string \<Rightarrow> tag_entry \<Rightarrow> bool" where
  "named name t = (tg_toolName t = Some name)"

definition superseded_kinds :: "string option set" where
  "superseded_kinds = Some ` {''todowrite'', ''ctx_reduce'', ''bash_status'', ''bash_kill'', ''ctx_note''}"

definition scan_hit :: "nat \<Rightarrow> nat \<Rightarrow> int \<Rightarrow> tag_entry list \<Rightarrow> tag_entry \<Rightarrow> bool" where
  "scan_hit todo red i us t \<longleftrightarrow> tg_tagNumber t = i \<and> tg_toolName t \<in> superseded_kinds
     \<and> (named ''todowrite'' t \<longrightarrow> TODOWRITE_KEEP \<le> todo + length (filter (named ''todowrite'') us))
     \<and> (named ''ctx_reduce'' t \<longrightarrow> CTX_REDUCE_KEEP \<le> red + length (filter (named ''ctx_reduce'') us))"

lemma scan_hit_later:
  "scan_hit (todo + (if named ''todowrite'' u then 1 else 0)) (red + (if named ''ctx_reduce'' u then 1 else 0)) i us t
   \<Longrightarrow> scan_hit todo red i (u # us) t"
  by (auto simp: scan_hit_def split: if_splits)

lemma scan_next:
  assumes "i \<in> set (supersession_scan targets m todo red (u # ts))"
  shows "scan_hit todo red i [] u
    \<or> i \<in> set (supersession_scan targets m (todo + (if named ''todowrite'' u then 1 else 0))
        (red + (if named ''ctx_reduce'' u then 1 else 0)) ts)"
proof (cases "tg_toolName u")
  case (Some name)
  note a = assms [unfolded supersession_scan.simps Some option.case]
  show ?thesis
  proof (cases "name = ''todowrite'' \<or> name = ''ctx_reduce''")
    case True
    then show ?thesis
    proof
      assume n: "name = ''todowrite''"
      from a show ?thesis by (auto simp add: n Some scan_hit_def named_def superseded_kinds_def split: if_splits)
    next
      assume n: "name = ''ctx_reduce''"
      from a show ?thesis by (auto simp add: n Some scan_hit_def named_def superseded_kinds_def split: if_splits)
    qed
  next
    case False
    then have n: "\<not> named ''todowrite'' u" "\<not> named ''ctx_reduce'' u" by (simp_all add: named_def Some)
    have "i \<in> set (supersession_scan targets m todo red ts)
        \<or> (i = tg_tagNumber u \<and> name \<in> {''bash_status'', ''bash_kill'', ''ctx_note''})"
      using a False by (simp only: de_Morgan_disj if_False split: if_splits) auto
    with n Some show ?thesis by (auto simp: scan_hit_def superseded_kinds_def)
  qed
qed (use assms in \<open>simp add: named_def\<close>)

lemma supersession_scan_split:
  "i \<in> set (supersession_scan targets m todo red ts) \<Longrightarrow>
   \<exists>us t vs. ts = us @ t # vs \<and> scan_hit todo red i us t"
proof (induction ts arbitrary: todo red)
  case (Cons u ts)
  from scan_next [OF Cons.prems] show ?case
  proof
    assume "scan_hit todo red i [] u"
    then show ?thesis by (metis append_Nil)
  next
    assume "i \<in> set (supersession_scan targets m (todo + (if named ''todowrite'' u then 1 else 0))
        (red + (if named ''ctx_reduce'' u then 1 else 0)) ts)"
    from Cons.IH [OF this] scan_hit_later show ?thesis by (metis append_Cons)
  qed
qed simp

lemma newest_first_sorted: "distinct (map tg_tagNumber tags) \<Longrightarrow> newest_first tags = us @ t # vs \<Longrightarrow>
   \<forall>u\<in>set us. tg_tagNumber t < tg_tagNumber u"
proof -
  assume d: "distinct (map tg_tagNumber tags)" and s: "newest_first tags = us @ t # vs"
  have "inj_on tg_tagNumber (set (newest_first tags))" "distinct (newest_first tags)"
    using d by (auto simp: newest_first_def distinct_map)
  moreover have "sorted (map (\<lambda>t. - tg_tagNumber t) (newest_first tags))"
    by (simp add: newest_first_def)
  ultimately show ?thesis
    unfolding s by (fastforce simp: sorted_append inj_on_def order_le_less)
qed

section \<open>Properties\<close>

text \<open>
  \<open>ctx_reduce\<close> queues exactly the requested tags that are new: it changes nothing unless it
  reports what it queued, and then every queued id is a known tag that is neither dropped, compacted
  nor already pending, appears once, and is reported as deferred exactly when it is one of the
  protected newest tags.
\<close>

theorem reduce_queues_new_tags_only:
  assumes "ctx_reduce_execute protectedTags tokens now commits arg db = (db', r)"
  shows "case r of
      Queued imm def k \<Rightarrow> td_tags db' = td_tags db \<and>
       (\<exists>ids. map op_tagId (td_ops db') = map op_tagId (td_ops db) @ ids \<and> distinct ids \<and> ids \<noteq> []
          \<and> set imm \<union> set def = set ids \<and> set imm \<inter> set def = {}
          \<and> set def \<subseteq> set (newest_numbers protectedTags isActive (td_tags db))
          \<and> (\<forall>i\<in>set ids. i \<in> tg_tagNumber ` set (td_tags db) \<and> i \<notin> queue_ids db
               \<and> by_number tg_status (td_tags db) i \<notin> {Some Dropped, Some Compacted}))
    | _ \<Rightarrow> db' = db"
proof (cases r)
  case (Queued imm def k)
  have ops: "map op_tagId (td_ops (foldl (\<lambda>d i. queuePendingOp now i d) db xs)) = map op_tagId (td_ops db) @ xs
      \<and> td_tags (foldl (\<lambda>d i. queuePendingOp now i d) db xs) = td_tags db" for xs
    by (induction xs arbitrary: db) (simp_all add: queuePendingOp_def)
  from assms Queued obtain dropIds where p: "parseRangeString arg = Inr dropIds"
    by (auto simp: ctx_reduce_execute_def Let_def split: if_splits sum.splits)
  let ?fresh = "filter (\<lambda>i. by_number tg_status (td_tags db) i \<noteq> Some Dropped \<and> i \<notin> set (map op_tagId (getPendingOps db))) dropIds"
  have dist: "distinct dropIds"
    using p by (auto simp: parseRangeString_def Let_def split: if_splits sum.splits)
  from assms Queued p have
    u: "\<forall>i\<in>set dropIds. i \<in> tg_tagNumber ` set (td_tags db)"
    and c: "\<forall>i\<in>set dropIds. by_number tg_status (td_tags db) i \<noteq> Some Compacted"
    and ne: "?fresh \<noteq> []"
    and db': "db' = (foldl (\<lambda>d i. queuePendingOp now i d) db ?fresh)\<lparr>td_lastNudgeTokens := tokens\<rparr>"
    and imm: "imm = filter (\<lambda>i. i \<notin> set (newest_numbers protectedTags isActive (td_tags db))) ?fresh"
    and deft: "def = dedup_first (filter (\<lambda>i. i \<in> set (newest_numbers protectedTags isActive (td_tags db))) ?fresh)"
    by (auto simp: ctx_reduce_execute_def Let_def filter_empty_conv split: if_splits)
  have "map op_tagId (td_ops db') = map op_tagId (td_ops db) @ ?fresh \<and> distinct ?fresh \<and> ?fresh \<noteq> []
      \<and> set imm \<union> set def = set ?fresh \<and> set imm \<inter> set def = {}
      \<and> set def \<subseteq> set (newest_numbers protectedTags isActive (td_tags db))
      \<and> (\<forall>i\<in>set ?fresh. i \<in> tg_tagNumber ` set (td_tags db) \<and> i \<notin> queue_ids db
           \<and> by_number tg_status (td_tags db) i \<notin> {Some Dropped, Some Compacted})"
    using ops [of ?fresh] dist u c ne by (auto simp: db' imm deft in_queue_ops)
  moreover have "td_tags db' = td_tags db" using ops [of ?fresh] by (simp add: db')
  ultimately show ?thesis unfolding Queued reduce_reply.case by blast
qed (use assms in \<open>auto simp: ctx_reduce_execute_def Let_def split: if_splits sum.splits\<close>)

definition example_tag :: "int \<Rightarrow> tag_entry" where
  "example_tag n = \<lparr>tg_tagNumber = n, tg_type = ToolTag, tg_status = Active, tg_dropMode = FullDrop,
     tg_toolName = Some ''bash'', tg_byteSize = 100, tg_inputByteSize = 0, tg_reasoningByteSize = 0\<rparr>"

definition example_tags :: tag_db where
  "example_tags = \<lparr>td_tags = map example_tag [1, 2, 3], td_ops = [\<lparr>op_id = 1, op_tagId = 2, op_queuedAt = 0\<rparr>],
     td_nextOpId = 2, td_lastNudgeTokens = 0\<rparr>"

theorem reduce_queues_new_tags_only_witness:
  "td_tags (fst (ctx_reduce_execute 1 500 9 True ''1-3'' example_tags)) = td_tags example_tags"
  using reduce_queues_new_tags_only [of 1 500 9 True "''1-3''" example_tags
      "fst (ctx_reduce_execute 1 500 9 True ''1-3'' example_tags)" "snd (ctx_reduce_execute 1 500 9 True ''1-3'' example_tags)"]
  by (auto split: reduce_reply.splits)

text \<open>
  C18: The pass that applies the queue is safe: no row is added or renumbered, a status only moves from
  active to dropped, the protected newest tags are untouched, and afterwards every operation still
  queued for a tag of the session finds that tag active. The tags and the queue may be handed over
  preloaded, as they are in the database.
\<close>

theorem applied_queue_is_consistent:
  assumes "distinct (map tg_tagNumber (td_tags db))" "set synthetic \<inter> queue_ids db = {}"
    and "preloadedTags \<in> {None, Some (td_tags db)}" "preloadedPendingOps \<in> {None, Some (getPendingOps db)}"
  shows "let db' = as_db (applyPendingOperations targets protectedTags preloadedTags preloadedPendingOps synthetic markers db m);
         prot = set (newest_numbers protectedTags isActive (td_tags db))
     in list_all2 (row_step prot) (td_tags db) (td_tags db')
      \<and> (\<forall>t'\<in>set (td_tags db'). tg_tagNumber t' \<in> queue_ids db' \<longrightarrow> tg_status t' = Active)"
proof -
  let ?tags = "td_tags db" and ?prot = "set (newest_numbers protectedTags isActive (td_tags db))"
  let ?ops = "map (Pair False) (map op_tagId (getPendingOps db)) @ map (Pair True) synthetic"
  let ?db' = "as_db (applyPendingOperations targets protectedTags preloadedTags preloadedPendingOps synthetic markers db m)"
  have init: "rows_ok ?prot ?tags db" "queue_ok ?tags db"
    using assms(1) by (auto simp: rows_ok_def row_step_def list_all2_conv_all_nth queue_ok_def distinct_map inj_on_def)
  have "\<forall>(s, x)\<in>set ?ops. s \<longrightarrow> x \<notin> queue_ids db" using assms(2) by auto
  let ?st = "\<lparr>as_db = db, as_messages = m, as_mutated = False\<rparr>"
  let ?F = "apply_pending_step targets (by_number tg_status ?tags) (by_number tg_type ?tags) ?prot
      (set (newest_numbers RECENT_TOOL_SKELETON_WINDOW (\<lambda>t. tg_type t = ToolTag) ?tags)) markers"
  have st: "rows_ok ?prot ?tags (as_db ?st)" "queue_ok ?tags (as_db ?st)"
    "\<forall>(s, x)\<in>set ?ops. s \<longrightarrow> x \<notin> queue_ids (as_db ?st)"
    using init \<open>\<forall>(s, x)\<in>set ?ops. s \<longrightarrow> x \<notin> queue_ids db\<close> by simp_all
  have pre: "(case preloadedTags of None \<Rightarrow> ?tags | Some ts \<Rightarrow> ts) = ?tags"
    "(case preloadedPendingOps of None \<Rightarrow> getPendingOps db | Some ops \<Rightarrow> ops) = getPendingOps db"
    using assms(3,4) by auto
  have eq: "applyPendingOperations targets protectedTags preloadedTags preloadedPendingOps synthetic markers db m = foldl ?F ?st ?ops"
    unfolding applyPendingOperations_def Let_def pre by (rule refl)
  note f = pass_fold [OF assms(1) st, where targets = targets and kind = "by_number tg_type ?tags" and markers = markers
      and skeleton = "set (newest_numbers RECENT_TOOL_SKELETON_WINDOW (\<lambda>t. tg_type t = ToolTag) ?tags)", folded eq]
  from f have r: "rows_ok ?prot ?tags ?db'" and q: "queue_ok ?tags ?db'" and sub: "queue_ids ?db' \<subseteq> queue_ids db"
    and dr0: "\<forall>x\<in>queue_ids ?db'. (False, x) \<in> set ?ops \<longrightarrow> droppable (by_number tg_status ?tags) {} x" by simp_all
  have dr: "\<forall>x\<in>queue_ids ?db'. droppable (by_number tg_status ?tags) {} x"
  proof
    fix x assume x: "x \<in> queue_ids ?db'"
    with sub have "x \<in> queue_ids db" by blast
    then have "(False, x) \<in> set ?ops" by (auto simp: in_queue_ops)
    with dr0 x show "droppable (by_number tg_status ?tags) {} x" by blast
  qed
  have "tg_status t' = Active" if t': "t' \<in> set (td_tags ?db')" "tg_tagNumber t' \<in> queue_ids ?db'" for t'
  proof -
    obtain t where t: "t \<in> set ?tags" "tg_tagNumber t' = tg_tagNumber t"
      using r t'(1) by (auto simp: rows_ok_def row_step_def list_all2_conv_all_nth in_set_conv_nth) metis
    have "tg_status t' = tg_status t" using q t t' by (auto simp: queue_ok_def)
    moreover have "tg_status t = Active"
      using dr t t'(2) by_number_unique [OF assms(1) t(1), of tg_status]
      by (cases "tg_status t") (auto simp: droppable_def)
    ultimately show ?thesis by simp
  qed
  with r show ?thesis by (simp add: Let_def rows_ok_def)
qed

theorem applied_queue_is_consistent_witness:
  "let db' = as_db (applyPendingOperations (\<lambda>_. None) 1 None (Some (getPendingOps example_tags)) [1] {} example_tags ())
   in \<forall>t'\<in>set (td_tags db'). tg_tagNumber t' \<in> queue_ids db' \<longrightarrow> tg_status t' = Active"
proof -
  have "distinct (map tg_tagNumber (td_tags example_tags))" "set [1] \<inter> queue_ids example_tags = {}"
    by (simp_all add: example_tags_def example_tag_def queue_ids_def)
  from applied_queue_is_consistent [OF this, of None "Some (getPendingOps example_tags)" "\<lambda>_. None" 1 "{}" "()"] show ?thesis
    by (simp add: Let_def)
qed

text \<open>
  Supersession keeps what is still current: an operation the plugin adds on its own drops an active
  tool call of a known kind that can be dropped and has no operation of its own queued; a \<open>ctx_reduce\<close>
  call only goes when three newer ones stay, a \<open>todowrite\<close> call only when a newer one stays.
\<close>

theorem supersession_keeps_newest:
  assumes "distinct (map tg_tagNumber (td_tags db))"
    and "i \<in> set (buildSupersessionReclaimOps targets m realPending db)"
  shows "i \<notin> realPending \<and> can_drop (targets i) m
    \<and> (\<exists>t\<in>set (td_tags db). tg_tagNumber t = i \<and> isActiveTool t
        \<and> tg_toolName t \<in> superseded_kinds
        \<and> (named ''ctx_reduce'' t \<longrightarrow>
             3 \<le> length (filter (\<lambda>u. isActiveTool u \<and> named ''ctx_reduce'' u \<and> i < tg_tagNumber u) (td_tags db)))
        \<and> (named ''todowrite'' t \<longrightarrow>
             1 \<le> length (filter (\<lambda>u. isActiveTool u \<and> named ''todowrite'' u \<and> i < tg_tagNumber u) (td_tags db))))"
proof -
  let ?tags = "filter isActiveTool (td_tags db)"
  have d: "distinct (map tg_tagNumber ?tags)" using assms(1) by (rule distinct_map_filter)
  from assms(2) supersession_scan_split [of i targets m 0 0 "newest_first ?tags"] obtain us t vs
    where s: "newest_first ?tags = us @ t # vs" "scan_hit 0 0 i us t"
    by (auto simp: buildSupersessionReclaimOps_def)
  then have i: "tg_tagNumber t = i" by (simp add: scan_hit_def)
  have mem: "t \<in> set ?tags" using arg_cong [OF s(1), of set] by (simp add: newest_first_def)
  have n: "length (filter (named name) us)
      \<le> length (filter (\<lambda>u. isActiveTool u \<and> named name u \<and> i < tg_tagNumber u) (td_tags db))" for name
  proof -
    have "length (filter (named name) us) = length (filter (\<lambda>u. named name u \<and> i < tg_tagNumber u) us)"
      using newest_first_sorted [OF d s(1)] i by (intro arg_cong [where f = length] filter_cong) auto
    also have "\<dots> \<le> length (filter (\<lambda>u. named name u \<and> i < tg_tagNumber u) (newest_first ?tags))"
      by (simp add: s(1))
    also have "\<dots> = length (filter (\<lambda>u. named name u \<and> i < tg_tagNumber u) ?tags)"
      by (simp add: newest_first_def filter_sort)
    finally show ?thesis by (simp add: filter_filter conj_ac)
  qed
  have "i \<notin> realPending \<and> can_drop (targets i) m"
    using assms(2) by (simp add: buildSupersessionReclaimOps_def)
  moreover have "t \<in> set (td_tags db)" "isActiveTool t" using mem by simp_all
  ultimately show ?thesis
    using s(2) i order_trans [OF _ n [of "''ctx_reduce''"]] order_trans [OF _ n [of "''todowrite''"]]
    unfolding scan_hit_def TODOWRITE_KEEP_def CTX_REDUCE_KEEP_def add_0 by blast
qed

definition droppable_target :: "nat tag_target" where
  "droppable_target = \<lparr>tt_setContent = \<lambda>_ m. (True, m), tt_drop = Some (\<lambda>m. (Removed, m)), tt_truncate = None,
     tt_editMarker = None, tt_canDrop = Some (\<lambda>_. True), tt_readInput = None\<rparr>"

definition reduce_history :: tag_db where
  "reduce_history = example_tags\<lparr>td_tags := map (\<lambda>n. (example_tag n)\<lparr>tg_toolName := Some ''ctx_reduce''\<rparr>) [1, 2, 3, 4]\<rparr>"

theorem supersession_keeps_newest_witness:
  "3 \<le> length (filter (\<lambda>u. isActiveTool u \<and> named ''ctx_reduce'' u \<and> 1 < tg_tagNumber u) (td_tags reduce_history))"
proof -
  have d: "distinct (map tg_tagNumber (td_tags reduce_history))"
    by (simp add: reduce_history_def example_tag_def)
  have "1 \<in> set (buildSupersessionReclaimOps (\<lambda>_. Some droppable_target) 0 {} reduce_history)"
    by (simp add: buildSupersessionReclaimOps_def newest_first_def reduce_history_def example_tag_def isActiveTool_def
        can_drop_def droppable_target_def CTX_REDUCE_KEEP_def)
  from supersession_keeps_newest [OF d this] show ?thesis
    by (auto simp: named_def reduce_history_def example_tag_def)
qed

end
