(* ===== verification/Emergency_Drop.thy ===== *)
theory Emergency_Drop
  imports Tag_Lifecycle
begin

text \<open>
  The emergency drop: the planner that picks tool tags tier by tier until the live tail is back at its
  target (\<open>hooks/magic-context/emergency-drop.ts\<close>), the part of the heuristic cleanup that carries the
  plan out (\<open>hooks/magic-context/heuristic-cleanup.ts\<close>) and the decision to abort a request that would
  overflow (\<open>evaluateEmergencyFailClosed\<close> in \<open>transform-postprocess-phase.ts\<close>).
\<close>

section \<open>The planner\<close>

definition TOKENS_PER_BYTE :: real where [config_simps]: "TOKENS_PER_BYTE = 1/4"
definition TARGET_FRACTION :: real where [config_simps]: "TARGET_FRACTION = 3/10"
definition TIER_RECENCY_RESERVE :: real where [config_simps]: "TIER_RECENCY_RESERVE = 2/10"
definition EMERGENCY_REARM_MIN_TOKENS :: int where [config_simps]: "EMERGENCY_REARM_MIN_TOKENS = 2000"

datatype tier = T1 | T2 | T3

definition T1_TOOLS :: "string list" where
  "T1_TOOLS = [''read'', ''todowrite'', ''task'', ''aft_outline'', ''aft_zoom'']"

definition T2_TOOLS :: "string list" where
  "T2_TOOLS = [''edit'', ''write'', ''apply_patch'', ''grep'', ''glob'', ''aft_search'']"

definition normalizeToolName :: "string option \<Rightarrow> string" where
  "normalizeToolName toolName =
     (case toolName of None \<Rightarrow> []
      | Some n \<Rightarrow> let name = to_lower n in if starts_with ''mcp_'' name then drop 4 name else name)"

definition resolveToolTier :: "string option \<Rightarrow> tier" where
  "resolveToolTier toolName =
     (let name = normalizeToolName toolName
      in if name \<in> set T1_TOOLS then T1 else if name \<in> set T2_TOOLS then T2 else T3)"

definition tagReclaimBytes :: "tag_entry \<Rightarrow> int" where
  "tagReclaimBytes t = tg_byteSize t + tg_inputByteSize t + tg_reasoningByteSize t"

definition estimateEmergencyDropReclaimTokens :: "tag_entry \<Rightarrow> int" where
  "estimateEmergencyDropReclaimTokens t = math_round (of_int (tagReclaimBytes t) * TOKENS_PER_BYTE)"

definition newestCtxReduceTagNumbers :: "tag_entry list \<Rightarrow> int set" where
  "newestCtxReduceTagNumbers tags = set (newest_numbers CTX_REDUCE_KEEP (named ''ctx_reduce'') tags)"

datatype drop_reason =
    UnknownCeiling
  | UnknownUsage
  | SameInputSample
  | BelowMinimum int
  | NoCandidates
  | TieredDrop nat int int

record drop_plan =
  dp_shouldDrop :: bool
  dp_tagNumbers :: "int list"
  dp_reclaimTokens :: int
  dp_reason :: drop_reason

definition noop_plan :: "drop_reason \<Rightarrow> drop_plan" where
  "noop_plan r = \<lparr>dp_shouldDrop = False, dp_tagNumbers = [], dp_reclaimTokens = 0, dp_reason = r\<rparr>"

record drop_input =
  di_tags :: "tag_entry list"
  di_floorTags :: "tag_entry list"
  di_maxTag :: int
  di_protectedTags :: int
  di_currentTotalInputTokens :: jsnum
  di_ceilingTokens :: jsnum
  di_priorInputSample :: int
  di_hasPriorDrop :: bool

definition fixed_floor :: "tag_entry list \<Rightarrow> real \<Rightarrow> real" where
  "fixed_floor floorTags current =
     max (current - of_int (sum_list (map estimateEmergencyDropReclaimTokens (filter isActive floorTags)))) 0"

definition drop_target :: "tag_entry list \<Rightarrow> real \<Rightarrow> real \<Rightarrow> real" where
  "drop_target floorTags current ceiling_t =
     (let floor_t = fixed_floor floorTags current in floor_t + TARGET_FRACTION * max (ceiling_t - floor_t) 0)"

definition in_tier :: "tier \<Rightarrow> tag_entry \<Rightarrow> bool" where
  "in_tier k t = (isActiveTool t \<and> resolveToolTier (tg_toolName t) = k)"

definition reserved_numbers :: "tag_entry list \<Rightarrow> tier \<Rightarrow> int set" where
  "reserved_numbers tags k =
     set (newest_numbers (nat \<lceil>TIER_RECENCY_RESERVE * real (length (filter (in_tier k) tags))\<rceil>) (in_tier k) tags)"

definition evictable :: "drop_input \<Rightarrow> tag_entry \<Rightarrow> bool" where
  "evictable inp t =
     (isActiveTool t
      \<and> tg_tagNumber t \<le> di_maxTag inp - di_protectedTags inp
      \<and> tg_tagNumber t \<notin> newestCtxReduceTagNumbers (filter isActiveTool (di_floorTags inp))
      \<and> (resolveToolTier (tg_toolName t) \<in> {T1, T2} \<longrightarrow>
           tg_tagNumber t \<notin> reserved_numbers (di_tags inp) T1 \<union> reserved_numbers (di_tags inp) T2))"

definition tier_group :: "drop_input \<Rightarrow> tier \<Rightarrow> tag_entry list" where
  "tier_group inp k =
     sort_key tg_tagNumber (filter (\<lambda>t. evictable inp t \<and> resolveToolTier (tg_toolName t) = k) (di_tags inp))"

definition eviction_order :: "drop_input \<Rightarrow> tag_entry list" where
  "eviction_order inp = tier_group inp T3 @ tier_group inp T2 @ tier_group inp T1"

text \<open>The selection loop: the tag that reaches the target is the last one taken.\<close>

fun select_until :: "int \<Rightarrow> int \<Rightarrow> tag_entry list \<Rightarrow> tag_entry list \<times> int" where
  "select_until goal reclaimed [] = ([], reclaimed)"
| "select_until goal reclaimed (t # ts) =
     (let reclaimed' = reclaimed + estimateEmergencyDropReclaimTokens t
      in if goal \<le> reclaimed' then ([t], reclaimed')
         else (let (sel, r) = select_until goal reclaimed' ts in (t # sel, r)))"

definition planEmergencyDrop :: "drop_input \<Rightarrow> drop_plan" where
  "planEmergencyDrop inp =
     (case di_ceilingTokens inp of None \<Rightarrow> noop_plan UnknownCeiling
      | Some ceiling_t \<Rightarrow>
        if ceiling_t \<le> 0 then noop_plan UnknownCeiling
        else case di_currentTotalInputTokens inp of None \<Rightarrow> noop_plan UnknownUsage
      | Some current \<Rightarrow>
        if current \<le> 0 then noop_plan UnknownUsage
        else if di_hasPriorDrop inp \<and> current = of_int (di_priorInputSample inp) then noop_plan SameInputSample
        else
          let reclaimTokens = math_round (current - drop_target (di_floorTags inp) current ceiling_t)
          in if reclaimTokens \<le> EMERGENCY_REARM_MIN_TOKENS then noop_plan (BelowMinimum reclaimTokens)
             else
               let (selected, reclaimed) = select_until reclaimTokens 0 (eviction_order inp)
               in if selected = [] then noop_plan NoCandidates
                  else \<lparr>dp_shouldDrop = True, dp_tagNumbers = map tg_tagNumber selected,
                        dp_reclaimTokens = reclaimTokens,
                        dp_reason = TieredDrop (length selected) reclaimed reclaimTokens\<rparr>)"

section \<open>Carrying out the plan\<close>

definition EMERGENCY_NEWEST_WINDOW :: nat where "EMERGENCY_NEWEST_WINDOW = 20"

record 'm emergency_state =
  es_db :: tag_db
  es_messages :: 'm
  es_inputSample :: int
  es_droppedTools :: nat
  es_reclaimedTokens :: int

definition getMaxTagNumberBySession :: "tag_db \<Rightarrow> int" where
  "getMaxTagNumberBySession db = (if td_tags db = [] then 0 else Max (set (map tg_tagNumber (td_tags db))))"

definition getActiveTagsBySession :: "tag_db \<Rightarrow> tag_entry list" where
  "getActiveTagsBySession db = sort_key tg_tagNumber (filter isActive (td_tags db))"

text \<open>\<open>target?.truncate?.() ?? target?.drop?.() ?? "absent"\<close> for a recent tag, without the first part otherwise.\<close>

definition emergency_call :: "bool \<Rightarrow> 'm tag_target option \<Rightarrow> 'm \<Rightarrow> drop_result \<times> 'm" where
  "emergency_call recent target m =
     (if recent \<and> (case target of None \<Rightarrow> False | Some t \<Rightarrow> tt_truncate t \<noteq> None)
      then call_method tt_truncate target m else call_method tt_drop target m)"

definition emergency_step ::
  "(int \<Rightarrow> 'm tag_target option) \<Rightarrow> int set \<Rightarrow> int set \<Rightarrow> 'm emergency_state \<Rightarrow> tag_entry \<Rightarrow> 'm emergency_state" where
  "emergency_step targets toDrop newest st t =
     (if tg_tagNumber t \<notin> toDrop \<or> \<not> isActiveTool t then st
      else
        let recent = (tg_tagNumber t \<in> newest);
            (r, m') = emergency_call recent (targets (tg_tagNumber t)) (es_messages st)
        in if r = Removed \<or> r = TruncatedResult then
             st\<lparr>es_db := updateTagDropMode (tg_tagNumber t) (if recent then TruncatedDrop else FullDrop)
                           (updateTagStatus (tg_tagNumber t) Dropped (es_db st)),
                es_messages := m',
                es_droppedTools := es_droppedTools st + 1,
                es_reclaimedTokens := es_reclaimedTokens st + estimateEmergencyDropReclaimTokens t\<rparr>
           else st\<lparr>es_messages := m'\<rparr>)"

definition emergency_plan ::
  "(int \<Rightarrow> 'm tag_target option) \<Rightarrow> nat \<Rightarrow> real \<Rightarrow> jsnum \<Rightarrow> 'm emergency_state \<Rightarrow> drop_plan" where
  "emergency_plan targets protectedTags current ceiling_t st =
     (let tags = getActiveTagsBySession (es_db st)
      in planEmergencyDrop
        \<lparr>di_tags = filter (\<lambda>t. isActiveTool t \<and> can_drop (targets (tg_tagNumber t)) (es_messages st)) tags,
         di_floorTags = tags, di_maxTag = getMaxTagNumberBySession (es_db st), di_protectedTags = int protectedTags,
         di_currentTotalInputTokens = Some current, di_ceilingTokens = ceiling_t,
         di_priorInputSample = es_inputSample st, di_hasPriorDrop = 0 < es_inputSample st\<rparr>)"

definition emergency_cleanup ::
  "(int \<Rightarrow> 'm tag_target option) \<Rightarrow> nat \<Rightarrow> real \<Rightarrow> jsnum \<Rightarrow> 'm emergency_state \<Rightarrow> 'm emergency_state" where
  "emergency_cleanup targets protectedTags current ceiling_t st =
     (let tags = getActiveTagsBySession (es_db st);
          plan = emergency_plan targets protectedTags current ceiling_t st;
          newest = set (newest_numbers EMERGENCY_NEWEST_WINDOW
                     (\<lambda>t. isActiveTool t \<and> can_drop (targets (tg_tagNumber t)) (es_messages st)) tags);
          st' = (if dp_shouldDrop plan
                 then foldl (emergency_step targets (set (dp_tagNumbers plan)) newest) st tags else st)
      in st'\<lparr>es_inputSample := max 0 (math_round current)\<rparr>)"

section \<open>Failing closed\<close>

datatype recovery_origin = ProviderOverflow | ProactiveModelShrink
datatype fail_closed_reason = BelowEmergencyBand | ProviderOverflowAbort | Proceed | TrustedFinalWireDisarm

record fail_closed_decision =
  fc_shouldAbort :: bool
  fc_reason :: fail_closed_reason
  fc_disarm :: "(real \<times> real) option"

definition evaluateEmergencyFailClosed ::
  "real \<Rightarrow> bool \<Rightarrow> recovery_origin option \<Rightarrow> bool \<Rightarrow> (real \<times> bool) option \<Rightarrow> jsnum \<Rightarrow> fail_closed_decision" where
  "evaluateEmergencyFailClosed usagePercentage armed origin foldMaterialized estimate limit =
     (let bands =
        (if usagePercentage < 95
         then \<lparr>fc_shouldAbort = False, fc_reason = BelowEmergencyBand, fc_disarm = None\<rparr>
         else let abort = armed \<and> origin = Some ProviderOverflow \<and> \<not> foldMaterialized
              in \<lparr>fc_shouldAbort = abort, fc_reason = (if abort then ProviderOverflowAbort else Proceed), fc_disarm = None\<rparr>)
      in case (estimate, limit) of
           (Some (tokens, True), Some l) \<Rightarrow>
             if armed \<and> 0 < l \<and> tokens < l * 8/10
             then \<lparr>fc_shouldAbort = False, fc_reason = TrustedFinalWireDisarm, fc_disarm = Some (tokens, l)\<rparr>
             else bands
         | _ \<Rightarrow> bands)"


section \<open>What the plan selects\<close>

lemma tokens_of_prefix:
  "select_until goal r ts = (sel, r') \<Longrightarrow> r < goal \<Longrightarrow>
   r' = r + sum_list (map estimateEmergencyDropReclaimTokens sel)
   \<and> (\<exists>rest. ts = sel @ rest \<and> (rest \<noteq> [] \<longrightarrow> goal \<le> r'))
   \<and> (sel \<noteq> [] \<longrightarrow> r + sum_list (map estimateEmergencyDropReclaimTokens (butlast sel)) < goal)"
proof (induction goal r ts arbitrary: sel r' rule: select_until.induct)
  case (2 goal r t ts)
  let ?r = "r + estimateEmergencyDropReclaimTokens t"
  show ?case
  proof (cases "goal \<le> ?r")
    case True
    with 2 show ?thesis by (auto simp: Let_def)
  next
    case False
    obtain sel0 r0 where s: "select_until goal ?r ts = (sel0, r0)" by fastforce
    with False 2 have e: "sel = t # sel0" "r' = r0" by (auto simp: Let_def)
    from "2.IH" [OF refl False s] False obtain rest where
      "r0 = ?r + sum_list (map estimateEmergencyDropReclaimTokens sel0)"
      "ts = sel0 @ rest" "rest \<noteq> [] \<longrightarrow> goal \<le> r0"
      "sel0 \<noteq> [] \<longrightarrow> ?r + sum_list (map estimateEmergencyDropReclaimTokens (butlast sel0)) < goal"
      by auto
    then show ?thesis using False "2.prems" by (auto simp: e)
  qed
qed simp

lemma in_eviction_order: "t \<in> set (eviction_order inp) \<longleftrightarrow> t \<in> set (di_tags inp) \<and> evictable inp t"
  by (cases "resolveToolTier (tg_toolName t)") (auto simp: eviction_order_def tier_group_def)

lemma plan_cases:
  obtains r where "planEmergencyDrop inp = noop_plan r"
  | current ceiling_t goal sel reclaimed where "di_currentTotalInputTokens inp = Some current" "di_ceilingTokens inp = Some ceiling_t"
      "goal = math_round (current - drop_target (di_floorTags inp) current ceiling_t)" "2000 < goal"
      "select_until goal 0 (eviction_order inp) = (sel, reclaimed)" "sel \<noteq> []"
      "planEmergencyDrop inp = \<lparr>dp_shouldDrop = True, dp_tagNumbers = map tg_tagNumber sel, dp_reclaimTokens = goal,
         dp_reason = TieredDrop (length sel) reclaimed goal\<rparr>"
proof (cases "\<exists>r. planEmergencyDrop inp = noop_plan r")
  case False
  then obtain ceiling_t where c: "di_ceilingTokens inp = Some ceiling_t" "\<not> ceiling_t \<le> 0"
    by (auto simp: planEmergencyDrop_def split: option.splits if_splits)
  with False obtain current where u: "di_currentTotalInputTokens inp = Some current" "\<not> current \<le> 0"
    by (auto simp: planEmergencyDrop_def split: option.splits if_splits)
  define goal where "goal = math_round (current - drop_target (di_floorTags inp) current ceiling_t)"
  obtain sel reclaimed where s: "select_until goal 0 (eviction_order inp) = (sel, reclaimed)" by fastforce
  from False c u have "\<not> goal \<le> EMERGENCY_REARM_MIN_TOKENS" "sel \<noteq> []"
      "planEmergencyDrop inp = \<lparr>dp_shouldDrop = True, dp_tagNumbers = map tg_tagNumber sel, dp_reclaimTokens = goal,
         dp_reason = TieredDrop (length sel) reclaimed goal\<rparr>"
    by (auto simp: planEmergencyDrop_def goal_def [symmetric] s Let_def split: if_splits)
  then show ?thesis using that(2) c u goal_def s by (auto simp: EMERGENCY_REARM_MIN_TOKENS_def)
qed (use that(1) in blast)

lemma planned_numbers:
  assumes "dp_shouldDrop (planEmergencyDrop inp)" "n \<in> set (dp_tagNumbers (planEmergencyDrop inp))"
  shows "\<exists>t\<in>set (di_tags inp). tg_tagNumber t = n \<and> evictable inp t"
proof (cases inp rule: plan_cases)
  case (2 current ceiling_t goal sel reclaimed)
  with assms(2) obtain t where "t \<in> set sel" "tg_tagNumber t = n" by auto
  moreover have "set sel \<subseteq> set (eviction_order inp)"
    using tokens_of_prefix [OF 2(5)] 2(4) by auto
  ultimately show ?thesis using in_eviction_order by blast
qed (use assms in \<open>simp add: noop_plan_def\<close>)

section \<open>What the pass changes\<close>

definition only_dropped :: "int set \<Rightarrow> tag_entry \<Rightarrow> tag_entry \<Rightarrow> bool" where
  "only_dropped D t t' \<longleftrightarrow> t' = t \<or> (tg_tagNumber t \<in> D \<and> (\<exists>mode. t' = t\<lparr>tg_status := Dropped, tg_dropMode := mode\<rparr>))"

lemma emergency_step_rows:
  assumes "list_all2 (only_dropped D) rows (td_tags (es_db st))" "D' \<subseteq> D"
  shows "list_all2 (only_dropped D) rows (td_tags (es_db (emergency_step targets D' newest st t)))"
proof (cases "tg_tagNumber t \<in> D' \<and> isActiveTool t")
  case True
  let ?n = "tg_tagNumber t"
  have row: "only_dropped D r (if tg_tagNumber r' = ?n then r'\<lparr>tg_status := Dropped, tg_dropMode := mode\<rparr> else r')"
    if "only_dropped D r r'" for r r' mode
    using that True assms(2) by (cases r) (auto simp: only_dropped_def)
  have "list_all2 (only_dropped D) rows (td_tags (updateTagDropMode ?n mode (updateTagStatus ?n Dropped (es_db st))))" for mode
  proof -
    have "td_tags (updateTagDropMode ?n mode (updateTagStatus ?n Dropped (es_db st)))
        = map (\<lambda>r. if tg_tagNumber r = ?n then r\<lparr>tg_status := Dropped, tg_dropMode := mode\<rparr> else r) (td_tags (es_db st))"
      by (simp add: updateTagDropMode_def updateTagStatus_def)
    with assms(1) row show ?thesis by (auto simp: list_all2_conv_all_nth)
  qed
  with assms(1) True show ?thesis
    by (auto simp: emergency_step_def Let_def split: prod.splits)
qed (use assms in \<open>auto simp: emergency_step_def\<close>)

lemma emergency_fold_rows:
  assumes "list_all2 (only_dropped D) rows (td_tags (es_db st))"
  shows "list_all2 (only_dropped D) rows (td_tags (es_db (foldl (emergency_step targets D newest) st ts)))"
  using assms by (induction ts arbitrary: st) (auto intro: emergency_step_rows)

lemma cleanup_rows:
  "list_all2 (only_dropped (if dp_shouldDrop (emergency_plan targets k current c st)
      then set (dp_tagNumbers (emergency_plan targets k current c st)) else {}))
     (td_tags (es_db st)) (td_tags (es_db (emergency_cleanup targets k current c st)))"
proof -
  have "list_all2 (only_dropped D) (td_tags (es_db st)) (td_tags (es_db st))" for D
    by (simp add: only_dropped_def list_all2_conv_all_nth)
  then show ?thesis
    by (auto simp: emergency_cleanup_def Let_def intro: emergency_fold_rows)
qed

section \<open>Properties\<close>

text \<open>
  A planned drop is the shortest one that works: the selected tags are the start of the eviction order
  (unlisted tools, then edits and searches, then reads, oldest first), without its last tag the target is
  missed, and unless every candidate is taken the usage after the drop is at most the target, the fixed
  floor plus three tenths of the span above it, up to rounding.
\<close>

theorem planned_drop_is_shortest:
  assumes "dp_shouldDrop (planEmergencyDrop inp)"
    and "di_currentTotalInputTokens inp = Some current" "di_ceilingTokens inp = Some ceiling_t"
  shows "\<exists>sel rest. eviction_order inp = sel @ rest \<and> sel \<noteq> []
    \<and> dp_tagNumbers (planEmergencyDrop inp) = map tg_tagNumber sel
    \<and> sum_list (map estimateEmergencyDropReclaimTokens (butlast sel)) < dp_reclaimTokens (planEmergencyDrop inp)
    \<and> (rest \<noteq> [] \<longrightarrow>
         current - of_int (sum_list (map estimateEmergencyDropReclaimTokens sel))
           \<le> drop_target (di_floorTags inp) current ceiling_t + 1/2)"
proof (cases inp rule: plan_cases)
  case (2 cur ce goal sel reclaimed)
  from tokens_of_prefix [OF 2(5)] 2(4) obtain rest where
    s: "reclaimed = sum_list (map estimateEmergencyDropReclaimTokens sel)" "eviction_order inp = sel @ rest"
    "rest \<noteq> [] \<longrightarrow> goal \<le> reclaimed" "sum_list (map estimateEmergencyDropReclaimTokens (butlast sel)) < goal"
    using 2(6) by auto
  have "current - drop_target (di_floorTags inp) current ceiling_t - 1/2 \<le> of_int goal"
    using 2(1,2,3) assms(2,3) by (simp add: math_round_def) linarith
  moreover have "rest \<noteq> [] \<longrightarrow> real_of_int goal \<le> of_int reclaimed" using s(3) by simp
  ultimately have "rest \<noteq> [] \<longrightarrow> current - of_int reclaimed \<le> drop_target (di_floorTags inp) current ceiling_t + 1/2"
    by auto
  with s 2(6,7) show ?thesis by auto
qed (use assms(1) in \<open>simp add: noop_plan_def\<close>)

definition big_tag :: "int \<Rightarrow> string \<Rightarrow> tag_entry" where
  "big_tag n name = (example_tag n)\<lparr>tg_toolName := Some name, tg_byteSize := 100000\<rparr>"

definition example_drop :: drop_input where
  "example_drop = \<lparr>di_tags = [big_tag 1 ''bash'', big_tag 2 ''bash''], di_floorTags = [big_tag 1 ''bash'', big_tag 2 ''bash''],
     di_maxTag = 4, di_protectedTags = 1, di_currentTotalInputTokens = Some 100000, di_ceilingTokens = Some 90000,
     di_priorInputSample = 0, di_hasPriorDrop = False\<rparr>"

lemma example_tokens [simp]: "estimateEmergencyDropReclaimTokens (big_tag n name) = 25000"
  by (simp add: estimateEmergencyDropReclaimTokens_def tagReclaimBytes_def big_tag_def example_tag_def TOKENS_PER_BYTE_def math_round_def)

lemma bash_is_T3 [simp]: "resolveToolTier (Some ''bash'') = T3"
  by (simp add: resolveToolTier_def normalizeToolName_def Let_def to_lower_def to_lower_char_def starts_with_def T1_TOOLS_def T2_TOOLS_def)

lemma example_order: "eviction_order example_drop = [big_tag 1 ''bash'', big_tag 2 ''bash'']"
  by (simp add: eviction_order_def tier_group_def evictable_def newestCtxReduceTagNumbers_def newest_numbers_def named_def
      example_drop_def big_tag_def example_tag_def isActiveTool_def sort_desc_def)

lemma example_target: "drop_target (di_floorTags example_drop) 100000 90000 = 62000"
  by (simp add: drop_target_def fixed_floor_def example_drop_def TARGET_FRACTION_def isActive_def)
     (simp add: big_tag_def example_tag_def)

lemma example_plan: "dp_shouldDrop (planEmergencyDrop example_drop)"
proof -
  have "select_until 38000 0 (eviction_order example_drop) = ([big_tag 1 ''bash'', big_tag 2 ''bash''], 50000)"
    by (simp add: example_order Let_def)
  moreover have "di_currentTotalInputTokens example_drop = Some 100000" "di_ceilingTokens example_drop = Some 90000"
      "\<not> di_hasPriorDrop example_drop"
    by (simp_all add: example_drop_def)
  moreover have "math_round (100000 - 62000) = 38000" by (simp add: math_round_def)
  ultimately show ?thesis
    by (simp add: planEmergencyDrop_def example_target Let_def EMERGENCY_REARM_MIN_TOKENS_def)
qed

theorem planned_drop_is_shortest_witness:
  "\<exists>sel rest. eviction_order example_drop = sel @ rest \<and> sel \<noteq> []
    \<and> dp_tagNumbers (planEmergencyDrop example_drop) = map tg_tagNumber sel"
proof -
  have "di_currentTotalInputTokens example_drop = Some 100000" "di_ceilingTokens example_drop = Some 90000"
    by (simp_all add: example_drop_def)
  from planned_drop_is_shortest [OF example_plan this] show ?thesis by blast
qed

text \<open>
  The emergency pass spares what it must keep: a row it changes was an active tool call that can be
  dropped, outside the protected newest tags, not one of the three newest \<open>ctx_reduce\<close> calls, and, for
  the first two tiers, not among the newest fifth of its tier; the change is to dropped. Every other row
  and the whole queue stay.
\<close>

theorem emergency_pass_spares_protected:
  fixes targets :: "int \<Rightarrow> 'm tag_target option"
  assumes "distinct (map tg_tagNumber (td_tags (es_db st)))"
  defines "droppables \<equiv> filter (\<lambda>t. isActiveTool t \<and> can_drop (targets (tg_tagNumber t)) (es_messages st))
      (getActiveTagsBySession (es_db st))"
  shows "list_all2 (\<lambda>t t'. t' = t \<or>
      (isActiveTool t \<and> can_drop (targets (tg_tagNumber t)) (es_messages st)
       \<and> tg_tagNumber t \<le> getMaxTagNumberBySession (es_db st) - int protectedTags
       \<and> tg_tagNumber t \<notin> newestCtxReduceTagNumbers (filter isActiveTool (getActiveTagsBySession (es_db st)))
       \<and> (\<forall>k\<in>{T1, T2}. resolveToolTier (tg_toolName t) = k \<longrightarrow> tg_tagNumber t \<notin> reserved_numbers droppables k)
       \<and> (\<exists>mode. t' = t\<lparr>tg_status := Dropped, tg_dropMode := mode\<rparr>)))
    (td_tags (es_db st)) (td_tags (es_db (emergency_cleanup targets protectedTags current ceiling_t st)))"
proof (rule list.rel_mono_strong [OF cleanup_rows])
  fix t t'
  let ?plan = "emergency_plan targets protectedTags current ceiling_t st"
  assume t: "t \<in> set (td_tags (es_db st))"
    and "t' \<in> set (td_tags (es_db (emergency_cleanup targets protectedTags current ceiling_t st)))"
    and "only_dropped (if dp_shouldDrop ?plan then set (dp_tagNumbers ?plan) else {}) t t'"
  then consider "t' = t" | mode where "dp_shouldDrop ?plan" "tg_tagNumber t \<in> set (dp_tagNumbers ?plan)"
      "t' = t\<lparr>tg_status := Dropped, tg_dropMode := mode\<rparr>"
    by (auto simp: only_dropped_def split: if_splits)
  then show "t' = t \<or> (isActiveTool t \<and> can_drop (targets (tg_tagNumber t)) (es_messages st)
       \<and> tg_tagNumber t \<le> getMaxTagNumberBySession (es_db st) - int protectedTags
       \<and> tg_tagNumber t \<notin> newestCtxReduceTagNumbers (filter isActiveTool (getActiveTagsBySession (es_db st)))
       \<and> (\<forall>k\<in>{T1, T2}. resolveToolTier (tg_toolName t) = k \<longrightarrow> tg_tagNumber t \<notin> reserved_numbers droppables k)
       \<and> (\<exists>mode. t' = t\<lparr>tg_status := Dropped, tg_dropMode := mode\<rparr>))"
  proof cases
    case (2 mode)
    from planned_numbers [OF 2(1,2) [unfolded emergency_plan_def Let_def]] obtain u where
      u: "u \<in> set droppables" "tg_tagNumber u = tg_tagNumber t"
      and e: "evictable \<lparr>di_tags = droppables, di_floorTags = getActiveTagsBySession (es_db st),
         di_maxTag = getMaxTagNumberBySession (es_db st), di_protectedTags = int protectedTags,
         di_currentTotalInputTokens = Some current, di_ceilingTokens = ceiling_t,
         di_priorInputSample = es_inputSample st, di_hasPriorDrop = 0 < es_inputSample st\<rparr> u"
      unfolding droppables_def by auto
    have "u \<in> set (td_tags (es_db st))" using u(1) by (simp add: droppables_def getActiveTagsBySession_def)
    with u(2) t assms(1) have "u = t" by (auto simp: distinct_map inj_on_def)
    with u(1) e 2(3) show ?thesis by (auto simp: evictable_def droppables_def)
  qed simp
qed

definition example_emergency :: "nat emergency_state" where
  "example_emergency = \<lparr>es_db = example_tags\<lparr>td_tags := [big_tag 1 ''bash'', big_tag 2 ''bash'']\<rparr>, es_messages = 0, es_inputSample = 0,
     es_droppedTools = 0, es_reclaimedTokens = 0\<rparr>"

theorem emergency_pass_spares_protected_witness:
  "length (td_tags (es_db (emergency_cleanup (\<lambda>_. Some droppable_target) 1 100000 (Some 90000) example_emergency))) = 2"
proof -
  have "distinct (map tg_tagNumber (td_tags (es_db example_emergency)))"
    by (simp add: example_emergency_def big_tag_def example_tag_def)
  from list_all2_lengthD [OF emergency_pass_spares_protected [OF this, of "\<lambda>_. Some droppable_target" 1 100000 "Some 90000"]]
  show ?thesis by (simp add: example_emergency_def)
qed

text \<open>
  One usage reading causes at most one emergency drop: a second pass on the same reading, before a
  fresh one arrives, changes nothing, whatever the targets and the ceiling are by then.
\<close>

theorem emergency_drops_once_per_reading:
  assumes "0 < n"
  shows "emergency_cleanup targets' k' (of_int n) c' (emergency_cleanup targets k (of_int n) c st)
    = emergency_cleanup targets k (of_int n) c st"
proof -
  let ?st = "emergency_cleanup targets k (of_int n) c st"
  have s: "es_inputSample ?st = n" using assms by (simp add: emergency_cleanup_def Let_def)
  have "\<exists>r. emergency_plan targets' k' (of_int n) c' ?st = noop_plan r"
    using assms by (auto simp: emergency_plan_def planEmergencyDrop_def s Let_def split: option.splits)
  then have "\<not> dp_shouldDrop (emergency_plan targets' k' (of_int n) c' ?st)" by (auto simp: noop_plan_def)
  then have "emergency_cleanup targets' k' (of_int n) c' ?st = ?st\<lparr>es_inputSample := max 0 (math_round (of_int n))\<rparr>"
    by (subst emergency_cleanup_def) (simp add: Let_def)
  also have "\<dots> = ?st" using s assms by simp
  finally show ?thesis .
qed

theorem emergency_drops_once_per_reading_witness:
  "emergency_cleanup (\<lambda>_. None) 0 (of_int 100000) None
     (emergency_cleanup (\<lambda>_. Some droppable_target) 1 (of_int 100000) (Some 90000) example_emergency)
   = emergency_cleanup (\<lambda>_. Some droppable_target) 1 (of_int 100000) (Some 90000) example_emergency"
  by (rule emergency_drops_once_per_reading) simp

text \<open>
  A request is aborted exactly when the provider has rejected one for its size, the usage reading is
  at the emergency wall, this pass folded nothing, and no trusted estimate shows that the request now
  fits in four fifths of a positive limit the provider stated.
\<close>

theorem abort_iff:
  "fc_shouldAbort (evaluateEmergencyFailClosed usage armed origin folded estimate limit) \<longleftrightarrow>
   95 \<le> usage \<and> armed \<and> origin = Some ProviderOverflow \<and> \<not> folded
   \<and> \<not> (\<exists>tokens l. estimate = Some (tokens, True) \<and> limit = Some l \<and> 0 < l \<and> tokens < l * 8/10)"
  by (auto simp: evaluateEmergencyFailClosed_def Let_def split: option.splits bool.splits prod.splits)

end
