(* ===== verification/Nudges.thy ===== *)
theory Nudges
  imports Prelude
begin

text \<open>
  The two nudges that ask the agent to reduce its context
  (\<open>hooks/magic-context/ctx-reduce-nudge.ts\<close>, \<open>channel2-cycle.ts\<close>, \<open>maybeInjectChannel1Nudge\<close> in
  \<open>hook-handlers.ts\<close>, the nudge columns of \<open>features/magic-context/storage-meta-persisted.ts\<close>). The
  token estimate of a tool output needs the tokenizer; it is a parameter.
\<close>

section \<open>Channel 1: the decision\<close>

datatype nudge_level = Gentle | Firm | Urgent

definition CHANNEL1_MIN_TOKENS :: int where [config_simps]: "CHANNEL1_MIN_TOKENS = 60000"
definition CHANNEL1_FLOOR_TOKENS :: int where [config_simps]: "CHANNEL1_FLOOR_TOKENS = 25000"
definition CHANNEL1_REFIRE_FLOOR_TOKENS :: int where [config_simps]: "CHANNEL1_REFIRE_FLOOR_TOKENS = 25000"
definition S_GENTLE :: real where [config_simps]: "S_GENTLE = 2/10"
definition S_FIRM :: real where [config_simps]: "S_FIRM = 4/10"
definition S_URGENT :: real where [config_simps]: "S_URGENT = 6/10"

fun LEVEL_RANK :: "nudge_level \<Rightarrow> nat" where
  "LEVEL_RANK Gentle = 1"
| "LEVEL_RANK Firm = 2"
| "LEVEL_RANK Urgent = 3"

definition channel1RefireTokens :: "int \<Rightarrow> int" where
  "channel1RefireTokens tailTokens =
     max CHANNEL1_REFIRE_FLOOR_TOKENS (math_round (8/100 * of_int (max 0 tailTokens)))"

record channel1_input =
  c1_baselineU :: int
  c1_baselineT :: int
  c1_turnDeltaU :: int
  c1_turnDeltaT :: int
  c1_lastNudgeUndropped :: int
  c1_lastNudgeLevel :: "nudge_level option"
  c1_hasRecentReduce :: bool
  c1_evaluable :: bool
  c1_generationInvalidated :: bool

record channel1_decision =
  c1_fire :: bool
  c1_level :: nudge_level
  c1_undroppedTokens :: int
  c1_tailTokens :: int
  c1_severity :: real
  c1_nextLastNudge :: int
  c1_nextLastNudgeLevel :: "nudge_level option"

definition tail_tokens :: "channel1_input \<Rightarrow> int" where
  "tail_tokens i = max 0 (c1_baselineT i + c1_turnDeltaT i)"

definition undropped_tokens :: "channel1_input \<Rightarrow> int" where
  "undropped_tokens i = min (tail_tokens i) (max 0 (c1_baselineU i + c1_turnDeltaU i))"

definition severity_of :: "channel1_input \<Rightarrow> real" where
  "severity_of i = min 1 (max 0 (of_int (undropped_tokens i) / of_int (max (tail_tokens i) 1)))"

definition level_of :: "real \<Rightarrow> nudge_level" where
  "level_of severity = (if S_URGENT \<le> severity then Urgent else if S_FIRM \<le> severity then Firm else Gentle)"

definition decideChannel1 :: "channel1_input \<Rightarrow> channel1_decision" where
  "decideChannel1 i =
     (let tailTokens = tail_tokens i;
          undroppedTokens = undropped_tokens i;
          severity = severity_of i;
          resetCycle = (c1_hasRecentReduce i \<or> undroppedTokens < c1_lastNudgeUndropped i);
          lastNudge = (if resetCycle then 0 else c1_lastNudgeUndropped i);
          lastLevel = (if resetCycle then None else c1_lastNudgeLevel i);
          quiet = \<lparr>c1_fire = False, c1_level = Gentle, c1_undroppedTokens = undroppedTokens, c1_tailTokens = tailTokens,
                   c1_severity = severity, c1_nextLastNudge = lastNudge, c1_nextLastNudgeLevel = lastLevel\<rparr>;
          level = level_of severity;
          escalated = (case lastLevel of None \<Rightarrow> True | Some l \<Rightarrow> LEVEL_RANK l < LEVEL_RANK level);
          cadenceReached = (lastLevel \<noteq> None \<and> channel1RefireTokens tailTokens \<le> undroppedTokens - lastNudge)
      in if \<not> c1_evaluable i \<or> c1_generationInvalidated i then quiet
         else if c1_hasRecentReduce i then quiet
         else if tailTokens < CHANNEL1_MIN_TOKENS then quiet
         else if undroppedTokens < CHANNEL1_FLOOR_TOKENS \<or> undroppedTokens = 0 then quiet
         else if severity < S_GENTLE then quiet
         else if \<not> escalated \<and> \<not> cadenceReached then quiet
         else \<lparr>c1_fire = True, c1_level = level, c1_undroppedTokens = undroppedTokens, c1_tailTokens = tailTokens,
               c1_severity = severity, c1_nextLastNudge = undroppedTokens, c1_nextLastNudgeLevel = Some level\<rparr>)"

section \<open>The reminders\<close>

type_synonym reclaim_hint = "int \<times> string option"

definition CHANNEL1_SENTINEL :: string where "CHANNEL1_SENTINEL = ''<system-reminder>''"

definition newline :: string where "newline = [CHR 0x0A]"

definition approxThousands :: "int \<Rightarrow> string" where
  "approxThousands tokens = show_int (math_round (of_int tokens / 1000)) @ ''k''"

definition formatOldestReclaimableHint :: "reclaim_hint list \<Rightarrow> string" where
  "formatOldestReclaimableHint hint =
     (if hint = [] then []
      else let rendered = join [CHR '' '', CHR 0xB7, CHR '' '']
             (map (\<lambda>(n, name). [CHR 0xA7] @ show_int n @ [CHR 0xA7] @ '' '' @ (case name of None \<Rightarrow> ''tool'' | Some s \<Rightarrow> s))
               (take 4 hint))
           in newline @ ''oldest reclaimable: '' @ rendered @ ''.'')"

definition level_body :: "nudge_level \<Rightarrow> string \<Rightarrow> string" where
  "level_body level amount =
     (case level of
        Gentle \<Rightarrow> ''You have ~'' @ amount @ '' tokens of content you have not reduced. '' @
          ''When you are done with earlier outputs, dropping them with ctx_reduce keeps context lean.''
      | Firm \<Rightarrow> ''~'' @ amount @ '' tokens of unreduced content has built up. '' @
          ''At your next natural stopping point, consider dropping what you have already processed with ctx_reduce.''
      | Urgent \<Rightarrow> ''~'' @ amount @ '' tokens of unreduced content remain across most of the live tail. '' @
          ''Consider dropping spent outputs with ctx_reduce so the archived span is the part that matters.'')"

definition buildChannel1Reminder :: "nudge_level \<Rightarrow> int \<Rightarrow> reclaim_hint list \<Rightarrow> string" where
  "buildChannel1Reminder level undroppedTokens hint =
     newline @ newline @ ''<system-reminder>'' @ newline
     @ level_body level (approxThousands undroppedTokens) @ formatOldestReclaimableHint hint
     @ newline @ ''</system-reminder>''"

definition buildChannel2Reminder :: "int \<Rightarrow> reclaim_hint list \<Rightarrow> string" where
  "buildChannel2Reminder undroppedTokens hint =
     ''<system-reminder>'' @ newline
     @ ''Routine context housekeeping is near: a large span of this session will be comparted soon, ''
     @ ''and ~'' @ approxThousands undroppedTokens @ '' tokens of tool output remain unreduced. Drop spent outputs with ctx_reduce ''
     @ ''first so the archived span is the part that matters.'' @ formatOldestReclaimableHint hint
     @ newline @ ''</system-reminder>''"

section \<open>Channel 1: the hook\<close>

text \<open>The persisted cadence of a session, and the baseline the last transform left in memory.\<close>

record nudge_cycle =
  nc_lastNudgeUndropped :: int
  nc_lastNudgeLevel :: "nudge_level option"

record channel1_state =
  cs_baselineU :: int
  cs_baselineT :: int
  cs_turnDeltaU :: int
  cs_turnDeltaT :: int
  cs_evaluable :: bool
  cs_generationInvalidated :: bool
  cs_reducedSinceRefresh :: bool
  cs_oldestReclaimableToolTags :: "reclaim_hint list"

definition setLastNudgeUndropped :: "int \<Rightarrow> nudge_cycle \<Rightarrow> nudge_cycle" where
  "setLastNudgeUndropped v c = c\<lparr>nc_lastNudgeUndropped := max 0 v\<rparr>"

definition setLastNudgeLevel :: "nudge_level option \<Rightarrow> nudge_cycle \<Rightarrow> nudge_cycle" where
  "setLastNudgeLevel v c = c\<lparr>nc_lastNudgeLevel := v\<rparr>"

definition resetLastNudgeCycle :: "nudge_cycle \<Rightarrow> nudge_cycle" where
  "resetLastNudgeCycle c = \<lparr>nc_lastNudgeUndropped = 0, nc_lastNudgeLevel = None\<rparr>"

definition resetLastNudgeCycleIfTailShrank :: "int \<Rightarrow> nudge_cycle \<Rightarrow> nudge_cycle \<times> bool" where
  "resetLastNudgeCycleIfTailShrank measured c =
     (if max 0 measured < nc_lastNudgeUndropped c then (resetLastNudgeCycle c, True) else (c, False))"

definition channel1_question :: "channel1_state \<Rightarrow> nudge_cycle \<Rightarrow> channel1_input" where
  "channel1_question s c = \<lparr>c1_baselineU = cs_baselineU s, c1_baselineT = cs_baselineT s, c1_turnDeltaU = cs_turnDeltaU s,
     c1_turnDeltaT = cs_turnDeltaT s, c1_lastNudgeUndropped = nc_lastNudgeUndropped c, c1_lastNudgeLevel = nc_lastNudgeLevel c,
     c1_hasRecentReduce = False, c1_evaluable = cs_evaluable s, c1_generationInvalidated = cs_generationInvalidated s\<rparr>"

text \<open>The output of a finished tool call (\<open>None\<close> when it is not a string) and the state after the hook.\<close>

definition maybeInjectChannel1Nudge ::
  "(string \<Rightarrow> int) \<Rightarrow> channel1_state option \<times> nudge_cycle \<Rightarrow> string option
     \<Rightarrow> (channel1_state option \<times> nudge_cycle) \<times> string option" where
  "maybeInjectChannel1Nudge toolOutputTokens st output =
     (case (fst st, output) of
        (Some s, Some out) \<Rightarrow>
          if out = [] \<or> str_includes CHANNEL1_SENTINEL out then (st, output)
          else
            let s' = s\<lparr>cs_turnDeltaT := cs_turnDeltaT s + toolOutputTokens out\<rparr>
            in if cs_reducedSinceRefresh s then ((Some s', snd st), output)
               else
                 let d = decideChannel1 (channel1_question s' (snd st));
                     c' = setLastNudgeLevel (c1_nextLastNudgeLevel d) (setLastNudgeUndropped (c1_nextLastNudge d) (snd st))
                 in ((Some s', c'),
                     Some (if c1_fire d
                           then out @ buildChannel1Reminder (c1_level d) (c1_undroppedTokens d) (cs_oldestReclaimableToolTags s)
                           else out))
      | _ \<Rightarrow> (st, output))"

text \<open>What the hook does after \<open>ctx_reduce\<close> itself.\<close>

definition after_ctx_reduce :: "channel1_state option \<times> nudge_cycle \<Rightarrow> channel1_state option \<times> nudge_cycle" where
  "after_ctx_reduce st =
     (map_option (\<lambda>s. s\<lparr>cs_reducedSinceRefresh := True, cs_evaluable := False, cs_generationInvalidated := True\<rparr>) (fst st),
      resetLastNudgeCycle (snd st))"

section \<open>Channel 2: the predicate\<close>

definition CHANNEL2_SEVERITY_THRESHOLD :: real where [config_simps]: "CHANNEL2_SEVERITY_THRESHOLD = 75/100"
definition CHANNEL2_FLOOR_TOKENS :: real where [config_simps]: "CHANNEL2_FLOOR_TOKENS = 50000"

record channel2_baseline =
  cb_baselineU :: jsnum
  cb_baselineT :: jsnum
  cb_turnDeltaU :: jsnum
  cb_turnDeltaT :: jsnum
  cb_evaluable :: bool
  cb_generationInvalidated :: bool

record channel2_evaluation =
  ce_evaluable :: bool
  ce_shouldTrigger :: bool
  ce_reclaimableTokens :: real
  ce_tailTokens :: real
  ce_severity :: real

definition evaluateChannel2 :: "channel2_baseline option \<Rightarrow> channel2_evaluation" where
  "evaluateChannel2 input =
     (let no = \<lparr>ce_evaluable = False, ce_shouldTrigger = False, ce_reclaimableTokens = 0, ce_tailTokens = 0, ce_severity = 0\<rparr>
      in case input of None \<Rightarrow> no
         | Some b \<Rightarrow>
             if \<not> cb_evaluable b \<or> cb_generationInvalidated b then no
             else (case (cb_baselineU b, cb_baselineT b, cb_turnDeltaU b, cb_turnDeltaT b) of
                (Some u, Some t, Some du, Some dt) \<Rightarrow>
                  let tailTokens = max 0 (t + dt);
                      reclaimable = min tailTokens (max 0 (u + du));
                      severity = min 1 (max 0 (reclaimable / max tailTokens 1))
                  in \<lparr>ce_evaluable = True,
                      ce_shouldTrigger = (of_int CHANNEL1_MIN_TOKENS \<le> tailTokens \<and> CHANNEL2_FLOOR_TOKENS \<le> reclaimable
                                          \<and> CHANNEL2_SEVERITY_THRESHOLD \<le> severity),
                      ce_reclaimableTokens = reclaimable, ce_tailTokens = tailTokens, ce_severity = severity\<rparr>
              | _ \<Rightarrow> no))"

section \<open>Properties\<close>

lemma reminder_has_sentinel: "str_includes CHANNEL1_SENTINEL (out @ buildChannel1Reminder l n h)"
proof -
  have infix_found: "str_includes p (xs @ p @ ys)" for p xs ys
  proof (induction xs)
    case Nil
    have "starts_with p (p @ ys)" by (simp add: starts_with_def)
    then show ?case by (cases "p @ ys") auto
  qed simp
  have "out @ buildChannel1Reminder l n h = (out @ newline @ newline) @ CHANNEL1_SENTINEL
      @ (newline @ level_body l (approxThousands n) @ formatOldestReclaimableHint h @ newline @ ''</system-reminder>'')"
    by (simp add: buildChannel1Reminder_def CHANNEL1_SENTINEL_def)
  then show ?thesis using infix_found by metis
qed

text \<open>
  A nudge is due only when there is enough to reduce, and it is not repeated: it needs a tail of 60000
  tokens, 25000 of them unreduced and at least a fifth, and after an earlier nudge of the same cycle a
  higher level or another 25000 unreduced tokens.
\<close>

theorem nudge_is_spaced:
  assumes "c1_fire (decideChannel1 i)"
  shows "60000 \<le> tail_tokens i \<and> 25000 \<le> undropped_tokens i \<and> tail_tokens i \<le> 5 * undropped_tokens i
    \<and> (\<forall>l. c1_lastNudgeLevel i = Some l \<longrightarrow>
         undropped_tokens i < c1_lastNudgeUndropped i
         \<or> LEVEL_RANK l < LEVEL_RANK (c1_level (decideChannel1 i))
         \<or> c1_lastNudgeUndropped i + 25000 \<le> undropped_tokens i)"
proof -
  have "c1_level (decideChannel1 i) = level_of (severity_of i)" and h: "\<not> c1_hasRecentReduce i"
    and t: "60000 \<le> tail_tokens i" "25000 \<le> undropped_tokens i" and s: "S_GENTLE \<le> severity_of i"
    and l: "\<forall>l. c1_lastNudgeLevel i = Some l \<longrightarrow> undropped_tokens i < c1_lastNudgeUndropped i
       \<or> LEVEL_RANK l < LEVEL_RANK (level_of (severity_of i))
       \<or> channel1RefireTokens (tail_tokens i) \<le> undropped_tokens i - c1_lastNudgeUndropped i"
    using assms by (auto simp: decideChannel1_def Let_def CHANNEL1_MIN_TOKENS_def CHANNEL1_FLOOR_TOKENS_def split: if_splits option.splits)
  moreover have "25000 \<le> channel1RefireTokens (tail_tokens i)"
    by (simp add: channel1RefireTokens_def CHANNEL1_REFIRE_FLOOR_TOKENS_def)
  moreover have "tail_tokens i \<le> 5 * undropped_tokens i"
  proof -
    have "2/10 \<le> real_of_int (undropped_tokens i) / of_int (tail_tokens i)"
      using s t by (auto simp: S_GENTLE_def severity_of_def min_def max_def split: if_splits)
    then have "2/10 * real_of_int (tail_tokens i) \<le> of_int (undropped_tokens i)"
      using t by (simp add: field_simps)
    then have "real_of_int (tail_tokens i) \<le> of_int (5 * undropped_tokens i)" by simp
    then show ?thesis by linarith
  qed
  ultimately show ?thesis by fastforce
qed

definition example_nudge :: channel1_input where
  "example_nudge = \<lparr>c1_baselineU = 50000, c1_baselineT = 100000, c1_turnDeltaU = 0, c1_turnDeltaT = 0,
     c1_lastNudgeUndropped = 25000, c1_lastNudgeLevel = Some Gentle, c1_hasRecentReduce = False,
     c1_evaluable = True, c1_generationInvalidated = False\<rparr>"

theorem nudge_is_spaced_witness:
  "25000 \<le> undropped_tokens example_nudge \<and> tail_tokens example_nudge \<le> 5 * undropped_tokens example_nudge"
proof -
  have "c1_fire (decideChannel1 example_nudge)"
    by (simp add: decideChannel1_def Let_def example_nudge_def tail_tokens_def undropped_tokens_def severity_of_def
        level_of_def config_simps)
  from nudge_is_spaced [OF this] show ?thesis by simp
qed

text \<open>
  The hook is idempotent on a tool output: when it has added a reminder, running it again on the
  result changes neither the output nor any state.
\<close>

theorem reminder_added_once:
  assumes "maybeInjectChannel1Nudge tokens st (Some out) = (st', Some out')" "out' \<noteq> out"
  shows "maybeInjectChannel1Nudge tokens st' (Some out') = (st', Some out')"
proof -
  have "str_includes CHANNEL1_SENTINEL out'"
    using assms by (auto simp: maybeInjectChannel1Nudge_def Let_def reminder_has_sentinel split: option.splits if_splits)
  then show ?thesis by (simp add: maybeInjectChannel1Nudge_def split: option.splits)
qed

definition example_baseline :: channel1_state where
  "example_baseline = \<lparr>cs_baselineU = 50000, cs_baselineT = 100000, cs_turnDeltaU = 0, cs_turnDeltaT = 0, cs_evaluable = True,
     cs_generationInvalidated = False, cs_reducedSinceRefresh = False, cs_oldestReclaimableToolTags = []\<rparr>"

theorem reminder_added_once_witness:
  "let r = maybeInjectChannel1Nudge (\<lambda>s. int (length s)) (Some example_baseline, \<lparr>nc_lastNudgeUndropped = 0, nc_lastNudgeLevel = None\<rparr>)
             (Some ''ok'')
   in maybeInjectChannel1Nudge (\<lambda>s. int (length s)) (fst r) (snd r) = r"
proof -
  let ?st = "(Some example_baseline, \<lparr>nc_lastNudgeUndropped = 0, nc_lastNudgeLevel = None\<rparr>)"
  let ?q = "channel1_question (example_baseline\<lparr>cs_turnDeltaT := 2\<rparr>) \<lparr>nc_lastNudgeUndropped = 0, nc_lastNudgeLevel = None\<rparr>"
  have fire: "c1_fire (decideChannel1 ?q)"
    by (simp add: decideChannel1_def Let_def example_baseline_def channel1_question_def tail_tokens_def undropped_tokens_def severity_of_def
        level_of_def config_simps)
  have no: "\<not> str_includes CHANNEL1_SENTINEL ''ok''" by (simp add: CHANNEL1_SENTINEL_def starts_with_def)
  have s: "cs_turnDeltaT example_baseline + int (length ''ok'') = 2" "\<not> cs_reducedSinceRefresh example_baseline"
    by (simp_all add: example_baseline_def)
  obtain st' out' where r: "maybeInjectChannel1Nudge (\<lambda>s. int (length s)) ?st (Some ''ok'') = (st', Some out')" "out' \<noteq> ''ok''"
    using fire no unfolding maybeInjectChannel1Nudge_def Let_def
    by (simp only: fst_conv snd_conv option.case prod.case s if_False list.distinct no fire if_True simp_thms)
       (auto simp: buildChannel1Reminder_def newline_def)
  from reminder_added_once [OF r] r(1) show ?thesis by (simp add: Let_def)
qed

end
