(* ===== verification/Channel2_Delivery.thy ===== *)
theory Channel2_Delivery
  imports Nudges
begin

text \<open>
  Delivering the ceiling nudge once although several processes share the session row: the compare-and-set
  operations (\<open>features/magic-context/storage-meta-persisted.ts\<close>, \<open>healWedgedChannel2Claims\<close> in
  \<open>storage-db.ts\<close>), the delivery (\<open>hooks/magic-context/channel2-delivery.ts\<close>), the transform that arms it
  and the folds that rearm it (\<open>channel2-cycle.ts\<close>). An action is one atomic database operation or one
  call of the host; processes interleave freely and may stop between any two actions.
\<close>

section \<open>The row\<close>

datatype nudge_state = NoIntent | Pending | Claimed | Delivered

record nudge_row =
  nr_state :: nudge_state
  nr_claimedAt :: "int option"
  nr_claimToken :: "nat option"

definition claim_time :: "nudge_state \<Rightarrow> int \<Rightarrow> int option" where
  "claim_time to now = Some (if to = Claimed then now else 0)"

definition setChannel2NudgeState :: "int \<Rightarrow> nudge_state \<Rightarrow> nudge_row \<Rightarrow> nudge_row" where
  "setChannel2NudgeState now to row = \<lparr>nr_state = to, nr_claimedAt = claim_time to now, nr_claimToken = None\<rparr>"

definition casChannel2NudgeState :: "int \<Rightarrow> nudge_state \<Rightarrow> nudge_state \<Rightarrow> nudge_row \<Rightarrow> nudge_row \<times> bool" where
  "casChannel2NudgeState now from_s to row =
     (if nr_state row = from_s then (setChannel2NudgeState now to row, True) else (row, False))"

definition claimChannel2NudgeState :: "int \<Rightarrow> nat \<Rightarrow> nudge_row \<Rightarrow> nudge_row \<times> bool" where
  "claimChannel2NudgeState now tok row =
     (if nr_state row = Pending
      then (\<lparr>nr_state = Claimed, nr_claimedAt = Some now, nr_claimToken = Some tok\<rparr>, True) else (row, False))"

definition casChannel2NudgeClaim :: "int \<Rightarrow> nudge_state \<Rightarrow> nat \<Rightarrow> nudge_row \<Rightarrow> nudge_row \<times> bool" where
  "casChannel2NudgeClaim now to tok row =
     (if nr_state row = Claimed \<and> nr_claimToken row = Some tok
      then (\<lparr>nr_state = to, nr_claimedAt = claim_time to now, nr_claimToken = (if to = Claimed then Some tok else None)\<rparr>, True)
      else (row, False))"

definition CHANNEL2_CLAIM_TTL_MS :: int where [config_simps]: "CHANNEL2_CLAIM_TTL_MS = 600000"

definition healWedgedChannel2Claims :: "int \<Rightarrow> nudge_row \<Rightarrow> nudge_row" where
  "healWedgedChannel2Claims now row =
     (if nr_state row = Claimed
         \<and> (case nr_claimedAt row of None \<Rightarrow> True | Some t \<Rightarrow> t = 0 \<or> t \<le> now - CHANNEL2_CLAIM_TTL_MS)
      then \<lparr>nr_state = NoIntent, nr_claimedAt = Some 0, nr_claimToken = None\<rparr> else row)"

definition rearmChannel2AfterCoverageAdvancingHardFold ::
  "int \<Rightarrow> bool \<Rightarrow> bool \<Rightarrow> int option \<Rightarrow> int option \<Rightarrow> nudge_row \<Rightarrow> nudge_row \<times> bool" where
  "rearmChannel2AfterCoverageAdvancingHardFold now foldExecuted compactionOff prev after row =
     (case (prev, after) of
        (Some b, Some a) \<Rightarrow>
          if compactionOff \<or> \<not> foldExecuted \<or> a \<le> b then (row, False)
          else casChannel2NudgeState now Delivered NoIntent row
      | _ \<Rightarrow> (row, False))"

definition rearmChannel2AfterMeasuredCollapse ::
  "int \<Rightarrow> bool \<Rightarrow> bool \<Rightarrow> real \<Rightarrow> real \<Rightarrow> real \<Rightarrow> real \<Rightarrow> nudge_row \<Rightarrow> nudge_row \<times> bool" where
  "rearmChannel2AfterMeasuredCollapse now evaluable invalidated u t du dt row =
     (if \<not> evaluable \<or> invalidated then (row, False)
      else if of_int CHANNEL1_FLOOR_TOKENS \<le> min (max 0 (t + dt)) (max 0 (u + du)) then (row, False)
      else casChannel2NudgeState now Delivered NoIntent row)"

section \<open>A delivery\<close>

text \<open>
  Where a delivery stands: not started, about to clear or to claim what it read as pending, holding the claim,
  past its check, message accepted by the host.
\<close>

datatype delivery = Idle | Clearing | Claiming nat | Holding nat | Ready nat | Sent nat

fun held_token :: "delivery \<Rightarrow> nat option" where
  "held_token Idle = None"
| "held_token Clearing = None"
| "held_token (Claiming tok) = None"
| "held_token (Holding tok) = Some tok"
| "held_token (Ready tok) = Some tok"
| "held_token (Sent tok) = Some tok"

record delivery_env =
  de_runActive :: bool
  de_baseline :: "channel2_baseline option"
  de_directive :: bool
  de_client :: bool

datatype delivery_choice = LeaveRow | ClearPending | TryClaim

definition delivery_decision :: "delivery_env \<Rightarrow> nudge_state \<Rightarrow> delivery_choice" where
  "delivery_decision env state =
     (let e = evaluateChannel2 (de_baseline env)
      in if state \<noteq> Pending then LeaveRow
         else if \<not> de_runActive env then ClearPending
         else if \<not> de_directive env \<and> \<not> ce_evaluable e then LeaveRow
         else if \<not> de_directive env \<and> \<not> ce_shouldTrigger e then ClearPending
         else if \<not> de_client env then LeaveRow
         else TryClaim)"

section \<open>The system\<close>

text \<open>
  \<open>sy_used\<close> holds the tokens \<open>randomUUID\<close> has given out; that it never repeats one is what the code
  relies on. \<open>sy_sends\<close> counts the messages the session received since the last rearm.
\<close>

record c2_system =
  sy_row :: nudge_row
  sy_proc :: "nat \<Rightarrow> delivery"
  sy_used :: "nat set"
  sy_sends :: nat

datatype c2_action =
    Transform bool int
  | Begin nat delivery_env nat
  | Clear nat int
  | Claim nat int
  | Check nat
  | Release nat int
  | Send nat
  | FailSend nat int bool
  | Confirm nat int
  | Crash nat
  | Rearm int
  | Reset int
  | Heal int

definition set_proc :: "nat \<Rightarrow> delivery \<Rightarrow> c2_system \<Rightarrow> c2_system" where
  "set_proc p d s = s\<lparr>sy_proc := (sy_proc s)(p := d)\<rparr>"

text \<open>
  The effect of an action, \<open>None\<close> when it is not possible. Other processes act between the reading of the
  state and the claim or the clearing it leads to. \<open>FailSend p now True\<close> is
  a failed call whose message the session received all the same.
\<close>

fun c2_apply :: "c2_action \<Rightarrow> c2_system \<Rightarrow> c2_system option" where
  "c2_apply (Transform shouldTrigger now) s =
     Some (s\<lparr>sy_row := fst (if shouldTrigger then casChannel2NudgeState now NoIntent Pending (sy_row s)
                             else casChannel2NudgeState now Pending NoIntent (sy_row s))\<rparr>)"
| "c2_apply (Begin p env tok) s =
     (if sy_proc s p \<noteq> Idle \<or> tok \<in> sy_used s then None
      else case delivery_decision env (nr_state (sy_row s)) of
        LeaveRow \<Rightarrow> Some s
      | ClearPending \<Rightarrow> Some (set_proc p Clearing s)
      | TryClaim \<Rightarrow> Some (set_proc p (Claiming tok) (s\<lparr>sy_used := insert tok (sy_used s)\<rparr>)))"
| "c2_apply (Clear p now) s =
     (if sy_proc s p = Clearing
      then Some (set_proc p Idle (s\<lparr>sy_row := fst (casChannel2NudgeState now Pending NoIntent (sy_row s))\<rparr>)) else None)"
| "c2_apply (Claim p now) s =
     (case sy_proc s p of
        Claiming tok \<Rightarrow>
          (let (row, won) = claimChannel2NudgeState now tok (sy_row s)
           in Some (set_proc p (if won then Holding tok else Idle) (s\<lparr>sy_row := row\<rparr>)))
      | _ \<Rightarrow> None)"
| "c2_apply (Check p) s =
     (case sy_proc s p of
        Holding tok \<Rightarrow>
          Some (set_proc p (if nr_state (sy_row s) = Claimed \<and> nr_claimToken (sy_row s) = Some tok then Ready tok else Idle) s)
      | _ \<Rightarrow> None)"
| "c2_apply (Release p now) s =
     (case sy_proc s p of
        Holding tok \<Rightarrow> Some (set_proc p Idle (s\<lparr>sy_row := fst (casChannel2NudgeClaim now NoIntent tok (sy_row s))\<rparr>))
      | Ready tok \<Rightarrow> Some (set_proc p Idle (s\<lparr>sy_row := fst (casChannel2NudgeClaim now NoIntent tok (sy_row s))\<rparr>))
      | _ \<Rightarrow> None)"
| "c2_apply (Send p) s =
     (case sy_proc s p of
        Ready tok \<Rightarrow> Some (set_proc p (Sent tok) (s\<lparr>sy_sends := sy_sends s + 1\<rparr>))
      | _ \<Rightarrow> None)"
| "c2_apply (FailSend p now reached) s =
     (case sy_proc s p of
        Holding tok \<Rightarrow>
          (if reached then None
           else Some (set_proc p Idle (s\<lparr>sy_row := fst (casChannel2NudgeClaim now Pending tok (sy_row s))\<rparr>)))
      | Ready tok \<Rightarrow>
          Some (set_proc p Idle (s\<lparr>sy_row := fst (casChannel2NudgeClaim now Pending tok (sy_row s)),
                                   sy_sends := sy_sends s + (if reached then 1 else 0)\<rparr>))
      | _ \<Rightarrow> None)"
| "c2_apply (Confirm p now) s =
     (case sy_proc s p of
        Sent tok \<Rightarrow> Some (set_proc p Idle (s\<lparr>sy_row := fst (casChannel2NudgeClaim now Delivered tok (sy_row s))\<rparr>))
      | _ \<Rightarrow> None)"
| "c2_apply (Crash p) s = Some (set_proc p Idle s)"
| "c2_apply (Rearm now) s =
     (let (row, changed) = casChannel2NudgeState now Delivered NoIntent (sy_row s)
      in Some (s\<lparr>sy_row := row, sy_sends := (if changed then 0 else sy_sends s)\<rparr>))"
| "c2_apply (Reset now) s =
     Some (if nr_state (sy_row s) \<in> {Pending, Claimed}
           then s\<lparr>sy_row := setChannel2NudgeState now NoIntent (sy_row s)\<rparr> else s)"
| "c2_apply (Heal now) s = Some (s\<lparr>sy_row := healWedgedChannel2Claims now (sy_row s)\<rparr>)"

inductive c2_reach :: "(c2_action \<Rightarrow> bool) \<Rightarrow> c2_system \<Rightarrow> c2_system \<Rightarrow> bool" for allowed where
  c2_here: "c2_reach allowed s s"
| c2_next: "c2_reach allowed s t \<Longrightarrow> allowed a \<Longrightarrow> c2_apply a t = Some u \<Longrightarrow> c2_reach allowed s u"

definition c2_initial :: c2_system where
  "c2_initial = \<lparr>sy_row = \<lparr>nr_state = NoIntent, nr_claimedAt = Some 0, nr_claimToken = None\<rparr>, sy_proc = \<lambda>_. Idle,
     sy_used = {}, sy_sends = 0\<rparr>"

text \<open>A sequence of actions, \<open>None\<close> when one of them is not possible.\<close>

fun c2_run :: "c2_action list \<Rightarrow> c2_system \<Rightarrow> c2_system option" where
  "c2_run [] s = Some s"
| "c2_run (a # as) s = (case c2_apply a s of None \<Rightarrow> None | Some t \<Rightarrow> c2_run as t)"

text \<open>What can cost an extra message: a healed claim, a reset, and a failed call whose message was received.\<close>

fun disturbance :: "c2_action \<Rightarrow> bool" where
  "disturbance (Heal _) = True"
| "disturbance (Reset _) = True"
| "disturbance (FailSend _ _ reached) = reached"
| "disturbance _ = False"

section \<open>The invariant\<close>

definition owns :: "nudge_row \<Rightarrow> nat \<Rightarrow> bool" where
  "owns row tok \<longleftrightarrow> nr_state row = Claimed \<and> nr_claimToken row = Some tok"

lemmas row_ops = setChannel2NudgeState_def casChannel2NudgeState_def claimChannel2NudgeState_def casChannel2NudgeClaim_def owns_def
  claim_time_def

fun token_of :: "delivery \<Rightarrow> nat option" where
  "token_of (Claiming tok) = Some tok"
| "token_of d = held_token d"

text \<open>Deliveries have tokens of their own.\<close>

definition tokens_ok :: "c2_system \<Rightarrow> bool" where
  "tokens_ok s \<longleftrightarrow> finite {p. sy_proc s p \<noteq> Idle}
     \<and> (\<forall>p tok. token_of (sy_proc s p) = Some tok \<longrightarrow> tok \<in> sy_used s)
     \<and> (\<forall>p q tok. token_of (sy_proc s p) = Some tok \<longrightarrow> token_of (sy_proc s q) = Some tok \<longrightarrow> p = q)"

text \<open>
  The deliveries that have passed their check and then lost the claim: they will still send. And whether the row lets
  one more delivery send: it is free, or the one that has claimed it has not sent yet.
\<close>

definition late :: "c2_system \<Rightarrow> nat set" where
  "late s = {p. \<exists>tok. sy_proc s p = Ready tok \<and> \<not> owns (sy_row s) tok}"

definition unsent :: "c2_system \<Rightarrow> bool" where
  "unsent s \<longleftrightarrow> nr_state (sy_row s) \<in> {NoIntent, Pending}
     \<or> (\<exists>p tok. sy_proc s p \<in> {Holding tok, Ready tok} \<and> owns (sy_row s) tok)"

definition send_budget :: "c2_system \<Rightarrow> nat" where
  "send_budget s = sy_sends s + card (late s) + (if unsent s then 1 else 0)"

lemma finite_late: "tokens_ok s \<Longrightarrow> finite (late s)"
  unfolding tokens_ok_def by (elim conjE, erule rev_finite_subset) (auto simp: late_def)

lemma one_owner:
  "tokens_ok s \<Longrightarrow> token_of (sy_proc s p) = Some tok \<Longrightarrow> token_of (sy_proc s q) = Some tok \<Longrightarrow> p = q"
  unfolding tokens_ok_def by blast

lemma tokens_ok_proc:
  assumes "tokens_ok s" "sy_proc u = (sy_proc s)(p := d)" "sy_used s \<subseteq> sy_used u"
    and "token_of d = None \<or> token_of d = token_of (sy_proc s p)"
  shows "tokens_ok u"
proof -
  have "{q. sy_proc u q \<noteq> Idle} \<subseteq> insert p {q. sy_proc s q \<noteq> Idle}" using assms(2) by auto
  then have "finite {q. sy_proc u q \<noteq> Idle}"
    by (rule finite_subset) (use assms(1) in \<open>simp add: tokens_ok_def\<close>)
  moreover have "token_of (sy_proc u q) = Some tok \<Longrightarrow> token_of (sy_proc s q) = Some tok" for q tok
    using assms(2,4) by (auto split: if_splits)
  ultimately show ?thesis using assms(1,3) unfolding tokens_ok_def by blast
qed

text \<open>One delivery moves, and nobody else loses a claim.\<close>

lemma late_moves:
  assumes "tokens_ok s" "sy_proc u = (sy_proc s)(p := d)"
    and "\<And>q tok. q \<noteq> p \<Longrightarrow> sy_proc s q = Ready tok \<Longrightarrow> owns (sy_row s) tok \<Longrightarrow> owns (sy_row u) tok"
    and "\<And>tok. d = Ready tok \<Longrightarrow> owns (sy_row u) tok"
  shows "late u \<subseteq> late s - {p}" "card (late u) \<le> card (late s)" "p \<in> late s \<Longrightarrow> card (late u) < card (late s)"
proof -
  show l: "late u \<subseteq> late s - {p}" using assms(2-4) by (auto simp: late_def split: if_splits)
  then show "card (late u) \<le> card (late s)" by (intro card_mono finite_late [OF assms(1)]) blast
  assume "p \<in> late s"
  with l show "card (late u) < card (late s)" by (intro psubset_card_mono finite_late [OF assms(1)]) blast
qed

text \<open>The row is taken from its owner, whoever it is: one delivery may become late.\<close>

lemma late_dispossessed:
  assumes "tokens_ok s" "sy_proc u = sy_proc s" "nr_state (sy_row u) \<noteq> Claimed"
  shows "card (late u) \<le> card (late s) + 1"
    and "card (late u) \<le> card (late s) \<or> unsent s"
proof -
  have cases: "late u \<subseteq> late s \<or> (unsent s \<and> (\<exists>p. late u \<subseteq> insert p (late s)))"
  proof (cases "\<exists>p tok. sy_proc s p = Ready tok \<and> owns (sy_row s) tok")
    case True
    then obtain p tok where p: "sy_proc s p = Ready tok" "owns (sy_row s) tok" by blast
    have "q \<in> insert p (late s)" if "q \<in> late u" for q
    proof (cases "q \<in> late s")
      case False
      with that assms(2) obtain t where t: "sy_proc s q = Ready t" "owns (sy_row s) t" by (auto simp: late_def)
      with p(2) have "t = tok" by (simp add: owns_def)
      with one_owner [OF assms(1), of p tok q] p(1) t(1) show ?thesis by simp
    qed simp
    moreover have "unsent s" using p by (auto simp: unsent_def)
    ultimately show ?thesis by blast
  next
    case False
    then show ?thesis using assms(2) by (auto simp: late_def)
  qed
  note fin = finite_late [OF assms(1)]
  from cases show "card (late u) \<le> card (late s) + 1"
  proof
    assume "late u \<subseteq> late s"
    from card_mono [OF fin this] show ?thesis by simp
  next
    assume "unsent s \<and> (\<exists>p. late u \<subseteq> insert p (late s))"
    then obtain p where "late u \<subseteq> insert p (late s)" by blast
    from card_mono [OF _ this] fin card_insert_le_m1 [of "Suc (card (late s))" "late s" p] show ?thesis by simp
  qed
  from cases card_mono [OF fin] show "card (late u) \<le> card (late s) \<or> unsent s" by blast
qed

lemma owner_unsent: "sy_proc s p \<in> {Holding tok, Ready tok} \<Longrightarrow> owns (sy_row s) tok \<Longrightarrow> unsent s"
  by (auto simp: unsent_def)

lemma unsent_free: "nr_state (sy_row s) \<in> {NoIntent, Pending} \<Longrightarrow> unsent s"
  by (simp add: unsent_def)

lemma unsent_delivered: "nr_state (sy_row s) = Delivered \<Longrightarrow> \<not> unsent s"
  by (auto simp: unsent_def owns_def)

section \<open>What an action can cost\<close>

definition grows :: "c2_system \<Rightarrow> c2_system \<Rightarrow> nat \<Rightarrow> bool" where
  "grows s u k \<longleftrightarrow> tokens_ok u \<and> card (late u) \<le> card (late s) + k
     \<and> (send_budget u \<le> send_budget s + k \<or> send_budget u \<le> 1 + card (late s) + k)"

text \<open>Nothing is sent, and no claim is won or lost.\<close>

lemma quiet_move:
  assumes "tokens_ok s" "tokens_ok u" "sy_proc u = (sy_proc s)(p := d)" "held_token d = None \<or> d = sy_proc s p"
    and "sy_sends u = sy_sends s" "sy_row u = sy_row s \<or> {nr_state (sy_row s), nr_state (sy_row u)} \<subseteq> {NoIntent, Pending}"
  shows "grows s u 0"
proof -
  have late: "late u \<subseteq> late s" using assms(3-6) by (auto simp: late_def owns_def split: if_splits)
  then have "card (late u) \<le> card (late s)" by (rule card_mono [OF finite_late [OF assms(1)]])
  moreover have "unsent u \<Longrightarrow> unsent s"
    using assms(3,4,6) by (fastforce simp: unsent_def owns_def split: if_splits)
  ultimately show ?thesis using assms(2,5) by (simp add: grows_def send_budget_def)
qed

text \<open>A delivery ends by releasing, restoring or confirming its claim.\<close>

lemma ending_move:
  assumes "tokens_ok s" "held_token (sy_proc s p) = Some tok" "sy_proc u = (sy_proc s)(p := Idle)" "sy_used u = sy_used s"
    and "sy_row u = fst (casChannel2NudgeClaim now to tok (sy_row s))" "to \<noteq> Claimed" "sy_sends u = sy_sends s + k" "k \<le> 1"
    and "to \<noteq> Delivered \<Longrightarrow> sy_proc s p \<in> {Holding tok, Ready tok}"
  shows "grows s u k"
proof -
  have tok: "token_of (sy_proc s p) = Some tok" using assms(2) by (cases "sy_proc s p") auto
  have ok: "tokens_ok u" by (rule tokens_ok_proc [OF assms(1,3)]) (use assms(4) in auto)
  show ?thesis
  proof (cases "owns (sy_row s) tok")
    case True
    then have row: "nr_state (sy_row u) = to" using assms(5) by (simp add: row_ops)
    have "sy_proc s q \<noteq> Ready t" if "q \<noteq> p" "owns (sy_row s) t" for q t
    proof
      assume "sy_proc s q = Ready t"
      moreover have "t = tok" using True that(2) by (simp add: owns_def)
      ultimately show False using one_owner [OF assms(1) tok, of q] that(1) by simp
    qed
    then have "card (late u) \<le> card (late s)" by (intro late_moves(2) [OF assms(1,3)]) auto
    moreover have "unsent u \<Longrightarrow> unsent s"
      using unsent_delivered [of u] row assms(6,9) owner_unsent [of s p, OF _ True] by (cases to) auto
    ultimately show ?thesis using ok assms(7) by (simp add: grows_def send_budget_def)
  next
    case False
    then have row: "sy_row u = sy_row s" using assms(5) by (auto simp: row_ops)
    have "card (late u) \<le> card (late s)" by (rule late_moves(2) [OF assms(1,3)]) (simp_all add: row)
    moreover have "unsent u \<Longrightarrow> unsent s" using assms(3) row by (auto simp: unsent_def split: if_splits)
    ultimately show ?thesis using ok assms(7) by (simp add: grows_def send_budget_def)
  qed
qed

lemma sending_move:
  assumes "tokens_ok s" "sy_proc s p = Ready tok" "sy_proc u = (sy_proc s)(p := Sent tok)" "sy_used u = sy_used s"
    and "sy_row u = sy_row s" "sy_sends u = sy_sends s + 1"
  shows "grows s u 0"
proof -
  have ok: "tokens_ok u" by (rule tokens_ok_proc [OF assms(1,3)]) (use assms(2,4) in auto)
  have l: "card (late u) \<le> card (late s)" "p \<in> late s \<Longrightarrow> card (late u) < card (late s)"
    using late_moves(2,3) [OF assms(1,3)] assms(5) by auto
  show ?thesis
  proof (cases "owns (sy_row s) tok")
    case True
    have "sy_proc u q \<notin> {Holding t, Ready t}" if "owns (sy_row s) t" for q t
    proof
      assume q: "sy_proc u q \<in> {Holding t, Ready t}"
      have "t = tok" using True that by (simp add: owns_def)
      moreover have "q \<noteq> p" "sy_proc s q \<in> {Holding t, Ready t}" using q assms(3) by (auto split: if_splits)
      ultimately show False using one_owner [OF assms(1), of p tok q] assms(2) by auto
    qed
    then have "\<not> unsent u" using True assms(5) by (auto simp: unsent_def owns_def)
    moreover have "unsent s" using owner_unsent [of s p, OF _ True] assms(2) by simp
    ultimately show ?thesis using ok l(1) assms(6) by (simp add: grows_def send_budget_def)
  next
    case False
    then have "p \<in> late s" using assms(2) by (simp add: late_def)
    moreover have "unsent u \<Longrightarrow> unsent s" using assms(3,5) by (auto simp: unsent_def split: if_splits)
    ultimately show ?thesis using ok l assms(6) by (simp add: grows_def send_budget_def)
  qed
qed

text \<open>The claim is won, or checked.\<close>

lemma holding_move:
  assumes "tokens_ok s" "token_of (sy_proc s p) = Some tok" "d \<in> {Holding tok, Ready tok}" "sy_proc u = (sy_proc s)(p := d)"
    "sy_used u = sy_used s" "sy_sends u = sy_sends s" "owns (sy_row u) tok" "unsent s"
    and "sy_row u = sy_row s \<or> nr_state (sy_row s) = Pending"
  shows "grows s u 0"
proof -
  have "tokens_ok u" by (rule tokens_ok_proc [OF assms(1,4)]) (use assms(2,3,5) in auto)
  moreover have "card (late u) \<le> card (late s)"
    by (rule late_moves(2) [OF assms(1,4)]) (use assms(3,7,9) in \<open>auto simp: owns_def\<close>)
  ultimately show ?thesis using assms(6,8) by (simp add: grows_def send_budget_def)
qed

lemma dispossessing:
  assumes "tokens_ok s" "u = s\<lparr>sy_row := row\<rparr>" "nr_state row = NoIntent"
  shows "grows s u 1"
proof -
  have "tokens_ok u" using assms(1,2) by (simp add: tokens_ok_def)
  moreover have "card (late u) \<le> card (late s) + 1" "card (late u) \<le> card (late s) \<or> unsent s"
    using late_dispossessed [OF assms(1), of u] assms(2,3) by auto
  ultimately show ?thesis using assms(2) by (auto simp: grows_def send_budget_def)
qed

lemma grows_more: "grows s u 0 \<Longrightarrow> grows s u k"
  by (auto simp: grows_def)

lemma same_procs: "tokens_ok s \<Longrightarrow> sy_proc u = sy_proc s \<Longrightarrow> sy_used u = sy_used s \<Longrightarrow> tokens_ok u"
  by (simp add: tokens_ok_def)

lemma c2_step_grows:
  assumes ok: "tokens_ok s" and u: "c2_apply a s = Some u"
  shows "grows s u (of_bool (disturbance a))"
proof -
  have quiet: "grows s u 0" if "sy_proc u = (sy_proc s)(p := d)" "sy_used u = sy_used s" "held_token d = None" "token_of d = None"
    "sy_sends u = sy_sends s" "sy_row u = sy_row s \<or> {nr_state (sy_row s), nr_state (sy_row u)} \<subseteq> {NoIntent, Pending}" for p d
    using that by (intro quiet_move [OF ok] tokens_ok_proc [OF ok that(1)]) auto
  have still: "grows s u 0" if "sy_proc u = sy_proc s" "sy_used u = sy_used s" "sy_sends u = sy_sends s"
    "sy_row u = sy_row s \<or> {nr_state (sy_row s), nr_state (sy_row u)} \<subseteq> {NoIntent, Pending}"
    using that by (intro quiet_move [OF ok same_procs [OF ok], where p = 0 and d = "sy_proc s 0"]) auto
  show ?thesis
  proof (cases a)
    case (Transform b now)
    with u have "grows s u 0" by (intro still) (auto simp: row_ops split: if_splits)
    then show ?thesis using Transform by simp
  next
    case (Begin p env tok)
    then have p: "sy_proc s p = Idle" "tok \<notin> sy_used s" using u by (auto split: if_splits)
    show ?thesis
    proof (cases "delivery_decision env (nr_state (sy_row s))")
      case TryClaim
      then have u': "u = set_proc p (Claiming tok) (s\<lparr>sy_used := insert tok (sy_used s)\<rparr>)" using Begin u p by simp
      have "finite {q. sy_proc u q \<noteq> Idle}"
        by (rule finite_subset [of _ "insert p {q. sy_proc s q \<noteq> Idle}"]) (use ok in \<open>auto simp: u' set_proc_def tokens_ok_def\<close>)
      then have "tokens_ok u" using ok p(2) unfolding tokens_ok_def u' by (auto simp: set_proc_def split: if_splits)
      then have "grows s u 0" by (intro quiet_move [OF ok]) (auto simp: u' set_proc_def)
      then show ?thesis using Begin by simp
    next
      case LeaveRow
      with Begin u p show ?thesis using still by simp
    next
      case ClearPending
      with Begin u p have "grows s u 0" by (intro quiet [of p Clearing]) (auto simp: set_proc_def)
      then show ?thesis using Begin by simp
    qed
  next
    case (Clear p now)
    with u have "grows s u 0" by (intro quiet [of p Idle]) (auto simp: row_ops set_proc_def split: if_splits)
    then show ?thesis using Clear by simp
  next
    case (Claim p now)
    then obtain tok where p: "sy_proc s p = Claiming tok" using u by (auto split: delivery.splits)
    show ?thesis
    proof (cases "nr_state (sy_row s) = Pending")
      case True
      with Claim u p have "grows s u 0"
        by (intro holding_move [OF ok, of p tok "Holding tok"]) (auto simp: claimChannel2NudgeState_def set_proc_def owns_def intro: unsent_free)
      then show ?thesis using Claim by simp
    next
      case False
      with Claim u p have "grows s u 0" by (intro quiet [of p Idle]) (auto simp: claimChannel2NudgeState_def set_proc_def)
      then show ?thesis using Claim by simp
    qed
  next
    case (Check p)
    then obtain tok where p: "sy_proc s p = Holding tok" using u by (auto split: delivery.splits)
    show ?thesis
    proof (cases "owns (sy_row s) tok")
      case True
      with Check u p have "grows s u 0"
        by (intro holding_move [OF ok, of p tok "Ready tok"]) (auto simp: set_proc_def owns_def intro: owner_unsent)
      then show ?thesis using Check by simp
    next
      case False
      then have "\<not> (nr_state (sy_row s) = Claimed \<and> nr_claimToken (sy_row s) = Some tok)" by (simp add: owns_def)
      with Check u p have "grows s u 0" by (intro quiet [of p Idle]) (auto simp: set_proc_def)
      then show ?thesis using Check by simp
    qed
  next
    case (Release p now)
    then obtain tok where "sy_proc s p \<in> {Holding tok, Ready tok}" using u by (auto split: delivery.splits)
    with Release u have "grows s u 0" by (intro ending_move [OF ok, of p tok _ now NoIntent]) (auto simp: set_proc_def)
    then show ?thesis using Release by simp
  next
    case (Send p)
    then obtain tok where "sy_proc s p = Ready tok" using u by (auto split: delivery.splits)
    with Send u have "grows s u 0" by (intro sending_move [OF ok, of p tok]) (auto simp: set_proc_def)
    then show ?thesis using Send by simp
  next
    case (FailSend p now reached)
    then obtain tok where "sy_proc s p \<in> {Holding tok, Ready tok}" using u by (auto split: delivery.splits)
    with FailSend u show ?thesis
      by (intro ending_move [OF ok, of p tok _ now Pending]) (auto simp: set_proc_def split: if_splits)
  next
    case (Confirm p now)
    then obtain tok where "sy_proc s p = Sent tok" using u by (auto split: delivery.splits)
    with Confirm u have "grows s u 0" by (intro ending_move [OF ok, of p tok _ now Delivered]) (auto simp: set_proc_def)
    then show ?thesis using Confirm by simp
  next
    case (Crash p)
    with u have "grows s u 0" by (intro quiet [of p Idle]) (auto simp: set_proc_def)
    then show ?thesis using Crash by simp
  next
    case (Rearm now)
    show ?thesis
    proof (cases "nr_state (sy_row s) = Delivered")
      case True
      with Rearm u have u': "sy_proc u = sy_proc s" "sy_used u = sy_used s" "sy_sends u = 0" by (auto simp: row_ops)
      have "late u \<subseteq> late s" using u' True by (auto simp: late_def owns_def)
      then have "card (late u) \<le> card (late s)" by (rule card_mono [OF finite_late [OF ok]])
      then show ?thesis using Rearm u' same_procs [OF ok u'(1,2)] by (simp add: grows_def send_budget_def)
    next
      case False
      with Rearm u have "grows s u 0" by (intro still) (auto simp: row_ops)
      then show ?thesis using Rearm by simp
    qed
  next
    case (Reset now)
    show ?thesis
    proof (cases "nr_state (sy_row s) \<in> {Pending, Claimed}")
      case True
      with Reset u have "grows s u 1" by (intro dispossessing [OF ok]) (auto simp: setChannel2NudgeState_def)
      then show ?thesis using Reset by simp
    next
      case False
      with Reset u have "u = s" by auto
      with still have "grows s u 0" by simp
      then show ?thesis by (rule grows_more)
    qed
  next
    case (Heal now)
    show ?thesis
    proof (cases "healWedgedChannel2Claims now (sy_row s) = sy_row s")
      case True
      with Heal u have "grows s u 0" by (intro still) auto
      then show ?thesis by (rule grows_more)
    next
      case False
      then have "nr_state (healWedgedChannel2Claims now (sy_row s)) = NoIntent" by (simp add: healWedgedChannel2Claims_def split: if_splits)
      with Heal u have "grows s u 1" by (intro dispossessing [OF ok]) auto
      then show ?thesis using Heal by simp
    qed
  qed
qed

lemma c2_run_bounded:
  assumes "tokens_ok s" "card (late s) \<le> d" "send_budget s \<le> 1 + d" "c2_run as s = Some t"
  shows "send_budget t \<le> 1 + d + length (filter disturbance as)"
  using assms
proof (induction as arbitrary: s d)
  case (Cons a as)
  then obtain u where u: "c2_apply a s = Some u" "c2_run as u = Some t" by (auto split: option.splits)
  from c2_step_grows [OF Cons.prems(1) u(1)] Cons.prems(2,3)
  have "tokens_ok u" "card (late u) \<le> d + of_bool (disturbance a)" "send_budget u \<le> 1 + (d + of_bool (disturbance a))"
    by (auto simp: grows_def)
  from Cons.IH [OF this u(2)] show ?case by auto
qed simp

text \<open>A token that neither owns the row nor is about to claim never owns it again: a later delivery has a fresh one.\<close>

definition lost :: "c2_system \<Rightarrow> nat \<Rightarrow> bool" where
  "lost s tok \<longleftrightarrow> tok \<in> sy_used s \<and> \<not> owns (sy_row s) tok \<and> (\<forall>p. sy_proc s p \<noteq> Claiming tok)"

lemma lost_step:
  assumes "c2_apply a s = Some u" "lost s tok"
  shows "lost u tok"
proof -
  have l: "tok \<in> sy_used s" "\<not> owns (sy_row s) tok" "\<And>p. sy_proc s p \<noteq> Claiming tok"
    using assms(2) by (auto simp: lost_def)
  have keep: "\<not> owns (fst (casChannel2NudgeState now a b (sy_row s))) tok"
    "\<not> owns (fst (casChannel2NudgeClaim now b t (sy_row s))) tok"
    "\<not> owns (setChannel2NudgeState now b (sy_row s)) tok"
    "\<not> owns (healWedgedChannel2Claims now (sy_row s)) tok"
    "sy_proc s p = Claiming t \<Longrightarrow> \<not> owns (fst (claimChannel2NudgeState now t (sy_row s))) tok" for now a b t p
    using l(2) l(3) [of p] by (auto simp: row_ops healWedgedChannel2Claims_def)
  show ?thesis
    using assms(1) l
    by (cases a) (auto simp: lost_def set_proc_def Let_def keep split_beta
        split: if_splits delivery.splits delivery_choice.splits)
qed

section \<open>Properties\<close>


definition example_env :: delivery_env where
  "example_env = \<lparr>de_runActive = True, de_baseline = None, de_directive = True, de_client = True\<rparr>"

lemma run_actions:
  "foldl (\<lambda>s a. case s of None \<Rightarrow> None | Some t \<Rightarrow> if allowed a then c2_apply a t else None) (Some s) as = Some u
   \<Longrightarrow> c2_reach allowed s u"
proof (induction as arbitrary: u rule: rev_induct)
  case Nil
  then show ?case by (simp add: c2_here)
next
  case (snoc a as)
  then show ?case by (auto split: option.splits if_splits intro: c2_next)
qed


text \<open>
  A delivery that lost its claim, to the healing of stale claims or to a reset, never gets it back:
  no later action, of any process, makes its token own the row again, so it can neither confirm,
  release nor restore the claim of another.
\<close>

theorem lost_claim_stays_lost:
  assumes "c2_reach (\<lambda>_. True) s t" "tok \<in> sy_used s" "\<not> owns (sy_row s) tok" "\<forall>p. sy_proc s p \<noteq> Claiming tok"
  shows "\<not> owns (sy_row t) tok \<and> casChannel2NudgeClaim now to tok (sy_row t) = (sy_row t, False)"
proof -
  from assms(1) have "lost s tok \<longrightarrow> lost t tok"
    by (induction rule: c2_reach.induct) (use lost_step in blast)+
  then show ?thesis using assms(2-4) by (auto simp: lost_def casChannel2NudgeClaim_def owns_def)
qed

theorem lost_claim_stays_lost_witness:
  "\<exists>t. c2_reach (\<lambda>_. True) (c2_initial\<lparr>sy_used := {7}\<rparr>) t \<and> nr_state (sy_row t) = Claimed \<and> \<not> owns (sy_row t) 7"
proof -
  let ?s = "c2_initial\<lparr>sy_used := {7}\<rparr>"
  let ?run = "[Transform True 1, Begin 0 example_env 8, Claim 0 2]"
  obtain t where t: "foldl (\<lambda>s a. case s of None \<Rightarrow> None | Some t \<Rightarrow> if True then c2_apply a t else None)
      (Some ?s) ?run = Some t" "nr_state (sy_row t) = Claimed"
    by (simp add: c2_initial_def row_ops set_proc_def delivery_decision_def example_env_def)
  from run_actions [where allowed = "\<lambda>_. True", OF t(1)] have r: "c2_reach (\<lambda>_. True) ?s t" .
  have "7 \<in> sy_used ?s" "\<not> owns (sy_row ?s) 7" "\<forall>p. sy_proc ?s p \<noteq> Claiming 7"
    by (simp_all add: owns_def c2_initial_def)
  from lost_claim_stays_lost [OF r this] r t(2) show ?thesis by blast
qed

text \<open>
  The bound is reached: a send that fails after the host has
  taken the message restores the intent, and the next delivery sends it again.
\<close>

theorem failed_send_can_repeat:
  "\<exists>s. c2_reach (\<lambda>a. (\<forall>t. a \<noteq> Heal t) \<and> (\<forall>t. a \<noteq> Reset t)) c2_initial s \<and> sy_sends s = 2"
proof -
  let ?ok = "\<lambda>a. (\<forall>t. a \<noteq> Heal t) \<and> (\<forall>t. a \<noteq> Reset t)"
  let ?run = "[Transform True 1, Begin 0 example_env 7, Claim 0 2, Check 0, FailSend 0 3 True, Begin 1 example_env 8, Claim 1 4, Check 1, Send 1]"
  obtain s where "foldl (\<lambda>s a. case s of None \<Rightarrow> None | Some t \<Rightarrow> if ?ok a then c2_apply a t else None)
      (Some c2_initial) ?run = Some s" "sy_sends s = 2"
    by (simp add: c2_initial_def row_ops set_proc_def delivery_decision_def example_env_def)
  with run_actions [where allowed = ?ok] show ?thesis by blast
qed

end
