(* ===== verification/Regex.thy ===== *)
theory Regex
  imports Raw_Messages
begin

text \<open>
  The part of JavaScript's regular expressions the source uses: a backtracking matcher that returns the
  matches at a position in the order in which the language tries them, the search for the first position, and the
  loops behind \<open>matchAll\<close> and \<open>replace\<close> with the global flag. A pattern is a term; a class of characters
  is a predicate. A subject matched with the flag \<open>i\<close> is folded to lower case first, and the pattern
  is written in lower case.
\<close>

section \<open>Patterns\<close>

datatype regex =
    Eps
  | Cls "char \<Rightarrow> bool"
  | Seq regex regex
  | Alt regex regex
  | Star bool regex
  | Grp nat regex
  | Back nat
  | LineStart
  | TextStart
  | LineEnd
  | TextEnd
  | WordEdge

text \<open>A position: the character before it, the text after it, and the groups captured so far.\<close>

record position =
  ps_before :: "char option"
  ps_rest :: string
  ps_groups :: "nat \<rightharpoonup> string"

definition line_end :: "char \<Rightarrow> bool" where
  "line_end c = (of_char c \<in> {10, 13 :: nat})"

definition word_char :: "char \<Rightarrow> bool" where
  "word_char c = (let n = of_char c :: nat in (48 \<le> n \<and> n \<le> 57) \<or> (65 \<le> n \<and> n \<le> 90) \<or> (97 \<le> n \<and> n \<le> 122) \<or> n = 95)"

definition word_edge :: "position \<Rightarrow> bool" where
  "word_edge st =
     ((case ps_before st of None \<Rightarrow> False | Some c \<Rightarrow> word_char c)
      \<noteq> (case ps_rest st of [] \<Rightarrow> False | c # _ \<Rightarrow> word_char c))"

text \<open>After the first \<open>n\<close> characters of the rest.\<close>

definition advance :: "nat \<Rightarrow> position \<Rightarrow> position" where
  "advance n st =
     st\<lparr>ps_before := (if n = 0 then ps_before st else Some (last (take n (ps_rest st)))), ps_rest := drop n (ps_rest st)\<rparr>"

text \<open>
  Repetition tries the body first when it is greedy and stopping first when it is lazy; an iteration has
  to consume something, so there are at most as many as characters left.
\<close>

fun iterate :: "bool \<Rightarrow> (position \<Rightarrow> position list) \<Rightarrow> nat \<Rightarrow> position \<Rightarrow> position list" where
  "iterate greedy f 0 st = [st]"
| "iterate greedy f (Suc n) st =
     (let more = concat (map (iterate greedy f n) (filter (\<lambda>st'. length (ps_rest st') < length (ps_rest st)) (f st)))
      in if greedy then more @ [st] else st # more)"

fun matches_at :: "regex \<Rightarrow> position \<Rightarrow> position list" where
  "matches_at Eps st = [st]"
| "matches_at (Cls p) st = (case ps_rest st of [] \<Rightarrow> [] | c # _ \<Rightarrow> if p c then [advance 1 st] else [])"
| "matches_at (Seq a b) st = concat (map (matches_at b) (matches_at a st))"
| "matches_at (Alt a b) st = matches_at a st @ matches_at b st"
| "matches_at (Star greedy r) st = iterate greedy (matches_at r) (length (ps_rest st)) st"
| "matches_at (Grp n r) st =
     map (\<lambda>st'. st'\<lparr>ps_groups := (ps_groups st')(n \<mapsto> take (length (ps_rest st) - length (ps_rest st')) (ps_rest st))\<rparr>)
       (matches_at r st)"
| "matches_at (Back n) st =
     (let s = (case ps_groups st n of None \<Rightarrow> [] | Some s \<Rightarrow> s)
      in if starts_with s (ps_rest st) then [advance (length s) st] else [])"
| "matches_at LineStart st = (case ps_before st of None \<Rightarrow> [st] | Some c \<Rightarrow> if line_end c then [st] else [])"
| "matches_at TextStart st = (if ps_before st = None then [st] else [])"
| "matches_at LineEnd st = (case ps_rest st of [] \<Rightarrow> [st] | c # _ \<Rightarrow> if line_end c then [st] else [])"
| "matches_at TextEnd st = (if ps_rest st = [] then [st] else [])"
| "matches_at WordEdge st = (if word_edge st then [st] else [])"

section \<open>Searching\<close>

record rmatch =
  rx_pre :: string
  rx_text :: string
  rx_post :: position
  rx_groups :: "nat \<rightharpoonup> string"

definition start_position :: "char option \<Rightarrow> string \<Rightarrow> position" where
  "start_position prev s = \<lparr>ps_before = prev, ps_rest = s, ps_groups = Map.empty\<rparr>"

fun search :: "regex \<Rightarrow> char option \<Rightarrow> string \<Rightarrow> rmatch option" where
  "search r prev s =
     (case matches_at r (start_position prev s) of
        st # _ \<Rightarrow> Some \<lparr>rx_pre = [], rx_text = take (length s - length (ps_rest st)) s, rx_post = st, rx_groups = ps_groups st\<rparr>
      | [] \<Rightarrow> (case s of
          [] \<Rightarrow> None
        | c # cs \<Rightarrow> map_option (\<lambda>m. m\<lparr>rx_pre := c # rx_pre m\<rparr>) (search r (Some c) cs)))"

declare search.simps [simp del]

definition exec :: "regex \<Rightarrow> string \<Rightarrow> rmatch option" where
  "exec r s = search r None s"

definition test :: "regex \<Rightarrow> string \<Rightarrow> bool" where
  "test r s = (exec r s \<noteq> None)"

text \<open>The text of a group, the empty string when it did not take part.\<close>

definition group_text :: "nat \<Rightarrow> rmatch \<Rightarrow> string" where
  "group_text n m = (case rx_groups m n of None \<Rightarrow> [] | Some s \<Rightarrow> s)"

section \<open>Matches stay inside the text\<close>

definition extends :: "position \<Rightarrow> position \<Rightarrow> bool" where
  "extends st st' \<longleftrightarrow> (\<exists>n \<le> length (ps_rest st). ps_rest st' = drop n (ps_rest st)
     \<and> ps_before st' = (if n = 0 then ps_before st else Some (ps_rest st ! (n - 1))))"

lemma extends_refl [simp]: "extends st st"
  by (auto simp: extends_def)

lemma last_take: "0 < n \<Longrightarrow> n \<le> length xs \<Longrightarrow> last (take n xs) = xs ! (n - 1)"
  by (subst last_conv_nth) auto

lemma extends_advance: "n \<le> length (ps_rest st) \<Longrightarrow> extends st (advance n st)"
  by (auto simp: extends_def advance_def last_take intro!: exI [where x = n])

lemma extends_trans:
  assumes "extends a b" "extends b c"
  shows "extends a c"
proof -
  obtain n m where n: "n \<le> length (ps_rest a)" "ps_rest b = drop n (ps_rest a)"
      "ps_before b = (if n = 0 then ps_before a else Some (ps_rest a ! (n - 1)))"
    and m: "m \<le> length (ps_rest b)" "ps_rest c = drop m (ps_rest b)"
      "ps_before c = (if m = 0 then ps_before b else Some (ps_rest b ! (m - 1)))"
    using assms by (auto simp: extends_def)
  have "ps_before c = (if n + m = 0 then ps_before a else Some (ps_rest a ! (n + m - 1)))"
    using n m by (cases m) auto
  moreover have "ps_rest c = drop (n + m) (ps_rest a)" using n m by (simp add: add.commute)
  moreover have "n + m \<le> length (ps_rest a)" using n m by simp
  ultimately show ?thesis unfolding extends_def by blast
qed

lemma extends_shorter: "extends st st' \<Longrightarrow> length (ps_rest st') \<le> length (ps_rest st)"
  by (auto simp: extends_def)

lemma iterate_extends:
  assumes f: "\<And>st st'. st' \<in> set (f st) \<Longrightarrow> extends st st'"
  shows "st' \<in> set (iterate g f n st) \<Longrightarrow> extends st st'"
proof (induction n arbitrary: st)
  case (Suc n)
  then consider "st' = st" | st'' where "st'' \<in> set (f st)" "st' \<in> set (iterate g f n st'')"
    by (auto simp: Let_def split: if_splits)
  then show ?case
  proof cases
    case 2
    from f [OF 2(1)] Suc.IH [OF 2(2)] show ?thesis by (rule extends_trans)
  qed simp
qed simp

lemma matches_extend: "st' \<in> set (matches_at r st) \<Longrightarrow> extends st st'"
proof (induction r arbitrary: st st')
  case (Cls p)
  then show ?case by (cases "ps_rest st") (auto split: if_splits intro!: extends_advance)
next
  case (Seq a b)
  then obtain st'' where "st'' \<in> set (matches_at a st)" "st' \<in> set (matches_at b st'')" by auto
  with Seq.IH show ?case using extends_trans by blast
next
  case (Star g r)
  then show ?case using iterate_extends [of "matches_at r"] by auto
next
  case (Grp n r)
  then obtain u where "u \<in> set (matches_at r st)" "ps_rest st' = ps_rest u" "ps_before st' = ps_before u" by auto
  with Grp.IH [of u st] show ?case by (simp add: extends_def)
next
  case (Back n)
  then have "\<exists>s. starts_with s (ps_rest st) \<and> st' = advance (length s) st" by (auto simp: Let_def split: if_splits)
  then obtain s where "starts_with s (ps_rest st)" "st' = advance (length s) st" by blast
  moreover have "length s \<le> length (ps_rest st)"
    using arg_cong [OF calculation(1) [unfolded starts_with_def], of length] by simp
  ultimately show ?case by (simp add: extends_advance)
qed (auto split: option.splits list.splits if_splits)

text \<open>A match splits the text: what comes before it, the match, and what comes after.\<close>

lemma search_splits:
  "search r prev s = Some m \<Longrightarrow> s = rx_pre m @ rx_text m @ ps_rest (rx_post m)
   \<and> ps_before (rx_post m) = (if rx_pre m @ rx_text m = [] then prev else Some (last (rx_pre m @ rx_text m)))"
proof (induction s arbitrary: prev m)
  case Nil
  show ?case
  proof (cases "matches_at r (start_position prev [])")
    case (Cons st sts)
    then have "extends (start_position prev []) st" by (intro matches_extend [of st r]) simp
    with Nil Cons show ?thesis by (auto simp: search.simps [of r prev "[]"] extends_def start_position_def)
  qed (use Nil in \<open>simp add: search.simps [of r prev "[]"]\<close>)
next
  case (Cons c cs)
  show ?case
  proof (cases "matches_at r (start_position prev (c # cs))")
    case Nil
    then obtain m' where m': "search r (Some c) cs = Some m'" "m = m'\<lparr>rx_pre := c # rx_pre m'\<rparr>"
      using Cons.prems by (auto simp: search.simps [of r prev "c # cs"])
    from Cons.IH [OF m'(1)] show ?thesis by (auto simp: m'(2))
  next
    case m: (Cons st sts)
    then have e: "extends (start_position prev (c # cs)) st" by (intro matches_extend [of st r]) simp
    then obtain n where n: "n \<le> length (c # cs)" "ps_rest st = drop n (c # cs)"
      "ps_before st = (if n = 0 then prev else Some ((c # cs) ! (n - 1)))"
      by (auto simp: extends_def start_position_def)
    have t: "take (length (c # cs) - length (ps_rest st)) (c # cs) = take n (c # cs)" using n by simp
    have "m = \<lparr>rx_pre = [], rx_text = take n (c # cs), rx_post = st, rx_groups = ps_groups st\<rparr>"
      using Cons.prems m t by (simp add: search.simps [of r prev "c # cs"])
    then show ?thesis using n by (auto simp: last_conv_nth min_def)
  qed
qed

lemma exec_splits: "exec r s = Some m \<Longrightarrow> s = rx_pre m @ rx_text m @ ps_rest (rx_post m)"
  using search_splits [of r None s m] by (simp add: exec_def)

section \<open>All matches\<close>

text \<open>
  \<open>s.matchAll(r)\<close>: the next search starts after the match, one character further when the match is empty.
\<close>

function match_all :: "regex \<Rightarrow> char option \<Rightarrow> string \<Rightarrow> rmatch list" where
  "match_all r prev s =
     (case search r prev s of
        None \<Rightarrow> []
      | Some m \<Rightarrow>
          m # (if rx_text m \<noteq> [] then match_all r (ps_before (rx_post m)) (ps_rest (rx_post m))
               else (case ps_rest (rx_post m) of [] \<Rightarrow> [] | c # cs \<Rightarrow> match_all r (Some c) cs)))"
  by pat_completeness auto
termination
proof (relation "measure (\<lambda>(r, prev, s). length s)")
  fix r prev s m assume "search r prev s = Some m" "rx_text m \<noteq> []"
  then have "length s = length (rx_pre m @ rx_text m @ ps_rest (rx_post m))" using search_splits [of r prev s m] by metis
  then show "((r, ps_before (rx_post m), ps_rest (rx_post m)), r, prev, s) \<in> measure (\<lambda>(r, prev, s). length s)"
    using \<open>rx_text m \<noteq> []\<close> by (cases "rx_text m") auto
next
  fix r prev s m c cs assume "search r prev s = Some m" "ps_rest (rx_post m) = c # cs"
  then have "length s = length (rx_pre m @ rx_text m @ c # cs)" using search_splits [of r prev s m] by metis
  then show "((r, Some c, cs), r, prev, s) \<in> measure (\<lambda>(r, prev, s). length s)" by simp
qed simp

declare match_all.simps [simp del]

definition matchAll :: "regex \<Rightarrow> string \<Rightarrow> rmatch list" where
  "matchAll r s = match_all r None s"

text \<open>\<open>s.replace(r, f)\<close> with the global flag, and without it.\<close>

function replace_from :: "regex \<Rightarrow> (rmatch \<Rightarrow> string) \<Rightarrow> char option \<Rightarrow> string \<Rightarrow> string" where
  "replace_from r f prev s =
     (case search r prev s of
        None \<Rightarrow> s
      | Some m \<Rightarrow>
          rx_pre m @ f m @
          (if rx_text m \<noteq> [] then replace_from r f (ps_before (rx_post m)) (ps_rest (rx_post m))
           else (case ps_rest (rx_post m) of [] \<Rightarrow> [] | c # cs \<Rightarrow> c # replace_from r f (Some c) cs)))"
  by pat_completeness auto
termination
proof (relation "measure (\<lambda>(r, f, prev, s). length s)")
  fix r prev s m and f :: "rmatch \<Rightarrow> string" assume "search r prev s = Some m" "rx_text m \<noteq> []"
  then have "length s = length (rx_pre m @ rx_text m @ ps_rest (rx_post m))" using search_splits [of r prev s m] by metis
  then show "((r, f, ps_before (rx_post m), ps_rest (rx_post m)), r, f, prev, s) \<in> measure (\<lambda>(r, f, prev, s). length s)"
    using \<open>rx_text m \<noteq> []\<close> by (cases "rx_text m") auto
next
  fix r prev s m c cs and f :: "rmatch \<Rightarrow> string" assume "search r prev s = Some m" "ps_rest (rx_post m) = c # cs"
  then have "length s = length (rx_pre m @ rx_text m @ c # cs)" using search_splits [of r prev s m] by metis
  then show "((r, f, Some c, cs), r, f, prev, s) \<in> measure (\<lambda>(r, f, prev, s). length s)" by simp
qed simp

declare replace_from.simps [simp del]

definition replaceAll :: "regex \<Rightarrow> (rmatch \<Rightarrow> string) \<Rightarrow> string \<Rightarrow> string" where
  "replaceAll r f s = replace_from r f None s"

definition replaceFirst :: "regex \<Rightarrow> (rmatch \<Rightarrow> string) \<Rightarrow> string \<Rightarrow> string" where
  "replaceFirst r f s =
     (case exec r s of None \<Rightarrow> s | Some m \<Rightarrow> rx_pre m @ f m @ ps_rest (rx_post m))"

section \<open>Pattern abbreviations\<close>

fun lit :: "string \<Rightarrow> regex" where
  "lit [] = Eps"
| "lit [c] = Cls (\<lambda>x. x = c)"
| "lit (c # cs) = Seq (Cls (\<lambda>x. x = c)) (lit cs)"

fun seq :: "regex list \<Rightarrow> regex" where
  "seq [] = Eps"
| "seq [r] = r"
| "seq (r # rs) = Seq r (seq rs)"

fun alts :: "regex list \<Rightarrow> regex" where
  "alts [] = Cls (\<lambda>_. False)"
| "alts [r] = r"
| "alts (r # rs) = Alt r (alts rs)"

fun times :: "nat \<Rightarrow> regex \<Rightarrow> regex" where
  "times 0 r = Eps"
| "times (Suc n) r = Seq r (times n r)"

text \<open>\<open>r{0,n}\<close>, \<open>r{m,n}\<close>, \<open>r{m,}\<close>, \<open>r+\<close>, \<open>r*\<close>, \<open>r?\<close>, and the lazy \<open>r*?\<close>.\<close>

fun upto_times :: "nat \<Rightarrow> regex \<Rightarrow> regex" where
  "upto_times 0 r = Eps"
| "upto_times (Suc n) r = Alt (Seq r (upto_times n r)) Eps"

abbreviation between :: "nat \<Rightarrow> nat \<Rightarrow> regex \<Rightarrow> regex" where
  "between m n r \<equiv> Seq (times m r) (upto_times (n - m) r)"

abbreviation at_least :: "nat \<Rightarrow> regex \<Rightarrow> regex" where
  "at_least m r \<equiv> Seq (times m r) (Star True r)"

abbreviation many :: "regex \<Rightarrow> regex" where "many r \<equiv> Star True r"
abbreviation many_lazy :: "regex \<Rightarrow> regex" where "many_lazy r \<equiv> Star False r"
abbreviation some1 :: "regex \<Rightarrow> regex" where "some1 r \<equiv> Seq r (Star True r)"
abbreviation opt :: "regex \<Rightarrow> regex" where "opt r \<equiv> Alt r Eps"

text \<open>The classes \<open>.\<close> without and with the flag \<open>s\<close>, \<open>\d\<close>, \<open>\s\<close>, and a negated set.\<close>

definition dot :: regex where "dot = Cls (\<lambda>c. \<not> line_end c)"
definition any_char :: regex where "any_char = Cls (\<lambda>c. True)"
definition digit :: regex where "digit = Cls is_digit"
definition space :: regex where "space = Cls is_ws"
definition none_of :: "string \<Rightarrow> regex" where "none_of cs = Cls (\<lambda>c. c \<notin> set cs)"
definition one_of :: "string \<Rightarrow> regex" where "one_of cs = Cls (\<lambda>c. c \<in> set cs)"

lemmas regex_classes = dot_def any_char_def digit_def space_def none_of_def one_of_def

end
