(* ===== verification/Regex_Facts.thy ===== *)
theory Regex_Facts
  imports Regex
begin

text \<open>
  How the patterns of the sources match: literals, runs of a class, the lazy run up to the first place where the
  rest of the pattern matches, and the search for the first position.
\<close>

section \<open>Positions\<close>

definition before_of :: "char option \<Rightarrow> string \<Rightarrow> char option" where
  "before_of b x = (if x = [] then b else Some (last x))"

abbreviation pos :: "char option \<Rightarrow> string \<Rightarrow> (nat \<rightharpoonup> string) \<Rightarrow> position" where
  "pos b s g \<equiv> \<lparr>ps_before = b, ps_rest = s, ps_groups = g\<rparr>"

lemma before_of_Nil [simp]: "before_of b [] = b"
  by (simp add: before_of_def)

lemma before_of_append [simp]: "before_of (before_of b x) y = before_of b (x @ y)"
  by (simp add: before_of_def)

lemma before_of_Cons: "before_of b (c # cs) = before_of (Some c) cs"
  by (simp add: before_of_def)

lemma advance_pos: "n \<le> length s \<Longrightarrow> advance n (pos b s g) = pos (before_of b (take n s)) (drop n s) g"
  by (auto simp: advance_def before_of_def)

lemma advance_append [simp]: "advance (length x) (pos b (x @ y) g) = pos (before_of b x) y g"
  by (simp add: advance_pos)

lemma advance_one [simp]: "advance 1 (pos b (c # s) g) = pos (Some c) s g"
  by (simp add: advance_def)

lemma advance_Suc0 [simp]: "advance (Suc 0) (pos b (c # s) g) = pos (Some c) s g"
  by (simp add: advance_def)

lemma start_position_pos: "start_position b s = pos b s Map.empty"
  by (simp add: start_position_def)

section \<open>Literals and runs\<close>

lemma starts_with_Cons [simp]: "starts_with (c # w) (d # s) = (c = d \<and> starts_with w s)"
  by (auto simp: starts_with_def)

lemma starts_with_Nil [simp]: "starts_with [] s" "\<not> starts_with (c # w) []"
  by (simp_all add: starts_with_def)

lemma starts_with_append: "starts_with w (w @ s)"
  by (simp add: starts_with_def)

lemma starts_withE: "starts_with w s \<Longrightarrow> \<exists>y. s = w @ y"
  by (metis append_take_drop_id starts_with_def)

lemma matches_lit_append: "matches_at (lit w) (pos b (w @ s) g) = [pos (before_of b w) s g]"
proof (induction w arbitrary: b rule: lit.induct)
  case (3 c d cs)
  then show ?case by (simp add: before_of_Cons)
qed (simp_all add: before_of_def)

lemma matches_lit_none: "\<not> starts_with w s \<Longrightarrow> matches_at (lit w) (pos b s g) = []"
proof (induction w arbitrary: b s rule: lit.induct)
  case (2 c)
  then show ?case by (cases s) auto
next
  case (3 c d cs)
  then show ?case by (cases s) auto
qed simp

lemma matches_lit_Nil [simp]: "matches_at (lit w) (pos b s g) = [] \<longleftrightarrow> \<not> starts_with w s"
  using starts_withE [of w s] by (auto simp: matches_lit_append matches_lit_none)

lemma concat_singles [simp]: "concat (map (\<lambda>x. [f x]) xs) = map f xs"
  by (induction xs) auto

text \<open>All ends of a run of a class, and of a run with at least one.\<close>

definition run :: "bool \<Rightarrow> nat list \<Rightarrow> nat list" where
  "run greedy ns = (if greedy then rev ns else ns)"

lemma matches_Star_Cls:
  "n \<ge> length s \<Longrightarrow> iterate greedy (matches_at (Cls p)) n (pos b s g)
    = map (\<lambda>k. pos (before_of b (take k s)) (drop k s) g) (run greedy [0..<Suc (length (takeWhile p s))])"
proof (induction n arbitrary: s b)
  case (Suc n)
  show ?case
  proof (cases s)
    case (Cons c cs)
    show ?thesis
    proof (cases "p c")
      case True
      have u: "[0..<Suc (Suc k)] = 0 # map Suc [0..<Suc k]" for k
        by (simp add: upt_conv_Cons map_Suc_upt del: upt_Suc)
      show ?thesis
        using Suc.IH [of cs "Some c"] Suc.prems Cons True
        by (simp add: Let_def u run_def before_of_Cons rev_map o_def del: upt_Suc)
    qed (use Cons in \<open>auto simp: run_def\<close>)
  qed (auto simp: run_def)
qed (auto simp: run_def)

lemma matches_run:
  "matches_at (Star greedy (Cls p)) (pos b s g)
    = map (\<lambda>k. pos (before_of b (take k s)) (drop k s) g) (run greedy [0..<Suc (length (takeWhile p s))])"
  by (simp add: matches_Star_Cls)

section \<open>The first match\<close>

definition first_end :: "regex \<Rightarrow> position \<Rightarrow> position option" where
  "first_end r st = (case matches_at r st of [] \<Rightarrow> None | x # _ \<Rightarrow> Some x)"

lemma first_end_None: "first_end r st = None \<longleftrightarrow> matches_at r st = []"
  by (simp add: first_end_def split: list.splits)

lemma first_end_cons: "matches_at r st = x # xs \<Longrightarrow> first_end r st = Some x"
  by (simp add: first_end_def)

lemma first_Seq_head:
  assumes "first_end a st = Some x" "first_end b x = Some y"
  shows "first_end (Seq a b) st = Some y"
proof -
  obtain xs where a: "matches_at a st = x # xs" using assms(1) by (auto simp: first_end_def split: list.splits)
  obtain ys where b: "matches_at b x = y # ys" using assms(2) by (auto simp: first_end_def split: list.splits)
  show ?thesis by (simp add: first_end_def a b)
qed

lemma first_lit: "first_end (lit w) (pos b (w @ s) g) = Some (pos (before_of b w) s g)"
  by (simp add: first_end_def matches_lit_append)

lemma first_Seq_lit: "first_end (Seq (lit w) r) (pos b (w @ s) g) = first_end r (pos (before_of b w) s g)"
  by (simp add: first_end_def matches_lit_append)

lemma first_Grp: "first_end r (pos b (x @ y) g) = Some (pos b' y g') \<Longrightarrow> first_end (Grp n r) (pos b (x @ y) g) = Some (pos b' y (g'(n \<mapsto> x)))"
  by (auto simp: first_end_def split: list.splits)

text \<open>A greedy run takes all it can when the rest of the pattern matches there.\<close>

lemma first_greedy:
  assumes "\<forall>c\<in>set x. p c" "y = [] \<or> \<not> p (hd y)"
  shows "first_end (many (Cls p)) (pos b (x @ y) g) = Some (pos (before_of b x) y g)"
proof -
  have "takeWhile p y = []" using assms(2) by (cases y) auto
  then have "length (takeWhile p (x @ y)) = length x" using assms(1) by (simp add: takeWhile_append)
  then show ?thesis by (simp add: first_end_def matches_run run_def del: matches_at.simps)
qed

lemma first_greedy1:
  assumes "\<forall>c\<in>set x. p c" "x \<noteq> []" "y = [] \<or> \<not> p (hd y)"
  shows "first_end (some1 (Cls p)) (pos b (x @ y) g) = Some (pos (before_of b x) y g)"
proof -
  obtain c cs where x: "x = c # cs" using assms(2) by (cases x) auto
  have "first_end (Cls p) (pos b (x @ y) g) = Some (pos (Some c) (cs @ y) g)" using assms(1) by (simp add: first_end_def x)
  moreover have "first_end (many (Cls p)) (pos (Some c) (cs @ y) g) = Some (pos (before_of (Some c) cs) y g)"
    using assms(1,3) by (intro first_greedy) (simp_all add: x)
  ultimately show ?thesis by (rule first_Seq_head [THEN trans]) (simp add: x before_of_Cons)
qed

text \<open>A lazy run goes up to the first place where the rest of the pattern matches.\<close>

lemma hd_concat_upt:
  assumes "\<And>m. m < n \<Longrightarrow> f m = []" "f n = x # xs" "n \<le> k"
  shows "\<exists>ys. concat (map f [0..<Suc k]) = x # ys"
proof -
  have "[0..<Suc k] = [0..<n] @ n # [Suc n..<Suc k]"
    using assms(3) upt_add_eq_append [of 0 n "Suc k - n"] upt_conv_Cons [of n "Suc k"] by (simp del: upt_Suc)
  moreover have "concat (map f [0..<n]) = []" using assms(1) by simp
  ultimately show ?thesis by (simp only: map_append concat_append list.map concat.simps append_Nil assms(2) append_Cons) blast
qed

lemma matches_lazy_group:
  "matches_at (Seq (Grp n (many_lazy (Cls p))) r) (pos b s g)
    = concat (map (\<lambda>k. matches_at r (pos (before_of b (take k s)) (drop k s) (g(n \<mapsto> take k s)))) [0..<Suc (length (takeWhile p s))])"
proof -
  have t: "take (length s - length (drop k s)) s = take k s" for k
    by (cases "k \<le> length s") simp_all
  show ?thesis
    unfolding matches_at.simps(3,6) matches_run run_def by (simp add: o_def t del: upt_Suc length_drop)
qed

lemma first_lazy:
  assumes "\<forall>c\<in>set x. p c"
    and "\<And>m. m < length x \<Longrightarrow> matches_at r (pos (before_of b (take m x)) (drop m x @ y) (g(n \<mapsto> take m x))) = []"
    and "first_end r (pos (before_of b x) y (g(n \<mapsto> x))) = Some z"
  shows "first_end (Seq (Grp n (many_lazy (Cls p))) r) (pos b (x @ y) g) = Some z"
proof -
  let ?f = "\<lambda>k. matches_at r (pos (before_of b (take k (x @ y))) (drop k (x @ y)) (g(n \<mapsto> take k (x @ y))))"
  have k: "length x \<le> length (takeWhile p (x @ y))" using assms(1) by (simp add: takeWhile_append)
  obtain zs where z: "?f (length x) = z # zs" using assms(3) by (auto simp: first_end_def split: list.splits)
  have f: "?f m = []" if "m < length x" for m using assms(2) [OF that] that by simp
  obtain ys where ys: "concat (map ?f [0..<Suc (length (takeWhile p (x @ y)))]) = z # ys"
    using hd_concat_upt [where f = ?f, OF f z k] by auto
  show ?thesis unfolding first_end_def matches_lazy_group ys by simp
qed

section \<open>The search\<close>

text \<open>Nowhere in \<open>x\<close>, followed by \<open>y\<close>, does \<open>w\<close> start.\<close>

definition no_start :: "string \<Rightarrow> string \<Rightarrow> string \<Rightarrow> bool" where
  "no_start w x y \<longleftrightarrow> (\<forall>m < length x. \<not> starts_with w (drop m x @ y))"

lemma no_start_Nil [simp]: "no_start w [] y"
  by (simp add: no_start_def)

lemma no_start_Cons [simp]: "no_start w (c # x) y \<longleftrightarrow> \<not> starts_with w (c # x @ y) \<and> no_start w x y"
  by (auto simp: no_start_def less_Suc_eq_0_disj)

lemma no_start_append [simp]: "no_start w (x @ x') y \<longleftrightarrow> no_start w x (x' @ y) \<and> no_start w x' y"
  by (induction x) simp_all

lemma no_start_char: "w \<noteq> [] \<Longrightarrow> hd w \<notin> set x \<Longrightarrow> no_start w x y"
proof (induction x)
  case (Cons c x)
  then show ?case by (cases w) auto
qed simp

lemma search_first:
  assumes "\<And>m. m < length x \<Longrightarrow> matches_at r (pos (before_of b (take m x)) (drop m x @ y) Map.empty) = []"
    and "first_end r (pos (before_of b x) y Map.empty) = Some st" "y = w @ ps_rest st"
  shows "search r b (x @ y) = Some \<lparr>rx_pre = x, rx_text = w, rx_post = st, rx_groups = ps_groups st\<rparr>"
  using assms(1,2)
proof (induction x arbitrary: b)
  case Nil
  then show ?case
    using assms(3) by (subst search.simps) (auto simp: start_position_pos first_end_def split: list.splits)
next
  case (Cons c x)
  have h: "matches_at r (pos b (c # x @ y) Map.empty) = []" using Cons.prems(1) [of 0] by simp
  have "search r (Some c) (x @ y) = Some \<lparr>rx_pre = x, rx_text = w, rx_post = st, rx_groups = ps_groups st\<rparr>"
  proof (rule Cons.IH)
    show "matches_at r (pos (before_of (Some c) (take m x)) (drop m x @ y) Map.empty) = []" if "m < length x" for m
      using Cons.prems(1) [of "Suc m"] that by (simp add: before_of_Cons)
    show "first_end r (pos (before_of (Some c) x) y Map.empty) = Some st" using Cons.prems(2) by (simp add: before_of_Cons)
  qed
  with h show ?case by (subst append_Cons, subst search.simps) (simp add: start_position_pos)
qed

lemma search_none:
  assumes "\<And>m. m \<le> length x \<Longrightarrow> matches_at r (pos (before_of b (take m x)) (drop m x) Map.empty) = []"
  shows "search r b x = None"
  using assms
proof (induction x arbitrary: b)
  case Nil
  then show ?case by (subst search.simps) (use Nil [of 0] in \<open>simp add: start_position_pos\<close>)
next
  case (Cons c x)
  have h: "matches_at r (pos b (c # x) Map.empty) = []" using Cons.prems [of 0] by simp
  have "search r (Some c) x = None"
    by (rule Cons.IH) (use Cons.prems [of "Suc m" for m] in \<open>simp add: before_of_Cons\<close>)
  with h show ?case by (subst search.simps) (simp add: start_position_pos)
qed

text \<open>Patterns that can only match where a literal starts.\<close>

definition begins :: "string \<Rightarrow> regex \<Rightarrow> bool" where
  "begins w r \<longleftrightarrow> (\<forall>b s g. \<not> starts_with w s \<longrightarrow> matches_at r (pos b s g) = [])"

lemma begins_lit: "begins w (Seq (lit w) r)" "begins w (lit w)"
  by (simp_all add: begins_def matches_lit_none)

lemma begins_WordEdge: "begins w r \<Longrightarrow> begins w (Seq WordEdge r)"
  by (simp add: begins_def)

lemma search_begins:
  assumes "begins w r" "no_start w x y" "first_end r (pos (before_of b x) y Map.empty) = Some st" "y = v @ ps_rest st"
  shows "search r b (x @ y) = Some \<lparr>rx_pre = x, rx_text = v, rx_post = st, rx_groups = ps_groups st\<rparr>"
  by (rule search_first [OF _ assms(3,4)]) (use assms(1,2) in \<open>simp add: begins_def no_start_def\<close>)

lemma search_begins_none:
  assumes "begins w r" "no_start w x []" "w \<noteq> []"
  shows "search r b x = None"
proof (rule search_none)
  fix m assume "m \<le> length x"
  then have "\<not> starts_with w (drop m x)"
    using assms(2,3) by (cases "m < length x") (auto simp: no_start_def starts_with_def)
  then show "matches_at r (pos (before_of b (take m x)) (drop m x) Map.empty) = []" using assms(1) by (simp add: begins_def)
qed

lemma exec_search: "exec r s = search r None s"
  by (simp add: exec_def)

section \<open>Replacing a literal\<close>

lemma replace_lit_none:
  assumes "no_start w x []" "w \<noteq> []"
  shows "replace_from (lit w) f b x = x"
  by (subst replace_from.simps) (simp add: search_begins_none [OF begins_lit(2) assms])

lemma replace_lit_step:
  assumes "no_start w x (w @ y)" "w \<noteq> []"
  shows "replace_from (lit w) (\<lambda>_. v) b (x @ w @ y) = x @ v @ replace_from (lit w) (\<lambda>_. v) (before_of b (x @ w)) y"
proof -
  have "search (lit w) b (x @ w @ y) = Some \<lparr>rx_pre = x, rx_text = w, rx_post = pos (before_of b (x @ w)) y Map.empty, rx_groups = Map.empty\<rparr>"
    by (subst search_begins [OF begins_lit(2) assms(1) first_lit [THEN trans, OF refl]]) simp_all
  then show ?thesis by (subst replace_from.simps) (simp add: assms(2))
qed

section \<open>What a group holds\<close>

text \<open>
  The text a pattern consumes has a property; a match leaves group \<open>n\<close> alone or gives it such a text; every match
  gives it one.
\<close>

definition consumes :: "(string \<Rightarrow> bool) \<Rightarrow> regex \<Rightarrow> bool" where
  "consumes P r \<longleftrightarrow> (\<forall>st. \<forall>st'\<in>set (matches_at r st). P (take (length (ps_rest st) - length (ps_rest st')) (ps_rest st)))"

definition keeps :: "nat \<Rightarrow> (string \<Rightarrow> bool) \<Rightarrow> regex \<Rightarrow> bool" where
  "keeps n P r \<longleftrightarrow> (\<forall>st. \<forall>st'\<in>set (matches_at r st). ps_groups st' n = ps_groups st n \<or> (\<exists>s. ps_groups st' n = Some s \<and> P s))"

definition captures :: "nat \<Rightarrow> (string \<Rightarrow> bool) \<Rightarrow> regex \<Rightarrow> bool" where
  "captures n P r \<longleftrightarrow> (\<forall>st. \<forall>st'\<in>set (matches_at r st). \<exists>s. ps_groups st' n = Some s \<and> P s)"

lemma keeps_simple [simp]:
  "keeps n P Eps" "keeps n P (Cls p)" "keeps n P (Back k)" "keeps n P LineStart" "keeps n P TextStart" "keeps n P LineEnd"
  "keeps n P TextEnd" "keeps n P WordEdge"
  by (auto simp: keeps_def advance_def Let_def split: list.splits option.splits)

lemma keeps_Seq: "keeps n P a \<Longrightarrow> keeps n P b \<Longrightarrow> keeps n P (Seq a b)"
  by (fastforce simp: keeps_def)

lemma keeps_Alt: "keeps n P a \<Longrightarrow> keeps n P b \<Longrightarrow> keeps n P (Alt a b)"
  by (auto simp: keeps_def)

lemma keeps_iterate:
  assumes "\<And>st st'. st' \<in> set (f st) \<Longrightarrow> ps_groups st' n = ps_groups st n \<or> (\<exists>s. ps_groups st' n = Some s \<and> P s)"
  shows "st' \<in> set (iterate g f k st) \<Longrightarrow> ps_groups st' n = ps_groups st n \<or> (\<exists>s. ps_groups st' n = Some s \<and> P s)"
proof (induction k arbitrary: st)
  case (Suc k)
  then consider "st' = st" | u where "u \<in> set (f st)" "st' \<in> set (iterate g f k u)"
    by (auto simp: Let_def split: if_splits)
  then show ?case
  proof cases
    case 2
    from Suc.IH [OF 2(2)] assms [OF 2(1)] show ?thesis by auto
  qed simp
qed simp

lemma keeps_Star: "keeps n P r \<Longrightarrow> keeps n P (Star g r)"
  using keeps_iterate [where f = "matches_at r" and n = n and P = P] by (auto simp: keeps_def)

lemma keeps_Grp: "k \<noteq> n \<Longrightarrow> keeps n P r \<Longrightarrow> keeps n P (Grp k r)"
  by (auto simp: keeps_def)

lemma captures_keeps: "captures n P r \<Longrightarrow> keeps n P r"
  by (auto simp: captures_def keeps_def)

lemma captures_Grp: "consumes P r \<Longrightarrow> captures n P (Grp n r)"
  by (auto simp: captures_def consumes_def)

lemma captures_Seq_left: "captures n P a \<Longrightarrow> keeps n P b \<Longrightarrow> captures n P (Seq a b)"
  by (fastforce simp: captures_def keeps_def)

lemma captures_Seq_right: "captures n P b \<Longrightarrow> captures n P (Seq a b)"
  by (auto simp: captures_def)

lemma keeps_lit [simp]: "keeps n P (lit w)"
  by (induction w rule: lit.induct) (auto intro: keeps_Seq)

lemma keeps_alts [simp]: "(\<And>r. r \<in> set rs \<Longrightarrow> keeps n P r) \<Longrightarrow> keeps n P (alts rs)"
  by (induction rs rule: alts.induct) (auto intro: keeps_Alt)

lemma keeps_classes [simp]: "keeps n P dot" "keeps n P any_char" "keeps n P digit" "keeps n P space" "keeps n P (none_of cs)"
  "keeps n P (one_of cs)"
  by (simp_all add: regex_classes)

lemmas keeps_intros = keeps_Seq keeps_Alt keeps_Star keeps_Grp

lemma consumes_run: "consumes (\<lambda>s. \<forall>c\<in>set s. p c) (Star greedy (Cls p))"
proof -
  have part: "\<forall>c\<in>set (take (length s - length (drop k s)) s). p c" if "k \<le> length (takeWhile p s)" for k and s :: string
  proof -
    have "k \<le> length s" using that length_takeWhile_le le_trans by blast
    moreover have "take k s = take k (takeWhile p s)" using that by (metis takeWhile_eq_take take_take min.absorb1)
    ultimately show ?thesis by (auto dest!: in_set_takeD set_takeWhileD)
  qed
  then show ?thesis
    unfolding consumes_def
  proof (intro allI ballI)
    fix st st' c assume 1: "st' \<in> set (matches_at (Star greedy (Cls p)) st)"
      and c: "c \<in> set (take (length (ps_rest st) - length (ps_rest st')) (ps_rest st))"
    obtain b s g where "st = pos b s g" by (cases st) auto
    with 1 obtain k where k: "k \<in> set (run greedy [0..<Suc (length (takeWhile p s))])"
      and st': "st' = pos (before_of b (take k s)) (drop k s) g" by (auto simp: matches_run simp del: matches_at.simps upt_Suc)
    from k have "k \<le> length (takeWhile p s)" by (auto simp: run_def less_Suc_eq_le simp del: upt_Suc split: if_splits)
    from part [OF this] c show "p c" by (auto simp: \<open>st = pos b s g\<close> st' simp del: length_drop)
  qed
qed

lemma consumes_some1: "consumes (\<lambda>s. s \<noteq> [] \<and> (\<forall>c\<in>set s. p c)) (some1 (Cls p))"
  unfolding consumes_def
proof (intro allI ballI)
  fix st st' assume m: "st' \<in> set (matches_at (some1 (Cls p)) st)"
  obtain b s g where st: "st = pos b s g" by (cases st) auto
  obtain c cs where s: "s = c # cs" "p c" and m': "st' \<in> set (matches_at (Star True (Cls p)) (pos (Some c) cs g))"
    using m by (auto simp: st split: list.splits if_splits)
  have "\<forall>d\<in>set (take (length cs - length (ps_rest st')) cs). p d" using consumes_run [of p True] m' unfolding consumes_def by fastforce
  moreover have "length (ps_rest st') \<le> length cs" using matches_extend [OF m'] by (auto dest: extends_shorter)
  ultimately show "take (length (ps_rest st) - length (ps_rest st')) (ps_rest st) \<noteq> []
      \<and> (\<forall>d\<in>set (take (length (ps_rest st) - length (ps_rest st')) (ps_rest st)). p d)"
    using s by (simp add: st Suc_diff_le)
qed

lemma consumes_lit: "consumes (\<lambda>s. s = w) (lit w)"
  unfolding consumes_def
proof (intro allI ballI)
  fix st st' assume m: "st' \<in> set (matches_at (lit w) st)"
  obtain b s g where st: "st = pos b s g" by (cases st) auto
  with m obtain y where y: "s = w @ y" using starts_withE [of w s] matches_lit_none [of w s b g] by fastforce
  with m st show "take (length (ps_rest st) - length (ps_rest st')) (ps_rest st) = w" by (simp add: matches_lit_append)
qed

lemma consumes_alts: "(\<And>r. r \<in> set rs \<Longrightarrow> consumes P r) \<Longrightarrow> consumes P (alts rs)"
proof (induction rs rule: alts.induct)
  case (3 r s rs)
  have "consumes P r" "consumes P (alts (s # rs))" using 3 by simp_all
  then show ?case by (auto simp: consumes_def simp del: alts.simps(2))
qed (auto simp: consumes_def split: list.splits)

lemma consumes_mono: "consumes P r \<Longrightarrow> (\<And>s. P s \<Longrightarrow> Q s) \<Longrightarrow> consumes Q r"
  by (auto simp: consumes_def)

lemma search_match:
  "search r b s = Some m \<Longrightarrow> \<exists>b' s'. rx_post m \<in> set (matches_at r (pos b' s' Map.empty)) \<and> rx_groups m = ps_groups (rx_post m)"
proof (induction s arbitrary: b m)
  case Nil
  then show ?case
    by (subst (asm) search.simps) (auto simp: start_position_pos split: list.splits intro!: exI [where x = b] exI [where x = "[]"])
next
  case (Cons c s)
  show ?case
  proof (cases "matches_at r (pos b (c # s) Map.empty)")
    case Nil
    then obtain m' where m': "search r (Some c) s = Some m'" "m = m'\<lparr>rx_pre := c # rx_pre m'\<rparr>"
      using Cons.prems by (subst (asm) search.simps) (auto simp: start_position_pos)
    from Cons.IH [OF m'(1)] show ?thesis by (simp add: m'(2))
  next
    case (Cons st sts)
    then show ?thesis using \<open>search r b (c # s) = Some m\<close>
      by (subst (asm) search.simps) (auto simp: start_position_pos intro!: exI [where x = b] exI [where x = "c # s"])
  qed
qed

lemma search_captures:
  assumes "search r b s = Some m" "captures n P r"
  shows "\<exists>v. rx_groups m n = Some v \<and> P v"
proof -
  obtain b' s' where "rx_post m \<in> set (matches_at r (pos b' s' Map.empty))" "rx_groups m = ps_groups (rx_post m)"
    using search_match [OF assms(1)] by blast
  with assms(2) show ?thesis unfolding captures_def by metis
qed

lemma group_captures:
  assumes "search r b s = Some m" "captures n P r"
  shows "P (group_text n m)"
  using search_captures [OF assms] by (auto simp: group_text_def)

lemma match_all_search: "m \<in> set (match_all r b s) \<Longrightarrow> \<exists>b' s'. search r b' s' = Some m"
proof (induction r b s arbitrary: m rule: match_all.induct)
  case (1 r b s)
  show ?case
  proof (cases "search r b s")
    case None
    with 1(3) show ?thesis by (subst (asm) match_all.simps) simp
  next
    case (Some x)
    show ?thesis
    proof (cases "m = x")
      case False
      consider "rx_text x \<noteq> []" "m \<in> set (match_all r (ps_before (rx_post x)) (ps_rest (rx_post x)))"
        | c cs where "rx_text x = []" "ps_rest (rx_post x) = c # cs" "m \<in> set (match_all r (Some c) cs)"
        using 1(3) False unfolding match_all.simps [of r b s] Some
        by (cases "rx_text x = []"; cases "ps_rest (rx_post x)") auto
      then show ?thesis
      proof cases
        case 1
        from "1.IH"(1) [OF Some 1] show ?thesis .
      next
        case 2
        then have "\<not> rx_text x \<noteq> []" by simp
        from "1.IH"(2) [OF Some this 2(2,3)] show ?thesis .
      qed
    qed (use Some in blast)
  qed
qed

lemma matchAll_captures: "m \<in> set (matchAll r s) \<Longrightarrow> captures n P r \<Longrightarrow> P (group_text n m)"
  using match_all_search group_captures unfolding matchAll_def by blast

lemma exec_captures: "exec r s = Some m \<Longrightarrow> captures n P r \<Longrightarrow> P (group_text n m)"
  by (metis exec_def group_captures)

section \<open>Skipping what cannot match\<close>

lemma search_skip:
  assumes "begins w r"
  shows "no_start w x y \<Longrightarrow> search r b (x @ y) = map_option (\<lambda>m. m\<lparr>rx_pre := x @ rx_pre m\<rparr>) (search r (before_of b x) y)"
proof (induction x arbitrary: b)
  case (Cons c x)
  have "matches_at r (pos b (c # x @ y) Map.empty) = []" using assms Cons.prems by (simp add: begins_def)
  with Cons show ?case
    by (subst append_Cons, subst search.simps) (simp add: start_position_pos before_of_Cons option.map_comp o_def)
qed (simp add: option.map_ident)

lemma replace_lit_skip:
  assumes "no_start w x y"
  shows "replace_from (lit w) (\<lambda>_. v) b (x @ y) = x @ replace_from (lit w) (\<lambda>_. v) (before_of b x) y"
  using search_skip [OF begins_lit(2) assms, of b]
  unfolding replace_from.simps [of "lit w" "\<lambda>_. v" b "x @ y"] replace_from.simps [of "lit w" "\<lambda>_. v" "before_of b x" y]
  by (auto split: option.splits)

lemma no_start_open:
  assumes "no_start (d # w) x []" "d \<notin> set w"
  shows "no_start (d # w) x (d # y)"
  unfolding no_start_def
proof (intro allI impI notI)
  fix m assume m: "m < length x" and s: "starts_with (d # w) (drop m x @ d # y)"
  let ?z = "drop m x"
  show False
  proof (cases "length (d # w) \<le> length ?z")
    case True
    with s have "starts_with (d # w) ?z" by (simp add: starts_with_def)
    with assms(1) m show False by (simp add: no_start_def)
  next
    case False
    have "(d # w) ! length ?z = (drop m x @ d # y) ! length ?z"
      using s False nth_take [of "length ?z" "length (d # w)" "drop m x @ d # y"] by (simp add: starts_with_def)
    also have "\<dots> = d" by (simp only: nth_append_length)
    finally have e: "(d # w) ! length ?z = d" .
    obtain k where k: "length ?z = Suc k" using m by (cases "length ?z") auto
    then have "k < length w" using False by simp
    moreover have "w ! k = d" using e unfolding k by simp
    ultimately show False using assms(2) by (metis nth_mem)
  qed
qed

lemma includes_start: "\<not> str_includes w x \<Longrightarrow> no_start w x []"
  by (induction x) simp_all

text \<open>From here on a literal stays folded.\<close>

declare lit.simps [simp del]

end
