(* ===== verification/Compartment_Parser.thy ===== *)
theory Compartment_Parser
  imports Historian_Validation Regex_Facts
begin

text \<open>
  The output of the historian as text (\<open>hooks/magic-context/compartment-parser.ts\<close>): compartments with
  their attributes and tiers, facts by category, events, observations and primer candidates, found with regular
  expressions in text that need not be well-formed. A run of digits is the number it denotes.
\<close>

section \<open>Data\<close>

record parsed_fact =
  pf_category :: string
  pf_content :: string

text \<open>The fields of an event are an object with string keys, in insertion order.\<close>

record parsed_event =
  pe_kind :: string
  pe_atCompartment :: "int option"
  pe_fields :: "(string \<times> string) list"

record primer_candidate =
  pq_question :: string
  pq_originCompartmentIndex :: "int option"

record parsed_output =
  po_compartments :: "parsed_compartment list"
  po_facts :: "parsed_fact list"
  po_events :: "parsed_event list"
  po_unprocessedFrom :: "int option"
  po_userObservations :: "string list"
  po_primerCandidates :: "primer_candidate list"

section \<open>Patterns\<close>

definition quote :: char where "quote = CHR 0x22"

text \<open>An attribute: a word boundary, the name, and the quoted value as group 1.\<close>

definition attr :: "string \<Rightarrow> regex \<Rightarrow> regex" where
  "attr name value = seq [WordEdge, lit (name @ [CHR ''='', quote]), Grp 1 value, lit [quote]]"

definition COMPARTMENT_REGEX :: regex where
  "COMPARTMENT_REGEX = seq [lit ''<compartment'', some1 space, Grp 1 (many_lazy (none_of ''>'')), many space, lit ''>'',
     Grp 2 (many_lazy any_char), lit ''</compartment>'']"

definition ATTR_START_REGEX :: regex where "ATTR_START_REGEX = attr ''start'' (some1 digit)"
definition ATTR_END_REGEX :: regex where "ATTR_END_REGEX = attr ''end'' (some1 digit)"
definition ATTR_TITLE_REGEX :: regex where "ATTR_TITLE_REGEX = attr ''title'' (many (none_of [quote]))"
definition ATTR_EPISODE_REGEX :: regex where "ATTR_EPISODE_REGEX = attr ''episode_type'' (many (none_of [quote]))"
definition ATTR_IMPORTANCE_REGEX :: regex where "ATTR_IMPORTANCE_REGEX = attr ''importance'' (some1 digit)"

definition makeTierOpenRegex :: "nat \<Rightarrow> regex" where
  "makeTierOpenRegex n = seq [lit (''<p'' @ show_base 10 n), many space, Grp 1 (opt (lit ''/'')), lit ''>'']"

definition TIER_CLOSE_ANY_REGEX :: regex where "TIER_CLOSE_ANY_REGEX = seq [lit ''</p'', digit]"
definition TIER_OPEN_ANY_REGEX :: regex where "TIER_OPEN_ANY_REGEX = seq [lit ''<p'', digit]"

definition FACT_CATEGORIES :: "string list" where
  "FACT_CATEGORIES = [''PROJECT_RULES'', ''ARCHITECTURE'', ''CONSTRAINTS'', ''CONFIG_VALUES'', ''NAMING'']"

definition CATEGORY_BLOCK_REGEX :: regex where
  "CATEGORY_BLOCK_REGEX = seq [lit ''<'', Grp 1 (alts (map lit FACT_CATEGORIES)), lit ''>'', Grp 2 (many_lazy any_char),
     lit ''</'', Back 1, lit ''>'']"

definition FACT_ITEM_REGEX :: regex where
  "FACT_ITEM_REGEX = seq [LineStart, many space, lit ''*'', many space, Grp 1 (some1 dot), LineEnd]"

definition element :: "string \<Rightarrow> regex \<Rightarrow> regex" where
  "element name body = seq [lit (''<'' @ name @ ''>''), Grp 1 body, lit (''</'' @ name @ ''>'')]"

definition UNPROCESSED_REGEX :: regex where "UNPROCESSED_REGEX = element ''unprocessed_from'' (some1 digit)"
definition USER_OBSERVATIONS_REGEX :: regex where "USER_OBSERVATIONS_REGEX = element ''user_observations'' (many_lazy any_char)"
definition USER_OBS_ITEM_REGEX :: regex where "USER_OBS_ITEM_REGEX = FACT_ITEM_REGEX"
definition PRIMER_CANDIDATES_REGEX :: regex where "PRIMER_CANDIDATES_REGEX = element ''primer_candidates'' (many_lazy any_char)"

definition PRIMER_ELEMENT_REGEX :: regex where
  "PRIMER_ELEMENT_REGEX = seq [lit ''<primer'', some1 space, lit (''at_compartment='' @ [quote]), Grp 1 (some1 digit), lit [quote],
     many space, lit ''>'', Grp 2 (many_lazy any_char), lit ''</primer>'']"

definition PRIMER_ITEM_REGEX :: regex where
  "PRIMER_ITEM_REGEX = seq [LineStart, many space, alts [lit ''*'', lit ''-'', seq [some1 digit, lit ''.'']], many space,
     Grp 1 (some1 dot), LineEnd]"

definition FACTS_BLOCK_REGEX :: regex where "FACTS_BLOCK_REGEX = element ''facts'' (many_lazy any_char)"
definition EVENTS_BLOCK_REGEX :: regex where "EVENTS_BLOCK_REGEX = element ''events'' (many_lazy any_char)"

definition tag_name :: regex where
  "tag_name = some1 (Cls (\<lambda>c. (97 \<le> (of_char c :: nat) \<and> of_char c \<le> (122 :: nat)) \<or> c = CHR ''_''))"

definition EVENT_ELEMENT_REGEX :: regex where
  "EVENT_ELEMENT_REGEX = seq [lit ''<'', Grp 1 tag_name, some1 space, lit (''at_compartment='' @ [quote]), Grp 2 (some1 digit),
     lit [quote], many space, lit ''>'', Grp 3 (many_lazy any_char), lit ''</'', Back 1, lit ''>'']"

definition EVENT_FIELD_REGEX :: regex where
  "EVENT_FIELD_REGEX = seq [lit ''<'', Grp 1 tag_name, many space, lit ''>'', Grp 2 (many_lazy any_char), lit ''</'', Back 1, lit ''>'']"

section \<open>Parsing\<close>

text \<open>The replacements run one after the other, each over the result of the one before.\<close>

definition unescapeXml :: "string \<Rightarrow> string" where
  "unescapeXml s =
     replaceAll (lit ''&gt;'') (\<lambda>_. ''>'') (replaceAll (lit ''&lt;'') (\<lambda>_. ''<'')
       (replaceAll (lit ''&quot;'') (\<lambda>_. [quote]) (replaceAll (lit ''&apos;'') (\<lambda>_. [CHR 0x27])
         (replaceAll (lit ''&amp;'') (\<lambda>_. ''&'') s))))"

text \<open>The text before the first match, all of it when there is none (\<open>search\<close> and \<open>slice\<close>).\<close>

definition cut_at :: "regex \<Rightarrow> string \<Rightarrow> string" where
  "cut_at r s = (case exec r s of None \<Rightarrow> s | Some m \<Rightarrow> rx_pre m)"

definition extractTier :: "string \<Rightarrow> nat \<Rightarrow> string option" where
  "extractTier inner index =
     (case exec (makeTierOpenRegex (index + 1)) inner of
        None \<Rightarrow> None
      | Some m \<Rightarrow>
          if group_text 1 m = ''/'' then Some []
          else Some (unescapeXml (js_trim (cut_at TIER_OPEN_ANY_REGEX (cut_at TIER_CLOSE_ANY_REGEX (ps_rest (rx_post m)))))))"

definition number_group :: "regex \<Rightarrow> string \<Rightarrow> int option" where
  "number_group r s = map_option (\<lambda>m. digits_value (group_text 1 m)) (exec r s)"

definition text_group :: "regex \<Rightarrow> string \<Rightarrow> string option" where
  "text_group r s = map_option (\<lambda>m. unescapeXml (group_text 1 m)) (exec r s)"

text \<open>The first value that is there.\<close>

definition or_else :: "'a option \<Rightarrow> 'a option \<Rightarrow> 'a option" where
  "or_else a b = (case a of None \<Rightarrow> b | Some _ \<Rightarrow> a)"

text \<open>One compartment: the attributes, the tiers, or the flat body.\<close>

definition parse_compartment :: "string \<Rightarrow> string \<Rightarrow> parsed_compartment option" where
  "parse_compartment attrs inner =
     (case (number_group ATTR_START_REGEX attrs, number_group ATTR_END_REGEX attrs, text_group ATTR_TITLE_REGEX attrs) of
        (Some startMessage, Some endMessage, Some title) \<Rightarrow>
          if title = [] then None
          else
            let episodeType = text_group ATTR_EPISODE_REGEX attrs; importance = number_group ATTR_IMPORTANCE_REGEX attrs;
                p1 = extractTier inner 0
            in (case p1 of
                  Some (c # cs) \<Rightarrow>
                    let p2 = extractTier inner 1; p3 = extractTier inner 2; p4 = extractTier inner 3
                    in Some \<lparr>pc_startMessage = startMessage, pc_endMessage = endMessage, pc_title = title, pc_content = c # cs,
                         pc_p1 = p1, pc_p2 = or_else p2 p1, pc_p3 = or_else p3 (or_else p2 p1), pc_p4 = or_else p4 (Some []),
                         pc_importance = importance, pc_episodeType = episodeType\<rparr>
                | _ \<Rightarrow>
                    let content = unescapeXml (js_trim inner)
                    in if content = [] then None
                       else Some \<lparr>pc_startMessage = startMessage, pc_endMessage = endMessage, pc_title = title, pc_content = content,
                              pc_p1 = None, pc_p2 = None, pc_p3 = None, pc_p4 = None,
                              pc_importance = importance, pc_episodeType = episodeType\<rparr>)
      | _ \<Rightarrow> None)"

definition compartments_of :: "string \<Rightarrow> parsed_compartment list" where
  "compartments_of text =
     List.map_filter (\<lambda>m. parse_compartment (group_text 1 m) (group_text 2 m)) (matchAll COMPARTMENT_REGEX text)"

text \<open>The non-empty items of a list, one per line.\<close>

definition items_of :: "regex \<Rightarrow> string \<Rightarrow> string list" where
  "items_of r block = filter (\<lambda>s. s \<noteq> []) (map (\<lambda>m. unescapeXml (js_trim (group_text 1 m))) (matchAll r block))"

definition facts_scope :: "string \<Rightarrow> string" where
  "facts_scope text =
     (case exec FACTS_BLOCK_REGEX text of
        Some m \<Rightarrow> group_text 1 m
      | None \<Rightarrow>
          replaceAll (seq [lit ''<compartment'', some1 space, many_lazy (none_of ''>''), many space, lit ''>'', many_lazy any_char,
              lit ''</compartment>'']) (\<lambda>_. [])
            (replaceFirst EVENTS_BLOCK_REGEX (\<lambda>_. []) text))"

definition facts_of :: "string \<Rightarrow> parsed_fact list" where
  "facts_of text =
     concat (map (\<lambda>m. map (\<lambda>s. \<lparr>pf_category = group_text 1 m, pf_content = s\<rparr>) (items_of FACT_ITEM_REGEX (group_text 2 m)))
       (matchAll CATEGORY_BLOCK_REGEX (facts_scope text)))"

definition user_observations_of :: "string \<Rightarrow> string list" where
  "user_observations_of text =
     (case exec USER_OBSERVATIONS_REGEX text of None \<Rightarrow> [] | Some m \<Rightarrow> items_of USER_OBS_ITEM_REGEX (group_text 1 m))"

definition primers_of :: "string \<Rightarrow> primer_candidate list" where
  "primers_of text =
     (case exec PRIMER_CANDIDATES_REGEX text of
        None \<Rightarrow> []
      | Some m \<Rightarrow>
          (let block = group_text 1 m; els = matchAll PRIMER_ELEMENT_REGEX block
           in if els \<noteq> [] then
                List.map_filter (\<lambda>el. let question = unescapeXml (js_trim (group_text 2 el))
                  in if question = [] then None
                     else Some \<lparr>pq_question = question, pq_originCompartmentIndex = Some (digits_value (group_text 1 el))\<rparr>) els
              else map (\<lambda>question. \<lparr>pq_question = question, pq_originCompartmentIndex = None\<rparr>) (items_of PRIMER_ITEM_REGEX block)))"

text \<open>Assigning a string to the property \<open>__proto__\<close> of an object has no effect.\<close>

definition set_field :: "(string \<times> string) list \<Rightarrow> rmatch \<Rightarrow> (string \<times> string) list" where
  "set_field object m =
     (let name = group_text 1 m; v = unescapeXml (js_trim (group_text 2 m))
      in if v = [] \<or> name = ''__proto__'' then object else jsmap_set name v object)"

definition parseEvents :: "string \<Rightarrow> parsed_event list" where
  "parseEvents text =
     (case exec EVENTS_BLOCK_REGEX text of
        None \<Rightarrow> []
      | Some m \<Rightarrow>
          map (\<lambda>el. \<lparr>pe_kind = group_text 1 el, pe_atCompartment = Some (digits_value (group_text 2 el)),
                pe_fields = foldl set_field [] (matchAll EVENT_FIELD_REGEX (group_text 3 el))\<rparr>)
            (matchAll EVENT_ELEMENT_REGEX (group_text 1 m)))"

definition parseCompartmentOutput :: "string \<Rightarrow> parsed_output" where
  "parseCompartmentOutput text =
     \<lparr>po_compartments = sort_key pc_startMessage (compartments_of text), po_facts = facts_of text, po_events = parseEvents text,
      po_unprocessedFrom = number_group UNPROCESSED_REGEX text, po_userObservations = user_observations_of text,
      po_primerCandidates = primers_of text\<rparr>"

section \<open>A pass from its text\<close>

record historian_pass =
  hp_compartments :: "candidate_compartment list"
  hp_facts :: "parsed_fact list"
  hp_userObservations :: "string list option"
  hp_primerCandidates :: "primer_candidate list option"
  hp_events :: "parsed_event list option"

definition non_empty :: "'a list \<Rightarrow> 'a list option" where
  "non_empty xs = (if xs = [] then None else Some xs)"

definition historian_pass_of :: "string \<Rightarrow> historian_chunk \<Rightarrow> int \<Rightarrow> range_error + historian_pass" where
  "historian_pass_of text chunk sequenceOffset =
     (let parsed = parseCompartmentOutput text
      in case validateHistorianOutput (po_compartments parsed) (po_unprocessedFrom parsed) chunk sequenceOffset of
           Inl err \<Rightarrow> Inl err
         | Inr compartments \<Rightarrow>
             Inr \<lparr>hp_compartments = compartments, hp_facts = po_facts parsed,
               hp_userObservations = non_empty (po_userObservations parsed),
               hp_primerCandidates = map_option (take 1) (non_empty (po_primerCandidates parsed)),
               hp_events = non_empty (po_events parsed)\<rparr>)"

section \<open>What is found is well-formed\<close>

definition all_of :: "(char \<Rightarrow> bool) \<Rightarrow> string \<Rightarrow> bool" where
  "all_of p s \<longleftrightarrow> s \<noteq> [] \<and> (\<forall>c\<in>set s. p c)"

lemma consumes_digits: "consumes (all_of is_digit) (some1 digit)"
  using consumes_some1 [of is_digit] by (simp add: digit_def all_of_def [abs_def])

lemma digits_nonneg: "all_of is_digit s \<Longrightarrow> 0 \<le> digits_value s"
  by (simp add: all_of_def digits_value_nonneg list_all_iff)

lemma seq_Cons: "rs \<noteq> [] \<Longrightarrow> seq (r # rs) = Seq r (seq rs)"
  by (cases rs) auto

lemma captures_digits:
  "captures 1 (all_of is_digit) (attr name (some1 digit))" "captures 1 (all_of is_digit) (element name (some1 digit))"
  by (simp_all add: attr_def element_def captures_Seq_left captures_Seq_right captures_Grp consumes_digits)

lemma number_group_nonneg:
  assumes "number_group r s = Some n" "captures 1 (all_of is_digit) r"
  shows "0 \<le> n"
proof -
  obtain m where "exec r s = Some m" "n = digits_value (group_text 1 m)" using assms(1) by (auto simp: number_group_def)
  with exec_captures [OF this(1) assms(2)] show ?thesis by (simp add: digits_nonneg)
qed

lemma attribute_captures:
  "captures 1 (all_of is_digit) ATTR_START_REGEX" "captures 1 (all_of is_digit) ATTR_END_REGEX"
  "captures 1 (all_of is_digit) ATTR_IMPORTANCE_REGEX" "captures 1 (all_of is_digit) UNPROCESSED_REGEX"
  unfolding ATTR_START_REGEX_def ATTR_END_REGEX_def ATTR_IMPORTANCE_REGEX_def UNPROCESSED_REGEX_def by (rule captures_digits)+

text \<open>A compartment: numbers are not negative, nothing is empty, and the tiers come together, content first.\<close>

definition tiers_together :: "parsed_compartment \<Rightarrow> bool" where
  "tiers_together c \<longleftrightarrow>
     (pc_p1 c = None \<and> pc_p2 c = None \<and> pc_p3 c = None \<and> pc_p4 c = None)
     \<or> (pc_p1 c = Some (pc_content c) \<and> pc_p2 c \<noteq> None \<and> pc_p3 c \<noteq> None \<and> pc_p4 c \<noteq> None)"

definition compartment_ok :: "parsed_compartment \<Rightarrow> bool" where
  "compartment_ok c \<longleftrightarrow> 0 \<le> pc_startMessage c \<and> 0 \<le> pc_endMessage c \<and> pc_title c \<noteq> [] \<and> pc_content c \<noteq> []
     \<and> (\<forall>n. pc_importance c = Some n \<longrightarrow> 0 \<le> n) \<and> tiers_together c"

lemma or_else_Some [simp]: "\<exists>y. or_else a (Some x) = Some y" "\<exists>y. or_else a (or_else b (Some x)) = Some y"
  by (simp_all add: or_else_def split: option.splits)

lemma parse_compartment_ok:
  assumes "parse_compartment attrs inner = Some c"
  shows "compartment_ok c"
proof -
  obtain s e title where n: "number_group ATTR_START_REGEX attrs = Some s" "number_group ATTR_END_REGEX attrs = Some e"
    "text_group ATTR_TITLE_REGEX attrs = Some title" "title \<noteq> []"
    using assms by (auto simp: parse_compartment_def split: option.splits if_splits)
  have se: "0 \<le> s" "0 \<le> e" using number_group_nonneg attribute_captures n by blast+
  have i: "\<forall>n. number_group ATTR_IMPORTANCE_REGEX attrs = Some n \<longrightarrow> 0 \<le> n"
    using number_group_nonneg attribute_captures(3) by blast
  show ?thesis
  proof (cases "\<exists>c cs. extractTier inner 0 = Some (c # cs)")
    case True
    then obtain d ds where "extractTier inner 0 = Some (d # ds)" by blast
    then show ?thesis using assms n se i
      by (auto simp: parse_compartment_def Let_def compartment_ok_def tiers_together_def)
  next
    case False
    then show ?thesis using assms n se i
      by (auto simp: parse_compartment_def Let_def compartment_ok_def tiers_together_def split: option.splits list.splits if_splits)
  qed
qed

lemma compartments_ok: "c \<in> set (compartments_of text) \<Longrightarrow> compartment_ok c"
  by (auto simp: compartments_of_def List.map_filter_def intro: parse_compartment_ok)

text \<open>Facts have one of the five categories; list items are never empty.\<close>

lemma category_captures: "captures 1 (\<lambda>s. s \<in> set FACT_CATEGORIES) CATEGORY_BLOCK_REGEX"
proof -
  have "consumes (\<lambda>s. s \<in> set FACT_CATEGORIES) (alts (map lit FACT_CATEGORIES))"
  proof (rule consumes_alts)
    fix r assume "r \<in> set (map lit FACT_CATEGORIES)"
    then obtain w where "r = lit w" "w \<in> set FACT_CATEGORIES" by auto
    then show "consumes (\<lambda>s. s \<in> set FACT_CATEGORIES) r"
      by (simp only:) (rule consumes_mono [OF consumes_lit], simp)
  qed
  then show ?thesis
    unfolding CATEGORY_BLOCK_REGEX_def seq.simps
    by - (rule captures_Seq_right, rule captures_Seq_left, rule captures_Grp, assumption, intro keeps_intros, simp_all)
qed

lemma facts_ok: "f \<in> set (facts_of text) \<Longrightarrow> pf_category f \<in> set FACT_CATEGORIES \<and> pf_content f \<noteq> []"
  using matchAll_captures [OF _ category_captures] by (auto simp: facts_of_def items_of_def)

text \<open>Events have a name and a compartment; their fields are not empty and have distinct names.\<close>

definition event_ok :: "parsed_event \<Rightarrow> bool" where
  "event_ok e \<longleftrightarrow> pe_kind e \<noteq> [] \<and> (\<exists>n. pe_atCompartment e = Some n \<and> 0 \<le> n)
     \<and> distinct (map fst (pe_fields e)) \<and> (\<forall>(k, v)\<in>set (pe_fields e). k \<noteq> [] \<and> v \<noteq> [])"

lemma name_captures:
  "captures 1 (\<lambda>s. s \<noteq> []) EVENT_FIELD_REGEX" "captures 1 (\<lambda>s. s \<noteq> []) EVENT_ELEMENT_REGEX"
  "captures 2 (all_of is_digit) EVENT_ELEMENT_REGEX"
proof -
  have n: "consumes (\<lambda>s. s \<noteq> []) tag_name"
    unfolding tag_name_def by (rule consumes_mono [OF consumes_some1]) simp
  show "captures 1 (\<lambda>s. s \<noteq> []) EVENT_FIELD_REGEX"
    unfolding EVENT_FIELD_REGEX_def seq.simps
    by (rule captures_Seq_right, rule captures_Seq_left [OF captures_Grp [OF n]], intro keeps_intros) simp_all
  show "captures 1 (\<lambda>s. s \<noteq> []) EVENT_ELEMENT_REGEX"
    unfolding EVENT_ELEMENT_REGEX_def seq.simps
    by (rule captures_Seq_right, rule captures_Seq_left [OF captures_Grp [OF n]], intro keeps_intros) simp_all
  show "captures 2 (all_of is_digit) EVENT_ELEMENT_REGEX"
    unfolding EVENT_ELEMENT_REGEX_def seq.simps
    by (rule captures_Seq_right, rule captures_Seq_right, rule captures_Seq_right, rule captures_Seq_right,
        rule captures_Seq_left [OF captures_Grp [OF consumes_digits]], intro keeps_intros) simp_all
qed

lemma jsmap_set_pairs: "(k', v') \<in> set (jsmap_set k v m) \<Longrightarrow> (k', v') = (k, v) \<or> (k', v') \<in> set m"
  by (induction k v m rule: jsmap_set.induct) (auto split: if_splits)

lemma fields_ok:
  assumes "\<forall>m\<in>set ms. group_text 1 m \<noteq> []"
  shows "distinct (map fst obj) \<and> (\<forall>(k, v)\<in>set obj. k \<noteq> [] \<and> v \<noteq> []) \<Longrightarrow>
    distinct (map fst (foldl set_field obj ms)) \<and> (\<forall>(k, v)\<in>set (foldl set_field obj ms). k \<noteq> [] \<and> v \<noteq> [])"
  using assms
proof (induction ms arbitrary: obj)
  case (Cons m ms)
  have "distinct (map fst (set_field obj m)) \<and> (\<forall>(k, v)\<in>set (set_field obj m). k \<noteq> [] \<and> v \<noteq> [])"
    using Cons.prems by (auto simp: set_field_def Let_def distinct_jsmap_set dest!: jsmap_set_pairs)
  with Cons show ?case by simp
qed simp

lemma events_ok:
  assumes "e \<in> set (parseEvents text)"
  shows "event_ok e"
proof -
  obtain m el where el: "el \<in> set (matchAll EVENT_ELEMENT_REGEX (group_text 1 m))"
    and e: "e = \<lparr>pe_kind = group_text 1 el, pe_atCompartment = Some (digits_value (group_text 2 el)),
      pe_fields = foldl set_field [] (matchAll EVENT_FIELD_REGEX (group_text 3 el))\<rparr>"
    using assms by (auto simp: parseEvents_def split: option.splits)
  have "\<forall>m\<in>set (matchAll EVENT_FIELD_REGEX (group_text 3 el)). group_text 1 m \<noteq> []"
    using matchAll_captures [OF _ name_captures(1)] by blast
  from fields_ok [OF this, of "[]"] show ?thesis
    using matchAll_captures [OF el name_captures(2)] matchAll_captures [OF el name_captures(3)]
    by (simp add: event_ok_def e digits_nonneg)
qed

end
