(* ===== verification/Parser_Roundtrip.thy ===== *)
theory Parser_Roundtrip
  imports Compartment_Parser
begin

text \<open>
  The parser reads the tiered format: printed compartments, with the XML escapes, parse back to themselves, whatever
  else the text holds. The printer of this theory is the format the historian is asked to write; the program's own
  printer of the same format is in \<open>Session_References\<close>. The limits are those of the parser: it undoes \<open>&amp;\<close>
  before the other escapes, so a text that itself spells one of \<open>&lt;\<close>, \<open>&gt;\<close>, \<open>&quot;\<close>, \<open>&apos;\<close> is not read back.
\<close>

section \<open>Escapes\<close>

fun entity :: "char \<Rightarrow> string" where
  "entity c = (if c = CHR ''<'' then ''&lt;'' else if c = CHR ''>'' then ''&gt;'' else if c = quote then ''&quot;''
     else if c = CHR 0x27 then ''&apos;'' else ''&amp;'')"

definition specials :: "char set" where "specials = {CHR ''&'', CHR ''<'', CHR ''>'', quote, CHR 0x27}"

definition encode :: "char set \<Rightarrow> char \<Rightarrow> string" where
  "encode D c = (if c \<in> D then entity c else [c])"

definition escape_with :: "char set \<Rightarrow> string \<Rightarrow> string" where
  "escape_with D s = concat (map (encode D) s)"

text \<open>Attributes escape all five characters; the text of an element needs the first three.\<close>

definition markup :: "char set" where "markup = {CHR ''&'', CHR ''<'', CHR ''>''}"

abbreviation escape_xml :: "string \<Rightarrow> string" where "escape_xml s \<equiv> escape_with specials s"

definition readable :: "string \<Rightarrow> bool" where
  "readable s \<longleftrightarrow> list_all (\<lambda>w. \<not> str_includes w s) [''&lt;'', ''&gt;'', ''&quot;'', ''&apos;'']"

lemma entity_facts: "entity (CHR ''&'') = ''&amp;''" "entity (CHR 0x27) = ''&apos;''" "entity quote = ''&quot;''" "entity (CHR ''<'') = ''&lt;''"
    "entity (CHR ''>'') = ''&gt;''" "entity (CHR 0x22) = ''&quot;''"
  by (simp_all add: quote_def)

declare entity.simps [simp del]

lemma special_cases:
  assumes "d \<in> specials"
  obtains "d = CHR ''&''" | "d = CHR ''<''" | "d = CHR ''>''" | "d = quote" | "d = CHR 0x27"
  using assms by (auto simp: specials_def)

lemma starts_encoded:
  assumes "D \<subseteq> specials"
  shows "set w \<inter> specials = {} \<Longrightarrow> starts_with w (concat (map (encode D) s)) \<Longrightarrow> starts_with w s"
proof (induction w arbitrary: s)
  case (Cons x w)
  then obtain c s' where s: "s = c # s'" by (cases s) (auto simp: starts_with_def)
  have "c \<notin> D"
  proof
    assume "c \<in> D"
    moreover have "hd (entity c) = CHR ''&''" "entity c \<noteq> []" by (simp_all add: entity.simps)
    ultimately have "x = CHR ''&''" using Cons.prems(2) s by (cases "entity c") (auto simp: encode_def starts_with_def)
    then show False using Cons.prems(1) by (simp add: specials_def)
  qed
  then show ?case using Cons s by (simp add: encode_def starts_with_def)
qed (simp add: starts_with_def)

lemma entity_apart:
  assumes "c \<in> specials" "d \<in> specials" "c \<noteq> d"
  shows "no_start (entity d) (entity c) y"
  by (rule special_cases [OF assms(1)]; rule special_cases [OF assms(2)]) (use assms(3) in \<open>simp_all add: entity_facts\<close>)

lemma entity_tail:
  assumes "d \<in> specials"
  obtains w where "entity d = CHR ''&'' # w" "set w \<inter> specials = {}" "entity d \<noteq> []"
proof -
  have "\<exists>w. entity d = CHR ''&'' # w \<and> set w \<inter> specials = {}"
    by (rule special_cases [OF assms]) (auto simp: entity_facts specials_def quote_def)
  then show ?thesis using that by auto
qed

text \<open>One replacement of \<open>unescapeXml\<close> undoes one escape; a bare ampersand must not start the entity.\<close>

lemma decode_one:
  assumes d: "d \<in> specials" "D \<subseteq> specials"
  shows "CHR ''&'' \<in> D \<or> no_start (entity d) s [] \<Longrightarrow>
    replace_from (lit (entity d)) (\<lambda>_. [d]) b (concat (map (encode D) s)) = concat (map (encode (D - {d})) s)"
proof (induction s arbitrary: b)
  case Nil
  obtain w where "entity d = CHR ''&'' # w" by (rule entity_tail [OF d(1)])
  then show ?case by (subst replace_lit_none) simp_all
next
  case (Cons c s)
  obtain w where w: "entity d = CHR ''&'' # w" "set w \<inter> specials = {}" "entity d \<noteq> []" by (rule entity_tail [OF d(1)])
  let ?rest = "concat (map (encode D) s)"
  have amp: "CHR ''&'' \<in> D \<or> no_start (entity d) s []" using Cons.prems by auto
  show ?case
  proof (cases "c = d \<and> d \<in> D")
    case True
    have "replace_from (lit (entity d)) (\<lambda>_. [d]) b ([] @ entity d @ ?rest)
        = [] @ [d] @ replace_from (lit (entity d)) (\<lambda>_. [d]) (before_of b ([] @ entity d)) ?rest"
      by (rule replace_lit_step) (simp_all add: w)
    moreover have "encode D c = entity d" "encode (D - {d}) c = [d]" using True by (simp_all add: encode_def)
    ultimately show ?thesis using Cons.IH [OF amp] by simp
  next
    case False
    have "no_start (entity d) (encode D c) ?rest"
    proof (cases "c \<in> D")
      case True
      with False d have "no_start (entity d) (entity c) ?rest" by (intro entity_apart) auto
      with True show ?thesis by (simp add: encode_def)
    next
      case nD: False
      have "\<not> starts_with (entity d) (c # ?rest)"
      proof
        assume s: "starts_with (entity d) (c # ?rest)"
        then have c: "c = CHR ''&''" and "starts_with w ?rest" by (simp_all add: w starts_with_def)
        then have "starts_with w s" using starts_encoded [OF d(2) w(2)] by blast
        then have "starts_with (entity d) (c # s)" by (simp add: w c starts_with_def)
        then show False using Cons.prems nD c by simp
      qed
      with nD show ?thesis by (simp add: encode_def)
    qed
    moreover have "encode (D - {d}) c = encode D c" using False by (auto simp: encode_def)
    ultimately show ?thesis using Cons.IH [OF amp] by (simp add: replace_lit_skip)
  qed
qed

lemma unescape_escape:
  assumes "D \<subseteq> specials" "CHR ''&'' \<in> D" "readable s"
  shows "unescapeXml (escape_with D s) = s"
proof -
  have free: "no_start ''&lt;'' s []" "no_start ''&gt;'' s []" "no_start ''&quot;'' s []" "no_start ''&apos;'' s []"
    using assms(3) by (simp_all add: readable_def includes_start)
  have mem: "CHR ''&'' \<in> specials" "CHR ''<'' \<in> specials" "CHR ''>'' \<in> specials" "quote \<in> specials" "CHR 0x27 \<in> specials"
    by (simp_all add: specials_def)
  define D1 D2 D3 D4 where D: "D1 = D - {CHR ''&''}" "D2 = D1 - {CHR 0x27}" "D3 = D2 - {quote}" "D4 = D3 - {CHR ''<''}"
  have sub: "D1 \<subseteq> specials" "D2 \<subseteq> specials" "D3 \<subseteq> specials" "D4 \<subseteq> specials" using assms(1) by (auto simp: D)
  have 1: "replaceAll (lit ''&amp;'') (\<lambda>_. ''&'') (escape_with D s) = concat (map (encode D1) s)"
    using decode_one [OF mem(1) assms(1), of s None] assms(2) by (simp add: escape_with_def replaceAll_def entity_facts D)
  have 2: "replaceAll (lit ''&apos;'') (\<lambda>_. [CHR 0x27]) (concat (map (encode D1) s)) = concat (map (encode D2) s)"
    using decode_one [OF mem(5) sub(1), of s None] free by (simp add: replaceAll_def entity_facts D(2))
  have 3: "replaceAll (lit ''&quot;'') (\<lambda>_. [quote]) (concat (map (encode D2) s)) = concat (map (encode D3) s)"
    using decode_one [OF mem(4) sub(2), of s None] free by (simp add: replaceAll_def entity_facts D(3))
  have 4: "replaceAll (lit ''&lt;'') (\<lambda>_. ''<'') (concat (map (encode D3) s)) = concat (map (encode D4) s)"
    using decode_one [OF mem(2) sub(3), of s None] free by (simp add: replaceAll_def entity_facts D(4))
  have 5: "replaceAll (lit ''&gt;'') (\<lambda>_. ''>'') (concat (map (encode D4) s)) = concat (map (encode (D4 - {CHR ''>''})) s)"
    using decode_one [OF mem(3) sub(4), of s None] free by (simp add: replaceAll_def entity_facts)
  have e: "D4 - {CHR ''>''} = {}" using assms(1) by (auto simp: D specials_def)
  have "concat (map (encode {}) s) = s" by (induction s) (simp_all add: encode_def)
  then show ?thesis unfolding unescapeXml_def 1 2 3 4 5 e .
qed

text \<open>Escaping leaves no markup and no white space at the ends.\<close>

lemma entity_chars: "set (entity c) \<subseteq> set ''&ltgquoapsm;''"
  by (simp add: entity.simps)

lemma escape_chars:
  assumes "c \<in> set (escape_with D s)" "c \<notin> set ''&ltgquoapsm;''"
  shows "c \<in> set s \<and> c \<notin> D"
proof -
  obtain x where x: "x \<in> set s" "c \<in> set (encode D x)" using assms(1) by (auto simp: escape_with_def)
  show ?thesis
  proof (cases "x \<in> D")
    case True
    then have "c \<in> set (entity x)" using x(2) by (simp add: encode_def)
    then show ?thesis using assms(2) subsetD [OF entity_chars] by blast
  qed (use x in \<open>simp add: encode_def\<close>)
qed

lemma escape_special: "c \<in> D \<Longrightarrow> c \<notin> set ''&ltgquoapsm;'' \<Longrightarrow> c \<notin> set (escape_with D s)"
  using escape_chars by blast

lemma escape_plain [simp]: "CHR ''<'' \<notin> set (escape_xml s)" "CHR ''>'' \<notin> set (escape_xml s)" "quote \<notin> set (escape_xml s)"
    "CHR ''<'' \<notin> set (escape_with markup s)" "CHR ''>'' \<notin> set (escape_with markup s)"
  by (rule escape_special, simp add: specials_def markup_def, simp add: quote_def)+

lemma markup_specials [simp]: "markup \<subseteq> specials" "CHR ''&'' \<in> markup" "CHR ''&'' \<in> specials"
  by (auto simp: markup_def specials_def)

lemma escape_Nil [simp]: "escape_with D s = [] \<longleftrightarrow> s = []"
  by (cases s) (auto simp: escape_with_def encode_def entity.simps)

lemma last_encode: "encode D c \<noteq> []" "last (encode D c) = CHR '';'' \<or> last (encode D c) = c"
  by (auto simp: encode_def entity.simps)

lemma last_escape:
  assumes "s \<noteq> []" "last s \<noteq> x" "x \<noteq> CHR '';''"
  shows "last (escape_with D s) \<noteq> x"
  using assms last_encode [of D "last s"] by (cases s rule: rev_cases) (auto simp: escape_with_def)

lemma last_dropWhile: "dropWhile p xs \<noteq> [] \<Longrightarrow> last (dropWhile p xs) = last xs"
  by (induction xs) (auto split: if_splits)

lemma trim_ends:
  assumes "js_trim s \<noteq> []"
  shows "\<not> is_ws (hd (js_trim s)) \<and> \<not> is_ws (last (js_trim s))"
proof -
  let ?a = "dropWhile is_ws s" and ?b = "dropWhile is_ws (rev (dropWhile is_ws s))"
  have b: "?b \<noteq> []" using assms by (simp add: js_trim_def)
  then have a: "?a \<noteq> []" by force
  have "\<not> is_ws (hd ?a)" using a by (rule hd_dropWhile)
  moreover have "hd (js_trim s) = hd ?a"
    unfolding js_trim_def hd_rev last_dropWhile [OF b] by (simp add: last_rev)
  moreover have "last (js_trim s) = hd ?b" unfolding js_trim_def by (simp add: last_rev)
  ultimately show ?thesis using hd_dropWhile [OF b] by simp
qed

lemma trim_fixed: "js_trim s = s \<longleftrightarrow> s = [] \<or> (\<not> is_ws (hd s) \<and> \<not> is_ws (last s))"
proof
  assume "js_trim s = s"
  then show "s = [] \<or> (\<not> is_ws (hd s) \<and> \<not> is_ws (last s))" using trim_ends [of s] by metis
next
  assume "s = [] \<or> (\<not> is_ws (hd s) \<and> \<not> is_ws (last s))"
  then show "js_trim s = s"
  proof
    assume a: "\<not> is_ws (hd s) \<and> \<not> is_ws (last s)"
    then have "dropWhile is_ws s = s" by (cases s) auto
    moreover have "dropWhile is_ws (rev s) = rev s" using a by (cases "rev s") (auto simp: hd_rev [symmetric])
    ultimately show ?thesis by (simp add: js_trim_def)
  qed (simp add: js_trim_def)
qed

lemma trim_escape:
  assumes "js_trim s = s"
  shows "js_trim (escape_with D s) = escape_with D s"
proof (cases "s = []")
  case False
  have e: "encode D c \<noteq> [] \<and> (is_ws (hd (encode D c)) \<longrightarrow> is_ws c) \<and> (is_ws (last (encode D c)) \<longrightarrow> is_ws c)" for c
    by (auto simp: encode_def is_ws_def entity.simps)
  have "\<not> is_ws (hd (escape_with D s))"
    using assms False e [of "hd s"] by (cases s) (auto simp: trim_fixed escape_with_def)
  moreover have "\<not> is_ws (last (escape_with D s))"
    using assms False e [of "last s"] by (cases s rule: rev_cases) (auto simp: trim_fixed escape_with_def)
  ultimately show ?thesis by (simp add: trim_fixed)
qed (simp add: escape_with_def js_trim_def)

lemma drop_ws: "list_all is_ws w \<Longrightarrow> dropWhile is_ws (w @ s) = dropWhile is_ws s"
  by (induction w) simp_all

lemma trim_surround:
  assumes "list_all is_ws w" "list_all is_ws w'"
  shows "js_trim (w @ s @ w') = js_trim s"
proof -
  have w': "dropWhile is_ws (rev w' @ x) = dropWhile is_ws x" for x using assms(2) by (intro drop_ws) (simp add: list_all_iff)
  show ?thesis
  proof (cases "dropWhile is_ws s = []")
    case True
    have e: "dropWhile is_ws (s @ w') = []"
      using True assms(2) by (simp add: dropWhile_append list_all_iff dropWhile_eq_Nil_conv)
    show ?thesis by (simp only: js_trim_def drop_ws [OF assms(1)] e True)
  next
    case False
    then have "dropWhile is_ws (s @ w') = dropWhile is_ws s @ w'" by (auto simp: dropWhile_append dropWhile_eq_Nil_conv)
    then show ?thesis by (simp add: js_trim_def drop_ws [OF assms(1)] w')
  qed
qed

section \<open>Attributes\<close>

definition attribute :: "string \<Rightarrow> string \<Rightarrow> string" where
  "attribute name v = name @ [CHR ''='', quote] @ v @ [quote]"

lemma quote_not_word: "\<not> word_char quote" "\<not> is_digit quote" "\<not> is_ws quote"
  by (simp_all add: quote_def word_char_def is_digit_def is_ws_def)

lemma exec_attr:
  assumes "no_start (name @ [CHR ''='', quote]) pre (attribute name v @ rest)"
    and "case before_of None pre of None \<Rightarrow> True | Some c \<Rightarrow> \<not> word_char c" "name \<noteq> []" "word_char (hd name)"
    and "\<And>b g. first_end vr (pos b (v @ quote # rest) g) = Some (pos (before_of b v) (quote # rest) g)"
  shows "\<exists>m. exec (attr name vr) (pre @ attribute name v @ rest) = Some m \<and> group_text 1 m = v"
proof -
  let ?b = "before_of None pre" and ?open = "name @ [CHR ''='', quote]" and ?y = "attribute name v @ rest"
  let ?e = "pos (before_of ?b (attribute name v)) rest (Map.empty(1 \<mapsto> v))"
  have edge: "word_edge (pos ?b ?y Map.empty)"
    using assms(2,3,4) by (cases name) (auto simp: word_edge_def attribute_def split: option.splits)
  have "first_end (Seq (Grp 1 vr) (lit [quote])) (pos (before_of ?b ?open) (v @ quote # rest) Map.empty) = Some ?e"
  proof (rule first_Seq_head)
    show "first_end (Grp 1 vr) (pos (before_of ?b ?open) (v @ quote # rest) Map.empty)
        = Some (pos (before_of (before_of ?b ?open) v) (quote # rest) (Map.empty(1 \<mapsto> v)))"
      by (rule first_Grp [OF assms(5)])
    show "first_end (lit [quote]) (pos (before_of (before_of ?b ?open) v) (quote # rest) (Map.empty(1 \<mapsto> v))) = Some ?e"
      using first_lit [of "[quote]" _ rest] by (simp add: attribute_def)
  qed
  then have "first_end (Seq (lit ?open) (Seq (Grp 1 vr) (lit [quote]))) (pos ?b ?y Map.empty) = Some ?e"
    using first_Seq_lit [of ?open "Seq (Grp 1 vr) (lit [quote])" ?b "v @ quote # rest" Map.empty] by (simp add: attribute_def)
  then have f: "first_end (attr name vr) (pos ?b ?y Map.empty) = Some ?e"
    using edge by (simp add: attr_def first_end_def)
  have "begins ?open (attr name vr)"
    by (simp add: attr_def begins_lit begins_WordEdge)
  from search_begins [OF this assms(1) f, of "attribute name v"] show ?thesis
    by (simp add: exec_search group_text_def)
qed

lemma first_digits: "all_of is_digit v \<Longrightarrow> first_end (some1 digit) (pos b (v @ quote # rest) g) = Some (pos (before_of b v) (quote # rest) g)"
  using first_greedy1 [of v is_digit "quote # rest" b g] quote_not_word by (simp add: all_of_def digit_def)

lemma first_unquoted: "quote \<notin> set v \<Longrightarrow>
    first_end (many (none_of [quote])) (pos b (v @ quote # rest) g) = Some (pos (before_of b v) (quote # rest) g)"
  using first_greedy [of v "\<lambda>c. c \<notin> set [quote]" "quote # rest" b g] by (auto simp: none_of_def)

text \<open>No attribute starts inside a value, which has no quote; it must not end in an equals sign either.\<close>

lemma no_start_value:
  assumes "quote \<notin> set x" "x = [] \<or> last x \<noteq> CHR ''=''" "quote \<notin> set name"
  shows "no_start (name @ [CHR ''='', quote]) x (quote # rest)"
  unfolding no_start_def
proof (intro allI impI notI)
  fix m assume m: "m < length x" and s: "starts_with (name @ [CHR ''='', quote]) (drop m x @ quote # rest)"
  let ?w = "name @ [CHR ''='', quote]" and ?z = "drop m x"
  from s obtain y where y: "?z @ quote # rest = ?w @ y" using starts_withE by blast
  consider "length ?z \<le> length name" | "length ?z = Suc (length name)" | "Suc (length name) < length ?z" by linarith
  then show False
  proof cases
    case 1
    have "(?z @ quote # rest) ! length ?z = quote" by (rule nth_append_length)
    then have "(?w @ y) ! length ?z = quote" unfolding y .
    moreover have "(?w @ y) ! length ?z = (if length ?z < length name then name ! length ?z else CHR ''='')"
      using 1 by (simp add: nth_append)
    ultimately show False using assms(3) nth_mem [of "length ?z" name] by (auto simp: quote_def split: if_splits)
  next
    case 2
    then have "?z = take (Suc (length name)) (?w @ y)" unfolding y [symmetric] by simp
    then have "last ?z = CHR ''=''" by simp
    then show False using assms(2) m by (auto simp: last_drop)
  next
    case 3
    have "(?w @ y) ! Suc (length name) = quote" by (simp add: nth_append)
    then have "(?z @ quote # rest) ! Suc (length name) = quote" unfolding y .
    then have "?z ! Suc (length name) = quote" using 3 by (simp add: nth_append)
    then have "quote \<in> set ?z" using 3 nth_mem by metis
    then show False using assms(1) by (meson in_set_dropD)
  qed
qed

lemma show_int_all: "0 \<le> n \<Longrightarrow> all_of is_digit (show_int n)" "0 \<le> n \<Longrightarrow> digits_value (show_int n) = n"
  using show_base_digits [of "nat n"] by (simp_all add: show_int_def all_of_def all_digits_def list_all_iff digits_value_show)

section \<open>The printer\<close>

definition attrs_of :: "int \<Rightarrow> int \<Rightarrow> string \<Rightarrow> string option \<Rightarrow> int \<Rightarrow> string" where
  "attrs_of s e title episode importance =
     attribute ''start'' (show_int s) @ '' '' @ attribute ''end'' (show_int e) @ '' ''
     @ attribute ''title'' (escape_xml title)
     @ (case episode of None \<Rightarrow> [] | Some x \<Rightarrow> '' '' @ attribute ''episode_type'' (escape_xml x))
     @ '' '' @ attribute ''importance'' (show_int importance)"

definition tier_in :: "string \<Rightarrow> char set \<Rightarrow> nat \<Rightarrow> string \<Rightarrow> string" where
  "tier_in w D n s = ''<p'' @ show_base 10 n @ ''>'' @ w @ escape_with D s @ w @ ''</p'' @ show_base 10 n @ ''>''"

definition wrapped :: "string \<Rightarrow> string \<Rightarrow> string" where
  "wrapped attrs body = ''<compartment '' @ attrs @ ''>'' @ body @ ''</compartment>''"

definition attrs_text :: "parsed_compartment \<Rightarrow> string" where
  "attrs_text c = attrs_of (pc_startMessage c) (pc_endMessage c) (pc_title c) (pc_episodeType c) (the (pc_importance c))"

definition tier_text :: "nat \<Rightarrow> string \<Rightarrow> string" where
  "tier_text n s = tier_in [] specials n s"

definition body_text :: "parsed_compartment \<Rightarrow> string" where
  "body_text c = tier_text 1 (the (pc_p1 c)) @ tier_text 2 (the (pc_p2 c)) @ tier_text 3 (the (pc_p3 c)) @ tier_text 4 (the (pc_p4 c))"

definition compartment_text :: "parsed_compartment \<Rightarrow> string" where
  "compartment_text c = wrapped (attrs_text c) (body_text c)"

text \<open>
  What an attribute and a tier can hold: any text that spells none of the four escapes undone after the ampersand's,
  with no equals sign at the end of an attribute (a title \<open>... episode_type=\<close> would run into the next attribute)
  and no white space at the ends of a tier (the parser trims).
\<close>

definition attribute_ok :: "string \<Rightarrow> bool" where
  "attribute_ok s \<longleftrightarrow> readable s \<and> (s = [] \<or> last s \<noteq> CHR ''='')"

definition tier_ok :: "string \<Rightarrow> bool" where
  "tier_ok s \<longleftrightarrow> readable s \<and> js_trim s = s"

definition printable :: "parsed_compartment \<Rightarrow> bool" where
  "printable c \<longleftrightarrow> 0 \<le> pc_startMessage c \<and> 0 \<le> pc_endMessage c \<and> pc_title c \<noteq> [] \<and> attribute_ok (pc_title c)
     \<and> (\<exists>x. pc_episodeType c = Some x \<and> attribute_ok x) \<and> (\<exists>n\<ge>0. pc_importance c = Some n)
     \<and> (\<forall>t\<in>{pc_p1 c, pc_p2 c, pc_p3 c, pc_p4 c}. \<exists>s. t = Some s \<and> tier_ok s)
     \<and> pc_p1 c = Some (pc_content c) \<and> pc_content c \<noteq> []"

lemma digits_no: "all_of is_digit s \<Longrightarrow> \<not> is_digit c \<Longrightarrow> c \<notin> set s"
  by (auto simp: all_of_def)

lemma char_facts [simp]: "\<not> is_digit (CHR ''e'')" "\<not> is_digit (CHR ''t'')" "\<not> is_digit (CHR ''i'')" "\<not> is_digit (CHR ''='')"
  "\<not> is_digit (CHR ''>'')" "\<not> word_char (CHR '' '')" "word_char (CHR ''s'')" "word_char (CHR ''e'')" "word_char (CHR ''t'')"
  "word_char (CHR ''i'')"
  by (simp_all add: is_digit_def word_char_def)

lemma escaped_attribute:
  assumes "attribute_ok s" "quote \<notin> set name"
  shows "no_start (name @ [CHR ''='', quote]) (escape_xml s) (quote # rest)" "unescapeXml (escape_xml s) = s"
proof -
  have "escape_xml s = [] \<or> last (escape_xml s) \<noteq> CHR ''=''"
    using assms(1) last_escape [of s "CHR ''=''" specials] by (cases "s = []") (auto simp: attribute_ok_def)
  with assms(2) show "no_start (name @ [CHR ''='', quote]) (escape_xml s) (quote # rest)" by (intro no_start_value) simp_all
  show "unescapeXml (escape_xml s) = s" using assms(1) by (intro unescape_escape) (simp_all add: attribute_ok_def)
qed

lemma printed_attributes:
  assumes "0 \<le> s" "0 \<le> e" "attribute_ok title" "\<And>x. episode = Some x \<Longrightarrow> attribute_ok x" "0 \<le> n"
  shows "number_group ATTR_START_REGEX (attrs_of s e title episode n) = Some s"
    "number_group ATTR_END_REGEX (attrs_of s e title episode n) = Some e"
    "text_group ATTR_TITLE_REGEX (attrs_of s e title episode n) = Some title"
    "text_group ATTR_EPISODE_REGEX (attrs_of s e title episode n) = episode"
    "number_group ATTR_IMPORTANCE_REGEX (attrs_of s e title episode n) = Some n"
proof -
  let ?S = "show_int s" and ?E = "show_int e" and ?T = "escape_xml title" and ?I = "show_int n"
  define ep where "ep = (case episode of None \<Rightarrow> [] | Some x \<Rightarrow> '' '' @ attribute ''episode_type'' (escape_xml x))"
  have form: "attrs_of s e title episode n = attribute ''start'' ?S @ '' '' @ attribute ''end'' ?E @ '' '' @ attribute ''title'' ?T @ ep
      @ '' '' @ attribute ''importance'' ?I" by (simp add: attrs_of_def ep_def)
  have SE: "all_of is_digit ?S" "all_of is_digit ?E" "all_of is_digit ?I" and num: "digits_value ?S = s" "digits_value ?E = e" "digits_value ?I = n"
    using assms show_int_all by auto
  have S: "no_start (CHR ''e'' # w) ?S y" "no_start (CHR ''t'' # w) ?S y" "no_start (CHR ''i'' # w) ?S y"
      "no_start (CHR ''e'' # w) ?E y" "no_start (CHR ''t'' # w) ?E y" "no_start (CHR ''i'' # w) ?E y" "no_start (CHR ''e'' # w) ?I y" for w y
    using SE by (simp_all add: no_start_char digits_no)
  have X: "no_start (name @ [CHR ''='', quote]) ?T (quote # rest)" if "quote \<notin> set name" for name rest
    using escaped_attribute(1) [OF assms(3)] that by blast
  note X' = X [of "''episode_type''", unfolded quote_def, simplified] X [of "''importance''", unfolded quote_def, simplified]
  have "\<exists>m. exec ATTR_START_REGEX ([] @ attribute ''start'' ?S @ drop (length (attribute ''start'' ?S)) (attrs_of s e title episode n)) = Some m \<and> group_text 1 m = ?S"
    unfolding ATTR_START_REGEX_def by (rule exec_attr [OF _ _ _ _ first_digits [OF SE(1)]]) simp_all
  then show "number_group ATTR_START_REGEX (attrs_of s e title episode n) = Some s" by (auto simp: number_group_def form num)
  have "\<exists>m. exec ATTR_END_REGEX ((attribute ''start'' ?S @ '' '') @ attribute ''end'' ?E @ '' ''
      @ attribute ''title'' ?T @ ep @ '' '' @ attribute ''importance'' ?I) = Some m \<and> group_text 1 m = ?E"
    unfolding ATTR_END_REGEX_def
    by (rule exec_attr [OF _ _ _ _ first_digits [OF SE(2)]]) (simp_all add: attribute_def quote_def S before_of_def)
  then show "number_group ATTR_END_REGEX (attrs_of s e title episode n) = Some e" by (auto simp: number_group_def form num)
  have "\<exists>m. exec ATTR_TITLE_REGEX ((attribute ''start'' ?S @ '' '' @ attribute ''end'' ?E @ '' '')
      @ attribute ''title'' ?T @ ep @ '' '' @ attribute ''importance'' ?I) = Some m \<and> group_text 1 m = ?T"
    unfolding ATTR_TITLE_REGEX_def
    by (rule exec_attr [OF _ _ _ _ first_unquoted]) (simp_all add: attribute_def S before_of_def, simp_all add: quote_def S)
  then show "text_group ATTR_TITLE_REGEX (attrs_of s e title episode n) = Some title"
    by (auto simp: text_group_def form escaped_attribute(2) [OF assms(3), of "[]"])
  show "text_group ATTR_EPISODE_REGEX (attrs_of s e title episode n) = episode"
  proof (cases episode)
    case None
    have "begins (''episode_type'' @ [CHR ''='', quote]) ATTR_EPISODE_REGEX"
      by (simp add: ATTR_EPISODE_REGEX_def attr_def begins_lit begins_WordEdge)
    moreover have "no_start (''episode_type'' @ [CHR ''='', quote]) (attrs_of s e title episode n) []"
      unfolding form by (simp add: attribute_def ep_def None quote_def S X')
    ultimately show ?thesis by (simp add: text_group_def exec_search search_begins_none None)
  next
    case (Some x)
    let ?X = "escape_xml x"
    have "\<exists>m. exec ATTR_EPISODE_REGEX ((attribute ''start'' ?S @ '' '' @ attribute ''end'' ?E @ '' '' @ attribute ''title'' ?T @ '' '')
        @ attribute ''episode_type'' ?X @ '' '' @ attribute ''importance'' ?I) = Some m \<and> group_text 1 m = ?X"
      unfolding ATTR_EPISODE_REGEX_def
      by (rule exec_attr [OF _ _ _ _ first_unquoted]) (simp_all add: attribute_def S before_of_def, simp_all add: quote_def S X')
    then show ?thesis using escaped_attribute(2) [OF assms(4) [OF Some], of "[]"] by (auto simp: text_group_def form [unfolded Some] ep_def Some)
  qed
  have Y: "no_start (''importance'' @ [CHR ''='', quote]) (ep @ '' '') y" for y
  proof -
    have "no_start (''importance'' @ [CHR ''='', quote]) (escape_xml x) (quote # rest)" if "episode = Some x" for x rest
      using escaped_attribute(1) [OF assms(4) [OF that], of "''importance''" rest] by (simp add: quote_def)
    then show ?thesis by (cases episode) (simp_all add: ep_def attribute_def quote_def)
  qed
  have "\<exists>m. exec ATTR_IMPORTANCE_REGEX (((attribute ''start'' ?S @ '' '' @ attribute ''end'' ?E @ '' '' @ attribute ''title'' ?T) @ ep @ '' '')
      @ attribute ''importance'' ?I @ []) = Some m \<and> group_text 1 m = ?I"
    unfolding ATTR_IMPORTANCE_REGEX_def
    by (rule exec_attr [OF _ _ _ _ first_digits [OF SE(3)]])
      (use Y in \<open>simp_all add: attribute_def quote_def S X' before_of_def\<close>)
  then show "number_group ATTR_IMPORTANCE_REGEX (attrs_of s e title episode n) = Some n" by (auto simp: number_group_def form num)
qed

section \<open>Tiers\<close>

lemma show_digit: "n < 10 \<Longrightarrow> show_base 10 n = [digit_char n]"
  by (simp add: show_base.simps)

lemma cut_before:
  assumes "begins w r" "no_start w x y" "first_end r (pos (before_of None x) y Map.empty) \<noteq> None"
    and "\<And>st. first_end r (pos (before_of None x) y Map.empty) = Some st \<Longrightarrow> \<exists>v. y = v @ ps_rest st"
  shows "cut_at r (x @ y) = x"
proof -
  obtain st v where "first_end r (pos (before_of None x) y Map.empty) = Some st" "y = v @ ps_rest st"
    using assms(3,4) by blast
  from search_begins [OF assms(1,2) this] show ?thesis by (simp add: cut_at_def exec_search)
qed

lemma cut_nothing: "begins w r \<Longrightarrow> no_start w x [] \<Longrightarrow> w \<noteq> [] \<Longrightarrow> cut_at r x = x"
  by (simp add: cut_at_def exec_search search_begins_none)

lemma first_tier_open:
  "first_end (makeTierOpenRegex n) (pos b (''<p'' @ show_base 10 n @ ''>'' @ s) Map.empty)
    = Some (pos (before_of b (''<p'' @ show_base 10 n @ ''>'')) s (Map.empty(1 \<mapsto> [])))"
proof -
  let ?w = "''<p'' @ show_base 10 n"
  have g: "matches_at (Seq (Grp 1 (opt (lit ''/''))) (lit ''>'')) (pos (before_of b ?w) (''>'' @ s) Map.empty)
      = [pos (before_of b (?w @ ''>'')) s (Map.empty(1 \<mapsto> []))]"
    using matches_lit_append [of "''>''" _ s] by (simp add: matches_lit_none)
  have sp: "first_end (many space) (pos (before_of b ?w) ([] @ ''>'' @ s) Map.empty) = Some (pos (before_of (before_of b ?w) []) (''>'' @ s) Map.empty)"
    unfolding space_def by (rule first_greedy) (simp_all add: is_ws_def)
  have "first_end (Seq (lit ?w) (Seq (many space) (Seq (Grp 1 (opt (lit ''/''))) (lit ''>'')))) (pos b (?w @ ''>'' @ s) Map.empty)
      = first_end (Seq (many space) (Seq (Grp 1 (opt (lit ''/''))) (lit ''>''))) (pos (before_of b ?w) (''>'' @ s) Map.empty)"
    by (rule first_Seq_lit)
  also have "\<dots> = Some (pos (before_of b (?w @ ''>'')) s (Map.empty(1 \<mapsto> [])))"
    using sp by (intro first_Seq_head [OF _ first_end_cons [OF g]]) simp
  finally show ?thesis by (simp add: makeTierOpenRegex_def)
qed

lemma first_tier_self_closing:
  "first_end (makeTierOpenRegex n) (pos b (''<p'' @ show_base 10 n @ ''/>'' @ s) Map.empty)
    = Some (pos (before_of b (''<p'' @ show_base 10 n @ ''/>'')) s (Map.empty(1 \<mapsto> ''/'')))"
proof -
  let ?w = "''<p'' @ show_base 10 n"
  have g: "first_end (Seq (Grp 1 (opt (lit ''/''))) (lit ''>'')) (pos (before_of b ?w) (''/>'' @ s) Map.empty)
      = Some (pos (before_of b (?w @ ''/>'')) s (Map.empty(1 \<mapsto> ''/'')))"
    using matches_lit_append [of "''/''" _ "''>'' @ s"] matches_lit_append [of "''>''" _ s]
    by (simp add: first_end_def)
  have sp: "first_end (many space) (pos (before_of b ?w) ([] @ ''/>'' @ s) Map.empty) = Some (pos (before_of (before_of b ?w) []) (''/>'' @ s) Map.empty)"
    unfolding space_def by (rule first_greedy) (simp_all add: is_ws_def)
  have "first_end (Seq (lit ?w) (Seq (many space) (Seq (Grp 1 (opt (lit ''/''))) (lit ''>'')))) (pos b (?w @ ''/>'' @ s) Map.empty)
      = first_end (Seq (many space) (Seq (Grp 1 (opt (lit ''/''))) (lit ''>''))) (pos (before_of b ?w) (''/>'' @ s) Map.empty)"
    by (rule first_Seq_lit)
  also have "\<dots> = Some (pos (before_of b (?w @ ''/>'')) s (Map.empty(1 \<mapsto> ''/'')))"
    by (rule first_Seq_head [OF _ g]) (use sp in simp)
  finally show ?thesis by (simp add: makeTierOpenRegex_def)
qed

lemma begins_tier: "begins (''<p'' @ show_base 10 n) (makeTierOpenRegex n)"
  by (simp add: makeTierOpenRegex_def begins_lit)

lemma tier_self_closing:
  assumes "no_start (''<p'' @ show_base 10 (Suc i)) pre (''<p'' @ show_base 10 (Suc i) @ ''/>'' @ post)"
  shows "extractTier (pre @ ''<p'' @ show_base 10 (Suc i) @ ''/>'' @ post) i = Some []"
proof -
  have "exec (makeTierOpenRegex (Suc i)) (pre @ ''<p'' @ show_base 10 (Suc i) @ ''/>'' @ post)
      = Some \<lparr>rx_pre = pre, rx_text = ''<p'' @ show_base 10 (Suc i) @ ''/>'',
          rx_post = pos (before_of (before_of None pre) (''<p'' @ show_base 10 (Suc i) @ ''/>'')) post (Map.empty(1 \<mapsto> ''/'')),
          rx_groups = Map.empty(1 \<mapsto> ''/'')\<rparr>"
    unfolding exec_search by (subst search_begins [OF begins_tier assms first_tier_self_closing]) simp_all
  then show ?thesis by (simp add: extractTier_def group_text_def)
qed

lemma no_tier:
  assumes "CHR ''<'' \<notin> set s"
  shows "extractTier s i = None"
proof -
  have "no_start (''<p'' @ show_base 10 (Suc i)) s []" using assms by (intro no_start_char) simp_all
  from search_begins_none [OF begins_tier this] show ?thesis by (simp add: extractTier_def exec_search)
qed

lemma tier_found:
  assumes "no_start (''<p'' @ show_base 10 (Suc i)) pre (tier_in w D (Suc i) s @ post)" "i < 9" "tier_ok s"
    and "list_all is_ws w" "D \<subseteq> specials" "markup \<subseteq> D"
  shows "extractTier (pre @ tier_in w D (Suc i) s @ post) i = Some s"
proof -
  let ?N = "show_base 10 (Suc i)" and ?e = "w @ escape_with D s @ w"
  have d: "is_digit (digit_char (Suc i))" "?N = [digit_char (Suc i)]" using assms(2) by (simp_all add: is_digit_char show_digit)
  have "CHR ''<'' \<in> D" using assms(6) by (auto simp: markup_def)
  then have "CHR ''<'' \<notin> set (escape_with D s)" by (rule escape_special) simp
  moreover have "CHR ''<'' \<notin> set w" using assms(4) by (auto simp: list_all_iff is_ws_def)
  ultimately have open_free: "CHR ''<'' \<notin> set ?e" by simp
  have form: "tier_in w D (Suc i) s @ post = ''<p'' @ ?N @ ''>'' @ ?e @ ''</p'' @ ?N @ ''>'' @ post" by (simp add: tier_in_def)
  have "exec (makeTierOpenRegex (Suc i)) (pre @ tier_in w D (Suc i) s @ post)
      = Some \<lparr>rx_pre = pre, rx_text = ''<p'' @ ?N @ ''>'', rx_post = pos (before_of (before_of None pre) (''<p'' @ ?N @ ''>''))
          (?e @ ''</p'' @ ?N @ ''>'' @ post) (Map.empty(1 \<mapsto> [])), rx_groups = Map.empty(1 \<mapsto> [])\<rparr>"
    unfolding exec_search form by (subst search_begins [OF begins_tier assms(1) [unfolded form] first_tier_open]) simp_all
  moreover have "cut_at TIER_CLOSE_ANY_REGEX (?e @ ''</p'' @ ?N @ ''>'' @ post) = ?e"
  proof (rule cut_before)
    show "begins ''</p'' TIER_CLOSE_ANY_REGEX" by (simp add: TIER_CLOSE_ANY_REGEX_def begins_lit)
    show "no_start ''</p'' ?e (''</p'' @ ?N @ ''>'' @ post)" by (rule no_start_char) (use open_free in simp_all)
    have f: "first_end TIER_CLOSE_ANY_REGEX (pos b (''</p'' @ ?N @ ''>'' @ post) Map.empty)
        = Some (pos (Some (digit_char (Suc i))) (''>'' @ post) Map.empty)" for b
      using first_Seq_lit [of "''</p''" digit b "?N @ ''>'' @ post" Map.empty] d
      by (simp add: TIER_CLOSE_ANY_REGEX_def digit_def first_end_def)
    show "first_end TIER_CLOSE_ANY_REGEX (pos (before_of None ?e) (''</p'' @ ?N @ ''>'' @ post) Map.empty) \<noteq> None" by (simp only: f) simp
    show "\<exists>v. ''</p'' @ ?N @ ''>'' @ post = v @ ps_rest st"
      if "first_end TIER_CLOSE_ANY_REGEX (pos (before_of None ?e) (''</p'' @ ?N @ ''>'' @ post) Map.empty) = Some st" for st
      using that unfolding f by (intro exI [where x = "''</p'' @ ?N"]) auto
  qed
  moreover have "cut_at TIER_OPEN_ANY_REGEX ?e = ?e"
    by (rule cut_nothing [of "''<p''"]) (use open_free in \<open>simp_all add: TIER_OPEN_ANY_REGEX_def begins_lit no_start_char\<close>)
  moreover have "js_trim ?e = escape_with D s"
    using trim_surround [OF assms(4,4)] trim_escape [of s D] assms(3) by (simp add: tier_ok_def)
  moreover have "unescapeXml (escape_with D s) = s"
    using assms(3,6) by (intro unescape_escape [OF assms(5)]) (auto simp: tier_ok_def markup_def)
  ultimately show ?thesis by (simp add: extractTier_def group_text_def)
qed

lemma printed_tiers:
  assumes "printable c"
  shows "extractTier (body_text c) 0 = pc_p1 c" "extractTier (body_text c) 1 = pc_p2 c" "extractTier (body_text c) 2 = pc_p3 c"
    "extractTier (body_text c) 3 = pc_p4 c"
proof -
  obtain p2 p3 p4 where p: "pc_p1 c = Some (pc_content c)" "pc_p2 c = Some p2" "pc_p3 c = Some p3" "pc_p4 c = Some p4"
    and ok: "tier_ok (pc_content c)" "tier_ok p2" "tier_ok p3" "tier_ok p4"
    using assms by (auto simp: printable_def)
  have b: "body_text c = tier_in [] specials 1 (pc_content c) @ tier_in [] specials 2 p2 @ tier_in [] specials 3 p3 @ tier_in [] specials 4 p4"
    by (simp add: body_text_def p tier_text_def)
  have N: "no_start (CHR ''<'' # w) (escape_xml s) y" for w s y by (rule no_start_char) simp_all
  have side: "list_all is_ws []" "specials \<subseteq> specials" "markup \<subseteq> specials" by simp_all
  note found = tier_found [where w = "[]" and D = specials, OF _ _ _ side]
  note s = tier_in_def show_digit digit_char_def N
  have "extractTier ([] @ tier_in [] specials (Suc 0) (pc_content c) @ tier_in [] specials 2 p2 @ tier_in [] specials 3 p3 @ tier_in [] specials 4 p4) 0
      = Some (pc_content c)"
    by (rule found) (simp_all add: ok)
  then show "extractTier (body_text c) 0 = pc_p1 c" by (simp add: b p)
  have "extractTier (tier_in [] specials 1 (pc_content c) @ tier_in [] specials (Suc 1) p2 @ tier_in [] specials 3 p3 @ tier_in [] specials 4 p4) 1 = Some p2"
    by (rule found) (simp_all add: ok s)
  then show "extractTier (body_text c) 1 = pc_p2 c" by (simp add: b p numeral_2_eq_2)
  have "extractTier ((tier_in [] specials 1 (pc_content c) @ tier_in [] specials 2 p2) @ tier_in [] specials (Suc 2) p3 @ tier_in [] specials 4 p4) 2 = Some p3"
    by (rule found) (simp_all add: ok s)
  then show "extractTier (body_text c) 2 = pc_p3 c" by (simp add: b p eval_nat_numeral)
  have "extractTier ((tier_in [] specials 1 (pc_content c) @ tier_in [] specials 2 p2 @ tier_in [] specials 3 p3) @ tier_in [] specials (Suc 3) p4 @ []) 3 = Some p4"
    by (rule found) (simp_all add: ok s)
  then show "extractTier (body_text c) 3 = pc_p4 c" by (simp add: b p eval_nat_numeral)
qed

lemma printed_compartment:
  assumes "printable c"
  shows "parse_compartment (attrs_text c) (body_text c) = Some c"
proof -
  obtain d ds where "pc_content c = d # ds" "pc_p1 c = Some (d # ds)"
    using assms by (cases "pc_content c") (auto simp: printable_def)
  moreover obtain p2 p3 p4 where "pc_p2 c = Some p2" "pc_p3 c = Some p3" "pc_p4 c = Some p4"
    using assms by (auto simp: printable_def)
  moreover have "pc_title c \<noteq> []" using assms by (simp add: printable_def)
  moreover obtain n where "0 \<le> n" "pc_importance c = Some n" using assms by (auto simp: printable_def)
  ultimately show ?thesis
    using printed_attributes [of "pc_startMessage c" "pc_endMessage c" "pc_title c" "pc_episodeType c" n] printed_tiers [OF assms] assms
    by (auto simp: parse_compartment_def or_else_def Let_def attrs_text_def printable_def)
qed

section \<open>Compartments in the output\<close>

lemma run_then_char:
  assumes "x \<noteq> []" "\<not> p (last x)" "k \<le> length (takeWhile p (x @ y))" "d \<notin> set x"
  shows "\<not> starts_with [d] (drop k (x @ y))"
proof -
  have "k < length x"
  proof (rule ccontr)
    assume "\<not> k < length x"
    then have "length x \<le> length (takeWhile p (x @ y))" using assms(3) by simp
    then have l: "length x - 1 < length (takeWhile p (x @ y))" using assms(1) by (cases x) auto
    then have "takeWhile p (x @ y) ! (length x - 1) = last x"
      using assms(1) by (simp add: takeWhile_nth nth_append last_conv_nth)
    then show False using assms(2) l set_takeWhileD nth_mem [OF l] by metis
  qed
  then have "drop k (x @ y) = x ! k # drop (Suc k) x @ y" by (simp add: Cons_nth_drop_Suc)
  then show ?thesis using assms(4) nth_mem [OF \<open>k < length x\<close>] by auto
qed

lemma spaces_then_fail:
  assumes "\<And>k. k \<le> length (takeWhile is_ws s) \<Longrightarrow> \<not> starts_with w (drop k s)"
  shows "matches_at (Seq (many space) (Seq (lit w) r)) (pos b s g) = []"
proof -
  have "matches_at (Seq (lit w) r) (pos b' (drop k s) g) = []" if "k \<le> length (takeWhile is_ws s)" for k b'
    using assms [OF that] by (simp add: matches_lit_none)
  then have "\<forall>st\<in>set (matches_at (many space) (pos b s g)). matches_at (Seq (lit w) r) st = []"
    unfolding space_def matches_run run_def by (auto simp: less_Suc_eq_le simp del: upt_Suc matches_at.simps)
  then show ?thesis unfolding matches_at.simps(3) [of "many space"] by simp
qed

text \<open>What the pattern of a compartment needs of the attributes and the body.\<close>

definition attrs_ok :: "string \<Rightarrow> bool" where
  "attrs_ok A \<longleftrightarrow> CHR ''>'' \<notin> set A \<and> A \<noteq> [] \<and> last A = quote \<and> \<not> is_ws (hd A)"

definition body_ok :: "string \<Rightarrow> bool" where
  "body_ok B \<longleftrightarrow> (\<forall>y. no_start ''</compartment>'' B y)"

lemma attrs_of_facts:
  assumes "0 \<le> s" "0 \<le> e" "0 \<le> n"
  shows "attrs_ok (attrs_of s e title episode n)" "CHR ''<'' \<notin> set (attrs_of s e title episode n)"
proof -
  have d: "c \<notin> set (show_int k)" if "0 \<le> k" "\<not> is_digit c" for c k using show_int_all(1) [OF that(1)] that(2) by (rule digits_no)
  show "CHR ''<'' \<notin> set (attrs_of s e title episode n)"
    using assms d [of _ "CHR ''<''"] by (auto simp: attrs_of_def attribute_def quote_def is_digit_def split: option.splits)
  show "attrs_ok (attrs_of s e title episode n)"
    using assms d [of _ "CHR ''>''"] by (auto simp: attrs_ok_def attrs_of_def attribute_def quote_def is_ws_def split: option.splits)
qed

lemma first_compartment:
  assumes "attrs_ok A" "body_ok B"
  shows "first_end COMPARTMENT_REGEX (pos b (wrapped A B @ post) Map.empty)
    = Some (pos (before_of b (wrapped A B)) post (Map.empty(1 \<mapsto> A, 2 \<mapsto> B)))"
proof -
  have a: "CHR ''>'' \<notin> set A" "A \<noteq> []" "last A = quote" "\<not> is_ws (hd A)" using assms(1) by (simp_all add: attrs_ok_def)
  let ?close = "''</compartment>''"
  let ?inner = "Seq (Grp 2 (many_lazy any_char)) (lit ?close)"
  let ?tail = "Seq (many space) (Seq (lit ''>'') ?inner)"
  let ?g = "Map.empty(1 \<mapsto> A)"
  have inner: "first_end ?inner (pos b' (B @ ?close @ post) ?g) = Some (pos (before_of b' (B @ ?close)) post (?g(2 \<mapsto> B)))" for b'
    unfolding any_char_def
  proof (rule first_lazy)
    show "matches_at (lit ?close) (pos (before_of b' (take m B)) (drop m B @ ?close @ post) (?g(2 \<mapsto> take m B))) = []"
      if "m < length B" for m
      using assms(2) that unfolding body_ok_def no_start_def by (intro matches_lit_none) blast
    show "first_end (lit ?close) (pos (before_of b' B) (?close @ post) (?g(2 \<mapsto> B))) = Some (pos (before_of b' (B @ ?close)) post (?g(2 \<mapsto> B)))"
      using first_lit [of ?close "before_of b' B" post] by simp
  qed simp
  have tail: "first_end ?tail (pos b' (''>'' @ B @ ?close @ post) ?g) = Some (pos (before_of b' (''>'' @ B @ ?close)) post (?g(2 \<mapsto> B)))" for b'
  proof (rule first_Seq_head)
    show "first_end (many space) (pos b' (''>'' @ B @ ?close @ post) ?g) = Some (pos b' (''>'' @ B @ ?close @ post) ?g)"
      using first_greedy [of "[]" is_ws "''>'' @ B @ ?close @ post" b' ?g] by (simp add: space_def is_ws_def)
    show "first_end (Seq (lit ''>'') ?inner) (pos b' (''>'' @ B @ ?close @ post) ?g) = Some (pos (before_of b' (''>'' @ B @ ?close)) post (?g(2 \<mapsto> B)))"
      unfolding first_Seq_lit inner by simp
  qed
  have lazy: "first_end (Seq (Grp 1 (many_lazy (none_of ''>''))) ?tail) (pos b' (A @ ''>'' @ B @ ?close @ post) Map.empty)
      = Some (pos (before_of (before_of b' A) (''>'' @ B @ ?close)) post (?g(2 \<mapsto> B)))" for b'
    unfolding none_of_def
  proof (rule first_lazy [OF _ _ tail])
    show "matches_at ?tail (pos (before_of b' (take m A)) (drop m A @ ''>'' @ B @ ?close @ post) (Map.empty(1 \<mapsto> take m A))) = []"
      if m: "m < length A" for m
    proof -
      let ?x = "drop m A"
      have x: "?x \<noteq> []" "\<not> is_ws (last ?x)" "CHR ''>'' \<notin> set ?x"
        using m a(1,3) quote_not_word(3) by (auto dest: in_set_dropD)
      have "\<not> starts_with ''>'' (drop k (?x @ ''>'' @ B @ ?close @ post))"
        if "k \<le> length (takeWhile is_ws (?x @ ''>'' @ B @ ?close @ post))" for k
        by (rule run_then_char [OF x(1,2) that x(3)])
      then show ?thesis by (rule spaces_then_fail)
    qed
  qed (use a(1) in auto)
  have sp: "first_end (some1 space) (pos b' ('' '' @ A @ ''>'' @ B @ ?close @ post) Map.empty)
      = Some (pos (before_of b' '' '') (A @ ''>'' @ B @ ?close @ post) Map.empty)" for b'
    unfolding space_def by (rule first_greedy1) (use a(2,4) in \<open>simp_all add: is_ws_def\<close>)
  have "first_end COMPARTMENT_REGEX (pos b (''<compartment'' @ '' '' @ A @ ''>'' @ B @ ?close @ post) Map.empty)
      = first_end (Seq (some1 space) (Seq (Grp 1 (many_lazy (none_of ''>''))) ?tail))
          (pos (before_of b ''<compartment'') ('' '' @ A @ ''>'' @ B @ ?close @ post) Map.empty)"
    unfolding COMPARTMENT_REGEX_def seq.simps by (rule first_Seq_lit)
  also have "\<dots> = Some (pos (before_of (before_of (before_of (before_of b ''<compartment'') '' '') A) (''>'' @ B @ ?close)) post (?g(2 \<mapsto> B)))"
    by (rule first_Seq_head [OF sp lazy])
  finally show ?thesis by (simp add: wrapped_def)
qed

lemma begins_compartment: "begins ''<compartment'' COMPARTMENT_REGEX"
  by (simp add: COMPARTMENT_REGEX_def begins_lit)

text \<open>Compartments one after the other, each with the text that separates it from the next.\<close>

definition blocks_text :: "(string \<times> string \<times> string) list \<Rightarrow> string" where
  "blocks_text bs = concat (map (\<lambda>(A, B, w). wrapped A B @ w) bs)"

definition blocks_ok :: "(string \<times> string \<times> string) list \<Rightarrow> bool" where
  "blocks_ok bs \<longleftrightarrow> (\<forall>(A, B, w)\<in>set bs. attrs_ok A \<and> body_ok B \<and> CHR ''<'' \<notin> set w)"

lemma match_blocks:
  assumes "blocks_ok bs" "no_start ''<compartment'' post []"
  shows "no_start ''<compartment'' pre (blocks_text bs @ post) \<Longrightarrow>
    map (\<lambda>m. (group_text 1 m, group_text 2 m)) (match_all COMPARTMENT_REGEX b (pre @ blocks_text bs @ post))
    = map (\<lambda>(A, B, w). (A, B)) bs"
  using assms(1)
proof (induction bs arbitrary: b pre)
  case Nil
  then have "no_start ''<compartment'' (pre @ post) []" using assms(2) by (simp add: blocks_text_def)
  from search_begins_none [OF begins_compartment this, of b] show ?case
    by (subst match_all.simps) (simp add: blocks_text_def)
next
  case (Cons x bs)
  obtain A B w where x: "x = (A, B, w)" by (cases x)
  let ?rest = "w @ blocks_text bs @ post" and ?c = "wrapped A B"
  have ok: "attrs_ok A" "body_ok B" "CHR ''<'' \<notin> set w" "blocks_ok bs" using Cons.prems(2) by (auto simp: blocks_ok_def x)
  have e: "blocks_text (x # bs) @ post = ?c @ ?rest" by (simp add: blocks_text_def x)
  note f = first_compartment [OF ok(1,2), of "before_of b pre" ?rest]
  have s: "search COMPARTMENT_REGEX b (pre @ ?c @ ?rest)
      = Some \<lparr>rx_pre = pre, rx_text = ?c, rx_post = pos (before_of (before_of b pre) ?c) ?rest
          (Map.empty(1 \<mapsto> A, 2 \<mapsto> B)), rx_groups = Map.empty(1 \<mapsto> A, 2 \<mapsto> B)\<rparr>"
    by (subst search_begins [OF begins_compartment Cons.prems(1) [unfolded e] f]) simp_all
  have "?c \<noteq> []" by (simp add: wrapped_def)
  then have m: "match_all COMPARTMENT_REGEX b (pre @ ?c @ ?rest)
      = \<lparr>rx_pre = pre, rx_text = ?c, rx_post = pos (before_of (before_of b pre) ?c) ?rest
          (Map.empty(1 \<mapsto> A, 2 \<mapsto> B)), rx_groups = Map.empty(1 \<mapsto> A, 2 \<mapsto> B)\<rparr>
        # match_all COMPARTMENT_REGEX (before_of (before_of b pre) ?c) ?rest"
    unfolding match_all.simps [of COMPARTMENT_REGEX b "pre @ ?c @ ?rest"] s by simp
  have "no_start ''<compartment'' w (blocks_text bs @ post)" using ok(3) by (intro no_start_char) simp_all
  from Cons.IH [OF this ok(4), of "before_of (before_of b pre) ?c"] show ?case
    unfolding e m by (simp add: group_text_def x)
qed

lemma parse_blocks:
  assumes "blocks_ok bs" "no_start ''<compartment'' pre (blocks_text bs @ post)" "no_start ''<compartment'' post []"
  shows "compartments_of (pre @ blocks_text bs @ post) = List.map_filter (\<lambda>(A, B, w). parse_compartment A B) bs"
proof -
  have s: "List.map_filter (\<lambda>m. parse_compartment (group_text 1 m) (group_text 2 m)) ms
      = List.map_filter (\<lambda>(a, b). parse_compartment a b) (map (\<lambda>m. (group_text 1 m, group_text 2 m)) ms)" for ms
    by (simp add: List.map_filter_def filter_map o_def)
  have "List.map_filter (\<lambda>(a, b). parse_compartment a b) (map (\<lambda>(A, B, w). (A, B)) bs) = List.map_filter (\<lambda>(A, B, w). parse_compartment A B) bs"
    by (induction bs) (auto simp: List.map_filter_simps split: option.splits)
  then show ?thesis
    unfolding compartments_of_def s matchAll_def match_blocks [OF assms(1,3,2)] .
qed

section \<open>The asked format\<close>

definition compartments_text :: "parsed_compartment list \<Rightarrow> string" where
  "compartments_text cs = concat (map (\<lambda>c. compartment_text c @ [CHR 0x0A]) cs)"

lemma printed_blocks: "compartments_text cs = blocks_text (map (\<lambda>c. (attrs_text c, body_text c, [CHR 0x0A])) cs)"
  by (simp add: compartments_text_def blocks_text_def compartment_text_def o_def)

lemma body_text_ok: "body_ok (body_text c)"
proof -
  have N: "no_start (CHR ''<'' # w) (escape_xml s) y" for w s y by (rule no_start_char) simp_all
  show ?thesis by (simp add: body_ok_def body_text_def tier_text_def tier_in_def N show_digit digit_char_def)
qed

lemma printable_attrs: "printable c \<Longrightarrow> attrs_ok (attrs_text c) \<and> CHR ''<'' \<notin> set (attrs_text c)"
  unfolding attrs_text_def by (intro conjI attrs_of_facts) (auto simp: printable_def)

lemma parse_printed:
  assumes "\<forall>c\<in>set cs. printable c" "cs \<noteq> []" "\<not> str_includes ''<compartment'' pre" "\<not> str_includes ''<compartment'' post"
  shows "compartments_of (pre @ compartments_text cs @ post) = cs"
proof -
  let ?bs = "map (\<lambda>c. (attrs_text c, body_text c, [CHR 0x0A])) cs"
  have "blocks_ok ?bs" using assms(1) body_text_ok printable_attrs by (auto simp: blocks_ok_def)
  moreover have "List.map_filter (\<lambda>(A, B, w). parse_compartment A B) ?bs = cs"
    using assms(1) by (induction cs) (simp_all add: List.map_filter_simps printed_compartment)
  moreover obtain y where "blocks_text ?bs @ post = CHR ''<'' # y"
    using assms(2) by (cases cs) (auto simp: blocks_text_def wrapped_def)
  then have "no_start ''<compartment'' pre (blocks_text ?bs @ post)" using no_start_open [OF includes_start [OF assms(3)]] by simp
  ultimately show ?thesis using parse_blocks [of ?bs pre post] includes_start [OF assms(4)] by (simp add: printed_blocks)
qed

section \<open>Properties\<close>

definition example_compartment :: "int \<Rightarrow> int \<Rightarrow> parsed_compartment" where
  "example_compartment s e = \<lparr>pc_startMessage = s, pc_endMessage = e, pc_title = ''A & B = <C>'', pc_content = ''one'', pc_p1 = Some ''one'',
     pc_p2 = Some ''two'', pc_p3 = Some [], pc_p4 = Some [], pc_importance = Some 60, pc_episodeType = Some ''bug''\<rparr>"

lemma example_printable: "0 \<le> s \<Longrightarrow> 0 \<le> e \<Longrightarrow> printable (example_compartment s e)"
  by (simp add: printable_def example_compartment_def attribute_ok_def tier_ok_def readable_def starts_with_def trim_fixed is_ws_def)

text \<open>
  C38: Whatever the text is, what is parsed from it is well typed: the compartments are in order, their numbers are not
  negative, no title or content is empty and the four tiers come together with the content as the first; facts
  have one of the five categories; events have distinct non-empty fields; no item is empty.
\<close>

theorem parsed_output_is_well_typed:
  "sorted (map pc_startMessage (po_compartments (parseCompartmentOutput text)))
   \<and> (\<forall>c\<in>set (po_compartments (parseCompartmentOutput text)). compartment_ok c)
   \<and> (\<forall>f\<in>set (po_facts (parseCompartmentOutput text)). pf_category f \<in> set FACT_CATEGORIES \<and> pf_content f \<noteq> [])
   \<and> (\<forall>e\<in>set (po_events (parseCompartmentOutput text)). event_ok e)
   \<and> (\<forall>s\<in>set (po_userObservations (parseCompartmentOutput text)). s \<noteq> [])
   \<and> (\<forall>q\<in>set (po_primerCandidates (parseCompartmentOutput text)). pq_question q \<noteq> [])
   \<and> (\<forall>n. po_unprocessedFrom (parseCompartmentOutput text) = Some n \<longrightarrow> 0 \<le> n)"
proof (intro conjI)
  show "\<forall>n. po_unprocessedFrom (parseCompartmentOutput text) = Some n \<longrightarrow> 0 \<le> n"
    using number_group_nonneg [OF _ attribute_captures(4)] by (simp add: parseCompartmentOutput_def)
  show "\<forall>q\<in>set (po_primerCandidates (parseCompartmentOutput text)). pq_question q \<noteq> []"
    by (auto simp: parseCompartmentOutput_def primers_of_def items_of_def List.map_filter_def Let_def split: option.splits if_splits)
  show "\<forall>s\<in>set (po_userObservations (parseCompartmentOutput text)). s \<noteq> []"
    by (auto simp: parseCompartmentOutput_def user_observations_of_def items_of_def split: option.splits)
qed (simp_all add: parseCompartmentOutput_def compartments_ok facts_ok events_ok)

theorem parsed_output_is_well_typed_witness: "compartment_ok (example_compartment 1 4)"
proof -
  have "\<forall>c\<in>set (po_compartments (parseCompartmentOutput ([] @ compartments_text [example_compartment 1 4] @ []))). compartment_ok c"
    using parsed_output_is_well_typed by blast
  moreover have "compartments_of ([] @ compartments_text [example_compartment 1 4] @ []) = [example_compartment 1 4]"
    by (rule parse_printed) (simp_all add: example_printable)
  ultimately show ?thesis by (simp add: parseCompartmentOutput_def)
qed

text \<open>
  The escapes are undone one after the other, so text that mentions an escape loses it: an escaped ampersand followed
  by the letters of another escape becomes that other character.
\<close>

lemma escapes_are_undone_twice: "unescapeXml ''&amp;lt;'' = ''<''"
proof -
  have 1: "replaceAll (lit ''&amp;'') (\<lambda>_. ''&'') ''&amp;lt;'' = ''&lt;''"
    using replace_lit_step [of "''&amp;''" "[]" "''lt;''" "''&''" None] replace_lit_none [of "''&amp;''" "''lt;''"] by (simp add: replaceAll_def)
  have keep: "replaceAll (lit w) f ''&lt;'' = ''&lt;''" if "no_start w ''&lt;'' []" "w \<noteq> []" for w f
    unfolding replaceAll_def by (rule replace_lit_none [OF that])
  have 2: "replaceAll (lit ''&lt;'') (\<lambda>_. ''<'') ''&lt;'' = ''<''"
    using replace_lit_step [of "''&lt;''" "[]" "[]" "''<''" None] replace_lit_none [of "''&lt;''" "[]"] by (simp add: replaceAll_def)
  have 3: "replaceAll (lit ''&gt;'') (\<lambda>_. ''>'') ''<'' = ''<''" unfolding replaceAll_def by (rule replace_lit_none) simp_all
  show ?thesis unfolding unescapeXml_def 1 by (simp add: keep 2 3)
qed

end
