(* ===== verification/Chunk_Text.thy ===== *)
theory Chunk_Text
  imports Regex
begin

text \<open>
  The text the historian reads of a message (\<open>hooks/magic-context/read-session-formatting.ts\<close>,
  \<open>shared/commit-detection.ts\<close>): the text parts, the one-line summaries of tool calls, the commit hashes and the
  line of a block. Role letters and hashes are ASCII. The ellipsis, a character outside the code units of the
  model, is an argument.
\<close>

record chunk_runtime = runtime +
  cr_ellipsis :: string

section \<open>Parts\<close>

definition is_object :: "json \<Rightarrow> bool" where
  "is_object v = (case v of JObj _ \<Rightarrow> True | JArr _ \<Rightarrow> True | _ \<Rightarrow> False)"

definition text_of_part :: "json \<Rightarrow> string option" where
  "text_of_part p =
     (case (get_field p ''type'', get_field p ''text'') of
        (Some (JStr t), Some (JStr text)) \<Rightarrow> if t = ''text'' \<and> js_trim text \<noteq> [] then Some (js_trim text) else None
      | _ \<Rightarrow> None)"

definition extractTexts :: "json list \<Rightarrow> string list" where
  "extractTexts parts = List.map_filter text_of_part parts"

definition truncateArg :: "'a chunk_runtime_scheme \<Rightarrow> string \<Rightarrow> string" where
  "truncateArg rt s = (if length s \<le> 60 then s else take 60 s @ cr_ellipsis rt)"

fun first_string :: "json \<Rightarrow> string list \<Rightarrow> string option" where
  "first_string v [] = None"
| "first_string v (k # ks) = (case get_field v k of Some (JStr s) \<Rightarrow> Some s | _ \<Rightarrow> first_string v ks)"

definition extractKeyArg :: "'a chunk_runtime_scheme \<Rightarrow> json option \<Rightarrow> string option" where
  "extractKeyArg rt input =
     (case input of
        None \<Rightarrow> None
      | Some v \<Rightarrow>
          (case first_string v [''filePath'', ''path'', ''pattern'', ''query''] of
             Some s \<Rightarrow> Some (truncateArg rt s)
           | None \<Rightarrow> first_string v [''symbol'', ''module'', ''action'']))"

definition description_of :: "json option \<Rightarrow> string" where
  "description_of v = (case v of None \<Rightarrow> [] | Some o' \<Rightarrow> string_field o' ''description'')"

definition summary_of_part :: "'a chunk_runtime_scheme \<Rightarrow> json \<Rightarrow> string option" where
  "summary_of_part rt p =
     (case (get_field p ''type'', get_field p ''tool'', get_field p ''state'') of
        (Some (JStr ty), Some (JStr tool), Some state) \<Rightarrow>
          if ty \<noteq> ''tool'' \<or> \<not> is_object state then None
          else
            let input = get_field state ''input''; d = description_of input;
                description = (if d \<noteq> [] then d else description_of (get_field state ''metadata''))
            in Some (if description \<noteq> [] then ''TC: '' @ description
                     else (case extractKeyArg rt input of
                         Some k \<Rightarrow> if k \<noteq> [] then ''TC: '' @ tool @ ''('' @ k @ '')'' else ''TC: '' @ tool
                       | None \<Rightarrow> ''TC: '' @ tool))
      | _ \<Rightarrow> None)"

definition extractToolCallSummaries :: "'a chunk_runtime_scheme \<Rightarrow> json list \<Rightarrow> string list" where
  "extractToolCallSummaries rt parts = List.map_filter (summary_of_part rt) parts"

fun collapse_spaces :: "bool \<Rightarrow> string \<Rightarrow> string" where
  "collapse_spaces in_run [] = []"
| "collapse_spaces in_run (c # cs) =
     (if is_ws c then (if in_run then collapse_spaces True cs else CHR '' '' # collapse_spaces True cs)
      else c # collapse_spaces False cs)"

definition normalizeText :: "string \<Rightarrow> string" where
  "normalizeText text = js_trim (collapse_spaces False text)"

definition to_upper_char :: "char \<Rightarrow> char" where
  "to_upper_char c =
     (if 97 \<le> (of_char c :: nat) \<and> of_char c \<le> (122 :: nat) then char_of (of_char c - 32 :: nat) else c)"

definition compactRole :: "string \<Rightarrow> string" where
  "compactRole role =
     (if role = ''assistant'' then ''A'' else if role = ''user'' then ''U''
      else (case role of [] \<Rightarrow> ''M'' | c # _ \<Rightarrow> [to_upper_char c]))"

section \<open>Commits\<close>

definition hex_digit :: regex where
  "hex_digit = Cls (\<lambda>c. is_digit c \<or> to_lower_char c \<in> set ''abcdef'')"

definition HASH_HEX :: regex where
  "HASH_HEX = between 7 12 hex_digit"

definition COMMIT_HASH_TEST_PATTERN :: regex where
  "COMMIT_HASH_TEST_PATTERN = seq [WordEdge, HASH_HEX, WordEdge]"

definition COMMIT_VERB_PATTERN :: regex where
  "COMMIT_VERB_PATTERN =
     seq [WordEdge,
       alts [seq [lit ''commit'', opt (alts [lit ''ted'', lit ''ting'', lit ''s''])],
             seq [lit ''cherry'', opt (lit ''-''), lit ''pick'', opt (alts [lit ''ed'', lit ''ing'', lit ''s''])],
             seq [lit ''merge'', opt (one_of ''ds'')],
             lit ''merging'',
             seq [lit ''rebas'', alts [lit ''e'', lit ''ed'', lit ''es'', lit ''ing'']]],
       WordEdge]"

definition textMentionsRecentCommit :: "string \<Rightarrow> bool" where
  "textMentionsRecentCommit text =
     (test COMMIT_HASH_TEST_PATTERN text \<and> test COMMIT_VERB_PATTERN (to_lower text))"

definition createCommitHashExtractPattern :: regex where
  "createCommitHashExtractPattern = seq [opt (lit [CHR 0x60]), WordEdge, Grp 1 HASH_HEX, WordEdge, opt (lit [CHR 0x60])]"

definition MAX_COMMITS_PER_BLOCK :: nat where [config_simps]: "MAX_COMMITS_PER_BLOCK = 5"

text \<open>The loop over the matches with the list of hashes found so far; \<open>seen\<close> holds the same hashes.\<close>

fun collect_hashes :: "string list \<Rightarrow> rmatch list \<Rightarrow> string list" where
  "collect_hashes hashes [] = hashes"
| "collect_hashes hashes (m # ms) =
     (let hash = to_lower (group_text 1 m)
      in if hash = [] \<or> hash \<in> set hashes then collect_hashes hashes ms
         else (let hashes' = hashes @ [hash]
           in if MAX_COMMITS_PER_BLOCK \<le> length hashes' then hashes' else collect_hashes hashes' ms))"

definition extractCommitHashes :: "string \<Rightarrow> string list" where
  "extractCommitHashes text = collect_hashes [] (matchAll createCommitHashExtractPattern text)"

definition compactTextForSummary :: "string \<Rightarrow> string \<Rightarrow> string \<times> string list" where
  "compactTextForSummary text role =
     (let commitHashes = (if role = ''assistant'' then extractCommitHashes text else [])
      in if commitHashes = [] \<or> \<not> test COMMIT_VERB_PATTERN (to_lower text) then (text, commitHashes)
         else
           let t1 = replaceAll createCommitHashExtractPattern (\<lambda>_. []) text;
               t2 = replaceAll (seq [lit ''('', many space, lit '')'']) (\<lambda>_. []) t1;
               t3 = replaceAll (seq [some1 space, lit '','']) (\<lambda>_. '','') t2;
               t4 = replaceAll (seq [lit '','', many space, some1 (lit '','')]) (\<lambda>_. '', '') t3;
               t5 = replaceAll (at_least 2 space) (\<lambda>_. '' '') t4;
               t6 = replaceAll (seq [some1 space, Grp 1 (one_of '',.;:'')]) (group_text 1) t5;
               withoutHashes = js_trim t6
           in (if withoutHashes \<noteq> [] then withoutHashes else text, commitHashes))"

text \<open>The cap is looked at after each new hash.\<close>

fun merge_hashes :: "string list \<Rightarrow> string list \<Rightarrow> string list" where
  "merge_hashes merged [] = merged"
| "merge_hashes merged (hash # hashes) =
     (if hash \<in> set merged then merge_hashes merged hashes
      else (let merged' = merged @ [hash]
        in if MAX_COMMITS_PER_BLOCK \<le> length merged' then merged' else merge_hashes merged' hashes))"

definition mergeCommitHashes :: "string list \<Rightarrow> string list \<Rightarrow> string list" where
  "mergeCommitHashes existing next' = (if next' = [] then existing else merge_hashes existing next')"

section \<open>Blocks\<close>

record chunk_meta =
  cm_ordinal :: int
  cm_messageId :: string

record chunk_block =
  cb_role :: string
  cb_startOrdinal :: int
  cb_endOrdinal :: int
  cb_parts :: "string list"
  cb_meta :: "chunk_meta list"
  cb_commitHashes :: "string list"
  cb_isToolOnly :: bool

definition formatBlock :: "chunk_block \<Rightarrow> string" where
  "formatBlock block =
     (let range = (if cb_startOrdinal block = cb_endOrdinal block then ''['' @ show_int (cb_startOrdinal block) @ '']''
                   else ''['' @ show_int (cb_startOrdinal block) @ ''-'' @ show_int (cb_endOrdinal block) @ '']'');
          commitSuffix = (if cb_commitHashes block \<noteq> [] then '' commits: '' @ join '', '' (cb_commitHashes block) else [])
      in range @ '' '' @ cb_role block @ '':'' @ commitSuffix @ '' '' @ join '' / '' (cb_parts block))"

section \<open>Hashes\<close>

lemma distinct_collect: "distinct hs \<Longrightarrow> distinct (collect_hashes hs ms)"
  by (induction hs ms rule: collect_hashes.induct) (auto simp: Let_def)

lemma length_collect: "length hs < MAX_COMMITS_PER_BLOCK \<Longrightarrow> length (collect_hashes hs ms) \<le> MAX_COMMITS_PER_BLOCK"
  by (induction hs ms rule: collect_hashes.induct) (auto simp: Let_def)

lemma extracted_hashes: "distinct (extractCommitHashes text) \<and> length (extractCommitHashes text) \<le> MAX_COMMITS_PER_BLOCK"
  unfolding extractCommitHashes_def by (intro conjI distinct_collect length_collect) (simp_all add: MAX_COMMITS_PER_BLOCK_def)

lemma merge_keeps: "\<exists>new. merge_hashes hs ms = hs @ new \<and> set new \<subseteq> set ms \<and> (distinct hs \<longrightarrow> distinct (hs @ new))"
proof (induction hs ms rule: merge_hashes.induct)
  case (2 merged hash hashes)
  show ?case
  proof (cases "hash \<in> set merged")
    case True
    with 2(1) show ?thesis by auto
  next
    case False
    show ?thesis
    proof (cases "MAX_COMMITS_PER_BLOCK \<le> length (merged @ [hash])")
      case False
      from 2(2) [OF \<open>hash \<notin> set merged\<close> refl this] obtain new where
        "merge_hashes (merged @ [hash]) hashes = (merged @ [hash]) @ new" "set new \<subseteq> set hashes"
        "distinct (merged @ [hash]) \<longrightarrow> distinct ((merged @ [hash]) @ new)" by blast
      then show ?thesis using False \<open>hash \<notin> set merged\<close>
        by (intro exI [where x = "hash # new"]) (auto simp: Let_def)
    qed (use False in \<open>auto simp: Let_def\<close>)
  qed
qed simp

text \<open>
  The cap does not bind a block that has reached it: a hash that is new to a full block is still added, so every
  further message can add one.
\<close>

lemma merge_exceeds_cap:
  assumes "MAX_COMMITS_PER_BLOCK \<le> length existing" "hash \<notin> set existing"
  shows "mergeCommitHashes existing (hash # hashes) = existing @ [hash]"
  using assms by (simp add: mergeCommitHashes_def Let_def)

end
