(* ===== verification/Session_Chunk.thy ===== *)
theory Session_Chunk
  imports Historian_Validation Chunk_Text
begin

text \<open>
  The chunk of a session the historian is given (\<open>hooks/magic-context/read-session-chunk.ts\<close>,
  \<open>readSessionChunk\<close>): messages are merged into blocks of one role, noise is carried along, and blocks are taken
  while they fit the token budget. The memo of block token counts holds values of a pure function and is left
  out; the messages and the absolute count come from the caches the caller has primed.
\<close>

section \<open>The state of the loop\<close>

definition cleanUserText :: "string \<Rightarrow> string" where
  "cleanUserText text = js_trim (remove_first OMO_INTERNAL_INITIATOR_MARKER (removeSystemReminders text))"

record chunk_state =
  ck_lines :: "string list"
  ck_lineMeta :: "chunk_meta list"
  ck_toolOnly :: "(int \<times> int) list"
  ck_totalTokens :: int
  ck_processed :: nat
  ck_lastOrdinal :: int
  ck_highest :: int
  ck_lastMessageId :: string
  ck_firstMessageId :: string
  ck_block :: "chunk_block option"
  ck_noise :: "chunk_meta list"
  ck_clusters :: nat
  ck_lastRole :: string

definition initial_chunk :: "int \<Rightarrow> chunk_state" where
  "initial_chunk startOrdinal =
     \<lparr>ck_lines = [], ck_lineMeta = [], ck_toolOnly = [], ck_totalTokens = 0, ck_processed = 0, ck_lastOrdinal = startOrdinal - 1,
      ck_highest = startOrdinal - 1, ck_lastMessageId = [], ck_firstMessageId = [], ck_block = None, ck_noise = [],
      ck_clusters = 0, ck_lastRole = []\<rparr>"

definition recordFilteredNoise :: "chunk_meta \<Rightarrow> chunk_state \<Rightarrow> chunk_state" where
  "recordFilteredNoise meta st =
     st\<lparr>ck_noise := ck_noise st @ [meta],
        ck_highest := (if ck_block st = None then max (ck_highest st) (cm_ordinal meta) else ck_highest st)\<rparr>"

definition last_meta_ordinal :: "chunk_block \<Rightarrow> int" where
  "last_meta_ordinal b = (if cb_meta b = [] then cb_endOrdinal b else cm_ordinal (last (cb_meta b)))"

definition take_block :: "string \<Rightarrow> int \<Rightarrow> chunk_block \<Rightarrow> chunk_state \<Rightarrow> chunk_state" where
  "take_block blockText blockTokens b st =
     st\<lparr>ck_clusters := (if cb_role b = ''A'' \<and> cb_commitHashes b \<noteq> [] \<and> ck_lastRole st \<noteq> ''A'' then ck_clusters st + 1 else ck_clusters st),
        ck_lastRole := cb_role b,
        ck_firstMessageId := (if ck_firstMessageId st = [] then (case cb_meta b of [] \<Rightarrow> [] | m # _ \<Rightarrow> cm_messageId m) else ck_firstMessageId st),
        ck_lastOrdinal := last_meta_ordinal b,
        ck_highest := max (ck_highest st) (last_meta_ordinal b),
        ck_lastMessageId := (if cb_meta b = [] then [] else cm_messageId (last (cb_meta b))),
        ck_processed := ck_processed st + length (cb_meta b),
        ck_lines := ck_lines st @ [blockText],
        ck_lineMeta := ck_lineMeta st @ cb_meta b,
        ck_totalTokens := ck_totalTokens st + blockTokens,
        ck_toolOnly := (if cb_isToolOnly b then ck_toolOnly st @ [(cb_startOrdinal b, cb_endOrdinal b)] else ck_toolOnly st),
        ck_block := None\<rparr>"

text \<open>Whether the block fitted, and the state after it.\<close>

definition flushCurrentBlock :: "'a chunk_runtime_scheme \<Rightarrow> int \<Rightarrow> chunk_state \<Rightarrow> bool \<times> chunk_state" where
  "flushCurrentBlock rt tokenBudget st =
     (case ck_block st of
        None \<Rightarrow> (True, st)
      | Some b \<Rightarrow>
          (let blockText = formatBlock b; blockTokens = estimateTokens rt blockText
           in if tokenBudget < ck_totalTokens st + blockTokens \<and> 0 < ck_totalTokens st then (False, st)
              else (True, take_block blockText blockTokens b st)))"

section \<open>One message\<close>

definition noise_start :: "chunk_state \<Rightarrow> raw_message \<Rightarrow> int" where
  "noise_start st msg = (case ck_noise st of [] \<Rightarrow> rm_ordinal msg | m # _ \<Rightarrow> cm_ordinal m)"

definition meta_of :: "raw_message \<Rightarrow> chunk_meta" where
  "meta_of msg = \<lparr>cm_ordinal = rm_ordinal msg, cm_messageId = rm_id msg\<rparr>"

definition open_block :: "'a chunk_runtime_scheme \<Rightarrow> int \<Rightarrow> raw_message \<Rightarrow> string \<Rightarrow> string \<Rightarrow> string list \<Rightarrow> bool \<Rightarrow> chunk_state \<Rightarrow> bool \<times> chunk_state" where
  "open_block rt tokenBudget msg role text hashes toolOnly st =
     (let (fits, st') = flushCurrentBlock rt tokenBudget st
      in if \<not> fits then (False, st')
         else (True, st'\<lparr>ck_block := Some \<lparr>cb_role = role, cb_startOrdinal = noise_start st' msg, cb_endOrdinal = rm_ordinal msg,
                cb_parts = [text], cb_meta = ck_noise st' @ [meta_of msg], cb_commitHashes = hashes, cb_isToolOnly = toolOnly\<rparr>,
              ck_noise := []\<rparr>))"

definition extend_block :: "raw_message \<Rightarrow> string \<Rightarrow> string list \<Rightarrow> bool \<Rightarrow> chunk_block \<Rightarrow> chunk_state \<Rightarrow> chunk_state" where
  "extend_block msg text hashes toolOnly b st =
     st\<lparr>ck_block := Some (b\<lparr>cb_endOrdinal := rm_ordinal msg, cb_parts := cb_parts b @ [text],
          cb_meta := cb_meta b @ ck_noise st @ [meta_of msg], cb_commitHashes := hashes, cb_isToolOnly := toolOnly\<rparr>),
        ck_noise := []\<rparr>"

definition text_parts :: "raw_message \<Rightarrow> string list" where
  "text_parts msg =
     filter (\<lambda>s. s \<noteq> []) (map normalizeText (map (\<lambda>t. if rm_role msg = ''user'' then cleanUserText t else t) (extractTexts (rm_parts msg))))"

text \<open>A user message without text of its own: its tool summaries join an open assistant block.\<close>

definition tool_result_message :: "'a chunk_runtime_scheme \<Rightarrow> int \<Rightarrow> raw_message \<Rightarrow> chunk_state \<Rightarrow> bool \<times> chunk_state" where
  "tool_result_message rt tokenBudget msg st =
     (let tcSummaries = extractToolCallSummaries rt (rm_parts msg); tcText = join '' / '' tcSummaries
      in if tcSummaries = [] then (True, recordFilteredNoise (meta_of msg) st)
         else
           (case ck_block st of
              Some b \<Rightarrow>
                if cb_role b = ''A'' then (True, extend_block msg tcText (cb_commitHashes b) (cb_isToolOnly b) b st)
                else open_block rt tokenBudget msg ''A'' tcText [] True st
            | None \<Rightarrow> open_block rt tokenBudget msg ''A'' tcText [] True st))"

definition narrative_message :: "'a chunk_runtime_scheme \<Rightarrow> int \<Rightarrow> raw_message \<Rightarrow> chunk_state \<Rightarrow> bool \<times> chunk_state" where
  "narrative_message rt tokenBudget msg st =
     (let role = compactRole (rm_role msg); textParts = text_parts msg;
          toolSummaries = (if textParts = [] then extractToolCallSummaries rt (rm_parts msg) else []);
          (text, hashes) = compactTextForSummary (join '' / '' (textParts @ toolSummaries)) (rm_role msg);
          msgHasNarrative = (textParts \<noteq> [])
      in if text = [] then (True, recordFilteredNoise (meta_of msg) st)
         else
           (case ck_block st of
              Some b \<Rightarrow>
                if cb_role b = role then
                  (True, extend_block msg text (mergeCommitHashes (cb_commitHashes b) hashes)
                     (if msgHasNarrative then False else cb_isToolOnly b) b st)
                else open_block rt tokenBudget msg role text hashes (\<not> msgHasNarrative) st
            | None \<Rightarrow> open_block rt tokenBudget msg role text hashes (\<not> msgHasNarrative) st))"

definition chunk_step :: "'a chunk_runtime_scheme \<Rightarrow> int \<Rightarrow> raw_message \<Rightarrow> chunk_state \<Rightarrow> bool \<times> chunk_state" where
  "chunk_step rt tokenBudget msg st =
     (if rm_role msg = ''user'' \<and> \<not> hasMeaningfulUserText (rm_parts msg) then tool_result_message rt tokenBudget msg st
      else narrative_message rt tokenBudget msg st)"

section \<open>The chunk\<close>

text \<open>The loop over the messages; \<open>break\<close> ends it.\<close>

fun chunk_loop :: "'a chunk_runtime_scheme \<Rightarrow> int \<Rightarrow> int \<Rightarrow> int option \<Rightarrow> raw_message list \<Rightarrow> chunk_state \<Rightarrow> chunk_state" where
  "chunk_loop rt tokenBudget startOrdinal eligibleEnd [] st = st"
| "chunk_loop rt tokenBudget startOrdinal eligibleEnd (msg # msgs) st =
     (if (case eligibleEnd of None \<Rightarrow> False | Some e \<Rightarrow> e \<le> rm_ordinal msg) then st
      else if rm_ordinal msg < startOrdinal then chunk_loop rt tokenBudget startOrdinal eligibleEnd msgs st
      else (let (continue, st') = chunk_step rt tokenBudget msg st
        in if continue then chunk_loop rt tokenBudget startOrdinal eligibleEnd msgs st' else st'))"

definition finish_chunk :: "'a chunk_runtime_scheme \<Rightarrow> int \<Rightarrow> chunk_state \<Rightarrow> chunk_state" where
  "finish_chunk rt tokenBudget st =
     (let (fits, st') = flushCurrentBlock rt tokenBudget st
      in if fits \<and> ck_noise st' \<noteq> [] then st'\<lparr>ck_highest := max (ck_highest st') (cm_ordinal (last (ck_noise st')))\<rparr> else st')"

text \<open>Adjacent tool-only blocks are merged into maximal ranges.\<close>

fun merge_ranges :: "(int \<times> int) list \<Rightarrow> (int \<times> int) list \<Rightarrow> (int \<times> int) list" where
  "merge_ranges done' [] = done'"
| "merge_ranges done' ((s, e) # rs) =
     (if done' \<noteq> [] \<and> s = snd (last done') + 1 then merge_ranges (butlast done' @ [(fst (last done'), e)]) rs
      else merge_ranges (done' @ [(s, e)]) rs)"

record session_chunk = historian_chunk +
  sc_startMessageId :: string
  sc_endMessageId :: string
  sc_messageCount :: nat
  sc_tokenEstimate :: int
  sc_hasMore :: bool
  sc_text :: string
  sc_commitClusterCount :: nat

definition completed_arcs :: "'a chunk_runtime_scheme \<Rightarrow> raw_message list \<Rightarrow> (int \<times> int) list" where
  "completed_arcs rt messages =
     concat (map (\<lambda>arc. case ta_res arc of None \<Rightarrow> [] | Some res \<Rightarrow> [(ta_inv arc, res)])
       (buildToolArcs (runtime.truncate rt) messages))"

definition final_state :: "'a chunk_runtime_scheme \<Rightarrow> raw_message list \<Rightarrow> int \<Rightarrow> int \<Rightarrow> int option \<Rightarrow> chunk_state" where
  "final_state rt messages tokenBudget offset eligibleEndOrdinal =
     finish_chunk rt tokenBudget
       (chunk_loop rt tokenBudget (max 1 offset) eligibleEndOrdinal messages (initial_chunk (max 1 offset)))"

definition readSessionChunk :: "'a chunk_runtime_scheme \<Rightarrow> raw_message list \<Rightarrow> int option \<Rightarrow> int \<Rightarrow> int \<Rightarrow> int option \<Rightarrow> session_chunk" where
  "readSessionChunk rt messages cachedAbsoluteCount tokenBudget offset eligibleEndOrdinal =
     (let total = (case cachedAbsoluteCount of None \<Rightarrow> int (length messages) | Some n \<Rightarrow> n);
          st = final_state rt messages tokenBudget offset eligibleEndOrdinal
      in \<lparr>hc_startIndex = max 1 offset, hc_endIndex = ck_lastOrdinal st,
          hc_lines = map (\<lambda>m. \<lparr>ln_ordinal = cm_ordinal m, ln_messageId = cm_messageId m\<rparr>) (ck_lineMeta st),
          hc_toolOnlyRanges = merge_ranges [] (ck_toolOnly st),
          hc_completedToolArcs = completed_arcs rt messages,
          sc_startMessageId = ck_firstMessageId st, sc_endMessageId = ck_lastMessageId st,
          sc_messageCount = ck_processed st, sc_tokenEstimate = ck_totalTokens st,
          sc_hasMore = (max (ck_lastOrdinal st) (ck_highest st)
            < (case eligibleEndOrdinal of None \<Rightarrow> total | Some e \<Rightarrow> min (e - 1) total)),
          sc_text = join [CHR 0x0A] (ck_lines st), sc_commitClusterCount = ck_clusters st\<rparr>)"

section \<open>What a message is to the chunk\<close>

definition is_tool_result :: "raw_message \<Rightarrow> bool" where
  "is_tool_result msg = (rm_role msg = ''user'' \<and> \<not> hasMeaningfulUserText (rm_parts msg))"

text \<open>A message with text of its own, and one that has nothing for the historian.\<close>

definition narrative :: "raw_message \<Rightarrow> bool" where
  "narrative msg = (\<not> is_tool_result msg \<and> text_parts msg \<noteq> [])"

definition chunk_noise :: "'a chunk_runtime_scheme \<Rightarrow> raw_message \<Rightarrow> bool" where
  "chunk_noise rt msg = (\<not> narrative msg \<and> extractToolCallSummaries rt (rm_parts msg) = [])"

lemma join_Nil: "join sep xs = [] \<Longrightarrow> [] \<notin> set xs \<Longrightarrow> xs = []"
  by (induction sep xs rule: join.induct) auto

lemma extract_Nil: "extractCommitHashes [] = []"
  by (simp add: extractCommitHashes_def matchAll_def match_all.simps [of _ _ "[]"] search.simps [of _ _ "[]"]
    createCommitHashExtractPattern_def start_position_def word_edge_def)

lemma compact_Nil: "fst (compactTextForSummary text role) = [] \<longleftrightarrow> text = []"
  by (auto simp: compactTextForSummary_def Let_def extract_Nil)

lemma map_filter_nonempty:
  assumes "\<And>x y. f x = Some y \<Longrightarrow> y \<noteq> []"
  shows "[] \<notin> set (List.map_filter f xs)"
  using assms by (fastforce simp: List.map_filter_def)

lemma summaries_nonempty: "[] \<notin> set (extractToolCallSummaries rt parts)"
  unfolding extractToolCallSummaries_def
  by (rule map_filter_nonempty) (auto simp: summary_of_part_def Let_def split: option.splits json.splits if_splits)

lemma text_parts_nonempty: "[] \<notin> set (text_parts msg)"
  by (auto simp: text_parts_def)

lemma narrative_text:
  assumes "\<not> is_tool_result msg"
  shows "fst (compactTextForSummary (join '' / '' (text_parts msg @ (if text_parts msg = [] then extractToolCallSummaries rt (rm_parts msg) else [])))
      (rm_role msg)) = [] \<longleftrightarrow> chunk_noise rt msg"
proof -
  let ?xs = "text_parts msg @ (if text_parts msg = [] then extractToolCallSummaries rt (rm_parts msg) else [])"
  have ne: "[] \<notin> set ?xs" using text_parts_nonempty [of msg] summaries_nonempty [of rt "rm_parts msg"] by simp
  have "join '' / '' ?xs = [] \<longleftrightarrow> ?xs = []"
  proof
    assume "join '' / '' ?xs = []"
    then show "?xs = []" by (rule join_Nil [OF _ ne])
  next
    assume "?xs = []"
    then show "join '' / '' ?xs = []" by (simp only: join.simps)
  qed
  also have "?xs = [] \<longleftrightarrow> chunk_noise rt msg" using assms by (auto simp: chunk_noise_def narrative_def)
  finally show ?thesis by (simp only: compact_Nil)
qed

section \<open>The invariant of the loop\<close>

fun consecutive :: "int \<Rightarrow> raw_message list \<Rightarrow> bool" where
  "consecutive n [] = True"
| "consecutive n (m # ms) = (rm_ordinal m = n \<and> consecutive (n + 1) ms)"

lemma consecutive_append: "consecutive n (xs @ ys) = (consecutive n xs \<and> consecutive (n + int (length xs)) ys)"
  by (induction xs arbitrary: n) (simp_all add: algebra_simps)

lemma consecutive_range: "consecutive n ms \<Longrightarrow> m \<in> set ms \<Longrightarrow> n \<le> rm_ordinal m \<and> rm_ordinal m < n + int (length ms)"
  by (induction ms arbitrary: n) fastforce+

lemma consecutive_last: "consecutive n ms \<Longrightarrow> ms \<noteq> [] \<Longrightarrow> rm_ordinal (last ms) = n + int (length ms) - 1"
  by (induction ms arbitrary: n) (auto split: if_splits)

lemma consecutive_ordinals: "consecutive n ms \<Longrightarrow> map rm_ordinal ms = [n..n + int (length ms) - 1]"
proof (induction ms arbitrary: n)
  case (Cons m ms)
  have "n + 1 + int (length ms) - 1 = n + int (length ms)" by simp
  with Cons.IH [of "n + 1"] Cons.prems have "map rm_ordinal ms = [n + 1..n + int (length ms)]" by simp
  with Cons.prems show ?case by (simp add: upto_rec1)
qed simp

lemma meta_of_simps [simp]: "cm_ordinal (meta_of m) = rm_ordinal m" "cm_messageId (meta_of m) = rm_id m"
  by (simp_all add: meta_of_def)

text \<open>
  The messages seen so far are those in the lines, those in the open block, and noise waiting for a block.
\<close>

definition ranges_ok :: "int \<Rightarrow> raw_message list \<Rightarrow> (int \<times> int) list \<Rightarrow> bool" where
  "ranges_ok start dl rs \<longleftrightarrow> (\<forall>(s, e)\<in>set rs. start \<le> s \<and> s \<le> e \<and> e < start + int (length dl)
     \<and> (\<forall>m\<in>set dl. s \<le> rm_ordinal m \<longrightarrow> rm_ordinal m \<le> e \<longrightarrow> \<not> narrative m))"

definition tokens_ok :: "'a chunk_runtime_scheme \<Rightarrow> int \<Rightarrow> chunk_state \<Rightarrow> bool" where
  "tokens_ok rt budget st \<longleftrightarrow> 0 \<le> ck_totalTokens st
     \<and> (ck_totalTokens st = 0 \<or> ck_totalTokens st \<le> budget \<or> (\<exists>l\<in>set (ck_lines st). ck_totalTokens st = estimateTokens rt l))"

definition lines_ok :: "'a chunk_runtime_scheme \<Rightarrow> int \<Rightarrow> int \<Rightarrow> raw_message list \<Rightarrow> raw_message list \<Rightarrow> chunk_state \<Rightarrow> bool" where
  "lines_ok rt budget start dl dn st \<longleftrightarrow> ck_lineMeta st = map meta_of dl \<and> ck_processed st = length dl
     \<and> ck_lastOrdinal st = start - 1 + int (length dl) \<and> (dl \<noteq> [] \<longrightarrow> ck_highest st = ck_lastOrdinal st)
     \<and> ck_noise st = map meta_of dn \<and> (\<forall>m\<in>set dn. chunk_noise rt m)
     \<and> (dl = [] \<longrightarrow> ck_totalTokens st = 0) \<and> ranges_ok start dl (ck_toolOnly st) \<and> tokens_ok rt budget st"

definition block_ok :: "int \<Rightarrow> raw_message list \<Rightarrow> raw_message list \<Rightarrow> chunk_block \<Rightarrow> bool" where
  "block_ok start dl db b \<longleftrightarrow> db \<noteq> [] \<and> cb_meta b = map meta_of db \<and> cb_startOrdinal b = start + int (length dl)
     \<and> cb_endOrdinal b = start + int (length dl) + int (length db) - 1
     \<and> (cb_isToolOnly b \<longrightarrow> (\<forall>m\<in>set db. \<not> narrative m))"

definition chunk_inv :: "'a chunk_runtime_scheme \<Rightarrow> int \<Rightarrow> int \<Rightarrow> raw_message list \<Rightarrow> raw_message list \<Rightarrow> raw_message list \<Rightarrow> chunk_state \<Rightarrow> bool" where
  "chunk_inv rt budget start dl db dn st \<longleftrightarrow> consecutive start (dl @ db @ dn) \<and> lines_ok rt budget start dl dn st
     \<and> (case ck_block st of
          None \<Rightarrow> db = [] \<and> dl = [] \<and> ck_highest st = start - 1 + int (length dn)
        | Some b \<Rightarrow> block_ok start dl db b \<and> ck_highest st < start + int (length dl + length db))"

lemma inv_initial: "chunk_inv rt budget start [] [] [] (initial_chunk start)"
  by (simp add: chunk_inv_def lines_ok_def initial_chunk_def ranges_ok_def tokens_ok_def)

lemma inv_noise:
  assumes "chunk_inv rt budget start dl db dn st" "rm_ordinal msg = start + int (length (dl @ db @ dn))" "chunk_noise rt msg"
  shows "chunk_inv rt budget start dl db (dn @ [msg]) (recordFilteredNoise (meta_of msg) st)"
  using assms
  by (auto simp: chunk_inv_def lines_ok_def recordFilteredNoise_def consecutive_append tokens_ok_def algebra_simps split: option.splits)

lemma inv_extend:
  assumes "chunk_inv rt budget start dl db dn st" "rm_ordinal msg = start + int (length (dl @ db @ dn))" "ck_block st = Some b"
    and "toolOnly \<longrightarrow> cb_isToolOnly b \<and> \<not> narrative msg"
  shows "chunk_inv rt budget start dl (db @ dn @ [msg]) [] (extend_block msg text hashes toolOnly b st)"
  using assms
  by (auto simp: chunk_inv_def lines_ok_def extend_block_def block_ok_def consecutive_append tokens_ok_def chunk_noise_def algebra_simps)

text \<open>Taking the open block moves its messages into the lines.\<close>

lemma take_block_ok:
  assumes est: "\<And>s. 0 \<le> estimateTokens rt s"
    and inv: "chunk_inv rt budget start dl db dn st" and b: "ck_block st = Some b"
    and fits: "ck_totalTokens st + estimateTokens rt (formatBlock b) \<le> budget \<or> ck_totalTokens st \<le> 0"
  shows "lines_ok rt budget start (dl @ db) dn (take_block (formatBlock b) (estimateTokens rt (formatBlock b)) b st)"
proof -
  have c: "consecutive start (dl @ db)" using inv by (simp add: chunk_inv_def consecutive_append)
  have blk: "block_ok start dl db b" and lo: "lines_ok rt budget start dl dn st" and hi: "ck_highest st < start + int (length dl + length db)"
    using inv b by (auto simp: chunk_inv_def)
  have last: "last_meta_ordinal b = start - 1 + int (length (dl @ db))"
  proof -
    have "db \<noteq> []" "cb_meta b = map meta_of db" using blk by (auto simp: block_ok_def)
    then show ?thesis
      using consecutive_last [of "start + int (length dl)" db] c by (simp add: last_meta_ordinal_def last_map consecutive_append)
  qed
  have new: "start + int (length dl) \<le> rm_ordinal m" if "m \<in> set db" for m
    using c consecutive_range [of "start + int (length dl)" db m] that by (simp add: consecutive_append)
  have old: "rm_ordinal m < start + int (length dl)" if "m \<in> set dl" for m
    using c consecutive_range [of start dl m] that by (simp add: consecutive_append)
  have "ranges_ok start (dl @ db) (ck_toolOnly st)"
    using lo new unfolding lines_ok_def ranges_ok_def by fastforce
  moreover have "ranges_ok start (dl @ db) [(cb_startOrdinal b, cb_endOrdinal b)]" if "cb_isToolOnly b"
    using that blk old by (fastforce simp: ranges_ok_def block_ok_def)
  ultimately have r: "ranges_ok start (dl @ db) (if cb_isToolOnly b then ck_toolOnly st @ [(cb_startOrdinal b, cb_endOrdinal b)] else ck_toolOnly st)"
    by (auto simp: ranges_ok_def)
  have t: "tokens_ok rt budget (take_block (formatBlock b) (estimateTokens rt (formatBlock b)) b st)"
    using lo fits est [of "formatBlock b"] by (auto simp: lines_ok_def tokens_ok_def take_block_def)
  have "db \<noteq> []" "cb_meta b = map meta_of db" using blk by (auto simp: block_ok_def)
  then show ?thesis
    using lo r t last hi by (auto simp: lines_ok_def take_block_def max_def)
qed

lemma flush_cases:
  assumes est: "\<And>s. 0 \<le> estimateTokens rt s" and inv: "chunk_inv rt budget start dl db dn st"
  obtains (stuck) "flushCurrentBlock rt budget st = (False, st)" "dl \<noteq> []"
  | (taken) st' where "flushCurrentBlock rt budget st = (True, st')" "lines_ok rt budget start (dl @ db) dn st'" "ck_block st' = None"
      "ck_block st = None \<longrightarrow> st' = st"
proof (cases "ck_block st")
  case None
  with inv have "lines_ok rt budget start (dl @ db) dn st" by (auto simp: chunk_inv_def)
  with None show ?thesis by (intro taken [of st]) (simp_all add: flushCurrentBlock_def)
next
  case (Some b)
  show ?thesis
  proof (cases "budget < ck_totalTokens st + estimateTokens rt (formatBlock b) \<and> 0 < ck_totalTokens st")
    case True
    moreover have "dl \<noteq> []" using inv True by (auto simp: chunk_inv_def lines_ok_def)
    ultimately show ?thesis using Some by (intro stuck) (simp_all add: flushCurrentBlock_def Let_def)
  next
    case False
    then have "lines_ok rt budget start (dl @ db) dn (take_block (formatBlock b) (estimateTokens rt (formatBlock b)) b st)"
      by (intro take_block_ok [OF est inv Some]) auto
    then show ?thesis using False Some
      by (intro taken) (auto simp: flushCurrentBlock_def Let_def take_block_def)
  qed
qed

text \<open>One message: it is taken in, or the open block does not fit and nothing changes.\<close>

definition step_result :: "'a chunk_runtime_scheme \<Rightarrow> int \<Rightarrow> int \<Rightarrow> raw_message list \<Rightarrow> raw_message list \<Rightarrow> raw_message list \<Rightarrow> raw_message
  \<Rightarrow> chunk_state \<Rightarrow> bool \<times> chunk_state \<Rightarrow> bool" where
  "step_result rt budget start dl db dn msg st r \<longleftrightarrow>
     (if fst r then \<exists>dl' db' dn'. dl' @ db' @ dn' = dl @ db @ dn @ [msg] \<and> chunk_inv rt budget start dl' db' dn' (snd r)
      else snd r = st \<and> dl \<noteq> [] \<and> \<not> fst (flushCurrentBlock rt budget st))"

lemma open_result:
  assumes est: "\<And>s. 0 \<le> estimateTokens rt s"
    and inv: "chunk_inv rt budget start dl db dn st" and ord: "rm_ordinal msg = start + int (length (dl @ db @ dn))"
    and tool: "toolOnly \<longrightarrow> \<not> narrative msg"
  shows "step_result rt budget start dl db dn msg st (open_block rt budget msg role text hashes toolOnly st)"
  using est inv
proof (cases rule: flush_cases)
  case stuck
  then show ?thesis by (simp add: step_result_def open_block_def)
next
  case (taken st')
  have c: "consecutive start (dl @ db @ dn)" using inv by (simp add: chunk_inv_def)
  define new where "new = snd (open_block rt budget msg role text hashes toolOnly st)"
  have e: "open_block rt budget msg role text hashes toolOnly st = (True, new)" using taken(1) by (simp add: new_def open_block_def)
  let ?b = "\<lparr>cb_role = role, cb_startOrdinal = noise_start st' msg, cb_endOrdinal = rm_ordinal msg, cb_parts = [text],
    cb_meta = ck_noise st' @ [meta_of msg], cb_commitHashes = hashes, cb_isToolOnly = toolOnly\<rparr>"
  have new: "new = st'\<lparr>ck_block := Some ?b, ck_noise := []\<rparr>" using taken(1) by (simp add: new_def open_block_def)
  have first: "noise_start st' msg = start + int (length (dl @ db))"
    using taken(2) c ord by (cases dn) (auto simp: lines_ok_def noise_start_def consecutive_append)
  have "lines_ok rt budget start (dl @ db) [] new"
    using taken(2) by (auto simp: new lines_ok_def tokens_ok_def)
  moreover have "block_ok start (dl @ db) (dn @ [msg]) ?b"
    using taken(2) tool first ord by (auto simp: lines_ok_def block_ok_def chunk_noise_def)
  moreover have "ck_highest new < start + int (length (dl @ db) + length (dn @ [msg]))"
  proof (cases "dl @ db = []")
    case True
    have "ck_block st = None" using inv True by (auto simp: chunk_inv_def block_ok_def split: option.splits)
    then show ?thesis using True inv taken(4) by (auto simp: chunk_inv_def new)
  next
    case False
    then show ?thesis using taken(2) by (auto simp: lines_ok_def new)
  qed
  ultimately have "chunk_inv rt budget start (dl @ db) (dn @ [msg]) [] new"
    using c ord by (simp add: chunk_inv_def consecutive_append new)
  moreover have "(dl @ db) @ (dn @ [msg]) @ [] = dl @ db @ dn @ [msg]" by simp
  ultimately show ?thesis unfolding e step_result_def by (simp only: fst_conv snd_conv if_True) blast
qed

lemma step_ok:
  assumes est: "\<And>s. 0 \<le> estimateTokens rt s"
    and inv: "chunk_inv rt budget start dl db dn st" and ord: "rm_ordinal msg = start + int (length (dl @ db @ dn))"
  shows "step_result rt budget start dl db dn msg st (chunk_step rt budget msg st)"
proof -
  have noise: "step_result rt budget start dl db dn msg st (True, recordFilteredNoise (meta_of msg) st)" if "chunk_noise rt msg"
    using inv_noise [OF inv ord that] by (force simp: step_result_def)
  have extend: "step_result rt budget start dl db dn msg st (True, extend_block msg body hashes toolOnly b st)"
    if "ck_block st = Some b" "toolOnly \<longrightarrow> cb_isToolOnly b \<and> \<not> narrative msg" for body hashes toolOnly b
    using inv_extend [OF inv ord that, of body hashes] by (force simp: step_result_def)
  note opened = open_result [OF est inv ord]
  show ?thesis
  proof (cases "is_tool_result msg")
    case True
    then have "\<not> narrative msg" by (simp add: narrative_def)
    moreover have "chunk_step rt budget msg st = tool_result_message rt budget msg st"
      using True by (simp add: chunk_step_def is_tool_result_def)
    ultimately show ?thesis using noise extend opened
      by (auto simp: tool_result_message_def Let_def chunk_noise_def split: option.split)
  next
    case False
    let ?r = "compactTextForSummary (join '' / '' (text_parts msg @ (if text_parts msg = [] then extractToolCallSummaries rt (rm_parts msg) else [])))
      (rm_role msg)"
    obtain body hashes where r: "?r = (body, hashes)" by (cases ?r)
    have t: "body = [] \<longleftrightarrow> chunk_noise rt msg" using narrative_text [OF False, of rt] r by simp
    have n: "narrative msg \<longleftrightarrow> text_parts msg \<noteq> []" using False by (simp add: narrative_def)
    let ?role = "compactRole (rm_role msg)"
    have "chunk_step rt budget msg st = narrative_message rt budget msg st"
      using False by (auto simp: chunk_step_def is_tool_result_def)
    also have "narrative_message rt budget msg st =
       (if body = [] then (True, recordFilteredNoise (meta_of msg) st)
        else (case ck_block st of
              Some b \<Rightarrow>
                if cb_role b = ?role then
                  (True, extend_block msg body (mergeCommitHashes (cb_commitHashes b) hashes)
                     (if text_parts msg \<noteq> [] then False else cb_isToolOnly b) b st)
                else open_block rt budget msg ?role body hashes (\<not> text_parts msg \<noteq> []) st
            | None \<Rightarrow> open_block rt budget msg ?role body hashes (\<not> text_parts msg \<noteq> []) st))"
      unfolding narrative_message_def Let_def r by (simp only: prod.case)
    finally have e: "chunk_step rt budget msg st = \<dots>" .
    have op: "step_result rt budget start dl db dn msg st (open_block rt budget msg ?role body hashes (\<not> text_parts msg \<noteq> []) st)"
      by (rule opened) (simp add: n)
    show ?thesis
    proof (cases "body = []")
      case True
      then show ?thesis using noise t unfolding e by simp
    next
      case nonempty: False
      show ?thesis
      proof (cases "ck_block st")
        case None
        then show ?thesis using op nonempty unfolding e by simp
      next
        case (Some b)
        show ?thesis
        proof (cases "cb_role b = ?role")
          case True
          have "step_result rt budget start dl db dn msg st (True, extend_block msg body (mergeCommitHashes (cb_commitHashes b) hashes)
             (if text_parts msg \<noteq> [] then False else cb_isToolOnly b) b st)"
            by (rule extend [OF Some]) (use n in auto)
          then show ?thesis using True Some nonempty unfolding e by simp
        qed (use Some nonempty op in \<open>simp add: e\<close>)
      qed
    qed
  qed
qed

section \<open>The loop\<close>

definition eligible :: "int option \<Rightarrow> raw_message \<Rightarrow> bool" where
  "eligible eligibleEnd m = (case eligibleEnd of None \<Rightarrow> True | Some e \<Rightarrow> rm_ordinal m < e)"

text \<open>The messages the chunk may take: from the offset on, below the end.\<close>

definition eligible_messages :: "int \<Rightarrow> int option \<Rightarrow> raw_message list \<Rightarrow> raw_message list" where
  "eligible_messages startOrdinal eligibleEnd messages =
     takeWhile (eligible eligibleEnd) (dropWhile (\<lambda>m. rm_ordinal m < startOrdinal) messages)"

lemma loop_ok:
  assumes est: "\<And>s. 0 \<le> estimateTokens rt s"
  shows "chunk_inv rt budget start dl db dn st \<Longrightarrow> consecutive (start + int (length (dl @ db @ dn))) msgs \<Longrightarrow>
    \<exists>dl' db' dn' rest. dl @ db @ dn @ takeWhile (eligible e) msgs = dl' @ db' @ dn' @ rest
      \<and> chunk_inv rt budget start dl' db' dn' (chunk_loop rt budget start e msgs st)
      \<and> (rest \<noteq> [] \<longrightarrow> dl' \<noteq> [] \<and> \<not> fst (flushCurrentBlock rt budget (chunk_loop rt budget start e msgs st)))"
proof (induction msgs arbitrary: dl db dn st)
  case Nil
  then show ?case by (intro exI [where x = dl] exI [where x = db] exI [where x = dn] exI [where x = "[]"]) simp
next
  case (Cons m ms)
  let ?n = "start + int (length (dl @ db @ dn))"
  have ord: "rm_ordinal m = ?n" and c: "consecutive (?n + 1) ms" using Cons.prems(2) by simp_all
  show ?case
  proof (cases "eligible e m")
    case False
    then have "chunk_loop rt budget start e (m # ms) st = st" by (simp add: eligible_def split: option.splits)
    with False Cons.prems(1) show ?thesis
      by (intro exI [where x = dl] exI [where x = db] exI [where x = dn] exI [where x = "[]"]) simp
  next
    case True
    obtain continue st' where s: "chunk_step rt budget m st = (continue, st')" by (metis surj_pair)
    have loop: "chunk_loop rt budget start e (m # ms) st = (if continue then chunk_loop rt budget start e ms st' else st')"
      using True ord by (auto simp: eligible_def s split: option.splits)
    have r: "step_result rt budget start dl db dn m st (continue, st')"
      using step_ok [OF est Cons.prems(1) ord] by (simp only: s)
    show ?thesis
    proof (cases continue)
      case True
      with r obtain dl' db' dn' where d: "dl' @ db' @ dn' = dl @ db @ dn @ [m]" "chunk_inv rt budget start dl' db' dn' st'"
        by (auto simp: step_result_def)
      have len: "length (dl' @ db' @ dn') = length (dl @ db @ dn) + 1" by (simp only: d(1)) simp
      have "consecutive (start + int (length (dl' @ db' @ dn'))) ms"
        using c unfolding len by (simp add: algebra_simps)
      from Cons.IH [OF d(2) this] obtain dl2 db2 dn2 rest where
        x: "dl' @ db' @ dn' @ takeWhile (eligible e) ms = dl2 @ db2 @ dn2 @ rest"
          "chunk_inv rt budget start dl2 db2 dn2 (chunk_loop rt budget start e ms st')"
          "rest \<noteq> [] \<longrightarrow> dl2 \<noteq> [] \<and> \<not> fst (flushCurrentBlock rt budget (chunk_loop rt budget start e ms st'))" by blast
      have "dl @ db @ dn @ takeWhile (eligible e) (m # ms) = (dl' @ db' @ dn') @ takeWhile (eligible e) ms"
        unfolding d(1) using \<open>eligible e m\<close> by simp
      with x True show ?thesis unfolding loop by auto
    next
      case False
      with r have "st' = st" "dl \<noteq> []" "\<not> fst (flushCurrentBlock rt budget st)" by (auto simp: step_result_def)
      with False Cons.prems(1) show ?thesis unfolding loop
        by (intro exI [where x = dl] exI [where x = db] exI [where x = dn] exI [where x = "takeWhile (eligible e) (m # ms)"]) simp
    qed
  qed
qed

lemma loop_stops:
  assumes "consecutive n ms" "eli \<le> n"
  shows "chunk_loop rt budget start (Some eli) (dropWhile p ms) st = st"
proof (cases "dropWhile p ms")
  case (Cons x xs)
  then have "x \<in> set ms" using set_dropWhileD [of x p ms] by simp
  with assms consecutive_range have "eli \<le> rm_ordinal x" by fastforce
  then show ?thesis by (simp add: Cons)
qed (simp only: chunk_loop.simps)

lemma loop_skip:
  "consecutive b msgs \<Longrightarrow>
   chunk_loop rt budget start e msgs st = chunk_loop rt budget start e (dropWhile (\<lambda>m. rm_ordinal m < start) msgs) st"
proof (induction msgs arbitrary: b)
  case (Cons m ms)
  have c: "consecutive (b + 1) ms" "rm_ordinal m = b" using Cons.prems by simp_all
  show ?case
  proof (cases "rm_ordinal m < start \<and> eligible e m")
    case True
    then show ?thesis using Cons.IH [OF c(1)] by (auto simp: eligible_def split: option.splits)
  next
    case False
    show ?thesis
    proof (cases "rm_ordinal m < start")
      case True
      with False obtain eli where e: "e = Some eli" "eli \<le> b" using c(2) by (auto simp: eligible_def split: option.splits)
      have "chunk_loop rt budget start (Some eli) (dropWhile (\<lambda>m. rm_ordinal m < start) ms) st = st"
        by (rule loop_stops [OF c(1)]) (use e in simp)
      then show ?thesis using True e c(2) by simp
    qed simp
  qed
qed simp

lemma consecutive_dropWhile:
  "consecutive b ms \<Longrightarrow> b \<le> start \<Longrightarrow> consecutive start (dropWhile (\<lambda>m. rm_ordinal m < start) ms)"
  by (induction ms arbitrary: b) auto

lemma consecutive_takeWhile: "consecutive b ms \<Longrightarrow> consecutive b (takeWhile p ms)"
  by (induction ms arbitrary: b) auto

lemma final_ok:
  fixes offset :: int
  defines "start \<equiv> max 1 offset"
  assumes est: "\<And>s. 0 \<le> estimateTokens rt s" and c: "consecutive b messages" "b \<le> start"
  obtains dl dn rest where "eligible_messages start e messages = dl @ dn @ rest"
    "lines_ok rt budget start dl [] ((final_state rt messages budget offset e)\<lparr>ck_highest := start - 1 + int (length dl), ck_noise := []\<rparr>)"
    "\<forall>m\<in>set dn. chunk_noise rt m" "rest \<noteq> [] \<longrightarrow> dl \<noteq> []"
    "max (ck_lastOrdinal (final_state rt messages budget offset e)) (ck_highest (final_state rt messages budget offset e))
      = start - 1 + int (length dl) + int (length dn)"
proof -
  let ?ms = "dropWhile (\<lambda>m. rm_ordinal m < start) messages"
  let ?st = "chunk_loop rt budget start e ?ms (initial_chunk start)"
  have fin: "final_state rt messages budget offset e = finish_chunk rt budget ?st"
    using loop_skip [OF c(1), of rt budget start e] by (simp add: final_state_def start_def)
  have "consecutive (start + int (length ([] @ [] @ []))) ?ms" using consecutive_dropWhile [OF c] by simp
  from loop_ok [where e = e and budget = budget, OF est inv_initial this] obtain dl db dn rest where
    w: "eligible_messages start e messages = dl @ db @ dn @ rest" and inv: "chunk_inv rt budget start dl db dn ?st"
    and rest: "rest \<noteq> [] \<longrightarrow> dl \<noteq> [] \<and> \<not> fst (flushCurrentBlock rt budget ?st)"
    unfolding eligible_messages_def by auto
  from est inv show ?thesis
  proof (cases rule: flush_cases)
    case stuck
    then have f: "final_state rt messages budget offset e = ?st" by (simp add: fin finish_chunk_def)
    show ?thesis
    proof (rule that [of dl "[]" "db @ dn @ rest"])
      show "lines_ok rt budget start dl [] ((final_state rt messages budget offset e)\<lparr>ck_highest := start - 1 + int (length dl), ck_noise := []\<rparr>)"
        using inv unfolding f by (auto simp: chunk_inv_def lines_ok_def tokens_ok_def)
      show "max (ck_lastOrdinal (final_state rt messages budget offset e)) (ck_highest (final_state rt messages budget offset e))
        = start - 1 + int (length dl) + int (length [])"
        using inv stuck(2) unfolding f by (auto simp: chunk_inv_def lines_ok_def)
    qed (use w stuck in simp_all)
  next
    case (taken st')
    with rest have r: "rest = []" by auto
    have c3: "consecutive start (dl @ db @ dn)" using inv by (simp add: chunk_inv_def)
    have f: "final_state rt messages budget offset e =
        (if ck_noise st' \<noteq> [] then st'\<lparr>ck_highest := max (ck_highest st') (cm_ordinal (last (ck_noise st')))\<rparr> else st')"
      using taken(1) by (simp add: fin finish_chunk_def)
    show ?thesis
    proof (rule that [of "dl @ db" dn "[]"])
      show "lines_ok rt budget start (dl @ db) []
          ((final_state rt messages budget offset e)\<lparr>ck_highest := start - 1 + int (length (dl @ db)), ck_noise := []\<rparr>)"
        using taken(2) unfolding f by (auto simp: lines_ok_def tokens_ok_def)
      have noise: "cm_ordinal (last (ck_noise st')) = start + int (length (dl @ db)) + int (length dn) - 1" if "dn \<noteq> []"
        using that taken(2) consecutive_last [of "start + int (length (dl @ db))" dn] c3
        by (auto simp: lines_ok_def consecutive_append last_map algebra_simps)
      show "max (ck_lastOrdinal (final_state rt messages budget offset e)) (ck_highest (final_state rt messages budget offset e))
        = start - 1 + int (length (dl @ db)) + int (length dn)"
      proof (cases "dl @ db = []")
        case True
        then have "ck_block ?st = None" using inv by (auto simp: chunk_inv_def block_ok_def split: option.splits)
        then have "st' = ?st" "ck_highest ?st = start - 1 + int (length dn)" using taken(4) inv by (auto simp: chunk_inv_def)
        then show ?thesis using True taken(2) noise unfolding f by (auto simp: lines_ok_def)
      next
        case False
        then show ?thesis using taken(2) noise unfolding f by (cases "dn = []") (auto simp: lines_ok_def)
      qed
      show "\<forall>m\<in>set dn. chunk_noise rt m" using taken(2) by (simp add: lines_ok_def)
    qed (use w r in simp_all)
  qed
qed

lemma merge_ranges_inside:
  assumes "\<forall>(s, e)\<in>set done'. s \<le> e \<and> {s..e} \<subseteq> good" "\<forall>(s, e)\<in>set rs. s \<le> e \<and> {s..e} \<subseteq> good"
  shows "\<forall>(s, e)\<in>set (merge_ranges done' rs). s \<le> e \<and> {s..e} \<subseteq> (good :: int set)"
  using assms
proof (induction done' rs rule: merge_ranges.induct)
  case (2 done' s e rs)
  show ?case
  proof (cases "done' \<noteq> [] \<and> s = snd (last done') + 1")
    case True
    obtain x y where xy: "last done' = (x, y)" by (cases "last done'")
    then have "(x, y) \<in> set done'" using True last_in_set [of done'] by simp
    then have l: "fst (last done') \<le> snd (last done')" "{fst (last done')..snd (last done')} \<subseteq> good"
      using 2(3) unfolding xy by auto
    have n: "s \<le> e" "{s..e} \<subseteq> good" using 2(4) by auto
    have "{fst (last done')..e} = {fst (last done')..snd (last done')} \<union> {s..e}" using True l(1) n(1) by auto
    then have "fst (last done') \<le> e" "{fst (last done')..e} \<subseteq> good" using True l n by auto
    moreover have b: "\<forall>(s, e)\<in>set (butlast done'). s \<le> e \<and> {s..e} \<subseteq> good"
      using 2(3) in_set_butlastD by fast
    ultimately have "\<forall>(s, e)\<in>set (butlast done' @ [(fst (last done'), e)]). s \<le> e \<and> {s..e} \<subseteq> good"
      using b by auto
    from 2(1) [OF True this] 2(4) True show ?thesis by simp
  next
    case False
    have "\<forall>(s, e)\<in>set (done' @ [(s, e)]). s \<le> e \<and> {s..e} \<subseteq> good" using 2(3,4) by auto
    from 2(2) [OF False this] 2(4) False show ?thesis by auto
  qed
qed simp

section \<open>Properties\<close>

definition line_of :: "raw_message \<Rightarrow> chunk_line" where
  "line_of m = \<lparr>ln_ordinal = rm_ordinal m, ln_messageId = rm_id m\<rparr>"

text \<open>The chunk in terms of the messages it may take.\<close>

lemma chunk_shape:
  fixes offset :: int
  defines "start \<equiv> max 1 offset"
  assumes est: "\<And>s. 0 \<le> estimateTokens rt s" and c: "consecutive b messages" "b \<le> start"
  obtains dl dn rest where "eligible_messages start e messages = dl @ dn @ rest"
    "hc_lines (readSessionChunk rt messages absCount budget offset e) = map line_of dl"
    "hc_endIndex (readSessionChunk rt messages absCount budget offset e) = start - 1 + int (length dl)"
    "sc_messageCount (readSessionChunk rt messages absCount budget offset e) = length dl"
    "consecutive start (dl @ dn @ rest)" "\<forall>m\<in>set dn. chunk_noise rt m" "rest \<noteq> [] \<longrightarrow> dl \<noteq> []"
    "sc_hasMore (readSessionChunk rt messages absCount budget offset e) \<longleftrightarrow> start - 1 + int (length dl) + int (length dn)
      < (let total = (case absCount of None \<Rightarrow> int (length messages) | Some n \<Rightarrow> n) in case e of None \<Rightarrow> total | Some e \<Rightarrow> min (e - 1) total)"
    "ranges_ok start dl (ck_toolOnly (final_state rt messages budget offset e))"
    "tokens_ok rt budget (final_state rt messages budget offset e)"
proof -
  from final_ok [where e = e and budget = budget, OF est c [unfolded start_def]] obtain dl dn rest where
    w: "eligible_messages start e messages = dl @ dn @ rest"
    and l: "lines_ok rt budget start dl [] ((final_state rt messages budget offset e)\<lparr>ck_highest := start - 1 + int (length dl), ck_noise := []\<rparr>)"
    and n: "\<forall>m\<in>set dn. chunk_noise rt m" "rest \<noteq> [] \<longrightarrow> dl \<noteq> []"
    and m: "max (ck_lastOrdinal (final_state rt messages budget offset e)) (ck_highest (final_state rt messages budget offset e))
      = start - 1 + int (length dl) + int (length dn)"
    unfolding start_def [symmetric] by blast
  have "consecutive start (eligible_messages start e messages)"
    unfolding eligible_messages_def by (intro consecutive_takeWhile consecutive_dropWhile [OF c])
  with w have cw: "consecutive start (dl @ dn @ rest)" by simp
  let ?f = "final_state rt messages budget offset e"
  have f: "ck_lineMeta ?f = map meta_of dl" "ck_processed ?f = length dl" "ck_lastOrdinal ?f = start - 1 + int (length dl)"
    "ranges_ok start dl (ck_toolOnly ?f)" "tokens_ok rt budget ?f"
    using l by (simp_all add: lines_ok_def tokens_ok_def)
  let ?c = "readSessionChunk rt messages absCount budget offset e"
  have sel: "hc_lines ?c = map (\<lambda>m. \<lparr>ln_ordinal = cm_ordinal m, ln_messageId = cm_messageId m\<rparr>) (ck_lineMeta ?f)"
    "hc_endIndex ?c = ck_lastOrdinal ?f" "sc_messageCount ?c = ck_processed ?f"
    "sc_hasMore ?c \<longleftrightarrow> max (ck_lastOrdinal ?f) (ck_highest ?f)
      < (let total = (case absCount of None \<Rightarrow> int (length messages) | Some n \<Rightarrow> n) in case e of None \<Rightarrow> total | Some e \<Rightarrow> min (e - 1) total)"
    by (simp_all add: readSessionChunk_def Let_def)
  have "hc_lines ?c = map line_of dl" by (simp add: sel(1) f(1) line_of_def)
  from that [OF w this sel(2) [unfolded f(3)] sel(3) [unfolded f(2)] cw n sel(4) [unfolded m] f(4,5)] show ?thesis .
qed

text \<open>A message of the session whose ordinal is in the lines is the message of the line.\<close>

lemma chunk_window:
  assumes "consecutive b messages" "b \<le> start" "eligible_messages start e messages = dl @ r" "consecutive start (dl @ r)"
    and "m \<in> set messages" "start \<le> rm_ordinal m" "rm_ordinal m < start + int (length dl)"
  shows "m \<in> set dl"
proof -
  let ?ms = "dropWhile (\<lambda>m. rm_ordinal m < start) messages"
  have c: "consecutive start ?ms" by (rule consecutive_dropWhile [OF assms(1,2)])
  have "m \<in> set ?ms" using assms(5,6) set_takeWhileD [of m "\<lambda>m. rm_ordinal m < start" messages]
    by (metis not_less takeWhile_dropWhile_id Un_iff set_append)
  then obtain i where i: "i < length ?ms" "?ms ! i = m" by (auto simp: in_set_conv_nth)
  have "map rm_ordinal ?ms ! i = [start..start + int (length ?ms) - 1] ! i" by (simp only: consecutive_ordinals [OF c])
  then have "rm_ordinal m = start + int i" using i by simp
  then have "i < length dl" using assms(7) by simp
  moreover have "take (length (dl @ r)) ?ms = dl @ r"
    using assms(3) unfolding eligible_messages_def by (metis takeWhile_eq_take length_takeWhile_le)
  ultimately have "?ms ! i = dl ! i" by (metis nth_append nth_take trans_less_add1 length_append)
  with i \<open>i < length dl\<close> show ?thesis by auto
qed

text \<open>
  C6: A chunk accounts for every message: for a session with consecutive ordinals its lines are exactly the
  messages from the offset to its end, in order and with their ids, all of them eligible; and when it says that
  there is no more, every further eligible message has no text for the historian.
\<close>

theorem chunk_accounts_for_every_message:
  fixes offset :: int
  assumes "\<And>s. 0 \<le> estimateTokens rt s" "consecutive b messages" "b \<le> max 1 offset"
    and "case absCount of None \<Rightarrow> b = 1 | Some n \<Rightarrow> n = b + int (length messages) - 1"
  shows "(let c = readSessionChunk rt messages absCount budget offset e; w = eligible_messages (max 1 offset) e messages; k = length (hc_lines c)
     in hc_endIndex c = max 1 offset - 1 + int k \<and> sc_messageCount c = k
      \<and> hc_lines c = map line_of (take k w) \<and> map ln_ordinal (hc_lines c) = [max 1 offset..hc_endIndex c]
      \<and> (\<not> sc_hasMore c \<longrightarrow> (\<forall>m\<in>set (drop k w). chunk_noise rt m)))"
proof -
  let ?start = "max 1 offset" and ?c = "readSessionChunk rt messages absCount budget offset e"
  obtain dl dn rest where
    w: "eligible_messages ?start e messages = dl @ dn @ rest" and l: "hc_lines ?c = map line_of dl"
    and h: "hc_endIndex ?c = ?start - 1 + int (length dl)" "sc_messageCount ?c = length dl"
    and c: "consecutive ?start (dl @ dn @ rest)" and n: "\<forall>m\<in>set dn. chunk_noise rt m"
    and more: "sc_hasMore ?c \<longleftrightarrow> ?start - 1 + int (length dl) + int (length dn)
      < (let total = (case absCount of None \<Rightarrow> int (length messages) | Some n \<Rightarrow> n) in case e of None \<Rightarrow> total | Some e \<Rightarrow> min (e - 1) total)"
    by (rule chunk_shape [where e = e and absCount = absCount and budget = budget, OF assms(1-3)], rule that, assumption+)
  have cd: "consecutive ?start dl" using c by (simp only: consecutive_append)
  have "map ln_ordinal (hc_lines ?c) = map rm_ordinal dl" by (simp add: l line_of_def)
  also have "\<dots> = [?start..?start + int (length dl) - 1]" by (rule consecutive_ordinals [OF cd])
  also have "?start + int (length dl) - 1 = hc_endIndex ?c" unfolding h(1) by linarith
  finally have ords: "map ln_ordinal (hc_lines ?c) = [?start..hc_endIndex ?c]" .
  have "rest = []" if "\<not> sc_hasMore ?c"
  proof (rule ccontr)
    assume "rest \<noteq> []"
    then have x: "last rest \<in> set rest" "rm_ordinal (last rest) = ?start - 1 + int (length dl) + int (length dn) + int (length rest)"
      using c consecutive_last [of "?start + int (length (dl @ dn))" rest] by (auto simp: consecutive_append algebra_simps)
    have "last rest \<in> set (eligible_messages ?start e messages)" using x(1) w by simp
    then have "eligible e (last rest)" "last rest \<in> set messages"
      unfolding eligible_messages_def by (auto dest: set_takeWhileD set_dropWhileD)
    moreover from this(2) have "rm_ordinal (last rest) < b + int (length messages)" using consecutive_range [OF assms(2)] by blast
    ultimately have "?start - 1 + int (length dl) + int (length dn) + int (length rest)
        \<le> (let total = (case absCount of None \<Rightarrow> int (length messages) | Some n \<Rightarrow> n) in case e of None \<Rightarrow> total | Some e \<Rightarrow> min (e - 1) total)"
      using x(2) assms(4) by (auto simp: eligible_def Let_def split: option.splits)
    with that more \<open>rest \<noteq> []\<close> show False by (cases rest) auto
  qed
  with ords w l h n show ?thesis by (auto simp: Let_def)
qed

definition example_chunk_runtime :: chunk_runtime where
  "example_chunk_runtime = \<lparr>estimateTokens = (\<lambda>s. int (length s)), number_text = (\<lambda>x. ''0''), cr_ellipsis = ''...''\<rparr>"

definition example_text_message :: "int \<Rightarrow> string \<Rightarrow> string \<Rightarrow> raw_message" where
  "example_text_message n role s = \<lparr>rm_ordinal = n, rm_id = ''m'' @ show_int n, rm_role = role,
     rm_parts = [JObj [(''type'', JStr ''text''), (''text'', JStr s)]]\<rparr>"

lemma example_word_tokens: "0 \<le> estimateTokens example_chunk_runtime s"
  by (simp add: example_chunk_runtime_def)

theorem chunk_accounts_for_every_message_witness:
  "map ln_ordinal (hc_lines (readSessionChunk example_chunk_runtime [example_text_message 1 ''user'' ''hi'', example_text_message 2 ''assistant'' ''ok'']
     None 1000 1 None)) = [1..hc_endIndex (readSessionChunk example_chunk_runtime [example_text_message 1 ''user'' ''hi'',
       example_text_message 2 ''assistant'' ''ok''] None 1000 1 None)]"
proof -
  have "consecutive 1 [example_text_message 1 ''user'' ''hi'', example_text_message 2 ''assistant'' ''ok'']"
    by (simp add: example_text_message_def)
  from chunk_accounts_for_every_message [where absCount = None and offset = 1 and budget = 1000 and e = None, OF example_word_tokens this]
  show ?thesis by (simp add: Let_def)
qed

lemma chunk_nonempty:
  fixes offset :: int
  assumes "\<And>s. 0 \<le> estimateTokens rt s" "consecutive b messages" "b \<le> max 1 offset"
    and "m \<in> set (eligible_messages (max 1 offset) e messages)" "\<not> chunk_noise rt m"
  shows "max 1 offset \<le> hc_endIndex (readSessionChunk rt messages absCount budget offset e)
    \<and> hc_lines (readSessionChunk rt messages absCount budget offset e) \<noteq> []"
proof -
  let ?start = "max 1 offset" and ?c = "readSessionChunk rt messages absCount budget offset e"
  obtain dl dn rest where w: "eligible_messages ?start e messages = dl @ dn @ rest" and l: "hc_lines ?c = map line_of dl"
    and h: "hc_endIndex ?c = ?start - 1 + int (length dl)" and n: "\<forall>m\<in>set dn. chunk_noise rt m" and r: "rest \<noteq> [] \<longrightarrow> dl \<noteq> []"
    by (rule chunk_shape [where e = e and absCount = absCount and budget = budget, OF assms(1-3)], rule that, assumption+)
  have "dl \<noteq> []" using w n r assms(4,5) by auto
  then show ?thesis unfolding l h by (cases dl) auto
qed

text \<open>
  Reading a chunk makes progress: when some eligible message has text for the historian, the chunk is not
  empty, however small the budget is.
\<close>

theorem chunk_makes_progress:
  fixes offset :: int
  assumes "\<And>s. 0 \<le> estimateTokens rt s" "consecutive b messages" "b \<le> max 1 offset"
    and "m \<in> set (eligible_messages (max 1 offset) e messages)" "\<not> chunk_noise rt m"
  shows "max 1 offset \<le> hc_endIndex (readSessionChunk rt messages absCount budget offset e)
    \<and> hc_lines (readSessionChunk rt messages absCount budget offset e) \<noteq> []"
  using assms by (rule chunk_nonempty)

lemma example_message:
  "consecutive 1 [example_text_message 1 ''assistant'' ''a'']"
  "example_text_message 1 ''assistant'' ''a'' \<in> set (eligible_messages (max 1 1) None [example_text_message 1 ''assistant'' ''a''])"
  "\<not> chunk_noise example_chunk_runtime (example_text_message 1 ''assistant'' ''a'')"
proof -
  let ?m = "example_text_message 1 ''assistant'' ''a''"
  show "consecutive 1 [?m]" "?m \<in> set (eligible_messages (max 1 1) None [?m])"
    by (simp_all add: example_text_message_def eligible_messages_def eligible_def)
  have "text_parts ?m = [''a'']"
    by (simp add: text_parts_def example_text_message_def extractTexts_def List.map_filter_def text_of_part_def get_field_def js_trim_def is_ws_def
      normalizeText_def)
  then show "\<not> chunk_noise example_chunk_runtime ?m"
    by (simp add: chunk_noise_def narrative_def is_tool_result_def) (simp add: example_text_message_def)
qed

theorem chunk_makes_progress_witness:
  "hc_lines (readSessionChunk example_chunk_runtime [example_text_message 1 ''assistant'' ''a''] None 0 1 None) \<noteq> []"
  using chunk_makes_progress [where offset = 1 and absCount = None and budget = 0, OF example_word_tokens example_message(1) _ example_message(2,3)]
  by simp

text \<open>
  A chunk respects its token budget unless a single block is larger than it: the estimate is within the
  budget or it is the estimate of one of its blocks, every other block costing nothing.
\<close>

theorem chunk_respects_budget:
  fixes offset :: int
  assumes "\<And>s. 0 \<le> estimateTokens rt s" "consecutive b messages" "b \<le> max 1 offset" "0 \<le> budget"
  shows "sc_tokenEstimate (readSessionChunk rt messages absCount budget offset e) \<le> budget
    \<or> (\<exists>l\<in>set (ck_lines (final_state rt messages budget offset e)).
         sc_tokenEstimate (readSessionChunk rt messages absCount budget offset e) = estimateTokens rt l)"
proof -
  have "tokens_ok rt budget (final_state rt messages budget offset e)"
    by (rule chunk_shape [where e = e and absCount = absCount and budget = budget, OF assms(1-3)])
  moreover have "sc_tokenEstimate (readSessionChunk rt messages absCount budget offset e) = ck_totalTokens (final_state rt messages budget offset e)"
    by (simp add: readSessionChunk_def Let_def)
  ultimately show ?thesis using assms(4) by (auto simp: tokens_ok_def)
qed

theorem chunk_respects_budget_witness:
  "sc_tokenEstimate (readSessionChunk example_chunk_runtime [] None 10 1 None) \<le> 10
    \<or> (\<exists>l\<in>set (ck_lines (final_state example_chunk_runtime [] 10 1 None)).
         sc_tokenEstimate (readSessionChunk example_chunk_runtime [] None 10 1 None) = estimateTokens example_chunk_runtime l)"
  by (rule chunk_respects_budget [where b = 1, OF example_word_tokens]) simp_all

text \<open>
  A range the validator may skip as tool-only holds no narrative: every such range lies inside the chunk, and no
  message in it has text of its own.
\<close>

theorem tool_only_ranges_hold_no_narrative:
  fixes offset :: int
  assumes "\<And>s. 0 \<le> estimateTokens rt s" "consecutive b messages" "b \<le> max 1 offset"
    and "(s, t) \<in> set (hc_toolOnlyRanges (readSessionChunk rt messages absCount budget offset e))"
  shows "max 1 offset \<le> s \<and> s \<le> t \<and> t \<le> hc_endIndex (readSessionChunk rt messages absCount budget offset e)
    \<and> (\<forall>m\<in>set messages. s \<le> rm_ordinal m \<and> rm_ordinal m \<le> t \<longrightarrow> \<not> narrative m)"
proof -
  let ?start = "max 1 offset" and ?c = "readSessionChunk rt messages absCount budget offset e"
  obtain dl dn rest where w: "eligible_messages ?start e messages = dl @ dn @ rest"
    and h: "hc_endIndex ?c = ?start - 1 + int (length dl)" and c: "consecutive ?start (dl @ dn @ rest)"
    and r: "ranges_ok ?start dl (ck_toolOnly (final_state rt messages budget offset e))"
    by (rule chunk_shape [where e = e and absCount = absCount and budget = budget, OF assms(1-3)], rule that, assumption+)
  let ?good = "{x. ?start \<le> x \<and> x \<le> hc_endIndex ?c \<and> (\<forall>m\<in>set dl. rm_ordinal m = x \<longrightarrow> \<not> narrative m)}"
  have "\<forall>(s, t)\<in>set (ck_toolOnly (final_state rt messages budget offset e)). s \<le> t \<and> {s..t} \<subseteq> ?good"
    using r unfolding ranges_ok_def h by fastforce
  moreover have "hc_toolOnlyRanges ?c = merge_ranges [] (ck_toolOnly (final_state rt messages budget offset e))"
    by (simp add: readSessionChunk_def Let_def)
  ultimately have st: "s \<le> t" "{s..t} \<subseteq> ?good" using merge_ranges_inside [of "[]" ?good] assms(4) by fastforce+
  then have "s \<in> ?good" "t \<in> ?good" by auto
  have "\<not> narrative m" if m: "m \<in> set messages" "s \<le> rm_ordinal m" "rm_ordinal m \<le> t" for m
  proof -
    have x: "rm_ordinal m \<in> ?good" using st(2) m(2,3) by auto
    have "m \<in> set dl" by (rule chunk_window [OF assms(2,3) w c m(1)]) (use x h in auto)
    with x show ?thesis by simp
  qed
  with st(1) \<open>s \<in> ?good\<close> \<open>t \<in> ?good\<close> show ?thesis by auto
qed

definition example_tool_message :: raw_message where
  "example_tool_message = \<lparr>rm_ordinal = 1, rm_id = ''m1'', rm_role = ''user'',
     rm_parts = [JObj [(''type'', JStr ''tool''), (''tool'', JStr ''ls''), (''state'', JObj [])]]\<rparr>"

lemma example_tool_range: "hc_toolOnlyRanges (readSessionChunk example_chunk_runtime [example_tool_message] None 100 1 None) = [(1, 1)]"
proof -
  have s: "extractToolCallSummaries example_chunk_runtime (rm_parts example_tool_message) = [''TC: ls'']"
    by (simp add: extractToolCallSummaries_def example_tool_message_def List.map_filter_def summary_of_part_def is_object_def
      description_of_def extractKeyArg_def get_field_def string_field_def)
  have m: "\<not> hasMeaningfulUserText (rm_parts example_tool_message)"
    by (simp add: hasMeaningfulUserText_def meaningful_part_def example_tool_message_def get_field_def)
  have f: "rm_role example_tool_message = ''user''" "rm_ordinal example_tool_message = 1"
    by (simp_all add: example_tool_message_def)
  show ?thesis
    by (simp add: readSessionChunk_def final_state_def chunk_step_def tool_result_message_def s m f open_block_def
      flushCurrentBlock_def initial_chunk_def finish_chunk_def take_block_def noise_start_def Let_def)
qed

theorem tool_only_ranges_hold_no_narrative_witness: "\<not> narrative example_tool_message"
proof -
  have "consecutive 1 [example_tool_message]" and o: "rm_ordinal example_tool_message = 1" by (simp_all add: example_tool_message_def)
  from tool_only_ranges_hold_no_narrative [where offset = 1 and s = 1 and t = 1 and budget = 100 and absCount = None and e = None,
    OF example_word_tokens this(1)]
  show ?thesis by (simp add: example_tool_range o)
qed

lemma find_line:
  assumes "map ln_ordinal ls = [a..b]" "a \<le> x" "x \<le> b"
  shows "\<exists>l\<in>set ls. find (\<lambda>l. ln_ordinal l = x) ls = Some l \<and> ln_ordinal l = x"
proof -
  have "x \<in> set (map ln_ordinal ls)" using assms by simp
  then have "find (\<lambda>l. ln_ordinal l = x) ls \<noteq> None" by (auto simp: find_None_iff)
  then obtain l where l: "find (\<lambda>l. ln_ordinal l = x) ls = Some l" by blast
  then show ?thesis by (auto simp: find_Some_iff)
qed

lemma line_eta: "ln_ordinal l = x \<Longrightarrow> \<lparr>ln_ordinal = x, ln_messageId = ln_messageId l\<rparr> = l"
  by (cases l) auto

lemma map_from_inside:
  assumes "map ln_ordinal (hc_lines c) = [a..b]"
  shows "\<forall>p\<in>set ps. a \<le> pc_startMessage p \<and> pc_startMessage p \<le> b \<and> a \<le> pc_endMessage p \<and> pc_endMessage p \<le> b \<Longrightarrow>
    \<exists>cs. map_from c n ps = Inr cs \<and> list_all2 (\<lambda>p k. cc_parsed k = p
      \<and> \<lparr>ln_ordinal = pc_startMessage p, ln_messageId = cc_startMessageId k\<rparr> \<in> set (hc_lines c)
      \<and> \<lparr>ln_ordinal = pc_endMessage p, ln_messageId = cc_endMessageId k\<rparr> \<in> set (hc_lines c)) ps cs"
proof (induction ps arbitrary: n)
  case (Cons p ps)
  obtain s where s: "s \<in> set (hc_lines c)" "find (\<lambda>l. ln_ordinal l = pc_startMessage p) (hc_lines c) = Some s" "ln_ordinal s = pc_startMessage p"
    using find_line [OF assms, of "pc_startMessage p"] Cons.prems by auto
  obtain e where e: "e \<in> set (hc_lines c)" "find (\<lambda>l. ln_ordinal l = pc_endMessage p) (hc_lines c) = Some e" "ln_ordinal e = pc_endMessage p"
    using find_line [OF assms, of "pc_endMessage p"] Cons.prems by auto
  from Cons.IH [of "n + 1"] Cons.prems obtain cs where cs: "map_from c (n + 1) ps = Inr cs"
    "list_all2 (\<lambda>p k. cc_parsed k = p
      \<and> \<lparr>ln_ordinal = pc_startMessage p, ln_messageId = cc_startMessageId k\<rparr> \<in> set (hc_lines c)
      \<and> \<lparr>ln_ordinal = pc_endMessage p, ln_messageId = cc_endMessageId k\<rparr> \<in> set (hc_lines c)) ps cs" by auto
  have "\<lparr>ln_ordinal = pc_startMessage p, ln_messageId = ln_messageId s\<rparr> \<in> set (hc_lines c)"
    unfolding line_eta [OF s(3)] by (rule s(1))
  moreover have "\<lparr>ln_ordinal = pc_endMessage p, ln_messageId = ln_messageId e\<rparr> \<in> set (hc_lines c)"
    unfolding line_eta [OF e(3)] by (rule e(1))
  ultimately show ?case using s(2) e(2) cs by simp
qed simp

lemma chunk_maps:
  fixes offset :: int
  assumes "\<And>s. 0 \<le> estimateTokens rt s" "consecutive b messages" "b \<le> max 1 offset"
    and "c = readSessionChunk rt messages absCount budget offset e"
    and "\<forall>p\<in>set ps. max 1 offset \<le> pc_startMessage p \<and> pc_startMessage p \<le> hc_endIndex c
      \<and> max 1 offset \<le> pc_endMessage p \<and> pc_endMessage p \<le> hc_endIndex c"
  shows "\<exists>cs. mapParsedCompartmentsToChunk ps (historian_chunk.truncate c) n = Inr cs
    \<and> list_all2 (\<lambda>p k. cc_parsed k = p
      \<and> (\<exists>m\<in>set messages. rm_ordinal m = pc_startMessage p \<and> rm_id m = cc_startMessageId k)
      \<and> (\<exists>m\<in>set messages. rm_ordinal m = pc_endMessage p \<and> rm_id m = cc_endMessageId k)) ps cs"
proof -
  let ?start = "max 1 offset" and ?t = "historian_chunk.truncate c"
  let ?r = "readSessionChunk rt messages absCount budget offset e"
  obtain dl dn rest where w: "eligible_messages ?start e messages = dl @ dn @ rest" and lr: "hc_lines ?r = map line_of dl"
    and hr: "hc_endIndex ?r = ?start - 1 + int (length dl)" and cc: "consecutive ?start (dl @ dn @ rest)"
    by (rule chunk_shape [where e = e and absCount = absCount and budget = budget, OF assms(1-3)], rule that, assumption+)
  have l: "hc_lines c = map line_of dl" and h: "hc_endIndex c = ?start - 1 + int (length dl)"
    using lr hr by (simp_all only: assms(4))
  have tl: "hc_lines ?t = hc_lines c" by (simp add: historian_chunk.truncate_def)
  have "map ln_ordinal (hc_lines ?t) = map rm_ordinal dl" by (simp add: tl l line_of_def)
  also have "\<dots> = [?start..?start + int (length dl) - 1]"
    by (rule consecutive_ordinals) (use cc in \<open>simp only: consecutive_append\<close>)
  also have "?start + int (length dl) - 1 = hc_endIndex c" unfolding h by linarith
  finally have "map ln_ordinal (hc_lines ?t) = [?start..hc_endIndex c]" .
  from map_from_inside [OF this assms(5), of n] obtain cs where cs: "map_from ?t n ps = Inr cs"
    "list_all2 (\<lambda>p k. cc_parsed k = p
      \<and> \<lparr>ln_ordinal = pc_startMessage p, ln_messageId = cc_startMessageId k\<rparr> \<in> set (hc_lines ?t)
      \<and> \<lparr>ln_ordinal = pc_endMessage p, ln_messageId = cc_endMessageId k\<rparr> \<in> set (hc_lines ?t)) ps cs" by blast
  have "set dl \<subseteq> set (eligible_messages ?start e messages)" by (simp add: w)
  also have "\<dots> \<subseteq> set messages" unfolding eligible_messages_def by (auto dest: set_takeWhileD set_dropWhileD)
  finally have "\<exists>m\<in>set messages. rm_ordinal m = x \<and> rm_id m = i" if "\<lparr>ln_ordinal = x, ln_messageId = i\<rparr> \<in> set (hc_lines ?t)" for x i
    using that unfolding tl l by (auto simp: line_of_def)
  then show ?thesis
    using cs list_all2_mono [OF cs(2)] unfolding mapParsedCompartmentsToChunk_def by (intro exI [where x = cs]) (auto elim!: list_all2_mono)
qed

text \<open>
  The chunk and the validator fit together: any output of the historian whose compartments start and end inside
  the chunk is mapped, never rejected as unmapped, and each candidate carries the ids of the messages it starts
  and ends at.
\<close>

theorem chunk_maps_every_compartment:
  fixes offset :: int
  assumes "\<And>s. 0 \<le> estimateTokens rt s" "consecutive b messages" "b \<le> max 1 offset"
    and "c = readSessionChunk rt messages absCount budget offset e"
    and "\<forall>p\<in>set ps. max 1 offset \<le> pc_startMessage p \<and> pc_startMessage p \<le> hc_endIndex c
      \<and> max 1 offset \<le> pc_endMessage p \<and> pc_endMessage p \<le> hc_endIndex c"
  shows "\<exists>cs. mapParsedCompartmentsToChunk ps (historian_chunk.truncate c) n = Inr cs
    \<and> list_all2 (\<lambda>p k. cc_parsed k = p
      \<and> (\<exists>m\<in>set messages. rm_ordinal m = pc_startMessage p \<and> rm_id m = cc_startMessageId k)
      \<and> (\<exists>m\<in>set messages. rm_ordinal m = pc_endMessage p \<and> rm_id m = cc_endMessageId k)) ps cs"
  using assms by (rule chunk_maps)

definition example_boundary_parse :: parsed_compartment where
  "example_boundary_parse = \<lparr>pc_startMessage = 1, pc_endMessage = 1, pc_title = ''t'', pc_content = ''c'', pc_p1 = None, pc_p2 = None, pc_p3 = None,
     pc_p4 = None, pc_importance = None, pc_episodeType = None\<rparr>"

theorem chunk_maps_every_compartment_witness:
  "\<exists>cs. mapParsedCompartmentsToChunk [example_boundary_parse]
     (historian_chunk.truncate (readSessionChunk example_chunk_runtime [example_text_message 1 ''assistant'' ''a''] None 0 1 None)) 1 = Inr cs"
proof -
  let ?c = "readSessionChunk example_chunk_runtime [example_text_message 1 ''assistant'' ''a''] None 0 1 None"
  have "1 \<le> hc_endIndex ?c"
    using chunk_nonempty [where offset = 1 and absCount = None and budget = 0, OF example_word_tokens example_message(1) _ example_message(2,3)] by simp
  then have "\<forall>p\<in>set [example_boundary_parse]. max 1 1 \<le> pc_startMessage p \<and> pc_startMessage p \<le> hc_endIndex ?c
      \<and> max 1 1 \<le> pc_endMessage p \<and> pc_endMessage p \<le> hc_endIndex ?c"
    by (simp add: example_boundary_parse_def)
  from chunk_maps_every_compartment [OF example_word_tokens example_message(1) _ refl this, of 1] show ?thesis by auto
qed

end
