(* ===== verification/Historian_Pass.thy ===== *)
theory Historian_Pass
  imports Parser_Roundtrip Session_Chunk
begin

text \<open>
  A historian pass from end to end: the chunk that is read from the session
  (\<open>hooks/magic-context/read-session-chunk.ts\<close>), the text that comes back
  (\<open>compartment-parser.ts\<close>) and its validation (\<open>compartment-runner-validation.ts\<close>).
\<close>

declare lit.simps [simp del]

section \<open>Text without an unprocessed mark\<close>

lemma begins_unprocessed: "begins ''<unprocessed_from>'' UNPROCESSED_REGEX"
  by (simp add: UNPROCESSED_REGEX_def element_def begins_lit)

lemma compartments_no_unprocessed:
  "\<forall>c\<in>set cs. printable c \<Longrightarrow> no_start ''<unprocessed_from>'' (compartments_text cs) y"
proof (induction cs)
  case (Cons c cs)
  have N: "no_start (CHR ''<'' # w) (escape_xml s) y" for w s y by (rule no_start_char) simp_all
  have A: "no_start (CHR ''<'' # w) (attrs_text c) y" for w y using printable_attrs [of c] Cons.prems by (intro no_start_char) simp_all
  show ?case
    using Cons by (simp add: compartments_text_def compartment_text_def wrapped_def body_text_def tier_text_def tier_in_def N A show_digit digit_char_def)
qed (simp add: compartments_text_def)

lemma nothing_unprocessed:
  assumes "\<forall>c\<in>set cs. printable c" "cs \<noteq> []" "\<not> str_includes ''<unprocessed_from>'' pre" "\<not> str_includes ''<unprocessed_from>'' post"
  shows "number_group UNPROCESSED_REGEX (pre @ compartments_text cs @ post) = None"
proof -
  obtain y where y: "compartments_text cs @ post = CHR ''<'' # y"
    using assms(2) by (cases cs) (simp_all add: compartments_text_def compartment_text_def wrapped_def)
  have "no_start ''<unprocessed_from>'' pre (compartments_text cs @ post)"
    unfolding y using no_start_open [OF includes_start [OF assms(3)]] by simp
  then have "no_start ''<unprocessed_from>'' (pre @ compartments_text cs @ post) []"
    using compartments_no_unprocessed [OF assms(1)] includes_start [OF assms(4)] by simp
  then show ?thesis by (simp add: number_group_def exec_search search_begins_none [OF begins_unprocessed])
qed

section \<open>Output that covers the chunk\<close>

lemma heal_tiled:
  "tiles a b (map parsed_range cs) \<Longrightarrow> healCompartmentGaps cs ranges = cs"
proof (induction cs arbitrary: a)
  case (Cons c cs)
  show ?case
  proof (cases cs)
    case (Cons d ds)
    have "healCompartmentGaps cs ranges = cs" using Cons.IH Cons.prems by (auto simp: parsed_range_def)
    moreover have "pc_startMessage d = pc_endMessage c + 1" using Cons.prems Cons by (simp add: parsed_range_def)
    ultimately show ?thesis using Cons by (simp add: healCompartmentGaps_def Let_def)
  qed (simp add: healCompartmentGaps_def)
qed (simp add: healCompartmentGaps_def)

lemma tiles_le: "tiles a b rs \<Longrightarrow> a \<le> b"
  by (induction a b rs rule: tiles.induct) auto

lemma parsed_tiled:
  assumes "\<forall>c\<in>set cs. pc_p1 c \<noteq> None \<and> js_trim (the (pc_p1 c)) \<noteq> []"
  shows "tiles a b (map parsed_range cs) \<Longrightarrow> s \<le> a \<Longrightarrow> b \<le> e + 1 \<Longrightarrow> parsed_from s e n a cs = Inr b"
  using assms
proof (induction cs arbitrary: a n)
  case (Cons c cs)
  then obtain p where p: "pc_p1 c = Some p" "js_trim p \<noteq> []" by auto
  have t: "pc_startMessage c = a" "a \<le> pc_endMessage c" "tiles (pc_endMessage c + 1) b (map parsed_range cs)"
    using Cons.prems(1) by (simp_all add: parsed_range_def [abs_def])
  have "pc_endMessage c + 1 \<le> b" by (rule tiles_le [OF t(3)])
  then have e: "pc_endMessage c \<le> e" using Cons.prems(3) by linarith
  have "parsed_from s e (n + 1) (pc_endMessage c + 1) cs = Inr b"
    by (rule Cons.IH [OF t(3)]) (use Cons.prems t in auto)
  then show ?case using p t e Cons.prems(2) by (simp add: Let_def)
qed simp

lemma tiles_inside: "tiles a b (map parsed_range cs) \<Longrightarrow> c \<in> set cs \<Longrightarrow>
    a \<le> pc_startMessage c \<and> pc_startMessage c \<le> pc_endMessage c \<and> pc_endMessage c < b"
proof (induction cs arbitrary: a)
  case (Cons d cs)
  then have t: "pc_startMessage d = a" "a \<le> pc_endMessage d" "tiles (pc_endMessage d + 1) b (map parsed_range cs)"
    by (simp_all add: parsed_range_def [abs_def])
  show ?case using Cons.IH [OF t(3)] Cons.prems(2) t tiles_le [OF t(3)] by auto
qed simp

lemma tiles_sorted: "tiles a b (map parsed_range cs) \<Longrightarrow> sorted (map pc_startMessage cs)"
proof (induction cs arbitrary: a)
  case (Cons d cs)
  then have t: "pc_startMessage d = a" "a \<le> pc_endMessage d" "tiles (pc_endMessage d + 1) b (map parsed_range cs)"
    by (simp_all add: parsed_range_def [abs_def])
  show ?case using Cons.IH [OF t(3)] tiles_inside [OF t(3)] t(1,2) by fastforce
qed simp

lemma tiled_last: "cs \<noteq> [] \<Longrightarrow> tiles a (e + 1) (map parsed_range cs) \<Longrightarrow> pc_endMessage (last cs) = e"
  using tiles_end [of a "e + 1" "map parsed_range cs"] by (simp add: last_map parsed_range_def)

lemma terminal_tiled:
  assumes "cs \<noteq> []" "tiles a (e + 1) (map parsed_range cs)"
  shows "healTerminalCompletedToolArc cs None arcs e = (cs, None)"
proof -
  have l: "pc_endMessage (last cs) = e" by (rule tiled_last [OF assms])
  have p: "heal_terminal_pass arcs e e = e"
    using heal_pass_cases [of arcs e e] max_fold [of e "\<lambda>s e'. e' \<le> e \<and> completedToolArcCrossesBoundary s e' (e + 1)" arcs]
    by (auto simp: heal_terminal_pass_def completedToolArcCrossesBoundary_def)
  then have "settle k (heal_terminal_pass arcs e) e = e" for k by (induction k) simp_all
  moreover have e: "(last cs)\<lparr>pc_endMessage := e\<rparr> = last cs" using l by (cases "last cs") simp
  have "butlast cs @ [(last cs)\<lparr>pc_endMessage := e\<rparr>] = cs" unfolding e by (rule append_butlast_last_id [OF assms(1)])
  ultimately show ?thesis using assms(1) l p by (simp add: healTerminalCompletedToolArc_def Let_def)
qed

text \<open>
  C5: A historian that does what it is asked is accepted: when the text holds printed compartments that cover the
  chunk one after the other, and the end of the chunk splits no completed tool call, the pass is accepted with
  exactly these compartments, and each carries the ids of the messages of the session it starts and ends at.
\<close>

theorem faithful_output_is_accepted:
  fixes offset :: int
  assumes "\<And>s. 0 \<le> estimateTokens rt s" "consecutive b messages" "b \<le> max 1 offset"
    and "chunk = readSessionChunk rt messages absCount budget offset e"
    and "\<forall>c\<in>set cs. printable c" "cs \<noteq> []" "tiles (hc_startIndex chunk) (hc_endIndex chunk + 1) (map parsed_range cs)"
    and "\<not> boundarySplitsCompletedToolArc (hc_endIndex chunk + 1) (hc_completedToolArcs chunk)"
    and "\<forall>w\<in>{''<compartment'', ''<unprocessed_from>''}. \<not> str_includes w pre \<and> \<not> str_includes w post"
  shows "\<exists>p. historian_pass_of (pre @ compartments_text cs @ post) (historian_chunk.truncate chunk) n = Inr p
    \<and> map cc_parsed (hp_compartments p) = cs
    \<and> (\<forall>k\<in>set (hp_compartments p).
        (\<exists>m\<in>set messages. rm_ordinal m = cc_startMessage k \<and> rm_id m = cc_startMessageId k)
        \<and> (\<exists>m\<in>set messages. rm_ordinal m = cc_endMessage k \<and> rm_id m = cc_endMessageId k))"
proof -
  let ?c = "historian_chunk.truncate chunk" and ?text = "pre @ compartments_text cs @ post"
  have f: "hc_startIndex ?c = hc_startIndex chunk" "hc_endIndex ?c = hc_endIndex chunk" "hc_toolOnlyRanges ?c = hc_toolOnlyRanges chunk"
    "hc_completedToolArcs ?c = hc_completedToolArcs chunk" "hc_startIndex chunk = max 1 offset"
    by (simp_all add: historian_chunk.truncate_def assms(4) readSessionChunk_def Let_def)
  have "compartments_of ?text = cs" using assms(9) by (intro parse_printed [OF assms(5,6)]) simp_all
  then have parsed: "po_compartments (parseCompartmentOutput ?text) = cs"
    using sort_key_id_if_sorted [OF tiles_sorted [OF assms(7)]] by (simp add: parseCompartmentOutput_def)
  have un: "po_unprocessedFrom (parseCompartmentOutput ?text) = None"
    using assms(9) nothing_unprocessed [OF assms(5,6)] by (simp add: parseCompartmentOutput_def)
  have inside: "\<forall>p\<in>set cs. max 1 offset \<le> pc_startMessage p \<and> pc_startMessage p \<le> hc_endIndex chunk
      \<and> max 1 offset \<le> pc_endMessage p \<and> pc_endMessage p \<le> hc_endIndex chunk"
    using tiles_inside [OF assms(7)] f(5) by fastforce
  obtain out where out: "mapParsedCompartmentsToChunk cs ?c n = Inr out"
    and ids: "list_all2 (\<lambda>p k. cc_parsed k = p
      \<and> (\<exists>m\<in>set messages. rm_ordinal m = pc_startMessage p \<and> rm_id m = cc_startMessageId k)
      \<and> (\<exists>m\<in>set messages. rm_ordinal m = pc_endMessage p \<and> rm_id m = cc_endMessageId k)) cs out"
    using chunk_maps [OF assms(1-4) inside] by blast
  have p1: "\<forall>c\<in>set cs. pc_p1 c \<noteq> None \<and> js_trim (the (pc_p1 c)) \<noteq> []"
    using assms(5) by (auto simp: printable_def tier_ok_def)
  have "validateParsedCompartments cs (hc_startIndex chunk) (hc_endIndex chunk) None = None"
    by (simp add: validateParsedCompartments_def parsed_tiled [OF p1 assms(7)])
  then have v: "validateHistorianOutput cs None ?c n = Inr out"
    using assms(6,8) out heal_tiled [OF assms(7)] terminal_tiled [OF assms(6,7)] tiled_last [OF assms(6,7)]
    by (simp add: validateHistorianOutput_def f)
  have "map cc_parsed out = cs" using ids by (induction cs out rule: list_all2_induct) auto
  moreover have "map candidate_range out = map parsed_range cs"
    using map_from_ranges [OF out [unfolded mapParsedCompartmentsToChunk_def]] by simp
  then have "\<forall>k\<in>set out. cc_startMessage k = pc_startMessage (cc_parsed k) \<and> cc_endMessage k = pc_endMessage (cc_parsed k)"
    using \<open>map cc_parsed out = cs\<close> by (auto simp: candidate_range_def parsed_range_def)
  moreover have "\<forall>k\<in>set out. (\<exists>m\<in>set messages. rm_ordinal m = pc_startMessage (cc_parsed k) \<and> rm_id m = cc_startMessageId k)
      \<and> (\<exists>m\<in>set messages. rm_ordinal m = pc_endMessage (cc_parsed k) \<and> rm_id m = cc_endMessageId k)"
    using ids by (induction cs out rule: list_all2_induct) auto
  moreover have "\<exists>p. historian_pass_of ?text ?c n = Inr p \<and> hp_compartments p = out"
    by (simp add: historian_pass_of_def parsed un v Let_def)
  ultimately show ?thesis by auto
qed

text \<open>A session of one message, and the pass over it.\<close>

abbreviation example_read :: session_chunk where
  "example_read \<equiv> readSessionChunk example_chunk_runtime [example_text_message 1 ''assistant'' ''a''] None 0 1 None"

lemma example_chunk_end: "hc_startIndex example_read = 1" "hc_endIndex example_read = 1" "hc_completedToolArcs example_read = []"
proof -
  show "hc_startIndex example_read = 1" by (simp add: readSessionChunk_def Let_def)
  have ge: "1 \<le> hc_endIndex example_read"
    using chunk_nonempty [where offset = 1 and absCount = None and budget = 0, OF example_word_tokens example_message(1) _ example_message(2,3)] by simp
  obtain dl dn rest where w: "eligible_messages (max 1 1) None [example_text_message 1 ''assistant'' ''a''] = dl @ dn @ rest"
    and h: "hc_endIndex example_read = max 1 1 - 1 + int (length dl)"
    by (rule chunk_shape [where offset = 1 and e = None and absCount = None and budget = 0, OF example_word_tokens example_message(1)])
      (simp, rule that, assumption+)
  have "length dl \<le> length (eligible_messages (max 1 1) None [example_text_message 1 ''assistant'' ''a''])" unfolding w by simp
  also have "\<dots> \<le> 1" by (simp add: eligible_messages_def)
  finally show "hc_endIndex example_read = 1" using ge h by simp
  have "toolSignalFromPart rt (JObj [(''type'', JStr ''text''), (''text'', JStr ''a'')]) = None" for rt by code_simp
  then have "buildToolArcs rt [example_text_message 1 ''assistant'' ''a''] = []" for rt
    by (simp add: buildToolArcs_def arc_message_step_def arc_part_step_def example_text_message_def open_arcs_def)
  then show "hc_completedToolArcs example_read = []" by (simp add: readSessionChunk_def completed_arcs_def Let_def)
qed

theorem faithful_output_is_accepted_witness:
  "\<exists>p. historian_pass_of (compartments_text [example_compartment 1 1]) (historian_chunk.truncate example_read) 0 = Inr p
    \<and> map cc_parsed (hp_compartments p) = [example_compartment 1 1]"
proof -
  have t: "tiles 1 (1 + 1) (map parsed_range [example_compartment 1 1])" by (simp add: parsed_range_def example_compartment_def)
  have "\<exists>p. historian_pass_of ([] @ compartments_text [example_compartment 1 1] @ []) (historian_chunk.truncate example_read) 0 = Inr p
    \<and> map cc_parsed (hp_compartments p) = [example_compartment 1 1]
    \<and> (\<forall>k\<in>set (hp_compartments p).
        (\<exists>m\<in>set [example_text_message 1 ''assistant'' ''a'']. rm_ordinal m = cc_startMessage k \<and> rm_id m = cc_startMessageId k)
        \<and> (\<exists>m\<in>set [example_text_message 1 ''assistant'' ''a'']. rm_ordinal m = cc_endMessage k \<and> rm_id m = cc_endMessageId k))"
    by (rule faithful_output_is_accepted [OF example_word_tokens example_message(1) _ refl])
      (use t in \<open>simp_all add: example_chunk_end example_printable boundarySplitsCompletedToolArc_def\<close>)
  then show ?thesis by auto
qed

end
