(* ===== verification/Session_References.thy ===== *)
theory Session_References
  imports Parser_Roundtrip
begin

text \<open>
  The session references of the historian prompt (\<open>hooks/magic-context/reference-retrieval.ts\<close>): the last six
  compartments of the session, printed in the format the historian is to answer in, with the escapes of
  \<open>features/magic-context/compartment-storage.ts\<close>. The parser of the answers reads them back. A
  \<open>ReferenceCompartment\<close> has the fields of a parsed compartment, null or absent being \<open>None\<close>.
\<close>

section \<open>Escaping\<close>

text \<open>The replacements run one after the other, each over the result of the one before.\<close>

definition escapeXmlAttr :: "string \<Rightarrow> string" where
  "escapeXmlAttr s =
     replaceAll (lit ''>'') (\<lambda>_. ''&gt;'') (replaceAll (lit ''<'') (\<lambda>_. ''&lt;'')
       (replaceAll (lit [CHR 0x27]) (\<lambda>_. ''&apos;'') (replaceAll (lit [quote]) (\<lambda>_. ''&quot;'')
         (replaceAll (lit ''&'') (\<lambda>_. ''&amp;'') s))))"

definition escapeXmlText :: "string \<Rightarrow> string" where
  "escapeXmlText s =
     replaceAll (lit ''>'') (\<lambda>_. ''&gt;'') (replaceAll (lit ''<'') (\<lambda>_. ''&lt;'') (replaceAll (lit ''&'') (\<lambda>_. ''&amp;'') s))"

lemma replace_char: "replace_from (lit [d]) (\<lambda>_. w) b s = concat (map (\<lambda>c. if c = d then w else [c]) s)"
proof (induction s arbitrary: b)
  case Nil
  show ?case by (subst replace_lit_none) simp_all
next
  case (Cons c s)
  show ?case
  proof (cases "c = d")
    case True
    then show ?thesis using replace_lit_step [of "[d]" "[]" s w b] Cons.IH by simp
  next
    case False
    then have "no_start [d] [c] s" by simp
    from replace_lit_skip [OF this, of w b] False Cons.IH show ?thesis by simp
  qed
qed

lemma concat_map_concat: "concat (map f (concat (map g s))) = concat (map (\<lambda>c. concat (map f (g c))) s)"
  by (induction s) simp_all

lemma concat_map_cong: "(\<And>c. f c = g c) \<Longrightarrow> concat (map f s) = concat (map g s)"
  by (induction s) simp_all

lemma escapeXmlAttr_eq: "escapeXmlAttr s = escape_with specials s"
  unfolding escapeXmlAttr_def escape_with_def replaceAll_def replace_char concat_map_concat
  by (rule concat_map_cong) (simp add: encode_def specials_def entity.simps quote_def)

lemma escapeXmlText_eq: "escapeXmlText s = escape_with markup s"
  unfolding escapeXmlText_def escape_with_def replaceAll_def replace_char concat_map_concat
  by (rule concat_map_cong) (simp add: encode_def markup_def entity.simps quote_def)

section \<open>The printer\<close>

definition SESSION_REF_WINDOW :: nat where "SESSION_REF_WINDOW = 6"

definition nl :: string where "nl = [CHR 0x0A]"

definition or_text :: "string option \<Rightarrow> string" where
  "or_text v = (case v of None \<Rightarrow> [] | Some s \<Rightarrow> s)"

definition reference_importance :: "parsed_compartment \<Rightarrow> int" where
  "reference_importance c = (case pc_importance c of None \<Rightarrow> 50 | Some n \<Rightarrow> n)"

definition reference_attrs :: "parsed_compartment \<Rightarrow> string" where
  "reference_attrs c =
     attribute ''start'' (show_int (pc_startMessage c)) @ '' '' @ attribute ''end'' (show_int (pc_endMessage c)) @ '' ''
     @ attribute ''title'' (escapeXmlAttr (pc_title c))
     @ (case pc_episodeType c of
          Some (x # xs) \<Rightarrow> '' '' @ attribute ''episode_type'' (escapeXmlAttr (x # xs))
        | _ \<Rightarrow> [])
     @ '' '' @ attribute ''importance'' (show_int (reference_importance c))"

definition renderSessionRefCompartment :: "parsed_compartment \<Rightarrow> string" where
  "renderSessionRefCompartment c =
     (let attrs = reference_attrs c
      in case pc_p1 c of
           Some (x # xs) \<Rightarrow>
             let p4 = (case pc_p4 c of
                         Some (y # ys) \<Rightarrow> ''<p4>'' @ nl @ escapeXmlText (y # ys) @ nl @ ''</p4>''
                       | _ \<Rightarrow> ''<p4/>'')
             in join nl
                  [''<compartment '' @ attrs @ ''>'',
                   ''<p1>'' @ nl @ escapeXmlText (x # xs) @ nl @ ''</p1>'',
                   ''<p2>'' @ nl @ escapeXmlText (or_text (pc_p2 c)) @ nl @ ''</p2>'',
                   ''<p3>'' @ nl @ escapeXmlText (or_text (pc_p3 c)) @ nl @ ''</p3>'',
                   p4,
                   ''</compartment>'']
         | _ \<Rightarrow> ''<compartment '' @ attrs @ ''>'' @ nl @ escapeXmlText (pc_content c) @ nl @ ''</compartment>'')"

definition recent_references :: "parsed_compartment list \<Rightarrow> parsed_compartment list" where
  "recent_references cs = drop (length cs - SESSION_REF_WINDOW) cs"

definition renderSessionReferencesBlock :: "parsed_compartment list \<Rightarrow> string" where
  "renderSessionReferencesBlock allCompartments =
     (if allCompartments = [] then []
      else ''<session_references>'' @ nl
        @ join (nl @ nl) (map renderSessionRefCompartment (recent_references allCompartments))
        @ nl @ ''</session_references>'')"

section \<open>What is read back\<close>

text \<open>
  What the parser makes of a printed reference: the defaults the printer fills in are explicit, the content of a
  tiered compartment is its first tier, and a flat compartment has no tiers.
\<close>

definition read_back :: "parsed_compartment \<Rightarrow> parsed_compartment" where
  "read_back c =
     (let d = c\<lparr>pc_importance := Some (reference_importance c),
                pc_episodeType := (if or_text (pc_episodeType c) = [] then None else pc_episodeType c)\<rparr>
      in if or_text (pc_p1 c) = [] then d\<lparr>pc_p1 := None, pc_p2 := None, pc_p3 := None, pc_p4 := None\<rparr>
         else d\<lparr>pc_content := or_text (pc_p1 c), pc_p2 := Some (or_text (pc_p2 c)), pc_p3 := Some (or_text (pc_p3 c)),
                pc_p4 := Some (or_text (pc_p4 c))\<rparr>)"

definition referable :: "parsed_compartment \<Rightarrow> bool" where
  "referable c \<longleftrightarrow> 0 \<le> pc_startMessage c \<and> 0 \<le> pc_endMessage c \<and> pc_title c \<noteq> [] \<and> attribute_ok (pc_title c)
     \<and> attribute_ok (or_text (pc_episodeType c)) \<and> 0 \<le> reference_importance c
     \<and> (if or_text (pc_p1 c) = [] then tier_ok (pc_content c) \<and> pc_content c \<noteq> []
        else \<forall>t\<in>{pc_p1 c, pc_p2 c, pc_p3 c, pc_p4 c}. tier_ok (or_text t))"

definition p4_text :: "string \<Rightarrow> string" where
  "p4_text s = (if s = [] then ''<p4/>'' else tier_in nl markup 4 s)"

definition reference_body :: "parsed_compartment \<Rightarrow> string" where
  "reference_body c =
     (if or_text (pc_p1 c) = [] then nl @ escape_with markup (pc_content c) @ nl
      else nl @ tier_in nl markup 1 (or_text (pc_p1 c)) @ nl @ tier_in nl markup 2 (or_text (pc_p2 c)) @ nl
        @ tier_in nl markup 3 (or_text (pc_p3 c)) @ nl @ p4_text (or_text (pc_p4 c)) @ nl)"

definition reference_episode :: "parsed_compartment \<Rightarrow> string option" where
  "reference_episode c = (if or_text (pc_episodeType c) = [] then None else pc_episodeType c)"

lemma reference_attrs_of:
  "reference_attrs c = attrs_of (pc_startMessage c) (pc_endMessage c) (pc_title c) (reference_episode c) (reference_importance c)"
  by (auto simp: reference_attrs_def attrs_of_def reference_episode_def or_text_def escapeXmlAttr_eq split: option.splits list.splits)

lemma tier_digits: "show_base 10 (Suc 0) = ''1''" "show_base 10 2 = ''2''" "show_base 10 3 = ''3''" "show_base 10 4 = ''4''"
  by code_simp+

lemma printed_reference: "renderSessionRefCompartment c = wrapped (reference_attrs c) (reference_body c)"
  by (auto simp: renderSessionRefCompartment_def reference_body_def wrapped_def or_text_def p4_text_def tier_in_def tier_digits
    escapeXmlText_eq Let_def split: option.splits list.splits)

lemma reference_attrs_ok:
  assumes "referable c"
  shows "attrs_ok (reference_attrs c)"
  unfolding reference_attrs_of by (rule attrs_of_facts) (use assms in \<open>simp_all add: referable_def\<close>)

lemma open_free: "no_start (CHR ''<'' # w) (escape_with markup s) y" "no_start (CHR ''<'' # w) nl y"
  by (rule no_start_char, simp_all add: nl_def)+

lemma reference_body_ok: "body_ok (reference_body c)"
  by (simp add: body_ok_def reference_body_def p4_text_def tier_in_def open_free show_digit digit_char_def)

lemma reference_tiers:
  assumes "referable c" "or_text (pc_p1 c) \<noteq> []"
  shows "extractTier (reference_body c) 0 = Some (or_text (pc_p1 c))" "extractTier (reference_body c) 1 = Some (or_text (pc_p2 c))"
    "extractTier (reference_body c) 2 = Some (or_text (pc_p3 c))" "extractTier (reference_body c) 3 = Some (or_text (pc_p4 c))"
proof -
  let ?t = "tier_in nl markup" and ?p1 = "or_text (pc_p1 c)" and ?p2 = "or_text (pc_p2 c)" and ?p3 = "or_text (pc_p3 c)" and ?p4 = "or_text (pc_p4 c)"
  have ok: "tier_ok ?p1" "tier_ok ?p2" "tier_ok ?p3" "tier_ok ?p4" using assms by (simp_all add: referable_def)
  have body: "reference_body c = nl @ ?t 1 ?p1 @ nl @ ?t 2 ?p2 @ nl @ ?t 3 ?p3 @ nl @ p4_text ?p4 @ nl"
    using assms(2) by (simp add: reference_body_def)
  have side: "list_all is_ws nl" "markup \<subseteq> specials" "markup \<subseteq> markup" by (simp_all add: nl_def is_ws_def)
  note found = tier_found [where w = nl and D = markup, OF _ _ _ side]
  note s = tier_in_def show_digit digit_char_def open_free
  have "extractTier (nl @ ?t (Suc 0) ?p1 @ nl @ ?t 2 ?p2 @ nl @ ?t 3 ?p3 @ nl @ p4_text ?p4 @ nl) 0 = Some ?p1"
    by (rule found) (simp_all add: ok s)
  then show "extractTier (reference_body c) 0 = Some ?p1" by (simp add: body)
  have "extractTier ((nl @ ?t 1 ?p1 @ nl) @ ?t (Suc 1) ?p2 @ nl @ ?t 3 ?p3 @ nl @ p4_text ?p4 @ nl) 1 = Some ?p2"
    by (rule found) (simp_all add: ok s)
  then show "extractTier (reference_body c) 1 = Some ?p2" by (simp add: body numeral_2_eq_2)
  have "extractTier ((nl @ ?t 1 ?p1 @ nl @ ?t 2 ?p2 @ nl) @ ?t (Suc 2) ?p3 @ nl @ p4_text ?p4 @ nl) 2 = Some ?p3"
    by (rule found) (simp_all add: ok s)
  then show "extractTier (reference_body c) 2 = Some ?p3" by (simp add: body eval_nat_numeral)
  have p4: "extractTier ((nl @ ?t 1 ?p1 @ nl @ ?t 2 ?p2 @ nl @ ?t 3 ?p3 @ nl) @ p4_text ?p4 @ nl) 3 = Some ?p4"
  proof (cases "?p4 = []")
    case True
    have "extractTier ((nl @ ?t 1 ?p1 @ nl @ ?t 2 ?p2 @ nl @ ?t 3 ?p3 @ nl) @ ''<p'' @ show_base 10 (Suc 3) @ ''/>'' @ nl) 3 = Some []"
      by (rule tier_self_closing) (simp add: s)
    then show ?thesis using tier_digits(4) by (simp add: p4_text_def True)
  next
    case False
    have "extractTier ((nl @ ?t 1 ?p1 @ nl @ ?t 2 ?p2 @ nl @ ?t 3 ?p3 @ nl) @ ?t (Suc 3) ?p4 @ nl) 3 = Some ?p4"
      by (rule found) (simp_all add: ok s)
    then show ?thesis using False by (simp add: p4_text_def eval_nat_numeral)
  qed
  then show "extractTier (reference_body c) 3 = Some ?p4" by (simp add: body)
qed

lemma reference_parses:
  assumes "referable c"
  shows "parse_compartment (reference_attrs c) (reference_body c) = Some (read_back c)"
proof -
  have ep: "attribute_ok x" if "reference_episode c = Some x" for x
    using assms that by (auto simp: referable_def reference_episode_def or_text_def split: if_splits)
  have r: "0 \<le> pc_startMessage c" "0 \<le> pc_endMessage c" "attribute_ok (pc_title c)" "pc_title c \<noteq> []" "0 \<le> reference_importance c"
    using assms by (simp_all add: referable_def)
  note a = printed_attributes [where episode = "reference_episode c", OF r(1,2,3) ep r(5), folded reference_attrs_of]
  show ?thesis
  proof (cases "or_text (pc_p1 c) = []")
    case True
    have c: "tier_ok (pc_content c)" "pc_content c \<noteq> []" using assms True by (simp_all add: referable_def)
    have ws: "list_all is_ws nl" by (simp add: nl_def is_ws_def)
    have b: "reference_body c = nl @ escape_with markup (pc_content c) @ nl" using True by (simp add: reference_body_def)
    have "CHR ''<'' \<notin> set (reference_body c)" by (simp add: b nl_def)
    then have "extractTier (reference_body c) 0 = None" by (rule no_tier)
    moreover have "unescapeXml (js_trim (reference_body c)) = pc_content c"
      unfolding b trim_surround [OF ws ws] using c(1) by (simp add: tier_ok_def trim_escape unescape_escape)
    ultimately show ?thesis
      using a r(4) c(2) True by (simp add: parse_compartment_def read_back_def Let_def reference_episode_def)
  next
    case False
    then obtain x xs where x: "pc_p1 c = Some (x # xs)" by (cases "pc_p1 c"; cases "or_text (pc_p1 c)") (auto simp: or_text_def)
    show ?thesis
      using a r(4) False reference_tiers [OF assms False]
      by (simp add: parse_compartment_def read_back_def Let_def reference_episode_def x or_text_def or_else_def)
  qed
qed

text \<open>The block as compartments one after the other.\<close>

fun reference_blocks :: "parsed_compartment list \<Rightarrow> (string \<times> string \<times> string) list" where
  "reference_blocks [] = []"
| "reference_blocks [c] = [(reference_attrs c, reference_body c, [])]"
| "reference_blocks (c # d # cs) = (reference_attrs c, reference_body c, nl @ nl) # reference_blocks (d # cs)"

lemma joined_references: "join (nl @ nl) (map renderSessionRefCompartment cs) = blocks_text (reference_blocks cs)"
  by (induction cs rule: reference_blocks.induct) (simp_all add: blocks_text_def printed_reference)

lemma reference_blocks_ok: "\<forall>c\<in>set cs. referable c \<Longrightarrow> blocks_ok (reference_blocks cs)"
  by (induction cs rule: reference_blocks.induct) (auto simp: blocks_ok_def reference_attrs_ok reference_body_ok nl_def)

lemma reference_blocks_parse:
  "\<forall>c\<in>set cs. referable c \<Longrightarrow> List.map_filter (\<lambda>(A, B, w). parse_compartment A B) (reference_blocks cs) = map read_back cs"
  by (induction cs rule: reference_blocks.induct) (simp_all add: List.map_filter_simps reference_parses)

lemma recent_nonempty: "cs \<noteq> [] \<Longrightarrow> recent_references cs \<noteq> []"
  by (cases cs) (auto simp: recent_references_def SESSION_REF_WINDOW_def)

section \<open>Properties\<close>

text \<open>
  C35: The references the historian is shown are in the format its answers are read in: the parser reads the block,
  among any other text that holds no compartment, as the last six compartments with their ranges, titles, types,
  importance and tiers, and the flat ones with their content. The texts may hold any characters; they must not
  themselves spell \<open>&lt;\<close>, \<open>&gt;\<close>, \<open>&quot;\<close> or \<open>&apos;\<close>, which the parser undoes twice, an attribute must not
  end in an equals sign, and tiers have no white space at the ends.
\<close>

theorem references_parse_back:
  assumes "cs \<noteq> []" "\<forall>c\<in>set (recent_references cs). referable c"
    and "\<not> str_includes ''<compartment'' pre" "\<not> str_includes ''<compartment'' post"
  shows "po_compartments (parseCompartmentOutput (pre @ renderSessionReferencesBlock cs @ post))
    = sort_key pc_startMessage (map read_back (recent_references cs))"
proof -
  let ?bs = "reference_blocks (recent_references cs)" and ?open = "''<session_references>'' @ nl" and ?close = "nl @ ''</session_references>''"
  have block: "pre @ renderSessionReferencesBlock cs @ post = (pre @ ?open) @ blocks_text ?bs @ (?close @ post)"
    using assms(1) by (simp add: renderSessionReferencesBlock_def joined_references)
  have "no_start ''<compartment'' pre (CHR ''<'' # y)" for y by (rule no_start_open [OF includes_start [OF assms(3)]]) simp
  then have pre: "no_start ''<compartment'' (pre @ ?open) (blocks_text ?bs @ ?close @ post)" by (simp add: nl_def)
  have post: "no_start ''<compartment'' (?close @ post) []" using includes_start [OF assms(4)] by (simp add: nl_def)
  from parse_blocks [OF reference_blocks_ok [OF assms(2)] pre post] reference_blocks_parse [OF assms(2)]
  have "compartments_of (pre @ renderSessionReferencesBlock cs @ post) = map read_back (recent_references cs)" unfolding block by simp
  then show ?thesis by (simp add: parseCompartmentOutput_def)
qed

definition flat_compartment :: parsed_compartment where
  "flat_compartment = \<lparr>pc_startMessage = 1, pc_endMessage = 4, pc_title = ''Q & A'', pc_content = ''x < y && z'', pc_p1 = None,
     pc_p2 = None, pc_p3 = None, pc_p4 = None, pc_importance = None, pc_episodeType = None\<rparr>"

theorem references_parse_back_witness:
  "po_compartments (parseCompartmentOutput ([] @ renderSessionReferencesBlock [flat_compartment, example_compartment 5 9] @ []))
    = [flat_compartment\<lparr>pc_importance := Some 50\<rparr>, example_compartment 5 9]"
proof -
  let ?cs = "[flat_compartment, example_compartment 5 9]"
  have recent: "recent_references ?cs = ?cs" by (simp add: recent_references_def SESSION_REF_WINDOW_def)
  note facts = referable_def attribute_ok_def tier_ok_def readable_def starts_with_def trim_fixed is_ws_def or_text_def reference_importance_def
  have "\<forall>c\<in>set (recent_references ?cs). referable c"
    unfolding recent by (simp add: flat_compartment_def example_compartment_def facts)
  from references_parse_back [OF _ this, of "[]" "[]"] show ?thesis
    unfolding recent by (simp add: read_back_def Let_def or_text_def reference_importance_def flat_compartment_def example_compartment_def)
qed

end
