(* ===== verification/Decay_Curve.thy ===== *)
theory Decay_Curve
  imports Prelude
begin

text \<open>
  The decay curve (\<open>hooks/magic-context/decay-curve.ts\<close>): which of the four paraphrases of a compartment is
  rendered, given its distance from the newest, its importance and the pressure on the budget, and when it is
  archived. Numbers are real; the rounding of double arithmetic is not modelled.
\<close>

section \<open>Tiers\<close>

definition H50 :: real where [config_simps]: "H50 = 24"
definition D :: real where [config_simps]: "D = 25"
definition G :: real where [config_simps]: "G = 2"
definition Z1 :: real where [config_simps]: "Z1 = 0.201"
definition Z2 :: real where [config_simps]: "Z2 = 0.729"
definition Z3 :: real where [config_simps]: "Z3 = 1.322"
definition Z4 :: real where [config_simps]: "Z4 = 2.587"
definition P_FLOOR :: real where [config_simps]: "P_FLOOR = 0.1"
definition TIER_COST :: "real list" where [config_simps]: "TIER_COST = [0, 322, 109, 35, 20, 5]"

definition decay_age :: "int \<Rightarrow> real \<Rightarrow> real \<Rightarrow> real" where
  "decay_age compartmentIndex importance budgetPressure =
     (let a = of_int (max compartmentIndex 1 - 1);
          imp = max 1 (min 100 importance);
          p = max budgetPressure P_FLOOR;
          F = 2 powr ((imp - 50) / D);
          H = H50 * F / p
      in a / H)"

definition decay_tier :: "int \<Rightarrow> real \<Rightarrow> real \<Rightarrow> nat" where
  "decay_tier compartmentIndex importance budgetPressure =
     (let z = decay_age compartmentIndex importance budgetPressure
      in if z < Z1 then 1 else if z < Z2 then 2 else if z < Z3 then 3 else if z < Z4 then 4 else 5)"

definition shouldArchive :: "int \<Rightarrow> real \<Rightarrow> real \<Rightarrow> real \<Rightarrow> bool" where
  "shouldArchive compartmentIndex importance budgetPressure anchorOverlap =
     (Z4 + G * max 0 (min 1 anchorOverlap) \<le> decay_age compartmentIndex importance budgetPressure)"

definition renderedTier :: "int \<Rightarrow> real \<Rightarrow> real \<Rightarrow> real \<Rightarrow> nat" where
  "renderedTier compartmentIndex importance budgetPressure anchorOverlap =
     (if shouldArchive compartmentIndex importance budgetPressure anchorOverlap then 5
      else min (decay_tier compartmentIndex importance budgetPressure) 4)"

section \<open>Pressure\<close>

definition tier_cost :: "nat \<Rightarrow> real" where
  "tier_cost t = (if 5 \<le> t then 0 else TIER_COST ! t)"

definition natural_cost :: "(int \<times> real) list \<Rightarrow> real \<Rightarrow> real" where
  "natural_cost compartments p = sum_list (map (\<lambda>(i, imp). tier_cost (decay_tier i imp p)) compartments)"

definition computeBudgetPressure :: "(int \<times> real) list \<Rightarrow> real \<Rightarrow> real" where
  "computeBudgetPressure compartments historyBudget =
     (if historyBudget \<le> 0 then 1 else max P_FLOOR (natural_cost compartments 1 / historyBudget))"

definition computeBudgetPressureTwoPass :: "(int \<times> real) list \<Rightarrow> real \<Rightarrow> real" where
  "computeBudgetPressureTwoPass compartments historyBudget =
     (if historyBudget \<le> 0 then 1
      else
        let p = computeBudgetPressure compartments historyBudget;
            actualCost = natural_cost compartments p
        in max P_FLOOR (if historyBudget * 1.1 < actualCost then p * (actualCost / historyBudget) else p))"

section \<open>The age\<close>

lemma floor_pos: "0 < max p P_FLOOR"
  by (simp add: P_FLOOR_def)

lemma half_life_pos: "0 < H50 * 2 powr ((imp - 50) / D) / max p P_FLOOR"
  using floor_pos [of p] by (simp add: H50_def)

lemma decay_age_nonneg: "0 \<le> decay_age i imp p"
  unfolding decay_age_def Let_def by (intro divide_nonneg_pos half_life_pos) simp

lemma decay_age_mono:
  assumes "i \<le> i'" "imp' \<le> imp" "p \<le> p'"
  shows "decay_age i imp p \<le> decay_age i' imp' p'"
proof -
  let ?H = "\<lambda>imp p. H50 * 2 powr ((max 1 (min 100 imp) - 50) / D) / max p P_FLOOR"
  have "max 1 (min 100 imp') \<le> max 1 (min 100 imp)" using assms(2) by simp
  then have "(2::real) powr ((max 1 (min 100 imp') - 50) / D) \<le> 2 powr ((max 1 (min 100 imp) - 50) / D)"
    by (intro powr_mono) (simp_all add: D_def divide_right_mono)
  then have "?H imp' p' \<le> ?H imp p"
    using assms(3) floor_pos [of p] by (intro frac_le) (auto simp: H50_def)
  moreover have "(of_int (max i 1 - 1) :: real) \<le> of_int (max i' 1 - 1)" using assms(1) by simp
  ultimately show ?thesis
    unfolding decay_age_def Let_def using half_life_pos [of "max 1 (min 100 imp')" p']
    by (intro frac_le [of "of_int (max i' 1 - 1)"]) simp_all
qed

lemma decay_age_ge: "of_int (i - 1) / 960 \<le> decay_age i imp p"
proof -
  have "(2::real) powr ((max 1 (min 100 imp) - 50) / D) \<le> 2 powr 2"
    by (intro powr_mono) (auto simp: D_def)
  then have "H50 * 2 powr ((max 1 (min 100 imp) - 50) / D) / max p P_FLOOR \<le> 96 / P_FLOOR"
    by (intro frac_le) (auto simp: H50_def P_FLOOR_def)
  then have "H50 * 2 powr ((max 1 (min 100 imp) - 50) / D) / max p P_FLOOR \<le> 960" by (simp add: P_FLOOR_def)
  moreover have "(of_int (i - 1) :: real) \<le> of_int (max i 1 - 1)" by simp
  ultimately show ?thesis
    unfolding decay_age_def Let_def using half_life_pos [of "max 1 (min 100 imp)" p]
    by (intro frac_le) simp_all
qed

lemma tier_mono_age: "decay_age i imp p \<le> decay_age i' imp' p' \<Longrightarrow> decay_tier i imp p \<le> decay_tier i' imp' p'"
  by (simp add: decay_tier_def Let_def Z1_def Z2_def Z3_def Z4_def)

lemma tier_range: "1 \<le> decay_tier i imp p \<and> decay_tier i imp p \<le> 5"
  by (simp add: decay_tier_def Let_def)

lemma renderedTier_range: "1 \<le> renderedTier i imp p ov \<and> renderedTier i imp p ov \<le> 5"
  using tier_range [of i imp p] by (auto simp: renderedTier_def)

lemma tier_five: "decay_tier i imp p = 5 \<longleftrightarrow> Z4 \<le> decay_age i imp p"
  by (simp add: decay_tier_def Let_def Z1_def Z2_def Z3_def Z4_def)

lemma renderedTier_mono:
  assumes "i \<le> i'" "imp' \<le> imp" "p \<le> p'" "ov' \<le> ov"
  shows "renderedTier i imp p ov \<le> renderedTier i' imp' p' ov'"
proof -
  have m: "decay_age i imp p \<le> decay_age i' imp' p'" by (rule decay_age_mono [OF assms(1-3)])
  have "G * max 0 (min 1 ov') \<le> G * max 0 (min 1 ov)" using assms(4) by (simp add: G_def)
  then have "shouldArchive i imp p ov \<Longrightarrow> shouldArchive i' imp' p' ov'"
    using m by (simp add: shouldArchive_def)
  with tier_mono_age [OF m] tier_range [of i imp p] tier_range [of i' imp' p'] show ?thesis
    by (auto simp: renderedTier_def)
qed

lemma computeBudgetPressure_ge: "P_FLOOR \<le> computeBudgetPressure cs b"
  proof (cases "b \<le> 0")
  case True
  then show ?thesis by (simp add: computeBudgetPressure_def P_FLOOR_def)
qed (simp add: computeBudgetPressure_def)

section \<open>Properties\<close>

text \<open>
  The curve decays: an older, less important compartment under more pressure and with less overlap never gets a
  denser paraphrase, the newest compartment has the densest one, and every compartment is archived in the end,
  whatever its importance, the pressure and the overlap, at the latest at position 4405.
\<close>

theorem decay_is_monotone_and_finite:
  "(i \<le> i' \<and> imp' \<le> imp \<and> p \<le> p' \<and> ov' \<le> ov \<longrightarrow> renderedTier i imp p ov \<le> renderedTier i' imp' p' ov')
   \<and> renderedTier 1 imp p ov = 1
   \<and> (4405 \<le> i \<longrightarrow> renderedTier i imp p ov = 5)
   \<and> (renderedTier i imp p ov = 5 \<longrightarrow> decay_tier i imp p = 5)"
proof (intro conjI impI)
  assume "i \<le> i' \<and> imp' \<le> imp \<and> p \<le> p' \<and> ov' \<le> ov"
  then show "renderedTier i imp p ov \<le> renderedTier i' imp' p' ov'" by (intro renderedTier_mono) simp_all
next
  have ov: "0 \<le> G * max 0 (min 1 ov)" by (simp add: G_def)
  have "decay_age 1 imp p = 0" by (simp add: decay_age_def Let_def)
  then show "renderedTier 1 imp p ov = 1"
    using ov by (simp add: renderedTier_def shouldArchive_def decay_tier_def Z4_def Z1_def)
next
  assume "4405 \<le> i"
  then have "(4404 :: real) / 960 \<le> of_int (i - 1) / 960" by (intro divide_right_mono) auto
  then have "4404 / 960 \<le> decay_age i imp p" using decay_age_ge [of i imp p] by linarith
  then show "renderedTier i imp p ov = 5"
    by (simp add: renderedTier_def shouldArchive_def Z4_def G_def max_def min_def)
next
  assume "renderedTier i imp p ov = 5"
  then have "shouldArchive i imp p ov" by (auto simp: renderedTier_def split: if_splits)
  then have "Z4 \<le> decay_age i imp p" by (simp add: shouldArchive_def G_def max_def min_def split: if_splits)
  then show "decay_tier i imp p = 5" by (simp add: tier_five)
qed

theorem decay_is_monotone_and_finite_witness:
  "renderedTier 4405 100 0 1 = 5 \<and> renderedTier 2 90 0.5 0 \<le> renderedTier 7 10 1 0"
  using decay_is_monotone_and_finite [of 4405 4405 100 100 0 0 1 1]
    decay_is_monotone_and_finite [of 2 7 10 90 "0.5" 1 0 0] by simp

end
