(* ===== verification/Decay_Render.thy ===== *)
theory Decay_Render
  imports Decay_Curve Raw_Messages
begin

text \<open>
  The rendering of the compartments under a token budget (\<open>hooks/magic-context/decay-render.ts\<close>): the text of a
  compartment at a tier, the tier the decay curve gives it, and the demotion of the oldest compartments
  until the joined text fits. The memo tables of the source hold values of pure functions and are left out.
  Two characters outside the code units of the model, the arrow and the ellipsis, are arguments.
\<close>

section \<open>The text of a compartment\<close>

record glyphs =
  gl_arrow :: string
  gl_ellipsis :: string

record decay_compartment =
  dc_startMessage :: int
  dc_endMessage :: int
  dc_title :: string
  dc_content :: string
  dc_startDate :: "string option"
  dc_endDate :: "string option"
  dc_p1 :: "string option"
  dc_p2 :: "string option"
  dc_p3 :: "string option"
  dc_p4 :: "string option"
  dc_importance :: "real option"
  dc_legacy :: bool

definition escape_xml_char :: "char \<Rightarrow> string" where
  "escape_xml_char c =
     (if c = CHR ''&'' then ''&amp;'' else if c = CHR ''<'' then ''&lt;'' else if c = CHR ''>'' then ''&gt;'' else [c])"

definition escapeXmlContent :: "string \<Rightarrow> string" where
  "escapeXmlContent s = concat (map escape_xml_char s)"

definition opt_text :: "string option \<Rightarrow> string" where
  "opt_text d = (case d of None \<Rightarrow> [] | Some s \<Rightarrow> s)"

definition formatDateRange :: "glyphs \<Rightarrow> string option \<Rightarrow> string option \<Rightarrow> string" where
  "formatDateRange gl startDate endDate =
     (let s = opt_text startDate; e = opt_text endDate
      in if s = [] \<or> e = [] then []
         else if s = e then s
         else if take 7 s = take 7 e then s @ gl_arrow gl @ drop 8 e
         else s @ gl_arrow gl @ e)"

text \<open>The class \<open>Cc\<close>; the line and paragraph separators are outside the code units of the model.\<close>

definition is_control :: "char \<Rightarrow> bool" where
  "is_control c = ((of_char c :: nat) < 32 \<or> (127 \<le> (of_char c :: nat) \<and> (of_char c :: nat) < 160))"

fun collapse_controls :: "bool \<Rightarrow> string \<Rightarrow> string" where
  "collapse_controls in_run [] = []"
| "collapse_controls in_run (c # cs) =
     (if is_control c then (if in_run then collapse_controls True cs else CHR '' '' # collapse_controls True cs)
      else c # collapse_controls False cs)"

definition sanitizeCompartmentTitle :: "string \<Rightarrow> string" where
  "sanitizeCompartmentTitle title = escapeXmlContent (collapse_controls False title)"

definition MIDDLE_DOT :: string where "MIDDLE_DOT = [CHR '' '', CHR 0xB7, CHR '' '']"

definition compartmentHeading :: "glyphs \<Rightarrow> decay_compartment \<Rightarrow> string" where
  "compartmentHeading gl c =
     (let dateRange = formatDateRange gl (dc_startDate c) (dc_endDate c);
          dateSegment = (if dateRange = [] then [] else MIDDLE_DOT @ dateRange)
      in ''## '' @ show_int (dc_startMessage c) @ ''-'' @ show_int (dc_endMessage c) @ dateSegment @ MIDDLE_DOT
         @ sanitizeCompartmentTitle (dc_title c))"

definition is_line_end :: "char \<Rightarrow> bool" where
  "is_line_end c = (of_char c \<in> {10, 13 :: nat})"

text \<open>\<open>body.replace(/^## /gm, " ## ")\<close>; the flag says that a line begins here.\<close>

function guard_lines :: "bool \<Rightarrow> string \<Rightarrow> string" where
  "guard_lines bol s =
     (if bol \<and> starts_with ''## '' s then '' ## '' @ guard_lines False (drop 3 s)
      else case s of [] \<Rightarrow> [] | c # cs \<Rightarrow> c # guard_lines (is_line_end c) cs)"
  by pat_completeness auto
termination
proof (relation "measure (\<lambda>(bol, s). length s)")
  show "bol \<and> starts_with ''## '' s \<Longrightarrow> ((False, drop 3 s), bol, s) \<in> measure (\<lambda>(bol, s). length s)" for bol s
    by (cases s) (auto simp: starts_with_def)
qed auto

declare guard_lines.simps [simp del]

definition guardCompartmentBody :: "string \<Rightarrow> string" where
  "guardCompartmentBody body = guard_lines True body"

definition isTieredRow :: "decay_compartment \<Rightarrow> bool" where
  "isTieredRow c = (opt_text (dc_p1 c) \<noteq> [])"

definition tiers_of :: "decay_compartment \<Rightarrow> string option list" where
  "tiers_of c = [dc_p1 c, dc_p2 c, dc_p3 c, dc_p4 c]"

text \<open>The loop looks at the denser tiers, the nearest first.\<close>

fun denser_body :: "string option list \<Rightarrow> string option" where
  "denser_body [] = None"
| "denser_body (t # ts) =
     (case t of Some s \<Rightarrow> (if s \<noteq> [] then Some s else denser_body ts) | None \<Rightarrow> denser_body ts)"

definition tierBody :: "decay_compartment \<Rightarrow> nat \<Rightarrow> string" where
  "tierBody c t =
     (case tiers_of c ! (t - 1) of
        Some s \<Rightarrow> js_trim s
      | None \<Rightarrow> (case denser_body (rev (take (t - 1) (tiers_of c))) of
          Some s \<Rightarrow> js_trim s
        | None \<Rightarrow> js_trim (dc_content c)))"

definition js_trim_end :: "string \<Rightarrow> string" where
  "js_trim_end s = rev (dropWhile is_ws (rev s))"

definition legacyBodyForTier :: "glyphs \<Rightarrow> string \<Rightarrow> nat \<Rightarrow> string" where
  "legacyBodyForTier gl content t =
     (if t \<le> 1 then content
      else if t = 2 then (if 1200 < length content then js_trim_end (take 1200 content) @ gl_ellipsis gl else content)
      else (if 420 < length content then js_trim_end (take 420 content) @ gl_ellipsis gl else content))"

fun has_user_line :: "bool \<Rightarrow> string \<Rightarrow> bool" where
  "has_user_line bol [] = False"
| "has_user_line bol (c # cs) = ((bol \<and> starts_with ''U:'' (c # cs)) \<or> has_user_line (is_line_end c) cs)"

definition legacyTier :: "decay_compartment \<Rightarrow> nat" where
  "legacyTier c = (if has_user_line True (dc_content c) then 3 else 4)"

definition renderOneCompartment :: "glyphs \<Rightarrow> decay_compartment \<Rightarrow> nat \<Rightarrow> string" where
  "renderOneCompartment gl c t =
     (if 5 \<le> t then []
      else
        let heading = compartmentHeading gl c
        in if dc_legacy c \<or> \<not> isTieredRow c then
             (let flat = js_trim (dc_content c)
              in if 4 \<le> t \<or> flat = [] then heading
                 else heading @ [CHR 0x0A] @ guardCompartmentBody (escapeXmlContent (legacyBodyForTier gl flat t)))
           else
             (let body = tierBody c t
              in if body = [] then heading else heading @ [CHR 0x0A] @ guardCompartmentBody (escapeXmlContent body)))"

section \<open>Tiers of a session\<close>

definition importance_of :: "decay_compartment \<Rightarrow> real" where
  "importance_of c = (case dc_importance c of None \<Rightarrow> 50 | Some n \<Rightarrow> n)"

text \<open>The position of a row among the current rows, counted from the newest: the current rows from it on.\<close>

definition curve_index :: "decay_compartment list \<Rightarrow> int" where
  "curve_index from_here = int (length (filter (\<lambda>c. \<not> dc_legacy c) from_here))"

fun curve_inputs :: "decay_compartment list \<Rightarrow> (int \<times> real) list" where
  "curve_inputs [] = []"
| "curve_inputs (c # cs) =
     (if dc_legacy c then curve_inputs cs
      else (curve_index (c # cs), max 1 (min 100 (importance_of c))) # curve_inputs cs)"

fun tiers_under :: "real \<Rightarrow> decay_compartment list \<Rightarrow> nat list" where
  "tiers_under pressure [] = []"
| "tiers_under pressure (c # cs) =
     (if dc_legacy c then legacyTier c else renderedTier (curve_index (c # cs)) (importance_of c) pressure 0)
     # tiers_under pressure cs"

definition computeTiers :: "decay_compartment list \<Rightarrow> int \<Rightarrow> nat list" where
  "computeTiers compartments historyBudgetTokens =
     (let pressure = (if 0 < historyBudgetTokens
            then computeBudgetPressure (curve_inputs compartments) (of_int historyBudgetTokens) else 1)
      in tiers_under pressure compartments)"

section \<open>Demotion\<close>

definition render_at :: "glyphs \<Rightarrow> decay_compartment list \<Rightarrow> nat list \<Rightarrow> string" where
  "render_at gl compartments tiers =
     join [CHR 0x0A, CHR 0x0A] (filter (\<lambda>s. s \<noteq> []) (map (\<lambda>(c, t). renderOneCompartment gl c t) (zip compartments tiers)))"

definition rendered_tokens_at :: "runtime \<Rightarrow> glyphs \<Rightarrow> decay_compartment \<Rightarrow> nat \<Rightarrow> int" where
  "rendered_tokens_at rt gl c t =
     (let rendered = renderOneCompartment gl c t in if rendered = [] then 0 else estimateTokens rt rendered)"

record demotion =
  dm_tiers :: "nat list"
  dm_running :: int
  dm_oldest :: nat

text \<open>The first index from \<open>i\<close> on whose tier can still be demoted, the length when there is none.\<close>

function skip_archived :: "nat list \<Rightarrow> nat \<Rightarrow> nat" where
  "skip_archived tiers i = (if i < length tiers \<and> 5 \<le> tiers ! i then skip_archived tiers (i + 1) else i)"
  by pat_completeness auto
termination
  by (relation "measure (\<lambda>(tiers, i). length tiers - i)") auto

declare skip_archived.simps [simp del]

definition demoteOldest :: "runtime \<Rightarrow> glyphs \<Rightarrow> decay_compartment list \<Rightarrow> demotion \<Rightarrow> demotion option" where
  "demoteOldest rt gl compartments dm =
     (let index = skip_archived (dm_tiers dm) (dm_oldest dm)
      in if length (dm_tiers dm) \<le> index then None
         else
           let previousTier = dm_tiers dm ! index; nextTier = previousTier + 1; c = compartments ! index
           in Some \<lparr>dm_tiers = (dm_tiers dm)[index := nextTier],
                dm_running = dm_running dm + (rendered_tokens_at rt gl c nextTier - rendered_tokens_at rt gl c previousTier),
                dm_oldest = index\<rparr>)"

text \<open>Both loops: demote while too long, as long as the guard and the compartments last.\<close>

fun demote_while :: "(demotion \<Rightarrow> bool) \<Rightarrow> (demotion \<Rightarrow> demotion option) \<Rightarrow> nat \<Rightarrow> demotion \<Rightarrow> nat \<times> demotion" where
  "demote_while over demote 0 dm = (0, dm)"
| "demote_while over demote (Suc guard) dm =
     (if over dm then (case demote dm of None \<Rightarrow> (Suc guard, dm) | Some dm' \<Rightarrow> demote_while over demote guard dm')
      else (Suc guard, dm))"

definition initial_demotion :: "runtime \<Rightarrow> glyphs \<Rightarrow> decay_compartment list \<Rightarrow> int \<Rightarrow> demotion" where
  "initial_demotion rt gl compartments historyBudgetTokens =
     (let tiers = computeTiers compartments historyBudgetTokens
      in \<lparr>dm_tiers = tiers, dm_running = sum_list (map (\<lambda>(c, t). rendered_tokens_at rt gl c t) (zip compartments tiers)), dm_oldest = 0\<rparr>)"

definition demoted :: "runtime \<Rightarrow> glyphs \<Rightarrow> decay_compartment list \<Rightarrow> int \<Rightarrow> demotion" where
  "demoted rt gl compartments historyBudgetTokens =
     (let dm0 = initial_demotion rt gl compartments historyBudgetTokens;
          demote = demoteOldest rt gl compartments;
          (guard, dm1) = demote_while (\<lambda>dm. historyBudgetTokens < dm_running dm) demote (length compartments * 5) dm0
      in snd (demote_while (\<lambda>dm. historyBudgetTokens < estimateTokens rt (render_at gl compartments (dm_tiers dm)))
           demote guard dm1))"

definition final_tiers :: "runtime \<Rightarrow> glyphs \<Rightarrow> decay_compartment list \<Rightarrow> int \<Rightarrow> nat list" where
  "final_tiers rt gl compartments historyBudgetTokens =
     (if historyBudgetTokens \<le> 0 then computeTiers compartments historyBudgetTokens
      else dm_tiers (demoted rt gl compartments historyBudgetTokens))"

definition renderDecayedCompartments :: "runtime \<Rightarrow> glyphs \<Rightarrow> decay_compartment list \<Rightarrow> int \<Rightarrow> string" where
  "renderDecayedCompartments rt gl compartments historyBudgetTokens =
     (if compartments = [] then [] else render_at gl compartments (final_tiers rt gl compartments historyBudgetTokens))"

section \<open>Headings\<close>

text \<open>The number of lines that begin with the mark of a heading.\<close>

fun headings :: "bool \<Rightarrow> string \<Rightarrow> nat" where
  "headings bol [] = 0"
| "headings bol (c # cs) = (if bol \<and> starts_with ''## '' (c # cs) then 1 else 0) + headings (is_line_end c) cs"

definition one_line :: "string \<Rightarrow> bool" where
  "one_line s = list_all (\<lambda>c. \<not> is_line_end c) s"

lemma one_line_append [simp]: "one_line (xs @ ys) = (one_line xs \<and> one_line ys)"
  by (simp add: one_line_def)

lemma one_line_Nil [simp]: "one_line []"
  by (simp add: one_line_def)

lemma one_line_Cons [simp]: "one_line (x # xs) = (\<not> is_line_end x \<and> one_line xs)"
  by (simp add: one_line_def)

lemma starts_with_before: "n \<notin> set p \<Longrightarrow> starts_with p (xs @ n # ys) = starts_with p xs"
proof (induction p arbitrary: xs)
  case (Cons x p)
  then show ?case by (cases xs) (auto simp: starts_with_def)
qed (simp add: starts_with_def)

lemma headings_line: "headings b (xs @ CHR 0x0A # ys) = headings b xs + headings True ys"
proof (induction xs arbitrary: b)
  case (Cons x xs)
  have "starts_with ''## '' ((x # xs) @ CHR 0x0A # ys) = starts_with ''## '' (x # xs)"
    by (rule starts_with_before) simp
  then show ?case by (simp add: Cons)
qed (simp add: starts_with_def is_line_end_def)

lemma headings_one_line: "one_line xs \<Longrightarrow> headings False xs = 0"
  by (induction xs) (auto simp: one_line_def)

lemma guard_False: "guard_lines False (c # cs) = c # guard_lines (is_line_end c) cs"
  by (simp add: guard_lines.simps [of False "c # cs"])

lemma guard_Nil: "guard_lines b [] = []"
  by (simp add: guard_lines.simps [of b "[]"] starts_with_def)

lemma guard_keeps_mark:
  assumes "starts_with ''## '' (c # guard_lines (is_line_end c) cs)"
  shows "starts_with ''## '' (c # cs)"
proof -
  have c: "c = CHR ''#''" using assms by (simp add: starts_with_def)
  then have g: "take 2 (guard_lines False cs) = ''# ''" using assms by (simp add: starts_with_def is_line_end_def numeral_2_eq_2)
  then obtain d ds where cs: "cs = d # ds" by (cases cs) (auto simp: guard_Nil)
  then have d: "d = CHR ''#''" using g by (simp add: guard_False)
  then have "take 1 (guard_lines False ds) = '' ''" using g cs by (simp add: guard_False is_line_end_def numeral_2_eq_2)
  then obtain e es where ds: "ds = e # es" by (cases ds) (auto simp: guard_Nil)
  then have "e = CHR '' ''" using \<open>take 1 _ = _\<close> by (simp add: guard_False)
  then show ?thesis by (simp add: c d cs ds starts_with_def)
qed

lemma guarded_has_no_heading: "headings b (guard_lines b s) = 0"
proof (induction b s rule: guard_lines.induct)
  case (1 bol s)
  show ?case
  proof (cases "bol \<and> starts_with ''## '' s")
    case True
    have "headings True ('' ## '' @ guard_lines False (drop 3 s)) = headings False (guard_lines False (drop 3 s))"
      by (simp add: starts_with_def is_line_end_def)
    moreover have "guard_lines bol s = '' ## '' @ guard_lines False (drop 3 s)"
      using True by (simp add: guard_lines.simps [of True s])
    ultimately show ?thesis using 1(1) True by (simp only: simp_thms)
  next
    case False
    show ?thesis
    proof (cases s)
      case (Cons c cs)
      have "\<not> (bol \<and> starts_with ''## '' (c # guard_lines (is_line_end c) cs))"
        using False guard_keeps_mark [of c cs] Cons by auto
      moreover have "guard_lines bol s = c # guard_lines (is_line_end c) cs"
        by (subst guard_lines.simps) (simp only: False [unfolded Cons] if_False Cons list.case)
      ultimately show ?thesis using 1(2) [OF False Cons] by simp
    qed (simp add: guard_Nil)
  qed
qed

lemma one_line_escape: "one_line s \<Longrightarrow> one_line (escapeXmlContent s)"
  by (induction s) (auto simp: escapeXmlContent_def escape_xml_char_def one_line_def is_line_end_def)

lemma one_line_collapse: "one_line (collapse_controls b s)"
  by (induction b s rule: collapse_controls.induct)
    (auto simp: one_line_def is_control_def is_line_end_def)

lemma is_digit_no_end: "is_digit c \<Longrightarrow> \<not> is_line_end c"
  by (auto simp: is_digit_def is_line_end_def)

lemma one_line_show: "one_line (show_int n)"
  using show_base_digits [of "nat n"] show_base_digits [of "nat (- n)"]
  by (auto simp: show_int_def one_line_def all_digits_def list_all_iff is_digit_no_end is_line_end_def [of "CHR ''-''"])

definition plain_dates :: "glyphs \<Rightarrow> decay_compartment \<Rightarrow> bool" where
  "plain_dates gl c = (one_line (gl_arrow gl) \<and> one_line (opt_text (dc_startDate c)) \<and> one_line (opt_text (dc_endDate c)))"

lemma one_line_drop: "one_line s \<Longrightarrow> one_line (drop n s)"
  by (auto simp: one_line_def list_all_iff dest: in_set_dropD)

lemma heading_shape:
  assumes "plain_dates gl c"
  shows "\<exists>r. compartmentHeading gl c = ''## '' @ r \<and> one_line r"
proof -
  have "one_line (formatDateRange gl (dc_startDate c) (dc_endDate c))"
    using assms by (auto simp: formatDateRange_def Let_def plain_dates_def intro: one_line_drop)
  moreover have "one_line MIDDLE_DOT" by (simp add: MIDDLE_DOT_def one_line_def is_line_end_def)
  moreover have "\<not> is_line_end (CHR ''-'')" by (simp add: is_line_end_def)
  ultimately show ?thesis
    by (intro exI [where x = "drop 3 (compartmentHeading gl c)"])
      (simp add: compartmentHeading_def Let_def one_line_show sanitizeCompartmentTitle_def one_line_escape one_line_collapse)
qed

lemma headings_of_one:
  assumes "plain_dates gl c"
  shows "headings True (renderOneCompartment gl c t) = (if t < 5 then 1 else 0)"
proof -
  obtain r where r: "compartmentHeading gl c = ''## '' @ r" "one_line r" using heading_shape [OF assms] by blast
  have h: "headings True (''## '' @ r) = 1" using headings_one_line [OF r(2)] by (simp add: starts_with_def is_line_end_def)
  have "headings True (compartmentHeading gl c @ [CHR 0x0A] @ guardCompartmentBody b) = 1" for b
    using headings_line [of True "compartmentHeading gl c" "guardCompartmentBody b"]
    by (simp add: guardCompartmentBody_def guarded_has_no_heading h [unfolded r(1) [symmetric]])
  then show ?thesis using h r(1) by (simp add: renderOneCompartment_def Let_def)
qed

lemma headings_join:
  "headings True (join [CHR 0x0A, CHR 0x0A] ps) = sum_list (map (headings True) ps)"
proof (induction ps rule: induct_list012)
  case (3 x y zs)
  have "headings True (x @ [CHR 0x0A, CHR 0x0A] @ join [CHR 0x0A, CHR 0x0A] (y # zs))
      = headings True x + headings True ([] @ CHR 0x0A # join [CHR 0x0A, CHR 0x0A] (y # zs))"
    using headings_line [of True x "CHR 0x0A # join [CHR 0x0A, CHR 0x0A] (y # zs)"] by simp
  also have "headings True ([] @ CHR 0x0A # join [CHR 0x0A, CHR 0x0A] (y # zs)) = headings True (join [CHR 0x0A, CHR 0x0A] (y # zs))"
    using headings_line [of True "[]"] by simp
  finally show ?case using 3(2) by simp
qed simp_all

section \<open>Demotion\<close>

definition tiers_ok :: "nat list \<Rightarrow> bool" where
  "tiers_ok ts = list_all (\<lambda>t. 1 \<le> t \<and> t \<le> 5) ts"

lemma length_tiers_under [simp]: "length (tiers_under p cs) = length cs"
  by (induction cs) simp_all

lemma length_computeTiers [simp]: "length (computeTiers cs b) = length cs"
  by (simp add: computeTiers_def Let_def)

lemma tiers_ok_compute: "tiers_ok (computeTiers cs b)"
proof -
  have "tiers_ok (tiers_under p cs)" for p
    by (induction cs) (use renderedTier_range in \<open>auto simp: tiers_ok_def legacyTier_def\<close>)
  then show ?thesis by (simp add: computeTiers_def Let_def)
qed

lemma skip_archived_spec:
  "let j = skip_archived ts i in i \<le> j \<and> (\<forall>k. i \<le> k \<longrightarrow> k < j \<longrightarrow> 5 \<le> ts ! k) \<and> (j < length ts \<longrightarrow> ts ! j < 5)"
proof (induction ts i rule: skip_archived.induct)
  case (1 ts i)
  show ?case
  proof (cases "i < length ts \<and> 5 \<le> ts ! i")
    case True
    then have e: "skip_archived ts i = skip_archived ts (i + 1)" by (subst skip_archived.simps) simp
    from 1 [OF True] show ?thesis
      unfolding e Let_def using True by (metis Suc_eq_plus1 Suc_leD le_neq_implies_less Suc_leI)
  next
    case False
    then have "skip_archived ts i = i" by (subst skip_archived.simps) auto
    with False show ?thesis by (auto simp: not_le)
  qed
qed

text \<open>What a state of the loops keeps of the tiers it started from, and the room it has left.\<close>

definition demoted_from :: "nat list \<Rightarrow> demotion \<Rightarrow> bool" where
  "demoted_from ts0 dm \<longleftrightarrow> length (dm_tiers dm) = length ts0
     \<and> (\<forall>i < length ts0. ts0 ! i \<le> dm_tiers dm ! i \<and> dm_tiers dm ! i \<le> 5)
     \<and> (\<forall>i < length ts0. i < dm_oldest dm \<longrightarrow> dm_tiers dm ! i = 5)
     \<and> (\<forall>i < length ts0. dm_oldest dm < i \<longrightarrow> dm_tiers dm ! i = ts0 ! i)"

definition room :: "demotion \<Rightarrow> nat" where
  "room dm = sum_list (map (\<lambda>t. 5 - t) (dm_tiers dm))"

lemma room_update:
  "i < length ts \<Longrightarrow> ts ! i < 5 \<Longrightarrow> Suc (sum_list (map (\<lambda>t. 5 - t) (ts[i := Suc (ts ! i)]))) = sum_list (map (\<lambda>t. 5 - t) ts)"
proof (induction ts arbitrary: i)
  case (Cons t ts)
  then show ?case by (cases i) (auto simp: Suc_diff_Suc)
qed simp

lemma demote_step:
  assumes "demoted_from ts0 dm"
  shows "case demoteOldest rt gl cs dm of
      None \<Rightarrow> \<forall>i < length ts0. dm_tiers dm ! i = 5
    | Some dm' \<Rightarrow> demoted_from ts0 dm' \<and> Suc (room dm') = room dm"
proof -
  let ?ts = "dm_tiers dm" and ?j = "skip_archived (dm_tiers dm) (dm_oldest dm)"
  have inv: "length ?ts = length ts0" "\<And>i. i < length ts0 \<Longrightarrow> ts0 ! i \<le> ?ts ! i \<and> ?ts ! i \<le> 5"
    "\<And>i. i < length ts0 \<Longrightarrow> i < dm_oldest dm \<Longrightarrow> ?ts ! i = 5"
    "\<And>i. i < length ts0 \<Longrightarrow> dm_oldest dm < i \<Longrightarrow> ?ts ! i = ts0 ! i"
    using assms by (auto simp: demoted_from_def)
  have j: "dm_oldest dm \<le> ?j" "\<And>k. dm_oldest dm \<le> k \<Longrightarrow> k < ?j \<Longrightarrow> 5 \<le> ?ts ! k" "?j < length ?ts \<Longrightarrow> ?ts ! ?j < 5"
    using skip_archived_spec [of ?ts "dm_oldest dm"] by (auto simp: Let_def)
  have before: "?ts ! i = 5" if "i < length ts0" "i < ?j" for i
    using inv(2,3) [OF that(1)] j(2) [of i] that(2) by (cases "i < dm_oldest dm") auto
  show ?thesis
  proof (cases "length ?ts \<le> ?j")
    case True
    then show ?thesis using before inv(1) by (simp add: demoteOldest_def Let_def)
  next
    case False
    then have jl: "?j < length ts0" using inv(1) by simp
    have "demoted_from ts0 \<lparr>dm_tiers = ?ts[?j := Suc (?ts ! ?j)], dm_running = r, dm_oldest = ?j\<rparr>" for r
      using before inv(1,2,4) j(1) j(3) jl unfolding demoted_from_def
      by (auto simp: nth_list_update le_SucI Suc_le_eq)
    then show ?thesis
      using False room_update [of ?j ?ts] j(3) by (simp add: demoteOldest_def Let_def room_def)
  qed
qed

lemma demote_while_end:
  assumes "demoted_from ts0 dm" "room dm \<le> guard"
  shows "case demote_while over (demoteOldest rt gl cs) guard dm of (guard', dm') \<Rightarrow>
    demoted_from ts0 dm' \<and> room dm' \<le> guard' \<and> (\<not> over dm' \<or> (\<forall>i < length ts0. dm_tiers dm' ! i = 5))"
  using assms
proof (induction guard arbitrary: dm)
  case 0
  then have "sum_list (map (\<lambda>t. 5 - t) (dm_tiers dm)) = 0" by (simp add: room_def)
  then have "\<forall>t\<in>set (dm_tiers dm). 5 \<le> t" by (simp add: sum_list_eq_0_iff)
  then have "\<forall>i < length ts0. dm_tiers dm ! i = 5"
    using 0(1) by (auto simp: demoted_from_def intro!: antisym)
  then show ?case using 0 by simp
next
  case (Suc guard)
  show ?case
  proof (cases "over dm")
    case True
    show ?thesis
    proof (cases "demoteOldest rt gl cs dm")
      case None
      then show ?thesis using True demote_step [OF Suc.prems(1), of rt gl cs] Suc.prems by simp
    next
      case (Some dm')
      then have "demoted_from ts0 dm'" "room dm' \<le> guard"
        using demote_step [OF Suc.prems(1), of rt gl cs] Suc.prems(2) by auto
      from Suc.IH [OF this] show ?thesis using True Some by simp
    qed
  qed (use Suc.prems in simp)
qed

lemma demoted_end:
  fixes rt gl cs b
  defines "ts0 \<equiv> computeTiers cs b" and "dm \<equiv> demoted rt gl cs b"
  shows "demoted_from ts0 dm"
    and "estimateTokens rt (render_at gl cs (dm_tiers dm)) \<le> b \<or> (\<forall>i < length ts0. dm_tiers dm ! i = 5)"
proof -
  let ?dm0 = "initial_demotion rt gl cs b" and ?d = "demoteOldest rt gl cs"
  have l: "length ts0 = length cs" by (simp add: ts0_def)
  have "demoted_from ts0 ?dm0"
    using tiers_ok_compute [of cs b] by (auto simp: demoted_from_def initial_demotion_def Let_def ts0_def tiers_ok_def list_all_length)
  moreover have "sum_list (map (\<lambda>t. 5 - t) ts) \<le> length ts * 5" for ts :: "nat list"
    by (induction ts) auto
  then have "room ?dm0 \<le> length cs * 5"
    using l by (metis room_def initial_demotion_def demotion.select_convs(1) ts0_def)
  moreover obtain g dm1 where e: "demote_while (\<lambda>dm. b < dm_running dm) ?d (length cs * 5) ?dm0 = (g, dm1)" by (metis surj_pair)
  ultimately have 1: "demoted_from ts0 dm1" "room dm1 \<le> g"
    using demote_while_end [of ts0 ?dm0 "length cs * 5" "\<lambda>dm. b < dm_running dm" rt gl cs] by auto
  have "dm = snd (demote_while (\<lambda>dm. b < estimateTokens rt (render_at gl cs (dm_tiers dm))) ?d g dm1)"
    using e by (simp add: dm_def demoted_def Let_def)
  with demote_while_end [OF 1, of "\<lambda>dm. b < estimateTokens rt (render_at gl cs (dm_tiers dm))" rt gl cs]
  show "demoted_from ts0 dm"
    and "estimateTokens rt (render_at gl cs (dm_tiers dm)) \<le> b \<or> (\<forall>i < length ts0. dm_tiers dm ! i = 5)"
    by (auto split: prod.splits)
qed

section \<open>Properties\<close>

lemma all_archived_text:
  "length ts = length cs \<Longrightarrow> \<forall>i < length cs. ts ! i = 5 \<Longrightarrow> render_at gl cs ts = []"
proof -
  assume l: "length ts = length cs" and a: "\<forall>i < length cs. ts ! i = 5"
  have "map (\<lambda>(c, t). renderOneCompartment gl c t) (zip cs ts) = replicate (length cs) []"
    using l a by (intro nth_equalityI) (auto simp: renderOneCompartment_def)
  then show ?thesis by (simp add: render_at_def)
qed

text \<open>
  C15: The rendered history fits its budget: for a positive budget the text is within it, or nothing is left to
  render. Only the oldest compartments pay for that: below some position everything is archived, above it
  every compartment keeps the tier of the decay curve, and no compartment gets a denser one. When the curve's
  text fits, by parts and joined, no compartment is demoted.
\<close>

theorem decayed_history_fits_budget:
  assumes "0 < budget"
  shows "(let ts = final_tiers rt gl cs budget; ts0 = computeTiers cs budget; text = renderDecayedCompartments rt gl cs budget
     in (estimateTokens rt text \<le> budget \<or> text = [])
      \<and> (\<exists>k. \<forall>i < length cs. (i < k \<longrightarrow> ts ! i = 5) \<and> (k < i \<longrightarrow> ts ! i = ts0 ! i) \<and> ts0 ! i \<le> ts ! i)
      \<and> (sum_list (map (\<lambda>(c, t). rendered_tokens_at rt gl c t) (zip cs ts0)) \<le> budget \<and> estimateTokens rt (render_at gl cs ts0) \<le> budget
         \<longrightarrow> ts = ts0))"
proof -
  let ?dm = "demoted rt gl cs budget"
  have ts: "final_tiers rt gl cs budget = dm_tiers ?dm" using assms by (simp add: final_tiers_def)
  have inv: "demoted_from (computeTiers cs budget) ?dm" by (rule demoted_end(1))
  have "estimateTokens rt (renderDecayedCompartments rt gl cs budget) \<le> budget \<or> renderDecayedCompartments rt gl cs budget = []"
    using demoted_end(2) [of rt gl cs budget] inv all_archived_text [of "dm_tiers ?dm" cs gl]
    by (auto simp: renderDecayedCompartments_def ts demoted_from_def)
  moreover have "\<exists>k. \<forall>i < length cs. (i < k \<longrightarrow> dm_tiers ?dm ! i = 5) \<and> (k < i \<longrightarrow> dm_tiers ?dm ! i = computeTiers cs budget ! i)
      \<and> computeTiers cs budget ! i \<le> dm_tiers ?dm ! i"
    using inv by (intro exI [where x = "dm_oldest ?dm"]) (auto simp: demoted_from_def)
  moreover have "dm_tiers ?dm = computeTiers cs budget"
    if "sum_list (map (\<lambda>(c, t). rendered_tokens_at rt gl c t) (zip cs (computeTiers cs budget))) \<le> budget"
      "estimateTokens rt (render_at gl cs (computeTiers cs budget)) \<le> budget"
  proof -
    have stay: "demote_while over d g dm = (g, dm)" if "\<not> over dm" for over d g and dm :: demotion using that by (cases g) simp_all
    show ?thesis using that by (simp add: demoted_def initial_demotion_def Let_def stay)
  qed
  ultimately show ?thesis by (simp add: ts Let_def)
qed

definition example_compartment :: "string \<Rightarrow> decay_compartment" where
  "example_compartment title = \<lparr>dc_startMessage = 1, dc_endMessage = 2, dc_title = title, dc_content = ''body'', dc_startDate = None,
     dc_endDate = None, dc_p1 = Some ''## long body'', dc_p2 = None, dc_p3 = None, dc_p4 = Some [], dc_importance = None, dc_legacy = False\<rparr>"

definition example_glyphs :: glyphs where
  "example_glyphs = \<lparr>gl_arrow = ''->'', gl_ellipsis = ''...''\<rparr>"

theorem decayed_history_fits_budget_witness:
  "(let text = renderDecayedCompartments example_runtime example_glyphs [example_compartment ''a'', example_compartment ''b''] 25
    in estimateTokens example_runtime text \<le> 25 \<or> text = [])"
  using decayed_history_fits_budget [of 25 example_runtime example_glyphs "[example_compartment ''a'', example_compartment ''b'']"]
  by (simp add: Let_def)

text \<open>
  C37: No compartment can forge a heading: when the dates hold no line breaks, the rendered history has one line
  beginning with the heading mark per compartment that is not archived, whatever titles and bodies contain.
\<close>

theorem headings_cannot_be_forged:
  assumes "\<forall>c\<in>set cs. plain_dates gl c"
  shows "headings True (renderDecayedCompartments rt gl cs budget)
    = length (filter (\<lambda>t. t < 5) (final_tiers rt gl cs budget))"
proof -
  have "sum_list (map (headings True) (filter (\<lambda>s. s \<noteq> []) (map (\<lambda>(c, t). renderOneCompartment gl c t) (zip cs ts))))
      = length (filter (\<lambda>t. t < 5) ts)" if "length cs = length ts" for ts
    using that assms
  proof (induction cs ts rule: list_induct2)
    case (Cons c cs t ts)
    have "headings True (renderOneCompartment gl c t) = (if t < 5 then 1 else 0)"
      using Cons.prems by (intro headings_of_one) simp
    moreover have "renderOneCompartment gl c t = [] \<Longrightarrow> headings True (renderOneCompartment gl c t) = 0" by simp
    ultimately show ?case using Cons by auto
  qed simp
  moreover have "length (final_tiers rt gl cs budget) = length cs"
    using demoted_end(1) [of cs budget rt gl] by (simp add: final_tiers_def demoted_from_def)
  ultimately show ?thesis by (auto simp: renderDecayedCompartments_def render_at_def headings_join)
qed

theorem headings_cannot_be_forged_witness:
  "headings True (renderDecayedCompartments example_runtime example_glyphs [example_compartment [CHR ''a'', CHR 0x0A, CHR ''#'']] 1000)
   = length (filter (\<lambda>t. t < 5) (final_tiers example_runtime example_glyphs [example_compartment [CHR ''a'', CHR 0x0A, CHR ''#'']] 1000))"
  by (rule headings_cannot_be_forged) (simp add: plain_dates_def example_compartment_def example_glyphs_def opt_text_def one_line_def is_line_end_def)

end
