(* ===== verification/Session_Cache.thy ===== *)
theory Session_Cache
  imports Raw_Messages "HOL-Library.Multiset"
begin

text \<open>
  Two bounded in-memory stores keyed by session: the least-recently-used map
  (\<open>shared/bounded-session-map.ts\<close>) and the last-known-good slots with their byte budget
  (\<open>hooks/magic-context/lkg-slot.ts\<close>). A JavaScript \<open>Map\<close> is an association list in insertion order. The
  interface \<open>session_store\<close> states what both promise; each interprets it.
\<close>

section \<open>The interface\<close>

text \<open>
  A store that may evict: after \<open>put\<close> the key has its new value, and a key that is still there has the value
  it had. \<open>cost\<close> never exceeds \<open>budget\<close>.
\<close>

locale session_store =
  fixes entries :: "'s \<Rightarrow> 'k \<rightharpoonup> 'v"
    and put :: "'k \<Rightarrow> 'v \<Rightarrow> 's \<Rightarrow> 's"
    and remove :: "'k \<Rightarrow> 's \<Rightarrow> 's"
    and accepts :: "'k \<Rightarrow> 'v \<Rightarrow> 's \<Rightarrow> bool"
    and cost :: "'s \<Rightarrow> int"
    and budget :: int
    and valid :: "'s \<Rightarrow> bool"
  assumes put_valid: "valid s \<Longrightarrow> valid (put k v s)"
    and remove_valid: "valid s \<Longrightarrow> valid (remove k s)"
    and valid_cost: "valid s \<Longrightarrow> cost s \<le> budget"
    and put_same: "valid s \<Longrightarrow> accepts k v s \<Longrightarrow> entries (put k v s) k = Some v"
    and put_refused: "valid s \<Longrightarrow> \<not> accepts k v s \<Longrightarrow> put k v s = s"
    and put_other: "valid s \<Longrightarrow> accepts k v s \<Longrightarrow> k' \<noteq> k \<Longrightarrow> entries (put k v s) k' \<in> {None, entries s k'}"
    and remove_entries: "valid s \<Longrightarrow> entries (remove k s) = (entries s)(k := None)"
begin

definition apply_op :: "'s \<Rightarrow> 'k \<times> 'v option \<Rightarrow> 's" where
  "apply_op s op = (case op of (k, Some v) \<Rightarrow> put k v s | (k, None) \<Rightarrow> remove k s)"

lemma apply_valid: "valid s \<Longrightarrow> valid (apply_op s op)"
  by (auto simp: apply_op_def put_valid remove_valid split: prod.splits option.splits)

lemma run_valid: "valid s \<Longrightarrow> valid (foldl apply_op s ops)"
  by (induction ops arbitrary: s) (auto simp: apply_valid)

lemma run_cost: "valid s \<Longrightarrow> cost (foldl apply_op s ops) \<le> budget"
  by (rule valid_cost, rule run_valid)

text \<open>A value found in the store was put there for that key, and nothing was put or removed for the key since.\<close>

lemma step_origin:
  assumes "valid s" "entries (apply_op s (k', w)) k = Some v"
  shows "(k' = k \<and> w = Some v) \<or> entries s k = Some v"
proof (cases w)
  case None
  with assms show ?thesis by (auto simp: apply_op_def remove_entries split: if_splits)
next
  case (Some u)
  show ?thesis
  proof (cases "accepts k' u s")
    case True
    with assms Some put_same [OF assms(1) True] put_other [OF assms(1) True, of k]
    show ?thesis by (cases "k' = k") (auto simp: apply_op_def)
  qed (use assms Some in \<open>auto simp: apply_op_def put_refused\<close>)
qed

lemma run_origin:
  assumes "valid s" "entries s = Map.empty" "entries (foldl apply_op s ops) k = Some v"
  shows "(k, Some v) \<in> set ops"
  using assms(3)
proof (induction ops arbitrary: v rule: rev_induct)
  case (snoc op ops)
  obtain k' w where op: "op = (k', w)" by (cases op)
  have "entries (apply_op (foldl apply_op s ops) (k', w)) k = Some v" using snoc.prems by (simp add: op)
  from step_origin [OF run_valid [OF assms(1)] this] snoc.IH show ?case by (auto simp: op)
qed (simp add: assms(2))

end

section \<open>BoundedSessionMap\<close>

text \<open>A stored value may be \<open>undefined\<close>, here \<open>None\<close>: \<open>has\<close> sees the key, \<open>get\<close> answers \<open>undefined\<close> and does not refresh it.\<close>

record 'v bounded_map =
  bm_maxEntries :: nat
  bm_store :: "(string \<times> 'v option) list"

definition bounded_map_new :: "nat \<Rightarrow> (string, 'v bounded_map) sum" where
  "bounded_map_new maxEntries =
     (if maxEntries < 1 then Inl ''BoundedSessionMap: maxEntries must be >= 1''
      else Inr \<lparr>bm_maxEntries = maxEntries, bm_store = []\<rparr>)"

definition bm_get :: "string \<Rightarrow> 'v bounded_map \<Rightarrow> 'v option \<times> 'v bounded_map" where
  "bm_get sessionId m =
     (case Option.bind (map_of (bm_store m) sessionId) id of
        None \<Rightarrow> (None, m)
      | Some v \<Rightarrow> (Some v, m\<lparr>bm_store := jsmap_set sessionId (Some v) (jsmap_delete sessionId (bm_store m))\<rparr>))"

definition bm_peek :: "string \<Rightarrow> 'v bounded_map \<Rightarrow> 'v option" where
  "bm_peek sessionId m = Option.bind (map_of (bm_store m) sessionId) id"

definition bm_has :: "string \<Rightarrow> 'v bounded_map \<Rightarrow> bool" where
  "bm_has sessionId m = (map_of (bm_store m) sessionId \<noteq> None)"

definition bm_set :: "string \<Rightarrow> 'v option \<Rightarrow> 'v bounded_map \<Rightarrow> 'v bounded_map" where
  "bm_set sessionId v m =
     (let store = bm_store m;
          store' = (if bm_has sessionId m then jsmap_delete sessionId store
                    else if bm_maxEntries m \<le> length store then
                      (case store of [] \<Rightarrow> [] | e # _ \<Rightarrow> jsmap_delete (fst e) store)
                    else store)
      in m\<lparr>bm_store := jsmap_set sessionId v store'\<rparr>)"

definition bm_delete :: "string \<Rightarrow> 'v bounded_map \<Rightarrow> bool \<times> 'v bounded_map" where
  "bm_delete sessionId m = (bm_has sessionId m, m\<lparr>bm_store := jsmap_delete sessionId (bm_store m)\<rparr>)"

definition bm_clear :: "'v bounded_map \<Rightarrow> 'v bounded_map" where
  "bm_clear m = m\<lparr>bm_store := []\<rparr>"

definition bm_size :: "'v bounded_map \<Rightarrow> nat" where
  "bm_size m = length (bm_store m)"

definition bm_ok :: "nat \<Rightarrow> 'v bounded_map \<Rightarrow> bool" where
  "bm_ok n m \<longleftrightarrow> 1 \<le> n \<and> bm_maxEntries m = n \<and> distinct (map fst (bm_store m)) \<and> length (bm_store m) \<le> n"

lemma jsmap_delete_Nil [simp]: "jsmap_delete k [] = []"
  by (simp add: jsmap_delete_def)

lemma jsmap_delete_absent: "k \<notin> fst ` set m \<Longrightarrow> jsmap_delete k m = m"
  by (auto simp: jsmap_delete_def filter_id_conv image_iff)

lemma jsmap_set_absent: "k \<notin> fst ` set m \<Longrightarrow> jsmap_set k v m = m @ [(k, v)]"
  by (induction m) auto

lemma keys_jsmap_delete: "fst ` set (jsmap_delete k m) = fst ` set m - {k}"
  by (auto simp: jsmap_delete_def)

lemma length_jsmap_delete: "distinct (map fst m) \<Longrightarrow> k \<in> fst ` set m \<Longrightarrow> Suc (length (jsmap_delete k m)) = length m"
proof (induction m)
  case (Cons e m)
  show ?case
  proof (cases "fst e = k")
    case True
    then show ?thesis using Cons.prems(1) jsmap_delete_absent [of k m] by (simp add: jsmap_delete_def)
  next
    case False
    then show ?thesis using Cons by (auto simp: jsmap_delete_def)
  qed
qed simp

lemma jsmap_delete_append: "jsmap_delete k (xs @ ys) = jsmap_delete k xs @ jsmap_delete k ys"
  by (simp add: jsmap_delete_def)

lemma map_of_snoc: "map_of (xs @ [(k, v)]) k' = (if k' \<in> fst ` set xs then map_of xs k' else if k' = k then Some v else None)"
  by (induction xs) auto

text \<open>What \<open>set\<close> leaves: the other keys, without the oldest when a new key meets a full store, then the new one.\<close>

lemma bm_set_store:
  assumes "bm_ok n m"
  shows "bm_store (bm_set k v m)
    = (if bm_has k m then jsmap_delete k (bm_store m)
       else if n \<le> length (bm_store m) then tl (bm_store m) else bm_store m) @ [(k, v)]"
proof -
  have d: "distinct (map fst (bm_store m))" and n: "1 \<le> n" "bm_maxEntries m = n" using assms by (auto simp: bm_ok_def)
  have has: "bm_has k m \<longleftrightarrow> k \<in> fst ` set (bm_store m)"
    by (simp add: bm_has_def map_of_eq_None_iff)
  have tl: "jsmap_delete (fst e) (e # es) = es" if "bm_store m = e # es" for e es
    using d that jsmap_delete_absent [of "fst e" es] by (simp add: jsmap_delete_def)
  show ?thesis
  proof (cases "bm_store m")
    case Nil
    then show ?thesis using n by (simp add: bm_set_def has)
  next
    case (Cons e es)
    show ?thesis
      using d tl [OF Cons] Cons n
      by (auto simp: bm_set_def has Let_def jsmap_set_absent keys_jsmap_delete)
  qed
qed

lemma bm_set_ok: "bm_ok n m \<Longrightarrow> bm_ok n (bm_set k v m)"
proof -
  assume ok: "bm_ok n m"
  then have d: "distinct (map fst (bm_store m))" "length (bm_store m) \<le> n" by (auto simp: bm_ok_def)
  have has: "bm_has k m \<longleftrightarrow> k \<in> fst ` set (bm_store m)" by (simp add: bm_has_def map_of_eq_None_iff)
  have "distinct (map fst (bm_store (bm_set k v m)))"
    unfolding bm_set_store [OF ok] using d has
    by (cases "bm_store m") (auto simp: distinct_jsmap_delete keys_jsmap_delete)
  moreover have "length (bm_store (bm_set k v m)) \<le> n"
    unfolding bm_set_store [OF ok] using d has length_jsmap_delete [OF d(1), of k] ok by (auto simp: bm_ok_def)
  moreover have "bm_maxEntries (bm_set k v m) = n" using ok by (simp add: bm_set_def bm_ok_def Let_def)
  ultimately show ?thesis using ok by (simp add: bm_ok_def)
qed

lemma bm_set_entries:
  assumes "bm_ok n m"
  shows "map_of (bm_store (bm_set k v m)) k = Some v"
    and "k' \<noteq> k \<Longrightarrow> map_of (bm_store (bm_set k v m)) k' \<in> {None, map_of (bm_store m) k'}"
proof -
  have d: "distinct (map fst (bm_store m))" using assms by (simp add: bm_ok_def)
  define r where "r = (if bm_has k m then jsmap_delete k (bm_store m)
       else if n \<le> length (bm_store m) then tl (bm_store m) else bm_store m)"
  have s: "bm_store (bm_set k v m) = r @ [(k, v)]"
    using bm_set_store [OF assms] by (simp add: r_def)
  have "k \<notin> fst ` set r"
    unfolding r_def by (cases "bm_store m") (auto simp: keys_jsmap_delete bm_has_def map_of_eq_None_iff)
  then show "map_of (bm_store (bm_set k v m)) k = Some v"
    unfolding s map_of_snoc by simp
  have "map_of r k' \<in> {None, map_of (bm_store m) k'}" if "k' \<noteq> k"
    unfolding r_def using that d by (cases "bm_store m") (auto simp: map_of_jsmap_delete map_of_eq_None_iff)
  then show "k' \<noteq> k \<Longrightarrow> map_of (bm_store (bm_set k v m)) k' \<in> {None, map_of (bm_store m) k'}"
    unfolding s map_of_snoc by simp
qed

interpretation bounded: session_store "\<lambda>m. map_of (bm_store m)" bm_set "\<lambda>k m. snd (bm_delete k m)" "\<lambda>_ _ _. True"
  "\<lambda>m. int (bm_size m)" "int n" "bm_ok n" for n
proof
  show "bm_ok n m \<Longrightarrow> bm_ok n (snd (bm_delete k m))" for m k
  proof -
    assume "bm_ok n m"
    moreover have "length (jsmap_delete k (bm_store m)) \<le> length (bm_store m)"
      by (simp add: jsmap_delete_def)
    ultimately show ?thesis by (auto simp: bm_ok_def bm_delete_def distinct_jsmap_delete)
  qed
  show "bm_ok n m \<Longrightarrow> int (bm_size m) \<le> int n" for m by (simp add: bm_ok_def bm_size_def)
  show "bm_ok n m \<Longrightarrow> map_of (bm_store (snd (bm_delete k m))) = (map_of (bm_store m))(k := None)" for m k
    by (simp add: bm_delete_def map_of_jsmap_delete)
qed (auto simp: bm_set_ok bm_set_entries dest: bm_set_entries(2))

lemma bm_get_store:
  assumes "map_of (bm_store m) k = Some (Some v)"
  shows "bm_store (snd (bm_get k m)) = jsmap_delete k (bm_store m) @ [(k, Some v)]"
  using assms by (simp add: bm_get_def jsmap_set_absent keys_jsmap_delete)

section \<open>The map against a reference\<close>

text \<open>
  The reference knows no order: it stamps each entry with the time of its last use and looks for the smallest
  stamp when it must evict. It says what every operation answers. A \<open>get\<close> that finds nothing, or
  \<open>undefined\<close>, is no use.
\<close>

datatype 'v cache_op =
    CacheSet string "'v option" | CacheGet string | CachePeek string | CacheHas string
  | CacheDelete string | CacheClear | CacheSize

datatype 'v cache_answer = NoAnswer | AnswerValue "'v option" | AnswerBool bool | AnswerSize nat

fun cache_step :: "'v bounded_map \<Rightarrow> 'v cache_op \<Rightarrow> 'v cache_answer \<times> 'v bounded_map" where
  "cache_step m (CacheSet k w) = (NoAnswer, bm_set k w m)"
| "cache_step m (CacheGet k) = (AnswerValue (fst (bm_get k m)), snd (bm_get k m))"
| "cache_step m (CachePeek k) = (AnswerValue (bm_peek k m), m)"
| "cache_step m (CacheHas k) = (AnswerBool (bm_has k m), m)"
| "cache_step m (CacheDelete k) = (AnswerBool (fst (bm_delete k m)), snd (bm_delete k m))"
| "cache_step m CacheClear = (NoAnswer, bm_clear m)"
| "cache_step m CacheSize = (AnswerSize (bm_size m), m)"

record 'v lru =
  lr_clock :: nat
  lr_entries :: "(string \<times> 'v option \<times> nat) list"

definition stamp :: "string \<times> 'v option \<times> nat \<Rightarrow> nat" where
  "stamp e = snd (snd e)"

definition other_entries :: "string \<Rightarrow> (string \<times> 'v option \<times> nat) list \<Rightarrow> (string \<times> 'v option \<times> nat) list" where
  "other_entries k es = filter (\<lambda>e. fst e \<noteq> k) es"

definition without_oldest :: "(string \<times> 'v option \<times> nat) list \<Rightarrow> (string \<times> 'v option \<times> nat) list" where
  "without_oldest es = filter (\<lambda>e. \<exists>e'\<in>set es. stamp e' < stamp e) es"

definition lru_value :: "string \<Rightarrow> 'v lru \<Rightarrow> 'v option option" where
  "lru_value k r = map_option fst (map_of (lr_entries r) k)"

definition lru_use :: "string \<Rightarrow> 'v option \<Rightarrow> (string \<times> 'v option \<times> nat) list \<Rightarrow> 'v lru \<Rightarrow> 'v lru" where
  "lru_use k w es r = \<lparr>lr_clock = lr_clock r + 1, lr_entries = (k, w, lr_clock r) # other_entries k es\<rparr>"

fun lru_step :: "nat \<Rightarrow> 'v lru \<Rightarrow> 'v cache_op \<Rightarrow> 'v cache_answer \<times> 'v lru" where
  "lru_step n r (CacheSet k w) =
     (NoAnswer, lru_use k w (if lru_value k r = None \<and> length (lr_entries r) = n then without_oldest (lr_entries r)
                             else lr_entries r) r)"
| "lru_step n r (CacheGet k) =
     (case lru_value k r of
        Some (Some v) \<Rightarrow> (AnswerValue (Some v), lru_use k (Some v) (lr_entries r) r)
      | _ \<Rightarrow> (AnswerValue None, r))"
| "lru_step n r (CachePeek k) = (AnswerValue (case lru_value k r of Some (Some v) \<Rightarrow> Some v | _ \<Rightarrow> None), r)"
| "lru_step n r (CacheHas k) = (AnswerBool (lru_value k r \<noteq> None), r)"
| "lru_step n r (CacheDelete k) = (AnswerBool (lru_value k r \<noteq> None), r\<lparr>lr_entries := other_entries k (lr_entries r)\<rparr>)"
| "lru_step n r CacheClear = (NoAnswer, r\<lparr>lr_entries := []\<rparr>)"
| "lru_step n r CacheSize = (AnswerSize (length (lr_entries r)), r)"

text \<open>A run: the answers in order, and the state it ends in.\<close>

fun run_ops :: "('s \<Rightarrow> 'o \<Rightarrow> 'a \<times> 's) \<Rightarrow> 's \<Rightarrow> 'o list \<Rightarrow> 'a list \<times> 's" where
  "run_ops step s [] = ([], s)"
| "run_ops step s (op # ops) =
     (let (a, s1) = step s op; (as, s2) = run_ops step s1 ops in (a # as, s2))"

lemma run_ops_refine:
  assumes "\<And>s t op. R s t \<Longrightarrow> fst (f s op) = fst (g t op) \<and> R (snd (f s op)) (snd (g t op))" "R s t"
  shows "fst (run_ops f s ops) = fst (run_ops g t ops) \<and> R (snd (run_ops f s ops)) (snd (run_ops g t ops))"
  using assms(2)
proof (induction ops arbitrary: s t)
  case (Cons op ops)
  from assms(1) [OF Cons.prems, of op] Cons.IH [of "snd (f s op)" "snd (g t op)"] show ?case
    by (simp add: Let_def split_beta)
qed simp

text \<open>The store is the reference's entries in the order of their stamps.\<close>

definition bare_entry :: "string \<times> 'v option \<times> nat \<Rightarrow> string \<times> 'v option" where
  "bare_entry e = (fst e, fst (snd e))"

definition in_order :: "'v lru \<Rightarrow> (string \<times> 'v option \<times> nat) list \<Rightarrow> bool" where
  "in_order r L \<longleftrightarrow> mset L = mset (lr_entries r) \<and> distinct (map fst L) \<and> sorted_wrt (\<lambda>a b. stamp a < stamp b) L
     \<and> (\<forall>e\<in>set L. stamp e < lr_clock r)"

definition lru_agrees :: "nat \<Rightarrow> 'v bounded_map \<Rightarrow> 'v lru \<Rightarrow> bool" where
  "lru_agrees n m r \<longleftrightarrow> bm_ok n m \<and> (\<exists>L. in_order r L \<and> bm_store m = map bare_entry L)"

lemma jsmap_delete_plain: "jsmap_delete k (map bare_entry L) = map bare_entry (other_entries k L)"
  by (induction L) (auto simp: jsmap_delete_def other_entries_def bare_entry_def)

lemma map_fst_plain: "map fst (map bare_entry L) = map fst L"
  by (simp add: bare_entry_def)

lemma map_of_plain: "map_of (map bare_entry L) k = map_option fst (map_of L k)"
  by (induction L) (auto simp: bare_entry_def)

lemma in_order_value:
  assumes "in_order r L"
  shows "lru_value k r = map_of (map bare_entry L) k"
proof -
  have m: "mset L = mset (lr_entries r)" and d: "distinct (map fst L)" using assms by (simp_all add: in_order_def)
  have "mset (map fst L) = mset (map fst (lr_entries r))" by (simp only: mset_map m)
  from mset_eq_imp_distinct_iff [OF this] d have "distinct (map fst (lr_entries r))" by simp
  from map_of_inject_set [OF d this] mset_eq_setD [OF m] have "map_of L = map_of (lr_entries r)" by simp
  then show ?thesis by (simp add: lru_value_def map_of_plain)
qed

lemma in_order_length: "in_order r L \<Longrightarrow> length L = length (lr_entries r)"
  by (auto simp: in_order_def dest: mset_eq_length)

lemma in_order_filter:
  assumes "in_order r L"
  shows "in_order (r\<lparr>lr_entries := filter P (lr_entries r)\<rparr>) (filter P L)"
  using assms by (auto simp: in_order_def distinct_map_filter sorted_wrt_filter)

lemma in_order_use:
  assumes "in_order (r\<lparr>lr_entries := es\<rparr>) L"
  shows "in_order (lru_use k w es r) (other_entries k L @ [(k, w, lr_clock r)])"
proof -
  have "in_order (r\<lparr>lr_entries := other_entries k es\<rparr>) (other_entries k L)"
    using in_order_filter [OF assms, of "\<lambda>e. fst e \<noteq> k"] by (simp add: other_entries_def)
  moreover have "k \<notin> fst ` set (other_entries k L)" by (auto simp: other_entries_def)
  ultimately show ?thesis
    by (auto simp: in_order_def lru_use_def stamp_def sorted_wrt_append less_Suc_eq)
qed

text \<open>The oldest entry is the head of the order.\<close>

lemma in_order_oldest:
  assumes "in_order r (e # L)"
  shows "in_order (r\<lparr>lr_entries := without_oldest (lr_entries r)\<rparr>) L"
proof -
  have s: "set (lr_entries r) = set (e # L)" using assms by (metis in_order_def mset_eq_setD)
  have o: "\<And>e'. e' \<in> set L \<Longrightarrow> stamp e < stamp e'" using assms by (simp add: in_order_def)
  have "filter (\<lambda>x. \<exists>e'\<in>set (e # L). stamp e' < stamp x) L = L" using o by (intro filter_True) auto
  moreover have "\<not> (\<exists>e'\<in>set (e # L). stamp e' < stamp e)" using o by (auto dest: less_asym)
  ultimately have "filter (\<lambda>x. \<exists>e'\<in>set (lr_entries r). stamp e' < stamp x) (e # L) = L" unfolding s by simp
  with in_order_filter [OF assms, of "\<lambda>x. \<exists>e'\<in>set (lr_entries r). stamp e' < stamp x"] show ?thesis
    by (simp add: without_oldest_def)
qed

lemma lru_agrees_set:
  assumes "lru_agrees n m r"
  shows "lru_agrees n (bm_set k w m) (snd (lru_step n r (CacheSet k w)))"
proof -
  obtain L where ok: "bm_ok n m" and L: "in_order r L" and st: "bm_store m = map bare_entry L"
    using assms by (auto simp: lru_agrees_def)
  have has: "bm_has k m \<longleftrightarrow> lru_value k r \<noteq> None" by (simp add: bm_has_def st in_order_value [OF L])
  have len: "length (lr_entries r) = length L" "length L \<le> n" "1 \<le> n"
    using ok in_order_length [OF L] by (simp_all add: bm_ok_def st)
  define full where "full \<longleftrightarrow> lru_value k r = None \<and> length (lr_entries r) = n"
  define L' where "L' = (if full then tl L else L)"
  define es where "es = (if full then without_oldest (lr_entries r) else lr_entries r)"
  have L': "in_order (r\<lparr>lr_entries := es\<rparr>) L'"
  proof (cases full)
    case True
    then obtain e M where "L = e # M" using len by (cases L) (auto simp: full_def)
    with True in_order_oldest [of r e M] L show ?thesis by (simp add: L'_def es_def)
  qed (use L in \<open>simp add: L'_def es_def\<close>)
  have "other_entries k L' = L'" if "lru_value k r = None"
  proof -
    have "k \<notin> fst ` set L" using that by (simp add: in_order_value [OF L] map_of_plain map_of_eq_None_iff)
    moreover have "set L' \<subseteq> set L" by (cases L) (auto simp: L'_def)
    ultimately have "k \<notin> fst ` set L'" by auto
    then show ?thesis by (auto simp: other_entries_def intro!: filter_True)
  qed
  then have "bm_store (bm_set k w m) = map bare_entry (other_entries k L' @ [(k, w, lr_clock r)])"
    unfolding bm_set_store [OF ok] has st jsmap_delete_plain
    using len by (auto simp: L'_def full_def bare_entry_def map_tl)
  with in_order_use [OF L', of k w] bm_set_ok [OF ok, of k w] show ?thesis
    unfolding lru_agrees_def by (auto simp: es_def full_def simp del: map_append)
qed

lemma lru_agrees_get:
  assumes "lru_agrees n m r"
  shows "AnswerValue (fst (bm_get k m)) = fst (lru_step n r (CacheGet k))"
    and "lru_agrees n (snd (bm_get k m)) (snd (lru_step n r (CacheGet k)))"
proof -
  obtain L where ok: "bm_ok n m" and L: "in_order r L" and st: "bm_store m = map bare_entry L"
    using assms by (auto simp: lru_agrees_def)
  have val: "lru_value k r = map_of (bm_store m) k" by (simp add: st in_order_value [OF L])
  show "AnswerValue (fst (bm_get k m)) = fst (lru_step n r (CacheGet k))"
    by (auto simp: bm_get_def val split: option.splits)
  show "lru_agrees n (snd (bm_get k m)) (snd (lru_step n r (CacheGet k)))"
  proof (cases "Option.bind (map_of (bm_store m) k) id")
    case None
    then show ?thesis using assms by (auto simp: bm_get_def val split: option.splits)
  next
    case (Some v)
    then have v: "map_of (bm_store m) k = Some (Some v)" by (auto simp: bind_eq_Some_conv)
    note store = bm_get_store [OF v]
    have k: "k \<in> fst ` set (bm_store m)" using v by (metis domI dom_map_of_conv_image_fst)
    have "bm_maxEntries (snd (bm_get k m)) = bm_maxEntries m" by (simp add: bm_get_def v)
    then have "bm_ok n (snd (bm_get k m))"
      using ok length_jsmap_delete [OF _ k] by (auto simp: bm_ok_def store keys_jsmap_delete distinct_jsmap_delete)
    moreover have "in_order (lru_use k (Some v) (lr_entries r) r) (other_entries k L @ [(k, Some v, lr_clock r)])"
      by (rule in_order_use) (simp add: L)
    moreover have "bm_store (snd (bm_get k m)) = map bare_entry (other_entries k L @ [(k, Some v, lr_clock r)])"
      by (simp add: store st jsmap_delete_plain bare_entry_def)
    ultimately show ?thesis unfolding lru_agrees_def by (auto simp: val v simp del: map_append)
  qed
qed

lemma lru_agrees_delete:
  assumes "lru_agrees n m r"
  shows "lru_agrees n (snd (bm_delete k m)) (r\<lparr>lr_entries := other_entries k (lr_entries r)\<rparr>)"
proof -
  obtain L where ok: "bm_ok n m" and L: "in_order r L" and st: "bm_store m = map bare_entry L"
    using assms by (auto simp: lru_agrees_def)
  have "bm_store (snd (bm_delete k m)) = map bare_entry (other_entries k L)"
    by (simp add: bm_delete_def st jsmap_delete_plain)
  with bounded.remove_valid [OF ok, of k] in_order_filter [OF L, of "\<lambda>e. fst e \<noteq> k"] show ?thesis
    by (auto simp: lru_agrees_def other_entries_def)
qed

lemma lru_agrees_step:
  assumes a: "lru_agrees n m r"
  shows "fst (cache_step m op) = fst (lru_step n r op) \<and> lru_agrees n (snd (cache_step m op)) (snd (lru_step n r op))"
proof -
  obtain L where ok: "bm_ok n m" and L: "in_order r L" and st: "bm_store m = map bare_entry L"
    using a by (auto simp: lru_agrees_def)
  have val: "lru_value k r = map_of (bm_store m) k" for k by (simp add: st in_order_value [OF L])
  show ?thesis
  proof (cases op)
    case (CacheSet k w)
    show ?thesis using lru_agrees_set [OF a, of k w] unfolding CacheSet by simp
  next
    case (CacheGet k)
    show ?thesis using lru_agrees_get [OF a, of k] unfolding CacheGet by simp
  next
    case (CacheDelete k)
    then show ?thesis using lru_agrees_delete [OF a, of k] by (simp add: bm_delete_def bm_has_def val)
  next
    case CacheClear
    have "in_order (r\<lparr>lr_entries := []\<rparr>) []" by (simp add: in_order_def)
    then show ?thesis using ok by (auto simp: CacheClear lru_agrees_def bm_clear_def bm_ok_def)
  next
    case (CachePeek k)
    then show ?thesis using a by (auto simp: bm_peek_def val split: option.splits)
  next
    case (CacheHas k)
    then show ?thesis using a by (simp add: bm_has_def val)
  next
    case CacheSize
    then show ?thesis using a in_order_length [OF L] by (simp add: bm_size_def st)
  qed
qed

text \<open>The order by stamps is the sorted list of the entries.\<close>

lemma in_order_sorted:
  assumes "in_order r L"
  shows "L = sort_key stamp (lr_entries r)"
proof -
  have s: "sorted_wrt (\<lambda>a b. stamp a < stamp b) L" using assms by (simp add: in_order_def)
  then have "sorted_wrt (<) (map stamp L)" by (simp add: sorted_wrt_map)
  then have "sorted (map stamp L)" "distinct (map stamp L)" by (simp_all add: strict_sorted_iff)
  then have "inj_on stamp (set (lr_entries r))"
    using assms by (auto simp: in_order_def distinct_map dest: mset_eq_setD)
  with \<open>sorted (map stamp L)\<close> assms show ?thesis
    by (intro sort_key_inj_key_eq [symmetric]) (simp_all add: in_order_def)
qed

section \<open>Last-known-good slots\<close>

record lkg_slot =
  lk_jsonPrefix :: string
  lk_inputIdSeq :: "string list"
  lk_inputContentDigests :: "string list"
  lk_inputContentSignatures :: "string list option"
  lk_lastInputMessageId :: string
  lk_modelKey :: "string option"
  lk_providerKey :: "string option"
  lk_capturedAt :: int
  lk_rowVersion :: "int option"
  lk_captureSequence :: "int option"

definition LKG_TOTAL_BYTES :: int where [config_simps]: "LKG_TOTAL_BYTES = 67108864"
definition LKG_SINGLE_SLOT_BYTES :: int where [config_simps]: "LKG_SINGLE_SLOT_BYTES = 25165824"
definition LKG_METADATA_BYTES :: int where [config_simps]: "LKG_METADATA_BYTES = 256"

record lkg_store =
  ls_slots :: "(string \<times> lkg_slot \<times> int) list"
  ls_totalBytes :: int

definition slotBytes :: "lkg_slot \<Rightarrow> int" where
  "slotBytes slot = 2 * int (length (lk_jsonPrefix slot))
     + sum_list (map (\<lambda>d. 2 * int (length d)) (lk_inputContentDigests slot)) + LKG_METADATA_BYTES"

definition well_formed_slot :: "lkg_slot \<Rightarrow> bool" where
  "well_formed_slot slot =
     (length (lk_inputContentDigests slot) = length (lk_inputIdSeq slot)
      \<and> [] \<notin> set (lk_inputContentDigests slot)
      \<and> (case lk_inputContentSignatures slot of None \<Rightarrow> True
         | Some sigs \<Rightarrow> length sigs = length (lk_inputIdSeq slot) \<and> [] \<notin> set sigs))"

definition or_zero :: "int option \<Rightarrow> int" where
  "or_zero v = (case v of None \<Rightarrow> 0 | Some n \<Rightarrow> n)"

definition stale_capture :: "lkg_slot option \<Rightarrow> lkg_slot \<Rightarrow> bool" where
  "stale_capture prior slot =
     (case prior of None \<Rightarrow> False
      | Some p \<Rightarrow>
          (case (lk_rowVersion p, lk_rowVersion slot) of
             (Some pv, Some v) \<Rightarrow>
               v < pv \<or> (v = pv \<and> or_zero (lk_captureSequence slot) < or_zero (lk_captureSequence p))
           | _ \<Rightarrow> False))"

text \<open>The eviction loop; the keys of a \<open>Map\<close> are distinct, so deleting the oldest key drops the head.\<close>

fun evict_until :: "int \<Rightarrow> (string \<times> lkg_slot \<times> int) list \<Rightarrow> int \<Rightarrow> (string \<times> lkg_slot \<times> int) list \<times> int" where
  "evict_until bytes [] held = ([], held)"
| "evict_until bytes (e # es) held =
     (if LKG_TOTAL_BYTES < held + bytes then evict_until bytes es (held - snd (snd e)) else (e # es, held))"

definition captureSlot :: "string \<Rightarrow> lkg_slot \<Rightarrow> lkg_store \<Rightarrow> bool \<times> lkg_store" where
  "captureSlot sessionId slot st =
     (let bytes = slotBytes slot; prior = map_of (ls_slots st) sessionId
      in if \<not> well_formed_slot slot then (False, st)
         else if LKG_SINGLE_SLOT_BYTES < bytes then (False, st)
         else if stale_capture (map_option fst prior) slot then (False, st)
         else
           let total0 = ls_totalBytes st - (case prior of None \<Rightarrow> 0 | Some (_, b) \<Rightarrow> b);
               (kept, held) = evict_until bytes (jsmap_delete sessionId (ls_slots st)) total0
           in if LKG_TOTAL_BYTES < held + bytes then
                (False,
                 (case prior of
                    None \<Rightarrow> \<lparr>ls_slots = kept, ls_totalBytes = held\<rparr>
                  | Some (s, b) \<Rightarrow> \<lparr>ls_slots = jsmap_set sessionId (s, b) kept, ls_totalBytes = held + b\<rparr>))
              else (True, \<lparr>ls_slots = jsmap_set sessionId (slot, bytes) kept, ls_totalBytes = held + bytes\<rparr>))"

definition getSlot :: "string \<Rightarrow> lkg_store \<Rightarrow> lkg_slot option \<times> lkg_store" where
  "getSlot sessionId st =
     (case map_of (ls_slots st) sessionId of
        None \<Rightarrow> (None, st)
      | Some (slot, b) \<Rightarrow>
          (Some slot, st\<lparr>ls_slots := jsmap_set sessionId (slot, b) (jsmap_delete sessionId (ls_slots st))\<rparr>))"

definition dropSlot :: "string \<Rightarrow> lkg_store \<Rightarrow> lkg_store" where
  "dropSlot sessionId st =
     (case map_of (ls_slots st) sessionId of
        None \<Rightarrow> st
      | Some (slot, b) \<Rightarrow>
          \<lparr>ls_slots = jsmap_delete sessionId (ls_slots st), ls_totalBytes = ls_totalBytes st - b\<rparr>)"

definition slot_bytes_sum :: "(string \<times> lkg_slot \<times> int) list \<Rightarrow> int" where
  "slot_bytes_sum es = sum_list (map (\<lambda>e. snd (snd e)) es)"

definition lkg_ok :: "lkg_store \<Rightarrow> bool" where
  "lkg_ok st \<longleftrightarrow> distinct (map fst (ls_slots st)) \<and> ls_totalBytes st = slot_bytes_sum (ls_slots st)
     \<and> ls_totalBytes st \<le> LKG_TOTAL_BYTES
     \<and> (\<forall>(k, slot, b)\<in>set (ls_slots st). b = slotBytes slot \<and> b \<le> LKG_SINGLE_SLOT_BYTES \<and> well_formed_slot slot)"

lemma slotBytes_pos: "0 < slotBytes slot"
proof -
  have "0 \<le> sum_list (map (\<lambda>d. 2 * int (length d)) ds)" for ds :: "string list" by (induction ds) simp_all
  then show ?thesis by (simp add: slotBytes_def LKG_METADATA_BYTES_def add_nonneg_pos)
qed

lemma sum_jsmap_delete:
  "distinct (map fst es) \<Longrightarrow> map_of es k = Some (s, b) \<Longrightarrow> slot_bytes_sum (jsmap_delete k es) = slot_bytes_sum es - b"
proof (induction es)
  case (Cons e es)
  then show ?case
    using jsmap_delete_absent [of k es] by (cases "fst e = k") (auto simp: slot_bytes_sum_def jsmap_delete_def split: if_splits)
qed simp

text \<open>The loop keeps a suffix, keeps the books, and makes room for any slot of an admissible size.\<close>

lemma evict_until_spec:
  assumes "evict_until bytes es held = (kept, held2)" "held = slot_bytes_sum es" "bytes \<le> LKG_SINGLE_SLOT_BYTES"
  shows "(\<exists>gone. es = gone @ kept) \<and> held2 = slot_bytes_sum kept \<and> held2 + bytes \<le> LKG_TOTAL_BYTES"
  using assms
proof (induction bytes es held rule: evict_until.induct)
  case (1 bytes held)
  then show ?case by (auto simp: slot_bytes_sum_def config_simps)
next
  case (2 bytes e es held)
  show ?case
  proof (cases "LKG_TOTAL_BYTES < held + bytes")
    case True
    with 2 have "(\<exists>gone. es = gone @ kept) \<and> held2 = slot_bytes_sum kept \<and> held2 + bytes \<le> LKG_TOTAL_BYTES"
      by (auto simp: slot_bytes_sum_def)
    then show ?thesis by (metis append_Cons)
  next
    case False
    with 2 show ?thesis by auto
  qed
qed

lemma capture_cases:
  assumes ok: "lkg_ok st"
  obtains (refused) "captureSlot k slot st = (False, st)"
      "\<not> well_formed_slot slot \<or> LKG_SINGLE_SLOT_BYTES < slotBytes slot \<or> stale_capture (map_option fst (map_of (ls_slots st) k)) slot"
  | (taken) kept gone where "well_formed_slot slot" "slotBytes slot \<le> LKG_SINGLE_SLOT_BYTES"
      "\<not> stale_capture (map_option fst (map_of (ls_slots st) k)) slot"
      "jsmap_delete k (ls_slots st) = gone @ kept"
      "captureSlot k slot st = (True, \<lparr>ls_slots = kept @ [(k, slot, slotBytes slot)],
          ls_totalBytes = slot_bytes_sum kept + slotBytes slot\<rparr>)"
      "slot_bytes_sum kept + slotBytes slot \<le> LKG_TOTAL_BYTES"
proof (cases "\<not> well_formed_slot slot \<or> LKG_SINGLE_SLOT_BYTES < slotBytes slot \<or> stale_capture (map_option fst (map_of (ls_slots st) k)) slot")
  case True
  then show ?thesis by (intro refused) (auto simp: captureSlot_def Let_def)
next
  case False
  define held0 where "held0 = ls_totalBytes st - (case map_of (ls_slots st) k of None \<Rightarrow> 0 | Some (_, b) \<Rightarrow> b)"
  obtain kept held where e: "evict_until (slotBytes slot) (jsmap_delete k (ls_slots st)) held0 = (kept, held)" by fastforce
  have d: "distinct (map fst (ls_slots st))" "ls_totalBytes st = slot_bytes_sum (ls_slots st)" using ok by (auto simp: lkg_ok_def)
  have "held0 = slot_bytes_sum (jsmap_delete k (ls_slots st))"
    using sum_jsmap_delete [OF d(1)] jsmap_delete_absent [of k "ls_slots st"] d(2) map_of_eq_None_iff [of "ls_slots st" k]
    by (cases "map_of (ls_slots st) k") (auto simp: held0_def)
  from evict_until_spec [OF e this] False obtain gone where
    s: "jsmap_delete k (ls_slots st) = gone @ kept" "held = slot_bytes_sum kept" "held + slotBytes slot \<le> LKG_TOTAL_BYTES" by auto
  have "k \<notin> fst ` set kept" using keys_jsmap_delete [of k "ls_slots st"] by (auto simp: s(1))
  then have "jsmap_set k (slot, slotBytes slot) kept = kept @ [(k, slot, slotBytes slot)]" by (rule jsmap_set_absent)
  with False s e show ?thesis
    by (intro taken [of gone kept]) (auto simp: captureSlot_def Let_def held0_def [symmetric])
qed

lemma capture_ok:
  assumes "lkg_ok st"
  shows "lkg_ok (snd (captureSlot k slot st))"
proof (cases rule: capture_cases [OF assms, of k slot])
  case (2 kept gone)
  have "distinct (map fst (jsmap_delete k (ls_slots st)))" "k \<notin> fst ` set (jsmap_delete k (ls_slots st))"
      "set (jsmap_delete k (ls_slots st)) \<subseteq> set (ls_slots st)"
    using assms by (auto simp: lkg_ok_def distinct_jsmap_delete keys_jsmap_delete) (simp add: jsmap_delete_def)
  then have "distinct (map fst (gone @ kept))" "k \<notin> fst ` set (gone @ kept)" "set (gone @ kept) \<subseteq> set (ls_slots st)"
    unfolding 2(4) .
  then have "distinct (map fst kept)" "k \<notin> fst ` set kept" "set kept \<subseteq> set (ls_slots st)" by auto
  then show ?thesis
    using assms 2 by (auto simp: lkg_ok_def slot_bytes_sum_def)
qed (use assms in simp)

lemma capture_refused:
  assumes "lkg_ok st" "\<not> fst (captureSlot k slot st)"
  shows "captureSlot k slot st = (False, st)"
  by (cases rule: capture_cases [OF assms(1), of k slot]) (use assms(2) in auto)

lemma capture_same:
  assumes "lkg_ok st" "fst (captureSlot k slot st)"
  shows "map_of (ls_slots (snd (captureSlot k slot st))) k = Some (slot, slotBytes slot)"
proof (cases rule: capture_cases [OF assms(1), of k slot])
  case (2 kept gone)
  have "k \<notin> fst ` set kept" using keys_jsmap_delete [of k "ls_slots st"] by (auto simp: 2(4))
  then show ?thesis using 2(5) by (simp add: map_of_snoc del: map_of_append)
qed (use assms(2) in auto)

lemma capture_other:
  assumes "lkg_ok st" "fst (captureSlot k slot st)" "k' \<noteq> k"
  shows "map_of (ls_slots (snd (captureSlot k slot st))) k' \<in> {None, map_of (ls_slots st) k'}"
proof (cases rule: capture_cases [OF assms(1), of k slot])
  case (2 kept gone)
  have d: "distinct (map fst (gone @ kept))" using assms(1) distinct_jsmap_delete [of "ls_slots st" k] 2(4) by (simp add: lkg_ok_def)
  have "map_of kept k' = map_of (gone @ kept) k'" if "k' \<in> fst ` set kept"
  proof -
    have "k' \<notin> fst ` set gone" using d that by auto
    then show ?thesis by (simp add: map_add_def map_of_eq_None_iff [symmetric] split: option.splits)
  qed
  also have "map_of (gone @ kept) k' = map_of (ls_slots st) k'"
    using assms(3) by (simp flip: 2(4) add: map_of_jsmap_delete del: map_of_append)
  finally show ?thesis using 2(5) assms(3) by (simp add: map_of_snoc del: map_of_append)
qed (use assms in auto)

lemma drop_ok:
  assumes ok: "lkg_ok st"
  shows "lkg_ok (dropSlot k st)"
proof (cases "map_of (ls_slots st) k")
  case (Some e)
  obtain slot b where e: "e = (slot, b)" by (cases e)
  have d: "distinct (map fst (ls_slots st))" using ok by (simp add: lkg_ok_def)
  have "(k, slot, b) \<in> set (ls_slots st)" using Some e by (auto dest: map_of_SomeD)
  then have "0 < b" using ok slotBytes_pos [of slot] by (auto simp: lkg_ok_def)
  moreover have "set (jsmap_delete k (ls_slots st)) \<subseteq> set (ls_slots st)" by (auto simp: jsmap_delete_def)
  ultimately show ?thesis
    using ok Some e distinct_jsmap_delete [OF d, of k] sum_jsmap_delete [OF d, of k slot b]
    by (auto simp: dropSlot_def lkg_ok_def)
qed (use assms in \<open>simp add: dropSlot_def\<close>)

interpretation slots: session_store "\<lambda>st k. map_option fst (map_of (ls_slots st) k)" "\<lambda>k slot st. snd (captureSlot k slot st)"
  dropSlot "\<lambda>k slot st. fst (captureSlot k slot st)" ls_totalBytes LKG_TOTAL_BYTES lkg_ok
proof
  show "lkg_ok st \<Longrightarrow> fst (captureSlot k slot st) \<Longrightarrow> k' \<noteq> k \<Longrightarrow>
      map_option fst (map_of (ls_slots (snd (captureSlot k slot st))) k') \<in> {None, map_option fst (map_of (ls_slots st) k')}"
    for st k slot k' using capture_other [of st k slot k'] by auto
  show "lkg_ok st \<Longrightarrow> (\<lambda>k'. map_option fst (map_of (ls_slots (dropSlot k st)) k'))
      = (\<lambda>k'. map_option fst (map_of (ls_slots st) k'))(k := None)" for st k
    by (auto simp: dropSlot_def map_of_jsmap_delete fun_eq_iff split: option.splits)
  show "lkg_ok st \<Longrightarrow> ls_totalBytes st \<le> LKG_TOTAL_BYTES" for st by (simp add: lkg_ok_def)
qed (auto simp: capture_ok drop_ok capture_same dest: capture_refused)

section \<open>Properties\<close>

text \<open>
  C34: The bounded map is a least-recently-used cache: over any sequence of \<open>set\<close>, \<open>get\<close>, \<open>peek\<close>,
  \<open>has\<close>, \<open>delete\<close>, \<open>clear\<close> and \<open>size\<close> it gives every answer the stamped reference gives, which evicts the
  entry with the oldest use when a new key meets a full map, and it ends with exactly the reference's entries,
  in the order of their last uses and never more than the limit. A stored \<open>undefined\<close> counts as an entry but a read of it is no use.
\<close>

theorem bounded_map_is_lru:
  assumes "bounded_map_new n = Inr m0"
    and "run_ops cache_step m0 ops = (answers, m)"
    and "run_ops (lru_step n) \<lparr>lr_clock = 0, lr_entries = []\<rparr> ops = (answers', r)"
  shows "answers = answers' \<and> bm_store m = map bare_entry (sort_key stamp (lr_entries r)) \<and> length (bm_store m) \<le> n"
proof -
  let ?r = "\<lparr>lr_clock = 0, lr_entries = []\<rparr>"
  have "in_order ?r []" by (simp add: in_order_def)
  then have "lru_agrees n m0 ?r"
    using assms(1) by (auto simp: bounded_map_new_def lru_agrees_def bm_ok_def split: if_splits)
  from run_ops_refine [where R = "lru_agrees n" and f = cache_step and g = "lru_step n" and ops = ops, OF lru_agrees_step this] assms(2,3)
  have "answers = answers'" "lru_agrees n m r" by simp_all
  then show ?thesis by (auto simp: lru_agrees_def bm_ok_def dest: in_order_sorted)
qed

theorem bounded_map_is_lru_witness:
  "run_ops cache_step \<lparr>bm_maxEntries = 2, bm_store = []\<rparr>
     [CacheSet ''a'' (Some (1::nat)), CacheSet ''b'' (Some 2), CacheGet ''a'', CacheSet ''c'' (Some 3), CacheGet ''b'', CacheDelete ''c'']
   = ([NoAnswer, NoAnswer, AnswerValue (Some 1), NoAnswer, AnswerValue None, AnswerBool True],
      \<lparr>bm_maxEntries = 2, bm_store = [(''a'', Some 1)]\<rparr>)"
proof -
  let ?ops = "[CacheSet ''a'' (Some (1::nat)), CacheSet ''b'' (Some 2), CacheGet ''a'', CacheSet ''c'' (Some 3), CacheGet ''b'', CacheDelete ''c'']"
  have new: "bounded_map_new 2 = Inr \<lparr>bm_maxEntries = 2, bm_store = []\<rparr>" by (simp add: bounded_map_new_def)
  obtain answers m where run: "run_ops cache_step \<lparr>bm_maxEntries = 2, bm_store = []\<rparr> ?ops = (answers, m)" by fastforce
  have ref: "run_ops (lru_step 2) \<lparr>lr_clock = 0, lr_entries = []\<rparr> ?ops
      = ([NoAnswer, NoAnswer, AnswerValue (Some 1), NoAnswer, AnswerValue None, AnswerBool True],
         \<lparr>lr_clock = 4, lr_entries = [(''a'', Some 1, 2)]\<rparr>)"
    by (simp add: lru_value_def lru_use_def other_entries_def without_oldest_def stamp_def)
  have limit: "bm_maxEntries m = 2" using run by (auto simp: bm_set_def bm_get_def bm_delete_def bm_has_def jsmap_delete_def)
  from bounded_map_is_lru [OF new run ref] limit run show ?thesis by (cases m) (simp add: bare_entry_def)
qed

text \<open>The operations on the slots, and what they should have left: the newest accepted capture of each session.\<close>

datatype slot_op = CaptureOp string lkg_slot | ReadOp string | DropOp string

fun slot_step :: "lkg_store \<Rightarrow> slot_op \<Rightarrow> lkg_store" where
  "slot_step st (CaptureOp k slot) = snd (captureSlot k slot st)"
| "slot_step st (ReadOp k) = snd (getSlot k st)"
| "slot_step st (DropOp k) = dropSlot k st"

fun accepted_slot :: "lkg_store \<times> (string \<rightharpoonup> lkg_slot) \<Rightarrow> slot_op \<Rightarrow> lkg_store \<times> (string \<rightharpoonup> lkg_slot)" where
  "accepted_slot (st, m) (CaptureOp k slot) = (slot_step st (CaptureOp k slot), if fst (captureSlot k slot st) then m(k \<mapsto> slot) else m)"
| "accepted_slot (st, m) (ReadOp k) = (slot_step st (ReadOp k), m)"
| "accepted_slot (st, m) (DropOp k) = (slot_step st (DropOp k), m(k := None))"

lemma get_keeps:
  assumes "lkg_ok st"
  shows "lkg_ok (snd (getSlot k st))" "map_of (ls_slots (snd (getSlot k st))) = map_of (ls_slots st)"
proof -
  have d: "distinct (map fst (ls_slots st))" using assms by (simp add: lkg_ok_def)
  show "map_of (ls_slots (snd (getSlot k st))) = map_of (ls_slots st)"
    by (auto simp: getSlot_def jsmap_laws fun_eq_iff split: option.splits)
  show "lkg_ok (snd (getSlot k st))"
  proof (cases "map_of (ls_slots st) k")
    case (Some e)
    obtain slot b where e: "e = (slot, b)" by (cases e)
    have "ls_slots (snd (getSlot k st)) = jsmap_delete k (ls_slots st) @ [(k, slot, b)]"
      using Some by (simp add: getSlot_def e jsmap_set_absent keys_jsmap_delete)
    moreover have "ls_totalBytes (snd (getSlot k st)) = ls_totalBytes st" using Some by (simp add: getSlot_def e)
    moreover have "(k, slot, b) \<in> set (ls_slots st)" using Some e by (auto dest: map_of_SomeD)
    moreover have "slot_bytes_sum (jsmap_delete k (ls_slots st) @ [(k, slot, b)]) = slot_bytes_sum (ls_slots st)"
      using Some sum_jsmap_delete [OF d, of k slot b] by (simp add: e slot_bytes_sum_def)
    moreover have "distinct (map fst (jsmap_delete k (ls_slots st) @ [(k, slot, b)]))"
      using distinct_jsmap_delete [OF d, of k] keys_jsmap_delete [of k "ls_slots st"] by simp
    moreover have "set (jsmap_delete k (ls_slots st)) \<subseteq> set (ls_slots st)" by (auto simp: jsmap_delete_def)
    ultimately show ?thesis using assms by (auto simp: lkg_ok_def)
  qed (use assms in \<open>simp add: getSlot_def\<close>)
qed

definition slots_logged :: "lkg_store \<times> (string \<rightharpoonup> lkg_slot) \<Rightarrow> bool" where
  "slots_logged s \<longleftrightarrow> lkg_ok (fst s) \<and> (\<forall>k slot b. map_of (ls_slots (fst s)) k = Some (slot, b) \<longrightarrow> snd s k = Some slot)"

lemma accepted_slot_step:
  assumes "slots_logged s"
  shows "slots_logged (accepted_slot s op)"
proof -
  obtain st m where s: "s = (st, m)" by (cases s)
  have ok: "lkg_ok st" and log: "\<And>k slot b. map_of (ls_slots st) k = Some (slot, b) \<Longrightarrow> m k = Some slot"
    using assms by (auto simp: s slots_logged_def)
  show ?thesis
  proof (cases op)
    case (CaptureOp k slot)
    have "(if fst (captureSlot k slot st) then m(k \<mapsto> slot) else m) k' = Some slot'"
      if "map_of (ls_slots (snd (captureSlot k slot st))) k' = Some (slot', b)" for k' slot' b
    proof (cases "fst (captureSlot k slot st)")
      case True
      then show ?thesis
        using that capture_same [OF ok True] capture_other [OF ok True, of k'] log [of k' slot' b] by (cases "k' = k") auto
    qed (use that log [of k' slot' b] capture_refused [OF ok, of k slot] in auto)
    then show ?thesis using slots.put_valid [OF ok] by (simp add: s CaptureOp slots_logged_def)
  next
    case (ReadOp k)
    then show ?thesis using get_keeps [OF ok, of k] log by (auto simp: s slots_logged_def)
  next
    case (DropOp k)
    have "(m(k := None)) k' = Some slot'" if "map_of (ls_slots (dropSlot k st)) k' = Some (slot', b)" for k' slot' b
      using that log [of k' slot' b] by (auto simp: dropSlot_def map_of_jsmap_delete split: option.splits if_splits prod.splits)
    then show ?thesis using slots.remove_valid [OF ok, of k] by (simp add: s DropOp slots_logged_def)
  qed
qed

text \<open>
  The slots never exceed their byte budget and never answer with a wrong slot: after any sequence of
  captures, reads and drops from the empty store the books are right and within 64 MiB, and a slot found for a
  session is the newest one accepted for it, with no drop since, and not larger than one slot may be.
\<close>

theorem slots_stay_within_budget:
  assumes "foldl accepted_slot (\<lparr>ls_slots = [], ls_totalBytes = 0\<rparr>, Map.empty) ops = (st, newest_accepted)"
  shows "st = foldl slot_step \<lparr>ls_slots = [], ls_totalBytes = 0\<rparr> ops
    \<and> ls_totalBytes st = slot_bytes_sum (ls_slots st) \<and> ls_totalBytes st \<le> LKG_TOTAL_BYTES
    \<and> (\<forall>k slot. fst (getSlot k st) = Some slot \<longrightarrow> newest_accepted k = Some slot \<and> slotBytes slot \<le> LKG_SINGLE_SLOT_BYTES)"
proof -
  let ?e = "\<lparr>ls_slots = [], ls_totalBytes = 0\<rparr> :: lkg_store"
  have "fst (foldl accepted_slot s ops) = foldl slot_step (fst s) ops" for s
  proof (induction ops arbitrary: s)
    case (Cons op ops)
    have "fst (accepted_slot s op) = slot_step (fst s) op" by (cases s; cases op) simp_all
    with Cons show ?case by simp
  qed simp
  from this [of "(?e, Map.empty)"] have run: "st = foldl slot_step ?e ops" by (simp add: assms)
  have "slots_logged (?e, Map.empty)" by (simp add: slots_logged_def lkg_ok_def slot_bytes_sum_def LKG_TOTAL_BYTES_def)
  then have "slots_logged (foldl accepted_slot (?e, Map.empty) ops)"
    by (induction ops rule: rev_induct) (simp_all add: accepted_slot_step)
  then have ok: "lkg_ok st" and log: "\<And>k slot b. map_of (ls_slots st) k = Some (slot, b) \<Longrightarrow> newest_accepted k = Some slot"
    by (auto simp: assms slots_logged_def)
  have "newest_accepted k = Some slot \<and> slotBytes slot \<le> LKG_SINGLE_SLOT_BYTES" if found: "fst (getSlot k st) = Some slot" for k slot
  proof -
    from found obtain b where b: "map_of (ls_slots st) k = Some (slot, b)" by (auto simp: getSlot_def split: option.splits)
    with log [OF b] ok map_of_SomeD [OF b] show ?thesis by (auto simp: lkg_ok_def)
  qed
  with run ok show ?thesis by (auto simp: lkg_ok_def)
qed

text \<open>
  A capture never replaces a newer slot by an older one: when it is accepted over a slot and both carry a row
  version, the version grows, or it is equal and the capture sequence does not fall. A refused capture
  changes nothing at all.
\<close>

theorem captures_never_go_back:
  assumes "lkg_ok st"
  shows "case captureSlot k slot st of
      (True, st') \<Rightarrow>
        map_of (ls_slots st') k = Some (slot, slotBytes slot)
        \<and> (\<forall>old b pv v. map_of (ls_slots st) k = Some (old, b) \<longrightarrow> lk_rowVersion old = Some pv \<longrightarrow> lk_rowVersion slot = Some v
             \<longrightarrow> pv < v \<or> (pv = v \<and> or_zero (lk_captureSequence old) \<le> or_zero (lk_captureSequence slot)))
    | (False, st') \<Rightarrow> st' = st"
proof (cases rule: capture_cases [OF assms, of k slot])
  case (2 kept gone)
  have "map_of (ls_slots (snd (captureSlot k slot st))) k = Some (slot, slotBytes slot)"
    using capture_same [OF assms, of k slot] 2(5) by simp
  then show ?thesis using 2(3,5) by (auto simp: stale_capture_def)
qed simp

definition example_slot :: "int \<Rightarrow> lkg_slot" where
  "example_slot v = \<lparr>lk_jsonPrefix = ''[]'', lk_inputIdSeq = [''m''], lk_inputContentDigests = [''d''], lk_inputContentSignatures = None,
     lk_lastInputMessageId = ''m'', lk_modelKey = None, lk_providerKey = None, lk_capturedAt = 0, lk_rowVersion = Some v,
     lk_captureSequence = None\<rparr>"

theorem captures_never_go_back_witness:
  "case captureSlot ''s'' (example_slot 2) \<lparr>ls_slots = [], ls_totalBytes = 0\<rparr> of
     (True, st') \<Rightarrow> map_of (ls_slots st') ''s'' = Some (example_slot 2, slotBytes (example_slot 2)) | (False, st') \<Rightarrow> True"
proof -
  have "lkg_ok \<lparr>ls_slots = [], ls_totalBytes = 0\<rparr>" by (simp add: lkg_ok_def slot_bytes_sum_def LKG_TOTAL_BYTES_def)
  from captures_never_go_back [OF this, of "''s''" "example_slot 2"] show ?thesis
    by (auto split: prod.splits bool.splits)
qed

theorem slots_stay_within_budget_witness:
  "ls_totalBytes (foldl slot_step \<lparr>ls_slots = [], ls_totalBytes = 0\<rparr> [CaptureOp ''s'' (example_slot 1), ReadOp ''s'']) \<le> LKG_TOTAL_BYTES"
proof -
  let ?ops = "[CaptureOp ''s'' (example_slot 1), ReadOp ''s'']"
  obtain st m where e: "foldl accepted_slot (\<lparr>ls_slots = [], ls_totalBytes = 0\<rparr>, Map.empty) ?ops = (st, m)"
    by (metis surj_pair)
  from slots_stay_within_budget [OF this] show ?thesis by (elim conjE) (simp only:)
qed

end
