(* ===== verification/Content_Digests.thy ===== *)
theory Content_Digests
  imports Raw_Messages
begin

text \<open>
  The content digests of the last-known-good replay (\<open>hooks/magic-context/lkg-slot.ts\<close>): the fields a message
  tree is flattened to, the byte stream that is hashed, and the incremental recomputation. Message trees
  are JSON values; the hash function is a parameter.
\<close>

section \<open>Fields\<close>

datatype snapshot_symbol = SymArray | SymObject | SymKey | SymString | SymNumber | SymBoolean | SymNull | SymUndefined

datatype content_field = FieldString string | FieldNumber real | FieldBoolean bool | FieldSymbol snapshot_symbol

fun lkgContentFields :: "json \<Rightarrow> content_field list" where
  "lkgContentFields JNull = [FieldSymbol SymNull]"
| "lkgContentFields (JStr s) = [FieldSymbol SymString, FieldString s]"
| "lkgContentFields (JNum x) = [FieldSymbol SymNumber, FieldNumber x]"
| "lkgContentFields (JBool b) = [FieldSymbol SymBoolean, FieldBoolean b]"
| "lkgContentFields (JArr xs) =
     [FieldSymbol SymArray, FieldNumber (real (length xs))] @ concat (map lkgContentFields xs)"
| "lkgContentFields (JObj es) =
     [FieldSymbol SymObject, FieldNumber (real (length es))]
     @ concat (map (\<lambda>(k, v). [FieldSymbol SymKey, FieldString k] @ lkgContentFields v) es)"

fun description :: "snapshot_symbol \<Rightarrow> string" where
  "description SymArray = ''array''" | "description SymObject = ''object''" | "description SymKey = ''key''"
| "description SymString = ''string''" | "description SymNumber = ''number''" | "description SymBoolean = ''boolean''"
| "description SymNull = ''null''" | "description SymUndefined = ''undefined''"

fun field_type :: "content_field \<Rightarrow> string" where
  "field_type (FieldString s) = ''string''" | "field_type (FieldNumber x) = ''number''"
| "field_type (FieldBoolean b) = ''boolean''" | "field_type (FieldSymbol y) = ''symbol''"

fun field_value :: "runtime \<Rightarrow> content_field \<Rightarrow> string" where
  "field_value rt (FieldString s) = s"
| "field_value rt (FieldNumber x) = number_text rt x"
| "field_value rt (FieldBoolean b) = (if b then ''true'' else ''false'')"
| "field_value rt (FieldSymbol y) = description y"

section \<open>The hashed stream\<close>

definition field_stream :: "runtime \<Rightarrow> content_field \<Rightarrow> string" where
  "field_stream rt f =
     field_type f @ CHR '':'' # show_int (int (length (field_value rt f))) @ CHR '':'' # field_value rt f @ [CHR 0x00]"

definition digest_stream :: "runtime \<Rightarrow> content_field list \<Rightarrow> string" where
  "digest_stream rt fs = concat (map (field_stream rt) fs)"

definition lkgContentDigestFromFields :: "(string \<Rightarrow> string) \<Rightarrow> runtime \<Rightarrow> content_field list \<Rightarrow> string" where
  "lkgContentDigestFromFields sha256 rt fs = sha256 (digest_stream rt fs)"

definition lkgContentDigest :: "(string \<Rightarrow> string) \<Rightarrow> runtime \<Rightarrow> json \<Rightarrow> string" where
  "lkgContentDigest sha256 rt message = lkgContentDigestFromFields sha256 rt (lkgContentFields message)"

section \<open>Incremental digests\<close>

record digest_entry =
  de_id :: string
  de_signature :: string
  de_fields :: "content_field list"

record digest_prior =
  dp_ids :: "string list"
  dp_signatures :: "string list"
  dp_digests :: "string list"

fun matching_prefix :: "digest_entry list \<Rightarrow> string list \<Rightarrow> string list \<Rightarrow> nat" where
  "matching_prefix (e # es) (i # is) (s # ss) =
     (if de_id e = i \<and> de_signature e = s then Suc (matching_prefix es is ss) else 0)"
| "matching_prefix _ _ _ = 0"

definition incrementalLkgContentDigests ::
  "(string \<Rightarrow> string) \<Rightarrow> runtime \<Rightarrow> digest_entry list \<Rightarrow> digest_prior option \<Rightarrow> string list \<times> nat" where
  "incrementalLkgContentDigests sha256 rt entries prior =
     (let aligned = (case prior of None \<Rightarrow> None
        | Some p \<Rightarrow> if length (dp_ids p) = length (dp_signatures p) \<and> length (dp_signatures p) = length (dp_digests p)
                    then Some p else None);
          reused = (case aligned of None \<Rightarrow> 0 | Some p \<Rightarrow> matching_prefix entries (dp_ids p) (dp_signatures p));
          kept = (case aligned of None \<Rightarrow> [] | Some p \<Rightarrow> take reused (dp_digests p))
      in (kept @ map (\<lambda>e. lkgContentDigestFromFields sha256 rt (de_fields e)) (drop reused entries), reused))"

section \<open>The fields determine the value\<close>

lemma concat_prefix_free:
  "length xs = length ys \<Longrightarrow> \<forall>x\<in>set xs. \<forall>y s s'. g x @ s = g y @ s' \<longrightarrow> x = y \<and> s = s' \<Longrightarrow>
   concat (map g xs) @ r = concat (map g ys) @ r' \<Longrightarrow> xs = ys \<and> r = r'"
proof (induction xs ys rule: list_induct2)
  case (Cons x xs y ys)
  have e: "g x @ (concat (map g xs) @ r) = g y @ (concat (map g ys) @ r')" using Cons.prems(2) by (simp only: list.map concat.simps append_assoc)
  have "\<forall>y s s'. g x @ s = g y @ s' \<longrightarrow> x = y \<and> s = s'" using Cons.prems(1) by (meson list.set_intros(1))
  from this [rule_format, OF e] have "x = y" "concat (map g xs) @ r = concat (map g ys) @ r'" by simp_all
  moreover have "\<forall>x\<in>set xs. \<forall>y s s'. g x @ s = g y @ s' \<longrightarrow> x = y \<and> s = s'"
    using Cons.prems(1) by (meson list.set_intros(2))
  ultimately show ?case using Cons.IH by (metis (full_types))
qed simp

lemma fields_prefix_free:
  "lkgContentFields v @ r = lkgContentFields w @ r' \<Longrightarrow> v = w \<and> r = r'"
proof (induction v arbitrary: w r r' rule: lkgContentFields.induct)
  case 1
  then show ?case by (cases w) simp_all
next
  case (2 s)
  then show ?case by (cases w) simp_all
next
  case (3 x)
  then show ?case by (cases w) simp_all
next
  case (4 b)
  then show ?case by (cases w) simp_all
next
  case (5 xs)
  from "5.prems" obtain ys where w: "w = JArr ys" and n: "length xs = length ys"
    and e: "concat (map lkgContentFields xs) @ r = concat (map lkgContentFields ys) @ r'" by (cases w) simp_all
  have "\<forall>x\<in>set xs. \<forall>y s s'. lkgContentFields x @ s = lkgContentFields y @ s' \<longrightarrow> x = y \<and> s = s'"
    using "5.IH" by blast
  from concat_prefix_free [OF n this e] show ?case by (simp add: w)
next
  case (6 es)
  let ?f = "\<lambda>(k, v). [FieldSymbol SymKey, FieldString k] @ lkgContentFields v"
  from "6.prems" obtain ys where w: "w = JObj ys" and n: "length es = length ys"
    and e: "concat (map ?f es) @ r = concat (map ?f ys) @ r'" by (cases w) simp_all
  have "\<forall>x\<in>set es. \<forall>y s s'. ?f x @ s = ?f y @ s' \<longrightarrow> x = y \<and> s = s'"
  proof (intro ballI allI impI)
    fix x y s s' assume x: "x \<in> set es" and eq: "?f x @ s = ?f y @ s'"
    obtain k a l b where xy: "x = (k, a)" "y = (l, b)" by (cases x; cases y)
    from eq have kl: "k = l" and ab: "lkgContentFields a @ s = lkgContentFields b @ s'" by (simp_all add: xy)
    from "6.IH" [OF x [unfolded xy] refl ab] show "x = y \<and> s = s'" by (simp add: xy kl)
  qed
  from concat_prefix_free [OF n this e] show ?case by (simp add: w)
qed

section \<open>The stream determines the fields\<close>

lemma cut_at:
  assumes "c \<notin> set a" "c \<notin> set a'" "a @ c # b = a' @ c # b'"
  shows "a = a' \<and> b = b'"
proof -
  have t: "takeWhile (\<lambda>x. x \<noteq> c) (d @ c # e) = d" if "c \<notin> set d" for d e :: "'a list"
  proof -
    have "\<And>x. x \<in> set d \<Longrightarrow> x \<noteq> c" using that by blast
    from takeWhile_append2 [of d "\<lambda>x. x \<noteq> c" "c # e", OF this] show ?thesis by simp
  qed
  have "takeWhile (\<lambda>x. x \<noteq> c) (a @ c # b) = takeWhile (\<lambda>x. x \<noteq> c) (a' @ c # b')" by (simp only: assms(3))
  then have "a = a'" by (simp only: t [OF assms(1)] t [OF assms(2)])
  then show ?thesis using assms(3) by simp
qed

lemma show_int_no_colon: "0 \<le> n \<Longrightarrow> CHR '':'' \<notin> set (show_int n)"
  using show_base_digits [of "nat n"] by (auto simp: show_int_def all_digits_def list_all_iff is_digit_def)

lemma digits_value_show_int: "0 \<le> n \<Longrightarrow> digits_value (show_int n) = n"
  by (simp add: show_int_def digits_value_show)

lemma show_int_inj: "0 \<le> n \<Longrightarrow> 0 \<le> m \<Longrightarrow> show_int n = show_int m \<Longrightarrow> n = m"
  by (metis digits_value_show_int)

lemma field_type_no_colon: "CHR '':'' \<notin> set (field_type f)"
  by (cases f) simp_all

lemma description_inj: "description a = description b \<Longrightarrow> a = b"
  by (cases a; cases b) simp_all

definition stream_numbers :: "content_field list \<Rightarrow> real set" where
  "stream_numbers fs = {x. FieldNumber x \<in> set fs}"

lemma field_determined:
  assumes "inj_on (number_text rt) (stream_numbers [f, g])" "field_type f = field_type g" "field_value rt f = field_value rt g"
  shows "f = g"
proof (cases "\<exists>x y. f = FieldNumber x \<and> g = FieldNumber y")
  case True
  then obtain x y where fg: "f = FieldNumber x" "g = FieldNumber y" by blast
  have "x = y" by (rule inj_onD [OF assms(1)]) (use assms(3) in \<open>simp_all add: fg stream_numbers_def\<close>)
  then show ?thesis by (simp add: fg)
next
  case False
  with assms(2,3) show ?thesis
    by (cases f; cases g) (auto dest: description_inj split: if_splits)
qed

lemma stream_prefix_free:
  assumes "inj_on (number_text rt) (stream_numbers [f, g])" "field_stream rt f @ s = field_stream rt g @ s'"
  shows "f = g \<and> s = s'"
proof -
  let ?n = "\<lambda>f. show_int (int (length (field_value rt f)))"
  have "field_type f @ CHR '':'' # (?n f @ CHR '':'' # (field_value rt f @ CHR 0x00 # s))
      = field_type g @ CHR '':'' # (?n g @ CHR '':'' # (field_value rt g @ CHR 0x00 # s'))"
    using assms(2) by (simp add: field_stream_def)
  from cut_at [OF field_type_no_colon field_type_no_colon this]
  have t: "field_type f = field_type g" and r: "?n f @ CHR '':'' # (field_value rt f @ CHR 0x00 # s)
      = ?n g @ CHR '':'' # (field_value rt g @ CHR 0x00 # s')" by blast+
  from cut_at [OF show_int_no_colon show_int_no_colon r]
  have "?n f = ?n g" and v: "field_value rt f @ CHR 0x00 # s = field_value rt g @ CHR 0x00 # s'" by simp_all
  then have "length (field_value rt f) = length (field_value rt g)"
    using show_int_inj [of "int (length (field_value rt f))" "int (length (field_value rt g))"] by simp
  with v have "field_value rt f = field_value rt g" "s = s'" by simp_all
  with field_determined [OF assms(1) t] show ?thesis by simp
qed

section \<open>Properties\<close>

text \<open>
  The hashed stream identifies the message: for a number format that tells numbers apart, two message trees
  with the same stream are equal, so equal digests of different messages are a collision of the hash
  function itself.
\<close>

theorem digest_stream_is_unambiguous:
  assumes "inj_on (number_text rt) (stream_numbers (lkgContentFields v) \<union> stream_numbers (lkgContentFields w))"
    and "digest_stream rt (lkgContentFields v) = digest_stream rt (lkgContentFields w)"
  shows "v = w"
proof -
  have "fs = gs" if "digest_stream rt fs = digest_stream rt gs" "inj_on (number_text rt) (stream_numbers fs \<union> stream_numbers gs)" for fs gs
    using that
  proof (induction fs arbitrary: gs)
    case Nil
    then show ?case by (cases gs) (simp_all add: digest_stream_def field_stream_def)
  next
    case (Cons f fs)
    then obtain g gs' where gs: "gs = g # gs'"
      by (cases gs) (simp_all add: digest_stream_def field_stream_def)
    have e: "field_stream rt f @ digest_stream rt fs = field_stream rt g @ digest_stream rt gs'"
      using Cons.prems(1) by (simp add: gs digest_stream_def)
    have i: "inj_on (number_text rt) (stream_numbers [f, g])" "inj_on (number_text rt) (stream_numbers fs \<union> stream_numbers gs')"
      by (rule inj_on_subset [OF Cons.prems(2)]; auto simp: gs stream_numbers_def)+
    from stream_prefix_free [OF i(1) e] Cons.IH [OF _ i(2)] gs show ?case by simp
  qed
  from this [OF assms(2,1)] have "lkgContentFields v @ [] = lkgContentFields w @ []" by simp
  from fields_prefix_free [OF this] show ?thesis by simp
qed

theorem digest_stream_is_unambiguous_witness:
  "digest_stream (example_runtime\<lparr>number_text := \<lambda>x. show_int \<lfloor>x\<rfloor>\<rparr>) (lkgContentFields (JArr [JStr ''ab'']))
   \<noteq> digest_stream (example_runtime\<lparr>number_text := \<lambda>x. show_int \<lfloor>x\<rfloor>\<rparr>) (lkgContentFields (JArr [JStr ''a'', JStr ''b'']))"
proof -
  let ?rt = "example_runtime\<lparr>number_text := \<lambda>x. show_int \<lfloor>x\<rfloor>\<rparr>"
  have "stream_numbers (lkgContentFields (JArr [JStr ''ab''])) \<union> stream_numbers (lkgContentFields (JArr [JStr ''a'', JStr ''b''])) = {1, 2}"
    by (auto simp: stream_numbers_def)
  moreover have "show_int 1 \<noteq> show_int 2" using show_int_inj [of 1 2] by auto
  ultimately have "inj_on (number_text ?rt) (stream_numbers (lkgContentFields (JArr [JStr ''ab'']))
      \<union> stream_numbers (lkgContentFields (JArr [JStr ''a'', JStr ''b''])))" by auto
  from digest_stream_is_unambiguous [OF this] show ?thesis by auto
qed

text \<open>
  Reusing digests is the same as computing them all: when the prior digests were computed from entries whose
  fields an equal id and signature identify, the incremental result is the digest of every entry, and
  the reused count is the length of a common prefix.
\<close>

theorem incremental_digests_are_full:
  assumes "prior = Some \<lparr>dp_ids = map de_id old, dp_signatures = map de_signature old,
      dp_digests = map (\<lambda>e. lkgContentDigestFromFields sha256 rt (de_fields e)) old\<rparr>"
    and "\<forall>e\<in>set entries. \<forall>e'\<in>set old. de_id e = de_id e' \<and> de_signature e = de_signature e' \<longrightarrow> de_fields e = de_fields e'"
  shows "fst (incrementalLkgContentDigests sha256 rt entries prior)
      = map (\<lambda>e. lkgContentDigestFromFields sha256 rt (de_fields e)) entries
    \<and> snd (incrementalLkgContentDigests sha256 rt entries prior) \<le> min (length entries) (length old)"
proof -
  let ?h = "\<lambda>e. lkgContentDigestFromFields sha256 rt (de_fields e)"
  define n where "n = matching_prefix entries (map de_id old) (map de_signature old)"
  have "take (matching_prefix es (map de_id os) (map de_signature os)) (map ?h os)
      = take (matching_prefix es (map de_id os) (map de_signature os)) (map ?h es)
      \<and> matching_prefix es (map de_id os) (map de_signature os) \<le> min (length es) (length os)"
    if "\<forall>e\<in>set es. \<forall>e'\<in>set os. de_id e = de_id e' \<and> de_signature e = de_signature e' \<longrightarrow> de_fields e = de_fields e'" for es os
    using that
  proof (induction es arbitrary: os)
    case (Cons e es)
    show ?case
    proof (cases os)
      case (Cons o' os')
      with Cons.IH [of os'] Cons.prems show ?thesis by auto
    qed simp
  qed simp
  from this [OF assms(2)] have "take n (map ?h old) = take n (map ?h entries)" "n \<le> min (length entries) (length old)"
    by (simp_all add: n_def)
  then show ?thesis
    by (simp add: incrementalLkgContentDigests_def assms(1) n_def [symmetric] Let_def drop_map [symmetric])
qed

definition example_entry :: "string \<Rightarrow> digest_entry" where
  "example_entry s = \<lparr>de_id = s, de_signature = s, de_fields = [FieldString s]\<rparr>"

theorem incremental_digests_are_full_witness:
  "fst (incrementalLkgContentDigests id example_runtime (map example_entry [''a'', ''c'']) (Some \<lparr>dp_ids = [''a'', ''b''],
       dp_signatures = [''a'', ''b''],
       dp_digests = map (\<lambda>e. lkgContentDigestFromFields id example_runtime (de_fields e)) (map example_entry [''a'', ''b''])\<rparr>))
   = map (\<lambda>e. lkgContentDigestFromFields id example_runtime (de_fields e)) (map example_entry [''a'', ''c''])"
proof -
  have "Some \<lparr>dp_ids = [''a'', ''b''], dp_signatures = [''a'', ''b''],
       dp_digests = map (\<lambda>e. lkgContentDigestFromFields id example_runtime (de_fields e)) (map example_entry [''a'', ''b''])\<rparr>
    = Some \<lparr>dp_ids = map de_id (map example_entry [''a'', ''b'']), dp_signatures = map de_signature (map example_entry [''a'', ''b'']),
       dp_digests = map (\<lambda>e. lkgContentDigestFromFields id example_runtime (de_fields e)) (map example_entry [''a'', ''b''])\<rparr>"
    by (simp add: example_entry_def)
  from incremental_digests_are_full [OF this, of "map example_entry [''a'', ''c'']"] show ?thesis
    by (auto simp: example_entry_def)
qed

end
