(* ===== verification/Cron_Schedule.thy ===== *)
theory Cron_Schedule
  imports Prelude
begin

text \<open>
  Cron schedules of background tasks (\<open>features/magic-context/dreamer/cron.ts\<close>): parsing of the five fields,
  matching of a local civil time, and the search for the next occurrence. The reading of an instant in the
  machine's time zone is the argument \<open>local\<close>, so every time zone and every clock change is covered. Instants
  are milliseconds since the epoch.
\<close>

section \<open>Fields\<close>

record parsed_cron =
  pc_minute :: "int set"
  pc_hour :: "int set"
  pc_dom :: "int set"
  pc_month :: "int set"
  pc_dow :: "int set"
  pc_domRestricted :: bool
  pc_dowRestricted :: bool

record field_spec =
  fs_name :: string
  fs_min :: int
  fs_max :: int

definition FIELDS :: "field_spec list" where
  "FIELDS = [\<lparr>fs_name = ''minute'', fs_min = 0, fs_max = 59\<rparr>, \<lparr>fs_name = ''hour'', fs_min = 0, fs_max = 23\<rparr>,
     \<lparr>fs_name = ''day-of-month'', fs_min = 1, fs_max = 31\<rparr>, \<lparr>fs_name = ''month'', fs_min = 1, fs_max = 12\<rparr>,
     \<lparr>fs_name = ''day-of-week'', fs_min = 0, fs_max = 7\<rparr>]"

definition MINUTE_MS :: int where [config_simps]: "MINUTE_MS = 60000"
definition MAX_SEARCH_MS :: int where [config_simps]: "MAX_SEARCH_MS = 4 * 366 * 24 * 60 * MINUTE_MS"

definition normalize_field :: "field_spec \<Rightarrow> int \<Rightarrow> int" where
  "normalize_field spec n = (if fs_name spec = ''day-of-week'' \<and> n = 7 then 0 else n)"

text \<open>\<open>/^\d+$/.test(s)\<close> and \<open>Number(s)\<close>.\<close>

definition digits_of :: "string \<Rightarrow> int option" where
  "digits_of s = (if all_digits s then Some (digits_value s) else None)"

text \<open>\<open>for (let v = lo; v <= hi; v += step)\<close>; the step is positive when the loop is reached.\<close>

function steps_to :: "int \<Rightarrow> int \<Rightarrow> int \<Rightarrow> int list" where
  "steps_to lo hi step = (if step < 1 \<or> hi < lo then [] else lo # steps_to (lo + step) hi step)"
  by pat_completeness auto
termination
  by (relation "measure (\<lambda>(lo, hi, step). nat (hi - lo + 1))") auto

declare steps_to.simps [simp del]

definition step_of :: "string list \<Rightarrow> int option" where
  "step_of stepParts =
     (case stepParts of
        [] \<Rightarrow> Some 1
      | [s] \<Rightarrow> (case digits_of s of None \<Rightarrow> None | Some n \<Rightarrow> if n < 1 then None else Some n)
      | _ \<Rightarrow> None)"

definition range_of :: "field_spec \<Rightarrow> string \<Rightarrow> bool \<Rightarrow> (int \<times> int) option" where
  "range_of spec rangePart hasStep =
     (if rangePart = ''*'' then Some (fs_min spec, fs_max spec)
      else if CHR ''-'' \<in> set rangePart then
        (case split_on (CHR ''-'') rangePart of
           [l, h] \<Rightarrow> (case (digits_of l, digits_of h) of (Some lo, Some hi) \<Rightarrow> Some (lo, hi) | _ \<Rightarrow> None)
         | _ \<Rightarrow> None)
      else (case digits_of rangePart of
          None \<Rightarrow> None
        | Some lo \<Rightarrow> Some (lo, if hasStep then fs_max spec else lo)))"

definition parse_piece :: "field_spec \<Rightarrow> string \<Rightarrow> int list option" where
  "parse_piece spec part =
     (let piece = js_trim part
      in if piece = [] then None
         else
           (case split_on (CHR ''/'') piece of
              [] \<Rightarrow> None
            | rangePart # stepParts \<Rightarrow>
                (case step_of stepParts of
                   None \<Rightarrow> None
                 | Some step \<Rightarrow>
                     (case range_of spec rangePart (stepParts \<noteq> []) of
                        None \<Rightarrow> None
                      | Some (lo, hi) \<Rightarrow>
                          if lo < fs_min spec \<or> fs_max spec < lo \<or> hi < fs_min spec \<or> fs_max spec < hi then None
                          else if hi < lo then None
                          else Some (map (normalize_field spec) (steps_to lo hi step))))))"

fun parse_pieces :: "field_spec \<Rightarrow> string list \<Rightarrow> int list option" where
  "parse_pieces spec [] = Some []"
| "parse_pieces spec (part # parts) =
     (case parse_piece spec part of
        None \<Rightarrow> None
      | Some vs \<Rightarrow> (case parse_pieces spec parts of None \<Rightarrow> None | Some ws \<Rightarrow> Some (vs @ ws)))"

definition parseField :: "string \<Rightarrow> field_spec \<Rightarrow> int set option" where
  "parseField token spec =
     (case parse_pieces spec (split_on (CHR '','') token) of
        None \<Rightarrow> None
      | Some vs \<Rightarrow> if vs = [] then None else Some (set vs))"

section \<open>Expressions\<close>

datatype cron_error = EmptyExpression | WrongFieldCount nat | InvalidField field_spec string

text \<open>\<open>trimmed.split(/\s+/)\<close>: the pieces between the runs of white space.\<close>

fun split_ws :: "string \<Rightarrow> string \<Rightarrow> bool \<Rightarrow> string list" where
  "split_ws word [] in_run = [rev word]"
| "split_ws word (c # cs) in_run =
     (if is_ws c then (if in_run then split_ws word cs True else rev word # split_ws [] cs True)
      else split_ws (c # word) cs False)"

fun parse_fields :: "string list \<Rightarrow> field_spec list \<Rightarrow> cron_error + int set list" where
  "parse_fields (token # tokens) (spec # specs) =
     (case parseField token spec of
        None \<Rightarrow> Inl (InvalidField spec token)
      | Some vs \<Rightarrow> (case parse_fields tokens specs of Inl e \<Rightarrow> Inl e | Inr vss \<Rightarrow> Inr (vs # vss)))"
| "parse_fields _ _ = Inr []"

definition parseCron :: "string \<Rightarrow> cron_error + parsed_cron" where
  "parseCron expression =
     (let trimmed = js_trim expression; tokens = split_ws [] trimmed False
      in if trimmed = [] then Inl EmptyExpression
         else if length tokens \<noteq> 5 then Inl (WrongFieldCount (length tokens))
         else
           (case parse_fields tokens FIELDS of
              Inl e \<Rightarrow> Inl e
            | Inr sets \<Rightarrow>
                Inr \<lparr>pc_minute = sets ! 0, pc_hour = sets ! 1, pc_dom = sets ! 2, pc_month = sets ! 3, pc_dow = sets ! 4,
                     pc_domRestricted = (tokens ! 2 \<noteq> ''*''), pc_dowRestricted = (tokens ! 4 \<noteq> ''*'')\<rparr>))"

definition isValidCron :: "string \<Rightarrow> bool" where
  "isValidCron expression = (case parseCron expression of Inl _ \<Rightarrow> False | Inr _ \<Rightarrow> True)"

section \<open>Matching\<close>

text \<open>What \<open>Date\<close> reads off an instant in local time; the month counts from 0, Sunday is day 0.\<close>

record civil =
  cv_year :: int
  cv_month :: int
  cv_date :: int
  cv_day :: int
  cv_hours :: int
  cv_minutes :: int

definition matchesDay :: "parsed_cron \<Rightarrow> civil \<Rightarrow> bool" where
  "matchesDay cron date =
     (let dom = cv_date date \<in> pc_dom cron; dow = cv_day date \<in> pc_dow cron
      in if pc_domRestricted cron \<and> pc_dowRestricted cron then dom \<or> dow
         else if pc_domRestricted cron then dom
         else if pc_dowRestricted cron then dow
         else True)"

definition matchesCron :: "parsed_cron \<Rightarrow> civil \<Rightarrow> bool" where
  "matchesCron cron date =
     (cv_minutes date \<in> pc_minute cron \<and> cv_hours date \<in> pc_hour cron \<and> cv_month date + 1 \<in> pc_month cron
      \<and> matchesDay cron date)"

definition pad_zero :: "nat \<Rightarrow> int \<Rightarrow> string" where
  "pad_zero w n = replicate (w - length (show_int n)) (CHR ''0'') @ show_int n"

definition civilMinuteKey :: "civil \<Rightarrow> string" where
  "civilMinuteKey date =
     pad_zero 4 (cv_year date) @ ''-'' @ pad_zero 2 (cv_month date + 1) @ ''-'' @ pad_zero 2 (cv_date date) @ '' ''
     @ pad_zero 2 (cv_hours date) @ '':'' @ pad_zero 2 (cv_minutes date)"

section \<open>The next occurrence\<close>

definition candidate_ok :: "(int \<Rightarrow> civil) \<Rightarrow> parsed_cron \<Rightarrow> string option \<Rightarrow> int \<Rightarrow> bool" where
  "candidate_ok local cron exclude t =
     (matchesCron cron (local t)
      \<and> (case exclude of None \<Rightarrow> True | Some k \<Rightarrow> k = [] \<or> civilMinuteKey (local t) \<noteq> k))"

function search_minutes :: "(int \<Rightarrow> bool) \<Rightarrow> int \<Rightarrow> int \<Rightarrow> int option" where
  "search_minutes ok cursorMs capMs =
     (if capMs < cursorMs then None else if ok cursorMs then Some cursorMs else search_minutes ok (cursorMs + MINUTE_MS) capMs)"
  by pat_completeness auto
termination
  by (relation "measure (\<lambda>(ok, cursorMs, capMs). nat (capMs - cursorMs + 1))") (auto simp: MINUTE_MS_def)

declare search_minutes.simps [simp del]

definition nextOccurrence :: "(int \<Rightarrow> civil) \<Rightarrow> parsed_cron \<Rightarrow> int \<Rightarrow> string option \<Rightarrow> int \<Rightarrow> int option" where
  "nextOccurrence local cron afterMs excludeCivilMinute maxSearchMs =
     search_minutes (candidate_ok local cron excludeCivilMinute)
       (afterMs div MINUTE_MS * MINUTE_MS + MINUTE_MS)
       (afterMs + max 0 (min MAX_SEARCH_MS maxSearchMs))"

definition nextDueAtMs :: "(int \<Rightarrow> civil) \<Rightarrow> string \<Rightarrow> int \<Rightarrow> int option \<Rightarrow> int \<Rightarrow> int option" where
  "nextDueAtMs local expression afterMs consumedScheduledAtMs maxSearchMs =
     (if js_trim expression = [] then None
      else
        (case parseCron expression of
           Inl _ \<Rightarrow> None
         | Inr cron \<Rightarrow>
             nextOccurrence local cron afterMs (map_option (\<lambda>t. civilMinuteKey (local t)) consumedScheduledAtMs) maxSearchMs))"

section \<open>Parsed fields\<close>

lemma steps_to_range: "v \<in> set (steps_to lo hi step) \<Longrightarrow> lo \<le> v \<and> v \<le> hi"
proof (induction lo hi step rule: steps_to.induct)
  case (1 lo hi step)
  have "v = lo \<or> v \<in> set (steps_to (lo + step) hi step)" "\<not> (step < 1 \<or> hi < lo)"
    using 1(2) by (auto simp: steps_to.simps [of lo hi step] split: if_splits)
  with 1(1) show ?case by auto
qed

definition spec_ok :: "field_spec \<Rightarrow> int set \<Rightarrow> bool" where
  "spec_ok spec vs \<longleftrightarrow> vs \<noteq> {} \<and> finite vs
     \<and> (\<forall>v\<in>vs. fs_min spec \<le> v \<and> v \<le> (if fs_name spec = ''day-of-week'' then 6 else fs_max spec))"

lemma parse_piece_range:
  assumes "parse_piece spec part = Some vs" "v \<in> set vs"
  shows "\<exists>u. fs_min spec \<le> u \<and> u \<le> fs_max spec \<and> v = normalize_field spec u"
proof -
  from assms obtain lo hi step where "fs_min spec \<le> lo" "hi \<le> fs_max spec" "vs = map (normalize_field spec) (steps_to lo hi step)"
    by (auto simp: parse_piece_def Let_def not_less split: if_splits list.splits option.splits)
  with assms(2) show ?thesis by (auto dest!: steps_to_range intro: order_trans)
qed

lemma parse_pieces_range:
  "parse_pieces spec parts = Some vs \<Longrightarrow> v \<in> set vs \<Longrightarrow> \<exists>u. fs_min spec \<le> u \<and> u \<le> fs_max spec \<and> v = normalize_field spec u"
proof (induction parts arbitrary: vs)
  case (Cons part parts)
  then show ?case by (auto split: option.splits dest: parse_piece_range)
qed simp

lemma parseField_ok:
  assumes "parseField token spec = Some vs" "spec \<in> set FIELDS"
  shows "spec_ok spec vs"
proof -
  from assms(1) obtain ws where ws: "parse_pieces spec (split_on (CHR '','') token) = Some ws" "ws \<noteq> []" "vs = set ws"
    by (auto simp: parseField_def split: option.splits if_splits)
  have "fs_min spec \<le> v \<and> v \<le> (if fs_name spec = ''day-of-week'' then 6 else fs_max spec)" if "v \<in> vs" for v
    using parse_pieces_range [OF ws(1), of v] that ws(3) assms(2) by (auto simp: FIELDS_def normalize_field_def)
  then show ?thesis using ws by (simp add: spec_ok_def)
qed

lemma parse_fields_ok:
  "parse_fields tokens specs = Inr vss \<Longrightarrow> length tokens = length specs \<Longrightarrow> set specs \<subseteq> set FIELDS \<Longrightarrow>
   length vss = length specs \<and> (\<forall>i < length specs. spec_ok (specs ! i) (vss ! i))"
proof (induction tokens specs arbitrary: vss rule: parse_fields.induct)
  case (1 token tokens spec specs)
  then obtain vs ws where e: "parseField token spec = Some vs" "parse_fields tokens specs = Inr ws" "vss = vs # ws"
    by (auto split: option.splits sum.splits)
  have "spec_ok spec vs" by (rule parseField_ok [OF e(1)]) (use 1(4) in simp)
  with 1(1) [OF e(1,2)] 1(3,4) show ?case by (auto simp: e(3) nth_Cons split: nat.splits)
qed auto

lemma search_minutes_Some:
  "search_minutes ok c cap = Some t \<longleftrightarrow>
   (\<exists>k. t = c + int k * MINUTE_MS \<and> t \<le> cap \<and> ok t \<and> (\<forall>j < k. \<not> ok (c + int j * MINUTE_MS)))"
proof (induction ok c cap rule: search_minutes.induct)
  case (1 ok c cap)
  have p: "0 < MINUTE_MS" by (simp add: MINUTE_MS_def)
  show ?case
  proof (cases "cap < c \<or> ok c")
    case True
    have "c \<le> c + int k * MINUTE_MS" for k using p by simp
    then have "\<not> c + int k * MINUTE_MS \<le> cap" if "cap < c" for k using that by (meson leD le_less_trans)
    with True show ?thesis
      by (subst search_minutes.simps) (auto simp: not_less intro!: exI [where x = "0::nat"] elim!: allE [where x = "0::nat"])
  next
    case False
    have e: "search_minutes ok c cap = search_minutes ok (c + MINUTE_MS) cap"
      using False by (subst search_minutes.simps) simp
    have shift: "c + MINUTE_MS + int k * MINUTE_MS = c + int (Suc k) * MINUTE_MS" for k by (simp add: algebra_simps)
    have "(\<exists>k. t = c + int (Suc k) * MINUTE_MS \<and> t \<le> cap \<and> ok t \<and> (\<forall>j < k. \<not> ok (c + int (Suc j) * MINUTE_MS)))
      \<longleftrightarrow> (\<exists>k. t = c + int k * MINUTE_MS \<and> t \<le> cap \<and> ok t \<and> (\<forall>j < k. \<not> ok (c + int j * MINUTE_MS)))" (is "?L \<longleftrightarrow> ?R")
    proof
      assume ?L
      then obtain k where k: "t = c + int (Suc k) * MINUTE_MS" "t \<le> cap" "ok t" "\<forall>j < k. \<not> ok (c + int (Suc j) * MINUTE_MS)" by blast
      have "\<not> ok (c + int j * MINUTE_MS)" if "j < Suc k" for j
        using that k(4) False by (cases j) auto
      with k show ?R by blast
    next
      assume ?R
      then obtain k where k: "t = c + int k * MINUTE_MS" "t \<le> cap" "ok t" "\<forall>j < k. \<not> ok (c + int j * MINUTE_MS)" by blast
      with False obtain k' where "k = Suc k'" by (cases k) auto
      with k show ?L by (intro exI [where x = k']) auto
    qed
    with 1 [OF _ _] False show ?thesis unfolding e by (simp add: shift del: of_nat_Suc)
  qed
qed

lemma minute_grid:
  "t mod MINUTE_MS = 0 \<and> afterMs < t \<longleftrightarrow> (\<exists>k. t = afterMs div MINUTE_MS * MINUTE_MS + MINUTE_MS + int k * MINUTE_MS)" (is "?L \<longleftrightarrow> ?R")
proof
  assume L: ?L
  have p: "(0::int) < MINUTE_MS" by (simp add: MINUTE_MS_def)
  have t: "t = t div MINUTE_MS * MINUTE_MS" using L by (simp add: minus_mod_eq_div_mult [symmetric])
  have "afterMs div MINUTE_MS < t div MINUTE_MS"
  proof (rule ccontr)
    assume "\<not> afterMs div MINUTE_MS < t div MINUTE_MS"
    then have "t div MINUTE_MS * MINUTE_MS \<le> afterMs div MINUTE_MS * MINUTE_MS" using p by (intro mult_right_mono) simp_all
    also have "\<dots> \<le> afterMs" using p by (simp add: minus_mod_eq_div_mult [symmetric])
    finally show False using L t by simp
  qed
  then obtain k where "t div MINUTE_MS = afterMs div MINUTE_MS + 1 + int k" using zless_iff_Suc_zadd by auto
  then have "t div MINUTE_MS * MINUTE_MS = (afterMs div MINUTE_MS + 1 + int k) * MINUTE_MS" by simp
  also have "\<dots> = afterMs div MINUTE_MS * MINUTE_MS + MINUTE_MS + int k * MINUTE_MS" by (simp add: algebra_simps)
  finally show ?R using t by (intro exI [where x = k]) (rule trans)
next
  assume ?R
  then obtain k where k: "t = afterMs div MINUTE_MS * MINUTE_MS + MINUTE_MS + int k * MINUTE_MS" by blast
  have "t = (afterMs div MINUTE_MS + 1 + int k) * MINUTE_MS" unfolding k by (simp only: distrib_right mult_1)
  then have "t mod MINUTE_MS = 0" by (simp only: mod_mult_self2_is_0)
  moreover have "afterMs < t"
  proof -
    have "afterMs mod MINUTE_MS < MINUTE_MS" "0 \<le> int k * MINUTE_MS" by (simp_all add: MINUTE_MS_def)
    then show ?thesis unfolding k using div_mult_mod_eq [of afterMs MINUTE_MS] by linarith
  qed
  ultimately show ?L by (rule conjI)
qed

lemmas grid_point = minute_grid [THEN iffD2, OF exI, OF refl]

section \<open>Properties\<close>

text \<open>
  A parsed schedule is well-formed: every field has a value and every value is one a clock can show, so no
  field can make the schedule match nothing, and Sunday has one code.
\<close>

theorem parsed_cron_is_well_formed:
  assumes "parseCron expression = Inr cron"
  shows "pc_minute cron \<noteq> {} \<and> pc_minute cron \<subseteq> {0..59} \<and> pc_hour cron \<noteq> {} \<and> pc_hour cron \<subseteq> {0..23}
    \<and> pc_dom cron \<noteq> {} \<and> pc_dom cron \<subseteq> {1..31} \<and> pc_month cron \<noteq> {} \<and> pc_month cron \<subseteq> {1..12}
    \<and> pc_dow cron \<noteq> {} \<and> pc_dow cron \<subseteq> {0..6}"
proof -
  obtain sets where sets: "parse_fields (split_ws [] (js_trim expression) False) FIELDS = Inr sets"
    "length (split_ws [] (js_trim expression) False) = length FIELDS"
    and cron: "pc_minute cron = sets ! 0" "pc_hour cron = sets ! 1" "pc_dom cron = sets ! 2" "pc_month cron = sets ! 3" "pc_dow cron = sets ! 4"
    using assms by (auto simp: parseCron_def Let_def FIELDS_def split: if_splits sum.splits)
  have ok: "spec_ok (FIELDS ! i) (sets ! i)" if "i < 5" for i
    using parse_fields_ok [OF sets] that by (simp add: FIELDS_def)
  from ok [of 0] ok [of 1] ok [of 2] ok [of 3] ok [of 4] show ?thesis
    unfolding cron by (auto simp: spec_ok_def FIELDS_def)
qed

definition example_cron :: parsed_cron where
  "example_cron = \<lparr>pc_minute = {0}, pc_hour = {4}, pc_dom = set (steps_to 1 31 1), pc_month = set (steps_to 1 12 1),
     pc_dow = {0}, pc_domRestricted = False, pc_dowRestricted = True\<rparr>"

lemma parse_example: "parseCron ''0 4 * * 7'' = Inr example_cron"
  by (simp add: parseCron_def Let_def js_trim_def is_ws_def FIELDS_def parseField_def parse_piece_def step_of_def range_of_def
    digits_of_def all_digits_def is_digit_def digits_value_def normalize_field_def steps_to.simps [of 0 0 1] steps_to.simps [of 1 0 1]
    steps_to.simps [of 4 4 1] steps_to.simps [of 5 4 1] steps_to.simps [of 7 7 1] steps_to.simps [of 8 7 1] steps_to.simps [of 1 31 1]
    steps_to.simps [of 1 12 1] example_cron_def)

theorem parsed_cron_is_well_formed_witness: "pc_dow example_cron \<subseteq> {0..6} \<and> pc_month example_cron \<noteq> {}"
  using parsed_cron_is_well_formed [OF parse_example] by simp

text \<open>The instants at which a task with this schedule may run after the run that was due at \<open>consumed\<close>.\<close>

definition run_slot :: "(int \<Rightarrow> civil) \<Rightarrow> parsed_cron \<Rightarrow> int option \<Rightarrow> int \<Rightarrow> bool" where
  "run_slot local cron consumed t =
     (t mod MINUTE_MS = 0 \<and> matchesCron cron (local t)
      \<and> (case consumed of None \<Rightarrow> True | Some c \<Rightarrow> civilMinuteKey (local t) \<noteq> civilMinuteKey (local c)))"

lemma nextDueAtMs_Some:
  "nextDueAtMs local expression afterMs consumed maxSearchMs = Some t \<longleftrightarrow>
   (\<exists>cron. parseCron expression = Inr cron \<and> run_slot local cron consumed t
      \<and> afterMs < t \<and> t \<le> afterMs + max 0 (min MAX_SEARCH_MS maxSearchMs)
      \<and> (\<forall>u. afterMs < u \<and> u < t \<longrightarrow> \<not> run_slot local cron consumed u))"
proof -
  let ?c0 = "afterMs div MINUTE_MS * MINUTE_MS + MINUTE_MS" and ?cap = "afterMs + max 0 (min MAX_SEARCH_MS maxSearchMs)"
  have p: "0 < MINUTE_MS" by (simp add: MINUTE_MS_def)
  have key: "civilMinuteKey d \<noteq> []" for d by (simp add: civilMinuteKey_def)
  have empty: "js_trim expression = [] \<Longrightarrow> parseCron expression = Inl EmptyExpression" by (simp add: parseCron_def)
  have "search_minutes (candidate_ok local cron (map_option (\<lambda>t. civilMinuteKey (local t)) consumed)) ?c0 ?cap = Some t \<longleftrightarrow>
      run_slot local cron consumed t \<and> afterMs < t \<and> t \<le> ?cap \<and> (\<forall>u. afterMs < u \<and> u < t \<longrightarrow> \<not> run_slot local cron consumed u)"
    (is "?L \<longleftrightarrow> ?R") for cron
  proof -
    let ?ok = "candidate_ok local cron (map_option (\<lambda>t. civilMinuteKey (local t)) consumed)"
    have slot: "run_slot local cron consumed u \<longleftrightarrow> u mod MINUTE_MS = 0 \<and> ?ok u" for u
      using key by (auto simp: run_slot_def candidate_ok_def split: option.splits)
    have early: "(\<forall>u. afterMs < u \<and> u < ?c0 + int k * MINUTE_MS \<longrightarrow> \<not> run_slot local cron consumed u)
        \<longleftrightarrow> (\<forall>j < k. \<not> ?ok (?c0 + int j * MINUTE_MS))" (is "?A \<longleftrightarrow> ?B") for k
    proof
      assume A: ?A
      show ?B
      proof (intro allI impI)
        fix j assume "j < k"
        then have "?c0 + int j * MINUTE_MS < ?c0 + int k * MINUTE_MS" using p by simp
        with A grid_point [of afterMs j] have "\<not> run_slot local cron consumed (?c0 + int j * MINUTE_MS)" by (simp only: simp_thms)
        with grid_point [of afterMs j] show "\<not> ?ok (?c0 + int j * MINUTE_MS)" by (simp only: slot simp_thms)
      qed
    next
      assume B: ?B
      show ?A
      proof (intro allI impI notI)
        fix u assume u: "afterMs < u \<and> u < ?c0 + int k * MINUTE_MS" "run_slot local cron consumed u"
        then obtain j where j: "u = ?c0 + int j * MINUTE_MS" using minute_grid [of u afterMs] slot by auto
        then have "j < k" using u(1) p by simp
        then show False using B u(2) slot j by auto
      qed
    qed
    show ?thesis
    proof
      assume L: ?L
      from L [unfolded search_minutes_Some] obtain k where k: "t = ?c0 + int k * MINUTE_MS" "t \<le> ?cap" "?ok t" "\<forall>j < k. \<not> ?ok (?c0 + int j * MINUTE_MS)"
        by (elim exE conjE)
      have grid: "t mod MINUTE_MS = 0 \<and> afterMs < t" unfolding minute_grid by (rule exI [where x = k], rule k(1))
      have "\<forall>u. afterMs < u \<and> u < t \<longrightarrow> \<not> run_slot local cron consumed u" unfolding k(1) early by (rule k(4))
      moreover have "run_slot local cron consumed t" using slot grid k(3) by simp
      ultimately show ?R using grid k(2) by simp
    next
      assume R: ?R
      then have "t mod MINUTE_MS = 0 \<and> afterMs < t" and ok: "?ok t" using slot by simp_all
      then obtain k where k: "t = ?c0 + int k * MINUTE_MS" unfolding minute_grid by (elim conjE exE)
      have "\<forall>j < k. \<not> ?ok (?c0 + int j * MINUTE_MS)" unfolding early [symmetric] k [symmetric] using R by (elim conjE)
      with k R ok show ?L unfolding search_minutes_Some by (intro exI [where x = k] conjI) simp_all
    qed
  qed
  with empty show ?thesis
    by (auto simp: nextDueAtMs_def nextOccurrence_def split: sum.splits)
qed

text \<open>
  C40: The next due time is the first slot after the given instant: a whole minute whose local civil time matches,
  with another civil minute than the slot just consumed, within the search range and with no such minute
  in between; and there is none exactly when the expression is invalid or no such minute exists. This holds for
  every time zone and across clock changes.
\<close>

theorem next_due_is_first_slot:
  "nextDueAtMs local expression afterMs consumed maxSearchMs = Some t \<longleftrightarrow>
   (\<exists>cron. parseCron expression = Inr cron \<and> run_slot local cron consumed t
      \<and> afterMs < t \<and> t \<le> afterMs + max 0 (min MAX_SEARCH_MS maxSearchMs)
      \<and> (\<forall>u. afterMs < u \<and> u < t \<longrightarrow> \<not> run_slot local cron consumed u))"
  by (rule nextDueAtMs_Some)

definition example_sunday :: civil where
  "example_sunday = \<lparr>cv_year = 2024, cv_month = 0, cv_date = 7, cv_day = 0, cv_hours = 4, cv_minutes = 0\<rparr>"

theorem next_due_is_first_slot_witness: "nextDueAtMs (\<lambda>t. example_sunday) ''0 4 * * 7'' 0 None 60000 = Some 60000"
proof -
  have "1 \<in> set (steps_to 1 12 1)" by (simp add: steps_to.simps [of 1 12 1])
  then have "matchesCron example_cron example_sunday"
    by (simp add: matchesCron_def matchesDay_def example_cron_def example_sunday_def)
  then have "run_slot (\<lambda>t. example_sunday) example_cron None 60000" by (simp add: run_slot_def MINUTE_MS_def)
  moreover have "\<not> run_slot (\<lambda>t. example_sunday) example_cron None u" if "0 < u" "u < 60000" for u
    using that by (simp add: run_slot_def MINUTE_MS_def)
  ultimately show ?thesis
    unfolding next_due_is_first_slot using parse_example by (auto simp: MAX_SEARCH_MS_def MINUTE_MS_def)
qed

end
