(* ===== verification/Task_Schedule.thy ===== *)
theory Task_Schedule
  imports Cron_Schedule Raw_Messages
begin

text \<open>
  The scheduler of the background tasks (\<open>features/magic-context/dreamer/task-scheduler.ts\<close>,
  \<open>storage-task-schedule.ts\<close>, \<open>task-registry.ts\<close>) and of the smart-note checks
  (\<open>smart-notes/schedule.ts\<close>). The table has one row per project and task. Everything else is the
  environment, the record \<open>task_env\<close>, over a world of any type: the rest of the database, which the activity gates
  read and the executor changes, the domain leases (modelled in \<open>Leases\<close>), and the clock. The domains run
  concurrently: the scheduler is a state with the groups under way, and an event resumes one of them from one
  \<open>await\<close> to the next.
\<close>

section \<open>Tasks and domains\<close>

datatype dream_task = MapMemories | Verify | VerifyBroad | Curate | CompressCues | ClassifyMemories | Retrospective
  | MaintainDocs | EvaluateSmartNotes | ReviewUserMemories | PromotePrimers | RefreshPrimers

definition CANONICAL_DREAM_TASKS :: "dream_task list" where
  "CANONICAL_DREAM_TASKS = [MapMemories, Verify, VerifyBroad, Curate, CompressCues, ClassifyMemories, Retrospective,
     MaintainDocs, EvaluateSmartNotes, ReviewUserMemories, PromotePrimers, RefreshPrimers]"

definition MEMORY_DOMAIN_TASKS :: "dream_task list" where
  "MEMORY_DOMAIN_TASKS = [MapMemories, Verify, VerifyBroad, Curate, CompressCues, ClassifyMemories, Retrospective,
     PromotePrimers, RefreshPrimers]"

datatype lease_kind = MemoryLease | MaintainDocsLease | EvaluateSmartNotesLease | UserMemoriesLease

definition leaseKindFor :: "dream_task \<Rightarrow> lease_kind" where
  "leaseKindFor task =
     (if task \<in> set MEMORY_DOMAIN_TASKS then MemoryLease
      else (case task of
          ReviewUserMemories \<Rightarrow> UserMemoriesLease
        | PromotePrimers \<Rightarrow> MemoryLease
        | RefreshPrimers \<Rightarrow> MemoryLease
        | MaintainDocs \<Rightarrow> MaintainDocsLease
        | EvaluateSmartNotes \<Rightarrow> EvaluateSmartNotesLease
        | _ \<Rightarrow> MemoryLease))"

fun lease_kind_name :: "lease_kind \<Rightarrow> string" where
  "lease_kind_name MemoryLease = ''memory''" | "lease_kind_name MaintainDocsLease = ''maintain-docs''"
| "lease_kind_name EvaluateSmartNotesLease = ''evaluate-smart-notes''" | "lease_kind_name UserMemoriesLease = ''user-memories''"

definition leaseKeyFor :: "dream_task \<Rightarrow> string \<Rightarrow> string" where
  "leaseKeyFor task projectIdentity =
     (let kind = leaseKindFor task
      in if kind = UserMemoriesLease then ''user-memories'' else lease_kind_name kind @ '':'' @ projectIdentity)"

fun index_of :: "'a \<Rightarrow> 'a list \<Rightarrow> int" where
  "index_of x [] = - 1"
| "index_of x (y # ys) = (if x = y then 0 else (let i = index_of x ys in if i < 0 then - 1 else i + 1))"

definition task_order :: "dream_task \<Rightarrow> int" where
  "task_order t = index_of t CANONICAL_DREAM_TASKS"

definition compareTaskOrder :: "dream_task \<Rightarrow> dream_task \<Rightarrow> int" where
  "compareTaskOrder a b = task_order a - task_order b"

section \<open>The table\<close>

datatype task_status = StatusCompleted | StatusFailed | StatusSkipped

record task_row =
  tr_lastRunAt :: "int option"
  tr_nextDueAt :: "int option"
  tr_schedule :: "string option"
  tr_lastStatus :: "task_status option"
  tr_lastError :: "string option"
  tr_retryCount :: int
  tr_lastCheckedCommit :: "string option"
  tr_lastBroadRunAt :: "int option"
  tr_retrospectiveWatermarkMs :: "int option"

type_synonym task_table = "string \<times> dream_task \<rightharpoonup> task_row"

text \<open>What is written: an absent \<open>lastBroadRunAt\<close> keeps the stored one, a null clears it.\<close>

record task_write =
  tw_lastRunAt :: "int option"
  tw_nextDueAt :: "int option"
  tw_schedule :: "string option"
  tw_lastStatus :: "task_status option"
  tw_lastError :: "string option"
  tw_retryCount :: int
  tw_lastCheckedCommit :: "string option"
  tw_lastBroadRunAt :: "int option option"
  tw_retrospectiveWatermarkMs :: "int option"

definition write_of :: "task_row \<Rightarrow> task_write" where
  "write_of r = \<lparr>tw_lastRunAt = tr_lastRunAt r, tw_nextDueAt = tr_nextDueAt r, tw_schedule = tr_schedule r,
     tw_lastStatus = tr_lastStatus r, tw_lastError = tr_lastError r, tw_retryCount = tr_retryCount r,
     tw_lastCheckedCommit = tr_lastCheckedCommit r, tw_lastBroadRunAt = Some (tr_lastBroadRunAt r),
     tw_retrospectiveWatermarkMs = tr_retrospectiveWatermarkMs r\<rparr>"

definition getTaskScheduleState :: "task_table \<Rightarrow> string \<Rightarrow> dream_task \<Rightarrow> task_row option" where
  "getTaskScheduleState db project task = db (project, task)"

definition pruneNonCanonicalTaskRows :: "task_table \<Rightarrow> string \<Rightarrow> dream_task list \<Rightarrow> task_table" where
  "pruneNonCanonicalTaskRows db project tasks =
     (if tasks = [] then db else (\<lambda>(p, t). if p = project \<and> t \<notin> set tasks then None else db (p, t)))"

definition seedTaskScheduleState :: "task_table \<Rightarrow> string \<Rightarrow> dream_task \<Rightarrow> int option \<Rightarrow> int option \<Rightarrow> string \<Rightarrow> task_table" where
  "seedTaskScheduleState db project task nextDueAt lastRunAt schedule =
     (case db (project, task) of
        Some _ \<Rightarrow> db
      | None \<Rightarrow> db((project, task) \<mapsto> \<lparr>tr_lastRunAt = lastRunAt, tr_nextDueAt = nextDueAt, tr_schedule = Some schedule,
          tr_lastStatus = None, tr_lastError = None, tr_retryCount = 0, tr_lastCheckedCommit = None, tr_lastBroadRunAt = None,
          tr_retrospectiveWatermarkMs = None\<rparr>))"

definition coalesce :: "'a option \<Rightarrow> 'a option \<Rightarrow> 'a option" where
  "coalesce a b = (case a of None \<Rightarrow> b | Some _ \<Rightarrow> a)"

definition written_row :: "task_row option \<Rightarrow> task_write \<Rightarrow> task_row" where
  "written_row old w =
     \<lparr>tr_lastRunAt = tw_lastRunAt w, tr_nextDueAt = tw_nextDueAt w, tr_schedule = tw_schedule w,
      tr_lastStatus = tw_lastStatus w, tr_lastError = tw_lastError w, tr_retryCount = tw_retryCount w,
      tr_lastCheckedCommit = coalesce (tw_lastCheckedCommit w) (Option.bind old tr_lastCheckedCommit),
      tr_lastBroadRunAt = (case tw_lastBroadRunAt w of None \<Rightarrow> Option.bind old tr_lastBroadRunAt | Some b \<Rightarrow> b),
      tr_retrospectiveWatermarkMs = coalesce (tw_retrospectiveWatermarkMs w) (Option.bind old tr_retrospectiveWatermarkMs)\<rparr>"

definition writeTaskScheduleState :: "task_table \<Rightarrow> string \<Rightarrow> dream_task \<Rightarrow> task_write \<Rightarrow> task_table" where
  "writeTaskScheduleState db project task w = db((project, task) \<mapsto> written_row (db (project, task)) w)"

section \<open>Planning\<close>

definition MAX_TASK_RETRIES :: int where [config_simps]: "MAX_TASK_RETRIES = 3"

record task_config =
  tc_task :: dream_task
  tc_schedule :: string
  tc_promotionThreshold :: "int option"

record due_task =
  du_config :: task_config
  du_scheduledAt :: int

datatype exec_outcome = Completed "int option" | TransientFailure "string option" | PermanentFailure "string option"

text \<open>A gate reads the database; it gets the dates of the row and the promotion threshold besides.\<close>

record 'w task_env =
  te_local :: "int \<Rightarrow> civil"
  te_legacyRun :: "'w \<Rightarrow> string \<Rightarrow> int option"
  te_gate :: "'w \<Rightarrow> dream_task \<Rightarrow> int option \<Rightarrow> int option \<Rightarrow> int \<Rightarrow> bool"
  te_acquire :: "'w \<Rightarrow> lease_kind \<Rightarrow> bool \<times> 'w"
  te_owns :: "'w \<Rightarrow> lease_kind \<Rightarrow> bool"
  te_release :: "'w \<Rightarrow> lease_kind \<Rightarrow> 'w"
  te_execute :: "'w \<Rightarrow> task_config \<Rightarrow> exec_outcome \<times> 'w"
  te_clock :: "'w \<Rightarrow> int"

definition next_due :: "'w task_env \<Rightarrow> string \<Rightarrow> int \<Rightarrow> int option \<Rightarrow> int option" where
  "next_due env schedule after consumed = nextDueAtMs (te_local env) schedule after consumed MAX_SEARCH_MS"

definition ensureSeeded :: "'w task_env \<Rightarrow> 'w \<Rightarrow> task_table \<Rightarrow> string \<Rightarrow> task_config \<Rightarrow> int \<Rightarrow> task_table" where
  "ensureSeeded env w db project config now =
     (case getTaskScheduleState db project (tc_task config) of
        Some _ \<Rightarrow> db
      | None \<Rightarrow>
          (let lastRunAt = (case te_legacyRun env w project of Some n \<Rightarrow> if n \<noteq> 0 then Some n else None | None \<Rightarrow> None)
           in seedTaskScheduleState db project (tc_task config) (next_due env (tc_schedule config) now None) lastRunAt
                (tc_schedule config)))"

definition blank :: "string \<Rightarrow> bool" where
  "blank s = (js_trim s = [])"

definition reconcileSchedule :: "'w task_env \<Rightarrow> 'w \<Rightarrow> task_table \<Rightarrow> string \<Rightarrow> task_config \<Rightarrow> int \<Rightarrow> task_table" where
  "reconcileSchedule env w db0 project config now =
     (let db = ensureSeeded env w db0 project config now; write = writeTaskScheduleState db project (tc_task config)
      in case getTaskScheduleState db project (tc_task config) of
           None \<Rightarrow> db
         | Some stored \<Rightarrow>
             if tr_schedule stored = Some (tc_schedule config) then db
             else if blank (tc_schedule config) then
               write ((write_of stored)\<lparr>tw_schedule := Some (tc_schedule config), tw_nextDueAt := None\<rparr>)
             else if tr_schedule stored = None \<and> tr_nextDueAt stored \<noteq> None then
               write ((write_of stored)\<lparr>tw_schedule := Some (tc_schedule config)\<rparr>)
             else
               write ((write_of stored)\<lparr>tw_schedule := Some (tc_schedule config),
                 tw_nextDueAt := next_due env (tc_schedule config) now None, tw_retryCount := 0\<rparr>))"

fun plan_from :: "'w task_env \<Rightarrow> 'w \<Rightarrow> task_table \<Rightarrow> string \<Rightarrow> task_config list \<Rightarrow> int \<Rightarrow> task_table \<times> due_task list" where
  "plan_from env w db project [] now = (db, [])"
| "plan_from env w db project (config # configs) now =
     (let db' = reconcileSchedule env w db project config now;
          (db'', due) = plan_from env w db' project configs now
      in (db'',
          (case getTaskScheduleState db' project (tc_task config) of
             None \<Rightarrow> due
           | Some state \<Rightarrow>
               (case tr_nextDueAt state of
                  None \<Rightarrow> due
                | Some slot \<Rightarrow> if slot \<le> now then \<lparr>du_config = config, du_scheduledAt = slot\<rparr> # due else due))))"

definition planDueTasks :: "'w task_env \<Rightarrow> 'w \<Rightarrow> task_table \<Rightarrow> string \<Rightarrow> task_config list \<Rightarrow> int \<Rightarrow> task_table \<times> due_task list" where
  "planDueTasks env w db project tasks now =
     plan_from env w (pruneNonCanonicalTaskRows db project (map tc_task tasks)) project tasks now"

section \<open>After a run\<close>

definition readLastRunAt :: "task_table \<Rightarrow> string \<Rightarrow> dream_task \<Rightarrow> int option" where
  "readLastRunAt db project task = Option.bind (getTaskScheduleState db project task) tr_lastRunAt"

definition readRetrospectiveWatermark :: "task_table \<Rightarrow> string \<Rightarrow> dream_task \<Rightarrow> int option" where
  "readRetrospectiveWatermark db project task = Option.bind (getTaskScheduleState db project task) tr_retrospectiveWatermarkMs"

definition advanceAfterRun :: "'w task_env \<Rightarrow> task_table \<Rightarrow> string \<Rightarrow> due_task \<Rightarrow> int \<Rightarrow> task_status \<Rightarrow> string option \<Rightarrow> int option \<Rightarrow> task_table" where
  "advanceAfterRun env db project due finishedAt status err watermark =
     (let task = tc_task (du_config due); schedule = tc_schedule (du_config due)
      in writeTaskScheduleState db project task
           \<lparr>tw_lastRunAt = (if status = StatusCompleted then Some finishedAt else readLastRunAt db project task),
            tw_nextDueAt = next_due env schedule finishedAt (Some (du_scheduledAt due)),
            tw_schedule = Some schedule, tw_lastStatus = Some status, tw_lastError = err, tw_retryCount = 0,
            tw_lastCheckedCommit = None, tw_lastBroadRunAt = None, tw_retrospectiveWatermarkMs = watermark\<rparr>)"

definition recordTransientFailure :: "'w task_env \<Rightarrow> task_table \<Rightarrow> string \<Rightarrow> due_task \<Rightarrow> int \<Rightarrow> string option \<Rightarrow> task_table" where
  "recordTransientFailure env db project due finishedAt err =
     (let task = tc_task (du_config due); schedule = tc_schedule (du_config due);
          prior = getTaskScheduleState db project task;
          retryCount = (case prior of None \<Rightarrow> 0 | Some r \<Rightarrow> tr_retryCount r) + 1;
          priorLastRun = Option.bind prior tr_lastRunAt
      in writeTaskScheduleState db project task
           \<lparr>tw_lastRunAt = priorLastRun,
            tw_nextDueAt =
              (if MAX_TASK_RETRIES < retryCount then next_due env schedule finishedAt (Some (du_scheduledAt due))
               else if blank schedule then None
               else coalesce (Option.bind prior tr_nextDueAt) (Some (du_scheduledAt due))),
            tw_schedule = Some schedule, tw_lastStatus = Some StatusFailed, tw_lastError = err,
            tw_retryCount = (if MAX_TASK_RETRIES < retryCount then 0 else retryCount),
            tw_lastCheckedCommit = None, tw_lastBroadRunAt = None, tw_retrospectiveWatermarkMs = None\<rparr>)"

section \<open>Running\<close>

definition gate_passes :: "'w task_env \<Rightarrow> 'w \<Rightarrow> task_table \<Rightarrow> string \<Rightarrow> due_task \<Rightarrow> bool" where
  "gate_passes env w db project due =
     (let task = tc_task (du_config due)
      in te_gate env w task (readLastRunAt db project task) (readRetrospectiveWatermark db project task)
           (case tc_promotionThreshold (du_config due) of None \<Rightarrow> 3 | Some n \<Rightarrow> n))"

definition record_outcome :: "'w task_env \<Rightarrow> task_table \<Rightarrow> string \<Rightarrow> due_task \<Rightarrow> int \<Rightarrow> exec_outcome \<Rightarrow> task_table" where
  "record_outcome env db project due finishedAt outcome =
     (case outcome of
        Completed watermark \<Rightarrow> advanceAfterRun env db project due finishedAt StatusCompleted None watermark
      | TransientFailure e \<Rightarrow> recordTransientFailure env db project due finishedAt e
      | PermanentFailure e \<Rightarrow> advanceAfterRun env db project due finishedAt StatusFailed e None)"

text \<open>
  The loop of \<open>runDomainGroup\<close> up to the next call of the executor: lost ownership ends it, a closed gate skips the
  task. The head of the list that is left is with the executor.
\<close>

fun domain_loop :: "'w task_env \<Rightarrow> bool \<Rightarrow> string \<Rightarrow> lease_kind \<Rightarrow> 'w \<Rightarrow> task_table \<Rightarrow> due_task list \<Rightarrow> task_table \<times> due_task list" where
  "domain_loop env forceGate project kind w db [] = (db, [])"
| "domain_loop env forceGate project kind w db (d # ds) =
     (if \<not> te_owns env w kind then (db, [])
      else if \<not> forceGate \<and> \<not> gate_passes env w db project d then
        domain_loop env forceGate project kind w (advanceAfterRun env db project d (te_clock env w) StatusSkipped None None) ds
      else (db, d # ds))"

text \<open>A group under way: waiting for its lease, until a deadline in a manual run, or with the head of its list executing.\<close>

record group_run =
  gr_project :: string
  gr_forceGate :: bool
  gr_leaseWaitMs :: "int option"
  gr_deadline :: "int option"
  gr_kind :: lease_kind
  gr_acquired :: bool
  gr_todo :: "due_task list"

definition continue_group :: "'w task_env \<Rightarrow> 'w \<Rightarrow> task_table \<Rightarrow> group_run \<Rightarrow> task_table \<times> 'w \<times> group_run option" where
  "continue_group env w db g =
     (let (db', todo) = domain_loop env (gr_forceGate g) (gr_project g) (gr_kind g) w db (gr_todo g)
      in if todo = [] then (db', te_release env w (gr_kind g), None)
         else (db', w, Some (g\<lparr>gr_acquired := True, gr_todo := todo\<rparr>)))"

text \<open>\<open>runDomainGroup\<close> from one \<open>await\<close> to the next.\<close>

definition group_step :: "'w task_env \<Rightarrow> 'w \<Rightarrow> task_table \<Rightarrow> group_run \<Rightarrow> task_table \<times> 'w \<times> group_run option" where
  "group_step env w db g =
     (if \<not> gr_acquired g then
        (let (ok, w1) = te_acquire env w (gr_kind g);
             deadline = coalesce (gr_deadline g) (map_option (\<lambda>n. te_clock env w1 + n) (gr_leaseWaitMs g))
         in if ok then continue_group env w1 db (g\<lparr>gr_todo := sort_key (\<lambda>d. task_order (tc_task (du_config d))) (gr_todo g)\<rparr>)
            else if (case deadline of None \<Rightarrow> False | Some t \<Rightarrow> te_clock env w1 < t) then (db, w1, Some (g\<lparr>gr_deadline := deadline\<rparr>))
            else (db, w1, None))
      else
        (case gr_todo g of
           [] \<Rightarrow> (db, w, None)
         | d # ds \<Rightarrow>
             (let (outcome, w1) = te_execute env w (du_config d);
                  db1 = record_outcome env db (gr_project g) d (te_clock env w1) outcome
              in continue_group env w1 db1 (g\<lparr>gr_todo := ds\<rparr>))))"

definition group_by_kind :: "due_task list \<Rightarrow> (lease_kind \<times> due_task list) list" where
  "group_by_kind gated =
     foldl (\<lambda>groups d. let kind = leaseKindFor (tc_task (du_config d))
        in jsmap_set kind ((case map_of groups kind of None \<Rightarrow> [] | Some arr \<Rightarrow> arr) @ [d]) groups) [] gated"

fun pre_gate :: "'w task_env \<Rightarrow> 'w \<Rightarrow> string \<Rightarrow> int \<Rightarrow> task_table \<Rightarrow> due_task list \<Rightarrow> task_table \<times> due_task list" where
  "pre_gate env w project now db [] = (db, [])"
| "pre_gate env w project now db (d # ds) =
     (if gate_passes env w db project d then (let (db', gated) = pre_gate env w project now db ds in (db', d # gated))
      else pre_gate env w project now (advanceAfterRun env db project d now StatusSkipped None None) ds)"

record 'w scheduler =
  sc_table :: task_table
  sc_world :: 'w
  sc_groups :: "group_run list"

definition keep_group :: "group_run option \<Rightarrow> group_run list" where
  "keep_group r = (case r of None \<Rightarrow> [] | Some g \<Rightarrow> [g])"

text \<open>The groups of a run start one after the other, each up to its first \<open>await\<close>; those under way are joined to the others.\<close>

definition start_group :: "'w task_env \<Rightarrow> 'w scheduler \<Rightarrow> group_run \<Rightarrow> 'w scheduler" where
  "start_group env s g =
     (let (db, w, r) = group_step env (sc_world s) (sc_table s) g
      in s\<lparr>sc_table := db, sc_world := w, sc_groups := sc_groups s @ keep_group r\<rparr>)"

definition groups_of :: "string \<Rightarrow> bool \<Rightarrow> int option \<Rightarrow> due_task list \<Rightarrow> group_run list" where
  "groups_of project forceGate wait gated =
     map (\<lambda>(kind, members). \<lparr>gr_project = project, gr_forceGate = forceGate, gr_leaseWaitMs = wait, gr_deadline = None,
        gr_kind = kind, gr_acquired = False, gr_todo = members\<rparr>) (group_by_kind gated)"

definition runDueTasksForProject :: "'w task_env \<Rightarrow> 'w scheduler \<Rightarrow> string \<Rightarrow> task_config list \<Rightarrow> int \<Rightarrow> 'w scheduler" where
  "runDueTasksForProject env s project tasks now =
     (let (db1, due) = planDueTasks env (sc_world s) (sc_table s) project tasks now;
          (db2, gated) = pre_gate env (sc_world s) project now db1 due
      in foldl (start_group env) (s\<lparr>sc_table := db2\<rparr>) (groups_of project False None gated))"

definition MANUAL_RUN_LEASE_WAIT_MS :: int where [config_simps]: "MANUAL_RUN_LEASE_WAIT_MS = 60000"

definition runManualDream :: "'w task_env \<Rightarrow> 'w scheduler \<Rightarrow> string \<Rightarrow> task_config list \<Rightarrow> dream_task option \<Rightarrow> 'w scheduler" where
  "runManualDream env s project tasks task =
     (let now = te_clock env (sc_world s);
          selected = (case task of
            Some t \<Rightarrow> (case find (\<lambda>c. tc_task c = t) tasks of None \<Rightarrow> [] | Some cfg \<Rightarrow> [cfg])
          | None \<Rightarrow> filter (\<lambda>c. \<not> blank (tc_schedule c)) tasks);
          forceGate = (task \<noteq> None);
          db1 = foldl (\<lambda>d cfg. ensureSeeded env (sc_world s) d project cfg now) (sc_table s) selected;
          gated = filter (\<lambda>d. forceGate \<or> gate_passes env (sc_world s) db1 project d)
            (map (\<lambda>c. \<lparr>du_config = c, du_scheduledAt = now\<rparr>) selected)
      in foldl (start_group env) (s\<lparr>sc_table := db1\<rparr>) (groups_of project forceGate (Some MANUAL_RUN_LEASE_WAIT_MS) gated))"

text \<open>
  The executor of the broad verification opens and closes its cycle in the schedule row (\<open>verify-gate.ts\<close>,
  \<open>verify.ts\<close>), each in a write guarded by the lease; a write whose guard fails does not happen.
\<close>

definition ensureBroadCycleStart :: "task_table \<Rightarrow> string \<Rightarrow> int \<Rightarrow> task_table" where
  "ensureBroadCycleStart db project runStartedAt =
     (case getTaskScheduleState db project VerifyBroad of
        None \<Rightarrow> db
      | Some latest \<Rightarrow>
          (if (case tr_lastBroadRunAt latest of None \<Rightarrow> False | Some b \<Rightarrow> 0 < b) then db
           else writeTaskScheduleState db project VerifyBroad ((write_of latest)\<lparr>tw_lastBroadRunAt := Some (Some runStartedAt)\<rparr>)))"

definition closeBroadCycle :: "task_table \<Rightarrow> string \<Rightarrow> int \<Rightarrow> task_table" where
  "closeBroadCycle db project cycleStartAt =
     (case getTaskScheduleState db project VerifyBroad of
        None \<Rightarrow> db
      | Some current \<Rightarrow>
          (if tr_lastBroadRunAt current \<noteq> Some cycleStartAt then db
           else writeTaskScheduleState db project VerifyBroad ((write_of current)\<lparr>tw_lastBroadRunAt := Some None\<rparr>)))"

section \<open>The smart-note check\<close>

definition SMART_NOTE_CHECK_FLOOR_MS :: int where [config_simps]: "SMART_NOTE_CHECK_FLOOR_MS = 5 * 60 * 1000"
definition SMART_NOTE_CHECK_CEILING_MS :: int where [config_simps]: "SMART_NOTE_CHECK_CEILING_MS = 24 * 60 * 60 * 1000"
definition SMART_NOTE_CHECK_DEFAULT_INTERVAL_MS :: int where
  [config_simps]: "SMART_NOTE_CHECK_DEFAULT_INTERVAL_MS = 60 * 60 * 1000"

definition deterministicJitterMs :: "int \<Rightarrow> int option \<Rightarrow> string option \<Rightarrow> int" where
  "deterministicJitterMs intervalMs noteId hash =
     (let mx = min 60000 \<lfloor>of_int intervalMs * (0.1 :: real)\<rfloor>;
          seed = show_int (case noteId of None \<Rightarrow> 0 | Some n \<Rightarrow> n) @ '':'' @ (case hash of None \<Rightarrow> [] | Some h \<Rightarrow> h)
      in if mx \<le> 0 then 0 else uint (updateFnv1a32 2166136261 seed) mod (mx * 2 + 1) - mx)"

definition nextSmartNoteCheckDueAt :: "(int \<Rightarrow> civil) \<Rightarrow> string option \<Rightarrow> int \<Rightarrow> int option \<Rightarrow> string option \<Rightarrow> int \<Rightarrow> int \<Rightarrow> int" where
  "nextSmartNoteCheckDueAt local cron now noteId hash floorMs ceilingMs =
     (let rawNext = (case cron of None \<Rightarrow> None | Some c \<Rightarrow> if js_trim c = [] then None else nextDueAtMs local c now None ceilingMs);
          rawDelta = (case rawNext of None \<Rightarrow> SMART_NOTE_CHECK_DEFAULT_INTERVAL_MS
            | Some n \<Rightarrow> if n = 0 then SMART_NOTE_CHECK_DEFAULT_INTERVAL_MS else n - now);
          clamped = min ceilingMs (max floorMs rawDelta);
          jittered = clamped + deterministicJitterMs clamped noteId hash;
          bounded = min ceilingMs (max floorMs jittered)
      in now + bounded)"

section \<open>The invariant of the table\<close>

definition row_ok :: "task_row \<Rightarrow> bool" where
  "row_ok r \<longleftrightarrow> 0 \<le> tr_retryCount r \<and> tr_retryCount r \<le> MAX_TASK_RETRIES
     \<and> (\<forall>s. tr_schedule r = Some s \<longrightarrow> blank s \<longrightarrow> tr_nextDueAt r = None)"

definition table_ok :: "task_table \<Rightarrow> bool" where
  "table_ok db \<longleftrightarrow> (\<forall>k r. db k = Some r \<longrightarrow> row_ok r)"

lemma next_due_blank: "blank s \<Longrightarrow> next_due env s after consumed = None"
  by (simp add: blank_def next_due_def nextDueAtMs_def)

lemma written_row_simps [simp]:
  "tr_lastRunAt (written_row old w) = tw_lastRunAt w" "tr_nextDueAt (written_row old w) = tw_nextDueAt w"
  "tr_schedule (written_row old w) = tw_schedule w" "tr_retryCount (written_row old w) = tw_retryCount w"
  by (simp_all add: written_row_def)

lemma write_of_simps [simp]:
  "tw_lastRunAt (write_of r) = tr_lastRunAt r" "tw_nextDueAt (write_of r) = tr_nextDueAt r"
  "tw_schedule (write_of r) = tr_schedule r" "tw_retryCount (write_of r) = tr_retryCount r"
  by (simp_all add: write_of_def)

lemma table_ok_write:
  "table_ok db \<Longrightarrow> row_ok (written_row (db (p, t)) w) \<Longrightarrow> table_ok (writeTaskScheduleState db p t w)"
  by (simp add: table_ok_def writeTaskScheduleState_def)

lemma seed_ok: "table_ok db \<Longrightarrow> table_ok (ensureSeeded env w db p c now)"
  by (auto simp: table_ok_def ensureSeeded_def seedTaskScheduleState_def getTaskScheduleState_def row_ok_def next_due_blank MAX_TASK_RETRIES_def
    split: option.splits)

lemma seeded: "\<exists>r. ensureSeeded env w db p c now (p, tc_task c) = Some r"
  by (auto simp: ensureSeeded_def seedTaskScheduleState_def getTaskScheduleState_def split: option.splits)

lemma prune_ok: "table_ok db \<Longrightarrow> table_ok (pruneNonCanonicalTaskRows db p ts)"
  by (auto simp: table_ok_def pruneNonCanonicalTaskRows_def split: if_splits)

lemma reconcile_ok:
  assumes "table_ok db"
  shows "table_ok (reconcileSchedule env w db p c now)"
    and "\<exists>r. reconcileSchedule env w db p c now (p, tc_task c) = Some r \<and> tr_schedule r = Some (tc_schedule c)"
proof -
  let ?db = "ensureSeeded env w db p c now"
  obtain r where r: "?db (p, tc_task c) = Some r" using seeded [of env w db p c now] by blast
  have ok: "table_ok ?db" by (rule seed_ok [OF assms])
  then have row: "row_ok r" using r by (simp add: table_ok_def)
  have e: "reconcileSchedule env w db p c now =
      (if tr_schedule r = Some (tc_schedule c) then ?db
       else writeTaskScheduleState ?db p (tc_task c)
         (if blank (tc_schedule c) then (write_of r)\<lparr>tw_schedule := Some (tc_schedule c), tw_nextDueAt := None\<rparr>
          else if tr_schedule r = None \<and> tr_nextDueAt r \<noteq> None then (write_of r)\<lparr>tw_schedule := Some (tc_schedule c)\<rparr>
          else (write_of r)\<lparr>tw_schedule := Some (tc_schedule c),
            tw_nextDueAt := next_due env (tc_schedule c) now None, tw_retryCount := 0\<rparr>))"
    by (simp add: reconcileSchedule_def Let_def getTaskScheduleState_def r)
  show "table_ok (reconcileSchedule env w db p c now)"
    using row unfolding e by (auto intro!: table_ok_write ok simp: row_ok_def MAX_TASK_RETRIES_def)
  show "\<exists>r. reconcileSchedule env w db p c now (p, tc_task c) = Some r \<and> tr_schedule r = Some (tc_schedule c)"
    using r unfolding e by (auto simp: writeTaskScheduleState_def)
qed

lemma advance_ok: "table_ok db \<Longrightarrow> table_ok (advanceAfterRun env db p d f st e wm)"
  unfolding advanceAfterRun_def Let_def
  by (rule table_ok_write) (auto simp: row_ok_def next_due_blank MAX_TASK_RETRIES_def)

lemma transient_ok: "table_ok db \<Longrightarrow> table_ok (recordTransientFailure env db p d f e)"
  unfolding recordTransientFailure_def Let_def
  by (rule table_ok_write)
    (auto simp: row_ok_def table_ok_def next_due_blank MAX_TASK_RETRIES_def getTaskScheduleState_def split: option.splits)

lemma outcome_ok: "table_ok db \<Longrightarrow> table_ok (record_outcome env db p d f out)"
  by (simp add: record_outcome_def advance_ok transient_ok split: exec_outcome.split)

lemma broad_mark_ok:
  assumes "table_ok db" "db (p, task) = Some r"
  shows "table_ok (writeTaskScheduleState db p task ((write_of r)\<lparr>tw_lastBroadRunAt := b\<rparr>))"
proof -
  from assms have "row_ok r" by (simp add: table_ok_def)
  then have "row_ok (written_row (db (p, task)) ((write_of r)\<lparr>tw_lastBroadRunAt := b\<rparr>))" by (simp add: row_ok_def)
  then show ?thesis by (rule table_ok_write [OF assms(1)])
qed

lemma broad_cycle_ok:
  assumes "table_ok db"
  shows "table_ok (ensureBroadCycleStart db p n)" "table_ok (closeBroadCycle db p n)"
  using assms broad_mark_ok [OF assms]
  by (auto simp: ensureBroadCycleStart_def closeBroadCycle_def getTaskScheduleState_def split: option.splits)

lemma domain_loop_ok:
  "table_ok db \<Longrightarrow> domain_loop env fg p k w db ds = (db', todo) \<Longrightarrow> table_ok db' \<and> set todo \<subseteq> set ds"
  by (induction env fg p k w db ds rule: domain_loop.induct) (auto simp: advance_ok split: if_splits)

lemma plan_from_ok:
  "table_ok db \<Longrightarrow> plan_from env w db p cs now = (db', due) \<Longrightarrow>
   table_ok db' \<and> (\<forall>d\<in>set due. du_config d \<in> set cs \<and> du_scheduledAt d \<le> now \<and> \<not> blank (tc_schedule (du_config d)))"
proof (induction cs arbitrary: db db' due)
  case (Cons c cs)
  let ?db = "reconcileSchedule env w db p c now"
  obtain db'' ds where e: "plan_from env w ?db p cs now = (db'', ds)" by (metis surj_pair)
  have ok: "table_ok ?db" by (rule reconcile_ok(1) [OF Cons.prems(1)])
  obtain r where r: "?db (p, tc_task c) = Some r" "tr_schedule r = Some (tc_schedule c)"
    using reconcile_ok(2) [OF Cons.prems(1), of env w p c now] by blast
  have live: "tr_nextDueAt r \<noteq> None \<Longrightarrow> \<not> blank (tc_schedule c)" using ok r by (auto simp: table_ok_def row_ok_def)
  have "db' = db''" "due = (case tr_nextDueAt r of None \<Rightarrow> ds
      | Some slot \<Rightarrow> if slot \<le> now then \<lparr>du_config = c, du_scheduledAt = slot\<rparr> # ds else ds)"
    using Cons.prems(2) r(1) by (simp_all add: e Let_def getTaskScheduleState_def)
  with Cons.IH [OF ok e] live show ?case by (auto split: option.splits if_splits)
qed simp

lemma pre_gate_ok:
  "table_ok db \<Longrightarrow> pre_gate env w p now db ds = (db', gated) \<Longrightarrow> table_ok db' \<and> set gated \<subseteq> set ds"
proof (induction env w p now db ds arbitrary: db' gated rule: pre_gate.induct)
  case (2 env w p now db d ds)
  show ?case
  proof (cases "gate_passes env w db p d")
    case True
    obtain db1 g1 where e: "pre_gate env w p now db ds = (db1, g1)" by (metis surj_pair)
    with 2(4) True have "db' = db1" "gated = d # g1" by simp_all
    with 2(1) [OF True 2(3) e] show ?thesis by auto
  next
    case False
    with 2(2) [OF False advance_ok [OF 2(3)]] 2(4) show ?thesis by auto
  qed
qed simp

section \<open>Groups under way\<close>

text \<open>A group that nobody asked for by name has only tasks with a schedule.\<close>

definition group_ok :: "group_run \<Rightarrow> bool" where
  "group_ok g \<longleftrightarrow> gr_forceGate g \<or> (\<forall>d\<in>set (gr_todo g). \<not> blank (tc_schedule (du_config d)))"

definition scheduler_ok :: "'w scheduler \<Rightarrow> bool" where
  "scheduler_ok s \<longleftrightarrow> table_ok (sc_table s) \<and> (\<forall>g\<in>set (sc_groups s). group_ok g)"

lemma continue_ok:
  assumes "table_ok db" "group_ok g" "continue_group env w db g = (db', w', r)"
  shows "table_ok db' \<and> (\<forall>g'\<in>set (keep_group r). group_ok g')"
proof -
  obtain db1 todo where l: "domain_loop env (gr_forceGate g) (gr_project g) (gr_kind g) w db (gr_todo g) = (db1, todo)" by (metis surj_pair)
  from domain_loop_ok [OF assms(1) l] assms(2,3) l show ?thesis
    by (auto simp: continue_group_def keep_group_def group_ok_def split: if_splits)
qed

lemma group_step_ok:
  assumes ok: "table_ok db" "group_ok g" and step: "group_step env w db g = (db', w', r)"
  shows "table_ok db' \<and> (\<forall>g'\<in>set (keep_group r). group_ok g')"
proof (cases "gr_acquired g")
  case False
  obtain got w1 where a: "te_acquire env w (gr_kind g) = (got, w1)" by (metis surj_pair)
  have sorted: "group_ok (g\<lparr>gr_todo := sort_key (\<lambda>d. task_order (tc_task (du_config d))) (gr_todo g)\<rparr>)"
    using ok(2) by (simp add: group_ok_def)
  show ?thesis
  proof (cases got)
    case True
    with step False a have "continue_group env w1 db (g\<lparr>gr_todo := sort_key (\<lambda>d. task_order (tc_task (du_config d))) (gr_todo g)\<rparr>) = (db', w', r)"
      by (simp add: group_step_def)
    from continue_ok [OF ok(1) sorted this] show ?thesis .
  next
    case nogot: False
    have "db' = db" "\<forall>g'\<in>set (keep_group r). gr_forceGate g' = gr_forceGate g \<and> gr_todo g' = gr_todo g"
      using step False a nogot by (auto simp: group_step_def Let_def keep_group_def split: if_splits)
    with ok show ?thesis by (simp add: group_ok_def)
  qed
next
  case acquired: True
  show ?thesis
  proof (cases "gr_todo g")
    case Nil
    with step acquired ok show ?thesis by (simp add: group_step_def keep_group_def)
  next
    case (Cons d ds)
    obtain out w1 where e: "te_execute env w (du_config d) = (out, w1)" by (metis surj_pair)
    let ?db = "record_outcome env db (gr_project g) d (te_clock env w1) out"
    have "continue_group env w1 ?db (g\<lparr>gr_todo := ds\<rparr>) = (db', w', r)"
      using step acquired Cons e by (simp add: group_step_def Let_def)
    moreover have "group_ok (g\<lparr>gr_todo := ds\<rparr>)" using ok(2) Cons by (auto simp: group_ok_def)
    ultimately show ?thesis by (intro continue_ok [OF outcome_ok [OF ok(1)]])
  qed
qed

lemma start_group_ok:
  assumes "scheduler_ok s" "group_ok g"
  shows "scheduler_ok (start_group env s g)"
proof -
  obtain db w r where e: "group_step env (sc_world s) (sc_table s) g = (db, w, r)" by (metis surj_pair)
  have "table_ok (sc_table s)" using assms(1) by (simp add: scheduler_ok_def)
  from group_step_ok [OF this assms(2) e] assms(1) show ?thesis
    by (auto simp: start_group_def e scheduler_ok_def)
qed

lemma start_groups_ok: "scheduler_ok s \<Longrightarrow> \<forall>g\<in>set gs. group_ok g \<Longrightarrow> scheduler_ok (foldl (start_group env) s gs)"
  by (induction gs arbitrary: s) (simp_all add: start_group_ok)

lemma jsmap_set_entry: "(k', v') \<in> set (jsmap_set k v m) \<Longrightarrow> (k', v') = (k, v) \<or> (k', v') \<in> set m"
  by (induction k v m rule: jsmap_set.induct) (auto split: if_splits)

lemma grouped_members: "(k, ms) \<in> set (group_by_kind gated) \<Longrightarrow> set ms \<subseteq> set gated"
proof (induction gated arbitrary: k ms rule: rev_induct)
  case (snoc d gated)
  let ?gs = "group_by_kind gated" and ?k = "leaseKindFor (tc_task (du_config d))"
  have "group_by_kind (gated @ [d]) = jsmap_set ?k ((case map_of ?gs ?k of None \<Rightarrow> [] | Some arr \<Rightarrow> arr) @ [d]) ?gs"
    by (simp add: group_by_kind_def Let_def)
  with snoc.prems jsmap_set_entry
  consider "ms = (case map_of ?gs ?k of None \<Rightarrow> [] | Some arr \<Rightarrow> arr) @ [d]" | "(k, ms) \<in> set ?gs" by fastforce
  then show ?case
  proof cases
    case 1
    have "set arr \<subseteq> set gated" if "map_of ?gs ?k = Some arr" for arr using snoc.IH [OF map_of_SomeD [OF that]] .
    then show ?thesis unfolding 1 by (cases "map_of ?gs ?k") auto
  next
    case 2
    from snoc.IH [OF this] show ?thesis by auto
  qed
qed (simp add: group_by_kind_def)

lemma groups_ok:
  assumes "fg \<or> (\<forall>d\<in>set gated. \<not> blank (tc_schedule (du_config d)))"
  shows "\<forall>g\<in>set (groups_of p fg wait gated). group_ok g"
  using assms grouped_members by (fastforce simp: groups_of_def group_ok_def)

text \<open>
  What happens to the scheduler: the ticks of the timer and the manual runs, each with its own configuration, a group
  that goes on, the marks of the broad verification, and whatever else changes the world.
\<close>

datatype 'w task_event =
    Tick string "task_config list" int | Manual string "task_config list" "dream_task option" | Resume nat
  | OpenBroadCycle string int | CloseBroadCycle string int | Elsewhere "'w \<Rightarrow> 'w"

fun task_step :: "'w task_env \<Rightarrow> 'w scheduler \<Rightarrow> 'w task_event \<Rightarrow> 'w scheduler" where
  "task_step env s (Tick project tasks now) = runDueTasksForProject env s project tasks now"
| "task_step env s (Manual project tasks task) = runManualDream env s project tasks task"
| "task_step env s (Resume i) =
     (if i < length (sc_groups s) then
        (let (db, w, r) = group_step env (sc_world s) (sc_table s) (sc_groups s ! i)
         in s\<lparr>sc_table := db, sc_world := w,
              sc_groups := take i (sc_groups s) @ keep_group r @ drop (Suc i) (sc_groups s)\<rparr>)
      else s)"
| "task_step env s (OpenBroadCycle project runStartedAt) = s\<lparr>sc_table := ensureBroadCycleStart (sc_table s) project runStartedAt\<rparr>"
| "task_step env s (CloseBroadCycle project cycleStartAt) = s\<lparr>sc_table := closeBroadCycle (sc_table s) project cycleStartAt\<rparr>"
| "task_step env s (Elsewhere f) = s\<lparr>sc_world := f (sc_world s)\<rparr>"

lemma tick_ok:
  assumes ok: "scheduler_ok s"
  shows "scheduler_ok (runDueTasksForProject env s p tasks now)"
proof -
  obtain db1 due where e: "planDueTasks env (sc_world s) (sc_table s) p tasks now = (db1, due)" by (metis surj_pair)
  obtain db2 gated where g: "pre_gate env (sc_world s) p now db1 due = (db2, gated)" by (metis surj_pair)
  have t: "table_ok (sc_table s)" using ok by (simp add: scheduler_ok_def)
  from plan_from_ok [OF prune_ok [OF t] e [unfolded planDueTasks_def]]
  have d: "table_ok db1" "\<forall>d\<in>set due. \<not> blank (tc_schedule (du_config d))" by auto
  from pre_gate_ok [OF d(1) g] d(2) have g2: "table_ok db2" "\<forall>d\<in>set gated. \<not> blank (tc_schedule (du_config d))" by auto
  have "scheduler_ok (s\<lparr>sc_table := db2\<rparr>)" using ok g2(1) by (simp add: scheduler_ok_def)
  moreover have "\<forall>h\<in>set (groups_of p False None gated). group_ok h" by (rule groups_ok) (use g2(2) in simp)
  ultimately have "scheduler_ok (foldl (start_group env) (s\<lparr>sc_table := db2\<rparr>) (groups_of p False None gated))"
    by (rule start_groups_ok)
  then show ?thesis by (simp add: runDueTasksForProject_def e g)
qed

lemma manual_ok:
  assumes ok: "scheduler_ok s"
  shows "scheduler_ok (runManualDream env s p tasks task)"
proof -
  let ?now = "te_clock env (sc_world s)"
  define selected where "selected = (case task of
      Some t \<Rightarrow> (case find (\<lambda>c. tc_task c = t) tasks of None \<Rightarrow> [] | Some cfg \<Rightarrow> [cfg])
    | None \<Rightarrow> filter (\<lambda>c. \<not> blank (tc_schedule c)) tasks)"
  define db1 where "db1 = foldl (\<lambda>d cfg. ensureSeeded env (sc_world s) d p cfg ?now) (sc_table s) selected"
  define gated where "gated = filter (\<lambda>d. task \<noteq> None \<or> gate_passes env (sc_world s) db1 p d)
    (map (\<lambda>c. \<lparr>du_config = c, du_scheduledAt = ?now\<rparr>) selected)"
  have "table_ok db \<Longrightarrow> table_ok (foldl (\<lambda>d cfg. ensureSeeded env (sc_world s) d p cfg ?now) db cs)" for db cs
    by (induction cs arbitrary: db) (simp_all add: seed_ok)
  then have "scheduler_ok (s\<lparr>sc_table := db1\<rparr>)" using ok by (simp add: scheduler_ok_def db1_def)
  moreover have "\<forall>h\<in>set (groups_of p (task \<noteq> None) (Some MANUAL_RUN_LEASE_WAIT_MS) gated). group_ok h"
    by (rule groups_ok) (auto simp: gated_def selected_def split: option.splits)
  ultimately have "scheduler_ok (foldl (start_group env) (s\<lparr>sc_table := db1\<rparr>) (groups_of p (task \<noteq> None) (Some MANUAL_RUN_LEASE_WAIT_MS) gated))"
    by (rule start_groups_ok)
  then show ?thesis unfolding runManualDream_def Let_def gated_def db1_def selected_def .
qed

lemma task_step_ok:
  assumes ok: "scheduler_ok s"
  shows "scheduler_ok (task_step env s ev)"
proof (cases ev)
  case (Resume i)
  show ?thesis
  proof (cases "i < length (sc_groups s)")
    case True
    obtain db w r where e: "group_step env (sc_world s) (sc_table s) (sc_groups s ! i) = (db, w, r)" by (metis surj_pair)
    have "table_ok (sc_table s)" "group_ok (sc_groups s ! i)" using ok True by (simp_all add: scheduler_ok_def)
    from group_step_ok [OF this e] ok show ?thesis
      by (auto simp: Resume True e scheduler_ok_def dest: in_set_takeD in_set_dropD)
  qed (simp add: Resume ok)
next
  case (OpenBroadCycle p n)
  then show ?thesis using ok by (simp add: broad_cycle_ok scheduler_ok_def)
next
  case (CloseBroadCycle p n)
  then show ?thesis using ok by (simp add: broad_cycle_ok scheduler_ok_def)
next
  case (Elsewhere f)
  then show ?thesis using ok by (simp add: scheduler_ok_def)
qed (simp_all add: tick_ok manual_ok ok)

interpretation scheduler_machine: machine "task_step env" scheduler_ok for env
  by unfold_locales (rule task_step_ok)

definition task_of :: "due_task \<Rightarrow> dream_task" where
  "task_of d = tc_task (du_config d)"

section \<open>Properties\<close>

definition idle_scheduler :: "'w \<Rightarrow> 'w scheduler" where
  "idle_scheduler w = \<lparr>sc_table = Map.empty, sc_world = w, sc_groups = []\<rparr>"

lemma reachable_ok: "scheduler_ok (foldl (task_step env) (idle_scheduler w) evs)"
  by (rule scheduler_machine.run_inv) (simp add: scheduler_ok_def table_ok_def idle_scheduler_def)

text \<open>
  C39: A disabled task is never run, unless it is asked for by name: after any sequence of ticks and manual runs with
  whatever configurations, their domain groups interleaved at every \<open>await\<close> with each other and with anything else
  that changes the database, the leases or the clock, and whatever failed, every task that is executing or waiting
  in a group which was not started for one named task has a non-blank schedule in the configuration of its run;
  and the next tick plans only configured tasks with a non-blank schedule whose slot has come.
\<close>

theorem disabled_task_is_never_run:
  assumes "foldl (task_step env) (idle_scheduler w) evs = s"
  shows "(\<forall>g\<in>set (sc_groups s). \<not> gr_forceGate g \<longrightarrow> (\<forall>d\<in>set (gr_todo g). \<not> blank (tc_schedule (du_config d))))
    \<and> (\<forall>d\<in>set (snd (planDueTasks env (sc_world s) (sc_table s) project tasks now)).
         du_config d \<in> set tasks \<and> \<not> blank (tc_schedule (du_config d)) \<and> du_scheduledAt d \<le> now)"
proof -
  have ok: "scheduler_ok s" using reachable_ok [of env w evs] by (simp add: assms)
  obtain db' due where e: "planDueTasks env (sc_world s) (sc_table s) project tasks now = (db', due)" by (metis surj_pair)
  have "table_ok (sc_table s)" using ok by (simp add: scheduler_ok_def)
  from plan_from_ok [OF prune_ok [OF this] e [unfolded planDueTasks_def]] ok show ?thesis
    by (auto simp: e scheduler_ok_def group_ok_def)
qed

definition example_config :: task_config where
  "example_config = \<lparr>tc_task = Curate, tc_schedule = ''0 4 * * 7'', tc_promotionThreshold = None\<rparr>"

definition example_task_env :: "unit task_env" where
  "example_task_env = \<lparr>te_local = (\<lambda>t. example_sunday), te_legacyRun = (\<lambda>w p. None), te_gate = (\<lambda>w t a b n. True),
     te_acquire = (\<lambda>w k. (True, w)), te_owns = (\<lambda>w k. True), te_release = (\<lambda>w k. w),
     te_execute = (\<lambda>w c. (TransientFailure None, w)), te_clock = (\<lambda>w. 0)\<rparr>"

theorem disabled_task_is_never_run_witness:
  "map (map task_of \<circ> gr_todo) (sc_groups (task_step example_task_env (idle_scheduler ()) (Manual ''p'' [example_config, example_config\<lparr>tc_task := Verify, tc_schedule := []\<rparr>] None)))
     = [[Curate]]
   \<and> snd (planDueTasks example_task_env () (sc_table (task_step example_task_env (idle_scheduler ()) (Manual ''p'' [example_config] None)))
        ''p'' [example_config\<lparr>tc_schedule := '' ''\<rparr>] 100000) = []"
proof
  have live: "\<not> blank ''0 4 * * 7''" "blank []" "blank '' ''" by (simp_all add: blank_def js_trim_def is_ws_def)
  show "map (map task_of \<circ> gr_todo) (sc_groups (task_step example_task_env (idle_scheduler ()) (Manual ''p'' [example_config, example_config\<lparr>tc_task := Verify, tc_schedule := []\<rparr>] None)))
     = [[Curate]]"
    by (simp add: runManualDream_def groups_of_def group_by_kind_def start_group_def group_step_def continue_group_def keep_group_def
      idle_scheduler_def example_task_env_def example_config_def live gate_passes_def task_of_def Let_def)
  let ?s = "foldl (task_step example_task_env) (idle_scheduler ()) [Manual ''p'' [example_config] None]"
  let ?due = "snd (planDueTasks example_task_env (sc_world ?s) (sc_table ?s) ''p'' [example_config\<lparr>tc_schedule := '' ''\<rparr>] 100000)"
  have "d \<notin> set ?due" for d
    using disabled_task_is_never_run [of example_task_env "()" "[Manual ''p'' [example_config] None]" ?s "''p''" "[example_config\<lparr>tc_schedule := '' ''\<rparr>]" 100000] live(3)
    by auto
  then have "?due = []" by (cases ?due) auto
  then show "snd (planDueTasks example_task_env () (sc_table (task_step example_task_env (idle_scheduler ()) (Manual ''p'' [example_config] None)))
        ''p'' [example_config\<lparr>tc_schedule := '' ''\<rparr>] 100000) = []" by simp
qed

text \<open>One transient failure on a live row keeps the slot, until the retries are used up.\<close>

definition fail_once :: "'w task_env \<Rightarrow> string \<Rightarrow> due_task \<Rightarrow> task_table \<Rightarrow> int \<times> string option \<Rightarrow> task_table" where
  "fail_once env p d db f = recordTransientFailure env db p d (fst f) (snd f)"

lemma transient_row:
  assumes "db (p, task_of d) = Some r" "\<not> blank (tc_schedule (du_config d))" "tr_nextDueAt r = Some slot"
  shows "\<exists>r'. fail_once env p d db f (p, task_of d) = Some r' \<and> tr_lastRunAt r' = tr_lastRunAt r
    \<and> (if tr_retryCount r < MAX_TASK_RETRIES then tr_nextDueAt r' = Some slot \<and> tr_retryCount r' = tr_retryCount r + 1
       else tr_nextDueAt r' = next_due env (tc_schedule (du_config d)) (fst f) (Some (du_scheduledAt d)) \<and> tr_retryCount r' = 0)"
  using assms
  by (auto simp: fail_once_def recordTransientFailure_def Let_def writeTaskScheduleState_def getTaskScheduleState_def task_of_def coalesce_def)

lemma transient_rows:
  assumes "db (p, task_of d) = Some r" "\<not> blank (tc_schedule (du_config d))" "tr_nextDueAt r = Some slot"
    "tr_retryCount r + int (length fs) \<le> MAX_TASK_RETRIES"
  shows "\<exists>r'. foldl (fail_once env p d) db fs (p, task_of d) = Some r' \<and> tr_lastRunAt r' = tr_lastRunAt r
    \<and> tr_nextDueAt r' = Some slot \<and> tr_retryCount r' = tr_retryCount r + int (length fs)"
  using assms(1,3,4)
proof (induction fs arbitrary: db r)
  case (Cons f fs)
  obtain r' where r': "fail_once env p d db f (p, task_of d) = Some r'" "tr_lastRunAt r' = tr_lastRunAt r"
    "tr_nextDueAt r' = Some slot" "tr_retryCount r' = tr_retryCount r + 1"
    using transient_row [where db = db and p = p and d = d and env = env and f = f, OF Cons.prems(1) assms(2) Cons.prems(2)] Cons.prems(3) by auto
  from Cons.IH [where db = "fail_once env p d db f", OF r'(1,3)] r'(2,4) Cons.prems(3) show ?case by auto
qed simp

text \<open>
  A slot is tried at most four times: while fewer than four runs in a row have failed transiently the slot stays
  due, and the fourth failure moves the task to the first slot after its end, with another civil minute, or to
  never. The date of the last success is kept throughout.
\<close>

theorem retries_are_bounded:
  assumes "db (p, task_of d) = Some r" "tr_nextDueAt r = Some slot" "tr_retryCount r = 0"
    and "\<not> blank (tc_schedule (du_config d))" "length fs \<le> 3"
  shows "\<exists>r' r''. foldl (fail_once env p d) db fs (p, task_of d) = Some r' \<and> tr_nextDueAt r' = Some slot
      \<and> tr_retryCount r' = int (length fs) \<and> tr_lastRunAt r' = tr_lastRunAt r
      \<and> fail_once env p d (foldl (fail_once env p d) db fs) f (p, task_of d) = Some r'' \<and> tr_lastRunAt r'' = tr_lastRunAt r
      \<and> (length fs = 3 \<longrightarrow> tr_retryCount r'' = 0
         \<and> (\<forall>t. tr_nextDueAt r'' = Some t \<longrightarrow> fst f < t
              \<and> civilMinuteKey (te_local env t) \<noteq> civilMinuteKey (te_local env (du_scheduledAt d))))"
proof -
  obtain r' where r': "foldl (fail_once env p d) db fs (p, task_of d) = Some r'" "tr_lastRunAt r' = tr_lastRunAt r"
    "tr_nextDueAt r' = Some slot" "tr_retryCount r' = int (length fs)"
    using transient_rows [where db = db and p = p and d = d and env = env and fs = fs, OF assms(1,4,2)] assms(3,5) by (auto simp: MAX_TASK_RETRIES_def)
  obtain r'' where r'': "fail_once env p d (foldl (fail_once env p d) db fs) f (p, task_of d) = Some r''"
    "tr_lastRunAt r'' = tr_lastRunAt r'"
    "length fs = 3 \<Longrightarrow> tr_nextDueAt r'' = next_due env (tc_schedule (du_config d)) (fst f) (Some (du_scheduledAt d)) \<and> tr_retryCount r'' = 0"
    using transient_row [where db = "foldl (fail_once env p d) db fs" and p = p and d = d and env = env and f = f, OF r'(1) assms(4) r'(3)] r'(4) by (auto simp: MAX_TASK_RETRIES_def)
  have "fst f < t \<and> civilMinuteKey (te_local env t) \<noteq> civilMinuteKey (te_local env (du_scheduledAt d))"
    if "next_due env (tc_schedule (du_config d)) (fst f) (Some (du_scheduledAt d)) = Some t" for t
    using that unfolding next_due_def nextDueAtMs_Some by (auto simp: run_slot_def)
  with r' r'' show ?thesis by auto
qed

definition example_row :: task_row where
  "example_row = \<lparr>tr_lastRunAt = Some 7, tr_nextDueAt = Some 60000, tr_schedule = Some ''0 4 * * 7'', tr_lastStatus = None, tr_lastError = None,
     tr_retryCount = 0, tr_lastCheckedCommit = None, tr_lastBroadRunAt = None, tr_retrospectiveWatermarkMs = None\<rparr>"

theorem retries_are_bounded_witness:
  "\<exists>r'. fail_once example_task_env ''p'' \<lparr>du_config = example_config, du_scheduledAt = 60000\<rparr>
      (foldl (fail_once example_task_env ''p'' \<lparr>du_config = example_config, du_scheduledAt = 60000\<rparr>) [(''p'', Curate) \<mapsto> example_row]
         [(1, None), (2, None), (3, None)]) (4, None) (''p'', Curate) = Some r'
    \<and> tr_retryCount r' = 0 \<and> tr_lastRunAt r' = Some 7"
proof -
  let ?d = "\<lparr>du_config = example_config, du_scheduledAt = 60000\<rparr>"
  have "[(''p'', Curate) \<mapsto> example_row] (''p'', task_of ?d) = Some example_row" "task_of ?d = Curate"
    "\<not> blank (tc_schedule (du_config ?d))"
    by (simp_all add: task_of_def example_config_def blank_def js_trim_def is_ws_def)
  from retries_are_bounded [where db = "[(''p'', Curate) \<mapsto> example_row]" and p = "''p''" and d = ?d and slot = 60000
      and fs = "[(1, None), (2, None), (3, None)]" and env = example_task_env and f = "(4, None)", OF this(1) _ _ this(3)] this(2)
  show ?thesis by (simp add: example_row_def) blast
qed

text \<open>
  A task whose schedule has no occurrence is never due, until a manual run of it fails transiently: the failure
  stores the time of the manual run as its slot, and the timer then runs it.
\<close>

lemma failed_manual_run_revives_impossible_schedule:
  assumes "db (p, task_of d) = Some r" "tr_nextDueAt r = None" "tr_retryCount r = 0" "\<not> blank (tc_schedule (du_config d))"
  shows "\<exists>r'. fail_once env p d db f (p, task_of d) = Some r' \<and> tr_nextDueAt r' = Some (du_scheduledAt d)"
  using assms
  by (auto simp: fail_once_def recordTransientFailure_def Let_def writeTaskScheduleState_def getTaskScheduleState_def task_of_def coalesce_def
    MAX_TASK_RETRIES_def)

text \<open>
  The next check of a smart note is due between the floor and the ceiling from now, whatever its schedule, its
  id, its hash and the jitter.
\<close>

theorem smart_note_check_is_spaced:
  assumes "floorMs \<le> ceilingMs"
  shows "now + floorMs \<le> nextSmartNoteCheckDueAt local cron now noteId hash floorMs ceilingMs
    \<and> nextSmartNoteCheckDueAt local cron now noteId hash floorMs ceilingMs \<le> now + ceilingMs"
  using assms by (simp add: nextSmartNoteCheckDueAt_def Let_def)

theorem smart_note_check_is_spaced_witness:
  "5 + SMART_NOTE_CHECK_FLOOR_MS \<le> nextSmartNoteCheckDueAt (\<lambda>t. example_sunday) (Some ''0 4 * * 7'') 5 (Some 3) None
     SMART_NOTE_CHECK_FLOOR_MS SMART_NOTE_CHECK_CEILING_MS"
  using smart_note_check_is_spaced [of SMART_NOTE_CHECK_FLOOR_MS SMART_NOTE_CHECK_CEILING_MS 5]
  by (simp add: SMART_NOTE_CHECK_FLOOR_MS_def SMART_NOTE_CHECK_CEILING_MS_def)

end
