(* ===== verification/Wire_Frames.thy ===== *)
theory Wire_Frames
  imports Prelude "HOL-Library.Word"
begin

unbundle bit_operations_syntax

text \<open>
  The frame header of the host protocol (\<open>shared/mc-host-client/protocol.ts\<close>): flags, structural
  validation, the 21-byte little-endian encoding and its decoder. A header field is an unbounded integer,
  as in the source before \<open>requireUint\<close>; a byte is an \<open>8 word\<close>, and the flag operators work on 32-bit words.
  An exception is a value of \<open>frame_error\<close>.
\<close>

section \<open>Frames and flags\<close>

definition PROTOCOL_VERSION :: int where [config_simps]: "PROTOCOL_VERSION = 2"
definition HEADER_LEN :: nat where [config_simps]: "HEADER_LEN = 21"
definition FROZEN_PREFIX_LEN :: nat where [config_simps]: "FROZEN_PREFIX_LEN = 5"
definition MAX_FRAME_BODY_LEN :: int where [config_simps]: "MAX_FRAME_BODY_LEN = 67108864"
definition MAX_CORRELATION :: int where [config_simps]: "MAX_CORRELATION = 0xffffffffffffffff"

datatype frame_type = Request | Response | Push | StreamData | StreamEnd | ErrorFrame | Cancel | Ping | Pong
  | Hello | HelloAck | Goodbye

definition frame_types :: "frame_type list" where
  "frame_types = [Request, Response, Push, StreamData, StreamEnd, ErrorFrame, Cancel, Ping, Pong, Hello, HelloAck, Goodbye]"

fun frame_code :: "frame_type \<Rightarrow> int" where
  "frame_code Request = 0" | "frame_code Response = 1" | "frame_code Push = 2" | "frame_code StreamData = 3"
| "frame_code StreamEnd = 4" | "frame_code ErrorFrame = 5" | "frame_code Cancel = 6" | "frame_code Ping = 7"
| "frame_code Pong = 8" | "frame_code Hello = 9" | "frame_code HelloAck = 10" | "frame_code Goodbye = 11"

definition FRAME_TYPE_MAX :: int where [config_simps]: "FRAME_TYPE_MAX = 11"

definition isPureHeader :: "int \<Rightarrow> bool" where
  "isPureHeader ty = (ty \<in> {frame_code Cancel, frame_code Ping, frame_code Pong, frame_code Goodbye})"

datatype priority = Passive | Interactive | Background
datatype admission_class = Normal | Expedite | Sheddable

fun priority_code :: "priority \<Rightarrow> 32 word" where
  "priority_code Passive = 0" | "priority_code Interactive = 1" | "priority_code Background = 2"

fun admission_code :: "admission_class \<Rightarrow> 32 word" where
  "admission_code Normal = 0" | "admission_code Expedite = 1" | "admission_code Sheddable = 2"

definition FLAG_BINARY :: "32 word" where "FLAG_BINARY = 1"
definition FLAG_PRIORITY_MASK :: "32 word" where "FLAG_PRIORITY_MASK = 6"
definition FLAG_PRIORITY_SHIFT :: nat where "FLAG_PRIORITY_SHIFT = 1"
definition FLAG_LAST :: "32 word" where "FLAG_LAST = 8"
definition FLAG_ADMISSION_MASK :: "32 word" where "FLAG_ADMISSION_MASK = 48"
definition FLAG_ADMISSION_SHIFT :: nat where "FLAG_ADMISSION_SHIFT = 4"
definition FLAG_RESERVED_MASK :: "32 word" where "FLAG_RESERVED_MASK = 192"

lemmas flag_defs = FLAG_BINARY_def FLAG_PRIORITY_MASK_def FLAG_PRIORITY_SHIFT_def FLAG_LAST_def FLAG_ADMISSION_MASK_def
  FLAG_ADMISSION_SHIFT_def FLAG_RESERVED_MASK_def

definition buildFlags :: "bool \<Rightarrow> priority \<Rightarrow> bool \<Rightarrow> admission_class \<Rightarrow> 32 word" where
  "buildFlags binary priority is_last admissionClass =
     (let flags = 0;
          flags = (if binary then flags OR FLAG_BINARY else flags);
          flags = flags OR push_bit FLAG_PRIORITY_SHIFT (priority_code priority);
          flags = (if is_last then flags OR FLAG_LAST else flags)
      in flags OR push_bit FLAG_ADMISSION_SHIFT (admission_code admissionClass))"

definition flagsBinary :: "32 word \<Rightarrow> bool" where
  "flagsBinary flags = (flags AND FLAG_BINARY \<noteq> 0)"

definition flagsPriority :: "32 word \<Rightarrow> 32 word" where
  "flagsPriority flags = drop_bit FLAG_PRIORITY_SHIFT (flags AND FLAG_PRIORITY_MASK)"

definition flagsLast :: "32 word \<Rightarrow> bool" where
  "flagsLast flags = (flags AND FLAG_LAST \<noteq> 0)"

definition flagsAdmissionClass :: "32 word \<Rightarrow> 32 word" where
  "flagsAdmissionClass flags = drop_bit FLAG_ADMISSION_SHIFT (flags AND FLAG_ADMISSION_MASK)"

section \<open>Validation\<close>

datatype frame_error =
    OutOfRange string
  | TooShortForPrefix
  | UnsupportedVersion
  | TooShortForHeader
  | UnknownFrameType
  | FrameBodyTooLarge
  | ReservedFlagBits
  | ReservedPriorityBits
  | ReservedAdmissionClass
  | SheddableIllegalFrameType
  | NonzeroEpochOnControlChannel
  | ZeroEpochOnRoutedChannel
  | PureHeaderFrameWithBody
  | PureHeaderFrameFlags

record envelope_header =
  eh_len :: int
  eh_ver :: int
  eh_ty :: int
  eh_flags :: int
  eh_channel :: int
  eh_epoch :: int
  eh_corr :: int

definition header_flags :: "envelope_header \<Rightarrow> 32 word" where
  "header_flags h = word_of_int (eh_flags h)"

text \<open>The error that is thrown, \<open>None\<close> when the header is accepted.\<close>

definition validateHeader :: "envelope_header \<Rightarrow> frame_error option" where
  "validateHeader h =
     (let flags = header_flags h; admission = flagsAdmissionClass flags
      in if eh_ver h \<noteq> PROTOCOL_VERSION then Some UnsupportedVersion
         else if eh_ty h < 0 \<or> FRAME_TYPE_MAX < eh_ty h then Some UnknownFrameType
         else if MAX_FRAME_BODY_LEN < eh_len h then Some FrameBodyTooLarge
         else if flags AND FLAG_RESERVED_MASK \<noteq> 0 then Some ReservedFlagBits
         else if flagsPriority flags = 3 then Some ReservedPriorityBits
         else if admission = 3 then Some ReservedAdmissionClass
         else if admission = admission_code Sheddable \<and> eh_ty h \<noteq> frame_code Push \<and> eh_ty h \<noteq> frame_code StreamData
           then Some SheddableIllegalFrameType
         else if eh_channel h = 0 \<and> eh_epoch h \<noteq> 0 then Some NonzeroEpochOnControlChannel
         else if eh_channel h \<noteq> 0 \<and> eh_epoch h = 0 then Some ZeroEpochOnRoutedChannel
         else if isPureHeader (eh_ty h) \<and> eh_len h \<noteq> 0 then Some PureHeaderFrameWithBody
         else if isPureHeader (eh_ty h) \<and> (flagsBinary flags \<or> flagsLast flags \<or> admission \<noteq> admission_code Normal)
           then Some PureHeaderFrameFlags
         else None)"

definition requireUint :: "int \<Rightarrow> int \<Rightarrow> string \<Rightarrow> frame_error option" where
  "requireUint v mx field = (if v < 0 \<or> mx < v then Some (OutOfRange field) else None)"

fun first_error :: "frame_error option list \<Rightarrow> frame_error option" where
  "first_error [] = None"
| "first_error (Some e # es) = Some e"
| "first_error (None # es) = first_error es"

section \<open>The codec\<close>

text \<open>\<open>DataView\<close> with \<open>littleEndian = true\<close>.\<close>

fun le_bytes :: "nat \<Rightarrow> int \<Rightarrow> 8 word list" where
  "le_bytes 0 n = []"
| "le_bytes (Suc k) n = word_of_int n # le_bytes k (n div 256)"

fun le_value :: "8 word list \<Rightarrow> int" where
  "le_value [] = 0"
| "le_value (b # bs) = uint b + 256 * le_value bs"

definition range_errors :: "envelope_header \<Rightarrow> frame_error option list" where
  "range_errors h =
     [requireUint (eh_len h) 0xffffffff ''header len'', requireUint (eh_ver h) 0xff ''header ver'',
      requireUint (eh_ty h) 0xff ''header type'', requireUint (eh_flags h) 0xff ''header flags'',
      requireUint (eh_channel h) 0xffff ''header channel'', requireUint (eh_epoch h) 0xffffffff ''header epoch'',
      requireUint (eh_corr h) MAX_CORRELATION ''header corr'']"

definition header_bytes :: "envelope_header \<Rightarrow> 8 word list" where
  "header_bytes h = le_bytes 4 (eh_len h) @ le_bytes 1 (eh_ver h) @ le_bytes 1 (eh_ty h) @ le_bytes 1 (eh_flags h)
     @ le_bytes 2 (eh_channel h) @ le_bytes 4 (eh_epoch h) @ le_bytes 8 (eh_corr h)"

definition encodeHeader :: "envelope_header \<Rightarrow> frame_error + 8 word list" where
  "encodeHeader h =
     (case first_error (range_errors h) of
        Some e \<Rightarrow> Inl e
      | None \<Rightarrow> (case validateHeader h of Some e \<Rightarrow> Inl e | None \<Rightarrow> Inr (header_bytes h)))"

definition field_at :: "nat \<Rightarrow> nat \<Rightarrow> 8 word list \<Rightarrow> int" where
  "field_at offset width bytes = le_value (take width (drop offset bytes))"

definition header_of :: "8 word list \<Rightarrow> envelope_header" where
  "header_of bytes = \<lparr>eh_len = field_at 0 4 bytes, eh_ver = field_at 4 1 bytes, eh_ty = field_at 5 1 bytes,
     eh_flags = field_at 6 1 bytes, eh_channel = field_at 7 2 bytes, eh_epoch = field_at 9 4 bytes, eh_corr = field_at 13 8 bytes\<rparr>"

definition decodeHeader :: "8 word list \<Rightarrow> frame_error + envelope_header" where
  "decodeHeader bytes =
     (if length bytes < FROZEN_PREFIX_LEN then Inl TooShortForPrefix
      else if field_at 4 1 bytes \<noteq> PROTOCOL_VERSION then Inl UnsupportedVersion
      else if length bytes < HEADER_LEN then Inl TooShortForHeader
      else (case validateHeader (header_of bytes) of Some e \<Rightarrow> Inl e | None \<Rightarrow> Inr (header_of bytes)))"

section \<open>Roles\<close>

definition isLegalHostToConsumerType :: "frame_type \<Rightarrow> bool" where
  "isLegalHostToConsumerType ty = (ty \<in> {Response, ErrorFrame, StreamData, StreamEnd, Ping, Push, Goodbye})"

definition isLegalConsumerToHostType :: "frame_type \<Rightarrow> bool" where
  "isLegalConsumerToHostType ty = (ty \<in> {Request, Cancel, Pong, Goodbye})"

datatype namespace = ConsumerNamespace | HostNamespace

definition settledCorrelationNamespace :: "frame_type \<Rightarrow> namespace option" where
  "settledCorrelationNamespace ty =
     (if ty \<in> {Response, ErrorFrame, StreamData, StreamEnd} then Some ConsumerNamespace
      else if ty = Pong then Some HostNamespace else None)"

section \<open>Little-endian fields\<close>

lemma length_le_bytes [simp]: "length (le_bytes k n) = k"
  by (induction k arbitrary: n) auto

lemma le_value_bounds: "0 \<le> le_value bs \<and> le_value bs < 256 ^ length bs"
proof (induction bs)
  case (Cons b bs)
  have "0 \<le> uint b" "uint b < 256" using uint_lt2p [of b] by simp_all
  with Cons show ?case by simp
qed simp

lemma le_value_bytes: "0 \<le> n \<Longrightarrow> n < 256 ^ k \<Longrightarrow> le_value (le_bytes k n) = n"
proof (induction k arbitrary: n)
  case (Suc k)
  have "uint (word_of_int n :: 8 word) = n mod 256"
    by (simp add: uint_word_of_int take_bit_eq_mod)
  moreover have "le_value (le_bytes k (n div 256)) = n div 256"
    using Suc.prems by (intro Suc.IH) (auto simp: div_less_iff_less_mult pos_imp_zdiv_nonneg_iff mult.commute)
  ultimately show ?case by simp
qed simp

lemma le_bytes_value: "length bs = k \<Longrightarrow> le_bytes k (le_value bs) = bs"
proof (induction bs arbitrary: k)
  case (Cons b bs)
  have b: "0 \<le> uint b" "uint b < 256" using uint_lt2p [of b] by simp_all
  then have "(uint b + 256 * le_value bs) div 256 = le_value bs" by simp
  moreover have "word_of_int (uint b + 256 * le_value bs) = b"
  proof -
    have "(256 :: 8 word) * w = 0" for w
      by (rule subst [where P = "\<lambda>z. z * w = 0" and s = 0]) (transfer, simp add: take_bit_eq_mod, simp)
    then show ?thesis by simp
  qed
  ultimately show ?case using Cons by auto
qed simp

lemma first_error_None: "first_error es = None \<longleftrightarrow> set es \<subseteq> {None}"
  by (induction es rule: first_error.induct) auto

lemma range_ok:
  "first_error (range_errors h) = None \<longleftrightarrow>
   0 \<le> eh_len h \<and> eh_len h < 256 ^ 4 \<and> 0 \<le> eh_ver h \<and> eh_ver h < 256 \<and> 0 \<le> eh_ty h \<and> eh_ty h < 256
   \<and> 0 \<le> eh_flags h \<and> eh_flags h < 256 \<and> 0 \<le> eh_channel h \<and> eh_channel h < 256 ^ 2
   \<and> 0 \<le> eh_epoch h \<and> eh_epoch h < 256 ^ 4 \<and> 0 \<le> eh_corr h \<and> eh_corr h < 256 ^ 8"
  by (auto simp: first_error_None range_errors_def requireUint_def MAX_CORRELATION_def)

lemma length_header_bytes [simp]: "length (header_bytes h) = 21"
  by (simp add: header_bytes_def)

lemma field_append: "field_at (length xs + n) w (xs @ ys) = field_at n w ys"
  by (simp add: field_at_def)

lemma header_fields:
  "field_at 0 4 (header_bytes h @ r) = le_value (le_bytes 4 (eh_len h))"
  "field_at 4 1 (header_bytes h @ r) = le_value (le_bytes 1 (eh_ver h))"
  "field_at 5 1 (header_bytes h @ r) = le_value (le_bytes 1 (eh_ty h))"
  "field_at 6 1 (header_bytes h @ r) = le_value (le_bytes 1 (eh_flags h))"
  "field_at 7 2 (header_bytes h @ r) = le_value (le_bytes 2 (eh_channel h))"
  "field_at 9 4 (header_bytes h @ r) = le_value (le_bytes 4 (eh_epoch h))"
  "field_at 13 8 (header_bytes h @ r) = le_value (le_bytes 8 (eh_corr h))"
  unfolding header_bytes_def field_at_def by (simp_all del: le_bytes.simps)

lemma header_of_bytes: "first_error (range_errors h) = None \<Longrightarrow> header_of (header_bytes h @ r) = h"
  unfolding range_ok header_of_def header_fields by (simp add: le_value_bytes del: le_bytes.simps)

lemma bytes_of_header:
  assumes "21 \<le> length bs"
  shows "header_bytes (header_of bs) = take 21 bs"
proof -
  have w: "le_bytes w (field_at i w bs) = take w (drop i bs)" if "i + w \<le> 21" for i w
    using that assms by (simp add: field_at_def le_bytes_value)
  have "take 21 bs = take 4 bs @ take 1 (drop 4 bs) @ take 1 (drop 5 bs) @ take 1 (drop 6 bs) @ take 2 (drop 7 bs)
      @ take 4 (drop 9 bs) @ take 8 (drop 13 bs)"
    using take_add [of 4 17 bs] take_add [of 1 16 "drop 4 bs"] take_add [of 1 15 "drop 5 bs"]
      take_add [of 1 14 "drop 6 bs"] take_add [of 2 12 "drop 7 bs"] take_add [of 4 8 "drop 9 bs"] by simp
  then show ?thesis
    by (simp add: header_bytes_def header_of_def w [of 0, simplified] w del: le_bytes.simps One_nat_def)
qed

lemma decode_encoded:
  assumes e: "encodeHeader h = Inr bs"
  shows "length bs = HEADER_LEN" "decodeHeader (bs @ rest) = Inr h"
proof -
  from e have r: "first_error (range_errors h) = None" and v: "validateHeader h = None" and bs: "bs = header_bytes h"
    by (auto simp: encodeHeader_def split: option.splits)
  have "eh_ver h = PROTOCOL_VERSION" using v by (auto simp: validateHeader_def Let_def split: if_splits)
  moreover have "field_at 4 1 (bs @ rest) = eh_ver h"
    using header_of_bytes [OF r, of rest] bs by (auto simp: header_of_def dest: arg_cong [where f = eh_ver])
  ultimately show "decodeHeader (bs @ rest) = Inr h"
    using header_of_bytes [OF r, of rest] v bs by (simp add: decodeHeader_def HEADER_LEN_def FROZEN_PREFIX_LEN_def)
  show "length bs = HEADER_LEN" by (simp add: bs HEADER_LEN_def)
qed

section \<open>Properties\<close>

text \<open>
  C36: Encoding and decoding are inverse on headers and on the wire: what the encoder accepts is decoded to the
  same header, whatever follows it, and what the decoder accepts is encoded to the very bytes it was
  read from. So both sides accept the same headers, and a header has one encoding.
\<close>

theorem header_roundtrip:
  "(encodeHeader h = Inr bs \<longrightarrow> length bs = HEADER_LEN \<and> decodeHeader (bs @ rest) = Inr h)
   \<and> (decodeHeader bytes = Inr h \<longrightarrow> encodeHeader h = Inr (take HEADER_LEN bytes))"
proof (intro conjI impI)
  assume "encodeHeader h = Inr bs"
  then show "length bs = HEADER_LEN" "decodeHeader (bs @ rest) = Inr h" by (rule decode_encoded)+
next
  assume d: "decodeHeader bytes = Inr h"
  then have n: "21 \<le> length bytes" and v: "validateHeader h = None" and h: "h = header_of bytes"
    by (auto simp: decodeHeader_def HEADER_LEN_def split: if_splits option.splits)
  have f: "0 \<le> field_at i w bytes \<and> field_at i w bytes < 256 ^ w" for i w
  proof -
    have "length (take w (drop i bytes)) \<le> w" by simp
    then have "(256 :: int) ^ length (take w (drop i bytes)) \<le> 256 ^ w" by (intro power_increasing) simp_all
    then show ?thesis using le_value_bounds [of "take w (drop i bytes)"] unfolding field_at_def by linarith
  qed
  have "first_error (range_errors h) = None"
    unfolding range_ok h header_of_def envelope_header.select_convs
    using f [of 0 4] f [of 4 1] f [of 5 1] f [of 6 1] f [of 7 2] f [of 9 4] f [of 13 8] by simp
  then show "encodeHeader h = Inr (take HEADER_LEN bytes)"
    using v bytes_of_header [OF n] by (simp add: encodeHeader_def HEADER_LEN_def h)
qed

definition example_header :: envelope_header where
  "example_header = \<lparr>eh_len = 300, eh_ver = 2, eh_ty = 0, eh_flags = 10, eh_channel = 5, eh_epoch = 1, eh_corr = 77\<rparr>"

lemma example_header_valid: "validateHeader example_header = None"
  by (simp add: validateHeader_def Let_def example_header_def header_flags_def flagsAdmissionClass_def flagsPriority_def
      flag_defs config_simps isPureHeader_def)

lemma example_encodes: "encodeHeader example_header = Inr (header_bytes example_header)"
  using example_header_valid by (simp add: encodeHeader_def range_errors_def requireUint_def example_header_def MAX_CORRELATION_def)

theorem header_roundtrip_witness:
  "decodeHeader (header_bytes example_header @ [7]) = Inr example_header"
  using header_roundtrip [of example_header "header_bytes example_header" "[7]" "[]"] example_encodes by blast

text \<open>
  What the decoder accepts is well typed: a known frame type, a body within the limit and none for the
  pure-header types, an epoch exactly on the routed channels, and the sheddable class only on pushes and
  stream data.
\<close>

theorem decoded_header_is_well_typed:
  assumes "decodeHeader bytes = Inr h"
  shows "(\<exists>ft. eh_ty h = frame_code ft \<and> (ft \<in> {Cancel, Ping, Pong, Goodbye} \<longrightarrow> eh_len h = 0)
            \<and> (flagsAdmissionClass (header_flags h) = admission_code Sheddable \<longrightarrow> ft \<in> {Push, StreamData}))
    \<and> 0 \<le> eh_len h \<and> eh_len h \<le> MAX_FRAME_BODY_LEN \<and> (eh_channel h = 0 \<longleftrightarrow> eh_epoch h = 0)"
proof -
  from assms have v: "validateHeader h = None" and h: "h = header_of bytes"
    by (auto simp: decodeHeader_def split: if_splits option.splits)
  have ty: "0 \<le> eh_ty h" "eh_ty h \<le> 11" "eh_len h \<le> MAX_FRAME_BODY_LEN" "eh_channel h = 0 \<longleftrightarrow> eh_epoch h = 0"
    and pure: "isPureHeader (eh_ty h) \<longrightarrow> eh_len h = 0"
    and shed: "flagsAdmissionClass (header_flags h) = admission_code Sheddable \<longrightarrow> eh_ty h \<in> {frame_code Push, frame_code StreamData}"
    using v by (auto simp: validateHeader_def Let_def FRAME_TYPE_MAX_def split: if_splits)
  have "eh_ty h \<in> frame_code ` set frame_types"
    using ty(1,2) unfolding frame_types_def by simp presburger
  then obtain ft where ft: "eh_ty h = frame_code ft" by blast
  have "ft \<in> {Cancel, Ping, Pong, Goodbye} \<longrightarrow> eh_len h = 0"
    using pure ft by (auto simp: isPureHeader_def)
  moreover have "flagsAdmissionClass (header_flags h) = admission_code Sheddable \<longrightarrow> ft \<in> {Push, StreamData}"
    using shed ft by (cases ft) simp_all
  moreover have "0 \<le> eh_len h" using le_value_bounds by (simp add: h header_of_def field_at_def)
  ultimately show ?thesis using ty ft by blast
qed

theorem decoded_header_is_well_typed_witness:
  "eh_channel example_header = 0 \<longleftrightarrow> eh_epoch example_header = 0"
  using decoded_header_is_well_typed [OF decode_encoded(2) [OF example_encodes, of "[]"]] by blast

text \<open>
  The flag byte keeps its four fields apart: the accessors return what was built, no reserved bit is set.
\<close>

theorem flags_roundtrip:
  "flagsBinary (buildFlags b p l a) = b \<and> flagsPriority (buildFlags b p l a) = priority_code p
   \<and> flagsLast (buildFlags b p l a) = l \<and> flagsAdmissionClass (buildFlags b p l a) = admission_code a
   \<and> buildFlags b p l a AND FLAG_RESERVED_MASK = 0"
  by (cases b; cases l; cases p; cases a)
     (simp_all add: buildFlags_def flagsBinary_def flagsPriority_def flagsLast_def flagsAdmissionClass_def flag_defs Let_def)

end
