(* ===== verification/Tag_Table.thy ===== *)
theory Tag_Table
  imports Tag_Lifecycle Regex_Facts
begin

text \<open>
  The table of tags with everything that is stored in it (\<open>features/magic-context/storage-tags.ts\<close>): its
  rows and unique keys, the single-row writes, the lookups and selections, the sums of token counts, the floor
  from which tags are loaded, and the removal of a message. A write that breaks a unique key fails as a whole and
  leaves the table as it was. The rows stand in the order of their \<open>id\<close>.
\<close>

section \<open>Rows\<close>

record tag_row =
  tr_id :: int
  tr_sessionId :: string
  tr_messageId :: string
  tr_type :: tag_type
  tr_status :: tag_status
  tr_dropMode :: drop_mode
  tr_toolName :: "string option"
  tr_byteSize :: "int option"
  tr_inputByteSize :: "int option"
  tr_reasoningByteSize :: "int option"
  tr_tagNumber :: int
  tr_cavemanDepth :: int
  tr_owner :: "string option"
  tr_fingerprint :: "string option"
  tr_tokenCount :: "int option"
  tr_inputTokenCount :: "int option"
  tr_reasoningTokenCount :: "int option"

record token_counts =
  tk_tokenCount :: "int option"
  tk_inputTokenCount :: "int option"
  tk_reasoningTokenCount :: "int option"

record queued_op =
  qo_id :: int
  qo_sessionId :: string
  qo_tagId :: int
  qo_operation :: string

text \<open>\<open>tb_counters\<close> is the column \<open>counter\<close> of \<open>session_meta\<close>, \<open>None\<close> where the session has no row.\<close>

record tags_db =
  tb_tags :: "tag_row list"
  tb_nextId :: int
  tb_ops :: "queued_op list"
  tb_sources :: "(string \<times> int) list"
  tb_counters :: "string \<rightharpoonup> int"

text \<open>The two unique keys: the number in its session, and the owner of a tool call.\<close>

definition same_number :: "tag_row \<Rightarrow> tag_row \<Rightarrow> bool" where
  "same_number a b \<longleftrightarrow> tr_sessionId a = tr_sessionId b \<and> tr_tagNumber a = tr_tagNumber b"

definition same_call :: "tag_row \<Rightarrow> tag_row \<Rightarrow> bool" where
  "same_call a b \<longleftrightarrow> tr_sessionId a = tr_sessionId b \<and> tr_messageId a = tr_messageId b
     \<and> tr_type a = ToolTag \<and> tr_type b = ToolTag \<and> tr_owner a \<noteq> None \<and> tr_owner a = tr_owner b"

definition unique_rows :: "tag_row list \<Rightarrow> bool" where
  "unique_rows rows \<longleftrightarrow> sorted_wrt (\<lambda>a b. \<not> same_number a b \<and> \<not> same_call a b) rows"

definition put_rows :: "tag_row list \<Rightarrow> tags_db \<Rightarrow> tags_db option" where
  "put_rows rows db = (if unique_rows rows then Some (db\<lparr>tb_tags := rows\<rparr>) else None)"

definition is_tag :: "string \<Rightarrow> int \<Rightarrow> tag_row \<Rightarrow> bool" where
  "is_tag sessionId tagNumber r \<longleftrightarrow> tr_sessionId r = sessionId \<and> tr_tagNumber r = tagNumber"

text \<open>\<open>UPDATE tags SET ... WHERE ...\<close>\<close>

definition update_where :: "(tag_row \<Rightarrow> bool) \<Rightarrow> (tag_row \<Rightarrow> tag_row) \<Rightarrow> tag_row list \<Rightarrow> tag_row list" where
  "update_where P f rows = map (\<lambda>r. if P r then f r else r) rows"

text \<open>The first row of a selection.\<close>

definition first_row :: "(tag_row \<Rightarrow> bool) \<Rightarrow> tags_db \<Rightarrow> tag_row option" where
  "first_row P db = find P (tb_tags db)"

section \<open>Writing\<close>

definition inserted_row ::
  "int \<Rightarrow> string \<Rightarrow> string \<Rightarrow> tag_type \<Rightarrow> int \<Rightarrow> int \<Rightarrow> int \<Rightarrow> string option \<Rightarrow> int \<Rightarrow> string option \<Rightarrow> string option
   \<Rightarrow> token_counts option \<Rightarrow> tag_row" where
  "inserted_row rowId sessionId messageId type byteSize tagNumber reasoningByteSize toolName inputByteSize toolOwnerMessageId
      entryFingerprint tokenCounts =
     \<lparr>tr_id = rowId, tr_sessionId = sessionId, tr_messageId = messageId, tr_type = type,
       tr_status = Active, tr_dropMode = FullDrop, tr_toolName = toolName, tr_byteSize = Some byteSize,
       tr_inputByteSize = Some inputByteSize, tr_reasoningByteSize = Some reasoningByteSize, tr_tagNumber = tagNumber,
       tr_cavemanDepth = 0, tr_owner = toolOwnerMessageId, tr_fingerprint = entryFingerprint,
       tr_tokenCount = Option.bind tokenCounts tk_tokenCount, tr_inputTokenCount = Option.bind tokenCounts tk_inputTokenCount,
       tr_reasoningTokenCount = Option.bind tokenCounts tk_reasoningTokenCount\<rparr>"

definition insertTag ::
  "tags_db \<Rightarrow> string \<Rightarrow> string \<Rightarrow> tag_type \<Rightarrow> int \<Rightarrow> int \<Rightarrow> int \<Rightarrow> string option \<Rightarrow> int \<Rightarrow> string option \<Rightarrow> string option
   \<Rightarrow> token_counts option \<Rightarrow> tags_db option" where
  "insertTag db sessionId messageId type byteSize tagNumber reasoningByteSize toolName inputByteSize toolOwnerMessageId
      entryFingerprint tokenCounts =
     map_option (\<lambda>d. d\<lparr>tb_nextId := tb_nextId db + 1\<rparr>)
       (put_rows (tb_tags db @ [inserted_row (tb_nextId db) sessionId messageId type byteSize tagNumber reasoningByteSize toolName
          inputByteSize toolOwnerMessageId entryFingerprint tokenCounts]) db)"

definition set_columns :: "string \<Rightarrow> int \<Rightarrow> (tag_row \<Rightarrow> tag_row) \<Rightarrow> tags_db \<Rightarrow> tags_db" where
  "set_columns sessionId tagNumber f db = db\<lparr>tb_tags := update_where (is_tag sessionId tagNumber) f (tb_tags db)\<rparr>"

definition updateTagByteSize :: "tags_db \<Rightarrow> string \<Rightarrow> int \<Rightarrow> int \<Rightarrow> tags_db" where
  "updateTagByteSize db sessionId tagNumber newByteSize = set_columns sessionId tagNumber (\<lambda>r. r\<lparr>tr_byteSize := Some newByteSize\<rparr>) db"

definition updateTagInputByteSize :: "tags_db \<Rightarrow> string \<Rightarrow> int \<Rightarrow> int \<Rightarrow> tags_db" where
  "updateTagInputByteSize db sessionId tagNumber newInputByteSize =
     set_columns sessionId tagNumber (\<lambda>r. r\<lparr>tr_inputByteSize := Some newInputByteSize\<rparr>) db"

definition updateTagTokenCount :: "tags_db \<Rightarrow> string \<Rightarrow> int \<Rightarrow> int \<Rightarrow> tags_db" where
  "updateTagTokenCount db sessionId tagNumber newTokenCount =
     set_columns sessionId tagNumber (\<lambda>r. r\<lparr>tr_tokenCount := Some newTokenCount\<rparr>) db"

definition updateTagInputTokenCount :: "tags_db \<Rightarrow> string \<Rightarrow> int \<Rightarrow> int \<Rightarrow> tags_db" where
  "updateTagInputTokenCount db sessionId tagNumber newInputTokenCount =
     set_columns sessionId tagNumber (\<lambda>r. r\<lparr>tr_inputTokenCount := Some newInputTokenCount\<rparr>) db"

definition updateCavemanDepth :: "tags_db \<Rightarrow> string \<Rightarrow> int \<Rightarrow> int \<Rightarrow> tags_db" where
  "updateCavemanDepth db sessionId tagNumber depth = set_columns sessionId tagNumber (\<lambda>r. r\<lparr>tr_cavemanDepth := depth\<rparr>) db"

definition tagTokenCountIsNull :: "tags_db \<Rightarrow> string \<Rightarrow> int \<Rightarrow> bool" where
  "tagTokenCountIsNull db sessionId tagNumber =
     (case first_row (is_tag sessionId tagNumber) db of None \<Rightarrow> False | Some r \<Rightarrow> tr_tokenCount r = None)"

definition backfillTagTokenCounts :: "tags_db \<Rightarrow> string \<Rightarrow> int \<Rightarrow> token_counts \<Rightarrow> tags_db" where
  "backfillTagTokenCounts db sessionId tagNumber counts =
     set_columns sessionId tagNumber (\<lambda>r. if tr_tokenCount r = None
       then r\<lparr>tr_tokenCount := tk_tokenCount counts, tr_inputTokenCount := tk_inputTokenCount counts,
              tr_reasoningTokenCount := tk_reasoningTokenCount counts\<rparr> else r) db"

text \<open>Writes to a key column can break a unique key.\<close>

definition updateTagMessageId :: "tags_db \<Rightarrow> string \<Rightarrow> int \<Rightarrow> string \<Rightarrow> tags_db option" where
  "updateTagMessageId db sessionId tagId messageId =
     put_rows (update_where (is_tag sessionId tagId) (\<lambda>r. r\<lparr>tr_messageId := messageId\<rparr>) (tb_tags db)) db"

text \<open>The update of one row that still has the expected value; the flag says whether it changed a row.\<close>

definition guarded_update ::
  "(tag_row \<Rightarrow> bool) \<Rightarrow> (tag_row \<Rightarrow> tag_row) \<Rightarrow> tags_db \<Rightarrow> (tags_db \<times> bool) option" where
  "guarded_update P f db =
     map_option (\<lambda>d. (d, \<exists>r\<in>set (tb_tags db). P r)) (put_rows (update_where P f (tb_tags db)) db)"

definition adoptFallbackTagMessageId :: "tags_db \<Rightarrow> string \<Rightarrow> int \<Rightarrow> string \<Rightarrow> string \<Rightarrow> (tags_db \<times> bool) option" where
  "adoptFallbackTagMessageId db sessionId tagNumber oldFallbackMessageId newRealMessageId =
     guarded_update (\<lambda>r. is_tag sessionId tagNumber r \<and> tr_messageId r = oldFallbackMessageId)
       (\<lambda>r. r\<lparr>tr_messageId := newRealMessageId\<rparr>) db"

definition adoptNullOwnerToolTag :: "tags_db \<Rightarrow> int \<Rightarrow> string \<Rightarrow> (tags_db \<times> bool) option" where
  "adoptNullOwnerToolTag db rowId ownerMsgId =
     guarded_update (\<lambda>r. tr_id r = rowId \<and> tr_owner r = None) (\<lambda>r. r\<lparr>tr_owner := Some ownerMsgId\<rparr>) db"

text \<open>The counter of a session: raised to at least a value, or reset.\<close>

definition upsert_counter :: "string \<Rightarrow> int \<Rightarrow> tags_db \<Rightarrow> tags_db" where
  "upsert_counter sessionId n db =
     db\<lparr>tb_counters := (tb_counters db)(sessionId \<mapsto>
       (case tb_counters db sessionId of None \<Rightarrow> n | Some old \<Rightarrow> max old n))\<rparr>"

definition reset_counter_row :: "string \<Rightarrow> tags_db \<Rightarrow> tags_db" where
  "reset_counter_row sessionId db = db\<lparr>tb_counters := (tb_counters db)(sessionId \<mapsto> 0)\<rparr>"

section \<open>Looking up\<close>

definition session_rows :: "string \<Rightarrow> tags_db \<Rightarrow> tag_row list" where
  "session_rows sessionId db = filter (\<lambda>r. tr_sessionId r = sessionId) (tb_tags db)"

definition getMaxTagNumberBySession_in :: "tags_db \<Rightarrow> string \<Rightarrow> int" where
  "getMaxTagNumberBySession_in db sessionId =
     (case map tr_tagNumber (session_rows sessionId db) of [] \<Rightarrow> 0 | n # ns \<Rightarrow> fold max ns n)"

definition lowest :: "tag_row list \<Rightarrow> tag_row option" where
  "lowest rows = (case sort_key tr_tagNumber rows of [] \<Rightarrow> None | r # _ \<Rightarrow> Some r)"

definition getTagNumberByMessageId :: "tags_db \<Rightarrow> string \<Rightarrow> string \<Rightarrow> int option" where
  "getTagNumberByMessageId db sessionId messageId =
     map_option tr_tagNumber (lowest (filter (\<lambda>r. tr_messageId r = messageId) (session_rows sessionId db)))"

definition owned_call :: "string \<Rightarrow> string \<Rightarrow> string \<Rightarrow> tag_row \<Rightarrow> bool" where
  "owned_call sessionId callId ownerMsgId r \<longleftrightarrow>
     tr_sessionId r = sessionId \<and> tr_messageId r = callId \<and> tr_type r = ToolTag \<and> tr_owner r = Some ownerMsgId"

definition getToolTagNumberByOwner :: "tags_db \<Rightarrow> string \<Rightarrow> string \<Rightarrow> string \<Rightarrow> int option" where
  "getToolTagNumberByOwner db sessionId callId ownerMsgId =
     map_option tr_tagNumber (first_row (owned_call sessionId callId ownerMsgId) db)"

definition getNullOwnerToolTag :: "tags_db \<Rightarrow> string \<Rightarrow> string \<Rightarrow> (int \<times> int) option" where
  "getNullOwnerToolTag db sessionId callId =
     map_option (\<lambda>r. (tr_id r, tr_tagNumber r))
       (lowest (filter (\<lambda>r. tr_messageId r = callId \<and> tr_type r = ToolTag \<and> tr_owner r = None) (session_rows sessionId db)))"

definition getCandidateToolOwners :: "tags_db \<Rightarrow> string \<Rightarrow> string \<Rightarrow> string list" where
  "getCandidateToolOwners db sessionId callId =
     dedup_first (List.map_filter tr_owner (filter (\<lambda>r. tr_messageId r = callId \<and> tr_type r = ToolTag) (session_rows sessionId db)))"

text \<open>Strings compare code unit by code unit.\<close>

fun str_less :: "string \<Rightarrow> string \<Rightarrow> bool" where
  "str_less s [] = False"
| "str_less [] (b # bs) = True"
| "str_less (a # as) (b # bs) = ((of_char a :: nat) < of_char b \<or> (a = b \<and> str_less as bs))"

text \<open>The nearest candidate that is not later than the current message; at equal times the greater id.\<close>

definition prior_owner :: "string \<Rightarrow> int \<Rightarrow> string \<Rightarrow> int \<Rightarrow> bool" where
  "prior_owner currentMessageId currentTime i t \<longleftrightarrow> \<not> currentTime < t \<and> \<not> (t = currentTime \<and> \<not> str_less i currentMessageId)"

definition better_owner :: "(string \<times> int) option \<Rightarrow> string \<Rightarrow> int \<Rightarrow> bool" where
  "better_owner best i t = (case best of None \<Rightarrow> True | Some (bi, bt) \<Rightarrow> bt < t \<or> (t = bt \<and> str_less bi i))"

definition pickNearestPriorOwner :: "string list \<Rightarrow> string \<Rightarrow> (string \<rightharpoonup> int) \<Rightarrow> string option" where
  "pickNearestPriorOwner candidates currentMessageId message_times =
     (case message_times currentMessageId of
        None \<Rightarrow> None
      | Some currentTime \<Rightarrow>
          map_option fst (foldl (\<lambda>best i. case message_times i of
              None \<Rightarrow> best
            | Some t \<Rightarrow> if prior_owner currentMessageId currentTime i t \<and> better_owner best i t then Some (i, t) else best)
            None candidates))"

section \<open>The table stays well-formed\<close>

text \<open>Ids grow with the rows and numbers are positive.\<close>

definition tags_ok :: "tags_db \<Rightarrow> bool" where
  "tags_ok db \<longleftrightarrow> unique_rows (tb_tags db) \<and> sorted_wrt (\<lambda>a b. tr_id a < tr_id b) (tb_tags db)
     \<and> (\<forall>r\<in>set (tb_tags db). tr_id r < tb_nextId db \<and> 0 < tr_tagNumber r)"

lemma unique_rows_append:
  "unique_rows (rows @ [r]) \<longleftrightarrow> unique_rows rows \<and> (\<forall>x\<in>set rows. \<not> same_number x r \<and> \<not> same_call x r)"
  by (auto simp: unique_rows_def sorted_wrt_append)

lemma same_keys_sym: "same_number a b = same_number b a" "same_call a b = same_call b a"
  by (simp_all add: same_number_def same_call_def) metis+

lemma unique_rowsD:
  assumes "unique_rows rows" "a \<in> set rows" "b \<in> set rows" "same_number a b \<or> same_call a b"
  shows "a = b"
  using assms
proof (induction rows)
  case (Cons r rows)
  then show ?case by (auto simp: unique_rows_def same_keys_sym)
qed simp

lemma unique_number: "tags_ok db \<Longrightarrow> a \<in> set (tb_tags db) \<Longrightarrow> b \<in> set (tb_tags db) \<Longrightarrow>
    tr_sessionId a = tr_sessionId b \<Longrightarrow> tr_tagNumber a = tr_tagNumber b \<Longrightarrow> a = b"
  by (rule unique_rowsD [of "tb_tags db"]) (auto simp: tags_ok_def same_number_def)

lemma unique_id: "tags_ok db \<Longrightarrow> a \<in> set (tb_tags db) \<Longrightarrow> b \<in> set (tb_tags db) \<Longrightarrow> tr_id a = tr_id b \<Longrightarrow> a = b"
proof -
  have "sorted_wrt (\<lambda>a b. tr_id a < tr_id b) rows \<Longrightarrow> a \<in> set rows \<Longrightarrow> b \<in> set rows \<Longrightarrow> tr_id a = tr_id b \<Longrightarrow> a = b" for rows
    by (induction rows) auto
  then show "tags_ok db \<Longrightarrow> a \<in> set (tb_tags db) \<Longrightarrow> b \<in> set (tb_tags db) \<Longrightarrow> tr_id a = tr_id b \<Longrightarrow> a = b"
    by (auto simp: tags_ok_def)
qed

text \<open>The identity of a row; a write that keeps the identities of all rows keeps the table well-formed.\<close>

definition row_key :: "tag_row \<Rightarrow> int \<times> string \<times> int \<times> string \<times> tag_type \<times> string option" where
  "row_key r = (tr_id r, tr_sessionId r, tr_tagNumber r, tr_messageId r, tr_type r, tr_owner r)"

lemma unique_rows_keys:
  assumes "map row_key rows' = map row_key rows"
  shows "unique_rows rows' = unique_rows rows"
proof -
  have "length rows' = length rows" using assms map_eq_imp_length_eq by blast
  moreover have "row_key (rows' ! i) = row_key (rows ! i)" if "i < length rows" for i
    using that assms calculation by (metis nth_map)
  ultimately show ?thesis
    by (simp add: unique_rows_def sorted_wrt_iff_nth_less same_number_def same_call_def row_key_def)
qed

lemma tags_ok_keys:
  assumes "map row_key (tb_tags db') = map row_key (tb_tags db)" "tb_nextId db' = tb_nextId db" "tags_ok db"
  shows "tags_ok db'"
proof -
  have "length (tb_tags db') = length (tb_tags db)" using assms(1) map_eq_imp_length_eq by blast
  moreover have k: "row_key (tb_tags db' ! i) = row_key (tb_tags db ! i)" if "i < length (tb_tags db)" for i
    using that assms(1) calculation by (metis nth_map)
  ultimately show ?thesis using assms unique_rows_keys [OF assms(1)]
    by (auto simp: tags_ok_def sorted_wrt_iff_nth_less row_key_def all_set_conv_all_nth)
qed

lemma set_columns_keys:
  assumes "\<And>r. row_key (f r) = row_key r"
  shows "map row_key (tb_tags (set_columns s n f db)) = map row_key (tb_tags db)"
  using assms by (simp add: set_columns_def update_where_def)

lemma set_columns_ok: "(\<And>r. row_key (f r) = row_key r) \<Longrightarrow> tags_ok db \<Longrightarrow> tags_ok (set_columns s n f db)"
  by (rule tags_ok_keys [OF set_columns_keys]) (auto simp: set_columns_def)

lemmas column_writes = updateTagByteSize_def updateTagInputByteSize_def updateTagTokenCount_def updateTagInputTokenCount_def
  updateCavemanDepth_def backfillTagTokenCounts_def

lemma column_writes_ok:
  assumes "tags_ok db"
  shows "tags_ok (updateTagByteSize db s n v)" "tags_ok (updateTagInputByteSize db s n v)"
    "tags_ok (updateTagTokenCount db s n v)" "tags_ok (updateTagInputTokenCount db s n v)"
    "tags_ok (updateCavemanDepth db s n v)" "tags_ok (backfillTagTokenCounts db s n c)"
  using assms by (auto simp: column_writes row_key_def intro!: set_columns_ok)

lemma put_rows_Some: "put_rows rows db = Some d \<longleftrightarrow> unique_rows rows \<and> d = db\<lparr>tb_tags := rows\<rparr>"
  by (auto simp: put_rows_def)

lemma inserted_row_simps [simp]:
  "tr_id (inserted_row i s m ty b n rb tn ib ow fp tc) = i" "tr_sessionId (inserted_row i s m ty b n rb tn ib ow fp tc) = s"
  "tr_messageId (inserted_row i s m ty b n rb tn ib ow fp tc) = m" "tr_type (inserted_row i s m ty b n rb tn ib ow fp tc) = ty"
  "tr_tagNumber (inserted_row i s m ty b n rb tn ib ow fp tc) = n" "tr_owner (inserted_row i s m ty b n rb tn ib ow fp tc) = ow"
  "tr_status (inserted_row i s m ty b n rb tn ib ow fp tc) = Active"
  by (simp_all add: inserted_row_def)

lemma insert_Some:
  "insertTag db s m ty b n rb tn ib ow fp tc = Some d \<longleftrightarrow>
     unique_rows (tb_tags db @ [inserted_row (tb_nextId db) s m ty b n rb tn ib ow fp tc])
     \<and> d = db\<lparr>tb_tags := tb_tags db @ [inserted_row (tb_nextId db) s m ty b n rb tn ib ow fp tc], tb_nextId := tb_nextId db + 1\<rparr>"
  by (auto simp: insertTag_def put_rows_def)

lemma insert_ok:
  assumes "tags_ok db" "insertTag db s m ty b n rb tn ib ow fp tc = Some d" "0 < n"
  shows "tags_ok d"
  using assms by (auto simp: tags_ok_def insert_Some sorted_wrt_append)

lemma guarded_update_Some:
  "guarded_update P f db = Some (d, c) \<longleftrightarrow> unique_rows (update_where P f (tb_tags db))
     \<and> d = db\<lparr>tb_tags := update_where P f (tb_tags db)\<rparr> \<and> c = (\<exists>r\<in>set (tb_tags db). P r)"
  by (auto simp: guarded_update_def put_rows_Some)

lemma sorted_wrt_update:
  assumes "\<And>r. k (f r) = k r"
  shows "sorted_wrt (\<lambda>a b. k a < (k b :: int)) (update_where P f rows) = sorted_wrt (\<lambda>a b. k a < k b) rows"
proof -
  have "map k (update_where P f rows) = map k rows" using assms by (simp add: update_where_def)
  then show ?thesis using sorted_wrt_map [where R = "(<)" and f = k] by metis
qed

lemma update_ok:
  assumes "tags_ok db" "unique_rows (update_where P f (tb_tags db))" "\<And>r. tr_id (f r) = tr_id r" "\<And>r. tr_tagNumber (f r) = tr_tagNumber r"
  shows "tags_ok (db\<lparr>tb_tags := update_where P f (tb_tags db)\<rparr>)"
proof -
  have "sorted_wrt (\<lambda>a b. tr_id a < tr_id b) (update_where P f (tb_tags db))"
    using assms sorted_wrt_update [where k = tr_id] by (simp add: tags_ok_def)
  then show ?thesis using assms by (auto simp: tags_ok_def update_where_def)
qed

lemma guarded_update_ok:
  assumes "tags_ok db" "guarded_update P f db = Some (d, c)" "\<And>r. tr_id (f r) = tr_id r" "\<And>r. tr_tagNumber (f r) = tr_tagNumber r"
  shows "tags_ok d"
  using assms update_ok [OF assms(1)] by (auto simp: guarded_update_Some)

lemma adopt_null_ok: "tags_ok db \<Longrightarrow> adoptNullOwnerToolTag db i ow = Some (d, c) \<Longrightarrow> tags_ok d"
  unfolding adoptNullOwnerToolTag_def by (erule (1) guarded_update_ok) simp_all

lemma counters_ok [simp]: "tags_ok (upsert_counter s n db) = tags_ok db" "tags_ok (reset_counter_row s db) = tags_ok db"
  by (simp_all add: tags_ok_def upsert_counter_def reset_counter_row_def)

section \<open>What the lookups find\<close>

lemma in_session_rows [simp]: "r \<in> set (session_rows s db) \<longleftrightarrow> r \<in> set (tb_tags db) \<and> tr_sessionId r = s"
  by (auto simp: session_rows_def)

lemma fold_max: "fold max ns (n :: int) = Max (set (n # ns))"
  by (rule Max.set_eq_fold [symmetric])

lemma max_number_ge: "r \<in> set (tb_tags db) \<Longrightarrow> tr_sessionId r = s \<Longrightarrow> tr_tagNumber r \<le> getMaxTagNumberBySession_in db s"
proof -
  assume r: "r \<in> set (tb_tags db)" "tr_sessionId r = s"
  then have "tr_tagNumber r \<in> set (map tr_tagNumber (session_rows s db))" by simp
  then show ?thesis
    unfolding getMaxTagNumberBySession_in_def
    by (cases "map tr_tagNumber (session_rows s db)") (auto simp only: list.case fold_max list.set intro!: Max_ge)
qed

lemma lowest_Some: "lowest rows = Some r \<Longrightarrow> r \<in> set rows"
proof -
  assume "lowest rows = Some r"
  then obtain rs where "sort_key tr_tagNumber rows = r # rs" by (auto simp: lowest_def split: list.splits)
  then show ?thesis using set_sort [of tr_tagNumber rows] by auto
qed

lemma lowest_None: "lowest rows = None \<longleftrightarrow> rows = []"
  by (cases "sort_key tr_tagNumber rows") (auto simp: lowest_def dest: arg_cong [where f = set])

lemma first_row_Some: "first_row P db = Some r \<Longrightarrow> r \<in> set (tb_tags db) \<and> P r"
  by (auto simp: first_row_def find_Some_iff)

lemma first_row_None: "first_row P db = None \<longleftrightarrow> (\<forall>r\<in>set (tb_tags db). \<not> P r)"
  by (auto simp: first_row_def find_None_iff)

end
