(* ===== verification/Tag_Adoption.thy ===== *)
theory Tag_Adoption
  imports Tag_Table
begin

text \<open>
  Rows change their identity (\<open>features/magic-context/storage-tags.ts\<close>): a tag that was stored under a fallback
  id of the Pi harness moves to the real id of its message, and is folded into the row that already has this id when
  there is one; and a removed message takes its tags along. \<open>LIKE\<close> does not tell upper from lower case.
\<close>

section \<open>Patterns\<close>

definition like_prefix :: "string \<Rightarrow> string \<Rightarrow> bool" where
  "like_prefix prefix s = starts_with (to_lower prefix) (to_lower s)"

definition pi_fallback_id :: "string \<Rightarrow> bool" where
  "pi_fallback_id s = like_prefix ''pi-msg-'' s"

definition pi_message_row :: "string \<Rightarrow> tag_row \<Rightarrow> bool" where
  "pi_message_row sessionId r \<longleftrightarrow> tr_sessionId r = sessionId \<and> tr_type r = MessageTag \<and> pi_fallback_id (tr_messageId r)"

definition hasPiFallbackMessageTags :: "tags_db \<Rightarrow> string \<Rightarrow> bool" where
  "hasPiFallbackMessageTags db sessionId = (\<exists>r\<in>set (tb_tags db). pi_message_row sessionId r)"

definition findAdoptableFallbackTags :: "tags_db \<Rightarrow> string \<Rightarrow> string \<Rightarrow> (int \<times> string) list" where
  "findAdoptableFallbackTags db sessionId entryFingerprint =
     map (\<lambda>r. (tr_tagNumber r, tr_messageId r))
       (filter (\<lambda>r. pi_message_row sessionId r \<and> tr_fingerprint r = Some entryFingerprint) (tb_tags db))"

definition pi_owner_row :: "string \<Rightarrow> tag_row \<Rightarrow> bool" where
  "pi_owner_row sessionId r \<longleftrightarrow> tr_sessionId r = sessionId \<and> tr_type r = ToolTag
     \<and> (case tr_owner r of None \<Rightarrow> False | Some ow \<Rightarrow> pi_fallback_id ow)"

definition hasPiFallbackToolOwnerTags :: "tags_db \<Rightarrow> string \<Rightarrow> bool" where
  "hasPiFallbackToolOwnerTags db sessionId = (\<exists>r\<in>set (tb_tags db). pi_owner_row sessionId r)"

definition findPiFallbackToolOwnerTags :: "tags_db \<Rightarrow> string \<Rightarrow> (int \<times> string \<times> string \<times> tag_status) list" where
  "findPiFallbackToolOwnerTags db sessionId =
     map (\<lambda>r. (tr_tagNumber r, tr_messageId r, the (tr_owner r), tr_status r))
       (sort_key tr_tagNumber (filter (pi_owner_row sessionId) (tb_tags db)))"

section \<open>Folding a duplicate into the row that survives\<close>

fun maxNullableNumber :: "int option \<Rightarrow> int option \<Rightarrow> int option" where
  "maxNullableNumber (Some a) (Some b) = Some (max a b)"
| "maxNullableNumber (Some a) None = Some a"
| "maxNullableNumber None b = b"

definition merged_columns :: "tag_row \<Rightarrow> tag_row \<Rightarrow> tag_row \<Rightarrow> tag_row" where
  "merged_columns survivor duplicate r =
     r\<lparr>tr_byteSize := maxNullableNumber (tr_byteSize survivor) (tr_byteSize duplicate),
       tr_reasoningByteSize := maxNullableNumber (tr_reasoningByteSize survivor) (tr_reasoningByteSize duplicate),
       tr_inputByteSize := maxNullableNumber (tr_inputByteSize survivor) (tr_inputByteSize duplicate),
       tr_tokenCount := maxNullableNumber (tr_tokenCount survivor) (tr_tokenCount duplicate),
       tr_inputTokenCount := maxNullableNumber (tr_inputTokenCount survivor) (tr_inputTokenCount duplicate),
       tr_reasoningTokenCount := maxNullableNumber (tr_reasoningTokenCount survivor) (tr_reasoningTokenCount duplicate)\<rparr>"

text \<open>The survivor as the code holds it is updated together with its row.\<close>

definition mergeSizeAndTokenColumnsIntoSurvivor :: "string \<Rightarrow> tag_row \<Rightarrow> tag_row \<Rightarrow> tags_db \<Rightarrow> tag_row \<times> tags_db" where
  "mergeSizeAndTokenColumnsIntoSurvivor sessionId survivor duplicate db =
     (merged_columns survivor duplicate survivor,
      set_columns sessionId (tr_tagNumber survivor) (merged_columns survivor duplicate) db)"

definition applyDroppedStatusIfNeeded :: "string \<Rightarrow> tag_row \<Rightarrow> tag_row \<Rightarrow> tags_db \<Rightarrow> tag_row \<times> tags_db" where
  "applyDroppedStatusIfNeeded sessionId survivor duplicate db =
     (if tr_status survivor = Dropped \<or> tr_status duplicate \<noteq> Dropped then (survivor, db)
      else (survivor\<lparr>tr_status := Dropped\<rparr>, set_columns sessionId (tr_tagNumber survivor) (\<lambda>r. r\<lparr>tr_status := Dropped\<rparr>) db))"

definition op_at :: "string \<Rightarrow> int \<Rightarrow> queued_op \<Rightarrow> bool" where
  "op_at sessionId tagId o' \<longleftrightarrow> qo_sessionId o' = sessionId \<and> qo_tagId o' = tagId"

text \<open>One operation of the duplicate: dropped when the survivor has the same one, moved otherwise.\<close>

definition retarget_one :: "string \<Rightarrow> int \<Rightarrow> queued_op list \<Rightarrow> queued_op \<Rightarrow> queued_op list" where
  "retarget_one sessionId toTagNumber ops row =
     (if \<exists>x\<in>set ops. op_at sessionId toTagNumber x \<and> qo_operation x = qo_operation row
      then filter (\<lambda>x. \<not> (qo_sessionId x = sessionId \<and> qo_id x = qo_id row)) ops
      else map (\<lambda>x. if qo_sessionId x = sessionId \<and> qo_id x = qo_id row then x\<lparr>qo_tagId := toTagNumber\<rparr> else x) ops)"

definition retargetPendingOps :: "string \<Rightarrow> int \<Rightarrow> int \<Rightarrow> tags_db \<Rightarrow> tags_db" where
  "retargetPendingOps sessionId fromTagNumber toTagNumber db =
     (let rows = sort_key qo_id (filter (op_at sessionId fromTagNumber) (tb_ops db));
          ops = foldl (retarget_one sessionId toTagNumber) (tb_ops db) rows
      in db\<lparr>tb_ops := filter (\<lambda>x. \<not> op_at sessionId fromTagNumber x) ops\<rparr>)"

definition deleteFoldedDuplicateTag :: "string \<Rightarrow> int \<Rightarrow> tags_db \<Rightarrow> tags_db" where
  "deleteFoldedDuplicateTag sessionId tagNumber db =
     db\<lparr>tb_sources := filter (\<lambda>x. x \<noteq> (sessionId, tagNumber)) (tb_sources db),
        tb_tags := filter (\<lambda>r. \<not> is_tag sessionId tagNumber r) (tb_tags db),
        tb_ops := filter (\<lambda>x. \<not> op_at sessionId tagNumber x) (tb_ops db)\<rparr>"

definition foldDuplicateIntoSurvivor :: "string \<Rightarrow> tag_row \<Rightarrow> tag_row \<Rightarrow> tags_db \<Rightarrow> tag_row \<times> tags_db" where
  "foldDuplicateIntoSurvivor sessionId survivor duplicate db =
     (let (s1, db1) = mergeSizeAndTokenColumnsIntoSurvivor sessionId survivor duplicate db;
          (s2, db2) = applyDroppedStatusIfNeeded sessionId s1 duplicate db1
      in (s2, deleteFoldedDuplicateTag sessionId (tr_tagNumber duplicate)
                (retargetPendingOps sessionId (tr_tagNumber duplicate) (tr_tagNumber s2) db2)))"

section \<open>Adoption\<close>

datatype adoption = Skipped | Rekeyed int | Folded int "int list"

definition getPiFallbackFoldTagRowByNumber :: "tags_db \<Rightarrow> string \<Rightarrow> int \<Rightarrow> tag_row option" where
  "getPiFallbackFoldTagRowByNumber db sessionId tagNumber = first_row (is_tag sessionId tagNumber) db"

definition getPiFallbackToolFoldTagRowByOwner :: "tags_db \<Rightarrow> string \<Rightarrow> string \<Rightarrow> string \<Rightarrow> tag_row option" where
  "getPiFallbackToolFoldTagRowByOwner db sessionId callId ownerMsgId = first_row (owned_call sessionId callId ownerMsgId) db"

definition getPiFallbackMessageFoldTagRowsByMessageId :: "tags_db \<Rightarrow> string \<Rightarrow> string \<Rightarrow> tag_row list" where
  "getPiFallbackMessageFoldTagRowsByMessageId db sessionId messageId =
     sort_key tr_tagNumber (filter (\<lambda>r. tr_messageId r = messageId \<and> tr_type r = MessageTag) (session_rows sessionId db))"

text \<open>\<open>None\<close> when the update would break a unique key.\<close>

definition rekey :: "(tag_row \<Rightarrow> bool) \<Rightarrow> (tag_row \<Rightarrow> tag_row) \<Rightarrow> int \<Rightarrow> tags_db \<Rightarrow> (tags_db \<times> adoption) option" where
  "rekey P f tagNumber db =
     map_option (\<lambda>(d, changed). (d, if changed then Rekeyed tagNumber else Skipped)) (guarded_update P f db)"

definition adoptPiFallbackToolOwnerTag ::
  "tags_db \<Rightarrow> string \<Rightarrow> int \<Rightarrow> string \<Rightarrow> string \<Rightarrow> string \<Rightarrow> (tags_db \<times> adoption) option" where
  "adoptPiFallbackToolOwnerTag db sessionId tagNumber callId oldOwnerMessageId newOwnerMessageId =
     (case getPiFallbackFoldTagRowByNumber db sessionId tagNumber of
        None \<Rightarrow> Some (db, Skipped)
      | Some survivor \<Rightarrow>
          if tr_type survivor \<noteq> ToolTag \<or> tr_messageId survivor \<noteq> callId \<or> tr_owner survivor \<noteq> Some oldOwnerMessageId
          then Some (db, Skipped)
          else (case getPiFallbackToolFoldTagRowByOwner db sessionId callId newOwnerMessageId of
              None \<Rightarrow> rekey (\<lambda>r. is_tag sessionId tagNumber r \<and> tr_type r = ToolTag \<and> tr_messageId r = callId
                          \<and> tr_owner r = Some oldOwnerMessageId)
                        (\<lambda>r. r\<lparr>tr_owner := Some newOwnerMessageId\<rparr>) tagNumber db
            | Some existing \<Rightarrow>
                if tr_tagNumber existing = tagNumber then Some (db, Skipped)
                else Some (snd (foldDuplicateIntoSurvivor sessionId existing survivor db),
                           Folded (tr_tagNumber existing) [tagNumber])))"

definition adoptPiFallbackMessageTag :: "tags_db \<Rightarrow> string \<Rightarrow> int \<Rightarrow> string \<Rightarrow> string \<Rightarrow> (tags_db \<times> adoption) option" where
  "adoptPiFallbackMessageTag db sessionId tagNumber oldFallbackMessageId newRealMessageId =
     (case getPiFallbackFoldTagRowByNumber db sessionId tagNumber of
        None \<Rightarrow> Some (db, Skipped)
      | Some survivor \<Rightarrow>
          if tr_type survivor \<noteq> MessageTag \<or> tr_messageId survivor \<noteq> oldFallbackMessageId then Some (db, Skipped)
          else (case filter (\<lambda>r. tr_tagNumber r \<noteq> tagNumber) (getPiFallbackMessageFoldTagRowsByMessageId db sessionId newRealMessageId) of
              [] \<Rightarrow> rekey (\<lambda>r. is_tag sessionId tagNumber r \<and> tr_type r = MessageTag \<and> tr_messageId r = oldFallbackMessageId)
                      (\<lambda>r. r\<lparr>tr_messageId := newRealMessageId\<rparr>) tagNumber db
            | realSurvivor # others \<Rightarrow>
                let st0 = foldDuplicateIntoSurvivor sessionId realSurvivor survivor db;
                    st = foldl (\<lambda>st d. foldDuplicateIntoSurvivor sessionId (fst st) d (snd st)) st0 others
                in Some (snd st, Folded (tr_tagNumber realSurvivor) (tagNumber # map tr_tagNumber others))))"

section \<open>Removing a message\<close>

definition escaped_part_of :: "string \<Rightarrow> string \<Rightarrow> bool" where
  "escaped_part_of messageId i \<longleftrightarrow> i = messageId \<or> like_prefix (messageId @ '':p'') i \<or> like_prefix (messageId @ '':file'') i"

definition getOwnerScopedToolTagNumbers :: "tags_db \<Rightarrow> string \<Rightarrow> string \<Rightarrow> int list" where
  "getOwnerScopedToolTagNumbers db sessionId ownerMsgId =
     sort (map tr_tagNumber (filter (\<lambda>r. tr_type r = ToolTag \<and> tr_owner r = Some ownerMsgId) (session_rows sessionId db)))"

definition delete_where :: "(tag_row \<Rightarrow> bool) \<Rightarrow> tags_db \<Rightarrow> tags_db" where
  "delete_where P db = db\<lparr>tb_tags := filter (\<lambda>r. \<not> P r) (tb_tags db)\<rparr>"

definition deleteToolTagsByOwner :: "tags_db \<Rightarrow> string \<Rightarrow> string \<Rightarrow> tags_db" where
  "deleteToolTagsByOwner db sessionId ownerMsgId =
     delete_where (\<lambda>r. tr_sessionId r = sessionId \<and> tr_type r = ToolTag \<and> tr_owner r = Some ownerMsgId) db"

definition deleteTagsByMessageId :: "tags_db \<Rightarrow> string \<Rightarrow> string \<Rightarrow> tags_db \<times> int list" where
  "deleteTagsByMessageId db sessionId messageId =
     (let messageScoped = sort (map tr_tagNumber (filter (\<lambda>r. escaped_part_of messageId (tr_messageId r)) (session_rows sessionId db)));
          ownerScoped = getOwnerScopedToolTagNumbers db sessionId messageId;
          db1 = (if messageScoped = [] then db
                 else delete_where (\<lambda>r. tr_sessionId r = sessionId \<and> escaped_part_of messageId (tr_messageId r)) db);
          db2 = (if ownerScoped = [] then db1 else deleteToolTagsByOwner db1 sessionId messageId)
      in (db2, sort (dedup_first (messageScoped @ ownerScoped))))"

section \<open>Nothing is lost in a fold\<close>

text \<open>Operations: the ids are distinct, and every operation of the duplicate is one of the survivor afterwards.\<close>

definition ops_ok :: "tags_db \<Rightarrow> bool" where
  "ops_ok db \<longleftrightarrow> distinct (map qo_id (tb_ops db))"

lemma distinct_ids: "distinct (map qo_id ops) \<Longrightarrow> x \<in> set ops \<Longrightarrow> y \<in> set ops \<Longrightarrow> qo_id x = qo_id y \<Longrightarrow> x = y"
  by (auto simp: distinct_map inj_on_def)

lemma retarget_one_ids: "distinct (map qo_id ops) \<Longrightarrow> distinct (map qo_id (retarget_one s to ops row))"
proof -
  have "map qo_id (map (\<lambda>x. if qo_sessionId x = s \<and> qo_id x = qo_id row then x\<lparr>qo_tagId := to\<rparr> else x) ops) = map qo_id ops"
    unfolding map_map by (rule map_cong [OF refl]) simp
  then show "distinct (map qo_id ops) \<Longrightarrow> distinct (map qo_id (retarget_one s to ops row))"
    by (simp only: retarget_one_def distinct_map_filter split: if_split) simp
qed

lemma retarget_one_step:
  assumes "distinct (map qo_id ops)" "row \<in> set ops" "op_at s src row" "src \<noteq> to"
  shows "\<exists>x\<in>set (retarget_one s to ops row). op_at s to x \<and> qo_operation x = qo_operation row"
    and "x \<in> set ops \<Longrightarrow> qo_id x \<noteq> qo_id row \<Longrightarrow> x \<in> set (retarget_one s to ops row)"
proof -
  have other: "qo_id x \<noteq> qo_id row" if "x \<in> set ops" "op_at s to x" for x
    using distinct_ids [OF assms(1) that(1) assms(2)] that(2) assms(3,4) by (auto simp: op_at_def)
  show "\<exists>x\<in>set (retarget_one s to ops row). op_at s to x \<and> qo_operation x = qo_operation row"
  proof (cases "\<exists>x\<in>set ops. op_at s to x \<and> qo_operation x = qo_operation row")
    case True
    then obtain x where "x \<in> set ops" "op_at s to x" "qo_operation x = qo_operation row" by blast
    with other [of x] True show ?thesis by (auto simp: retarget_one_def)
  next
    case False
    then have e: "retarget_one s to ops row = map (\<lambda>x. if qo_sessionId x = s \<and> qo_id x = qo_id row then x\<lparr>qo_tagId := to\<rparr> else x) ops"
      unfolding retarget_one_def by (rule if_not_P)
    have "row\<lparr>qo_tagId := to\<rparr> \<in> set (retarget_one s to ops row)"
      unfolding e set_map using assms(2,3) by (intro image_eqI [of _ _ row]) (simp_all add: op_at_def)
    then show ?thesis using assms(3) by (intro bexI [of _ "row\<lparr>qo_tagId := to\<rparr>"]) (simp_all add: op_at_def)
  qed
  show "x \<in> set (retarget_one s to ops row)" if "x \<in> set ops" "qo_id x \<noteq> qo_id row"
    using that by (auto simp: retarget_one_def image_iff intro!: bexI [of _ x])
qed

lemma retarget_fold:
  assumes "distinct (map qo_id ops)" "distinct (map qo_id rows)" "\<forall>r\<in>set rows. r \<in> set ops \<and> op_at s src r" "src \<noteq> to"
  shows "distinct (map qo_id (foldl (retarget_one s to) ops rows))
    \<and> (\<forall>x\<in>set ops. qo_id x \<notin> qo_id ` set rows \<longrightarrow> x \<in> set (foldl (retarget_one s to) ops rows))
    \<and> (\<forall>r\<in>set rows. \<exists>x\<in>set (foldl (retarget_one s to) ops rows). op_at s to x \<and> qo_operation x = qo_operation r)"
  using assms(1-3)
proof (induction rows arbitrary: ops)
  case (Cons row rows)
  let ?ops = "retarget_one s to ops row"
  have row: "row \<in> set ops" "op_at s src row" using Cons.prems by simp_all
  note step = retarget_one_step [OF Cons.prems(1) row assms(4)]
  have dist: "distinct (map qo_id ?ops)" by (rule retarget_one_ids [OF Cons.prems(1)])
  have in': "\<forall>r\<in>set rows. r \<in> set ?ops \<and> op_at s src r"
  proof
    fix r assume r: "r \<in> set rows"
    then have "qo_id r \<in> qo_id ` set rows" by (rule imageI)
    then have "qo_id r \<noteq> qo_id row" using Cons.prems(2) by auto
    with r Cons.prems(3) step(2) show "r \<in> set ?ops \<and> op_at s src r" by simp
  qed
  have drows: "distinct (map qo_id rows)" using Cons.prems(2) by simp
  note ih = Cons.IH [OF dist drows in']
  have "qo_id y \<notin> qo_id ` set rows" if "y \<in> set ?ops" "op_at s to y" for y
  proof
    assume "qo_id y \<in> qo_id ` set rows"
    then obtain r where "r \<in> set rows" "qo_id r = qo_id y" by auto
    then have "r = y" using distinct_ids [OF dist _ that(1)] in' by blast
    with in' \<open>r \<in> set rows\<close> that(2) assms(4) show False by (auto simp: op_at_def)
  qed
  then have "\<exists>x\<in>set (foldl (retarget_one s to) ?ops rows). op_at s to x \<and> qo_operation x = qo_operation row"
    using step(1) ih by blast
  moreover have "\<forall>x\<in>set ops. qo_id x \<notin> qo_id ` set (row # rows) \<longrightarrow> x \<in> set (foldl (retarget_one s to) ?ops rows)"
    using step(2) ih by auto
  ultimately show ?case using ih by simp
qed simp

lemma retarget_keeps:
  assumes "ops_ok db" "src \<noteq> to"
  shows "ops_ok (retargetPendingOps s src to db)"
    and "x \<in> set (tb_ops db) \<Longrightarrow> op_at s src x \<or> op_at s to x \<Longrightarrow>
      \<exists>y\<in>set (tb_ops (retargetPendingOps s src to db)). op_at s to y \<and> qo_operation y = qo_operation x"
    and "x \<in> set (tb_ops db) \<Longrightarrow> \<not> op_at s src x \<Longrightarrow> x \<in> set (tb_ops (retargetPendingOps s src to db))"
    and "\<forall>x\<in>set (tb_ops (retargetPendingOps s src to db)). \<not> op_at s src x"
proof -
  let ?rows = "sort_key qo_id (filter (op_at s src) (tb_ops db))"
  let ?ops = "foldl (retarget_one s to) (tb_ops db) ?rows"
  have "distinct (map qo_id ?rows)"
    using assms(1) by (simp add: ops_ok_def distinct_map inj_on_def)
  moreover have "\<forall>r\<in>set ?rows. r \<in> set (tb_ops db) \<and> op_at s src r" by simp
  ultimately have f: "distinct (map qo_id ?ops)"
    "\<And>x. x \<in> set (tb_ops db) \<Longrightarrow> qo_id x \<notin> qo_id ` set ?rows \<Longrightarrow> x \<in> set ?ops"
    "\<And>r. r \<in> set ?rows \<Longrightarrow> \<exists>x\<in>set ?ops. op_at s to x \<and> qo_operation x = qo_operation r"
    using retarget_fold [OF assms(1) [unfolded ops_ok_def] _ _ assms(2), of ?rows s] by (simp_all only: simp_thms)
  have e: "tb_ops (retargetPendingOps s src to db) = filter (\<lambda>x. \<not> op_at s src x) ?ops" by (simp add: retargetPendingOps_def Let_def)
  show "ops_ok (retargetPendingOps s src to db)" using f(1) by (simp add: ops_ok_def e distinct_map_filter)
  have keep: "x \<in> set ?ops" if "x \<in> set (tb_ops db)" "\<not> op_at s src x" for x
  proof (rule f(2) [OF that(1)])
    show "qo_id x \<notin> qo_id ` set ?rows"
      using distinct_ids [OF assms(1) [unfolded ops_ok_def] that(1)] that(2) by auto
  qed
  then show "x \<in> set (tb_ops db) \<Longrightarrow> \<not> op_at s src x \<Longrightarrow> x \<in> set (tb_ops (retargetPendingOps s src to db))" by (simp add: e)
  show "\<forall>x\<in>set (tb_ops (retargetPendingOps s src to db)). \<not> op_at s src x" by (simp add: e)
  have away: "\<not> op_at s src x" if "op_at s to x" for x using that assms(2) by (auto simp: op_at_def)
  show "\<exists>y\<in>set (tb_ops (retargetPendingOps s src to db)). op_at s to y \<and> qo_operation y = qo_operation x"
    if x: "x \<in> set (tb_ops db)" and at: "op_at s src x \<or> op_at s to x"
  proof (cases "op_at s src x")
    case True
    then obtain y where "y \<in> set ?ops" "op_at s to y" "qo_operation y = qo_operation x" using f(3) [of x] x True by auto
    then show ?thesis using away by (auto simp: e)
  next
    case False
    then show ?thesis using keep x at away by (auto simp: e)
  qed
qed

text \<open>Sizes and token counts of the survivor cover those of the duplicate.\<close>

definition column_le :: "int option \<Rightarrow> int option \<Rightarrow> bool" where
  "column_le x y \<longleftrightarrow> (case x of None \<Rightarrow> True | Some v \<Rightarrow> (case y of None \<Rightarrow> False | Some w \<Rightarrow> v \<le> w))"

definition covers :: "tag_row \<Rightarrow> tag_row \<Rightarrow> bool" where
  "covers r b \<longleftrightarrow> column_le (tr_byteSize b) (tr_byteSize r) \<and> column_le (tr_reasoningByteSize b) (tr_reasoningByteSize r)
     \<and> column_le (tr_inputByteSize b) (tr_inputByteSize r) \<and> column_le (tr_tokenCount b) (tr_tokenCount r)
     \<and> column_le (tr_inputTokenCount b) (tr_inputTokenCount r) \<and> column_le (tr_reasoningTokenCount b) (tr_reasoningTokenCount r)
     \<and> (tr_status b = Dropped \<longrightarrow> tr_status r = Dropped)"

lemma column_le_max: "column_le a (maxNullableNumber a b)" "column_le b (maxNullableNumber a b)"
  by (cases a; cases b; simp add: column_le_def)+

lemma column_le_refl [simp]: "column_le x x"
  by (simp add: column_le_def split: option.splits)

lemma column_le_trans: "column_le x y \<Longrightarrow> column_le y z \<Longrightarrow> column_le x z"
  by (auto simp: column_le_def split: option.splits)

lemma covers_refl [simp]: "covers r r"
  by (simp add: covers_def)

lemma covers_trans: "covers c b \<Longrightarrow> covers b a \<Longrightarrow> covers c a"
  unfolding covers_def by (blast intro: column_le_trans)

definition folded_row :: "tag_row \<Rightarrow> tag_row \<Rightarrow> tag_row" where
  "folded_row a b = (let m = merged_columns a b a in if tr_status a \<noteq> Dropped \<and> tr_status b = Dropped then m\<lparr>tr_status := Dropped\<rparr> else m)"

lemma folded_row_covers: "covers (folded_row a b) a" "covers (folded_row a b) b"
  by (simp_all add: covers_def folded_row_def merged_columns_def Let_def column_le_max)

lemma folded_row_key [simp]: "row_key (folded_row a b) = row_key a"
  by (simp add: folded_row_def merged_columns_def Let_def row_key_def)

lemma is_tag_only: "tags_ok db \<Longrightarrow> a \<in> set (tb_tags db) \<Longrightarrow> r \<in> set (tb_tags db) \<Longrightarrow> is_tag (tr_sessionId a) (tr_tagNumber a) r \<longleftrightarrow> r = a"
  using unique_number by (auto simp: is_tag_def)

lemma fold_result:
  assumes "tags_ok db" "a \<in> set (tb_tags db)" "tr_sessionId a = s"
  shows "fst (foldDuplicateIntoSurvivor s a b db) = folded_row a b"
    and "tb_tags (snd (foldDuplicateIntoSurvivor s a b db)) =
      filter (\<lambda>r. \<not> is_tag s (tr_tagNumber b) r) (map (\<lambda>r. if r = a then folded_row a b else r) (tb_tags db))"
    and "tb_ops (snd (foldDuplicateIntoSurvivor s a b db)) =
      filter (\<lambda>x. \<not> op_at s (tr_tagNumber b) x) (tb_ops (retargetPendingOps s (tr_tagNumber b) (tr_tagNumber a) db))"
    and "tb_nextId (snd (foldDuplicateIntoSurvivor s a b db)) = tb_nextId db"
proof -
  have only: "is_tag s (tr_tagNumber a) r \<longleftrightarrow> r = a" if "r \<in> set (tb_tags db)" for r
    using is_tag_only [OF assms(1,2) that] assms(3) by simp
  have a: "is_tag s (tr_tagNumber a) a" using assms(3) by (simp add: is_tag_def)
  have keep [simp]: "is_tag s k (merged_columns x y r) = is_tag s k r" for k x y r by (simp add: is_tag_def merged_columns_def)
  have num [simp]: "tr_tagNumber (merged_columns x y r) = tr_tagNumber r" "tr_status (merged_columns x y r) = tr_status r" for x y r
    by (simp_all add: merged_columns_def)
  show "fst (foldDuplicateIntoSurvivor s a b db) = folded_row a b"
    by (simp add: foldDuplicateIntoSurvivor_def mergeSizeAndTokenColumnsIntoSurvivor_def applyDroppedStatusIfNeeded_def folded_row_def Let_def)
  show "tb_nextId (snd (foldDuplicateIntoSurvivor s a b db)) = tb_nextId db"
    by (simp add: foldDuplicateIntoSurvivor_def mergeSizeAndTokenColumnsIntoSurvivor_def applyDroppedStatusIfNeeded_def set_columns_def
        deleteFoldedDuplicateTag_def retargetPendingOps_def Let_def)
  show "tb_ops (snd (foldDuplicateIntoSurvivor s a b db)) =
      filter (\<lambda>x. \<not> op_at s (tr_tagNumber b) x) (tb_ops (retargetPendingOps s (tr_tagNumber b) (tr_tagNumber a) db))"
    by (simp add: foldDuplicateIntoSurvivor_def mergeSizeAndTokenColumnsIntoSurvivor_def applyDroppedStatusIfNeeded_def set_columns_def
        deleteFoldedDuplicateTag_def retargetPendingOps_def Let_def)
  have "update_where (is_tag s (tr_tagNumber a)) (merged_columns a b) (tb_tags db) = map (\<lambda>r. if r = a then merged_columns a b a else r) (tb_tags db)"
    unfolding update_where_def using only by (intro map_cong [OF refl]) auto
  moreover have "update_where (is_tag s (tr_tagNumber a)) (\<lambda>r. r\<lparr>tr_status := Dropped\<rparr>) (map (\<lambda>r. if r = a then merged_columns a b a else r) (tb_tags db))
      = map (\<lambda>r. if r = a then (merged_columns a b a)\<lparr>tr_status := Dropped\<rparr> else r) (tb_tags db)"
    unfolding update_where_def map_map o_def using only a by (intro map_cong [OF refl]) auto
  moreover have "folded_row a b = (if tr_status a \<noteq> Dropped \<and> tr_status b = Dropped
      then (merged_columns a b a)\<lparr>tr_status := Dropped\<rparr> else merged_columns a b a)"
    by (simp add: folded_row_def Let_def)
  ultimately show "tb_tags (snd (foldDuplicateIntoSurvivor s a b db)) =
      filter (\<lambda>r. \<not> is_tag s (tr_tagNumber b) r) (map (\<lambda>r. if r = a then folded_row a b else r) (tb_tags db))"
    by (cases "tr_status a \<noteq> Dropped \<and> tr_status b = Dropped") (auto simp: foldDuplicateIntoSurvivor_def mergeSizeAndTokenColumnsIntoSurvivor_def applyDroppedStatusIfNeeded_def set_columns_def
        deleteFoldedDuplicateTag_def retargetPendingOps_def Let_def cong del: if_weak_cong)
qed

lemma tags_ok_filter: "tags_ok db \<Longrightarrow> tags_ok (db\<lparr>tb_tags := filter P (tb_tags db)\<rparr>)"
  by (auto simp: tags_ok_def unique_rows_def sorted_wrt_filter)

lemma tags_ok_rows: "tags_ok db' \<longleftrightarrow> tags_ok (db\<lparr>tb_tags := tb_tags db', tb_nextId := tb_nextId db'\<rparr>)"
  by (simp add: tags_ok_def)

lemma fold_ok:
  assumes "tags_ok db" "ops_ok db" "a \<in> set (tb_tags db)" "tr_sessionId a = s" "b \<in> set (tb_tags db)" "tr_sessionId b = s"
    and "tr_tagNumber a \<noteq> tr_tagNumber b"
  defines "d \<equiv> snd (foldDuplicateIntoSurvivor s a b db)"
  shows "tags_ok d" "ops_ok d" "folded_row a b \<in> set (tb_tags d)"
    and "\<forall>r\<in>set (tb_tags d). \<not> is_tag s (tr_tagNumber b) r"
    and "\<forall>r\<in>set (tb_tags db). r \<noteq> a \<and> r \<noteq> b \<longrightarrow> r \<in> set (tb_tags d)"
    and "\<forall>x\<in>set (tb_ops db). op_at s (tr_tagNumber a) x \<or> op_at s (tr_tagNumber b) x \<longrightarrow>
      (\<exists>y\<in>set (tb_ops d). op_at s (tr_tagNumber a) y \<and> qo_operation y = qo_operation x)"
    and "\<forall>x\<in>set (tb_ops db). \<not> op_at s (tr_tagNumber b) x \<longrightarrow> x \<in> set (tb_ops d)"
    and "\<forall>r\<in>set (tb_tags d). r = folded_row a b \<or> r \<in> set (tb_tags db)"
proof -
  note r = fold_result [OF assms(1,3,4), of b, folded d_def]
  let ?g = "\<lambda>r. if r = a then folded_row a b else r"
  have "map row_key (map ?g (tb_tags db)) = map row_key (tb_tags db)" unfolding map_map by (rule map_cong [OF refl]) simp
  then have "tags_ok (db\<lparr>tb_tags := map ?g (tb_tags db)\<rparr>)" by (intro tags_ok_keys [OF _ _ assms(1)]) simp_all
  from tags_ok_filter [OF this, of "\<lambda>r. \<not> is_tag s (tr_tagNumber b) r"] show "tags_ok d"
    using r(2,4) by (simp add: tags_ok_def)
  have keys: "tr_tagNumber (folded_row a b) = tr_tagNumber a" "tr_sessionId (folded_row a b) = tr_sessionId a"
    using folded_row_key [of a b] by (simp_all add: row_key_def)
  have "?g a \<in> set (map ?g (tb_tags db))" using assms(3) by (simp only: set_map) (rule imageI)
  then show "folded_row a b \<in> set (tb_tags d)" unfolding r(2) set_filter using keys assms(7) by (simp add: is_tag_def)
  show "\<forall>r\<in>set (tb_tags d). \<not> is_tag s (tr_tagNumber b) r" by (simp add: r(2))
  show "\<forall>r\<in>set (tb_tags db). r \<noteq> a \<and> r \<noteq> b \<longrightarrow> r \<in> set (tb_tags d)"
  proof (intro ballI impI)
    fix x assume x: "x \<in> set (tb_tags db)" "x \<noteq> a \<and> x \<noteq> b"
    then have "\<not> is_tag s (tr_tagNumber b) x" using is_tag_only [OF assms(1,5) x(1)] assms(6) by simp
    moreover have "?g x \<in> ?g ` set (tb_tags db)" using x(1) by (rule imageI)
    ultimately show "x \<in> set (tb_tags d)" unfolding r(2) set_filter set_map using x(2) by simp
  qed
  show "\<forall>r\<in>set (tb_tags d). r = folded_row a b \<or> r \<in> set (tb_tags db)" by (auto simp: r(2))
  note k = retarget_keeps [OF assms(2), where src = "tr_tagNumber b" and to = "tr_tagNumber a" and s = s]
  have o: "tb_ops d = tb_ops (retargetPendingOps s (tr_tagNumber b) (tr_tagNumber a) db)"
    unfolding r(3) using k(4) assms(7) by (intro filter_True) auto
  show "ops_ok d" using k(1) assms(7) o by (simp add: ops_ok_def)
  show "\<forall>x\<in>set (tb_ops db). op_at s (tr_tagNumber a) x \<or> op_at s (tr_tagNumber b) x \<longrightarrow>
      (\<exists>y\<in>set (tb_ops d). op_at s (tr_tagNumber a) y \<and> qo_operation y = qo_operation x)"
    unfolding o using k(2) [OF not_sym [OF assms(7)]] by blast
  show "\<forall>x\<in>set (tb_ops db). \<not> op_at s (tr_tagNumber b) x \<longrightarrow> x \<in> set (tb_ops d)"
    unfolding o using k(3) [OF not_sym [OF assms(7)]] by blast
qed

text \<open>Several duplicates, one after the other.\<close>

definition fold_all :: "string \<Rightarrow> tag_row \<Rightarrow> tag_row list \<Rightarrow> tags_db \<Rightarrow> tag_row \<times> tags_db" where
  "fold_all s a bs db = foldl (\<lambda>st b. foldDuplicateIntoSurvivor s (fst st) b (snd st)) (a, db) bs"

definition nothing_lost :: "string \<Rightarrow> tag_row \<Rightarrow> tag_row list \<Rightarrow> tags_db \<Rightarrow> tag_row \<Rightarrow> tags_db \<Rightarrow> bool" where
  "nothing_lost s a bs db a' d \<longleftrightarrow>
     tags_ok d \<and> ops_ok d \<and> a' \<in> set (tb_tags d) \<and> row_key a' = row_key a \<and> (\<forall>b\<in>set (a # bs). covers a' b)
     \<and> (\<forall>b\<in>set bs. \<forall>r\<in>set (tb_tags d). \<not> is_tag s (tr_tagNumber b) r)
     \<and> (\<forall>r\<in>set (tb_tags db). r \<noteq> a \<and> r \<notin> set bs \<longrightarrow> r \<in> set (tb_tags d))
     \<and> row_key ` set (tb_tags d) \<subseteq> row_key ` set (tb_tags db)
     \<and> (\<forall>x\<in>set (tb_ops db). (\<exists>b\<in>set (a # bs). op_at s (tr_tagNumber b) x) \<longrightarrow>
          (\<exists>y\<in>set (tb_ops d). op_at s (tr_tagNumber a) y \<and> qo_operation y = qo_operation x))"

lemma fold_all_ok:
  assumes "tags_ok db" "ops_ok db" "a \<in> set (tb_tags db)" "tr_sessionId a = s" "distinct bs"
    and "\<forall>b\<in>set bs. b \<in> set (tb_tags db) \<and> tr_sessionId b = s \<and> tr_tagNumber b \<noteq> tr_tagNumber a"
  shows "nothing_lost s a bs db (fst (fold_all s a bs db)) (snd (fold_all s a bs db))"
  using assms
proof (induction bs arbitrary: a db)
  case Nil
  then show ?case by (auto simp: nothing_lost_def fold_all_def)
next
  case (Cons b bs)
  have b: "b \<in> set (tb_tags db)" "tr_sessionId b = s" "tr_tagNumber a \<noteq> tr_tagNumber b" using Cons.prems(6) by auto
  let ?a = "folded_row a b" and ?d = "snd (foldDuplicateIntoSurvivor s a b db)"
  note f = fold_ok [OF Cons.prems(1-4) b]
  have key: "tr_sessionId ?a = tr_sessionId a" "tr_tagNumber ?a = tr_tagNumber a" using folded_row_key [of a b] by (simp_all add: row_key_def)
  have rest: "\<forall>x\<in>set bs. x \<in> set (tb_tags ?d) \<and> tr_sessionId x = s \<and> tr_tagNumber x \<noteq> tr_tagNumber ?a"
  proof
    fix x assume x: "x \<in> set bs"
    then have "x \<noteq> b" "x \<noteq> a" using Cons.prems(5,6) by auto
    with x Cons.prems(6) f(5) key show "x \<in> set (tb_tags ?d) \<and> tr_sessionId x = s \<and> tr_tagNumber x \<noteq> tr_tagNumber ?a" by auto
  qed
  have e: "fold_all s a (b # bs) db = fold_all s ?a bs ?d"
    using fold_result(1) [OF Cons.prems(1,3,4), of b] unfolding fold_all_def
    by (metis (no_types, lifting) foldl_Cons fst_conv prod.collapse snd_conv)
  have "nothing_lost s ?a bs ?d (fst (fold_all s ?a bs ?d)) (snd (fold_all s ?a bs ?d))"
    by (rule Cons.IH [OF f(1-3)]) (use Cons.prems(4,5) key rest in simp_all)
  then have ih: "tags_ok (snd (fold_all s ?a bs ?d))" "ops_ok (snd (fold_all s ?a bs ?d))"
    "fst (fold_all s ?a bs ?d) \<in> set (tb_tags (snd (fold_all s ?a bs ?d)))" "row_key (fst (fold_all s ?a bs ?d)) = row_key ?a"
    "\<forall>x\<in>set (?a # bs). covers (fst (fold_all s ?a bs ?d)) x"
    "\<forall>x\<in>set bs. \<forall>r\<in>set (tb_tags (snd (fold_all s ?a bs ?d))). \<not> is_tag s (tr_tagNumber x) r"
    "\<forall>r\<in>set (tb_tags ?d). r \<noteq> ?a \<and> r \<notin> set bs \<longrightarrow> r \<in> set (tb_tags (snd (fold_all s ?a bs ?d)))"
    "\<forall>x\<in>set (tb_ops ?d). (\<exists>y\<in>set (?a # bs). op_at s (tr_tagNumber y) x) \<longrightarrow>
          (\<exists>y\<in>set (tb_ops (snd (fold_all s ?a bs ?d))). op_at s (tr_tagNumber ?a) y \<and> qo_operation y = qo_operation x)"
    unfolding nothing_lost_def by blast+
  have keys: "row_key ` set (tb_tags (snd (fold_all s ?a bs ?d))) \<subseteq> row_key ` set (tb_tags ?d)"
    using \<open>nothing_lost s ?a bs ?d _ _\<close> unfolding nothing_lost_def by blast
  have dkeys: "row_key ` set (tb_tags ?d) \<subseteq> row_key ` set (tb_tags db)"
  proof (rule image_subsetI)
    fix r assume "r \<in> set (tb_tags ?d)"
    then show "row_key r \<in> row_key ` set (tb_tags db)" using f(8) Cons.prems(3) folded_row_key [of a b] by (metis imageI)
  qed
  have gone: "\<not> is_tag s (tr_tagNumber b) r" if r: "r \<in> set (tb_tags (snd (fold_all s ?a bs ?d)))" for r
  proof -
    obtain r' where "r' \<in> set (tb_tags ?d)" "row_key r = row_key r'" using keys r by blast
    then show ?thesis using f(4) by (auto simp: is_tag_def row_key_def)
  qed
  have others: "r \<in> set (tb_tags (snd (fold_all s ?a bs ?d)))" if r: "r \<in> set (tb_tags db)" "r \<noteq> a" "r \<notin> set (b # bs)" for r
  proof -
    have "r \<noteq> ?a" using unique_number [OF Cons.prems(1) r(1) Cons.prems(3)] key r(2) by auto
    moreover have "r \<in> set (tb_tags ?d)" using f(5) r by auto
    ultimately show ?thesis using ih(7) r(3) by simp
  qed
  have ops: "\<exists>y\<in>set (tb_ops (snd (fold_all s ?a bs ?d))). op_at s (tr_tagNumber a) y \<and> qo_operation y = qo_operation x"
    if x: "x \<in> set (tb_ops db)" "c \<in> set (a # b # bs)" "op_at s (tr_tagNumber c) x" for x c
  proof (cases "op_at s (tr_tagNumber a) x \<or> op_at s (tr_tagNumber b) x")
    case True
    then obtain y where y: "y \<in> set (tb_ops ?d)" "op_at s (tr_tagNumber ?a) y" "qo_operation y = qo_operation x"
      using f(6) x(1) key by auto
    then show ?thesis using ih(8) key by force
  next
    case False
    then have "x \<in> set (tb_ops ?d)" "c \<in> set bs" using f(7) x by auto
    then show ?thesis using ih(8) x(3) key by force
  qed
  have cov: "covers (fst (fold_all s ?a bs ?d)) x" if "x \<in> set (a # b # bs)" for x
    using that ih(5) folded_row_covers covers_trans by (metis list.set_intros set_ConsD)
  show ?case
    unfolding nothing_lost_def e
  proof (intro conjI)
    show "\<forall>x\<in>set (b # bs). \<forall>r\<in>set (tb_tags (snd (fold_all s ?a bs ?d))). \<not> is_tag s (tr_tagNumber x) r"
      using gone ih(6) by simp
    show "\<forall>r\<in>set (tb_tags db). r \<noteq> a \<and> r \<notin> set (b # bs) \<longrightarrow> r \<in> set (tb_tags (snd (fold_all s ?a bs ?d)))"
      using others by blast
    show "row_key ` set (tb_tags (snd (fold_all s ?a bs ?d))) \<subseteq> row_key ` set (tb_tags db)" using keys dkeys by (rule subset_trans)
    show "\<forall>x\<in>set (tb_ops db). (\<exists>c\<in>set (a # b # bs). op_at s (tr_tagNumber c) x) \<longrightarrow>
        (\<exists>y\<in>set (tb_ops (snd (fold_all s ?a bs ?d))). op_at s (tr_tagNumber a) y \<and> qo_operation y = qo_operation x)"
      using ops by blast
  qed (use ih(1-4) cov in simp_all)
qed

text \<open>
  C20: Nothing is lost when a tag under a fallback id is folded into the tag of the real message: one row stays, its
  sizes and token counts cover those of every row that goes, it is dropped when any of them was, every operation
  queued for any of them is queued for it, all other rows are as before, and the table stays well-formed.
\<close>

theorem folding_loses_nothing:
  assumes "tags_ok db" "ops_ok db"
    and "adoptPiFallbackToolOwnerTag db s n c old new = Some (d, Folded k ns) \<or> adoptPiFallbackMessageTag db s n old new = Some (d, Folded k ns)"
  shows "\<exists>a bs a'. is_tag s k a \<and> ns = map tr_tagNumber bs \<and> n \<in> set ns \<and> nothing_lost s a bs db a' d"
  using assms(3)
proof
  assume t: "adoptPiFallbackToolOwnerTag db s n c old new = Some (d, Folded k ns)"
  then obtain b a where b: "first_row (is_tag s n) db = Some b" and a: "first_row (owned_call s c new) db = Some a"
    and num: "tr_tagNumber a \<noteq> n" and d: "d = snd (foldDuplicateIntoSurvivor s a b db)" "k = tr_tagNumber a" "ns = [n]"
    by (auto simp: adoptPiFallbackToolOwnerTag_def getPiFallbackFoldTagRowByNumber_def getPiFallbackToolFoldTagRowByOwner_def rekey_def
        split: option.splits if_splits)
  have "nothing_lost s a [b] db (fst (fold_all s a [b] db)) (snd (fold_all s a [b] db))"
    by (rule fold_all_ok [OF assms(1,2)])
      (use first_row_Some [OF a] first_row_Some [OF b] num in \<open>auto simp: owned_call_def is_tag_def\<close>)
  then have "nothing_lost s a [b] db (fst (fold_all s a [b] db)) d" by (simp add: fold_all_def d)
  moreover have "is_tag s k a" "ns = map tr_tagNumber [b]" using first_row_Some [OF a] first_row_Some [OF b] d by (auto simp: owned_call_def is_tag_def)
  ultimately show ?thesis using d(3) by (intro exI conjI) auto
next
  assume t: "adoptPiFallbackMessageTag db s n old new = Some (d, Folded k ns)"
  let ?rows = "filter (\<lambda>r. tr_tagNumber r \<noteq> n) (getPiFallbackMessageFoldTagRowsByMessageId db s new)"
  obtain b a others where b: "first_row (is_tag s n) db = Some b" and rows: "?rows = a # others"
    and old: "tr_messageId b = old" "tr_type b = MessageTag"
    and d: "d = snd (fold_all s a (b # others) db)" "k = tr_tagNumber a" "ns = n # map tr_tagNumber others"
    using t by (auto simp: adoptPiFallbackMessageTag_def getPiFallbackFoldTagRowByNumber_def rekey_def fold_all_def Let_def
        split: option.splits if_splits list.splits)
  have in': "r \<in> set (tb_tags db) \<and> tr_sessionId r = s \<and> tr_tagNumber r \<noteq> n" if "r \<in> set (a # others)" for r
    using that unfolding rows [symmetric] by (auto simp: getPiFallbackMessageFoldTagRowsByMessageId_def)
  have "distinct (tb_tags db)"
    using assms(1) unfolding tags_ok_def by (metis (no_types, lifting) distinct_conv_nth less_irrefl linorder_neqE_nat sorted_wrt_iff_nth_less)
  then have dist: "distinct (a # others)"
    unfolding rows [symmetric] getPiFallbackMessageFoldTagRowsByMessageId_def session_rows_def by simp
  have bn: "b \<in> set (tb_tags db)" "tr_sessionId b = s" "tr_tagNumber b = n" using first_row_Some [OF b] by (auto simp: is_tag_def)
  have "nothing_lost s a (b # others) db (fst (fold_all s a (b # others) db)) d"
    unfolding d(1)
  proof (rule fold_all_ok [OF assms(1,2)])
    show "\<forall>x\<in>set (b # others). x \<in> set (tb_tags db) \<and> tr_sessionId x = s \<and> tr_tagNumber x \<noteq> tr_tagNumber a"
    proof
      fix x assume x: "x \<in> set (b # others)"
      then have "x \<noteq> a" using dist in' [of a] bn by auto
      moreover have "x \<in> set (tb_tags db) \<and> tr_sessionId x = s" using x bn in' by auto
      ultimately show "x \<in> set (tb_tags db) \<and> tr_sessionId x = s \<and> tr_tagNumber x \<noteq> tr_tagNumber a"
        using unique_number [OF assms(1), of x a] in' [of a] by auto
    qed
    show "distinct (b # others)" using dist in' bn by auto
  qed (use in' [of a] in simp_all)
  moreover have "is_tag s k a" "ns = map tr_tagNumber (b # others)" using d bn in' [of a] by (simp_all add: is_tag_def)
  ultimately show ?thesis using d(3) by (intro exI conjI) auto
qed

text \<open>The same call under a fallback owner and under the real one: the dropped one is folded into the other.\<close>

definition example_tag :: "int \<Rightarrow> string \<Rightarrow> tag_status \<Rightarrow> int \<Rightarrow> tag_row" where
  "example_tag n ow st tokens = (inserted_row n ''s'' ''c'' ToolTag 10 n 0 None 0 (Some ow) None None)\<lparr>tr_status := st, tr_tokenCount := Some tokens\<rparr>"

definition example_fallback_tags :: tags_db where
  "example_fallback_tags = \<lparr>tb_tags = [example_tag 1 ''pi-msg-1'' Dropped 7, example_tag 2 ''m'' Active 5], tb_nextId = 3,
     tb_ops = [\<lparr>qo_id = 1, qo_sessionId = ''s'', qo_tagId = 1, qo_operation = ''drop''\<rparr>], tb_sources = [], tb_counters = Map.empty\<rparr>"

theorem folding_loses_nothing_witness:
  "\<exists>d. adoptPiFallbackToolOwnerTag example_fallback_tags ''s'' 1 ''c'' ''pi-msg-1'' ''m'' = Some (d, Folded 2 [1])
    \<and> (\<exists>a bs a'. is_tag ''s'' 2 a \<and> [1] = map tr_tagNumber bs \<and> nothing_lost ''s'' a bs example_fallback_tags a' d)"
proof -
  have ok: "tags_ok example_fallback_tags" "ops_ok example_fallback_tags"
    by (simp_all add: tags_ok_def ops_ok_def example_fallback_tags_def unique_rows_def same_number_def same_call_def example_tag_def)
  obtain d where d: "adoptPiFallbackToolOwnerTag example_fallback_tags ''s'' 1 ''c'' ''pi-msg-1'' ''m'' = Some (d, Folded 2 [1])"
    by (simp add: adoptPiFallbackToolOwnerTag_def getPiFallbackFoldTagRowByNumber_def getPiFallbackToolFoldTagRowByOwner_def first_row_def
        is_tag_def owned_call_def example_fallback_tags_def example_tag_def)
  obtain a bs a' where "is_tag ''s'' 2 a" "[1] = map tr_tagNumber bs" "nothing_lost ''s'' a bs example_fallback_tags a' d"
    using folding_loses_nothing [OF ok disjI1 [OF d]] by metis
  with d show ?thesis by metis
qed

section \<open>Removal\<close>

definition example_message_tag :: "int \<Rightarrow> string \<Rightarrow> tag_row" where
  "example_message_tag n i = inserted_row n ''s'' i MessageTag 10 n 0 None 0 None None None"

definition example_case_tags :: tags_db where
  "example_case_tags = \<lparr>tb_tags = [example_message_tag 1 ''msg_a:p0'', example_message_tag 2 ''msg_A:p0''], tb_nextId = 3,
     tb_ops = [], tb_sources = [], tb_counters = Map.empty\<rparr>"

lemma removal_ignores_case: "tb_tags (fst (deleteTagsByMessageId example_case_tags ''s'' ''msg_a'')) = []"
  by (simp add: deleteTagsByMessageId_def escaped_part_of_def like_prefix_def starts_with_def to_lower_def to_lower_char_def
      getOwnerScopedToolTagNumbers_def delete_where_def session_rows_def example_case_tags_def example_message_tag_def Let_def
      inserted_row_def char_of_def bit_iff_odd)

end
