(* ===== verification/Tagger.thy ===== *)
theory Tagger
  imports Tag_Table
begin

text \<open>
  Who gets which number (\<open>features/magic-context/tagger.ts\<close>): the memory of a tagger, the load from the table,
  and the allocation, cut at the database statements between which other processes can write. A process stands at
  one of the points of \<open>alloc_point\<close>; a step executes the code up to the next statement. Several processes
  share one table.
\<close>

section \<open>The memory of a tagger\<close>

record tool_accounting =
  ta_byteSize :: int
  ta_tokenCount :: "int option"
  ta_inputByteSize :: int
  ta_inputTokenCount :: "int option"

record load_signature =
  ls_db :: nat
  ls_dataVersion :: int
  ls_floor :: int

record tagger_memory =
  tm_counters :: "string \<rightharpoonup> int"
  tm_assignments :: "string \<rightharpoonup> (string \<rightharpoonup> int)"
  tm_accounting :: "string \<rightharpoonup> (int \<rightharpoonup> tool_accounting)"
  tm_signatures :: "string \<rightharpoonup> load_signature"

definition fresh_tagger :: tagger_memory where
  "fresh_tagger = \<lparr>tm_counters = Map.empty, tm_assignments = Map.empty, tm_accounting = Map.empty, tm_signatures = Map.empty\<rparr>"

definition makeToolCompositeKey :: "string \<Rightarrow> string \<Rightarrow> string" where
  "makeToolCompositeKey ownerMsgId callId = ownerMsgId @ CHR 0x00 # callId"

definition getSessionAssignments :: "string \<Rightarrow> tagger_memory \<Rightarrow> string \<rightharpoonup> int" where
  "getSessionAssignments sessionId m = (case tm_assignments m sessionId of None \<Rightarrow> Map.empty | Some a \<Rightarrow> a)"

definition getSessionToolAccounting :: "string \<Rightarrow> tagger_memory \<Rightarrow> int \<rightharpoonup> tool_accounting" where
  "getSessionToolAccounting sessionId m = (case tm_accounting m sessionId of None \<Rightarrow> Map.empty | Some a \<Rightarrow> a)"

definition getCounter :: "string \<Rightarrow> tagger_memory \<Rightarrow> int" where
  "getCounter sessionId m = (case tm_counters m sessionId of None \<Rightarrow> 0 | Some n \<Rightarrow> n)"

definition set_counter :: "string \<Rightarrow> int \<Rightarrow> tagger_memory \<Rightarrow> tagger_memory" where
  "set_counter sessionId n m = m\<lparr>tm_counters := (tm_counters m)(sessionId \<mapsto> n)\<rparr>"

definition bindTag :: "string \<Rightarrow> string \<Rightarrow> int \<Rightarrow> tagger_memory \<Rightarrow> tagger_memory" where
  "bindTag sessionId messageId tagNumber m =
     m\<lparr>tm_assignments := (tm_assignments m)(sessionId \<mapsto> (getSessionAssignments sessionId m)(messageId \<mapsto> tagNumber))\<rparr>"

definition unbindTag :: "string \<Rightarrow> string \<Rightarrow> tagger_memory \<Rightarrow> tagger_memory" where
  "unbindTag sessionId messageId m =
     m\<lparr>tm_assignments := (tm_assignments m)(sessionId \<mapsto> (getSessionAssignments sessionId m)(messageId := None))\<rparr>"

definition bindToolTag :: "string \<Rightarrow> string \<Rightarrow> string \<Rightarrow> int \<Rightarrow> tagger_memory \<Rightarrow> tagger_memory" where
  "bindToolTag sessionId callId ownerMsgId tagNumber m = bindTag sessionId (makeToolCompositeKey ownerMsgId callId) tagNumber m"

definition unbindToolTag :: "string \<Rightarrow> string \<Rightarrow> string \<Rightarrow> tagger_memory \<Rightarrow> tagger_memory" where
  "unbindToolTag sessionId ownerMsgId callId m = unbindTag sessionId (makeToolCompositeKey ownerMsgId callId) m"

definition getTag :: "string \<Rightarrow> string \<Rightarrow> tagger_memory \<Rightarrow> int option" where
  "getTag sessionId messageId m = getSessionAssignments sessionId m messageId"

definition getToolTag :: "string \<Rightarrow> string \<Rightarrow> string \<Rightarrow> tagger_memory \<Rightarrow> int option" where
  "getToolTag sessionId callId ownerMsgId m = getSessionAssignments sessionId m (makeToolCompositeKey ownerMsgId callId)"

definition setToolTagAccounting :: "string \<Rightarrow> int \<Rightarrow> tool_accounting \<Rightarrow> tagger_memory \<Rightarrow> tagger_memory" where
  "setToolTagAccounting sessionId tagNumber accounting m =
     m\<lparr>tm_accounting := (tm_accounting m)(sessionId \<mapsto> (getSessionToolAccounting sessionId m)(tagNumber \<mapsto> accounting))\<rparr>"

definition getToolTagAccounting :: "string \<Rightarrow> string \<Rightarrow> string \<Rightarrow> tagger_memory \<Rightarrow> tool_accounting option" where
  "getToolTagAccounting sessionId callId ownerMsgId m =
     Option.bind (getToolTag sessionId callId ownerMsgId m) (getSessionToolAccounting sessionId m)"

definition cleanup_tagger :: "string \<Rightarrow> tagger_memory \<Rightarrow> tagger_memory" where
  "cleanup_tagger sessionId m =
     \<lparr>tm_counters = (tm_counters m)(sessionId := None), tm_assignments = (tm_assignments m)(sessionId := None),
      tm_accounting = (tm_accounting m)(sessionId := None), tm_signatures = (tm_signatures m)(sessionId := None)\<rparr>"

definition resetCounter :: "string \<Rightarrow> tagger_memory \<Rightarrow> tags_db \<Rightarrow> tagger_memory \<times> tags_db" where
  "resetCounter sessionId m db =
     (\<lparr>tm_counters = (tm_counters m)(sessionId \<mapsto> 0), tm_assignments = (tm_assignments m)(sessionId := None),
       tm_accounting = (tm_accounting m)(sessionId := None), tm_signatures = (tm_signatures m)(sessionId := None)\<rparr>,
      reset_counter_row sessionId db)"

section \<open>Loading\<close>

definition isAssignmentRow :: "tag_row \<Rightarrow> bool" where
  "isAssignmentRow r \<longleftrightarrow> tr_byteSize r \<noteq> None \<and> tr_inputByteSize r \<noteq> None"

text \<open>The key under which a row is assigned; a tool call without owner has none.\<close>

definition entity_key :: "tag_row \<Rightarrow> string option" where
  "entity_key r =
     (if tr_type r = ToolTag then map_option (\<lambda>ow. makeToolCompositeKey ow (tr_messageId r)) (tr_owner r) else Some (tr_messageId r))"

definition load_row :: "(string \<rightharpoonup> int) \<times> (int \<rightharpoonup> tool_accounting) \<Rightarrow> tag_row \<Rightarrow> (string \<rightharpoonup> int) \<times> (int \<rightharpoonup> tool_accounting)" where
  "load_row maps r =
     (case entity_key r of
        None \<Rightarrow> maps
      | Some key \<Rightarrow>
          ((fst maps)(key \<mapsto> tr_tagNumber r),
           if tr_type r = ToolTag
           then (snd maps)(tr_tagNumber r \<mapsto> \<lparr>ta_byteSize = the (tr_byteSize r), ta_tokenCount = tr_tokenCount r,
             ta_inputByteSize = the (tr_inputByteSize r), ta_inputTokenCount = tr_inputTokenCount r\<rparr>)
           else snd maps))"

definition assignment_rows :: "string \<Rightarrow> int \<Rightarrow> tags_db \<Rightarrow> tag_row list" where
  "assignment_rows sessionId load_floor db =
     filter isAssignmentRow
       (sort_key tr_tagNumber (filter (\<lambda>r. load_floor \<le> 0 \<or> load_floor \<le> tr_tagNumber r) (session_rows sessionId db)))"

text \<open>\<open>handle\<close> is the identity of the connection and \<open>dataVersion\<close> what its probe returns.\<close>

definition initFromDb :: "string \<Rightarrow> nat \<Rightarrow> int \<Rightarrow> int \<Rightarrow> tags_db \<Rightarrow> tagger_memory \<Rightarrow> tagger_memory" where
  "initFromDb sessionId handle dataVersion load_floor db m =
     (let signature = \<lparr>ls_db = handle, ls_dataVersion = dataVersion, ls_floor = load_floor\<rparr>
      in if tm_signatures m sessionId = Some signature then m
         else
           let rows = assignment_rows sessionId load_floor db;
               maps = foldl load_row (Map.empty, Map.empty) rows;
               maxTagNumber = fold max (map tr_tagNumber rows) 0;
               stored = (case tb_counters db sessionId of None \<Rightarrow> 0 | Some n \<Rightarrow> n)
           in \<lparr>tm_counters = (tm_counters m)(sessionId \<mapsto> max stored (max maxTagNumber (getCounter sessionId m))),
               tm_assignments = (tm_assignments m)(sessionId \<mapsto> fst maps),
               tm_accounting = (tm_accounting m)(sessionId \<mapsto> snd maps),
               tm_signatures = (tm_signatures m)(sessionId \<mapsto> signature)\<rparr>)"

section \<open>Allocating\<close>

record alloc_request =
  rq_sessionId :: string
  rq_messageId :: string
  rq_type :: tag_type
  rq_byteSize :: int
  rq_reasoningByteSize :: int
  rq_toolName :: "string option"
  rq_inputByteSize :: int
  rq_owner :: "string option"
  rq_fingerprint :: "string option"
  rq_tokens :: "token_counts option"

definition map_key :: "alloc_request \<Rightarrow> string" where
  "map_key rq = (case rq_owner rq of None \<Rightarrow> rq_messageId rq | Some ow \<Rightarrow> makeToolCompositeKey ow (rq_messageId rq))"

definition dbExistingLookup :: "alloc_request \<Rightarrow> tags_db \<Rightarrow> int option" where
  "dbExistingLookup rq db =
     (case rq_owner rq of
        None \<Rightarrow> getTagNumberByMessageId db (rq_sessionId rq) (rq_messageId rq)
      | Some ow \<Rightarrow> getToolTagNumberByOwner db (rq_sessionId rq) (rq_messageId rq) ow)"

definition MAX_TAG_ALLOC_RETRIES :: nat where [config_simps]: "MAX_TAG_ALLOC_RETRIES = 5"

text \<open>
  The points: the entry of \<open>assignToolTag\<close>, before the search for a row without owner (with the number of
  attempts), before the claim of such a row (its id and number), after a lost claim; the entry of \<open>allocateTag\<close>,
  before the maximum is read, before the insertion (attempt, counter in memory, number), after a collision, before the
  maximum is read again; before the counter is written (whether token counts are filled in next), before that; the end.
\<close>

datatype alloc_point =
    ToolLookup
  | FindOrphan nat
  | Adopt nat int int
  | RecheckOwner nat
  | Lookup
  | ReadMax nat
  | Insert nat int int
  | Recheck nat int
  | Advance nat int
  | Sync int bool
  | Backfill int
  | Finish int
  | Exhausted
  | ConstraintError
  | ForbiddenType

type_synonym tag_process_state = "alloc_point \<times> tagger_memory \<times> tags_db"

definition bind_request :: "alloc_request \<Rightarrow> int \<Rightarrow> tagger_memory \<Rightarrow> tagger_memory" where
  "bind_request rq n m = bindTag (rq_sessionId rq) (map_key rq) n m"

text \<open>\<open>syncCounterAtLeast\<close>\<close>

definition syncCounterAtLeast :: "string \<Rightarrow> int \<Rightarrow> tagger_memory \<Rightarrow> tags_db \<Rightarrow> tagger_memory \<times> tags_db" where
  "syncCounterAtLeast sessionId n m db =
     (if n \<le> 0 then (m, db)
      else let c = max (getCounter sessionId m) n in (set_counter sessionId c m, upsert_counter sessionId c db))"

definition insert_request :: "alloc_request \<Rightarrow> int \<Rightarrow> tags_db \<Rightarrow> tags_db option" where
  "insert_request rq n db =
     map_option (upsert_counter (rq_sessionId rq) n)
       (insertTag db (rq_sessionId rq) (rq_messageId rq) (rq_type rq) (rq_byteSize rq) n (rq_reasoningByteSize rq) (rq_toolName rq)
         (rq_inputByteSize rq) (rq_owner rq) (rq_fingerprint rq) (rq_tokens rq))"

definition allocated :: "alloc_request \<Rightarrow> int \<Rightarrow> tagger_memory \<Rightarrow> tagger_memory" where
  "allocated rq n m =
     (let m' = bind_request rq n (set_counter (rq_sessionId rq) n m)
      in if rq_type rq = ToolTag
         then setToolTagAccounting (rq_sessionId rq) n \<lparr>ta_byteSize = rq_byteSize rq, ta_tokenCount = Option.bind (rq_tokens rq) tk_tokenCount,
                ta_inputByteSize = rq_inputByteSize rq, ta_inputTokenCount = Option.bind (rq_tokens rq) tk_inputTokenCount\<rparr> m'
         else m')"

fun allocate_step :: "alloc_request \<Rightarrow> tag_process_state \<Rightarrow> tag_process_state" where
  "allocate_step rq (Lookup, m, db) =
     (case getSessionAssignments (rq_sessionId rq) m (map_key rq) of
        Some n \<Rightarrow> (Finish n, m, db)
      | None \<Rightarrow> (case dbExistingLookup rq db of
          Some n \<Rightarrow> (Sync n True, bind_request rq n m, db)
        | None \<Rightarrow> (ReadMax 0, m, db)))"
| "allocate_step rq (Sync n fill, m, db) =
     (let r = syncCounterAtLeast (rq_sessionId rq) n m db in (if fill then Backfill n else Finish n, fst r, snd r))"
| "allocate_step rq (Backfill n, m, db) =
     (Finish n, m, (case rq_tokens rq of
        Some counts \<Rightarrow> if tagTokenCountIsNull db (rq_sessionId rq) n then backfillTagTokenCounts db (rq_sessionId rq) n counts else db
      | None \<Rightarrow> db))"
| "allocate_step rq (ReadMax a, m, db) =
     (let memCounter = getCounter (rq_sessionId rq) m; dbMax = getMaxTagNumberBySession_in db (rq_sessionId rq)
      in (Insert a memCounter (max memCounter dbMax + 1), m, db))"
| "allocate_step rq (Insert a memCounter n, m, db) =
     (case insert_request rq n db of
        Some d \<Rightarrow> (Finish n, allocated rq n m, d)
      | None \<Rightarrow> (Recheck a memCounter, m, db))"
| "allocate_step rq (Recheck a memCounter, m, db) =
     (case dbExistingLookup rq db of
        Some n \<Rightarrow> (Sync n False, bind_request rq n m, db)
      | None \<Rightarrow> (Advance a memCounter, m, db))"
| "allocate_step rq (Advance a memCounter, m, db) =
     (if a + 1 < MAX_TAG_ALLOC_RETRIES then ReadMax (a + 1) else Exhausted,
      set_counter (rq_sessionId rq) (max memCounter (getMaxTagNumberBySession_in db (rq_sessionId rq))) m, db)"
| "allocate_step rq (p, m, db) = (p, m, db)"

fun tool_step :: "alloc_request \<Rightarrow> tag_process_state \<Rightarrow> tag_process_state" where
  "tool_step rq (ToolLookup, m, db) =
     (case getSessionAssignments (rq_sessionId rq) m (map_key rq) of
        Some n \<Rightarrow> (Finish n, m, db)
      | None \<Rightarrow> (case dbExistingLookup rq db of
          Some n \<Rightarrow> (Sync n True, bind_request rq n m, db)
        | None \<Rightarrow> (FindOrphan 0, m, db)))"
| "tool_step rq (FindOrphan a, m, db) =
     (if a < MAX_TAG_ALLOC_RETRIES
      then (case getNullOwnerToolTag db (rq_sessionId rq) (rq_messageId rq) of
          None \<Rightarrow> (Lookup, m, db)
        | Some (i, n) \<Rightarrow> (Adopt a i n, m, db))
      else (Lookup, m, db))"
| "tool_step rq (Adopt a i n, m, db) =
     (case adoptNullOwnerToolTag db i (the (rq_owner rq)) of
        None \<Rightarrow> (ConstraintError, m, db)
      | Some (d, claimed) \<Rightarrow> if claimed then (Sync n True, bind_request rq n m, d) else (RecheckOwner a, m, d))"
| "tool_step rq (RecheckOwner a, m, db) =
     (case dbExistingLookup rq db of
        Some n \<Rightarrow> (Sync n True, bind_request rq n m, db)
      | None \<Rightarrow> (FindOrphan (a + 1), m, db))"
| "tool_step rq (p, m, db) = allocate_step rq (p, m, db)"

text \<open>\<open>assignTag\<close> refuses the type of tool calls; \<open>assignToolTag\<close> always has an owner.\<close>

definition entry_point :: "alloc_request \<Rightarrow> alloc_point" where
  "entry_point rq =
     (if rq_owner rq \<noteq> None then ToolLookup else if rq_type rq = ToolTag then ForbiddenType else Lookup)"

definition valid_request :: "(string \<Rightarrow> bool) \<Rightarrow> alloc_request \<Rightarrow> bool" where
  "valid_request content rq \<longleftrightarrow>
     (if rq_type rq = ToolTag then \<not> content (rq_messageId rq) \<and> (\<exists>ow. rq_owner rq = Some ow \<and> CHR 0x00 \<notin> set ow)
      else content (rq_messageId rq) \<and> rq_owner rq = None \<and> CHR 0x00 \<notin> set (rq_messageId rq))"

definition at_end :: "alloc_point \<Rightarrow> bool" where
  "at_end p = (case p of Finish _ \<Rightarrow> True | Exhausted \<Rightarrow> True | ConstraintError \<Rightarrow> True | ForbiddenType \<Rightarrow> True | _ \<Rightarrow> False)"

section \<open>Several processes\<close>

record tag_process =
  pr_request :: alloc_request
  pr_point :: alloc_point
  pr_memory :: tagger_memory

record tag_system =
  ts_db :: tags_db
  ts_procs :: "nat \<Rightarrow> tag_process"

text \<open>
  A process that is at its end may begin a request, reload, clean up or reset its counter. \<open>OtherWrite\<close> stands for
  any write that keeps the identities of the rows: sizes, token counts, statuses, counters.
\<close>

datatype tag_event =
    Proceed nat
  | Request nat alloc_request
  | Reload nat string nat int int
  | Cleanup nat string
  | Reset nat string
  | OtherWrite tags_db

definition set_process :: "nat \<Rightarrow> tag_process \<Rightarrow> tag_system \<Rightarrow> tag_system" where
  "set_process p pr s = s\<lparr>ts_procs := (ts_procs s)(p := pr)\<rparr>"

definition idle :: "tag_system \<Rightarrow> nat \<Rightarrow> bool" where
  "idle s p = at_end (pr_point (ts_procs s p))"

fun tag_event_step :: "(string \<Rightarrow> bool) \<Rightarrow> tag_system \<Rightarrow> tag_event \<Rightarrow> tag_system" where
  "tag_event_step content s (Proceed p) =
     (let pr = ts_procs s p; r = tool_step (pr_request pr) (pr_point pr, pr_memory pr, ts_db s)
      in (set_process p (pr\<lparr>pr_point := fst r, pr_memory := fst (snd r)\<rparr>) s)\<lparr>ts_db := snd (snd r)\<rparr>)"
| "tag_event_step content s (Request p rq) =
     (if idle s p \<and> valid_request content rq
      then set_process p ((ts_procs s p)\<lparr>pr_request := rq, pr_point := entry_point rq\<rparr>) s else s)"
| "tag_event_step content s (Reload p sessionId handle dataVersion load_floor) =
     (if idle s p
      then set_process p ((ts_procs s p)\<lparr>pr_memory := initFromDb sessionId handle dataVersion load_floor (ts_db s) (pr_memory (ts_procs s p))\<rparr>) s
      else s)"
| "tag_event_step content s (Cleanup p sessionId) =
     (if idle s p then set_process p ((ts_procs s p)\<lparr>pr_memory := cleanup_tagger sessionId (pr_memory (ts_procs s p))\<rparr>) s else s)"
| "tag_event_step content s (Reset p sessionId) =
     (if idle s p
      then let r = resetCounter sessionId (pr_memory (ts_procs s p)) (ts_db s)
           in (set_process p ((ts_procs s p)\<lparr>pr_memory := fst r\<rparr>) s)\<lparr>ts_db := snd r\<rparr>
      else s)"
| "tag_event_step content s (OtherWrite db) =
     (if map row_key (tb_tags db) = map row_key (tb_tags (ts_db s)) \<and> tb_nextId db = tb_nextId (ts_db s)
      then s\<lparr>ts_db := db\<rparr> else s)"

section \<open>What a number stands for\<close>

text \<open>The rows are typed: ids of message parts and ids of calls are apart, and NUL is in none of them.\<close>

definition row_typed :: "(string \<Rightarrow> bool) \<Rightarrow> tag_row \<Rightarrow> bool" where
  "row_typed content r \<longleftrightarrow>
     (if tr_type r = ToolTag then \<not> content (tr_messageId r) \<and> (\<forall>ow. tr_owner r = Some ow \<longrightarrow> CHR 0x00 \<notin> set ow)
      else content (tr_messageId r) \<and> tr_owner r = None \<and> CHR 0x00 \<notin> set (tr_messageId r))"

definition db_ok :: "(string \<Rightarrow> bool) \<Rightarrow> tags_db \<Rightarrow> bool" where
  "db_ok content db \<longleftrightarrow> tags_ok db \<and> (\<forall>r\<in>set (tb_tags db). row_typed content r)"

text \<open>Rows never disappear and keep what they identify; only a missing owner is filled in.\<close>

definition row_persists :: "tag_row \<Rightarrow> tag_row \<Rightarrow> bool" where
  "row_persists r r' \<longleftrightarrow> tr_id r' = tr_id r \<and> tr_sessionId r' = tr_sessionId r \<and> tr_tagNumber r' = tr_tagNumber r
     \<and> tr_messageId r' = tr_messageId r \<and> tr_type r' = tr_type r \<and> (tr_owner r = None \<or> tr_owner r' = tr_owner r)"

definition persists :: "tags_db \<Rightarrow> tags_db \<Rightarrow> bool" where
  "persists db db' \<longleftrightarrow> (\<forall>r\<in>set (tb_tags db). \<exists>r'\<in>set (tb_tags db'). row_persists r r')"

definition tag_of :: "tags_db \<Rightarrow> string \<Rightarrow> int \<Rightarrow> string \<Rightarrow> bool" where
  "tag_of db sessionId n key \<longleftrightarrow> (\<exists>r\<in>set (tb_tags db). tr_sessionId r = sessionId \<and> tr_tagNumber r = n \<and> entity_key r = Some key)"

definition orphan_of :: "tags_db \<Rightarrow> int \<Rightarrow> int \<Rightarrow> alloc_request \<Rightarrow> bool" where
  "orphan_of db i n rq \<longleftrightarrow> (\<exists>r\<in>set (tb_tags db). tr_id r = i \<and> tr_tagNumber r = n \<and> tr_sessionId r = rq_sessionId rq
     \<and> tr_messageId r = rq_messageId rq \<and> tr_type r = ToolTag)"

lemma persists_refl [simp]: "persists db db"
  unfolding persists_def row_persists_def by blast

lemma persists_same: "tb_tags db' = tb_tags db \<Longrightarrow> persists db db'"
  unfolding persists_def row_persists_def by auto

lemma tag_of_persists: "persists db db' \<Longrightarrow> tag_of db s n k \<Longrightarrow> tag_of db' s n k"
  unfolding persists_def tag_of_def row_persists_def entity_key_def by (fastforce split: if_splits)

lemma orphan_of_persists: "persists db db' \<Longrightarrow> orphan_of db i n rq \<Longrightarrow> orphan_of db' i n rq"
  unfolding persists_def orphan_of_def row_persists_def by fastforce

lemma number_identifies:
  assumes "tags_ok db" "tag_of db s n k" "tag_of db s n k'"
  shows "k = k'"
proof -
  obtain r r' where "r \<in> set (tb_tags db)" "r' \<in> set (tb_tags db)" "tr_sessionId r = s" "tr_sessionId r' = s"
    "tr_tagNumber r = n" "tr_tagNumber r' = n" and k: "entity_key r = Some k" "entity_key r' = Some k'"
    using assms(2,3) by (auto simp: tag_of_def)
  then have "r = r'" by (intro unique_number [OF assms(1)]) simp_all
  with k show ?thesis by simp
qed

lemma key_parts:
  assumes "CHR 0x00 \<notin> set a" "CHR 0x00 \<notin> set b" "makeToolCompositeKey a c = makeToolCompositeKey b d"
  shows "a = b \<and> c = d"
  using assms
proof (induction a arbitrary: b)
  case Nil
  then show ?case by (cases b) (auto simp: makeToolCompositeKey_def)
next
  case (Cons x a)
  then show ?case by (cases b) (auto simp: makeToolCompositeKey_def)
qed

lemma call_has_one_number:
  assumes "db_ok content db" "tag_of db s n k" "tag_of db s n' k" "CHR 0x00 \<in> set k"
  shows "n = n'"
proof -
  have call: "\<exists>r\<in>set (tb_tags db). \<exists>ow. tr_sessionId r = s \<and> tr_tagNumber r = m \<and> tr_type r = ToolTag \<and> tr_owner r = Some ow
      \<and> CHR 0x00 \<notin> set ow \<and> k = makeToolCompositeKey ow (tr_messageId r)"
    if t: "tag_of db s m k" for m
  proof -
    obtain r where r: "r \<in> set (tb_tags db)" "tr_sessionId r = s" "tr_tagNumber r = m" "entity_key r = Some k"
      using t by (auto simp: tag_of_def)
    then have ty: "row_typed content r" using assms(1) by (auto simp: db_ok_def)
    have "tr_type r = ToolTag" using r(4) ty assms(4) by (auto simp: entity_key_def row_typed_def split: if_splits)
    then show ?thesis using r ty by (auto simp: entity_key_def row_typed_def)
  qed
  obtain r ow where r: "r \<in> set (tb_tags db)" "tr_sessionId r = s" "tr_tagNumber r = n" "tr_type r = ToolTag" "tr_owner r = Some ow"
    "CHR 0x00 \<notin> set ow" "k = makeToolCompositeKey ow (tr_messageId r)" using call [OF assms(2)] by blast
  obtain r' ow' where r': "r' \<in> set (tb_tags db)" "tr_sessionId r' = s" "tr_tagNumber r' = n'" "tr_type r' = ToolTag" "tr_owner r' = Some ow'"
    "CHR 0x00 \<notin> set ow'" "k = makeToolCompositeKey ow' (tr_messageId r')" using call [OF assms(3)] by blast
  have "ow = ow' \<and> tr_messageId r = tr_messageId r'" by (rule key_parts) (use r r' in simp_all)
  then have "same_call r r'" using r r' by (simp add: same_call_def)
  moreover have "unique_rows (tb_tags db)" using assms(1) by (simp add: db_ok_def tags_ok_def)
  ultimately have "r = r'" using unique_rowsD r(1) r'(1) by blast
  with r r' show ?thesis by simp
qed

section \<open>Every step keeps the numbers\<close>

text \<open>What a process knows is true of the table.\<close>

fun point_ok :: "tags_db \<Rightarrow> alloc_request \<Rightarrow> alloc_point \<Rightarrow> bool" where
  "point_ok db rq (Sync n _) = tag_of db (rq_sessionId rq) n (map_key rq)"
| "point_ok db rq (Backfill n) = tag_of db (rq_sessionId rq) n (map_key rq)"
| "point_ok db rq (Finish n) = tag_of db (rq_sessionId rq) n (map_key rq)"
| "point_ok db rq (Adopt a i n) = (orphan_of db i n rq \<and> rq_type rq = ToolTag)"
| "point_ok db rq (FindOrphan a) = (rq_type rq = ToolTag)"
| "point_ok db rq (RecheckOwner a) = (rq_type rq = ToolTag)"
| "point_ok db rq ToolLookup = (rq_type rq = ToolTag)"
| "point_ok db rq (Insert a c n) = (0 < n)"
| "point_ok db rq _ = True"

definition memory_ok :: "tags_db \<Rightarrow> tagger_memory \<Rightarrow> bool" where
  "memory_ok db m \<longleftrightarrow> (\<forall>s k n. getSessionAssignments s m k = Some n \<longrightarrow> tag_of db s n k)"

definition process_ok :: "(string \<Rightarrow> bool) \<Rightarrow> tags_db \<Rightarrow> tag_process \<Rightarrow> bool" where
  "process_ok content db pr \<longleftrightarrow> memory_ok db (pr_memory pr)
     \<and> (at_end (pr_point pr) \<or> valid_request content (pr_request pr)) \<and> point_ok db (pr_request pr) (pr_point pr)"

lemma point_ok_persists: "persists db db' \<Longrightarrow> point_ok db rq p \<Longrightarrow> point_ok db' rq p"
  by (cases p) (auto intro: tag_of_persists orphan_of_persists)

lemma memory_ok_persists: "persists db db' \<Longrightarrow> memory_ok db m \<Longrightarrow> memory_ok db' m"
  unfolding memory_ok_def by (blast intro: tag_of_persists)

lemma process_ok_persists: "persists db db' \<Longrightarrow> process_ok content db pr \<Longrightarrow> process_ok content db' pr"
  unfolding process_ok_def using memory_ok_persists point_ok_persists by blast

lemma assignments_simps [simp]:
  "getSessionAssignments s (set_counter s' n m) = getSessionAssignments s m"
  "getSessionAssignments s (setToolTagAccounting s' n a m) = getSessionAssignments s m"
  "getSessionAssignments s (bindTag s' k n m) =
     (if s = s' then (getSessionAssignments s m)(k \<mapsto> n) else getSessionAssignments s m)"
  by (simp_all add: getSessionAssignments_def set_counter_def setToolTagAccounting_def bindTag_def)

lemma memory_ok_set_counter [simp]: "memory_ok db (set_counter s n m) = memory_ok db m"
  by (simp add: memory_ok_def)

lemma memory_ok_bind: "memory_ok db m \<Longrightarrow> tag_of db s n k \<Longrightarrow> memory_ok db (bindTag s k n m)"
  by (auto simp: memory_ok_def)

lemma memory_ok_request: "memory_ok db m \<Longrightarrow> tag_of db (rq_sessionId rq) n (map_key rq) \<Longrightarrow> memory_ok db (bind_request rq n m)"
  by (simp add: bind_request_def memory_ok_bind)

lemma memory_ok_allocated: "memory_ok db m \<Longrightarrow> tag_of db (rq_sessionId rq) n (map_key rq) \<Longrightarrow> memory_ok db (allocated rq n m)"
  by (auto simp: allocated_def Let_def bind_request_def memory_ok_def)

lemma lookup_tag_of:
  assumes "db_ok content db" "valid_request content rq" "dbExistingLookup rq db = Some n"
  shows "tag_of db (rq_sessionId rq) n (map_key rq)"
proof (cases "rq_owner rq")
  case None
  then have c: "content (rq_messageId rq)" using assms(2) by (auto simp: valid_request_def split: if_splits)
  obtain r where "lowest (filter (\<lambda>r. tr_messageId r = rq_messageId rq) (session_rows (rq_sessionId rq) db)) = Some r"
    and n: "tr_tagNumber r = n"
    using assms(3) None by (auto simp: dbExistingLookup_def getTagNumberByMessageId_def)
  from lowest_Some [OF this(1)] have r: "r \<in> set (tb_tags db)" "tr_sessionId r = rq_sessionId rq" "tr_messageId r = rq_messageId rq"
    by simp_all
  then have "row_typed content r" using assms(1) by (simp add: db_ok_def)
  then have "entity_key r = Some (rq_messageId rq)" using c r(3) by (auto simp: row_typed_def entity_key_def)
  then show ?thesis using r n None by (auto simp: tag_of_def map_key_def)
next
  case (Some ow)
  then obtain r where "first_row (owned_call (rq_sessionId rq) (rq_messageId rq) ow) db = Some r" "tr_tagNumber r = n"
    using assms(3) by (auto simp: dbExistingLookup_def getToolTagNumberByOwner_def)
  then show ?thesis using Some by (auto dest!: first_row_Some simp: owned_call_def tag_of_def map_key_def entity_key_def)
qed

lemma same_keys:
  assumes "map row_key (tb_tags db') = map row_key (tb_tags db)" "tb_nextId db' = tb_nextId db" "db_ok content db"
  shows "db_ok content db' \<and> persists db db'"
proof -
  have len: "length (tb_tags db') = length (tb_tags db)" using assms(1) map_eq_imp_length_eq by blast
  have k: "row_key (tb_tags db' ! i) = row_key (tb_tags db ! i)" if "i < length (tb_tags db)" for i
    using that assms(1) len by (metis nth_map)
  have "row_persists (tb_tags db ! i) (tb_tags db' ! i)" if "i < length (tb_tags db)" for i
    using k [OF that] by (auto simp: row_persists_def row_key_def)
  then have "persists db db'" unfolding persists_def by (metis in_set_conv_nth len)
  moreover have "row_typed content (tb_tags db' ! i) = row_typed content (tb_tags db ! i)" if "i < length (tb_tags db)" for i
    using k [OF that] by (auto simp: row_typed_def row_key_def)
  then have "\<forall>r\<in>set (tb_tags db'). row_typed content r" using assms(3) len by (auto simp: db_ok_def all_set_conv_all_nth)
  ultimately show ?thesis using assms tags_ok_keys [OF assms(1,2)] by (simp add: db_ok_def)
qed

lemma upsert_same [simp]:
  "tb_tags (upsert_counter s n db) = tb_tags db" "tb_nextId (upsert_counter s n db) = tb_nextId db"
  by (simp_all add: upsert_counter_def)

lemma insert_request_ok:
  assumes "db_ok content db" "valid_request content rq" "insert_request rq n db = Some d" "0 < n"
  shows "db_ok content d" "persists db d" "tag_of d (rq_sessionId rq) n (map_key rq)"
proof -
  define r where "r = inserted_row (tb_nextId db) (rq_sessionId rq) (rq_messageId rq) (rq_type rq) (rq_byteSize rq) n
    (rq_reasoningByteSize rq) (rq_toolName rq) (rq_inputByteSize rq) (rq_owner rq) (rq_fingerprint rq) (rq_tokens rq)"
  obtain d' where d': "insertTag db (rq_sessionId rq) (rq_messageId rq) (rq_type rq) (rq_byteSize rq) n (rq_reasoningByteSize rq)
      (rq_toolName rq) (rq_inputByteSize rq) (rq_owner rq) (rq_fingerprint rq) (rq_tokens rq) = Some d'"
    and d: "d = upsert_counter (rq_sessionId rq) n d'"
    using assms(3) by (auto simp: insert_request_def)
  have rows: "tb_tags d' = tb_tags db @ [r]" using d' by (simp add: insert_Some r_def)
  have "tags_ok d'" by (rule insert_ok [OF _ d' assms(4)]) (use assms(1) in \<open>simp add: db_ok_def\<close>)
  moreover have "row_typed content r" using assms(2) by (auto simp: r_def row_typed_def valid_request_def split: if_splits)
  ultimately show "db_ok content d" using assms(1) rows by (auto simp: db_ok_def d)
  show "persists db d" unfolding persists_def row_persists_def using rows d by auto
  have "entity_key r = Some (map_key rq)"
    using assms(2) by (auto simp: r_def entity_key_def map_key_def valid_request_def split: if_splits)
  then show "tag_of d (rq_sessionId rq) n (map_key rq)" using rows d by (auto simp: tag_of_def r_def)
qed

lemma adopt_ok:
  assumes "db_ok content db" "valid_request content rq" "rq_type rq = ToolTag" "orphan_of db i n rq"
    and "adoptNullOwnerToolTag db i (the (rq_owner rq)) = Some (d, c)"
  shows "db_ok content d" "persists db d" "c \<Longrightarrow> tag_of d (rq_sessionId rq) n (map_key rq)"
proof -
  obtain ow where ow: "rq_owner rq = Some ow" "CHR 0x00 \<notin> set ow" using assms(2,3) by (auto simp: valid_request_def)
  let ?P = "\<lambda>r. tr_id r = i \<and> tr_owner r = None" and ?f = "\<lambda>r. r\<lparr>tr_owner := Some ow\<rparr>"
  have rows: "tb_tags d = update_where ?P ?f (tb_tags db)" and cc: "c = (\<exists>r\<in>set (tb_tags db). ?P r)"
    using assms(5) ow(1) by (simp_all add: adoptNullOwnerToolTag_def guarded_update_Some)
  obtain r0 where r0: "r0 \<in> set (tb_tags db)" "tr_id r0 = i" "tr_tagNumber r0 = n" "tr_sessionId r0 = rq_sessionId rq"
    "tr_messageId r0 = rq_messageId rq" "tr_type r0 = ToolTag"
    using assms(4) by (auto simp: orphan_of_def)
  have ok: "tags_ok db" using assms(1) by (simp add: db_ok_def)
  have only: "r = r0" if "r \<in> set (tb_tags db)" "tr_id r = i" for r
    using unique_id [OF ok that(1) r0(1)] that(2) r0(2) by simp
  have "tags_ok d" by (rule adopt_null_ok [OF ok assms(5)])
  moreover have typed: "row_typed content (if ?P r then ?f r else r)" if "r \<in> set (tb_tags db)" for r
    using that assms(1) only r0(6) ow(2) by (auto simp: db_ok_def row_typed_def)
  have "\<forall>r\<in>set (tb_tags d). row_typed content r"
    unfolding rows update_where_def set_map by (intro ballI, elim imageE) (simp only: typed)
  ultimately show "db_ok content d" by (simp add: db_ok_def)
  show "persists db d"
    unfolding persists_def
  proof
    fix r assume "r \<in> set (tb_tags db)"
    then have "(if ?P r then ?f r else r) \<in> set (tb_tags d)" by (simp add: rows update_where_def)
    moreover have "row_persists r (if ?P r then ?f r else r)" by (simp add: row_persists_def)
    ultimately show "\<exists>r'\<in>set (tb_tags d). row_persists r r'" by blast
  qed
  show "tag_of d (rq_sessionId rq) n (map_key rq)" if c
  proof -
    from that cc only have "?P r0" by blast
    then have "?f r0 \<in> set (tb_tags d)" using r0(1) unfolding rows update_where_def by force
    moreover have "entity_key (?f r0) = Some (map_key rq)" using r0 ow(1) by (simp add: entity_key_def map_key_def)
    ultimately show ?thesis using r0 unfolding tag_of_def by (intro bexI [of _ "?f r0"]) simp_all
  qed
qed

text \<open>One step of one process.\<close>

lemma sync_ok:
  assumes "syncCounterAtLeast s n m db = (m', db')"
  shows "tb_tags db' = tb_tags db" "tb_nextId db' = tb_nextId db" "memory_ok d m' = memory_ok d m"
  using assms by (auto simp: syncCounterAtLeast_def Let_def split: if_splits)

lemma max_number_nonneg: "tags_ok db \<Longrightarrow> 0 \<le> getMaxTagNumberBySession_in db s"
proof (cases "session_rows s db")
  case (Cons r rs)
  moreover assume "tags_ok db"
  moreover have "r \<in> set (tb_tags db)" "tr_sessionId r = s" using Cons in_session_rows [of r s db] by simp_all
  ultimately show ?thesis using max_number_ge [of r db s] by (force simp: tags_ok_def)
qed (simp add: getMaxTagNumberBySession_in_def)

lemma backfill_keys [simp]:
  "map row_key (tb_tags (backfillTagTokenCounts db s n c)) = map row_key (tb_tags db)"
  "tb_nextId (backfillTagTokenCounts db s n c) = tb_nextId db"
  unfolding backfillTagTokenCounts_def by (rule set_columns_keys, simp add: row_key_def) (simp add: set_columns_def)

definition step_ok :: "(string \<Rightarrow> bool) \<Rightarrow> alloc_request \<Rightarrow> tags_db \<Rightarrow> tag_process_state \<Rightarrow> bool" where
  "step_ok content rq db r \<longleftrightarrow>
     (case r of (p, m, d) \<Rightarrow> db_ok content d \<and> persists db d \<and> memory_ok d m \<and> point_ok d rq p)"

lemma step_okI: "db_ok content d \<Longrightarrow> persists db d \<Longrightarrow> memory_ok d m \<Longrightarrow> point_ok d rq p \<Longrightarrow> step_ok content rq db (p, m, d)"
  by (simp add: step_ok_def)

lemma same_tags:
  assumes "tb_tags db' = tb_tags db" "tb_nextId db' = tb_nextId db" "db_ok content db"
  shows "db_ok content db' \<and> persists db db'"
  by (rule same_keys) (use assms in simp_all)

lemma allocate_step_ok:
  assumes "db_ok content db" "memory_ok db m" "valid_request content rq" "point_ok db rq p"
  shows "step_ok content rq db (allocate_step rq (p, m, db))"
proof (cases p)
  case Lookup
  show ?thesis
  proof (cases "getSessionAssignments (rq_sessionId rq) m (map_key rq)")
    case (Some n)
    then show ?thesis using assms Lookup by (auto simp: memory_ok_def intro!: step_okI)
  next
    case None
    then show ?thesis using assms Lookup lookup_tag_of [OF assms(1,3)]
      by (auto split: option.splits intro!: step_okI memory_ok_request)
  qed
next
  case (Sync n f)
  obtain m' db' where r: "syncCounterAtLeast (rq_sessionId rq) n m db = (m', db')" by fastforce
  note s = sync_ok [OF this] and t = same_tags [OF sync_ok(1,2) [OF this] assms(1)]
  show ?thesis using assms Sync r s(3) t by (auto simp: Let_def intro!: step_okI intro: memory_ok_persists tag_of_persists)
next
  case (Backfill n)
  let ?d = "snd (snd (allocate_step rq (p, m, db)))"
  have "map row_key (tb_tags ?d) = map row_key (tb_tags db)" "tb_nextId ?d = tb_nextId db"
    by (auto simp: Backfill split: option.splits)
  from same_keys [OF this assms(1)] have d: "db_ok content ?d" "persists db ?d" by auto
  have "allocate_step rq (p, m, db) = (Finish n, m, ?d)" by (simp add: Backfill)
  moreover have "tag_of ?d (rq_sessionId rq) n (map_key rq)" using assms(4) Backfill tag_of_persists [OF d(2)] by simp
  ultimately show ?thesis using step_okI [OF d memory_ok_persists [OF d(2) assms(2)], of rq "Finish n"] by simp
next
  case (ReadMax a)
  have "0 \<le> getMaxTagNumberBySession_in db (rq_sessionId rq)" by (rule max_number_nonneg) (use assms(1) in \<open>simp add: db_ok_def\<close>)
  then show ?thesis using assms ReadMax by (auto simp: Let_def intro!: step_okI)
next
  case (Insert a c n)
  show ?thesis
  proof (cases "insert_request rq n db")
    case (Some d)
    have "0 < n" using assms(4) Insert by simp
    note k = insert_request_ok [OF assms(1,3) Some this]
    have "memory_ok d (allocated rq n m)" by (intro memory_ok_allocated memory_ok_persists [OF k(2)] assms(2) k(3))
    then show ?thesis using Insert Some k by (auto intro!: step_okI)
  qed (use assms Insert in \<open>auto intro!: step_okI\<close>)
next
  case (Recheck a c)
  then show ?thesis using assms lookup_tag_of [OF assms(1,3)]
    by (auto split: option.splits intro!: step_okI memory_ok_request)
next
  case (Advance a c)
  then show ?thesis using assms by (auto intro!: step_okI)
qed (use assms in \<open>auto intro!: step_okI\<close>)

lemma tool_step_ok:
  assumes "db_ok content db" "memory_ok db m" "valid_request content rq" "point_ok db rq p"
  shows "step_ok content rq db (tool_step rq (p, m, db))"
proof (cases p)
  case ToolLookup
  show ?thesis
  proof (cases "getSessionAssignments (rq_sessionId rq) m (map_key rq)")
    case (Some n)
    then show ?thesis using assms ToolLookup by (auto simp: memory_ok_def intro!: step_okI)
  next
    case None
    then show ?thesis using assms ToolLookup lookup_tag_of [OF assms(1,3)]
      by (auto split: option.splits intro!: step_okI memory_ok_request)
  qed
next
  case (FindOrphan a)
  have "orphan_of db i n rq" if "getNullOwnerToolTag db (rq_sessionId rq) (rq_messageId rq) = Some (i, n)" for i n
    using that by (auto simp: getNullOwnerToolTag_def orphan_of_def dest!: lowest_Some)
  then show ?thesis using assms FindOrphan by (auto split: option.splits intro!: step_okI)
next
  case (Adopt a i n)
  then have t: "rq_type rq = ToolTag" "orphan_of db i n rq" using assms(4) by simp_all
  show ?thesis
  proof (cases "adoptNullOwnerToolTag db i (the (rq_owner rq))")
    case None
    then show ?thesis using assms Adopt by (auto intro!: step_okI)
  next
    case (Some r)
    obtain d c where r: "r = (d, c)" by fastforce
    note k = adopt_ok [OF assms(1,3) t Some [unfolded r]]
    have "memory_ok d m" by (rule memory_ok_persists [OF k(2) assms(2)])
    then show ?thesis using Adopt Some r k t by (auto intro!: step_okI memory_ok_request)
  qed
next
  case (RecheckOwner a)
  then show ?thesis using assms lookup_tag_of [OF assms(1,3)]
    by (auto split: option.splits intro!: step_okI memory_ok_request)
qed (use allocate_step_ok [OF assms] in \<open>simp_all only: tool_step.simps\<close>)

section \<open>All interleavings\<close>

definition tag_system_ok :: "(string \<Rightarrow> bool) \<Rightarrow> tag_system \<Rightarrow> bool" where
  "tag_system_ok content s \<longleftrightarrow> db_ok content (ts_db s) \<and> (\<forall>p. process_ok content (ts_db s) (ts_procs s p))"

lemma system_okI:
  assumes "db_ok content d" "persists (ts_db s) d" "tag_system_ok content s" "process_ok content d pr"
  shows "tag_system_ok content ((set_process p pr s)\<lparr>ts_db := d\<rparr>)"
  using assms process_ok_persists [OF assms(2)] by (auto simp: tag_system_ok_def set_process_def)

lemma system_ok_process: "tag_system_ok content s \<Longrightarrow> process_ok content (ts_db s) pr \<Longrightarrow> tag_system_ok content (set_process p pr s)"
  by (auto simp: tag_system_ok_def set_process_def)

lemma at_end_stays: "at_end p \<Longrightarrow> tool_step rq (p, m, db) = (p, m, db)"
  by (cases p) (auto simp: at_end_def)

lemma load_row_entries:
  assumes "fst (foldl load_row (a, b) rows) k = Some n"
  shows "a k = Some n \<or> (\<exists>r\<in>set rows. tr_tagNumber r = n \<and> entity_key r = Some k)"
  using assms
proof (induction rows arbitrary: a b)
  case (Cons r rows)
  obtain a' b' where l: "load_row (a, b) r = (a', b')" by fastforce
  with Cons have "a' k = Some n \<or> (\<exists>r\<in>set rows. tr_tagNumber r = n \<and> entity_key r = Some k)" by simp
  moreover have "a' k = Some n \<Longrightarrow> a k = Some n \<or> (tr_tagNumber r = n \<and> entity_key r = Some k)"
    using l by (auto simp: load_row_def split: option.splits if_splits)
  ultimately show ?case by auto
qed simp

lemma assignment_rows_in: "r \<in> set (assignment_rows s f db) \<Longrightarrow> r \<in> set (tb_tags db) \<and> tr_sessionId r = s"
  by (auto simp: assignment_rows_def)

lemma memory_ok_load:
  assumes "memory_ok db m"
  shows "memory_ok db (initFromDb s h v f db m)"
proof -
  have "tag_of db s n k" if "fst (foldl load_row (Map.empty, Map.empty) (assignment_rows s f db)) k = Some n" for n k
    using load_row_entries [OF that] assignment_rows_in by (fastforce simp: tag_of_def)
  then show ?thesis using assms
    by (auto simp: initFromDb_def Let_def memory_ok_def getSessionAssignments_def split: option.splits if_splits)
qed

lemma memory_ok_cleanup: "memory_ok db m \<Longrightarrow> memory_ok db (cleanup_tagger s m)"
  by (auto simp: memory_ok_def cleanup_tagger_def getSessionAssignments_def split: if_splits)

lemma tag_event_ok:
  assumes ok: "tag_system_ok content s"
  shows "tag_system_ok content (tag_event_step content s e)"
proof -
  have db: "db_ok content (ts_db s)" and pr: "process_ok content (ts_db s) (ts_procs s p)" for p
    using ok by (auto simp: tag_system_ok_def)
  show ?thesis
  proof (cases e)
    case (Proceed p)
    let ?pr = "ts_procs s p"
    obtain pt m d where r: "tool_step (pr_request ?pr) (pr_point ?pr, pr_memory ?pr, ts_db s) = (pt, m, d)" by (metis prod_cases3)
    have "db_ok content d \<and> persists (ts_db s) d \<and> process_ok content d (?pr\<lparr>pr_point := pt, pr_memory := m\<rparr>)"
    proof (cases "at_end (pr_point ?pr)")
      case True
      then show ?thesis using at_end_stays [OF True, of "pr_request ?pr" "pr_memory ?pr" "ts_db s"] r db pr [of p]
        by (auto simp: process_ok_def)
    next
      case False
      then have v: "valid_request content (pr_request ?pr)" using pr [of p] by (simp add: process_ok_def)
      have "step_ok content (pr_request ?pr) (ts_db s) (pt, m, d)"
        using tool_step_ok [OF db _ v] pr [of p] r by (metis process_ok_def)
      then show ?thesis using v by (simp add: step_ok_def process_ok_def)
    qed
    then show ?thesis using Proceed r system_okI [OF _ _ ok] by (simp add: Let_def)
  next
    case (Request p rq)
    have "process_ok content (ts_db s) ((ts_procs s p)\<lparr>pr_request := rq, pr_point := entry_point rq\<rparr>)" if "valid_request content rq"
      using that pr [of p] by (auto simp: process_ok_def entry_point_def valid_request_def split: if_splits)
    then show ?thesis using Request ok system_ok_process by simp
  next
    case (Reload p)
    then show ?thesis using ok pr [of p] by (auto simp: process_ok_def intro!: system_ok_process memory_ok_load)
  next
    case (Cleanup p)
    then show ?thesis using ok pr [of p] by (auto simp: process_ok_def intro!: system_ok_process memory_ok_cleanup)
  next
    case (Reset p ses)
    have t: "tb_tags (snd (resetCounter ses m d)) = tb_tags d" "tb_nextId (snd (resetCounter ses m d)) = tb_nextId d" for m d
      by (simp_all add: resetCounter_def reset_counter_row_def)
    let ?r = "resetCounter ses (pr_memory (ts_procs s p)) (ts_db s)"
    have k: "db_ok content (snd ?r)" "persists (ts_db s) (snd ?r)" using same_tags [OF t db] by auto
    have "memory_ok (ts_db s) (fst ?r)"
      using pr [of p] by (auto simp: process_ok_def memory_ok_def resetCounter_def getSessionAssignments_def split: if_splits)
    then have "process_ok content (ts_db s) ((ts_procs s p)\<lparr>pr_memory := fst ?r\<rparr>)" using pr [of p] by (simp add: process_ok_def)
    from process_ok_persists [OF k(2) this] show ?thesis using Reset ok k system_okI by (simp add: Let_def)
  next
    case (OtherWrite d)
    then show ?thesis
      using same_keys [of d "ts_db s" content, OF _ _ db] ok process_ok_persists by (auto simp: tag_system_ok_def)
  qed
qed

interpretation tagging: machine "tag_event_step content" "tag_system_ok content" for content
  by unfold_locales (rule tag_event_ok)

text \<open>At first nothing is assigned and no process has begun.\<close>

definition tag_system_start :: "(string \<Rightarrow> bool) \<Rightarrow> tag_system \<Rightarrow> bool" where
  "tag_system_start content s \<longleftrightarrow> db_ok content (ts_db s)
     \<and> (\<forall>p. pr_memory (ts_procs s p) = fresh_tagger \<and> pr_point (ts_procs s p) = Exhausted)"

lemma start_ok: "tag_system_start content s \<Longrightarrow> tag_system_ok content s"
  by (auto simp: tag_system_start_def tag_system_ok_def process_ok_def at_end_def memory_ok_def fresh_tagger_def getSessionAssignments_def)

lemma start_run_ok: "tag_system_start content s \<Longrightarrow> tag_system_ok content (foldl (tag_event_step content) s es)"
  by (rule tagging.run_inv [OF start_ok])

lemma finished_tag_of:
  assumes "tag_system_ok content s" "pr_point (ts_procs s p) = Finish n"
  shows "tag_of (ts_db s) (rq_sessionId (pr_request (ts_procs s p))) n (map_key (pr_request (ts_procs s p)))"
  using assms by (metis point_ok.simps(3) process_ok_def tag_system_ok_def)

text \<open>
  C19: However processes that share the table interleave, a number stands for one entity, and a tool call gets the
  same number from every process: two finished assignments in a session return the same number only for the same
  entity, and for the same call of the same owner they return the same number.
\<close>

theorem tags_identify_entities:
  assumes "tag_system_start content s0" "s = foldl (tag_event_step content) s0 events"
    and "pr_point (ts_procs s p) = Finish n" "pr_request (ts_procs s p) = rq"
    and "pr_point (ts_procs s q) = Finish n'" "pr_request (ts_procs s q) = rq'"
    and "rq_sessionId rq = rq_sessionId rq'"
  shows "(n = n' \<longrightarrow> map_key rq = map_key rq') \<and> (map_key rq = map_key rq' \<and> rq_owner rq \<noteq> None \<longrightarrow> n = n')"
proof -
  have ok: "tag_system_ok content s" unfolding assms(2) by (rule start_run_ok [OF assms(1)])
  then have db: "db_ok content (ts_db s)" by (simp add: tag_system_ok_def)
  have t: "tag_of (ts_db s) (rq_sessionId rq') n (map_key rq)" "tag_of (ts_db s) (rq_sessionId rq') n' (map_key rq')"
    using finished_tag_of [OF ok assms(3)] finished_tag_of [OF ok assms(5)] assms(4,6,7) by simp_all
  have "CHR 0x00 \<in> set (map_key rq)" if "rq_owner rq \<noteq> None"
    using that by (auto simp: map_key_def makeToolCompositeKey_def)
  then have "n = n'" if "map_key rq = map_key rq'" "rq_owner rq \<noteq> None"
    using call_has_one_number [OF db t(1)] t(2) that by simp
  moreover have "map_key rq = map_key rq'" if "n = n'"
    using number_identifies [of "ts_db s"] t that db by (auto simp: db_ok_def)
  ultimately show ?thesis by blast
qed

text \<open>Two processes, one tool call; and two parts of a message with the assistant's text.\<close>

definition empty_tags :: tags_db where
  "empty_tags = \<lparr>tb_tags = [], tb_nextId = 1, tb_ops = [], tb_sources = [], tb_counters = Map.empty\<rparr>"

definition example_request :: "tag_type \<Rightarrow> string \<Rightarrow> string option \<Rightarrow> alloc_request" where
  "example_request ty i ow = \<lparr>rq_sessionId = ''s'', rq_messageId = i, rq_type = ty, rq_byteSize = 1, rq_reasoningByteSize = 0,
     rq_toolName = None, rq_inputByteSize = 0, rq_owner = ow, rq_fingerprint = None, rq_tokens = None\<rparr>"

definition example_taggers :: tag_system where
  "example_taggers = \<lparr>ts_db = empty_tags, ts_procs = (\<lambda>_. \<lparr>pr_request = example_request MessageTag ''m:p0'' None,
     pr_point = Exhausted, pr_memory = fresh_tagger\<rparr>)\<rparr>"

definition example_content :: "string \<Rightarrow> bool" where
  "example_content i = (CHR '':'' \<in> set i)"

lemma example_start: "tag_system_start example_content example_taggers"
  by (simp add: tag_system_start_def example_taggers_def db_ok_def tags_ok_def empty_tags_def unique_rows_def)

lemmas run_simps = example_taggers_def example_content_def example_request_def empty_tags_def fresh_tagger_def set_process_def idle_def
  at_end_def valid_request_def entry_point_def Let_def map_key_def makeToolCompositeKey_def getSessionAssignments_def
  dbExistingLookup_def getTagNumberByMessageId_def getToolTagNumberByOwner_def getNullOwnerToolTag_def lowest_def first_row_def
  owned_call_def session_rows_def getMaxTagNumberBySession_in_def getCounter_def insert_request_def insertTag_def put_rows_def
  unique_rows_def same_number_def same_call_def allocated_def bind_request_def bindTag_def set_counter_def upsert_counter_def
  setToolTagAccounting_def getSessionToolAccounting_def inserted_row_def MAX_TAG_ALLOC_RETRIES_def syncCounterAtLeast_def

definition call_race :: "tag_event list" where
  "call_race = [Request 0 (example_request ToolTag ''c'' (Some ''m'')), Request 1 (example_request ToolTag ''c'' (Some ''m'')),
     Proceed 0, Proceed 1, Proceed 0, Proceed 1, Proceed 0, Proceed 1, Proceed 0, Proceed 1, Proceed 0, Proceed 1, Proceed 1, Proceed 1]"

lemma call_race_ends:
  "pr_point (ts_procs (foldl (tag_event_step example_content) example_taggers call_race) 0) = Finish 1"
  "pr_point (ts_procs (foldl (tag_event_step example_content) example_taggers call_race) 1) = Finish 1"
  by (simp_all add: call_race_def run_simps)

lemma call_race_requests:
  "pr_request (ts_procs (foldl (tag_event_step example_content) example_taggers call_race) 0) = example_request ToolTag ''c'' (Some ''m'')"
  "pr_request (ts_procs (foldl (tag_event_step example_content) example_taggers call_race) 1) = example_request ToolTag ''c'' (Some ''m'')"
  by (simp_all add: call_race_def run_simps)

theorem tags_identify_entities_witness:
  "let rq = example_request ToolTag ''c'' (Some ''m'')
   in pr_point (ts_procs (foldl (tag_event_step example_content) example_taggers call_race) 0) = Finish 1
    \<and> pr_point (ts_procs (foldl (tag_event_step example_content) example_taggers call_race) 1) = Finish 1 \<and> map_key rq = map_key rq"
  using tags_identify_entities [OF example_start refl call_race_ends(1) call_race_requests(1) call_race_ends(2) call_race_requests(2) refl]
    call_race_ends by (simp add: Let_def)

definition part_race :: "tag_event list" where
  "part_race = [Request 0 (example_request MessageTag ''m:p0'' None), Request 1 (example_request MessageTag ''m:p0'' None),
     Proceed 0, Proceed 1, Proceed 0, Proceed 0, Proceed 1, Proceed 1]"

text \<open>
  C23: No unique key covers the parts of messages: when a second process looks up a part before and reads the maximum
  after the first one inserts it, the two processes return different numbers for the same part.
\<close>

theorem message_parts_can_get_two_tags:
  "\<exists>events. let s = foldl (tag_event_step example_content) example_taggers events
     in tag_system_start example_content example_taggers
      \<and> pr_request (ts_procs s 0) = example_request MessageTag ''m:p0'' None
      \<and> pr_request (ts_procs s 1) = example_request MessageTag ''m:p0'' None
      \<and> pr_point (ts_procs s 0) = Finish 1 \<and> pr_point (ts_procs s 1) = Finish 2"
proof (rule exI [of _ part_race])
  show "let s = foldl (tag_event_step example_content) example_taggers part_race
     in tag_system_start example_content example_taggers
      \<and> pr_request (ts_procs s 0) = example_request MessageTag ''m:p0'' None
      \<and> pr_request (ts_procs s 1) = example_request MessageTag ''m:p0'' None
      \<and> pr_point (ts_procs s 0) = Finish 1 \<and> pr_point (ts_procs s 1) = Finish 2"
    unfolding Let_def using example_start by (simp add: part_race_def run_simps)
qed

section \<open>One process alone\<close>

text \<open>The lookups depend on the identities of the rows only.\<close>

definition answers :: "tags_db \<Rightarrow> alloc_request \<Rightarrow> tag_row \<Rightarrow> bool" where
  "answers db rq r \<longleftrightarrow> r \<in> set (tb_tags db) \<and> tr_sessionId r = rq_sessionId rq \<and> tr_messageId r = rq_messageId rq
     \<and> (case rq_owner rq of None \<Rightarrow> True | Some ow \<Rightarrow> tr_type r = ToolTag \<and> tr_owner r = Some ow)"

lemma lowest_least: "lowest rows = Some r \<Longrightarrow> x \<in> set rows \<Longrightarrow> tr_tagNumber r \<le> tr_tagNumber x"
proof -
  assume l: "lowest rows = Some r" and x: "x \<in> set rows"
  then obtain rs where s: "sort_key tr_tagNumber rows = r # rs" by (auto simp: lowest_def split: list.splits)
  moreover have "sorted (map tr_tagNumber (sort_key tr_tagNumber rows))" by simp
  moreover have "x \<in> set (sort_key tr_tagNumber rows)" using x by simp
  ultimately show ?thesis by auto
qed

lemma lookup_None: "dbExistingLookup rq db = None \<longleftrightarrow> (\<nexists>r. answers db rq r)"
  by (cases "rq_owner rq")
    (auto simp: dbExistingLookup_def getTagNumberByMessageId_def getToolTagNumberByOwner_def lowest_None first_row_None answers_def
       owned_call_def filter_empty_conv)

lemma lookup_Some:
  assumes "tags_ok db"
  shows "dbExistingLookup rq db = Some n \<longleftrightarrow> (\<exists>r. answers db rq r \<and> tr_tagNumber r = n) \<and> (\<forall>r. answers db rq r \<longrightarrow> n \<le> tr_tagNumber r)"
proof (cases "rq_owner rq")
  case None
  let ?rows = "filter (\<lambda>r. tr_messageId r = rq_messageId rq) (session_rows (rq_sessionId rq) db)"
  have a: "answers db rq r \<longleftrightarrow> r \<in> set ?rows" for r using None by (auto simp: answers_def)
  have l: "dbExistingLookup rq db = map_option tr_tagNumber (lowest ?rows)"
    using None by (simp add: dbExistingLookup_def getTagNumberByMessageId_def)
  show ?thesis unfolding a l
  proof (cases "lowest ?rows")
    case None
    then have "?rows = []" by (simp only: lowest_None)
    then show "(map_option tr_tagNumber (lowest ?rows) = Some n) \<longleftrightarrow> (\<exists>r. r \<in> set ?rows \<and> tr_tagNumber r = n) \<and> (\<forall>r. r \<in> set ?rows \<longrightarrow> n \<le> tr_tagNumber r)"
      using None by simp
  next
    case (Some r)
    have "r \<in> set ?rows" by (rule lowest_Some [OF Some])
    moreover have "tr_tagNumber r \<le> tr_tagNumber x" if "x \<in> set ?rows" for x by (rule lowest_least [OF Some that])
    ultimately show "(map_option tr_tagNumber (lowest ?rows) = Some n) \<longleftrightarrow> (\<exists>r. r \<in> set ?rows \<and> tr_tagNumber r = n) \<and> (\<forall>r. r \<in> set ?rows \<longrightarrow> n \<le> tr_tagNumber r)"
      using Some by (auto intro: antisym)
  qed
next
  case (Some ow)
  have one: "r = r'" if "answers db rq r" "answers db rq r'" for r r'
    using that assms Some unique_rowsD [of "tb_tags db" r r'] by (auto simp: answers_def tags_ok_def same_call_def)
  have a: "answers db rq r \<longleftrightarrow> r \<in> set (tb_tags db) \<and> owned_call (rq_sessionId rq) (rq_messageId rq) ow r" for r
    using Some by (auto simp: answers_def owned_call_def)
  have l: "dbExistingLookup rq db = map_option tr_tagNumber (first_row (owned_call (rq_sessionId rq) (rq_messageId rq) ow) db)"
    using Some by (simp add: dbExistingLookup_def getToolTagNumberByOwner_def)
  show ?thesis
  proof (cases "first_row (owned_call (rq_sessionId rq) (rq_messageId rq) ow) db")
    case None
    then have "\<not> answers db rq r" for r by (simp add: a first_row_None)
    then show ?thesis using None by (simp add: l)
  next
    case (Some r)
    then have "answers db rq r" using first_row_Some a by blast
    then show ?thesis using one Some by (auto simp: l)
  qed
qed

lemma answers_keys:
  assumes "map row_key (tb_tags db') = map row_key (tb_tags db)" "answers db rq r"
  shows "\<exists>r'. answers db' rq r' \<and> tr_tagNumber r' = tr_tagNumber r"
proof -
  have "row_key r \<in> set (map row_key (tb_tags db'))" using assms by (auto simp: answers_def)
  then obtain r' where "r' \<in> set (tb_tags db')" "row_key r' = row_key r" by auto
  then show ?thesis using assms(2) by (auto simp: answers_def row_key_def split: option.splits intro!: exI [of _ r'])
qed

lemma lookup_keys:
  assumes "map row_key (tb_tags db') = map row_key (tb_tags db)" "tags_ok db" "tags_ok db'"
  shows "dbExistingLookup rq db' = dbExistingLookup rq db"
proof -
  have "dbExistingLookup rq db' = Some n \<longleftrightarrow> dbExistingLookup rq db = Some n" for n
    unfolding lookup_Some [OF assms(2)] lookup_Some [OF assms(3)]
    using answers_keys [OF assms(1)] answers_keys [OF assms(1) [symmetric]] by metis
  then show ?thesis by (metis not_Some_eq)
qed

lemma lookup_valid: "valid_request content rq \<Longrightarrow> rq_owner rq = Some ow \<Longrightarrow> rq_type rq = ToolTag"
  "valid_request content rq \<Longrightarrow> rq_type rq = ToolTag \<Longrightarrow> \<exists>ow. rq_owner rq = Some ow"
  by (auto simp: valid_request_def split: if_splits)

lemma insert_succeeds:
  assumes "db_ok content db" "valid_request content rq" "dbExistingLookup rq db = None" "getMaxTagNumberBySession_in db (rq_sessionId rq) < n"
  shows "\<exists>d. insert_request rq n db = Some d \<and> db_ok content d \<and> dbExistingLookup rq d = Some n"
proof -
  define r where "r = inserted_row (tb_nextId db) (rq_sessionId rq) (rq_messageId rq) (rq_type rq) (rq_byteSize rq) n
    (rq_reasoningByteSize rq) (rq_toolName rq) (rq_inputByteSize rq) (rq_owner rq) (rq_fingerprint rq) (rq_tokens rq)"
  have ok: "tags_ok db" using assms(1) by (simp add: db_ok_def)
  have none: "\<not> answers db rq x" for x using assms(3) lookup_None by blast
  have "\<not> same_number x r \<and> \<not> same_call x r" if "x \<in> set (tb_tags db)" for x
    using that none [of x] max_number_ge [of x db "rq_sessionId rq"] assms(4)
    by (cases "rq_owner rq") (auto simp: same_number_def same_call_def r_def answers_def)
  then have u: "unique_rows (tb_tags db @ [r])" using ok by (simp add: tags_ok_def unique_rows_append)
  then obtain d where d: "insert_request rq n db = Some d" and rows: "tb_tags d = tb_tags db @ [r]"
    by (simp add: insert_request_def insertTag_def put_rows_def r_def)
  have "0 < n" using assms(4) max_number_nonneg [OF ok, of "rq_sessionId rq"] by simp
  from insert_request_ok(1) [OF assms(1,2) d this] have k: "db_ok content d" .
  have "answers d rq x \<longleftrightarrow> x = r" for x
    using none [of x] lookup_valid [OF assms(2)] by (auto simp: answers_def rows r_def split: option.splits)
  then have "dbExistingLookup rq d = Some n" using k lookup_Some [of d rq n] by (simp add: db_ok_def r_def)
  with d k show ?thesis by blast
qed

lemma adoption_succeeds:
  assumes "db_ok content db" "valid_request content rq" "rq_type rq = ToolTag" "dbExistingLookup rq db = None"
    and "getNullOwnerToolTag db (rq_sessionId rq) (rq_messageId rq) = Some (i, n)"
  shows "\<exists>d. adoptNullOwnerToolTag db i (the (rq_owner rq)) = Some (d, True) \<and> db_ok content d \<and> dbExistingLookup rq d = Some n"
proof -
  obtain ow where ow: "rq_owner rq = Some ow" using lookup_valid(2) [OF assms(2,3)] by blast
  obtain r where r: "r \<in> set (tb_tags db)" "tr_id r = i" "tr_tagNumber r = n" "tr_sessionId r = rq_sessionId rq"
    "tr_messageId r = rq_messageId rq" "tr_type r = ToolTag" "tr_owner r = None"
    using assms(5) by (auto simp: getNullOwnerToolTag_def dest!: lowest_Some)
  let ?P = "\<lambda>x. tr_id x = i \<and> tr_owner x = None" and ?f = "\<lambda>x. x\<lparr>tr_owner := Some ow\<rparr>"
  let ?g = "\<lambda>x. if ?P x then ?f x else x"
  have ok: "tags_ok db" using assms(1) by (simp add: db_ok_def)
  have none: "\<not> answers db rq x" for x using assms(4) lookup_None by blast
  have only: "x = r" if "x \<in> set (tb_tags db)" "tr_id x = i" for x using unique_id [OF ok that(1) r(1)] that(2) r(2) by simp
  have pair: "\<not> same_number (?g a) (?g b) \<and> \<not> same_call (?g a) (?g b)"
    if ab: "a \<in> set (tb_tags db)" "b \<in> set (tb_tags db)" "tr_id a < tr_id b" for a b
  proof -
    have "\<not> same_number a b \<and> \<not> same_call a b" using unique_rowsD [of "tb_tags db" a b] ab ok by (auto simp: tags_ok_def)
    moreover have "\<not> same_call (?f r) b" using none [of b] ab r ow by (auto simp: same_call_def answers_def)
    moreover have "\<not> same_call a (?f r)" using none [of a] ab r ow by (auto simp: same_call_def answers_def)
    ultimately show ?thesis using only [OF ab(1)] only [OF ab(2)] ab(3) by (auto simp: same_number_def)
  qed
  have ids: "sorted_wrt (\<lambda>a b. tr_id a < tr_id b) (tb_tags db)" using ok by (simp add: tags_ok_def)
  have "sorted_wrt (\<lambda>a b. \<not> same_number (?g a) (?g b) \<and> \<not> same_call (?g a) (?g b)) (tb_tags db)"
    by (rule sorted_wrt_mono_rel [OF _ ids]) (rule pair)
  then have u: "unique_rows (update_where ?P ?f (tb_tags db))" by (simp only: unique_rows_def update_where_def sorted_wrt_map)
  have ex: "\<exists>x\<in>set (tb_tags db). ?P x" using r(1,2,7) by blast
  have a: "adoptNullOwnerToolTag db i ow = Some (db\<lparr>tb_tags := update_where ?P ?f (tb_tags db)\<rparr>, True)"
    using u ex by (simp add: adoptNullOwnerToolTag_def guarded_update_Some)
  define d where "d = db\<lparr>tb_tags := update_where ?P ?f (tb_tags db)\<rparr>"
  have o: "orphan_of db i n rq" using r by (auto simp: orphan_of_def)
  have k: "db_ok content d" using adopt_ok(1) [OF assms(1-3) o, of d True] a ow by (simp add: d_def)
  have "x = ?f r" if x: "answers d rq x" for x
  proof -
    obtain y where y: "y \<in> set (tb_tags db)" "x = ?g y" using x by (auto simp: answers_def d_def update_where_def)
    show ?thesis
    proof (cases "?P y")
      case True
      then show ?thesis using only [OF y(1)] y(2) by simp
    next
      case False
      with y x none [of y] show ?thesis by (auto simp: answers_def)
    qed
  qed
  moreover have "answers d rq (?f r)"
  proof -
    have "?g r \<in> set (tb_tags d)" using r(1) by (simp add: d_def update_where_def)
    then show ?thesis using r ow by (simp add: answers_def)
  qed
  ultimately have "dbExistingLookup rq d = Some n" using k lookup_Some [of d rq n] r(3) by (force simp: db_ok_def)
  with a k ow show ?thesis by (auto simp: d_def)
qed

text \<open>Six statements are enough for any request.\<close>

definition assign_alone :: "alloc_request \<Rightarrow> tagger_memory \<Rightarrow> tags_db \<Rightarrow> tag_process_state" where
  "assign_alone rq m db = (tool_step rq ^^ 6) (entry_point rq, m, db)"

lemma steps: "(tool_step rq ^^ Suc k) st = (tool_step rq ^^ k) (tool_step rq st)"
  by (simp add: funpow_swap1)

lemma finish_stays [simp]: "(tool_step rq ^^ k) (Finish n, m, db) = (Finish n, m, db)"
  by (induction k) simp_all

lemma sync_finishes:
  obtains m' d where "(tool_step rq ^^ Suc (Suc k)) (Sync n True, m, db) = (Finish n, m', d)"
    "map row_key (tb_tags d) = map row_key (tb_tags db)" "tb_nextId d = tb_nextId db"
proof -
  obtain m' d where r: "syncCounterAtLeast (rq_sessionId rq) n m db = (m', d)" by fastforce
  note s = sync_ok(1,2) [OF r]
  show ?thesis
    by (rule that [of m' "snd (snd (allocate_step rq (Backfill n, m', d)))"])
      (auto simp: steps r s simp del: funpow.simps split: option.splits)
qed

lemma entry_cases: "valid_request content rq \<Longrightarrow> (entry_point rq = Lookup \<and> rq_owner rq = None) \<or> (entry_point rq = ToolLookup \<and> rq_type rq = ToolTag)"
  by (auto simp: entry_point_def valid_request_def split: if_splits)

lemma alone_hit:
  assumes "valid_request content rq" "dbExistingLookup rq db = Some n" "getSessionAssignments (rq_sessionId rq) m (map_key rq) = None"
  obtains m' d where "assign_alone rq m db = (Finish n, m', d)"
    "map row_key (tb_tags d) = map row_key (tb_tags db)" "tb_nextId d = tb_nextId db"
proof -
  have first: "tool_step rq (entry_point rq, m, db) = (Sync n True, bind_request rq n m, db)"
    using entry_cases [OF assms(1)] assms(2,3) by auto
  have "6 = Suc (Suc (Suc 3))" by simp
  then have "assign_alone rq m db = (tool_step rq ^^ Suc (Suc 3)) (Sync n True, bind_request rq n m, db)"
    unfolding assign_alone_def by (simp only: steps first)
  with sync_finishes [where rq = rq and k = 3 and n = n and m = "bind_request rq n m" and db = db] that show ?thesis by metis
qed

lemma alone_insert:
  assumes "db_ok content db" "valid_request content rq" "dbExistingLookup rq db = None"
    and "getSessionAssignments (rq_sessionId rq) m (map_key rq) = None"
  obtains n m' d where "(tool_step rq ^^ Suc (Suc (Suc k))) (Lookup, m, db) = (Finish n, m', d)" "db_ok content d" "dbExistingLookup rq d = Some n"
proof -
  let ?n = "max (getCounter (rq_sessionId rq) m) (getMaxTagNumberBySession_in db (rq_sessionId rq)) + 1"
  obtain d where d: "insert_request rq ?n db = Some d" "db_ok content d" "dbExistingLookup rq d = Some ?n"
    using insert_succeeds [OF assms(1-3), of ?n] by auto
  show ?thesis
    by (rule that [of ?n "allocated rq ?n m" d]) (simp_all add: steps assms d Let_def del: funpow.simps)
qed

lemma alone_miss:
  assumes "db_ok content db" "valid_request content rq" "dbExistingLookup rq db = None"
    and "getSessionAssignments (rq_sessionId rq) m (map_key rq) = None"
  obtains n m' d where "assign_alone rq m db = (Finish n, m', d)" "db_ok content d" "dbExistingLookup rq d = Some n"
proof (cases "rq_type rq = ToolTag")
  case False
  then have e: "entry_point rq = Lookup" using entry_cases [OF assms(2)] by auto
  have six: "6 = Suc (Suc (Suc 3))" by simp
  show ?thesis using alone_insert [OF assms, where k = 3] that unfolding assign_alone_def e six by metis
next
  case True
  then have e: "entry_point rq = ToolLookup" using lookup_valid(2) [OF assms(2)] by (auto simp: entry_point_def)
  have one: "tool_step rq (ToolLookup, m, db) = (FindOrphan 0, m, db)" using assms by simp
  show ?thesis
  proof (cases "getNullOwnerToolTag db (rq_sessionId rq) (rq_messageId rq)")
    case None
    then have two: "tool_step rq (FindOrphan 0, m, db) = (Lookup, m, db)" by simp
    have six: "6 = Suc (Suc (Suc (Suc (Suc 1))))" by simp
    have "assign_alone rq m db = (tool_step rq ^^ Suc (Suc (Suc 1))) (Lookup, m, db)"
      unfolding assign_alone_def e six by (simp only: steps [where rq = rq and k = "Suc (Suc (Suc (Suc 1)))"] steps [where rq = rq and k = "Suc (Suc (Suc 1))"] one two)
    then show ?thesis using alone_insert [OF assms, where k = 1] that by metis
  next
    case (Some o')
    obtain i n where on: "o' = (i, n)" by fastforce
    then have two: "tool_step rq (FindOrphan 0, m, db) = (Adopt 0 i n, m, db)" using Some by (simp add: MAX_TAG_ALLOC_RETRIES_def)
    obtain d where d: "adoptNullOwnerToolTag db i (the (rq_owner rq)) = Some (d, True)" "db_ok content d" "dbExistingLookup rq d = Some n"
      using adoption_succeeds [OF assms(1,2) True assms(3)] Some on by auto
    then have three: "tool_step rq (Adopt 0 i n, m, db) = (Sync n True, bind_request rq n m, d)" by simp
    have six: "6 = Suc (Suc (Suc (Suc (Suc 1))))" by simp
    have "assign_alone rq m db = (tool_step rq ^^ Suc (Suc 1)) (Sync n True, bind_request rq n m, d)"
      unfolding assign_alone_def e six
      by (simp only: steps [where rq = rq and k = "Suc (Suc (Suc (Suc 1)))"] steps [where rq = rq and k = "Suc (Suc (Suc 1))"] steps [where rq = rq and k = "Suc (Suc 1)"] one two three)
    then obtain m' d' where r: "assign_alone rq m db = (Finish n, m', d')" "map row_key (tb_tags d') = map row_key (tb_tags d)" "tb_nextId d' = tb_nextId d"
      using sync_finishes [where rq = rq and k = 1 and n = n and m = "bind_request rq n m" and db = d] by metis
    have k: "db_ok content d'" using same_keys [OF r(2,3) d(2)] by simp
    have "dbExistingLookup rq d' = Some n" using lookup_keys [OF r(2)] d(2,3) k by (simp add: db_ok_def)
    with r(1) k show ?thesis by (rule that)
  qed
qed

text \<open>
  C21: An assignment that nobody disturbs ends within six statements with a number, and the number is stable: a tagger
  that has lost its memory gets the same one for the same entity, and the identities in the table stay as they are.
\<close>

theorem assignment_completes_and_is_stable:
  assumes "db_ok content db" "valid_request content rq" "getSessionAssignments (rq_sessionId rq) m (map_key rq) = None"
  shows "\<exists>n m' d. assign_alone rq m db = (Finish n, m', d)
    \<and> (\<forall>m2. getSessionAssignments (rq_sessionId rq) m2 (map_key rq) = None \<longrightarrow>
        (\<exists>m3 d2. assign_alone rq m2 d = (Finish n, m3, d2) \<and> map row_key (tb_tags d2) = map row_key (tb_tags d)))"
proof -
  have "\<exists>n m' d. assign_alone rq m db = (Finish n, m', d) \<and> dbExistingLookup rq d = Some n"
  proof (cases "dbExistingLookup rq db")
    case None
    then show ?thesis using alone_miss [OF assms(1,2) None assms(3)] by metis
  next
    case (Some n)
    obtain m' d where r: "assign_alone rq m db = (Finish n, m', d)" "map row_key (tb_tags d) = map row_key (tb_tags db)" "tb_nextId d = tb_nextId db"
      using alone_hit [OF assms(2) Some assms(3)] by metis
    have "db_ok content d" using same_keys [OF r(2,3) assms(1)] by simp
    then have "dbExistingLookup rq d = Some n" using lookup_keys [OF r(2)] assms(1) Some by (simp add: db_ok_def)
    with r show ?thesis by blast
  qed
  then obtain n m' d where "assign_alone rq m db = (Finish n, m', d)" "dbExistingLookup rq d = Some n" by blast
  then show ?thesis using alone_hit [OF assms(2)] by metis
qed

theorem assignment_completes_and_is_stable_witness:
  "\<exists>n m' d. assign_alone (example_request ToolTag ''c'' (Some ''m'')) fresh_tagger empty_tags = (Finish n, m', d)"
proof -
  have "db_ok example_content empty_tags" using example_start by (simp add: tag_system_start_def example_taggers_def)
  from assignment_completes_and_is_stable [OF this, of "example_request ToolTag ''c'' (Some ''m'')" fresh_tagger]
  show ?thesis by (auto simp: valid_request_def example_content_def example_request_def fresh_tagger_def getSessionAssignments_def)
qed

text \<open>The order of the lookups matters: a row without owner cannot be claimed for a call that has its row already.\<close>

lemma adoption_of_owned_call_fails:
  assumes "tags_ok db" "x \<in> set (tb_tags db)" "owned_call s c ow x"
    and "r \<in> set (tb_tags db)" "tr_id r = i" "tr_sessionId r = s" "tr_messageId r = c" "tr_type r = ToolTag" "tr_owner r = None"
  shows "adoptNullOwnerToolTag db i ow = None"
proof -
  let ?P = "\<lambda>x. tr_id x = i \<and> tr_owner x = None" and ?f = "\<lambda>x. x\<lparr>tr_owner := Some ow\<rparr>"
  let ?rows = "update_where ?P ?f (tb_tags db)"
  have "\<not> ?P x" using assms(3) by (simp add: owned_call_def)
  then have "(if ?P x then ?f x else x) = x" by (simp only: if_False)
  moreover have "(if ?P x then ?f x else x) \<in> set ?rows" unfolding update_where_def set_map using assms(2) by (rule imageI)
  ultimately have x: "x \<in> set ?rows" by simp
  have "(if ?P r then ?f r else r) = ?f r" using assms(5,9) by simp
  moreover have "(if ?P r then ?f r else r) \<in> set ?rows" unfolding update_where_def set_map using assms(4) by (rule imageI)
  ultimately have r: "?f r \<in> set ?rows" by (simp only:)
  have call: "same_call (?f r) x" using assms(3,6-8) by (simp add: same_call_def owned_call_def)
  have "x \<noteq> r" using assms(3,9) by (auto simp: owned_call_def)
  then have "tr_id x \<noteq> tr_id r" using unique_id [OF assms(1,2,4)] by blast
  then have "?f r \<noteq> x" by auto
  then have "\<not> unique_rows ?rows" using unique_rowsD [OF _ r x] call by blast
  then show ?thesis by (simp add: adoptNullOwnerToolTag_def guarded_update_def put_rows_def)
qed

end
