(* ===== verification/Tag_Queries.thy ===== *)
theory Tag_Queries
  imports Tagger
begin

text \<open>
  Reading the table of tags (\<open>features/magic-context/storage-tags.ts\<close>, \<open>reclaim-protection.ts\<close>): entries in
  the order of their numbers, the sums of token counts that the trigger, the nudges and the boundary use, what may be
  reclaimed, and the floor from which the tags of the messages on the wire are loaded. An unknown count is
  \<open>None\<close>; a sum treats it as zero and reports that it met one.
\<close>

section \<open>Entries\<close>

record stored_tag = tag_entry +
  st_messageId :: string
  st_sessionId :: string
  st_cavemanDepth :: int
  st_toolOwnerMessageId :: "string option"

definition or_0 :: "int option \<Rightarrow> int" where
  "or_0 x = (case x of None \<Rightarrow> 0 | Some n \<Rightarrow> n)"

definition isTagRow :: "tag_row \<Rightarrow> bool" where
  "isTagRow r \<longleftrightarrow> tr_byteSize r \<noteq> None"

definition toTagEntry :: "tag_row \<Rightarrow> stored_tag" where
  "toTagEntry r =
     \<lparr>tg_tagNumber = tr_tagNumber r, tg_type = tr_type r, tg_status = tr_status r, tg_dropMode = tr_dropMode r,
      tg_toolName = tr_toolName r, tg_byteSize = or_0 (tr_byteSize r), tg_inputByteSize = or_0 (tr_inputByteSize r),
      tg_reasoningByteSize = or_0 (tr_reasoningByteSize r), st_messageId = tr_messageId r, st_sessionId = tr_sessionId r,
      st_cavemanDepth = tr_cavemanDepth r, st_toolOwnerMessageId = tr_owner r\<rparr>"

text \<open>Rows in the order of their numbers, then of their ids.\<close>

definition by_number_asc :: "tag_row list \<Rightarrow> tag_row list" where
  "by_number_asc rows = sort_key tr_tagNumber (sort_key tr_id rows)"

definition by_number_desc :: "tag_row list \<Rightarrow> tag_row list" where
  "by_number_desc rows = rev (by_number_asc rows)"

definition select_tags :: "(tag_row \<Rightarrow> bool) \<Rightarrow> tags_db \<Rightarrow> string \<Rightarrow> stored_tag list" where
  "select_tags P db sessionId = map toTagEntry (filter isTagRow (by_number_asc (filter P (session_rows sessionId db))))"

definition active_row :: "tag_row \<Rightarrow> bool" where
  "active_row r \<longleftrightarrow> tr_status r = Active"

definition getTagsBySession :: "tags_db \<Rightarrow> string \<Rightarrow> stored_tag list" where
  "getTagsBySession db sessionId = select_tags (\<lambda>_. True) db sessionId"

definition getActiveTagsBySession_in :: "tags_db \<Rightarrow> string \<Rightarrow> stored_tag list" where
  "getActiveTagsBySession_in db sessionId = select_tags active_row db sessionId"

definition getDroppedTagsBySession :: "tags_db \<Rightarrow> string \<Rightarrow> stored_tag list" where
  "getDroppedTagsBySession db sessionId = select_tags (\<lambda>r. tr_status r = Dropped) db sessionId"

definition getTagsByNumbers :: "tags_db \<Rightarrow> string \<Rightarrow> int list \<Rightarrow> stored_tag list" where
  "getTagsByNumbers db sessionId tagNumbers =
     (if tagNumbers = [] then []
      else concat (map (\<lambda>i. select_tags (\<lambda>r. tr_tagNumber r \<in> set (take 900 (drop (900 * i) tagNumbers))) db sessionId)
        [0..<(length tagNumbers + 899) div 900]))"

definition getDroppedTagsByNumbers :: "tags_db \<Rightarrow> string \<Rightarrow> int list \<Rightarrow> stored_tag list" where
  "getDroppedTagsByNumbers db sessionId tagNumbers =
     (if tagNumbers = [] then []
      else concat (map (\<lambda>i. select_tags (\<lambda>r. tr_status r = Dropped \<and> tr_tagNumber r \<in> set (take 900 (drop (900 * i) tagNumbers))) db sessionId)
        [0..<(length tagNumbers + 899) div 900]))"

definition getMaxDroppedTagNumber :: "tags_db \<Rightarrow> string \<Rightarrow> int" where
  "getMaxDroppedTagNumber db sessionId =
     (case map tr_tagNumber (filter (\<lambda>r. tr_status r = Dropped) (session_rows sessionId db)) of [] \<Rightarrow> 0 | n # ns \<Rightarrow> fold max ns n)"

definition getTagById :: "tags_db \<Rightarrow> string \<Rightarrow> int \<Rightarrow> stored_tag option" where
  "getTagById db sessionId tagId =
     (case first_row (is_tag sessionId tagId) db of None \<Rightarrow> None | Some r \<Rightarrow> if isTagRow r then Some (toTagEntry r) else None)"

text \<open>An ascending sort puts rows without a size first, so the descending one puts them last.\<close>

definition getTopNBySize :: "tags_db \<Rightarrow> string \<Rightarrow> int \<Rightarrow> stored_tag list" where
  "getTopNBySize db sessionId n =
     (if n \<le> 0 then []
      else map toTagEntry (filter isTagRow (take (nat n)
        (let rows = sort_key tr_tagNumber (filter active_row (session_rows sessionId db))
         in sort_key (\<lambda>r. - the (tr_byteSize r)) (filter isTagRow rows) @ filter (\<lambda>r. \<not> isTagRow r) rows))))"

text \<open>A row is new when no active row has its number, message and type.\<close>

definition getTailHygieneTags :: "tags_db \<Rightarrow> string \<Rightarrow> stored_tag list" where
  "getTailHygieneTags db sessionId =
     (let active = getActiveTagsBySession_in db sessionId;
          identity = (\<lambda>t. (tg_tagNumber t, st_messageId t, tg_type t));
          orphans = select_tags (\<lambda>r. tr_type r = ToolTag \<and> tr_owner r = None) db sessionId
      in active @ filter (\<lambda>t. identity t \<notin> set (map identity active)) orphans)"

text \<open>\<open>addRows\<close>: a later entry of the same number replaces an earlier one.\<close>

definition add_rows :: "(int \<times> stored_tag) list \<Rightarrow> stored_tag list \<Rightarrow> (int \<times> stored_tag) list" where
  "add_rows m tags = foldl (\<lambda>m t. jsmap_set (tg_tagNumber t) t m) m tags"

definition newest_rows :: "(tag_row \<Rightarrow> bool) \<Rightarrow> int \<Rightarrow> tags_db \<Rightarrow> string \<Rightarrow> stored_tag list" where
  "newest_rows P limit db sessionId =
     (if limit \<le> 0 then []
      else map toTagEntry (filter isTagRow (take (nat limit) (by_number_desc (filter P (session_rows sessionId db))))))"

definition getTagsForPendingOperations :: "tags_db \<Rightarrow> string \<Rightarrow> int list \<Rightarrow> int \<Rightarrow> int \<Rightarrow> stored_tag list" where
  "getTagsForPendingOperations db sessionId pendingTagNumbers protectedTags recentToolWindow =
     sort_key tg_tagNumber (map snd
       (add_rows (add_rows (add_rows [] (getTagsByNumbers db sessionId pendingTagNumbers))
          (newest_rows active_row protectedTags db sessionId))
          (newest_rows (\<lambda>r. tr_type r = ToolTag) recentToolWindow db sessionId)))"

section \<open>Sums of token counts\<close>

definition sum_rows :: "(tag_row \<Rightarrow> int) \<Rightarrow> tag_row list \<Rightarrow> int" where
  "sum_rows f rows = sum_list (map f rows)"

record token_aggregate =
  ag_conversation :: int
  ag_toolCall :: int
  ag_toolOutput :: int
  ag_nullCount :: int

definition null_counts :: "tag_row list \<Rightarrow> int" where
  "null_counts rows = sum_rows (\<lambda>r. if tr_tokenCount r = None then 1 else 0) rows"

text \<open>
  The number of the \<open>n\<close>-th newest active tag, \<open>None\<close> when there are fewer (\<open>LIMIT 1 OFFSET\<close>); a
  comparison with a missing cutoff is never true.
\<close>

definition protected_cutoff :: "int \<Rightarrow> tag_row list \<Rightarrow> int option" where
  "protected_cutoff protectedTags rows =
     (let numbers = sort_desc (map tr_tagNumber (filter active_row rows)); i = nat (protectedTags - 1)
      in if i < length numbers then Some (numbers ! i) else None)"

definition below_cutoff :: "int \<Rightarrow> tag_row list \<Rightarrow> tag_row \<Rightarrow> bool" where
  "below_cutoff protectedTags rows r \<longleftrightarrow>
     (protectedTags \<le> 0 \<or> (case protected_cutoff protectedTags rows of None \<Rightarrow> False | Some c \<Rightarrow> tr_tagNumber r < c))"

definition getActiveTagTokenAggregate :: "tags_db \<Rightarrow> string \<Rightarrow> int \<Rightarrow> token_aggregate" where
  "getActiveTagTokenAggregate db sessionId protectedTags =
     (let all = session_rows sessionId db; rows = filter active_row all
      in \<lparr>ag_conversation = sum_rows (\<lambda>r. if tr_type r \<noteq> ToolTag then or_0 (tr_tokenCount r) else 0) rows
            + sum_rows (\<lambda>r. or_0 (tr_reasoningTokenCount r)) rows,
          ag_toolCall = sum_rows (\<lambda>r. if tr_type r = ToolTag then or_0 (tr_tokenCount r) + or_0 (tr_inputTokenCount r) else 0) rows,
          ag_toolOutput = sum_rows (\<lambda>r. if tr_type r = ToolTag \<and> below_cutoff protectedTags all r then or_0 (tr_tokenCount r) else 0) rows,
          ag_nullCount = null_counts rows\<rparr>)"

definition row_tokens :: "tag_row \<Rightarrow> int" where
  "row_tokens r = or_0 (tr_tokenCount r) + or_0 (tr_inputTokenCount r) + or_0 (tr_reasoningTokenCount r)"

definition above_floor :: "int \<Rightarrow> tag_row \<Rightarrow> bool" where
  "above_floor load_floor r \<longleftrightarrow> load_floor \<le> 0 \<or> load_floor \<le> tr_tagNumber r"

definition getTriggerTagTokenUpperBound :: "tags_db \<Rightarrow> string \<Rightarrow> int \<Rightarrow> int \<times> int" where
  "getTriggerTagTokenUpperBound db sessionId load_floor =
     (let rows = filter (\<lambda>r. tr_status r \<in> {Active, Dropped} \<and> above_floor load_floor r) (session_rows sessionId db)
      in (sum_rows row_tokens rows, null_counts rows))"

text \<open>The message a row belongs to: the owner of a call, the id of a part without its suffix.\<close>

definition CONTENT_ID_SUFFIX :: regex where
  "CONTENT_ID_SUFFIX = Seq (lit '':'') (Seq (Alt (lit ''p'') (lit ''file'')) (Seq (some1 digit) TextEnd))"

definition ownerMessageIdForTagRow :: "tag_row \<Rightarrow> string" where
  "ownerMessageIdForTagRow r =
     (if tr_type r = ToolTag then (case tr_owner r of None \<Rightarrow> tr_messageId r | Some ow \<Rightarrow> ow)
      else replaceFirst CONTENT_ID_SUFFIX (\<lambda>_. []) (tr_messageId r))"

record message_tokens =
  mt_conversation :: int
  mt_toolCall :: int
  mt_toolOutput :: int
  mt_hasNull :: bool

definition add_message_tokens :: "tag_row \<Rightarrow> message_tokens \<Rightarrow> message_tokens" where
  "add_message_tokens r e =
     (let e1 = (if tr_type r = ToolTag
                then e\<lparr>mt_toolCall := mt_toolCall e + (or_0 (tr_tokenCount r) + or_0 (tr_inputTokenCount r)),
                       mt_toolOutput := mt_toolOutput e + or_0 (tr_tokenCount r)\<rparr>
                else e\<lparr>mt_conversation := mt_conversation e + or_0 (tr_tokenCount r)\<rparr>);
          e2 = e1\<lparr>mt_conversation := mt_conversation e1 + or_0 (tr_reasoningTokenCount r)\<rparr>
      in if tr_tokenCount r = None then e2\<lparr>mt_hasNull := True\<rparr> else e2)"

definition no_tokens :: message_tokens where
  "no_tokens = \<lparr>mt_conversation = 0, mt_toolCall = 0, mt_toolOutput = 0, mt_hasNull = False\<rparr>"

definition getActiveTagTokenTotalsByMessage :: "tags_db \<Rightarrow> string \<Rightarrow> (string \<times> message_tokens) list" where
  "getActiveTagTokenTotalsByMessage db sessionId =
     foldl (\<lambda>out r. let owner = ownerMessageIdForTagRow r;
                        entry = (case map_of out owner of None \<Rightarrow> no_tokens | Some e \<Rightarrow> e)
                    in jsmap_set owner (add_message_tokens r entry) out)
       [] (filter active_row (session_rows sessionId db))"

text \<open>Totals and the messages with an unknown count; such a message has no total.\<close>

definition flat_step :: "(string \<rightharpoonup> int) \<times> string set \<Rightarrow> tag_row \<Rightarrow> (string \<rightharpoonup> int) \<times> string set" where
  "flat_step st r =
     (if tr_type r = ToolTag \<and> tr_owner r = None then st
      else let owner = ownerMessageIdForTagRow r
           in if tr_tokenCount r = None then ((fst st)(owner := None), insert owner (snd st))
              else if owner \<in> snd st then st
              else ((fst st)(owner \<mapsto> (case fst st owner of None \<Rightarrow> 0 | Some n \<Rightarrow> n) + row_tokens r), snd st))"

definition getAllStatusTagTokenTotalsFlat :: "tags_db \<Rightarrow> string \<Rightarrow> int \<Rightarrow> (string \<rightharpoonup> int) \<times> string set" where
  "getAllStatusTagTokenTotalsFlat db sessionId load_floor =
     foldl flat_step (Map.empty, {}) (filter (above_floor load_floor) (session_rows sessionId db))"

section \<open>What may be reclaimed\<close>

definition RECLAIM_HINT_EXCLUDED_TOOLS :: "string list" where
  "RECLAIM_HINT_EXCLUDED_TOOLS = [''todowrite'']"

definition AGE_RECLAIM_MIN_TOKENS :: int where [config_simps]: "AGE_RECLAIM_MIN_TOKENS = 250"

definition reclaim_hint_row :: "int \<Rightarrow> tag_row list \<Rightarrow> tag_row \<Rightarrow> bool" where
  "reclaim_hint_row protectedTags rows r \<longleftrightarrow>
     active_row r \<and> tr_type r = ToolTag
     \<and> (case tr_toolName r of None \<Rightarrow> True | Some name \<Rightarrow> name \<notin> set RECLAIM_HINT_EXCLUDED_TOOLS)
     \<and> ((tr_tokenCount r = None \<and> tr_inputTokenCount r = None)
        \<or> AGE_RECLAIM_MIN_TOKENS \<le> or_0 (tr_tokenCount r) + or_0 (tr_inputTokenCount r))
     \<and> below_cutoff protectedTags rows r"

definition getOldestActiveUnprotectedToolTags :: "tags_db \<Rightarrow> string \<Rightarrow> int \<Rightarrow> int \<Rightarrow> (int \<times> string option) list" where
  "getOldestActiveUnprotectedToolTags db sessionId protectedTags limit =
     (if limit \<le> 0 then []
      else let rows = session_rows sessionId db
           in map (\<lambda>r. (tr_tagNumber r, tr_toolName r))
                (take (nat (max 1 (min 10 limit))) (by_number_asc (filter (reclaim_hint_row protectedTags rows) rows))))"

record reclaim_tag =
  rt_tagNumber :: int
  rt_toolName :: "string option"
  rt_reclaimableTokens :: "int option"


definition newestCtxReduceTagNumbers_of :: "reclaim_tag list \<Rightarrow> int set" where
  "newestCtxReduceTagNumbers_of tags =
     set (take CTX_REDUCE_KEEP (sort_desc (map rt_tagNumber (filter (\<lambda>t. rt_toolName t = Some ''ctx_reduce'') tags))))"

definition getActiveToolTagsForAgeReclaim :: "tags_db \<Rightarrow> string \<Rightarrow> reclaim_tag list" where
  "getActiveToolTagsForAgeReclaim db sessionId =
     (let tags = map (\<lambda>r. \<lparr>rt_tagNumber = tr_tagNumber r, rt_toolName = tr_toolName r,
            rt_reclaimableTokens = (if tr_tokenCount r = None \<and> tr_inputTokenCount r = None then None
              else Some (or_0 (tr_tokenCount r) + or_0 (tr_inputTokenCount r)))\<rparr>)
            (by_number_asc (filter (\<lambda>r. active_row r \<and> tr_type r = ToolTag) (session_rows sessionId db)));
          kept = newestCtxReduceTagNumbers_of tags
      in filter (\<lambda>t. rt_tagNumber t \<notin> kept) tags)"

definition getPersistedToolTagAccounting :: "tags_db \<Rightarrow> string \<Rightarrow> int \<Rightarrow> (int \<times> int option \<times> int \<times> int option) option" where
  "getPersistedToolTagAccounting db sessionId tagNumber =
     (case first_row (\<lambda>r. is_tag sessionId tagNumber r \<and> tr_type r = ToolTag) db of
        None \<Rightarrow> None
      | Some r \<Rightarrow> (case (tr_byteSize r, tr_inputByteSize r) of
          (Some b, Some ib) \<Rightarrow> Some (b, tr_tokenCount r, ib, tr_inputTokenCount r)
        | _ \<Rightarrow> None))"

section \<open>The floor\<close>

text \<open>The half-open range from \<open>rawId:\<close> to \<open>rawId;\<close>.\<close>

definition getMinMessageTagNumberForRawId :: "tags_db \<Rightarrow> string \<Rightarrow> string \<Rightarrow> int option" where
  "getMinMessageTagNumberForRawId db sessionId rawId =
     (if CHR '':'' \<in> set rawId then None
      else map_option tr_tagNumber (lowest (filter (\<lambda>r. \<not> str_less (tr_messageId r) (rawId @ '':'') \<and> str_less (tr_messageId r) (rawId @ '';''))
             (session_rows sessionId db))))"

definition TAGGER_FLOOR_SCAN_MESSAGES :: nat where [config_simps]: "TAGGER_FLOOR_SCAN_MESSAGES = 8"
definition TAGGER_FLOOR_MAX_PROBES :: nat where [config_simps]: "TAGGER_FLOOR_MAX_PROBES = 64"
definition TAGGER_FLOOR_SAFETY_MARGIN :: int where [config_simps]: "TAGGER_FLOOR_SAFETY_MARGIN = 256"
definition TAGGER_FLOOR_PER_SKIP_MARGIN :: int where [config_simps]: "TAGGER_FLOOR_PER_SKIP_MARGIN = 64"

record floor_scan =
  fs_min :: "int option"
  fs_probes :: nat
  fs_hits :: nat
  fs_skipped :: int

text \<open>One id: the scan after it and whether the scan stops.\<close>

definition scan_step :: "tags_db \<Rightarrow> string \<Rightarrow> string option \<Rightarrow> floor_scan \<Rightarrow> floor_scan \<times> bool" where
  "scan_step db sessionId rawId st =
     (case rawId of
        None \<Rightarrow> (st, False)
      | Some i \<Rightarrow>
          if i = [] then (st, False)
          else if TAGGER_FLOOR_MAX_PROBES \<le> fs_probes st then (st, True)
          else (case getMinMessageTagNumberForRawId db sessionId i of
              None \<Rightarrow> (st\<lparr>fs_probes := fs_probes st + 1, fs_skipped := fs_skipped st + (if fs_hits st = 0 then 1 else 0)\<rparr>, False)
            | Some m \<Rightarrow>
                (st\<lparr>fs_probes := fs_probes st + 1, fs_min := Some (case fs_min st of None \<Rightarrow> m | Some k \<Rightarrow> min k m), fs_hits := fs_hits st + 1\<rparr>,
                 TAGGER_FLOOR_SCAN_MESSAGES \<le> fs_hits st + 1)))"

fun scan_floor :: "tags_db \<Rightarrow> string \<Rightarrow> string option list \<Rightarrow> floor_scan \<Rightarrow> floor_scan" where
  "scan_floor db sessionId [] st = st"
| "scan_floor db sessionId (rawId # rawIds) st =
     (let r = scan_step db sessionId rawId st in if snd r then fst r else scan_floor db sessionId rawIds (fst r))"

definition deriveTagLoadFloor :: "tags_db \<Rightarrow> string \<Rightarrow> string option list \<Rightarrow> int" where
  "deriveTagLoadFloor db sessionId rawIds =
     (let st = scan_floor db sessionId rawIds \<lparr>fs_min = None, fs_probes = 0, fs_hits = 0, fs_skipped = 0\<rparr>
      in case fs_min st of
           None \<Rightarrow> 0
         | Some m \<Rightarrow> max 0 (m - (TAGGER_FLOOR_SAFETY_MARGIN + fs_skipped st * TAGGER_FLOOR_PER_SKIP_MARGIN)))"

section \<open>Totals against the rows\<close>

definition attributed :: "tag_row \<Rightarrow> bool" where
  "attributed r \<longleftrightarrow> \<not> (tr_type r = ToolTag \<and> tr_owner r = None)"

definition rows_of :: "string \<Rightarrow> tag_row list \<Rightarrow> tag_row list" where
  "rows_of i rows = filter (\<lambda>r. attributed r \<and> ownerMessageIdForTagRow r = i) rows"

lemma rows_of_simps [simp]: "rows_of i [] = []"
  "rows_of i (rows @ [r]) = (if attributed r \<and> ownerMessageIdForTagRow r = i then rows_of i rows @ [r] else rows_of i rows)"
  by (simp_all add: rows_of_def)

definition known_total :: "string \<Rightarrow> tag_row list \<Rightarrow> int option" where
  "known_total i rows =
     (if rows_of i rows = [] \<or> (\<exists>r\<in>set (rows_of i rows). tr_tokenCount r = None) then None
      else Some (sum_rows row_tokens (rows_of i rows)))"

definition unknown_messages :: "tag_row list \<Rightarrow> string set" where
  "unknown_messages rows = {i. \<exists>r\<in>set (rows_of i rows). tr_tokenCount r = None}"

lemma unknown_snoc:
  "unknown_messages (rows @ [r]) =
     (if attributed r \<and> tr_tokenCount r = None then insert (ownerMessageIdForTagRow r) (unknown_messages rows) else unknown_messages rows)"
  by (auto simp: unknown_messages_def rows_of_def)

lemma known_snoc:
  "known_total i (rows @ [r]) =
     (if attributed r \<and> ownerMessageIdForTagRow r = i
      then if tr_tokenCount r = None \<or> i \<in> unknown_messages rows then None
           else Some ((case known_total i rows of None \<Rightarrow> 0 | Some n \<Rightarrow> n) + row_tokens r)
      else known_total i rows)"
proof (cases "attributed r \<and> ownerMessageIdForTagRow r = i")
  case True
  then have "rows_of i (rows @ [r]) = rows_of i rows @ [r]" by simp
  then show ?thesis using True by (auto simp: known_total_def unknown_messages_def sum_rows_def)
next
  case False
  then have "rows_of i (rows @ [r]) = rows_of i rows" by auto
  then show ?thesis using False by (auto simp: known_total_def)
qed

lemma flat_fold: "foldl flat_step (Map.empty, {}) rows = (\<lambda>i. known_total i rows, unknown_messages rows)"
proof (induction rows rule: rev_induct)
  case Nil
  show ?case by (simp add: known_total_def unknown_messages_def rows_of_def)
next
  case (snoc r rows)
  let ?o = "ownerMessageIdForTagRow r"
  have "flat_step (\<lambda>i. known_total i rows, unknown_messages rows) r
      = (\<lambda>i. known_total i (rows @ [r]), unknown_messages (rows @ [r]))"
    unfolding flat_step_def known_snoc unknown_snoc attributed_def Let_def
    by (auto simp: fun_eq_iff known_total_def unknown_messages_def)
  then show ?case using snoc by simp
qed

text \<open>
  The totals per message are the sums over its rows: a message has a total exactly when it has rows and the
  count of each is known, the total is the sum of their output, input and reasoning tokens, and the messages reported
  as unknown are exactly those with a row whose count is missing; calls without owner count for no message.
\<close>

theorem flat_totals_are_row_sums:
  "getAllStatusTagTokenTotalsFlat db s load_floor =
     (let rows = filter (above_floor load_floor) (session_rows s db) in (\<lambda>i. known_total i rows, unknown_messages rows))"
  by (simp add: getAllStatusTagTokenTotalsFlat_def flat_fold Let_def)

lemma sum_rows_nonneg: "(\<And>r. r \<in> set rows \<Longrightarrow> 0 \<le> f r) \<Longrightarrow> 0 \<le> sum_rows f rows"
  by (induction rows) (auto simp: sum_rows_def)

lemma sum_rows_filter_le:
  assumes "\<And>r. r \<in> set rows \<Longrightarrow> 0 \<le> f r" "\<And>r. r \<in> set rows \<Longrightarrow> P r \<Longrightarrow> Q r"
  shows "sum_rows f (filter P rows) \<le> sum_rows f (filter Q rows)"
  using assms by (induction rows) (auto simp: sum_rows_def add_increasing)

lemma sum_known:
  assumes "finite M" "\<And>r. r \<in> set rows \<Longrightarrow> 0 \<le> row_tokens r"
  shows "(\<Sum>i\<in>M. case known_total i rows of None \<Rightarrow> 0 | Some n \<Rightarrow> n)
    \<le> sum_rows row_tokens (filter (\<lambda>r. attributed r \<and> ownerMessageIdForTagRow r \<in> M) rows)"
  using assms(1)
proof (induction M)
  case empty
  show ?case by (simp add: sum_rows_def)
next
  case (insert i M)
  have split: "sum_rows row_tokens (filter (\<lambda>r. attributed r \<and> ownerMessageIdForTagRow r \<in> insert i M) xs)
      = sum_rows row_tokens (rows_of i xs) + sum_rows row_tokens (filter (\<lambda>r. attributed r \<and> ownerMessageIdForTagRow r \<in> M) xs)" for xs
    using insert.hyps(2) by (induction xs) (auto simp: sum_rows_def rows_of_def)
  have "(case known_total i rows of None \<Rightarrow> 0 | Some n \<Rightarrow> n) \<le> sum_rows row_tokens (rows_of i rows)"
    using sum_rows_nonneg [of "rows_of i rows" row_tokens] assms(2) by (auto simp: known_total_def rows_of_def)
  then show ?case using insert split [of rows] by simp
qed

text \<open>
  The bound of the trigger covers the totals: when the counts are not negative and the rows of a set of messages
  are above the floor and none is compacted, the sum of the known totals of these messages is at most the bound.
\<close>

theorem trigger_bound_covers_totals:
  assumes "finite M" "\<forall>r\<in>set (session_rows s db). 0 \<le> row_tokens r"
    and "\<forall>r\<in>set (session_rows s db). ownerMessageIdForTagRow r \<in> M \<longrightarrow> tr_status r \<noteq> Compacted"
  shows "(\<Sum>i\<in>M. case fst (getAllStatusTagTokenTotalsFlat db s load_floor) i of None \<Rightarrow> 0 | Some n \<Rightarrow> n)
    \<le> fst (getTriggerTagTokenUpperBound db s load_floor)"
proof -
  let ?rows = "filter (above_floor load_floor) (session_rows s db)"
  have alive: "tr_status r \<in> {Active, Dropped} \<longleftrightarrow> tr_status r \<noteq> Compacted" for r by (cases "tr_status r") auto
  have e: "fst (getTriggerTagTokenUpperBound db s load_floor) = sum_rows row_tokens (filter (\<lambda>r. tr_status r \<noteq> Compacted) ?rows)"
    by (simp only: getTriggerTagTokenUpperBound_def Let_def fst_conv filter_filter alive conj_commute)
  have "(\<Sum>i\<in>M. case known_total i ?rows of None \<Rightarrow> 0 | Some n \<Rightarrow> n)
      \<le> sum_rows row_tokens (filter (\<lambda>r. attributed r \<and> ownerMessageIdForTagRow r \<in> M) ?rows)"
    by (rule sum_known [OF assms(1)]) (use assms(2) in auto)
  also have "\<dots> \<le> sum_rows row_tokens (filter (\<lambda>r. tr_status r \<noteq> Compacted) ?rows)"
    by (rule sum_rows_filter_le) (use assms(2,3) in auto)
  finally show ?thesis unfolding e getAllStatusTagTokenTotalsFlat_def flat_fold by simp
qed

definition example_rows :: tags_db where
  "example_rows = empty_tags\<lparr>tb_tags := [inserted_row 0 ''s'' ''c'' ToolTag 10 1 0 None 0 (Some ''m'') None
       (Some \<lparr>tk_tokenCount = Some 5, tk_inputTokenCount = Some 2, tk_reasoningTokenCount = None\<rparr>),
     inserted_row (-1) ''s'' ''m:p0'' MessageTag 10 2 0 None 0 None None None]\<rparr>"

theorem trigger_bound_covers_totals_witness:
  "(\<Sum>i\<in>{''m''}. case fst (getAllStatusTagTokenTotalsFlat example_rows ''s'' 0) i of None \<Rightarrow> 0 | Some n \<Rightarrow> n)
    \<le> fst (getTriggerTagTokenUpperBound example_rows ''s'' 0)"
  by (rule trigger_bound_covers_totals)
    (auto simp: example_rows_def empty_tags_def row_tokens_def inserted_row_def or_0_def)

section \<open>What a scoped load sees\<close>

lemma range_is_prefix: "(\<not> str_less i (raw @ '':'') \<and> str_less i (raw @ '';'')) \<longleftrightarrow> starts_with (raw @ '':'') i"
proof (induction raw arbitrary: i)
  case Nil
  have c: "(of_char c :: nat) < 59 \<and> \<not> of_char c < (58 :: nat) \<longleftrightarrow> c = CHR '':''" for c :: char
  proof -
    have "(of_char c :: nat) = 58 \<longleftrightarrow> c = CHR '':''" using of_char_eq_iff [of c "CHR '':''", where ?'a = nat] by simp
    then show ?thesis by auto
  qed
  show ?case
  proof (cases i)
    case (Cons c cs)
    then show ?thesis using c [of c] by (cases cs) (auto simp: starts_with_def)
  qed (simp add: starts_with_def)
next
  case (Cons r raw)
  show ?case
  proof (cases i)
    case i: (Cons c cs)
    show ?thesis using Cons.IH [of cs] i by (auto simp: starts_with_def)
  qed (simp add: starts_with_def)
qed

definition part_of_message :: "string \<Rightarrow> tag_row \<Rightarrow> bool" where
  "part_of_message raw r \<longleftrightarrow> starts_with (raw @ '':'') (tr_messageId r)"

text \<open>
  The ids of the wire that are probed, those of them with a stored part, and how many come before the first with one.
\<close>

definition has_parts :: "tags_db \<Rightarrow> string \<Rightarrow> string \<Rightarrow> bool" where
  "has_parts db s raw \<longleftrightarrow> CHR '':'' \<notin> set raw \<and> list_ex (part_of_message raw) (session_rows s db)"

definition wire_ids :: "string option list \<Rightarrow> string list" where
  "wire_ids ids = filter (\<lambda>i. i \<noteq> []) (List.map_filter id ids)"

definition probed_ids :: "nat \<Rightarrow> string option list \<Rightarrow> string list" where
  "probed_ids probes ids = take (TAGGER_FLOOR_MAX_PROBES - probes) (wire_ids ids)"

definition head_ids :: "tags_db \<Rightarrow> string \<Rightarrow> string option list \<Rightarrow> string list" where
  "head_ids db s ids = take TAGGER_FLOOR_SCAN_MESSAGES (filter (has_parts db s) (probed_ids 0 ids))"

definition ids_before_head :: "tags_db \<Rightarrow> string \<Rightarrow> string option list \<Rightarrow> nat" where
  "ids_before_head db s ids = length (takeWhile (\<lambda>i. \<not> has_parts db s i) (probed_ids 0 ids))"

lemma wire_ids_simps [simp]:
  "wire_ids [] = []"
  "wire_ids (None # ids) = wire_ids ids"
  "wire_ids (Some i # ids) = (if i = [] then wire_ids ids else i # wire_ids ids)"
  by (simp_all add: wire_ids_def List.map_filter_simps)

lemma min_number_cases:
  "getMinMessageTagNumberForRawId db s raw = None \<longleftrightarrow> \<not> has_parts db s raw"
  "(\<exists>m. getMinMessageTagNumberForRawId db s raw = Some m \<and> m \<le> n) \<longleftrightarrow>
     has_parts db s raw \<and> (\<exists>x\<in>set (session_rows s db). part_of_message raw x \<and> tr_tagNumber x \<le> n)"
proof -
  let ?rows = "filter (\<lambda>r. \<not> str_less (tr_messageId r) (raw @ '':'') \<and> str_less (tr_messageId r) (raw @ '';'')) (session_rows s db)"
  have rows: "set ?rows = {r \<in> set (session_rows s db). part_of_message raw r}"
    by (simp only: set_filter range_is_prefix part_of_message_def)
  have "?rows = [] \<longleftrightarrow> (\<forall>r\<in>set (session_rows s db). \<not> part_of_message raw r)"
    by (simp only: filter_empty_conv range_is_prefix part_of_message_def)
  then have none: "lowest ?rows = None \<longleftrightarrow> \<not> list_ex (part_of_message raw) (session_rows s db)"
    unfolding lowest_None list_ex_iff by blast
  then show "getMinMessageTagNumberForRawId db s raw = None \<longleftrightarrow> \<not> has_parts db s raw"
    by (auto simp: getMinMessageTagNumberForRawId_def has_parts_def)
  show "(\<exists>m. getMinMessageTagNumberForRawId db s raw = Some m \<and> m \<le> n) \<longleftrightarrow>
     has_parts db s raw \<and> (\<exists>x\<in>set (session_rows s db). part_of_message raw x \<and> tr_tagNumber x \<le> n)"
  proof (cases "lowest ?rows")
    case (Some y)
    have "y \<in> set ?rows" using Some by (rule lowest_Some)
    then have y: "y \<in> set (session_rows s db)" "part_of_message raw y" unfolding rows by auto
    have "x \<in> set ?rows \<Longrightarrow> tr_tagNumber y \<le> tr_tagNumber x" for x using lowest_least Some by blast
    then have least: "x \<in> set (session_rows s db) \<Longrightarrow> part_of_message raw x \<Longrightarrow> tr_tagNumber y \<le> tr_tagNumber x" for x
      unfolding rows by blast
    have "(\<exists>m. getMinMessageTagNumberForRawId db s raw = Some m \<and> m \<le> n) \<longleftrightarrow> CHR '':'' \<notin> set raw \<and> tr_tagNumber y \<le> n"
      using Some by (simp add: getMinMessageTagNumberForRawId_def)
    moreover have "(\<exists>x\<in>set (session_rows s db). part_of_message raw x \<and> tr_tagNumber x \<le> n) \<longleftrightarrow> tr_tagNumber y \<le> n"
      using y least order_trans by blast
    moreover have "list_ex (part_of_message raw) (session_rows s db)" using y by (auto simp: list_ex_iff)
    ultimately show ?thesis by (simp add: has_parts_def)
  qed (use none in \<open>auto simp: getMinMessageTagNumberForRawId_def has_parts_def\<close>)
qed

definition min_le :: "floor_scan \<Rightarrow> int \<Rightarrow> bool" where
  "min_le st n \<longleftrightarrow> (case fs_min st of None \<Rightarrow> False | Some m \<Rightarrow> m \<le> n)"

definition reached :: "tags_db \<Rightarrow> string \<Rightarrow> string list \<Rightarrow> int \<Rightarrow> bool" where
  "reached db s head n \<longleftrightarrow> (\<exists>i\<in>set head. \<exists>x\<in>set (session_rows s db). part_of_message i x \<and> tr_tagNumber x \<le> n)"

lemma reached_simps [simp]:
  "\<not> reached db s [] n"
  "reached db s (i # is) n \<longleftrightarrow> (\<exists>x\<in>set (session_rows s db). part_of_message i x \<and> tr_tagNumber x \<le> n) \<or> reached db s is n"
  by (auto simp: reached_def)

text \<open>What the scan finds, from any point of it on.\<close>

definition rest_ids :: "tags_db \<Rightarrow> string \<Rightarrow> string option list \<Rightarrow> floor_scan \<Rightarrow> string list" where
  "rest_ids db s ids st = take (TAGGER_FLOOR_SCAN_MESSAGES - fs_hits st) (filter (has_parts db s) (probed_ids (fs_probes st) ids))"

lemma probed_ids_Cons:
  "i \<noteq> [] \<Longrightarrow> probes < TAGGER_FLOOR_MAX_PROBES \<Longrightarrow> probed_ids probes (Some i # ids) = i # probed_ids (Suc probes) ids"
  by (simp add: probed_ids_def Suc_diff_Suc [symmetric] del: diff_Suc_Suc)

lemma scan_finds:
  assumes "fs_hits st < TAGGER_FLOOR_SCAN_MESSAGES"
  shows "(min_le (scan_floor db s ids st) n \<longleftrightarrow> min_le st n \<or> reached db s (rest_ids db s ids st) n)
    \<and> (fs_min (scan_floor db s ids st) = None \<longleftrightarrow> fs_min st = None \<and> rest_ids db s ids st = [])
    \<and> fs_skipped (scan_floor db s ids st) = fs_skipped st
        + (if fs_hits st = 0 then int (length (takeWhile (\<lambda>i. \<not> has_parts db s i) (probed_ids (fs_probes st) ids))) else 0)"
  using assms
proof (induction ids arbitrary: st)
  case Nil
  show ?case by (simp add: rest_ids_def probed_ids_def)
next
  case (Cons x ids)
  show ?case
  proof (cases "x = None \<or> x = Some []")
    case True
    then have "scan_step db s x st = (st, False)" "probed_ids k (x # ids) = probed_ids k ids" for k
      by (auto simp: scan_step_def probed_ids_def)
    then show ?thesis using Cons by (simp add: Let_def rest_ids_def)
  next
    case False
    then obtain i where i: "x = Some i" "i \<noteq> []" by auto
    show ?thesis
    proof (cases "TAGGER_FLOOR_MAX_PROBES \<le> fs_probes st")
      case True
      then show ?thesis using i by (simp add: Let_def scan_step_def rest_ids_def probed_ids_def)
    next
      case False
      then have pr: "probed_ids (fs_probes st) (x # ids) = i # probed_ids (Suc (fs_probes st)) ids" using i by (simp add: probed_ids_Cons)
      show ?thesis
      proof (cases "getMinMessageTagNumberForRawId db s i")
        case None
        let ?st = "st\<lparr>fs_probes := fs_probes st + 1, fs_skipped := fs_skipped st + (if fs_hits st = 0 then 1 else 0)\<rparr>"
        have "scan_step db s x st = (?st, False)" using i False None by (simp add: scan_step_def)
        moreover have "\<not> has_parts db s i" using None min_number_cases(1) by blast
        moreover have "min_le ?st n = min_le st n" by (simp add: min_le_def)
        ultimately show ?thesis using Cons.IH [of ?st] Cons.prems by (simp add: Let_def rest_ids_def pr)
      next
        case (Some m)
        let ?st = "st\<lparr>fs_probes := fs_probes st + 1, fs_min := Some (case fs_min st of None \<Rightarrow> m | Some k \<Rightarrow> min k m), fs_hits := fs_hits st + 1\<rparr>"
        have step: "scan_step db s x st = (?st, TAGGER_FLOOR_SCAN_MESSAGES \<le> fs_hits st + 1)" using i False Some by (simp add: scan_step_def)
        have h: "has_parts db s i" using Some min_number_cases(1) [of db s i] by simp
        have "(\<exists>m'. getMinMessageTagNumberForRawId db s i = Some m' \<and> m' \<le> n) \<longleftrightarrow> m \<le> n" using Some by simp
        then have le: "(\<exists>x\<in>set (session_rows s db). part_of_message i x \<and> tr_tagNumber x \<le> n) \<longleftrightarrow> m \<le> n"
          using min_number_cases(2) [of db s i n] h by blast
        have min: "min_le ?st n \<longleftrightarrow> min_le st n \<or> m \<le> n" by (auto simp: min_le_def split: option.split)
        have rest: "rest_ids db s (x # ids) st = i # take (TAGGER_FLOOR_SCAN_MESSAGES - Suc (fs_hits st)) (filter (has_parts db s) (probed_ids (Suc (fs_probes st)) ids))"
          using h Cons.prems by (simp add: rest_ids_def pr Suc_diff_Suc [symmetric] del: diff_Suc_Suc)
        show ?thesis
        proof (cases "TAGGER_FLOOR_SCAN_MESSAGES \<le> fs_hits st + 1")
          case True
          then show ?thesis using step min le h by (simp add: Let_def rest pr)
        next
          case F: False
          then show ?thesis using step min le h Cons.IH [of ?st] by (auto simp: Let_def rest pr) (simp_all add: rest_ids_def)
        qed
      qed
    qed
  qed
qed

text \<open>The rows that a load from the derived floor reaches.\<close>

definition wire_reaches :: "tags_db \<Rightarrow> string \<Rightarrow> string option list \<Rightarrow> int \<Rightarrow> bool" where
  "wire_reaches db s ids n \<longleftrightarrow> head_ids db s ids = []
     \<or> list_ex (\<lambda>i. list_ex (\<lambda>x. part_of_message i x \<and> tr_tagNumber x \<le> n + 256 + 64 * int (ids_before_head db s ids)) (session_rows s db))
         (head_ids db s ids)"

lemma floor_reaches:
  assumes "0 < n"
  shows "deriveTagLoadFloor db s ids \<le> n \<longleftrightarrow> wire_reaches db s ids n"
proof -
  let ?st = "\<lparr>fs_min = None, fs_probes = 0, fs_hits = 0, fs_skipped = 0\<rparr> :: floor_scan"
  let ?fin = "scan_floor db s ids ?st" and ?margin = "256 + 64 * int (ids_before_head db s ids)"
  have rest: "rest_ids db s ids ?st = head_ids db s ids" by (simp add: rest_ids_def head_ids_def)
  have f: "min_le ?fin k \<longleftrightarrow> reached db s (head_ids db s ids) k" "fs_min ?fin = None \<longleftrightarrow> head_ids db s ids = []"
    "fs_skipped ?fin = int (ids_before_head db s ids)" for k
    using scan_finds [of ?st db s ids k] by (simp_all add: rest ids_before_head_def min_le_def TAGGER_FLOOR_SCAN_MESSAGES_def)
  have "wire_reaches db s ids n \<longleftrightarrow> fs_min ?fin = None \<or> min_le ?fin (n + ?margin)"
    by (simp add: wire_reaches_def f reached_def list_ex_iff add.assoc)
  then show ?thesis
    using assms f(3) by (auto simp: deriveTagLoadFloor_def Let_def min_le_def config_simps split: option.splits)
qed

lemma load_row_adds:
  assumes "r \<in> set rows" "entity_key r = Some k"
  shows "\<exists>n. fst (foldl load_row (a, b) rows) k = Some n"
proof -
  have keep: "c k = Some n \<Longrightarrow> \<exists>n'. fst (foldl load_row (c, d) rs) k = Some n'" for rs c d n
  proof (induction rs arbitrary: c d n)
    case (Cons x rs)
    obtain c' d' where l: "load_row (c, d) x = (c', d')" by fastforce
    then have "\<exists>n'. c' k = Some n'" using Cons.prems by (auto simp: load_row_def split: option.splits if_splits)
    then show ?case using Cons.IH l by auto
  qed simp
  show ?thesis using assms(1)
  proof (induction rows arbitrary: a b)
    case (Cons x rs)
    obtain c d where l: "load_row (a, b) x = (c, d)" by fastforce
    show ?case
    proof (cases "x = r")
      case True
      then have "c k = Some (tr_tagNumber r)" using l assms(2) by (auto simp: load_row_def split: if_splits)
      then show ?thesis using keep l by simp
    next
      case False
      then show ?thesis using Cons l by simp
    qed
  qed simp
qed

lemma loaded_row:
  assumes "fst (foldl load_row (a, b) rows) k = Some n" "a k = None"
  shows "\<exists>r\<in>set rows. entity_key r = Some k"
  using assms
proof (induction rows arbitrary: a b)
  case (Cons x rs)
  obtain c d where l: "load_row (a, b) x = (c, d)" by fastforce
  show ?case
  proof (cases "entity_key x = Some k")
    case False
    then have "c k = None" using l Cons.prems(2) by (auto simp: load_row_def split: option.splits)
    then show ?thesis using Cons.IH [of c d] Cons.prems(1) l by auto
  qed simp
qed simp

text \<open>
  C22: What a load from the derived floor knows, for a wire of any length. A fresh tagger that loads from it knows an
  entity exactly if the entity has a stored row whose number is at least the lowest number among the parts of the head of
  the wire, less 256 and less 64 for every id before the head; the head are the first eight messages with a stored part
  among the first 64 ids, and without a head every row is loaded. So all parts of the messages of the head are known, and
  a part of a later message is known as long as its number is not further below the head's than that margin.
\<close>

theorem scoped_load_knows_the_wire:
  assumes "db_ok content db"
  shows "getTag s key (initFromDb s handle version (deriveTagLoadFloor db s ids) db fresh_tagger) \<noteq> None \<longleftrightarrow>
    (\<exists>r\<in>set (session_rows s db). isAssignmentRow r \<and> entity_key r = Some key \<and> wire_reaches db s ids (tr_tagNumber r))"
proof -
  let ?floor = "deriveTagLoadFloor db s ids" and ?rows = "assignment_rows s (deriveTagLoadFloor db s ids) db"
  have "?floor \<le> 0 \<or> ?floor \<le> tr_tagNumber r \<longleftrightarrow> wire_reaches db s ids (tr_tagNumber r)" if "r \<in> set (session_rows s db)" for r
  proof -
    have "0 < tr_tagNumber r" using assms that by (auto simp: db_ok_def tags_ok_def)
    with floor_reaches [OF this, of db s ids] show ?thesis by auto
  qed
  then have rows: "set ?rows = {r \<in> set (session_rows s db). isAssignmentRow r \<and> wire_reaches db s ids (tr_tagNumber r)}"
    by (auto simp: assignment_rows_def)
  have "(\<exists>n. fst (foldl load_row (Map.empty, Map.empty) ?rows) key = Some n) \<longleftrightarrow> (\<exists>r\<in>set ?rows. entity_key r = Some key)"
    using load_row_adds loaded_row by blast
  then have "getTag s key (initFromDb s handle version ?floor db fresh_tagger) \<noteq> None \<longleftrightarrow> (\<exists>r\<in>set ?rows. entity_key r = Some key)"
    by (simp add: getTag_def initFromDb_def Let_def fresh_tagger_def getSessionAssignments_def)
  then show ?thesis unfolding rows by blast
qed

lemma ordered_wire_is_known:
  assumes "db_ok content db" "r \<in> set (session_rows s db)" "isAssignmentRow r" "entity_key r = Some key"
    and "i \<in> set (head_ids db s ids)" "x \<in> set (session_rows s db)" "part_of_message i x" "tr_tagNumber x \<le> tr_tagNumber r + 256"
  shows "wire_reaches db s ids (tr_tagNumber r)"
  using assms(5-8) by (fastforce simp: wire_reaches_def list_ex_iff)

text \<open>The numbers 400 and 150 are known, of a message of the wire and of an older one; the number 140 is below the floor.\<close>

definition wire_row :: "int \<Rightarrow> string \<Rightarrow> int \<Rightarrow> tag_row" where
  "wire_row i key n = inserted_row i ''s'' key MessageTag 10 n 0 None 0 None None None"

definition example_wire :: tags_db where
  "example_wire = empty_tags\<lparr>tb_tags := [wire_row 0 ''a:p0'' 140, wire_row 1 ''b:p0'' 150, wire_row 2 ''m:p0'' 400], tb_nextId := 3\<rparr>"

theorem scoped_load_knows_the_wire_witness:
  "map (\<lambda>key. getTag ''s'' key (initFromDb ''s'' 0 1 (deriveTagLoadFloor example_wire ''s'' [Some ''m'', None, Some ''x'']) example_wire fresh_tagger) \<noteq> None)
     [''a:p0'', ''b:p0'', ''m:p0''] = [False, True, True]"
proof -
  let ?ids = "[Some ''m'', None, Some ''x'']"
  have ok: "db_ok example_content example_wire"
    by (simp add: db_ok_def tags_ok_def example_wire_def wire_row_def empty_tags_def unique_rows_def row_typed_def example_content_def
        same_number_def same_call_def inserted_row_def)
  have head: "head_ids example_wire ''s'' ?ids = [''m'']" "ids_before_head example_wire ''s'' ?ids = 0"
    by code_simp+
  have reach: "wire_reaches example_wire ''s'' ?ids n \<longleftrightarrow> 400 \<le> n + 256" for n
    unfolding wire_reaches_def head
    by (simp add: example_wire_def wire_row_def empty_tags_def part_of_message_def starts_with_def inserted_row_def session_rows_def)
  show ?thesis
    unfolding list.map scoped_load_knows_the_wire [OF ok] reach
    by (simp add: example_wire_def wire_row_def empty_tags_def isAssignmentRow_def entity_key_def inserted_row_def session_rows_def)
qed

end
