(* ===== verification/Mirror_Feed.thy ===== *)
theory Mirror_Feed
  imports Raw_Messages
begin

text \<open>
  The mirror of the module's change feed (\<open>features/magic-context/context-authority.ts\<close>): the tables of
  \<open>context.db\<close> that belong to it, the identities that join a row of the module to a local note, the application
  of one row and of one page of the feed, and the loop that pulls pages until the feed is exhausted. A page is
  applied in one transaction: an error in it leaves the database as it was, which is the left side of the sum.
\<close>

section \<open>Data\<close>

datatype authority_domain = Memories | Notes

definition AUTHORITY_DOMAINS :: "authority_domain list" where
  "AUTHORITY_DOMAINS = [Memories, Notes]"

text \<open>The properties of a JavaScript object, in their order; a row as \<open>SELECT *\<close> returns it is one, too.\<close>

type_synonym json_object = "(string \<times> json) list"

datatype feed_op = FeedInsert | FeedUpdate | FeedTombstone

record changefeed_row =
  fr_feed_seq :: int
  fr_domain :: authority_domain
  fr_op :: feed_op
  fr_module_row_id :: int
  fr_full_row_snapshot :: json_object
  fr_content_hash :: "string option"

record changefeed_page =
  cp_domain :: authority_domain
  cp_cursor :: int
  cp_next_cursor :: int
  cp_has_more :: bool
  cp_rows :: "changefeed_row list"

record managed_marker =
  mm_context_store_uuid :: string
  mm_marked_at :: int

record capture_bounds =
  cb_max_rowid :: int
  cb_mutation_epoch :: int
  cb_captured_at :: int

record mirror_ident =
  mi_domain :: authority_domain
  mi_module_project :: string
  mi_module_row_id :: int
  mi_context_row_id :: int

record mirror_position =
  mp_cursor :: int
  mp_updated_at :: int

record note_revision =
  nv_module_project :: string
  nv_module_row_id :: int
  nv_context_row_id :: int
  nv_status_version :: real

record note_row =
  nr_id :: int
  nr_columns :: json_object

text \<open>
  The tables. The keyed ones are association lists over their primary key; \<open>ad_noteSeq\<close> is the last identifier
  the table of notes has given out.
\<close>

record authority_db =
  ad_uuid :: "string option"
  ad_managed :: "(string \<times> managed_marker) list"
  ad_pending :: "(string \<times> int) list"
  ad_bounds :: "((string \<times> authority_domain) \<times> capture_bounds) list"
  ad_epochs :: "((string \<times> authority_domain) \<times> int) list"
  ad_identities :: "mirror_ident list"
  ad_cursors :: "(authority_domain \<times> mirror_position) list"
  ad_revisions :: "note_revision list"
  ad_notes :: "note_row list"
  ad_noteSeq :: int
  ad_sessions :: "(string \<times> string) list"

datatype mirror_error =
  NoProjectPath
  | CheckFailed
  | UnsupportedDomain authority_domain
  | CursorMismatch int int
  | CursorBackwards

section \<open>Reading a snapshot\<close>

definition rowNumber :: "json_object \<Rightarrow> string \<Rightarrow> real \<Rightarrow> real" where
  "rowNumber row key fallback = (case map_of row key of Some (JNum x) \<Rightarrow> x | _ \<Rightarrow> fallback)"

definition rowString :: "json_object \<Rightarrow> string \<Rightarrow> string \<Rightarrow> string" where
  "rowString row key fallback = (case map_of row key of Some (JStr s) \<Rightarrow> s | _ \<Rightarrow> fallback)"

definition rowNullableString :: "json_object \<Rightarrow> string \<Rightarrow> string option" where
  "rowNullableString row key = (case map_of row key of Some (JStr s) \<Rightarrow> Some s | _ \<Rightarrow> None)"

definition hasSnapshotField :: "json_object \<Rightarrow> string \<Rightarrow> bool" where
  "hasSnapshotField row key \<longleftrightarrow> map_of row key \<noteq> None"

text \<open>\<open>typeof row.key === "number" ? row.key : null\<close>, and the values of bound parameters.\<close>

definition rowNullableNumber :: "json_object \<Rightarrow> string \<Rightarrow> real option" where
  "rowNullableNumber row key = (case map_of row key of Some (JNum x) \<Rightarrow> Some x | _ \<Rightarrow> None)"

definition sql_text :: "string option \<Rightarrow> json" where
  "sql_text v = (case v of None \<Rightarrow> JNull | Some s \<Rightarrow> JStr s)"

definition sql_number :: "real option \<Rightarrow> json" where
  "sql_number v = (case v of None \<Rightarrow> JNull | Some x \<Rightarrow> JNum x)"

text \<open>\<open>{ ...a, ...b }\<close>\<close>

definition spread :: "json_object \<Rightarrow> json_object \<Rightarrow> json_object" where
  "spread a b = foldl (\<lambda>m e. jsmap_set (fst e) (snd e) m) a b"

section \<open>The store and its cursors\<close>

definition getContextStoreUuid :: "authority_db \<Rightarrow> string option" where
  "getContextStoreUuid db = (case ad_uuid db of Some u \<Rightarrow> (if u = [] then None else Some u) | None \<Rightarrow> None)"

text \<open>\<open>minted\<close> is the fresh identifier the caller draws.\<close>

definition ensureContextStoreUuid :: "string \<Rightarrow> authority_db \<Rightarrow> authority_db \<times> string" where
  "ensureContextStoreUuid minted db =
     (case getContextStoreUuid db of
        Some u \<Rightarrow> (db, u)
      | None \<Rightarrow>
          (let db' = (case ad_uuid db of None \<Rightarrow> db\<lparr>ad_uuid := Some minted\<rparr> | Some _ \<Rightarrow> db)
           in (db', case getContextStoreUuid db' of Some u \<Rightarrow> u | None \<Rightarrow> minted)))"

definition getMirrorCursor :: "authority_db \<Rightarrow> authority_domain \<Rightarrow> int" where
  "getMirrorCursor db domain = (case map_of (ad_cursors db) domain of None \<Rightarrow> 0 | Some c \<Rightarrow> mp_cursor c)"

definition put_cursor :: "int \<Rightarrow> authority_domain \<Rightarrow> int \<Rightarrow> authority_db \<Rightarrow> authority_db" where
  "put_cursor now domain cursor db =
     db\<lparr>ad_cursors := jsmap_set domain \<lparr>mp_cursor = cursor, mp_updated_at = now\<rparr> (ad_cursors db)\<rparr>"

definition readDomainMutationEpoch :: "authority_db \<Rightarrow> string \<Rightarrow> authority_domain \<Rightarrow> int" where
  "readDomainMutationEpoch db projectPath domain =
     (case map_of (ad_epochs db) (projectPath, domain) of None \<Rightarrow> 0 | Some e \<Rightarrow> e)"

definition bumpDomainMutationEpoch :: "string \<Rightarrow> authority_domain \<Rightarrow> authority_db \<Rightarrow> authority_db" where
  "bumpDomainMutationEpoch projectPath domain db =
     db\<lparr>ad_epochs := jsmap_set (projectPath, domain) (readDomainMutationEpoch db projectPath domain + 1) (ad_epochs db)\<rparr>"

section \<open>Identities\<close>

definition is_identity :: "authority_domain \<Rightarrow> string \<Rightarrow> int \<Rightarrow> mirror_ident \<Rightarrow> bool" where
  "is_identity domain moduleProject moduleRowId i \<longleftrightarrow>
     mi_domain i = domain \<and> mi_module_project i = moduleProject \<and> mi_module_row_id i = moduleRowId"

definition of_context_row :: "authority_domain \<Rightarrow> int \<Rightarrow> mirror_ident \<Rightarrow> bool" where
  "of_context_row domain contextRowId i \<longleftrightarrow> mi_domain i = domain \<and> mi_context_row_id i = contextRowId"

definition mirrorIdentity :: "authority_db \<Rightarrow> authority_domain \<Rightarrow> string \<Rightarrow> int \<Rightarrow> int option" where
  "mirrorIdentity db domain moduleProject moduleRowId =
     map_option mi_context_row_id (find (is_identity domain moduleProject moduleRowId) (ad_identities db))"

text \<open>\<open>INSERT OR IGNORE\<close>: a row that breaks one of the two unique keys is not inserted.\<close>

definition insert_identity :: "mirror_ident \<Rightarrow> authority_db \<Rightarrow> authority_db" where
  "insert_identity i db =
     (if \<exists>j\<in>set (ad_identities db). is_identity (mi_domain i) (mi_module_project i) (mi_module_row_id i) j
           \<or> of_context_row (mi_domain i) (mi_context_row_id i) j
      then db else db\<lparr>ad_identities := ad_identities db @ [i]\<rparr>)"

definition rememberIdentity :: "authority_domain \<Rightarrow> string \<Rightarrow> int \<Rightarrow> int \<Rightarrow> authority_db \<Rightarrow> authority_db" where
  "rememberIdentity domain moduleProject moduleRowId contextRowId db =
     (if mirrorIdentity db domain moduleProject moduleRowId \<noteq> None then db
      else insert_identity \<lparr>mi_domain = domain, mi_module_project = moduleProject, mi_module_row_id = moduleRowId,
                             mi_context_row_id = contextRowId\<rparr>
             (if domain = Notes
              then db\<lparr>ad_identities := filter (\<lambda>i. \<not> of_context_row domain contextRowId i) (ad_identities db)\<rparr>
              else db))"

section \<open>Notes\<close>

definition note_by_id :: "authority_db \<Rightarrow> int \<Rightarrow> note_row option" where
  "note_by_id db noteId = find (\<lambda>n. nr_id n = noteId) (ad_notes db)"

text \<open>A new row: the columns the statement names, and the defaults of the others.\<close>

definition inserted_note :: "int \<Rightarrow> string \<Rightarrow> string option \<Rightarrow> note_row" where
  "inserted_note noteId moduleProject sessionId = \<lparr>nr_id = noteId, nr_columns =
     [(''type'', JStr ''smart''), (''status'', JStr ''active''), (''content'', JStr []), (''session_id'', sql_text sessionId),
      (''project_path'', JStr moduleProject), (''surface_condition'', JNull), (''created_at'', JNum 0),
      (''updated_at'', JNum 0), (''last_checked_at'', JNull), (''ready_at'', JNull), (''ready_reason'', JNull),
      (''compiled_provider'', JNull), (''compiled_config'', JNull), (''compiled_at'', JNull), (''compile_status'', JNull),
      (''harness'', JStr ''opencode''), (''anchor_ordinal'', JNull), (''compiled_check'', JNull), (''manifest_json'', JNull),
      (''check_hash'', JNull), (''check_cron'', JNull), (''check_version'', JNum 0), (''check_status'', JStr ''uncompiled''),
      (''check_failure_count'', JNum 0), (''check_network_failure_count'', JNum 0), (''check_quarantined_until'', JNull),
      (''check_next_due_at'', JNull), (''check_compiled_at'', JNull), (''check_false_since_at'', JNull),
      (''check_last_liveness_at'', JNull), (''policy_version'', JNum 1), (''anchor_block_id'', JNull),
      (''source_revision'', JNum 0), (''state_version'', JNum 0)]\<rparr>"

definition insert_note :: "string \<Rightarrow> string option \<Rightarrow> authority_db \<Rightarrow> authority_db \<times> int" where
  "insert_note moduleProject sessionId db =
     (let noteId = ad_noteSeq db + 1
      in (db\<lparr>ad_notes := ad_notes db @ [inserted_note noteId moduleProject sessionId], ad_noteSeq := noteId\<rparr>, noteId))"

definition note_of_store :: "authority_db \<Rightarrow> real \<Rightarrow> string \<Rightarrow> int option" where
  "note_of_store db sourceId moduleProject =
     map_option nr_id (find (\<lambda>n. of_int (nr_id n) = sourceId \<and> map_of (nr_columns n) ''type'' = Some (JStr ''smart'')
       \<and> map_of (nr_columns n) ''project_path'' = Some (JStr moduleProject)) (ad_notes db))"

text \<open>The identifier of the note a row of the feed stands for: mapped, named by the row itself, or new.\<close>

definition contextNoteId :: "authority_db \<Rightarrow> changefeed_row \<Rightarrow> string \<Rightarrow> authority_db \<times> int" where
  "contextNoteId db feed moduleProject =
     (case mirrorIdentity db (fr_domain feed) moduleProject (fr_module_row_id feed) of
        Some contextRowId \<Rightarrow> (db, contextRowId)
      | None \<Rightarrow>
          (let row = fr_full_row_snapshot feed;
               sourceId = rowNumber row ''context_row_id'' (- 1);
               sourceUuid = rowNullableString row ''context_store_uuid'';
               existing = (if sourceUuid \<noteq> None \<and> sourceUuid \<noteq> Some [] \<and> sourceUuid = getContextStoreUuid db \<and> 0 \<le> sourceId
                           then note_of_store db sourceId moduleProject else None)
           in case existing of
                Some noteId \<Rightarrow> (rememberIdentity (fr_domain feed) moduleProject (fr_module_row_id feed) noteId db, noteId)
              | None \<Rightarrow>
                  (let (db', contextId) = insert_note moduleProject (rowNullableString row ''session_id'') db
                   in (rememberIdentity (fr_domain feed) moduleProject (fr_module_row_id feed) contextId db', contextId))))"

text \<open>The snapshot laid over the row that is already there.\<close>

definition select_note :: "note_row \<Rightarrow> json_object" where
  "select_note n = (''id'', JNum (of_int (nr_id n))) # nr_columns n"

definition keep_time :: "note_row option \<Rightarrow> json_object \<Rightarrow> string \<Rightarrow> string \<Rightarrow> json_object \<Rightarrow> json_object" where
  "keep_time existing row field column effective =
     (case Option.bind existing (\<lambda>n. map_of (select_note n) column) of
        Some v \<Rightarrow> (if hasSnapshotField row field then effective else jsmap_set field v effective)
      | None \<Rightarrow> effective)"

definition effective_row :: "note_row option \<Rightarrow> json_object \<Rightarrow> json_object" where
  "effective_row existing row =
     keep_time existing row ''updated_at_ms'' ''updated_at''
       (keep_time existing row ''created_at_ms'' ''created_at''
         (spread (case existing of None \<Rightarrow> [] | Some n \<Rightarrow> select_note n) row))"

definition context_status :: "string \<Rightarrow> string" where
  "context_status moduleStatus =
     (if moduleStatus = ''surfaced'' \<or> moduleStatus = ''surfacing'' then ''ready'' else moduleStatus)"

definition note_values :: "string \<Rightarrow> json_object \<Rightarrow> json_object" where
  "note_values moduleProject effectiveRow =
     [(''type'', JStr (rowString effectiveRow ''type'' ''smart'')),
      (''status'', JStr (context_status (rowString effectiveRow ''status'' ''active''))),
      (''project_path'', JStr moduleProject),
      (''session_id'', sql_text (rowNullableString effectiveRow ''session_id'')),
      (''content'', JStr (rowString effectiveRow ''content'' [])),
      (''surface_condition'', sql_text (rowNullableString effectiveRow ''surface_condition'')),
      (''compiled_provider'', sql_text (rowNullableString effectiveRow ''compiled_provider'')),
      (''compiled_config'', sql_text (rowNullableString effectiveRow ''compiled_config'')),
      (''compiled_at'', sql_number (rowNullableNumber effectiveRow ''compiled_at'')),
      (''compile_status'', sql_text (rowNullableString effectiveRow ''compile_status'')),
      (''ready_at'', sql_number (rowNullableNumber effectiveRow ''ready_at'')),
      (''ready_reason'', sql_text (rowNullableString effectiveRow ''ready_reason'')),
      (''manifest_json'', sql_text (rowNullableString effectiveRow ''manifest_json'')),
      (''compiled_check'', sql_text (rowNullableString effectiveRow ''compiled_check'')),
      (''check_hash'', sql_text (rowNullableString effectiveRow ''check_hash'')),
      (''check_cron'', sql_text (rowNullableString effectiveRow ''check_cron'')),
      (''check_failure_count'', JNum (rowNumber effectiveRow ''check_failure_count'' 0)),
      (''check_network_failure_count'', JNum (rowNumber effectiveRow ''check_network_failure_count'' 0)),
      (''check_quarantined_until'', sql_number (rowNullableNumber effectiveRow ''check_quarantined_until'')),
      (''check_next_due_at'', sql_number (rowNullableNumber effectiveRow ''check_next_due_at'')),
      (''check_compiled_at'', sql_number (rowNullableNumber effectiveRow ''check_compiled_at'')),
      (''check_false_since_at'', sql_number (rowNullableNumber effectiveRow ''check_false_since_at'')),
      (''check_last_liveness_at'', sql_number (rowNullableNumber effectiveRow ''check_last_liveness_at'')),
      (''last_checked_at'', sql_number (rowNullableNumber effectiveRow ''last_checked_at'')),
      (''check_status'', JStr (rowString effectiveRow ''check_status'' ''uncompiled'')),
      (''check_version'', JNum (rowNumber effectiveRow ''check_version'' 0)),
      (''policy_version'', JNum (rowNumber effectiveRow ''policy_version'' 1)),
      (''anchor_block_id'', sql_text (rowNullableString effectiveRow ''anchor_block_id'')),
      (''anchor_ordinal'', sql_number (rowNullableNumber effectiveRow ''anchor_ordinal'')),
      (''created_at'', JNum (rowNumber effectiveRow ''created_at_ms'' 0)),
      (''updated_at'', JNum (rowNumber effectiveRow ''updated_at_ms'' 0)),
      (''source_revision'', JNum (rowNumber effectiveRow ''source_revision'' 0)),
      (''state_version'', JNum (rowNumber effectiveRow ''state_version'' 0))]"

text \<open>The update of one note; the table checks the values of \<open>compile_status\<close>.\<close>

definition compile_status_ok :: "json_object \<Rightarrow> bool" where
  "compile_status_ok values \<longleftrightarrow>
     map_of values ''compile_status'' \<in> {Some JNull, Some (JStr ''compiled''), Some (JStr ''plain''), Some (JStr ''refused'')}"

definition update_note :: "int \<Rightarrow> json_object \<Rightarrow> authority_db \<Rightarrow> mirror_error + authority_db" where
  "update_note noteId values db =
     (if note_by_id db noteId \<noteq> None \<and> \<not> compile_status_ok values then Inl CheckFailed
      else Inr (db\<lparr>ad_notes := map (\<lambda>n. if nr_id n = noteId then n\<lparr>nr_columns := spread (nr_columns n) values\<rparr> else n)
                               (ad_notes db)\<rparr>))"

text \<open>\<open>INSERT OR REPLACE\<close>: rows that break one of the two unique keys give way.\<close>

definition upsert_revision :: "note_revision \<Rightarrow> authority_db \<Rightarrow> authority_db" where
  "upsert_revision v db =
     db\<lparr>ad_revisions := filter (\<lambda>w. \<not> (nv_module_project w = nv_module_project v \<and> nv_module_row_id w = nv_module_row_id v)
                               \<and> nv_context_row_id w \<noteq> nv_context_row_id v) (ad_revisions db) @ [v]\<rparr>"

definition drop_mirrored_note :: "authority_domain \<Rightarrow> string \<Rightarrow> int \<Rightarrow> int \<Rightarrow> authority_db \<Rightarrow> authority_db" where
  "drop_mirrored_note domain moduleProject moduleRowId contextRowId db =
     db\<lparr>ad_notes := filter (\<lambda>n. nr_id n \<noteq> contextRowId) (ad_notes db),
        ad_identities := filter (\<lambda>i. \<not> is_identity domain moduleProject moduleRowId i) (ad_identities db),
        ad_revisions := filter (\<lambda>v. \<not> (nv_module_project v = moduleProject \<and> nv_module_row_id v = moduleRowId)) (ad_revisions db)\<rparr>"

definition applyNoteRow :: "authority_db \<Rightarrow> changefeed_row \<Rightarrow> mirror_error + authority_db" where
  "applyNoteRow db feed =
     (let row = fr_full_row_snapshot feed; moduleProject = rowString row ''project_path'' []
      in if moduleProject = [] then Inl NoProjectPath
         else if fr_op feed = FeedTombstone then
           (case mirrorIdentity db (fr_domain feed) moduleProject (fr_module_row_id feed) of
              None \<Rightarrow> Inr db
            | Some contextRowId \<Rightarrow> Inr (drop_mirrored_note (fr_domain feed) moduleProject (fr_module_row_id feed) contextRowId db))
         else
           (let (db', contextId) = contextNoteId db feed moduleProject;
                effectiveRow = effective_row (note_by_id db' contextId) row
            in case update_note contextId (note_values moduleProject effectiveRow) db' of
                 Inl e \<Rightarrow> Inl e
               | Inr db'' \<Rightarrow> Inr (upsert_revision \<lparr>nv_module_project = moduleProject, nv_module_row_id = fr_module_row_id feed,
                     nv_context_row_id = contextId, nv_status_version = rowNumber effectiveRow ''status_version'' 0\<rparr> db'')))"

section \<open>Pages\<close>

text \<open>The rows of a page that are new, each applied once, in the order of the page.\<close>

primrec apply_rows ::
  "authority_domain \<Rightarrow> changefeed_row list \<Rightarrow> authority_db \<times> int \<times> string list
   \<Rightarrow> mirror_error + authority_db \<times> int \<times> string list" where
  "apply_rows domain [] s = Inr s"
| "apply_rows domain (feed # rows) s =
     (case s of (db, nextCursor, touched) \<Rightarrow>
        if fr_domain feed \<noteq> domain \<or> fr_feed_seq feed \<le> nextCursor then apply_rows domain rows s
        else
          (let projectPath = rowString (fr_full_row_snapshot feed) ''project_path'' []
           in case applyNoteRow db feed of
                Inl e \<Rightarrow> Inl e
              | Inr db' \<Rightarrow> apply_rows domain rows (db', fr_feed_seq feed,
                  if projectPath = [] \<or> projectPath \<in> set touched then touched else touched @ [projectPath])))"

definition bump_touched :: "authority_domain \<Rightarrow> string list \<Rightarrow> authority_db \<Rightarrow> authority_db" where
  "bump_touched domain touched db = fold (\<lambda>p. bumpDomainMutationEpoch p domain) touched db"

definition applyMirrorPage :: "int \<Rightarrow> authority_db \<Rightarrow> changefeed_page \<Rightarrow> mirror_error + authority_db \<times> int" where
  "applyMirrorPage now db page =
     (let domain = cp_domain page; durableCursor = getMirrorCursor db domain
      in if domain \<noteq> Notes then Inl (UnsupportedDomain domain)
         else if cp_cursor page \<noteq> durableCursor then Inl (CursorMismatch durableCursor (cp_cursor page))
         else if cp_next_cursor page < durableCursor then Inl CursorBackwards
         else if \<not> (\<exists>feed\<in>set (cp_rows page). fr_domain feed = domain \<and> durableCursor < fr_feed_seq feed)
         then if cp_next_cursor page \<le> durableCursor then Inr (db, durableCursor)
              else Inr (put_cursor now domain (cp_next_cursor page) db, cp_next_cursor page)
         else
           (case apply_rows domain (cp_rows page) (db, durableCursor, []) of
              Inl e \<Rightarrow> Inl e
            | Inr (db', nextCursor, touched) \<Rightarrow>
                if cp_next_cursor page < nextCursor then Inl CursorBackwards
                else (let next = max nextCursor (cp_next_cursor page)
                      in Inr (put_cursor now domain next (bump_touched domain touched db'), next))))"

text \<open>
  \<open>runModuleDomainSync\<close>: pages are pulled and applied until the module has no more or the cursor stands still.
  \<open>pull\<close> is the module's route, a parameter; \<open>None\<close> means that the fuel did not suffice.
\<close>

datatype 'e sync_error = PullFailed 'e | PageFailed mirror_error

fun sync_pages ::
  "('m \<Rightarrow> authority_domain \<Rightarrow> int \<Rightarrow> int \<Rightarrow> 'm \<times> ('e + changefeed_page)) \<Rightarrow> nat \<Rightarrow> int \<Rightarrow> authority_domain \<Rightarrow> 'm \<Rightarrow> authority_db
   \<Rightarrow> ('m \<times> authority_db \<times> 'e sync_error option) option" where
  "sync_pages pull 0 now domain m db = None"
| "sync_pages pull (Suc fuel) now domain m db =
     (let cursor = getMirrorCursor db domain
      in case pull m domain cursor 1000 of
           (m', Inl e) \<Rightarrow> Some (m', db, Some (PullFailed e))
         | (m', Inr page) \<Rightarrow>
             (case applyMirrorPage now db page of
                Inl e \<Rightarrow> Some (m', db, Some (PageFailed e))
              | Inr (db', next) \<Rightarrow>
                  if \<not> cp_has_more page \<or> next = cursor then Some (m', db', None)
                  else sync_pages pull fuel now domain m' db'))"

section \<open>The invariant of the mirror\<close>

definition ident_entry :: "mirror_ident \<Rightarrow> (authority_domain \<times> string \<times> int) \<times> int" where
  "ident_entry i = ((mi_domain i, mi_module_project i, mi_module_row_id i), mi_context_row_id i)"

definition local_key :: "mirror_ident \<Rightarrow> authority_domain \<times> int" where
  "local_key i = (mi_domain i, mi_context_row_id i)"

definition revision_key :: "note_revision \<Rightarrow> string \<times> int" where
  "revision_key v = (nv_module_project v, nv_module_row_id v)"

definition mirror_ok :: "authority_db \<Rightarrow> bool" where
  "mirror_ok db \<longleftrightarrow>
     distinct (map (fst \<circ> ident_entry) (ad_identities db)) \<and> distinct (map local_key (ad_identities db)) \<and>
     distinct (map revision_key (ad_revisions db)) \<and> distinct (map nv_context_row_id (ad_revisions db)) \<and>
     distinct (map nr_id (ad_notes db)) \<and> (\<forall>n\<in>set (ad_notes db). nr_id n \<le> ad_noteSeq db) \<and>
     (\<forall>i\<in>set (ad_identities db). mi_domain i = Notes \<longrightarrow> mi_context_row_id i \<le> ad_noteSeq db)"

text \<open>The note that mirrors a row of the module.\<close>

definition mirrored :: "authority_db \<Rightarrow> string \<Rightarrow> int \<Rightarrow> note_row option" where
  "mirrored db moduleProject moduleRowId =
     Option.bind (mirrorIdentity db Notes moduleProject moduleRowId) (note_by_id db)"

subsection \<open>Identities as a map\<close>

lemma ident_entry_parts [simp]:
  "fst (ident_entry i) = (mi_domain i, mi_module_project i, mi_module_row_id i)" "snd (ident_entry i) = mi_context_row_id i"
  by (simp_all add: ident_entry_def)

lemma mirrorIdentity_map:
  "mirrorIdentity db d p m = map_of (map ident_entry (ad_identities db)) (d, p, m)"
proof -
  have "map_option mi_context_row_id (find (is_identity d p m) is) = map_of (map ident_entry is) (d, p, m)" for "is"
    by (induction "is") (auto simp: is_identity_def ident_entry_def)
  then show ?thesis by (simp add: mirrorIdentity_def)
qed

lemma ident_mem:
  assumes "mirror_ok db"
  shows "mirrorIdentity db d p m = Some c \<longleftrightarrow> (\<exists>i\<in>set (ad_identities db). ident_entry i = ((d, p, m), c))"
proof -
  have "distinct (map fst (map ident_entry (ad_identities db)))" using assms by (simp add: mirror_ok_def)
  then show ?thesis by (simp add: mirrorIdentity_map map_of_eq_Some_iff image_iff eq_commute)
qed

lemma ident_inj:
  assumes ok: "mirror_ok db" and a: "mirrorIdentity db d p m = Some c" and b: "mirrorIdentity db d p' m' = Some c"
  shows "p' = p \<and> m' = m"
proof -
  obtain i j where ij: "i \<in> set (ad_identities db)" "j \<in> set (ad_identities db)"
      "ident_entry i = ((d, p, m), c)" "ident_entry j = ((d, p', m'), c)"
    using a b ok by (auto simp: ident_mem)
  then have "local_key i = local_key j" by (simp add: ident_entry_def local_key_def)
  moreover have "inj_on local_key (set (ad_identities db))" using ok by (simp add: mirror_ok_def distinct_map)
  ultimately have "i = j" using ij(1,2) by (auto dest: inj_onD)
  with ij(3,4) show ?thesis by simp
qed

lemma ident_seq: "mirror_ok db \<Longrightarrow> mirrorIdentity db Notes p m = Some c \<Longrightarrow> c \<le> ad_noteSeq db"
  by (auto simp: ident_mem mirror_ok_def ident_entry_def)

lemma insert_identity_fresh:
  assumes "mirror_ok db" "mirrorIdentity db (mi_domain i) (mi_module_project i) (mi_module_row_id i) = None"
    "\<forall>j\<in>set (ad_identities db). \<not> of_context_row (mi_domain i) (mi_context_row_id i) j"
  shows "insert_identity i db = db\<lparr>ad_identities := ad_identities db @ [i]\<rparr>"
  using assms by (auto simp: insert_identity_def mirrorIdentity_def find_None_iff)

lemma distinct_map_filter_if: "distinct (map f xs) \<Longrightarrow> distinct (map f (filter P xs))"
  by (simp add: distinct_map_filter)

lemma mirror_ok_identities:
  assumes "mirror_ok db" "set is \<subseteq> set (ad_identities db)" "distinct (map (fst \<circ> ident_entry) is)" "distinct (map local_key is)"
  shows "mirror_ok (db\<lparr>ad_identities := is\<rparr>)"
  using assms by (auto simp: mirror_ok_def)

lemma remember_cases:
  assumes ok: "mirror_ok db" and none: "mirrorIdentity db Notes p m = None"
  shows "rememberIdentity Notes p m c db = db\<lparr>ad_identities := filter (\<lambda>i. \<not> of_context_row Notes c i) (ad_identities db)
           @ [\<lparr>mi_domain = Notes, mi_module_project = p, mi_module_row_id = m, mi_context_row_id = c\<rparr>]\<rparr>"
proof -
  let ?db = "db\<lparr>ad_identities := filter (\<lambda>i. \<not> of_context_row Notes c i) (ad_identities db)\<rparr>"
  have "mirror_ok ?db"
    using ok by (intro mirror_ok_identities) (auto simp: mirror_ok_def intro!: distinct_map_filter_if)
  moreover have "mirrorIdentity ?db Notes p m = None"
    using none by (auto simp: mirrorIdentity_def find_None_iff)
  ultimately show ?thesis
    using none by (simp add: rememberIdentity_def insert_identity_fresh)
qed

lemma remember_map:
  assumes ok: "mirror_ok db" and none: "mirrorIdentity db Notes p m = None"
  shows "mirrorIdentity (rememberIdentity Notes p m c db) Notes p' m' =
    (if p' = p \<and> m' = m then Some c
     else if mirrorIdentity db Notes p' m' = Some c then None else mirrorIdentity db Notes p' m')"
proof -
  have fil: "map_of (map ident_entry (filter (\<lambda>i. \<not> of_context_row Notes c i) is)) (Notes, q, k) =
     (if map_of (map ident_entry is) (Notes, q, k) = Some c then None else map_of (map ident_entry is) (Notes, q, k))"
    if "distinct (map (fst \<circ> ident_entry) is)" for q k "is"
    using that
  proof (induction "is")
    case (Cons i "is")
    have "map_of (map ident_entry is) (fst (ident_entry i)) = None"
      using Cons.prems by (auto simp: map_of_eq_None_iff)
    then show ?case using Cons by (auto simp: of_context_row_def)
  qed simp
  have "distinct (map (fst \<circ> ident_entry) (ad_identities db))" using ok by (simp add: mirror_ok_def)
  note fil = fil [OF this]
  show ?thesis
    using none by (simp add: remember_cases [OF ok none] mirrorIdentity_map fil map_add_def ident_entry_def split: option.splits)
qed

lemma remember_known: "mirrorIdentity db d p m = Some c' \<Longrightarrow> rememberIdentity d p m c db = db"
  by (simp add: rememberIdentity_def)

lemma remember_ok:
  assumes ok: "mirror_ok db" and c: "c \<le> ad_noteSeq db"
  shows "mirror_ok (rememberIdentity Notes p m c db)"
proof (cases "mirrorIdentity db Notes p m")
  case None
  let ?is = "filter (\<lambda>i. \<not> of_context_row Notes c i) (ad_identities db)"
  let ?i = "\<lparr>mi_domain = Notes, mi_module_project = p, mi_module_row_id = m, mi_context_row_id = c\<rparr>"
  have k: "distinct (map (fst \<circ> ident_entry) (?is @ [?i]))"
    using ok None by (auto simp: mirror_ok_def distinct_map_filter mirrorIdentity_map map_of_eq_None_iff ident_entry_def image_iff)
  have l: "distinct (map local_key (?is @ [?i]))"
    using ok by (auto simp: mirror_ok_def distinct_map_filter local_key_def of_context_row_def)
  show ?thesis unfolding remember_cases [OF ok None] using ok k l c by (auto simp: mirror_ok_def)
qed (simp add: remember_known ok)

lemma remember_other [simp]:
  "ad_notes (rememberIdentity d p m c db) = ad_notes db" "ad_noteSeq (rememberIdentity d p m c db) = ad_noteSeq db"
  "ad_revisions (rememberIdentity d p m c db) = ad_revisions db" "ad_cursors (rememberIdentity d p m c db) = ad_cursors db"
  "ad_uuid (rememberIdentity d p m c db) = ad_uuid db" "ad_managed (rememberIdentity d p m c db) = ad_managed db"
  "ad_epochs (rememberIdentity d p m c db) = ad_epochs db" "ad_bounds (rememberIdentity d p m c db) = ad_bounds db"
  "ad_pending (rememberIdentity d p m c db) = ad_pending db" "ad_sessions (rememberIdentity d p m c db) = ad_sessions db"
  by (auto simp: rememberIdentity_def insert_identity_def)

subsection \<open>Notes and objects\<close>

lemma spread_lookup:
  assumes "distinct (map fst b)"
  shows "map_of (spread a b) k = (case map_of b k of Some v \<Rightarrow> Some v | None \<Rightarrow> map_of a k)"
  using assms
proof (induction b arbitrary: a)
  case (Cons e b)
  then have "map_of b (fst e) = None" by (simp add: map_of_eq_None_iff)
  moreover have "spread a (e # b) = spread (jsmap_set (fst e) (snd e) a) b" by (simp add: spread_def)
  ultimately show ?case using Cons by (auto simp: map_of_jsmap_set split: option.splits)
qed (simp add: spread_def)

lemma note_values_keys: "distinct (map fst (note_values moduleProject row))"
  by (simp add: note_values_def)

lemma find_map_same:
  assumes "\<And>n. nr_id (f n) = nr_id n"
  shows "find (\<lambda>n. nr_id n = x) (map f ns) = map_option f (find (\<lambda>n. nr_id n = x) ns)"
  using assms by (induction ns) auto

lemma find_filter_id: "find (\<lambda>n. nr_id n = x) (filter (\<lambda>n. nr_id n \<noteq> c) ns) = (if x = c then None else find (\<lambda>n. nr_id n = x) ns)"
  by (induction ns) auto

lemma note_by_id_id: "note_by_id db x = Some n \<Longrightarrow> nr_id n = x \<and> n \<in> set (ad_notes db)"
  by (auto simp: note_by_id_def find_Some_iff)

lemma note_by_id_None: "note_by_id db x = None \<longleftrightarrow> (\<forall>n\<in>set (ad_notes db). nr_id n \<noteq> x)"
  by (auto simp: note_by_id_def find_None_iff)

lemma note_seq: "mirror_ok db \<Longrightarrow> note_by_id db x = Some n \<Longrightarrow> x \<le> ad_noteSeq db"
  by (auto dest!: note_by_id_id simp: mirror_ok_def)

lemma insert_note_lookup:
  assumes "mirror_ok db" "insert_note p s db = (db', c)"
  shows "note_by_id db' x = (if x = c then Some (inserted_note c p s) else note_by_id db x)"
proof -
  have f: "find (\<lambda>n. nr_id n = y) (ns @ [inserted_note k p s]) =
     (case find (\<lambda>n. nr_id n = y) ns of Some n \<Rightarrow> Some n | None \<Rightarrow> if y = k then Some (inserted_note k p s) else None)" for ns k y
    by (induction ns) (auto simp: inserted_note_def)
  have "c = ad_noteSeq db + 1" using assms(2) by (auto simp: insert_note_def Let_def)
  then have "note_by_id db c = None" using assms(1) by (auto simp: note_by_id_None mirror_ok_def)
  then show ?thesis using assms(2) by (auto simp: insert_note_def note_by_id_def f Let_def split: option.splits)
qed

lemma insert_note_ok:
  assumes ok: "mirror_ok db" and ins: "insert_note p s db = (db', c)"
  shows "mirror_ok db'" "c = ad_noteSeq db'" "c = ad_noteSeq db + 1" "ad_identities db' = ad_identities db"
    "ad_uuid db' = ad_uuid db" "ad_cursors db' = ad_cursors db"
proof -
  have db': "db' = db\<lparr>ad_notes := ad_notes db @ [inserted_note c p s], ad_noteSeq := c\<rparr>" and c: "c = ad_noteSeq db + 1"
    using ins by (auto simp: insert_note_def Let_def)
  have "nr_id n \<noteq> c" if "n \<in> set (ad_notes db)" for n using that ok c by (auto simp: mirror_ok_def)
  then have "distinct (map nr_id (ad_notes db'))" using ok by (auto simp: db' mirror_ok_def inserted_note_def)
  then show "mirror_ok db'" using ok by (auto simp: db' c mirror_ok_def inserted_note_def)
  show "c = ad_noteSeq db'" "c = ad_noteSeq db + 1" "ad_identities db' = ad_identities db" "ad_uuid db' = ad_uuid db"
    "ad_cursors db' = ad_cursors db"
    using c by (simp_all add: db')
qed

text \<open>What the choice of the local note does to the identities and to the notes.\<close>

lemma context_note:
  assumes ok: "mirror_ok db" and dom: "fr_domain feed = Notes" and get: "contextNoteId db feed p = (db', c)"
  defines "m \<equiv> fr_module_row_id feed"
  shows "mirror_ok db'" "c \<le> ad_noteSeq db'" "mirrorIdentity db' Notes p m = Some c"
    "(p', m') \<noteq> (p, m) \<Longrightarrow> mirrorIdentity db' Notes p' m' =
       (if mirrorIdentity db Notes p' m' = Some c then None else mirrorIdentity db Notes p' m')"
    "x \<noteq> c \<Longrightarrow> note_by_id db' x = note_by_id db x"
    "note_by_id db c = Some n \<Longrightarrow> note_by_id db' c = Some n"
    "mirrorIdentity db Notes p m = None \<Longrightarrow> note_by_id db' c \<noteq> None"
    "ad_cursors db' = ad_cursors db" "ad_uuid db' = ad_uuid db"
proof -
  consider (mapped) "mirrorIdentity db Notes p m = Some c" "db' = db"
    | (adopted) "mirrorIdentity db Notes p m = None" "note_by_id db c \<noteq> None" "db' = rememberIdentity Notes p m c db"
    | (fresh) d s where "mirrorIdentity db Notes p m = None" "insert_note p s db = (d, c)" "db' = rememberIdentity Notes p m c d"
  proof (cases "mirrorIdentity db Notes p m")
    case None
    let ?row = "fr_full_row_snapshot feed"
    define existing where "existing = (if rowNullableString ?row ''context_store_uuid'' \<noteq> None
        \<and> rowNullableString ?row ''context_store_uuid'' \<noteq> Some []
        \<and> rowNullableString ?row ''context_store_uuid'' = getContextStoreUuid db \<and> 0 \<le> rowNumber ?row ''context_row_id'' (- 1)
      then note_of_store db (rowNumber ?row ''context_row_id'' (- 1)) p else None)"
    have get: "(case existing of Some noteId \<Rightarrow> (rememberIdentity Notes p m noteId db, noteId)
        | None \<Rightarrow> (let (d, contextId) = insert_note p (rowNullableString ?row ''session_id'') db
                  in (rememberIdentity Notes p m contextId d, contextId))) = (db', c)"
      using get None unfolding contextNoteId_def Let_def existing_def dom m_def by (simp only: option.case)
    show thesis
    proof (cases existing)
      case None': None
      obtain d k where "insert_note p (rowNullableString ?row ''session_id'') db = (d, k)" by fastforce
      with get None' None fresh show thesis by auto
    next
      case (Some noteId)
      then have "\<exists>n\<in>set (ad_notes db). nr_id n = noteId"
        by (auto simp: existing_def note_of_store_def find_Some_iff split: if_splits)
      then have "note_by_id db noteId \<noteq> None" by (auto simp: note_by_id_None)
      with get Some None adopted show thesis by auto
    qed
  next
    case (Some c')
    then have "db' = db \<and> c' = c" using get dom by (simp add: contextNoteId_def m_def)
    with Some show thesis by (intro mapped) auto
  qed
  note cases = this
  from cases show "mirror_ok db'" "c \<le> ad_noteSeq db'"
    by (cases, use ok in \<open>auto intro!: remember_ok dest: insert_note_ok ident_seq note_seq\<close>)+
  from cases show "mirrorIdentity db' Notes p m = Some c"
  proof cases
    case fresh
    then have "mirrorIdentity d Notes p m = None" using insert_note_ok(4) [OF ok fresh(2)] by (simp add: mirrorIdentity_def)
    then show ?thesis using remember_map [OF insert_note_ok(1) [OF ok fresh(2)], of p m c p m] fresh(3) by simp
  next
    case adopted
    then show ?thesis using remember_map [OF ok adopted(1), of c p m] by simp
  qed simp
  from cases show "mirrorIdentity db' Notes p' m' =
       (if mirrorIdentity db Notes p' m' = Some c then None else mirrorIdentity db Notes p' m')" if "(p', m') \<noteq> (p, m)"
  proof cases
    case mapped
    then show ?thesis using that ident_inj [OF ok mapped(1), of p' m'] by auto
  next
    case adopted
    then show ?thesis using that remember_map [OF ok adopted(1), of c p' m'] by auto
  next
    case fresh
    then have same: "mirrorIdentity d Notes q k = mirrorIdentity db Notes q k" for q k
      using insert_note_ok(4) [OF ok fresh(2)] by (simp add: mirrorIdentity_def)
    then show ?thesis using that remember_map [OF insert_note_ok(1) [OF ok fresh(2)], of p m c p' m'] fresh(1,3)
      by (auto simp: same)
  qed
  from cases show "note_by_id db' x = note_by_id db x" if "x \<noteq> c"
    by cases (use that ok in \<open>auto simp: note_by_id_def dest!: insert_note_lookup [of db _ _ _ _ x]\<close>)
  from cases show "note_by_id db' c = Some n" if "note_by_id db c = Some n"
  proof cases
    case fresh
    then show ?thesis using that note_seq [OF ok that] insert_note_ok(3) [OF ok fresh(2)] by simp
  qed (use that in \<open>simp_all add: note_by_id_def\<close>)
  from cases show "note_by_id db' c \<noteq> None" if "mirrorIdentity db Notes p m = None"
  proof cases
    case fresh
    then show ?thesis using insert_note_lookup [OF ok fresh(2), of c] by (simp add: note_by_id_def)
  qed (use that in \<open>simp_all add: note_by_id_def\<close>)
  from cases show "ad_cursors db' = ad_cursors db" "ad_uuid db' = ad_uuid db"
    by (cases, use ok in \<open>auto dest: insert_note_ok\<close>)+
qed

subsection \<open>One row\<close>

text \<open>The fields of a snapshot that the update reads, and what it means that a note shows a snapshot.\<close>

definition mirrored_fields :: "string list" where
  "mirrored_fields =
     [''type'', ''status'', ''session_id'', ''content'', ''surface_condition'', ''compiled_provider'', ''compiled_config'',
      ''compiled_at'', ''compile_status'', ''ready_at'', ''ready_reason'', ''manifest_json'', ''compiled_check'', ''check_hash'',
      ''check_cron'', ''check_failure_count'', ''check_network_failure_count'', ''check_quarantined_until'', ''check_next_due_at'',
      ''check_compiled_at'', ''check_false_since_at'', ''check_last_liveness_at'', ''last_checked_at'', ''check_status'',
      ''check_version'', ''policy_version'', ''anchor_block_id'', ''anchor_ordinal'', ''created_at_ms'', ''updated_at_ms'',
      ''source_revision'', ''state_version'']"

definition complete_snapshot :: "json_object \<Rightarrow> bool" where
  "complete_snapshot row \<longleftrightarrow> distinct (map fst row) \<and> list_all (hasSnapshotField row) mirrored_fields"

definition shows_snapshot :: "string \<Rightarrow> json_object \<Rightarrow> note_row \<Rightarrow> bool" where
  "shows_snapshot moduleProject row n \<longleftrightarrow>
     list_all (\<lambda>(column, v). map_of (nr_columns n) column = Some v) (note_values moduleProject row)"

lemma note_values_cong:
  assumes "\<forall>f\<in>set mirrored_fields. map_of r f = map_of r' f"
  shows "note_values p r = note_values p r'"
  using assms by (simp add: mirrored_fields_def note_values_def rowString_def rowNumber_def rowNullableString_def rowNullableNumber_def)

lemma keep_time_present: "hasSnapshotField row field \<Longrightarrow> keep_time existing row field column e = e"
  by (simp add: keep_time_def split: option.splits)

lemma complete_values:
  assumes "complete_snapshot row"
  shows "note_values p (effective_row existing row) = note_values p row"
proof (intro note_values_cong ballI)
  fix f assume f: "f \<in> set mirrored_fields"
  have all: "list_all (hasSnapshotField row) mirrored_fields" and d: "distinct (map fst row)"
    using assms by (simp_all add: complete_snapshot_def)
  have "hasSnapshotField row f" using all f by (simp add: list_all_iff)
  moreover have "hasSnapshotField row ''created_at_ms''" "hasSnapshotField row ''updated_at_ms''"
    using all by (simp_all add: mirrored_fields_def)
  ultimately show "map_of (effective_row existing row) f = map_of row f"
    by (auto simp: effective_row_def keep_time_present spread_lookup [OF d] hasSnapshotField_def)
qed

lemma updated_shows:
  assumes "complete_snapshot row"
  shows "shows_snapshot p row (n\<lparr>nr_columns := spread (nr_columns n) (note_values p (effective_row existing row))\<rparr>)"
  using note_values_keys [of p row]
  by (auto simp: shows_snapshot_def complete_values [OF assms] spread_lookup list_all_iff)

lemma update_note_lookup:
  assumes "update_note c vals db = Inr db'"
  shows "note_by_id db' x = map_option (\<lambda>n. if nr_id n = c then n\<lparr>nr_columns := spread (nr_columns n) vals\<rparr> else n) (note_by_id db x)"
    "mirror_ok db' = mirror_ok db" "mirrorIdentity db' = mirrorIdentity db" "ad_cursors db' = ad_cursors db" "ad_uuid db' = ad_uuid db"
proof -
  have db': "db' = db\<lparr>ad_notes := map (\<lambda>n. if nr_id n = c then n\<lparr>nr_columns := spread (nr_columns n) vals\<rparr> else n) (ad_notes db)\<rparr>"
    using assms by (simp add: update_note_def split: if_splits)
  have ids: "map nr_id (ad_notes db') = map nr_id (ad_notes db)" by (simp add: db')
  show "note_by_id db' x = map_option (\<lambda>n. if nr_id n = c then n\<lparr>nr_columns := spread (nr_columns n) vals\<rparr> else n) (note_by_id db x)"
    unfolding db' note_by_id_def by (simp add: find_map_same)
  have "(\<forall>n\<in>set (ad_notes db'). nr_id n \<le> k) \<longleftrightarrow> (\<forall>n\<in>set (ad_notes db). nr_id n \<le> k)" for k
    using arg_cong [OF ids, of "\<lambda>is. \<forall>x\<in>set is. x \<le> k"] by simp
  then show "mirror_ok db' = mirror_ok db" using ids by (simp add: mirror_ok_def) (simp add: db')
  show "mirrorIdentity db' = mirrorIdentity db" "ad_cursors db' = ad_cursors db" "ad_uuid db' = ad_uuid db"
    by (auto simp: db' mirrorIdentity_def fun_eq_iff)
qed

lemma upsert_revision_other:
  "note_by_id (upsert_revision v db) = note_by_id db" "mirrorIdentity (upsert_revision v db) = mirrorIdentity db"
  "ad_cursors (upsert_revision v db) = ad_cursors db" "ad_uuid (upsert_revision v db) = ad_uuid db"
  by (auto simp: upsert_revision_def note_by_id_def mirrorIdentity_def fun_eq_iff)

lemma upsert_revision_ok: "mirror_ok db \<Longrightarrow> mirror_ok (upsert_revision v db)"
  by (auto simp: mirror_ok_def upsert_revision_def distinct_map_filter revision_key_def)

lemma drop_note_ok: "mirror_ok db \<Longrightarrow> mirror_ok (drop_mirrored_note d p m c db)"
  by (auto simp: mirror_ok_def drop_mirrored_note_def distinct_map_filter)

lemma drop_note_identity:
  "mirrorIdentity (drop_mirrored_note d p m c db) d p' m' =
     (if p' = p \<and> m' = m then None else mirrorIdentity db d p' m')"
proof -
  have "map_of (map ident_entry (filter (\<lambda>i. \<not> is_identity d p m i) is)) (d, p', m') =
      (if p' = p \<and> m' = m then None else map_of (map ident_entry is) (d, p', m'))" for "is"
    by (induction "is") (auto simp: is_identity_def)
  then show ?thesis by (simp add: drop_mirrored_note_def mirrorIdentity_map)
qed

text \<open>The two kinds of rows that are applied.\<close>

lemma row_cases:
  assumes ok: "mirror_ok db" and dom: "fr_domain feed = Notes" and row: "applyNoteRow db feed = Inr db'"
  defines "p \<equiv> rowString (fr_full_row_snapshot feed) ''project_path'' []" and "m \<equiv> fr_module_row_id feed"
  obtains (gone) "p \<noteq> []" "fr_op feed = FeedTombstone" "mirrorIdentity db Notes p m = None" "db' = db"
    | (deleted) c where "p \<noteq> []" "fr_op feed = FeedTombstone" "mirrorIdentity db Notes p m = Some c"
        "db' = drop_mirrored_note Notes p m c db"
    | (written) d c d' v where "p \<noteq> []" "fr_op feed \<noteq> FeedTombstone" "contextNoteId db feed p = (d, c)"
        "update_note c (note_values p (effective_row (note_by_id d c) (fr_full_row_snapshot feed))) d = Inr d'"
        "db' = upsert_revision v d'"
proof -
  have p: "p \<noteq> []" using row by (auto simp: applyNoteRow_def p_def Let_def)
  show thesis
  proof (cases "fr_op feed = FeedTombstone")
    case True
    then show thesis using row p dom gone deleted
      by (auto simp: applyNoteRow_def Let_def p_def [symmetric] m_def split: option.splits)
  next
    case False
    obtain d c where dc: "contextNoteId db feed p = (d, c)" by fastforce
    let ?u = "update_note c (note_values p (effective_row (note_by_id d c) (fr_full_row_snapshot feed))) d"
    show thesis
    proof (cases ?u)
      case (Inl e)
      then show thesis using row False p dc by (simp add: applyNoteRow_def Let_def p_def [symmetric])
    next
      case (Inr d')
      then show thesis using row False p dc
        by (intro written [OF p False dc Inr, OF sym]) (simp add: applyNoteRow_def Let_def p_def [symmetric])
    qed
  qed
qed

lemma row_ok:
  assumes "mirror_ok db" "fr_domain feed = Notes" "applyNoteRow db feed = Inr db'"
  shows "mirror_ok db'"
  using assms
proof (cases rule: row_cases)
  case (written d c d' v)
  then show ?thesis using context_note(1) [OF assms(1,2) written(3)] update_note_lookup(2) [OF written(4)]
    by (simp add: upsert_revision_ok)
qed (use assms(1) in \<open>simp_all add: drop_note_ok\<close>)

lemma drop_note_lookup:
  "note_by_id (drop_mirrored_note d p m c db) x = (if x = c then None else note_by_id db x)"
  by (simp add: drop_mirrored_note_def note_by_id_def find_filter_id)

lemma written_lookup:
  assumes ok: "mirror_ok db" and dom: "fr_domain feed = Notes" and get: "contextNoteId db feed p = (d, c)"
    and upd: "update_note c vals d = Inr d'"
  shows "mirrorIdentity (upsert_revision v d') Notes p (fr_module_row_id feed) = Some c"
    "note_by_id (upsert_revision v d') c = map_option (\<lambda>n. n\<lparr>nr_columns := spread (nr_columns n) vals\<rparr>) (note_by_id d c)"
    "(p', m') \<noteq> (p, fr_module_row_id feed) \<Longrightarrow> mirrorIdentity (upsert_revision v d') Notes p' m' =
       (if mirrorIdentity db Notes p' m' = Some c then None else mirrorIdentity db Notes p' m')"
    "x \<noteq> c \<Longrightarrow> note_by_id (upsert_revision v d') x = note_by_id db x"
proof -
  note ctx = context_note [OF ok dom get] and upd = update_note_lookup [OF upd]
  have id: "nr_id n = x" if "note_by_id d x = Some n" for n x using note_by_id_id [OF that] by simp
  show "mirrorIdentity (upsert_revision v d') Notes p (fr_module_row_id feed) = Some c"
    using ctx(3) upd(3) by (simp add: upsert_revision_other)
  show "note_by_id (upsert_revision v d') c = map_option (\<lambda>n. n\<lparr>nr_columns := spread (nr_columns n) vals\<rparr>) (note_by_id d c)"
    using id by (cases "note_by_id d c") (simp_all add: upsert_revision_other upd(1))
  show "mirrorIdentity (upsert_revision v d') Notes p' m' =
       (if mirrorIdentity db Notes p' m' = Some c then None else mirrorIdentity db Notes p' m')"
    if "(p', m') \<noteq> (p, fr_module_row_id feed)"
    using ctx(4) [OF that] upd(3) by (simp add: upsert_revision_other)
  show "note_by_id (upsert_revision v d') x = note_by_id db x" if "x \<noteq> c"
    using ctx(5) [OF that] id [of x] that by (cases "note_by_id db x") (simp_all add: upsert_revision_other upd(1))
qed

text \<open>
  C28: a row of the feed with a complete snapshot lands in the note that stands for it: afterwards the module's row
  has an identity and its note shows every mirrored column of the snapshot, unless the mapped note had been deleted
  here before; a tombstone removes identity and note; and no other module row's note changes, except that a row
  whose local note is claimed by this one loses its identity. The invariant of the mirror (identities and revisions
  one to one, note identifiers below the sequence) holds afterwards.
\<close>

theorem feed_row_is_mirrored:
  assumes ok: "mirror_ok db" and dom: "fr_domain feed = Notes" and row: "applyNoteRow db feed = Inr db'"
    and p: "p = rowString (fr_full_row_snapshot feed) ''project_path'' []" and m: "m = fr_module_row_id feed"
    and full: "complete_snapshot (fr_full_row_snapshot feed)"
  shows "mirror_ok db' \<and>
    (if fr_op feed = FeedTombstone then mirrorIdentity db' Notes p m = None
     else mirrorIdentity db' Notes p m \<noteq> None \<and>
       (case mirrored db' p m of
          None \<Rightarrow> mirrorIdentity db Notes p m \<noteq> None \<and> mirrored db p m = None
        | Some n \<Rightarrow> shows_snapshot p (fr_full_row_snapshot feed) n)) \<and>
    (\<forall>p' m'. (p', m') = (p, m) \<or> mirrored db' p' m' = mirrored db p' m' \<or>
       (fr_op feed \<noteq> FeedTombstone \<and> mirrorIdentity db' Notes p' m' = None \<and>
        mirrorIdentity db Notes p' m' = mirrorIdentity db' Notes p m))"
  using ok dom row
proof (cases rule: row_cases)
  case gone
  then show ?thesis using ok by (simp add: p m)
next
  case (deleted c)
  have "mirrored db' p' m' = mirrored db p' m'" if "(p', m') \<noteq> (p, m)" for p' m'
  proof -
    have "mirrorIdentity db Notes p' m' \<noteq> Some c" using ident_inj [OF ok deleted(3), of p' m'] that by (auto simp: p m)
    then show ?thesis using that
      by (cases "mirrorIdentity db Notes p' m'")
        (auto simp: mirrored_def deleted(4) drop_note_identity drop_note_lookup p m)
  qed
  then show ?thesis using ok deleted(2) by (auto simp: deleted(4) drop_note_ok drop_note_identity p m)
next
  case (written d c d' v)
  note w = written_lookup [OF ok dom written(3,4), where v = v, folded p m written(5)]
  note ctx = context_note [OF ok dom written(3), folded p m]
  have shown: "shows_snapshot p (fr_full_row_snapshot feed) n" if "mirrored db' p m = Some n" for n
    using that w(1,2) updated_shows [OF full] by (auto simp: mirrored_def p)
  have found: "mirrorIdentity db Notes p m \<noteq> None \<and> mirrored db p m = None" if none: "mirrored db' p m = None"
  proof -
    have c: "note_by_id d c = None" using none w(1,2) by (simp add: mirrored_def)
    then have some: "mirrorIdentity db Notes p m \<noteq> None" using ctx(7) by blast
    have "mirrorIdentity db Notes p m = Some c"
      using some dom written(3) by (auto simp: contextNoteId_def p m)
    moreover have "note_by_id db c = None" using c ctx(6) by (cases "note_by_id db c") auto
    ultimately show ?thesis by (simp add: mirrored_def)
  qed
  have others: "mirrored db' p' m' = mirrored db p' m' \<or> (mirrorIdentity db' Notes p' m' = None \<and>
        mirrorIdentity db Notes p' m' = mirrorIdentity db' Notes p m)" if "(p', m') \<noteq> (p, m)" for p' m'
  proof (cases "mirrorIdentity db Notes p' m' = Some c")
    case True
    then show ?thesis using w(1,3) that by simp
  next
    case False
    then show ?thesis using w(3,4) that by (cases "mirrorIdentity db Notes p' m'") (auto simp: mirrored_def)
  qed
  have "mirror_ok db'" by (rule row_ok [OF ok dom row])
  then show ?thesis using written(2) w(1) shown found others by (auto split: option.splits)
qed

definition example_snapshot :: json_object where
  "example_snapshot = (''project_path'', JStr ''app'') #
     map (\<lambda>f. (f, if f = ''content'' then JStr ''check the build'' else JNull)) mirrored_fields"

definition example_feed_row :: "int \<Rightarrow> changefeed_row" where
  "example_feed_row n = \<lparr>fr_feed_seq = n, fr_domain = Notes, fr_op = FeedInsert, fr_module_row_id = 7,
     fr_full_row_snapshot = example_snapshot, fr_content_hash = None\<rparr>"

definition empty_db :: authority_db where
  "empty_db = \<lparr>ad_uuid = Some ''store'', ad_managed = [], ad_pending = [], ad_bounds = [], ad_epochs = [], ad_identities = [],
     ad_cursors = [], ad_revisions = [], ad_notes = [], ad_noteSeq = 0, ad_sessions = []\<rparr>"

lemma mirrored_fields_distinct: "distinct (''project_path'' # mirrored_fields)"
  by code_simp

lemma example_complete: "complete_snapshot example_snapshot"
proof -
  have "map fst example_snapshot = ''project_path'' # mirrored_fields" by (simp add: example_snapshot_def o_def)
  then have "distinct (map fst example_snapshot)" using mirrored_fields_distinct by (simp only:)
  moreover have "map_of example_snapshot f \<noteq> None" if "f \<in> set mirrored_fields" for f
    using that \<open>map fst example_snapshot = _\<close> by (simp add: map_of_eq_None_iff flip: set_map)
  ultimately show ?thesis by (simp add: complete_snapshot_def hasSnapshotField_def list_all_iff)
qed

lemma example_project: "rowString example_snapshot ''project_path'' [] = ''app''"
  by (simp add: example_snapshot_def rowString_def)

lemma example_applies: "\<exists>db'. applyNoteRow empty_db (example_feed_row n) = Inr db'"
proof -
  have "compile_status_ok (note_values p (effective_row e example_snapshot))" for p e
    unfolding complete_values [OF example_complete]
    by (simp add: compile_status_ok_def note_values_def rowNullableString_def example_snapshot_def mirrored_fields_def sql_text_def)
  then show ?thesis
    by (simp add: applyNoteRow_def Let_def example_feed_row_def example_project update_note_def split: prod.splits)
qed

lemma empty_mirror_ok: "mirror_ok empty_db"
  by (simp add: mirror_ok_def empty_db_def)

theorem feed_row_is_mirrored_witness:
  "\<exists>db' c. applyNoteRow empty_db (example_feed_row 1) = Inr db' \<and> mirror_ok db' \<and> mirrorIdentity db' Notes ''app'' 7 = Some c \<and>
     (\<exists>n. mirrored db' ''app'' 7 = Some n \<and> shows_snapshot ''app'' example_snapshot n)"
proof -
  obtain db' where db': "applyNoteRow empty_db (example_feed_row 1) = Inr db'" using example_applies by blast
  have "mirrorIdentity empty_db Notes ''app'' 7 = None" by (simp add: mirrorIdentity_def empty_db_def)
  moreover have "fr_domain (example_feed_row 1) = Notes" "fr_op (example_feed_row 1) \<noteq> FeedTombstone"
    "''app'' = rowString (fr_full_row_snapshot (example_feed_row 1)) ''project_path'' []"
    "7 = fr_module_row_id (example_feed_row 1)" "complete_snapshot (fr_full_row_snapshot (example_feed_row 1))"
    "fr_full_row_snapshot (example_feed_row 1) = example_snapshot"
    by (simp_all add: example_feed_row_def example_project example_complete)
  note row = this
  have "mirror_ok db' \<and> mirrorIdentity db' Notes ''app'' 7 \<noteq> None \<and> (case mirrored db' ''app'' 7 of
          None \<Rightarrow> mirrorIdentity empty_db Notes ''app'' 7 \<noteq> None \<and> mirrored empty_db ''app'' 7 = None
        | Some n \<Rightarrow> shows_snapshot ''app'' example_snapshot n)"
    using feed_row_is_mirrored [OF empty_mirror_ok row(1) db' row(3,4,5)] row(2) unfolding row(6) by argo
  ultimately show ?thesis using db' by (cases "mirrored db' ''app'' 7") auto
qed

subsection \<open>Pages as lists of rows\<close>

text \<open>The rows that a page adds beyond a cursor, and the database with them applied one after the other.\<close>

fun accepted_rows :: "authority_domain \<Rightarrow> int \<Rightarrow> changefeed_row list \<Rightarrow> changefeed_row list" where
  "accepted_rows domain cursor [] = []"
| "accepted_rows domain cursor (feed # rows) =
     (if fr_domain feed \<noteq> domain \<or> fr_feed_seq feed \<le> cursor then accepted_rows domain cursor rows
      else feed # accepted_rows domain (fr_feed_seq feed) rows)"

primrec mirror_rows :: "changefeed_row list \<Rightarrow> authority_db \<Rightarrow> mirror_error + authority_db" where
  "mirror_rows [] db = Inr db"
| "mirror_rows (feed # rows) db = (case applyNoteRow db feed of Inl e \<Rightarrow> Inl e | Inr db' \<Rightarrow> mirror_rows rows db')"

definition reached :: "int \<Rightarrow> changefeed_row list \<Rightarrow> int" where
  "reached cursor rows = foldl (\<lambda>_ feed. fr_feed_seq feed) cursor rows"

text \<open>Two databases with the same mirror: they may differ in the epochs and in the time of the cursors.\<close>

definition bookkeeping ::
  "((string \<times> authority_domain) \<times> int) list \<Rightarrow> (authority_domain \<times> mirror_position) list \<Rightarrow> authority_db \<Rightarrow> authority_db" where
  "bookkeeping epochs cursors db = db\<lparr>ad_epochs := epochs, ad_cursors := cursors\<rparr>"

definition same_rows :: "authority_db \<Rightarrow> authority_db \<Rightarrow> bool" where
  "same_rows a b \<longleftrightarrow> bookkeeping [] [] a = bookkeeping [] [] b"

lemma apply_rows_accepted:
  "\<exists>touched'. apply_rows domain rows (db, cursor, touched) =
     (case mirror_rows (accepted_rows domain cursor rows) db of
        Inl e \<Rightarrow> Inl e
      | Inr db' \<Rightarrow> Inr (db', reached cursor (accepted_rows domain cursor rows), touched'))"
proof (induction rows arbitrary: db cursor touched)
  case (Cons feed rows)
  show ?case
  proof (cases "fr_domain feed \<noteq> domain \<or> fr_feed_seq feed \<le> cursor")
    case True
    then have "accepted_rows domain cursor (feed # rows) = accepted_rows domain cursor rows"
      "apply_rows domain (feed # rows) (db, cursor, touched) = apply_rows domain rows (db, cursor, touched)" by auto
    then show ?thesis using Cons [of db cursor touched] by (simp only:)
  next
    case False
    show ?thesis
    proof (cases "applyNoteRow db feed")
      case (Inl e)
      then show ?thesis using False by simp
    next
      case (Inr db')
      define t where "t = (if rowString (fr_full_row_snapshot feed) ''project_path'' [] = []
          \<or> rowString (fr_full_row_snapshot feed) ''project_path'' [] \<in> set touched then touched
        else touched @ [rowString (fr_full_row_snapshot feed) ''project_path'' []])"
      have "apply_rows domain (feed # rows) (db, cursor, touched) = apply_rows domain rows (db', fr_feed_seq feed, t)"
        "accepted_rows domain cursor (feed # rows) = feed # accepted_rows domain (fr_feed_seq feed) rows"
        using False Inr by (auto simp: Let_def t_def)
      moreover have "reached cursor (feed # rs) = reached (fr_feed_seq feed) rs" for rs by (simp add: reached_def)
      ultimately show ?thesis using Inr Cons [of db' "fr_feed_seq feed" t] by (simp only: mirror_rows.simps sum.case)
    qed
  qed
qed (simp add: reached_def)

lemma bookkeeping_identity: "mirrorIdentity (bookkeeping e k db) = mirrorIdentity db"
  by (auto simp: mirrorIdentity_def bookkeeping_def fun_eq_iff)

lemma bookkeeping_notes: "note_by_id (bookkeeping e k db) = note_by_id db" "note_of_store (bookkeeping e k db) = note_of_store db"
    "getContextStoreUuid (bookkeeping e k db) = getContextStoreUuid db"
  by (auto simp: note_by_id_def note_of_store_def getContextStoreUuid_def bookkeeping_def fun_eq_iff)

lemma bookkeeping_remember: "rememberIdentity d p m c (bookkeeping e k db) = bookkeeping e k (rememberIdentity d p m c db)"
  using bookkeeping_identity [of e k db]
  by (simp add: rememberIdentity_def) (simp add: insert_identity_def bookkeeping_def)

lemma bookkeeping_insert: "insert_note p s (bookkeeping e k db) = map_prod (bookkeeping e k) id (insert_note p s db)"
  by (simp add: insert_note_def bookkeeping_def Let_def)

lemma bookkeeping_context: "contextNoteId (bookkeeping e k db) feed p = map_prod (bookkeeping e k) id (contextNoteId db feed p)"
  unfolding contextNoteId_def Let_def bookkeeping_identity bookkeeping_notes
  by (auto simp: bookkeeping_remember bookkeeping_insert split: option.split prod.split)

lemma bookkeeping_update: "update_note c v (bookkeeping e k db) = map_sum id (bookkeeping e k) (update_note c v db)"
  unfolding update_note_def bookkeeping_notes by (simp add: bookkeeping_def)

lemma bookkeeping_row: "applyNoteRow (bookkeeping e k db) feed = map_sum id (bookkeeping e k) (applyNoteRow db feed)"
proof -
  obtain d c where "contextNoteId db feed (rowString (fr_full_row_snapshot feed) ''project_path'' []) = (d, c)" by fastforce
  then show ?thesis
    unfolding applyNoteRow_def Let_def bookkeeping_identity
    by (simp add: bookkeeping_context bookkeeping_update bookkeeping_notes split: option.split sum.split)
      (simp add: drop_mirrored_note_def upsert_revision_def bookkeeping_def)
qed

lemma bookkeeping_rows: "mirror_rows rows (bookkeeping e k db) = map_sum id (bookkeeping e k) (mirror_rows rows db)"
proof (induction rows arbitrary: db)
  case (Cons feed rows)
  then show ?case by (cases "applyNoteRow db feed") (simp_all add: bookkeeping_row)
qed simp

lemma same_rowsE:
  assumes "same_rows a b"
  obtains e k where "b = bookkeeping e k a"
proof -
  have "b = bookkeeping (ad_epochs b) (ad_cursors b) (bookkeeping [] [] b)" by (simp add: bookkeeping_def)
  also have "bookkeeping [] [] b = bookkeeping [] [] a" using assms by (simp add: same_rows_def)
  also have "bookkeeping (ad_epochs b) (ad_cursors b) (bookkeeping [] [] a) = bookkeeping (ad_epochs b) (ad_cursors b) a"
    by (simp add: bookkeeping_def)
  finally show thesis by (rule that)
qed

lemma same_rows_bookkeeping [simp]: "same_rows (bookkeeping e k a) b = same_rows a b" "same_rows a (bookkeeping e k b) = same_rows a b"
  by (simp_all add: same_rows_def bookkeeping_def)

lemma same_rows_refl [simp]: "same_rows a a" by (simp add: same_rows_def)

lemma same_rows_trans: "same_rows a b \<Longrightarrow> same_rows b c \<Longrightarrow> same_rows a c" by (simp add: same_rows_def)

lemma same_rows_sym: "same_rows a b \<Longrightarrow> same_rows b a" by (simp add: same_rows_def)

lemma same_rows_mirror:
  assumes "same_rows a b" "mirror_rows rows a = Inr a'"
  obtains b' where "mirror_rows rows b = Inr b'" "same_rows a' b'"
  using assms(1)
proof (rule same_rowsE)
  fix e k assume "b = bookkeeping e k a"
  then show thesis using that [of "bookkeeping e k a'"] assms(2) by (simp add: bookkeeping_rows)
qed

lemma mirror_rows_append:
  "mirror_rows (xs @ ys) db = (case mirror_rows xs db of Inl e \<Rightarrow> Inl e | Inr d \<Rightarrow> mirror_rows ys d)"
  by (induction xs arbitrary: db) (auto split: sum.split)

text \<open>What an applied page did.\<close>

lemma bump_bookkeeping: "\<exists>e. bump_touched d touched db = bookkeeping e (ad_cursors db) db"
proof (induction touched arbitrary: db)
  case Nil
  show ?case by (simp add: bump_touched_def bookkeeping_def exI [of _ "ad_epochs db"])
next
  case (Cons p touched)
  obtain e where "bump_touched d touched (bumpDomainMutationEpoch p d db) =
      bookkeeping e (ad_cursors (bumpDomainMutationEpoch p d db)) (bumpDomainMutationEpoch p d db)"
    using Cons.IH by blast
  then show ?case
    by (intro exI [of _ e]) (simp add: bump_touched_def bumpDomainMutationEpoch_def bookkeeping_def)
qed

lemma bump_same: "same_rows (bump_touched d touched db) db"
  using bump_bookkeeping [of d touched db] by auto

lemma put_cursor_same: "same_rows (put_cursor now d c db) db"
  by (simp add: same_rows_def put_cursor_def bookkeeping_def)

lemma put_cursor_get: "getMirrorCursor (put_cursor now d c db) d' = (if d' = d then c else getMirrorCursor db d')"
  by (simp add: getMirrorCursor_def put_cursor_def map_of_jsmap_set)

lemma accepted_none:
  "accepted_rows domain cursor rows = [] \<longleftrightarrow> \<not> (\<exists>feed\<in>set rows. fr_domain feed = domain \<and> cursor < fr_feed_seq feed)"
  by (induction rows) auto

lemma reached_ge: "cursor \<le> reached cursor (accepted_rows domain cursor rows)"
proof (induction rows arbitrary: cursor)
  case (Cons feed rows)
  show ?case using Cons [of cursor] Cons [of "fr_feed_seq feed"] by (auto simp: reached_def)
qed (simp add: reached_def)

lemma page_effect:
  "applyMirrorPage now db page = Inr (db', next) \<Longrightarrow> cp_domain page = Notes \<and> cp_cursor page = getMirrorCursor db Notes \<and>
     next = cp_next_cursor page \<and> getMirrorCursor db' Notes = next \<and>
     reached (cp_cursor page) (accepted_rows Notes (cp_cursor page) (cp_rows page)) \<le> next \<and>
     (\<exists>d. mirror_rows (accepted_rows Notes (cp_cursor page) (cp_rows page)) db = Inr d \<and> same_rows db' d)"
proof -
  assume page: "applyMirrorPage now db page = Inr (db', next)"
  let ?c = "getMirrorCursor db Notes" and ?rows = "accepted_rows Notes (cp_cursor page) (cp_rows page)"
  have dom: "cp_domain page = Notes" and cur: "cp_cursor page = ?c" and le: "?c \<le> cp_next_cursor page"
    using page by (auto simp: applyMirrorPage_def Let_def split: if_splits)
  show ?thesis
  proof (cases "?rows = []")
    case True
    then have "\<not> (\<exists>feed\<in>set (cp_rows page). fr_domain feed = Notes \<and> ?c < fr_feed_seq feed)"
      using cur by (simp add: accepted_none)
    then have "(db', next) = (if cp_next_cursor page \<le> ?c then (db, ?c) else (put_cursor now Notes (cp_next_cursor page) db, cp_next_cursor page))"
      using page dom cur le by (auto simp: applyMirrorPage_def Let_def split: if_splits)
    then show ?thesis using True dom cur le
      by (auto simp: reached_def put_cursor_get put_cursor_same split: if_splits)
  next
    case False
    then have new: "\<exists>feed\<in>set (cp_rows page). fr_domain feed = Notes \<and> ?c < fr_feed_seq feed"
      using cur by (simp add: accepted_none)
    obtain touched where "apply_rows Notes (cp_rows page) (db, ?c, []) =
        (case mirror_rows (accepted_rows Notes ?c (cp_rows page)) db of
           Inl e \<Rightarrow> Inl e | Inr d \<Rightarrow> Inr (d, reached ?c (accepted_rows Notes ?c (cp_rows page)), touched))"
      using apply_rows_accepted by blast
    then have rows: "apply_rows Notes (cp_rows page) (db, ?c, []) = (case mirror_rows ?rows db of
        Inl e \<Rightarrow> Inl e | Inr d \<Rightarrow> Inr (d, reached ?c ?rows, touched))"
      by (simp only: cur)
    obtain d where d: "mirror_rows ?rows db = Inr d" "reached ?c ?rows \<le> cp_next_cursor page"
        "(db', next) = (put_cursor now Notes (max (reached ?c ?rows) (cp_next_cursor page)) (bump_touched Notes touched d),
                        max (reached ?c ?rows) (cp_next_cursor page))"
      using page dom cur le new rows by (auto simp: applyMirrorPage_def Let_def split: if_splits sum.splits)
    moreover have "same_rows db' d" using d(3) put_cursor_same bump_same same_rows_trans by blast
    ultimately show ?thesis using dom cur by (auto simp: put_cursor_get)
  qed
qed

text \<open>What a row leaves alone, and that only the cursor of the notes moves.\<close>

definition authority_part where
  "authority_part db = (ad_uuid db, ad_managed db, ad_pending db, ad_bounds db, ad_sessions db)"

lemma row_frame:
  assumes "applyNoteRow db feed = Inr db'"
  shows "ad_cursors db' = ad_cursors db" "authority_part db' = authority_part db"
proof -
  obtain d c where get: "contextNoteId db feed (rowString (fr_full_row_snapshot feed) ''project_path'' []) = (d, c)" by fastforce
  then have "ad_cursors d = ad_cursors db" "authority_part d = authority_part db"
    by (auto simp: contextNoteId_def insert_note_def authority_part_def Let_def split: option.splits)
  then show "ad_cursors db' = ad_cursors db" "authority_part db' = authority_part db"
    using assms get by (auto simp: applyNoteRow_def Let_def drop_mirrored_note_def upsert_revision_def update_note_def
      authority_part_def split: if_splits option.splits sum.splits)
qed

lemma rows_frame: "mirror_rows rows db = Inr d \<Longrightarrow> ad_cursors d = ad_cursors db \<and> authority_part d = authority_part db"
  by (induction rows arbitrary: db) (auto split: sum.splits dest: row_frame)

lemma page_frame:
  assumes page: "applyMirrorPage now db page = Inr (db', c)"
  shows "getMirrorCursor db' Memories = getMirrorCursor db Memories" "authority_part db' = authority_part db"
proof -
  have dom: "cp_domain page = Notes" using page_effect [OF page] by simp
  obtain touched where "apply_rows Notes (cp_rows page) (db, getMirrorCursor db Notes, []) =
      (case mirror_rows (accepted_rows Notes (getMirrorCursor db Notes) (cp_rows page)) db of
         Inl e \<Rightarrow> Inl e
       | Inr d \<Rightarrow> Inr (d, reached (getMirrorCursor db Notes) (accepted_rows Notes (getMirrorCursor db Notes) (cp_rows page)), touched))"
    using apply_rows_accepted by blast
  moreover have "getMirrorCursor (bump_touched Notes touched d) x = getMirrorCursor d x"
    "authority_part (bump_touched Notes touched d) = authority_part d" for d x
    using bump_bookkeeping [of Notes touched d] by (auto simp: getMirrorCursor_def bookkeeping_def authority_part_def)
  moreover have "authority_part (put_cursor n d k x) = authority_part x" for n d k x
    by (simp add: authority_part_def put_cursor_def)
  ultimately show "getMirrorCursor db' Memories = getMirrorCursor db Memories" "authority_part db' = authority_part db"
    using page dom
    by (auto simp: applyMirrorPage_def Let_def put_cursor_get split: if_splits sum.splits
      dest!: rows_frame) (auto simp: getMirrorCursor_def)
qed

lemma page_applies:
  assumes "cp_domain page = Notes" "cp_cursor page = getMirrorCursor db Notes"
    and d: "mirror_rows (accepted_rows Notes (cp_cursor page) (cp_rows page)) db = Inr d"
    and r: "reached (cp_cursor page) (accepted_rows Notes (cp_cursor page) (cp_rows page)) \<le> cp_next_cursor page"
  obtains db' where "applyMirrorPage now db page = Inr (db', cp_next_cursor page)" "same_rows db' d"
    "getMirrorCursor db' Notes = cp_next_cursor page"
proof -
  let ?c = "getMirrorCursor db Notes"
  have le: "?c \<le> cp_next_cursor page" using r assms(2) reached_ge [of ?c Notes "cp_rows page"] by simp
  obtain touched where "apply_rows Notes (cp_rows page) (db, ?c, []) =
      (case mirror_rows (accepted_rows Notes ?c (cp_rows page)) db of
         Inl e \<Rightarrow> Inl e | Inr d \<Rightarrow> Inr (d, reached ?c (accepted_rows Notes ?c (cp_rows page)), touched))"
    using apply_rows_accepted by blast
  then have rows: "apply_rows Notes (cp_rows page) (db, ?c, []) = Inr (d, reached ?c (accepted_rows Notes ?c (cp_rows page)), touched)"
    using d unfolding assms(2) by (simp only: sum.case)
  have "\<exists>db' next. applyMirrorPage now db page = Inr (db', next)"
    using assms(1,2) le r rows by (auto simp: applyMirrorPage_def Let_def)
  then obtain db' c where page: "applyMirrorPage now db page = Inr (db', c)" by blast
  show thesis using page_effect [OF page] d page that by auto
qed

lemma accepted_append:
  "accepted_rows domain c (xs @ ys) = accepted_rows domain c xs @ accepted_rows domain (reached c (accepted_rows domain c xs)) ys"
proof (induction xs arbitrary: c)
  case (Cons x xs)
  then show ?case by (auto simp: reached_def)
qed (simp add: reached_def)

lemma reached_append: "reached c (xs @ ys) = reached (reached c xs) ys"
  by (simp add: reached_def)

text \<open>
  how the feed is cut into pages does not matter, and a row delivered twice is applied once. When one page was
  applied up to its last row and then another page, whatever old rows that one repeats, then the single page with the
  rows of both is applied without an error, ends at the same cursor, and leaves the same notes, identities and
  revisions.
\<close>

theorem pages_compose:
  assumes first: "applyMirrorPage t1 db a = Inr (db1, c1)" and second: "applyMirrorPage t2 db1 b = Inr (db2, c2)"
    and last: "cp_next_cursor a = reached (cp_cursor a) (accepted_rows Notes (cp_cursor a) (cp_rows a))"
  shows "\<exists>db'. applyMirrorPage t db (a\<lparr>cp_rows := cp_rows a @ cp_rows b, cp_next_cursor := cp_next_cursor b\<rparr>) = Inr (db', c2) \<and>
     same_rows db' db2 \<and> getMirrorCursor db' Notes = getMirrorCursor db2 Notes"
proof -
  let ?ab = "a\<lparr>cp_rows := cp_rows a @ cp_rows b, cp_next_cursor := cp_next_cursor b\<rparr>"
  let ?ra = "accepted_rows Notes (cp_cursor a) (cp_rows a)" and ?rb = "accepted_rows Notes (cp_cursor b) (cp_rows b)"
  note a = page_effect [OF first] and b = page_effect [OF second]
  obtain d where d: "mirror_rows ?ra db = Inr d" "same_rows db1 d" using a by blast
  obtain e where e: "mirror_rows ?rb db1 = Inr e" "same_rows db2 e" using b by blast
  obtain e' where e': "mirror_rows ?rb d = Inr e'" "same_rows e e'" using same_rows_mirror [OF d(2) e(1)] by blast
  have bc: "reached (cp_cursor a) ?ra = cp_cursor b" using a b last by argo
  have acc: "accepted_rows Notes (cp_cursor ?ab) (cp_rows ?ab) = ?ra @ ?rb"
    by (simp add: accepted_append bc)
  have "reached (cp_cursor a) (?ra @ ?rb) \<le> cp_next_cursor b"
    using b unfolding reached_append bc by argo
  moreover have "mirror_rows (?ra @ ?rb) db = Inr e'" using d(1) e'(1) by (simp add: mirror_rows_append)
  ultimately obtain db' where db': "applyMirrorPage t db ?ab = Inr (db', cp_next_cursor b)" "same_rows db' e'"
      "getMirrorCursor db' Notes = cp_next_cursor b"
    using page_applies [of ?ab db e' t] a acc by auto
  then show ?thesis using b e(2) e'(2) by (metis same_rows_sym same_rows_trans)
qed

definition example_page :: "int \<Rightarrow> changefeed_row list \<Rightarrow> int \<Rightarrow> changefeed_page" where
  "example_page cursor rows next =
     \<lparr>cp_domain = Notes, cp_cursor = cursor, cp_next_cursor = next, cp_has_more = False, cp_rows = rows\<rparr>"

lemma example_page_applies:
  assumes "getMirrorCursor db Notes = 0" "same_rows db empty_db"
  obtains db' where "applyMirrorPage t db (example_page 0 [example_feed_row 1] 1) = Inr (db', 1)" "getMirrorCursor db' Notes = 1"
proof -
  obtain d where "applyNoteRow empty_db (example_feed_row 1) = Inr d" using example_applies by blast
  then have "mirror_rows [example_feed_row 1] empty_db = Inr d" by simp
  then obtain d' where d': "mirror_rows [example_feed_row 1] db = Inr d'"
    using same_rows_mirror [OF same_rows_sym [OF assms(2)]] by blast
  have acc: "accepted_rows Notes 0 [example_feed_row 1] = [example_feed_row 1]" by (simp add: example_feed_row_def)
  show thesis
    by (rule page_applies [of "example_page 0 [example_feed_row 1] 1" db d' t])
      (use assms(1) d' acc that in \<open>simp_all add: example_page_def reached_def del: accepted_rows.simps mirror_rows.simps,
        simp_all add: example_feed_row_def\<close>)
qed

lemma empty_cursor: "getMirrorCursor empty_db Notes = 0"
  by (simp add: getMirrorCursor_def empty_db_def)

theorem pages_compose_witness:
  "\<exists>db2 db'. applyMirrorPage 5 empty_db (example_page 0 [example_feed_row 1, example_feed_row 1] 1) = Inr (db', 1) \<and>
     same_rows db' db2 \<and> getMirrorCursor db2 Notes = 1"
proof -
  let ?a = "example_page 0 [example_feed_row 1] 1" and ?b = "example_page 1 [example_feed_row 1] 1"
  obtain db1 where a: "applyMirrorPage 3 empty_db ?a = Inr (db1, 1)" "getMirrorCursor db1 Notes = 1"
    using example_page_applies [OF empty_cursor same_rows_refl] by blast
  have b: "applyMirrorPage 4 db1 ?b = Inr (db1, 1)"
    using a(2) by (simp add: applyMirrorPage_def example_page_def example_feed_row_def)
  have "cp_next_cursor ?a = reached (cp_cursor ?a) (accepted_rows Notes (cp_cursor ?a) (cp_rows ?a))"
    by (simp add: example_page_def example_feed_row_def reached_def)
  from pages_compose [OF a(1) b this, of 5] show ?thesis using a(2) by (auto simp: example_page_def)
qed

subsection \<open>Pulling the whole feed\<close>

text \<open>
  The page the module serves from its feed (\<open>pull_changefeed\<close> in \<open>crates/mc-store/src/lib.rs\<close>): the next rows of the
  domain up to the limit, and \<open>has_more\<close> whenever the page is full, so after a feed that fills its last page an empty page
  follows.
\<close>

definition feed_page :: "changefeed_row list \<Rightarrow> int \<Rightarrow> int \<Rightarrow> changefeed_page" where
  "feed_page feed cursor limit =
     (let n = nat (max 1 (min 1000 limit)); rows = take n (filter (\<lambda>r. fr_domain r = Notes \<and> cursor < fr_feed_seq r) feed)
      in \<lparr>cp_domain = Notes, cp_cursor = cursor, cp_next_cursor = reached cursor rows, cp_has_more = (length rows = n),
          cp_rows = rows\<rparr>)"

lemma notes_page:
  assumes "\<forall>r\<in>set feed. fr_domain r = Notes"
  shows "filter (\<lambda>r. fr_domain r = Notes \<and> c < fr_feed_seq r) feed = filter (\<lambda>r. c < fr_feed_seq r) feed"
  using assms by (auto intro: filter_cong)

abbreviation feed_order :: "changefeed_row list \<Rightarrow> bool" where
  "feed_order \<equiv> sorted_wrt (\<lambda>a b. fr_feed_seq a < fr_feed_seq b)"

lemma accepted_ordered:
  "feed_order rows \<Longrightarrow> \<forall>r\<in>set rows. fr_domain r = domain \<and> c < fr_feed_seq r \<Longrightarrow> accepted_rows domain c rows = rows"
  by (induction rows arbitrary: c) auto

lemma reached_last: "reached c (xs @ [x]) = fr_feed_seq x"
  by (simp add: reached_def)

lemma rows_after_take:
  assumes "feed_order rows" "0 < n"  "n \<le> length rows"
  shows "filter (\<lambda>r. reached c (take n rows) < fr_feed_seq r) rows = drop n rows"
    "c < fr_feed_seq (hd rows) \<Longrightarrow> c < reached c (take n rows)"
proof -
  have "take n rows \<noteq> []" using assms by auto
  then obtain xs x where tk: "take n rows = xs @ [x]" by (metis rev_exhaust)
  have rows: "rows = xs @ [x] @ drop n rows" using tk by (metis append.assoc append_take_drop_id)
  have ord: "feed_order (xs @ [x] @ drop n rows)" using assms(1) rows by metis
  have "filter (\<lambda>r. fr_feed_seq x < fr_feed_seq r) (xs @ [x] @ drop n rows) = drop n rows"
    using ord by (auto simp: sorted_wrt_append filter_empty_conv intro!: filter_True)
  then show "filter (\<lambda>r. reached c (take n rows) < fr_feed_seq r) rows = drop n rows"
    by (subst rows) (simp add: tk reached_last)
  have "fr_feed_seq (hd rows) \<le> fr_feed_seq x"
  proof (cases xs)
    case Nil
    then have "hd rows = x" by (subst rows) simp
    then show ?thesis by simp
  next
    case (Cons y ys)
    then have "hd rows = y" by (subst rows) simp
    then show ?thesis using ord Cons by simp
  qed
  then show "c < fr_feed_seq (hd rows) \<Longrightarrow> c < reached c (take n rows)" by (simp add: tk reached_last)
qed

lemma sync_step:
  assumes ord: "feed_order feed" and dom: "\<forall>r\<in>set feed. fr_domain r = Notes"
    and rows: "mirror_rows (filter (\<lambda>r. getMirrorCursor db Notes < fr_feed_seq r) feed) db = Inr d"
  obtains db' rest e where "applyMirrorPage now db (feed_page feed (getMirrorCursor db Notes) 1000)
      = Inr (db', reached (getMirrorCursor db Notes) (take 1000 (filter (\<lambda>r. getMirrorCursor db Notes < fr_feed_seq r) feed)))"
    "mirror_rows (drop 1000 (filter (\<lambda>r. getMirrorCursor db Notes < fr_feed_seq r) feed)) db' = Inr e" "same_rows e d"
    "getMirrorCursor db' Notes = reached (getMirrorCursor db Notes) (take 1000 (filter (\<lambda>r. getMirrorCursor db Notes < fr_feed_seq r) feed))"
proof -
  let ?c = "getMirrorCursor db Notes" and ?new = "filter (\<lambda>r. getMirrorCursor db Notes < fr_feed_seq r) feed"
  let ?page = "feed_page feed ?c 1000"
  have new: "feed_order ?new" "\<forall>r\<in>set ?new. fr_domain r = Notes \<and> ?c < fr_feed_seq r"
    using ord dom by (auto intro: sorted_wrt_filter)
  have acc: "accepted_rows Notes ?c (take 1000 ?new) = take 1000 ?new"
  proof (rule accepted_ordered)
    show "feed_order (take 1000 ?new)" by (rule sorted_wrt_take [OF new(1)])
    show "\<forall>r\<in>set (take 1000 ?new). fr_domain r = Notes \<and> ?c < fr_feed_seq r"
      using new(2) set_take_subset [of 1000 ?new] by blast
  qed
  have page: "cp_domain ?page = Notes" "cp_cursor ?page = ?c" "cp_rows ?page = take 1000 ?new"
      "cp_next_cursor ?page = reached ?c (take 1000 ?new)"
    by (simp_all add: feed_page_def Let_def notes_page [OF dom])
  have "mirror_rows (take 1000 ?new @ drop 1000 ?new) db = Inr d" using rows by simp
  then obtain b where b: "mirror_rows (take 1000 ?new) db = Inr b" "mirror_rows (drop 1000 ?new) b = Inr d"
    unfolding mirror_rows_append by (auto split: sum.splits)
  have "mirror_rows (accepted_rows Notes (cp_cursor ?page) (cp_rows ?page)) db = Inr b" unfolding page acc by (rule b(1))
  moreover have "reached (cp_cursor ?page) (accepted_rows Notes (cp_cursor ?page) (cp_rows ?page)) \<le> cp_next_cursor ?page"
    unfolding page acc by simp
  ultimately obtain db' where db': "applyMirrorPage now db ?page = Inr (db', cp_next_cursor ?page)" "same_rows db' b"
      "getMirrorCursor db' Notes = cp_next_cursor ?page"
    by (rule page_applies [OF page(1,2)])
  obtain e where e: "mirror_rows (drop 1000 ?new) db' = Inr e" "same_rows d e"
    using same_rows_mirror [OF same_rows_sym [OF db'(2)] b(2)] by blast
  show thesis using that [of db' e] db' e page(4) same_rows_sym by metis
qed

lemma sync_feed:
  assumes ord: "feed_order feed" and dom: "\<forall>r\<in>set feed. fr_domain r = Notes"
    and pull: "\<And>c. pull m Notes c 1000 = (m, Inr (feed_page feed c 1000))"
  shows "mirror_rows (filter (\<lambda>r. getMirrorCursor db Notes < fr_feed_seq r) feed) db = Inr d \<Longrightarrow>
     length (filter (\<lambda>r. getMirrorCursor db Notes < fr_feed_seq r) feed) < fuel \<Longrightarrow>
     \<exists>db'. sync_pages pull fuel now Notes m db = Some (m, db', None) \<and> same_rows db' d \<and>
       (\<forall>r\<in>set feed. fr_feed_seq r \<le> getMirrorCursor db' Notes)"
proof (induction fuel arbitrary: db d)
  case (Suc fuel)
  let ?c = "getMirrorCursor db Notes" and ?new = "filter (\<lambda>r. getMirrorCursor db Notes < fr_feed_seq r) feed"
  obtain db' e where step: "applyMirrorPage now db (feed_page feed ?c 1000) = Inr (db', reached ?c (take 1000 ?new))"
      "mirror_rows (drop 1000 ?new) db' = Inr e" "same_rows e d" "getMirrorCursor db' Notes = reached ?c (take 1000 ?new)"
    using sync_step [OF ord dom Suc.prems(1)] by metis
  have more: "cp_has_more (feed_page feed ?c 1000) \<longleftrightarrow> 1000 \<le> length ?new"
    by (auto simp: feed_page_def Let_def notes_page [OF dom])
  have new: "feed_order ?new" using ord by (rule sorted_wrt_filter)
  show ?case
  proof (cases "1000 \<le> length ?new")
    case True
    then have ne: "?new \<noteq> []" by auto
    then have "?c < fr_feed_seq (hd ?new)" using hd_in_set [OF ne] by simp
    then have gt: "?c < reached ?c (take 1000 ?new)"
      using rows_after_take(2) [OF new, of 1000 ?c] True by simp
    have "filter (\<lambda>r. getMirrorCursor db' Notes < fr_feed_seq r) feed = filter (\<lambda>r. getMirrorCursor db' Notes < fr_feed_seq r) ?new"
      using gt step(4) by (auto simp: intro!: filter_cong)
    also have "\<dots> = drop 1000 ?new" using rows_after_take(1) [OF new, of 1000 ?c] True by (simp only: step(4))
    finally have rest: "filter (\<lambda>r. getMirrorCursor db' Notes < fr_feed_seq r) feed = drop 1000 ?new" .
    have "mirror_rows (filter (\<lambda>r. getMirrorCursor db' Notes < fr_feed_seq r) feed) db' = Inr e" unfolding rest by (rule step(2))
    moreover have "length (filter (\<lambda>r. getMirrorCursor db' Notes < fr_feed_seq r) feed) < fuel"
      unfolding rest using Suc.prems(2) True by simp
    ultimately obtain b where b: "sync_pages pull fuel now Notes m db' = Some (m, b, None)" "same_rows b e"
        "\<forall>r\<in>set feed. fr_feed_seq r \<le> getMirrorCursor b Notes"
      using Suc.IH by blast
    have "sync_pages pull (Suc fuel) now Notes m db = sync_pages pull fuel now Notes m db'"
      using more True gt by (simp add: pull step(1) Let_def)
    then show ?thesis using b same_rows_trans [OF b(2) step(3)] by simp
  next
    case False
    then have all: "take 1000 ?new = ?new" "drop 1000 ?new = []" by simp_all
    have "sync_pages pull (Suc fuel) now Notes m db = Some (m, db', None)"
      using more False by (simp add: pull step(1) Let_def)
    moreover have "same_rows db' d" using step(2,3) all(2) by simp
    moreover have "fr_feed_seq r \<le> getMirrorCursor db' Notes" if r: "r \<in> set feed" for r
    proof (cases "?new = []")
      case True
      then have "\<not> ?c < fr_feed_seq r" using r by (auto simp: filter_empty_conv)
      then show ?thesis using step(4) True by (simp add: reached_def)
    next
      case ne: False
      have after: "filter (\<lambda>r. getMirrorCursor db' Notes < fr_feed_seq r) ?new = []"
        using rows_after_take(1) [OF new, of "length ?new" ?c] ne by (simp add: step(4) all(1))
      have "?c < fr_feed_seq (hd ?new)" using hd_in_set [OF ne] by simp
      then have "?c < getMirrorCursor db' Notes" using rows_after_take(2) [OF new, of "length ?new" ?c] ne by (simp add: step(4) all(1))
      then show ?thesis using after r by (cases "?c < fr_feed_seq r") (auto simp: filter_empty_conv)
    qed
    ultimately show ?thesis by blast
  qed
qed simp

text \<open>
  C29: The pull loop ends with the whole feed in the mirror. When the module serves pages as its store does (at most 1000
  rows of the domain in increasing order of sequence numbers, with more announced whenever the page is full), and every
  row beyond the cursor can be applied, then with one turn more than there are such rows the loop returns without an
  error; the database then has the notes, identities and revisions of applying those rows one after the other, each once,
  and its cursor is past every row of the domain.
\<close>

theorem sync_mirrors_the_feed:
  assumes "feed_order feed" "\<And>c. pull m Notes c 1000 = (m, Inr (feed_page feed c 1000))"
    and "mirror_rows (filter (\<lambda>r. fr_domain r = Notes \<and> getMirrorCursor db Notes < fr_feed_seq r) feed) db = Inr d"
    and "length (filter (\<lambda>r. fr_domain r = Notes \<and> getMirrorCursor db Notes < fr_feed_seq r) feed) < fuel"
  shows "\<exists>db'. sync_pages pull fuel now Notes m db = Some (m, db', None) \<and> same_rows db' d \<and>
     (\<forall>r\<in>set feed. fr_domain r = Notes \<longrightarrow> fr_feed_seq r \<le> getMirrorCursor db' Notes)"
proof -
  let ?notes = "filter (\<lambda>r. fr_domain r = Notes) feed"
  have f: "filter (\<lambda>r. c < fr_feed_seq r) ?notes = filter (\<lambda>r. fr_domain r = Notes \<and> c < fr_feed_seq r) feed" for c
    by (simp add: conj_commute)
  have "feed_page feed c 1000 = feed_page ?notes c 1000" for c by (simp add: feed_page_def conj_ac)
  then have "\<And>c. pull m Notes c 1000 = (m, Inr (feed_page ?notes c 1000))" using assms(2) by simp
  from sync_feed [where pull = pull and m = m, OF sorted_wrt_filter [OF assms(1)] _ this, of db d fuel now] assms(3,4) f
  show ?thesis by (auto simp: f)
qed

theorem sync_mirrors_the_feed_witness:
  "\<exists>db'. sync_pages (\<lambda>m d c l. (m, Inr (feed_page [example_feed_row 1] c l))) 2 0 Notes () empty_db = Some ((), db', None) \<and>
     1 \<le> getMirrorCursor db' Notes"
proof -
  have row: "fr_domain (example_feed_row 1) = Notes" "fr_feed_seq (example_feed_row 1) = 1" by (simp_all add: example_feed_row_def)
  obtain d where "applyNoteRow empty_db (example_feed_row 1) = Inr d" using example_applies by blast
  then show ?thesis
    using sync_mirrors_the_feed [where feed = "[example_feed_row 1]" and pull = "\<lambda>m d c l. (m, Inr (feed_page [example_feed_row 1] c l))"
      and m = "()" and db = empty_db and d = d and fuel = 2 and now = 0]
    by (simp add: row empty_cursor) blast
qed

text \<open>A page that is exactly full announces more, although nothing may follow.\<close>

lemma full_page_has_more:
  assumes "n = nat (max 1 (min 1000 limit))" "length rows = n" "\<forall>r\<in>set rows. fr_domain r = Notes \<and> c < fr_feed_seq r"
  shows "cp_has_more (feed_page rows c limit) \<and> cp_rows (feed_page rows c limit) = rows"
proof -
  have "filter (\<lambda>r. fr_domain r = Notes \<and> c < fr_feed_seq r) rows = rows" using assms(3) by (simp add: filter_id_conv)
  with assms(1,2) show ?thesis by (simp add: feed_page_def Let_def)
qed

end
