(* ===== verification/Context_Authority.thy ===== *)
theory Context_Authority
  imports Mirror_Feed
begin

text \<open>
  Who owns the memories and notes of a project (\<open>features/magic-context/context-authority.ts\<close>): the marker and the
  pending repair that fence local writes, the reconciliation of a lost marker, the handover to the module
  (\<open>prepareAuthority\<close>) and back (\<open>drainAuthority\<close>), and the registry of evaluation bridges. The module is a
  separate service; its routes are the fields of \<open>authority_module\<close>, functions of a state \<open>'m\<close>. While a call is
  under way other writers may change the database: \<open>others\<close> is what they did to it.
\<close>

section \<open>The module's routes\<close>

datatype authority_state = TS | Preparing | Module | Draining

record authority_status =
  as_state :: authority_state
  as_generation :: int
  as_captured_upper_bound :: "int option"
  as_drain_cursor :: "int option"
  as_coordinator_token :: "string option"
  as_checksum_expected :: "string option"
  as_checksum_actual :: "string option"
  as_checksum_ok :: bool

text \<open>A thrown value: the string in its \<open>code\<close>, its message, its \<open>cause\<close>, and whether it is an \<open>Error\<close>.\<close>

datatype thrown = Thrown (thrown_code: "string option") (thrown_message: string) (thrown_cause: "thrown option") (is_error: bool)

datatype prepare_phase = PrepareBegin | PrepareComplete int string | PrepareAck int | PrepareAbort int

datatype drain_step = StepSeed | StepMemories | StepNotes | StepCompartments | StepReconcile | StepVerify

text \<open>Arguments of the drain route: the generation, the cursor, the token of the coordinator, the checksum.\<close>

datatype drain_action =
  DrainBegin int
  | DrainStep drain_step int int string
  | DrainFinish int string string

record drain_response =
  dr_authority :: "authority_status option"
  dr_code :: "string option"

record 'm authority_module =
  am_status :: "'m \<Rightarrow> string \<Rightarrow> string \<Rightarrow> authority_domain \<Rightarrow> 'm \<times> (thrown + authority_status option)"
  am_prepare :: "'m \<Rightarrow> string \<Rightarrow> string \<Rightarrow> authority_domain \<Rightarrow> prepare_phase \<Rightarrow> 'm \<times> (thrown + authority_status)"
  am_seed :: "('m \<Rightarrow> string \<Rightarrow> string \<Rightarrow> authority_domain \<Rightarrow> json_object list \<Rightarrow> 'm \<times> (thrown + int list option)) option"
  am_drain :: "('m \<Rightarrow> string \<Rightarrow> string \<Rightarrow> authority_domain \<Rightarrow> drain_action \<Rightarrow> 'm \<times> (thrown + drain_response)) option"
  am_pull :: "('m \<Rightarrow> authority_domain \<Rightarrow> int \<Rightarrow> int \<Rightarrow> 'm \<times> (thrown + changefeed_page)) option"

datatype authority_error =
  ModuleThrew thrown
  | MirrorFailed mirror_error
  | MissingRoute string
  | SeedRowMissing
  | SeedVerificationFailed authority_domain
  | BoundsChanged
  | AckFailed authority_domain
  | AuthorityOmitted drain_action
  | TokenOmitted
  | LegacyFeedRows
  | NotReactivated

section \<open>Marker, pending repair and the fence\<close>

definition getAuthorityManagedMarker :: "authority_db \<Rightarrow> string \<Rightarrow> managed_marker option" where
  "getAuthorityManagedMarker db projectPath = map_of (ad_managed db) projectPath"

definition installAuthorityManagedMarker :: "int \<Rightarrow> string \<Rightarrow> string \<Rightarrow> authority_db \<Rightarrow> authority_db" where
  "installAuthorityManagedMarker now projectPath contextStoreUuid db =
     db\<lparr>ad_managed := jsmap_set projectPath \<lparr>mm_context_store_uuid = contextStoreUuid, mm_marked_at = now\<rparr> (ad_managed db)\<rparr>"

definition removeAuthorityManagedMarker :: "string \<Rightarrow> authority_db \<Rightarrow> authority_db" where
  "removeAuthorityManagedMarker projectPath db = db\<lparr>ad_managed := jsmap_delete projectPath (ad_managed db)\<rparr>"

definition setRepairPending :: "int \<Rightarrow> string \<Rightarrow> authority_db \<Rightarrow> authority_db" where
  "setRepairPending now projectPath db = db\<lparr>ad_pending := jsmap_set projectPath now (ad_pending db)\<rparr>"

definition clearRepairPending :: "string \<Rightarrow> authority_db \<Rightarrow> authority_db" where
  "clearRepairPending projectPath db = db\<lparr>ad_pending := jsmap_delete projectPath (ad_pending db)\<rparr>"

text \<open>The triggers on the table of notes: a write without the privilege is refused for a fenced project.\<close>

definition project_fenced :: "authority_db \<Rightarrow> string \<Rightarrow> bool" where
  "project_fenced db projectPath \<longleftrightarrow>
     map_of (ad_managed db) projectPath \<noteq> None \<or> map_of (ad_pending db) projectPath \<noteq> None"

definition note_fenced :: "authority_db \<Rightarrow> json_object \<Rightarrow> bool" where
  "note_fenced db columns \<longleftrightarrow>
     (case map_of columns ''project_path'' of Some (JStr p) \<Rightarrow> project_fenced db p | _ \<Rightarrow> False) \<or>
     (case map_of columns ''session_id'' of
        Some (JStr s) \<Rightarrow> (\<exists>(session, project)\<in>set (ad_sessions db). session = s \<and> project_fenced db project)
      | _ \<Rightarrow> False)"

definition insert_allowed :: "bool \<Rightarrow> authority_db \<Rightarrow> json_object \<Rightarrow> bool" where
  "insert_allowed privileged db new \<longleftrightarrow> privileged \<or> \<not> note_fenced db new"

definition update_allowed :: "bool \<Rightarrow> authority_db \<Rightarrow> json_object \<Rightarrow> json_object \<Rightarrow> bool" where
  "update_allowed privileged db old new \<longleftrightarrow> privileged \<or> \<not> (note_fenced db old \<or> note_fenced db new)"

definition delete_allowed :: "bool \<Rightarrow> authority_db \<Rightarrow> json_object \<Rightarrow> bool" where
  "delete_allowed privileged db old \<longleftrightarrow> privileged \<or> \<not> note_fenced db old"

section \<open>Reconciliation of the marker\<close>

datatype reconcile_status = Legacy | Ok | Repaired

text \<open>The status of every domain; the calls run side by side and each one's failure is the failure of all.\<close>

fun all_statuses ::
  "'m authority_module \<Rightarrow> string \<Rightarrow> string \<Rightarrow> authority_domain list \<Rightarrow> 'm \<Rightarrow> 'm \<times> (thrown + authority_status option list)" where
  "all_statuses M uuid projectPath [] m = (m, Inr [])"
| "all_statuses M uuid projectPath (domain # domains) m =
     (let (m1, r) = am_status M m uuid projectPath domain; (m2, rs) = all_statuses M uuid projectPath domains m1
      in (m2, case r of Inl e \<Rightarrow> Inl e | Inr a \<Rightarrow> (case rs of Inl e \<Rightarrow> Inl e | Inr as \<Rightarrow> Inr (a # as))))"

definition first_status :: "(authority_status \<Rightarrow> bool) \<Rightarrow> authority_status option list \<Rightarrow> authority_status option" where
  "first_status P results = (case List.map_filter (\<lambda>r. case r of Some a \<Rightarrow> if P a then Some a else None | None \<Rightarrow> None) results of
     [] \<Rightarrow> None | a # _ \<Rightarrow> Some a)"

definition reconcileAuthorityMarker ::
  "'m authority_module \<Rightarrow> ('m \<Rightarrow> authority_db \<Rightarrow> authority_db) \<Rightarrow> int \<Rightarrow> string \<Rightarrow> string \<Rightarrow> 'm \<Rightarrow> authority_db
   \<Rightarrow> 'm \<times> authority_db \<times> (authority_error + reconcile_status \<times> authority_status option)" where
  "reconcileAuthorityMarker M others now minted projectPath m db =
     (let (db1, contextStoreUuid) = ensureContextStoreUuid minted db
      in if getAuthorityManagedMarker db1 projectPath \<noteq> None then
           (let (m', r) = all_statuses M contextStoreUuid projectPath AUTHORITY_DOMAINS m
            in (m', others m' db1, case r of Inl e \<Rightarrow> Inl (ModuleThrew e) | Inr as \<Rightarrow> Inr (Ok, first_status (\<lambda>_. True) as)))
         else
           (let db2 = setRepairPending now projectPath db1;
                (m', r) = all_statuses M contextStoreUuid projectPath AUTHORITY_DOMAINS m;
                db3 = others m' db2
            in case r of
                 Inl e \<Rightarrow> (m', db3, Inl (ModuleThrew e))
               | Inr as \<Rightarrow>
                   (case first_status (\<lambda>a. as_state a \<noteq> TS) as of
                      None \<Rightarrow> (m', clearRepairPending projectPath db3, Inr (Legacy, None))
                    | Some authority \<Rightarrow>
                        (m', clearRepairPending projectPath (installAuthorityManagedMarker now projectPath contextStoreUuid db3),
                         Inr (Repaired, Some authority)))))"

text \<open>A project whose notes the module owns, without a single identity here, pulls the feed from its start.\<close>

definition has_identity :: "authority_db \<Rightarrow> authority_domain \<Rightarrow> string \<Rightarrow> bool" where
  "has_identity db domain projectPath \<longleftrightarrow>
     (\<exists>i\<in>set (ad_identities db). mi_domain i = domain \<and> mi_module_project i = projectPath)"

definition reset_mirror :: "int \<Rightarrow> authority_domain \<Rightarrow> string \<Rightarrow> authority_db \<Rightarrow> authority_db" where
  "reset_mirror now domain projectPath db =
     put_cursor now domain 0
       (db\<lparr>ad_identities := filter (\<lambda>i. \<not> (mi_domain i = domain \<and> mi_module_project i = projectPath)) (ad_identities db),
           ad_revisions := filter (\<lambda>v. nv_module_project v \<noteq> projectPath) (ad_revisions db)\<rparr>)"

definition sync_result :: "'m \<times> authority_db \<times> thrown sync_error option \<Rightarrow> 'm \<times> authority_db \<times> (authority_error + unit)" where
  "sync_result s = (case s of (m, db, e) \<Rightarrow> (m, db, case e of None \<Rightarrow> Inr () | Some (PullFailed t) \<Rightarrow> Inl (ModuleThrew t)
     | Some (PageFailed p) \<Rightarrow> Inl (MirrorFailed p)))"

definition reconcileAuthorityProject ::
  "'m authority_module \<Rightarrow> ('m \<Rightarrow> authority_db \<Rightarrow> authority_db) \<Rightarrow> nat \<Rightarrow> int \<Rightarrow> string \<Rightarrow> string \<Rightarrow> 'm \<Rightarrow> authority_db
   \<Rightarrow> ('m \<times> authority_db \<times> (authority_error + unit)) option" where
  "reconcileAuthorityProject M others fuel now minted projectPath m db =
     (case reconcileAuthorityMarker M others now minted projectPath m db of
        (m1, db1, Inl e) \<Rightarrow> Some (m1, db1, Inl e)
      | (m1, db1, Inr _) \<Rightarrow>
          (let (db2, contextStoreUuid) = ensureContextStoreUuid minted db1;
               (m2, r) = am_status M m1 contextStoreUuid projectPath Notes;
               db3 = others m2 db2
           in case r of
                Inl e \<Rightarrow> Some (m2, db3, Inl (ModuleThrew e))
              | Inr authority \<Rightarrow>
                  if map_option as_state authority \<noteq> Some Module \<or> has_identity db3 Notes projectPath then Some (m2, db3, Inr ())
                  else (case am_pull M of
                          None \<Rightarrow> Some (m2, db3, Inl (MissingRoute ''mirror.pull''))
                        | Some pull \<Rightarrow>
                            map_option sync_result (sync_pages pull fuel now Notes m2 (reset_mirror now Notes projectPath db3)))))"

section \<open>Seeding\<close>

definition integer_id :: "json option \<Rightarrow> int option" where
  "integer_id v = (case v of Some (JNum x) \<Rightarrow> if x = of_int \<lfloor>x\<rfloor> then Some \<lfloor>x\<rfloor> else None | _ \<Rightarrow> None)"

definition seedSourceRowId :: "json_object \<Rightarrow> int option" where
  "seedSourceRowId row =
     (case integer_id (map_of row ''source_row_id'') of
        Some n \<Rightarrow> Some n
      | None \<Rightarrow>
          (case map_of row ''snapshot'' of
             Some (JObj snapshot) \<Rightarrow> integer_id (map_of snapshot ''id'')
           | _ \<Rightarrow> integer_id (map_of row ''id'')))"

text \<open>The rows of a seed cut into frames; \<open>row_bytes\<close> is the size of a row's JSON text.\<close>

definition MAX_AUTHORITY_SEED_FRAME_BYTES :: int where
  "MAX_AUTHORITY_SEED_FRAME_BYTES = 900 * 1024"

fun chunk_rows :: "('a \<Rightarrow> int) \<Rightarrow> 'a list \<Rightarrow> 'a list list \<Rightarrow> 'a list \<Rightarrow> int \<Rightarrow> 'a list list" where
  "chunk_rows row_bytes [] chunks current currentBytes = (if current = [] then chunks else chunks @ [current])"
| "chunk_rows row_bytes (row # rows) chunks current currentBytes =
     (let rowBytes = row_bytes row + 1
      in if current \<noteq> [] \<and> MAX_AUTHORITY_SEED_FRAME_BYTES < currentBytes + rowBytes
         then chunk_rows row_bytes rows (chunks @ [current]) [row] (2 + rowBytes)
         else chunk_rows row_bytes rows chunks (current @ [row]) (currentBytes + rowBytes))"

definition chunkRowsForFrame :: "('a \<Rightarrow> int) \<Rightarrow> 'a list \<Rightarrow> 'a list list" where
  "chunkRowsForFrame row_bytes rows = chunk_rows row_bytes rows [] [] 2"

text \<open>
  The checksum of a seed: the rows by source identifier, every object with its keys in order, printed and hashed by
  \<open>digest\<close>. Strings compare code unit by code unit.
\<close>

fun str_le :: "string \<Rightarrow> string \<Rightarrow> bool" where
  "str_le [] t = True"
| "str_le (a # s) [] = False"
| "str_le (a # s) (b # t) = ((of_char a :: nat) < of_char b \<or> (a = b \<and> str_le s t))"

primrec insert_key :: "string \<times> 'v \<Rightarrow> (string \<times> 'v) list \<Rightarrow> (string \<times> 'v) list" where
  "insert_key e [] = [e]"
| "insert_key e (f # fs) = (if str_le (fst e) (fst f) then e # f # fs else f # insert_key e fs)"

definition sort_keys :: "(string \<times> 'v) list \<Rightarrow> (string \<times> 'v) list" where
  "sort_keys es = foldr insert_key es []"

fun canonicalizeSeedValue :: "json \<Rightarrow> json" where
  "canonicalizeSeedValue (JArr vs) = JArr (map canonicalizeSeedValue vs)"
| "canonicalizeSeedValue (JObj es) = JObj (sort_keys (map (\<lambda>(k, v). (k, canonicalizeSeedValue v)) es))"
| "canonicalizeSeedValue v = v"

definition checksumAuthoritySeedRows :: "(json list \<Rightarrow> string) \<Rightarrow> json_object list \<Rightarrow> string" where
  "checksumAuthoritySeedRows digest rows =
     digest (map (\<lambda>row. canonicalizeSeedValue (JObj row))
       (sort_key (\<lambda>row. case seedSourceRowId row of None \<Rightarrow> MAX_SAFE_INTEGER | Some n \<Rightarrow> n) rows))"

text \<open>The identities of a seeded page, in the order in which a JavaScript map first saw the module's rows.\<close>

definition page_identities :: "json_object list \<Rightarrow> int list \<Rightarrow> (int \<times> int) list option" where
  "page_identities page moduleRowIds =
     (if length page < length moduleRowIds then None
      else Some (foldl (\<lambda>m (moduleRowId, row). case seedSourceRowId row of None \<Rightarrow> m | Some sourceRowId \<Rightarrow> jsmap_set moduleRowId sourceRowId m)
             [] (zip moduleRowIds page)))"

definition remember_page :: "authority_domain \<Rightarrow> string \<Rightarrow> (int \<times> int) list \<Rightarrow> authority_db \<Rightarrow> authority_db" where
  "remember_page domain projectPath identities db =
     fold (\<lambda>(moduleRowId, sourceRowId). rememberIdentity domain projectPath moduleRowId sourceRowId) identities db"

section \<open>Handing the project to the module\<close>

definition maxDomainRowId :: "authority_db \<Rightarrow> authority_domain \<Rightarrow> string \<Rightarrow> int" where
  "maxDomainRowId db domain projectPath =
     (case domain of
        Memories \<Rightarrow> 0
      | Notes \<Rightarrow>
          (case map nr_id (filter (\<lambda>n. case map_of (nr_columns n) ''project_path'' of
                  Some (JStr p) \<Rightarrow> p = projectPath
                | _ \<Rightarrow> (case map_of (nr_columns n) ''session_id'' of
                          Some (JStr s) \<Rightarrow> (s, projectPath) \<in> set (ad_sessions db)
                        | _ \<Rightarrow> False)) (ad_notes db)) of
             [] \<Rightarrow> 0 | i # is \<Rightarrow> fold max is i))"

definition installMarkerAndCaptureBounds :: "int \<Rightarrow> string \<Rightarrow> string \<Rightarrow> authority_domain list \<Rightarrow> authority_db \<Rightarrow> authority_db" where
  "installMarkerAndCaptureBounds now projectPath contextStoreUuid domains db =
     fold (\<lambda>domain db. db\<lparr>ad_bounds := jsmap_set (projectPath, domain)
             \<lparr>cb_max_rowid = maxDomainRowId db domain projectPath,
              cb_mutation_epoch = readDomainMutationEpoch db projectPath domain, cb_captured_at = now\<rparr> (ad_bounds db)\<rparr>)
       domains (installAuthorityManagedMarker now projectPath contextStoreUuid db)"

definition capturedBoundsUnchanged :: "authority_db \<Rightarrow> string \<Rightarrow> authority_domain list \<Rightarrow> bool" where
  "capturedBoundsUnchanged db projectPath domains =
     list_all (\<lambda>domain. case map_of (ad_bounds db) (projectPath, domain) of
         None \<Rightarrow> False
       | Some captured \<Rightarrow> cb_max_rowid captured = maxDomainRowId db domain projectPath \<and>
           cb_mutation_epoch captured = readDomainMutationEpoch db projectPath domain) domains"

text \<open>The settings of one preparation: the routes, the seed route, the other writers, the callbacks.\<close>

record 'm preparation =
  pr_module :: "'m authority_module"
  pr_seed :: "'m \<Rightarrow> string \<Rightarrow> string \<Rightarrow> authority_domain \<Rightarrow> json_object list \<Rightarrow> 'm \<times> (thrown + int list option)"
  pr_others :: "'m \<Rightarrow> authority_db \<Rightarrow> authority_db"
  pr_uuid :: string
  pr_project :: string
  pr_seedPages :: "authority_domain \<Rightarrow> authority_db \<Rightarrow> json_object list"
  pr_checksum :: "authority_domain \<Rightarrow> json_object list \<Rightarrow> string"
  pr_row_bytes :: "json_object \<Rightarrow> int"

primrec seed_chunks ::
  "'m preparation \<Rightarrow> authority_domain \<Rightarrow> json_object list list \<Rightarrow> 'm \<Rightarrow> authority_db \<Rightarrow> 'm \<times> authority_db \<times> authority_error option" where
  "seed_chunks P domain [] m db = (m, db, None)"
| "seed_chunks P domain (page # pages) m db =
     (case pr_seed P m (pr_uuid P) (pr_project P) domain page of
        (m', Inl e) \<Rightarrow> (m', pr_others P m' db, Some (ModuleThrew e))
      | (m', Inr ids) \<Rightarrow>
          (case page_identities page (case ids of None \<Rightarrow> [] | Some is \<Rightarrow> is) of
             None \<Rightarrow> (m', pr_others P m' db, Some SeedRowMissing)
           | Some identities \<Rightarrow> seed_chunks P domain pages m' (remember_page domain (pr_project P) identities (pr_others P m' db))))"

text \<open>
  One domain: begin, seed, complete. The third component is the generation the begin returned, which the caller
  remembers in \<open>startedGenerations\<close> whatever follows.
\<close>

definition seed_verified :: "authority_status \<Rightarrow> string \<Rightarrow> bool" where
  "seed_verified authority digest \<longleftrightarrow> as_state authority = Preparing \<and> as_checksum_ok authority \<and>
     as_checksum_expected authority = Some digest \<and> as_checksum_actual authority = Some digest"

definition prepare_domain ::
  "'m preparation \<Rightarrow> authority_domain \<Rightarrow> 'm \<Rightarrow> authority_db \<Rightarrow> 'm \<times> authority_db \<times> int option \<times> (authority_error + int)" where
  "prepare_domain P domain m db =
     (case am_prepare (pr_module P) m (pr_uuid P) (pr_project P) domain PrepareBegin of
        (m1, Inl e) \<Rightarrow> (m1, pr_others P m1 db, None, Inl (ModuleThrew e))
      | (m1, Inr started) \<Rightarrow>
          (let generation = as_generation started; db1 = pr_others P m1 db; rows = pr_seedPages P domain db1
           in case seed_chunks P domain (chunkRowsForFrame (pr_row_bytes P) rows) m1 db1 of
                (m2, db2, Some e) \<Rightarrow> (m2, db2, Some generation, Inl e)
              | (m2, db2, None) \<Rightarrow>
                  (let digest = pr_checksum P domain rows
                   in case am_prepare (pr_module P) m2 (pr_uuid P) (pr_project P) domain (PrepareComplete generation digest) of
                        (m3, Inl e) \<Rightarrow> (m3, pr_others P m3 db2, Some generation, Inl (ModuleThrew e))
                      | (m3, Inr authority) \<Rightarrow> (m3, pr_others P m3 db2, Some generation,
                            if seed_verified authority digest then Inr generation else Inl (SeedVerificationFailed domain)))))"

fun prepare_domains ::
  "'m preparation \<Rightarrow> authority_domain list \<Rightarrow> (authority_domain \<times> int) list \<Rightarrow> (authority_domain \<times> int) list \<Rightarrow> 'm \<Rightarrow> authority_db
   \<Rightarrow> 'm \<times> authority_db \<times> (authority_domain \<times> int) list \<times> (authority_error + (authority_domain \<times> int) list)" where
  "prepare_domains P [] started prepared m db = (m, db, started, Inr prepared)"
| "prepare_domains P (domain # domains) started prepared m db =
     (case prepare_domain P domain m db of
        (m', db', None, Inl e) \<Rightarrow> (m', db', started, Inl e)
      | (m', db', Some generation, Inl e) \<Rightarrow> (m', db', jsmap_set domain generation started, Inl e)
      | (m', db', _, Inr generation) \<Rightarrow>
          prepare_domains P domains (jsmap_set domain generation started) (prepared @ [(domain, generation)]) m' db')"

primrec acknowledge ::
  "'m preparation \<Rightarrow> (authority_domain \<times> int) list \<Rightarrow> 'm \<Rightarrow> authority_db \<Rightarrow> 'm \<times> authority_db \<times> (authority_error + authority_status list)" where
  "acknowledge P [] m db = (m, db, Inr [])"
| "acknowledge P (item # items) m db =
     (case am_prepare (pr_module P) m (pr_uuid P) (pr_project P) (fst item) (PrepareAck (snd item)) of
        (m', Inl e) \<Rightarrow> (m', pr_others P m' db, Inl (ModuleThrew e))
      | (m', Inr authority) \<Rightarrow>
          if as_state authority \<noteq> Module then (m', pr_others P m' db, Inl (AckFailed (fst item)))
          else (case acknowledge P items m' (pr_others P m' db) of
                  (m2, db2, Inl e) \<Rightarrow> (m2, db2, Inl e)
                | (m2, db2, Inr results) \<Rightarrow> (m2, db2, Inr (authority # results))))"

text \<open>The abort of everything that was started; the flag says whether the module may own a domain.\<close>

primrec abort_started ::
  "'m preparation \<Rightarrow> (authority_domain \<times> int) list \<Rightarrow> bool \<Rightarrow> 'm \<Rightarrow> authority_db \<Rightarrow> 'm \<times> authority_db \<times> bool" where
  "abort_started P [] moduleOwnsDomain m db = (m, db, moduleOwnsDomain)"
| "abort_started P (item # items) moduleOwnsDomain m db =
     (case am_prepare (pr_module P) m (pr_uuid P) (pr_project P) (fst item) (PrepareAbort (snd item)) of
        (m', Inl e) \<Rightarrow> abort_started P items True m' (pr_others P m' db)
      | (m', Inr aborted) \<Rightarrow> abort_started P items (moduleOwnsDomain \<or> as_state aborted = Module) m' (pr_others P m' db))"

definition abort_preparation ::
  "'m preparation \<Rightarrow> (authority_domain \<times> int) list \<Rightarrow> 'm \<Rightarrow> authority_db \<Rightarrow> 'm \<times> authority_db" where
  "abort_preparation P started m db =
     (case abort_started P started False m db of
        (m', db', moduleOwnsDomain) \<Rightarrow> (m', if moduleOwnsDomain then db' else removeAuthorityManagedMarker (pr_project P) db'))"

definition run_preparation ::
  "'m preparation \<Rightarrow> authority_domain list \<Rightarrow> 'm \<Rightarrow> authority_db \<Rightarrow> 'm \<times> authority_db \<times> (authority_error + authority_status list)" where
  "run_preparation P domains m db =
     (case prepare_domains P domains [] [] m db of
        (m1, db1, started, Inl e) \<Rightarrow> (let (m2, db2) = abort_preparation P started m1 db1 in (m2, db2, Inl e))
      | (m1, db1, started, Inr prepared) \<Rightarrow>
          if \<not> capturedBoundsUnchanged db1 (pr_project P) domains
          then (let (m2, db2) = abort_preparation P started m1 db1 in (m2, db2, Inl BoundsChanged))
          else (case acknowledge P prepared m1 db1 of
                  (m2, db2, Inr results) \<Rightarrow> (m2, db2, Inr results)
                | (m2, db2, Inl e) \<Rightarrow> (let (m3, db3) = abort_preparation P started m2 db2 in (m3, db3, Inl e))))"

definition prepareAuthority ::
  "'m authority_module \<Rightarrow> ('m \<Rightarrow> authority_db \<Rightarrow> authority_db) \<Rightarrow> (authority_domain \<Rightarrow> authority_db \<Rightarrow> json_object list)
   \<Rightarrow> (authority_domain \<Rightarrow> json_object list \<Rightarrow> string) \<Rightarrow> (json_object \<Rightarrow> int) \<Rightarrow> int \<Rightarrow> string \<Rightarrow> string
   \<Rightarrow> authority_domain list option \<Rightarrow> 'm \<Rightarrow> authority_db \<Rightarrow> 'm \<times> authority_db \<times> (authority_error + authority_status list)" where
  "prepareAuthority M others seedPages checksum row_bytes now minted projectPath domainsArg m db =
     (let (db1, contextStoreUuid) = ensureContextStoreUuid minted db;
          domains = (case domainsArg of None \<Rightarrow> AUTHORITY_DOMAINS | Some ds \<Rightarrow> ds)
      in case am_seed M of
           None \<Rightarrow> (m, db1, Inl (MissingRoute ''authority.seed''))
         | Some seed \<Rightarrow>
             run_preparation \<lparr>pr_module = M, pr_seed = seed, pr_others = others, pr_uuid = contextStoreUuid, pr_project = projectPath,
                 pr_seedPages = seedPages, pr_checksum = checksum, pr_row_bytes = row_bytes\<rparr>
               domains m (installMarkerAndCaptureBounds now projectPath contextStoreUuid domains db1))"

section \<open>Taking the project back\<close>

fun code_within :: "nat \<Rightarrow> thrown \<Rightarrow> string option" where
  "code_within 0 e = None"
| "code_within (Suc depth) (Thrown code message cause isError) =
     (case code of Some c \<Rightarrow> Some c | None \<Rightarrow> (case cause of None \<Rightarrow> None | Some e \<Rightarrow> code_within depth e))"

definition authorityDrainErrorCode :: "thrown \<Rightarrow> string option" where
  "authorityDrainErrorCode e =
     (case code_within 3 e of
        Some c \<Rightarrow> Some c
      | None \<Rightarrow> if is_error e \<and> str_includes ''authority_feed_head_advanced'' (thrown_message e)
                then Some ''authority_feed_head_advanced'' else None)"

definition head_advanced :: "thrown \<Rightarrow> bool" where
  "head_advanced e \<longleftrightarrow> authorityDrainErrorCode e = Some ''authority_feed_head_advanced''"

text \<open>A response without an authority is inspected like a thrown value that is no \<open>Error\<close>.\<close>

definition of_response :: "drain_response \<Rightarrow> thrown" where
  "of_response r = Thrown (dr_code r) [] None False"

definition MAX_DRAIN_RECAPTURE_ATTEMPTS :: nat where
  "MAX_DRAIN_RECAPTURE_ATTEMPTS = 5"

text \<open>The settings of one drain. No other writer of the database is modelled here.\<close>

record 'm draining =
  dg_module :: "'m authority_module"
  dg_drain :: "'m \<Rightarrow> string \<Rightarrow> string \<Rightarrow> authority_domain \<Rightarrow> drain_action \<Rightarrow> 'm \<times> (thrown + drain_response)"
  dg_pull :: "'m \<Rightarrow> authority_domain \<Rightarrow> int \<Rightarrow> int \<Rightarrow> 'm \<times> (thrown + changefeed_page)"
  dg_clock :: "'m \<Rightarrow> int"
  dg_uuid :: string
  dg_project :: string
  dg_domain :: authority_domain
  dg_checksum :: "authority_db \<Rightarrow> string"
  dg_limit :: int

text \<open>Pages are pulled until the cursor reaches the captured bound or stands still.\<close>

lemma replay_progress:
  assumes "applyMirrorPage now db page = Inr (db', c)" "getMirrorCursor db' domain \<noteq> getMirrorCursor db domain"
  shows "getMirrorCursor db domain < getMirrorCursor db' domain"
proof -
  note page = page_effect [OF assms(1)]
  have "getMirrorCursor db Notes \<le> getMirrorCursor db' Notes"
    using page reached_ge [of "cp_cursor page" Notes "cp_rows page"] by linarith
  moreover have "getMirrorCursor db' Memories = getMirrorCursor db Memories"
    by (rule page_frame(1) [OF assms(1)])
  ultimately show ?thesis using assms(2) by (cases domain) auto
qed

function replay ::
  "'m draining \<Rightarrow> int \<Rightarrow> 'm \<Rightarrow> authority_db \<Rightarrow> 'm \<times> authority_db \<times> authority_error option" where
  "replay D upperBound m db =
     (if getMirrorCursor db (dg_domain D) < upperBound
      then (case dg_pull D m (dg_domain D) (getMirrorCursor db (dg_domain D)) (dg_limit D) of
              (m', Inl e) \<Rightarrow> (m', db, Some (ModuleThrew e))
            | (m', Inr page) \<Rightarrow>
                (case applyMirrorPage (dg_clock D m') db page of
                   Inl e \<Rightarrow> (m', db, Some (MirrorFailed e))
                 | Inr (db', _) \<Rightarrow>
                     if getMirrorCursor db' (dg_domain D) = getMirrorCursor db (dg_domain D) then (m', db', None)
                     else replay D upperBound m' db'))
      else (m, db, None))"
  by pat_completeness auto
termination
  by (relation "measure (\<lambda>(D, upperBound, m, db). nat (upperBound - getMirrorCursor db (dg_domain D)))")
    (auto dest!: sym [of "(_, Inr _)"] intro: replay_progress)

declare replay.simps [simp del]

datatype drain_outcome =
  Drained authority_status
  | Advanced "authority_status option"
  | DrainFailed authority_error

definition DRAIN_STEPS :: "drain_step list" where
  "DRAIN_STEPS = [StepSeed, StepMemories, StepNotes, StepCompartments, StepReconcile, StepVerify]"

text \<open>The steps of the drain: the status of the last one, or how the sequence ended.\<close>

primrec drain_steps ::
  "'m draining \<Rightarrow> string \<Rightarrow> drain_step list \<Rightarrow> authority_status \<Rightarrow> 'm \<Rightarrow> authority_db \<Rightarrow> 'm \<times> (drain_outcome + authority_status)" where
  "drain_steps D token [] status m db = (m, Inr status)"
| "drain_steps D token (step # steps) status m db =
     (let action = DrainStep step (as_generation status) (getMirrorCursor db (dg_domain D)) token
      in case dg_drain D m (dg_uuid D) (dg_project D) (dg_domain D) action of
           (m', Inl e) \<Rightarrow> (m', Inl (DrainFailed (ModuleThrew e)))
         | (m', Inr response) \<Rightarrow>
             (case dr_authority response of
                Some status' \<Rightarrow> drain_steps D token steps status' m' db
              | None \<Rightarrow> (m', Inl (if head_advanced (of_response response) then Advanced (Some status)
                                 else DrainFailed (AuthorityOmitted action)))))"

definition drain_finish :: "'m draining \<Rightarrow> string \<Rightarrow> authority_status \<Rightarrow> 'm \<Rightarrow> authority_db \<Rightarrow> 'm \<times> (drain_outcome + authority_status)" where
  "drain_finish D token status m db =
     (let action = DrainFinish (as_generation status) (dg_checksum D db) token
      in case dg_drain D m (dg_uuid D) (dg_project D) (dg_domain D) action of
           (m', Inl e) \<Rightarrow> (m', Inl (if head_advanced e then Advanced (Some status) else DrainFailed (ModuleThrew e)))
         | (m', Inr response) \<Rightarrow>
             (m', case dr_authority response of
                Some finished \<Rightarrow> Inr finished
              | None \<Rightarrow> Inl (if head_advanced (of_response response) then Advanced (Some status)
                             else DrainFailed (AuthorityOmitted action))))"

text \<open>After the finish the marker goes when no domain is left with the module.\<close>

definition release_marker :: "'m draining \<Rightarrow> authority_status \<Rightarrow> 'm \<Rightarrow> authority_db \<Rightarrow> 'm \<times> authority_db \<times> drain_outcome" where
  "release_marker D finished m db =
     (if as_state finished \<noteq> TS then (m, db, DrainFailed NotReactivated)
      else case all_statuses (dg_module D) (dg_uuid D) (dg_project D) AUTHORITY_DOMAINS m of
             (m', Inl e) \<Rightarrow> (m', db, DrainFailed (ModuleThrew e))
           | (m', Inr remaining) \<Rightarrow>
               (m', if list_all (\<lambda>r. case r of None \<Rightarrow> True | Some a \<Rightarrow> as_state a = TS) remaining
                    then removeAuthorityManagedMarker (dg_project D) db else db, Drained finished))"

text \<open>One attempt, from the begin to the release.\<close>

definition upper_bound :: "authority_status \<Rightarrow> int" where
  "upper_bound status = (case as_captured_upper_bound status of
     Some n \<Rightarrow> n | None \<Rightarrow> (case as_drain_cursor status of Some n \<Rightarrow> n | None \<Rightarrow> 0))"

definition drain_rest :: "'m draining \<Rightarrow> string \<Rightarrow> authority_status \<Rightarrow> 'm \<Rightarrow> authority_db \<Rightarrow> 'm \<times> authority_db \<times> drain_outcome" where
  "drain_rest D token status m db =
     (case replay D (upper_bound status) m db of
        (m1, db1, Some e) \<Rightarrow> (m1, db1, DrainFailed e)
      | (m1, db1, None) \<Rightarrow>
          (case drain_steps D token DRAIN_STEPS status m1 db1 of
             (m2, Inl failure) \<Rightarrow> (m2, db1, failure)
           | (m2, Inr status') \<Rightarrow>
               (case drain_finish D token status' m2 db1 of
                  (m3, Inl failure) \<Rightarrow> (m3, db1, failure)
                | (m3, Inr finished) \<Rightarrow> release_marker D finished m3 db1)))"

definition drain_attempt :: "'m draining \<Rightarrow> 'm \<Rightarrow> authority_db \<Rightarrow> 'm \<times> authority_db \<times> drain_outcome" where
  "drain_attempt D m db =
     (case dg_drain D m (dg_uuid D) (dg_project D) (dg_domain D) (DrainBegin (dg_clock D m)) of
        (m1, Inl e) \<Rightarrow> (m1, db, DrainFailed (ModuleThrew e))
      | (m1, Inr response) \<Rightarrow>
          (case dr_authority response of
             None \<Rightarrow> (m1, db, if head_advanced (of_response response) then Advanced None
                              else DrainFailed (AuthorityOmitted (DrainBegin (dg_clock D m))))
           | Some status \<Rightarrow>
               (case as_coordinator_token status of
                  None \<Rightarrow> (m1, db, DrainFailed TokenOmitted)
                | Some token \<Rightarrow>
                    if token = [] then (m1, db, DrainFailed TokenOmitted)
                    else if dg_domain D = Memories \<and> getMirrorCursor db Memories < upper_bound status
                    then (m1, db, DrainFailed LegacyFeedRows)
                    else drain_rest D token status m1 db)))"

datatype authority_drain_result = Finished authority_status | Contended nat "authority_status option"

text \<open>Attempts are repeated while the head of the feed moves, at most five more times.\<close>

function drain_loop :: "'m draining \<Rightarrow> nat \<Rightarrow> 'm \<Rightarrow> authority_db \<Rightarrow> 'm \<times> authority_db \<times> (authority_error + authority_drain_result)" where
  "drain_loop D recaptureAttempts m db =
     (case drain_attempt D m db of
        (m', db', Drained finished) \<Rightarrow> (m', db', Inr (Finished finished))
      | (m', db', DrainFailed e) \<Rightarrow> (m', db', Inl e)
      | (m', db', Advanced authority) \<Rightarrow>
          if MAX_DRAIN_RECAPTURE_ATTEMPTS \<le> recaptureAttempts then (m', db', Inr (Contended recaptureAttempts authority))
          else drain_loop D (recaptureAttempts + 1) m' db')"
  by pat_completeness auto
termination
  by (relation "measure (\<lambda>(D, recaptureAttempts, m, db). MAX_DRAIN_RECAPTURE_ATTEMPTS - recaptureAttempts)") auto

declare drain_loop.simps [simp del]

definition drainAuthority ::
  "'m authority_module \<Rightarrow> ('m \<Rightarrow> int) \<Rightarrow> string \<Rightarrow> string \<Rightarrow> authority_domain \<Rightarrow> (authority_db \<Rightarrow> string) \<Rightarrow> int option \<Rightarrow> 'm
   \<Rightarrow> authority_db \<Rightarrow> 'm \<times> authority_db \<times> (authority_error + authority_drain_result)" where
  "drainAuthority M clock minted projectPath domain checksum limit m db =
     (case am_drain M of
        None \<Rightarrow> (m, db, Inl (MissingRoute ''authority.drain''))
      | Some drain \<Rightarrow>
          (case am_pull M of
             None \<Rightarrow> (m, db, Inl (MissingRoute ''mirror.pull''))
           | Some pull \<Rightarrow>
               (let (db1, contextStoreUuid) = ensureContextStoreUuid minted db
                in drain_loop \<lparr>dg_module = M, dg_drain = drain, dg_pull = pull, dg_clock = clock, dg_uuid = contextStoreUuid,
                     dg_project = projectPath, dg_domain = domain, dg_checksum = checksum,
                     dg_limit = max 1 (min (case limit of None \<Rightarrow> 100 | Some l \<Rightarrow> l) 1000)\<rparr> 0 m db1)))"

section \<open>Frames of a seed\<close>

abbreviation frame_bytes :: "('a \<Rightarrow> int) \<Rightarrow> 'a list \<Rightarrow> int" where
  "frame_bytes row_bytes rows \<equiv> 2 + sum_list (map (\<lambda>r. row_bytes r + 1) rows)"

lemma chunk_rows_spec:
  assumes "\<forall>c\<in>set chunks. c \<noteq> [] \<and> (length c = 1 \<or> frame_bytes row_bytes c \<le> MAX_AUTHORITY_SEED_FRAME_BYTES)"
    and "length current \<le> 1 \<or> frame_bytes row_bytes current \<le> MAX_AUTHORITY_SEED_FRAME_BYTES"
    and "n = frame_bytes row_bytes current"
  shows "concat (chunk_rows row_bytes rows chunks current n) = concat chunks @ current @ rows \<and>
    (\<forall>c\<in>set (chunk_rows row_bytes rows chunks current n).
       c \<noteq> [] \<and> (length c = 1 \<or> frame_bytes row_bytes c \<le> MAX_AUTHORITY_SEED_FRAME_BYTES))"
  using assms
proof (induction rows arbitrary: chunks current n)
  case Nil
  then show ?case by (auto simp: Suc_le_eq le_Suc_eq)
next
  case (Cons row rows)
  let ?full = "current \<noteq> [] \<and> MAX_AUTHORITY_SEED_FRAME_BYTES < n + (row_bytes row + 1)"
  show ?case
  proof (cases ?full)
    case True
    have ok: "\<forall>c\<in>set (chunks @ [current]). c \<noteq> [] \<and> (length c = 1 \<or> frame_bytes row_bytes c \<le> MAX_AUTHORITY_SEED_FRAME_BYTES)"
      using Cons.prems(1,2) True by (auto simp: le_Suc_eq)
    have one: "length [row] \<le> 1 \<or> frame_bytes row_bytes [row] \<le> MAX_AUTHORITY_SEED_FRAME_BYTES"
      "2 + (row_bytes row + 1) = frame_bytes row_bytes [row]" by simp_all
    have "chunk_rows row_bytes (row # rows) chunks current n =
        chunk_rows row_bytes rows (chunks @ [current]) [row] (2 + (row_bytes row + 1))"
      unfolding chunk_rows.simps Let_def using True by (rule if_P)
    then show ?thesis using Cons.IH [OF ok one] 
      by (simp only: concat_append concat.simps append_assoc append.simps) blast
  next
    case False
    have fits: "length (current @ [row]) \<le> 1 \<or> frame_bytes row_bytes (current @ [row]) \<le> MAX_AUTHORITY_SEED_FRAME_BYTES"
      using False Cons.prems(3) by auto
    have bytes: "n + (row_bytes row + 1) = frame_bytes row_bytes (current @ [row])" using Cons.prems(3) by simp
    have "chunk_rows row_bytes (row # rows) chunks current n =
        chunk_rows row_bytes rows chunks (current @ [row]) (n + (row_bytes row + 1))"
      unfolding chunk_rows.simps Let_def using False by (rule if_not_P)
    then show ?thesis using Cons.IH [OF Cons.prems(1) fits bytes]
      by (simp only: append_assoc append.simps) blast
  qed
qed

text \<open>
  the frames of a seed hold exactly its rows, in order; no frame is empty, and each one stays within 900 KiB of
  JSON (two brackets, and each row with its comma) unless it consists of a single row.
\<close>

theorem seed_frames_are_bounded:
  "concat (chunkRowsForFrame row_bytes rows) = rows \<and>
   (\<forall>c\<in>set (chunkRowsForFrame row_bytes rows).
      c \<noteq> [] \<and> (length c = 1 \<or> 2 + sum_list (map (\<lambda>r. row_bytes r + 1) c) \<le> 900 * 1024))"
  using chunk_rows_spec [of "[]" row_bytes "[]" 2 rows]
  by (simp add: chunkRowsForFrame_def MAX_AUTHORITY_SEED_FRAME_BYTES_def)

theorem seed_frames_are_bounded_witness:
  "concat (chunkRowsForFrame (\<lambda>r. r) [600000, 600000, 1000000, 2]) = [600000, 600000, 1000000, 2] \<and>
   chunkRowsForFrame (\<lambda>r. r) [600000, 600000, 1000000, 2] = [[600000], [600000], [1000000], [2]]"
  using seed_frames_are_bounded [of "\<lambda>r. r" "[600000, 600000, 1000000, 2]"]
  by (simp add: chunkRowsForFrame_def MAX_AUTHORITY_SEED_FRAME_BYTES_def)

section \<open>What the module says is so\<close>

text \<open>
  What the code relies on in the answers of the module, for a store and a project: a status does not change who owns a
  domain and says who does (a domain without a status is the local side's); a step of a preparation concerns its
  domain only, its answer says who owns that domain then, and only an acknowledgement hands a domain to the module.
\<close>

definition truthful_status :: "'m authority_module \<Rightarrow> ('m \<Rightarrow> authority_domain \<Rightarrow> authority_state) \<Rightarrow> string \<Rightarrow> string \<Rightarrow> bool" where
  "truthful_status M owner uuid projectPath \<longleftrightarrow>
     (\<forall>m d m' r. am_status M m uuid projectPath d = (m', r) \<longrightarrow>
        owner m' = owner m \<and>
        (case r of Inl e \<Rightarrow> True | Inr None \<Rightarrow> owner m d = TS | Inr (Some a) \<Rightarrow> as_state a = owner m d))"

definition truthful_prepare :: "'m authority_module \<Rightarrow> ('m \<Rightarrow> authority_domain \<Rightarrow> authority_state) \<Rightarrow> string \<Rightarrow> string \<Rightarrow> bool" where
  "truthful_prepare M owner uuid projectPath \<longleftrightarrow>
     (\<forall>m d phase m' r. am_prepare M m uuid projectPath d phase = (m', r) \<longrightarrow>
        (\<forall>d'. d' \<noteq> d \<longrightarrow> owner m' d' = owner m d') \<and>
        (case r of Inl e \<Rightarrow> True | Inr a \<Rightarrow> as_state a = owner m' d) \<and>
        (owner m' d = Module \<longrightarrow> owner m d = Module \<or> (\<exists>g. phase = PrepareAck g))) \<and>
     (\<forall>seed m d rows. am_seed M = Some seed \<longrightarrow> owner (fst (seed m uuid projectPath d rows)) = owner m)"

lemma truthful_statusD:
  assumes "truthful_status M owner u p" "am_status M m u p d = (m', r)"
  shows "owner m' = owner m" "r = Inr None \<Longrightarrow> owner m d = TS" "r = Inr (Some a) \<Longrightarrow> as_state a = owner m d"
proof -
  have "owner m' = owner m \<and>
        (case r of Inl e \<Rightarrow> True | Inr None \<Rightarrow> owner m d = TS | Inr (Some a) \<Rightarrow> as_state a = owner m d)"
    using assms unfolding truthful_status_def by blast
  then show "owner m' = owner m" "r = Inr None \<Longrightarrow> owner m d = TS" "r = Inr (Some a) \<Longrightarrow> as_state a = owner m d" by auto
qed

lemma truthful_prepareD:
  assumes "truthful_prepare M owner u p" "am_prepare M m u p d phase = (m', r)"
  shows "d' \<noteq> d \<Longrightarrow> owner m' d' = owner m d'" "r = Inr a \<Longrightarrow> as_state a = owner m' d"
    "owner m' d = Module \<Longrightarrow> owner m d = Module \<or> (\<exists>g. phase = PrepareAck g)"
proof -
  have "(\<forall>d'. d' \<noteq> d \<longrightarrow> owner m' d' = owner m d') \<and>
        (case r of Inl e \<Rightarrow> True | Inr a \<Rightarrow> as_state a = owner m' d) \<and>
        (owner m' d = Module \<longrightarrow> owner m d = Module \<or> (\<exists>g. phase = PrepareAck g))"
    using assms unfolding truthful_prepare_def by blast
  then show "d' \<noteq> d \<Longrightarrow> owner m' d' = owner m d'" "r = Inr a \<Longrightarrow> as_state a = owner m' d"
    "owner m' d = Module \<Longrightarrow> owner m d = Module \<or> (\<exists>g. phase = PrepareAck g)" by auto
qed

text \<open>The statuses of all domains, read one by one, describe the same ownership.\<close>

lemma statuses_truthful:
  assumes "truthful_status M owner u p" "all_statuses M u p ds m = (m', r)"
  shows "owner m' = owner m \<and> (\<forall>as. r = Inr as \<longrightarrow>
     list_all2 (\<lambda>d a. case a of None \<Rightarrow> owner m d = TS | Some s \<Rightarrow> as_state s = owner m d) ds as)"
  using assms(2)
proof (induction ds arbitrary: m m' r)
  case (Cons d ds)
  obtain m1 r1 where 1: "am_status M m u p d = (m1, r1)" by fastforce
  obtain m2 rs where 2: "all_statuses M u p ds m1 = (m2, rs)" by fastforce
  note t = truthful_statusD [OF assms(1) 1]
  have r: "m' = m2" "r = (case r1 of Inl e \<Rightarrow> Inl e | Inr a \<Rightarrow> (case rs of Inl e \<Rightarrow> Inl e | Inr as \<Rightarrow> Inr (a # as)))"
    using Cons.prems 1 2 by auto
  show ?case using Cons.IH [OF 2] t r
    by (cases r1; cases rs) (auto split: option.split)
qed simp

lemma all_domains_TS:
  assumes "truthful_status M owner u p" "all_statuses M u p AUTHORITY_DOMAINS m = (m', Inr as)"
    and "list_all (\<lambda>r. case r of None \<Rightarrow> True | Some a \<Rightarrow> as_state a = TS) as"
  shows "owner m' d = TS"
proof -
  have "list_all2 (\<lambda>d a. case a of None \<Rightarrow> owner m d = TS | Some s \<Rightarrow> as_state s = owner m d) AUTHORITY_DOMAINS as"
      "owner m' = owner m"
    using statuses_truthful [OF assms(1,2)] by auto
  then show ?thesis using assms(3)
    by (cases d) (auto simp: AUTHORITY_DOMAINS_def list_all2_Cons1 split: option.splits)
qed

text \<open>A module that keeps one state for each domain and checks the seed only for domains in \<open>good\<close>.\<close>

definition reply :: "authority_state \<Rightarrow> string option \<Rightarrow> bool \<Rightarrow> authority_status" where
  "reply state checksum ok = \<lparr>as_state = state, as_generation = 1, as_captured_upper_bound = None, as_drain_cursor = None,
     as_coordinator_token = None, as_checksum_expected = checksum, as_checksum_actual = checksum, as_checksum_ok = ok\<rparr>"

definition example_module :: "(authority_domain \<Rightarrow> bool) \<Rightarrow> (authority_domain \<Rightarrow> authority_state) authority_module" where
  "example_module good = \<lparr>am_status = (\<lambda>m u p d. (m, Inr (Some (reply (m d) None False)))),
     am_prepare = (\<lambda>m u p d phase. case phase of
         PrepareBegin \<Rightarrow> (m(d := Preparing), Inr (reply Preparing None False))
       | PrepareComplete g c \<Rightarrow> (m(d := Preparing), Inr (reply Preparing (Some c) (good d)))
       | PrepareAck g \<Rightarrow> (m(d := Module), Inr (reply Module None True))
       | PrepareAbort g \<Rightarrow> (m(d := TS), Inr (reply TS None False))),
     am_seed = Some (\<lambda>m u p d rows. (m, Inr None)), am_drain = None, am_pull = None\<rparr>"

lemma example_truthful: "truthful_prepare (example_module good) (\<lambda>m. m) u p"
  by (auto simp: truthful_prepare_def example_module_def reply_def split: prepare_phase.splits if_splits)

section \<open>Reconciliation fails closed\<close>

lemma first_status_None:
  "first_status P results = None \<longleftrightarrow> list_all (\<lambda>r. case r of None \<Rightarrow> True | Some a \<Rightarrow> \<not> P a) results"
proof -
  have "(List.map_filter (\<lambda>r. case r of Some a \<Rightarrow> if P a then Some a else None | None \<Rightarrow> None) results = []) \<longleftrightarrow>
      list_all (\<lambda>r. case r of None \<Rightarrow> True | Some a \<Rightarrow> \<not> P a) results"
    by (induction results) (auto simp: List.map_filter_simps split: option.splits)
  then show ?thesis by (auto simp: first_status_def split: list.splits)
qed

lemma fenced_simps:
  "project_fenced (setRepairPending now p db) p" "getAuthorityManagedMarker db p \<noteq> None \<Longrightarrow> project_fenced db p"
  "getAuthorityManagedMarker (installAuthorityManagedMarker now p u db) p = Some \<lparr>mm_context_store_uuid = u, mm_marked_at = now\<rparr>"
  "getAuthorityManagedMarker (clearRepairPending q db) p = getAuthorityManagedMarker db p"
  by (simp_all add: project_fenced_def setRepairPending_def getAuthorityManagedMarker_def installAuthorityManagedMarker_def
      clearRepairPending_def jsmap_laws)

lemma reconciled_fence:
  assumes run: "reconcileAuthorityMarker M others now minted p m db = (m', db', r)"
    and u: "u = snd (ensureContextStoreUuid minted db)"
    and kept: "\<And>m db. project_fenced db p \<Longrightarrow> project_fenced (others m db) p"
    and truth: "truthful_status M owner u p"
  shows "(project_fenced db' p \<or> (\<forall>d. owner m' d = TS)) \<and>
    (\<forall>a. r = Inr (Repaired, a) \<longrightarrow> getAuthorityManagedMarker db' p = Some \<lparr>mm_context_store_uuid = u, mm_marked_at = now\<rparr>)"
proof -
  obtain db1 where db1: "ensureContextStoreUuid minted db = (db1, u)" using u by (metis prod.collapse)
  obtain n s where n: "all_statuses M u p AUTHORITY_DOMAINS m = (n, s)" by fastforce
  show ?thesis
  proof (cases "getAuthorityManagedMarker db1 p")
    case (Some k)
    then have "project_fenced (others n db1) p" by (intro kept fenced_simps(2)) simp
    then show ?thesis using run Some by (auto simp: reconcileAuthorityMarker_def db1 n split: sum.splits)
  next
    case None
    let ?db3 = "others n (setRepairPending now p db1)"
    have fenced: "project_fenced ?db3 p" by (intro kept fenced_simps(1))
    have run: "(case s of Inl e \<Rightarrow> (n, ?db3, Inl (ModuleThrew e)) | Inr as \<Rightarrow>
        (case first_status (\<lambda>a. as_state a \<noteq> TS) as of
           None \<Rightarrow> (n, clearRepairPending p ?db3, Inr (Legacy, None))
         | Some a \<Rightarrow> (n, clearRepairPending p (installAuthorityManagedMarker now p u ?db3), Inr (Repaired, Some a)))) = (m', db', r)"
      using run None by (simp add: reconcileAuthorityMarker_def db1 n Let_def)
    show ?thesis
    proof (cases s)
      case (Inl e)
      then show ?thesis using run fenced by auto
    next
      case (Inr as)
      show ?thesis
      proof (cases "first_status (\<lambda>a. as_state a \<noteq> TS) as")
        case N: None
        then have "list_all (\<lambda>r. case r of None \<Rightarrow> True | Some a \<Rightarrow> as_state a = TS) as" by (simp only: first_status_None not_not)
        then have "\<forall>d. owner n d = TS" using all_domains_TS [OF truth n [unfolded Inr]] by blast
        then show ?thesis using run Inr N by auto
      next
        case (Some a)
        have "getAuthorityManagedMarker (clearRepairPending p (installAuthorityManagedMarker now p u ?db3)) p =
            Some \<lparr>mm_context_store_uuid = u, mm_marked_at = now\<rparr>"
          by (simp add: fenced_simps)
        then show ?thesis using run Inr Some fenced_simps(2) [of db' p] by auto
      qed
    qed
  qed
qed

text \<open>
  C25: reconciling a project never opens it while the module owns part of it. Whatever the module answers or fails to
  answer, and as long as the other writers do not lift the fence themselves, the project is fenced afterwards (by its
  marker, or by the repair that stays pending after an error), or every domain belongs to the local side. And a lost
  marker is back, with the identity of this store, when the reconciliation says that it was repaired.
\<close>

theorem reconciliation_fails_closed:
  assumes run: "reconcileAuthorityMarker M others now minted p m db = (m', db', r)"
    and u: "u = snd (ensureContextStoreUuid minted db)"
    and kept: "\<And>m db. project_fenced db p \<Longrightarrow> project_fenced (others m db) p"
    and truth: "truthful_status M owner u p"
  shows "(project_fenced db' p \<or> (\<forall>d. owner m' d = TS)) \<and>
    (\<forall>a. r = Inr (Repaired, a) \<longrightarrow> getAuthorityManagedMarker db' p = Some \<lparr>mm_context_store_uuid = u, mm_marked_at = now\<rparr>)"
  by (rule reconciled_fence [OF assms])

lemma example_truthful_status: "truthful_status (example_module good) (\<lambda>m. m) u p"
  by (auto simp: truthful_status_def example_module_def reply_def)

theorem reconciliation_fails_closed_witness:
  "\<exists>m' db' a. reconcileAuthorityMarker (example_module (\<lambda>d. True)) (\<lambda>m db. db) 9 ''minted'' ''app'' (\<lambda>d. Module) empty_db
     = (m', db', Inr (Repaired, a)) \<and>
     getAuthorityManagedMarker db' ''app'' = Some \<lparr>mm_context_store_uuid = ''store'', mm_marked_at = 9\<rparr>"
proof -
  have u: "''store'' = snd (ensureContextStoreUuid ''minted'' empty_db)"
    by (simp add: ensureContextStoreUuid_def getContextStoreUuid_def empty_db_def)
  have "\<exists>m' db' a. reconcileAuthorityMarker (example_module (\<lambda>d. True)) (\<lambda>m db. db) 9 ''minted'' ''app'' (\<lambda>d. Module) empty_db
     = (m', db', Inr (Repaired, a))"
    by (simp add: reconcileAuthorityMarker_def ensureContextStoreUuid_def getContextStoreUuid_def empty_db_def
      getAuthorityManagedMarker_def AUTHORITY_DOMAINS_def example_module_def first_status_def reply_def List.map_filter_simps)
  then obtain m' db' a where run: "reconcileAuthorityMarker (example_module (\<lambda>d. True)) (\<lambda>m db. db) 9 ''minted'' ''app''
      (\<lambda>d. Module) empty_db = (m', db', Inr (Repaired, a))" by blast
  show ?thesis using run reconciliation_fails_closed [OF run u _ example_truthful_status] by blast
qed

text \<open>The fence stands while the module is asked: what the other writers would do to an open project has no effect.\<close>

lemma reconciliation_waits_behind_the_fence:
  assumes "\<And>m db. project_fenced db p \<Longrightarrow> others m db = others' m db"
  shows "reconcileAuthorityMarker M others now minted p m db = reconcileAuthorityMarker M others' now minted p m db"
proof -
  have pend: "others n (setRepairPending now p d) = others' n (setRepairPending now p d)" for n d
    by (rule assms) (rule fenced_simps)
  have mark: "others n d = others' n d" if "getAuthorityManagedMarker d p \<noteq> None" for n d
    by (rule assms) (use that in \<open>rule fenced_simps\<close>)
  show ?thesis by (auto simp: reconcileAuthorityMarker_def Let_def pend mark split: prod.split sum.split option.split)
qed

section \<open>Preparations and the marker\<close>

text \<open>What the preparation itself does to a database keeps the marker; the other writers are assumed to.\<close>

abbreviation marked :: "authority_db \<Rightarrow> string \<Rightarrow> bool" where
  "marked db p \<equiv> getAuthorityManagedMarker db p \<noteq> None"

definition keeps_marker :: "'m preparation \<Rightarrow> bool" where
  "keeps_marker P \<longleftrightarrow> (\<forall>m db. getAuthorityManagedMarker (pr_others P m db) (pr_project P) = getAuthorityManagedMarker db (pr_project P))"

lemma remember_page_managed: "ad_managed (remember_page d p is db) = ad_managed db"
  by (induction "is" arbitrary: db) (auto simp: remember_page_def)

lemma remember_page_marker: "getAuthorityManagedMarker (remember_page d p is db) q = getAuthorityManagedMarker db q"
  by (simp add: getAuthorityManagedMarker_def remember_page_managed)

lemma seed_chunks_spec:
  assumes "keeps_marker P" "truthful_prepare (pr_module P) owner (pr_uuid P) (pr_project P)" "am_seed (pr_module P) = Some (pr_seed P)"
  shows "seed_chunks P d pages m db = (m', db', e) \<Longrightarrow>
    owner m' = owner m \<and> getAuthorityManagedMarker db' (pr_project P) = getAuthorityManagedMarker db (pr_project P)"
proof (induction pages arbitrary: m db)
  case (Cons page pages)
  obtain m1 r where 1: "pr_seed P m (pr_uuid P) (pr_project P) d page = (m1, r)" by fastforce
  then have o: "owner m1 = owner m" using assms(2,3) unfolding truthful_prepare_def by (metis fst_conv)
  show ?case
    using Cons.prems 1 o assms(1) Cons.IH
    by (auto simp: keeps_marker_def remember_page_marker split: sum.splits option.splits)
qed (use assms in simp)

text \<open>One domain and all of them: nothing becomes the module's, other domains stay as they are, the marker stays.\<close>

lemma prepare_domain_spec:
  assumes P: "keeps_marker P" "truthful_prepare (pr_module P) owner (pr_uuid P) (pr_project P)" "am_seed (pr_module P) = Some (pr_seed P)"
    and run: "prepare_domain P d m db = (m', db', g, r)"
  shows "(owner m' d = Module \<longrightarrow> owner m d = Module) \<and> (\<forall>d'. d' \<noteq> d \<longrightarrow> owner m' d' = owner m d') \<and>
    getAuthorityManagedMarker db' (pr_project P) = getAuthorityManagedMarker db (pr_project P) \<and> (\<forall>x. r = Inr x \<longrightarrow> g = Some x)"
proof -
  let ?call = "am_prepare (pr_module P)"
  note t = truthful_prepareD [OF P(2)]
  have mark: "getAuthorityManagedMarker (pr_others P n b) (pr_project P) = getAuthorityManagedMarker b (pr_project P)" for n b
    using P(1) by (simp add: keeps_marker_def)
  obtain m1 r1 where 1: "?call m (pr_uuid P) (pr_project P) d PrepareBegin = (m1, r1)" by fastforce
  have b: "owner m1 d = Module \<longrightarrow> owner m d = Module" "\<forall>d'. d' \<noteq> d \<longrightarrow> owner m1 d' = owner m d'"
    using t [OF 1] by auto
  show ?thesis
  proof (cases r1)
    case (Inl e)
    then show ?thesis using run 1 b mark by (auto simp: prepare_domain_def)
  next
    case (Inr started)
    let ?db1 = "pr_others P m1 db"
    let ?rows = "pr_seedPages P d ?db1"
    obtain m2 db2 e where 2: "seed_chunks P d (chunkRowsForFrame (pr_row_bytes P) ?rows) m1 ?db1 = (m2, db2, e)"
      by (metis prod_cases3)
    note s = seed_chunks_spec [OF P 2]
    show ?thesis
    proof (cases e)
      case (Some f)
      then show ?thesis using run 1 2 Inr s b mark by (auto simp: prepare_domain_def)
    next
      case None
      let ?phase = "PrepareComplete (as_generation started) (pr_checksum P d ?rows)"
      obtain m3 r3 where 3: "?call m2 (pr_uuid P) (pr_project P) d ?phase = (m3, r3)" by fastforce
      have c: "owner m3 d = Module \<longrightarrow> owner m2 d = Module" "\<forall>d'. d' \<noteq> d \<longrightarrow> owner m3 d' = owner m2 d'"
        using t [OF 3] by auto
      have "m' = m3" "db' = pr_others P m3 db2" "\<forall>x. r = Inr x \<longrightarrow> g = Some x"
        using run 1 2 3 Inr None by (auto simp: prepare_domain_def Let_def split: sum.splits if_splits)
      then show ?thesis using b c s mark by auto
    qed
  qed
qed

lemma prepare_domains_spec:
  assumes P: "keeps_marker P" "truthful_prepare (pr_module P) owner (pr_uuid P) (pr_project P)" "am_seed (pr_module P) = Some (pr_seed P)"
  shows "prepare_domains P ds started prepared m db = (m', db', started', r) \<Longrightarrow>
    (\<forall>d. owner m' d = Module \<longrightarrow> owner m d = Module) \<and>
    getAuthorityManagedMarker db' (pr_project P) = getAuthorityManagedMarker db (pr_project P) \<and>
    fst ` set started \<subseteq> fst ` set started' \<and> fst ` set started' \<subseteq> fst ` set started \<union> set ds \<and>
    (\<forall>xs. r = Inr xs \<longrightarrow> (\<exists>ys. xs = prepared @ ys \<and> map fst ys = ds \<and> fst ` set ys \<subseteq> fst ` set started'))"
proof (induction ds arbitrary: started prepared m db)
  case (Cons d ds)
  obtain m1 db1 g r1 where 1: "prepare_domain P d m db = (m1, db1, g, r1)" by (metis prod_cases4)
  note s = prepare_domain_spec [OF P 1]
  have own: "\<forall>x. owner m1 x = Module \<longrightarrow> owner m x = Module" using s by (metis (full_types))
  show ?case
  proof (cases r1)
    case (Inl e)
    then have "m' = m1 \<and> db' = db1 \<and> r = Inl e \<and> started' = (case g of None \<Rightarrow> started | Some n \<Rightarrow> jsmap_set d n started)"
      using Cons.prems 1 by (cases g) auto
    then show ?thesis using own s by (cases g) (simp_all add: keys_jsmap_set subset_insertI, blast+)
  next
    case (Inr x)
    then have run: "prepare_domains P ds (jsmap_set d x started) (prepared @ [(d, x)]) m1 db1 = (m', db', started', r)"
      using Cons.prems 1 s by (cases g) auto
    note IH = Cons.IH [OF run]
    have keys: "insert d (fst ` set started) \<subseteq> fst ` set started'" "fst ` set started' \<subseteq> insert d (fst ` set started) \<union> set ds"
      using IH by (simp_all add: keys_jsmap_set)
    have "\<exists>ys. xs = prepared @ ys \<and> map fst ys = d # ds \<and> fst ` set ys \<subseteq> fst ` set started'" if "r = Inr xs" for xs
    proof -
      obtain ys where "xs = (prepared @ [(d, x)]) @ ys" "map fst ys = ds" "fst ` set ys \<subseteq> fst ` set started'"
        using IH \<open>r = Inr xs\<close> by blast
      then show ?thesis using keys(1) by (intro exI [of _ "(d, x) # ys"]) auto
    qed
    then show ?thesis using IH own s keys by auto
  qed
qed auto

lemma acknowledge_spec:
  assumes P: "keeps_marker P" "truthful_prepare (pr_module P) owner (pr_uuid P) (pr_project P)"
  shows "acknowledge P items m db = (m', db', r) \<Longrightarrow>
    getAuthorityManagedMarker db' (pr_project P) = getAuthorityManagedMarker db (pr_project P) \<and>
    (\<forall>d. d \<notin> fst ` set items \<longrightarrow> owner m' d = owner m d) \<and>
    (\<forall>as. r = Inr as \<longrightarrow> length as = length items \<and> (\<forall>a\<in>set as. as_state a = Module) \<and>
       (distinct (map fst items) \<longrightarrow> (\<forall>d\<in>fst ` set items. owner m' d = Module)))"
proof (induction items arbitrary: m db m' db' r)
  case (Cons item items)
  obtain m1 r1 where 1: "am_prepare (pr_module P) m (pr_uuid P) (pr_project P) (fst item) (PrepareAck (snd item)) = (m1, r1)"
    by fastforce
  note t = truthful_prepareD [OF P(2) 1]
  have mark: "getAuthorityManagedMarker (pr_others P n b) (pr_project P) = getAuthorityManagedMarker b (pr_project P)" for n b
    using P(1) by (simp add: keeps_marker_def)
  obtain m2 db2 r2 where 2: "acknowledge P items m1 (pr_others P m1 db) = (m2, db2, r2)" by (metis prod_cases3)
  note IH = Cons.IH [OF 2]
  show ?case
  proof (cases "\<exists>a. r1 = Inr a \<and> as_state a = Module")
    case False
    then have "m' = m1 \<and> db' = pr_others P m1 db \<and> (\<exists>e. r = Inl e)" using Cons.prems 1 by (cases r1) auto
    then show ?thesis using t(1) mark by auto
  next
    case True
    then obtain a where a: "r1 = Inr a" "as_state a = Module" by blast
    then have run: "m' = m2 \<and> db' = db2 \<and> r = (case r2 of Inl e \<Rightarrow> Inl e | Inr as \<Rightarrow> Inr (a # as))"
      using Cons.prems 1 2 by (auto split: sum.splits)
    have "owner m1 (fst item) = Module" using t(2) [OF a(1)] a(2) by simp
    then have first: "owner m2 (fst item) = Module" if "fst item \<notin> fst ` set items" using that IH by simp
    have other: "owner m2 d = owner m d" if "d \<noteq> fst item" "d \<notin> fst ` set items" for d using that IH t(1) by auto
    show ?thesis
    proof (cases r2)
      case (Inl e)
      then show ?thesis using run IH mark other by auto
    next
      case (Inr as)
      then show ?thesis using run IH mark other first a(2) by auto
    qed
  qed
qed simp

text \<open>An abort tells who owns its domain; without a warning no started domain is the module's at the end.\<close>

lemma abort_started_spec:
  assumes P: "keeps_marker P" "truthful_prepare (pr_module P) owner (pr_uuid P) (pr_project P)"
  shows "abort_started P items flag m db = (m', db', flag') \<Longrightarrow>
    getAuthorityManagedMarker db' (pr_project P) = getAuthorityManagedMarker db (pr_project P) \<and>
    (\<forall>d. owner m' d = Module \<longrightarrow> owner m d = Module) \<and> (flag \<longrightarrow> flag') \<and>
    (\<not> flag' \<longrightarrow> (\<forall>d\<in>fst ` set items. owner m' d \<noteq> Module))"
proof (induction items arbitrary: flag m db)
  case (Cons item items)
  obtain m1 r1 where 1: "am_prepare (pr_module P) m (pr_uuid P) (pr_project P) (fst item) (PrepareAbort (snd item)) = (m1, r1)"
    by fastforce
  note t = truthful_prepareD [OF P(2) 1]
  have mark: "getAuthorityManagedMarker (pr_others P n b) (pr_project P) = getAuthorityManagedMarker b (pr_project P)" for n b
    using P(1) by (simp add: keeps_marker_def)
  have own: "owner m1 d = Module \<longrightarrow> owner m d = Module" for d using t(1,3) by (cases "d = fst item") auto
  let ?flag = "case r1 of Inl e \<Rightarrow> True | Inr a \<Rightarrow> flag \<or> as_state a = Module"
  have run: "abort_started P items ?flag m1 (pr_others P m1 db) = (m', db', flag')"
    using Cons.prems 1 by (auto split: sum.splits)
  note IH = Cons.IH [OF run]
  have "owner m' (fst item) \<noteq> Module" if "\<not> flag'"
  proof -
    have "\<not> ?flag" using IH that by blast
    then obtain a where "r1 = Inr a" "as_state a \<noteq> Module" by (cases r1) auto
    then have "owner m1 (fst item) \<noteq> Module" using t(2) by auto
    then show ?thesis using IH by blast
  qed
  moreover have "flag \<longrightarrow> ?flag" by (simp split: sum.split)
  ultimately show ?case using IH mark own by auto
qed simp

lemma abort_preparation_spec:
  assumes P: "keeps_marker P" "truthful_prepare (pr_module P) owner (pr_uuid P) (pr_project P)"
    and run: "abort_preparation P started m db = (m', db')" and marker: "marked db (pr_project P)"
    and others: "\<forall>d\<in>D. d \<notin> fst ` set started \<longrightarrow> owner m d \<noteq> Module"
  shows "marked db' (pr_project P) \<or> (\<forall>d\<in>D. owner m' d \<noteq> Module)"
proof -
  obtain n b flag where ab: "abort_started P started False m db = (n, b, flag)" by (metis prod_cases3)
  note s = abort_started_spec [OF P ab]
  show ?thesis
  proof (cases flag)
    case True
    then show ?thesis using run ab s marker by (simp add: abort_preparation_def)
  next
    case False
    then have "\<forall>d\<in>D. owner n d \<noteq> Module" using s others by (metis (no_types))
    then show ?thesis using run ab by (simp add: abort_preparation_def split: if_splits)
  qed
qed

lemma install_bounds_marker:
  "getAuthorityManagedMarker (installMarkerAndCaptureBounds now p u ds db) p = Some \<lparr>mm_context_store_uuid = u, mm_marked_at = now\<rparr>"
proof -
  have "ad_managed (fold (\<lambda>d db. db\<lparr>ad_bounds := f d db\<rparr>) ds db) = ad_managed db" for f and db :: authority_db
    by (induction ds arbitrary: db) auto
  then show ?thesis
    by (simp add: installMarkerAndCaptureBounds_def getAuthorityManagedMarker_def installAuthorityManagedMarker_def map_of_jsmap_set)
qed

text \<open>The two ways a preparation ends.\<close>

lemma run_preparation_spec:
  assumes P: "keeps_marker P" "truthful_prepare (pr_module P) owner (pr_uuid P) (pr_project P)" "am_seed (pr_module P) = Some (pr_seed P)"
    and run: "run_preparation P ds m db = (m', db', r)" and marker: "marked db (pr_project P)"
    and start: "\<forall>d\<in>set ds. owner m d \<noteq> Module" and dist: "distinct ds"
  shows "case r of
      Inl e \<Rightarrow> marked db' (pr_project P) \<or> (\<forall>d\<in>set ds. owner m' d \<noteq> Module)
    | Inr as \<Rightarrow> getAuthorityManagedMarker db' (pr_project P) = getAuthorityManagedMarker db (pr_project P) \<and>
        length as = length ds \<and> (\<forall>a\<in>set as. as_state a = Module) \<and> (\<forall>d\<in>set ds. owner m' d = Module)"
proof -
  obtain m1 db1 started r1 where 1: "prepare_domains P ds [] [] m db = (m1, db1, started, r1)" by (metis prod_cases4)
  note s = prepare_domains_spec [OF P 1]
  have marked1: "marked db1 (pr_project P)" using s marker by simp
  have own: "\<forall>d\<in>set ds. owner m1 d \<noteq> Module" using conjunct1 [OF s] start by auto
  have fail: "marked db2 (pr_project P) \<or> (\<forall>d\<in>set ds. owner m2 d \<noteq> Module)"
    if "abort_preparation P started m1 db1 = (m2, db2)" for m2 db2
    by (rule abort_preparation_spec [OF P(1,2) that marked1]) (use own in simp)
  show ?thesis
  proof (cases r1)
    case (Inl e)
    then show ?thesis using run 1 fail by (auto simp: run_preparation_def split: prod.splits)
  next
    case (Inr items)
    then have items: "map fst items = ds" "fst ` set items \<subseteq> fst ` set started" using s by auto
    show ?thesis
    proof (cases "capturedBoundsUnchanged db1 (pr_project P) ds")
      case False
      then show ?thesis using run 1 fail Inr by (auto simp: run_preparation_def split: prod.splits)
    next
      case True
      obtain m2 db2 r2 where 2: "acknowledge P items m1 db1 = (m2, db2, r2)" by (metis prod_cases3)
      note a = acknowledge_spec [OF P(1,2) 2]
      show ?thesis
      proof (cases r2)
        case (Inr as)
        have "length items = length ds" "fst ` set items = set ds"
          using arg_cong [OF items(1), of length] arg_cong [OF items(1), of set] by simp_all
        moreover have "m' = m2 \<and> db' = db2 \<and> r = Inr as"
          using run 1 2 \<open>r1 = Inr items\<close> True Inr by (simp add: run_preparation_def)
        ultimately show ?thesis using Inr a s items(1) dist by simp
      next
        case (Inl e)
        obtain m3 db3 where 3: "abort_preparation P started m2 db2 = (m3, db3)" by fastforce
        have "marked db3 (pr_project P) \<or> (\<forall>d\<in>set ds. owner m3 d \<noteq> Module)"
        proof (rule abort_preparation_spec [OF P(1,2) 3])
          show "marked db2 (pr_project P)" using a marked1 by simp
          show "\<forall>d\<in>set ds. d \<notin> fst ` set started \<longrightarrow> owner m2 d \<noteq> Module" using a own items(2) by (metis subsetD)
        qed
        then show ?thesis using run 1 2 3 \<open>r1 = Inr items\<close> True Inl by (auto simp: run_preparation_def)
      qed
    qed
  qed
qed

text \<open>
  C24: how a handover ends. When \<open>prepareAuthority\<close> returns, the module has acknowledged every requested domain and
  owns it, and the marker of the project, with this store's identity, fences local writes. When it throws, the
  marker still stands unless none of the requested domains belongs to the module. Assumed are a truthful module,
  other writers that leave the marker alone, and that none of the requested domains was the module's before.
\<close>

theorem handover_is_fenced:
  assumes run: "prepareAuthority M others seedPages checksum row_bytes now minted p domainsArg m db = (m', db', r)"
    and u: "u = snd (ensureContextStoreUuid minted db)" and seed: "am_seed M = Some seed"
    and ds: "ds = (case domainsArg of None \<Rightarrow> AUTHORITY_DOMAINS | Some ds \<Rightarrow> ds)" "distinct ds"
    and kept: "\<And>m db. getAuthorityManagedMarker (others m db) p = getAuthorityManagedMarker db p"
    and truth: "truthful_prepare M owner u p" and start: "\<forall>d\<in>set ds. owner m d \<noteq> Module"
  shows "case r of
      Inl e \<Rightarrow> getAuthorityManagedMarker db' p \<noteq> None \<or> (\<forall>d\<in>set ds. owner m' d \<noteq> Module)
    | Inr as \<Rightarrow> getAuthorityManagedMarker db' p = Some \<lparr>mm_context_store_uuid = u, mm_marked_at = now\<rparr> \<and>
        length as = length ds \<and> (\<forall>a\<in>set as. as_state a = Module) \<and> (\<forall>d\<in>set ds. owner m' d = Module)"
proof -
  obtain db1 where db1: "ensureContextStoreUuid minted db = (db1, u)" using u by (metis prod.collapse)
  let ?P = "\<lparr>pr_module = M, pr_seed = seed, pr_others = others, pr_uuid = u, pr_project = p,
     pr_seedPages = seedPages, pr_checksum = checksum, pr_row_bytes = row_bytes\<rparr>"
  have "run_preparation ?P ds m (installMarkerAndCaptureBounds now p u ds db1) = (m', db', r)"
    using run seed unfolding ds(1) by (simp add: prepareAuthority_def db1 Let_def)
  from run_preparation_spec [of ?P owner, OF _ _ _ this] show ?thesis
    using kept truth seed start ds(2) by (cases r) (simp_all add: keeps_marker_def install_bounds_marker)
qed

text \<open>The preparation of all domains with an empty seed, and the same of the memories alone.\<close>

definition example_prepare where
  "example_prepare good domainsArg owners db =
     prepareAuthority (example_module good) (\<lambda>m db. db) (\<lambda>d db. []) (\<lambda>d rows. ''digest'') (\<lambda>row. 0) 5 ''minted'' ''app''
       domainsArg owners db"

lemma example_handover:
  "\<exists>m' db' as. example_prepare (\<lambda>d. True) None (\<lambda>d. TS) empty_db = (m', db', Inr as)"
  by (simp add: example_prepare_def prepareAuthority_def ensureContextStoreUuid_def getContextStoreUuid_def empty_db_def
      AUTHORITY_DOMAINS_def example_module_def run_preparation_def prepare_domain_def chunkRowsForFrame_def seed_verified_def
      reply_def capturedBoundsUnchanged_def installMarkerAndCaptureBounds_def maxDomainRowId_def readDomainMutationEpoch_def
      installAuthorityManagedMarker_def)

theorem handover_is_fenced_witness:
  "\<exists>m' db' as. example_prepare (\<lambda>d. True) None (\<lambda>d. TS) empty_db = (m', db', Inr as) \<and> length as = 2 \<and>
     m' Notes = Module \<and> m' Memories = Module \<and>
     getAuthorityManagedMarker db' ''app'' = Some \<lparr>mm_context_store_uuid = ''store'', mm_marked_at = 5\<rparr>"
proof -
  obtain m' db' as where run: "example_prepare (\<lambda>d. True) None (\<lambda>d. TS) empty_db = (m', db', Inr as)"
    using example_handover by blast
  have u: "''store'' = snd (ensureContextStoreUuid ''minted'' empty_db)"
    by (simp add: ensureContextStoreUuid_def getContextStoreUuid_def empty_db_def)
  have seed: "am_seed (example_module (\<lambda>d. True)) = Some (\<lambda>m u p d rows. (m, Inr None))" by (simp add: example_module_def)
  show ?thesis
    using run handover_is_fenced [OF run [unfolded example_prepare_def] u seed refl _ _ example_truthful]
    by (auto simp: AUTHORITY_DOMAINS_def)
qed

text \<open>
  preparing one domain can open the other one. The marker fences a project as a whole, but the abort of a failed
  preparation looks at the domains of this preparation only: with the notes owned by the module and fenced, a seed of
  the memories that does not verify removes the marker, and an unprivileged write to a note of the project is allowed
  although the notes are still the module's.
\<close>

theorem failed_preparation_unfences_other_domain:
  "let db = installAuthorityManagedMarker 3 ''app'' ''store'' empty_db;
       (m', db', r) = example_prepare (\<lambda>d. False) (Some [Memories]) (\<lambda>d. if d = Notes then Module else TS) db
   in \<not> insert_allowed False db [(''project_path'', JStr ''app'')] \<and>
      r = Inl (SeedVerificationFailed Memories) \<and> m' Notes = Module \<and>
      insert_allowed False db' [(''project_path'', JStr ''app'')]"
  by (simp add: example_prepare_def prepareAuthority_def ensureContextStoreUuid_def getContextStoreUuid_def empty_db_def
      example_module_def run_preparation_def prepare_domain_def chunkRowsForFrame_def seed_verified_def
      reply_def installMarkerAndCaptureBounds_def maxDomainRowId_def readDomainMutationEpoch_def
      installAuthorityManagedMarker_def abort_preparation_def removeAuthorityManagedMarker_def jsmap_delete_def
      insert_allowed_def note_fenced_def project_fenced_def)

section \<open>Drains end, and release only what came back\<close>

lemma replay_marker:
  "replay D upperBound m db = (m', db', e) \<Longrightarrow> authority_part db' = authority_part db"
proof (induction D upperBound m db arbitrary: m' db' e rule: replay.induct)
  case (1 D upperBound m db)
  show ?case
  proof (cases "getMirrorCursor db (dg_domain D) < upperBound")
    case False
    then show ?thesis using "1.prems" by (simp add: replay.simps [of D upperBound m db])
  next
    case True
    obtain m1 r where pull: "dg_pull D m (dg_domain D) (getMirrorCursor db (dg_domain D)) (dg_limit D) = (m1, r)" by fastforce
    show ?thesis
    proof (cases r)
      case (Inl x)
      then show ?thesis using "1.prems" True pull by (simp add: replay.simps [of D upperBound m db])
    next
      case (Inr page)
      show ?thesis
      proof (cases "applyMirrorPage (dg_clock D m1) db page")
        case (Inl x)
        then show ?thesis using "1.prems" True pull Inr by (simp add: replay.simps [of D upperBound m db])
      next
        case applied: (Inr res)
        obtain b c where res: "res = (b, c)" by fastforce
        note frame = page_frame(2) [OF applied [unfolded res]]
        show ?thesis
        proof (cases "getMirrorCursor b (dg_domain D) = getMirrorCursor db (dg_domain D)")
          case True
          then show ?thesis using "1.prems" \<open>_ < upperBound\<close> pull Inr applied res frame
            by (simp add: replay.simps [of D upperBound m db])
        next
          case False
          then have "replay D upperBound m1 b = (m', db', e)" using "1.prems" True pull Inr applied res
            by (simp add: replay.simps [of D upperBound m db])
          then show ?thesis using "1.IH" [OF True pull [symmetric] Inr applied res [symmetric] False] frame by simp
        qed
      qed
    qed
  qed
qed

lemma marker_part: "authority_part a = authority_part b \<Longrightarrow> getAuthorityManagedMarker a p = getAuthorityManagedMarker b p"
  by (simp add: authority_part_def getAuthorityManagedMarker_def)

lemma release_spec:
  assumes "truthful_status (dg_module D) owner (dg_uuid D) (dg_project D)" "release_marker D finished m db = (m', db', out)"
  shows "getAuthorityManagedMarker db' (dg_project D) = getAuthorityManagedMarker db (dg_project D) \<or> (\<forall>d. owner m' d = TS)"
proof (cases "db' = db")
  case False
  then obtain as where "all_statuses (dg_module D) (dg_uuid D) (dg_project D) AUTHORITY_DOMAINS m = (m', Inr as)"
      "list_all (\<lambda>r. case r of None \<Rightarrow> True | Some a \<Rightarrow> as_state a = TS) as"
    using assms(2) by (auto simp: release_marker_def split: if_splits prod.splits sum.splits)
  then show ?thesis using all_domains_TS [OF assms(1)] by blast
qed simp

lemma attempt_spec:
  assumes T: "truthful_status (dg_module D) owner (dg_uuid D) (dg_project D)" and run: "drain_attempt D m db = (m', db', out)"
  shows "getAuthorityManagedMarker db' (dg_project D) = getAuthorityManagedMarker db (dg_project D) \<or>
    ((\<exists>s. out = Drained s) \<and> (\<forall>d. owner m' d = TS))"
proof -
  have rest: "getAuthorityManagedMarker db' (dg_project D) = getAuthorityManagedMarker db (dg_project D) \<or>
      ((\<exists>s. out = Drained s) \<and> (\<forall>d. owner m' d = TS))"
    if go: "drain_rest D token status m1 db = (m', db', out)" for token status m1
  proof -
    obtain m2 db2 e where 2: "replay D (upper_bound status) m1 db = (m2, db2, e)" by (metis prod_cases3)
    have same: "getAuthorityManagedMarker db2 (dg_project D) = getAuthorityManagedMarker db (dg_project D)"
      by (rule marker_part [OF replay_marker [OF 2]])
    consider (same) "db' = db2" | (release) m3 f where "release_marker D f m3 db2 = (m', db', out)"
      using go 2 by (auto simp: drain_rest_def split: option.splits prod.splits sum.splits)
    then show ?thesis
    proof cases
      case (release m3 f)
      then show ?thesis
        using release_spec [OF T release] same
        by (cases "db' = db2") (auto simp: release_marker_def split: if_splits prod.splits sum.splits)
    qed (simp add: same)
  qed
  show ?thesis using run rest by (auto simp: drain_attempt_def split: prod.splits sum.splits option.splits if_splits)
qed

lemma loop_spec:
  "truthful_status (dg_module D) owner (dg_uuid D) (dg_project D) \<Longrightarrow> drain_loop D k m db = (m', db', r) \<Longrightarrow>
    getAuthorityManagedMarker db' (dg_project D) = getAuthorityManagedMarker db (dg_project D) \<or>
    ((\<exists>s. r = Inr (Finished s)) \<and> (\<forall>d. owner m' d = TS))"
proof (induction D k m db arbitrary: m' db' r rule: drain_loop.induct)
  case (1 D k m db)
  obtain m1 db1 out where att: "drain_attempt D m db = (m1, db1, out)" by (metis prod_cases3)
  note step = attempt_spec [OF "1.prems"(1) att]
  show ?case
  proof (cases "\<exists>a. out = Advanced a \<and> k < MAX_DRAIN_RECAPTURE_ATTEMPTS")
    case False
    then have "m' = m1 \<and> db' = db1 \<and> (\<forall>s. out = Drained s \<longrightarrow> r = Inr (Finished s))"
      using "1.prems"(2) att by (cases out) (simp_all add: drain_loop.simps [of D k m db] not_less)
    then show ?thesis using step by auto
  next
    case True
    then obtain a where a: "out = Advanced a" "\<not> MAX_DRAIN_RECAPTURE_ATTEMPTS \<le> k" by auto
    have again: "drain_loop D (k + 1) m1 db1 = (m', db', r)"
      using "1.prems"(2) att a by (simp add: drain_loop.simps [of D k m db])
    show ?thesis
      using "1.IH" [OF att [symmetric] refl a "1.prems"(1) again] step a(1) by auto
  qed
qed

text \<open>A counter in the module's state that only a begin raises, by at most one.\<close>

definition counts_begins :: "'m draining \<Rightarrow> ('m \<Rightarrow> nat) \<Rightarrow> bool" where
  "counts_begins D n \<longleftrightarrow>
     (\<forall>m d action. n (fst (dg_drain D m (dg_uuid D) (dg_project D) d action)) \<le>
        n m + (case action of DrainBegin t \<Rightarrow> 1 | _ \<Rightarrow> 0)) \<and>
     (\<forall>m d c l. n (fst (dg_pull D m d c l)) \<le> n m) \<and>
     (\<forall>m d. n (fst (am_status (dg_module D) m (dg_uuid D) (dg_project D) d)) \<le> n m)"

lemma counts_beginsD:
  assumes "counts_begins D n"
  shows "dg_drain D m (dg_uuid D) (dg_project D) d action = (m', r) \<Longrightarrow> n m' \<le> n m + (case action of DrainBegin t \<Rightarrow> 1 | _ \<Rightarrow> 0)"
    "dg_pull D m d c l = (m', p) \<Longrightarrow> n m' \<le> n m"
    "am_status (dg_module D) m (dg_uuid D) (dg_project D) d = (m', s) \<Longrightarrow> n m' \<le> n m"
  using assms unfolding counts_begins_def by (metis fst_conv)+

lemma replay_count:
  "counts_begins D n \<Longrightarrow> replay D upperBound m db = (m', db', e) \<Longrightarrow> n m' \<le> n m"
proof (induction D upperBound m db arbitrary: m' db' e rule: replay.induct)
  case (1 D upperBound m db)
  show ?case
  proof (cases "getMirrorCursor db (dg_domain D) < upperBound")
    case False
    then show ?thesis using "1.prems" by (simp add: replay.simps [of D upperBound m db])
  next
    case True
    obtain m1 r where pull: "dg_pull D m (dg_domain D) (getMirrorCursor db (dg_domain D)) (dg_limit D) = (m1, r)" by fastforce
    have le: "n m1 \<le> n m" by (rule counts_beginsD(2) [OF "1.prems"(1) pull])
    show ?thesis
    proof (cases "m' = m1")
      case False
      then obtain page b c where go: "r = Inr page" "applyMirrorPage (dg_clock D m1) db page = Inr (b, c)"
          "getMirrorCursor b (dg_domain D) \<noteq> getMirrorCursor db (dg_domain D)" "replay D upperBound m1 b = (m', db', e)"
        using "1.prems"(2) True pull by (auto simp: replay.simps [of D upperBound m db] split: sum.splits if_splits prod.splits)
      show ?thesis using "1.IH" [OF True pull [symmetric] go(1,2) refl go(3) "1.prems"(1) go(4)] le by simp
    qed (simp add: le)
  qed
qed

lemma statuses_count:
  "counts_begins D n \<Longrightarrow> all_statuses (dg_module D) (dg_uuid D) (dg_project D) ds m = (m', r) \<Longrightarrow> n m' \<le> n m"
proof (induction ds arbitrary: m m' r)
  case (Cons d ds)
  obtain m1 s where 1: "am_status (dg_module D) m (dg_uuid D) (dg_project D) d = (m1, s)" by fastforce
  obtain m2 rs where 2: "all_statuses (dg_module D) (dg_uuid D) (dg_project D) ds m1 = (m2, rs)" by fastforce
  show ?case using Cons.prems 1 2 counts_beginsD(3) [OF Cons.prems(1) 1] Cons.IH [OF Cons.prems(1) 2] by simp
qed simp

lemma steps_count:
  "counts_begins D n \<Longrightarrow> drain_steps D token steps status m db = (m', r) \<Longrightarrow> n m' \<le> n m"
proof (induction steps arbitrary: status m)
  case (Cons step steps)
  obtain m1 s where 1: "dg_drain D m (dg_uuid D) (dg_project D) (dg_domain D)
      (DrainStep step (as_generation status) (getMirrorCursor db (dg_domain D)) token) = (m1, s)" by fastforce
  have le: "n m1 \<le> n m" using counts_beginsD(1) [OF Cons.prems(1) 1] by simp
  show ?case
  proof (cases "m' = m1")
    case False
    then obtain a where "drain_steps D token steps a m1 db = (m', r)"
      using Cons.prems(2) 1 by (auto simp: Let_def split: sum.splits option.splits)
    then show ?thesis using Cons.IH [OF Cons.prems(1)] le by fastforce
  qed (simp add: le)
qed simp

lemma finish_count:
  "counts_begins D n \<Longrightarrow> drain_finish D token status m db = (m', r) \<Longrightarrow> n m' \<le> n m"
  using counts_beginsD(1) [of D n m "dg_domain D" "DrainFinish (as_generation status) (dg_checksum D db) token"]
  by (cases "dg_drain D m (dg_uuid D) (dg_project D) (dg_domain D) (DrainFinish (as_generation status) (dg_checksum D db) token)")
    (fastforce simp: drain_finish_def Let_def split: sum.splits)

lemma release_count:
  "counts_begins D n \<Longrightarrow> release_marker D finished m db = (m', db', r) \<Longrightarrow> n m' \<le> n m"
  by (cases "all_statuses (dg_module D) (dg_uuid D) (dg_project D) AUTHORITY_DOMAINS m")
    (auto simp: release_marker_def split: if_splits sum.splits dest: statuses_count)

lemma rest_count:
  assumes C: "counts_begins D n" and run: "drain_rest D token status m db = (m', db', r)"
  shows "n m' \<le> n m"
proof -
  obtain m1 db1 e where 1: "replay D (upper_bound status) m db = (m1, db1, e)" by (metis prod_cases3)
  obtain m2 r2 where 2: "drain_steps D token DRAIN_STEPS status m1 db1 = (m2, r2)" by fastforce
  have le: "n m1 \<le> n m" "n m2 \<le> n m1" by (rule replay_count [OF C 1]) (rule steps_count [OF C 2])
  show ?thesis
  proof (cases "m' = m1 \<or> m' = m2")
    case False
    then obtain s where s: "e = None" "r2 = Inr s" using run 1 2 by (auto simp: drain_rest_def split: option.splits sum.splits)
    obtain m3 r3 where 3: "drain_finish D token s m2 db1 = (m3, r3)" by fastforce
    have "n m3 \<le> n m2" by (rule finish_count [OF C 3])
    moreover have "n m' \<le> n m3"
      using run 1 2 3 s release_count [OF C] by (auto simp: drain_rest_def split: sum.splits)
    ultimately show ?thesis using le by simp
  qed (use le in auto)
qed

lemma attempt_count:
  assumes C: "counts_begins D n" and run: "drain_attempt D m db = (m', db', r)"
  shows "n m' \<le> n m + 1"
proof -
  obtain m1 s where 1: "dg_drain D m (dg_uuid D) (dg_project D) (dg_domain D) (DrainBegin (dg_clock D m)) = (m1, s)" by fastforce
  have le: "n m1 \<le> n m + 1" using counts_beginsD(1) [OF C 1] by simp
  show ?thesis
  proof (cases "m' = m1")
    case False
    then obtain token status where "drain_rest D token status m1 db = (m', db', r)"
      using run 1 by (auto simp: drain_attempt_def split: sum.splits option.splits if_splits)
    then show ?thesis using rest_count [OF C] le by fastforce
  qed (use le in simp)
qed

lemma loop_count:
  "counts_begins D n \<Longrightarrow> drain_loop D k m db = (m', db', r) \<Longrightarrow> k \<le> MAX_DRAIN_RECAPTURE_ATTEMPTS \<Longrightarrow>
    n m' \<le> n m + (MAX_DRAIN_RECAPTURE_ATTEMPTS + 1 - k) \<and> (\<forall>j a. r = Inr (Contended j a) \<longrightarrow> j = MAX_DRAIN_RECAPTURE_ATTEMPTS)"
proof (induction D k m db arbitrary: m' db' r rule: drain_loop.induct)
  case (1 D k m db)
  obtain m1 db1 out where att: "drain_attempt D m db = (m1, db1, out)" by (metis prod_cases3)
  note le = attempt_count [OF "1.prems"(1) att]
  show ?case
  proof (cases "\<exists>a. out = Advanced a \<and> k < MAX_DRAIN_RECAPTURE_ATTEMPTS")
    case False
    then have "m' = m1 \<and> (\<forall>j a. r = Inr (Contended j a) \<longrightarrow> j = k \<and> MAX_DRAIN_RECAPTURE_ATTEMPTS \<le> k)"
      using "1.prems"(2) att by (cases out) (auto simp: drain_loop.simps [of D k m db] not_less)
    then show ?thesis using le "1.prems"(3) by auto
  next
    case True
    then obtain a where a: "out = Advanced a" "\<not> MAX_DRAIN_RECAPTURE_ATTEMPTS \<le> k" by auto
    have again: "drain_loop D (k + 1) m1 db1 = (m', db', r)"
      using "1.prems"(2) att a by (simp add: drain_loop.simps [of D k m db])
    have "k + 1 \<le> MAX_DRAIN_RECAPTURE_ATTEMPTS" using a(2) by simp
    from "1.IH" [OF att [symmetric] refl a "1.prems"(1) again this] show ?thesis using le a(2) by auto
  qed
qed

text \<open>
  C26: taking a project back always ends, and opens it only when all of it is back. \<open>drainAuthority\<close> returns for every
  module whose calls return: it starts at most six attempts, however often the head of the feed moves, and reports
  contention only after five recaptures. The marker of the project is as before unless the drain finished and every
  domain, not only the drained one, belongs to the local side again, given a module that reports ownership truthfully.
\<close>

theorem drain_ends_and_releases_safely:
  assumes run: "drainAuthority M clock minted p domain checksum limit m db = (m', db', r)"
    and u: "u = snd (ensureContextStoreUuid minted db)" and truth: "truthful_status M owner u p"
    and routes: "am_drain M = Some drain" "am_pull M = Some pull"
    and begins: "\<And>m d action. n (fst (drain m u p d action)) \<le> n m + (case action of DrainBegin t \<Rightarrow> 1 | _ \<Rightarrow> (0::nat))"
    and others: "\<And>m d c l. n (fst (pull m d c l)) \<le> n m" "\<And>m d. n (fst (am_status M m u p d)) \<le> n m"
  shows "n m' \<le> n m + 6 \<and> (\<forall>j a. r \<noteq> Inr (Contended j a) \<or> j = 5) \<and>
    (getAuthorityManagedMarker db' p = getAuthorityManagedMarker db p \<or>
     (\<exists>s. r = Inr (Finished s)) \<and> (\<forall>d. owner m' d = TS))"
proof -
  obtain db1 where db1: "ensureContextStoreUuid minted db = (db1, u)" using u by (metis prod.collapse)
  define D where "D = \<lparr>dg_module = M, dg_drain = drain, dg_pull = pull, dg_clock = clock, dg_uuid = u, dg_project = p,
    dg_domain = domain, dg_checksum = checksum, dg_limit = max 1 (min (case limit of None \<Rightarrow> 100 | Some l \<Rightarrow> l) 1000)\<rparr>"
  have loop: "drain_loop D 0 m db1 = (m', db', r)"
    using run routes by (simp add: drainAuthority_def db1 D_def)
  have "counts_begins D n" unfolding counts_begins_def using begins others by (simp add: D_def)
  from loop_count [OF this loop] loop_spec [OF _ loop, of owner] truth
  have "n m' \<le> n m + 6 \<and> (\<forall>j a. r \<noteq> Inr (Contended j a) \<or> j = 5)"
    "getAuthorityManagedMarker db' p = getAuthorityManagedMarker db1 p \<or> (\<exists>s. r = Inr (Finished s)) \<and> (\<forall>d. owner m' d = TS)"
    by (auto simp: D_def MAX_DRAIN_RECAPTURE_ATTEMPTS_def)
  moreover have "getAuthorityManagedMarker db1 p = getAuthorityManagedMarker db p"
    using db1 by (auto simp: ensureContextStoreUuid_def getAuthorityManagedMarker_def Let_def split: option.splits)
  ultimately show ?thesis by simp
qed

text \<open>A module whose feed never stands still: it counts the begins and answers each with the code of a moved head.\<close>

definition restless_module :: "nat authority_module" where
  "restless_module = \<lparr>am_status = (\<lambda>m u p d. (m, Inr (Some (reply Draining None False)))),
     am_prepare = (\<lambda>m u p d phase. (m, Inr (reply Draining None False))), am_seed = None,
     am_drain = Some (\<lambda>m u p d action. (case action of DrainBegin t \<Rightarrow> Suc m | _ \<Rightarrow> m,
       Inr \<lparr>dr_authority = None, dr_code = Some ''authority_feed_head_advanced''\<rparr>)),
     am_pull = Some (\<lambda>m d c l. (m, Inl (Thrown None ''closed'' None True)))\<rparr>"

theorem drain_ends_and_releases_safely_witness:
  "\<exists>m' db' a. drainAuthority restless_module (\<lambda>m. 0) ''minted'' ''app'' Notes (\<lambda>db. ''digest'') None 0 empty_db
     = (m', db', Inr (Contended 5 a)) \<and> m' \<le> 6 \<and> getAuthorityManagedMarker db' ''app'' = getAuthorityManagedMarker empty_db ''app''"
proof -
  have u: "''store'' = snd (ensureContextStoreUuid ''minted'' empty_db)"
    by (simp add: ensureContextStoreUuid_def getContextStoreUuid_def empty_db_def)
  have "\<exists>m' db' a. drainAuthority restless_module (\<lambda>m. 0) ''minted'' ''app'' Notes (\<lambda>db. ''digest'') None 0 empty_db
     = (m', db', Inr (Contended 5 a))"
    by (simp add: drainAuthority_def restless_module_def ensureContextStoreUuid_def getContextStoreUuid_def empty_db_def
      drain_loop.simps drain_attempt_def head_advanced_def of_response_def authorityDrainErrorCode_def numeral_3_eq_3
      MAX_DRAIN_RECAPTURE_ATTEMPTS_def)
  then obtain m' db' a where run: "drainAuthority restless_module (\<lambda>m. 0) ''minted'' ''app'' Notes (\<lambda>db. ''digest'') None 0 empty_db
     = (m', db', Inr (Contended 5 a))" by blast
  have truth: "truthful_status restless_module (\<lambda>m d. Draining) ''store'' ''app''"
    by (auto simp: truthful_status_def restless_module_def reply_def)
  obtain drain pull where routes: "am_drain restless_module = Some drain" "am_pull restless_module = Some pull"
    by (simp add: restless_module_def)
  have "m' \<le> 0 + 6 \<and> (\<forall>j b. Inr (Contended 5 a) \<noteq> (Inr (Contended j b) :: authority_error + authority_drain_result) \<or> j = 5) \<and>
     (getAuthorityManagedMarker db' ''app'' = getAuthorityManagedMarker empty_db ''app'' \<or>
      (\<exists>s. Inr (Contended 5 a) = (Inr (Finished s) :: authority_error + authority_drain_result)) \<and> (\<forall>d::authority_domain. Draining = TS))"
    by (rule drain_ends_and_releases_safely [OF run u truth routes, where n = "\<lambda>m. m"])
      (use routes in \<open>auto simp: restless_module_def split: drain_action.splits\<close>)
  then show ?thesis using run by auto
qed

end
