(* ===== verification/Authority_Handover.thy ===== *)
theory Authority_Handover
  imports Context_Authority
begin

text \<open>
  The callers of the handover: the recovery of local ownership when the plugin no longer runs in Rust mode
  (\<open>hooks/magic-context/transform.ts\<close>), with the table that keeps one recovery per project, and the preparation of a
  session in Rust mode (\<open>hooks/magic-context/rust-mode-transform.ts\<close>), which first finishes what an earlier process left.
\<close>

section \<open>Rows and checksums\<close>

text \<open>\<open>SELECT * FROM notes WHERE project_path = ? ORDER BY id ASC\<close>\<close>

definition project_notes :: "authority_db \<Rightarrow> string \<Rightarrow> json_object list" where
  "project_notes db projectPath =
     map select_note (sort_key nr_id (filter (\<lambda>n. map_of (nr_columns n) ''project_path'' = Some (JStr projectPath)) (ad_notes db)))"

definition checksumSeedRows :: "(json list \<Rightarrow> string) \<Rightarrow> json_object list \<Rightarrow> string" where
  "checksumSeedRows digest rows = digest (map (\<lambda>row. canonicalizeSeedValue (JObj row)) rows)"

text \<open>The rows of a seed: the notes of the project, and those of its sessions that name no project.\<close>

definition nullish_project :: "json_object \<Rightarrow> bool" where
  "nullish_project row \<longleftrightarrow> map_of row ''project_path'' \<in> {None, Some JNull}"

definition authoritySeedRows :: "string \<Rightarrow> authority_domain \<Rightarrow> authority_db \<Rightarrow> json_object list" where
  "authoritySeedRows projectPath domain db =
     (case domain of
        Memories \<Rightarrow> []
      | Notes \<Rightarrow>
          map (\<lambda>n. let snapshot = select_note n;
                       seeded = (if nullish_project snapshot then spread snapshot [(''project_path'', JStr projectPath)] else snapshot)
                   in [(''source_row_id'', JNum (of_int (nr_id n))), (''snapshot'', JObj seeded)])
            (sort_key nr_id (filter (\<lambda>n. map_of (nr_columns n) ''project_path'' = Some (JStr projectPath) \<or>
               nullish_project (nr_columns n) \<and>
               (case map_of (nr_columns n) ''session_id'' of Some (JStr s) \<Rightarrow> (s, projectPath) \<in> set (ad_sessions db) | _ \<Rightarrow> False))
               (ad_notes db))))"

text \<open>\<open>project_state\<close>: the memory epoch of a project.\<close>

definition bumpProjectMemoryEpoch :: "string \<Rightarrow> (string \<times> int) list \<Rightarrow> (string \<times> int) list" where
  "bumpProjectMemoryEpoch projectPath epochs =
     jsmap_set projectPath (case map_of epochs projectPath of None \<Rightarrow> 1 | Some n \<Rightarrow> n + 1) epochs"

section \<open>Draining a domain, with one repetition\<close>

definition drain_twice ::
  "'m authority_module \<Rightarrow> ('m \<Rightarrow> int) \<Rightarrow> string \<Rightarrow> string \<Rightarrow> authority_domain \<Rightarrow> (authority_db \<Rightarrow> string) \<Rightarrow> 'm \<Rightarrow> authority_db
   \<Rightarrow> 'm \<times> authority_db \<times> (authority_error + authority_drain_result)" where
  "drain_twice M clock minted projectPath domain checksum m db =
     (case drainAuthority M clock minted projectPath domain checksum None m db of
        (m1, db1, Inr (Contended attempts authority)) \<Rightarrow> drainAuthority M clock minted projectPath domain checksum None m1 db1
      | result \<Rightarrow> result)"

section \<open>Recovery of local ownership\<close>

datatype recovery_outcome = Completed | Retryable

definition recovery_checksum :: "(json list \<Rightarrow> string) \<Rightarrow> string \<Rightarrow> authority_domain \<Rightarrow> authority_db \<Rightarrow> string" where
  "recovery_checksum digest projectPath domain db =
     checksumAuthoritySeedRows digest (case domain of Memories \<Rightarrow> [] | Notes \<Rightarrow> project_notes db projectPath)"

text \<open>\<open>None\<close> is the early return of \<open>retryable\<close>, \<open>Some\<close> tells whether a domain was drained.\<close>

fun recover_domains ::
  "'m authority_module \<Rightarrow> ('m \<Rightarrow> int) \<Rightarrow> (json list \<Rightarrow> string) \<Rightarrow> string \<Rightarrow> string
   \<Rightarrow> (authority_domain \<times> authority_status option) list \<Rightarrow> bool \<Rightarrow> 'm \<Rightarrow> authority_db
   \<Rightarrow> 'm \<times> authority_db \<times> (authority_error + bool option)" where
  "recover_domains M clock digest minted p [] drained m db = (m, db, Inr (Some drained))"
| "recover_domains M clock digest minted p ((domain, authority) # rest) drained m db =
     (case map_option as_state authority of
        None \<Rightarrow> recover_domains M clock digest minted p rest drained m db
      | Some TS \<Rightarrow> recover_domains M clock digest minted p rest drained m db
      | Some Preparing \<Rightarrow> (m, db, Inr None)
      | Some _ \<Rightarrow>
          (case drain_twice M clock minted p domain (recovery_checksum digest p domain) m db of
             (m1, db1, Inl e) \<Rightarrow> (m1, db1, Inl e)
           | (m1, db1, Inr (Contended attempts a)) \<Rightarrow> (m1, db1, Inr None)
           | (m1, db1, Inr (Finished s)) \<Rightarrow> recover_domains M clock digest minted p rest True m1 db1))"

definition recoverTsAuthorityProject ::
  "'m authority_module \<Rightarrow> ('m \<Rightarrow> int) \<Rightarrow> (json list \<Rightarrow> string) \<Rightarrow> string \<Rightarrow> string \<Rightarrow> 'm \<Rightarrow> authority_db \<Rightarrow> (string \<times> int) list
   \<Rightarrow> 'm \<times> authority_db \<times> (string \<times> int) list \<times> (authority_error + recovery_outcome)" where
  "recoverTsAuthorityProject M clock digest minted p m db epochs =
     (if am_drain M = None \<or> am_pull M = None then (m, db, epochs, Inl (MissingRoute ''authority.drain''))
      else
        (let (db1, uuid) = ensureContextStoreUuid minted db
         in case all_statuses M uuid p AUTHORITY_DOMAINS m of
              (m1, Inl e) \<Rightarrow> (m1, db1, epochs, Inl (ModuleThrew e))
            | (m1, Inr statuses) \<Rightarrow>
                (case recover_domains M clock digest minted p (zip AUTHORITY_DOMAINS statuses) False m1 db1 of
                   (m2, db2, Inl e) \<Rightarrow> (m2, db2, epochs, Inl e)
                 | (m2, db2, Inr (Some True)) \<Rightarrow>
                     if getAuthorityManagedMarker db2 p = None
                     then (m2, db2, bumpProjectMemoryEpoch p epochs, Inr Completed) else (m2, db2, epochs, Inr Retryable)
                 | (m2, db2, Inr _) \<Rightarrow> (m2, db2, epochs, Inr Retryable))))"

text \<open>The process-wide table of recoveries: what scheduling one does to it, and what its end does.\<close>

datatype recovery_state = Running | Complete

definition scheduleTsAuthorityRecovery ::
  "authority_db \<Rightarrow> string \<Rightarrow> bool \<Rightarrow> bool \<Rightarrow> (string \<times> recovery_state) list \<Rightarrow> (string \<times> recovery_state) list \<times> bool" where
  "scheduleTsAuthorityRecovery db projectPath linkedWorktree reachable table =
     (if getAuthorityManagedMarker db projectPath = None \<or> linkedWorktree \<or> map_of table projectPath \<noteq> None then (table, False)
      else if \<not> reachable then (jsmap_set projectPath Complete table, False)
      else (jsmap_set projectPath Running table, True))"

definition recovery_settled ::
  "string \<Rightarrow> authority_error + recovery_outcome \<Rightarrow> (string \<times> recovery_state) list \<Rightarrow> (string \<times> recovery_state) list" where
  "recovery_settled projectPath result table =
     (case result of
        Inr Retryable \<Rightarrow> jsmap_delete projectPath table
      | _ \<Rightarrow> jsmap_set projectPath Complete table)"

section \<open>Preparing a session in Rust mode\<close>

record rust_session =
  rs_memoryAuthorityProject :: "string option"
  rs_memoryAuthorityRoot :: "string option"
  rs_memoryAuthorityReady :: bool

datatype handover_error =
  AuthorityError authority_error
  | AuthorityUnavailable
  | DrainContended
  | CannotPrepare authority_domain authority_state

definition resume_checksum :: "(json list \<Rightarrow> string) \<Rightarrow> string \<Rightarrow> authority_domain \<Rightarrow> authority_db \<Rightarrow> string" where
  "resume_checksum digest projectPath domain db =
     checksumSeedRows digest (case domain of Memories \<Rightarrow> [] | Notes \<Rightarrow> project_notes db projectPath)"

text \<open>The statuses of the domains, one call after the other; unlike \<open>all_statuses\<close> the first failure stops the loop.\<close>

fun read_statuses ::
  "'m authority_module \<Rightarrow> string \<Rightarrow> string \<Rightarrow> authority_domain list \<Rightarrow> 'm
   \<Rightarrow> 'm \<times> (thrown + (authority_domain \<times> authority_status option) list)" where
  "read_statuses M uuid p [] m = (m, Inr [])"
| "read_statuses M uuid p (domain # domains) m =
     (case am_status M m uuid p domain of
        (m1, Inl e) \<Rightarrow> (m1, Inl e)
      | (m1, Inr a) \<Rightarrow>
          (case read_statuses M uuid p domains m1 of
             (m2, Inl e) \<Rightarrow> (m2, Inl e)
           | (m2, Inr as) \<Rightarrow> (m2, Inr ((domain, a) # as))))"

text \<open>A drain that an earlier process began is finished; the flag tells that there was one.\<close>

fun resume_drains ::
  "'m authority_module \<Rightarrow> ('m \<Rightarrow> int) \<Rightarrow> (json list \<Rightarrow> string) \<Rightarrow> string \<Rightarrow> string
   \<Rightarrow> (authority_domain \<times> authority_status option) list \<Rightarrow> bool \<Rightarrow> 'm \<Rightarrow> authority_db
   \<Rightarrow> 'm \<times> authority_db \<times> (handover_error + bool)" where
  "resume_drains M clock digest minted p [] resumed m db = (m, db, Inr resumed)"
| "resume_drains M clock digest minted p ((domain, authority) # rest) resumed m db =
     (if map_option as_state authority \<noteq> Some Draining then resume_drains M clock digest minted p rest resumed m db
      else (case drain_twice M clock minted p domain (resume_checksum digest p domain) m db of
              (m1, db1, Inl e) \<Rightarrow> (m1, db1, Inl (AuthorityError e))
            | (m1, db1, Inr (Contended attempts a)) \<Rightarrow> (m1, db1, Inl DrainContended)
            | (m1, db1, Inr (Finished s)) \<Rightarrow> resume_drains M clock digest minted p rest True m1 db1))"

text \<open>A preparation that an earlier process began is aborted; the statuses forget it.\<close>

fun abort_preparing ::
  "'m authority_module \<Rightarrow> string \<Rightarrow> string \<Rightarrow> (authority_domain \<times> authority_status option) list \<Rightarrow> 'm
   \<Rightarrow> 'm \<times> (thrown + (authority_domain \<times> authority_status option) list)" where
  "abort_preparing M uuid p [] m = (m, Inr [])"
| "abort_preparing M uuid p ((domain, authority) # rest) m =
     (case authority of
        Some a \<Rightarrow>
          (if as_state a = Preparing
           then (case am_prepare M m uuid p domain (PrepareAbort (as_generation a)) of
                   (m1, Inl e) \<Rightarrow> (m1, Inl e)
                 | (m1, Inr _) \<Rightarrow>
                     (case abort_preparing M uuid p rest m1 of
                        (m2, Inl e) \<Rightarrow> (m2, Inl e) | (m2, Inr as) \<Rightarrow> (m2, Inr ((domain, None) # as))))
           else (case abort_preparing M uuid p rest m of
                   (m2, Inl e) \<Rightarrow> (m2, Inl e) | (m2, Inr as) \<Rightarrow> (m2, Inr ((domain, authority) # as))))
      | None \<Rightarrow>
          (case abort_preparing M uuid p rest m of
             (m2, Inl e) \<Rightarrow> (m2, Inl e) | (m2, Inr as) \<Rightarrow> (m2, Inr ((domain, None) # as))))"

definition to_prepare :: "(authority_domain \<times> authority_status option) list \<Rightarrow> (authority_domain \<times> authority_status option) list" where
  "to_prepare statuses = filter (\<lambda>e. map_option as_state (snd e) \<noteq> Some Module) statuses"

definition unpreparable :: "authority_domain \<times> authority_status option \<Rightarrow> handover_error option" where
  "unpreparable e = (case map_option as_state (snd e) of
     None \<Rightarrow> None | Some TS \<Rightarrow> None | Some s \<Rightarrow> Some (CannotPrepare (fst e) s))"

definition prepare_missing ::
  "'m authority_module \<Rightarrow> ('m \<Rightarrow> authority_db \<Rightarrow> authority_db) \<Rightarrow> (json list \<Rightarrow> string) \<Rightarrow> (json_object \<Rightarrow> int) \<Rightarrow> int \<Rightarrow> string
   \<Rightarrow> string \<Rightarrow> (authority_domain \<times> authority_status option) list \<Rightarrow> 'm \<Rightarrow> authority_db \<Rightarrow> 'm \<times> authority_db \<times> handover_error option" where
  "prepare_missing M others digest row_bytes now minted p statuses m db =
     (case List.map_filter unpreparable (to_prepare statuses) of
        e # _ \<Rightarrow> (m, db, Some e)
      | [] \<Rightarrow>
          if to_prepare statuses = [] then (m, db, None)
          else (case prepareAuthority M others (authoritySeedRows p) (\<lambda>domain. checksumAuthoritySeedRows digest) row_bytes now
                       minted p (Some (map fst (to_prepare statuses))) m db of
                  (m1, db1, Inl e) \<Rightarrow> (m1, db1, Some (AuthorityError e))
                | (m1, db1, Inr _) \<Rightarrow> (m1, db1, None)))"

definition prepare_from ::
  "'m authority_module \<Rightarrow> ('m \<Rightarrow> authority_db \<Rightarrow> authority_db) \<Rightarrow> (json list \<Rightarrow> string) \<Rightarrow> (json_object \<Rightarrow> int) \<Rightarrow> int \<Rightarrow> string
   \<Rightarrow> string \<Rightarrow> string \<Rightarrow> (authority_domain \<times> authority_status option) list \<Rightarrow> 'm \<Rightarrow> authority_db
   \<Rightarrow> 'm \<times> authority_db \<times> handover_error option" where
  "prepare_from M others digest row_bytes now minted uuid p statuses m db =
     (case abort_preparing M uuid p statuses m of
        (m1, Inl e) \<Rightarrow> (m1, db, Some (AuthorityError (ModuleThrew e)))
      | (m1, Inr statuses') \<Rightarrow> prepare_missing M others digest row_bytes now minted p statuses' m1 db)"

definition reconcile_last ::
  "'m authority_module \<Rightarrow> ('m \<Rightarrow> authority_db \<Rightarrow> authority_db) \<Rightarrow> nat \<Rightarrow> int \<Rightarrow> string \<Rightarrow> string \<Rightarrow> 'm \<Rightarrow> authority_db
   \<Rightarrow> ('m \<times> authority_db \<times> handover_error option) option" where
  "reconcile_last M others fuel now minted p m db =
     map_option (\<lambda>(m', db', r). (m', db', case r of Inl e \<Rightarrow> Some (AuthorityError e) | Inr _ \<Rightarrow> None))
       (reconcileAuthorityProject M others fuel now minted p m db)"

definition restore_authority ::
  "'m authority_module \<Rightarrow> ('m \<Rightarrow> authority_db \<Rightarrow> authority_db) \<Rightarrow> ('m \<Rightarrow> int) \<Rightarrow> (json list \<Rightarrow> string) \<Rightarrow> (json_object \<Rightarrow> int) \<Rightarrow> nat
   \<Rightarrow> int \<Rightarrow> string \<Rightarrow> string \<Rightarrow> 'm \<Rightarrow> authority_db \<Rightarrow> ('m \<times> authority_db \<times> handover_error option) option" where
  "restore_authority M others clock digest row_bytes fuel now minted p m db =
     (let (db1, uuid) = ensureContextStoreUuid minted db
      in case read_statuses M uuid p AUTHORITY_DOMAINS m of
           (m1, Inl e) \<Rightarrow> Some (m1, db1, Some (AuthorityError (ModuleThrew e)))
         | (m1, Inr statuses) \<Rightarrow>
             (case resume_drains M clock digest minted p statuses False m1 db1 of
                (m2, db2, Inl e) \<Rightarrow> Some (m2, db2, Some e)
              | (m2, db2, Inr resumed) \<Rightarrow>
                  (case (if resumed then (m2, db2, None)
                         else prepare_from M others digest row_bytes now minted uuid p statuses m2 db2) of
                     (m3, db3, Some e) \<Rightarrow> Some (m3, db3, Some e)
                   | (m3, db3, None) \<Rightarrow> reconcile_last M others fuel now minted p m3 db3)))"

text \<open>\<open>None\<close> as before: the pages of the feed did not end within the fuel.\<close>

definition prepareRustMemoryAuthority ::
  "'m authority_module \<Rightarrow> ('m \<Rightarrow> authority_db \<Rightarrow> authority_db) \<Rightarrow> ('m \<Rightarrow> int) \<Rightarrow> (json list \<Rightarrow> string) \<Rightarrow> (json_object \<Rightarrow> int) \<Rightarrow> nat
   \<Rightarrow> int \<Rightarrow> string \<Rightarrow> bool \<Rightarrow> string \<Rightarrow> string \<Rightarrow> rust_session \<Rightarrow> 'm \<Rightarrow> authority_db
   \<Rightarrow> (rust_session \<times> 'm \<times> authority_db \<times> handover_error option) option" where
  "prepareRustMemoryAuthority M others clock digest row_bytes fuel now minted allowBypass p projectRoot state m db =
     (if rs_memoryAuthorityProject state = Some p \<and> rs_memoryAuthorityRoot state = Some projectRoot \<and> rs_memoryAuthorityReady state
      then Some (state, m, db, None)
      else
        (let state1 = \<lparr>rs_memoryAuthorityProject = Some p, rs_memoryAuthorityRoot = Some projectRoot, rs_memoryAuthorityReady = False\<rparr>
         in if am_seed M = None
            then if allowBypass then Some (state1\<lparr>rs_memoryAuthorityReady := True\<rparr>, m, db, None)
                 else Some (state1, m, db, Some AuthorityUnavailable)
            else map_option (\<lambda>(m', db', e). (state1\<lparr>rs_memoryAuthorityReady := (e = None)\<rparr>, m', db', e))
                   (restore_authority M others clock digest row_bytes fuel now minted p m db)))"

section \<open>A ready session works behind the fence\<close>

lemma sync_frame:
  "sync_pages pull fuel now d m db = Some (m', db', e) \<Longrightarrow> authority_part db' = authority_part db"
proof (induction pull fuel now d m db rule: sync_pages.induct)
  case (2 pull fuel now d m db)
  obtain m1 r where 1: "pull m d (getMirrorCursor db d) 1000 = (m1, r)" by fastforce
  show ?case
  proof (cases r)
    case (Inl x)
    then show ?thesis using "2.prems" 1 by simp
  next
    case (Inr page)
    show ?thesis
    proof (cases "applyMirrorPage now db page")
      case (Inl x)
      then show ?thesis using "2.prems" 1 Inr by simp
    next
      case applied: (Inr res)
      obtain b c where res: "res = (b, c)" by fastforce
      note frame = page_frame(2) [OF applied [unfolded res]]
      show ?thesis
      proof (cases "\<not> cp_has_more page \<or> c = getMirrorCursor db d")
        case True
        then show ?thesis using "2.prems" 1 Inr applied res frame by auto
      next
        case False
        then have "sync_pages pull fuel now d m1 b = Some (m', db', e)" using "2.prems" 1 Inr applied res by simp
        then show ?thesis using "2.IH" [OF refl 1 [symmetric] Inr applied res [symmetric] False] frame by simp
      qed
    qed
  qed
qed simp

lemma sync_owner:
  assumes "\<And>m d c l. owner (fst (pull m d c l)) = owner m"
  shows "sync_pages pull fuel now d m db = Some (m', db', e) \<Longrightarrow> owner m' = owner m"
proof (induction fuel arbitrary: m db)
  case (Suc fuel)
  obtain m1 r where 1: "pull m d (getMirrorCursor db d) 1000 = (m1, r)" by fastforce
  have o: "owner m1 = owner m" using assms [of m d "getMirrorCursor db d" 1000] 1 by simp
  show ?case
  proof (cases "m' = m1")
    case False
    then obtain page b c where "sync_pages pull fuel now d m1 b = Some (m', db', e)"
      using Suc.prems 1 by (auto simp: Let_def split: sum.splits if_splits prod.splits)
    then show ?thesis using Suc.IH o by simp
  qed (simp add: o)
qed simp

lemma fenced_part: "authority_part a = authority_part b \<Longrightarrow> project_fenced a p = project_fenced b p"
  by (simp add: authority_part_def project_fenced_def)

lemma reset_part: "authority_part (reset_mirror now d p db) = authority_part db"
  by (simp add: authority_part_def reset_mirror_def put_cursor_def)

text \<open>
  The identity of the store is written once: no step changes it, so every call of the module names the same store.
\<close>

definition keeps_store :: "('m \<Rightarrow> authority_db \<Rightarrow> authority_db) \<Rightarrow> bool" where
  "keeps_store others \<longleftrightarrow> (\<forall>m db w. ad_uuid db = Some w \<longrightarrow> ad_uuid (others m db) = Some w)"

lemma ensured: "ad_uuid db = Some w \<Longrightarrow> ensureContextStoreUuid minted db = (db, if w = [] then minted else w)"
  by (simp add: ensureContextStoreUuid_def getContextStoreUuid_def)

lemma ensure_gives:
  assumes "ensureContextStoreUuid minted db = (db1, u)"
  obtains w where "ad_uuid db1 = Some w" "u = (if w = [] then minted else w)"
  using assms by (auto simp: ensureContextStoreUuid_def getContextStoreUuid_def Let_def split: option.splits if_splits)

lemma rememberIdentity_store: "ad_uuid (rememberIdentity d p i j db) = ad_uuid db"
  by (simp add: rememberIdentity_def insert_identity_def)

lemma remember_page_store: "ad_uuid (remember_page d p ids db) = ad_uuid db"
  unfolding remember_page_def by (induction ids arbitrary: db) (auto simp: rememberIdentity_store)

lemma marker_store [simp]:
  "ad_uuid (installAuthorityManagedMarker now p u db) = ad_uuid db" "ad_uuid (removeAuthorityManagedMarker p db) = ad_uuid db"
  "ad_uuid (setRepairPending now p db) = ad_uuid db" "ad_uuid (clearRepairPending p db) = ad_uuid db"
  "ad_uuid (reset_mirror now d p db) = ad_uuid db"
  by (simp_all add: installAuthorityManagedMarker_def removeAuthorityManagedMarker_def setRepairPending_def clearRepairPending_def
      reset_mirror_def put_cursor_def)

lemma fold_store: "(\<And>d db. ad_uuid (g d db) = ad_uuid db) \<Longrightarrow> ad_uuid (fold g ds x) = ad_uuid x"
  by (induction ds arbitrary: x) simp_all

lemma capture_store: "ad_uuid (installMarkerAndCaptureBounds now p u ds db) = ad_uuid db"
  unfolding installMarkerAndCaptureBounds_def by (subst fold_store) simp_all

lemma seed_chunks_store:
  assumes "keeps_store (pr_others P)"
  shows "ad_uuid db = Some w \<Longrightarrow> ad_uuid (fst (snd (seed_chunks P d pages m db))) = Some w"
  using assms
  by (induction pages arbitrary: m db) (auto simp: keeps_store_def remember_page_store split: prod.split sum.split option.split)

lemma prepare_domain_store:
  assumes "keeps_store (pr_others P)" "ad_uuid db = Some w"
  shows "ad_uuid (fst (snd (prepare_domain P d m db))) = Some w"
proof -
  have o: "ad_uuid (pr_others P n x) = Some w" if "ad_uuid x = Some w" for n x using assms(1) that by (simp add: keeps_store_def)
  have c: "ad_uuid y = Some w" if "seed_chunks P d pages n x = (n', y, r)" "ad_uuid x = Some w" for pages n x n' y r
    using seed_chunks_store [OF assms(1) that(2), of d pages n] that(1) by simp
  show ?thesis
    using assms(2) by (auto simp: prepare_domain_def Let_def o split: prod.split sum.split option.split dest!: c)
qed

lemma prepare_domains_store:
  assumes "keeps_store (pr_others P)"
  shows "ad_uuid db = Some w \<Longrightarrow> ad_uuid (fst (snd (prepare_domains P ds st pr m db))) = Some w"
proof (induction ds arbitrary: st pr m db)
  case (Cons d ds)
  obtain m' db' g r where 1: "prepare_domain P d m db = (m', db', g, r)" by (metis surj_pair)
  then have "ad_uuid db' = Some w" using prepare_domain_store [OF assms Cons.prems, of d m] by simp
  then show ?case using 1 Cons.IH by (cases r; cases g) simp_all
qed simp

lemma acknowledge_store:
  assumes "keeps_store (pr_others P)"
  shows "ad_uuid db = Some w \<Longrightarrow> ad_uuid (fst (snd (acknowledge P items m db))) = Some w"
proof (induction items arbitrary: m db)
  case (Cons item items)
  have o: "ad_uuid (pr_others P n db) = Some w" for n using assms Cons.prems by (simp add: keeps_store_def)
  show ?case
    using o Cons.IH [OF o] by (simp split: prod.split sum.split) (metis fst_conv snd_conv)
qed simp

lemma abort_started_store:
  assumes "keeps_store (pr_others P)"
  shows "ad_uuid db = Some w \<Longrightarrow> ad_uuid (fst (snd (abort_started P items own m db))) = Some w"
  using assms by (induction items arbitrary: own m db) (auto simp: keeps_store_def split: prod.split sum.split)

lemma abort_preparation_store:
  assumes "keeps_store (pr_others P)" "ad_uuid db = Some w" "abort_preparation P items m db = (m', db')"
  shows "ad_uuid db' = Some w"
proof -
  obtain a b c where 1: "abort_started P items False m db = (a, b, c)" by (metis surj_pair)
  then have "ad_uuid b = Some w" using abort_started_store [OF assms(1,2), of items False m] by simp
  then show ?thesis using assms(3) 1 by (auto simp: abort_preparation_def)
qed

lemma run_preparation_store:
  assumes "keeps_store (pr_others P)" "ad_uuid db = Some w"
  shows "ad_uuid (fst (snd (run_preparation P ds m db))) = Some w"
proof -
  obtain m1 db1 st r where 1: "prepare_domains P ds [] [] m db = (m1, db1, st, r)" by (metis surj_pair)
  then have u1: "ad_uuid db1 = Some w" using prepare_domains_store [OF assms, of ds "[]" "[]" m] by simp
  have a: "ad_uuid x = Some w \<Longrightarrow> ad_uuid (snd (abort_preparation P items n x)) = Some w" for items n x
    using abort_preparation_store [OF assms(1), of x w items n] by (metis surj_pair snd_conv)
  show ?thesis
  proof (cases r)
    case (Inl e)
    then show ?thesis using 1 a [OF u1] by (simp add: run_preparation_def split_beta)
  next
    case (Inr prepared)
    obtain m2 db2 q where 2: "acknowledge P prepared m1 db1 = (m2, db2, q)" by (metis surj_pair)
    then have u2: "ad_uuid db2 = Some w" using acknowledge_store [OF assms(1) u1, of prepared m1] by simp
    show ?thesis using 1 2 Inr a [OF u1] a [OF u2] u2 by (cases q) (simp_all add: run_preparation_def split_beta)
  qed
qed

lemma prepareAuthority_store:
  assumes "keeps_store others" "ad_uuid db = Some w"
    and "prepareAuthority M others seedPages checksum row_bytes now minted p ds m db = (m', db', r)"
  shows "ad_uuid db' = Some w"
proof (cases "am_seed M")
  case None
  then show ?thesis using assms by (simp add: prepareAuthority_def ensured)
next
  case (Some seed)
  let ?P = "\<lparr>pr_module = M, pr_seed = seed, pr_others = others, pr_uuid = (if w = [] then minted else w), pr_project = p,
                 pr_seedPages = seedPages, pr_checksum = checksum, pr_row_bytes = row_bytes\<rparr>"
  let ?ds = "case ds of None \<Rightarrow> AUTHORITY_DOMAINS | Some ds \<Rightarrow> ds"
  let ?db = "installMarkerAndCaptureBounds now p (if w = [] then minted else w) ?ds db"
  have "keeps_store (pr_others ?P)" using assms(1) by simp
  from run_preparation_store [OF this, of ?db w ?ds m] assms(2,3) Some show ?thesis
    by (simp add: prepareAuthority_def ensured capture_store Let_def)
qed

lemma drain_loop_store:
  "drain_loop D k m db = (m', db', r) \<Longrightarrow> ad_uuid db' = ad_uuid db"
proof (induction D k m db arbitrary: m' db' r rule: drain_loop.induct)
  case (1 D k m db)
  have attempt: "ad_uuid db2 = ad_uuid db" if "drain_attempt D m db = (m2, db2, out)" for m2 db2 out
  proof -
    have rep: "ad_uuid x = ad_uuid db" if "replay D b n db = (n', x, e)" for b n n' x e
      using replay_marker [OF that] by (simp add: authority_part_def)
    have "ad_uuid x = ad_uuid db" if "drain_rest D tok st n db = (n', x, o')" for tok st n n' x o'
    proof -
      obtain n1 db1 e where 2: "replay D (upper_bound st) n db = (n1, db1, e)" by (metis prod_cases3)
      show ?thesis using that 2 rep [OF 2]
        by (auto simp: drain_rest_def release_marker_def split: option.splits prod.splits sum.splits if_splits)
    qed
    then show ?thesis using that by (auto simp: drain_attempt_def split: prod.splits sum.splits option.splits if_splits)
  qed
  obtain m1 db1 out where att: "drain_attempt D m db = (m1, db1, out)" by (metis prod_cases3)
  show ?case
  proof (cases "\<exists>a. out = Advanced a \<and> k < MAX_DRAIN_RECAPTURE_ATTEMPTS")
    case False
    then have "db' = db1" using "1.prems" att by (cases out) (simp_all add: drain_loop.simps [of D k m db] not_less)
    then show ?thesis using attempt [OF att] by simp
  next
    case True
    then obtain a where a: "out = Advanced a" "\<not> MAX_DRAIN_RECAPTURE_ATTEMPTS \<le> k" by auto
    then have "drain_loop D (k + 1) m1 db1 = (m', db', r)" using "1.prems" att by (simp add: drain_loop.simps [of D k m db])
    then show ?thesis using "1.IH" [OF att [symmetric] refl a(1) a(2)] attempt [OF att] by simp
  qed
qed

lemma drainAuthority_store:
  assumes "ad_uuid db = Some w" "drainAuthority M clock minted p d checksum limit m db = (m', db', r)"
  shows "ad_uuid db' = Some w"
  using assms by (auto simp: drainAuthority_def ensured Let_def dest!: drain_loop_store split: option.splits)

lemma drain_twice_store:
  assumes "ad_uuid db = Some w" "drain_twice M clock minted p d checksum m db = (m', db', r)"
  shows "ad_uuid db' = Some w"
proof -
  obtain m1 db1 q where 1: "drainAuthority M clock minted p d checksum None m db = (m1, db1, q)" by (metis prod_cases3)
  note u1 = drainAuthority_store [OF assms(1) 1]
  show ?thesis using assms(2) 1 u1 drainAuthority_store [OF u1]
    by (cases q) (auto simp: drain_twice_def split: authority_drain_result.splits)
qed

lemma resume_drains_store:
  "ad_uuid db = Some w \<Longrightarrow> resume_drains M clock digest minted p statuses resumed m db = (m', db', r) \<Longrightarrow> ad_uuid db' = Some w"
proof (induction statuses arbitrary: resumed m db)
  case (Cons st statuses)
  obtain d a where st: "st = (d, a)" by fastforce
  show ?case
  proof (cases "map_option as_state a \<noteq> Some Draining")
    case True
    then show ?thesis using Cons st by simp
  next
    case False
    obtain m1 db1 q where 1: "drain_twice M clock minted p d (resume_checksum digest p d) m db = (m1, db1, q)" by (metis prod_cases3)
    note u1 = drain_twice_store [OF Cons.prems(1) 1]
    show ?thesis
    proof (cases "\<exists>f. q = Inr (Finished f)")
      case True
      then have "resume_drains M clock digest minted p statuses True m1 db1 = (m', db', r)" using Cons.prems(2) st False 1 by auto
      from Cons.IH [OF u1 this] show ?thesis .
    next
      case no: False
      then have "db' = db1" using Cons.prems(2) st False 1 by (cases q) (auto split: authority_drain_result.splits)
      then show ?thesis using u1 by simp
    qed
  qed
qed simp

lemma prepare_from_store:
  assumes "keeps_store others" "ad_uuid db = Some w"
    and "prepare_from M others digest row_bytes now minted u p statuses m db = (m', db', r)"
  shows "ad_uuid db' = Some w"
proof -
  have "ad_uuid y = Some w" if "prepare_missing M others digest row_bytes now minted p ss n db = (n', y, e)" for ss n n' y e
    using that assms(2) prepareAuthority_store [OF assms(1,2)]
    by (auto simp: prepare_missing_def split: list.splits if_splits prod.splits sum.splits)
  then show ?thesis using assms(2,3) by (auto simp: prepare_from_def split: prod.splits sum.splits)
qed

text \<open>
  What is left of a feed: a page that announces more and moves the cursor leaves fewer rows than before it, because other
  writers append fewer rows meanwhile than it has delivered.
\<close>

definition feed_drains :: "('m \<Rightarrow> authority_domain \<Rightarrow> int \<Rightarrow> int \<Rightarrow> 'm \<times> (thrown + changefeed_page)) \<Rightarrow> ('m \<Rightarrow> int \<Rightarrow> nat) \<Rightarrow> bool" where
  "feed_drains pull left \<longleftrightarrow>
     (\<forall>m c m1 page. pull m Notes c 1000 = (m1, Inr page) \<and> cp_has_more page \<and> cp_next_cursor page \<noteq> c
        \<longrightarrow> left m1 (cp_next_cursor page) < left m c)"

lemma sync_ends:
  assumes "feed_drains pull left"
  shows "left m (getMirrorCursor db Notes) < fuel \<Longrightarrow> sync_pages pull fuel now Notes m db \<noteq> None"
proof (induction fuel arbitrary: m db)
  case (Suc fuel)
  obtain m1 r where 1: "pull m Notes (getMirrorCursor db Notes) 1000 = (m1, r)" by fastforce
  show ?case
  proof (cases r)
    case (Inr page)
    show ?thesis
    proof (cases "applyMirrorPage now db page")
      case applied: (Inr res)
      obtain b c where res: "res = (b, c)" by fastforce
      note e = page_effect [OF applied [unfolded res]]
      show ?thesis
      proof (cases "\<not> cp_has_more page \<or> c = getMirrorCursor db Notes")
        case False
        then have "left m1 (cp_next_cursor page) < left m (getMirrorCursor db Notes)"
          using assms 1 Inr e unfolding feed_drains_def by metis
        then have "left m1 (getMirrorCursor b Notes) < fuel" using Suc.prems e by simp
        from Suc.IH [OF this] show ?thesis using 1 Inr applied res False by (simp add: Let_def)
      qed (use 1 Inr applied res in \<open>simp add: Let_def\<close>)
    qed (use 1 Inr in \<open>simp add: Let_def\<close>)
  qed (use 1 in \<open>simp add: Let_def\<close>)
qed simp

lemma ensure_uuid:
  assumes "ensureContextStoreUuid minted db = (db1, u)"
  shows "project_fenced db1 p = project_fenced db p"
  using assms by (auto simp: ensureContextStoreUuid_def project_fenced_def Let_def split: option.splits)

lemma marker_reconciled_store:
  assumes "keeps_store others" "ad_uuid db = Some w" "reconcileAuthorityMarker M others now minted p m db = (m', db', r)"
  shows "ad_uuid db' = Some w"
  using assms
  by (auto simp: reconcileAuthorityMarker_def ensured keeps_store_def Let_def split: prod.splits sum.splits option.splits if_splits)

lemma project_reconciled:
  assumes kept: "\<And>m db. project_fenced db p \<Longrightarrow> project_fenced (others m db) p" "keeps_store others"
    and store: "ad_uuid db = Some w" "u = (if w = [] then minted else w)" and truth: "truthful_status M owner u p"
    and pulls: "\<And>pull m d c l. am_pull M = Some pull \<Longrightarrow> owner (fst (pull m d c l)) = owner m"
    and drains: "\<And>pull. am_pull M = Some pull \<Longrightarrow> feed_drains pull left"
  shows "\<exists>n. \<forall>fuel>n. \<exists>m' db' r. reconcileAuthorityProject M others fuel now minted p m db = Some (m', db', r)
    \<and> (r = Inr () \<longrightarrow> project_fenced db' p \<or> (\<forall>d. owner m' d = TS))"
proof -
  obtain m1 db1 r1 where 1: "reconcileAuthorityMarker M others now minted p m db = (m1, db1, r1)" by (metis prod_cases3)
  have fenced1: "project_fenced db1 p \<or> (\<forall>d. owner m1 d = TS)"
    using reconciled_fence [OF 1 _ kept(1) truth] store by (simp add: ensured)
  have 2: "ensureContextStoreUuid minted db1 = (db1, u)"
    using ensured [OF marker_reconciled_store [OF kept(2) store(1) 1]] store(2) by simp
  obtain m2 r where 3: "am_status M m1 u p Notes = (m2, r)" by fastforce
  have own: "owner m2 = owner m1" by (rule truthful_statusD(1) [OF truth 3])
  have fenced3: "project_fenced (others m2 db1) p \<or> (\<forall>d. owner m2 d = TS)" using fenced1 own kept(1) by metis
  show ?thesis
  proof (cases r1)
    case (Inl e)
    then show ?thesis using 1 by (simp add: reconcileAuthorityProject_def)
  next
    case r1: (Inr x)
    show ?thesis
    proof (cases r)
      case (Inl e)
      then show ?thesis using 1 2 3 r1 by (simp add: reconcileAuthorityProject_def)
    next
      case (Inr a)
      show ?thesis
      proof (cases "map_option as_state a \<noteq> Some Module \<or> has_identity (others m2 db1) Notes p")
        case True
        then show ?thesis using 1 2 3 r1 Inr fenced3 by (auto simp: reconcileAuthorityProject_def)
      next
        case False
        then have pulled: "\<not> (map_option as_state a \<noteq> Some Module)" "\<not> has_identity (others m2 db1) Notes p" by blast+
        show ?thesis
        proof (cases "am_pull M")
          case None
          then show ?thesis using 1 2 3 r1 Inr pulled
            by (auto simp: reconcileAuthorityProject_def)
        next
          case (Some pull)
          let ?db = "reset_mirror now Notes p (others m2 db1)"
          have "\<exists>m' db' r. reconcileAuthorityProject M others fuel now minted p m db = Some (m', db', r)
              \<and> (r = Inr () \<longrightarrow> project_fenced db' p \<or> (\<forall>d. owner m' d = TS))"
            if fuel: "left m2 (getMirrorCursor ?db Notes) < fuel" for fuel
          proof -
            obtain m' db' e where s: "sync_pages pull fuel now Notes m2 ?db = Some (m', db', e)"
              using sync_ends [OF drains [OF Some] fuel] by (metis not_None_eq prod_cases3)
            have "project_fenced db' p \<or> (\<forall>d. owner m' d = TS)"
              using fenced3 fenced_part [of db' ?db p] fenced_part [OF reset_part] sync_frame [OF s] sync_owner [OF pulls [OF Some] s] by metis
            then show ?thesis using 1 2 3 r1 Inr pulled Some s by (auto simp: reconcileAuthorityProject_def sync_result_def)
          qed
          then show ?thesis by blast
        qed
      qed
    qed
  qed
qed

text \<open>
  C27: A session in Rust mode becomes ready only behind the fence. A call of \<open>prepareRustMemoryAuthority\<close> for a session
  that is not ready returns, with enough fuel for the feed, through whatever it has to resume, abort, prepare or pull; it
  makes the session ready exactly if it throws nothing, and then local writes to the project's notes are fenced, or every
  domain is the local side's (which happens after a drain of an earlier process was finished). What is relied on: the
  module's statuses for this store and project say who owns a domain, pulling changes no owner, every page that announces
  more leaves less of the feed, and the other writers of the database keep the fence and the identity of the store.
\<close>

theorem ready_session_is_fenced:
  assumes store: "u = snd (ensureContextStoreUuid minted db)" and truth: "truthful_status M owner u p"
    and kept: "\<And>m db. project_fenced db p \<Longrightarrow> project_fenced (others m db) p" "keeps_store others"
    and pulls: "\<And>pull m d c l. am_pull M = Some pull \<Longrightarrow> owner (fst (pull m d c l)) = owner m"
    and drains: "\<And>pull. am_pull M = Some pull \<Longrightarrow> feed_drains pull left"
    and fresh: "\<not> rs_memoryAuthorityReady state" and seed: "am_seed M \<noteq> None"
  shows "\<exists>n. \<forall>fuel>n. \<exists>state' m' db' e. prepareRustMemoryAuthority M others clock digest row_bytes fuel now minted bypass p projectRoot state m db
      = Some (state', m', db', e)
    \<and> (rs_memoryAuthorityReady state' \<longleftrightarrow> e = None) \<and> (e = None \<longrightarrow> project_fenced db' p \<or> (\<forall>d. owner m' d = TS))"
proof -
  obtain db1 where db1: "ensureContextStoreUuid minted db = (db1, u)" using store by (metis prod.collapse)
  obtain w where w: "ad_uuid db1 = Some w" "u = (if w = [] then minted else w)" by (rule ensure_gives [OF db1])
  have last: "\<exists>n. \<forall>fuel>n. \<exists>m' db' e. reconcile_last M others fuel now minted p m3 db3 = Some (m', db', e)
      \<and> (e = None \<longrightarrow> project_fenced db' p \<or> (\<forall>d. owner m' d = TS))" if u3: "ad_uuid db3 = Some w" for m3 db3
  proof -
    have "\<exists>n. \<forall>fuel>n. \<exists>m' db' r. reconcileAuthorityProject M others fuel now minted p m3 db3 = Some (m', db', r)
        \<and> (r = Inr () \<longrightarrow> project_fenced db' p \<or> (\<forall>d. owner m' d = TS))"
      by (rule project_reconciled [where M = M and owner = owner and left = left, OF _ kept(2) u3 w(2) truth])
        (fact kept(1), fact pulls, fact drains)
    then obtain n where n: "\<And>fuel. n < fuel \<Longrightarrow> \<exists>m' db' r. reconcileAuthorityProject M others fuel now minted p m3 db3 = Some (m', db', r)
        \<and> (r = Inr () \<longrightarrow> project_fenced db' p \<or> (\<forall>d. owner m' d = TS))" by blast
    have "\<exists>m' db' e. reconcile_last M others fuel now minted p m3 db3 = Some (m', db', e)
        \<and> (e = None \<longrightarrow> project_fenced db' p \<or> (\<forall>d. owner m' d = TS))" if f: "n < fuel" for fuel
    proof -
      obtain m' db' r where "reconcileAuthorityProject M others fuel now minted p m3 db3 = Some (m', db', r)"
        "r = Inr () \<Longrightarrow> project_fenced db' p \<or> (\<forall>d. owner m' d = TS)" using n [OF f] by blast
      then show ?thesis by (cases r) (auto simp: reconcile_last_def)
    qed
    then show ?thesis by blast
  qed
  have "\<exists>n. \<forall>fuel>n. \<exists>m' db' e. restore_authority M others clock digest row_bytes fuel now minted p m db = Some (m', db', e)
      \<and> (e = None \<longrightarrow> project_fenced db' p \<or> (\<forall>d. owner m' d = TS))"
  proof -
    obtain m1 r1 where 1: "read_statuses M u p AUTHORITY_DOMAINS m = (m1, r1)" by fastforce
    show ?thesis
    proof (cases r1)
      case (Inl e)
      then show ?thesis using 1 db1 by (simp add: restore_authority_def)
    next
      case (Inr statuses)
      obtain m2 db2 r2 where 2: "resume_drains M clock digest minted p statuses False m1 db1 = (m2, db2, r2)" by (metis prod_cases3)
      note u2 = resume_drains_store [OF w(1) 2]
      show ?thesis
      proof (cases r2)
        case (Inl e)
        then show ?thesis using 1 2 db1 Inr by (simp add: restore_authority_def)
      next
        case r2: (Inr resumed)
        obtain m3 db3 e3 where 3: "prepare_from M others digest row_bytes now minted u p statuses m2 db2 = (m3, db3, e3)"
          by (metis prod_cases3)
        note u3 = prepare_from_store [OF kept(2) u2 3]
        show ?thesis
          using last [OF u2, of m2] last [OF u3, of m3] 1 2 3 db1 Inr r2
          by (cases resumed; cases e3) (simp_all add: restore_authority_def)
      qed
    qed
  qed
  then obtain n where n: "\<And>fuel. n < fuel \<Longrightarrow> \<exists>m' db' e. restore_authority M others clock digest row_bytes fuel now minted p m db = Some (m', db', e)
      \<and> (e = None \<longrightarrow> project_fenced db' p \<or> (\<forall>d. owner m' d = TS))" by blast
  show ?thesis
  proof (intro exI [of _ n] allI impI)
    fix fuel assume "n < fuel"
    from n [OF this] fresh seed show "\<exists>state' m' db' e. prepareRustMemoryAuthority M others clock digest row_bytes fuel now minted bypass p
        projectRoot state m db = Some (state', m', db', e)
      \<and> (rs_memoryAuthorityReady state' \<longleftrightarrow> e = None) \<and> (e = None \<longrightarrow> project_fenced db' p \<or> (\<forall>d. owner m' d = TS))"
      by (fastforce simp: prepareRustMemoryAuthority_def Let_def)
  qed
qed

text \<open>The module owns both domains already and the local store has an identity, but its marker is lost.\<close>

definition restored_db :: authority_db where
  "restored_db = empty_db\<lparr>ad_identities := [\<lparr>mi_domain = Notes, mi_module_project = ''app'', mi_module_row_id = 7, mi_context_row_id = 1\<rparr>]\<rparr>"

definition new_session :: rust_session where
  "new_session = \<lparr>rs_memoryAuthorityProject = None, rs_memoryAuthorityRoot = None, rs_memoryAuthorityReady = False\<rparr>"

theorem ready_session_is_fenced_witness:
  "\<exists>fuel state' m' db'. prepareRustMemoryAuthority (example_module (\<lambda>d. True)) (\<lambda>m db. db) (\<lambda>m. 0) (\<lambda>rows. ''digest'') (\<lambda>row. 0)
      fuel 9 ''minted'' False ''app'' ''/root'' new_session (\<lambda>d. Module) restored_db = Some (state', m', db', None) \<and>
     rs_memoryAuthorityReady state' \<and> project_fenced db' ''app''"
proof -
  let ?run = "\<lambda>fuel. prepareRustMemoryAuthority (example_module (\<lambda>d. True)) (\<lambda>m db. db) (\<lambda>m. 0) (\<lambda>rows. ''digest'') (\<lambda>row. 0)
      fuel 9 ''minted'' False ''app'' ''/root'' new_session (\<lambda>d. Module) restored_db"
  have "\<exists>n. \<forall>fuel>n. \<exists>state' m' db' e. ?run fuel = Some (state', m', db', e) \<and> (rs_memoryAuthorityReady state' \<longleftrightarrow> e = None)
      \<and> (e = None \<longrightarrow> project_fenced db' ''app'' \<or> (\<forall>d::authority_domain. m' d = TS))"
    by (rule ready_session_is_fenced [where owner = "\<lambda>m. m" and left = "\<lambda>m c. 0", OF refl])
      (simp_all add: new_session_def example_truthful_status keeps_store_def, simp_all add: example_module_def)
  then obtain n where n: "\<exists>state' m' db' e. ?run (Suc n) = Some (state', m', db', e) \<and> (rs_memoryAuthorityReady state' \<longleftrightarrow> e = None)
      \<and> (e = None \<longrightarrow> project_fenced db' ''app'' \<or> (\<forall>d::authority_domain. m' d = TS))" by blast
  have "\<exists>state' db'. ?run (Suc n) = Some (state', (\<lambda>d. Module), db', None) \<and> rs_memoryAuthorityReady state'"
    by (simp add: prepareRustMemoryAuthority_def new_session_def restore_authority_def restored_db_def ensureContextStoreUuid_def
      getContextStoreUuid_def empty_db_def AUTHORITY_DOMAINS_def example_module_def reply_def prepare_from_def prepare_missing_def
      to_prepare_def List.map_filter_simps reconcile_last_def reconcileAuthorityProject_def reconcileAuthorityMarker_def
      getAuthorityManagedMarker_def first_status_def has_identity_def setRepairPending_def clearRepairPending_def
      installAuthorityManagedMarker_def)
  with n show ?thesis by auto
qed

end
