(* ===== verification/Bridge_Registry.thy ===== *)
theory Bridge_Registry
  imports Prelude
begin

text \<open>
  The process-wide registry of note-evaluation bridges (\<open>features/magic-context/context-authority.ts\<close>): bridges by
  project and checkout, with a count of the plugin instances that rely on each.
\<close>

record 'b bridge_entry =
  be_bridge :: 'b
  be_owners :: int

type_synonym 'b registry = "(string \<times> 'b bridge_entry) list"

definition moduleNoteEvaluationBridgeKey :: "string \<Rightarrow> string \<Rightarrow> string" where
  "moduleNoteEvaluationBridgeKey projectPath projectRoot = projectPath @ [CHR 0x00] @ projectRoot"

definition registerModuleNoteEvaluationBridge :: "string \<Rightarrow> string \<Rightarrow> 'b \<Rightarrow> 'b registry \<Rightarrow> 'b registry \<times> string" where
  "registerModuleNoteEvaluationBridge projectPath projectRoot bridge bridges =
     (let key = moduleNoteEvaluationBridgeKey projectPath projectRoot
      in (jsmap_set key \<lparr>be_bridge = bridge, be_owners = 1\<rparr> bridges, key))"

definition retainModuleNoteEvaluationBridge :: "string \<Rightarrow> string \<Rightarrow> 'b registry \<Rightarrow> 'b registry \<times> string option" where
  "retainModuleNoteEvaluationBridge projectPath projectRoot bridges =
     (let key = moduleNoteEvaluationBridgeKey projectPath projectRoot
      in case map_of bridges key of
           None \<Rightarrow> (bridges, None)
         | Some entry \<Rightarrow> (jsmap_set key (entry\<lparr>be_owners := be_owners entry + 1\<rparr>) bridges, Some key))"

definition getModuleNoteEvaluationBridge :: "string \<Rightarrow> string option \<Rightarrow> 'b registry \<Rightarrow> 'b option" where
  "getModuleNoteEvaluationBridge projectPath projectRoot bridges =
     (case projectRoot of
        Some r \<Rightarrow> map_option be_bridge (map_of bridges (moduleNoteEvaluationBridgeKey projectPath r))
      | None \<Rightarrow> map_option (be_bridge \<circ> snd) (find (\<lambda>(key, _). starts_with (projectPath @ [CHR 0x00]) key) bridges))"

definition findModuleNoteEvaluationBridgeForDrain :: "string \<Rightarrow> string option \<Rightarrow> 'b registry \<Rightarrow> 'b option" where
  "findModuleNoteEvaluationBridgeForDrain projectPath projectRoot bridges =
     (case (case projectRoot of Some r \<Rightarrow> getModuleNoteEvaluationBridge projectPath (Some r) bridges | None \<Rightarrow> None) of
        Some b \<Rightarrow> Some b
      | None \<Rightarrow> getModuleNoteEvaluationBridge projectPath None bridges)"

text \<open>The registry without the released keys, and the bridges to dispose of, in order.\<close>

fun disposeModuleNoteEvaluationBridges :: "string list \<Rightarrow> 'b registry \<Rightarrow> 'b registry \<times> 'b list" where
  "disposeModuleNoteEvaluationBridges [] bridges = (bridges, [])"
| "disposeModuleNoteEvaluationBridges (key # keys) bridges =
     (case map_of bridges key of
        None \<Rightarrow> disposeModuleNoteEvaluationBridges keys bridges
      | Some entry \<Rightarrow>
          (let owners = be_owners entry - 1
           in if 0 < owners then disposeModuleNoteEvaluationBridges keys (jsmap_set key (entry\<lparr>be_owners := owners\<rparr>) bridges)
              else (let (bridges', disposed) = disposeModuleNoteEvaluationBridges keys (jsmap_delete key bridges)
                    in (bridges', be_bridge entry # disposed))))"

section \<open>A bridge lives until its last owner releases it\<close>

lemma dispose_unknown:
  "map_of bridges key = None \<Longrightarrow> map_of (fst (disposeModuleNoteEvaluationBridges keys bridges)) key = None"
proof (induction keys bridges rule: disposeModuleNoteEvaluationBridges.induct)
  case (2 k keys bridges)
  show ?case
  proof (cases "map_of bridges k")
    case None
    then show ?thesis using 2 by simp
  next
    case (Some e)
    then have "k \<noteq> key" using "2.prems" by auto
    then have "map_of (jsmap_set k v bridges) key = None" "map_of (jsmap_delete k bridges) key = None" for v
      using "2.prems" by (simp_all add: map_of_jsmap_set map_of_jsmap_delete)
    then show ?thesis using "2.IH"(2,3) [OF Some refl] Some by (cases "0 < be_owners e - 1") (auto simp: Let_def split: prod.split)
  qed
qed simp

lemma dispose_counts:
  assumes "map_of bridges key = Some entry" "1 \<le> be_owners entry"
  shows "map_of (fst (disposeModuleNoteEvaluationBridges keys bridges)) key =
    (if int (count_list keys key) < be_owners entry then Some (entry\<lparr>be_owners := be_owners entry - int (count_list keys key)\<rparr>)
     else None)"
  using assms
proof (induction keys bridges arbitrary: entry rule: disposeModuleNoteEvaluationBridges.induct)
  case (2 k keys bridges)
  show ?case
  proof (cases "map_of bridges k")
    case None
    then have "k \<noteq> key" using "2.prems" by auto
    then show ?thesis using None 2 by simp
  next
    case (Some e)
    show ?thesis
    proof (cases "0 < be_owners e - 1")
      case True
      let ?b = "jsmap_set k (e\<lparr>be_owners := be_owners e - 1\<rparr>) bridges"
      have eq: "disposeModuleNoteEvaluationBridges (k # keys) bridges = disposeModuleNoteEvaluationBridges keys ?b"
        using Some True by simp
      show ?thesis
      proof (cases "k = key")
        case same: True
        then have "e = entry" using Some "2.prems"(1) by simp
        then have "map_of ?b key = Some (entry\<lparr>be_owners := be_owners entry - 1\<rparr>)" using same by (simp add: map_of_jsmap_set)
        from "2.IH"(2) [OF Some refl True this] show ?thesis using same True \<open>e = entry\<close> unfolding eq by (simp add: algebra_simps)
      next
        case False
        then have "map_of ?b key = Some entry" using "2.prems"(1) by (simp add: map_of_jsmap_set)
        from "2.IH"(2) [OF Some refl True this "2.prems"(2)] show ?thesis using False unfolding eq by simp
      qed
    next
      case False
      have eq: "fst (disposeModuleNoteEvaluationBridges (k # keys) bridges) =
          fst (disposeModuleNoteEvaluationBridges keys (jsmap_delete k bridges))"
        using Some False by (simp add: Let_def split: prod.split)
      show ?thesis
      proof (cases "k = key")
        case True
        then have "e = entry" using Some "2.prems"(1) by simp
        then show ?thesis unfolding eq
          using dispose_unknown [of "jsmap_delete k bridges" key keys] True False by (simp add: map_of_jsmap_delete)
      next
        case other: False
        then have "map_of (jsmap_delete k bridges) key = Some entry" using "2.prems"(1) by (simp add: map_of_jsmap_delete)
        from "2.IH"(3) [OF Some refl False this "2.prems"(2)] show ?thesis using other unfolding eq by simp
      qed
    qed
  qed
qed simp

lemma retained_owner:
  assumes "map_of bridges (moduleNoteEvaluationBridgeKey p r) = Some entry"
  shows "map_of (fst (retainModuleNoteEvaluationBridge p r bridges)) (moduleNoteEvaluationBridgeKey p r) =
    Some (entry\<lparr>be_owners := be_owners entry + 1\<rparr>)"
  using assms by (simp add: retainModuleNoteEvaluationBridge_def Let_def map_of_jsmap_set)

text \<open>
  Registering a checkout again starts a new count, so owners of the first bridge release the second one: a sibling
  that had retained the first registration disposes of the bridge that replaced it.
\<close>

lemma registering_again_forgets_owners:
  "let (r1, key) = registerModuleNoteEvaluationBridge ''p'' ''/a'' (1::nat) [];
       (r2, _) = retainModuleNoteEvaluationBridge ''p'' ''/a'' r1;
       (r3, _) = registerModuleNoteEvaluationBridge ''p'' ''/a'' 2 r2
   in getModuleNoteEvaluationBridge ''p'' (Some ''/a'') (fst (disposeModuleNoteEvaluationBridges [key] r3)) = None"
  by (simp add: registerModuleNoteEvaluationBridge_def retainModuleNoteEvaluationBridge_def moduleNoteEvaluationBridgeKey_def
      getModuleNoteEvaluationBridge_def Let_def jsmap_delete_def)

end
