(* ===== verification/Network_Guard.thy ===== *)
theory Network_Guard
  imports Prelude "HOL-Library.Word"
begin

text \<open>
  The guard on the network access of smart notes (\<open>features/magic-context/smart-notes/ssrf-guard.ts\<close>): the texts
  of addresses and their numbers, the blocks of addresses that are not global, the validation of a URL and its
  resolved addresses, the attempts to fetch it, and the events of one request. The URL parser, the domain encoder,
  the resolver, the grammar of IPv6 texts and a request itself are parameters.
\<close>

unbundle bit_operations_syntax

section \<open>Errors\<close>

datatype guard_error =
  SecurityError string
  | NetworkError string bool
  | OtherError string

definition isTerminalSmartNoteNetworkError :: "guard_error \<Rightarrow> bool" where
  "isTerminalSmartNoteNetworkError e = (case e of NetworkError _ terminal \<Rightarrow> terminal | _ \<Rightarrow> False)"

definition toNetworkError :: "guard_error \<Rightarrow> string \<Rightarrow> guard_error" where
  "toNetworkError e fallback =
     (case e of
        NetworkError m t \<Rightarrow> NetworkError m t
      | SecurityError m \<Rightarrow> NetworkError (''SMART_NOTE_NETWORK: '' @ (if m = [] then fallback else m)) False
      | OtherError m \<Rightarrow> NetworkError (''SMART_NOTE_NETWORK: '' @ (if m = [] then fallback else m)) False)"

section \<open>Texts of addresses\<close>

definition starts_ends :: "char \<Rightarrow> char \<Rightarrow> string \<Rightarrow> bool" where
  "starts_ends a z s \<longleftrightarrow> s \<noteq> [] \<and> hd s = a \<and> last s = z"

definition stripIpv6Brackets :: "string \<Rightarrow> string" where
  "stripIpv6Brackets hostname = (if starts_ends CHR ''['' CHR '']'' hostname then butlast (tl hostname) else hostname)"

text \<open>\<open>isIP(s) === 4\<close>: four numerals below 256 without leading zeros.\<close>

definition octet_text :: "string \<Rightarrow> bool" where
  "octet_text p \<longleftrightarrow> all_digits p \<and> length p \<le> 3 \<and> (length p = 1 \<or> hd p \<noteq> CHR ''0'') \<and> digits_value p \<le> 255"

definition isIPv4 :: "string \<Rightarrow> bool" where
  "isIPv4 s \<longleftrightarrow> (let parts = split_on CHR ''.'' s in length parts = 4 \<and> list_all octet_text parts)"

text \<open>
  \<open>Number(part)\<close>: blank text is 0, a numeral its value. The other numerals of JavaScript (signs, fractions,
  exponents, hexadecimal) do not pass \<open>isIP\<close> and count as not a number here.
\<close>

definition number_of_part :: "string \<Rightarrow> int option" where
  "number_of_part p = (let t = js_trim p in if t = [] then Some 0 else if all_digits t then Some (digits_value t) else None)"

definition octets_value :: "int \<Rightarrow> int \<Rightarrow> int \<Rightarrow> int \<Rightarrow> 32 word" where
  "octets_value a b c d = push_bit 24 (of_int a) + push_bit 16 (of_int b) + push_bit 8 (of_int c) + of_int d"

definition ipv4ToNumber :: "string \<Rightarrow> 32 word option" where
  "ipv4ToNumber address =
     (case map number_of_part (split_on CHR ''.'' address) of
        [Some a, Some b, Some c, Some d] \<Rightarrow>
          if list_all (\<lambda>x. 0 \<le> x \<and> x \<le> 255) [a, b, c, d] then Some (octets_value a b c d) else None
      | _ \<Rightarrow> None)"

text \<open>Hexadecimal groups of an IPv6 text.\<close>

definition hex_digit :: "char \<Rightarrow> int option" where
  "hex_digit c = (let n = (of_char c :: nat) in
     if 48 \<le> n \<and> n \<le> 57 then Some (int n - 48)
     else if 97 \<le> n \<and> n \<le> 102 then Some (int n - 87)
     else if 65 \<le> n \<and> n \<le> 70 then Some (int n - 55) else None)"

fun hex_value :: "int \<Rightarrow> string \<Rightarrow> int option" where
  "hex_value acc [] = Some acc"
| "hex_value acc (c # cs) = (case hex_digit c of None \<Rightarrow> None | Some d \<Rightarrow> hex_value (16 * acc + d) cs)"

definition hex_group :: "string \<Rightarrow> int option" where
  "hex_group part = (if part = [] \<or> 4 < length part then None else hex_value 0 part)"

text \<open>\<open>split("::")\<close>, scanning from the left.\<close>

fun split_double :: "char \<Rightarrow> string \<Rightarrow> string list" where
  "split_double sep [] = [[]]"
| "split_double sep [c] = [[c]]"
| "split_double sep (a # b # cs) =
     (if a = sep \<and> b = sep then [] # split_double sep cs
      else (case split_double sep (b # cs) of [] \<Rightarrow> [[a]] | p # ps \<Rightarrow> (a # p) # ps))"

text \<open>The text before and after the last occurrence of a character.\<close>

definition split_last :: "char \<Rightarrow> string \<Rightarrow> (string \<times> string) option" where
  "split_last sep s = map_option (\<lambda>(a, b). (rev b, rev a)) (split_first sep (rev s))"

primrec all_some :: "'a option list \<Rightarrow> 'a list option" where
  "all_some [] = Some []"
| "all_some (x # xs) = (case x of None \<Rightarrow> None | Some v \<Rightarrow> map_option ((#) v) (all_some xs))"

definition embedded_ipv4 :: "string \<Rightarrow> guard_error + string option" where
  "embedded_ipv4 text =
     (if CHR ''.'' \<notin> set text then Inr (Some text)
      else (case split_last CHR '':'' text of
              None \<Rightarrow> Inr None
            | Some (front, ipv4) \<Rightarrow>
                (case ipv4ToNumber ipv4 of
                   None \<Rightarrow> Inl (SecurityError (''invalid IPv4 address: '' @ ipv4))
                 | Some v4 \<Rightarrow> Inr (Some (front @ [CHR '':''] @ show_base 16 (unat (drop_bit 16 v4 AND 0xFFFF)) @ [CHR '':'']
                     @ show_base 16 (unat (v4 AND 0xFFFF)))))))"

definition split_groups :: "string \<Rightarrow> string list" where
  "split_groups s = (if s = [] then [] else split_on CHR '':'' s)"

definition parseIpv6ToParts :: "string \<Rightarrow> guard_error + int list option" where
  "parseIpv6ToParts address =
     (if CHR 0x25 \<in> set address then Inr None
      else (case embedded_ipv4 address of
              Inl e \<Rightarrow> Inl e
            | Inr None \<Rightarrow> Inr None
            | Inr (Some text) \<Rightarrow>
                (let halves = split_double CHR '':'' text
                 in if 2 < length halves then Inr None
                    else (let left = map hex_group (split_groups (halves ! 0));
                              right = (if length halves = 2 then map hex_group (split_groups (halves ! 1)) else []);
                              missing = 8 - int (length left) - int (length right)
                          in Inr (case (all_some left, all_some right) of
                               (Some l, Some r) \<Rightarrow>
                                 if (if length halves = 1 then missing \<noteq> 0 else missing < 1) then None
                                 else Some (l @ replicate (nat missing) 0 @ r)
                             | _ \<Rightarrow> None)))))"

definition ipv6PartsToBigInt :: "int list \<Rightarrow> 128 word" where
  "ipv6PartsToBigInt parts = foldl (\<lambda>acc part. push_bit 16 acc OR of_int part) 0 parts"

definition ipv4MappedValue :: "int list \<Rightarrow> 32 word option" where
  "ipv4MappedValue parts =
     (if length parts \<noteq> 8 \<or> \<not> list_all (\<lambda>p. p = 0) (take 5 parts) \<or> parts ! 5 \<noteq> 0xFFFF then None
      else Some (push_bit 16 (of_int (parts ! 6)) + of_int (parts ! 7)))"

section \<open>Blocks of addresses\<close>

definition address_mask :: "nat \<Rightarrow> 32 word" where
  "address_mask bits = (if bits = 0 then 0 else push_bit (32 - bits) (- 1))"

definition in_range4 :: "32 word \<Rightarrow> 32 word \<times> nat \<Rightarrow> bool" where
  "in_range4 v r \<longleftrightarrow> v AND address_mask (snd r) = fst r AND address_mask (snd r)"

definition reserved4 :: "(32 word \<times> nat) list" where
  "reserved4 =
     [(0x00000000, 8), (0x0A000000, 8), (0x64400000, 10), (0x7F000000, 8), (0xA9FE0000, 16), (0xAC100000, 12),
      (0xC0000000, 24), (0xC0000200, 24), (0xC0A80000, 16), (0xC0586300, 24), (0xC6120000, 15), (0xC6336400, 24),
      (0xCB007100, 24), (0xE0000000, 4), (0xF0000000, 4)]"

definition isGlobalIpv4 :: "32 word \<Rightarrow> bool" where
  "isGlobalIpv4 v \<longleftrightarrow> \<not> (list_ex (in_range4 v) reserved4 \<or> v = 0xFFFFFFFF)"

definition maskBig :: "nat \<Rightarrow> 128 word" where
  "maskBig bits = (if bits = 0 then 0 else push_bit (128 - bits) (push_bit bits 1 - 1))"

definition in_range6 :: "128 word \<Rightarrow> 128 word \<times> nat \<Rightarrow> bool" where
  "in_range6 v r \<longleftrightarrow> v AND maskBig (snd r) = fst r AND maskBig (snd r)"

definition reserved6 :: "(128 word \<times> nat) list" where
  "reserved6 =
     [(0x20010000000000000000000000000000, 23), (0x20010db8000000000000000000000000, 32),
      (0x20020000000000000000000000000000, 16), (0x64ff9b00000000000000000000000000, 96),
      (0x64ff9b00010000000000000000000000, 48), (0x10000000000000000000000000000000, 64),
      (0xfc000000000000000000000000000000, 7), (0xfe800000000000000000000000000000, 10),
      (0xff000000000000000000000000000000, 8)]"

definition isGlobalIpv6 :: "128 word \<Rightarrow> bool" where
  "isGlobalIpv6 v \<longleftrightarrow> in_range6 v (0x20000000000000000000000000000000, 3) \<and> \<not> list_ex (in_range6 v) reserved6 \<and> v \<noteq> 0 \<and> v \<noteq> 1"

datatype ip_literal =
  Ipv4 string "32 word"
  | Ipv6 string "128 word" "32 word option"

text \<open>\<open>isIPv6\<close> is the test \<open>isIP(s) === 6\<close>.\<close>

definition parseIpLiteral :: "(string \<Rightarrow> bool) \<Rightarrow> string \<Rightarrow> guard_error + ip_literal option" where
  "parseIpLiteral isIPv6 hostname =
     (let host = to_lower (stripIpv6Brackets hostname)
      in if isIPv4 host then
           (case ipv4ToNumber host of
              None \<Rightarrow> Inl (SecurityError (''invalid IPv4 address: '' @ host))
            | Some v \<Rightarrow> Inr (Some (Ipv4 host v)))
         else if isIPv6 host then
           (case parseIpv6ToParts host of
              Inl e \<Rightarrow> Inl e
            | Inr None \<Rightarrow> Inr None
            | Inr (Some parts) \<Rightarrow> Inr (Some (Ipv6 host (ipv6PartsToBigInt parts) (ipv4MappedValue parts))))
         else Inr None)"

definition isGlobalAddress :: "ip_literal \<Rightarrow> bool" where
  "isGlobalAddress parsed =
     (case parsed of
        Ipv4 _ v \<Rightarrow> isGlobalIpv4 v
      | Ipv6 _ v None \<Rightarrow> isGlobalIpv6 v
      | Ipv6 _ v (Some m) \<Rightarrow> isGlobalIpv4 m)"

section \<open>Validation\<close>

record dns_answer =
  da_address :: string
  da_family :: int

record url_parts =
  up_protocol :: string
  up_username :: string
  up_password :: string
  up_hostname :: string
  up_hash :: string

text \<open>The environment of a check in a world of type \<open>'w\<close>: whether it was aborted, the resolver, the parsers.\<close>

record 'w guard_env =
  ge_aborted :: "'w \<Rightarrow> bool"
  ge_lookup :: "'w \<Rightarrow> string \<Rightarrow> 'w \<times> (guard_error + dns_answer list)"
  ge_isIPv6 :: "string \<Rightarrow> bool"
  ge_domainToASCII :: "string \<Rightarrow> string"
  ge_parseUrl :: "string \<Rightarrow> url_parts option"

definition canonicalDnsName :: "'w guard_env \<Rightarrow> string \<Rightarrow> guard_error + string" where
  "canonicalDnsName E hostname =
     (let ascii = ge_domainToASCII E hostname in if ascii = [] then Inl (SecurityError ''invalid DNS hostname'') else Inr ascii)"

text \<open>The answers that are IPv4, each with its canonical text and whether it is global.\<close>

definition ipv4_answers :: "dns_answer list \<Rightarrow> dns_answer list" where
  "ipv4_answers answers = filter (\<lambda>a. da_family a \<noteq> 6 \<and> CHR '':'' \<notin> set (da_address a)) answers"

fun classify :: "(string \<Rightarrow> bool) \<Rightarrow> dns_answer list \<Rightarrow> guard_error + (string \<times> bool) list" where
  "classify isIPv6 [] = Inr []"
| "classify isIPv6 (a # as) =
     (case parseIpLiteral isIPv6 (da_address a) of
        Inl e \<Rightarrow> Inl e
      | Inr (Some (Ipv4 address v)) \<Rightarrow>
          (case classify isIPv6 as of Inl e \<Rightarrow> Inl e | Inr rest \<Rightarrow> Inr ((address, isGlobalAddress (Ipv4 address v)) # rest))
      | Inr _ \<Rightarrow> Inl (SecurityError (''DNS returned an unparsable IPv4 address: '' @ da_address a)))"

definition accept_answers :: "(string \<Rightarrow> bool) \<Rightarrow> dns_answer list \<Rightarrow> guard_error + string list" where
  "accept_answers isIPv6 candidates =
     (if candidates = [] then Inl (SecurityError ''DNS resolution returned no addresses'')
      else if ipv4_answers candidates = [] then Inl (NetworkError ''SMART_NOTE_NETWORK: IPv6 destinations are not permitted'' False)
      else (case classify isIPv6 (ipv4_answers candidates) of
              Inl e \<Rightarrow> Inl e
            | Inr classified \<Rightarrow>
                if list_ex (\<lambda>c. \<not> snd c) classified then Inl (SecurityError ''URL resolves to a non-global/internal address'')
                else Inr (map fst classified)))"

definition resolveHostToValidatedGlobalAddresses :: "'w guard_env \<Rightarrow> string \<Rightarrow> 'w \<Rightarrow> 'w \<times> (guard_error + string list)" where
  "resolveHostToValidatedGlobalAddresses E rawHostname w =
     (if ge_aborted E w then (w, Inl (NetworkError ''SMART_NOTE_NETWORK: aborted'' False))
      else (case parseIpLiteral (ge_isIPv6 E) rawHostname of
              Inl e \<Rightarrow> (w, Inl e)
            | Inr (Some (Ipv4 address v)) \<Rightarrow> (w, accept_answers (ge_isIPv6 E) [\<lparr>da_address = address, da_family = 4\<rparr>])
            | Inr (Some (Ipv6 address v m)) \<Rightarrow> (w, accept_answers (ge_isIPv6 E) [\<lparr>da_address = address, da_family = 6\<rparr>])
            | Inr None \<Rightarrow>
                (case canonicalDnsName E rawHostname of
                   Inl e \<Rightarrow> (w, Inl e)
                 | Inr name \<Rightarrow>
                     (case ge_lookup E w name of
                        (w', Inl e) \<Rightarrow> (w', Inl (toNetworkError e ''DNS resolution failed''))
                      | (w', Inr answers) \<Rightarrow> (w', accept_answers (ge_isIPv6 E) answers)))))"

definition validateSmartNoteHttpUrl :: "'w guard_env \<Rightarrow> string \<Rightarrow> 'w \<Rightarrow> 'w \<times> (guard_error + url_parts \<times> string \<times> string list)" where
  "validateSmartNoteHttpUrl E input w =
     (case ge_parseUrl E input of
        None \<Rightarrow> (w, Inl (SecurityError ''invalid URL''))
      | Some url \<Rightarrow>
          if up_protocol url \<noteq> ''https:'' then (w, Inl (SecurityError ''smart-note httpGet only permits https URLs''))
          else if up_username url \<noteq> [] \<or> up_password url \<noteq> [] then (w, Inl (SecurityError ''credentials in URLs are not allowed''))
          else
            (let url' = url\<lparr>up_hash := []\<rparr>; hostname = stripIpv6Brackets (up_hostname url')
             in if hostname = [] then (w, Inl (SecurityError ''URL host is required''))
                else (case resolveHostToValidatedGlobalAddresses E hostname w of
                        (w', Inl e) \<Rightarrow> (w', Inl e)
                      | (w', Inr addresses) \<Rightarrow> (w', Inr (url', hostname, addresses)))))"

section \<open>Fetching\<close>

definition MAX_HTTP_ADDRESS_CANDIDATES :: nat where "MAX_HTTP_ADDRESS_CANDIDATES = 4"
definition DEFAULT_HTTP_BODY_LIMIT_BYTES :: int where "DEFAULT_HTTP_BODY_LIMIT_BYTES = 64 * 1024"

type_synonym http_response = "int \<times> 8 word list"

fun try_candidates ::
  "'w guard_env \<Rightarrow> ('w \<Rightarrow> string \<Rightarrow> 'w \<times> (guard_error + http_response)) \<Rightarrow> string list \<Rightarrow> guard_error \<Rightarrow> 'w
   \<Rightarrow> 'w \<times> (guard_error + http_response)" where
  "try_candidates E request [] lastError w = (w, Inl (toNetworkError lastError ''all validated addresses failed''))"
| "try_candidates E request (candidate # candidates) lastError w =
     (case request w candidate of
        (w', Inr response) \<Rightarrow> (w', Inr response)
      | (w', Inl e) \<Rightarrow>
          if (case e of SecurityError _ \<Rightarrow> True | _ \<Rightarrow> False) \<or> ge_aborted E w' \<or> isTerminalSmartNoteNetworkError e then (w', Inl e)
          else try_candidates E request candidates e w')"

definition guardedSmartNoteHttpGet ::
  "'w guard_env \<Rightarrow> (url_parts \<Rightarrow> string \<Rightarrow> 'w \<Rightarrow> string \<Rightarrow> 'w \<times> (guard_error + http_response)) \<Rightarrow> string \<Rightarrow> 'w
   \<Rightarrow> 'w \<times> (guard_error + http_response)" where
  "guardedSmartNoteHttpGet E requestAddress input w =
     (case validateSmartNoteHttpUrl E input w of
        (w', Inl e) \<Rightarrow> (w', Inl e)
      | (w', Inr (url, hostname, addresses)) \<Rightarrow>
          try_candidates E (requestAddress url hostname) (take MAX_HTTP_ADDRESS_CANDIDATES addresses) (OtherError []) w')"

text \<open>The answers of the pinned lookup hook, whatever name it is asked for.\<close>

definition createPinnedLookup :: "dns_answer \<Rightarrow> string \<Rightarrow> dns_answer list" where
  "createPinnedLookup candidate hostname = [candidate]"

text \<open>The events of one request, in the order in which they arrive, and the first one that settles the promise.\<close>

datatype request_event =
  ResponseData "8 word list"
  | ResponseError guard_error
  | ResponseEnd int
  | RequestTimeout
  | RequestError guard_error
  | RequestAborted

fun settle_request :: "int \<Rightarrow> 8 word list \<Rightarrow> request_event list \<Rightarrow> (guard_error + http_response) option" where
  "settle_request bodyLimitBytes chunks [] = None"
| "settle_request bodyLimitBytes chunks (e # es) =
     (case e of
        ResponseData buf \<Rightarrow>
          if bodyLimitBytes < int (length chunks + length buf)
          then Some (Inl (NetworkError ''SMART_NOTE_NETWORK: response body too large'' True))
          else settle_request bodyLimitBytes (chunks @ buf) es
      | ResponseError err \<Rightarrow> Some (Inl (toNetworkError err ''response failed''))
      | ResponseEnd status \<Rightarrow>
          Some (if 500 \<le> status then Inl (NetworkError (''SMART_NOTE_NETWORK: transient HTTP '' @ show_int status) False)
                else Inr (status, chunks))
      | RequestTimeout \<Rightarrow> Some (Inl (NetworkError ''SMART_NOTE_NETWORK: request timed out'' True))
      | RequestError err \<Rightarrow> Some (Inl (toNetworkError err ''request failed''))
      | RequestAborted \<Rightarrow> Some (Inl (NetworkError ''SMART_NOTE_NETWORK: aborted'' False)))"

definition requestValidatedAddress :: "int \<Rightarrow> request_event list \<Rightarrow> (guard_error + http_response) option" where
  "requestValidatedAddress bodyLimitBytes events = settle_request bodyLimitBytes [] events"

section \<open>Which addresses are global\<close>

text \<open>The blocks in dotted notation, as a reference for the masks and the hexadecimal numbers of the code.\<close>

definition public_octets :: "int \<Rightarrow> int \<Rightarrow> int \<Rightarrow> int \<Rightarrow> bool" where
  "public_octets a b c d \<longleftrightarrow>
     \<not> (a = 0 \<or> a = 10 \<or> a = 127 \<or> 224 \<le> a \<or> (a = 100 \<and> 64 \<le> b \<and> b \<le> 127) \<or> (a = 169 \<and> b = 254)
        \<or> (a = 172 \<and> 16 \<le> b \<and> b \<le> 31) \<or> (a = 192 \<and> b = 0 \<and> (c = 0 \<or> c = 2)) \<or> (a = 192 \<and> b = 168)
        \<or> (a = 192 \<and> b = 88 \<and> c = 99) \<or> (a = 198 \<and> 18 \<le> b \<and> b \<le> 19) \<or> (a = 198 \<and> b = 51 \<and> c = 100)
        \<or> (a = 203 \<and> b = 0 \<and> c = 113))"

lemma masked_eq:
  fixes v b :: "'a::len word"
  shows "v AND NOT (mask n) = b AND NOT (mask n) \<longleftrightarrow> drop_bit n v = drop_bit n b"
proof
  assume "v AND NOT (mask n) = b AND NOT (mask n)"
  then have "drop_bit n (v AND NOT (mask n)) = drop_bit n (b AND NOT (mask n))" by simp
  then show "drop_bit n v = drop_bit n b"
    by (auto simp: bit_eq_iff bit_simps dest: bit_imp_le_length)
next
  assume e: "drop_bit n v = drop_bit n b"
  have "bit v i = bit b i" if "n \<le> i" for i
  proof -
    have "bit (drop_bit n v) (i - n) = bit (drop_bit n b) (i - n)" using e by simp
    then show ?thesis using that by (simp add: bit_simps)
  qed
  then show "v AND NOT (mask n) = b AND NOT (mask n)"
    by (auto simp: bit_eq_iff bit_simps)
qed

lemma uint_take_32: "take_bit 32 (uint w) = uint w" for w :: "32 word"
  using unsigned_less [of w, where 'a = int] by (simp add: take_bit_int_eq_self)

lemma in_range4_div:
  assumes "0 < bits"
  shows "in_range4 v (b, bits) \<longleftrightarrow> uint v div 2 ^ (32 - bits) = uint b div 2 ^ (32 - bits)"
proof -
  have "in_range4 v (b, bits) \<longleftrightarrow> drop_bit (32 - bits) v = drop_bit (32 - bits) b"
    using assms by (simp add: in_range4_def address_mask_def masked_eq)
  also have "\<dots> \<longleftrightarrow> uint (drop_bit (32 - bits) v) = uint (drop_bit (32 - bits) b)"
    by (simp add: word_uint_eq_iff)
  finally show ?thesis
    by (simp only: unsigned_drop_bit_eq uint_take_32) (simp add: uint_take_32 drop_bit_eq_div [where 'a = int])
qed

lemma uint_octets_value:
  assumes "0 \<le> a" "a \<le> 255" "0 \<le> b" "b \<le> 255" "0 \<le> c" "c \<le> 255" "0 \<le> d" "d \<le> 255"
  shows "uint (octets_value a b c d) = a * 16777216 + b * 65536 + c * 256 + d"
proof -
  have "octets_value a b c d = of_int (a * 16777216 + b * 65536 + c * 256 + d)"
    by (simp add: octets_value_def push_bit_eq_mult)
  then have "uint (octets_value a b c d) = take_bit 32 (a * 16777216 + b * 65536 + c * 256 + d)"
    by (simp only: unsigned_of_int len_of_numeral_defs) simp
  with assms show ?thesis by (simp add: take_bit_eq_mod)
qed

lemma blocks_of_octets:
  fixes a b c d :: int
  assumes "0 \<le> a" "a \<le> 255" "0 \<le> b" "b \<le> 255" "0 \<le> c" "c \<le> 255" "0 \<le> d" "d \<le> 255"
  defines "n \<equiv> a * 16777216 + b * 65536 + c * 256 + d"
  shows "n div 16777216 = a" "n div 65536 = a * 256 + b" "n div 256 = a * 65536 + b * 256 + c"
    "n div 4194304 = a * 4 + b div 64" "n div 1048576 = a * 16 + b div 16" "n div 131072 = a * 128 + b div 2"
    "n div 268435456 = a div 16"
  using assms(1-8) unfolding n_def by linarith+

lemma digit_split: "a * n + r = k \<longleftrightarrow> a = k div n \<and> r = k mod n" if "0 \<le> r" "r < n" for a n r k :: int
  using that by (auto simp: div_mult_mod_eq)

lemma block_equations:
  fixes a b c :: int
  assumes "0 \<le> a" "a \<le> 255" "0 \<le> b" "b \<le> 255" "0 \<le> c" "c \<le> 255"
  shows "a * 4 + b div 64 = 401 \<longleftrightarrow> a = 100 \<and> 64 \<le> b \<and> b \<le> 127"
    "a * 256 + b = 43518 \<longleftrightarrow> a = 169 \<and> b = 254"
    "a * 16 + b div 16 = 2753 \<longleftrightarrow> a = 172 \<and> 16 \<le> b \<and> b \<le> 31"
    "a * 65536 + b * 256 + c = 12582912 \<longleftrightarrow> a = 192 \<and> b = 0 \<and> c = 0"
    "a * 65536 + b * 256 + c = 12582914 \<longleftrightarrow> a = 192 \<and> b = 0 \<and> c = 2"
    "a * 256 + b = 49320 \<longleftrightarrow> a = 192 \<and> b = 168"
    "a * 65536 + b * 256 + c = 12605539 \<longleftrightarrow> a = 192 \<and> b = 88 \<and> c = 99"
    "a * 128 + b div 2 = 25353 \<longleftrightarrow> a = 198 \<and> 18 \<le> b \<and> b \<le> 19"
    "a * 65536 + b * 256 + c = 12989284 \<longleftrightarrow> a = 198 \<and> b = 51 \<and> c = 100"
    "a * 65536 + b * 256 + c = 13303921 \<longleftrightarrow> a = 203 \<and> b = 0 \<and> c = 113"
    "a div 16 = 14 \<longleftrightarrow> 224 \<le> a \<and> a \<le> 239"
    "a div 16 = 15 \<longleftrightarrow> 240 \<le> a"
proof -
  have d: "b div 64 = 1 \<longleftrightarrow> 64 \<le> b \<and> b \<le> 127" "b div 16 = 1 \<longleftrightarrow> 16 \<le> b \<and> b \<le> 31" "b div 2 = 9 \<longleftrightarrow> 18 \<le> b \<and> b \<le> 19"
    by linarith+
  have three: "a * 65536 + b * 256 + c = k \<longleftrightarrow> a = k div 65536 \<and> b = k mod 65536 div 256 \<and> c = k mod 65536 mod 256" for k
    using digit_split [of "b * 256 + c" 65536 a k] digit_split [of c 256 b "k mod 65536"] assms by (simp add: add.assoc)
  show "a * 4 + b div 64 = 401 \<longleftrightarrow> a = 100 \<and> 64 \<le> b \<and> b \<le> 127"
    using assms digit_split [of "b div 64" 4 a 401] d by simp
  show "a * 16 + b div 16 = 2753 \<longleftrightarrow> a = 172 \<and> 16 \<le> b \<and> b \<le> 31"
    using assms digit_split [of "b div 16" 16 a 2753] d by simp
  show "a * 128 + b div 2 = 25353 \<longleftrightarrow> a = 198 \<and> 18 \<le> b \<and> b \<le> 19"
    using assms digit_split [of "b div 2" 128 a 25353] d by simp
  show "a * 256 + b = 43518 \<longleftrightarrow> a = 169 \<and> b = 254" "a * 256 + b = 49320 \<longleftrightarrow> a = 192 \<and> b = 168"
    using assms digit_split [of b 256 a] by simp_all
  show "a div 16 = 14 \<longleftrightarrow> 224 \<le> a \<and> a \<le> 239" "a div 16 = 15 \<longleftrightarrow> 240 \<le> a"
    using assms(2) by linarith+
  show "a * 65536 + b * 256 + c = 12582912 \<longleftrightarrow> a = 192 \<and> b = 0 \<and> c = 0"
    "a * 65536 + b * 256 + c = 12582914 \<longleftrightarrow> a = 192 \<and> b = 0 \<and> c = 2"
    "a * 65536 + b * 256 + c = 12605539 \<longleftrightarrow> a = 192 \<and> b = 88 \<and> c = 99"
    "a * 65536 + b * 256 + c = 12989284 \<longleftrightarrow> a = 198 \<and> b = 51 \<and> c = 100"
    "a * 65536 + b * 256 + c = 13303921 \<longleftrightarrow> a = 203 \<and> b = 0 \<and> c = 113"
    by (simp_all add: three)
qed

lemma global_octets:
  assumes "0 \<le> a" "a \<le> 255" "0 \<le> b" "b \<le> 255" "0 \<le> c" "c \<le> 255" "0 \<le> d" "d \<le> 255"
  shows "isGlobalIpv4 (octets_value a b c d) \<longleftrightarrow> public_octets a b c d"
proof -
  let ?v = "octets_value a b c d"
  note eqs = uint_octets_value [OF assms] blocks_of_octets [OF assms] block_equations [OF assms(1-6)]
  have multi: "in_range4 ?v (0xE0000000, 4) \<or> in_range4 ?v (0xF0000000, 4) \<longleftrightarrow> 224 \<le> a"
    using assms(1,2) block_equations(11,12) [OF assms(1-6)] by (auto simp: in_range4_div eqs(1-8))
  have ones: "?v = 0xFFFFFFFF \<Longrightarrow> 224 \<le> a"
    using assms by (simp add: word_uint_eq_iff eqs(1))
  show ?thesis
    unfolding isGlobalIpv4_def reserved4_def public_octets_def
    using multi ones by (simp add: in_range4_div eqs(1-18)) blast
qed

section \<open>Only public addresses are requested\<close>

definition public_text :: "string \<Rightarrow> bool" where
  "public_text s \<longleftrightarrow> isIPv4 s \<and>
     (case map digits_value (split_on CHR ''.'' s) of [a, b, c, d] \<Rightarrow> public_octets a b c d | _ \<Rightarrow> False)"

lemma js_trim_digits:
  assumes "all_digits p"
  shows "js_trim p = p"
proof -
  have d: "\<not> is_ws c" if "c \<in> set p" for c
    using assms that by (auto simp: all_digits_def list_all_iff is_digit_def is_ws_def)
  have "dropWhile is_ws q = q" if "set q = set p" for q
    using d that by (cases q) auto
  then show ?thesis by (simp add: js_trim_def)
qed

lemma number_of_octet:
  assumes "octet_text p"
  shows "number_of_part p = Some (digits_value p) \<and> 0 \<le> digits_value p \<and> digits_value p \<le> 255"
  using assms digits_value_nonneg [of p] js_trim_digits [of p]
  by (auto simp: octet_text_def number_of_part_def all_digits_def)

lemma split4: "length xs = 4 \<Longrightarrow> \<exists>a b c d. xs = [a, b, c, d]"
  by (auto simp: numeral_eq_Suc length_Suc_conv)

lemma ipv4_text_value:
  assumes "isIPv4 s"
  obtains a b c d where "map digits_value (split_on CHR ''.'' s) = [a, b, c, d]" "ipv4ToNumber s = Some (octets_value a b c d)"
    "0 \<le> a" "a \<le> 255" "0 \<le> b" "b \<le> 255" "0 \<le> c" "c \<le> 255" "0 \<le> d" "d \<le> 255"
proof -
  obtain p q r t where parts: "split_on CHR ''.'' s = [p, q, r, t]" and octets: "list_all octet_text [p, q, r, t]"
    using assms split4 [of "split_on CHR ''.'' s"] by (auto simp: isIPv4_def Let_def)
  have "ipv4ToNumber s = Some (octets_value (digits_value p) (digits_value q) (digits_value r) (digits_value t))"
    using octets number_of_octet by (simp add: ipv4ToNumber_def parts)
  with octets number_of_octet that show ?thesis by (simp add: parts)
qed

lemma global_text_public:
  assumes "isIPv4 s" "ipv4ToNumber s = Some v" "isGlobalIpv4 v"
  shows "public_text s"
  using assms(1)
proof (rule ipv4_text_value)
  fix a b c d
  assume a: "map digits_value (split_on CHR ''.'' s) = [a, b, c, d]" "ipv4ToNumber s = Some (octets_value a b c d)"
    and r: "0 \<le> a" "a \<le> 255" "0 \<le> b" "b \<le> 255" "0 \<le> c" "c \<le> 255" "0 \<le> d" "d \<le> 255"
  from assms(2,3) a(2) have "public_octets a b c d" using global_octets [OF r] by simp
  with assms(1) a(1) show ?thesis by (simp add: public_text_def)
qed

lemma parsed_ipv4:
  assumes "parseIpLiteral isIPv6 h = Inr (Some (Ipv4 address v))"
  shows "isIPv4 address \<and> ipv4ToNumber address = Some v"
  using assms by (auto simp: parseIpLiteral_def Let_def split: if_splits option.splits sum.splits)

lemma classified_public:
  assumes "classify isIPv6 xs = Inr cs"
  shows "list_all (\<lambda>c. snd c \<longrightarrow> public_text (fst c)) cs"
  using assms
proof (induction xs arbitrary: cs)
  case (Cons x xs)
  then show ?case
    using parsed_ipv4 global_text_public
    by (auto simp: isGlobalAddress_def split: sum.splits option.splits ip_literal.splits)
qed simp

lemma accepted_public:
  assumes "accept_answers isIPv6 xs = Inr as"
  shows "list_all public_text as"
  using assms classified_public
  by (fastforce simp: accept_answers_def list_all_iff list_ex_iff split: if_splits sum.splits)

lemma resolved_public:
  assumes "resolveHostToValidatedGlobalAddresses E h w = (w', Inr as)"
  shows "list_all public_text as"
  using assms accepted_public
  by (auto simp: resolveHostToValidatedGlobalAddresses_def
      split: if_splits sum.splits option.splits ip_literal.splits prod.splits)

lemma validated_public:
  assumes "validateSmartNoteHttpUrl E input w = (w', Inr (url, hostname, addresses))"
  shows "list_all public_text addresses"
  using assms resolved_public
  by (auto simp: validateSmartNoteHttpUrl_def Let_def split: if_splits sum.splits option.splits prod.splits)

text \<open>The same run in a world that also logs the addresses that were requested.\<close>

definition logged_env :: "'w guard_env \<Rightarrow> ('w \<times> string list) guard_env" where
  "logged_env E =
     \<lparr>ge_aborted = (\<lambda>w. ge_aborted E (fst w)),
      ge_lookup = (\<lambda>w h. case ge_lookup E (fst w) h of (w', r) \<Rightarrow> ((w', snd w), r)),
      ge_isIPv6 = ge_isIPv6 E, ge_domainToASCII = ge_domainToASCII E, ge_parseUrl = ge_parseUrl E\<rparr>"

definition logged_request ::
  "(url_parts \<Rightarrow> string \<Rightarrow> 'w \<Rightarrow> string \<Rightarrow> 'w \<times> (guard_error + http_response))
   \<Rightarrow> url_parts \<Rightarrow> string \<Rightarrow> 'w \<times> string list \<Rightarrow> string \<Rightarrow> ('w \<times> string list) \<times> (guard_error + http_response)" where
  "logged_request R url hostname w a = (case R url hostname (fst w) a of (w', r) \<Rightarrow> ((w', snd w @ [a]), r))"

definition requested ::
  "'w guard_env \<Rightarrow> (url_parts \<Rightarrow> string \<Rightarrow> 'w \<Rightarrow> string \<Rightarrow> 'w \<times> (guard_error + http_response)) \<Rightarrow> string \<Rightarrow> 'w \<Rightarrow> string list" where
  "requested E R input w = snd (fst (guardedSmartNoteHttpGet (logged_env E) (logged_request R) input (w, [])))"

lemma try_candidates_logged:
  "\<exists>k. try_candidates (logged_env E) (logged_request R url hostname) as e (w, l)
     = (case try_candidates E (R url hostname) as e w of (w', r) \<Rightarrow> ((w', l @ take k as), r))"
proof (induction as arbitrary: e w l)
  case (Cons a as)
  obtain w' r where req: "R url hostname w a = (w', r)" by fastforce
  show ?case
  proof (cases "case r of Inr _ \<Rightarrow> True | Inl e' \<Rightarrow> (case e' of SecurityError _ \<Rightarrow> True | _ \<Rightarrow> False)
      \<or> ge_aborted E w' \<or> isTerminalSmartNoteNetworkError e'")
    case True
    with req have "try_candidates (logged_env E) (logged_request R url hostname) (a # as) e (w, l)
        = (case try_candidates E (R url hostname) (a # as) e w of (w', r) \<Rightarrow> ((w', l @ take 1 (a # as)), r))"
      by (auto simp: logged_request_def logged_env_def split: sum.splits)
    then show ?thesis by blast
  next
    case False
    then obtain e' where e': "r = Inl e'" by (cases r) auto
    obtain k where "try_candidates (logged_env E) (logged_request R url hostname) as e' (w', l @ [a])
        = (case try_candidates E (R url hostname) as e' w' of (w', r) \<Rightarrow> ((w', (l @ [a]) @ take k as), r))"
      using Cons.IH by blast
    with req e' False have "try_candidates (logged_env E) (logged_request R url hostname) (a # as) e (w, l)
        = (case try_candidates E (R url hostname) (a # as) e w of (w', r) \<Rightarrow> ((w', l @ take (Suc k) (a # as)), r))"
      by (simp add: logged_request_def) (simp add: logged_env_def)
    then show ?thesis by blast
  qed
qed simp

lemma resolve_logged:
  "resolveHostToValidatedGlobalAddresses (logged_env E) h (w, l)
     = (case resolveHostToValidatedGlobalAddresses E h w of (w', r) \<Rightarrow> ((w', l), r))"
  by (simp add: resolveHostToValidatedGlobalAddresses_def logged_env_def canonicalDnsName_def
      split: sum.splits option.splits ip_literal.splits prod.splits)

lemma validate_logged:
  "validateSmartNoteHttpUrl (logged_env E) input (w, l)
     = (case validateSmartNoteHttpUrl E input w of (w', r) \<Rightarrow> ((w', l), r))"
proof -
  have p: "ge_parseUrl (logged_env E) = ge_parseUrl E" by (simp add: logged_env_def)
  show ?thesis
    by (simp add: validateSmartNoteHttpUrl_def resolve_logged p Let_def split: sum.splits option.splits prod.splits)
qed

lemma guarded_get_logged:
  "\<exists>as. guardedSmartNoteHttpGet (logged_env E) (logged_request R) input (w, [])
       = (case guardedSmartNoteHttpGet E R input w of (w', r) \<Rightarrow> ((w', as), r))
     \<and> list_all public_text as \<and> length as \<le> MAX_HTTP_ADDRESS_CANDIDATES"
proof (cases "validateSmartNoteHttpUrl E input w")
  case (Pair w' r)
  show ?thesis
  proof (cases r)
    case (Inl e)
    with Pair show ?thesis by (simp add: guardedSmartNoteHttpGet_def validate_logged)
  next
    case (Inr v)
    obtain url hostname addresses where v: "v = (url, hostname, addresses)" by (cases v)
    let ?as = "take MAX_HTTP_ADDRESS_CANDIDATES addresses"
    obtain k where k: "try_candidates (logged_env E) (logged_request R url hostname) ?as (OtherError []) (w', [])
        = (case try_candidates E (R url hostname) ?as (OtherError []) w' of (w', r) \<Rightarrow> ((w', [] @ take k ?as), r))"
      using try_candidates_logged [of E R url hostname ?as "OtherError []" w' "[]"] by blast
    have "list_all public_text (take k ?as)"
      using validated_public [of E input w w' url hostname addresses] Pair Inr v
      by (auto simp: list_all_iff dest!: in_set_takeD)
    with k Pair Inr v show ?thesis
      by (intro exI [of _ "take k ?as"]) (simp add: guardedSmartNoteHttpGet_def validate_logged)
  qed
qed

text \<open>
  C30: the guard's requests. Whatever the resolver answers, whatever the requests return and whatever the parsers of
  URLs, domains and IPv6 texts accept, every address that the guarded fetch requests is a dotted IPv4 text whose
  octets lie outside the private, local, shared, test and multicast blocks, and it requests at most four of them.
  (Logging does not change the run.)
\<close>

theorem only_public_addresses_are_requested:
  "list_all public_text (requested E R input w) \<and> length (requested E R input w) \<le> 4
   \<and> map_prod fst id (guardedSmartNoteHttpGet (logged_env E) (logged_request R) input (w, []))
     = guardedSmartNoteHttpGet E R input w"
proof -
  obtain as where "guardedSmartNoteHttpGet (logged_env E) (logged_request R) input (w, [])
       = (case guardedSmartNoteHttpGet E R input w of (w', r) \<Rightarrow> ((w', as), r))"
     "list_all public_text as" "length as \<le> MAX_HTTP_ADDRESS_CANDIDATES"
    using guarded_get_logged [of E R input w] by blast
  then show ?thesis
    by (simp add: requested_def MAX_HTTP_ADDRESS_CANDIDATES_def split: prod.splits)
qed

text \<open>
  C31: the blocks of the guard. For four octets, the masked comparisons of the code on 32-bit words with hexadecimal
  base addresses decide exactly the blocks of dotted notation: 0/8, 10/8, 100.64/10, 127/8, 169.254/16, 172.16/12,
  192.0.0/24, 192.0.2/24, 192.88.99/24, 192.168/16, 198.18/15, 198.51.100/24, 203.0.113/24 and everything from 224 on.
\<close>

theorem global_ipv4_is_public:
  assumes "0 \<le> a" "a \<le> 255" "0 \<le> b" "b \<le> 255" "0 \<le> c" "c \<le> 255" "0 \<le> d" "d \<le> 255"
  shows "isGlobalIpv4 (octets_value a b c d) \<longleftrightarrow> public_octets a b c d"
  by (rule global_octets [OF assms])

theorem global_ipv4_is_public_witness:
  "isGlobalIpv4 (octets_value 8 8 8 8) \<and> \<not> isGlobalIpv4 (octets_value 172 31 255 254) \<and> isGlobalIpv4 (octets_value 172 32 0 1)
   \<and> \<not> isGlobalIpv4 (octets_value 100 127 0 1) \<and> \<not> isGlobalIpv4 (octets_value 198 19 0 1)"
  using global_ipv4_is_public [of 8 8 8 8] global_ipv4_is_public [of 172 31 255 254] global_ipv4_is_public [of 172 32 0 1]
    global_ipv4_is_public [of 100 127 0 1] global_ipv4_is_public [of 198 19 0 1]
  by (simp add: public_octets_def)

text \<open>The events of a request: an answer that is delivered fits the limit and is not a server error.\<close>

lemma settled_response:
  assumes "settle_request limit chunks es = Some (Inr (status, body))" "int (length chunks) \<le> limit"
  shows "int (length body) \<le> limit \<and> status < 500"
  using assms
  by (induction limit chunks es rule: settle_request.induct) (auto split: request_event.splits if_splits)

text \<open>The IPv6 blocks outside \<open>2000::/3\<close> that the code lists after that test exclude nothing further.\<close>

lemma in_range6_prefix:
  assumes "in_range6 v (b, n)" "maskBig n AND maskBig 3 = maskBig 3"
  shows "v AND maskBig 3 = b AND maskBig 3"
proof -
  have "v AND maskBig 3 = (v AND maskBig n) AND maskBig 3" using assms(2) by (simp add: and.assoc)
  also have "\<dots> = (b AND maskBig n) AND maskBig 3" using assms(1) by (simp add: in_range6_def)
  finally show ?thesis using assms(2) by (simp add: and.assoc)
qed

lemma prefix_masks: "list_all (\<lambda>n. maskBig n AND maskBig 3 = maskBig 3) [96, 48, 64, 7, 10, 8]"
  by (simp add: maskBig_def)

lemma ipv6_blocks_without_effect:
  "isGlobalIpv6 v \<longleftrightarrow> in_range6 v (0x20000000000000000000000000000000, 3) \<and> \<not> list_ex (in_range6 v) (take 3 reserved6)"
proof -
  have "\<not> list_ex (in_range6 v) (drop 3 reserved6) \<and> v \<noteq> 0 \<and> v \<noteq> 1"
    if "in_range6 v (0x20000000000000000000000000000000, 3)"
  proof -
    have v: "v AND maskBig 3 = 0x20000000000000000000000000000000"
      using that by (simp add: in_range6_def) (simp add: maskBig_def)
    show ?thesis
      using prefix_masks in_range6_prefix v by (auto simp: reserved6_def) (auto simp: maskBig_def)
  qed
  then show ?thesis by (auto simp: isGlobalIpv6_def reserved6_def)
qed

end
