(* ===== verification/Compartment_Trigger.thy ===== *)
theory Compartment_Trigger
  imports Drain_Quota Tag_Queries Session_Chunk
begin

text \<open>
  When the historian is started (\<open>hooks/magic-context/compartment-trigger.ts\<close>): the tail of the session in memory with its
  absolute ordinals (\<open>read-session-raw.ts\<close>), the usage that is left after the queued drops, the inspection of the tail,
  which resolves the boundary and reads a chunk, and the decision. The reads of the session's messages, the tables and
  the reads that fail are the environment of a pass.
\<close>

section \<open>The tail in memory\<close>

record message_view =
  mv_id :: string
  mv_role :: string
  mv_parts :: "json list"
  mv_summary :: bool
  mv_finish :: "string option"

record in_memory_tail =
  it_messages :: "raw_message list"
  it_absoluteMessageCount :: int

text \<open>\<open>extractInMemoryMessageViews\<close> on \<open>info\<close> and \<open>parts\<close>; an absent \<open>info\<close> is the empty object.\<close>

definition str_or :: "string \<Rightarrow> json option \<Rightarrow> string" where
  "str_or d v = (case v of Some (JStr s) \<Rightarrow> s | _ \<Rightarrow> d)"

definition message_view_of :: "json \<times> json \<Rightarrow> message_view" where
  "message_view_of m =
     \<lparr>mv_id = str_or [] (get_field (fst m) ''id''), mv_role = str_or ''unknown'' (get_field (fst m) ''role''),
      mv_parts = (case snd m of JArr ps \<Rightarrow> ps | _ \<Rightarrow> []),
      mv_summary = (get_field (fst m) ''summary'' = Some (JBool True)),
      mv_finish = (case get_field (fst m) ''finish'' of Some (JStr s) \<Rightarrow> Some s | _ \<Rightarrow> None)\<rparr>"

definition extractInMemoryMessageViews :: "(json \<times> json) list \<Rightarrow> message_view list" where
  "extractInMemoryMessageViews messages = map message_view_of messages"

text \<open>Consecutive ordinals; a view without id takes one and leaves no message. The second result is the next ordinal.\<close>

fun number_views :: "int \<Rightarrow> message_view list \<Rightarrow> raw_message list \<times> int" where
  "number_views ord [] = ([], ord)"
| "number_views ord (m # ms) =
     (let (out, next_ord) = number_views (ord + 1) ms
      in (if mv_id m = [] then out
          else \<lparr>rm_ordinal = ord, rm_id = mv_id m, rm_role = mv_role m, rm_parts = mv_parts m\<rparr> # out, next_ord))"

definition is_summary :: "message_view \<Rightarrow> bool" where
  "is_summary m \<longleftrightarrow> mv_summary m \<and> mv_finish m = Some ''stop''"

definition non_empty_id :: "string option \<Rightarrow> string option" where
  "non_empty_id x = (if x = Some [] then None else x)"

text \<open>The messages with ordinals, the count, and whether the anchor was found.\<close>

definition buildInMemoryTailRawMessages :: "message_view list \<Rightarrow> int \<Rightarrow> string option \<Rightarrow> (in_memory_tail \<times> bool) option" where
  "buildInMemoryTailRawMessages messages lastCompartmentEnd anchorMessageId =
     (let filtered = filter (\<lambda>m. \<not> is_summary m) messages
      in if filtered = [] then None
         else
           (let anchored = (case non_empty_id anchorMessageId of None \<Rightarrow> [] | Some a \<Rightarrow> dropWhile (\<lambda>m. mv_id m \<noteq> a) filtered);
                (start, base) = (if anchored \<noteq> [] then (anchored, lastCompartmentEnd) else (filtered, max 1 (lastCompartmentEnd + 1)));
                (out, next_ord) = number_views base start
            in Some (\<lparr>it_messages = out, it_absoluteMessageCount = max 0 (next_ord - 1)\<rparr>, anchored \<noteq> [])))"

definition buildTriggerInMemoryTail :: "int \<Rightarrow> string option \<Rightarrow> message_view list \<Rightarrow> in_memory_tail option" where
  "buildTriggerInMemoryTail lastCompartmentEnd anchorMessageId messages =
     (if messages = [] then None
      else if 1 \<le> lastCompartmentEnd \<and> non_empty_id anchorMessageId = None then None
      else (case buildInMemoryTailRawMessages messages lastCompartmentEnd anchorMessageId of
              None \<Rightarrow> None
            | Some (built, anchorFound) \<Rightarrow>
                if 1 \<le> lastCompartmentEnd \<and> \<not> anchorFound then None else Some built))"

section \<open>The usage after the queued drops\<close>

definition PROACTIVE_TRIGGER_OFFSET_PERCENTAGE :: real where [config_simps]: "PROACTIVE_TRIGGER_OFFSET_PERCENTAGE = 2"
definition POST_DROP_TARGET_RATIO :: real where [config_simps]: "POST_DROP_TARGET_RATIO = 75/100"
definition MIN_PROACTIVE_TAIL_TOKEN_ESTIMATE :: int where [config_simps]: "MIN_PROACTIVE_TAIL_TOKEN_ESTIMATE = 6000"
definition MIN_PROACTIVE_TAIL_MESSAGE_COUNT :: nat where [config_simps]: "MIN_PROACTIVE_TAIL_MESSAGE_COUNT = 12"
definition DEFAULT_MIN_COMMIT_CLUSTERS_FOR_TRIGGER :: int where [config_simps]: "DEFAULT_MIN_COMMIT_CLUSTERS_FOR_TRIGGER = 3"
definition TAIL_SIZE_TRIGGER_MULTIPLIER :: int where [config_simps]: "TAIL_SIZE_TRIGGER_MULTIPLIER = 3"
definition BLOCK_UNTIL_DONE_PERCENTAGE :: real where [config_simps]: "BLOCK_UNTIL_DONE_PERCENTAGE = 95"

definition getProactiveCompartmentTriggerPercentage :: "real \<Rightarrow> real" where
  "getProactiveCompartmentTriggerPercentage executeThresholdPercentage =
     max 0 (executeThresholdPercentage - PROACTIVE_TRIGGER_OFFSET_PERCENTAGE)"

definition tag_bytes :: "stored_tag \<Rightarrow> int" where
  "tag_bytes t = tg_byteSize t + tg_reasoningByteSize t"

definition pending_drop_numbers :: "tags_db \<Rightarrow> string \<Rightarrow> int list" where
  "pending_drop_numbers db sessionId =
     map qo_tagId (filter (\<lambda>q. qo_sessionId q = sessionId \<and> qo_operation q = ''drop'') (tb_ops db))"

text \<open>The reasoning of a tag that a pass would clear and that no queued drop takes away.\<close>

definition clearable_reasoning :: "int list \<Rightarrow> int \<Rightarrow> int \<Rightarrow> stored_tag \<Rightarrow> bool" where
  "clearable_reasoning pending cutoff cleared t \<longleftrightarrow>
     tg_type t = MessageTag \<and> tg_tagNumber t \<notin> set pending \<and> cleared < tg_tagNumber t \<and> tg_tagNumber t \<le> cutoff
     \<and> 0 < tg_reasoningByteSize t"

definition droppable_bytes :: "int list \<Rightarrow> stored_tag list \<Rightarrow> int option \<Rightarrow> int option \<Rightarrow> bool \<Rightarrow> int" where
  "droppable_bytes pending activeTags clearReasoningAge clearedReasoningThroughTag canClearReasoning =
     sum_list (map tag_bytes (filter (\<lambda>t. tg_tagNumber t \<in> set pending) activeTags))
     + (case (canClearReasoning, clearReasoningAge, clearedReasoningThroughTag) of
          (True, Some age, Some cleared) \<Rightarrow>
            (let maxTag = fold (\<lambda>t m. max m (tg_tagNumber t)) activeTags 0
             in sum_list (map tg_reasoningByteSize (filter (clearable_reasoning pending (maxTag - age) cleared) activeTags)))
        | _ \<Rightarrow> 0)"

definition estimateProjectedPostDropPercentage ::
  "int list \<Rightarrow> real \<Rightarrow> stored_tag list \<Rightarrow> int option \<Rightarrow> int option \<Rightarrow> bool \<Rightarrow> real option" where
  "estimateProjectedPostDropPercentage pending percentage activeTags clearReasoningAge clearedReasoningThroughTag canClearReasoning =
     (let totalActiveBytes = sum_list (map tag_bytes activeTags);
          droppable = droppable_bytes pending activeTags clearReasoningAge clearedReasoningThroughTag canClearReasoning
      in if totalActiveBytes = 0 then None
         else if droppable = 0 then None
         else Some (percentage * (1 - min (of_int droppable / of_int totalActiveBytes) 1)))"

section \<open>The environment of a pass\<close>

text \<open>
  \<open>te_fullRead\<close> are all messages of the session, \<open>te_tailRead\<close> is what the database returns from the anchor on. A fault
  is a read that throws: of the session's row, in the cheap gate, or in the inspection before or after the boundary's
  context was written.
\<close>

datatype inspection_fault = NoFault | FaultBeforeResolve | FaultAfterResolve

record 'a trigger_env =
  te_rt :: "'a chunk_runtime_scheme"
  te_tags :: tags_db
  te_compartmentEnd :: int
  te_compartmentEndId :: "string option"
  te_hasProvider :: bool
  te_fullRead :: "raw_message list"
  te_tailRead :: "in_memory_tail option"
  te_now :: int
  te_metaFails :: bool
  te_gateFails :: bool
  te_fault :: inspection_fault

datatype tail_source = NoTail | TailSource in_memory_tail | LazyTail "in_memory_tail option"

record trigger_request =
  tq_sessionId :: string
  tq_compartmentInProgress :: bool
  tq_clearedReasoningThroughTag :: "int option"
  tq_usage :: context_usage
  tq_executeThresholdPercentage :: real
  tq_triggerBudget :: int
  tq_clearReasoningAge :: "int option"
  tq_commitClusterTrigger :: "(bool \<times> int) option"
  tq_preloadedActiveTags :: "stored_tag list option"
  tq_contextLimit :: "real option"
  tq_inMemoryTail :: tail_source
  tq_taggerFloorOverride :: "int option"
  tq_canClearReasoning :: "bool option"
  tq_providerID :: "string option"

datatype trigger_reason = ProjectedHeadroom | ForceBand | CommitClusters | TailSize

datatype trigger_result = NoFire | Fire trigger_reason "boundary_snapshot option"

definition policy_version :: "meta_table \<Rightarrow> string \<Rightarrow> int" where
  "policy_version db sessionId = pm_protectedTailPolicyVersion (loadProtectedTailMeta db sessionId)"

definition trigger_runtime :: "'a trigger_env \<Rightarrow> runtime" where
  "trigger_runtime E = runtime.truncate (te_rt E)"

section \<open>The cheap gate\<close>

definition CONTENT_TAG_OWNER_SUFFIX :: regex where
  "CONTENT_TAG_OWNER_SUFFIX = Seq (lit '':'') (Seq (Alt (lit ''p'') (lit ''file'')) (Seq (some1 digit) TextEnd))"

definition tagOwnerMessageId :: "tag_row \<Rightarrow> string" where
  "tagOwnerMessageId r =
     (if tr_type r = ToolTag then (case tr_owner r of None \<Rightarrow> tr_messageId r | Some ow \<Rightarrow> ow)
      else replaceFirst CONTENT_TAG_OWNER_SUFFIX (\<lambda>_. []) (tr_messageId r))"

definition getActiveOrDroppedTagOwnerMessageIds :: "tags_db \<Rightarrow> string \<Rightarrow> int \<Rightarrow> string set" where
  "getActiveOrDroppedTagOwnerMessageIds db sessionId load_floor =
     set (map tagOwnerMessageId
       (filter (\<lambda>r. tr_status r \<in> {Active, Dropped} \<and> above_floor load_floor r) (session_rows sessionId db)))"

definition estimateUntaggedInMemoryTailUpperBound :: "'a trigger_env \<Rightarrow> string \<Rightarrow> in_memory_tail \<Rightarrow> int \<Rightarrow> int" where
  "estimateUntaggedInMemoryTailUpperBound E sessionId tail taggerFloor =
     sum_list (map (\<lambda>m. tb_total (estimateTrueRawMessageTokens (trigger_runtime E) m))
       (filter (\<lambda>m. te_compartmentEnd E < rm_ordinal m
          \<and> rm_id m \<notin> getActiveOrDroppedTagOwnerMessageIds (te_tags E) sessionId taggerFloor) (it_messages tail)))"

text \<open>The tail that is given as a value, where the row of the session allows it.\<close>

definition eager_tail :: "'a trigger_env \<Rightarrow> meta_table \<Rightarrow> trigger_request \<Rightarrow> in_memory_tail option" where
  "eager_tail E db q =
     (case tq_inMemoryTail q of
        TailSource t \<Rightarrow> if te_metaFails E \<or> policy_version db (tq_sessionId q) < 3 then None else Some t
      | _ \<Rightarrow> None)"

definition trigger_floor :: "'a trigger_env \<Rightarrow> trigger_request \<Rightarrow> in_memory_tail option \<Rightarrow> int" where
  "trigger_floor E q eager =
     (case tq_taggerFloorOverride q of
        Some f \<Rightarrow> if 0 < f then f
           else (case eager of Some t \<Rightarrow> deriveTagLoadFloor (te_tags E) (tq_sessionId q) (map (Some \<circ> rm_id) (it_messages t)) | None \<Rightarrow> 0)
      | None \<Rightarrow> (case eager of Some t \<Rightarrow> deriveTagLoadFloor (te_tags E) (tq_sessionId q) (map (Some \<circ> rm_id) (it_messages t)) | None \<Rightarrow> 0))"

definition is_lazy :: "tail_source \<Rightarrow> bool" where
  "is_lazy s = (case s of LazyTail _ \<Rightarrow> True | _ \<Rightarrow> False)"

definition cheap_gate_skips :: "'a trigger_env \<Rightarrow> trigger_request \<Rightarrow> in_memory_tail option \<Rightarrow> int \<Rightarrow> bool" where
  "cheap_gate_skips E q eager taggerFloor \<longleftrightarrow>
     cu_percentage (tq_usage q) < getProactiveCompartmentTriggerPercentage (tq_executeThresholdPercentage q) \<and> \<not> te_gateFails E \<and>
     (let boundFloor = (if eager \<noteq> None \<or> is_lazy (tq_inMemoryTail q) then taggerFloor else 0);
          (persistedBound, nullCount) = getTriggerTagTokenUpperBound (te_tags E) (tq_sessionId q) boundFloor;
          untaggedUpperBound =
            (case eager of Some t \<Rightarrow> estimateUntaggedInMemoryTailUpperBound E (tq_sessionId q) t taggerFloor | None \<Rightarrow> 0)
      in nullCount = 0 \<and> persistedBound + untaggedUpperBound < tq_triggerBudget q)"

definition inspected_memory :: "'a trigger_env \<Rightarrow> meta_table \<Rightarrow> trigger_request \<Rightarrow> in_memory_tail option \<Rightarrow> in_memory_tail option" where
  "inspected_memory E db q eager =
     (case tq_inMemoryTail q of
        LazyTail t \<Rightarrow> if te_metaFails E \<or> policy_version db (tq_sessionId q) < 3 then None else t
      | _ \<Rightarrow> eager)"

section \<open>The inspection\<close>

record tail_info =
  tl_nextStartOrdinal :: int
  tl_hasNewRawHistory :: bool
  tl_hasProtectedEligibleHead :: bool
  tl_isMeaningful :: bool
  tl_tokenEstimate :: int
  tl_chunkHasMore :: bool
  tl_trueRawEligibleTokens :: "int option"
  tl_commitClusterCount :: int
  tl_boundarySnapshot :: "boundary_snapshot option"

definition TAIL_INFO_DEFAULTS :: tail_info where
  "TAIL_INFO_DEFAULTS =
     \<lparr>tl_nextStartOrdinal = 1, tl_hasNewRawHistory = False, tl_hasProtectedEligibleHead = False, tl_isMeaningful = False,
      tl_tokenEstimate = 0, tl_chunkHasMore = False, tl_trueRawEligibleTokens = Some 0, tl_commitClusterCount = 0,
      tl_boundarySnapshot = None\<rparr>"

definition resolveBoundaryContextLimit :: "context_usage \<Rightarrow> real option \<Rightarrow> real" where
  "resolveBoundaryContextLimit usage fallbackContextLimit =
     (case fallbackContextLimit of
        Some l \<Rightarrow> if 0 < l then l
          else if 0 < cu_percentage usage \<and> 0 < cu_inputTokens usage
          then of_int (max 1 (math_round (cu_inputTokens usage / (cu_percentage usage / 100)))) else 128000
      | None \<Rightarrow>
          if 0 < cu_percentage usage \<and> 0 < cu_inputTokens usage
          then of_int (max 1 (math_round (cu_inputTokens usage / (cu_percentage usage / 100)))) else 128000)"

text \<open>What the raw-message cache holds: the tail in memory, the tail from the anchor, or nothing, which leaves the full read.\<close>

definition memory_read :: "'a trigger_env \<Rightarrow> in_memory_tail option \<Rightarrow> session_read option" where
  "memory_read E memory =
     (case memory of
        Some t \<Rightarrow> if te_hasProvider E then None
           else Some \<lparr>sr_messages = it_messages t, sr_absoluteMessageCount = Some (it_absoluteMessageCount t), sr_now = te_now E\<rparr>
      | None \<Rightarrow> None)"

definition full_read :: "'a trigger_env \<Rightarrow> session_read" where
  "full_read E = \<lparr>sr_messages = te_fullRead E, sr_absoluteMessageCount = None, sr_now = te_now E\<rparr>"

definition tail_read :: "'a trigger_env \<Rightarrow> session_read option" where
  "tail_read E =
     (if te_hasProvider E \<or> te_compartmentEnd E < 1 \<or> non_empty_id (te_compartmentEndId E) = None then None
      else map_option (\<lambda>t. \<lparr>sr_messages = it_messages t, sr_absoluteMessageCount = Some (it_absoluteMessageCount t), sr_now = te_now E\<rparr>)
        (te_tailRead E))"

definition inspection_read :: "'a trigger_env \<Rightarrow> meta_table \<Rightarrow> string \<Rightarrow> in_memory_tail option \<Rightarrow> session_read" where
  "inspection_read E db sessionId memory =
     (case memory_read E memory of
        Some r \<Rightarrow> r
      | None \<Rightarrow>
          if 3 \<le> policy_version db sessionId then (case tail_read E of Some r \<Rightarrow> r | None \<Rightarrow> full_read E) else full_read E)"

definition eligibility_offset :: "'a trigger_env \<Rightarrow> int" where
  "eligibility_offset E = max 1 (te_compartmentEnd E + 1)"

definition hasRawBeyondLastCompartment :: "'a trigger_env \<Rightarrow> session_read \<Rightarrow> bool" where
  "hasRawBeyondLastCompartment E r \<longleftrightarrow>
     eligibility_offset E \<le> (case sr_absoluteMessageCount r of Some n \<Rightarrow> n | None \<Rightarrow> int (length (sr_messages r)))"

text \<open>\<open>resolveOpenCodeProtectedTailBoundary\<close> in mode \<open>trigger\<close>, with the totals of the tags above a floor.\<close>

definition trigger_context_request :: "trigger_request \<Rightarrow> real option \<Rightarrow> context_request" where
  "trigger_context_request q scale =
     \<lparr>cr_sessionId = tq_sessionId q, cr_mode = Trigger,
      cr_contextLimit = resolveBoundaryContextLimit (tq_usage q) (tq_contextLimit q),
      cr_executeThresholdPercentage = tq_executeThresholdPercentage q,
      cr_usage = Some \<lparr>bu_percentage = Some (cu_percentage (tq_usage q)), bu_inputTokens = cu_inputTokens (tq_usage q)\<rparr>,
      cr_usageSource = Some Live, cr_emergencyTailScale = scale, cr_providerShapeVersion = None, cr_cacheNamespace = None\<rparr>"

definition stored_totals :: "'a trigger_env \<Rightarrow> string \<Rightarrow> int \<Rightarrow> string \<rightharpoonup> nat" where
  "stored_totals E sessionId load_floor = map_option nat \<circ> fst (getAllStatusTagTokenTotalsFlat (te_tags E) sessionId load_floor)"

definition resolve_trigger_context ::
  "'a trigger_env \<Rightarrow> meta_table \<Rightarrow> trigger_request \<Rightarrow> real option \<Rightarrow> int \<Rightarrow> session_read \<Rightarrow> meta_table \<times> boundary_context" where
  "resolve_trigger_context E db q scale load_floor r =
     resolveBoundaryContext db (trigger_context_request q scale) (sr_messages r) (te_compartmentEnd E)
       (Some (stored_totals E (tq_sessionId q) load_floor))"

definition resolveOpenCodeProtectedTailBoundary ::
  "'a trigger_env \<Rightarrow> meta_table \<Rightarrow> trigger_request \<Rightarrow> real option \<Rightarrow> int \<Rightarrow> session_read \<Rightarrow> meta_table \<times> boundary_snapshot" where
  "resolveOpenCodeProtectedTailBoundary E db q scale load_floor r =
     (let (db', ctx) = resolve_trigger_context E db q scale load_floor r
      in (db', resolveProtectedTailBoundary (trigger_runtime E) ctx r))"

definition scan_budget :: "int \<Rightarrow> int" where
  "scan_budget triggerBudget = max MIN_PROACTIVE_TAIL_TOKEN_ESTIMATE (triggerBudget * TAIL_SIZE_TRIGGER_MULTIPLIER)"

definition inspected_chunk :: "'a trigger_env \<Rightarrow> trigger_request \<Rightarrow> session_read \<Rightarrow> boundary_snapshot \<Rightarrow> session_chunk" where
  "inspected_chunk E q r boundary =
     readSessionChunk (te_rt E) (sr_messages r) (sr_absoluteMessageCount r) (scan_budget (tq_triggerBudget q)) (eligibility_offset E)
       (Some (bs_protectedTailStart boundary))"

definition chunk_tail_info :: "'a trigger_env \<Rightarrow> boundary_snapshot \<Rightarrow> session_chunk \<Rightarrow> tail_info" where
  "chunk_tail_info E boundary chunk =
     \<lparr>tl_nextStartOrdinal = eligibility_offset E, tl_hasNewRawHistory = True, tl_hasProtectedEligibleHead = True,
      tl_isMeaningful = (sc_hasMore chunk
        \<or> (case bs_trueRawEligibleTokens boundary of Some n \<Rightarrow> MIN_PROACTIVE_TAIL_TOKEN_ESTIMATE \<le> n | None \<Rightarrow> False)
        \<or> MIN_PROACTIVE_TAIL_TOKEN_ESTIMATE \<le> sc_tokenEstimate chunk \<or> MIN_PROACTIVE_TAIL_MESSAGE_COUNT \<le> sc_messageCount chunk),
      tl_tokenEstimate = sc_tokenEstimate chunk, tl_chunkHasMore = sc_hasMore chunk,
      tl_trueRawEligibleTokens = bs_trueRawEligibleTokens boundary, tl_commitClusterCount = int (sc_commitClusterCount chunk),
      tl_boundarySnapshot = Some boundary\<rparr>"

definition getUnsummarizedTailInfo ::
  "'a trigger_env \<Rightarrow> meta_table \<Rightarrow> trigger_request \<Rightarrow> in_memory_tail option \<Rightarrow> int \<Rightarrow> meta_table \<times> tail_info" where
  "getUnsummarizedTailInfo E db q memory taggerFloor =
     (let r = inspection_read E db (tq_sessionId q) memory
      in if te_fault E = FaultBeforeResolve then (db, TAIL_INFO_DEFAULTS)
         else if \<not> hasRawBeyondLastCompartment E r then (db, TAIL_INFO_DEFAULTS\<lparr>tl_nextStartOrdinal := eligibility_offset E\<rparr>)
         else
           (let (db', boundary) = resolveOpenCodeProtectedTailBoundary E db q None taggerFloor r
            in (db', if te_fault E = FaultAfterResolve then TAIL_INFO_DEFAULTS
                     else if \<not> hasProtectedEligibleHead boundary
                     then TAIL_INFO_DEFAULTS\<lparr>tl_nextStartOrdinal := eligibility_offset E, tl_hasNewRawHistory := True,
                            tl_boundarySnapshot := Some boundary\<rparr>
                     else chunk_tail_info E boundary (inspected_chunk E q r boundary))))"

section \<open>The decision\<close>

definition modelAcceptsEmptyContent :: "string option \<Rightarrow> bool" where
  "modelAcceptsEmptyContent providerID \<longleftrightarrow> providerID = Some ''anthropic''"

definition projected_percentage :: "'a trigger_env \<Rightarrow> trigger_request \<Rightarrow> real option" where
  "projected_percentage E q =
     estimateProjectedPostDropPercentage (pending_drop_numbers (te_tags E) (tq_sessionId q)) (cu_percentage (tq_usage q))
       (case tq_preloadedActiveTags q of Some ts \<Rightarrow> ts | None \<Rightarrow> getActiveTagsBySession_in (te_tags E) (tq_sessionId q))
       (tq_clearReasoningAge q) (tq_clearedReasoningThroughTag q)
       (case tq_canClearReasoning q of Some b \<Rightarrow> b | None \<Rightarrow> modelAcceptsEmptyContent (tq_providerID q))"

text \<open>The queued drops bring the usage to three quarters of the threshold, or below.\<close>

definition drops_suffice :: "'a trigger_env \<Rightarrow> trigger_request \<Rightarrow> bool" where
  "drops_suffice E q =
     (case projected_percentage E q of
        None \<Rightarrow> False | Some p \<Rightarrow> p \<le> tq_executeThresholdPercentage q * POST_DROP_TARGET_RATIO)"

definition force_band :: "trigger_request \<Rightarrow> bool" where
  "force_band q \<longleftrightarrow>
     forceMaterializationPercentage (escalationBands (Some (tq_executeThresholdPercentage q))) \<le> cu_percentage (tq_usage q)"

definition scaled_boundary ::
  "'a trigger_env \<Rightarrow> meta_table \<Rightarrow> trigger_request \<Rightarrow> in_memory_tail option \<Rightarrow> meta_table \<times> boundary_snapshot" where
  "scaled_boundary E db q memory =
     resolveOpenCodeProtectedTailBoundary E db q
       (Some (if BLOCK_UNTIL_DONE_PERCENTAGE \<le> cu_percentage (tq_usage q) then 1/4 else 1/2)) 0
       (case memory_read E memory of Some r \<Rightarrow> r | None \<Rightarrow> full_read E)"

definition force_decision ::
  "'a trigger_env \<Rightarrow> meta_table \<Rightarrow> trigger_request \<Rightarrow> in_memory_tail option \<Rightarrow> tail_info \<Rightarrow> meta_table \<times> trigger_result" where
  "force_decision E db q memory info =
     (if drops_suffice E q then (db, NoFire)
      else if (case tl_boundarySnapshot info of Some s \<Rightarrow> hasRunnableCompartmentWindow s | None \<Rightarrow> False)
      then (db, Fire ForceBand (tl_boundarySnapshot info))
      else (let (db', scaled) = scaled_boundary E db q memory
            in (db', if hasRunnableCompartmentWindow scaled then Fire ForceBand (Some scaled) else NoFire)))"

definition size_decision :: "'a trigger_env \<Rightarrow> trigger_request \<Rightarrow> tail_info \<Rightarrow> trigger_result" where
  "size_decision E q info =
     (let (clusterEnabled, minClusters) =
            (case tq_commitClusterTrigger q of Some c \<Rightarrow> c | None \<Rightarrow> (True, DEFAULT_MIN_COMMIT_CLUSTERS_FOR_TRIGGER))
      in if clusterEnabled \<and> minClusters \<le> tl_commitClusterCount info \<and> tq_triggerBudget q \<le> tl_tokenEstimate info
         then Fire CommitClusters (tl_boundarySnapshot info)
         else if tq_triggerBudget q * TAIL_SIZE_TRIGGER_MULTIPLIER \<le> tl_tokenEstimate info
                 \<or> (tl_chunkHasMore info \<and> 0 < tl_tokenEstimate info)
         then Fire TailSize (tl_boundarySnapshot info)
         else if cu_percentage (tq_usage q) < getProactiveCompartmentTriggerPercentage (tq_executeThresholdPercentage q) then NoFire
         else if drops_suffice E q then NoFire
         else if \<not> tl_hasProtectedEligibleHead info \<or> \<not> tl_isMeaningful info then NoFire
         else Fire ProjectedHeadroom (tl_boundarySnapshot info))"

definition checkCompartmentTrigger ::
  "'a trigger_env \<Rightarrow> meta_table \<Rightarrow> trigger_request \<Rightarrow> meta_table \<times> trigger_result" where
  "checkCompartmentTrigger E db q =
     (if tq_compartmentInProgress q then (db, NoFire)
      else
        let eager = eager_tail E db q; taggerFloor = trigger_floor E q eager
        in if cheap_gate_skips E q eager taggerFloor then (db, NoFire)
           else
             let memory = inspected_memory E db q eager;
                 (db', info) = getUnsummarizedTailInfo E db q memory taggerFloor
             in if \<not> tl_hasNewRawHistory info then (db', NoFire)
                else if force_band q then force_decision E db' q memory info
                else (db', size_decision E q info))"

section \<open>A started historian has an ordered range\<close>

lemma resolved_trigger:
  "snd (resolveOpenCodeProtectedTailBoundary E db q scale load_floor r)
     = resolveProtectedTailBoundary (trigger_runtime E) (snd (resolve_trigger_context E db q scale load_floor r)) r"
  "bc_mode (snd (resolve_trigger_context E db q scale load_floor r)) = Trigger"
  by (simp_all add: resolveOpenCodeProtectedTailBoundary_def resolve_trigger_context_def resolveBoundaryContext_def
      trigger_context_request_def Let_def split: prod.splits)

definition ordered_head :: "boundary_snapshot \<Rightarrow> bool" where
  "ordered_head s \<longleftrightarrow> 1 \<le> bs_offset s \<and> bs_offset s < bs_protectedTailStart s
     \<and> bs_protectedTailStart s \<le> bs_rawMessageCountAtTrigger s + 1
     \<and> bs_offset s \<le> bs_eligibleEndOrdinal s \<and> bs_eligibleEndOrdinal s \<le> bs_protectedTailStart s"

lemma head_is_ordered:
  assumes "hasProtectedEligibleHead (resolveProtectedTailBoundary rt ctx r)" "bc_mode ctx \<noteq> ManualFullRecomp"
  shows "ordered_head (resolveProtectedTailBoundary rt ctx r)"
proof -
  have n: "ti_rawMessageCount (context_index rt ctx r) \<noteq> 0"
    using assms(1) context_offset_pos [of ctx]
    by (auto simp: resolveProtectedTailBoundary_def boundaryCtxFields_def hasProtectedEligibleHead_def Let_def)
  then have "bs_rawMessageCountAtTrigger (resolveProtectedTailBoundary rt ctx r) \<noteq> 0"
    using resolve_incremental(4) [OF n assms(2)] by simp
  from snapshot_is_ordered [OF this assms(2)] assms(1) show ?thesis
    by (simp add: ordered_head_def hasProtectedEligibleHead_def Let_def)
qed

lemma runnable_has_head: "hasRunnableCompartmentWindow s \<Longrightarrow> hasProtectedEligibleHead s"
  by (auto simp: hasRunnableCompartmentWindow_def hasProtectedEligibleHead_def split: if_splits)

lemma trigger_head_is_ordered:
  assumes "s = snd (resolveOpenCodeProtectedTailBoundary E db q scale load_floor r)" "hasProtectedEligibleHead s"
  shows "ordered_head s"
  using assms head_is_ordered resolved_trigger by (metis boundary_mode.distinct(5))

lemma inspected_snapshot:
  assumes "getUnsummarizedTailInfo E db q memory taggerFloor = (db', info)" "tl_hasNewRawHistory info"
  obtains s r where "tl_boundarySnapshot info = Some s"
    "s = snd (resolveOpenCodeProtectedTailBoundary E db q None taggerFloor r)"
    "hasProtectedEligibleHead s
     \<or> (tl_tokenEstimate info = 0 \<and> \<not> tl_hasProtectedEligibleHead info)"
proof -
  let ?r = "inspection_read E db (tq_sessionId q) memory"
  obtain d s where res: "resolveOpenCodeProtectedTailBoundary E db q None taggerFloor ?r = (d, s)" by fastforce
  let ?result = "\<lambda>i. tl_hasNewRawHistory i \<longrightarrow> tl_boundarySnapshot i = Some s
     \<and> (hasProtectedEligibleHead s \<or> (tl_tokenEstimate i = 0 \<and> \<not> tl_hasProtectedEligibleHead i))"
  have "?result (snd (getUnsummarizedTailInfo E db q memory taggerFloor))"
    unfolding getUnsummarizedTailInfo_def Let_def res prod.case
    by (simp add: TAIL_INFO_DEFAULTS_def chunk_tail_info_def)
  with assms have f: "tl_boundarySnapshot info = Some s"
    "hasProtectedEligibleHead s \<or> (tl_tokenEstimate info = 0 \<and> \<not> tl_hasProtectedEligibleHead info)"
    by simp_all
  have "s = snd (resolveOpenCodeProtectedTailBoundary E db q None taggerFloor ?r)" by (simp add: res)
  from that [OF f(1) this f(2)] show ?thesis .
qed

lemma size_fire_has_head:
  assumes "size_decision E q info = Fire reason snap" "0 < tq_triggerBudget q"
  shows "snap = tl_boundarySnapshot info \<and> reason \<noteq> ForceBand \<and> (0 < tl_tokenEstimate info \<or> tl_hasProtectedEligibleHead info)"
  using assms by (auto simp: size_decision_def config_simps Let_def split: if_splits option.splits)

lemma force_fire_is_runnable:
  assumes "force_decision E db q memory info = (db', Fire reason snap)"
  shows "reason = ForceBand \<and> (\<exists>s. snap = Some s \<and> hasRunnableCompartmentWindow s
     \<and> (tl_boundarySnapshot info = Some s \<or> s = snd (scaled_boundary E db q memory)))"
  using assms by (auto simp: force_decision_def Let_def split: if_splits option.splits prod.splits)

lemma fired_head:
  assumes "checkCompartmentTrigger E db q = (db', Fire reason snap)" "0 < tq_triggerBudget q"
  shows "\<not> tq_compartmentInProgress q
     \<and> (\<exists>s. snap = Some s \<and> ordered_head s \<and> (reason = ForceBand \<longleftrightarrow> force_band q)
          \<and> (reason = ForceBand \<longrightarrow> hasRunnableCompartmentWindow s))"
proof -
  define eager taggerFloor memory where "eager = eager_tail E db q" and "taggerFloor = trigger_floor E q eager"
    and "memory = inspected_memory E db q eager"
  note defs = eager_def taggerFloor_def memory_def
  obtain d info where info: "getUnsummarizedTailInfo E db q memory taggerFloor = (d, info)" by fastforce
  have idle: "\<not> tq_compartmentInProgress q" and new: "tl_hasNewRawHistory info"
    and result: "(if force_band q then force_decision E d q memory info else (d, size_decision E q info)) = (db', Fire reason snap)"
    using assms(1) info unfolding checkCompartmentTrigger_def Let_def defs [symmetric]
    by (auto split: if_splits)
  from inspected_snapshot [OF info new] obtain s r where s: "tl_boundarySnapshot info = Some s"
    "s = snd (resolveOpenCodeProtectedTailBoundary E db q None taggerFloor r)"
    "hasProtectedEligibleHead s \<or> (tl_tokenEstimate info = 0 \<and> \<not> tl_hasProtectedEligibleHead info)" .
  show ?thesis
  proof (cases "force_band q")
    case True
    with result force_fire_is_runnable [of E d q memory info db' reason snap] obtain s' where
      s': "reason = ForceBand" "snap = Some s'" "hasRunnableCompartmentWindow s'"
        "s' = s \<or> s' = snd (scaled_boundary E d q memory)"
      using s(1) by auto
    then have "ordered_head s'"
      using trigger_head_is_ordered [OF s(2)] runnable_has_head [OF s'(3)] trigger_head_is_ordered [of s' E d q]
      unfolding scaled_boundary_def by blast
    with idle True s' show ?thesis by simp
  next
    case False
    with result have "size_decision E q info = Fire reason snap" by simp
    from size_fire_has_head [OF this assms(2)] s trigger_head_is_ordered [OF s(2)] idle False
    show ?thesis by auto
  qed
qed

section \<open>Pressure starts the historian\<close>

lemma force_above_proactive:
  assumes "force_band q" "tq_executeThresholdPercentage q \<le> MAX_EXECUTE_THRESHOLD"
  shows "\<not> cu_percentage (tq_usage q) < getProactiveCompartmentTriggerPercentage (tq_executeThresholdPercentage q)"
  using assms by (auto simp: force_band_def escalationBands_def getProactiveCompartmentTriggerPercentage_def config_simps)

lemma inspected_head:
  assumes "te_fault E = NoFault" "hasRawBeyondLastCompartment E (inspection_read E db (tq_sessionId q) memory)"
    and "resolveOpenCodeProtectedTailBoundary E db q None taggerFloor (inspection_read E db (tq_sessionId q) memory) = (d, s)"
    and "hasProtectedEligibleHead s"
  shows "\<exists>info. getUnsummarizedTailInfo E db q memory taggerFloor = (d, info) \<and> tl_hasNewRawHistory info
     \<and> tl_boundarySnapshot info = Some s"
proof -
  let ?r = "inspection_read E db (tq_sessionId q) memory"
  have "getUnsummarizedTailInfo E db q memory taggerFloor = (d, chunk_tail_info E s (inspected_chunk E q ?r s))"
    unfolding getUnsummarizedTailInfo_def Let_def assms(3) using assms(1,2,4) by simp
  then show ?thesis by (simp add: chunk_tail_info_def)
qed

text \<open>What the inspection reads, its context, and the snapshot it resolves.\<close>

definition trigger_read :: "'a trigger_env \<Rightarrow> meta_table \<Rightarrow> trigger_request \<Rightarrow> session_read" where
  "trigger_read E db q = inspection_read E db (tq_sessionId q) (inspected_memory E db q (eager_tail E db q))"

definition trigger_context :: "'a trigger_env \<Rightarrow> meta_table \<Rightarrow> trigger_request \<Rightarrow> boundary_context" where
  "trigger_context E db q =
     snd (resolve_trigger_context E db q None (trigger_floor E q (eager_tail E db q)) (trigger_read E db q))"

definition trigger_snapshot :: "'a trigger_env \<Rightarrow> meta_table \<Rightarrow> trigger_request \<Rightarrow> boundary_snapshot" where
  "trigger_snapshot E db q = resolveProtectedTailBoundary (trigger_runtime E) (trigger_context E db q) (trigger_read E db q)"

lemma runnable_snapshot_fires:
  fixes E db q
  defines "s \<equiv> trigger_snapshot E db q"
  assumes q: "\<not> tq_compartmentInProgress q" "force_band q" "tq_executeThresholdPercentage q \<le> MAX_EXECUTE_THRESHOLD"
      "\<not> drops_suffice E q"
    and E: "te_fault E = NoFault" "hasRawBeyondLastCompartment E (trigger_read E db q)"
    and run: "hasRunnableCompartmentWindow s"
  shows "snd (checkCompartmentTrigger E db q) = Fire ForceBand (Some s)"
proof -
  let ?memory = "inspected_memory E db q (eager_tail E db q)" and ?floor = "trigger_floor E q (eager_tail E db q)"
  obtain d where "resolveOpenCodeProtectedTailBoundary E db q None ?floor (trigger_read E db q) = (d, s)"
    using resolved_trigger(1) [of E db q None ?floor "trigger_read E db q"]
    by (metis trigger_context_def prod.collapse s_def trigger_snapshot_def)
  from inspected_head [OF E(1) E(2) [unfolded trigger_read_def] this [unfolded trigger_read_def] runnable_has_head [OF run]]
  obtain info where
    info: "getUnsummarizedTailInfo E db q ?memory ?floor = (d, info)" "tl_hasNewRawHistory info" "tl_boundarySnapshot info = Some s"
    by blast
  have gate: "\<not> cheap_gate_skips E q (eager_tail E db q) ?floor"
    using force_above_proactive [OF q(2,3)] by (simp add: cheap_gate_skips_def)
  have "checkCompartmentTrigger E db q = force_decision E d q ?memory info"
    using q(1,2) gate info(1,2) by (simp add: checkCompartmentTrigger_def)
  with run info(3) q(4) show ?thesis by (simp add: force_decision_def)
qed

section \<open>What the queued drops leave\<close>

text \<open>The bytes of a tag that are still there after the pass that was projected.\<close>

definition clears_reasoning :: "int list \<Rightarrow> stored_tag list \<Rightarrow> int option \<Rightarrow> int option \<Rightarrow> bool \<Rightarrow> stored_tag \<Rightarrow> bool" where
  "clears_reasoning pending activeTags age cleared can t =
     (case (can, age, cleared) of
        (True, Some a, Some c) \<Rightarrow> clearable_reasoning pending (fold (\<lambda>t m. max m (tg_tagNumber t)) activeTags 0 - a) c t
      | _ \<Rightarrow> False)"

definition remaining_bytes :: "int list \<Rightarrow> stored_tag list \<Rightarrow> int option \<Rightarrow> int option \<Rightarrow> bool \<Rightarrow> stored_tag \<Rightarrow> int" where
  "remaining_bytes pending activeTags age cleared can t =
     (if tg_tagNumber t \<in> set pending then 0
      else if clears_reasoning pending activeTags age cleared can t then tg_byteSize t else tag_bytes t)"

lemma sum_three:
  assumes "\<And>t. t \<in> set ts \<Longrightarrow> C t \<Longrightarrow> tg_tagNumber t \<notin> P"
  shows "sum_list (map tag_bytes ts)
     = sum_list (map tag_bytes (filter (\<lambda>t. tg_tagNumber t \<in> P) ts)) + sum_list (map tg_reasoningByteSize (filter C ts))
       + sum_list (map (\<lambda>t. if tg_tagNumber t \<in> P then 0 else if C t then tg_byteSize t else tag_bytes t) ts)"
  using assms by (induction ts) (auto simp: tag_bytes_def)

lemma droppable_rule:
  "droppable_bytes pending ts age cleared can
     = sum_list (map tag_bytes (filter (\<lambda>t. tg_tagNumber t \<in> set pending) ts))
       + sum_list (map tg_reasoningByteSize (filter (clears_reasoning pending ts age cleared can) ts))"
  by (cases can; cases age; cases cleared) (simp_all add: droppable_bytes_def clears_reasoning_def [abs_def] Let_def)

lemma bytes_split:
  "sum_list (map tag_bytes ts) = droppable_bytes pending ts age cleared can
     + sum_list (map (remaining_bytes pending ts age cleared can) ts)"
proof -
  have "tg_tagNumber t \<notin> set pending" if "clears_reasoning pending ts age cleared can t" for t
    using that by (auto simp: clears_reasoning_def clearable_reasoning_def split: option.splits bool.splits)
  then show ?thesis
    unfolding droppable_rule remaining_bytes_def by (rule sum_three)
qed

lemma projected_share:
  assumes "estimateProjectedPostDropPercentage pending percentage ts age cleared can = Some p"
    and "\<And>t. t \<in> set ts \<Longrightarrow> 0 \<le> tg_byteSize t \<and> 0 \<le> tg_reasoningByteSize t" "0 \<le> percentage"
  shows "p = percentage * (of_int (sum_list (map (remaining_bytes pending ts age cleared can) ts)) / of_int (sum_list (map tag_bytes ts)))
     \<and> 0 \<le> p \<and> p \<le> percentage"
proof -
  let ?T = "sum_list (map tag_bytes ts)" and ?R = "sum_list (map (remaining_bytes pending ts age cleared can) ts)"
    and ?D = "droppable_bytes pending ts age cleared can"
  have T: "?T \<noteq> 0" and p: "p = percentage * (1 - min (of_int ?D / of_int ?T) 1)"
    using assms(1) by (auto simp: estimateProjectedPostDropPercentage_def Let_def split: if_splits)
  have R: "0 \<le> ?R" using assms(2) by (intro sum_list_nonneg) (auto simp: remaining_bytes_def tag_bytes_def)
  have D: "0 \<le> ?D" unfolding droppable_rule using assms(2) by (intro add_nonneg_nonneg sum_list_nonneg) (auto simp: tag_bytes_def)
  have e: "?T = ?D + ?R" by (rule bytes_split)
  have pos: "0 < real_of_int ?T" using T e R D by simp
  have "real_of_int ?D / real_of_int ?T = 1 - real_of_int ?R / real_of_int ?T" using pos e by (simp add: field_simps)
  moreover have "0 \<le> real_of_int ?R / real_of_int ?T" "real_of_int ?R / real_of_int ?T \<le> 1" using pos R D e by simp_all
  ultimately have "p = percentage * (real_of_int ?R / real_of_int ?T)" using p by simp
  moreover have "0 \<le> percentage * x \<and> percentage * x \<le> percentage" if "0 \<le> x" "x \<le> 1" for x
    using that assms(3) by (simp add: mult_left_le)
  ultimately show ?thesis
    using \<open>0 \<le> real_of_int ?R / real_of_int ?T\<close> \<open>real_of_int ?R / real_of_int ?T \<le> 1\<close> by blast
qed

section \<open>The ordinals of the tail in memory\<close>

lemma number_views_spec:
  "fst (number_views n vs) = concat (map (\<lambda>(i, v). if mv_id v = [] then []
       else [\<lparr>rm_ordinal = i, rm_id = mv_id v, rm_role = mv_role v, rm_parts = mv_parts v\<rparr>]) (zip [n..n + int (length vs) - 1] vs))"
  "snd (number_views n vs) = n + int (length vs)"
proof -
  have "fst (number_views n vs) = concat (map (\<lambda>(i, v). if mv_id v = [] then []
       else [\<lparr>rm_ordinal = i, rm_id = mv_id v, rm_role = mv_role v, rm_parts = mv_parts v\<rparr>]) (zip [n..n + int (length vs) - 1] vs))
     \<and> snd (number_views n vs) = n + int (length vs)"
  proof (induction n vs rule: number_views.induct)
    case (2 n v vs)
    have "[n..n + int (length (v # vs)) - 1] = n # [n + 1..n + 1 + int (length vs) - 1]"
      by (subst upto_rec1) simp_all
    with 2 show ?case by (simp add: case_prod_beta Let_def)
  qed simp
  then show "fst (number_views n vs) = concat (map (\<lambda>(i, v). if mv_id v = [] then []
       else [\<lparr>rm_ordinal = i, rm_id = mv_id v, rm_role = mv_role v, rm_parts = mv_parts v\<rparr>]) (zip [n..n + int (length vs) - 1] vs))"
    "snd (number_views n vs) = n + int (length vs)" by simp_all
qed

text \<open>
  With a compartment before it, a tail in memory starts with the anchor, which has the compartment's last ordinal; every
  later view takes the next ordinal, and the count is the last ordinal.
\<close>

lemma trigger_tail_is_anchored:
  assumes "buildTriggerInMemoryTail lastEnd anchor views = Some t" "1 \<le> lastEnd"
  obtains a vs where "anchor = Some a" "vs = dropWhile (\<lambda>v. mv_id v \<noteq> a) (filter (\<lambda>m. \<not> is_summary m) views)" "vs \<noteq> []"
    "it_absoluteMessageCount t = lastEnd + int (length vs) - 1"
    "it_messages t = concat (map (\<lambda>(i, v). if mv_id v = [] then []
       else [\<lparr>rm_ordinal = i, rm_id = mv_id v, rm_role = mv_role v, rm_parts = mv_parts v\<rparr>]) (zip [lastEnd..lastEnd + int (length vs) - 1] vs))"
proof -
  from assms obtain a where a: "anchor = Some a" "a \<noteq> []"
    by (auto simp: buildTriggerInMemoryTail_def non_empty_id_def split: if_splits)
  define vs where "vs = dropWhile (\<lambda>v. mv_id v \<noteq> a) (filter (\<lambda>m. \<not> is_summary m) views)"
  obtain out k where n: "number_views lastEnd vs = (out, k)" by fastforce
  have "vs \<noteq> [] \<and> t = \<lparr>it_messages = out, it_absoluteMessageCount = max 0 (k - 1)\<rparr>"
    using assms a n unfolding buildTriggerInMemoryTail_def buildInMemoryTailRawMessages_def Let_def
    by (auto simp: non_empty_id_def vs_def [symmetric] split: if_splits prod.splits)
  with number_views_spec [of lastEnd vs] n assms(2) a(1) that [of a vs] show ?thesis
    by (simp add: vs_def)
qed

section \<open>An example\<close>

definition example_tail :: in_memory_tail where
  "example_tail = \<lparr>it_messages = [example_text_message 1 ''user'' ''go'',
     example_text_message 2 ''assistant'' ''ok'', example_text_message 3 ''user'' ''on'',
     example_text_message 4 ''assistant'' ''so''], it_absoluteMessageCount = 4\<rparr>"

definition example_trigger_env :: "unit trigger_env" where
  "example_trigger_env =
     \<lparr>te_rt = example_chunk_runtime\<lparr>estimateTokens := (\<lambda>s. 300 * int (length s))\<rparr>, te_tags = \<lparr>tb_tags = [], tb_nextId = 1, tb_ops = [], tb_sources = [], tb_counters = Map.empty\<rparr>,
      te_compartmentEnd = -1, te_compartmentEndId = None, te_hasProvider = False, te_fullRead = it_messages example_tail,
      te_tailRead = None, te_now = 0, te_metaFails = False, te_gateFails = False, te_fault = NoFault\<rparr>"

definition example_trigger_request :: trigger_request where
  "example_trigger_request =
     \<lparr>tq_sessionId = ''s'', tq_compartmentInProgress = False, tq_clearedReasoningThroughTag = Some 0,
      tq_usage = \<lparr>cu_percentage = 90, cu_inputTokens = 90\<rparr>, tq_executeThresholdPercentage = 65, tq_triggerBudget = 5000,
      tq_clearReasoningAge = None, tq_commitClusterTrigger = None, tq_preloadedActiveTags = None, tq_contextLimit = Some 2000,
      tq_inMemoryTail = NoTail, tq_taggerFloorOverride = None, tq_canClearReasoning = None, tq_providerID = None\<rparr>"

definition example_meta :: meta_table where
  "example_meta = [''s'' \<mapsto> DEFAULT_PROTECTED_TAIL_META\<lparr>pm_protectedTailPolicyVersion := 3\<rparr>]"

lemma example_trigger_choice:
  "eager_tail example_trigger_env example_meta example_trigger_request = None"
  "trigger_floor example_trigger_env example_trigger_request None = 0"
  "inspected_memory example_trigger_env example_meta example_trigger_request None = None"
  by (simp_all add: eager_tail_def trigger_floor_def inspected_memory_def example_trigger_request_def)

lemma example_trigger_read: "trigger_read example_trigger_env example_meta example_trigger_request = full_read example_trigger_env"
  by (simp add: trigger_read_def example_trigger_choice inspection_read_def memory_read_def tail_read_def)
    (simp add: example_trigger_env_def)

lemma example_trigger_context:
  "trigger_context example_trigger_env example_meta example_trigger_request
     = snd (resolve_trigger_context example_trigger_env example_meta example_trigger_request None 0 (full_read example_trigger_env))"
  by (simp add: trigger_context_def example_trigger_choice example_trigger_read)

lemma example_trigger_count:
  "ti_rawMessageCount (context_index (trigger_runtime example_trigger_env)
     (trigger_context example_trigger_env example_meta example_trigger_request) (full_read example_trigger_env)) = 4"
  unfolding example_trigger_context by code_simp

lemma example_trigger_tail_start:
  "resolved_tail_start (trigger_runtime example_trigger_env)
     (trigger_context example_trigger_env example_meta example_trigger_request) (full_read example_trigger_env) = 3"
  unfolding example_trigger_context by code_simp

lemma example_trigger_offset: "context_offset (trigger_context example_trigger_env example_meta example_trigger_request) = 1"
  unfolding example_trigger_context by code_simp

lemma example_trigger_snapshot:
  "hasProtectedEligibleHead (trigger_snapshot example_trigger_env example_meta example_trigger_request)"
  "bs_rawMessageCountAtTrigger (trigger_snapshot example_trigger_env example_meta example_trigger_request) = 4"
  using resolve_incremental(1,2,4) [of "trigger_runtime example_trigger_env"
      "trigger_context example_trigger_env example_meta example_trigger_request" "full_read example_trigger_env"]
    resolved_trigger(2) [of example_trigger_env example_meta example_trigger_request None 0 "full_read example_trigger_env"]
  by (simp_all add: trigger_snapshot_def example_trigger_read example_trigger_count example_trigger_tail_start
      example_trigger_offset hasProtectedEligibleHead_def)
    (simp_all add: example_trigger_context)

lemma example_trigger_session:
  "first_ordinal (sr_messages (full_read example_trigger_env)) = 1"
  "terminal_ordinal (sr_messages (full_read example_trigger_env)) = 4"
  "buildToolArcs (trigger_runtime example_trigger_env) (sr_messages (full_read example_trigger_env)) = []"
  by code_simp+

lemma example_trigger_pressure:
  "force_band example_trigger_request" "\<not> drops_suffice example_trigger_env example_trigger_request"
  "hasRawBeyondLastCompartment example_trigger_env (full_read example_trigger_env)"
  by code_simp+

lemma example_trigger_idle:
  "\<not> tq_compartmentInProgress example_trigger_request"
  "tq_executeThresholdPercentage example_trigger_request \<le> MAX_EXECUTE_THRESHOLD" "te_fault example_trigger_env = NoFault"
  by (simp_all add: example_trigger_request_def example_trigger_env_def config_simps)

lemma example_trigger_fires:
  "snd (checkCompartmentTrigger example_trigger_env example_meta example_trigger_request)
     = Fire ForceBand (Some (trigger_snapshot example_trigger_env example_meta example_trigger_request))"
proof -
  have "bc_mode (trigger_context example_trigger_env example_meta example_trigger_request) \<noteq> ManualFullRecomp"
    unfolding trigger_context_def by (simp add: resolved_trigger(2))
  then have "hasRunnableCompartmentWindow (trigger_snapshot example_trigger_env example_meta example_trigger_request)"
    using eligible_head_is_runnable [of "trigger_runtime example_trigger_env"
        "trigger_context example_trigger_env example_meta example_trigger_request" "full_read example_trigger_env"]
      example_trigger_session example_trigger_snapshot
    by (simp add: trigger_snapshot_def example_trigger_read example_trigger_offset)
  with example_trigger_idle example_trigger_pressure show ?thesis
    by (intro runnable_snapshot_fires) (simp_all add: example_trigger_read)
qed

section \<open>Properties\<close>

text \<open>
  C3: A started historian has a range. When the trigger fires with a positive budget, no historian is running, and it
  carries a snapshot whose offset lies inside the session before its protected tail, with an eligible end between the
  two; under the force band, and only there, the reason is the force band, and then the window of the snapshot is
  runnable.
\<close>

theorem fired_trigger_has_a_range:
  assumes "checkCompartmentTrigger E db q = (db', Fire reason snap)" "0 < tq_triggerBudget q"
  shows "\<not> tq_compartmentInProgress q
     \<and> (\<exists>s. snap = Some s \<and> ordered_head s \<and> (reason = ForceBand \<longleftrightarrow> force_band q)
          \<and> (reason = ForceBand \<longrightarrow> hasRunnableCompartmentWindow s))"
  by (rule fired_head [OF assms])

theorem fired_trigger_has_a_range_witness:
  "ordered_head (trigger_snapshot example_trigger_env example_meta example_trigger_request)"
proof -
  obtain db' where "checkCompartmentTrigger example_trigger_env example_meta example_trigger_request
       = (db', Fire ForceBand (Some (trigger_snapshot example_trigger_env example_meta example_trigger_request)))"
    using example_trigger_fires by (metis prod.collapse)
  from fired_trigger_has_a_range [OF this] show ?thesis by (simp add: example_trigger_request_def)
qed

text \<open>
  C2: Pressure starts the historian. At the force band of a threshold of at most 90, when no historian runs, the queued
  drops do not suffice and the session has messages past the last compartment, a protected head without a call in
  flight in the live tail makes the trigger fire, whatever the cheap gate's bounds are, and the range it hands over is
  not empty.
\<close>

theorem pressure_starts_the_historian:
  assumes "\<not> tq_compartmentInProgress q" "force_band q" "tq_executeThresholdPercentage q \<le> MAX_EXECUTE_THRESHOLD"
    and "\<not> drops_suffice E q" "te_fault E = NoFault" "hasRawBeyondLastCompartment E (trigger_read E db q)"
    and "bs_rawMessageCountAtTrigger (trigger_snapshot E db q) = terminal_ordinal (sr_messages (trigger_read E db q))"
    and "terminal_ordinal (sr_messages (trigger_read E db q)) \<noteq> 0"
    and "first_ordinal (sr_messages (trigger_read E db q)) \<le> context_offset (trigger_context E db q)"
    and "\<forall>a\<in>set (buildToolArcs (trigger_runtime E) (sr_messages (trigger_read E db q))).
         \<not> recent_open (ti_findSuffixStartForTokens
              (context_index (trigger_runtime E) (trigger_context E db q) (trigger_read E db q)) (scaled_N (trigger_context E db q))) a"
    and "hasProtectedEligibleHead (trigger_snapshot E db q)"
  shows "snd (checkCompartmentTrigger E db q) = Fire ForceBand (Some (trigger_snapshot E db q))
     \<and> bs_offset (trigger_snapshot E db q) < bs_eligibleEndOrdinal (trigger_snapshot E db q)"
proof -
  have m: "bc_mode (trigger_context E db q) \<noteq> ManualFullRecomp"
    unfolding trigger_context_def by (simp add: resolved_trigger(2))
  have "hasRunnableCompartmentWindow (trigger_snapshot E db q)
     \<and> bs_offset (trigger_snapshot E db q) < bs_eligibleEndOrdinal (trigger_snapshot E db q)"
    unfolding trigger_snapshot_def
    by (rule eligible_head_is_runnable [OF assms(7) [unfolded trigger_snapshot_def] assms(8,9) m assms(10)
          assms(11) [unfolded trigger_snapshot_def]])
  with runnable_snapshot_fires [OF assms(1-6)] show ?thesis by simp
qed

theorem pressure_starts_the_historian_witness:
  "snd (checkCompartmentTrigger example_trigger_env example_meta example_trigger_request)
     = Fire ForceBand (Some (trigger_snapshot example_trigger_env example_meta example_trigger_request))"
  using pressure_starts_the_historian [of example_trigger_request example_trigger_env example_meta]
    example_trigger_idle example_trigger_pressure example_trigger_session example_trigger_snapshot
  by (simp add: example_trigger_read example_trigger_offset)

text \<open>
  The projection counts every byte once. When the sizes are not negative, the projected usage is the usage times the
  share of the active bytes that is left when the queued drops take whole tags and the reasoning that is old enough is
  cleared from the others; it is not negative and never above the usage.
\<close>

theorem projection_is_the_remaining_share:
  assumes "estimateProjectedPostDropPercentage pending percentage ts age cleared can = Some p"
    and "\<And>t. t \<in> set ts \<Longrightarrow> 0 \<le> tg_byteSize t \<and> 0 \<le> tg_reasoningByteSize t" "0 \<le> percentage"
  shows "p = percentage * (of_int (sum_list (map (remaining_bytes pending ts age cleared can) ts)) / of_int (sum_list (map tag_bytes ts)))
     \<and> 0 \<le> p \<and> p \<le> percentage"
  by (rule projected_share [OF assms])

definition example_projection_tag :: "int \<Rightarrow> int \<Rightarrow> int \<Rightarrow> stored_tag" where
  "example_projection_tag n bytes reasoning =
     \<lparr>tg_tagNumber = n, tg_type = MessageTag, tg_status = Active, tg_dropMode = FullDrop, tg_toolName = None, tg_byteSize = bytes,
      tg_inputByteSize = 0, tg_reasoningByteSize = reasoning, st_messageId = ''m'', st_sessionId = ''s'', st_cavemanDepth = 0,
      st_toolOwnerMessageId = None\<rparr>"

definition example_projection_tags :: "stored_tag list" where
  "example_projection_tags = [example_projection_tag 1 100 50, example_projection_tag 2 100 50, example_projection_tag 9 100 0]"

lemma example_projection:
  "estimateProjectedPostDropPercentage [1] 80 example_projection_tags (Some 5) (Some 0) True = Some 40"
  "sum_list (map tag_bytes example_projection_tags) = 400"
  "t \<in> set example_projection_tags \<Longrightarrow> 0 \<le> tg_byteSize t \<and> 0 \<le> tg_reasoningByteSize t"
  by (auto simp: estimateProjectedPostDropPercentage_def droppable_bytes_def clearable_reasoning_def example_projection_tags_def
      example_projection_tag_def tag_bytes_def Let_def)

theorem projection_is_the_remaining_share_witness:
  "(40::real) = 80 * (of_int (sum_list (map (remaining_bytes [1] example_projection_tags (Some 5) (Some 0) True) example_projection_tags)) / 400)"
  using projection_is_the_remaining_share [OF example_projection(1) example_projection(3)] example_projection(2) by simp

end
