(* ===== verification/Smart_Notes.thy ===== *)
theory Smart_Notes
  imports Task_Schedule
begin

text \<open>
  Smart notes and their evaluation: the life of a note as a reducer over the outcomes of its checks
  (\<open>features/magic-context/smart-notes/evaluation-state.ts\<close>, \<open>evaluator.ts\<close>), the selections and the commit that is fenced
  by revisions (\<open>smart-notes/storage.ts\<close>), the other writers of a note (\<open>storage-notes.ts\<close>), and the two runs that
  evaluate notes (\<open>smart-notes/runner.ts\<close>, \<open>dreamer/evaluate-smart-notes.ts\<close>). The compiler, the sandbox, the
  confirmation prompt and the parser of JSON texts are parameters. The table holds the smart notes only; the rows of
  session notes share it and are not touched by these operations. The writers are those of a project whose notes
  this store owns; where the module owns them, the mirror feed (\<open>context-authority.ts\<close>, modelled in \<open>Mirror_Feed\<close>)
  writes the rows and the revisions the module gives; its writes are not among the events of this theory.
\<close>

section \<open>A note\<close>

datatype note_status = NoteActive | NotePending | NoteReady | NoteDismissed
datatype check_status = CheckUncompiled | CheckCompiled | CheckFailing | CheckFallback

record lifecycle =
  lc_status :: note_status
  lc_readyAt :: "int option"
  lc_readyReason :: "string option"
  lc_lastCheckedAt :: "int option"
  lc_updatedAt :: int
  lc_compiledCheck :: "string option"
  lc_manifestJson :: "string option"
  lc_checkHash :: "string option"
  lc_checkCron :: "string option"
  lc_checkVersion :: int
  lc_checkStatus :: check_status
  lc_checkFailureCount :: int
  lc_checkNetworkFailureCount :: int
  lc_checkQuarantinedUntil :: "int option"
  lc_checkNextDueAt :: "int option"
  lc_checkCompiledAt :: "int option"
  lc_checkFalseSinceAt :: "int option"
  lc_checkLastLivenessAt :: "int option"
  lc_policyVersion :: int

record smart_note = lifecycle +
  sn_id :: int
  sn_sessionId :: "string option"
  sn_projectPath :: "string option"
  sn_content :: string
  sn_surfaceCondition :: "string option"
  sn_compiledProvider :: "string option"
  sn_compiledConfig :: "string option"
  sn_compiledAt :: "int option"
  sn_compileStatus :: "string option"
  sn_createdAt :: int
  sn_sourceRevision :: int
  sn_stateVersion :: int

definition SMART_NOTE_CHECK_POLICY_VERSION :: int where [config_simps]: "SMART_NOTE_CHECK_POLICY_VERSION = 1"
definition SMART_NOTE_CHECK_MAX_STALENESS_MS :: int where
  [config_simps]: "SMART_NOTE_CHECK_MAX_STALENESS_MS = 7 * 24 * 60 * 60 * 1000"
definition SMART_NOTE_CHECK_LIVENESS_RECHECK_MS :: int where
  [config_simps]: "SMART_NOTE_CHECK_LIVENESS_RECHECK_MS = 24 * 60 * 60 * 1000"
definition MAX_COMPILE_PER_RUN :: nat where [config_simps]: "MAX_COMPILE_PER_RUN = 5"
definition MAX_FALLBACK_PER_RUN :: nat where [config_simps]: "MAX_FALLBACK_PER_RUN = 3"
definition MAX_LIVENESS_PER_RUN :: nat where [config_simps]: "MAX_LIVENESS_PER_RUN = 3"
definition MAX_COMPILATION_FAILURES :: int where [config_simps]: "MAX_COMPILATION_FAILURES = 3"
definition MAX_FAILURES_BEFORE_REAUTHOR :: int where [config_simps]: "MAX_FAILURES_BEFORE_REAUTHOR = 3"

text \<open>Of a manifest, the signals and the summary; \<open>parse\<close> is \<open>JSON.parse\<close>.\<close>

definition stringArray :: "json option \<Rightarrow> string list option" where
  "stringArray v =
     (case v of
        Some (JArr xs) \<Rightarrow>
          (let arr = List.map_filter (\<lambda>x. case x of JStr s \<Rightarrow> Some s | _ \<Rightarrow> None) xs in if arr = [] then None else Some arr)
      | _ \<Rightarrow> None)"

definition manifest_signal :: "(string \<Rightarrow> json option) \<Rightarrow> string option \<Rightarrow> string option" where
  "manifest_signal parse text =
     (case text of
        None \<Rightarrow> None
      | Some t \<Rightarrow>
          (if t = [] then None
           else (case parse t of
                   None \<Rightarrow> None
                 | Some v \<Rightarrow> (case stringArray (get_field v ''signals'') of
                       Some (s # _) \<Rightarrow> Some s
                     | _ \<Rightarrow> (case get_field v ''summary'' of Some (JStr s) \<Rightarrow> Some s | _ \<Rightarrow> None)))))"

definition note_prefix :: "int \<Rightarrow> string" where
  "note_prefix noteId = ''Smart note #'' @ show_int noteId @ '': ''"

text \<open>A cut inside a surrogate pair cannot occur below code unit 256.\<close>

definition dueReadyReason :: "(string \<Rightarrow> json option) \<Rightarrow> int \<Rightarrow> string option \<Rightarrow> string" where
  "dueReadyReason parse noteId manifestJson =
     take 240 (note_prefix noteId @ (case manifest_signal parse manifestJson of
        Some s \<Rightarrow> s | None \<Rightarrow> ''compiled check returned met=true''))"

section \<open>The reducer\<close>

record artifact =
  af_compiledCheck :: string
  af_manifestJson :: string
  af_checkHash :: string
  af_checkCron :: string

datatype check_outcome = Met | NotMet | LogicFailed | NetworkFailed

datatype evaluation_phase = CompilePhase | DuePhase | LivenessPhase | FallbackPhase

datatype evaluation_outcome =
  Compiled artifact bool
  | CompilationFailed
  | DueOutcome check_outcome
  | LivenessOutcome check_outcome
  | FallbackOutcome bool

text \<open>What a reduction knows: the id, the clock, the local time and the parser.\<close>

record reduction_context =
  rc_now :: int
  rc_local :: "int \<Rightarrow> civil"
  rc_parse :: "string \<Rightarrow> json option"

definition evaluationBackoffMs :: "int \<Rightarrow> int" where
  "evaluationBackoffMs failureCount = min (24 * 60) (5 * 2 ^ nat (max 0 (failureCount - 1))) * 60 * 1000"

definition note_next_due :: "reduction_context \<Rightarrow> int \<Rightarrow> string option \<Rightarrow> string option \<Rightarrow> int" where
  "note_next_due ctx noteId cron hash =
     nextSmartNoteCheckDueAt (rc_local ctx) cron (rc_now ctx) (Some noteId) hash SMART_NOTE_CHECK_FLOOR_MS SMART_NOTE_CHECK_CEILING_MS"

definition readyFields :: "lifecycle \<Rightarrow> string \<Rightarrow> int \<Rightarrow> lifecycle" where
  "readyFields s reason now =
     s\<lparr>lc_status := NoteReady, lc_readyAt := Some now, lc_readyReason := Some reason, lc_lastCheckedAt := Some now, lc_updatedAt := now\<rparr>"

definition falseFields :: "lifecycle \<Rightarrow> reduction_context \<Rightarrow> int \<Rightarrow> string option \<Rightarrow> string option \<Rightarrow> lifecycle" where
  "falseFields s ctx noteId cron hash =
     s\<lparr>lc_lastCheckedAt := Some (rc_now ctx), lc_updatedAt := rc_now ctx, lc_checkNextDueAt := Some (note_next_due ctx noteId cron hash),
       lc_checkFailureCount := 0, lc_checkNetworkFailureCount := 0,
       lc_checkFalseSinceAt := (case lc_checkFalseSinceAt s of None \<Rightarrow> Some (rc_now ctx) | Some t \<Rightarrow> Some t)\<rparr>"

text \<open>A reduction is the next state and whether the note surfaced.\<close>

definition compiled_state :: "lifecycle \<Rightarrow> artifact \<Rightarrow> reduction_context \<Rightarrow> int \<Rightarrow> lifecycle" where
  "compiled_state pre a ctx noteId =
     pre\<lparr>lc_compiledCheck := Some (af_compiledCheck a), lc_manifestJson := Some (af_manifestJson a),
         lc_checkHash := Some (af_checkHash a), lc_checkCron := Some (af_checkCron a), lc_checkVersion := 1,
         lc_checkStatus := CheckCompiled, lc_checkFailureCount := 0, lc_checkNetworkFailureCount := 0,
         lc_checkQuarantinedUntil := None,
         lc_checkNextDueAt := Some (note_next_due ctx noteId (Some (af_checkCron a)) (Some (af_checkHash a))),
         lc_checkCompiledAt := Some (rc_now ctx),
         lc_checkFalseSinceAt := (case lc_checkFalseSinceAt pre of None \<Rightarrow> Some (rc_now ctx) | Some t \<Rightarrow> Some t),
         lc_checkLastLivenessAt := None, lc_policyVersion := SMART_NOTE_CHECK_POLICY_VERSION, lc_updatedAt := rc_now ctx\<rparr>"

definition compile_failed_state :: "lifecycle \<Rightarrow> int \<Rightarrow> lifecycle" where
  "compile_failed_state pre now =
     (let failureCount = lc_checkFailureCount pre + 1
      in pre\<lparr>lc_checkFailureCount := failureCount,
             lc_checkStatus := (if MAX_COMPILATION_FAILURES \<le> failureCount then CheckFallback else CheckUncompiled),
             lc_checkNextDueAt := Some (now + evaluationBackoffMs failureCount), lc_updatedAt := now\<rparr>)"

definition reduceCompile :: "lifecycle \<Rightarrow> (artifact \<times> bool) option \<Rightarrow> reduction_context \<Rightarrow> int \<Rightarrow> lifecycle \<times> bool" where
  "reduceCompile pre outcome ctx noteId =
     (case outcome of
        None \<Rightarrow> (compile_failed_state pre (rc_now ctx), False)
      | Some (a, met) \<Rightarrow>
          if met then (readyFields (compiled_state pre a ctx noteId) (note_prefix noteId @ ''compiled check returned met=true'') (rc_now ctx), True)
          else (falseFields (compiled_state pre a ctx noteId) ctx noteId (Some (af_checkCron a)) (Some (af_checkHash a)), False))"

definition reauthor_status :: "int \<Rightarrow> check_status" where
  "reauthor_status n = (if MAX_FAILURES_BEFORE_REAUTHOR \<le> n then CheckFailing else CheckCompiled)"

definition logic_failed_state :: "lifecycle \<Rightarrow> int \<Rightarrow> lifecycle" where
  "logic_failed_state pre now =
     (let failureCount = lc_checkFailureCount pre + 1
      in pre\<lparr>lc_checkFailureCount := failureCount, lc_checkStatus := reauthor_status failureCount,
             lc_checkNextDueAt := Some (now + evaluationBackoffMs failureCount), lc_updatedAt := now\<rparr>)"

definition network_failed_state :: "lifecycle \<Rightarrow> int \<Rightarrow> lifecycle" where
  "network_failed_state pre now =
     (let networkCount = lc_checkNetworkFailureCount pre + 1; quarantinedUntil = now + evaluationBackoffMs networkCount
      in pre\<lparr>lc_checkNetworkFailureCount := networkCount, lc_checkStatus := reauthor_status networkCount,
             lc_checkNextDueAt := Some quarantinedUntil, lc_checkQuarantinedUntil := Some quarantinedUntil, lc_updatedAt := now\<rparr>)"

definition reduceDue :: "lifecycle \<Rightarrow> check_outcome \<Rightarrow> reduction_context \<Rightarrow> int \<Rightarrow> lifecycle \<times> bool" where
  "reduceDue pre outcome ctx noteId =
     (case outcome of
        Met \<Rightarrow> (readyFields pre (dueReadyReason (rc_parse ctx) noteId (lc_manifestJson pre)) (rc_now ctx), True)
      | NotMet \<Rightarrow> (falseFields pre ctx noteId (lc_checkCron pre) (lc_checkHash pre), False)
      | LogicFailed \<Rightarrow> (logic_failed_state pre (rc_now ctx), False)
      | NetworkFailed \<Rightarrow> (network_failed_state pre (rc_now ctx), False))"

definition reduceLiveness :: "lifecycle \<Rightarrow> check_outcome \<Rightarrow> reduction_context \<Rightarrow> int \<Rightarrow> lifecycle \<times> bool" where
  "reduceLiveness pre outcome ctx noteId =
     (let attempted = pre\<lparr>lc_checkLastLivenessAt := Some (rc_now ctx), lc_updatedAt := rc_now ctx\<rparr>
      in case outcome of
           Met \<Rightarrow> (readyFields attempted (note_prefix noteId @ ''max-staleness liveness check returned met=true'') (rc_now ctx), True)
         | NotMet \<Rightarrow> (falseFields attempted ctx noteId (lc_checkCron pre) (lc_checkHash pre), False)
         | LogicFailed \<Rightarrow> (attempted\<lparr>lc_checkStatus := CheckFailing\<rparr>, False)
         | NetworkFailed \<Rightarrow> (attempted, False))"

definition reduceFallback :: "lifecycle \<Rightarrow> bool \<Rightarrow> reduction_context \<Rightarrow> int \<Rightarrow> lifecycle \<times> bool" where
  "reduceFallback pre met ctx noteId =
     (if met then (readyFields pre (note_prefix noteId @ ''read-only confirmation evaluator returned met=true'') (rc_now ctx), True)
      else (pre\<lparr>lc_lastCheckedAt := Some (rc_now ctx), lc_updatedAt := rc_now ctx, lc_checkStatus := CheckFallback\<rparr>, False))"

definition reduceSmartNoteEvaluation :: "lifecycle \<Rightarrow> evaluation_outcome \<Rightarrow> reduction_context \<Rightarrow> int \<Rightarrow> lifecycle \<times> bool" where
  "reduceSmartNoteEvaluation pre outcome ctx noteId =
     (case outcome of
        Compiled a met \<Rightarrow> reduceCompile pre (Some (a, met)) ctx noteId
      | CompilationFailed \<Rightarrow> reduceCompile pre None ctx noteId
      | DueOutcome k \<Rightarrow> reduceDue pre k ctx noteId
      | LivenessOutcome k \<Rightarrow> reduceLiveness pre k ctx noteId
      | FallbackOutcome met \<Rightarrow> reduceFallback pre met ctx noteId)"

text \<open>\<open>NOT NULL\<close> columns need no defaults here.\<close>

definition lifecycleStateFromNote :: "smart_note \<Rightarrow> lifecycle" where
  "lifecycleStateFromNote n = lifecycle.truncate n"

section \<open>One evaluation\<close>

text \<open>The answers of the compiler, the sandbox and the confirmation; \<open>True\<close> of a failure is a cancellation.\<close>

datatype compile_result = CompileOk artifact bool | CompileError bool
datatype run_result = RunOk bool | RunError bool bool

definition evaluateSmartNotePhase ::
  "evaluation_phase \<Rightarrow> smart_note \<Rightarrow> compile_result \<Rightarrow> (string \<Rightarrow> run_result) \<Rightarrow> bool option \<Rightarrow> evaluation_outcome option" where
  "evaluateSmartNotePhase phase note compile runCompiled confirmFallback =
     (let check = (case lc_compiledCheck note of
              None \<Rightarrow> Some LogicFailed
            | Some c \<Rightarrow>
                if c = [] then Some LogicFailed
                else (case runCompiled c of
                        RunOk met \<Rightarrow> Some (if met then Met else NotMet)
                      | RunError cancelled network \<Rightarrow> if cancelled then None else Some (if network then NetworkFailed else LogicFailed)))
      in case phase of
           CompilePhase \<Rightarrow>
             (case compile of
                CompileOk a met \<Rightarrow> Some (Compiled a met)
              | CompileError cancelled \<Rightarrow> if cancelled then None else Some CompilationFailed)
         | DuePhase \<Rightarrow> map_option DueOutcome check
         | LivenessPhase \<Rightarrow> map_option LivenessOutcome check
         | FallbackPhase \<Rightarrow> map_option FallbackOutcome confirmFallback)"

section \<open>The table\<close>

text \<open>\<open>nt_nextId\<close> is above every id that was ever given out (\<open>AUTOINCREMENT\<close>).\<close>

record note_table =
  nt_notes :: "smart_note list"
  nt_nextId :: int

definition smart_note_by_id :: "note_table \<Rightarrow> int \<Rightarrow> smart_note option" where
  "smart_note_by_id db noteId = find (\<lambda>n. sn_id n = noteId) (nt_notes db)"

definition update_note_row :: "int \<Rightarrow> (smart_note \<Rightarrow> smart_note) \<Rightarrow> note_table \<Rightarrow> note_table" where
  "update_note_row noteId f db = db\<lparr>nt_notes := map (\<lambda>n. if sn_id n = noteId then f n else n) (nt_notes db)\<rparr>"

definition bump_state :: "smart_note \<Rightarrow> smart_note" where
  "bump_state n = n\<lparr>sn_stateVersion := sn_stateVersion n + 1\<rparr>"

record smart_note_input =
  si_content :: string
  si_sessionId :: "string option"
  si_projectPath :: string
  si_surfaceCondition :: string
  si_compiledProvider :: "string option"
  si_compiledConfig :: "string option"
  si_compiledAt :: "int option"
  si_compileStatus :: "string option"

definition addNote :: "int \<Rightarrow> smart_note_input \<Rightarrow> note_table \<Rightarrow> note_table" where
  "addNote now i db =
     db\<lparr>nt_notes := nt_notes db @
         [\<lparr>lc_status = NotePending, lc_readyAt = None, lc_readyReason = None, lc_lastCheckedAt = None, lc_updatedAt = now,
           lc_compiledCheck = None, lc_manifestJson = None, lc_checkHash = None, lc_checkCron = None, lc_checkVersion = 0,
           lc_checkStatus = CheckUncompiled, lc_checkFailureCount = 0, lc_checkNetworkFailureCount = 0,
           lc_checkQuarantinedUntil = None, lc_checkNextDueAt = None, lc_checkCompiledAt = None, lc_checkFalseSinceAt = None,
           lc_checkLastLivenessAt = None, lc_policyVersion = 1,
           sn_id = nt_nextId db, sn_sessionId = si_sessionId i, sn_projectPath = Some (si_projectPath i), sn_content = si_content i,
           sn_surfaceCondition = Some (si_surfaceCondition i), sn_compiledProvider = si_compiledProvider i,
           sn_compiledConfig = si_compiledConfig i, sn_compiledAt = si_compiledAt i, sn_compileStatus = si_compileStatus i,
           sn_createdAt = now, sn_sourceRevision = 0, sn_stateVersion = 0\<rparr>],
        nt_nextId := nt_nextId db + 1\<rparr>"

text \<open>\<open>None\<close> is an update that is absent, \<open>Some None\<close> an explicit null.\<close>

record note_updates =
  up_content :: "string option"
  up_sessionId :: "string option option"
  up_projectPath :: "string option option"
  up_surfaceCondition :: "string option option"
  up_status :: "note_status option"
  up_lastCheckedAt :: "int option option"
  up_readyAt :: "int option option"
  up_readyReason :: "string option option"
  up_compiledProvider :: "string option"
  up_compiledConfig :: "string option"
  up_compiledAt :: "int option"
  up_compileStatus :: "string option"

definition set_or :: "'a option \<Rightarrow> 'a \<Rightarrow> 'a" where
  "set_or u x = (case u of None \<Rightarrow> x | Some v \<Rightarrow> v)"

definition condition_changed :: "smart_note \<Rightarrow> note_updates \<Rightarrow> bool" where
  "condition_changed n u \<longleftrightarrow> up_surfaceCondition u \<noteq> None \<and> up_surfaceCondition u \<noteq> Some (sn_surfaceCondition n)"

definition project_changed :: "smart_note \<Rightarrow> note_updates \<Rightarrow> bool" where
  "project_changed n u \<longleftrightarrow> up_projectPath u \<noteq> None \<and> up_projectPath u \<noteq> Some (sn_projectPath n)"

definition compiler_input_changed :: "smart_note \<Rightarrow> note_updates \<Rightarrow> bool" where
  "compiler_input_changed n u \<longleftrightarrow>
     condition_changed n u \<or> (up_content u \<noteq> None \<and> up_content u \<noteq> Some (sn_content n)) \<or> project_changed n u"

text \<open>The columns an edit sets in any case, and those that a change of the compiler's input resets.\<close>

definition plain_edit :: "int \<Rightarrow> note_updates \<Rightarrow> smart_note \<Rightarrow> smart_note" where
  "plain_edit now u n =
     n\<lparr>lc_updatedAt := now, sn_content := set_or (up_content u) (sn_content n), sn_sessionId := set_or (up_sessionId u) (sn_sessionId n),
       sn_projectPath := set_or (up_projectPath u) (sn_projectPath n),
       sn_surfaceCondition := set_or (up_surfaceCondition u) (sn_surfaceCondition n)\<rparr>"

definition provider_edit :: "smart_note \<Rightarrow> note_updates \<Rightarrow> smart_note \<Rightarrow> smart_note" where
  "provider_edit old u n =
     (if condition_changed old u then
        n\<lparr>sn_compiledProvider := up_compiledProvider u, sn_compiledConfig := up_compiledConfig u, sn_compiledAt := up_compiledAt u,
          sn_compileStatus := up_compileStatus u\<rparr>
      else if project_changed old u \<and> sn_compileStatus old = Some ''compiled'' then
        n\<lparr>sn_compiledProvider := None, sn_compiledConfig := None, sn_compiledAt := None, sn_compileStatus := None\<rparr>
      else n)"

definition reset_check :: "smart_note \<Rightarrow> smart_note" where
  "reset_check n =
     n\<lparr>lc_status := NotePending, lc_lastCheckedAt := None, lc_readyAt := None, lc_readyReason := None, lc_compiledCheck := None,
       lc_manifestJson := None, lc_checkHash := None, lc_checkCron := None, lc_checkVersion := 0, lc_checkStatus := CheckUncompiled,
       lc_checkFailureCount := 0, lc_checkNetworkFailureCount := 0, lc_checkQuarantinedUntil := None, lc_checkNextDueAt := None,
       lc_checkCompiledAt := None, lc_checkFalseSinceAt := None, lc_checkLastLivenessAt := None\<rparr>"

definition edited_note :: "int \<Rightarrow> note_updates \<Rightarrow> smart_note \<Rightarrow> smart_note" where
  "edited_note now u n =
     (if compiler_input_changed n u then
        (reset_check (provider_edit n u (plain_edit now u n)))\<lparr>sn_stateVersion := sn_stateVersion n + 1, sn_sourceRevision := sn_sourceRevision n + 1\<rparr>
      else
        (plain_edit now u n)\<lparr>lc_status := set_or (up_status u) (lc_status n),
           lc_lastCheckedAt := set_or (up_lastCheckedAt u) (lc_lastCheckedAt n), lc_readyAt := set_or (up_readyAt u) (lc_readyAt n),
           lc_readyReason := set_or (up_readyReason u) (lc_readyReason n), sn_stateVersion := sn_stateVersion n + 1\<rparr>)"

text \<open>An update without any column to set changes nothing.\<close>

definition sets_nothing :: "smart_note \<Rightarrow> note_updates \<Rightarrow> bool" where
  "sets_nothing n u \<longleftrightarrow> \<not> compiler_input_changed n u \<and> up_content u = None \<and> up_sessionId u = None \<and> up_projectPath u = None
     \<and> up_surfaceCondition u = None \<and> up_status u = None \<and> up_lastCheckedAt u = None \<and> up_readyAt u = None \<and> up_readyReason u = None"

datatype note_error = StatusWithInputEdit | LeaseLost string

definition updateNote :: "int \<Rightarrow> int \<Rightarrow> note_updates \<Rightarrow> string \<Rightarrow> note_table \<Rightarrow> note_error + note_table" where
  "updateNote now noteId u scopeProject db =
     (case smart_note_by_id db noteId of
        None \<Rightarrow> Inr db
      | Some n \<Rightarrow>
          if sn_projectPath n \<noteq> Some scopeProject then Inr db
          else if up_status u \<noteq> None \<and> compiler_input_changed n u \<and> up_status u \<noteq> Some NotePending then Inl StatusWithInputEdit
          else if sets_nothing n u then Inr db
          else Inr (update_note_row noteId (edited_note now u) db))"

definition dismissNote :: "int \<Rightarrow> int \<Rightarrow> string \<Rightarrow> note_table \<Rightarrow> note_table" where
  "dismissNote now noteId scopeProject db =
     (case smart_note_by_id db noteId of
        None \<Rightarrow> db
      | Some n \<Rightarrow>
          if sn_projectPath n \<noteq> Some scopeProject \<or> lc_status n = NoteDismissed then db
          else update_note_row noteId (\<lambda>n. bump_state (n\<lparr>lc_status := NoteDismissed, lc_updatedAt := now\<rparr>)) db)"

definition markNoteReady :: "int \<Rightarrow> int \<Rightarrow> string option \<Rightarrow> note_table \<Rightarrow> note_table" where
  "markNoteReady now noteId reason db =
     update_note_row noteId (\<lambda>n. bump_state (n\<lparr>lc_status := NoteReady, lc_readyAt := Some now, lc_readyReason := reason,
       lc_updatedAt := now, lc_lastCheckedAt := Some now\<rparr>)) db"

definition markNoteChecked :: "int \<Rightarrow> int \<Rightarrow> note_table \<Rightarrow> note_table" where
  "markNoteChecked now noteId db =
     update_note_row noteId (\<lambda>n. bump_state (n\<lparr>lc_lastCheckedAt := Some now, lc_updatedAt := now\<rparr>)) db"

definition deleteNote :: "int \<Rightarrow> note_table \<Rightarrow> note_table" where
  "deleteNote noteId db = db\<lparr>nt_notes := filter (\<lambda>n. sn_id n \<noteq> noteId) (nt_notes db)\<rparr>"

section \<open>The fenced commit\<close>

record commit_expectation =
  ce_noteId :: int
  ce_sourceRevision :: int
  ce_stateVersion :: int

definition smartNoteCommitExpectation :: "smart_note \<Rightarrow> commit_expectation" where
  "smartNoteCommitExpectation n = \<lparr>ce_noteId = sn_id n, ce_sourceRevision = sn_sourceRevision n, ce_stateVersion = sn_stateVersion n\<rparr>"

definition claimExpectedState :: "note_table \<Rightarrow> commit_expectation \<Rightarrow> bool" where
  "claimExpectedState db e \<longleftrightarrow>
     (case smart_note_by_id db (ce_noteId e) of
        None \<Rightarrow> False
      | Some n \<Rightarrow> lc_status n = NotePending \<and> sn_sourceRevision n = ce_sourceRevision e \<and> sn_stateVersion n = ce_stateVersion e)"

text \<open>The lifecycle columns of a row.\<close>

definition with_lifecycle :: "lifecycle \<Rightarrow> smart_note \<Rightarrow> smart_note" where
  "with_lifecycle s n =
     n\<lparr>lc_status := lc_status s, lc_readyAt := lc_readyAt s, lc_readyReason := lc_readyReason s, lc_lastCheckedAt := lc_lastCheckedAt s,
       lc_updatedAt := lc_updatedAt s, lc_compiledCheck := lc_compiledCheck s, lc_manifestJson := lc_manifestJson s,
       lc_checkHash := lc_checkHash s, lc_checkCron := lc_checkCron s, lc_checkVersion := lc_checkVersion s,
       lc_checkStatus := lc_checkStatus s, lc_checkFailureCount := lc_checkFailureCount s,
       lc_checkNetworkFailureCount := lc_checkNetworkFailureCount s, lc_checkQuarantinedUntil := lc_checkQuarantinedUntil s,
       lc_checkNextDueAt := lc_checkNextDueAt s, lc_checkCompiledAt := lc_checkCompiledAt s,
       lc_checkFalseSinceAt := lc_checkFalseSinceAt s, lc_checkLastLivenessAt := lc_checkLastLivenessAt s,
       lc_policyVersion := lc_policyVersion s\<rparr>"

definition applySmartNoteReduction :: "int \<Rightarrow> lifecycle \<Rightarrow> note_table \<Rightarrow> note_table" where
  "applySmartNoteReduction noteId s db = update_note_row noteId (\<lambda>n. bump_state (with_lifecycle s n)) db"

text \<open>\<open>commitSmartNoteState\<close>: the lease is read inside the transaction; a claim that fails discards the result.\<close>

definition commitSmartNoteState :: "string \<Rightarrow> commit_expectation \<Rightarrow> bool \<Rightarrow> (note_table \<Rightarrow> note_table) \<Rightarrow> note_table \<Rightarrow> note_table \<times> (note_error + bool)" where
  "commitSmartNoteState phase expected leaseHeld write db =
     (if \<not> leaseHeld then (db, Inl (LeaseLost phase))
      else if claimExpectedState db expected then (write db, Inr True) else (db, Inr False))"

section \<open>Selections\<close>

definition getPendingSmartNotes :: "note_table \<Rightarrow> string \<Rightarrow> smart_note list" where
  "getPendingSmartNotes db projectPath =
     sort_key sn_createdAt (sort_key sn_id
       (filter (\<lambda>n. sn_projectPath n = Some projectPath \<and> lc_status n = NotePending) (nt_notes db)))"

definition eligibleSmartNotes :: "note_table \<Rightarrow> string \<Rightarrow> bool \<Rightarrow> smart_note list" where
  "eligibleSmartNotes db projectPath retinaHandoff =
     filter (\<lambda>n. \<not> retinaHandoff \<or> sn_compileStatus n \<noteq> Some ''compiled'') (getPendingSmartNotes db projectPath)"

definition time_reached :: "int option \<Rightarrow> int \<Rightarrow> bool" where
  "time_reached due now = (case due of None \<Rightarrow> True | Some t \<Rightarrow> t \<le> now)"

definition int_or_0 :: "int option \<Rightarrow> int" where
  "int_or_0 x = (case x of None \<Rightarrow> 0 | Some t \<Rightarrow> t)"

definition has_current_check :: "smart_note \<Rightarrow> bool" where
  "has_current_check n \<longleftrightarrow> lc_checkStatus n = CheckCompiled \<and> lc_compiledCheck n \<noteq> None
     \<and> lc_policyVersion n = SMART_NOTE_CHECK_POLICY_VERSION"

definition is_due :: "int \<Rightarrow> smart_note \<Rightarrow> bool" where
  "is_due now n \<longleftrightarrow> has_current_check n \<and> time_reached (lc_checkQuarantinedUntil n) now \<and> time_reached (lc_checkNextDueAt n) now"

definition needs_compilation :: "int \<Rightarrow> smart_note \<Rightarrow> bool" where
  "needs_compilation now n \<longleftrightarrow> time_reached (lc_checkNextDueAt n) now
     \<and> (lc_checkStatus n = CheckUncompiled \<or> lc_checkStatus n = CheckFailing \<or> lc_compiledCheck n = None
        \<or> lc_policyVersion n \<noteq> SMART_NOTE_CHECK_POLICY_VERSION)"

definition is_stale :: "int \<Rightarrow> smart_note \<Rightarrow> bool" where
  "is_stale now n \<longleftrightarrow> has_current_check n
     \<and> (case lc_checkFalseSinceAt n of None \<Rightarrow> False | Some t \<Rightarrow> t \<le> now - SMART_NOTE_CHECK_MAX_STALENESS_MS)
     \<and> time_reached (lc_checkLastLivenessAt n) (now - SMART_NOTE_CHECK_LIVENESS_RECHECK_MS)"

definition in_fallback :: "smart_note \<Rightarrow> bool" where
  "in_fallback n \<longleftrightarrow> lc_checkStatus n = CheckFallback"

text \<open>The first \<open>max 1 limit\<close> of the notes of a kind, by a key and then by id.\<close>

definition select_notes ::
  "(smart_note \<Rightarrow> bool) \<Rightarrow> (smart_note \<Rightarrow> 'k::linorder) \<Rightarrow> note_table \<Rightarrow> string \<Rightarrow> nat \<Rightarrow> bool \<Rightarrow> smart_note list" where
  "select_notes P key db projectPath limit retinaHandoff =
     take (max 1 limit) (sort_key key (sort_key sn_id (filter P (eligibleSmartNotes db projectPath retinaHandoff))))"

definition getDueCompiledSmartNoteChecks :: "note_table \<Rightarrow> string \<Rightarrow> int \<Rightarrow> nat \<Rightarrow> bool \<Rightarrow> smart_note list" where
  "getDueCompiledSmartNoteChecks db projectPath now limit retinaHandoff =
     select_notes (is_due now) (\<lambda>n. int_or_0 (lc_checkNextDueAt n)) db projectPath limit retinaHandoff"

definition getSmartNotesNeedingCompilation :: "note_table \<Rightarrow> string \<Rightarrow> int \<Rightarrow> nat \<Rightarrow> bool \<Rightarrow> smart_note list" where
  "getSmartNotesNeedingCompilation db projectPath now limit retinaHandoff =
     select_notes (needs_compilation now) sn_createdAt db projectPath limit retinaHandoff"

definition getStaleCompiledSmartNotes :: "note_table \<Rightarrow> string \<Rightarrow> int \<Rightarrow> nat \<Rightarrow> bool \<Rightarrow> smart_note list" where
  "getStaleCompiledSmartNotes db projectPath now limit retinaHandoff =
     select_notes (is_stale now) (\<lambda>n. int_or_0 (lc_checkFalseSinceAt n)) db projectPath limit retinaHandoff"

text \<open>Notes that were never checked come first.\<close>

definition getFallbackSmartNotes :: "note_table \<Rightarrow> string \<Rightarrow> nat \<Rightarrow> bool \<Rightarrow> smart_note list" where
  "getFallbackSmartNotes db projectPath limit retinaHandoff =
     take (max 1 limit) (sort_key (\<lambda>n. if lc_lastCheckedAt n = None then 0 else (1::nat))
       (sort_key (\<lambda>n. int_or_0 (lc_lastCheckedAt n))
         (sort_key sn_id (filter in_fallback (eligibleSmartNotes db projectPath retinaHandoff)))))"

section \<open>The runs\<close>

text \<open>
  What one evaluation meets: the answers, what other writers do to the table until its commit, its clock and parsers, and
  whether the lease is held at the check before the commit and inside it.
\<close>

record phase_input =
  pi_compile :: compile_result
  pi_runCompiled :: "string \<Rightarrow> run_result"
  pi_confirm :: "bool option"
  pi_others :: "note_table \<Rightarrow> note_table"
  pi_ctx :: reduction_context
  pi_leaseBefore :: bool
  pi_leaseInside :: bool

definition phase_name :: "evaluation_phase \<Rightarrow> string" where
  "phase_name ph = (case ph of CompilePhase \<Rightarrow> ''compile'' | DuePhase \<Rightarrow> ''due check'' | LivenessPhase \<Rightarrow> ''liveness'' | FallbackPhase \<Rightarrow> ''fallback'')"

definition commit_outcome ::
  "evaluation_phase \<Rightarrow> smart_note \<Rightarrow> evaluation_outcome \<Rightarrow> reduction_context \<Rightarrow> bool \<Rightarrow> note_table \<Rightarrow> note_table \<times> (note_error + bool)" where
  "commit_outcome phase n outcome ctx leaseHeld db =
     commitSmartNoteState (phase_name phase) (smartNoteCommitExpectation n) leaseHeld
       (applySmartNoteReduction (sn_id n) (fst (reduceSmartNoteEvaluation (lifecycleStateFromNote n) outcome ctx (sn_id n)))) db"

definition runPhase ::
  "evaluation_phase \<Rightarrow> smart_note \<Rightarrow> phase_input \<Rightarrow> note_table \<Rightarrow> note_table \<times> (note_error + evaluation_outcome option)" where
  "runPhase phase n i db =
     (let db1 = pi_others i db
      in case evaluateSmartNotePhase phase n (pi_compile i) (pi_runCompiled i) (pi_confirm i) of
           None \<Rightarrow> (db1, Inr None)
         | Some outcome \<Rightarrow>
             if \<not> pi_leaseBefore i then (db1, Inl (LeaseLost (phase_name phase)))
             else (case commit_outcome phase n outcome (pi_ctx i) (pi_leaseInside i) db1 of
                     (db2, Inl e) \<Rightarrow> (db2, Inl e)
                   | (db2, Inr committed) \<Rightarrow> (db2, Inr (if committed then Some outcome else None))))"

definition surfaces :: "evaluation_outcome \<Rightarrow> bool" where
  "surfaces outcome = (case outcome of Compiled _ met \<Rightarrow> met | CompilationFailed \<Rightarrow> False | DueOutcome k \<Rightarrow> k = Met
     | LivenessOutcome k \<Rightarrow> k = Met | FallbackOutcome met \<Rightarrow> met)"

text \<open>This is the flag the reduction itself reports, whatever the state before is.\<close>

lemma reduction_surfaces: "snd (reduceSmartNoteEvaluation pre outcome ctx noteId) = surfaces outcome"
  by (cases outcome)
    (simp_all add: surfaces_def reduceSmartNoteEvaluation_def reduceCompile_def reduceDue_def reduceLiveness_def reduceFallback_def
      Let_def split: check_outcome.splits)

text \<open>The sweep over due checks; \<open>late k\<close> is the budget test before the \<open>k\<close>-th note.\<close>

record sweep_counts =
  sw_ran :: nat
  sw_surfaced :: nat
  sw_failed :: nat
  sw_networkFailed :: nat

definition count_outcome :: "evaluation_outcome option \<Rightarrow> sweep_counts \<Rightarrow> sweep_counts" where
  "count_outcome r c =
     (case r of
        Some (DueOutcome Met) \<Rightarrow> c\<lparr>sw_surfaced := sw_surfaced c + 1\<rparr>
      | Some (DueOutcome LogicFailed) \<Rightarrow> c\<lparr>sw_failed := sw_failed c + 1\<rparr>
      | Some (DueOutcome NetworkFailed) \<Rightarrow> c\<lparr>sw_networkFailed := sw_networkFailed c + 1\<rparr>
      | _ \<Rightarrow> c)"

fun due_loop ::
  "(nat \<Rightarrow> bool) \<Rightarrow> (nat \<Rightarrow> phase_input) \<Rightarrow> nat \<Rightarrow> smart_note list \<Rightarrow> note_table \<Rightarrow> sweep_counts
   \<Rightarrow> note_table \<times> (note_error + sweep_counts)" where
  "due_loop late inp k [] db c = (db, Inr c)"
| "due_loop late inp k (n # ns) db c =
     (if late k then (db, Inr c)
      else if lc_compiledCheck n = None \<or> lc_compiledCheck n = Some [] then due_loop late inp (k + 1) ns db c
      else (case runPhase DuePhase n ((inp k)\<lparr>pi_leaseBefore := True\<rparr>) db of
              (db', Inl e) \<Rightarrow> (db', Inl e)
            | (db', Inr r) \<Rightarrow> due_loop late inp (k + 1) ns db' (count_outcome r (c\<lparr>sw_ran := sw_ran c + 1\<rparr>))))"

definition runDueCompiledSmartNoteChecks ::
  "bool \<Rightarrow> string \<Rightarrow> int \<Rightarrow> nat \<Rightarrow> bool \<Rightarrow> (nat \<Rightarrow> bool) \<Rightarrow> (nat \<Rightarrow> phase_input) \<Rightarrow> note_table \<Rightarrow> note_table \<times> (note_error + sweep_counts)" where
  "runDueCompiledSmartNoteChecks wakePresent project now maxChecks retinaHandoff late inp db =
     (let none = \<lparr>sw_ran = 0, sw_surfaced = 0, sw_failed = 0, sw_networkFailed = 0\<rparr>
      in if wakePresent then (db, Inr none)
         else due_loop late inp 0 (getDueCompiledSmartNoteChecks db project now maxChecks retinaHandoff) db none)"

text \<open>
  The loops of \<open>evaluateSmartNotes\<close> over the notes of one phase: the deadline, the lease at the start of a note, the phase.
  The accumulator holds how many notes surfaced and whether any work was done.
\<close>

record loop_input =
  li_pastDeadline :: "nat \<Rightarrow> bool"
  li_leaseAtStart :: "nat \<Rightarrow> bool"
  li_phase :: "nat \<Rightarrow> phase_input"

fun phase_loop ::
  "evaluation_phase \<Rightarrow> loop_input \<Rightarrow> nat \<Rightarrow> smart_note list \<Rightarrow> note_table \<Rightarrow> nat \<times> bool \<Rightarrow> note_table \<times> (note_error + nat \<times> bool)" where
  "phase_loop ph inp k [] db acc = (db, Inr acc)"
| "phase_loop ph inp k (n # ns) db acc =
     (if li_pastDeadline inp k then (db, Inr acc)
      else if \<not> li_leaseAtStart inp k then (db, Inl (LeaseLost (phase_name ph @ '' start'')))
      else (case runPhase ph n (li_phase inp k) db of
              (db', Inl e) \<Rightarrow> (db', Inl e)
            | (db', Inr r) \<Rightarrow>
                phase_loop ph inp (k + 1) ns db'
                  (fst acc + (case r of Some outcome \<Rightarrow> (if surfaces outcome then 1 else 0) | None \<Rightarrow> 0), True)))"

record drain_report =
  dp_surfaced :: nat
  dp_claimed :: nat
  dp_drained :: bool
  dp_leaseLost :: bool
  dp_sync :: "note_table \<Rightarrow> note_table"

record evaluate_input =
  ev_wakePresent :: bool
  ev_wakePresentAtSweep :: bool
  ev_bridge :: "drain_report option"
  ev_project :: string
  ev_retinaHandoff :: bool
  ev_now :: "evaluation_phase \<Rightarrow> int"
  ev_late :: "nat \<Rightarrow> bool"
  ev_sweep :: "nat \<Rightarrow> phase_input"
  ev_loop :: "evaluation_phase \<Rightarrow> loop_input"
  ev_leaseAtEnd :: bool

record evaluate_result =
  er_surfaced :: nat
  er_pending :: nat
  er_ran :: bool

datatype evaluate_error = NoteError note_error | ModuleLeaseLost | ModuleDrainStopped

definition evaluate_module :: "drain_report \<Rightarrow> string \<Rightarrow> note_table \<Rightarrow> note_table \<times> (evaluate_error + evaluate_result)" where
  "evaluate_module d project db =
     (let db' = dp_sync d db
      in if dp_leaseLost d then (db', Inl ModuleLeaseLost)
         else if \<not> dp_drained d \<and> dp_claimed d = 0 then (db', Inl ModuleDrainStopped)
         else (db', Inr \<lparr>er_surfaced = dp_surfaced d, er_pending = length (getPendingSmartNotes db' project), er_ran = 0 < dp_claimed d\<rparr>))"

text \<open>The phases after the sweep; each selects its notes from the table as it is then.\<close>

definition phase_notes :: "evaluate_input \<Rightarrow> evaluation_phase \<Rightarrow> note_table \<Rightarrow> smart_note list" where
  "phase_notes I ph db =
     (case ph of
        CompilePhase \<Rightarrow> getSmartNotesNeedingCompilation db (ev_project I) (ev_now I ph) MAX_COMPILE_PER_RUN (ev_retinaHandoff I)
      | LivenessPhase \<Rightarrow> getStaleCompiledSmartNotes db (ev_project I) (ev_now I ph) MAX_LIVENESS_PER_RUN (ev_retinaHandoff I)
      | FallbackPhase \<Rightarrow> getFallbackSmartNotes db (ev_project I) MAX_FALLBACK_PER_RUN (ev_retinaHandoff I)
      | DuePhase \<Rightarrow> [])"

fun phases :: "evaluate_input \<Rightarrow> evaluation_phase list \<Rightarrow> note_table \<Rightarrow> nat \<times> bool \<Rightarrow> note_table \<times> (note_error + nat \<times> bool)" where
  "phases I [] db acc = (db, Inr acc)"
| "phases I (ph # phs) db acc =
     (case phase_loop ph (ev_loop I ph) 0 (phase_notes I ph db) db acc of
        (db', Inl e) \<Rightarrow> (db', Inl e)
      | (db', Inr acc') \<Rightarrow> phases I phs db' acc')"

definition evaluateSmartNotes :: "evaluate_input \<Rightarrow> note_table \<Rightarrow> note_table \<times> (evaluate_error + evaluate_result)" where
  "evaluateSmartNotes I db =
     (let project = ev_project I
      in if ev_wakePresent I then
           (db, Inr \<lparr>er_surfaced = 0, er_pending = length (getPendingSmartNotes db project), er_ran = False\<rparr>)
         else (case ev_bridge I of
           Some d \<Rightarrow> evaluate_module d project db
         | None \<Rightarrow>
             if eligibleSmartNotes db project (ev_retinaHandoff I) = [] then (db, Inr \<lparr>er_surfaced = 0, er_pending = 0, er_ran = False\<rparr>)
             else (case runDueCompiledSmartNoteChecks (ev_wakePresentAtSweep I) project (ev_now I DuePhase) 10 (ev_retinaHandoff I) (ev_late I) (ev_sweep I) db of
                     (db1, Inl e) \<Rightarrow> (db1, Inl (NoteError e))
                   | (db1, Inr c) \<Rightarrow>
                       (case phases I [CompilePhase, LivenessPhase, FallbackPhase] db1 (sw_surfaced c, 0 < sw_ran c) of
                          (db2, Inl e) \<Rightarrow> (db2, Inl (NoteError e))
                        | (db2, Inr (surfaced, didWork)) \<Rightarrow>
                            if \<not> ev_leaseAtEnd I then (db2, Inl (NoteError (LeaseLost ''final commit'')))
                            else (db2, Inr \<lparr>er_surfaced = surfaced, er_pending = length (getPendingSmartNotes db2 project), er_ran = didWork\<rparr>)))))"

section \<open>Concurrent writers\<close>

text \<open>
  Processes that evaluate notes read a row, take their time, and commit; other writers act in between. Every event is one
  statement or one transaction.
\<close>

datatype note_event =
  ReadNote nat int
  | CommitNote nat evaluation_phase evaluation_outcome reduction_context bool
  | AddNote int smart_note_input
  | EditNote int int note_updates string
  | DismissNote int int string
  | ReadyNote int int "string option"
  | CheckedNote int int
  | DeleteNote int

definition write_event :: "note_event \<Rightarrow> note_table \<Rightarrow> note_table" where
  "write_event e db =
     (case e of
        AddNote now i \<Rightarrow> addNote now i db
      | EditNote now noteId u project \<Rightarrow> (case updateNote now noteId u project db of Inl _ \<Rightarrow> db | Inr db' \<Rightarrow> db')
      | DismissNote now noteId project \<Rightarrow> dismissNote now noteId project db
      | ReadyNote now noteId reason \<Rightarrow> markNoteReady now noteId reason db
      | CheckedNote now noteId \<Rightarrow> markNoteChecked now noteId db
      | DeleteNote noteId \<Rightarrow> deleteNote noteId db
      | _ \<Rightarrow> db)"

type_synonym note_system = "note_table \<times> (nat \<rightharpoonup> smart_note)"

definition note_step :: "note_system \<Rightarrow> note_event \<Rightarrow> note_system" where
  "note_step s e =
     (case e of
        ReadNote p noteId \<Rightarrow> (fst s, (snd s)(p := smart_note_by_id (fst s) noteId))
      | CommitNote p ph outcome ctx lease \<Rightarrow>
          (case snd s p of None \<Rightarrow> s | Some n \<Rightarrow> (fst (commit_outcome ph n outcome ctx lease (fst s)), snd s))
      | _ \<Rightarrow> (write_event e (fst s), snd s))"

text \<open>The specification: an evaluation is one atomic step on the row as it is.\<close>

datatype serial_event = Evaluate int evaluation_outcome reduction_context | Write note_event

definition serial_step :: "note_table \<Rightarrow> serial_event \<Rightarrow> note_table" where
  "serial_step db e =
     (case e of
        Evaluate noteId outcome ctx \<Rightarrow>
          (case smart_note_by_id db noteId of
             Some n \<Rightarrow> if lc_status n = NotePending
               then applySmartNoteReduction noteId (fst (reduceSmartNoteEvaluation (lifecycleStateFromNote n) outcome ctx noteId)) db else db
           | None \<Rightarrow> db)
      | Write w \<Rightarrow> write_event w db)"

definition serial_of :: "note_system \<Rightarrow> note_event \<Rightarrow> serial_event list" where
  "serial_of s e =
     (case e of
        ReadNote _ _ \<Rightarrow> []
      | CommitNote p ph outcome ctx lease \<Rightarrow>
          (case snd s p of
             None \<Rightarrow> []
           | Some n \<Rightarrow> if lease \<and> claimExpectedState (fst s) (smartNoteCommitExpectation n) then [Evaluate (sn_id n) outcome ctx] else [])
      | _ \<Rightarrow> [Write e])"

fun linearize :: "note_system \<Rightarrow> note_event list \<Rightarrow> serial_event list" where
  "linearize s [] = []"
| "linearize s (e # es) = serial_of s e @ linearize (note_step s e) es"

section \<open>Optimistic commits are atomic\<close>

definition note_table_ok :: "note_table \<Rightarrow> bool" where
  "note_table_ok db \<longleftrightarrow> distinct (map sn_id (nt_notes db)) \<and> list_all (\<lambda>n. sn_id n < nt_nextId db) (nt_notes db)"

text \<open>Every row of the later table is an old row as it was, an old row with a higher version, or a new row.\<close>

definition evolves :: "note_table \<Rightarrow> note_table \<Rightarrow> bool" where
  "evolves db db' \<longleftrightarrow> nt_nextId db \<le> nt_nextId db' \<and>
     (\<forall>r'\<in>set (nt_notes db'). nt_nextId db \<le> sn_id r'
        \<or> (\<exists>r\<in>set (nt_notes db). sn_id r = sn_id r' \<and> (r' = r \<or> sn_stateVersion r < sn_stateVersion r')))"

lemma evolves_refl: "evolves db db"
  by (auto simp: evolves_def)

lemma update_evolves:
  assumes "note_table_ok db" "\<And>n. sn_id (f n) = sn_id n \<and> sn_stateVersion n < sn_stateVersion (f n)"
  shows "note_table_ok (update_note_row noteId f db) \<and> evolves db (update_note_row noteId f db)"
proof -
  have m: "sn_id \<circ> (\<lambda>n. if sn_id n = noteId then f n else n) = sn_id"
    using assms(2) by auto
  then show ?thesis
    using assms by (auto simp: note_table_ok_def evolves_def update_note_row_def list_all_iff m)
qed

lemma bumped [simp]: "sn_id (bump_state n) = sn_id n" "sn_stateVersion (bump_state n) = sn_stateVersion n + 1"
  by (simp_all add: bump_state_def)

lemma edited_version: "sn_id (edited_note now u n) = sn_id n \<and> sn_stateVersion n < sn_stateVersion (edited_note now u n)"
  by (simp add: edited_note_def reset_check_def provider_edit_def plain_edit_def)

lemma applied_version:
  assumes "note_table_ok db"
  shows "note_table_ok (applySmartNoteReduction noteId s db) \<and> evolves db (applySmartNoteReduction noteId s db)"
  unfolding applySmartNoteReduction_def using assms by (rule update_evolves) (simp add: with_lifecycle_def)

lemma write_event_evolves:
  assumes "note_table_ok db"
  shows "note_table_ok (write_event e db) \<and> evolves db (write_event e db)"
proof (cases e)
  case (AddNote now i)
  have "evolves db (addNote now i db)" by (auto simp: evolves_def addNote_def)
  moreover have "note_table_ok (addNote now i db)"
    using assms by (auto simp: note_table_ok_def addNote_def list_all_iff)
  ultimately show ?thesis using AddNote by (simp add: write_event_def)
next
  case (EditNote now noteId u project)
  then show ?thesis
    using assms update_evolves [OF assms edited_version] evolves_refl
    by (auto simp: write_event_def updateNote_def split: option.splits)
next
  case (DismissNote now noteId project)
  have "note_table_ok (update_note_row noteId (\<lambda>n. bump_state (n\<lparr>lc_status := NoteDismissed, lc_updatedAt := now\<rparr>)) db)
     \<and> evolves db (update_note_row noteId (\<lambda>n. bump_state (n\<lparr>lc_status := NoteDismissed, lc_updatedAt := now\<rparr>)) db)"
    by (rule update_evolves [OF assms]) simp
  with DismissNote assms evolves_refl show ?thesis
    by (auto simp: write_event_def dismissNote_def split: option.splits)
next
  case (ReadyNote now noteId reason)
  then show ?thesis
    unfolding write_event_def markNoteReady_def by (simp, intro update_evolves [OF assms]) simp
next
  case (CheckedNote now noteId)
  then show ?thesis
    unfolding write_event_def markNoteChecked_def by (simp, intro update_evolves [OF assms]) simp
next
  case (DeleteNote noteId)
  then show ?thesis
    using assms by (auto simp: write_event_def deleteNote_def note_table_ok_def evolves_def list_all_iff distinct_map_filter)
qed (use assms evolves_refl in \<open>simp_all add: write_event_def\<close>)

text \<open>A row with the version of a snapshot is the snapshot.\<close>

definition snapshots_ok :: "note_system \<Rightarrow> bool" where
  "snapshots_ok s \<longleftrightarrow> note_table_ok (fst s) \<and> (\<forall>p n. snd s p = Some n \<longrightarrow> sn_id n < nt_nextId (fst s) \<and>
     (\<forall>r\<in>set (nt_notes (fst s)). sn_id r = sn_id n \<longrightarrow>
        sn_stateVersion n \<le> sn_stateVersion r \<and> (sn_stateVersion r = sn_stateVersion n \<longrightarrow> r = n)))"

lemma snapshots_evolve:
  assumes "snapshots_ok (db, snaps)" "note_table_ok db'" "evolves db db'"
  shows "snapshots_ok (db', snaps)"
  unfolding snapshots_ok_def fst_conv snd_conv
proof (intro conjI allI impI ballI)
  show "note_table_ok db'" by fact
  fix p n assume p: "snaps p = Some n"
  with assms(1) have n: "sn_id n < nt_nextId db"
    "\<And>r. r \<in> set (nt_notes db) \<Longrightarrow> sn_id r = sn_id n \<Longrightarrow>
       sn_stateVersion n \<le> sn_stateVersion r \<and> (sn_stateVersion r = sn_stateVersion n \<longrightarrow> r = n)"
    by (auto simp: snapshots_ok_def)
  from n(1) assms(3) show "sn_id n < nt_nextId db'" by (simp add: evolves_def)
  fix r assume r: "r \<in> set (nt_notes db')" "sn_id r = sn_id n"
  with assms(3) n(1) obtain r0 where "r0 \<in> set (nt_notes db)" "sn_id r0 = sn_id n" "r = r0 \<or> sn_stateVersion r0 < sn_stateVersion r"
    unfolding evolves_def by fastforce
  with n(2) [of r0] show "sn_stateVersion n \<le> sn_stateVersion r" "sn_stateVersion r = sn_stateVersion n \<Longrightarrow> r = n"
    by auto
qed

lemma smart_note_by_id_Some: "smart_note_by_id db noteId = Some n \<Longrightarrow> n \<in> set (nt_notes db) \<and> sn_id n = noteId"
  by (auto simp: smart_note_by_id_def find_Some_iff)

lemma snapshots_read:
  assumes "snapshots_ok (db, snaps)"
  shows "snapshots_ok (db, snaps(p := smart_note_by_id db noteId))"
proof -
  have "r = n" if "smart_note_by_id db noteId = Some n" "r \<in> set (nt_notes db)" "sn_id r = sn_id n" for r n
    using assms that smart_note_by_id_Some [OF that(1)] by (auto simp: snapshots_ok_def note_table_ok_def inj_on_def distinct_map)
  then show ?thesis
    using assms smart_note_by_id_Some [of db noteId] by (fastforce simp: snapshots_ok_def note_table_ok_def list_all_iff)
qed

lemma commit_evolves:
  assumes "note_table_ok db"
  shows "note_table_ok (fst (commit_outcome ph n outcome ctx lease db)) \<and> evolves db (fst (commit_outcome ph n outcome ctx lease db))"
  using assms applied_version [OF assms] evolves_refl by (simp add: commit_outcome_def commitSmartNoteState_def)

lemma note_step_ok:
  assumes "snapshots_ok s"
  shows "snapshots_ok (note_step s e)"
proof -
  obtain db snaps where s: "s = (db, snaps)" by (cases s)
  have t: "note_table_ok db" using assms s by (simp add: snapshots_ok_def)
  show ?thesis
  proof (cases e)
    case (ReadNote p noteId)
    then show ?thesis using snapshots_read [of db snaps p noteId] assms s by (simp add: note_step_def)
  next
    case (CommitNote p ph outcome ctx lease)
    then show ?thesis
      using snapshots_evolve [of db snaps] commit_evolves [OF t] assms s by (simp add: note_step_def split: option.splits)
  qed (use snapshots_evolve [of db snaps] write_event_evolves [OF t] assms s in \<open>simp_all add: note_step_def\<close>)
qed

lemma step_is_serial:
  assumes "snapshots_ok s"
  shows "fst (note_step s e) = foldl serial_step (fst s) (serial_of s e)"
proof (cases e)
  case (CommitNote p ph outcome ctx lease)
  show ?thesis
  proof (cases "snd s p")
    case (Some n)
    let ?claim = "claimExpectedState (fst s) (smartNoteCommitExpectation n)"
    show ?thesis
    proof (cases "lease \<and> ?claim")
      case True
      then obtain r where r: "smart_note_by_id (fst s) (sn_id n) = Some r" "lc_status r = NotePending" "sn_stateVersion r = sn_stateVersion n"
        by (auto simp: claimExpectedState_def smartNoteCommitExpectation_def split: option.splits)
      with assms Some smart_note_by_id_Some [OF r(1)] have "r = n" by (auto simp: snapshots_ok_def)
      with r True CommitNote Some show ?thesis
        by (simp add: note_step_def serial_of_def serial_step_def commit_outcome_def commitSmartNoteState_def)
    next
      case False
      then show ?thesis
        using CommitNote Some by (auto simp: note_step_def serial_of_def commit_outcome_def commitSmartNoteState_def)
    qed
  qed (use CommitNote in \<open>simp add: note_step_def serial_of_def\<close>)
qed (simp_all add: note_step_def serial_of_def serial_step_def)

lemma run_is_serial:
  assumes "snapshots_ok s"
  shows "fst (foldl note_step s es) = foldl serial_step (fst s) (linearize s es) \<and> snapshots_ok (foldl note_step s es)"
  using assms
proof (induction es arbitrary: s)
  case (Cons e es)
  then show ?case
    using Cons.IH [OF note_step_ok [OF Cons.prems, of e]] step_is_serial [OF Cons.prems, of e] by simp
qed simp

section \<open>No pending note is forgotten\<close>

text \<open>The times a note waits for lie at most a day after \<open>T\<close>.\<close>

definition timely :: "int \<Rightarrow> 'a lifecycle_scheme \<Rightarrow> bool" where
  "timely T n \<longleftrightarrow> time_reached (lc_checkNextDueAt n) (T + SMART_NOTE_CHECK_CEILING_MS)
     \<and> time_reached (lc_checkQuarantinedUntil n) (T + SMART_NOTE_CHECK_CEILING_MS)"

definition all_timely :: "int \<Rightarrow> note_table \<Rightarrow> bool" where
  "all_timely T db \<longleftrightarrow> list_all (timely T) (nt_notes db)"

lemma backoff_bounds: "0 < evaluationBackoffMs n \<and> evaluationBackoffMs n \<le> SMART_NOTE_CHECK_CEILING_MS"
proof -
  have "1 \<le> (2::int) ^ nat (max 0 (n - 1))" by (rule one_le_power) simp
  then show ?thesis by (simp add: evaluationBackoffMs_def SMART_NOTE_CHECK_CEILING_MS_def)
qed

lemma next_due_bound: "note_next_due ctx noteId cron hash \<le> rc_now ctx + SMART_NOTE_CHECK_CEILING_MS"
  using smart_note_check_is_spaced [of SMART_NOTE_CHECK_FLOOR_MS SMART_NOTE_CHECK_CEILING_MS "rc_now ctx" "rc_local ctx" cron "Some noteId" hash]
  by (simp add: note_next_due_def SMART_NOTE_CHECK_FLOOR_MS_def SMART_NOTE_CHECK_CEILING_MS_def)

lemma false_fields_timely:
  assumes "timely T s" "rc_now ctx \<le> T"
  shows "timely T (falseFields s ctx noteId cron hash)"
  using assms next_due_bound [of ctx noteId cron hash] by (simp add: timely_def falseFields_def time_reached_def)

lemma ready_fields_timely: "timely T (readyFields s reason now) = timely T s"
  by (simp add: timely_def readyFields_def)

lemma reduction_timely:
  assumes "timely T pre" "rc_now ctx \<le> T"
  shows "timely T (fst (reduceSmartNoteEvaluation pre outcome ctx noteId))"
proof -
  have b: "rc_now ctx + evaluationBackoffMs k \<le> T + SMART_NOTE_CHECK_CEILING_MS" for k
    using backoff_bounds [of k] assms(2) by linarith
  have c: "timely T (compiled_state pre a ctx noteId)" for a
    using next_due_bound [of ctx noteId "Some (af_checkCron a)" "Some (af_checkHash a)"] assms(2)
    by (simp add: timely_def compiled_state_def time_reached_def)
  have failed: "timely T (compile_failed_state pre (rc_now ctx))" "timely T (logic_failed_state pre (rc_now ctx))"
    "timely T (network_failed_state pre (rc_now ctx))"
    using b assms(1)
    by (simp_all add: compile_failed_state_def logic_failed_state_def network_failed_state_def timely_def time_reached_def Let_def)
  have attempt: "timely T (pre\<lparr>lc_checkLastLivenessAt := x, lc_updatedAt := y\<rparr>)"
    "timely T (pre\<lparr>lc_checkLastLivenessAt := x, lc_updatedAt := y, lc_checkStatus := z\<rparr>)"
    "timely T (pre\<lparr>lc_lastCheckedAt := x, lc_updatedAt := y, lc_checkStatus := z\<rparr>)" for x y z
    using assms(1) by (simp_all add: timely_def)
  show ?thesis
  proof (cases outcome)
    case (Compiled a met)
    with c [of a] show ?thesis
      by (simp add: reduceSmartNoteEvaluation_def reduceCompile_def ready_fields_timely false_fields_timely [OF _ assms(2)])
  next
    case CompilationFailed
    with failed show ?thesis by (simp add: reduceSmartNoteEvaluation_def reduceCompile_def)
  next
    case (DueOutcome k)
    with failed assms(1) show ?thesis
      by (cases k) (simp_all add: reduceSmartNoteEvaluation_def reduceDue_def ready_fields_timely false_fields_timely [OF _ assms(2)])
  next
    case (LivenessOutcome k)
    with attempt show ?thesis
      by (cases k) (simp_all add: reduceSmartNoteEvaluation_def reduceLiveness_def ready_fields_timely
          false_fields_timely [OF _ assms(2)] Let_def)
  next
    case (FallbackOutcome met)
    with assms(1) attempt(3) show ?thesis
      by (simp add: reduceSmartNoteEvaluation_def reduceFallback_def ready_fields_timely)
  qed
qed

definition event_time :: "note_event \<Rightarrow> int option" where
  "event_time e =
     (case e of ReadNote _ _ \<Rightarrow> None | CommitNote _ _ _ ctx _ \<Rightarrow> Some (rc_now ctx) | AddNote now _ \<Rightarrow> Some now
        | EditNote now _ _ _ \<Rightarrow> Some now | DismissNote now _ _ \<Rightarrow> Some now | ReadyNote now _ _ \<Rightarrow> Some now
        | CheckedNote now _ \<Rightarrow> Some now | DeleteNote _ \<Rightarrow> None)"

lemma update_timely:
  assumes "all_timely T db" "\<And>n. timely T n \<Longrightarrow> timely T (f n)"
  shows "all_timely T (update_note_row noteId f db)"
  using assms by (auto simp: all_timely_def update_note_row_def list_all_iff)

lemma edited_timely: "timely T n \<Longrightarrow> timely T (edited_note now u n)"
  by (simp add: timely_def edited_note_def reset_check_def provider_edit_def plain_edit_def time_reached_def)

lemma write_timely:
  assumes "all_timely T db"
  shows "all_timely T (write_event e db)"
proof (cases e)
  case (EditNote now noteId u project)
  then show ?thesis
    using assms update_timely [OF assms edited_timely] by (auto simp: write_event_def updateNote_def split: option.splits)
next
  case (DismissNote now noteId project)
  then show ?thesis
    using assms by (auto simp: write_event_def dismissNote_def bump_state_def timely_def intro!: update_timely split: option.splits)
next
  case (ReadyNote now noteId reason)
  then show ?thesis
    unfolding write_event_def markNoteReady_def by (simp, intro update_timely [OF assms]) (simp add: timely_def bump_state_def)
next
  case (CheckedNote now noteId)
  then show ?thesis
    unfolding write_event_def markNoteChecked_def by (simp, intro update_timely [OF assms]) (simp add: timely_def bump_state_def)
next
  case (AddNote now i)
  with assms show ?thesis by (simp add: write_event_def addNote_def all_timely_def timely_def time_reached_def)
qed (use assms in \<open>auto simp: write_event_def deleteNote_def all_timely_def list_all_iff\<close>)

lemma serial_timely:
  assumes "all_timely T db" "\<And>noteId outcome ctx. e = Evaluate noteId outcome ctx \<Longrightarrow> rc_now ctx \<le> T"
  shows "all_timely T (serial_step db e)"
proof (cases e)
  case (Evaluate noteId outcome ctx)
  have "timely T (bump_state (with_lifecycle s n)) = timely T s" for s n
    by (simp add: timely_def bump_state_def with_lifecycle_def)
  moreover have "timely T (lifecycleStateFromNote n)" if "smart_note_by_id db noteId = Some n" for n
    using assms(1) smart_note_by_id_Some [OF that]
    by (auto simp: all_timely_def list_all_iff timely_def lifecycleStateFromNote_def lifecycle.truncate_def)
  ultimately show ?thesis
    using assms Evaluate reduction_timely
    by (auto simp: serial_step_def applySmartNoteReduction_def intro!: update_timely split: option.splits)
qed (use assms write_timely in \<open>simp add: serial_step_def\<close>)

definition in_time :: "int \<Rightarrow> note_event \<Rightarrow> bool" where
  "in_time T e \<longleftrightarrow> (case event_time e of None \<Rightarrow> True | Some t \<Rightarrow> t \<le> T)"

lemma serial_of_time:
  assumes "in_time T e" "Evaluate noteId outcome ctx \<in> set (serial_of s e)"
  shows "rc_now ctx \<le> T"
  using assms by (cases e) (auto simp: in_time_def serial_of_def event_time_def split: option.splits if_splits)

lemma linearize_times:
  assumes "list_all (in_time T) es" "Evaluate noteId outcome ctx \<in> set (linearize s es)"
  shows "rc_now ctx \<le> T"
  using assms
proof (induction es arbitrary: s)
  case (Cons e es)
  from Cons.prems(2) have "Evaluate noteId outcome ctx \<in> set (serial_of s e) \<or> Evaluate noteId outcome ctx \<in> set (linearize (note_step s e) es)"
    by simp
  with Cons.IH [of "note_step s e"] Cons.prems(1) serial_of_time [of T e noteId outcome ctx s] show ?case by fastforce
qed simp

lemma run_timely:
  assumes "all_timely T db" "\<And>noteId outcome ctx. Evaluate noteId outcome ctx \<in> set ws \<Longrightarrow> rc_now ctx \<le> T"
  shows "all_timely T (foldl serial_step db ws)"
  using assms
proof (induction ws arbitrary: db)
  case (Cons w ws)
  have "all_timely T (serial_step db w)" using Cons.prems by (intro serial_timely) auto
  from Cons.IH [OF this] Cons.prems(2) show ?case by auto
qed simp

lemma time_reached_mono: "time_reached x s \<Longrightarrow> s \<le> t \<Longrightarrow> time_reached x t"
  by (auto simp: time_reached_def split: option.splits)

lemma waiting_over:
  assumes "timely T n" "T + SMART_NOTE_CHECK_CEILING_MS \<le> t"
  shows "is_due t n \<or> needs_compilation t n \<or> in_fallback n"
proof -
  have "time_reached (lc_checkNextDueAt n) t" "time_reached (lc_checkQuarantinedUntil n) t"
    using assms time_reached_mono by (auto simp: timely_def)
  then show ?thesis
    by (cases "lc_checkStatus n") (auto simp: is_due_def needs_compilation_def in_fallback_def has_current_check_def)
qed

lemma selected:
  assumes "n \<in> set (eligibleSmartNotes db project retina)" "P n"
  shows "select_notes P key db project limit retina \<noteq> []"
proof -
  have "n \<in> set (sort_key key (sort_key sn_id (filter P (eligibleSmartNotes db project retina))))" using assms by simp
  then have "sort_key key (sort_key sn_id (filter P (eligibleSmartNotes db project retina))) \<noteq> []" by (metis empty_iff empty_set)
  then show ?thesis unfolding select_notes_def take_eq_Nil by simp
qed

lemma selected_fallback:
  assumes "n \<in> set (eligibleSmartNotes db project retina)" "in_fallback n"
  shows "getFallbackSmartNotes db project limit retina \<noteq> []"
proof -
  let ?xs = "sort_key (\<lambda>n. if lc_lastCheckedAt n = None then 0 else (1::nat)) (sort_key (\<lambda>n. int_or_0 (lc_lastCheckedAt n))
      (sort_key sn_id (filter in_fallback (eligibleSmartNotes db project retina))))"
  have "n \<in> set ?xs" using assms by simp
  then have "?xs \<noteq> []" by (metis empty_iff empty_set)
  then show ?thesis unfolding getFallbackSmartNotes_def take_eq_Nil by simp
qed

section \<open>Properties\<close>

text \<open>
  C32: Evaluations are atomic. However the reads and commits of any number of evaluating processes interleave with each
  other and with the other writers, the table is the one that a run without snapshots leaves, in which every commit that
  was accepted evaluates the row as it is at that moment, and every discarded commit is absent.
\<close>

theorem evaluations_are_atomic:
  assumes "note_table_ok db"
  shows "fst (foldl note_step (db, Map.empty) es) = foldl serial_step db (linearize (db, Map.empty) es)"
  using run_is_serial [of "(db, Map.empty)" es] assms by (simp add: snapshots_ok_def)

definition example_note_input :: smart_note_input where
  "example_note_input = \<lparr>si_content = ''tell me'', si_sessionId = None, si_projectPath = ''p'', si_surfaceCondition = ''tag exists'',
     si_compiledProvider = None, si_compiledConfig = None, si_compiledAt = None, si_compileStatus = None\<rparr>"

definition example_reduction_context :: "int \<Rightarrow> reduction_context" where
  "example_reduction_context now = \<lparr>rc_now = now, rc_local = (\<lambda>t. example_sunday), rc_parse = (\<lambda>s. None)\<rparr>"

definition no_notes :: note_table where
  "no_notes = \<lparr>nt_notes = [], nt_nextId = 1\<rparr>"

text \<open>Two processes read a new note; both find its compilation failed; the second commit is discarded.\<close>

definition example_events :: "note_event list" where
  "example_events = [AddNote 10 example_note_input, ReadNote 0 1, ReadNote 1 1,
     CommitNote 0 CompilePhase CompilationFailed (example_reduction_context 20) True,
     CommitNote 1 CompilePhase CompilationFailed (example_reduction_context 30) True]"

theorem evaluations_are_atomic_witness:
  "fst (foldl note_step (no_notes, Map.empty) example_events)
     = foldl serial_step no_notes [Write (AddNote 10 example_note_input), Evaluate 1 CompilationFailed (example_reduction_context 20)]"
proof -
  have "linearize (no_notes, Map.empty) example_events
     = [Write (AddNote 10 example_note_input), Evaluate 1 CompilationFailed (example_reduction_context 20)]"
    by (simp add: example_events_def serial_of_def note_step_def write_event_def addNote_def no_notes_def smart_note_by_id_def
        claimExpectedState_def smartNoteCommitExpectation_def commit_outcome_def commitSmartNoteState_def
        applySmartNoteReduction_def update_note_row_def reduceSmartNoteEvaluation_def reduceCompile_def
        compile_failed_state_def with_lifecycle_def lifecycleStateFromNote_def lifecycle.truncate_def bump_state_def Let_def)
  then show ?thesis using evaluations_are_atomic [of no_notes example_events] by (simp add: note_table_ok_def no_notes_def)
qed

text \<open>
  C33: No pending note is forgotten. A day after the last clock reading of a run at the latest, every note that is still
  pending is due, needs compilation or is in fallback, and then the selection of that kind is not empty, whatever its
  limit is.
\<close>

theorem pending_note_is_selected_within_a_day:
  assumes "note_table_ok db" "all_timely T db"
    and "list_all (in_time T) es"
    and "n \<in> set (eligibleSmartNotes (fst (foldl note_step (db, Map.empty) es)) project retina)"
    and "T + SMART_NOTE_CHECK_CEILING_MS \<le> t"
  shows "let db' = fst (foldl note_step (db, Map.empty) es)
     in (is_due t n \<and> getDueCompiledSmartNoteChecks db' project t limit retina \<noteq> [])
      \<or> (needs_compilation t n \<and> getSmartNotesNeedingCompilation db' project t limit retina \<noteq> [])
      \<or> (in_fallback n \<and> getFallbackSmartNotes db' project limit retina \<noteq> [])"
proof -
  let ?db = "fst (foldl note_step (db, Map.empty) es)"
  have "?db = foldl serial_step db (linearize (db, Map.empty) es)"
    using run_is_serial [of "(db, Map.empty)" es] assms(1) by (simp add: snapshots_ok_def)
  then have "all_timely T ?db" using run_timely [OF assms(2)] linearize_times [OF assms(3)] by simp
  moreover have "n \<in> set (nt_notes ?db)" using assms(4) by (simp add: eligibleSmartNotes_def getPendingSmartNotes_def)
  ultimately have "is_due t n \<or> needs_compilation t n \<or> in_fallback n"
    using waiting_over [OF _ assms(5)] by (simp add: all_timely_def list_all_iff)
  then show ?thesis
    using selected [OF assms(4), of "is_due t"] selected [OF assms(4), of "needs_compilation t"] selected_fallback [OF assms(4)]
    by (auto simp: getDueCompiledSmartNoteChecks_def getSmartNotesNeedingCompilation_def Let_def)
qed

theorem pending_note_is_selected_within_a_day_witness:
  "getSmartNotesNeedingCompilation (addNote 10 example_note_input no_notes) ''p'' (10 + SMART_NOTE_CHECK_CEILING_MS) 5 False \<noteq> []"
proof -
  let ?db = "addNote 10 example_note_input no_notes"
  obtain n where n: "nt_notes ?db = [n]" "sn_projectPath n = Some ''p''" "lc_status n = NotePending" "lc_checkStatus n = CheckUncompiled"
    by (simp add: addNote_def no_notes_def example_note_input_def)
  have run: "fst (note_step (no_notes, Map.empty) (AddNote 10 example_note_input)) = ?db"
    by (simp add: note_step_def write_event_def)
  have "n \<in> set (eligibleSmartNotes ?db ''p'' False)"
    using n by (simp add: eligibleSmartNotes_def getPendingSmartNotes_def)
  moreover have "note_table_ok no_notes" "all_timely 10 no_notes" "list_all (in_time 10) [AddNote 10 example_note_input]"
    by (simp_all add: note_table_ok_def all_timely_def no_notes_def in_time_def event_time_def)
  ultimately show ?thesis
    using pending_note_is_selected_within_a_day [of no_notes 10 "[AddNote 10 example_note_input]" n "''p''" False
        "10 + SMART_NOTE_CHECK_CEILING_MS" 5] n(4)
    by (simp add: run is_due_def has_current_check_def in_fallback_def Let_def)
qed

text \<open>
  The failures of a check and of its compilation share one counter: a note whose check failed three times is compiled
  again, and goes to the fallback at the first failure of that compilation already.
\<close>

lemma logic_failures_count_as_compilation_failures:
  assumes "lc_checkFailureCount pre = 2"
  shows "lc_checkStatus (logic_failed_state pre now) = CheckFailing"
    and "lc_checkStatus (compile_failed_state (logic_failed_state pre now) now') = CheckFallback"
  using assms
  by (simp_all add: logic_failed_state_def compile_failed_state_def reauthor_status_def Let_def
      MAX_FAILURES_BEFORE_REAUTHOR_def MAX_COMPILATION_FAILURES_def)

end
