(* ===== verification/Marker_Rows.thy ===== *)
theory Marker_Rows
  imports Tag_Table
begin

text \<open>
  Compaction markers as rows of the host's database (\<open>features/magic-context/compaction-marker.ts\<close>). A marker is a
  \<open>compaction\<close> part on a user message, a summary message whose parent is that message, and the text part of the
  summary; OpenCode hides the history before the newest marker. The theory has the two tables, the canonical order of
  messages, the writes that inject and remove a marker, the scan for markers, and the removal of all markers of a
  session. The hash of an id's seed is a parameter.
\<close>

section \<open>The host's tables\<close>

record host_message =
  hm_id :: string
  hm_sessionId :: string
  hm_timeCreated :: int
  hm_timeUpdated :: int
  hm_data :: json

record host_part =
  hp_id :: string
  hp_messageId :: string
  hp_sessionId :: string
  hp_timeCreated :: int
  hp_timeUpdated :: int
  hp_data :: json

record host_db =
  hd_messages :: "host_message list"
  hd_parts :: "host_part list"

text \<open>
  \<open>COALESCE(json_extract(data, '$.k'), '') = s\<close> and \<open>COALESCE(json_extract(data, '$.k'), 0) = 1\<close>: numbers and booleans
  are no texts for SQLite, and an object or array is its own text, which is none of the texts compared with.
\<close>

definition text_is :: "json \<Rightarrow> string \<Rightarrow> string \<Rightarrow> bool" where
  "text_is d k s = (case get_field d k of None \<Rightarrow> s = [] | Some JNull \<Rightarrow> s = [] | Some (JStr t) \<Rightarrow> t = s | Some _ \<Rightarrow> False)"

definition flag_is_one :: "json \<Rightarrow> string \<Rightarrow> bool" where
  "flag_is_one d k = (case get_field d k of Some (JBool b) \<Rightarrow> b | Some (JNum x) \<Rightarrow> x = 1 | _ \<Rightarrow> False)"

text \<open>\<open>INSERT ... ON CONFLICT(id) DO UPDATE\<close> of all other columns.\<close>

definition upsert_by :: "('r \<Rightarrow> string) \<Rightarrow> 'r \<Rightarrow> 'r list \<Rightarrow> 'r list" where
  "upsert_by k r rows = (if list_ex (\<lambda>x. k x = k r) rows then map (\<lambda>x. if k x = k r then r else x) rows else rows @ [r])"

lemma set_upsert_by: "set (upsert_by k r rows) = insert r {x \<in> set rows. k x \<noteq> k r}"
  by (auto simp: upsert_by_def list_ex_iff)

lemma distinct_upsert_by:
  assumes "distinct (map k rows)"
  shows "distinct (map k (upsert_by k r rows))"
proof (cases "list_ex (\<lambda>x. k x = k r) rows")
  case True
  have "map k (upsert_by k r rows) = map k rows"
    using True by (simp add: upsert_by_def o_def)
  with assms show ?thesis by simp
next
  case False
  then have "k r \<notin> k ` set rows" by (force simp: list_ex_iff)
  with False assms show ?thesis by (simp add: upsert_by_def)
qed

definition upsert_message :: "host_message \<Rightarrow> host_db \<Rightarrow> host_db" where
  "upsert_message m db = db\<lparr>hd_messages := upsert_by hm_id m (hd_messages db)\<rparr>"

definition upsertPartRow :: "host_part \<Rightarrow> host_db \<Rightarrow> host_db" where
  "upsertPartRow p db = db\<lparr>hd_parts := upsert_by hp_id p (hd_parts db)\<rparr>"

definition delete_messages :: "(host_message \<Rightarrow> bool) \<Rightarrow> host_db \<Rightarrow> host_db" where
  "delete_messages P db = db\<lparr>hd_messages := filter (\<lambda>m. \<not> P m) (hd_messages db)\<rparr>"

definition delete_parts :: "(host_part \<Rightarrow> bool) \<Rightarrow> host_db \<Rightarrow> host_db" where
  "delete_parts P db = db\<lparr>hd_parts := filter (\<lambda>p. \<not> P p) (hd_parts db)\<rparr>"

lemmas row_writes = upsert_message_def upsertPartRow_def delete_messages_def delete_parts_def

definition completed_summary :: "host_message \<Rightarrow> bool" where
  "completed_summary m \<longleftrightarrow> flag_is_one (hm_data m) ''summary'' \<and> text_is (hm_data m) ''finish'' ''stop''"

definition is_compaction :: "host_part \<Rightarrow> bool" where
  "is_compaction p \<longleftrightarrow> text_is (hp_data p) ''type'' ''compaction''"

section \<open>Ids\<close>

definition BASE62_CHARS :: string where
  "BASE62_CHARS = ''0123456789ABCDEFGHIJKLMNOPQRSTUVWXYZabcdefghijklmnopqrstuvwxyz''"

fun base62_digits :: "nat \<Rightarrow> nat \<Rightarrow> string" where
  "base62_digits 0 v = []"
| "base62_digits (Suc n) v = base62_digits n (v div 62) @ [BASE62_CHARS ! (v mod 62)]"

definition deterministicBase62 :: "(string \<Rightarrow> nat) \<Rightarrow> string \<Rightarrow> nat \<Rightarrow> string" where
  "deterministicBase62 sha256 seed n = base62_digits n (sha256 seed)"

text \<open>Twelve hexadecimal digits of the time and a counter, then fourteen of the hash.\<close>

definition generateId :: "(string \<Rightarrow> nat) \<Rightarrow> string \<Rightarrow> int \<Rightarrow> nat \<Rightarrow> string \<Rightarrow> string" where
  "generateId sha256 prefix timestampMs counter identity =
     (let encoded = (nat (max 0 timestampMs) * 0x1000 + counter) mod 2 ^ 48
      in prefix @ ''_'' @ pad_start 12 (CHR ''0'') (show_base 16 encoded)
           @ deterministicBase62 sha256 (prefix @ [CHR 0x00] @ identity) 14)"

definition generateMessageId :: "(string \<Rightarrow> nat) \<Rightarrow> int \<Rightarrow> nat \<Rightarrow> string \<Rightarrow> string" where
  "generateMessageId sha256 t counter identity = generateId sha256 ''msg'' t counter identity"

definition generatePartId :: "(string \<Rightarrow> nat) \<Rightarrow> int \<Rightarrow> nat \<Rightarrow> string \<Rightarrow> string" where
  "generatePartId sha256 t counter identity = generateId sha256 ''prt'' t counter identity"

section \<open>The canonical order\<close>

definition key_less :: "int \<times> string \<Rightarrow> int \<times> string \<Rightarrow> bool" where
  "key_less a b \<longleftrightarrow> fst a < fst b \<or> (fst a = fst b \<and> str_less (snd a) (snd b))"

definition sort_key_of :: "host_message \<Rightarrow> int \<times> string" where
  "sort_key_of m = (hm_timeCreated m, hm_id m)"

definition getNonSummaryMessageSortKey :: "host_db \<Rightarrow> string \<Rightarrow> string \<Rightarrow> (int \<times> string) option" where
  "getNonSummaryMessageSortKey db sessionId messageId =
     map_option sort_key_of
       (find (\<lambda>m. hm_sessionId m = sessionId \<and> hm_id m = messageId \<and> \<not> completed_summary m) (hd_messages db))"

text \<open>\<open>ORDER BY time_created DESC, id DESC LIMIT 1\<close>\<close>

definition newest_message :: "host_message list \<Rightarrow> host_message option" where
  "newest_message ms =
     foldl (\<lambda>best m. case best of None \<Rightarrow> Some m | Some b \<Rightarrow> if key_less (sort_key_of b) (sort_key_of m) then Some m else best) None ms"

definition is_user :: "host_message \<Rightarrow> bool" where
  "is_user m \<longleftrightarrow> text_is (hm_data m) ''role'' ''user''"

definition at_or_before :: "int \<times> string \<Rightarrow> host_message \<Rightarrow> bool" where
  "at_or_before target m \<longleftrightarrow> hm_timeCreated m < fst target \<or> (hm_timeCreated m = fst target \<and> \<not> str_less (snd target) (hm_id m))"

definition findBoundaryUserMessage :: "host_db \<Rightarrow> string \<Rightarrow> string \<Rightarrow> (string \<times> int) option" where
  "findBoundaryUserMessage db sessionId endMessageId =
     (case getNonSummaryMessageSortKey db sessionId endMessageId of
        None \<Rightarrow> None
      | Some target \<Rightarrow>
          map_option (\<lambda>m. (hm_id m, hm_timeCreated m))
            (newest_message (filter (\<lambda>m. hm_sessionId m = sessionId \<and> \<not> completed_summary m \<and> is_user m \<and> at_or_before target m)
               (hd_messages db))))"

definition compareOpenCodeMessagesByCanonicalOrder :: "host_db \<Rightarrow> string \<Rightarrow> string \<Rightarrow> string \<Rightarrow> int option" where
  "compareOpenCodeMessagesByCanonicalOrder db sessionId leftMessageId rightMessageId =
     (case (getNonSummaryMessageSortKey db sessionId leftMessageId, getNonSummaryMessageSortKey db sessionId rightMessageId) of
        (Some left, Some right) \<Rightarrow> Some (if key_less left right then -1 else if key_less right left then 1 else 0)
      | _ \<Rightarrow> None)"

definition getOpenCodeMessageById :: "host_db \<Rightarrow> string \<Rightarrow> string \<Rightarrow> host_message option" where
  "getOpenCodeMessageById db sessionId messageId = find (\<lambda>m. hm_sessionId m = sessionId \<and> hm_id m = messageId) (hd_messages db)"

section \<open>Injecting a marker\<close>

record marker_ids =
  mk_boundaryMessageId :: string
  mk_summaryMessageId :: string
  mk_compactionPartId :: string
  mk_summaryPartId :: string

text \<open>What a write of another database answers: done, refused, or the process dies before it.\<close>

datatype write_answer = WriteDone | WriteFails | ProcessDies

definition has_marker_text :: "host_db \<Rightarrow> string \<Rightarrow> host_message \<Rightarrow> bool" where
  "has_marker_text db summaryText m \<longleftrightarrow>
     list_ex (\<lambda>p. hp_sessionId p = hm_sessionId m \<and> hp_messageId p = hm_id m
        \<and> text_is (hp_data p) ''type'' ''text'' \<and> text_is (hp_data p) ''text'' summaryText) (hd_parts db)"

definition legacy_summary :: "host_db \<Rightarrow> string \<Rightarrow> string \<Rightarrow> string \<Rightarrow> string \<Rightarrow> host_message \<Rightarrow> bool" where
  "legacy_summary db sessionId boundaryMessageId summaryText summaryMessageId m \<longleftrightarrow>
     hm_sessionId m = sessionId \<and> hm_id m \<noteq> summaryMessageId \<and> completed_summary m
     \<and> text_is (hm_data m) ''parentID'' boundaryMessageId \<and> has_marker_text db summaryText m"

definition delete_summaries :: "string \<Rightarrow> string list \<Rightarrow> host_db \<Rightarrow> host_db" where
  "delete_summaries sessionId ids db =
     delete_messages (\<lambda>m. hm_sessionId m = sessionId \<and> hm_id m \<in> set ids)
       (delete_parts (\<lambda>p. hp_sessionId p = sessionId \<and> hp_messageId p \<in> set ids) db)"

definition removeLegacyMarkerLineageRows :: "string \<Rightarrow> string \<Rightarrow> string \<Rightarrow> string \<Rightarrow> string \<Rightarrow> host_db \<Rightarrow> host_db" where
  "removeLegacyMarkerLineageRows sessionId boundaryMessageId summaryText summaryMessageId compactionPartId db =
     (let legacySummaryIds = map hm_id (filter (legacy_summary db sessionId boundaryMessageId summaryText summaryMessageId) (hd_messages db))
      in if legacySummaryIds = [] then db
         else delete_parts (\<lambda>p. hp_sessionId p = sessionId \<and> hp_messageId p = boundaryMessageId \<and> hp_id p \<noteq> compactionPartId
                \<and> is_compaction p \<and> flag_is_one (hp_data p) ''auto'')
              (delete_summaries sessionId legacySummaryIds db))"

definition canonical_part_data :: json where
  "canonical_part_data = JObj [(''type'', JStr ''compaction''), (''auto'', JBool True)]"

definition summary_data :: "string \<Rightarrow> int \<Rightarrow> string \<Rightarrow> json" where
  "summary_data boundaryId boundaryTime directory = JObj
     [(''role'', JStr ''assistant''), (''parentID'', JStr boundaryId), (''summary'', JBool True), (''finish'', JStr ''stop''),
      (''mode'', JStr ''compaction''), (''agent'', JStr ''compaction''),
      (''path'', JObj [(''cwd'', JStr directory), (''root'', JStr directory)]), (''cost'', JNum 0),
      (''tokens'', JObj [(''input'', JNum 0), (''output'', JNum 0), (''reasoning'', JNum 0),
          (''cache'', JObj [(''read'', JNum 0), (''write'', JNum 0)])]),
      (''modelID'', JStr ''magic-context''), (''providerID'', JStr ''magic-context''),
      (''time'', JObj [(''created'', JNum (of_int (boundaryTime + 1)))])]"

definition text_data :: "string \<Rightarrow> json" where
  "text_data summaryText = JObj [(''type'', JStr ''text''), (''text'', JStr summaryText)]"

text \<open>The ids of a marker depend on the session, the target and the time of the boundary only.\<close>

definition minted_ids :: "(string \<Rightarrow> nat) \<Rightarrow> string \<Rightarrow> string \<Rightarrow> string \<times> int \<Rightarrow> marker_ids" where
  "minted_ids sha256 sessionId endMessageId boundary =
     (let identity = sessionId @ [CHR 0x00] @ endMessageId; t = snd boundary
      in \<lparr>mk_boundaryMessageId = fst boundary,
          mk_summaryMessageId = generateMessageId sha256 (t + 1) 1 (identity @ [CHR 0x00] @ ''summary-message''),
          mk_compactionPartId = generatePartId sha256 t 1 (identity @ [CHR 0x00] @ ''compaction-part''),
          mk_summaryPartId = generatePartId sha256 (t + 1) 2 (identity @ [CHR 0x00] @ ''summary-part'')\<rparr>)"

definition marker_compaction_part :: "string \<Rightarrow> marker_ids \<Rightarrow> int \<Rightarrow> host_part" where
  "marker_compaction_part sessionId k t =
     \<lparr>hp_id = mk_compactionPartId k, hp_messageId = mk_boundaryMessageId k, hp_sessionId = sessionId, hp_timeCreated = t,
       hp_timeUpdated = t, hp_data = canonical_part_data\<rparr>"

definition marker_summary :: "string \<Rightarrow> marker_ids \<Rightarrow> int \<Rightarrow> string \<Rightarrow> host_message" where
  "marker_summary sessionId k t directory =
     \<lparr>hm_id = mk_summaryMessageId k, hm_sessionId = sessionId, hm_timeCreated = t + 1, hm_timeUpdated = t + 1,
       hm_data = summary_data (mk_boundaryMessageId k) t directory\<rparr>"

definition marker_summary_part :: "string \<Rightarrow> marker_ids \<Rightarrow> int \<Rightarrow> string \<Rightarrow> host_part" where
  "marker_summary_part sessionId k t summaryText =
     \<lparr>hp_id = mk_summaryPartId k, hp_messageId = mk_summaryMessageId k, hp_sessionId = sessionId, hp_timeCreated = t + 1,
       hp_timeUpdated = t + 1, hp_data = text_data summaryText\<rparr>"

text \<open>The one transaction of an injection.\<close>

definition write_marker :: "string \<Rightarrow> marker_ids \<Rightarrow> int \<Rightarrow> string \<Rightarrow> string \<Rightarrow> host_db \<Rightarrow> host_db" where
  "write_marker sessionId k t summaryText directory db =
     upsertPartRow (marker_summary_part sessionId k t summaryText)
       (upsert_message (marker_summary sessionId k t directory)
         (upsertPartRow (marker_compaction_part sessionId k t)
           (removeLegacyMarkerLineageRows sessionId (mk_boundaryMessageId k) summaryText (mk_summaryMessageId k) (mk_compactionPartId k) db)))"

record inject_args =
  ia_sessionId :: string
  ia_endMessageId :: string
  ia_summaryText :: string
  ia_directory :: string
  ia_resolvedBoundary :: "(string \<times> int) option"

text \<open>\<open>None\<close> in the first component: the process died.\<close>

definition injectCompactionMarker ::
  "(string \<Rightarrow> nat) \<Rightarrow> bool \<Rightarrow> write_answer \<Rightarrow> inject_args \<Rightarrow> host_db \<Rightarrow> host_db \<times> marker_ids option option" where
  "injectCompactionMarker sha256 schemaCompatible answer args db =
     (if \<not> schemaCompatible then (db, Some None)
      else (case (case ia_resolvedBoundary args of
                    Some b \<Rightarrow> Some b | None \<Rightarrow> findBoundaryUserMessage db (ia_sessionId args) (ia_endMessageId args)) of
              None \<Rightarrow> (db, Some None)
            | Some boundary \<Rightarrow>
                let k = minted_ids sha256 (ia_sessionId args) (ia_endMessageId args) boundary
                in case answer of
                     ProcessDies \<Rightarrow> (db, None)
                   | WriteFails \<Rightarrow> (db, Some None)
                   | WriteDone \<Rightarrow>
                       (write_marker (ia_sessionId args) k (snd boundary) (ia_summaryText args) (ia_directory args) db, Some (Some k))))"

section \<open>Removing markers\<close>

definition remove_marker_rows :: "marker_ids \<Rightarrow> host_db \<Rightarrow> host_db" where
  "remove_marker_rows k db =
     delete_parts (\<lambda>p. hp_id p = mk_compactionPartId k)
       (delete_messages (\<lambda>m. hm_id m = mk_summaryMessageId k)
         (delete_parts (\<lambda>p. hp_id p = mk_summaryPartId k) db))"

definition removeCompactionMarker :: "write_answer \<Rightarrow> marker_ids \<Rightarrow> host_db \<Rightarrow> host_db \<times> bool option" where
  "removeCompactionMarker answer k db =
     (case answer of
        ProcessDies \<Rightarrow> (db, None)
      | WriteFails \<Rightarrow> (db, Some False)
      | WriteDone \<Rightarrow> (remove_marker_rows k db, Some True))"

record session_marker =
  sm_compactionPartId :: string
  sm_boundaryMessageId :: string
  sm_summaryMessageIds :: "string list"

definition own_summary_of :: "string \<Rightarrow> string \<Rightarrow> host_message \<Rightarrow> bool" where
  "own_summary_of sessionId boundaryMessageId m \<longleftrightarrow>
     hm_sessionId m = sessionId \<and> text_is (hm_data m) ''parentID'' boundaryMessageId \<and> completed_summary m
     \<and> text_is (hm_data m) ''providerID'' ''magic-context''"

definition listSessionCompactionMarkers :: "host_db \<Rightarrow> string \<Rightarrow> session_marker list" where
  "listSessionCompactionMarkers db sessionId =
     map (\<lambda>p. \<lparr>sm_compactionPartId = hp_id p, sm_boundaryMessageId = hp_messageId p,
                sm_summaryMessageIds = map hm_id (filter (own_summary_of sessionId (hp_messageId p)) (hd_messages db))\<rparr>)
       (filter (\<lambda>p. hp_sessionId p = sessionId \<and> is_compaction p) (hd_parts db))"

definition removeForeignCompactionMarker :: "bool \<Rightarrow> string \<Rightarrow> session_marker \<Rightarrow> string option \<Rightarrow> host_db \<Rightarrow> host_db \<times> bool" where
  "removeForeignCompactionMarker writable sessionId marker protectedSummaryMessageId db =
     (if \<not> writable then (db, False)
      else (delete_parts (\<lambda>p. hp_sessionId p = sessionId \<and> hp_id p = sm_compactionPartId marker)
              (delete_summaries sessionId (filter (\<lambda>i. Some i \<noteq> protectedSummaryMessageId) (sm_summaryMessageIds marker)) db), True))"

section \<open>Removing all markers of a session\<close>

definition dataReferencesTailStart :: "json \<Rightarrow> string option" where
  "dataReferencesTailStart data =
     (if string_field data ''tail_start_id'' \<noteq> [] then Some (string_field data ''tail_start_id'')
      else (case get_field data ''compaction'' of
              Some nested \<Rightarrow> (if string_field nested ''tail_start_id'' \<noteq> [] then Some (string_field nested ''tail_start_id'') else None)
            | None \<Rightarrow> None))"

text \<open>The keys of an object are distinct.\<close>

definition isMcCanonicalCompactionPartData :: "json \<Rightarrow> bool" where
  "isMcCanonicalCompactionPartData data =
     (case data of
        JObj es \<Rightarrow> length es = 2 \<and> set (map fst es) = {''auto'', ''type''}
          \<and> get_field data ''type'' = Some (JStr ''compaction'') \<and> get_field data ''auto'' = Some (JBool True)
      | _ \<Rightarrow> False)"

record cleanup_result =
  cr_verified :: bool
  cr_removedLineages :: nat
  cr_removedRows :: nat
  cr_retainedLineages :: nat

definition canonical_summary :: "string \<Rightarrow> host_message \<Rightarrow> bool" where
  "canonical_summary sessionId m \<longleftrightarrow>
     hm_sessionId m = sessionId \<and> completed_summary m \<and> text_is (hm_data m) ''providerID'' ''magic-context''"

definition foreign_named_summary :: "host_db \<Rightarrow> string \<Rightarrow> string \<Rightarrow> host_message \<Rightarrow> bool" where
  "foreign_named_summary db sessionId summaryText m \<longleftrightarrow>
     hm_sessionId m = sessionId \<and> completed_summary m \<and> \<not> text_is (hm_data m) ''providerID'' ''magic-context''
     \<and> has_marker_text db summaryText m"

definition owned_summaries :: "host_db \<Rightarrow> string \<Rightarrow> string \<Rightarrow> host_message list" where
  "owned_summaries db sessionId summaryText =
     filter (canonical_summary sessionId) (hd_messages db) @ filter (foreign_named_summary db sessionId summaryText) (hd_messages db)"

definition parent_of :: "host_message \<Rightarrow> string" where
  "parent_of m = string_field (hm_data m) ''parentID''"

definition boundaries_of :: "host_message list \<Rightarrow> string list" where
  "boundaries_of ms = dedup_first (filter (\<lambda>b. b \<noteq> []) (map parent_of ms))"

definition children_of :: "host_message list \<Rightarrow> string \<Rightarrow> string list" where
  "children_of ms b = dedup_first (map hm_id (filter (\<lambda>m. parent_of m = b) ms))"

text \<open>The compaction parts of the session, and the targets that messages refer to.\<close>

definition compaction_parts :: "host_db \<Rightarrow> string \<Rightarrow> host_part list" where
  "compaction_parts db sessionId = filter (\<lambda>p. hp_sessionId p = sessionId \<and> is_compaction p) (hd_parts db)"

definition nested_tail :: "json \<Rightarrow> bool" where
  "nested_tail data =
     (case get_field data ''compaction'' of
        Some nested \<Rightarrow> (case get_field nested ''tail_start_id'' of None \<Rightarrow> False | Some JNull \<Rightarrow> False | Some _ \<Rightarrow> True)
      | None \<Rightarrow> False)"

definition message_tails :: "host_db \<Rightarrow> string \<Rightarrow> string list" where
  "message_tails db sessionId =
     List.map_filter (\<lambda>m. dataReferencesTailStart (hm_data m))
       (filter (\<lambda>m. hm_sessionId m = sessionId \<and> nested_tail (hm_data m)) (hd_messages db))"

definition referenced :: "host_part list \<Rightarrow> string list \<Rightarrow> string list \<Rightarrow> string list \<Rightarrow> bool" where
  "referenced parts tails mcPartIds rowsToDelete \<longleftrightarrow>
     list_ex (\<lambda>p. hp_id p \<notin> set mcPartIds
        \<and> (case dataReferencesTailStart (hp_data p) of None \<Rightarrow> False | Some t \<Rightarrow> t \<in> set rowsToDelete)) parts
     \<or> list_ex (\<lambda>i. i \<in> set tails) rowsToDelete"

definition row_count :: "host_db \<Rightarrow> nat" where
  "row_count db = length (hd_messages db) + length (hd_parts db)"

text \<open>The canonical parts of a boundary.\<close>

definition mc_part_ids :: "host_part list \<Rightarrow> string \<Rightarrow> string list" where
  "mc_part_ids parts b = map hp_id (filter (\<lambda>p. hp_messageId p = b \<and> isMcCanonicalCompactionPartData (hp_data p)) parts)"

definition delete_lineage :: "string \<Rightarrow> string list \<Rightarrow> string list \<Rightarrow> host_db \<Rightarrow> host_db" where
  "delete_lineage sessionId summaryIds mcPartIds db =
     delete_parts (\<lambda>p. hp_sessionId p = sessionId \<and> hp_id p \<in> set mcPartIds) (delete_summaries sessionId summaryIds db)"

definition cleanup_lineage ::
  "string \<Rightarrow> host_part list \<Rightarrow> string list \<Rightarrow> string list \<Rightarrow> string list \<Rightarrow> host_db \<times> cleanup_result \<Rightarrow> host_db \<times> cleanup_result" where
  "cleanup_lineage sessionId parts tails summaryIds mcPartIds st =
     (let (db, r) = st
      in if referenced parts tails mcPartIds (summaryIds @ mcPartIds) then (db, r\<lparr>cr_retainedLineages := cr_retainedLineages r + 1\<rparr>)
         else let db' = delete_lineage sessionId summaryIds mcPartIds db
              in (db', r\<lparr>cr_removedLineages := cr_removedLineages r + 1,
                         cr_removedRows := cr_removedRows r + (row_count db - row_count db')\<rparr>))"

definition no_cleanup :: "bool \<Rightarrow> cleanup_result" where
  "no_cleanup verified = \<lparr>cr_verified = verified, cr_removedLineages = 0, cr_removedRows = 0, cr_retainedLineages = 0\<rparr>"

definition removeMcOwnedCompactionMarkers :: "bool \<Rightarrow> string \<Rightarrow> string \<Rightarrow> host_db \<Rightarrow> host_db \<times> cleanup_result" where
  "removeMcOwnedCompactionMarkers schemaCompatible sessionId summaryText db =
     (if \<not> schemaCompatible then (db, no_cleanup False)
      else
        let owned = owned_summaries db sessionId summaryText;
            parts = compaction_parts db sessionId;
            tails = message_tails db sessionId;
            st = foldl (\<lambda>st b. cleanup_lineage sessionId parts tails (children_of owned b) (mc_part_ids parts b) st)
                   (db, no_cleanup True) (boundaries_of owned);
            orphans = children_of owned [];
            (db', r) = (if orphans = [] then st else cleanup_lineage sessionId parts tails orphans [] st)
        in (db', r\<lparr>cr_verified := cr_retainedLineages r = 0\<rparr>))"

section \<open>The order is total, and the newest message is the newest\<close>

lemma str_less_irrefl [simp]: "\<not> str_less s s"
  by (induction s) auto

lemma str_less_trans: "str_less a b \<Longrightarrow> str_less b c \<Longrightarrow> str_less a c"
proof (induction a b arbitrary: c rule: str_less.induct)
  case (2 b bs)
  then show ?case by (cases c) auto
next
  case (3 a as b bs)
  then show ?case by (cases c) auto
qed simp

lemma str_less_total: "str_less a b \<or> a = b \<or> str_less b a"
proof (induction a b rule: str_less.induct)
  case (1 s)
  then show ?case by (cases s) auto
next
  case (3 a as b bs)
  have "a = b" if "(of_char a :: nat) = of_char b" using that by simp
  with 3 show ?case by (cases "(of_char a :: nat) < of_char b"; cases "(of_char b :: nat) < of_char a") auto
qed simp

lemma key_less_irrefl [simp]: "\<not> key_less a a"
  by (simp add: key_less_def)

lemma key_less_trans: "key_less a b \<Longrightarrow> key_less b c \<Longrightarrow> key_less a c"
  by (auto simp: key_less_def intro: str_less_trans)

lemma key_less_total: "key_less a b \<or> a = b \<or> key_less b a"
  using str_less_total [of "snd a" "snd b"] by (auto simp: key_less_def prod_eq_iff)

lemma key_less_asym: "key_less a b \<Longrightarrow> \<not> key_less b a"
  using key_less_trans key_less_irrefl by blast

lemma at_or_before_key: "at_or_before target m \<longleftrightarrow> \<not> key_less target (sort_key_of m)"
  by (auto simp: at_or_before_def key_less_def sort_key_of_def)

lemma newest_message_from:
  assumes "foldl (\<lambda>best m. case best of None \<Rightarrow> Some m | Some b \<Rightarrow> if key_less (sort_key_of b) (sort_key_of m) then Some m else best) (Some b0) ms = Some b"
  shows "b \<in> insert b0 (set ms) \<and> (\<forall>m\<in>insert b0 (set ms). \<not> key_less (sort_key_of b) (sort_key_of m))"
  using assms
proof (induction ms arbitrary: b0)
  case (Cons m ms)
  let ?b1 = "if key_less (sort_key_of b0) (sort_key_of m) then m else b0"
  from Cons.prems have "foldl (\<lambda>best m. case best of None \<Rightarrow> Some m | Some b \<Rightarrow> if key_less (sort_key_of b) (sort_key_of m) then Some m else best) (Some ?b1) ms = Some b"
    by (simp split: if_splits)
  note ih = Cons.IH [OF this]
  then have "\<not> key_less (sort_key_of b) (sort_key_of ?b1)" by blast
  then have "\<not> key_less (sort_key_of b) (sort_key_of b0)" "\<not> key_less (sort_key_of b) (sort_key_of m)"
    using key_less_trans [of "sort_key_of b" "sort_key_of b0" "sort_key_of m"] key_less_trans [of "sort_key_of b" "sort_key_of m" "sort_key_of b0"]
      key_less_total [of "sort_key_of b0" "sort_key_of m"]
    by (auto split: if_splits)
  with ih show ?case by (auto split: if_splits)
qed simp

lemma newest_message_None: "newest_message ms = None \<longleftrightarrow> ms = []"
proof (cases ms)
  case (Cons m ms')
  have "foldl (\<lambda>best m. case best of None \<Rightarrow> Some m | Some b \<Rightarrow> if key_less (sort_key_of b) (sort_key_of m) then Some m else best) (Some b) xs \<noteq> None" for b xs
    by (induction xs arbitrary: b) auto
  with Cons show ?thesis by (simp add: newest_message_def)
qed (simp add: newest_message_def)

lemma newest_message_Some:
  assumes "newest_message ms = Some b"
  shows "b \<in> set ms" and "m \<in> set ms \<Longrightarrow> \<not> key_less (sort_key_of b) (sort_key_of m)"
proof -
  obtain m0 ms' where ms: "ms = m0 # ms'" using assms by (cases ms) (auto simp: newest_message_def)
  with assms newest_message_from [of m0 ms' b] show "b \<in> set ms" "m \<in> set ms \<Longrightarrow> \<not> key_less (sort_key_of b) (sort_key_of m)"
    by (auto simp: newest_message_def)
qed

lemma find_by_id:
  assumes "distinct (map hm_id ms)" "m \<in> set ms" "P m" "\<And>x. P x \<Longrightarrow> hm_id x = hm_id m"
  shows "find P ms = Some m"
proof -
  obtain x where "find P ms = Some x" using assms(2,3) by (cases "find P ms") (auto simp: find_None_iff)
  moreover from this have "x \<in> set ms" "P x" by (auto simp: find_Some_iff)
  moreover from this assms have "x = m" by (meson distinct_map inj_on_eq_iff)
  ultimately show ?thesis by simp
qed

lemma boundary_facts:
  assumes "findBoundaryUserMessage db s e = Some b"
  obtains m where "m \<in> set (hd_messages db)" "hm_sessionId m = s" "\<not> completed_summary m" "is_user m" "b = (hm_id m, hm_timeCreated m)"
    and "\<And>k. getNonSummaryMessageSortKey db s e = Some k \<Longrightarrow> \<not> key_less k (sort_key_of m)"
    and "\<And>k x. \<lbrakk>getNonSummaryMessageSortKey db s e = Some k; x \<in> set (hd_messages db); hm_sessionId x = s; \<not> completed_summary x; is_user x;
          \<not> key_less k (sort_key_of x)\<rbrakk> \<Longrightarrow> \<not> key_less (sort_key_of m) (sort_key_of x)"
    and "getNonSummaryMessageSortKey db s e \<noteq> None"
proof -
  from assms obtain k where k: "getNonSummaryMessageSortKey db s e = Some k"
    by (auto simp: findBoundaryUserMessage_def split: option.splits)
  let ?ms = "filter (\<lambda>m. hm_sessionId m = s \<and> \<not> completed_summary m \<and> is_user m \<and> at_or_before k m) (hd_messages db)"
  from assms k obtain m where m: "newest_message ?ms = Some m" "b = (hm_id m, hm_timeCreated m)"
    by (auto simp: findBoundaryUserMessage_def)
  from newest_message_Some [OF m(1)] m(2) k show ?thesis
    by (intro that [of m]) (auto simp: at_or_before_key)
qed

end
