(* ===== verification/Marker_Manager.thy ===== *)
theory Marker_Manager
  imports Marker_Rows
begin

text \<open>
  When markers are moved (\<open>hooks/magic-context/compaction-marker-manager.ts\<close>, the drain in
  \<open>transform-postprocess-phase.ts\<close>, the compaction event in \<open>event-handler.ts\<close>). The marker's rows are in the host's
  database and its record is in the plugin's own, so a move is up to four transactions over two databases; each of them
  can fail, and the process can die before it. The state is that of one session; reads that fail are one flag, because
  they all come before the first write.
\<close>

section \<open>What the plugin stores\<close>

record persisted_marker = marker_ids +
  pk_boundaryOrdinal :: int
  pk_targetEndMessageId :: "string option"

record pending_marker =
  pm_ordinal :: int
  pm_endMessageId :: string
  pm_publishedAt :: int

record marker_compartment =
  mp_sequence :: int
  mp_endMessage :: int
  mp_endMessageId :: string

record marker_ctx =
  mc_persisted :: "persisted_marker option"
  mc_pending :: "pending_marker option"
  mc_compartments :: "marker_compartment list"
  mc_tags :: tags_db

text \<open>An empty target is read as none.\<close>

definition getPersistedCompactionMarkerState :: "marker_ctx \<Rightarrow> persisted_marker option" where
  "getPersistedCompactionMarkerState ctx =
     map_option (\<lambda>st. st\<lparr>pk_targetEndMessageId := (if pk_targetEndMessageId st = Some [] then None else pk_targetEndMessageId st)\<rparr>)
       (mc_persisted ctx)"

definition setPersistedCompactionMarkerState :: "persisted_marker option \<Rightarrow> marker_ctx \<Rightarrow> marker_ctx" where
  "setPersistedCompactionMarkerState st ctx = ctx\<lparr>mc_persisted := st\<rparr>"

definition setPendingCompactionMarkerState :: "pending_marker option \<Rightarrow> marker_ctx \<Rightarrow> marker_ctx" where
  "setPendingCompactionMarkerState p ctx = ctx\<lparr>mc_pending := p\<rparr>"

text \<open>The stored text is a function of the record, so equal texts are equal records.\<close>

definition clearPendingCompactionMarkerStateIf :: "pending_marker \<Rightarrow> marker_ctx \<Rightarrow> marker_ctx \<times> bool" where
  "clearPendingCompactionMarkerStateIf expected ctx =
     (if mc_pending ctx = Some expected then (ctx\<lparr>mc_pending := None\<rparr>, True) else (ctx, False))"

definition dropMarkerSummaryTag :: "string \<Rightarrow> string \<Rightarrow> tags_db \<Rightarrow> tags_db" where
  "dropMarkerSummaryTag sessionId summaryMessageId tags =
     (case getTagNumberByMessageId tags sessionId (summaryMessageId @ '':p0'') of
        None \<Rightarrow> tags
      | Some n \<Rightarrow> set_columns sessionId n (\<lambda>r. r\<lparr>tr_status := Dropped\<rparr>) tags)"

definition persistMarkerStateAndDropReplacedTag :: "string \<Rightarrow> persisted_marker option \<Rightarrow> string option \<Rightarrow> marker_ctx \<Rightarrow> marker_ctx" where
  "persistMarkerStateAndDropReplacedTag sessionId st replaced ctx =
     (let ctx' = setPersistedCompactionMarkerState st ctx
      in case replaced of None \<Rightarrow> ctx' | Some i \<Rightarrow> ctx'\<lparr>mc_tags := dropMarkerSummaryTag sessionId i (mc_tags ctx)\<rparr>)"

section \<open>Is the target still good, is it covered already\<close>

datatype skip_reason = CompartmentRemoved | TargetSuperseded

definition getCompartmentsByEndMessageId :: "marker_ctx \<Rightarrow> string \<Rightarrow> marker_compartment list" where
  "getCompartmentsByEndMessageId ctx endMessageId =
     sort_key mp_sequence (filter (\<lambda>c. mp_endMessageId c = endMessageId) (mc_compartments ctx))"

definition validatePendingTarget :: "host_db \<Rightarrow> marker_ctx \<Rightarrow> string \<Rightarrow> pending_marker \<Rightarrow> skip_reason option" where
  "validatePendingTarget oc ctx sessionId pending =
     (if getOpenCodeMessageById oc sessionId (pm_endMessageId pending) = None then Some CompartmentRemoved
      else (case getCompartmentsByEndMessageId ctx (pm_endMessageId pending) of
              [c] \<Rightarrow> if mp_endMessage c \<noteq> pm_ordinal pending then Some TargetSuperseded else None
            | _ \<Rightarrow> Some CompartmentRemoved))"

definition getCompartmentEndMessageIdForOrdinal :: "marker_ctx \<Rightarrow> int \<Rightarrow> string option" where
  "getCompartmentEndMessageIdForOrdinal ctx endOrdinal =
     (case rev (sort_key mp_sequence (filter (\<lambda>c. mp_endMessage c = endOrdinal) (mc_compartments ctx))) of
        [] \<Rightarrow> None
      | c # _ \<Rightarrow> if mp_endMessageId c = [] then None else Some (mp_endMessageId c))"

definition existingMarkerAlreadyCoversTarget :: "host_db \<Rightarrow> string \<Rightarrow> persisted_marker \<Rightarrow> int \<Rightarrow> string \<Rightarrow> bool" where
  "existingMarkerAlreadyCoversTarget oc sessionId existing targetOrdinal targetEndMessageId =
     (if pk_boundaryOrdinal existing < targetOrdinal then False
      else if pk_boundaryOrdinal existing = targetOrdinal then
        (case compareOpenCodeMessagesByCanonicalOrder oc sessionId (mk_boundaryMessageId existing) targetEndMessageId of
           None \<Rightarrow> False
         | Some c \<Rightarrow> c \<le> 0 \<and> (pk_targetEndMessageId existing = None \<or> pk_targetEndMessageId existing = Some targetEndMessageId))
      else (case pk_targetEndMessageId existing of
              None \<Rightarrow> True
            | Some t \<Rightarrow>
                (case compareOpenCodeMessagesByCanonicalOrder oc sessionId t targetEndMessageId of
                   None \<Rightarrow> True | Some c \<Rightarrow> \<not> c \<le> 0)))"

definition covered :: "host_db \<Rightarrow> string \<Rightarrow> marker_ctx \<Rightarrow> int \<Rightarrow> string \<Rightarrow> bool" where
  "covered oc sessionId ctx targetOrdinal targetEndMessageId =
     (case getPersistedCompactionMarkerState ctx of
        None \<Rightarrow> False
      | Some existing \<Rightarrow> existingMarkerAlreadyCoversTarget oc sessionId existing targetOrdinal targetEndMessageId)"

section \<open>Moving the marker\<close>

record marker_env =
  me_sha256 :: "string \<Rightarrow> nat"
  me_sessionId :: string
  me_summaryText :: string
  me_directory :: string

record marker_faults =
  mf_readFails :: bool
  mf_schemaOk :: bool
  mf_remove :: write_answer
  mf_clear :: write_answer
  mf_inject :: write_answer
  mf_persist :: write_answer

definition no_faults :: marker_faults where
  "no_faults = \<lparr>mf_readFails = False, mf_schemaOk = True, mf_remove = WriteDone, mf_clear = WriteDone, mf_inject = WriteDone,
     mf_persist = WriteDone\<rparr>"

type_synonym marker_state = "host_db \<times> marker_ctx"

text \<open>\<open>None\<close>: the process died.\<close>

datatype marker_outcome = Applied int | AlreadyCurrent | StaleSkip skip_reason | RetryableFailure

definition remove_existing :: "write_answer \<Rightarrow> persisted_marker option \<Rightarrow> host_db \<Rightarrow> host_db \<times> bool option" where
  "remove_existing answer existing oc =
     (case existing of None \<Rightarrow> (oc, Some True) | Some x \<Rightarrow> removeCompactionMarker answer (marker_ids.truncate x) oc)"

definition inject_at :: "marker_env \<Rightarrow> marker_faults \<Rightarrow> string \<Rightarrow> string \<times> int \<Rightarrow> host_db \<Rightarrow> host_db \<times> marker_ids option option" where
  "inject_at E f endMessageId boundary oc =
     injectCompactionMarker (me_sha256 E) (mf_schemaOk f) (mf_inject f)
       \<lparr>ia_sessionId = me_sessionId E, ia_endMessageId = endMessageId, ia_summaryText = me_summaryText E,
        ia_directory = me_directory E, ia_resolvedBoundary = Some boundary\<rparr> oc"

definition marker_record :: "marker_ids \<Rightarrow> int \<Rightarrow> string \<Rightarrow> persisted_marker" where
  "marker_record k ordinal endMessageId =
     \<lparr>mk_boundaryMessageId = mk_boundaryMessageId k, mk_summaryMessageId = mk_summaryMessageId k,
      mk_compactionPartId = mk_compactionPartId k, mk_summaryPartId = mk_summaryPartId k,
      pk_boundaryOrdinal = ordinal, pk_targetEndMessageId = Some endMessageId\<rparr>"

definition replace_marker ::
  "marker_env \<Rightarrow> marker_faults \<Rightarrow> pending_marker \<Rightarrow> persisted_marker option \<Rightarrow> string \<times> int \<Rightarrow> marker_state \<Rightarrow> marker_state \<times> marker_outcome option" where
  "replace_marker E f pending existing boundary S =
     (case remove_existing (mf_remove f) existing (fst S) of
        (oc1, None) \<Rightarrow> ((oc1, snd S), None)
      | (oc1, Some False) \<Rightarrow> ((oc1, snd S), Some RetryableFailure)
      | (oc1, Some True) \<Rightarrow>
          (case inject_at E f (pm_endMessageId pending) boundary oc1 of
             (oc2, None) \<Rightarrow> ((oc2, snd S), None)
           | (oc2, Some None) \<Rightarrow> ((oc2, snd S), Some RetryableFailure)
           | (oc2, Some (Some k)) \<Rightarrow>
               (case mf_persist f of
                  ProcessDies \<Rightarrow> ((oc2, snd S), None)
                | WriteFails \<Rightarrow> ((oc2, snd S), Some RetryableFailure)
                | WriteDone \<Rightarrow>
                    ((oc2, persistMarkerStateAndDropReplacedTag (me_sessionId E)
                             (Some (marker_record k (pm_ordinal pending) (pm_endMessageId pending)))
                             (map_option mk_summaryMessageId existing) (snd S)),
                     Some (Applied (pm_ordinal pending))))))"

definition applyDeferredCompactionMarker :: "marker_env \<Rightarrow> marker_faults \<Rightarrow> pending_marker \<Rightarrow> marker_state \<Rightarrow> marker_state \<times> marker_outcome option" where
  "applyDeferredCompactionMarker E f pending S =
     (if mf_readFails f then (S, Some RetryableFailure)
      else (case validatePendingTarget (fst S) (snd S) (me_sessionId E) pending of
              Some reason \<Rightarrow> (S, Some (StaleSkip reason))
            | None \<Rightarrow>
                if covered (fst S) (me_sessionId E) (snd S) (pm_ordinal pending) (pm_endMessageId pending) then (S, Some AlreadyCurrent)
                else (case findBoundaryUserMessage (fst S) (me_sessionId E) (pm_endMessageId pending) of
                        None \<Rightarrow> (S, Some RetryableFailure)
                      | Some boundary \<Rightarrow> replace_marker E f pending (getPersistedCompactionMarkerState (snd S)) boundary S)))"

text \<open>The direct update after a publication; an exception of a read or of a write of the plugin's database reaches the caller.\<close>

datatype update_outcome = Updated bool | UpdateThrows | UpdateDies

definition inject_and_record ::
  "marker_env \<Rightarrow> marker_faults \<Rightarrow> int \<Rightarrow> string \<Rightarrow> string \<times> int \<Rightarrow> string option \<Rightarrow> marker_state \<Rightarrow> marker_state \<times> update_outcome" where
  "inject_and_record E f ordinal endMessageId boundary replaced S =
     (case inject_at E f endMessageId boundary (fst S) of
        (oc2, None) \<Rightarrow> ((oc2, snd S), UpdateDies)
      | (oc2, Some None) \<Rightarrow> ((oc2, snd S), Updated False)
      | (oc2, Some (Some k)) \<Rightarrow>
          (case mf_persist f of
             ProcessDies \<Rightarrow> ((oc2, snd S), UpdateDies)
           | WriteFails \<Rightarrow> ((oc2, snd S), UpdateThrows)
           | WriteDone \<Rightarrow>
               ((oc2, persistMarkerStateAndDropReplacedTag (me_sessionId E) (Some (marker_record k ordinal endMessageId)) replaced (snd S)),
                Updated True)))"

definition move_marker ::
  "marker_env \<Rightarrow> marker_faults \<Rightarrow> int \<Rightarrow> string \<Rightarrow> string \<times> int \<Rightarrow> marker_state \<Rightarrow> marker_state \<times> update_outcome" where
  "move_marker E f ordinal endMessageId boundary S =
     (case getPersistedCompactionMarkerState (snd S) of
        None \<Rightarrow> inject_and_record E f ordinal endMessageId boundary None S
      | Some existing \<Rightarrow>
          (case removeCompactionMarker (mf_remove f) (marker_ids.truncate existing) (fst S) of
             (oc1, None) \<Rightarrow> ((oc1, snd S), UpdateDies)
           | (oc1, Some False) \<Rightarrow> ((oc1, snd S), Updated False)
           | (oc1, Some True) \<Rightarrow>
               (case mf_clear f of
                  ProcessDies \<Rightarrow> ((oc1, snd S), UpdateDies)
                | WriteFails \<Rightarrow> ((oc1, snd S), UpdateThrows)
                | WriteDone \<Rightarrow>
                    inject_and_record E f ordinal endMessageId boundary (Some (mk_summaryMessageId existing))
                      (oc1, persistMarkerStateAndDropReplacedTag (me_sessionId E) None (Some (mk_summaryMessageId existing)) (snd S)))))"

definition updateCompactionMarkerAfterPublication :: "marker_env \<Rightarrow> bool \<Rightarrow> marker_faults \<Rightarrow> int \<Rightarrow> marker_state \<Rightarrow> marker_state \<times> update_outcome" where
  "updateCompactionMarkerAfterPublication E opencode f lastCompartmentEnd S =
     (if \<not> opencode then (S, Updated True)
      else if mf_readFails f then (S, UpdateThrows)
      else (case getCompartmentEndMessageIdForOrdinal (snd S) lastCompartmentEnd of
              None \<Rightarrow> (S, Updated False)
            | Some endMessageId \<Rightarrow>
                if covered (fst S) (me_sessionId E) (snd S) lastCompartmentEnd endMessageId then (S, Updated True)
                else (case findBoundaryUserMessage (fst S) (me_sessionId E) endMessageId of
                        None \<Rightarrow> (S, Updated False)
                      | Some boundary \<Rightarrow> move_marker E f lastCompartmentEnd endMessageId boundary S)))"

definition advanceCompactionMarkerAndClearStalePending :: "marker_env \<Rightarrow> bool \<Rightarrow> marker_faults \<Rightarrow> int \<Rightarrow> marker_state \<Rightarrow> marker_state \<times> update_outcome" where
  "advanceCompactionMarkerAndClearStalePending E opencode f ordinal S =
     (let ((oc, ctx), r) = updateCompactionMarkerAfterPublication E opencode f ordinal S
      in if r = Updated True then
           ((oc, case mc_pending ctx of None \<Rightarrow> ctx | Some p \<Rightarrow> fst (clearPendingCompactionMarkerStateIf p ctx)), r)
         else ((oc, ctx), r))"

section \<open>Removing it\<close>

text \<open>The deletion of a session clears the record also when the rows could not be removed.\<close>

definition removeCompactionMarkerForSession :: "write_answer \<Rightarrow> marker_state \<Rightarrow> marker_state" where
  "removeCompactionMarkerForSession answer S =
     (case getPersistedCompactionMarkerState (snd S) of
        None \<Rightarrow> S
      | Some existing \<Rightarrow>
          (case removeCompactionMarker answer (marker_ids.truncate existing) (fst S) of
             (oc, None) \<Rightarrow> (oc, snd S)
           | (oc, Some _) \<Rightarrow> (oc, setPersistedCompactionMarkerState None (snd S))))"

text \<open>The host has compacted the session itself.\<close>

definition session_compacted :: "write_answer \<Rightarrow> marker_state \<Rightarrow> marker_state" where
  "session_compacted answer S =
     (let (oc, ctx) = removeCompactionMarkerForSession answer S
      in (oc, case mc_pending ctx of None \<Rightarrow> ctx | Some p \<Rightarrow> fst (clearPendingCompactionMarkerStateIf p ctx)))"

text \<open>
  The markers that a fork has copied. The record is read again before every deletion (\<open>owned_at\<close>, its value at the
  \<open>k\<close>-th marker), since another process may have moved the marker meanwhile.
\<close>

record orphan_faults =
  of_scanFails :: bool
  of_readFails :: "nat \<Rightarrow> bool"
  of_writable :: "nat \<Rightarrow> bool"
  of_owned_at :: "nat \<Rightarrow> persisted_marker option"

fun reconcile_loop ::
  "string \<Rightarrow> orphan_faults \<Rightarrow> persisted_marker \<Rightarrow> nat \<Rightarrow> session_marker list \<Rightarrow> host_db \<Rightarrow> nat \<times> bool \<Rightarrow> host_db \<times> nat \<times> bool" where
  "reconcile_loop s f owned k [] oc acc = (oc, acc)"
| "reconcile_loop s f owned k (marker # markers) oc acc =
     (let skip = reconcile_loop s f owned (k + 1) markers oc acc
      in if sm_compactionPartId marker = mk_compactionPartId owned \<or> sm_summaryMessageIds marker = [] then skip
         else if of_readFails f k then (oc, 0, True)
         else (case compareOpenCodeMessagesByCanonicalOrder oc s (sm_boundaryMessageId marker) (mk_boundaryMessageId owned) of
                 None \<Rightarrow> skip
               | Some c \<Rightarrow>
                   if c \<le> 0 then skip
                   else (case of_owned_at f k of
                           None \<Rightarrow> skip
                         | Some current \<Rightarrow>
                             if sm_compactionPartId marker = mk_compactionPartId current then skip
                             else (case removeForeignCompactionMarker (of_writable f k) s marker (Some (mk_summaryMessageId current)) oc of
                                     (oc', True) \<Rightarrow> reconcile_loop s f owned (k + 1) markers oc' (fst acc + 1, snd acc)
                                   | (oc', False) \<Rightarrow> reconcile_loop s f owned (k + 1) markers oc' (fst acc, True)))))"

definition reconcileForkOrphanedCompactionMarkers :: "string \<Rightarrow> bool \<Rightarrow> orphan_faults \<Rightarrow> marker_state \<Rightarrow> marker_state \<times> nat \<times> bool" where
  "reconcileForkOrphanedCompactionMarkers s opencode f S =
     (if \<not> opencode then (S, 0, False)
      else (case getPersistedCompactionMarkerState (snd S) of
              None \<Rightarrow> (S, 0, False)
            | Some owned \<Rightarrow>
                if of_scanFails f then (S, 0, True)
                else (case reconcile_loop s f owned 0 (listSessionCompactionMarkers (fst S) s) (fst S) (0, False) of
                        (oc, r) \<Rightarrow> ((oc, snd S), r))))"

text \<open>At startup, a record whose rows are not all there is dropped with what is left of them.\<close>

definition all_rows_present :: "host_db \<Rightarrow> persisted_marker \<Rightarrow> bool" where
  "all_rows_present oc st \<longleftrightarrow>
     list_ex (\<lambda>m. hm_id m = mk_boundaryMessageId st) (hd_messages oc) \<and> list_ex (\<lambda>m. hm_id m = mk_summaryMessageId st) (hd_messages oc)
     \<and> list_ex (\<lambda>p. hp_id p = mk_compactionPartId st) (hd_parts oc) \<and> list_ex (\<lambda>p. hp_id p = mk_summaryPartId st) (hd_parts oc)"

definition checkCompactionMarkerConsistency :: "bool \<Rightarrow> write_answer \<Rightarrow> marker_state \<Rightarrow> marker_state" where
  "checkCompactionMarkerConsistency readable answer S =
     (if \<not> readable then S
      else (case getPersistedCompactionMarkerState (snd S) of
              None \<Rightarrow> S
            | Some st \<Rightarrow>
                if all_rows_present (fst S) st then S
                else (case removeCompactionMarker answer (marker_ids.truncate st) (fst S) of
                        (oc, Some True) \<Rightarrow> (oc, setPersistedCompactionMarkerState None (snd S))
                      | (oc, _) \<Rightarrow> (oc, snd S))))"

section \<open>The drain\<close>

definition pendingMarkerCoveredByConsumedBoundary :: "pending_marker \<Rightarrow> (string \<times> int) option \<Rightarrow> bool" where
  "pendingMarkerCoveredByConsumedBoundary pending injection =
     (case injection of
        None \<Rightarrow> False
      | Some (compartmentEndMessageId, compartmentEndMessage) \<Rightarrow>
          pm_endMessageId pending = compartmentEndMessageId \<or> pm_ordinal pending \<le> compartmentEndMessage)"

datatype clear_outcome = Cleared | LostToNewer | LostAlreadyCleared

definition clearPendingCompactionMarkerAfterSuccessfulDrain :: "pending_marker \<Rightarrow> marker_ctx \<Rightarrow> marker_ctx \<times> clear_outcome" where
  "clearPendingCompactionMarkerAfterSuccessfulDrain pending ctx =
     (case clearPendingCompactionMarkerStateIf pending ctx of
        (ctx', True) \<Rightarrow> (ctx', Cleared)
      | (ctx', False) \<Rightarrow> (ctx', if mc_pending ctx' = None then LostAlreadyCleared else LostToNewer))"

text \<open>
  The drain of a pass that has consumed history: the state after it, and whether the deferred refresh must stay.
  \<open>published\<close> is what another process publishes while the marker is moved.
\<close>

definition drain_marker ::
  "marker_env \<Rightarrow> marker_faults \<Rightarrow> (string \<times> int) option \<Rightarrow> pending_marker option \<Rightarrow> marker_state \<Rightarrow> marker_state \<times> bool option" where
  "drain_marker E f consumed published S =
     (case mc_pending (snd S) of
        None \<Rightarrow> (S, Some False)
      | Some pending \<Rightarrow>
          if \<not> pendingMarkerCoveredByConsumedBoundary pending consumed then (S, Some True)
          else (case applyDeferredCompactionMarker E f pending S of
                  (S', None) \<Rightarrow> (S', None)
                | (S', Some RetryableFailure) \<Rightarrow> (S', Some True)
                | ((oc, ctx), Some _) \<Rightarrow>
                    let ctx1 = (case published of None \<Rightarrow> ctx | Some q \<Rightarrow> setPendingCompactionMarkerState (Some q) ctx);
                        (ctx2, r) = clearPendingCompactionMarkerAfterSuccessfulDrain pending ctx1
                    in ((oc, ctx2), Some (r = LostToNewer))))"

end
