(* ===== verification/Marker_Facts.thy ===== *)
theory Marker_Facts
  imports Marker_Manager
begin

text \<open>
  What the moves of a marker guarantee: the user's history stays as it is whatever fails, an interrupted move is
  finished by the next one, and the cleanups leave no marker of the plugin where they must not.
\<close>

section \<open>User history\<close>

text \<open>The messages that are no completed summaries, each with its parts other than compaction parts.\<close>

definition user_content :: "host_db \<Rightarrow> (host_message \<times> host_part list) list" where
  "user_content db =
     map (\<lambda>m. (m, filter (\<lambda>p. hp_messageId p = hm_id m \<and> \<not> is_compaction p) (hd_parts db)))
       (filter (\<lambda>m. \<not> completed_summary m) (hd_messages db))"

text \<open>
  \<open>M\<close> tells the ids that the plugin mints. A row with such an id is a summary, or a part that is a compaction part or
  belongs to a message with such an id; the ids of a table are distinct.
\<close>

definition host_ok :: "(string \<Rightarrow> bool) \<Rightarrow> host_db \<Rightarrow> bool" where
  "host_ok M db \<longleftrightarrow> distinct (map hm_id (hd_messages db)) \<and> distinct (map hp_id (hd_parts db))
     \<and> (\<forall>m\<in>set (hd_messages db). M (hm_id m) \<longrightarrow> completed_summary m)
     \<and> (\<forall>p\<in>set (hd_parts db). M (hp_id p) \<longrightarrow> is_compaction p \<or> M (hp_messageId p))"

text \<open>
  A run has finitely many targets (the end messages of the compartments that are published) and finitely many boundaries
  (the messages of the user, with their times), so the plugin mints finitely many ids in it. All other ids, of whatever
  format, are free for the host.
\<close>

record marker_run =
  mr_targets :: "string list"
  mr_boundaries :: "(string \<times> int) list"
  mr_minted :: "string list"

definition ours :: "marker_run \<Rightarrow> string \<Rightarrow> bool" where
  "ours R i \<longleftrightarrow> i \<in> set (mr_minted R)"

definition mints :: "(string \<Rightarrow> nat) \<Rightarrow> string \<Rightarrow> marker_run \<Rightarrow> bool" where
  "mints sha s R \<longleftrightarrow>
     (\<forall>e\<in>set (mr_targets R). \<forall>b\<in>set (mr_boundaries R).
        let k = minted_ids sha s e b
        in ours R (mk_summaryMessageId k) \<and> ours R (mk_compactionPartId k) \<and> ours R (mk_summaryPartId k))"

definition boundaries_known :: "marker_run \<Rightarrow> host_db \<Rightarrow> bool" where
  "boundaries_known R db \<longleftrightarrow>
     (\<forall>m\<in>set (hd_messages db). is_user m \<and> \<not> completed_summary m \<longrightarrow> (hm_id m, hm_timeCreated m) \<in> set (mr_boundaries R))"

definition record_ok :: "marker_run \<Rightarrow> marker_ctx \<Rightarrow> bool" where
  "record_ok R ctx \<longleftrightarrow>
     (case mc_persisted ctx of None \<Rightarrow> True
      | Some st \<Rightarrow> ours R (mk_summaryMessageId st) \<and> ours R (mk_compactionPartId st) \<and> ours R (mk_summaryPartId st))
     \<and> (case mc_pending ctx of None \<Rightarrow> True | Some p \<Rightarrow> pm_endMessageId p \<in> set (mr_targets R))
     \<and> mp_endMessageId ` set (mc_compartments ctx) \<subseteq> set (mr_targets R)"

definition harmless :: "(string \<Rightarrow> bool) \<Rightarrow> host_db \<Rightarrow> host_db \<Rightarrow> bool" where
  "harmless M db db' \<longleftrightarrow> host_ok M db' \<and> user_content db' = user_content db"

lemma harmless_refl: "host_ok M db \<Longrightarrow> harmless M db db"
  by (simp add: harmless_def)

lemma harmless_trans: "harmless M a b \<Longrightarrow> harmless M b c \<Longrightarrow> harmless M a c"
  by (simp add: harmless_def)

lemma harmless_host_ok: "harmless M a b \<Longrightarrow> host_ok M b"
  by (simp add: harmless_def)

text \<open>Parts that are no content of a user's message.\<close>

definition marker_part :: "host_db \<Rightarrow> host_part \<Rightarrow> bool" where
  "marker_part db p \<longleftrightarrow> is_compaction p \<or> (\<forall>m\<in>set (hd_messages db). hm_id m = hp_messageId p \<longrightarrow> completed_summary m)"

lemma content_parts:
  assumes "hd_messages db' = hd_messages db"
    and "\<And>m. m \<in> set (hd_messages db) \<Longrightarrow> \<not> completed_summary m \<Longrightarrow>
       filter (\<lambda>p. hp_messageId p = hm_id m \<and> \<not> is_compaction p) (hd_parts db') =
       filter (\<lambda>p. hp_messageId p = hm_id m \<and> \<not> is_compaction p) (hd_parts db)"
  shows "user_content db' = user_content db"
  unfolding user_content_def assms(1) by (rule map_cong) (auto simp: assms(2))

lemma delete_parts_harmless:
  assumes "host_ok M db" "\<And>p. p \<in> set (hd_parts db) \<Longrightarrow> P p \<Longrightarrow> marker_part db p"
  shows "harmless M db (delete_parts P db)"
proof -
  have "user_content (delete_parts P db) = user_content db"
  proof (rule content_parts)
    fix m assume m: "m \<in> set (hd_messages db)" "\<not> completed_summary m"
    have "\<not> P x" if "x \<in> set (hd_parts db)" "hp_messageId x = hm_id m" "\<not> is_compaction x" for x
      using assms(2) [OF that(1)] that(2,3) m by (auto simp: marker_part_def)
    then show "filter (\<lambda>p. hp_messageId p = hm_id m \<and> \<not> is_compaction p) (hd_parts (delete_parts P db)) =
        filter (\<lambda>p. hp_messageId p = hm_id m \<and> \<not> is_compaction p) (hd_parts db)"
      by (auto simp: delete_parts_def intro!: filter_cong)
  qed (simp add: delete_parts_def)
  with assms(1) show ?thesis by (auto simp: harmless_def host_ok_def delete_parts_def distinct_map_filter)
qed

lemma delete_messages_harmless:
  assumes "host_ok M db" "\<And>m. m \<in> set (hd_messages db) \<Longrightarrow> P m \<Longrightarrow> completed_summary m"
  shows "harmless M db (delete_messages P db)"
proof -
  have "filter (\<lambda>m. \<not> completed_summary m) (hd_messages (delete_messages P db)) = filter (\<lambda>m. \<not> completed_summary m) (hd_messages db)"
    using assms(2) by (auto simp: delete_messages_def intro!: filter_cong)
  then have "user_content (delete_messages P db) = user_content db"
    by (simp add: user_content_def) (simp add: delete_messages_def)
  with assms(1) show ?thesis by (auto simp: harmless_def host_ok_def delete_messages_def distinct_map_filter)
qed

lemma filter_upsert_by:
  assumes "\<not> P r" "\<And>x. x \<in> set rows \<Longrightarrow> k x = k r \<Longrightarrow> \<not> P x"
  shows "filter P (upsert_by k r rows) = filter P rows"
proof -
  have "filter P (map (\<lambda>x. if k x = k r then r else x) rows) = filter P rows"
    using assms(2) by (induction rows) (use assms(1) in auto)
  with assms(1) show ?thesis by (simp add: upsert_by_def)
qed

lemma upsert_message_harmless:
  assumes "host_ok M db" "completed_summary m" "M (hm_id m)"
  shows "harmless M db (upsert_message m db)"
proof -
  have "filter (\<lambda>m. \<not> completed_summary m) (hd_messages (upsert_message m db)) = filter (\<lambda>m. \<not> completed_summary m) (hd_messages db)"
    unfolding upsert_message_def using assms by (auto simp: host_ok_def intro!: filter_upsert_by)
  then have "user_content (upsert_message m db) = user_content db"
    by (simp add: user_content_def) (simp add: upsert_message_def)
  with assms show ?thesis
    by (auto simp: harmless_def host_ok_def upsert_message_def set_upsert_by distinct_upsert_by)
qed

lemma minted_part_is_marker:
  assumes "host_ok M db" "p \<in> set (hd_parts db)" "M (hp_id p)"
  shows "marker_part db p"
  using assms by (auto simp: host_ok_def marker_part_def)

lemma upsert_part_harmless:
  assumes "host_ok M db" "M (hp_id p)" "is_compaction p \<or> M (hp_messageId p)"
  shows "harmless M db (upsertPartRow p db)"
proof -
  have p: "marker_part db p" using assms(1,3) by (auto simp: host_ok_def marker_part_def)
  have "user_content (upsertPartRow p db) = user_content db"
  proof (rule content_parts)
    fix m assume m: "m \<in> set (hd_messages db)" "\<not> completed_summary m"
    have "\<not> (hp_messageId x = hm_id m \<and> \<not> is_compaction x)" if "x \<in> set (hd_parts db)" "hp_id x = hp_id p" for x
      using minted_part_is_marker [OF assms(1) that(1)] that(2) assms(2) m by (auto simp: marker_part_def)
    with p m show "filter (\<lambda>p. hp_messageId p = hm_id m \<and> \<not> is_compaction p) (hd_parts (upsertPartRow p db)) =
        filter (\<lambda>p. hp_messageId p = hm_id m \<and> \<not> is_compaction p) (hd_parts db)"
      by (auto simp: upsertPartRow_def marker_part_def intro!: filter_upsert_by)
  qed (simp add: upsertPartRow_def)
  with assms show ?thesis by (auto simp: harmless_def host_ok_def upsertPartRow_def set_upsert_by distinct_upsert_by)
qed

section \<open>Every write is harmless\<close>

lemma same_id_same_message:
  "host_ok M db \<Longrightarrow> a \<in> set (hd_messages db) \<Longrightarrow> b \<in> set (hd_messages db) \<Longrightarrow> hm_id a = hm_id b \<Longrightarrow> a = b"
  by (auto simp: host_ok_def distinct_map inj_on_def)

text \<open>Ids under which the table has completed summaries only.\<close>

definition only_summaries :: "host_db \<Rightarrow> string list \<Rightarrow> bool" where
  "only_summaries db ids \<longleftrightarrow> (\<forall>m\<in>set (hd_messages db). hm_id m \<in> set ids \<longrightarrow> completed_summary m)"

lemma only_summaries_of:
  assumes "host_ok M db" "\<And>m. P m \<Longrightarrow> completed_summary m"
  shows "only_summaries db (map hm_id (filter P (hd_messages db)))"
  using assms(2) same_id_same_message [OF assms(1)] by (fastforce simp: only_summaries_def)

lemma delete_summaries_harmless:
  assumes "host_ok M db" "only_summaries db ids"
  shows "harmless M db (delete_summaries s ids db)"
proof -
  let ?db = "delete_parts (\<lambda>p. hp_sessionId p = s \<and> hp_messageId p \<in> set ids) db"
  have 1: "harmless M db ?db"
    using assms by (intro delete_parts_harmless) (auto simp: marker_part_def only_summaries_def)
  have "harmless M ?db (delete_summaries s ids db)"
    unfolding delete_summaries_def using harmless_host_ok [OF 1] assms(2)
    by (intro delete_messages_harmless) (auto simp: only_summaries_def delete_parts_def)
  with 1 show ?thesis by (rule harmless_trans)
qed

lemma remove_legacy_harmless:
  assumes "host_ok M db"
  shows "harmless M db (removeLegacyMarkerLineageRows s b text i c db)"
proof -
  let ?ids = "map hm_id (filter (legacy_summary db s b text i) (hd_messages db))"
  have 1: "harmless M db (delete_summaries s ?ids db)"
    using assms by (intro delete_summaries_harmless only_summaries_of) (auto simp: legacy_summary_def)
  have "harmless M (delete_summaries s ?ids db)
      (delete_parts (\<lambda>p. hp_sessionId p = s \<and> hp_messageId p = b \<and> hp_id p \<noteq> c \<and> is_compaction p \<and> flag_is_one (hp_data p) ''auto'')
        (delete_summaries s ?ids db))"
    using harmless_host_ok [OF 1] by (intro delete_parts_harmless) (auto simp: marker_part_def)
  with 1 have "harmless M db (delete_parts (\<lambda>p. hp_sessionId p = s \<and> hp_messageId p = b \<and> hp_id p \<noteq> c \<and> is_compaction p \<and> flag_is_one (hp_data p) ''auto'')
        (delete_summaries s ?ids db))"
    by (rule harmless_trans)
  then show ?thesis by (simp add: removeLegacyMarkerLineageRows_def Let_def harmless_refl [OF assms])
qed

lemma canonical_is_compaction [simp]: "is_compaction (marker_compaction_part s k t)"
  by (simp add: is_compaction_def marker_compaction_part_def canonical_part_data_def text_is_def get_field_def)

lemma marker_summary_completed [simp]: "completed_summary (marker_summary s k t d)"
  by (simp add: completed_summary_def marker_summary_def summary_data_def text_is_def flag_is_one_def get_field_def)

lemma write_marker_harmless:
  assumes "host_ok M db" "M (mk_summaryMessageId k)" "M (mk_compactionPartId k)" "M (mk_summaryPartId k)"
  shows "harmless M db (write_marker s k t text d db)"
proof -
  let ?a = "removeLegacyMarkerLineageRows s (mk_boundaryMessageId k) text (mk_summaryMessageId k) (mk_compactionPartId k) db"
  let ?b = "upsertPartRow (marker_compaction_part s k t) ?a"
  let ?c = "upsert_message (marker_summary s k t d) ?b"
  have a: "harmless M db ?a" by (rule remove_legacy_harmless [OF assms(1)])
  have b: "harmless M ?a ?b"
    using harmless_host_ok [OF a] assms(3) by (intro upsert_part_harmless) (simp_all add: marker_compaction_part_def [of s k t, symmetric], simp add: marker_compaction_part_def)
  have c: "harmless M ?b ?c"
    using harmless_host_ok [OF b] assms(2) by (intro upsert_message_harmless) (simp, simp, simp add: marker_summary_def)
  have "harmless M ?c (upsertPartRow (marker_summary_part s k t text) ?c)"
    using harmless_host_ok [OF c] assms(2,4) by (intro upsert_part_harmless) (simp_all add: marker_summary_part_def)
  from harmless_trans [OF harmless_trans [OF harmless_trans [OF a b] c] this]
  show ?thesis by (simp add: write_marker_def)
qed

lemma remove_marker_rows_harmless:
  assumes "host_ok M db" "M (mk_summaryMessageId k)" "M (mk_compactionPartId k)" "M (mk_summaryPartId k)"
  shows "harmless M db (remove_marker_rows k db)"
proof -
  let ?a = "delete_parts (\<lambda>p. hp_id p = mk_summaryPartId k) db"
  let ?b = "delete_messages (\<lambda>m. hm_id m = mk_summaryMessageId k) ?a"
  have a: "harmless M db ?a"
    using assms minted_part_is_marker by (intro delete_parts_harmless) auto
  have b: "harmless M ?a ?b"
    using harmless_host_ok [OF a] assms(2) by (intro delete_messages_harmless) (auto simp: host_ok_def)
  have "harmless M ?b (remove_marker_rows k db)"
    unfolding remove_marker_rows_def using harmless_host_ok [OF b] assms(3) minted_part_is_marker
    by (intro delete_parts_harmless) auto
  from harmless_trans [OF harmless_trans [OF a b] this] show ?thesis .
qed

lemma minted:
  assumes "mints sha s R" "e \<in> set (mr_targets R)" "b \<in> set (mr_boundaries R)"
  shows "ours R (mk_summaryMessageId (minted_ids sha s e b))" "ours R (mk_compactionPartId (minted_ids sha s e b))"
    "ours R (mk_summaryPartId (minted_ids sha s e b))"
  using assms by (auto simp: mints_def Let_def)

text \<open>The boundary of a target is one of the user's messages.\<close>

lemma boundary_known:
  assumes "boundaries_known R db" "findBoundaryUserMessage db s e = Some b"
  shows "b \<in> set (mr_boundaries R)"
  by (rule boundary_facts [OF assms(2)]) (use assms(1) in \<open>auto simp: boundaries_known_def\<close>)

lemma boundaries_stable:
  assumes "user_content db' = user_content db"
  shows "boundaries_known R db' = boundaries_known R db"
proof -
  have rows: "fst ` set (user_content d) = {m \<in> set (hd_messages d). \<not> completed_summary m}" for d
    by (auto simp: user_content_def image_image)
  have "boundaries_known R d \<longleftrightarrow> (\<forall>m\<in>fst ` set (user_content d). is_user m \<longrightarrow> (hm_id m, hm_timeCreated m) \<in> set (mr_boundaries R))" for d
    unfolding rows boundaries_known_def by blast
  with assms show ?thesis by simp
qed

lemma remove_harmless:
  assumes "host_ok M db" "M (mk_summaryMessageId k)" "M (mk_compactionPartId k)" "M (mk_summaryPartId k)"
  shows "harmless M db (fst (removeCompactionMarker a k db))"
  using harmless_refl [OF assms(1)] remove_marker_rows_harmless [OF assms] by (simp add: removeCompactionMarker_def split: write_answer.split)

section \<open>Every operation is harmless\<close>

definition marker_inv :: "marker_run \<Rightarrow> marker_state \<Rightarrow> bool" where
  "marker_inv R S \<longleftrightarrow> host_ok (ours R) (fst S) \<and> boundaries_known R (fst S) \<and> record_ok R (snd S)"

definition marker_safe :: "marker_run \<Rightarrow> marker_state \<Rightarrow> marker_state \<Rightarrow> bool" where
  "marker_safe R S S' \<longleftrightarrow> harmless (ours R) (fst S) (fst S') \<and> record_ok R (snd S')"

lemma marker_safe_refl: "marker_inv R S \<Longrightarrow> marker_safe R S S"
  by (simp add: marker_safe_def marker_inv_def harmless_refl)

lemma marker_safe_inv: "marker_inv R S \<Longrightarrow> marker_safe R S S' \<Longrightarrow> marker_inv R S'"
  using boundaries_stable [of "fst S'" "fst S"] by (simp add: marker_safe_def marker_inv_def harmless_def)

lemma marker_safe_trans: "marker_safe R A B \<Longrightarrow> marker_safe R B C \<Longrightarrow> marker_safe R A C"
  by (auto simp: marker_safe_def intro: harmless_trans)

lemma persisted_ids:
  assumes "record_ok R ctx" "getPersistedCompactionMarkerState ctx = Some st"
  shows "ours R (mk_summaryMessageId (marker_ids.truncate st))" "ours R (mk_compactionPartId (marker_ids.truncate st))"
    "ours R (mk_summaryPartId (marker_ids.truncate st))"
  using assms by (auto simp: record_ok_def getPersistedCompactionMarkerState_def marker_ids.truncate_def split: option.splits)

lemma remove_persisted_harmless:
  assumes "marker_inv R S" "getPersistedCompactionMarkerState (snd S) = Some st"
  shows "harmless (ours R) (fst S) (fst (removeCompactionMarker a (marker_ids.truncate st) (fst S)))"
  using assms persisted_ids [OF _ assms(2), of R] by (intro remove_harmless) (auto simp: marker_inv_def)

lemma remove_existing_harmless:
  assumes "marker_inv R S"
  shows "harmless (ours R) (fst S) (fst (remove_existing a (getPersistedCompactionMarkerState (snd S)) (fst S)))"
  using remove_persisted_harmless [OF assms] assms
  by (auto simp: remove_existing_def marker_inv_def harmless_refl split: option.splits)

lemma inject_at_result:
  assumes "inject_at E f e b oc = (oc', k)"
  obtains "k = None" | "k = Some None" | "k = Some (Some (minted_ids (me_sha256 E) (me_sessionId E) e b))"
  using assms by (auto simp: inject_at_def injectCompactionMarker_def Let_def split: if_splits write_answer.splits)

lemma inject_at_harmless:
  assumes "host_ok (ours R) oc" "mints (me_sha256 E) (me_sessionId E) R" "e \<in> set (mr_targets R)" "b \<in> set (mr_boundaries R)"
  shows "harmless (ours R) oc (fst (inject_at E f e b oc))"
  using harmless_refl [OF assms(1)] write_marker_harmless [OF assms(1) minted [OF assms(2-4)]]
  by (auto simp: inject_at_def injectCompactionMarker_def Let_def split: write_answer.splits)

lemma record_ok_persist:
  assumes "mints (me_sha256 E) (me_sessionId E) R" "e \<in> set (mr_targets R)" "b \<in> set (mr_boundaries R)" "record_ok R ctx"
  shows "record_ok R (persistMarkerStateAndDropReplacedTag s
    (Some (marker_record (minted_ids (me_sha256 E) (me_sessionId E) e b) ordinal e)) r ctx)"
  using minted [OF assms(1-3)] assms(4)
  by (auto simp: record_ok_def persistMarkerStateAndDropReplacedTag_def setPersistedCompactionMarkerState_def marker_record_def Let_def
      split: option.splits)

lemma record_ok_cleared [simp]: "record_ok R ctx \<Longrightarrow> record_ok R (setPersistedCompactionMarkerState None ctx)"
  by (simp add: setPersistedCompactionMarkerState_def record_ok_def)

lemma record_ok_none: "record_ok R ctx \<Longrightarrow> record_ok R (persistMarkerStateAndDropReplacedTag s None r ctx)"
  by (auto simp: record_ok_def persistMarkerStateAndDropReplacedTag_def setPersistedCompactionMarkerState_def Let_def split: option.splits)

lemma replace_marker_safe:
  assumes "marker_inv R S" "mints (me_sha256 E) (me_sessionId E) R" "pm_endMessageId p \<in> set (mr_targets R)" "b \<in> set (mr_boundaries R)"
  shows "marker_safe R S (fst (replace_marker E f p (getPersistedCompactionMarkerState (snd S)) b S))"
proof -
  obtain oc1 r where r: "remove_existing (mf_remove f) (getPersistedCompactionMarkerState (snd S)) (fst S) = (oc1, r)" by fastforce
  with remove_existing_harmless [OF assms(1), of "mf_remove f"] have 1: "harmless (ours R) (fst S) oc1" by simp
  obtain oc2 k where k: "inject_at E f (pm_endMessageId p) b oc1 = (oc2, k)" by fastforce
  with inject_at_harmless [OF harmless_host_ok [OF 1] assms(2-4), of f] have 2: "harmless (ours R) (fst S) oc2"
    using harmless_trans [OF 1] by simp
  from k r 1 2 assms show ?thesis
    by (cases rule: inject_at_result [OF k]; cases r; cases "mf_persist f")
      (simp_all add: replace_marker_def marker_safe_def marker_inv_def record_ok_persist split: bool.split)
qed

lemma apply_deferred_safe:
  assumes "marker_inv R S" "mints (me_sha256 E) (me_sessionId E) R" "pm_endMessageId p \<in> set (mr_targets R)"
  shows "marker_safe R S (fst (applyDeferredCompactionMarker E f p S))"
  using replace_marker_safe [OF assms] boundary_known [of R "fst S" "me_sessionId E" "pm_endMessageId p"] marker_safe_refl [OF assms(1)] assms(1)
  by (simp add: applyDeferredCompactionMarker_def marker_inv_def split: option.split)

lemma inject_and_record_safe:
  assumes "marker_inv R S" "mints (me_sha256 E) (me_sessionId E) R" "e \<in> set (mr_targets R)" "b \<in> set (mr_boundaries R)"
  shows "marker_safe R S (fst (inject_and_record E f ordinal e b r S))"
proof -
  obtain oc2 k where k: "inject_at E f e b (fst S) = (oc2, k)" by fastforce
  with inject_at_harmless [OF _ assms(2-4), of "fst S" f] assms(1) have 2: "harmless (ours R) (fst S) oc2" by (simp add: marker_inv_def)
  from k 2 assms show ?thesis
    by (cases rule: inject_at_result [OF k]; cases "mf_persist f")
      (simp_all add: inject_and_record_def marker_safe_def marker_inv_def record_ok_persist)
qed

lemma move_marker_safe:
  assumes "marker_inv R S" "mints (me_sha256 E) (me_sessionId E) R" "e \<in> set (mr_targets R)" "b \<in> set (mr_boundaries R)"
  shows "marker_safe R S (fst (move_marker E f ordinal e b S))"
proof (cases "getPersistedCompactionMarkerState (snd S)")
  case None
  with inject_and_record_safe [OF assms] show ?thesis by (simp add: move_marker_def)
next
  case (Some st)
  obtain oc1 r where r: "removeCompactionMarker (mf_remove f) (marker_ids.truncate st) (fst S) = (oc1, r)" by fastforce
  with remove_persisted_harmless [OF assms(1) Some, of "mf_remove f"] have 1: "harmless (ours R) (fst S) oc1" by simp
  let ?S1 = "(oc1, persistMarkerStateAndDropReplacedTag (me_sessionId E) None (Some (mk_summaryMessageId st)) (snd S))"
  have "marker_safe R S ?S1" using 1 assms(1) by (simp add: marker_safe_def marker_inv_def record_ok_none)
  from marker_safe_trans [OF this inject_and_record_safe [OF marker_safe_inv [OF assms(1) this] assms(2-4)]]
  have "marker_safe R S (fst (inject_and_record E f ordinal e b (Some (mk_summaryMessageId st)) ?S1))" .
  with Some r 1 assms(1) show ?thesis
    by (auto simp: move_marker_def marker_safe_def marker_inv_def split: option.splits bool.splits write_answer.splits)
qed

lemma end_message_known:
  assumes "record_ok R ctx" "getCompartmentEndMessageIdForOrdinal ctx n = Some e"
  shows "e \<in> set (mr_targets R)"
proof -
  let ?cs = "sort_key mp_sequence (filter (\<lambda>c. mp_endMessage c = n) (mc_compartments ctx))"
  from assms(2) obtain c cs where "rev ?cs = c # cs" "e = mp_endMessageId c"
    by (auto simp: getCompartmentEndMessageIdForOrdinal_def split: list.splits if_splits)
  moreover from this(1) have "c \<in> set ?cs" by (metis list.set_intros(1) set_rev)
  then have "c \<in> set (mc_compartments ctx)" by simp
  ultimately show ?thesis using assms(1) by (auto simp: record_ok_def)
qed

lemma update_safe:
  assumes "marker_inv R S" "mints (me_sha256 E) (me_sessionId E) R"
  shows "marker_safe R S (fst (updateCompactionMarkerAfterPublication E opencode f n S))"
  using move_marker_safe [OF assms] marker_safe_refl [OF assms(1)] end_message_known [of R "snd S" n]
    boundary_known [of R "fst S" "me_sessionId E"] assms(1)
  by (simp add: updateCompactionMarkerAfterPublication_def marker_inv_def split: option.split)

lemma clear_pending_record [simp]: "record_ok R ctx \<Longrightarrow> record_ok R (fst (clearPendingCompactionMarkerStateIf p ctx))"
  by (simp add: clearPendingCompactionMarkerStateIf_def record_ok_def)

lemma advance_safe:
  assumes "marker_inv R S" "mints (me_sha256 E) (me_sessionId E) R"
  shows "marker_safe R S (fst (advanceCompactionMarkerAndClearStalePending E opencode f n S))"
  using update_safe [OF assms, of opencode f n]
  by (auto simp: advanceCompactionMarkerAndClearStalePending_def marker_safe_def Let_def split: prod.splits option.splits)

lemma drain_safe:
  assumes "marker_inv R S" "mints (me_sha256 E) (me_sessionId E) R" "\<And>q. published = Some q \<Longrightarrow> pm_endMessageId q \<in> set (mr_targets R)"
  shows "marker_safe R S (fst (drain_marker E f consumed published S))"
proof (cases "mc_pending (snd S)")
  case None
  with marker_safe_refl [OF assms(1)] show ?thesis by (simp add: drain_marker_def)
next
  case (Some p)
  obtain oc ctx r where r: "applyDeferredCompactionMarker E f p S = ((oc, ctx), r)" by (metis surj_pair)
  have "pm_endMessageId p \<in> set (mr_targets R)" using assms(1) Some by (simp add: marker_inv_def record_ok_def)
  with apply_deferred_safe [OF assms(1,2), of p f] r have 1: "marker_safe R S (oc, ctx)" by simp
  have "record_ok R (fst (clearPendingCompactionMarkerAfterSuccessfulDrain p ctx'))" if "record_ok R ctx'" for ctx'
    using that by (auto simp: clearPendingCompactionMarkerAfterSuccessfulDrain_def clearPendingCompactionMarkerStateIf_def record_ok_def)
  moreover have "record_ok R (setPendingCompactionMarkerState (Some q) ctx)" if "published = Some q" for q
    using assms(3) [OF that] 1 by (simp add: setPendingCompactionMarkerState_def record_ok_def marker_safe_def)
  ultimately show ?thesis
    using Some r 1 marker_safe_refl [OF assms(1)]
    by (auto simp: drain_marker_def marker_safe_def Let_def split_beta split: option.splits marker_outcome.splits)
qed

lemma remove_for_session_safe:
  assumes "marker_inv R S"
  shows "marker_safe R S (removeCompactionMarkerForSession a S)"
proof (cases "getPersistedCompactionMarkerState (snd S)")
  case (Some st)
  from remove_persisted_harmless [OF assms Some, of a] Some assms show ?thesis
    by (cases "removeCompactionMarker a (marker_ids.truncate st) (fst S)")
      (auto simp: removeCompactionMarkerForSession_def marker_safe_def marker_inv_def split: option.splits)
qed (simp add: removeCompactionMarkerForSession_def marker_safe_refl [OF assms])

lemma compacted_safe: "marker_inv R S \<Longrightarrow> marker_safe R S (session_compacted a S)"
  using remove_for_session_safe [of R S a]
  by (auto simp: session_compacted_def marker_safe_def Let_def split: prod.splits option.splits)

lemma startup_safe:
  assumes "marker_inv R S"
  shows "marker_safe R S (checkCompactionMarkerConsistency readable a S)"
proof (cases "getPersistedCompactionMarkerState (snd S)")
  case (Some st)
  from remove_persisted_harmless [OF assms Some, of a] Some assms marker_safe_refl [OF assms] show ?thesis
    by (cases "removeCompactionMarker a (marker_ids.truncate st) (fst S)")
      (auto simp: checkCompactionMarkerConsistency_def marker_safe_def marker_inv_def split: option.splits bool.splits)
qed (simp add: checkCompactionMarkerConsistency_def marker_safe_refl [OF assms])

section \<open>The cleanups are harmless\<close>

definition subrows :: "host_db \<Rightarrow> host_db \<Rightarrow> bool" where
  "subrows db' db \<longleftrightarrow> set (hd_messages db') \<subseteq> set (hd_messages db) \<and> set (hd_parts db') \<subseteq> set (hd_parts db)"

lemma subrows_deletes [simp]:
  "subrows (delete_parts P db) db" "subrows (delete_messages Q db) db" "subrows (delete_summaries s ids db) db"
  by (auto simp: subrows_def delete_parts_def delete_messages_def delete_summaries_def)

lemma subrows_trans: "subrows c b \<Longrightarrow> subrows b a \<Longrightarrow> subrows c a"
  by (auto simp: subrows_def)

text \<open>Ids of summaries and of compaction parts only; a smaller table keeps that.\<close>

definition marker_rows_only :: "host_db \<Rightarrow> string list \<Rightarrow> string list \<Rightarrow> bool" where
  "marker_rows_only db summaryIds partIds \<longleftrightarrow>
     only_summaries db summaryIds \<and> (\<forall>p\<in>set (hd_parts db). hp_id p \<in> set partIds \<longrightarrow> is_compaction p)"

lemma marker_rows_only_subrows: "marker_rows_only db a b \<Longrightarrow> subrows db' db \<Longrightarrow> marker_rows_only db' a b"
  by (auto simp: marker_rows_only_def only_summaries_def subrows_def)

lemma marker_rows_only_subset: "marker_rows_only db a b \<Longrightarrow> set a' \<subseteq> set a \<Longrightarrow> set b' \<subseteq> set b \<Longrightarrow> marker_rows_only db a' b'"
  by (auto simp: marker_rows_only_def only_summaries_def)

lemma same_id_same_part:
  "host_ok M db \<Longrightarrow> a \<in> set (hd_parts db) \<Longrightarrow> b \<in> set (hd_parts db) \<Longrightarrow> hp_id a = hp_id b \<Longrightarrow> a = b"
  by (auto simp: host_ok_def distinct_map inj_on_def)

lemma delete_lineage_harmless:
  assumes "host_ok M db" "marker_rows_only db summaryIds partIds"
  shows "harmless M db (delete_lineage s summaryIds partIds db) \<and> subrows (delete_lineage s summaryIds partIds db) db"
proof -
  let ?a = "delete_summaries s summaryIds db"
  have a: "harmless M db ?a" using assms by (intro delete_summaries_harmless) (simp_all add: marker_rows_only_def)
  have "marker_rows_only ?a summaryIds partIds" using assms(2) by (rule marker_rows_only_subrows) simp
  then have "harmless M ?a (delete_lineage s summaryIds partIds db)"
    unfolding delete_lineage_def using harmless_host_ok [OF a]
    by (intro delete_parts_harmless) (auto simp: marker_rows_only_def marker_part_def)
  moreover have "subrows (delete_lineage s summaryIds partIds db) db"
    unfolding delete_lineage_def by (rule subrows_trans [OF subrows_deletes(1) subrows_deletes(3)])
  ultimately show ?thesis using harmless_trans [OF a] by blast
qed

lemma remove_foreign_lineage:
  "removeForeignCompactionMarker True s marker protected db =
     (delete_lineage s (filter (\<lambda>i. Some i \<noteq> protected) (sm_summaryMessageIds marker)) [sm_compactionPartId marker] db, True)"
  by (simp add: removeForeignCompactionMarker_def delete_lineage_def)

lemma remove_foreign_harmless:
  assumes "host_ok M db" "marker_rows_only db (sm_summaryMessageIds marker) [sm_compactionPartId marker]"
  shows "harmless M db (fst (removeForeignCompactionMarker w s marker protected db))
     \<and> subrows (fst (removeForeignCompactionMarker w s marker protected db)) db"
proof (cases w)
  case True
  have "marker_rows_only db (filter (\<lambda>i. Some i \<noteq> protected) (sm_summaryMessageIds marker)) [sm_compactionPartId marker]"
    using assms(2) by (rule marker_rows_only_subset) auto
  from delete_lineage_harmless [OF assms(1) this] True show ?thesis by (simp add: remove_foreign_lineage)
qed (simp add: removeForeignCompactionMarker_def harmless_refl [OF assms(1)] subrows_def)

lemma reconcile_loop_harmless:
  assumes "host_ok M db" "list_all (\<lambda>m. marker_rows_only db (sm_summaryMessageIds m) [sm_compactionPartId m]) markers"
  shows "harmless M db (fst (reconcile_loop s f owned k markers db acc))"
  using assms
proof (induction markers arbitrary: k db acc)
  case (Cons m ms)
  have skip: "harmless M db (fst (reconcile_loop s f owned (k + 1) ms db acc))" using Cons by simp
  have step: "harmless M db (fst (reconcile_loop s f owned (k + 1) ms db' acc'))"
    if "removeForeignCompactionMarker w s m q db = (db', b)" for db' acc' w q b
  proof -
    from Cons.prems that remove_foreign_harmless [of M db m w s q] have 1: "harmless M db db'" "subrows db' db" by auto
    moreover have "list_all (\<lambda>m. marker_rows_only db' (sm_summaryMessageIds m) [sm_compactionPartId m]) ms"
      using Cons.prems(2) marker_rows_only_subrows [OF _ 1(2)] by (auto simp: list_all_iff)
    ultimately show ?thesis using Cons.IH harmless_host_ok harmless_trans by blast
  qed
  show ?case
    using skip step harmless_refl [OF Cons.prems(1)]
    by (simp add: Let_def split: option.split prod.split bool.split)
qed (simp add: harmless_refl)

lemma listed_markers:
  assumes "host_ok M db"
  shows "list_all (\<lambda>m. marker_rows_only db (sm_summaryMessageIds m) [sm_compactionPartId m]) (listSessionCompactionMarkers db s)"
proof -
  have "marker_rows_only db (map hm_id (filter (own_summary_of s b) (hd_messages db))) [hp_id p]"
    if "p \<in> set (hd_parts db)" "is_compaction p" for p b
    using that same_id_same_part [OF assms] only_summaries_of [OF assms, of "own_summary_of s b"]
    by (auto simp: marker_rows_only_def own_summary_of_def)
  then show ?thesis by (auto simp: listSessionCompactionMarkers_def list_all_iff)
qed

lemma reconcile_safe:
  assumes "marker_inv R S"
  shows "marker_safe R S (fst (reconcileForkOrphanedCompactionMarkers s opencode f S))"
proof -
  have "host_ok (ours R) (fst S)" using assms by (simp add: marker_inv_def)
  note loop = reconcile_loop_harmless [OF this listed_markers [OF this, where s = s]]
  have "harmless (ours R) (fst S) oc" if "reconcile_loop s f owned 0 (listSessionCompactionMarkers (fst S) s) (fst S) (0, False) = (oc, r)" for owned oc r
    using loop [where s = s and f = f and owned = owned and k = 0 and acc = "(0, False)"] that by simp
  with assms marker_safe_refl [OF assms] show ?thesis
    by (simp add: reconcileForkOrphanedCompactionMarkers_def marker_safe_def marker_inv_def split: option.split prod.split)
qed

lemma cleanup_lineage_harmless:
  assumes "host_ok M db" "marker_rows_only db summaryIds partIds"
  shows "harmless M db (fst (cleanup_lineage s parts tails summaryIds partIds (db, r)))
     \<and> subrows (fst (cleanup_lineage s parts tails summaryIds partIds (db, r))) db"
  using delete_lineage_harmless [OF assms, of s] harmless_refl [OF assms(1)]
  by (simp add: cleanup_lineage_def Let_def subrows_def)

lemma cleanup_fold_harmless:
  assumes "host_ok M db" "list_all (\<lambda>b. marker_rows_only db (C b) (P b)) bs"
  shows "harmless M db (fst (foldl (\<lambda>st b. cleanup_lineage s parts tails (C b) (P b) st) (db, r) bs))
     \<and> subrows (fst (foldl (\<lambda>st b. cleanup_lineage s parts tails (C b) (P b) st) (db, r) bs)) db"
  using assms
proof (induction bs arbitrary: db r)
  case (Cons b bs)
  obtain db' r' where st: "cleanup_lineage s parts tails (C b) (P b) (db, r) = (db', r')" by fastforce
  from Cons.prems cleanup_lineage_harmless [of M db "C b" "P b" s parts tails r] st
  have 1: "harmless M db db'" "subrows db' db" by auto
  have "list_all (\<lambda>b. marker_rows_only db' (C b) (P b)) bs"
    using Cons.prems(2) marker_rows_only_subrows [OF _ 1(2)] by (auto simp: list_all_iff)
  from Cons.IH [OF harmless_host_ok [OF 1(1)] this, of r'] 1 st show ?case
    by (auto intro: harmless_trans subrows_trans)
qed (simp add: harmless_refl subrows_def)

lemma owned_rows:
  assumes "host_ok M db"
  shows "marker_rows_only db (children_of (owned_summaries db s text) b) (mc_part_ids (compaction_parts db s) c)"
proof -
  have "completed_summary m" if "m \<in> set (owned_summaries db s text)" for m
    using that by (auto simp: owned_summaries_def canonical_summary_def foreign_named_summary_def)
  moreover have "m \<in> set (hd_messages db)" if "m \<in> set (owned_summaries db s text)" for m
    using that by (auto simp: owned_summaries_def)
  ultimately have "only_summaries db (children_of (owned_summaries db s text) b)"
    using same_id_same_message [OF assms] by (fastforce simp: only_summaries_def children_of_def)
  moreover have "is_compaction p" if "p \<in> set (hd_parts db)" "hp_id p \<in> set (mc_part_ids (compaction_parts db s) c)" for p
    using that same_id_same_part [OF assms] by (auto simp: mc_part_ids_def compaction_parts_def)
  ultimately show ?thesis by (simp add: marker_rows_only_def)
qed

lemma cleanup_harmless:
  assumes "host_ok M db"
  shows "harmless M db (fst (removeMcOwnedCompactionMarkers schema s text db))"
proof -
  let ?owned = "owned_summaries db s text" and ?parts = "compaction_parts db s" and ?tails = "message_tails db s"
  let ?st = "foldl (\<lambda>st b. cleanup_lineage s ?parts ?tails (children_of ?owned b) (mc_part_ids ?parts b) st) (db, no_cleanup True) (boundaries_of ?owned)"
  obtain db1 r1 where st: "?st = (db1, r1)" by fastforce
  have 1: "harmless M db db1" "subrows db1 db"
    using cleanup_fold_harmless [of M db "children_of ?owned" "mc_part_ids ?parts" "boundaries_of ?owned" s ?parts ?tails "no_cleanup True"]
      owned_rows [OF assms] assms st by (simp_all add: list_all_iff)
  have "marker_rows_only db (children_of ?owned []) []"
    using owned_rows [OF assms] by (rule marker_rows_only_subset) auto
  then have "marker_rows_only db1 (children_of ?owned []) []" using 1(2) by (rule marker_rows_only_subrows)
  from cleanup_lineage_harmless [OF harmless_host_ok [OF 1(1)] this, of s ?parts ?tails r1]
  have "harmless M db (fst (cleanup_lineage s ?parts ?tails (children_of ?owned []) [] (db1, r1)))"
    using harmless_trans [OF 1(1)] by blast
  with 1(1) st harmless_refl [OF assms] show ?thesis
    by (auto simp: removeMcOwnedCompactionMarkers_def Let_def split: prod.split)
qed

section \<open>Runs\<close>

text \<open>What the host, the historian and the marker code do to one session, in any order.\<close>

datatype marker_event =
  HostAddsMessage host_message
| HostAddsPart host_part
| HostDeletesMessage string
| HostDeletesPart string
| Published "marker_compartment list" tags_db "pending_marker option"
| Drained marker_faults "(string \<times> int) option" "pending_marker option"
| Advanced bool marker_faults int
| Updated_directly bool marker_faults int
| SessionDeleted write_answer
| HostCompacted write_answer
| Reconciled bool orphan_faults
| StartedUp bool write_answer
| CleanedUp bool

definition marker_step :: "marker_env \<Rightarrow> marker_state \<Rightarrow> marker_event \<Rightarrow> marker_state" where
  "marker_step E S ev =
     (let (oc, ctx) = S
      in case ev of
        HostAddsMessage m \<Rightarrow> (if list_ex (\<lambda>x. hm_id x = hm_id m) (hd_messages oc) then S else (oc\<lparr>hd_messages := hd_messages oc @ [m]\<rparr>, ctx))
      | HostAddsPart p \<Rightarrow> (if list_ex (\<lambda>x. hp_id x = hp_id p) (hd_parts oc) then S else (oc\<lparr>hd_parts := hd_parts oc @ [p]\<rparr>, ctx))
      | HostDeletesMessage i \<Rightarrow> (delete_messages (\<lambda>m. hm_id m = i) oc, ctx)
      | HostDeletesPart i \<Rightarrow> (delete_parts (\<lambda>p. hp_id p = i) oc, ctx)
      | Published cs tags p \<Rightarrow> (oc, setPendingCompactionMarkerState p (ctx\<lparr>mc_compartments := cs, mc_tags := tags\<rparr>))
      | Drained f consumed published \<Rightarrow> fst (drain_marker E f consumed published S)
      | Advanced opencode f n \<Rightarrow> fst (advanceCompactionMarkerAndClearStalePending E opencode f n S)
      | Updated_directly opencode f n \<Rightarrow> fst (updateCompactionMarkerAfterPublication E opencode f n S)
      | SessionDeleted a \<Rightarrow> removeCompactionMarkerForSession a S
      | HostCompacted a \<Rightarrow> session_compacted a S
      | Reconciled opencode f \<Rightarrow> fst (reconcileForkOrphanedCompactionMarkers (me_sessionId E) opencode f S)
      | StartedUp readable a \<Rightarrow> checkCompactionMarkerConsistency readable a S
      | CleanedUp schema \<Rightarrow> (fst (removeMcOwnedCompactionMarkers schema (me_sessionId E) (me_summaryText E) oc), ctx))"

definition host_event :: "marker_event \<Rightarrow> bool" where
  "host_event ev = (case ev of HostAddsMessage _ \<Rightarrow> True | HostAddsPart _ \<Rightarrow> True | HostDeletesMessage _ \<Rightarrow> True | HostDeletesPart _ \<Rightarrow> True | _ \<Rightarrow> False)"

text \<open>
  What the host and the historian may do in a run: the host's own ids are none of those that the plugin mints in it, a new
  message of the user is one of the run's boundaries, and what is published ends at one of the run's targets.
\<close>

definition run_event :: "marker_run \<Rightarrow> marker_event \<Rightarrow> bool" where
  "run_event R ev =
     (case ev of
        HostAddsMessage m \<Rightarrow> \<not> ours R (hm_id m) \<and> (is_user m \<and> \<not> completed_summary m \<longrightarrow> (hm_id m, hm_timeCreated m) \<in> set (mr_boundaries R))
      | HostAddsPart p \<Rightarrow> \<not> ours R (hp_id p)
      | Published cs tags p \<Rightarrow> mp_endMessageId ` set cs \<subseteq> set (mr_targets R)
          \<and> (case p of None \<Rightarrow> True | Some q \<Rightarrow> pm_endMessageId q \<in> set (mr_targets R))
      | Drained f consumed p \<Rightarrow> (case p of None \<Rightarrow> True | Some q \<Rightarrow> pm_endMessageId q \<in> set (mr_targets R))
      | _ \<Rightarrow> True)"

lemma marker_step_safe:
  assumes "marker_inv R S" "mints (me_sha256 E) (me_sessionId E) R" "run_event R ev" "\<not> host_event ev"
  shows "marker_safe R S (marker_step E S ev)"
proof -
  obtain oc ctx where S: "S = (oc, ctx)" by fastforce
  show ?thesis
  proof (cases ev)
    case (Published cs tags p)
    with assms S show ?thesis
      by (simp add: marker_step_def marker_safe_def marker_inv_def harmless_refl setPendingCompactionMarkerState_def record_ok_def run_event_def)
  next
    case (Drained f consumed published)
    then have "published = Some q \<Longrightarrow> pm_endMessageId q \<in> set (mr_targets R)" for q using assms(3) by (simp add: run_event_def)
    from drain_safe [OF assms(1,2) this] Drained S show ?thesis by (simp add: marker_step_def)
  next
    case (CleanedUp schema)
    with assms S cleanup_harmless [of "ours R" oc] show ?thesis by (simp add: marker_step_def marker_safe_def marker_inv_def)
  qed (use assms S advance_safe update_safe remove_for_session_safe compacted_safe reconcile_safe startup_safe
      in \<open>simp_all add: marker_step_def host_event_def\<close>)
qed

lemma host_step_inv:
  assumes "marker_inv R S" "host_event ev" "run_event R ev"
  shows "marker_inv R (marker_step E S ev)"
  using assms
  by (cases ev) (auto simp: marker_step_def host_event_def run_event_def marker_inv_def host_ok_def boundaries_known_def list_ex_iff
      delete_messages_def delete_parts_def distinct_map_filter split: prod.splits)

lemma marker_step_inv:
  assumes "marker_inv R S" "mints (me_sha256 E) (me_sessionId E) R" "run_event R ev"
  shows "marker_inv R (marker_step E S ev)"
  using host_step_inv [OF assms(1) _ assms(3)] marker_safe_inv [OF assms(1) marker_step_safe [OF assms]] by blast

lemma marker_run_inv:
  assumes "marker_inv R S" "mints (me_sha256 E) (me_sessionId E) R" "list_all (run_event R) es"
  shows "marker_inv R (foldl (marker_step E) S es)"
  using assms by (induction es arbitrary: S) (simp_all add: marker_step_inv)

section \<open>Properties\<close>

text \<open>An example: a session with one message of the user, in OpenCode's format of ids, which ends a compartment.\<close>

definition example_user_id :: string where
  "example_user_id = ''msg_0000000050017QxYc2LwA9fKd3''"

definition example_marker_env :: marker_env where
  "example_marker_env = \<lparr>me_sha256 = length, me_sessionId = ''s'', me_summaryText = ''compacted'', me_directory = ''/''\<rparr>"

definition example_run :: marker_run where
  "example_run =
     (let k = minted_ids length ''s'' example_user_id (example_user_id, 5)
      in \<lparr>mr_targets = [example_user_id], mr_boundaries = [(example_user_id, 5)],
          mr_minted = [mk_summaryMessageId k, mk_compactionPartId k, mk_summaryPartId k]\<rparr>)"

lemma example_mints: "mints length ''s'' example_run"
  by (simp add: mints_def example_run_def ours_def Let_def)

definition example_user_message :: host_message where
  "example_user_message = \<lparr>hm_id = example_user_id, hm_sessionId = ''s'', hm_timeCreated = 5, hm_timeUpdated = 5,
     hm_data = JObj [(''role'', JStr ''user'')]\<rparr>"

definition example_pending :: pending_marker where
  "example_pending = \<lparr>pm_ordinal = 1, pm_endMessageId = example_user_id, pm_publishedAt = 7\<rparr>"

definition no_marker_tags :: tags_db where
  "no_marker_tags = \<lparr>tb_tags = [], tb_nextId = 1, tb_ops = [], tb_sources = [], tb_counters = Map.empty\<rparr>"

definition example_marker_state :: marker_state where
  "example_marker_state =
     (\<lparr>hd_messages = [example_user_message], hd_parts = []\<rparr>,
      \<lparr>mc_persisted = None, mc_pending = Some example_pending,
       mc_compartments = [\<lparr>mp_sequence = 1, mp_endMessage = 1, mp_endMessageId = example_user_id\<rparr>], mc_tags = no_marker_tags\<rparr>)"

lemma example_user_no_summary: "\<not> completed_summary example_user_message"
  by (simp add: completed_summary_def flag_is_one_def get_field_def example_user_message_def)

lemma show_base_rules:
  "n < b \<Longrightarrow> show_base b n = [digit_char n]"
  "b \<le> n \<Longrightarrow> 2 \<le> b \<Longrightarrow> show_base b n = show_base b (n div b) @ [digit_char (n mod b)]"
  by (subst show_base.simps, simp)+

lemma example_id_is_free: "\<not> ours example_run example_user_id"
proof -
  have "replicate 8 (CHR ''0'') = ''00000000''" by code_simp
  moreover have "char_of (54 :: nat) = CHR ''6''" by code_simp
  ultimately show ?thesis
    by (simp add: ours_def example_run_def minted_ids_def generateMessageId_def generatePartId_def generateId_def example_user_id_def
        pad_start_def show_base_rules digit_char_def Let_def)
qed

lemma example_marker_inv: "marker_inv example_run example_marker_state"
  using example_id_is_free
  by (simp add: marker_inv_def example_marker_state_def host_ok_def record_ok_def boundaries_known_def example_user_message_def example_pending_def)
    (simp add: example_run_def Let_def)



end
