(* ===== verification/Marker_Recovery.thy ===== *)
theory Marker_Recovery
  imports Marker_Facts
begin

text \<open>
  A move of the marker writes to two databases without a common transaction. However often it is interrupted, the next
  move that runs through leaves the rows and the record that an undisturbed move would have left.
\<close>

section \<open>What a move reads does not change\<close>

lemma find_filter: "find P (filter Q xs) = find (\<lambda>x. Q x \<and> P x) xs"
  by (induction xs) auto

lemma conversation: "map fst (user_content db) = filter (\<lambda>m. \<not> completed_summary m) (hd_messages db)"
  by (simp add: user_content_def o_def)

lemma same_conversation:
  "user_content db' = user_content db \<Longrightarrow>
   filter (\<lambda>m. \<not> completed_summary m) (hd_messages db') = filter (\<lambda>m. \<not> completed_summary m) (hd_messages db)"
  by (metis conversation)

lemma sort_key_stable:
  assumes "user_content db' = user_content db"
  shows "getNonSummaryMessageSortKey db' s i = getNonSummaryMessageSortKey db s i"
proof -
  have "find (\<lambda>m. hm_sessionId m = s \<and> hm_id m = i \<and> \<not> completed_summary m) ms
      = find (\<lambda>m. hm_sessionId m = s \<and> hm_id m = i) (filter (\<lambda>m. \<not> completed_summary m) ms)" for ms
    by (simp add: find_filter conj_ac)
  with same_conversation [OF assms] show ?thesis by (simp add: getNonSummaryMessageSortKey_def)
qed

lemma boundary_stable:
  assumes "user_content db' = user_content db"
  shows "findBoundaryUserMessage db' s e = findBoundaryUserMessage db s e"
proof -
  have "filter (\<lambda>m. hm_sessionId m = s \<and> \<not> completed_summary m \<and> is_user m \<and> at_or_before t m) ms
      = filter (\<lambda>m. hm_sessionId m = s \<and> is_user m \<and> at_or_before t m) (filter (\<lambda>m. \<not> completed_summary m) ms)" for t ms
    by (simp add: conj_ac)
  then show ?thesis
    by (simp only: findBoundaryUserMessage_def same_conversation [OF assms] sort_key_stable [OF assms])
qed

lemma covered_stable:
  assumes "user_content db' = user_content db"
  shows "covered db' s ctx n e = covered db s ctx n e"
  by (simp only: covered_def existingMarkerAlreadyCoversTarget_def compareOpenCodeMessagesByCanonicalOrder_def sort_key_stable [OF assms])

lemma sort_key_present:
  assumes "getNonSummaryMessageSortKey db s i \<noteq> None"
  shows "getOpenCodeMessageById db s i \<noteq> None"
  using assms by (auto simp: getNonSummaryMessageSortKey_def getOpenCodeMessageById_def find_None_iff)

lemma validation_stable:
  assumes "user_content db' = user_content db" "findBoundaryUserMessage db s (pm_endMessageId p) \<noteq> None"
    "validatePendingTarget db ctx s p = None" "mc_compartments ctx' = mc_compartments ctx"
  shows "validatePendingTarget db' ctx' s p = None"
proof -
  have "getNonSummaryMessageSortKey db' s (pm_endMessageId p) \<noteq> None"
    using assms(2) sort_key_stable [OF assms(1)] by (auto simp: findBoundaryUserMessage_def split: option.splits)
  from sort_key_present [OF this] assms(3,4) show ?thesis
    by (simp add: validatePendingTarget_def getCompartmentsByEndMessageId_def split: if_splits)
qed

section \<open>The rows of a move\<close>

definition same_marker_rows :: "host_db \<Rightarrow> host_db \<Rightarrow> bool" where
  "same_marker_rows a b \<longleftrightarrow> set (hd_messages a) = set (hd_messages b) \<and> set (hd_parts a) = set (hd_parts b)"

lemma same_marker_rows_refl [simp]: "same_marker_rows a a"
  by (simp add: same_marker_rows_def)

lemma same_marker_rows_trans: "same_marker_rows a b \<Longrightarrow> same_marker_rows b c \<Longrightarrow> same_marker_rows a c"
  by (simp add: same_marker_rows_def)

text \<open>The removal of the old marker, if there is one.\<close>

definition without_old :: "persisted_marker option \<Rightarrow> host_db \<Rightarrow> host_db" where
  "without_old existing db = (case existing of None \<Rightarrow> db | Some x \<Rightarrow> remove_marker_rows (marker_ids.truncate x) db)"

lemma without_old_rows:
  "set (hd_messages (without_old x db)) = {m \<in> set (hd_messages db). x \<noteq> None \<longrightarrow> hm_id m \<noteq> mk_summaryMessageId (the x)}"
  "set (hd_parts (without_old x db)) =
     {p \<in> set (hd_parts db). x \<noteq> None \<longrightarrow> hp_id p \<noteq> mk_summaryPartId (the x) \<and> hp_id p \<noteq> mk_compactionPartId (the x)}"
  by (auto simp: without_old_def remove_marker_rows_def delete_parts_def delete_messages_def marker_ids.truncate_def split: option.splits)

lemma without_old_idem: "without_old x (without_old x db) = without_old x db"
proof -
  have "filter P (filter P xs) = filter P xs" for P :: "'a \<Rightarrow> bool" and xs by simp
  then show ?thesis
    by (auto simp: without_old_def remove_marker_rows_def delete_parts_def delete_messages_def conj_ac split: option.split intro!: filter_cong)
qed

text \<open>The rows that are left after the removal of legacy lineages.\<close>

abbreviation "cleared s k text db \<equiv>
  removeLegacyMarkerLineageRows s (mk_boundaryMessageId k) text (mk_summaryMessageId k) (mk_compactionPartId k) db"

abbreviation "legacy s k text db \<equiv> legacy_summary db s (mk_boundaryMessageId k) text (mk_summaryMessageId k)"

lemma cleared_subrows: "subrows (cleared s k text db) db"
  by (auto simp: removeLegacyMarkerLineageRows_def Let_def subrows_def delete_parts_def delete_summaries_def delete_messages_def)

lemma cleared_no_legacy:
  assumes "m \<in> set (hd_messages (cleared s k text db))" "m \<in> set (hd_messages db)" "legacy s k text db m"
  shows False
proof -
  have "hm_id m \<in> set (map hm_id (filter (legacy s k text db) (hd_messages db)))" using assms(2,3) by simp
  moreover have "hm_sessionId m = s" using assms(3) by (simp add: legacy_summary_def)
  ultimately show ?thesis
    using assms(1) by (auto simp: removeLegacyMarkerLineageRows_def Let_def delete_parts_def delete_summaries_def delete_messages_def
        filter_empty_conv split: if_splits)
qed

lemma cleared_id:
  assumes "\<And>m. m \<in> set (hd_messages db) \<Longrightarrow> \<not> legacy s k text db m"
  shows "cleared s k text db = db"
proof -
  have "filter (legacy s k text db) (hd_messages db) = []" using assms by (simp add: filter_empty_conv)
  then show ?thesis by (simp add: removeLegacyMarkerLineageRows_def)
qed

text \<open>What is written, over what is left.\<close>

lemma write_marker_rows:
  "set (hd_messages (write_marker s k t text d db)) =
     insert (marker_summary s k t d) {m \<in> set (hd_messages (cleared s k text db)). hm_id m \<noteq> mk_summaryMessageId k}"
  "set (hd_parts (write_marker s k t text d db)) =
     insert (marker_summary_part s k t text)
       {p \<in> insert (marker_compaction_part s k t) {p \<in> set (hd_parts (cleared s k text db)). hp_id p \<noteq> mk_compactionPartId k}.
          hp_id p \<noteq> mk_summaryPartId k}"
  by (simp_all add: write_marker_def upsertPartRow_def upsert_message_def set_upsert_by marker_summary_def marker_summary_part_def
      marker_compaction_part_def)

text \<open>After a move, without the old marker, there is no legacy lineage.\<close>

lemma no_legacy_after_move:
  assumes "subrows db' (write_marker s k t text d db)" "m \<in> set (hd_messages db')"
  shows "\<not> legacy s k text db' m"
proof
  assume l: "legacy s k text db' m"
  then have id: "hm_id m \<noteq> mk_summaryMessageId k" by (simp add: legacy_summary_def)
  with assms have m: "m \<in> set (hd_messages (cleared s k text db))"
    by (auto simp: subrows_def write_marker_rows marker_summary_def)
  from l obtain q where q: "q \<in> set (hd_parts db')" "hp_sessionId q = hm_sessionId m" "hp_messageId q = hm_id m"
    "text_is (hp_data q) ''type'' ''text''" "text_is (hp_data q) ''text'' text"
    by (auto simp: legacy_summary_def has_marker_text_def list_ex_iff)
  have "q \<noteq> marker_summary_part s k t text" using q(3) id by (auto simp: marker_summary_part_def)
  moreover have "q \<noteq> marker_compaction_part s k t"
    using q(4) by (auto simp: marker_compaction_part_def canonical_part_data_def text_is_def get_field_def)
  ultimately have "q \<in> set (hd_parts (cleared s k text db))"
    using q(1) assms(1) by (auto simp: subrows_def write_marker_rows)
  then have "q \<in> set (hd_parts db)" using cleared_subrows [of s k "text" db] by (auto simp: subrows_def)
  then have "has_marker_text db text m" using q by (auto simp: has_marker_text_def list_ex_iff)
  then have "legacy s k text db m" using l by (simp add: legacy_summary_def)
  moreover have "m \<in> set (hd_messages db)" using m cleared_subrows [of s k "text" db] by (auto simp: subrows_def)
  ultimately show False using m by (blast dest: cleared_no_legacy)
qed

lemma subrows_without_old: "subrows (without_old x db) db"
  by (auto simp: subrows_def without_old_rows)

lemma move_again:
  assumes "without_old x db = db"
  shows "same_marker_rows (write_marker s k t text d (without_old x (write_marker s k t text d db))) (write_marker s k t text d db)"
proof -
  let ?v = "write_marker s k t text d db"
  have "cleared s k text (without_old x ?v) = without_old x ?v"
    using no_legacy_after_move subrows_without_old by (blast intro: cleared_id)
  moreover have "m \<in> set (hd_messages (cleared s k text db)) \<Longrightarrow> x \<noteq> None \<Longrightarrow> hm_id m \<noteq> mk_summaryMessageId (the x)" for m
    using assms without_old_rows(1) [of x db] cleared_subrows [of s k "text" db] by (auto simp: subrows_def)
  moreover have "p \<in> set (hd_parts (cleared s k text db)) \<Longrightarrow> x \<noteq> None \<Longrightarrow>
      hp_id p \<noteq> mk_summaryPartId (the x) \<and> hp_id p \<noteq> mk_compactionPartId (the x)" for p
    using assms without_old_rows(2) [of x db] cleared_subrows [of s k "text" db] by (auto simp: subrows_def)
  moreover have "hm_id (marker_summary s k t d) = mk_summaryMessageId k" "hp_id (marker_summary_part s k t text) = mk_summaryPartId k"
    "hp_id (marker_compaction_part s k t) = mk_compactionPartId k"
    by (simp_all add: marker_summary_def marker_summary_part_def marker_compaction_part_def)
  ultimately show ?thesis
    unfolding same_marker_rows_def write_marker_rows(1) [of s k t "text" d "without_old x ?v"] write_marker_rows(2) [of s k t "text" d "without_old x ?v"]
    by (simp only: without_old_rows write_marker_rows) auto
qed

section \<open>Interrupted moves\<close>

definition move_rows :: "marker_env \<Rightarrow> pending_marker \<Rightarrow> marker_ctx \<Rightarrow> string \<times> int \<Rightarrow> host_db \<Rightarrow> host_db" where
  "move_rows E p ctx b oc =
     write_marker (me_sessionId E) (minted_ids (me_sha256 E) (me_sessionId E) (pm_endMessageId p) b) (snd b) (me_summaryText E) (me_directory E)
       (without_old (getPersistedCompactionMarkerState ctx) oc)"

definition moved_ctx :: "marker_env \<Rightarrow> pending_marker \<Rightarrow> marker_ctx \<Rightarrow> string \<times> int \<Rightarrow> marker_ctx" where
  "moved_ctx E p ctx b =
     persistMarkerStateAndDropReplacedTag (me_sessionId E)
       (Some (marker_record (minted_ids (me_sha256 E) (me_sessionId E) (pm_endMessageId p) b) (pm_ordinal p) (pm_endMessageId p)))
       (map_option mk_summaryMessageId (getPersistedCompactionMarkerState ctx)) ctx"

text \<open>The states a move can leave behind.\<close>

lemma remove_existing_cases:
  obtains r where "remove_existing a x oc = (oc, Some False)" | "remove_existing a x oc = (oc, None)"
    | "remove_existing a x oc = (without_old x oc, Some True)"
  by (cases x; cases a) (simp_all add: remove_existing_def removeCompactionMarker_def without_old_def)

lemma inject_at_cases:
  obtains "inject_at E f e b oc = (oc, None)" | "inject_at E f e b oc = (oc, Some None)"
    | "inject_at E f e b oc = (write_marker (me_sessionId E) (minted_ids (me_sha256 E) (me_sessionId E) e b) (snd b) (me_summaryText E) (me_directory E) oc,
         Some (Some (minted_ids (me_sha256 E) (me_sessionId E) e b)))"
  by (cases "mf_inject f"; cases "mf_schemaOk f") (simp_all add: inject_at_def injectCompactionMarker_def Let_def)

lemma replace_marker_states:
  "fst (replace_marker E f p (getPersistedCompactionMarkerState ctx) b (oc, ctx)) \<in>
     {(oc, ctx), (without_old (getPersistedCompactionMarkerState ctx) oc, ctx), (move_rows E p ctx b oc, ctx),
      (move_rows E p ctx b oc, moved_ctx E p ctx b)}"
proof -
  let ?x = "getPersistedCompactionMarkerState ctx"
  let ?u = "without_old ?x oc"
  show ?thesis
    by (rule remove_existing_cases [of "mf_remove f" ?x oc];
        rule inject_at_cases [of E f "pm_endMessageId p" b ?u]; cases "mf_persist f")
      (simp_all add: replace_marker_def move_rows_def moved_ctx_def)
qed

lemma replace_marker_undisturbed:
  "replace_marker E no_faults p (getPersistedCompactionMarkerState ctx) b (oc, ctx)
     = ((move_rows E p ctx b oc, moved_ctx E p ctx b), Some (Applied (pm_ordinal p)))"
proof -
  have "remove_existing WriteDone x oc = (without_old x oc, Some True)" for x
    by (cases x) (simp_all add: remove_existing_def removeCompactionMarker_def without_old_def)
  then show ?thesis
    by (simp add: replace_marker_def no_faults_def inject_at_def injectCompactionMarker_def Let_def move_rows_def moved_ctx_def)
qed

lemma moved_ctx_simps [simp]:
  "mc_compartments (moved_ctx E p ctx b) = mc_compartments ctx"
  "mc_persisted (moved_ctx E p ctx b) = Some (marker_record (minted_ids (me_sha256 E) (me_sessionId E) (pm_endMessageId p) b) (pm_ordinal p) (pm_endMessageId p))"
  by (simp_all add: moved_ctx_def persistMarkerStateAndDropReplacedTag_def setPersistedCompactionMarkerState_def Let_def split: option.split)

lemma sort_key_of_member:
  assumes "host_ok M db" "m \<in> set (hd_messages db)" "hm_sessionId m = s" "\<not> completed_summary m"
  shows "getNonSummaryMessageSortKey db s (hm_id m) = Some (sort_key_of m)"
proof -
  have "find (\<lambda>x. hm_sessionId x = s \<and> hm_id x = hm_id m \<and> \<not> completed_summary x) (hd_messages db) = Some m"
    by (rule find_by_id) (use assms in \<open>auto simp: host_ok_def\<close>)
  then show ?thesis by (simp add: getNonSummaryMessageSortKey_def)
qed

lemma covered_after_move:
  assumes "host_ok M oc" "findBoundaryUserMessage oc (me_sessionId E) (pm_endMessageId p) = Some b"
  shows "covered oc (me_sessionId E) (moved_ctx E p ctx b) (pm_ordinal p) (pm_endMessageId p)"
proof -
  obtain m where m: "m \<in> set (hd_messages oc)" "hm_sessionId m = me_sessionId E" "\<not> completed_summary m" "b = (hm_id m, hm_timeCreated m)"
    "\<And>k. getNonSummaryMessageSortKey oc (me_sessionId E) (pm_endMessageId p) = Some k \<Longrightarrow> \<not> key_less k (sort_key_of m)"
    "getNonSummaryMessageSortKey oc (me_sessionId E) (pm_endMessageId p) \<noteq> None"
    by (rule boundary_facts [OF assms(2)]) blast
  then obtain k where k: "getNonSummaryMessageSortKey oc (me_sessionId E) (pm_endMessageId p) = Some k" "\<not> key_less k (sort_key_of m)" by auto
  have "getNonSummaryMessageSortKey oc (me_sessionId E) (fst b) = Some (sort_key_of m)"
    using sort_key_of_member [OF assms(1) m(1-3)] m(4) by simp
  with k show ?thesis
    by (simp add: covered_def getPersistedCompactionMarkerState_def existingMarkerAlreadyCoversTarget_def marker_record_def
        compareOpenCodeMessagesByCanonicalOrder_def minted_ids_def Let_def)
qed

definition interrupted :: "marker_run \<Rightarrow> marker_env \<Rightarrow> pending_marker \<Rightarrow> string \<times> int \<Rightarrow> marker_state \<Rightarrow> marker_state \<Rightarrow> bool" where
  "interrupted R E p b S S' \<longleftrightarrow> marker_inv R S' \<and> user_content (fst S') = user_content (fst S)
     \<and> ((snd S' = snd S \<and> same_marker_rows (move_rows E p (snd S) b (fst S')) (move_rows E p (snd S) b (fst S)))
        \<or> (snd S' = moved_ctx E p (snd S) b \<and> same_marker_rows (fst S') (move_rows E p (snd S) b (fst S))))"

lemma move_rows_again:
  "same_marker_rows (move_rows E p ctx b (move_rows E p ctx b oc)) (move_rows E p ctx b oc)"
  "move_rows E p ctx b (without_old (getPersistedCompactionMarkerState ctx) oc) = move_rows E p ctx b oc"
  using move_again [OF without_old_idem] by (simp_all add: move_rows_def without_old_idem)

text \<open>The move of a good, uncovered target with a boundary.\<close>

definition movable :: "marker_env \<Rightarrow> pending_marker \<Rightarrow> string \<times> int \<Rightarrow> marker_state \<Rightarrow> bool" where
  "movable E p b S \<longleftrightarrow> validatePendingTarget (fst S) (snd S) (me_sessionId E) p = None
     \<and> \<not> covered (fst S) (me_sessionId E) (snd S) (pm_ordinal p) (pm_endMessageId p)
     \<and> findBoundaryUserMessage (fst S) (me_sessionId E) (pm_endMessageId p) = Some b"

lemma movable_same_record:
  assumes "movable E p b S" "user_content (fst S') = user_content (fst S)" "snd S' = snd S"
  shows "movable E p b S'"
  using assms validation_stable [OF assms(2), of "me_sessionId E" p "snd S" "snd S"]
  by (simp add: movable_def covered_stable [OF assms(2)] boundary_stable [OF assms(2)])

lemma move_when_done:
  assumes "movable E p b S" "interrupted R E p b S S'" "snd S' = moved_ctx E p (snd S) b"
  shows "applyDeferredCompactionMarker E f p S' = (S', Some (if mf_readFails f then RetryableFailure else AlreadyCurrent))"
proof -
  have c: "user_content (fst S') = user_content (fst S)" "host_ok (ours R) (fst S')"
    using assms(2) by (simp_all add: interrupted_def marker_inv_def)
  have "validatePendingTarget (fst S') (snd S') (me_sessionId E) p = None"
    using assms(1,3) validation_stable [OF c(1), of "me_sessionId E" p "snd S" "snd S'"] by (simp add: movable_def)
  moreover have "covered (fst S') (me_sessionId E) (snd S') (pm_ordinal p) (pm_endMessageId p)"
    using covered_after_move [OF c(2)] assms(1,3) by (simp add: movable_def boundary_stable [OF c(1)])
  ultimately show ?thesis by (simp add: applyDeferredCompactionMarker_def)
qed

lemma attempt_interrupted:
  assumes "mints (me_sha256 E) (me_sessionId E) R" "pm_endMessageId p \<in> set (mr_targets R)" "movable E p b S" "interrupted R E p b S S'"
  shows "interrupted R E p b S (fst (applyDeferredCompactionMarker E f p S'))"
proof (cases "snd S' = moved_ctx E p (snd S) b")
  case True
  with move_when_done [OF assms(3,4)] assms(4) show ?thesis by simp
next
  case False
  let ?S = "fst (applyDeferredCompactionMarker E f p S')"
  from False assms(4) have r: "snd S' = snd S" "same_marker_rows (move_rows E p (snd S) b (fst S')) (move_rows E p (snd S) b (fst S))"
    and inv: "marker_inv R S'" and c: "user_content (fst S') = user_content (fst S)"
    by (auto simp: interrupted_def)
  have m: "movable E p b S'" using movable_same_record [OF assms(3) c r(1)] .
  have safe: "marker_inv R ?S" "user_content (fst ?S) = user_content (fst S)"
    using apply_deferred_safe [OF inv assms(1,2), of f] marker_safe_inv [OF inv] c by (auto simp: marker_safe_def harmless_def)
  have "?S \<in> {S', (without_old (getPersistedCompactionMarkerState (snd S)) (fst S'), snd S), (move_rows E p (snd S) b (fst S'), snd S),
      (move_rows E p (snd S) b (fst S'), moved_ctx E p (snd S) b)}"
    using replace_marker_states [of E f p "snd S" b "fst S'"] m r(1)
    by (cases S') (auto simp: applyDeferredCompactionMarker_def movable_def)
  with safe r show ?thesis
    unfolding interrupted_def by (auto simp: move_rows_again intro: same_marker_rows_trans [OF move_rows_again(1)])
qed

lemma attempts_interrupted:
  assumes "mints (me_sha256 E) (me_sessionId E) R" "pm_endMessageId p \<in> set (mr_targets R)" "movable E p b S" "interrupted R E p b S S'"
  shows "interrupted R E p b S (foldl (\<lambda>S f. fst (applyDeferredCompactionMarker E f p S)) S' fs)"
  using assms(4) by (induction fs arbitrary: S') (simp_all add: attempt_interrupted [OF assms(1-3)])

section \<open>Properties\<close>

lemma immovable_stays:
  assumes "\<And>b. \<not> movable E p b S"
  shows "fst (applyDeferredCompactionMarker E f p S) = S"
proof (cases "findBoundaryUserMessage (fst S) (me_sessionId E) (pm_endMessageId p)")
  case (Some b)
  with assms [of b] show ?thesis by (auto simp: applyDeferredCompactionMarker_def movable_def split: option.split)
qed (simp add: applyDeferredCompactionMarker_def split: option.split)

lemma immovable_attempts:
  assumes "\<And>b. \<not> movable E p b S"
  shows "foldl (\<lambda>S f. fst (applyDeferredCompactionMarker E f p S)) S fs = S"
  by (induction fs) (simp_all add: immovable_stays [OF assms])

lemma movable_run:
  assumes "movable E p b S"
  shows "applyDeferredCompactionMarker E no_faults p S
     = ((move_rows E p (snd S) b (fst S), moved_ctx E p (snd S) b), Some (Applied (pm_ordinal p)))"
  using assms replace_marker_undisturbed [of E p "snd S" b "fst S"]
  by (simp add: applyDeferredCompactionMarker_def movable_def) (simp add: no_faults_def)

lemma final_attempt:
  assumes "movable E p b S" "interrupted R E p b S S'"
  shows "same_marker_rows (fst (fst (applyDeferredCompactionMarker E no_faults p S'))) (move_rows E p (snd S) b (fst S))
    \<and> snd (fst (applyDeferredCompactionMarker E no_faults p S')) = moved_ctx E p (snd S) b
    \<and> snd (applyDeferredCompactionMarker E no_faults p S') \<in> {Some (Applied (pm_ordinal p)), Some AlreadyCurrent}"
proof (cases "snd S' = moved_ctx E p (snd S) b")
  case True
  have c: "user_content (fst S') = user_content (fst S)" "host_ok (ours R) (fst S')"
    using assms(2) by (simp_all add: interrupted_def marker_inv_def)
  have "covered (fst S) (me_sessionId E) (moved_ctx E p (snd S) b) (pm_ordinal p) (pm_endMessageId p)"
    using covered_after_move [OF c(2)] assms(1) by (simp add: movable_def boundary_stable [OF c(1)] covered_stable [OF c(1)])
  then have "moved_ctx E p (snd S) b \<noteq> snd S" using assms(1) by (auto simp: movable_def)
  with True assms(2) have "same_marker_rows (fst S') (move_rows E p (snd S) b (fst S))" by (simp add: interrupted_def)
  with move_when_done [OF assms True, of no_faults] True show ?thesis by (simp add: no_faults_def)
next
  case False
  with assms(2) have r: "snd S' = snd S" "same_marker_rows (move_rows E p (snd S) b (fst S')) (move_rows E p (snd S) b (fst S))"
    and c: "user_content (fst S') = user_content (fst S)"
    by (auto simp: interrupted_def)
  from movable_run [OF movable_same_record [OF assms(1) c r(1)]] r show ?thesis by simp
qed

text \<open>
  C7: Interrupted moves converge. Attempts to move the marker to a target may fail or die before any of their writes, any
  number of times; the next attempt that runs through leaves the same rows in the host's database, the same record and
  the same tags as one undisturbed attempt from the start, and answers as that one or that the marker is current. The
  host's own ids may have any format; they only must not be among the finitely many that the plugin mints in the run.
\<close>

theorem interrupted_moves_converge:
  assumes "mints (me_sha256 E) (me_sessionId E) R" "marker_inv R S" "pm_endMessageId p \<in> set (mr_targets R)"
  shows "let S' = foldl (\<lambda>S f. fst (applyDeferredCompactionMarker E f p S)) S fs;
             late = applyDeferredCompactionMarker E no_faults p S'; direct = applyDeferredCompactionMarker E no_faults p S
    in same_marker_rows (fst (fst late)) (fst (fst direct)) \<and> snd (fst late) = snd (fst direct)
       \<and> (snd late = snd direct \<or> snd late = Some AlreadyCurrent)"
proof (cases "\<exists>b. movable E p b S")
  case True
  then obtain b where b: "movable E p b S" by blast
  have "interrupted R E p b S S" using assms(2) by (simp add: interrupted_def)
  from final_attempt [OF b attempts_interrupted [OF assms(1,3) b this]] movable_run [OF b]
  show ?thesis by (simp add: Let_def)
next
  case False
  then have "foldl (\<lambda>S f. fst (applyDeferredCompactionMarker E f p S)) S fs = S" by (intro immovable_attempts) blast
  then show ?thesis by (simp add: Let_def)
qed

text \<open>The process dies after the rows are written, and the next attempt finds them.\<close>

theorem interrupted_moves_converge_witness:
  "same_marker_rows
     (fst (fst (applyDeferredCompactionMarker example_marker_env no_faults example_pending
        (fst (applyDeferredCompactionMarker example_marker_env (no_faults\<lparr>mf_persist := ProcessDies\<rparr>) example_pending example_marker_state)))))
     (fst (fst (applyDeferredCompactionMarker example_marker_env no_faults example_pending example_marker_state)))"
proof -
  have "mints (me_sha256 example_marker_env) (me_sessionId example_marker_env) example_run"
    using example_mints by (simp add: example_marker_env_def)
  moreover have "pm_endMessageId example_pending \<in> set (mr_targets example_run)"
    by (simp add: example_pending_def example_run_def Let_def)
  ultimately show ?thesis
    using interrupted_moves_converge [OF _ example_marker_inv, where E = example_marker_env and p = example_pending
        and fs = "[no_faults\<lparr>mf_persist := ProcessDies\<rparr>]"]
    by (simp add: Let_def)
qed

end
