(* ===== verification/Marker_Cleanup.thy ===== *)
theory Marker_Cleanup
  imports Marker_Facts
begin

text \<open>
  What the two cleanups achieve: after the hygiene pass on a forked session the host stops at the session's own marker,
  or at a later compaction that is not the plugin's; after the removal of all markers of a session none is left, and no
  reference of a remaining compaction to its tail dangles.
\<close>

section \<open>Deleting lineages\<close>

definition delete_lineages :: "string \<Rightarrow> (string list \<times> string list) list \<Rightarrow> host_db \<Rightarrow> host_db" where
  "delete_lineages s ls db = foldl (\<lambda>db l. delete_lineage s (fst l) (snd l) db) db ls"

lemma delete_lineage_rows:
  "hd_messages (delete_lineage s c q db) = filter (\<lambda>m. \<not> (hm_sessionId m = s \<and> hm_id m \<in> set c)) (hd_messages db)"
  "set (hd_parts (delete_lineage s c q db)) =
     {p \<in> set (hd_parts db). \<not> (hp_sessionId p = s \<and> (hp_messageId p \<in> set c \<or> hp_id p \<in> set q))}"
  by (auto simp: delete_lineage_def delete_summaries_def delete_parts_def delete_messages_def)

lemma delete_lineages_rows:
  "m \<in> set (hd_messages (delete_lineages s ls db)) \<longleftrightarrow>
     m \<in> set (hd_messages db) \<and> (\<forall>l\<in>set ls. \<not> (hm_sessionId m = s \<and> hm_id m \<in> set (fst l)))"
  "p \<in> set (hd_parts (delete_lineages s ls db)) \<longleftrightarrow>
     p \<in> set (hd_parts db) \<and> (\<forall>l\<in>set ls. \<not> (hp_sessionId p = s \<and> (hp_messageId p \<in> set (fst l) \<or> hp_id p \<in> set (snd l))))"
  unfolding delete_lineages_def by (induction ls arbitrary: db) (auto simp: delete_lineage_rows)

lemma delete_lineages_harmless:
  assumes "host_ok M db" "list_all (\<lambda>l. marker_rows_only db (fst l) (snd l)) ls"
  shows "harmless M db (delete_lineages s ls db)"
  using assms
proof (induction ls arbitrary: db)
  case (Cons l ls)
  let ?db = "delete_lineage s (fst l) (snd l) db"
  have 1: "harmless M db ?db" "subrows ?db db" using Cons.prems delete_lineage_harmless by auto
  have "list_all (\<lambda>l. marker_rows_only ?db (fst l) (snd l)) ls"
    using Cons.prems(2) marker_rows_only_subrows [OF _ 1(2)] by (auto simp: list_all_iff)
  from harmless_trans [OF 1(1) Cons.IH [OF harmless_host_ok [OF 1(1)] this]] show ?case by (simp add: delete_lineages_def)
qed (simp add: delete_lineages_def harmless_refl)

section \<open>Hygiene of a fork\<close>

text \<open>
  The host's search, as \<open>compaction-marker.ts\<close> describes it: the newest user message with a compaction part and a
  completed summary as its answer.
\<close>

definition stops_at :: "host_db \<Rightarrow> string \<Rightarrow> host_message \<Rightarrow> bool" where
  "stops_at db s m \<longleftrightarrow> hm_sessionId m = s \<and> is_user m \<and> \<not> completed_summary m
     \<and> list_ex (\<lambda>p. hp_sessionId p = s \<and> hp_messageId p = hm_id m \<and> is_compaction p) (hd_parts db)
     \<and> list_ex (\<lambda>x. hm_sessionId x = s \<and> completed_summary x \<and> text_is (hm_data x) ''parentID'' (hm_id m)) (hd_messages db)"

definition search_boundary :: "host_db \<Rightarrow> string \<Rightarrow> host_message option" where
  "search_boundary db s = newest_message (filter (stops_at db s) (hd_messages db))"

text \<open>The markers that the pass removes, as seen at its start.\<close>

definition outranks :: "host_db \<Rightarrow> string \<Rightarrow> persisted_marker \<Rightarrow> session_marker \<Rightarrow> bool" where
  "outranks db s owned marker \<longleftrightarrow> sm_compactionPartId marker \<noteq> mk_compactionPartId owned \<and> sm_summaryMessageIds marker \<noteq> []
     \<and> (case compareOpenCodeMessagesByCanonicalOrder db s (sm_boundaryMessageId marker) (mk_boundaryMessageId owned) of
          None \<Rightarrow> False | Some c \<Rightarrow> 0 < c)"

definition doomed_rows :: "persisted_marker \<Rightarrow> session_marker \<Rightarrow> string list \<times> string list" where
  "doomed_rows owned marker = (filter (\<lambda>i. i \<noteq> mk_summaryMessageId owned) (sm_summaryMessageIds marker), [sm_compactionPartId marker])"

definition undisturbed_hygiene :: "persisted_marker \<Rightarrow> orphan_faults" where
  "undisturbed_hygiene owned = \<lparr>of_scanFails = False, of_readFails = (\<lambda>_. False), of_writable = (\<lambda>_. True), of_owned_at = (\<lambda>_. Some owned)\<rparr>"

lemma compare_stable:
  assumes "user_content db' = user_content db"
  shows "compareOpenCodeMessagesByCanonicalOrder db' s a b = compareOpenCodeMessagesByCanonicalOrder db s a b"
proof -
  have "find (\<lambda>m. hm_sessionId m = s \<and> hm_id m = i \<and> \<not> completed_summary m) ms
      = find (\<lambda>m. hm_sessionId m = s \<and> hm_id m = i) (filter (\<lambda>m. \<not> completed_summary m) ms)" for i ms
    by (induction ms) auto
  moreover have "filter (\<lambda>m. \<not> completed_summary m) (hd_messages d) = map fst (user_content d)" for d
    by (simp add: user_content_def o_def)
  ultimately show ?thesis
    by (simp only: compareOpenCodeMessagesByCanonicalOrder_def getNonSummaryMessageSortKey_def assms)
qed

lemma reconcile_loop_undisturbed:
  assumes "host_ok M db" "list_all (\<lambda>m. marker_rows_only db (sm_summaryMessageIds m) [sm_compactionPartId m]) markers"
    and "user_content db = user_content db0"
  shows "fst (reconcile_loop s (undisturbed_hygiene owned) owned k markers db acc) =
     delete_lineages s (map (doomed_rows owned) (filter (outranks db0 s owned) markers)) db"
  using assms
proof (induction markers arbitrary: k db acc)
  case (Cons m ms)
  let ?db = "delete_lineage s (fst (doomed_rows owned m)) (snd (doomed_rows owned m)) db"
  have "marker_rows_only db (fst (doomed_rows owned m)) (snd (doomed_rows owned m))"
    using Cons.prems(2) by (auto simp: doomed_rows_def intro: marker_rows_only_subset)
  from delete_lineage_harmless [OF Cons.prems(1) this] have d: "harmless M db ?db" "subrows ?db db" by auto
  have "list_all (\<lambda>m. marker_rows_only ?db (sm_summaryMessageIds m) [sm_compactionPartId m]) ms"
    using Cons.prems(2) marker_rows_only_subrows [OF _ d(2)] by (auto simp: list_all_iff)
  moreover have "user_content ?db = user_content db0" using d(1) Cons.prems(3) by (simp add: harmless_def)
  ultimately have taken: "fst (reconcile_loop s (undisturbed_hygiene owned) owned (k + 1) ms ?db acc') =
      delete_lineages s (map (doomed_rows owned) (filter (outranks db0 s owned) ms)) ?db" for acc'
    using Cons.IH harmless_host_ok [OF d(1)] by blast
  have skipped: "fst (reconcile_loop s (undisturbed_hygiene owned) owned (k + 1) ms db acc) =
      delete_lineages s (map (doomed_rows owned) (filter (outranks db0 s owned) ms)) db"
    using Cons by simp
  have "removeForeignCompactionMarker True s m (Some (mk_summaryMessageId owned)) db = (?db, True)"
    by (simp add: remove_foreign_lineage doomed_rows_def)
  moreover have "of_readFails (undisturbed_hygiene owned) k = False" "of_writable (undisturbed_hygiene owned) k = True" "of_owned_at (undisturbed_hygiene owned) k = Some owned"
    by (simp_all add: undisturbed_hygiene_def)
  ultimately have "fst (reconcile_loop s (undisturbed_hygiene owned) owned k (m # ms) db acc) =
      (if outranks db0 s owned m then fst (reconcile_loop s (undisturbed_hygiene owned) owned (k + 1) ms ?db (fst acc + 1, snd acc))
       else fst (reconcile_loop s (undisturbed_hygiene owned) owned (k + 1) ms db acc))"
    using compare_stable [OF Cons.prems(3), of s "sm_boundaryMessageId m" "mk_boundaryMessageId owned"]
    by (auto simp: Let_def outranks_def split: option.split)
  then show ?case using taken skipped by (simp add: delete_lineages_def)
qed (simp add: delete_lineages_def)

text \<open>The rows of the session's own marker.\<close>

definition own_rows :: "host_db \<Rightarrow> string \<Rightarrow> persisted_marker \<Rightarrow> host_message \<Rightarrow> bool" where
  "own_rows db s st b \<longleftrightarrow> b \<in> set (hd_messages db) \<and> hm_id b = mk_boundaryMessageId st \<and> hm_sessionId b = s \<and> is_user b \<and> \<not> completed_summary b
     \<and> list_ex (\<lambda>p. hp_id p = mk_compactionPartId st \<and> hp_sessionId p = s \<and> hp_messageId p = hm_id b \<and> is_compaction p) (hd_parts db)
     \<and> list_ex (\<lambda>x. hm_id x = mk_summaryMessageId st \<and> hm_sessionId x = s \<and> completed_summary x \<and> text_is (hm_data x) ''parentID'' (hm_id b)) (hd_messages db)"


lemma own_marker_not_listed_doomed:
  assumes "host_ok M db" "own_rows db s st b" "m \<in> set (listSessionCompactionMarkers db s)" "outranks db s st m"
  shows "mk_compactionPartId st \<notin> set (snd (doomed_rows st m))" "mk_summaryMessageId st \<notin> set (fst (doomed_rows st m))"
    "i \<in> set (fst (doomed_rows st m)) \<Longrightarrow> \<exists>x\<in>set (hd_messages db). hm_id x = i \<and> completed_summary x"
proof -
  show "mk_compactionPartId st \<notin> set (snd (doomed_rows st m))" "mk_summaryMessageId st \<notin> set (fst (doomed_rows st m))"
    using assms(4) by (auto simp: doomed_rows_def outranks_def)
  assume "i \<in> set (fst (doomed_rows st m))"
  then have "i \<in> set (sm_summaryMessageIds m)" by (simp add: doomed_rows_def)
  moreover from assms(3) obtain c where "sm_summaryMessageIds m = map hm_id (filter (own_summary_of s c) (hd_messages db))"
    unfolding listSessionCompactionMarkers_def set_map by (elim imageE) simp
  ultimately obtain x where "x \<in> set (hd_messages db)" "hm_id x = i" "own_summary_of s c x" by auto
  then show "\<exists>x\<in>set (hd_messages db). hm_id x = i \<and> completed_summary x" by (auto simp: own_summary_of_def)
qed

lemma own_rows_stay:
  assumes "host_ok M db" "own_rows db s st b"
  shows "own_rows (delete_lineages s (map (doomed_rows st) (filter (outranks db s st) (listSessionCompactionMarkers db s))) db) s st b"
proof -
  let ?ls = "map (doomed_rows st) (filter (outranks db s st) (listSessionCompactionMarkers db s))"
  note d = own_marker_not_listed_doomed [OF assms]
  have safe: "hm_id x \<notin> set (fst l)"
    if "l \<in> set ?ls" "x \<in> set (hd_messages db)" "hm_id x = mk_summaryMessageId st \<or> \<not> completed_summary x" for l x
  proof
    assume x: "hm_id x \<in> set (fst l)"
    from that(1) obtain mk where mk: "l = doomed_rows st mk" "mk \<in> set (listSessionCompactionMarkers db s)" "outranks db s st mk" by auto
    from d(3) [OF mk(2,3)] x mk(1) obtain y where y: "y \<in> set (hd_messages db)" "hm_id y = hm_id x" "completed_summary y" by blast
    with same_id_same_message [OF assms(1) y(1) that(2)] that(3) have "hm_id x = mk_summaryMessageId st" by blast
    with d(2) [OF mk(2,3)] x mk(1) show False by simp
  qed
  have summaries: "x \<in> set (hd_messages (delete_lineages s ?ls db))"
    if "x \<in> set (hd_messages db)" "hm_id x = mk_summaryMessageId st \<or> \<not> completed_summary x" for x
    unfolding delete_lineages_rows using that(1) safe [OF _ that] by blast
  obtain p where p: "p \<in> set (hd_parts db)" "hp_id p = mk_compactionPartId st" "hp_sessionId p = s" "hp_messageId p = hm_id b" "is_compaction p"
    using assms(2) by (auto simp: own_rows_def list_ex_iff)
  have b: "b \<in> set (hd_messages db)" "\<not> completed_summary b" using assms(2) by (auto simp: own_rows_def)
  have part: "p \<in> set (hd_parts (delete_lineages s ?ls db))"
    unfolding delete_lineages_rows
  proof (intro conjI ballI notI)
    fix l assume l: "l \<in> set ?ls" "hp_sessionId p = s \<and> (hp_messageId p \<in> set (fst l) \<or> hp_id p \<in> set (snd l))"
    from l(1) obtain mk where mk: "l = doomed_rows st mk" "mk \<in> set (listSessionCompactionMarkers db s)" "outranks db s st mk" by auto
    from l(2) safe [OF l(1) b(1)] b(2) p(2,4) d(1) [OF mk(2,3)] mk(1) show False by auto
  qed (rule p(1))
  obtain x where x: "x \<in> set (hd_messages db)" "hm_id x = mk_summaryMessageId st" "hm_sessionId x = s" "completed_summary x"
    "text_is (hm_data x) ''parentID'' (hm_id b)"
    using assms(2) by (auto simp: own_rows_def list_ex_iff)
  have "hm_id b = mk_boundaryMessageId st" "hm_sessionId b = s" "is_user b" using assms(2) by (simp_all add: own_rows_def)
  with b summaries [OF b(1)] summaries [OF x(1)] x part p show ?thesis
    unfolding own_rows_def list_ex_iff by blast
qed

lemma own_rows_stop: "own_rows db s st b \<Longrightarrow> stops_at db s b"
  by (auto simp: own_rows_def stops_at_def list_ex_iff)

text \<open>A part that is still there was not doomed.\<close>

lemma remaining_boundary:
  assumes "host_ok M db" "own_rows db s st b"
    and "db' = delete_lineages s (map (doomed_rows st) (filter (outranks db s st) (listSessionCompactionMarkers db s))) db"
    and "stops_at db' s m" "m \<in> set (hd_messages db')" "key_less (sort_key_of b) (sort_key_of m)"
  shows "\<not> list_ex (own_summary_of s (hm_id m)) (hd_messages db)"
proof
  assume own: "list_ex (own_summary_of s (hm_id m)) (hd_messages db)"
  obtain p where p: "p \<in> set (hd_parts db')" "hp_sessionId p = s" "hp_messageId p = hm_id m" "is_compaction p"
    using assms(4) by (auto simp: stops_at_def list_ex_iff)
  let ?mk = "\<lparr>sm_compactionPartId = hp_id p, sm_boundaryMessageId = hp_messageId p,
                sm_summaryMessageIds = map hm_id (filter (own_summary_of s (hp_messageId p)) (hd_messages db))\<rparr>"
  have pdb: "p \<in> set (hd_parts db)" and mdb: "m \<in> set (hd_messages db)" using p(1) assms(3,5) by (auto simp: delete_lineages_rows)
  then have listed: "?mk \<in> set (listSessionCompactionMarkers db s)" using p(2,4) by (auto simp: listSessionCompactionMarkers_def)
  obtain q where q: "q \<in> set (hd_parts db)" "hp_id q = mk_compactionPartId st" "hp_messageId q = hm_id b"
    using assms(2) by (auto simp: own_rows_def list_ex_iff)
  have "m \<noteq> b" using assms(6) by auto
  moreover have b: "b \<in> set (hd_messages db)" "hm_sessionId b = s" "\<not> completed_summary b" "hm_id b = mk_boundaryMessageId st"
    using assms(2) by (auto simp: own_rows_def)
  ultimately have "hp_id p \<noteq> mk_compactionPartId st"
    using same_id_same_part [OF assms(1) pdb q(1)] q p(3) same_id_same_message [OF assms(1) mdb b(1)] by auto
  moreover have "compareOpenCodeMessagesByCanonicalOrder db s (hm_id m) (mk_boundaryMessageId st) = Some 1"
  proof -
    have "find (\<lambda>x. hm_sessionId x = s \<and> hm_id x = hm_id y \<and> \<not> completed_summary x) (hd_messages db) = Some y"
      if "y \<in> set (hd_messages db)" "hm_sessionId y = s" "\<not> completed_summary y" for y
      by (rule find_by_id) (use assms(1) that in \<open>auto simp: host_ok_def\<close>)
    from this [OF mdb] this [OF b(1-3)] assms(4,6) b(4) key_less_asym [OF assms(6)] show ?thesis
      by (simp add: compareOpenCodeMessagesByCanonicalOrder_def getNonSummaryMessageSortKey_def stops_at_def)
  qed
  moreover have "sm_summaryMessageIds ?mk \<noteq> []" using own p(3) by (auto simp: list_ex_iff filter_empty_conv)
  ultimately have "outranks db s st ?mk" using p(3) by (simp add: outranks_def)
  then have "doomed_rows st ?mk \<in> set (map (doomed_rows st) (filter (outranks db s st) (listSessionCompactionMarkers db s)))"
    using listed by auto
  with p(1,2) assms(3) show False by (fastforce simp: delete_lineages_rows doomed_rows_def)
qed

lemma search_finds_newest:
  assumes "b \<in> set (hd_messages db)" "stops_at db s b"
  obtains m where "search_boundary db s = Some m" "m \<in> set (hd_messages db)" "stops_at db s m" "\<not> key_less (sort_key_of m) (sort_key_of b)"
proof -
  have "b \<in> set (filter (stops_at db s) (hd_messages db))" using assms by simp
  then obtain m where m: "newest_message (filter (stops_at db s) (hd_messages db)) = Some m"
    using newest_message_None by (metis empty_iff empty_set option.exhaust)
  with newest_message_Some [OF m] assms show ?thesis by (intro that [of m]) (auto simp: search_boundary_def)
qed

section \<open>Removing every marker of a session\<close>

definition keeps_lineage :: "host_db \<Rightarrow> string \<Rightarrow> string list \<times> string list \<Rightarrow> bool" where
  "keeps_lineage db s l \<longleftrightarrow> referenced (compaction_parts db s) (message_tails db s) (snd l) (fst l @ snd l)"

definition lineages :: "host_db \<Rightarrow> string \<Rightarrow> string \<Rightarrow> (string list \<times> string list) list" where
  "lineages db s marker_text =
     (let owned = owned_summaries db s marker_text
      in map (\<lambda>b. (children_of owned b, mc_part_ids (compaction_parts db s) b)) (boundaries_of owned)
         @ (if children_of owned [] = [] then [] else [(children_of owned [], [])]))"

lemma cleanup_fold:
  "fst (foldl (\<lambda>st l. cleanup_lineage s parts tails (fst l) (snd l) st) (db, r) ls)
     = delete_lineages s (filter (\<lambda>l. \<not> referenced parts tails (snd l) (fst l @ snd l)) ls) db
   \<and> cr_retainedLineages (snd (foldl (\<lambda>st l. cleanup_lineage s parts tails (fst l) (snd l) st) (db, r) ls))
     = cr_retainedLineages r + length (filter (\<lambda>l. referenced parts tails (snd l) (fst l @ snd l)) ls)"
proof (induction ls arbitrary: db r)
  case (Cons l ls)
  show ?case
  proof (cases "referenced parts tails (snd l) (fst l @ snd l)")
    case True
    then show ?thesis using Cons.IH [of db "r\<lparr>cr_retainedLineages := cr_retainedLineages r + 1\<rparr>"] by (simp add: cleanup_lineage_def)
  next
    case False
    let ?db = "delete_lineage s (fst l) (snd l) db"
    have "cleanup_lineage s parts tails (fst l) (snd l) (db, r)
        = (?db, r\<lparr>cr_removedLineages := cr_removedLineages r + 1, cr_removedRows := cr_removedRows r + (row_count db - row_count ?db)\<rparr>)"
      using False by (simp add: cleanup_lineage_def Let_def)
    then show ?thesis
      using Cons.IH [of ?db "r\<lparr>cr_removedLineages := cr_removedLineages r + 1, cr_removedRows := cr_removedRows r + (row_count db - row_count ?db)\<rparr>"] False
      by (simp add: delete_lineages_def)
  qed
qed (simp add: delete_lineages_def)

lemma cleanup_result:
  assumes "removeMcOwnedCompactionMarkers True s tx db = (db', r)"
  shows "db' = delete_lineages s (filter (\<lambda>l. \<not> keeps_lineage db s l) (lineages db s tx)) db"
    and "cr_verified r \<longleftrightarrow> (\<forall>l\<in>set (lineages db s tx). \<not> keeps_lineage db s l)"
proof -
  let ?parts = "compaction_parts db s" and ?tails = "message_tails db s"
  let ?fold = "foldl (\<lambda>st l. cleanup_lineage s ?parts ?tails (fst l) (snd l) st) (db, no_cleanup True) (lineages db s tx)"
  have "removeMcOwnedCompactionMarkers True s tx db = (fst ?fold, (snd ?fold)\<lparr>cr_verified := cr_retainedLineages (snd ?fold) = 0\<rparr>)"
    by (simp add: removeMcOwnedCompactionMarkers_def Let_def lineages_def foldl_map split_beta)
  with assms have r: "db' = fst ?fold" "cr_verified r \<longleftrightarrow> cr_retainedLineages (snd ?fold) = 0" by auto
  note f = cleanup_fold [of s ?parts ?tails db "no_cleanup True" "lineages db s tx"]
  from r(1) f show "db' = delete_lineages s (filter (\<lambda>l. \<not> keeps_lineage db s l) (lineages db s tx)) db"
    by (simp add: keeps_lineage_def)
  from r(2) f show "cr_verified r \<longleftrightarrow> (\<forall>l\<in>set (lineages db s tx). \<not> keeps_lineage db s l)"
    by (simp add: keeps_lineage_def no_cleanup_def filter_empty_conv)
qed

lemma owned_in_lineage:
  assumes "m \<in> set (owned_summaries db s tx)"
  obtains l where "l \<in> set (lineages db s tx)" "hm_id m \<in> set (fst l)" "hm_sessionId m = s"
proof -
  let ?owned = "owned_summaries db s tx"
  have s: "hm_sessionId m = s" using assms by (auto simp: owned_summaries_def canonical_summary_def foreign_named_summary_def)
  have c: "hm_id m \<in> set (children_of ?owned (parent_of m))" using assms by (auto simp: children_of_def)
  show ?thesis
  proof (cases "parent_of m = []")
    case True
    with c show ?thesis by (intro that [of "(children_of ?owned [], [])"]) (auto simp: lineages_def Let_def s)
  next
    case False
    then have "parent_of m \<in> set (boundaries_of ?owned)" using assms by (auto simp: boundaries_of_def)
    with c show ?thesis
      by (intro that [of "(children_of ?owned (parent_of m), mc_part_ids (compaction_parts db s) (parent_of m))"])
        (auto simp: lineages_def Let_def s)
  qed
qed

lemma lineage_rows:
  assumes "l \<in> set (lineages db s tx)"
  shows "i \<in> set (fst l) \<Longrightarrow> \<exists>m\<in>set (owned_summaries db s tx). hm_id m = i"
    and "i \<in> set (snd l) \<Longrightarrow> \<exists>p\<in>set (compaction_parts db s). hp_id p = i \<and> isMcCanonicalCompactionPartData (hp_data p)
       \<and> hp_messageId p \<noteq> [] \<and> (\<exists>m\<in>set (owned_summaries db s tx). parent_of m = hp_messageId p)"
proof -
  let ?owned = "owned_summaries db s tx"
  have b: "b \<in> set (boundaries_of ?owned) \<Longrightarrow> b \<noteq> [] \<and> (\<exists>m\<in>set ?owned. parent_of m = b)" for b
    by (auto simp: boundaries_of_def)
  show "i \<in> set (fst l) \<Longrightarrow> \<exists>m\<in>set ?owned. hm_id m = i"
    using assms by (auto simp: lineages_def Let_def children_of_def split: if_splits)
  show "i \<in> set (snd l) \<Longrightarrow> \<exists>p\<in>set (compaction_parts db s). hp_id p = i \<and> isMcCanonicalCompactionPartData (hp_data p)
       \<and> hp_messageId p \<noteq> [] \<and> (\<exists>m\<in>set ?owned. parent_of m = hp_messageId p)"
    using assms b by (auto simp: lineages_def Let_def mc_part_ids_def split: if_splits) blast+
qed

lemma owned_shrinks:
  assumes "subrows db' db" "m \<in> set (owned_summaries db' s tx)"
  shows "m \<in> set (owned_summaries db s tx) \<and> m \<in> set (hd_messages db')"
  using assms by (auto simp: owned_summaries_def foreign_named_summary_def has_marker_text_def list_ex_iff subrows_def)

lemma verified_cleanup_leaves_none:
  assumes "removeMcOwnedCompactionMarkers True s tx db = (db', r)" "cr_verified r"
  shows "owned_summaries db' s tx = []"
proof (rule ccontr)
  note db' = cleanup_result(1) [OF assms(1)]
  have sub: "subrows db' db" by (auto simp: subrows_def db' delete_lineages_rows)
  assume "owned_summaries db' s tx \<noteq> []"
  then obtain m where "m \<in> set (owned_summaries db' s tx)" using last_in_set by blast
  from owned_shrinks [OF sub this] obtain l where "l \<in> set (lineages db s tx)" "hm_id m \<in> set (fst l)" "hm_sessionId m = s" "m \<in> set (hd_messages db')"
    using owned_in_lineage by metis
  with assms(2) cleanup_result(2) [OF assms(1)] show False by (auto simp: db' delete_lineages_rows)
qed

text \<open>
  The parts that belong to the plugin: those of its summaries, and on the parents of its summaries the compaction parts
  that are exactly as it writes them.
\<close>

definition owned_part :: "host_db \<Rightarrow> string \<Rightarrow> string \<Rightarrow> host_part \<Rightarrow> bool" where
  "owned_part db s tx p \<longleftrightarrow> hp_sessionId p = s
     \<and> list_ex (\<lambda>m. hm_id m = hp_messageId p
          \<or> (isMcCanonicalCompactionPartData (hp_data p) \<and> hp_messageId p \<noteq> [] \<and> parent_of m = hp_messageId p))
        (owned_summaries db s tx)"

lemma canonical_data_is_compaction: "isMcCanonicalCompactionPartData (hp_data p) \<Longrightarrow> is_compaction p"
  by (auto simp: isMcCanonicalCompactionPartData_def is_compaction_def text_is_def split: json.splits)

lemma lineage_part_owned:
  assumes "host_ok M db" "l \<in> set (lineages db s tx)" "p \<in> set (hd_parts db)" "hp_sessionId p = s"
    and "hp_messageId p \<in> set (fst l) \<or> hp_id p \<in> set (snd l)"
  shows "owned_part db s tx p"
  using assms(5)
proof
  assume "hp_messageId p \<in> set (fst l)"
  from lineage_rows(1) [OF assms(2) this] assms(4) show ?thesis unfolding owned_part_def list_ex_iff by blast
next
  assume "hp_id p \<in> set (snd l)"
  from lineage_rows(2) [OF assms(2) this] obtain q where q: "q \<in> set (compaction_parts db s)" "hp_id q = hp_id p"
    "isMcCanonicalCompactionPartData (hp_data q)" "hp_messageId q \<noteq> []" "\<exists>m\<in>set (owned_summaries db s tx). parent_of m = hp_messageId q"
    by blast
  then have "q = p" using same_id_same_part [OF assms(1) _ assms(3)] by (simp add: compaction_parts_def)
  with q assms(4) show ?thesis unfolding owned_part_def list_ex_iff by metis
qed

lemma owned_part_in_lineage:
  assumes "owned_part db s tx p" "p \<in> set (hd_parts db)"
  obtains l where "l \<in> set (lineages db s tx)" "hp_messageId p \<in> set (fst l) \<or> hp_id p \<in> set (snd l)"
proof -
  let ?owned = "owned_summaries db s tx" and ?b = "hp_messageId p"
  from assms(1) obtain m where m: "m \<in> set ?owned"
    and c: "hm_id m = ?b \<or> (isMcCanonicalCompactionPartData (hp_data p) \<and> ?b \<noteq> [] \<and> parent_of m = ?b)"
    by (auto simp: owned_part_def list_ex_iff)
  from c show ?thesis
  proof
    assume "hm_id m = ?b"
    with owned_in_lineage [OF m] that show ?thesis by metis
  next
    assume b: "isMcCanonicalCompactionPartData (hp_data p) \<and> ?b \<noteq> [] \<and> parent_of m = ?b"
    with m have "?b \<in> set (boundaries_of ?owned)" by (force simp: boundaries_of_def)
    moreover have "p \<in> set (compaction_parts db s)"
      using assms b canonical_data_is_compaction by (auto simp: compaction_parts_def owned_part_def)
    ultimately show ?thesis
      using b by (intro that [of "(children_of ?owned ?b, mc_part_ids (compaction_parts db s) ?b)"])
        (auto simp: lineages_def Let_def mc_part_ids_def)
  qed
qed

lemma unowned_message_stays:
  assumes "host_ok M db" "m \<in> set (hd_messages db)" "m \<notin> set (owned_summaries db s tx)" "l \<in> set (lineages db s tx)"
  shows "hm_id m \<notin> set (fst l)"
proof
  assume "hm_id m \<in> set (fst l)"
  then obtain m' where "m' \<in> set (owned_summaries db s tx)" "hm_id m' = hm_id m" using lineage_rows(1) [OF assms(4)] by blast
  moreover from this have "m' \<in> set (hd_messages db)" by (auto simp: owned_summaries_def)
  ultimately show False using same_id_same_message [OF assms(1) _ assms(2)] assms(3) by metis
qed

text \<open>Where the remaining compactions of the session say that their tail starts.\<close>

definition tail_targets :: "host_db \<Rightarrow> string \<Rightarrow> string list" where
  "tail_targets db s = List.map_filter (\<lambda>p. dataReferencesTailStart (hp_data p)) (compaction_parts db s) @ message_tails db s"

lemma map_filter_mem: "t \<in> set (List.map_filter f xs) \<longleftrightarrow> (\<exists>x\<in>set xs. f x = Some t)"
  by (force simp: List.map_filter_def)

lemma remaining_target_is_kept:
  assumes "db' = delete_lineages s ls db" "l \<in> set ls" "\<not> keeps_lineage db s l" "t \<in> set (tail_targets db' s)"
  shows "t \<notin> set (fst l)"
proof
  assume t: "t \<in> set (fst l)"
  have sub: "set (hd_messages db') \<subseteq> set (hd_messages db)" using assms(1) by (auto simp: delete_lineages_rows)
  from assms(4) consider
    p where "p \<in> set (compaction_parts db' s)" "dataReferencesTailStart (hp_data p) = Some t"
  | "t \<in> set (message_tails db' s)"
    by (auto simp: tail_targets_def map_filter_mem)
  then show False
  proof cases
    case 1
    then have p: "p \<in> set (compaction_parts db s)" "hp_sessionId p = s" "hp_id p \<notin> set (snd l)"
      using assms(1,2) by (auto simp: compaction_parts_def delete_lineages_rows)
    then have "referenced (compaction_parts db s) (message_tails db s) (snd l) (fst l @ snd l)"
      using t 1(2) by (force simp: referenced_def list_ex_iff)
    with assms(3) show False by (simp add: keeps_lineage_def)
  next
    case 2
    then have "t \<in> set (message_tails db s)" using sub by (auto simp: message_tails_def map_filter_mem)
    with t assms(3) show False by (auto simp: keeps_lineage_def referenced_def list_ex_iff)
  qed
qed

section \<open>Properties\<close>

text \<open>
  C9: Hygiene restores the session's own boundary. After a hygiene pass that no other writer disturbs, the host's search
  stops at the boundary of the session's own marker, or at a message whose compaction is not the plugin's, however many
  markers a fork has copied.
\<close>

theorem hygiene_restores_own_boundary:
  assumes "host_ok M (fst S)" "getPersistedCompactionMarkerState (snd S) = Some st" "own_rows (fst S) s st b"
  shows "\<exists>m. search_boundary (fst (fst (reconcileForkOrphanedCompactionMarkers s True (undisturbed_hygiene st) S))) s = Some m
     \<and> (m = b \<or> \<not> list_ex (own_summary_of s (hm_id m)) (hd_messages (fst S)))"
proof -
  let ?db = "fst (fst (reconcileForkOrphanedCompactionMarkers s True (undisturbed_hygiene st) S))"
  have "of_scanFails (undisturbed_hygiene st) = False" by (simp add: undisturbed_hygiene_def)
  then have db: "?db = delete_lineages s (map (doomed_rows st) (filter (outranks (fst S) s st) (listSessionCompactionMarkers (fst S) s))) (fst S)"
    using reconcile_loop_undisturbed [OF assms(1) listed_markers [OF assms(1)] refl, of s st 0 s "(0, False)"] assms(2)
    by (auto simp: reconcileForkOrphanedCompactionMarkers_def split: prod.split)
  have own: "own_rows ?db s st b" unfolding db by (rule own_rows_stay [OF assms(1,3)])
  then have "b \<in> set (hd_messages ?db)" by (simp add: own_rows_def)
  from search_finds_newest [OF this own_rows_stop [OF own]] obtain m where m: "search_boundary ?db s = Some m"
    "m \<in> set (hd_messages ?db)" "stops_at ?db s m" "\<not> key_less (sort_key_of m) (sort_key_of b)" .
  show ?thesis
  proof (cases "key_less (sort_key_of b) (sort_key_of m)")
    case True
    from remaining_boundary [OF assms(1,3) db m(3,2) True] m(1) show ?thesis by blast
  next
    case False
    with m(4) key_less_total have "hm_id m = hm_id b" by (auto simp: sort_key_of_def)
    moreover have "m \<in> set (hd_messages (fst S))" "b \<in> set (hd_messages (fst S))"
      using m(2) assms(3) db by (auto simp: delete_lineages_rows own_rows_def)
    ultimately have "m = b" using same_id_same_message [OF assms(1)] by blast
    with m(1) show ?thesis by blast
  qed
qed

text \<open>A fork has copied the marker at a later message.\<close>

definition example_user_at :: "string \<Rightarrow> int \<Rightarrow> host_message" where
  "example_user_at i t = \<lparr>hm_id = i, hm_sessionId = ''s'', hm_timeCreated = t, hm_timeUpdated = t, hm_data = JObj [(''role'', JStr ''user'')]\<rparr>"

definition example_record :: "string \<Rightarrow> string \<Rightarrow> persisted_marker" where
  "example_record b k = \<lparr>mk_boundaryMessageId = b, mk_summaryMessageId = k @ ''m'', mk_compactionPartId = k @ ''c'', mk_summaryPartId = k @ ''t'',
     pk_boundaryOrdinal = 1, pk_targetEndMessageId = Some b\<rparr>"

definition example_fork :: marker_state where
  "example_fork =
     (let k = marker_ids.truncate (example_record ''u1'' ''own''); f = marker_ids.truncate (example_record ''u2'' ''fork'')
      in (\<lparr>hd_messages = [example_user_at ''u1'' 5, marker_summary ''s'' k 5 ''/'', example_user_at ''u2'' 9, marker_summary ''s'' f 9 ''/''],
            hd_parts = [marker_compaction_part ''s'' k 5, marker_summary_part ''s'' k 5 ''compacted'',
                        marker_compaction_part ''s'' f 9, marker_summary_part ''s'' f 9 ''compacted'']\<rparr>,
          \<lparr>mc_persisted = Some (example_record ''u1'' ''own''), mc_pending = None, mc_compartments = [], mc_tags = no_marker_tags\<rparr>))"

lemmas example_rows = example_fork_def example_user_at_def example_record_def marker_ids.truncate_def marker_summary_def
  marker_compaction_part_def marker_summary_part_def summary_data_def canonical_part_data_def text_data_def Let_def

lemmas example_reads = completed_summary_def flag_is_one_def text_is_def get_field_def is_user_def is_compaction_def

theorem hygiene_restores_own_boundary_witness:
  "\<exists>m. search_boundary (fst (fst (reconcileForkOrphanedCompactionMarkers ''s'' True (undisturbed_hygiene (example_record ''u1'' ''own'')) example_fork))) ''s'' = Some m
     \<and> (m = example_user_at ''u1'' 5 \<or> \<not> list_ex (own_summary_of ''s'' (hm_id m)) (hd_messages (fst example_fork)))"
proof (rule hygiene_restores_own_boundary)
  show "host_ok (\<lambda>i. False) (fst example_fork)" by (simp add: host_ok_def example_rows)
  show "getPersistedCompactionMarkerState (snd example_fork) = Some (example_record ''u1'' ''own'')"
    by (simp add: getPersistedCompactionMarkerState_def example_rows)
  show "own_rows (fst example_fork) ''s'' (example_record ''u1'' ''own'') (example_user_at ''u1'' 5)"
    by (simp add: own_rows_def example_rows example_reads)
qed

lemma cleanup_is_exact:
  assumes "host_ok M db" "removeMcOwnedCompactionMarkers True s tx db = (db', r)"
  shows "set (hd_messages db) - set (owned_summaries db s tx) \<subseteq> set (hd_messages db')" (is ?messages)
    and "{p \<in> set (hd_parts db). \<not> owned_part db s tx p} \<subseteq> set (hd_parts db')" (is ?parts)
    and "set (hd_messages db') \<subseteq> set (hd_messages db)" "set (hd_parts db') \<subseteq> set (hd_parts db)"
proof -
  note db' = cleanup_result(1) [OF assms(2)]
  show ?messages using unowned_message_stays [OF assms(1)] by (auto simp: db' delete_lineages_rows)
  show ?parts using lineage_part_owned [OF assms(1)] by (auto simp: db' delete_lineages_rows)
  show "set (hd_messages db') \<subseteq> set (hd_messages db)" "set (hd_parts db') \<subseteq> set (hd_parts db)"
    by (auto simp: db' delete_lineages_rows)
qed

lemma verified_cleanup_removes:
  assumes "removeMcOwnedCompactionMarkers True s tx db = (db', r)" "cr_verified r"
  shows "set (hd_messages db') \<inter> set (owned_summaries db s tx) = {}"
    and "p \<in> set (hd_parts db') \<Longrightarrow> \<not> owned_part db s tx p"
proof -
  have db': "db' = delete_lineages s (lineages db s tx) db"
    using cleanup_result [OF assms(1)] assms(2) by (simp add: filter_id_conv)
  show "set (hd_messages db') \<inter> set (owned_summaries db s tx) = {}"
  proof (rule ccontr)
    assume "set (hd_messages db') \<inter> set (owned_summaries db s tx) \<noteq> {}"
    then obtain m where m: "m \<in> set (hd_messages db')" "m \<in> set (owned_summaries db s tx)" by blast
    from m(2) obtain l where "l \<in> set (lineages db s tx)" "hm_id m \<in> set (fst l)" "hm_sessionId m = s" by (rule owned_in_lineage)
    with m(1) show False by (auto simp: db' delete_lineages_rows)
  qed
  assume "p \<in> set (hd_parts db')"
  then show "\<not> owned_part db s tx p"
    using owned_part_in_lineage [of db s tx p] by (auto simp: db' delete_lineages_rows owned_part_def)
qed

lemma kept_targets:
  assumes "removeMcOwnedCompactionMarkers True s tx db = (db', r)"
  shows "set (tail_targets db' s) \<inter> hm_id ` set (hd_messages db) \<subseteq> hm_id ` set (hd_messages db')"
proof -
  note db' = cleanup_result(1) [OF assms]
  have "hm_id m \<in> hm_id ` set (hd_messages db')" if "hm_id m \<in> set (tail_targets db' s)" "m \<in> set (hd_messages db)" for m
  proof -
    have "hm_id m \<notin> set (fst l)" if "l \<in> set (filter (\<lambda>l. \<not> keeps_lineage db s l) (lineages db s tx))" for l
      using remaining_target_is_kept [OF db' that _ \<open>hm_id m \<in> set (tail_targets db' s)\<close>] that by simp
    with that(2) have "m \<in> set (hd_messages db')" by (auto simp: db' delete_lineages_rows)
    then show ?thesis by blast
  qed
  then show ?thesis by auto
qed

text \<open>
  C10: The removal of all markers of a session is complete and exact. When it is verified, exactly the plugin's rows are
  gone: its summaries in the session, the parts of these summaries, and on their parents the compaction parts that are
  exactly as the plugin writes them; a summary of the plugin is not left. Verified or not, it removes no other message and
  no other part, in no session, it adds none, and wherever a remaining compaction says that its tail starts, the message
  is still there.
\<close>

theorem cleanup_is_complete_and_exact:
  assumes "host_ok M db"
  shows "let (db', r) = removeMcOwnedCompactionMarkers True s tx db;
             others = set (hd_messages db) - set (owned_summaries db s tx);
             other_parts = {p \<in> set (hd_parts db). \<not> owned_part db s tx p}
    in (cr_verified r \<longrightarrow> set (hd_messages db') = others \<and> set (hd_parts db') = other_parts \<and> owned_summaries db' s tx = [])
       \<and> others \<subseteq> set (hd_messages db') \<and> set (hd_messages db') \<subseteq> set (hd_messages db)
       \<and> other_parts \<subseteq> set (hd_parts db') \<and> set (hd_parts db') \<subseteq> set (hd_parts db)
       \<and> set (tail_targets db' s) \<inter> hm_id ` set (hd_messages db) \<subseteq> hm_id ` set (hd_messages db')"
proof -
  obtain db' r where c: "removeMcOwnedCompactionMarkers True s tx db = (db', r)" by fastforce
  note exact = cleanup_is_exact [OF assms c] and gone = verified_cleanup_removes [OF c]
  have "set (hd_messages db') = set (hd_messages db) - set (owned_summaries db s tx)" if "cr_verified r"
    using exact(1,3) gone(1) [OF that] by blast
  moreover have "set (hd_parts db') = {p \<in> set (hd_parts db). \<not> owned_part db s tx p}" if "cr_verified r"
    using exact(2,4) gone(2) [OF that] by blast
  ultimately show ?thesis
    unfolding c Let_def prod.case using exact verified_cleanup_leaves_none [OF c] kept_targets [OF c] by blast
qed

text \<open>On the fork above, only the two messages of the user are left.\<close>

theorem cleanup_is_complete_and_exact_witness:
  "let (db', r) = removeMcOwnedCompactionMarkers True ''s'' ''compacted'' (fst example_fork)
   in cr_verified r \<and> {example_user_at ''u1'' 5, example_user_at ''u2'' 9} \<subseteq> set (hd_messages db') \<and> hd_parts db' = []"
proof -
  let ?run = "removeMcOwnedCompactionMarkers True ''s'' ''compacted'' (fst example_fork)"
    and ?owned = "owned_summaries (fst example_fork) ''s'' ''compacted''"
  have "host_ok (\<lambda>i. False) (fst example_fork)" by (simp add: host_ok_def example_rows)
  note h = cleanup_is_complete_and_exact [OF this, of "''s''" "''compacted''"]
  have v: "cr_verified (snd ?run)" by code_simp
  have "example_user_at i t \<notin> set ?owned" for i t
    by (simp add: owned_summaries_def canonical_summary_def foreign_named_summary_def completed_summary_def flag_is_one_def get_field_def
        example_user_at_def)
  moreover have "{example_user_at ''u1'' 5, example_user_at ''u2'' 9} \<subseteq> set (hd_messages (fst example_fork))"
    by (simp add: example_fork_def Let_def)
  moreover have "list_all (owned_part (fst example_fork) ''s'' ''compacted'') (hd_parts (fst example_fork))" by code_simp
  then have none: "{p \<in> set (hd_parts (fst example_fork)). \<not> owned_part (fst example_fork) ''s'' ''compacted'' p} = {}"
    by (auto simp: list_all_iff)
  moreover have "set (hd_parts (fst ?run)) = {}" "set (hd_messages (fst ?run)) = set (hd_messages (fst example_fork)) - set ?owned"
    using h v unfolding none by (simp_all only: Let_def split_beta simp_thms)
  ultimately show ?thesis using v by (simp add: split_beta)
qed

end
