(* ===== verification/Compaction_Mode.thy ===== *)
theory Compaction_Mode
  imports Marker_Cleanup Channel2_Delivery
begin

text \<open>
  Turning the management of the context window off and on (\<open>hooks/magic-context/compaction-off-transition.ts\<close>, its call
  in \<open>transform.ts\<close>, the mode record in \<open>storage-meta-persisted.ts\<close>). A session carries a record of its mode; the first
  pass after the configuration has changed runs the transition and tells the user, and the record keeps a transition
  that was cut short or whose notice did not arrive. A transition is a list of writes, each of which can be the last one
  before an exception or the death of the process.
\<close>

section \<open>The record and the session\<close>

datatype mode_record = ModeOn | ModeOff | OnNoticePending | OffNoticePending | OffCleanupPending

datatype resolved_mode = ResolvedOn | ResolvedOff

definition resolveCompactionModeRecord :: "mode_record option \<Rightarrow> resolved_mode option" where
  "resolveCompactionModeRecord r =
     (case r of None \<Rightarrow> None
      | Some ModeOn \<Rightarrow> Some ResolvedOn | Some OnNoticePending \<Rightarrow> Some ResolvedOn
      | Some ModeOff \<Rightarrow> Some ResolvedOff | Some OffNoticePending \<Rightarrow> Some ResolvedOff | Some OffCleanupPending \<Rightarrow> Some ResolvedOff)"

text \<open>The columns a transition touches; \<open>md_baseline\<close> says whether the cached baseline is stored.\<close>

record mode_state =
  md_record :: "mode_record option"
  md_host :: host_db
  md_ctx :: marker_ctx
  md_recovery :: bool
  md_nudge :: nudge_row
  md_baseline :: bool
  md_inProgress :: bool

definition setCompactionModeRecord :: "mode_record option \<Rightarrow> mode_state \<Rightarrow> mode_state" where
  "setCompactionModeRecord r S = S\<lparr>md_record := r\<rparr>"

definition clearEmergencyRecovery :: "mode_state \<Rightarrow> mode_state" where
  "clearEmergencyRecovery S = S\<lparr>md_recovery := False\<rparr>"

definition clearCachedM0Baseline :: "mode_state \<Rightarrow> mode_state" where
  "clearCachedM0Baseline S = S\<lparr>md_baseline := False\<rparr>"

definition session_ops :: "string \<Rightarrow> mode_state \<Rightarrow> queued_op list" where
  "session_ops s S = filter (\<lambda>o'. qo_sessionId o' = s) (tb_ops (mc_tags (md_ctx S)))"

definition clear_session_ops :: "string \<Rightarrow> mode_state \<Rightarrow> mode_state" where
  "clear_session_ops s S =
     S\<lparr>md_ctx := (md_ctx S)\<lparr>mc_tags := (mc_tags (md_ctx S))\<lparr>tb_ops := filter (\<lambda>o'. qo_sessionId o' \<noteq> s) (tb_ops (mc_tags (md_ctx S)))\<rparr>\<rparr>\<rparr>"

record mode_args =
  ma_sessionId :: string
  ma_summaryText :: string
  ma_compactionOff :: bool
  ma_historianRunnable :: bool
  ma_hostDbExists :: bool
  ma_schemaOk :: bool
  ma_now :: int

datatype mode_notice = OffFlipNotice | OnWrapupSuggestion

record mode_result =
  mr_recordToWrite :: "mode_record option"
  mr_notice :: "mode_notice option"
  mr_invalidatedM0Baseline :: bool
  mr_historianCatchUpSignaled :: bool
  mr_clearedCompartmentInProgress :: bool
  mr_clearedSomething :: bool
  mr_markerCleanup :: cleanup_result

definition NO_TRANSITION :: mode_result where
  "NO_TRANSITION = \<lparr>mr_recordToWrite = None, mr_notice = None, mr_invalidatedM0Baseline = False, mr_historianCatchUpSignaled = False,
     mr_clearedCompartmentInProgress = False, mr_clearedSomething = False, mr_markerCleanup = no_cleanup True\<rparr>"

section \<open>The transition to off\<close>

definition cleanupOffMarkers :: "mode_args \<Rightarrow> host_db \<Rightarrow> host_db \<times> cleanup_result" where
  "cleanupOffMarkers A oc =
     (if \<not> ma_hostDbExists A then (oc, no_cleanup True)
      else removeMcOwnedCompactionMarkers (ma_schemaOk A) (ma_sessionId A) (ma_summaryText A) oc)"

text \<open>What the transition has found so far: \<open>clearedSomething\<close> and the result of the cleanup.\<close>

type_synonym off_progress = "mode_state \<times> bool \<times> cleanup_result"

definition off_markers :: "mode_args \<Rightarrow> off_progress \<Rightarrow> off_progress" where
  "off_markers A x =
     (let (S, cleared, _) = x; (oc, r) = cleanupOffMarkers A (md_host S)
      in (S\<lparr>md_host := oc\<rparr>, cleared \<or> 0 < cr_removedRows r, r))"

definition off_persisted :: "off_progress \<Rightarrow> off_progress" where
  "off_persisted x =
     (let (S, cleared, r) = x
      in if getPersistedCompactionMarkerState (md_ctx S) = None then x
         else (S\<lparr>md_ctx := setPersistedCompactionMarkerState None (md_ctx S)\<rparr>, True, r))"

definition off_pending :: "off_progress \<Rightarrow> off_progress" where
  "off_pending x =
     (let (S, cleared, r) = x
      in case mc_pending (md_ctx S) of None \<Rightarrow> x
         | Some p \<Rightarrow> (S\<lparr>md_ctx := fst (clearPendingCompactionMarkerStateIf p (md_ctx S))\<rparr>, True, r))"

definition off_recovery :: "off_progress \<Rightarrow> off_progress" where
  "off_recovery x = (let (S, cleared, r) = x in if md_recovery S then (clearEmergencyRecovery S, True, r) else x)"

definition off_nudge :: "mode_args \<Rightarrow> off_progress \<Rightarrow> off_progress" where
  "off_nudge A x =
     (let (S, cleared, r) = x
      in if nr_state (md_nudge S) = Pending \<or> nr_state (md_nudge S) = Claimed
         then (S\<lparr>md_nudge := setChannel2NudgeState (ma_now A) NoIntent (md_nudge S)\<rparr>, True, r) else x)"

definition off_ops :: "mode_args \<Rightarrow> off_progress \<Rightarrow> off_progress" where
  "off_ops A x = (let (S, cleared, r) = x in if session_ops (ma_sessionId A) S \<noteq> [] then (clear_session_ops (ma_sessionId A) S, True, r) else x)"

definition off_baseline :: "off_progress \<Rightarrow> off_progress" where
  "off_baseline x = (let (S, cleared, r) = x in (clearCachedM0Baseline S, cleared, r))"

definition off_inProgress :: "off_progress \<Rightarrow> off_progress" where
  "off_inProgress x = (let (S, cleared, r) = x in (S\<lparr>md_inProgress := False\<rparr>, cleared, r))"

definition off_writes :: "mode_args \<Rightarrow> (off_progress \<Rightarrow> off_progress) list" where
  "off_writes A = [off_markers A, off_persisted, off_pending, off_recovery, off_nudge A, off_ops A, off_baseline, off_inProgress]"

definition run_writes :: "('x \<Rightarrow> 'x) list \<Rightarrow> 'x \<Rightarrow> 'x" where
  "run_writes ws x = foldl (\<lambda>x w. w x) x ws"

text \<open>
  \<open>stop\<close> is the number of writes after which the transition stops, \<open>None\<close> if it runs through; the result is missing then.
  The ghost component tells whether something was cleared.
\<close>

definition stopped :: "nat option \<Rightarrow> nat \<Rightarrow> bool" where
  "stopped stop n = (case stop of None \<Rightarrow> False | Some k \<Rightarrow> k < n)"

definition off_transition :: "mode_args \<Rightarrow> nat option \<Rightarrow> mode_state \<Rightarrow> mode_state \<times> bool \<times> mode_result option" where
  "off_transition A stop S0 =
     (let completingOffNotice = (md_record S0 = Some OffNoticePending)
      in if stopped stop 1 then (S0, False, None)
         else
           let S = (if completingOffNotice then S0 else setCompactionModeRecord (Some OffNoticePending) S0);
               ws = off_writes A;
               n = (case stop of None \<Rightarrow> length ws | Some k \<Rightarrow> k - 1);
               (S1, cleared, cleanup) = run_writes (take n ws) (S, False, no_cleanup True)
           in if stopped stop (1 + length ws) then (S1, cleared, None)
              else
                let notice = (if cleared \<or> completingOffNotice then Some OffFlipNotice else None);
                    S2 = (if notice = None \<and> \<not> cr_verified cleanup then setCompactionModeRecord (Some OffCleanupPending) S1 else S1);
                    record = (if notice \<noteq> None then (if cr_verified cleanup then Some ModeOff else Some OffCleanupPending)
                              else if cr_verified cleanup then Some ModeOff else None)
                in (S2, cleared,
                    Some \<lparr>mr_recordToWrite = record, mr_notice = notice, mr_invalidatedM0Baseline = True, mr_historianCatchUpSignaled = False,
                          mr_clearedCompartmentInProgress = md_inProgress S0, mr_clearedSomething = cleared, mr_markerCleanup = cleanup\<rparr>))"

section \<open>The transition to on, and the reconciliation\<close>

definition on_writes :: "mode_args \<Rightarrow> (mode_state \<Rightarrow> mode_state) list" where
  "on_writes A =
     clearCachedM0Baseline # (if ma_historianRunnable A then [\<lambda>S. S\<lparr>md_inProgress := True\<rparr>, setCompactionModeRecord (Some OnNoticePending)] else [])"

definition on_transition :: "mode_args \<Rightarrow> nat option \<Rightarrow> mode_state \<Rightarrow> mode_state \<times> bool \<times> mode_result option" where
  "on_transition A stop S =
     (let ws = on_writes A;
          S' = run_writes (case stop of None \<Rightarrow> ws | Some k \<Rightarrow> take k ws) S
      in (S', False,
          if stopped stop (length ws) then None
          else Some (NO_TRANSITION\<lparr>mr_recordToWrite := Some ModeOn,
                 mr_notice := (if ma_historianRunnable A then Some OnWrapupSuggestion else None),
                 mr_invalidatedM0Baseline := True, mr_historianCatchUpSignaled := ma_historianRunnable A\<rparr>)))"

definition cleanup_retry :: "mode_args \<Rightarrow> nat option \<Rightarrow> mode_state \<Rightarrow> mode_state \<times> bool \<times> mode_result option" where
  "cleanup_retry A stop S =
     (if stopped stop 1 then (S, False, None)
      else let (oc, r) = cleanupOffMarkers A (md_host S)
           in (S\<lparr>md_host := oc\<rparr>, 0 < cr_removedRows r,
               Some (NO_TRANSITION\<lparr>mr_recordToWrite := (if cr_verified r then Some ModeOff else None), mr_markerCleanup := r\<rparr>)))"

definition reconcileCompactionMode :: "mode_args \<Rightarrow> nat option \<Rightarrow> mode_state \<Rightarrow> mode_state \<times> bool \<times> mode_result option" where
  "reconcileCompactionMode A stop S =
     (if md_record S = Some OnNoticePending then
        (S, False, Some (NO_TRANSITION\<lparr>mr_recordToWrite := Some ModeOn, mr_notice := Some OnWrapupSuggestion\<rparr>))
      else if \<not> ma_compactionOff A \<and> md_record S \<noteq> Some OffNoticePending then
        (if md_record S = None then (S, False, Some (NO_TRANSITION\<lparr>mr_recordToWrite := Some ModeOn\<rparr>))
         else if resolveCompactionModeRecord (md_record S) = Some ResolvedOn then (S, False, Some NO_TRANSITION)
         else on_transition A stop S)
      else if md_record S = Some ModeOff then (S, False, Some NO_TRANSITION)
      else if md_record S = Some OffCleanupPending then cleanup_retry A stop S
      else off_transition A stop S)"

section \<open>A pass\<close>

text \<open>
  The caller delivers the notice and then commits the record (\<open>transform.ts\<close>); without a client a notice counts as
  delivered. The second component of the result is the notice that was delivered.
\<close>

record mode_pass_input =
  mi_args :: mode_args
  mi_stop :: "nat option"
  mi_hasClient :: bool
  mi_sent :: bool
  mi_diesBeforeCommit :: bool

definition commitCompactionModeRecord :: "mode_record \<Rightarrow> mode_state \<Rightarrow> mode_state" where
  "commitCompactionModeRecord r S = setCompactionModeRecord (Some r) S"

definition notice_delivered :: "mode_pass_input \<Rightarrow> mode_result \<Rightarrow> bool" where
  "notice_delivered i r \<longleftrightarrow> mr_notice r = None \<or> \<not> mi_hasClient i \<or> mi_sent i"

definition mode_pass :: "mode_pass_input \<Rightarrow> mode_state \<Rightarrow> mode_state \<times> bool \<times> mode_notice option" where
  "mode_pass i S =
     (case reconcileCompactionMode (mi_args i) (mi_stop i) S of
        (S', cleared, None) \<Rightarrow> (S', cleared, None)
      | (S', cleared, Some r) \<Rightarrow>
          if \<not> notice_delivered i r then (S', cleared, None)
          else (case mr_recordToWrite r of
                  Some rec \<Rightarrow> (if mi_diesBeforeCommit i then S' else commitCompactionModeRecord rec S')
                | None \<Rightarrow> S', cleared, mr_notice r))"

text \<open>
  What the user is owed, as two flags beside the state: a transition has cleared something, and the retry of a cleanup has
  removed rows of a marker, since a notice was delivered last.
\<close>

datatype mode_event = Pass mode_pass_input | Elsewhere host_db marker_ctx bool nudge_row bool bool

definition mode_step :: "mode_state \<times> bool \<times> bool \<Rightarrow> mode_event \<Rightarrow> mode_state \<times> bool \<times> bool" where
  "mode_step x ev =
     (let (S, owed, unfolded) = x
      in case ev of
           Pass i \<Rightarrow>
             (case mode_pass i S of
                (S', cleared, notice) \<Rightarrow>
                  let retried = (md_record S = Some OffCleanupPending); told = (notice = Some OffFlipNotice)
                  in (S', (owed \<or> cleared \<and> \<not> retried) \<and> \<not> told, (unfolded \<or> cleared \<and> retried) \<and> \<not> told))
         | Elsewhere oc ctx recovery nudge baseline inProgress \<Rightarrow>
             (S\<lparr>md_host := oc, md_ctx := ctx, md_recovery := recovery, md_nudge := nudge, md_baseline := baseline, md_inProgress := inProgress\<rparr>,
              owed, unfolded))"

section \<open>Facts\<close>

lemma off_write_record:
  assumes "w \<in> set (off_writes A)"
  shows "md_record (fst (w x)) = md_record (fst x)"
  using assms
  by (auto simp: off_writes_def off_markers_def off_persisted_def off_pending_def off_recovery_def off_nudge_def off_ops_def
      off_baseline_def off_inProgress_def clearEmergencyRecovery_def clear_session_ops_def clearCachedM0Baseline_def split_beta Let_def
      split: option.split)

lemma run_writes_record:
  assumes "\<And>w x. w \<in> set ws \<Longrightarrow> md_record (fst (w x)) = md_record (fst x)"
  shows "md_record (fst (run_writes ws x)) = md_record (fst x)"
  unfolding run_writes_def using assms by (induction ws arbitrary: x) simp_all

lemma off_run_record:
  "md_record (fst (run_writes (take n (off_writes A)) x)) = md_record (fst x)"
  by (intro run_writes_record off_write_record) (auto dest: in_set_takeD)

text \<open>The transition to off: what it can leave in the record, and that it reports what it has cleared.\<close>

lemma off_transition_record:
  assumes "off_transition A stop S0 = (S, cleared, res)" "md_record S0 \<noteq> Some ModeOff"
  shows "(res = None \<longrightarrow> (cleared \<or> md_record S0 = Some OffNoticePending \<longrightarrow> md_record S = Some OffNoticePending))
    \<and> (\<forall>r. res = Some r \<longrightarrow> (mr_notice r \<noteq> None \<longleftrightarrow> cleared \<or> md_record S0 = Some OffNoticePending)
          \<and> (mr_notice r = None \<or> mr_notice r = Some OffFlipNotice)
          \<and> (mr_notice r \<noteq> None \<longrightarrow> md_record S = Some OffNoticePending))"
proof -
  let ?S = "if md_record S0 = Some OffNoticePending then S0 else setCompactionModeRecord (Some OffNoticePending) S0"
  have rec: "md_record ?S = Some OffNoticePending" by (simp add: setCompactionModeRecord_def)
  show ?thesis
  proof (cases "stopped stop 1")
    case True
    with assms show ?thesis by (auto simp: off_transition_def Let_def)
  next
    case False
    define n where "n = (case stop of None \<Rightarrow> length (off_writes A) | Some k \<Rightarrow> k - 1)"
    obtain S1 c cl where run: "run_writes (take n (off_writes A)) (?S, False, no_cleanup True) = (S1, c, cl)" by (metis surj_pair)
    then have r1: "md_record S1 = Some OffNoticePending" using off_run_record [of n A "(?S, False, no_cleanup True)"] rec by simp
    show ?thesis
      using assms(1) False run r1
      by (auto simp: off_transition_def Let_def n_def [symmetric] setCompactionModeRecord_def split: if_splits)
  qed
qed

text \<open>A notice is owed only while the record says so.\<close>

definition owed_ok :: "mode_state \<times> bool \<times> bool \<Rightarrow> bool" where
  "owed_ok x \<longleftrightarrow> (fst (snd x) \<longrightarrow> md_record (fst x) = Some OffNoticePending)"

lemma not_off_transition_clears_nothing:
  assumes "reconcileCompactionMode A stop S = (S', cleared, res)" "md_record S \<noteq> Some OffNoticePending"
    and "\<not> (ma_compactionOff A \<and> md_record S \<notin> {Some OnNoticePending, Some ModeOff, Some OffCleanupPending})"
  shows "cleared \<Longrightarrow> md_record S = Some OffCleanupPending"
  using assms
  by (auto simp: reconcileCompactionMode_def on_transition_def cleanup_retry_def Let_def split_beta split: if_splits prod.splits)

lemma mode_pass_owed:
  assumes "owed_ok (S, owed, unfolded)" "mode_pass i S = (S', cleared, notice)"
  shows "owed_ok (S', (owed \<or> cleared \<and> md_record S \<noteq> Some OffCleanupPending) \<and> notice \<noteq> Some OffFlipNotice, unfolded')"
proof -
  obtain S1 c res where r: "reconcileCompactionMode (mi_args i) (mi_stop i) S = (S1, c, res)" by (metis surj_pair)
  show ?thesis
  proof (cases "md_record S = Some OffNoticePending \<or> (ma_compactionOff (mi_args i) \<and> md_record S \<notin> {Some OnNoticePending, Some ModeOff, Some OffCleanupPending})")
    case True
    then have "off_transition (mi_args i) (mi_stop i) S = (S1, c, res)" "md_record S \<noteq> Some ModeOff"
      using r by (auto simp: reconcileCompactionMode_def)
    note t = off_transition_record [OF this]
    show ?thesis
    proof (cases res)
      case None
      with t r assms show ?thesis by (auto simp: mode_pass_def owed_ok_def split: if_splits)
    next
      case (Some m)
      with t r assms show ?thesis
        by (auto simp: mode_pass_def owed_ok_def commitCompactionModeRecord_def setCompactionModeRecord_def split: if_splits option.splits)
    qed
  next
    case False
    then have "c \<Longrightarrow> md_record S = Some OffCleanupPending" using not_off_transition_clears_nothing [OF r] by blast
    moreover have "\<not> owed" using assms(1) False by (auto simp: owed_ok_def)
    moreover have "cleared = c" using assms(2) r by (auto simp: mode_pass_def split: option.splits if_splits)
    ultimately show ?thesis by (auto simp: owed_ok_def)
  qed
qed

lemma mode_step_owed: "owed_ok x \<Longrightarrow> owed_ok (mode_step x ev)"
proof (cases x; cases ev)
  fix S d i assume x: "x = (S, d)" "ev = Pass i" "owed_ok x"
  obtain owed unfolded where d: "d = (owed, unfolded)" by fastforce
  obtain S' c n where "mode_pass i S = (S', c, n)" by (metis surj_pair)
  with mode_pass_owed [of S owed unfolded i] x d show "owed_ok (mode_step x ev)" by (simp add: mode_step_def Let_def)
qed (auto simp: mode_step_def owed_ok_def)

interpretation mode: machine mode_step owed_ok
  by unfold_locales (rule mode_step_owed)

section \<open>What the writes leave\<close>

lemmas off_write_defs = off_persisted_def off_pending_def off_recovery_def off_nudge_def off_ops_def off_baseline_def off_inProgress_def
  clearEmergencyRecovery_def clear_session_ops_def clearCachedM0Baseline_def setPersistedCompactionMarkerState_def
  clearPendingCompactionMarkerStateIf_def getPersistedCompactionMarkerState_def session_ops_def

text \<open>Each write clears its own column and leaves those cleared before it.\<close>

lemma off_clears:
  "mc_persisted (md_ctx (fst (off_persisted x))) = None"
  "mc_pending (md_ctx (fst (off_pending x))) = None"
  "\<not> md_recovery (fst (off_recovery x))"
  "nr_state (md_nudge (fst (off_nudge A x))) \<notin> {Pending, Claimed}"
  "session_ops (ma_sessionId A) (fst (off_ops A x)) = []"
  "\<not> md_baseline (fst (off_baseline x))"
  "\<not> md_inProgress (fst (off_inProgress x))"
  by (cases x; auto simp: off_write_defs Let_def setChannel2NudgeState_def split: option.split)+

lemma off_keeps:
  "mc_persisted (md_ctx (fst (off_pending x))) = mc_persisted (md_ctx (fst x))"
  "mc_persisted (md_ctx (fst (off_recovery x))) = mc_persisted (md_ctx (fst x))"
  "mc_persisted (md_ctx (fst (off_nudge A x))) = mc_persisted (md_ctx (fst x))"
  "mc_persisted (md_ctx (fst (off_ops A x))) = mc_persisted (md_ctx (fst x))"
  "mc_pending (md_ctx (fst (off_recovery x))) = mc_pending (md_ctx (fst x))"
  "mc_pending (md_ctx (fst (off_nudge A x))) = mc_pending (md_ctx (fst x))"
  "mc_pending (md_ctx (fst (off_ops A x))) = mc_pending (md_ctx (fst x))"
  "md_recovery (fst (off_nudge A x)) = md_recovery (fst x)"
  "md_recovery (fst (off_ops A x)) = md_recovery (fst x)"
  "md_nudge (fst (off_ops A x)) = md_nudge (fst x)"
  by (cases x; simp add: off_write_defs Let_def split: option.split)+

lemma off_keeps_baseline:
  "md_ctx (fst (off_baseline x)) = md_ctx (fst x)" "md_recovery (fst (off_baseline x)) = md_recovery (fst x)"
  "md_nudge (fst (off_baseline x)) = md_nudge (fst x)" "md_ctx (fst (off_inProgress x)) = md_ctx (fst x)"
  "md_recovery (fst (off_inProgress x)) = md_recovery (fst x)" "md_nudge (fst (off_inProgress x)) = md_nudge (fst x)"
  "md_baseline (fst (off_inProgress x)) = md_baseline (fst x)" "session_ops s (fst (off_baseline x)) = session_ops s (fst x)"
  "session_ops s (fst (off_inProgress x)) = session_ops s (fst x)"
  by (cases x; simp add: off_write_defs Let_def)+

lemma off_keeps_host:
  "md_host (fst (off_persisted x)) = md_host (fst x)" "md_host (fst (off_pending x)) = md_host (fst x)"
  "md_host (fst (off_recovery x)) = md_host (fst x)" "md_host (fst (off_nudge A x)) = md_host (fst x)"
  "md_host (fst (off_ops A x)) = md_host (fst x)" "md_host (fst (off_baseline x)) = md_host (fst x)"
  "md_host (fst (off_inProgress x)) = md_host (fst x)"
  "snd (snd (off_persisted x)) = snd (snd x)" "snd (snd (off_pending x)) = snd (snd x)" "snd (snd (off_recovery x)) = snd (snd x)"
  "snd (snd (off_nudge A x)) = snd (snd x)" "snd (snd (off_ops A x)) = snd (snd x)" "snd (snd (off_baseline x)) = snd (snd x)"
  "snd (snd (off_inProgress x)) = snd (snd x)"
  by (cases x; simp add: off_write_defs Let_def split: option.split)+

lemmas off_effects = off_clears off_keeps off_keeps_baseline off_keeps_host

text \<open>Nothing of the management of the window is left in the session.\<close>

definition window_unmanaged :: "mode_args \<Rightarrow> mode_state \<Rightarrow> bool" where
  "window_unmanaged A S \<longleftrightarrow> mc_persisted (md_ctx S) = None \<and> mc_pending (md_ctx S) = None \<and> \<not> md_recovery S
     \<and> nr_state (md_nudge S) \<notin> {Pending, Claimed} \<and> session_ops (ma_sessionId A) S = [] \<and> \<not> md_baseline S \<and> \<not> md_inProgress S
     \<and> (\<not> ma_hostDbExists A \<or> owned_summaries (md_host S) (ma_sessionId A) (ma_summaryText A) = [])"

lemma cleanup_off_verified:
  assumes "cleanupOffMarkers A oc = (oc', r)" "cr_verified r"
  shows "\<not> ma_hostDbExists A \<or> owned_summaries oc' (ma_sessionId A) (ma_summaryText A) = []"
proof (cases "ma_hostDbExists A \<and> ma_schemaOk A")
  case True
  with assms verified_cleanup_leaves_none [of "ma_sessionId A" "ma_summaryText A" oc oc' r] show ?thesis
    by (simp add: cleanupOffMarkers_def)
next
  case False
  with assms show ?thesis by (auto simp: cleanupOffMarkers_def removeMcOwnedCompactionMarkers_def no_cleanup_def)
qed

lemma off_run_clean:
  assumes "cr_verified (snd (snd (run_writes (off_writes A) (S, c, r0))))"
  shows "window_unmanaged A (fst (run_writes (off_writes A) (S, c, r0)))"
proof -
  obtain oc r where m: "cleanupOffMarkers A (md_host S) = (oc, r)" by fastforce
  have v: "snd (snd (off_markers A (S, c, r0))) = r" "md_host (fst (off_markers A (S, c, r0))) = oc"
    using m by (simp_all add: off_markers_def)
  with assms have "cr_verified r" by (simp add: run_writes_def off_writes_def off_effects)
  from cleanup_off_verified [OF m this] v show ?thesis
    using off_clears(4) [of A] by (simp add: window_unmanaged_def run_writes_def off_writes_def off_effects)
qed

section \<open>Undisturbed passes\<close>

definition undisturbed_pass :: "mode_pass_input \<Rightarrow> bool" where
  "undisturbed_pass i \<longleftrightarrow> mi_stop i = None \<and> (\<not> mi_hasClient i \<or> mi_sent i) \<and> \<not> mi_diesBeforeCommit i"

definition off_result :: "mode_args \<Rightarrow> mode_state \<Rightarrow> off_progress" where
  "off_result A S =
     run_writes (off_writes A)
       (if md_record S = Some OffNoticePending then S else setCompactionModeRecord (Some OffNoticePending) S, False, no_cleanup True)"

lemma off_transition_full:
  obtains r S' where "off_transition A None S = (S', fst (snd (off_result A S)), Some r)"
    "mr_notice r = (if fst (snd (off_result A S)) \<or> md_record S = Some OffNoticePending then Some OffFlipNotice else None)"
    "cr_verified (snd (snd (off_result A S))) \<Longrightarrow> mr_recordToWrite r = Some ModeOff \<and> S' = fst (off_result A S)"
proof -
  obtain S1 c cl where x: "off_result A S = (S1, c, cl)" by (metis surj_pair)
  show ?thesis
    by (rule that) (use x in \<open>auto simp: off_transition_def off_result_def stopped_def Let_def\<close>)
qed

lemma off_result_verified: "cr_verified (snd (snd (off_result A S))) \<longleftrightarrow> cr_verified (snd (cleanupOffMarkers A (md_host S)))"
proof -
  have "snd (snd (off_markers A (S', c, r0))) = snd (cleanupOffMarkers A (md_host S'))" for S' c r0
    by (simp add: off_markers_def split_beta)
  then show ?thesis by (simp add: off_result_def run_writes_def off_writes_def off_effects setCompactionModeRecord_def)
qed

lemma off_result_clean: "cr_verified (snd (snd (off_result A S))) \<Longrightarrow> window_unmanaged A (fst (off_result A S))"
  unfolding off_result_def by (rule off_run_clean)

lemma window_unmanaged_record [simp]: "window_unmanaged A (setCompactionModeRecord r S) = window_unmanaged A S"
  by (simp add: window_unmanaged_def setCompactionModeRecord_def session_ops_def)

lemma off_pass_settles:
  assumes "undisturbed_pass i" "cr_verified (snd (cleanupOffMarkers (mi_args i) (md_host S)))"
    and "reconcileCompactionMode (mi_args i) None S = off_transition (mi_args i) None S"
  shows "md_record (fst (mode_pass i S)) = Some ModeOff \<and> window_unmanaged (mi_args i) (fst (mode_pass i S))"
proof -
  let ?A = "mi_args i"
  obtain r S' where t: "off_transition ?A None S = (S', fst (snd (off_result ?A S)), Some r)"
    "cr_verified (snd (snd (off_result ?A S))) \<Longrightarrow> mr_recordToWrite r = Some ModeOff \<and> S' = fst (off_result ?A S)"
    by (rule off_transition_full [of ?A S]) blast
  have v: "cr_verified (snd (snd (off_result ?A S)))" using assms(2) by (simp add: off_result_verified)
  have "notice_delivered i r" "mi_stop i = None" "\<not> mi_diesBeforeCommit i"
    using assms(1) by (auto simp: undisturbed_pass_def notice_delivered_def)
  then have "fst (mode_pass i S) = setCompactionModeRecord (Some ModeOff) (fst (off_result ?A S))"
    using assms(3) t v by (simp add: mode_pass_def commitCompactionModeRecord_def)
  moreover have "md_record (setCompactionModeRecord (Some ModeOff) x) = Some ModeOff" for x
    by (simp add: setCompactionModeRecord_def)
  ultimately show ?thesis using off_result_clean [OF v] by simp
qed

lemma on_pass_settles:
  assumes "undisturbed_pass i" "reconcileCompactionMode (mi_args i) None S = on_transition (mi_args i) None S"
  shows "md_record (fst (mode_pass i S)) = Some ModeOn"
  using assms
  by (auto simp: mode_pass_def undisturbed_pass_def notice_delivered_def on_transition_def stopped_def Let_def
      commitCompactionModeRecord_def setCompactionModeRecord_def)

lemma retry_pass_settles:
  assumes "undisturbed_pass i" "cr_verified (snd (cleanupOffMarkers (mi_args i) (md_host S)))"
    and "reconcileCompactionMode (mi_args i) None S = cleanup_retry (mi_args i) None S"
  shows "md_record (fst (mode_pass i S)) = Some ModeOff"
  using assms
  by (auto simp: mode_pass_def undisturbed_pass_def notice_delivered_def cleanup_retry_def stopped_def Let_def split_beta
      commitCompactionModeRecord_def setCompactionModeRecord_def NO_TRANSITION_def)

text \<open>The settled records stay.\<close>

definition configured :: "mode_args \<Rightarrow> mode_record" where
  "configured A = (if ma_compactionOff A then ModeOff else ModeOn)"

lemma settled_stays:
  assumes "md_record S = Some (configured (mi_args i))"
  shows "mode_pass i S = (S, False, None)"
  using assms
  by (simp add: configured_def mode_pass_def reconcileCompactionMode_def resolveCompactionModeRecord_def NO_TRANSITION_def
      notice_delivered_def split: if_splits)

lemma first_pass:
  assumes "undisturbed_pass i" "cr_verified (snd (cleanupOffMarkers (mi_args i) (md_host S)))"
  shows "md_record (fst (mode_pass i S)) = Some (configured (mi_args i))
    \<or> (md_record S = Some OffNoticePending \<and> \<not> ma_compactionOff (mi_args i) \<and> md_record (fst (mode_pass i S)) = Some ModeOff)
    \<or> (md_record S = Some OnNoticePending \<and> ma_compactionOff (mi_args i) \<and> md_record (fst (mode_pass i S)) = Some ModeOn
        \<and> md_host (fst (mode_pass i S)) = md_host S)"
proof (cases "md_record S")
  case None
  then show ?thesis
    using off_pass_settles [OF assms] assms(1)
    by (cases "ma_compactionOff (mi_args i)")
      (auto simp: reconcileCompactionMode_def configured_def mode_pass_def undisturbed_pass_def notice_delivered_def NO_TRANSITION_def
        commitCompactionModeRecord_def setCompactionModeRecord_def)
next
  case (Some r)
  show ?thesis
  proof (cases r)
    case ModeOn
    with Some show ?thesis
      using off_pass_settles [OF assms] settled_stays [of S i]
      by (cases "ma_compactionOff (mi_args i)") (auto simp: reconcileCompactionMode_def configured_def)
  next
    case ModeOff
    with Some show ?thesis
      using on_pass_settles [OF assms(1)] settled_stays [of S i]
      by (cases "ma_compactionOff (mi_args i)") (auto simp: reconcileCompactionMode_def configured_def resolveCompactionModeRecord_def)
  next
    case OnNoticePending
    with Some assms(1) show ?thesis
      by (auto simp: reconcileCompactionMode_def configured_def mode_pass_def undisturbed_pass_def notice_delivered_def
          commitCompactionModeRecord_def setCompactionModeRecord_def)
  next
    case OffNoticePending
    with Some show ?thesis
      using off_pass_settles [OF assms] by (auto simp: reconcileCompactionMode_def configured_def)
  next
    case OffCleanupPending
    with Some show ?thesis
      using on_pass_settles [OF assms(1)] retry_pass_settles [OF assms]
      by (cases "ma_compactionOff (mi_args i)") (auto simp: reconcileCompactionMode_def configured_def resolveCompactionModeRecord_def)
  qed
qed

section \<open>Properties\<close>

text \<open>
  C11: The notice of a transition is not lost. Over any passes, cut short after any write, with notices that do not arrive,
  crashes before the record is committed and any other writer of the session between them: once a transition to off has
  cleared something and the user has not been told since, the record stays at the pending notice, and the next pass that
  runs through and whose message arrives tells the user, whatever the configuration is by then. This is about what the
  transition clears, and not about what the later retry of a cleanup removes: the retry never tells the user.
\<close>

theorem flip_notice_is_not_lost:
  assumes "foldl mode_step (S, False, False) es = (S', True, unfolded)"
    and "mi_stop i = None" "\<not> mi_hasClient i \<or> mi_sent i"
  shows "md_record S' = Some OffNoticePending \<and> snd (snd (mode_pass i S')) = Some OffFlipNotice"
proof -
  have "owed_ok (foldl mode_step (S, False, False) es)" by (rule mode.run_inv) (simp add: owed_ok_def)
  with assms(1) have r: "md_record S' = Some OffNoticePending" by (simp add: owed_ok_def)
  then have t: "reconcileCompactionMode (mi_args i) None S' = off_transition (mi_args i) None S'" by (simp add: reconcileCompactionMode_def)
  obtain m S1 where "off_transition (mi_args i) None S' = (S1, fst (snd (off_result (mi_args i) S')), Some m)"
    "mr_notice m = Some OffFlipNotice"
    by (rule off_transition_full [of "mi_args i" S']) (use r in simp)
  with r t assms(2,3) show ?thesis by (auto simp: mode_pass_def notice_delivered_def)
qed

definition example_mode_args :: mode_args where
  "example_mode_args = \<lparr>ma_sessionId = ''s'', ma_summaryText = ''compacted'', ma_compactionOff = True, ma_historianRunnable = True,
     ma_hostDbExists = True, ma_schemaOk = True, ma_now = 100\<rparr>"

definition example_mode_state :: mode_state where
  "example_mode_state = \<lparr>md_record = None, md_host = fst example_fork, md_ctx = snd example_fork, md_recovery = True,
     md_nudge = \<lparr>nr_state = Pending, nr_claimedAt = None, nr_claimToken = None\<rparr>, md_baseline = True, md_inProgress = True\<rparr>"

definition example_pass :: "nat option \<Rightarrow> mode_pass_input" where
  "example_pass stop = \<lparr>mi_args = example_mode_args, mi_stop = stop, mi_hasClient = True, mi_sent = True, mi_diesBeforeCommit = False\<rparr>"

text \<open>The process dies after the third write.\<close>

theorem flip_notice_is_not_lost_witness:
  "snd (snd (mode_pass (example_pass None) (fst (mode_step (example_mode_state, False, False) (Pass (example_pass (Some 3))))))) = Some OffFlipNotice"
proof -
  let ?x = "mode_step (example_mode_state, False, False) (Pass (example_pass (Some 3)))"
  have "snd ?x = (True, False)" by code_simp
  then have "foldl mode_step (example_mode_state, False, False) [Pass (example_pass (Some 3))] = (fst ?x, True, False)" by (simp add: prod_eq_iff)
  from flip_notice_is_not_lost [OF this, of "example_pass None"] show ?thesis by (simp add: example_pass_def)
qed

text \<open>
  C12: The mode settles. If no compaction that stays refers to a row of a marker, two undisturbed passes bring the record
  from any state to the configured mode, and a further pass changes nothing. A pass that has just turned the mode off
  leaves no marker record, pending marker, recovery latch, nudge intent, queued operation, cached baseline or marker row.
\<close>

theorem mode_settles_in_two_passes:
  assumes "undisturbed_pass i" "cr_verified (snd (cleanupOffMarkers (mi_args i) (md_host S)))"
  shows "let S1 = fst (mode_pass i S); S2 = fst (mode_pass i S1)
    in md_record S2 = Some (configured (mi_args i)) \<and> mode_pass i S2 = (S2, False, None)
       \<and> (md_record S \<in> {Some ModeOff, Some OffCleanupPending, Some OnNoticePending} \<or> md_record S1 \<noteq> Some ModeOff
          \<or> window_unmanaged (mi_args i) S1)"
proof -
  let ?S1 = "fst (mode_pass i S)" and ?A = "mi_args i"
  from first_pass [OF assms] have "md_record (fst (mode_pass i ?S1)) = Some (configured ?A)"
  proof (elim disjE conjE)
    assume "md_record ?S1 = Some (configured ?A)"
    then show ?thesis by (simp add: settled_stays)
  next
    assume "\<not> ma_compactionOff ?A" "md_record ?S1 = Some ModeOff"
    with on_pass_settles [OF assms(1), of ?S1] show ?thesis
      by (simp add: reconcileCompactionMode_def configured_def resolveCompactionModeRecord_def)
  next
    assume "ma_compactionOff ?A" "md_record ?S1 = Some ModeOn" "md_host ?S1 = md_host S"
    with off_pass_settles [OF assms(1), of ?S1] assms(2) show ?thesis
      by (simp add: reconcileCompactionMode_def configured_def)
  qed
  moreover have "window_unmanaged ?A ?S1"
    if "md_record S \<notin> {Some ModeOff, Some OffCleanupPending, Some OnNoticePending}" "md_record ?S1 = Some ModeOff"
  proof (cases "ma_compactionOff ?A \<or> md_record S = Some OffNoticePending")
    case True
    with that(1) have "reconcileCompactionMode ?A None S = off_transition ?A None S" by (auto simp: reconcileCompactionMode_def)
    from off_pass_settles [OF assms this] show ?thesis by simp
  next
    case False
    then have "md_record ?S1 = Some ModeOn" using first_pass [OF assms] that(1) by (auto simp: configured_def)
    with that(2) show ?thesis by simp
  qed
  ultimately show ?thesis using settled_stays by (simp add: Let_def) blast
qed

theorem mode_settles_in_two_passes_witness:
  "md_record (fst (mode_pass (example_pass None) (fst (mode_pass (example_pass None) example_mode_state)))) = Some ModeOff"
proof -
  have "cr_verified (snd (cleanupOffMarkers (mi_args (example_pass None)) (md_host example_mode_state)))" by code_simp
  moreover have "undisturbed_pass (example_pass None)" by (simp add: undisturbed_pass_def example_pass_def)
  ultimately show ?thesis
    using mode_settles_in_two_passes [of "example_pass None" example_mode_state]
    by (simp add: Let_def configured_def example_pass_def example_mode_args_def)
qed

text \<open>
  The retry of a cleanup unfolds the history without a word. In a session whose cleanup is pending, a pass removes
  the rows of markers that are no longer referred to, delivers no notice, and once the cleanup is verified leaves the
  record at off, where no later pass with that configuration tells the user anything. So the notice of C11 covers the
  transition only.
\<close>

theorem cleanup_retry_is_silent:
  assumes "md_record S = Some OffCleanupPending" "ma_compactionOff (mi_args i)" "undisturbed_pass i"
    and "cleanupOffMarkers (mi_args i) (md_host S) = (oc, r)" "cr_verified r" "0 < cr_removedRows r"
  shows "foldl mode_step (S, False, False) (replicate (Suc n) (Pass i)) = (S\<lparr>md_host := oc, md_record := Some ModeOff\<rparr>, False, True)"
proof -
  let ?S = "S\<lparr>md_host := oc, md_record := Some ModeOff\<rparr>"
  have "mode_pass i S = (?S, True, None)"
    using assms
    by (auto simp: mode_pass_def reconcileCompactionMode_def cleanup_retry_def undisturbed_pass_def stopped_def notice_delivered_def
        NO_TRANSITION_def commitCompactionModeRecord_def setCompactionModeRecord_def)
  then have first: "mode_step (S, False, False) (Pass i) = (?S, False, True)" using assms(1) by (simp add: mode_step_def)
  have "mode_pass i ?S = (?S, False, None)" by (rule settled_stays) (use assms(2) in \<open>simp add: configured_def\<close>)
  then have "mode_step (?S, False, True) (Pass i) = (?S, False, True)" by (simp add: mode_step_def)
  then have "foldl mode_step (?S, False, True) (replicate n (Pass i)) = (?S, False, True)" by (induction n) simp_all
  with first show ?thesis by simp
qed

text \<open>The markers of the fork are removed by the retry.\<close>

theorem cleanup_retry_is_silent_witness:
  "\<exists>oc. foldl mode_step (example_mode_state\<lparr>md_record := Some OffCleanupPending\<rparr>, False, False) [Pass (example_pass None), Pass (example_pass None)]
     = (example_mode_state\<lparr>md_host := oc, md_record := Some ModeOff\<rparr>, False, True)"
proof -
  let ?S = "example_mode_state\<lparr>md_record := Some OffCleanupPending\<rparr>" and ?c = "cleanupOffMarkers example_mode_args (md_host example_mode_state)"
  have c: "cr_verified (snd ?c)" "0 < cr_removedRows (snd ?c)" by code_simp+
  have "cleanupOffMarkers (mi_args (example_pass None)) (md_host ?S) = (fst ?c, snd ?c)" by (simp add: example_pass_def)
  from cleanup_retry_is_silent [OF _ _ _ this c, of 1] show ?thesis
    by (auto simp: undisturbed_pass_def example_pass_def example_mode_args_def)
qed

end
