(* ===== verification/Spec2Isabelle.thy ===== *)
theory Spec2Isabelle
  imports Wrapup_Boundary Snapshot_Validation Drain_Quota Leases Historian_Validation
    Emergency_Drop Channel2_Delivery Historian_Pass Session_References Decay_Render Session_Cache Content_Digests
    Task_Schedule Wire_Frames Tag_Adoption Tag_Queries Authority_Handover Bridge_Registry Network_Guard
    Compartment_Trigger Smart_Notes Marker_Recovery Compaction_Mode
begin

text \<open>
  Magic Context is a plugin for coding agents (OpenCode and Pi) that keeps a long session inside the
  model's context window. It watches the usage of every request, lets a background model, the
  historian, summarise the old part of the session into compartments, protects the live tail, and drops
  the content of spent tool calls. This development models the decisions of its TypeScript core,
  \<open>packages/plugin/src\<close>; paths below are relative to that directory. File and operation names are the
  source's; helper definitions for a loop body or a block of a function have lower-case names.

  The parts and their theories, in the order in which a request meets them:

  \<^item> \<open>Prelude\<close>: JavaScript numbers, strings, insertion-ordered maps, sorting; the interfaces
    \<open>machine\<close> and \<open>monotone_machine\<close> (operations that keep an invariant, and a level they never lower)
    and \<open>settling\<close> (bounded repair loops).
  \<^item> \<open>Execution_Policy\<close>: when a pass runs. Thresholds per model (\<open>hooks/magic-context/event-resolvers.ts\<close>,
    \<open>shared/harness-provider-map.ts\<close>), pressure bands (\<open>shared/escalation-bands.ts\<close>), the scheduler
    (\<open>features/magic-context/scheduler.ts\<close>), mid-turn deferral (\<open>boundary-execution.ts\<close>).
  \<^item> \<open>Raw_Messages\<close>, \<open>Tool_Arcs\<close>, \<open>Token_Index\<close>: the stored messages and what they cost
    (\<open>read-session-true-raw-tokens.ts\<close>): the estimate of a message, the pairing of tool calls with their
    results, and the prefix-sum index with its range, suffix and head queries.
  \<^item> \<open>Protected_Tail\<close>, \<open>Wrapup_Boundary\<close>, \<open>Snapshot_Validation\<close>: where the live tail starts and which head
    of the session the historian may take (\<open>protected-tail-boundary.ts\<close>), for automatic runs and manual
    wrap-ups, and when a stored snapshot of that decision is still good.
  \<^item> \<open>Compartment_Trigger\<close>: when the historian is started (\<open>compartment-trigger.ts\<close>): the tail in memory with its
    ordinals, the gate that spares the full read, the usage that the queued drops would leave, the inspection, which
    resolves the boundary over the tag table's totals and reads a chunk, and the decision.
  \<^item> \<open>Drain_Quota\<close>: how much may be drained per window (\<open>features/magic-context/storage-meta-persisted.ts\<close>).
  \<^item> \<open>Leases\<close>: who may write (\<open>compartment-lease.ts\<close>, the wrap-up marker, \<open>dreamer/lease.ts\<close>). The \<open>lease\<close>
    locale states what an exclusive lease promises; each of the three stores interprets it.
  \<^item> \<open>Historian_Validation\<close>: what is accepted from the historian (\<open>compartment-runner-mapping.ts\<close>,
    \<open>compartment-runner-validation.ts\<close>).
  \<^item> \<open>Regex\<close>, \<open>Regex_Facts\<close>: JavaScript regular expressions as a datatype with a backtracking matcher,
    for the patterns the sources use, and how literals, runs, lazy and greedy loops, search and replacement
    behave on a given text.
  \<^item> \<open>Chunk_Text\<close>, \<open>Session_Chunk\<close>: what the historian reads (\<open>read-session-formatting.ts\<close>,
    \<open>shared/commit-detection.ts\<close>, \<open>read-session-chunk.ts\<close>): the text of a message, blocks of one role under a
    token budget, the lines of the chunk and the ranges that hold only tool calls.
  \<^item> \<open>Compartment_Parser\<close>, \<open>Parser_Roundtrip\<close>, \<open>Historian_Pass\<close>: the historian's answer as data
    (\<open>compartment-parser.ts\<close>), the proof that printed compartments are read back as they were meant, and the pass as a
    whole (\<open>compartment-runner-validation.ts\<close>): a chunk, an answer that covers it, its parse and its validation.
    \<open>Session_References\<close>: the references the prompt shows (\<open>reference-retrieval.ts\<close>), which the same parser reads back.
    The limits of both are those of the parser: \<open>unescapeXml\<close> undoes the ampersand first.
  \<^item> \<open>Decay_Curve\<close>, \<open>Decay_Render\<close>: how the compartments are shown (\<open>decay-curve.ts\<close>, \<open>decay-render.ts\<close>): the
    tier of a compartment from its age, importance and the pressure of the budget, its heading and body, and the
    demotion of the oldest ones until the text fits.
  \<^item> \<open>Session_Cache\<close>, \<open>Content_Digests\<close>: what is kept between passes (\<open>shared/bounded-session-map.ts\<close>,
    \<open>lkg-slot.ts\<close>): the least-recently-used map, the store of last-known-good slots under a byte budget, and the
    digests that tell whether a message has changed. The \<open>session_store\<close> locale states what reading and
    writing by session promise; both stores interpret it.
  \<^item> \<open>Cron_Schedule\<close>, \<open>Task_Schedule\<close>: when background tasks run (\<open>features/magic-context/dreamer/cron.ts\<close>,
    \<open>task-scheduler.ts\<close>, \<open>storage-task-schedule.ts\<close>, \<open>task-registry.ts\<close>, \<open>smart-notes/schedule.ts\<close>).
  \<^item> \<open>Wire_Frames\<close>: the header of the frames exchanged with the native host
    (\<open>shared/mc-host-client/protocol.ts\<close>).
  \<^item> \<open>Tag_Ranges\<close>, \<open>Tag_Lifecycle\<close>: the \<open>ctx_reduce\<close> tool, its queue, the pass that applies the queue, and
    supersession (\<open>tools/ctx-reduce/tools.ts\<close>, \<open>storage-ops.ts\<close>, \<open>apply-operations.ts\<close>,
    \<open>supersession-reclaim.ts\<close>).
  \<^item> \<open>Tag_Table\<close>, \<open>Tag_Queries\<close>, \<open>Tag_Adoption\<close>, \<open>Tagger\<close>: the table of tags as it is stored
    (\<open>storage-tags.ts\<close>): its unique keys, writes and lookups; the selections and token sums other parts read and the
    floor of a load; the move of tags from fallback ids to real ones and the removal of a message; and the taggers
    that give out the numbers (\<open>tagger.ts\<close>), any number of them over one table, cut at the database statements.
    \<open>Tag_Lifecycle\<close> speaks of the rows of one session and of the columns the queue changes.
  \<^item> \<open>Mirror_Feed\<close>, \<open>Context_Authority\<close>, \<open>Authority_Handover\<close>, \<open>Bridge_Registry\<close>: which side owns the memories
    and notes of a project (\<open>features/magic-context/context-authority.ts\<close>): the mirror of the module's change feed,
    the marker that fences local writes, the handover to the module and back, the callers that recover or prepare a
    session (\<open>transform.ts\<close>, \<open>rust-mode-transform.ts\<close>) and the registry of bridges.
  \<^item> \<open>Marker_Rows\<close>, \<open>Marker_Manager\<close>: the marker in the host's database at which the host stops reading history
    (\<open>compaction-marker.ts\<close>, \<open>compaction-marker-manager.ts\<close>, the drain in \<open>transform-postprocess-phase.ts\<close>): its rows,
    the deferred and the direct move over two databases, hygiene after a fork, the check at startup. \<open>Marker_Facts\<close>,
    \<open>Marker_Recovery\<close>, \<open>Marker_Cleanup\<close>: the user's history is untouched, interrupted moves converge, and what
    the cleanups leave.
  \<^item> \<open>Compaction_Mode\<close>: turning the management of the window off and on (\<open>compaction-off-transition.ts\<close>): the record of
    a session, the writes of a transition, which may stop after any of them, and the notices.
  \<^item> \<open>Smart_Notes\<close>: notes that surface when a condition comes true (\<open>smart-notes/evaluation-state.ts\<close>,
    \<open>evaluator.ts\<close>, \<open>storage.ts\<close>, \<open>runner.ts\<close>, \<open>dreamer/evaluate-smart-notes.ts\<close>, \<open>storage-notes.ts\<close>): the states of
    a check, the four phases of an evaluation, the commit that compares revisions, the selections of a run, and any
    number of evaluating processes between the other writers of the table.
  \<^item> \<open>Network_Guard\<close>: which addresses the checks of smart notes may reach (\<open>smart-notes/ssrf-guard.ts\<close>): addresses
    as 32-bit and 128-bit words, the blocks that are not global, and the attempts to fetch a URL.
  \<^item> \<open>Emergency_Drop\<close>: the tiered drop near the wall (\<open>emergency-drop.ts\<close>, \<open>heuristic-cleanup.ts\<close>) and
    the decision to abort (\<open>transform-postprocess-phase.ts\<close>).
  \<^item> \<open>Nudges\<close>, \<open>Channel2_Delivery\<close>: the reminders to reduce (\<open>ctx-reduce-nudge.ts\<close>) and the
    compare-and-set protocol that delivers the ceiling reminder (\<open>channel2-delivery.ts\<close>).

  How they interact. The policy decides that a pass executes, the trigger that the historian runs. The boundary resolver builds the token
  index and the arcs of the raw messages, walks back from the end for the tail target, fences the result
  and caps the head; the snapshot is validated again before use. A reservation takes tokens out of the
  drain window, a compartment lease covers the run, the eligible head is read as a chunk, and the
  validated output extends the stored compartments, after which the publication floor moves; the stored
  compartments are rendered by their decay. Independently, queued and synthetic drops
  change tags and messages, the emergency pass does so tier by tier, and the nudges ask the agent to
  queue more.

  The domain groups of the task scheduler are state machines that go from one \<open>await\<close> to the next; an event resumes
  one of them, starts a tick or a manual run, or lets anything else happen.

  State and effects. A database row is a record, a table a list of records in row order, and a
  transaction one function from state to state; a clock reading is an argument. Where several processes
  share a row, an action is one atomic statement and the theorems speak of every interleaving of such
  actions. A result that can fail is a sum, an option or a datatype of the outcomes. Numbers: token
  counts and ordinals are \<open>int\<close> (JavaScript's safe integers), quotients and percentages are real, and a
  value the code tests with \<open>Number.isFinite\<close> is a \<open>jsnum\<close>; rounding inside double arithmetic is not
  modelled. Strings are lists of code units below 256.

  Parameters. The tokenizer, the size of an image, the hash of a content string, the format of numbers and
  dates, the local civil time of an instant, the rest of the database behind the background tasks (their gates, leases, executors and clock), the methods of a tag
  target over a message state of any type, the acceptance of a message by the host, and the routes of the
  Rust module over a state of any type, the parsers of URLs and domains, the resolver and the requests of a
  network check, the compiler, the sandbox and the confirmation of smart notes, and the hash behind the ids of a
  marker are arguments of the definitions that use them. What other writers do to the database while a route is awaited is an argument, too. The theorems about the module assume that its answers
  describe who owns a domain of this store and project (\<open>truthful_status\<close>, \<open>truthful_prepare\<close>), that pulling changes
  no owner, and that its feed is paged as the module pages it (\<open>feed_page\<close>) or drains (\<open>feed_drains\<close>). Those about
  markers fix the targets and boundaries of a run and assume that none of the finitely many ids that the hash gives for
  them (\<open>mints\<close>) is an id of the host's or is made up by it later; every other id, of the host's format or not, is free.

  What the lemmas show. Type and well-formedness invariants: ordered snapshots, canonical ranges,
  compartments without gap or overlap, rows that only move from active to dropped, non-negative
  quotas. Safety: the newest prompt, the protected tags and the pairs of calls and results survive;
  leases exclude; fenced writers stay fenced; one message per nudge cycle and per event that re-arms it; a disabled task
  is not run by the timer; the user's history outlives every move of a marker; one tag
  number per tool call, whoever asks. Functional behaviour: the index
  queries against sums over the messages, the greedy head cut, the shortest drop, the exact conditions of
  decisions, the first matching minute of a schedule, a chunk that accounts for every message. Equivalence and
  refinement: incremental digests against full ones, the bounded map, with its answers, against stamped uses,
  evaluations of notes from snapshots against atomic ones. Round trips: frame headers, session references, the historian's answers. Termination: the repair loops take one pass per arc and one to see that nothing changed;
  \<open>settling\<close> shows that the limit of one pass more than there are arcs reaches the fixed point. A greedy
  loop of a regular expression repeats at most as often as characters are left, which is as often as
  it can match a non-empty text. The pull loop of the change feed has fuel, one turn more than there are new rows is
  enough; the drain needs none, its cursor and its attempts are the measures. Every other recursion is structural or
  has a measure.

  Not modelled: SQLite and its schema, the rewriting of the host's messages, the prompts, the user
  interfaces, configuration files, the native and Rust crates, the Pi plugin and the command-line tool.
  Next: the tagging of the messages and their targets, the replay of last-known-good slots, the
  deduplication of the heuristic cleanup.
\<close>

end
